(* ===== verification/Prelude.thy ===== *)
theory Prelude
  imports Main "HOL-Library.Word"
begin

text \<open>
  Shared vocabulary of the development: byte strings and the little-endian \<open>DataView\<close>
  accesses of the wire protocol, the insertion-ordered JavaScript \<open>Map\<close>, the result type of
  code that may throw, the fact collections, and the locales that state the contracts several
  components share (a codec, a self-delimiting codec, a machine with an invariant, a machine with
  a monotone fence).
\<close>

section \<open>Fact collections\<close>

named_theorems wire_simps \<open>evaluation of the byte-level accessors\<close>
named_theorems jsmap_simps \<open>lookup in updated insertion-ordered maps\<close>
named_theorems guard_defs \<open>definitions that are only guards of an operation\<close>

section \<open>Results of code that may throw\<close>

text \<open>\<open>Inl\<close> is a thrown error, \<open>Inr\<close> a returned value.\<close>

definition bindR :: "('e + 'a) \<Rightarrow> ('a \<Rightarrow> 'e + 'b) \<Rightarrow> 'e + 'b" where
  "bindR r k = (case r of Inl e \<Rightarrow> Inl e | Inr x \<Rightarrow> k x)"

lemma bindR_simps [simp]:
  "bindR (Inl e) k = Inl e"
  "bindR (Inr x) k = k x"
  by (simp_all add: bindR_def)

lemma bindR_Inr_iff: "bindR r k = Inr y \<longleftrightarrow> (\<exists>x. r = Inr x \<and> k x = Inr y)"
  by (cases r) auto

lemma bindR_Inl_iff: "bindR r k = Inl e \<longleftrightarrow> r = Inl e \<or> (\<exists>x. r = Inr x \<and> k x = Inl e)"
  by (cases r) auto

definition okR :: "('e + 'a) \<Rightarrow> bool" where
  "okR r \<longleftrightarrow> (case r of Inl _ \<Rightarrow> False | Inr _ \<Rightarrow> True)"

lemma okR_simps [simp]: "okR (Inr x)" "\<not> okR (Inl e)"
  by (simp_all add: okR_def)

lemma okR_iff: "okR r \<longleftrightarrow> (\<exists>x. r = Inr x)"
  by (cases r) auto

text \<open>Mapping a throwing function over a list stops at the first error, as a loop would.\<close>

fun mapR :: "('a \<Rightarrow> 'e + 'b) \<Rightarrow> 'a list \<Rightarrow> 'e + 'b list" where
  "mapR f [] = Inr []"
| "mapR f (x # xs) = bindR (f x) (\<lambda>y. bindR (mapR f xs) (\<lambda>ys. Inr (y # ys)))"

lemma mapR_Inr_iff: "mapR f xs = Inr ys \<longleftrightarrow> list_all2 (\<lambda>x y. f x = Inr y) xs ys"
proof (induction xs arbitrary: ys)
  case Nil
  then show ?case by auto
next
  case (Cons x xs)
  show ?case
    by (cases ys) (auto simp: bindR_Inr_iff Cons.IH)
qed

section \<open>Code that updates its state and may throw\<close>

text \<open>
  An operation on a state that may throw: what it wrote before the throw stays written, as in the
  code. \<open>readS\<close> reads the state, \<open>forS\<close> is a loop over a list that stops at the first throw; \<open>keeps g m\<close> says
  that \<open>m\<close> leaves the part \<open>g\<close> of the state alone, whether it throws or returns.
\<close>

type_synonym ('s, 'e, 'a) se = "'s \<Rightarrow> 's \<times> ('e + 'a)"

definition returnS :: "'a \<Rightarrow> ('s, 'e, 'a) se" where "returnS x s = (s, Inr x)"
definition throwS :: "'e \<Rightarrow> ('s, 'e, 'a) se" where "throwS e s = (s, Inl e)"
definition modifyS :: "('s \<Rightarrow> 's) \<Rightarrow> ('s, 'e, unit) se" where "modifyS f s = (f s, Inr ())"

definition bindS :: "('s, 'e, 'a) se \<Rightarrow> ('a \<Rightarrow> ('s, 'e, 'b) se) \<Rightarrow> ('s, 'e, 'b) se" where
  "bindS m k s = (case m s of (s', Inl e) \<Rightarrow> (s', Inl e) | (s', Inr x) \<Rightarrow> k x s')"

definition readS :: "('s \<Rightarrow> ('s, 'e, 'a) se) \<Rightarrow> ('s, 'e, 'a) se" where "readS k s = k s s"

fun forS :: "('x \<Rightarrow> ('s, 'e, unit) se) \<Rightarrow> 'x list \<Rightarrow> ('s, 'e, unit) se" where
  "forS f [] = returnS ()"
| "forS f (x # xs) = bindS (f x) (\<lambda>_. forS f xs)"

definition keeps :: "('s \<Rightarrow> 'v) \<Rightarrow> ('s, 'e, 'a) se \<Rightarrow> bool" where
  "keeps g m \<longleftrightarrow> (\<forall>s. g (fst (m s)) = g s)"

named_theorems keeps_intro \<open>operations that leave a part of the state alone\<close>

lemma keeps_return [keeps_intro]: "keeps g (returnS x)"
  by (simp add: keeps_def returnS_def)

lemma keeps_throw [keeps_intro]: "keeps g (throwS e)"
  by (simp add: keeps_def throwS_def)

lemma keeps_read [keeps_intro]: "(\<And>s. keeps g (k s)) \<Longrightarrow> keeps g (readS k)"
  by (simp add: keeps_def readS_def)

lemma keeps_modify: "(\<And>s. g (f s) = g s) \<Longrightarrow> keeps g (modifyS f)"
  by (simp add: keeps_def modifyS_def)

lemma keeps_bind [keeps_intro]: "keeps g m \<Longrightarrow> (\<And>x. keeps g (k x)) \<Longrightarrow> keeps g (bindS m k)"
  unfolding keeps_def bindS_def
proof (intro allI)
  fix s assume m: "\<forall>s. g (fst (m s)) = g s" and k: "\<And>x. \<forall>s. g (fst (k x s)) = g s"
  obtain s' r where "m s = (s', r)" by (cases "m s")
  with m k show "g (fst (case m s of (s', Inl e) \<Rightarrow> (s', Inl e) | (s', Inr x) \<Rightarrow> k x s')) = g s"
    by (cases r) (auto dest: spec [of _ s])
qed

lemma keeps_for [keeps_intro]: "(\<And>x. keeps g (f x)) \<Longrightarrow> keeps g (forS f xs)"
  by (induction xs) (auto intro: keeps_intro)

lemma keeps_if [keeps_intro]: "keeps g m \<Longrightarrow> keeps g n \<Longrightarrow> keeps g (if b then m else n)"
  by simp

lemma keepsD: "keeps g m \<Longrightarrow> g (fst (m s)) = g s"
  by (simp add: keeps_def)

lemma keeps_result: "keeps g m \<Longrightarrow> m s = (s', r) \<Longrightarrow> g s' = g s"
  unfolding keeps_def by (metis fst_conv)

text \<open>
  \<open>obeys rel m\<close>: from every state, throwing or returning, \<open>m\<close> ends in a state related to the first. The laws need a preorder;
  an invariant gives one, and so does "later in the same history".
\<close>

definition obeys :: "('s \<Rightarrow> 's \<Rightarrow> bool) \<Rightarrow> ('s, 'e, 'a) se \<Rightarrow> bool" where
  "obeys rel m \<longleftrightarrow> (\<forall>s. rel s (fst (m s)))"

lemma obeysD: "obeys rel m \<Longrightarrow> rel s (fst (m s))"
  by (simp add: obeys_def)

lemma obeys_result: "obeys rel m \<Longrightarrow> m s = (s', r) \<Longrightarrow> rel s s'"
  unfolding obeys_def by (metis fst_conv)

locale op_preorder =
  fixes rel :: "'s \<Rightarrow> 's \<Rightarrow> bool"
  assumes rel_refl: "rel s s"
    and rel_trans: "rel s t \<Longrightarrow> rel t u \<Longrightarrow> rel s u"
begin

lemma obeys_return: "obeys rel (returnS x)"
  by (simp add: obeys_def returnS_def rel_refl)

lemma obeys_throw: "obeys rel (throwS e)"
  by (simp add: obeys_def throwS_def rel_refl)

lemma obeys_modify: "(\<And>s. rel s (f s)) \<Longrightarrow> obeys rel (modifyS f)"
  by (simp add: obeys_def modifyS_def)

lemma obeys_read: "(\<And>s. obeys rel (k s)) \<Longrightarrow> obeys rel (readS k)"
  by (simp add: obeys_def readS_def)

lemma obeys_bind: "obeys rel m \<Longrightarrow> (\<And>x. obeys rel (k x)) \<Longrightarrow> obeys rel (bindS m k)"
  unfolding obeys_def bindS_def
proof (intro allI)
  fix s assume m: "\<forall>s. rel s (fst (m s))" and k: "\<And>x. \<forall>s. rel s (fst (k x s))"
  obtain s' r where s': "m s = (s', r)" by (cases "m s")
  with m have "rel s s'" by (metis fst_conv)
  with k s' rel_trans show "rel s (fst (case m s of (s', Inl e) \<Rightarrow> (s', Inl e) | (s', Inr x) \<Rightarrow> k x s'))"
    by (cases r) auto
qed

lemma obeys_for: "(\<And>x. x \<in> set xs \<Longrightarrow> obeys rel (f x)) \<Longrightarrow> obeys rel (forS f xs)"
  by (induction xs) (auto intro: obeys_return obeys_bind)

lemma obeys_if: "obeys rel m \<Longrightarrow> obeys rel n \<Longrightarrow> obeys rel (if b then m else n)"
  by simp

lemma obeys_option: "obeys rel m \<Longrightarrow> (\<And>x. obeys rel (k x)) \<Longrightarrow> obeys rel (case y of None \<Rightarrow> m | Some x \<Rightarrow> k x)"
  by (cases y) auto

lemma obeys_sum: "(\<And>x. obeys rel (f x)) \<Longrightarrow> (\<And>x. obeys rel (k x)) \<Longrightarrow> obeys rel (case y of Inl x \<Rightarrow> f x | Inr x \<Rightarrow> k x)"
  by (cases y) auto

lemmas obeys_rules = obeys_return obeys_throw obeys_modify obeys_read obeys_bind obeys_for
  obeys_if obeys_option obeys_sum

end

lemma bindS_Inr:
  "bindS m k s = (s'', Inr y) \<longleftrightarrow> (\<exists>s' x. m s = (s', Inr x) \<and> k x s' = (s'', Inr y))"
  by (cases "m s"; cases "snd (m s)") (auto simp: bindS_def)

text \<open>\<open>Uint8Array.slice\<close> in steps: the pieces a loop over \<open>start += n\<close> cuts.\<close>

function slices :: "nat \<Rightarrow> 'a list \<Rightarrow> 'a list list" where
  "slices n xs = (if xs = [] \<or> n = 0 then [] else take n xs # slices n (drop n xs))"
  by pat_completeness auto
termination by (relation "measure (\<lambda>(n, xs). length xs)") auto

declare slices.simps [simp del]

lemma concat_slices: "0 < n \<Longrightarrow> concat (slices n xs) = xs"
  by (induction n xs rule: slices.induct) (subst slices.simps, auto)

lemma slices_nonempty: "ys \<in> set (slices n xs) \<Longrightarrow> ys \<noteq> [] \<and> length ys \<le> n"
proof (induction n xs rule: slices.induct)
  case (1 n xs)
  show ?case
  proof (cases "xs = [] \<or> n = 0")
    case True
    with "1.prems" show ?thesis by (subst (asm) slices.simps) simp
  next
    case False
    with "1.prems" have "ys = take n xs \<or> ys \<in> set (slices n (drop n xs))"
      by (subst (asm) slices.simps) simp
    with False "1.IH" show ?thesis by auto
  qed
qed

section \<open>Bytes and little-endian fields\<close>

type_synonym bytes = "8 word list"

fun le_put :: "nat \<Rightarrow> int \<Rightarrow> bytes" where
  "le_put 0 v = []"
| "le_put (Suc n) v = word_of_int v # le_put n (v div 256)"

fun le_get :: "bytes \<Rightarrow> int" where
  "le_get [] = 0"
| "le_get (b # bs) = uint b + 256 * le_get bs"

lemma length_le_put [simp]: "length (le_put n v) = n"
  by (induction n arbitrary: v) auto

lemma uint_byte_bounds: "0 \<le> uint (b :: 8 word)" "uint (b :: 8 word) < 256"
  using uint_lt2p [of b] by auto

lemma le_get_nonneg: "0 \<le> le_get bs"
  by (induction bs) auto

lemma le_get_bound: "le_get bs < 256 ^ length bs"
proof (induction bs)
  case Nil
  then show ?case by simp
next
  case (Cons b bs)
  then show ?case using uint_byte_bounds [of b] by simp
qed

lemma mod_256_split: "(v :: int) mod 256 + 256 * (v div 256 mod m) = v mod (256 * m)" if "0 < m"
proof -
  have "v mod (256 * m) = 256 * (v div 256 mod m) + v mod 256"
    by (rule zmod_zmult2_eq) (use that in simp)
  then show ?thesis by simp
qed

lemma le_get_le_put [wire_simps]: "le_get (le_put n v) = v mod 256 ^ n"
proof (induction n arbitrary: v)
  case 0
  then show ?case by simp
next
  case (Suc n)
  have "uint (word_of_int v :: 8 word) = v mod 256"
    by (simp add: uint_word_of_int)
  with Suc show ?case using mod_256_split [of "256 ^ n" v] by simp
qed

lemma le_get_le_put_id: "0 \<le> v \<Longrightarrow> v < 256 ^ n \<Longrightarrow> le_get (le_put n v) = v"
  by (simp add: le_get_le_put)

lemma le_put_le_get: "le_put (length bs) (le_get bs) = bs"
proof (induction bs)
  case Nil
  then show ?case by simp
next
  case (Cons b bs)
  have "(uint b + 256 * le_get bs) div 256 = le_get bs"
    using uint_byte_bounds [of b] by simp
  moreover have "word_of_int (uint b + 256 * le_get bs) = b"
  proof -
    have "(word_of_int (uint b + 256 * le_get bs) :: 8 word) = word_of_int (uint b)"
      by (simp only: word_of_int_eq_iff) (simp add: take_bit_eq_mod)
    then show ?thesis by simp
  qed
  ultimately show ?case using Cons by simp
qed

lemma le_put_le_get_len: "length bs = n \<Longrightarrow> le_put n (le_get bs) = bs"
  using le_put_le_get by auto

section \<open>Reading and writing a buffer at an offset\<close>

text \<open>
  \<open>peek off n buf\<close> is the byte range a \<open>DataView\<close> getter or \<open>subarray\<close> reads;
  \<open>poke off bs buf\<close> overwrites the range a setter or \<open>Uint8Array.set\<close> writes.
\<close>

definition peek :: "nat \<Rightarrow> nat \<Rightarrow> bytes \<Rightarrow> bytes" where
  "peek off n buf = take n (drop off buf)"

definition poke :: "nat \<Rightarrow> bytes \<Rightarrow> bytes \<Rightarrow> bytes" where
  "poke off bs buf = take off buf @ bs @ drop (off + length bs) buf"

lemma length_peek [simp]: "off + n \<le> length buf \<Longrightarrow> length (peek off n buf) = n"
  by (simp add: peek_def)

lemma length_poke [simp]: "off + length bs \<le> length buf \<Longrightarrow> length (poke off bs buf) = length buf"
  by (simp add: poke_def)

lemma peek_append1: "off + n \<le> length xs \<Longrightarrow> peek off n (xs @ ys) = peek off n xs"
  by (simp add: peek_def)

lemma peek_append2: "length xs \<le> off \<Longrightarrow> peek off n (xs @ ys) = peek (off - length xs) n ys"
  by (simp add: peek_def)

lemma peek_0_append [simp]: "peek 0 (length xs) (xs @ ys) = xs"
  by (simp add: peek_def)

lemma peek_poke_same:
  "off + length bs \<le> length buf \<Longrightarrow> n = length bs \<Longrightarrow> peek off n (poke off bs buf) = bs"
  by (simp add: peek_def poke_def)

lemma peek_poke_before:
  "off + n \<le> off' \<Longrightarrow> off' + length bs \<le> length buf \<Longrightarrow>
   peek off n (poke off' bs buf) = peek off n buf"
  by (rule nth_equalityI) (auto simp: peek_def poke_def nth_append)

lemma peek_poke_after:
  "off' + length bs \<le> off \<Longrightarrow> off' + length bs \<le> length buf \<Longrightarrow>
   peek off n (poke off' bs buf) = peek off n buf"
  by (simp add: peek_def poke_def)

lemma drop_poke_after:
  "off' + length bs \<le> off \<Longrightarrow> off' + length bs \<le> length buf \<Longrightarrow>
   drop off (poke off' bs buf) = drop off buf"
  by (simp add: poke_def)

section \<open>Insertion-ordered maps\<close>

text \<open>
  A JavaScript \<open>Map\<close> iterates in insertion order; \<open>set\<close> on a present key keeps its
  position. It is an association list with distinct keys.
\<close>

type_synonym ('k, 'v) jsmap = "('k \<times> 'v) list"

fun jm_set :: "'k \<Rightarrow> 'v \<Rightarrow> ('k, 'v) jsmap \<Rightarrow> ('k, 'v) jsmap" where
  "jm_set k v [] = [(k, v)]"
| "jm_set k v ((k', v') # m) = (if k = k' then (k, v) # m else (k', v') # jm_set k v m)"

definition jm_delete :: "'k \<Rightarrow> ('k, 'v) jsmap \<Rightarrow> ('k, 'v) jsmap" where
  "jm_delete k m = filter (\<lambda>p. fst p \<noteq> k) m"

abbreviation jm_get :: "('k, 'v) jsmap \<Rightarrow> 'k \<Rightarrow> 'v option" where
  "jm_get \<equiv> map_of"

abbreviation jm_keys :: "('k, 'v) jsmap \<Rightarrow> 'k list" where
  "jm_keys m \<equiv> map fst m"

definition jm_wf :: "('k, 'v) jsmap \<Rightarrow> bool" where
  "jm_wf m \<longleftrightarrow> distinct (map fst m)"

lemma jm_get_set [jsmap_simps]: "jm_get (jm_set k v m) k' = (if k' = k then Some v else jm_get m k')"
  by (induction m) auto

lemma jm_get_delete [jsmap_simps]: "jm_get (jm_delete k m) k' = (if k' = k then None else jm_get m k')"
  by (induction m) (auto simp: jm_delete_def)

lemma jm_keys_set:
  "map fst (jm_set k v m) = (if k \<in> fst ` set m then map fst m else map fst m @ [k])"
  by (induction k v m rule: jm_set.induct) simp_all

lemma jm_keys_delete: "map fst (jm_delete k m) = filter (\<lambda>x. x \<noteq> k) (map fst m)"
  by (induction m) (auto simp: jm_delete_def)

lemma jm_wf_Nil [simp]: "jm_wf []"
  by (simp add: jm_wf_def)

lemma jm_wf_set [simp, intro]: "jm_wf m \<Longrightarrow> jm_wf (jm_set k v m)"
  by (simp add: jm_wf_def jm_keys_set)

lemma jm_wf_delete [simp, intro]: "jm_wf m \<Longrightarrow> jm_wf (jm_delete k m)"
  by (simp add: jm_wf_def jm_keys_delete)

lemma jm_wf_Cons: "jm_wf (p # m) \<longleftrightarrow> fst p \<notin> fst ` set m \<and> jm_wf m"
  by (simp add: jm_wf_def)

lemma jm_mem_iff: "jm_wf m \<Longrightarrow> (k, v) \<in> set m \<longleftrightarrow> jm_get m k = Some v"
  unfolding jm_wf_def using map_of_eq_Some_iff [of m k v] by simp

lemma set_jm_delete: "set (jm_delete k m) = {p \<in> set m. fst p \<noteq> k}"
  by (auto simp: jm_delete_def)

lemma fst_set_jm_set: "fst ` set (jm_set k v m) = insert k (fst ` set m)"
  by (induction k v m rule: jm_set.induct) (simp_all add: insert_commute)

lemma jm_get_None_iff: "jm_get m k = None \<longleftrightarrow> k \<notin> fst ` set m"
  by (simp add: map_of_eq_None_iff)

lemma jm_get_Some_key: "jm_get m k = Some v \<Longrightarrow> k \<in> fst ` set m"
  by (metis jm_get_None_iff option.distinct(1))

lemma length_jm_set: "length (jm_set k v m) = (if k \<in> fst ` set m then length m else Suc (length m))"
  by (induction k v m rule: jm_set.induct) simp_all

lemma jm_set_absent: "k \<notin> fst ` set m \<Longrightarrow> jm_set k v m = m @ [(k, v)]"
  by (induction k v m rule: jm_set.induct) simp_all

lemma length_jm_delete_le: "length (jm_delete k m) \<le> length m"
  by (simp add: jm_delete_def)

section \<open>Contracts several components share\<close>

subsection \<open>A codec: canonical, lossless encoding\<close>

text \<open>
  The provider promises that what it encodes decodes to itself, and that whatever it accepts is
  exactly the encoding of what it returns. The client gets injectivity in both directions.
\<close>

locale wire_codec =
  fixes enc :: "'a \<Rightarrow> 'e + bytes" and dec :: "bytes \<Rightarrow> 'e + 'a"
  assumes dec_enc: "enc x = Inr bs \<Longrightarrow> dec bs = Inr x"
    and enc_dec: "dec bs = Inr x \<Longrightarrow> enc x = Inr bs"
begin

lemma enc_inj: "enc x = Inr bs \<Longrightarrow> enc y = Inr bs \<Longrightarrow> x = y"
  using dec_enc [of x bs] dec_enc [of y bs] by simp

lemma dec_inj: "dec bs = Inr x \<Longrightarrow> dec cs = Inr x \<Longrightarrow> bs = cs"
  using enc_dec [of bs x] enc_dec [of cs x] by simp

lemma accepts_iff: "okR (dec bs) \<longleftrightarrow> (\<exists>x. enc x = Inr bs)"
  unfolding okR_iff by (blast intro: dec_enc enc_dec)

end

text \<open>A self-delimiting codec announces in its prefix how long the encoding is.\<close>

locale framed_codec = wire_codec enc dec
  for enc :: "'a \<Rightarrow> 'e + bytes" and dec :: "bytes \<Rightarrow> 'e + 'a" +
  fixes announced :: "bytes \<Rightarrow> nat"
  assumes announced_enc: "enc x = Inr bs \<Longrightarrow> announced (bs @ rest) = length bs"
    and enc_nonempty: "enc x = Inr bs \<Longrightarrow> bs \<noteq> []"
begin

lemma enc_prefix_free:
  assumes "enc x = Inr bs" "enc y = Inr cs" "bs @ r = cs @ s"
  shows "bs = cs \<and> r = s \<and> x = y"
proof -
  have "length bs = length cs"
    using announced_enc [OF assms(1), of r] announced_enc [OF assms(2), of s] assms(3) by simp
  with assms(3) have "bs = cs" "r = s" by auto
  with assms(1,2) show ?thesis using enc_inj by blast
qed

lemma concat_enc_inj:
  assumes "mapR enc xs = Inr bss" "mapR enc ys = Inr css" "concat bss = concat css"
  shows "xs = ys"
  using assms
proof (induction xs arbitrary: ys bss css)
  case Nil
  show ?case
  proof (cases ys)
    case (Cons y ys')
    with Nil.prems obtain c where "enc y = Inr c" "c = []"
      by (auto simp: bindR_Inr_iff)
    then show ?thesis using enc_nonempty by blast
  qed simp
next
  case (Cons x xs)
  from Cons.prems(1) obtain b bss' where
    b: "enc x = Inr b" and bss: "mapR enc xs = Inr bss'" "bss = b # bss'"
    by (auto simp: bindR_Inr_iff)
  have "b \<noteq> []" using b by (rule enc_nonempty)
  with Cons.prems bss obtain y ys' where ys: "ys = y # ys'"
    by (cases ys) auto
  from Cons.prems(2) ys obtain c css' where
    c: "enc y = Inr c" and css: "mapR enc ys' = Inr css'" "css = c # css'"
    by (auto simp: bindR_Inr_iff)
  have "x = y \<and> concat bss' = concat css'"
    using enc_prefix_free [OF b c] Cons.prems(3) bss(2) css(2) by simp
  with Cons.IH [OF bss(1) css(1)] ys show ?case by simp
qed

end

subsection \<open>A machine: operations as events, runs as folds\<close>

text \<open>
  Each stateful component has a step function over an event type with one constructor per public
  operation. A run is \<open>foldl step\<close>. The provider proves the one-step law; the clients use the
  law for runs.
\<close>

locale inv_machine =
  fixes step :: "'s \<Rightarrow> 'e \<Rightarrow> 's" and inv :: "'s \<Rightarrow> bool"
  assumes step_inv: "inv s \<Longrightarrow> inv (step s e)"
begin

lemma run_inv: "inv s \<Longrightarrow> inv (foldl step s es)"
  by (induction es arbitrary: s) (auto intro: step_inv)

end

text \<open>A tracked machine: a preorder that every operation obeys, such as "later in the same history".\<close>

locale tracked_machine = inv_machine step inv
  for step :: "'s \<Rightarrow> 'e \<Rightarrow> 's" and inv :: "'s \<Rightarrow> bool" +
  fixes rel :: "'s \<Rightarrow> 's \<Rightarrow> bool"
  assumes rel_refl: "rel s s"
    and rel_trans: "rel s t \<Longrightarrow> rel t u \<Longrightarrow> rel s u"
    and step_rel: "inv s \<Longrightarrow> rel s (step s e)"
begin

lemma run_rel: "inv s \<Longrightarrow> rel s (foldl step s es)"
proof (induction es arbitrary: s)
  case Nil
  then show ?case by (simp add: rel_refl)
next
  case (Cons e es)
  from rel_trans [OF step_rel [OF Cons.prems] Cons.IH [OF step_inv [OF Cons.prems]]] show ?case by simp
qed

lemma run_between: "inv s \<Longrightarrow> rel (foldl step s es) (foldl step s (es @ es'))"
  using run_rel [of "foldl step s es" es'] run_inv [of s es] by simp

end

text \<open>A fenced machine: a fence value that no operation ever lowers.\<close>

locale fenced_machine = inv_machine step inv
  for step :: "'s \<Rightarrow> 'e \<Rightarrow> 's" and inv :: "'s \<Rightarrow> bool" +
  fixes fence :: "'s \<Rightarrow> 'f :: linorder"
  assumes fence_step: "inv s \<Longrightarrow> fence s \<le> fence (step s e)"
begin

lemma fence_run: "inv s \<Longrightarrow> fence s \<le> fence (foldl step s es)"
  by (induction es arbitrary: s) (auto intro: order_trans [OF fence_step] step_inv)

lemma fence_between:
  "inv s \<Longrightarrow> fence (foldl step s es) \<le> fence (foldl step s (es @ es'))"
  using fence_run [of "foldl step s es" es'] run_inv [of s es] by simp

end

sublocale fenced_machine \<subseteq> fence: tracked_machine step inv "\<lambda>s s'. fence s \<le> fence s'"
  by unfold_locales (auto intro: order_trans fence_step)

text \<open>A granting machine hands out values of its fence: each is above the fence of the moment, so none is handed out twice.\<close>

fun run_grants :: "('s \<Rightarrow> 'e \<Rightarrow> 's) \<Rightarrow> ('s \<Rightarrow> 'e \<Rightarrow> 'f option) \<Rightarrow> 's \<Rightarrow> 'e list \<Rightarrow> 'f list" where
  "run_grants step grant s [] = []"
| "run_grants step grant s (e # es) =
     (case grant s e of None \<Rightarrow> [] | Some f \<Rightarrow> [f]) @ run_grants step grant (step s e) es"

locale granting_machine = fenced_machine step inv fence
  for step :: "'s \<Rightarrow> 'e \<Rightarrow> 's" and inv :: "'s \<Rightarrow> bool" and fence :: "'s \<Rightarrow> 'f :: linorder" +
  fixes grant :: "'s \<Rightarrow> 'e \<Rightarrow> 'f option"
  assumes grant_above: "inv s \<Longrightarrow> grant s e = Some f \<Longrightarrow> fence s < f \<and> f \<le> fence (step s e)"
begin

lemma grants_rise: "inv s \<Longrightarrow> sorted_wrt (<) (run_grants step grant s es) \<and> (\<forall>f \<in> set (run_grants step grant s es). fence s < f)"
proof (induction es arbitrary: s)
  case Nil
  then show ?case by simp
next
  case (Cons e es)
  have ih: "sorted_wrt (<) (run_grants step grant (step s e) es)"
    "\<forall>f \<in> set (run_grants step grant (step s e) es). fence (step s e) < f"
    using Cons.IH [OF step_inv [OF Cons.prems]] by auto
  show ?case
  proof (cases "grant s e")
    case None
    with ih fence_step [OF Cons.prems, of e] show ?thesis by (auto intro: le_less_trans)
  next
    case (Some f)
    with grant_above [OF Cons.prems Some] ih fence_step [OF Cons.prems, of e] show ?thesis
      by (auto intro: le_less_trans)
  qed
qed

end

text \<open>
  A machine whose operations may fail: the provider proves that from a good state every operation succeeds, keeps the state good
  and does what the abstract specification says; the clients get the same for every history.
\<close>

fun run_steps :: "('e \<Rightarrow> 's \<Rightarrow> 's option) \<Rightarrow> 'e list \<Rightarrow> 's \<Rightarrow> 's option" where
  "run_steps step [] s = Some s"
| "run_steps step (e # es) s = Option.bind (step e s) (run_steps step es)"

locale refined_machine =
  fixes step :: "'e \<Rightarrow> 's \<Rightarrow> 's option" and inv :: "'s \<Rightarrow> bool" and abs :: "'s \<Rightarrow> 'a" and spec :: "'a \<Rightarrow> 'e \<Rightarrow> 'a"
  assumes step_refines: "inv s \<Longrightarrow> \<exists>s'. step e s = Some s' \<and> inv s' \<and> abs s' = spec (abs s) e"
begin

lemma run_refines: "inv s \<Longrightarrow> \<exists>s'. run_steps step es s = Some s' \<and> inv s' \<and> abs s' = foldl spec (abs s) es"
proof (induction es arbitrary: s)
  case Nil
  then show ?case by simp
next
  case (Cons e es)
  obtain s1 where "step e s = Some s1" "inv s1" "abs s1 = spec (abs s) e"
    using step_refines [OF Cons.prems] by blast
  with Cons.IH [of s1] show ?case by simp
qed

end

end
