(* ===== verification/Scalars.thy ===== *)
theory Scalars
  imports Prelude
begin

text \<open>
  \<open>packages/protocol/src/scalars.ts\<close>: the unsigned 64-bit decimal strings that carry every
  sequence number, offset, generation and fence over JSON. A control frame compares such strings
  with \<open>===\<close>, or reads them with \<open>BigInt\<close> and prints them with \<open>toString\<close>; the round trips here
  show that on accepted strings the two views agree, which is why the other theories hold these
  fields as integers.
\<close>

definition MAX_U64 :: int where
  "MAX_U64 = 18446744073709551615"

lemma MAX_U64_pow: "MAX_U64 = 2 ^ 64 - 1"
  by (simp add: MAX_U64_def)

text \<open>\<open>value < 0n || value > MAX_U64\<close>, negated.\<close>

definition is_u64 :: "int \<Rightarrow> bool" where
  "is_u64 v \<longleftrightarrow> 0 \<le> v \<and> v \<le> MAX_U64"

lemma is_u64_256: "is_u64 v \<longleftrightarrow> 0 \<le> v \<and> v < 256 ^ 8"
  by (auto simp: is_u64_def MAX_U64_def)

section \<open>\<open>BigInt\<close> and \<open>toString\<close> on decimal numerals\<close>

definition is_digit :: "char \<Rightarrow> bool" where
  "is_digit c \<longleftrightarrow> 48 \<le> (of_char c :: nat) \<and> (of_char c :: nat) \<le> 57"

text \<open>The pattern \<open>/^[A-Za-z0-9_-]{16,128}$/\<close>.\<close>

definition identifier_char :: "char \<Rightarrow> bool" where
  "identifier_char c \<longleftrightarrow> is_digit c \<or> c = CHR ''_'' \<or> c = CHR ''-'' \<or>
     (65 \<le> (of_char c :: nat) \<and> (of_char c :: nat) \<le> 90) \<or> (97 \<le> (of_char c :: nat) \<and> (of_char c :: nat) \<le> 122)"

definition identifier_ok :: "string \<Rightarrow> bool" where
  "identifier_ok s \<longleftrightarrow> 16 \<le> length s \<and> length s \<le> 128 \<and> list_all identifier_char s"

definition digit_val :: "char \<Rightarrow> nat" where
  "digit_val c = (of_char c :: nat) - 48"

definition digit_char :: "nat \<Rightarrow> char" where
  "digit_char d = char_of (48 + d)"

text \<open>The pattern \<open>/^(0|[1-9][0-9]*)$/\<close>.\<close>

definition decimalU64Pattern :: "string \<Rightarrow> bool" where
  "decimalU64Pattern s \<longleftrightarrow>
     s = ''0'' \<or> (s \<noteq> [] \<and> hd s \<noteq> CHR ''0'' \<and> list_all is_digit s)"

definition nat_of_decimal :: "string \<Rightarrow> nat" where
  "nat_of_decimal s = foldl (\<lambda>a c. 10 * a + digit_val c) 0 s"

text \<open>\<open>BigInt(s)\<close> on a string of digits.\<close>

definition bigint_of :: "string \<Rightarrow> int" where
  "bigint_of s = int (nat_of_decimal s)"

fun decimal_of_nat :: "nat \<Rightarrow> string" where
  "decimal_of_nat n =
     (if n < 10 then [digit_char n] else decimal_of_nat (n div 10) @ [digit_char (n mod 10)])"

declare decimal_of_nat.simps [simp del]

text \<open>\<open>v.toString()\<close> of a bigint.\<close>

definition bigint_toString :: "int \<Rightarrow> string" where
  "bigint_toString v = (if v < 0 then CHR ''-'' # decimal_of_nat (nat (- v)) else decimal_of_nat (nat v))"

definition DecimalU64Schema :: "string \<Rightarrow> bool" where
  "DecimalU64Schema s \<longleftrightarrow> length s \<le> 20 \<and> decimalU64Pattern s \<and> bigint_of s \<le> MAX_U64"

definition PositiveDecimalU64Schema :: "string \<Rightarrow> bool" where
  "PositiveDecimalU64Schema s \<longleftrightarrow> DecimalU64Schema s \<and> s \<noteq> ''0''"

section \<open>Digits\<close>

lemma of_char_digit: "d < 10 \<Longrightarrow> (of_char (digit_char d) :: nat) = 48 + d"
  by (simp add: digit_char_def)

lemma digit_char_simps [simp]:
  "d < 10 \<Longrightarrow> is_digit (digit_char d)"
  "d < 10 \<Longrightarrow> digit_val (digit_char d) = d"
  by (simp_all add: is_digit_def digit_val_def of_char_digit)

lemma digit_char_val: "is_digit c \<Longrightarrow> digit_char (digit_val c) = c"
  by (simp add: is_digit_def digit_val_def digit_char_def)

lemma digit_val_less: "is_digit c \<Longrightarrow> digit_val c < 10"
  by (auto simp: is_digit_def digit_val_def)

lemma digit_char_0: "digit_char 0 = CHR ''0''"
  unfolding digit_char_def by code_simp

lemma digit_char_zero_iff: "d < 10 \<Longrightarrow> digit_char d = CHR ''0'' \<longleftrightarrow> d = 0"
  by (metis digit_char_0 digit_char_simps(2) zero_less_numeral)

lemma nat_of_decimal_snoc [simp]:
  "nat_of_decimal (s @ [c]) = 10 * nat_of_decimal s + digit_val c"
  by (simp add: nat_of_decimal_def)

lemma nat_of_decimal_Nil [simp]: "nat_of_decimal [] = 0"
  by (simp add: nat_of_decimal_def)

lemma nat_of_decimal_single [simp]: "nat_of_decimal [c] = digit_val c"
  by (simp add: nat_of_decimal_def)

section \<open>Round trips\<close>

lemma nat_of_decimal_of_nat: "nat_of_decimal (decimal_of_nat n) = n"
proof (induction n rule: decimal_of_nat.induct)
  case (1 n)
  then show ?case by (cases "n < 10") (simp_all add: decimal_of_nat.simps [of n])
qed

lemma decimal_of_nat_digits: "list_all is_digit (decimal_of_nat n) \<and> decimal_of_nat n \<noteq> []"
proof (induction n rule: decimal_of_nat.induct)
  case (1 n)
  then show ?case by (cases "n < 10") (simp_all add: decimal_of_nat.simps [of n])
qed

lemma hd_decimal_of_nat: "0 < n \<Longrightarrow> hd (decimal_of_nat n) \<noteq> CHR ''0''"
proof (induction n rule: decimal_of_nat.induct)
  case (1 n)
  then show ?case
    by (cases "n < 10")
      (simp_all add: decimal_of_nat.simps [of n] digit_char_zero_iff decimal_of_nat_digits)
qed

lemma decimal_of_nat_0: "decimal_of_nat 0 = ''0''"
  by (simp add: decimal_of_nat.simps digit_char_0)

lemma decimalU64Pattern_of_nat: "decimalU64Pattern (decimal_of_nat n)"
  by (cases "n = 0")
    (auto simp: decimalU64Pattern_def decimal_of_nat_0 decimal_of_nat_digits hd_decimal_of_nat)

lemma nat_of_decimal_pos:
  "s \<noteq> [] \<Longrightarrow> hd s \<noteq> CHR ''0'' \<Longrightarrow> list_all is_digit s \<Longrightarrow> 0 < nat_of_decimal s"
proof (induction s rule: rev_induct)
  case Nil
  then show ?case by simp
next
  case (snoc c s)
  have c: "is_digit c" using snoc.prems by simp
  show ?case
  proof (cases "s = []")
    case True
    with snoc.prems have "digit_val c \<noteq> 0"
      by (metis append_Nil c digit_char_0 digit_char_val list.sel(1))
    with True show ?thesis by simp
  next
    case False
    with snoc show ?thesis by (simp add: hd_append)
  qed
qed

lemma decimal_of_nat_of_decimal:
  "s \<noteq> [] \<Longrightarrow> hd s \<noteq> CHR ''0'' \<Longrightarrow> list_all is_digit s \<Longrightarrow> decimal_of_nat (nat_of_decimal s) = s"
proof (induction s rule: rev_induct)
  case Nil
  then show ?case by simp
next
  case (snoc c s)
  have c: "is_digit c" using snoc.prems by simp
  show ?case
  proof (cases "s = []")
    case True
    with c show ?thesis
      by (simp add: decimal_of_nat.simps [of "digit_val c"] digit_val_less digit_char_val)
  next
    case False
    with snoc.prems have hd: "hd s \<noteq> CHR ''0''" and digits: "list_all is_digit s"
      by (auto simp: hd_append)
    have "0 < nat_of_decimal s" using False hd digits by (rule nat_of_decimal_pos)
    moreover have "decimal_of_nat (nat_of_decimal s) = s"
      using False hd digits by (rule snoc.IH)
    ultimately show ?thesis using c digit_val_less [OF c]
      by (simp add: decimal_of_nat.simps [of "10 * nat_of_decimal s + digit_val c"] digit_char_val)
  qed
qed

lemma pattern_roundtrip:
  assumes "decimalU64Pattern s"
  shows "bigint_toString (bigint_of s) = s"
proof (cases "s = ''0''")
  case True
  then show ?thesis
    by (simp add: bigint_toString_def bigint_of_def digit_val_def decimal_of_nat_0)
next
  case False
  with assms show ?thesis
    by (simp add: bigint_toString_def bigint_of_def decimalU64Pattern_def decimal_of_nat_of_decimal)
qed

lemma bigint_of_toString: "0 \<le> v \<Longrightarrow> bigint_of (bigint_toString v) = v"
  by (simp add: bigint_toString_def bigint_of_def nat_of_decimal_of_nat)

lemma length_decimal_of_nat: "n < 10 ^ k \<Longrightarrow> 0 < k \<Longrightarrow> length (decimal_of_nat n) \<le> k"
proof (induction k arbitrary: n)
  case 0
  then show ?case by simp
next
  case (Suc k)
  show ?case
  proof (cases "n < 10")
    case True
    then show ?thesis by (simp add: decimal_of_nat.simps [of n])
  next
    case False
    with Suc.prems have "0 < k" by (cases k) auto
    moreover have "n div 10 < 10 ^ k" using Suc.prems by (simp add: less_mult_imp_div_less mult.commute)
    ultimately show ?thesis using False Suc.IH [of "n div 10"]
      by (simp add: decimal_of_nat.simps [of n])
  qed
qed

lemma toString_in_schema:
  assumes "is_u64 v"
  shows "DecimalU64Schema (bigint_toString v)"
proof -
  have "nat v < 10 ^ 20" using assms by (simp add: is_u64_def MAX_U64_def nat_less_iff)
  then have "length (decimal_of_nat (nat v)) \<le> 20" by (rule length_decimal_of_nat) simp
  moreover have "bigint_of (bigint_toString v) = v"
    using assms by (simp add: is_u64_def bigint_of_toString)
  ultimately show ?thesis using assms decimalU64Pattern_of_nat [of "nat v"]
    by (simp add: DecimalU64Schema_def bigint_toString_def is_u64_def)
qed

text \<open>
  The strings that \<open>DecimalU64Schema\<close> accepts are exactly the printed forms of the unsigned
  64-bit integers, so reading such a string with \<open>BigInt\<close> and printing it again is the identity
  and string equality of two accepted strings is equality of the numbers they denote.
\<close>

theorem decimal_u64_canonical:
  "DecimalU64Schema s \<longleftrightarrow> (\<exists>v. is_u64 v \<and> s = bigint_toString v \<and> bigint_of s = v)"
proof
  assume s: "DecimalU64Schema s"
  then have "s = bigint_toString (bigint_of s)"
    by (simp add: DecimalU64Schema_def pattern_roundtrip)
  moreover have "is_u64 (bigint_of s)"
    using s by (simp add: DecimalU64Schema_def is_u64_def bigint_of_def)
  ultimately show "\<exists>v. is_u64 v \<and> s = bigint_toString v \<and> bigint_of s = v" by blast
next
  assume "\<exists>v. is_u64 v \<and> s = bigint_toString v \<and> bigint_of s = v"
  then show "DecimalU64Schema s" using toString_in_schema by blast
qed

lemma schema_string_eq:
  assumes "DecimalU64Schema s" "DecimalU64Schema t"
  shows "s = t \<longleftrightarrow> bigint_of s = bigint_of t"
  using assms unfolding DecimalU64Schema_def by (metis pattern_roundtrip)

lemma positive_schema_iff:
  "PositiveDecimalU64Schema s \<longleftrightarrow> DecimalU64Schema s \<and> 0 < bigint_of s"
proof (cases "s = ''0''")
  case True
  then show ?thesis
    by (simp add: PositiveDecimalU64Schema_def bigint_of_def digit_val_def)
next
  case False
  then show ?thesis
    by (auto simp: PositiveDecimalU64Schema_def DecimalU64Schema_def decimalU64Pattern_def
        bigint_of_def nat_of_decimal_pos)
qed

end
