(* ===== verification/Data_Frame.thy ===== *)
theory Data_Frame
  imports Scalars
begin

text \<open>
  \<open>packages/protocol/src/errors.ts\<close> and \<open>data-frame.ts\<close>: the 48-byte binary envelope of
  protocol version 2, the strict encoder and decoder, transport batches (exact concatenations of
  frames), the delivery rewrite, and the resize payload. A bigint field is an \<open>int\<close>; a number
  field is an \<open>int\<close> too, since every such field is checked with \<open>Number.isInteger\<close> or read from
  a \<open>DataView\<close>. A \<open>DataView\<close> setter writes the value modulo the field width, as \<open>le_put\<close> does.
\<close>

section \<open>Errors and constants\<close>

datatype ProtocolErrorCode =
    BAD_MAGIC | BAD_VERSION | BAD_KIND | BAD_FLAGS | BAD_LENGTH | BAD_PAYLOAD
  | BAD_EPOCH | BAD_GENERATION | EVENT_GAP | PTY_OFFSET_GAP | OUT_OF_RANGE

definition DATA_MAGIC :: int where "DATA_MAGIC = 1515475533"
definition DATA_PROTOCOL_VERSION :: int where "DATA_PROTOCOL_VERSION = 2"
definition DATA_HEADER_BYTES :: nat where "DATA_HEADER_BYTES = 48"
definition MAX_DATA_PAYLOAD_BYTES :: int where "MAX_DATA_PAYLOAD_BYTES = 16 * 1024 * 1024"
definition MAX_DATA_BATCH_BYTES :: int where "MAX_DATA_BATCH_BYTES = 256 * 1024"
definition MAX_DATA_BATCH_FRAMES :: nat where "MAX_DATA_BATCH_FRAMES = 64"

datatype DataFrameKind = PtyOutput | ResizeApplied | ReplayCommit | Reset | DeliveryBarrier

fun kind_number :: "DataFrameKind \<Rightarrow> int" where
  "kind_number PtyOutput = 1"
| "kind_number ResizeApplied = 2"
| "kind_number ReplayCommit = 3"
| "kind_number Reset = 4"
| "kind_number DeliveryBarrier = 5"

text \<open>\<open>assertKind\<close>: the number must be one of the object's values.\<close>

definition assertKind :: "int \<Rightarrow> ProtocolErrorCode + DataFrameKind" where
  "assertKind k =
     (if k = 1 then Inr PtyOutput
      else if k = 2 then Inr ResizeApplied
      else if k = 3 then Inr ReplayCommit
      else if k = 4 then Inr Reset
      else if k = 5 then Inr DeliveryBarrier
      else Inl BAD_KIND)"

record data_frame =
  df_kind :: DataFrameKind
  df_flags :: int
  df_sessionEpoch :: int
  df_deliveryGeneration :: int
  df_eventSeq :: int
  df_ptyOffset :: int
  df_streamId :: int
  df_payload :: bytes

definition is_u16 :: "int \<Rightarrow> bool" where "is_u16 v \<longleftrightarrow> 0 \<le> v \<and> v \<le> 65535"
definition is_u32 :: "int \<Rightarrow> bool" where "is_u32 v \<longleftrightarrow> 0 \<le> v \<and> v \<le> 4294967295"

definition payload_length :: "data_frame \<Rightarrow> int" where
  "payload_length frame = int (length (df_payload frame))"

section \<open>\<open>encodeDataFrame\<close>\<close>

text \<open>The writes of the encoder into its fresh, zeroed buffer, in source order.\<close>

definition write_data_frame :: "data_frame \<Rightarrow> bytes" where
  "write_data_frame frame =
     (let buf = replicate (DATA_HEADER_BYTES + length (df_payload frame)) 0;
          b0 = poke 0 (rev (le_put 4 DATA_MAGIC)) buf;
          b1 = poke 4 (le_put 1 DATA_PROTOCOL_VERSION) b0;
          b2 = poke 5 (le_put 1 (kind_number (df_kind frame))) b1;
          b3 = poke 6 (le_put 2 (df_flags frame)) b2;
          b4 = poke 8 (le_put 8 (df_sessionEpoch frame)) b3;
          b5 = poke 16 (le_put 8 (df_deliveryGeneration frame)) b4;
          b6 = poke 24 (le_put 8 (df_eventSeq frame)) b5;
          b7 = poke 32 (le_put 8 (df_ptyOffset frame)) b6;
          b8 = poke 40 (le_put 4 (df_streamId frame)) b7;
          b9 = poke 44 (le_put 4 (payload_length frame)) b8
      in poke DATA_HEADER_BYTES (df_payload frame) b9)"

definition encodeDataFrame :: "data_frame \<Rightarrow> ProtocolErrorCode + bytes" where
  "encodeDataFrame frame =
     (if \<not> is_u16 (df_flags frame) then Inl OUT_OF_RANGE
      else if df_flags frame \<noteq> 0 then Inl BAD_FLAGS
      else if \<not> is_u64 (df_sessionEpoch frame) then Inl OUT_OF_RANGE
      else if \<not> is_u64 (df_deliveryGeneration frame) then Inl OUT_OF_RANGE
      else if \<not> is_u64 (df_eventSeq frame) then Inl OUT_OF_RANGE
      else if \<not> is_u64 (df_ptyOffset frame) then Inl OUT_OF_RANGE
      else if \<not> is_u32 (df_streamId frame) then Inl OUT_OF_RANGE
      else if MAX_DATA_PAYLOAD_BYTES < payload_length frame then Inl BAD_LENGTH
      else Inr (write_data_frame frame))"

section \<open>\<open>decodeDataFrame\<close>\<close>

definition decodeDataFrame :: "bytes \<Rightarrow> ProtocolErrorCode + data_frame" where
  "decodeDataFrame bs =
     (if length bs < DATA_HEADER_BYTES then Inl BAD_LENGTH
      else if le_get (rev (peek 0 4 bs)) \<noteq> DATA_MAGIC then Inl BAD_MAGIC
      else if le_get (peek 4 1 bs) \<noteq> DATA_PROTOCOL_VERSION then Inl BAD_VERSION
      else bindR (assertKind (le_get (peek 5 1 bs))) (\<lambda>k.
        let fl = le_get (peek 6 2 bs); payloadLength = le_get (peek 44 4 bs) in
        if fl \<noteq> 0 then Inl BAD_FLAGS
        else if MAX_DATA_PAYLOAD_BYTES < payloadLength \<or>
            int (length bs) \<noteq> int DATA_HEADER_BYTES + payloadLength then Inl BAD_LENGTH
        else Inr \<lparr>df_kind = k, df_flags = fl,
          df_sessionEpoch = le_get (peek 8 8 bs),
          df_deliveryGeneration = le_get (peek 16 8 bs),
          df_eventSeq = le_get (peek 24 8 bs),
          df_ptyOffset = le_get (peek 32 8 bs),
          df_streamId = le_get (peek 40 4 bs),
          df_payload = drop DATA_HEADER_BYTES bs\<rparr>))"

section \<open>Layout of an encoded frame\<close>

definition frame_layout :: "data_frame \<Rightarrow> bytes" where
  "frame_layout frame =
     rev (le_put 4 DATA_MAGIC) @ le_put 1 DATA_PROTOCOL_VERSION @
     le_put 1 (kind_number (df_kind frame)) @ le_put 2 (df_flags frame) @
     le_put 8 (df_sessionEpoch frame) @ le_put 8 (df_deliveryGeneration frame) @
     le_put 8 (df_eventSeq frame) @ le_put 8 (df_ptyOffset frame) @
     le_put 4 (df_streamId frame) @ le_put 4 (payload_length frame) @ df_payload frame"

lemma poke_extend:
  "length xs = off \<Longrightarrow> length bs \<le> n \<Longrightarrow>
   poke off bs (xs @ replicate n 0) = (xs @ bs) @ replicate (n - length bs) 0"
  by (simp add: poke_def)

lemma write_data_frame_layout: "write_data_frame frame = frame_layout frame"
proof -
  have start: "replicate (DATA_HEADER_BYTES + length (df_payload frame)) 0 =
      ([] :: bytes) @ replicate (48 + length (df_payload frame)) 0"
    by (simp add: DATA_HEADER_BYTES_def)
  show ?thesis
    unfolding write_data_frame_def Let_def start
    by (simp add: poke_extend DATA_HEADER_BYTES_def frame_layout_def del: append_assoc append_Nil)
qed

lemma length_frame_layout [simp]: "length (frame_layout frame) = 48 + length (df_payload frame)"
  by (simp add: frame_layout_def)

lemma frame_layout_fields:
  "peek 0 4 (frame_layout f @ r) = rev (le_put 4 DATA_MAGIC)"
  "peek 4 1 (frame_layout f @ r) = le_put 1 DATA_PROTOCOL_VERSION"
  "peek 5 1 (frame_layout f @ r) = le_put 1 (kind_number (df_kind f))"
  "peek 6 2 (frame_layout f @ r) = le_put 2 (df_flags f)"
  "peek 8 8 (frame_layout f @ r) = le_put 8 (df_sessionEpoch f)"
  "peek 16 8 (frame_layout f @ r) = le_put 8 (df_deliveryGeneration f)"
  "peek 24 8 (frame_layout f @ r) = le_put 8 (df_eventSeq f)"
  "peek 32 8 (frame_layout f @ r) = le_put 8 (df_ptyOffset f)"
  "peek 40 4 (frame_layout f @ r) = le_put 4 (df_streamId f)"
  "peek 44 4 (frame_layout f @ r) = le_put 4 (payload_length f)"
  "drop 48 (frame_layout f @ r) = df_payload f @ r"
  by (simp_all add: frame_layout_def peek_def)

lemmas frame_layout_fields_exact = frame_layout_fields [where r = "[]", unfolded append_Nil2]

definition frame_ok :: "data_frame \<Rightarrow> bool" where
  "frame_ok f \<longleftrightarrow> df_flags f = 0 \<and> is_u64 (df_sessionEpoch f) \<and> is_u64 (df_deliveryGeneration f) \<and>
     is_u64 (df_eventSeq f) \<and> is_u64 (df_ptyOffset f) \<and> is_u32 (df_streamId f) \<and>
     payload_length f \<le> MAX_DATA_PAYLOAD_BYTES"

lemma encodeDataFrame_Inr_iff: "encodeDataFrame f = Inr bs \<longleftrightarrow> frame_ok f \<and> bs = frame_layout f"
  by (auto simp: encodeDataFrame_def frame_ok_def is_u16_def write_data_frame_layout not_less)

lemma is_u32_256: "is_u32 v \<longleftrightarrow> 0 \<le> v \<and> v < 256 ^ 4"
  by (auto simp: is_u32_def)

lemma payload_length_u32: "payload_length f \<le> MAX_DATA_PAYLOAD_BYTES \<Longrightarrow> is_u32 (payload_length f)"
  by (simp add: payload_length_def MAX_DATA_PAYLOAD_BYTES_def is_u32_def)

lemma kind_number_byte: "0 \<le> kind_number k \<and> kind_number k < 256 ^ 1"
  by (cases k) auto

lemma assertKind_number [simp]: "assertKind (kind_number k) = Inr k"
  by (cases k) (simp_all add: assertKind_def)

lemma assertKind_Inr_iff: "assertKind n = Inr k \<longleftrightarrow> n = kind_number k"
  by (cases k) (auto simp: assertKind_def)

section \<open>The codec laws\<close>

lemma decode_layout:
  assumes "frame_ok f"
  shows "decodeDataFrame (frame_layout f) = Inr f"
proof -
  have fields: "le_get (peek 44 4 (frame_layout f)) = payload_length f"
    "le_get (peek 5 1 (frame_layout f)) = kind_number (df_kind f)"
    "le_get (peek 8 8 (frame_layout f)) = df_sessionEpoch f"
    "le_get (peek 16 8 (frame_layout f)) = df_deliveryGeneration f"
    "le_get (peek 24 8 (frame_layout f)) = df_eventSeq f"
    "le_get (peek 32 8 (frame_layout f)) = df_ptyOffset f"
    "le_get (peek 40 4 (frame_layout f)) = df_streamId f"
    using assms kind_number_byte [of "df_kind f"] payload_length_u32 [of f]
    unfolding frame_ok_def frame_layout_fields_exact
    by (simp_all only: le_get_le_put_id is_u64_256 is_u32_256)
  have prefix_vals: "le_get (rev (peek 0 4 (frame_layout f))) = DATA_MAGIC"
    "le_get (peek 4 1 (frame_layout f)) = DATA_PROTOCOL_VERSION"
    "le_get (peek 6 2 (frame_layout f)) = 0"
    using assms unfolding frame_layout_fields_exact frame_ok_def
    by (simp_all add: le_get_le_put DATA_MAGIC_def DATA_PROTOCOL_VERSION_def)
  show ?thesis
    using assms frame_layout_fields_exact(11) [of f] unfolding decodeDataFrame_def fields prefix_vals
    by (simp add: DATA_HEADER_BYTES_def Let_def frame_ok_def payload_length_def not_less)
qed

lemma peek_split: "peek off (n + m) bs = peek off n bs @ peek (off + n) m bs"
  unfolding peek_def take_add by (simp add: add.commute)

lemma header_split:
  assumes "48 \<le> length bs"
  shows "bs = peek 0 4 bs @ peek 4 1 bs @ peek 5 1 bs @ peek 6 2 bs @ peek 8 8 bs @ peek 16 8 bs @
    peek 24 8 bs @ peek 32 8 bs @ peek 40 4 bs @ peek 44 4 bs @ drop 48 bs"
proof -
  have "bs = peek 0 48 bs @ drop 48 bs" by (simp add: peek_def)
  also have "peek 0 48 bs = peek 0 4 bs @ peek 4 1 bs @ peek 5 1 bs @ peek 6 2 bs @ peek 8 8 bs @
      peek 16 8 bs @ peek 24 8 bs @ peek 32 8 bs @ peek 40 4 bs @ peek 44 4 bs"
    using peek_split [of 0 4 44 bs] peek_split [of 4 1 43 bs] peek_split [of 5 1 42 bs]
      peek_split [of 6 2 40 bs] peek_split [of 8 8 32 bs] peek_split [of 16 8 24 bs]
      peek_split [of 24 8 16 bs] peek_split [of 32 8 8 bs] peek_split [of 40 4 4 bs]
    by simp
  finally show ?thesis by simp
qed

lemma le_get_peek_bounds:
  assumes "off + n \<le> length bs"
  shows "0 \<le> le_get (peek off n bs) \<and> le_get (peek off n bs) < 256 ^ n"
  using le_get_nonneg le_get_bound [of "peek off n bs"] assms by simp

lemma decode_Inr_layout:
  assumes "decodeDataFrame bs = Inr f"
  shows "frame_ok f \<and> bs = frame_layout f"
proof -
  have len: "48 \<le> length bs"
    using assms by (simp add: decodeDataFrame_def DATA_HEADER_BYTES_def split: if_splits)
  have magic: "le_get (rev (peek 0 4 bs)) = DATA_MAGIC"
    and version: "le_get (peek 4 1 bs) = DATA_PROTOCOL_VERSION"
    using assms by (auto simp: decodeDataFrame_def split: if_splits)
  obtain k where k: "le_get (peek 5 1 bs) = kind_number k" and fl: "le_get (peek 6 2 bs) = 0"
    and pl: "le_get (peek 44 4 bs) \<le> MAX_DATA_PAYLOAD_BYTES"
      "int (length bs) = 48 + le_get (peek 44 4 bs)"
    and f: "f = \<lparr>df_kind = k, df_flags = 0, df_sessionEpoch = le_get (peek 8 8 bs),
      df_deliveryGeneration = le_get (peek 16 8 bs), df_eventSeq = le_get (peek 24 8 bs),
      df_ptyOffset = le_get (peek 32 8 bs), df_streamId = le_get (peek 40 4 bs),
      df_payload = drop 48 bs\<rparr>"
    using assms by (auto simp: decodeDataFrame_def DATA_HEADER_BYTES_def bindR_Inr_iff Let_def
        assertKind_Inr_iff split: if_splits)
  have paylen: "payload_length f = le_get (peek 44 4 bs)"
    using len pl by (simp add: f payload_length_def)
  have ok: "frame_ok f"
    using len pl(1) le_get_peek_bounds [of 8 8 bs] le_get_peek_bounds [of 16 8 bs]
      le_get_peek_bounds [of 24 8 bs] le_get_peek_bounds [of 32 8 bs] le_get_peek_bounds [of 40 4 bs]
    unfolding frame_ok_def is_u64_256 is_u32_256 paylen by (simp add: f)
  have m: "rev (le_put 4 DATA_MAGIC) = peek 0 4 bs"
    using len magic le_put_le_get_len [of "rev (peek 0 4 bs)" 4] by simp
  have codes: "le_put 1 DATA_PROTOCOL_VERSION = peek 4 1 bs"
    "le_put 1 (kind_number k) = peek 5 1 bs" "le_put 2 0 = peek 6 2 bs"
    unfolding version [symmetric] k [symmetric] fl [symmetric]
    by (rule le_put_le_get_len, use len in simp)+
  have parts: "le_put 8 (le_get (peek 8 8 bs)) = peek 8 8 bs"
    "le_put 8 (le_get (peek 16 8 bs)) = peek 16 8 bs"
    "le_put 8 (le_get (peek 24 8 bs)) = peek 24 8 bs"
    "le_put 8 (le_get (peek 32 8 bs)) = peek 32 8 bs"
    "le_put 4 (le_get (peek 40 4 bs)) = peek 40 4 bs"
    "le_put 4 (le_get (peek 44 4 bs)) = peek 44 4 bs"
    by (rule le_put_le_get_len, use len in simp)+
  have "frame_layout f = bs"
    unfolding frame_layout_def paylen m using codes parts header_split [OF len] by (simp add: f)
  with ok show ?thesis by simp
qed

lemma decodeDataFrame_Inr_iff: "decodeDataFrame bs = Inr f \<longleftrightarrow> frame_ok f \<and> bs = frame_layout f"
  using decode_layout decode_Inr_layout by blast

definition announced_frame_length :: "bytes \<Rightarrow> nat" where
  "announced_frame_length bs = DATA_HEADER_BYTES + nat (le_get (peek 44 4 bs))"

interpretation frame: framed_codec encodeDataFrame decodeDataFrame announced_frame_length
proof unfold_locales
  fix x bs assume "encodeDataFrame x = Inr bs"
  then show "decodeDataFrame bs = Inr x"
    by (simp add: encodeDataFrame_Inr_iff decodeDataFrame_Inr_iff)
next
  fix bs x assume "decodeDataFrame bs = Inr x"
  then show "encodeDataFrame x = Inr bs"
    by (simp add: encodeDataFrame_Inr_iff decodeDataFrame_Inr_iff)
next
  fix x bs rest assume "encodeDataFrame x = Inr bs"
  then have x: "frame_ok x" "bs = frame_layout x" by (simp_all add: encodeDataFrame_Inr_iff)
  then have "le_get (le_put 4 (payload_length x)) = payload_length x"
    using payload_length_u32 [of x] by (simp only: frame_ok_def le_get_le_put_id is_u32_256)
  with x show "announced_frame_length (bs @ rest) = length bs"
    by (simp add: announced_frame_length_def frame_layout_fields DATA_HEADER_BYTES_def
        payload_length_def)
next
  fix x bs assume "encodeDataFrame x = Inr bs"
  then show "bs \<noteq> []" by (auto simp: encodeDataFrame_Inr_iff frame_layout_def)
qed

text \<open>
  C16. The strict data-frame codec is canonical: a frame encodes to a byte string exactly when that
  byte string decodes to the frame. So every header field and the payload survive the wire, no two
  byte strings decode to the same frame, and whatever the decoder accepts is what the encoder
  would have produced.
\<close>

theorem data_frame_codec: "encodeDataFrame f = Inr bs \<longleftrightarrow> decodeDataFrame bs = Inr f"
  using frame.dec_enc frame.enc_dec by blast

section \<open>\<open>rewriteDelivery\<close>\<close>

definition rewriteDelivery :: "bytes \<Rightarrow> int \<Rightarrow> int \<Rightarrow> ProtocolErrorCode + bytes" where
  "rewriteDelivery encoded deliveryGeneration streamId =
     (if \<not> is_u64 deliveryGeneration then Inl OUT_OF_RANGE
      else if \<not> is_u32 streamId then Inl OUT_OF_RANGE
      else bindR (decodeDataFrame encoded) (\<lambda>_.
        Inr (poke 40 (le_put 4 streamId) (poke 16 (le_put 8 deliveryGeneration) encoded))))"

lemma poke_frame_layout:
  "poke 16 (le_put 8 g) (frame_layout f) = frame_layout (f\<lparr>df_deliveryGeneration := g\<rparr>)"
  "poke 40 (le_put 4 sid) (frame_layout f) = frame_layout (f\<lparr>df_streamId := sid\<rparr>)"
  by (simp_all add: poke_def frame_layout_def payload_length_def)

lemma rewrite_layout:
  assumes "is_u64 g" "is_u32 sid" "decodeDataFrame enc = Inr f"
  shows "rewriteDelivery enc g sid =
    Inr (frame_layout (f\<lparr>df_deliveryGeneration := g, df_streamId := sid\<rparr>))"
  using assms
  by (simp add: rewriteDelivery_def decodeDataFrame_Inr_iff [of enc] poke_frame_layout decode_layout)

text \<open>
  \<open>rewriteDelivery\<close> succeeds exactly on a decodable frame with an in-range generation and
  stream, and its result decodes to the same frame with those two fields replaced and every
  canonical field (kind, epoch, sequence, offset, payload) untouched.
\<close>

theorem rewriteDelivery_decodes:
  "rewriteDelivery enc g sid = Inr out \<longleftrightarrow>
     is_u64 g \<and> is_u32 sid \<and>
     (\<exists>f. decodeDataFrame enc = Inr f \<and>
          decodeDataFrame out = Inr (f\<lparr>df_deliveryGeneration := g, df_streamId := sid\<rparr>))"
    (is "?L \<longleftrightarrow> ?R")
proof
  assume ?L
  then obtain f where ok: "is_u64 g" "is_u32 sid" and f: "decodeDataFrame enc = Inr f"
    by (auto simp: rewriteDelivery_def bindR_Inr_iff split: if_splits)
  moreover from \<open>?L\<close> rewrite_layout [OF ok f]
  have "out = frame_layout (f\<lparr>df_deliveryGeneration := g, df_streamId := sid\<rparr>)" by simp
  moreover have "frame_ok (f\<lparr>df_deliveryGeneration := g, df_streamId := sid\<rparr>)"
    using ok f by (simp add: decodeDataFrame_Inr_iff frame_ok_def payload_length_def)
  ultimately show ?R using decode_layout by blast
next
  assume ?R
  then show ?L using rewrite_layout by (auto simp: decodeDataFrame_Inr_iff [of out])
qed

end
