(* ===== verification/Data_Batch.thy ===== *)
theory Data_Batch
  imports Data_Frame
begin

text \<open>
  The rest of \<open>packages/protocol/src/data-frame.ts\<close>: negotiated transport batches, which are exact
  concatenations of independently valid frames, and the 16-byte resize payload.
\<close>

lemma bindR_cong [fundef_cong]:
  "r = r' \<Longrightarrow> (\<And>x. r' = Inr x \<Longrightarrow> k x = k' x) \<Longrightarrow> bindR r k = bindR r' k'"
  by (cases r') auto

section \<open>\<open>encodeDataFrameBatch\<close>\<close>

definition isSafeInteger :: "int \<Rightarrow> bool" where
  "isSafeInteger v \<longleftrightarrow> - 9007199254740991 \<le> v \<and> v \<le> 9007199254740991"

text \<open>The first loop: every entry must decode, and the running total stays within the bound.\<close>

fun batch_total :: "int \<Rightarrow> bytes list \<Rightarrow> ProtocolErrorCode + int" where
  "batch_total totalBytes [] = Inr totalBytes"
| "batch_total totalBytes (f # fs) =
     bindR (decodeDataFrame f) (\<lambda>_.
       let totalBytes' = totalBytes + int (length f) in
       if \<not> isSafeInteger totalBytes' \<or> MAX_DATA_BATCH_BYTES < totalBytes' then Inl BAD_LENGTH
       else batch_total totalBytes' fs)"

text \<open>The second loop: \<open>encoded.set(frame, offset)\<close> for each entry.\<close>

fun batch_copy :: "nat \<Rightarrow> bytes list \<Rightarrow> bytes \<Rightarrow> bytes" where
  "batch_copy offset [] buf = buf"
| "batch_copy offset (f # fs) buf = batch_copy (offset + length f) fs (poke offset f buf)"

definition encodeDataFrameBatch :: "bytes list \<Rightarrow> ProtocolErrorCode + bytes" where
  "encodeDataFrameBatch frames =
     (if frames = [] \<or> MAX_DATA_BATCH_FRAMES < length frames then Inl BAD_LENGTH
      else bindR (batch_total 0 frames) (\<lambda>totalBytes.
        Inr (batch_copy 0 frames (replicate (nat totalBytes) 0))))"

section \<open>\<open>decodeDataFrameBatchEntries\<close>\<close>

type_synonym batch_entry = "bytes \<times> data_frame"

function decode_batch_loop ::
  "bytes \<Rightarrow> nat \<Rightarrow> batch_entry list \<Rightarrow> ProtocolErrorCode + batch_entry list" where
  "decode_batch_loop bs offset entries =
     (if offset < length bs then
        if MAX_DATA_BATCH_FRAMES \<le> length entries \<or> length bs - offset < DATA_HEADER_BYTES
        then Inl BAD_LENGTH
        else
          let payloadLength = le_get (peek (offset + 44) 4 bs);
              frameLength = DATA_HEADER_BYTES + nat payloadLength in
          if MAX_DATA_PAYLOAD_BYTES < payloadLength \<or> length bs - offset < frameLength
          then Inl BAD_LENGTH
          else
            let logical = peek offset frameLength bs in
            bindR (decodeDataFrame logical) (\<lambda>frame.
              decode_batch_loop bs (offset + frameLength) (entries @ [(logical, frame)]))
      else Inr entries)"
  by pat_completeness auto
termination
  by (relation "measure (\<lambda>(bs, offset, entries). length bs - offset)")
    (auto simp: DATA_HEADER_BYTES_def)

declare decode_batch_loop.simps [simp del]

definition decodeDataFrameBatchEntries :: "bytes \<Rightarrow> ProtocolErrorCode + batch_entry list" where
  "decodeDataFrameBatchEntries bs =
     (if length bs = 0 \<or> MAX_DATA_BATCH_BYTES < int (length bs) then Inl BAD_LENGTH
      else decode_batch_loop bs 0 [])"

definition decodeDataFrameBatch :: "bytes \<Rightarrow> ProtocolErrorCode + data_frame list" where
  "decodeDataFrameBatch bs = bindR (decodeDataFrameBatchEntries bs) (\<lambda>es. Inr (map snd es))"

section \<open>What a batch is\<close>

definition entry_ok :: "batch_entry \<Rightarrow> bool" where
  "entry_ok e \<longleftrightarrow> decodeDataFrame (fst e) = Inr (snd e)"

lemma batch_total_Inr_iff:
  "0 \<le> t \<Longrightarrow> t \<le> MAX_DATA_BATCH_BYTES \<Longrightarrow>
   batch_total t fs = Inr r \<longleftrightarrow>
     list_all (\<lambda>f. okR (decodeDataFrame f)) fs \<and> r = t + int (length (concat fs)) \<and>
     r \<le> MAX_DATA_BATCH_BYTES"
proof (induction fs arbitrary: t)
  case Nil
  then show ?case by auto
next
  case (Cons f fs)
  show ?case
  proof (cases "t + int (length f) \<le> MAX_DATA_BATCH_BYTES")
    case True
    with Cons.prems Cons.IH [of "t + int (length f)"] show ?thesis
      by (auto simp: bindR_Inr_iff okR_iff isSafeInteger_def MAX_DATA_BATCH_BYTES_def Let_def)
  next
    case False
    then show ?thesis by (auto simp: bindR_Inr_iff Let_def)
  qed
qed

lemma batch_copy_layout:
  "length xs = offset \<Longrightarrow> length (concat fs) = n \<Longrightarrow>
   batch_copy offset fs (xs @ replicate n 0) = xs @ concat fs"
proof (induction fs arbitrary: offset xs n)
  case Nil
  then show ?case by simp
next
  case (Cons f fs)
  have "poke offset f (xs @ replicate n 0) = (xs @ f) @ replicate (n - length f) 0"
    by (rule poke_extend) (use Cons.prems in auto)
  with Cons.IH [of "xs @ f" "offset + length f" "n - length f"] Cons.prems show ?case by auto
qed

lemma encodeDataFrameBatch_Inr_iff:
  "encodeDataFrameBatch fs = Inr bs \<longleftrightarrow>
     fs \<noteq> [] \<and> length fs \<le> MAX_DATA_BATCH_FRAMES \<and> list_all (\<lambda>f. okR (decodeDataFrame f)) fs \<and>
     bs = concat fs \<and> int (length bs) \<le> MAX_DATA_BATCH_BYTES"
proof -
  have "batch_copy 0 fs (replicate (nat (int (length (concat fs)))) 0) = concat fs"
    using batch_copy_layout [of "[]" 0 fs "length (concat fs)"] by simp
  then show ?thesis
    unfolding encodeDataFrameBatch_def
    by (auto simp: bindR_Inr_iff batch_total_Inr_iff MAX_DATA_BATCH_BYTES_def not_less)
qed

lemma entry_okD:
  assumes "entry_ok e"
  shows "announced_frame_length (fst e @ rest) = length (fst e)" and "48 \<le> length (fst e)"
    and "le_get (peek 44 4 (fst e @ rest)) \<le> MAX_DATA_PAYLOAD_BYTES"
proof -
  have f: "frame_ok (snd e)" "fst e = frame_layout (snd e)"
    using assms by (simp_all add: entry_ok_def decodeDataFrame_Inr_iff)
  then show "announced_frame_length (fst e @ rest) = length (fst e)"
    using frame.announced_enc [of "snd e"] by (simp add: encodeDataFrame_Inr_iff)
  show "48 \<le> length (fst e)" by (simp add: f)
  have "le_get (le_put 4 (payload_length (snd e))) = payload_length (snd e)"
    using f payload_length_u32 [of "snd e"] by (simp only: frame_ok_def le_get_le_put_id is_u32_256)
  with f show "le_get (peek 44 4 (fst e @ rest)) \<le> MAX_DATA_PAYLOAD_BYTES"
    by (simp add: frame_layout_fields frame_ok_def)
qed

lemma peek_drop: "peek (off + n) m bs = peek n m (drop off bs)"
  by (simp add: peek_def add.commute)

lemma decode_batch_loop_complete:
  assumes "list_all entry_ok tail" "drop offset bs = concat (map fst tail)"
    "tail = [] \<or> length entries + length tail \<le> MAX_DATA_BATCH_FRAMES"
  shows "decode_batch_loop bs offset entries = Inr (entries @ tail)"
  using assms
proof (induction tail arbitrary: offset entries)
  case Nil
  then show ?case by (simp add: decode_batch_loop.simps [of bs offset])
next
  case (Cons e tail)
  let ?rest = "concat (map fst tail)"
  have ok: "entry_ok e" and dr: "drop offset bs = fst e @ ?rest" using Cons.prems by auto
  note len = entry_okD(1) [OF ok, of ?rest] entry_okD(2) [OF ok] entry_okD(3) [OF ok, of ?rest]
  have off: "offset < length bs" "length (fst e) \<le> length bs - offset"
    using arg_cong [OF dr, of length] len(2) by auto
  have pk: "peek (offset + 44) 4 bs = peek 44 4 (fst e @ ?rest)" by (simp add: peek_drop dr)
  have fl: "DATA_HEADER_BYTES + nat (le_get (peek 44 4 (fst e @ ?rest))) = length (fst e)"
    using len(1) by (simp add: announced_frame_length_def)
  have logical: "peek offset (length (fst e)) bs = fst e" by (simp add: peek_def dr)
  have "drop (offset + length (fst e)) bs = drop (length (fst e)) (drop offset bs)"
    by (simp add: add.commute)
  then have dr': "drop (offset + length (fst e)) bs = ?rest" by (simp add: dr)
  have IH: "decode_batch_loop bs (offset + length (fst e)) (entries @ [e]) = Inr ((entries @ [e]) @ tail)"
    using Cons.prems dr' by (intro Cons.IH) auto
  have e: "decodeDataFrame (fst e) = Inr (snd e)" "(fst e, snd e) = e"
    using ok by (simp_all add: entry_ok_def)
  have "length entries < MAX_DATA_BATCH_FRAMES" using Cons.prems(3) by simp
  then show ?case
    unfolding decode_batch_loop.simps [of bs offset entries] Let_def pk fl logical
    using off len IH e by (simp add: DATA_HEADER_BYTES_def)
qed

lemma decode_batch_loop_sound:
  "decode_batch_loop bs offset entries = Inr out \<Longrightarrow>
   \<exists>tail. out = entries @ tail \<and> list_all entry_ok tail \<and> drop offset bs = concat (map fst tail) \<and>
     (tail = [] \<or> length out \<le> MAX_DATA_BATCH_FRAMES)"
proof (induction bs offset entries rule: decode_batch_loop.induct)
  case (1 bs offset entries)
  let ?n = "DATA_HEADER_BYTES + nat (le_get (peek (offset + 44) 4 bs))"
  let ?l = "peek offset ?n bs"
  show ?case
  proof (cases "offset < length bs")
    case False
    with "1.prems" show ?thesis
      by (intro exI [of _ "[]"]) (simp add: decode_batch_loop.simps [of bs offset])
  next
    case True
    with "1.prems" obtain fr where room: "length entries < MAX_DATA_BATCH_FRAMES"
      and guards: "\<not> length bs - offset < DATA_HEADER_BYTES"
        "\<not> MAX_DATA_PAYLOAD_BYTES < le_get (peek (offset + 44) 4 bs)" "\<not> length bs - offset < ?n"
      and fr: "decodeDataFrame ?l = Inr fr"
      and rec: "decode_batch_loop bs (offset + ?n) (entries @ [(?l, fr)]) = Inr out"
      by (auto simp: decode_batch_loop.simps [of bs offset] Let_def bindR_Inr_iff split: if_splits)
    from room guards have nots: "\<not> (MAX_DATA_BATCH_FRAMES \<le> length entries \<or> length bs - offset < DATA_HEADER_BYTES)"
      "\<not> (MAX_DATA_PAYLOAD_BYTES < le_get (peek (offset + 44) 4 bs) \<or> length bs - offset < ?n)" by auto
    from "1.IH" [OF True nots(1) refl refl nots(2) refl fr rec] obtain tail where
      tail: "out = (entries @ [(?l, fr)]) @ tail" "list_all entry_ok tail"
        "drop (offset + ?n) bs = concat (map fst tail)"
        "tail = [] \<or> length out \<le> MAX_DATA_BATCH_FRAMES" by blast
    have split: "drop offset bs = ?l @ drop (offset + ?n) bs"
      unfolding peek_def by (metis add.commute append_take_drop_id drop_drop)
    have eok: "entry_ok (?l, fr)" using fr by (simp add: entry_ok_def)
    have cap: "length out \<le> MAX_DATA_BATCH_FRAMES" using tail(1,4) room by auto
    show ?thesis
      using tail(1,2) cap eok by (intro exI [of _ "(?l, fr) # tail"]) (simp add: split tail(3))
  qed
qed

text \<open>
  C38. A transport batch has no second envelope: decoding a byte string as a batch returns a list of
  entries exactly when each entry's bytes decode to its frame and the byte string is what
  \<open>encodeDataFrameBatch\<close> builds from those bytes. So the batch boundary neither changes, reorders
  nor drops a logical frame, and the 64-frame and 256-KiB limits are enforced identically on both
  sides.
\<close>

theorem batch_codec:
  "decodeDataFrameBatchEntries bs = Inr es \<longleftrightarrow>
     list_all entry_ok es \<and> encodeDataFrameBatch (map fst es) = Inr bs" (is "?L \<longleftrightarrow> ?R")
proof
  assume ?L
  then have sz: "bs \<noteq> []" "int (length bs) \<le> MAX_DATA_BATCH_BYTES"
    and loop: "decode_batch_loop bs 0 [] = Inr es"
    by (auto simp: decodeDataFrameBatchEntries_def split: if_splits)
  from decode_batch_loop_sound [OF loop] have es: "list_all entry_ok es" "bs = concat (map fst es)"
    "es = [] \<or> length es \<le> MAX_DATA_BATCH_FRAMES" by auto
  moreover from es sz have "es \<noteq> []" by auto
  ultimately show ?R using sz
    by (auto simp: encodeDataFrameBatch_Inr_iff list_all_iff entry_ok_def)
next
  assume ?R
  then have es: "list_all entry_ok es" "es \<noteq> []" "length es \<le> MAX_DATA_BATCH_FRAMES"
    "bs = concat (map fst es)" "int (length bs) \<le> MAX_DATA_BATCH_BYTES"
    by (auto simp: encodeDataFrameBatch_Inr_iff)
  then obtain e es' where "es = e # es'" by (cases es) auto
  with es entry_okD(2) [of e] have "bs \<noteq> []" by auto
  moreover have "decode_batch_loop bs 0 [] = Inr ([] @ es)"
    by (rule decode_batch_loop_complete) (use es in auto)
  ultimately show ?L using es by (simp add: decodeDataFrameBatchEntries_def)
qed

section \<open>The resize payload\<close>

record ResizePayload =
  rp_cols :: int
  rp_rows :: int
  rp_widthPx :: int
  rp_heightPx :: int

definition encodeResizePayload :: "ResizePayload \<Rightarrow> ProtocolErrorCode + bytes" where
  "encodeResizePayload resize =
     (if \<not> is_u32 (rp_cols resize) then Inl OUT_OF_RANGE
      else if \<not> is_u32 (rp_rows resize) then Inl OUT_OF_RANGE
      else if \<not> is_u32 (rp_widthPx resize) then Inl OUT_OF_RANGE
      else if \<not> is_u32 (rp_heightPx resize) then Inl OUT_OF_RANGE
      else if rp_cols resize = 0 \<or> rp_rows resize = 0 then Inl BAD_PAYLOAD
      else Inr (poke 12 (le_put 4 (rp_heightPx resize))
             (poke 8 (le_put 4 (rp_widthPx resize))
               (poke 4 (le_put 4 (rp_rows resize))
                 (poke 0 (le_put 4 (rp_cols resize)) (replicate 16 0))))))"

definition decodeResizePayload :: "bytes \<Rightarrow> ProtocolErrorCode + ResizePayload" where
  "decodeResizePayload pl =
     (if length pl \<noteq> 16 then Inl BAD_PAYLOAD
      else let resize = \<lparr>rp_cols = le_get (peek 0 4 pl), rp_rows = le_get (peek 4 4 pl),
                         rp_widthPx = le_get (peek 8 4 pl), rp_heightPx = le_get (peek 12 4 pl)\<rparr>
           in if rp_cols resize = 0 \<or> rp_rows resize = 0 then Inl BAD_PAYLOAD else Inr resize)"

definition resize_layout :: "ResizePayload \<Rightarrow> bytes" where
  "resize_layout r = le_put 4 (rp_cols r) @ le_put 4 (rp_rows r) @ le_put 4 (rp_widthPx r) @
     le_put 4 (rp_heightPx r)"

definition resize_ok :: "ResizePayload \<Rightarrow> bool" where
  "resize_ok r \<longleftrightarrow> is_u32 (rp_cols r) \<and> is_u32 (rp_rows r) \<and> is_u32 (rp_widthPx r) \<and>
     is_u32 (rp_heightPx r) \<and> rp_cols r \<noteq> 0 \<and> rp_rows r \<noteq> 0"

lemma encodeResizePayload_Inr_iff:
  "encodeResizePayload r = Inr bs \<longleftrightarrow> resize_ok r \<and> bs = resize_layout r"
proof -
  have start: "replicate 16 0 = ([] :: bytes) @ replicate 16 0" by simp
  have "poke 12 (le_put 4 (rp_heightPx r)) (poke 8 (le_put 4 (rp_widthPx r))
      (poke 4 (le_put 4 (rp_rows r)) (poke 0 (le_put 4 (rp_cols r)) (replicate 16 0)))) =
      resize_layout r"
    by (subst start) (simp add: poke_extend resize_layout_def del: append_assoc append_Nil)
  then show ?thesis by (auto simp: encodeResizePayload_def resize_ok_def)
qed

lemma resize_layout_fields:
  "peek 0 4 (resize_layout r) = le_put 4 (rp_cols r)"
  "peek 4 4 (resize_layout r) = le_put 4 (rp_rows r)"
  "peek 8 4 (resize_layout r) = le_put 4 (rp_widthPx r)"
  "peek 12 4 (resize_layout r) = le_put 4 (rp_heightPx r)"
  by (simp_all add: resize_layout_def peek_def)

lemma decodeResizePayload_layout: "resize_ok r \<Longrightarrow> decodeResizePayload (resize_layout r) = Inr r"
  unfolding decodeResizePayload_def resize_layout_fields
  by (simp add: resize_ok_def is_u32_256 le_get_le_put_id resize_layout_def Let_def
      del: power_numeral)

lemma decodeResizePayload_Inr:
  assumes "decodeResizePayload bs = Inr r"
  shows "resize_ok r \<and> bs = resize_layout r"
proof -
  have len: "length bs = 16" using assms by (simp add: decodeResizePayload_def split: if_splits)
  have r: "r = \<lparr>rp_cols = le_get (peek 0 4 bs), rp_rows = le_get (peek 4 4 bs),
      rp_widthPx = le_get (peek 8 4 bs), rp_heightPx = le_get (peek 12 4 bs)\<rparr>"
    and nz: "rp_cols r \<noteq> 0" "rp_rows r \<noteq> 0"
    using assms by (auto simp: decodeResizePayload_def Let_def split: if_splits)
  have ok: "resize_ok r"
    using nz len le_get_peek_bounds [of 0 4 bs] le_get_peek_bounds [of 4 4 bs]
      le_get_peek_bounds [of 8 4 bs] le_get_peek_bounds [of 12 4 bs]
    unfolding resize_ok_def is_u32_256 by (simp add: r)
  have parts: "le_put 4 (le_get (peek 0 4 bs)) = peek 0 4 bs"
    "le_put 4 (le_get (peek 4 4 bs)) = peek 4 4 bs" "le_put 4 (le_get (peek 8 4 bs)) = peek 8 4 bs"
    "le_put 4 (le_get (peek 12 4 bs)) = peek 12 4 bs"
    by (rule le_put_le_get_len, use len in simp)+
  have "resize_layout r = peek 0 4 bs @ peek 4 4 bs @ peek 8 4 bs @ peek 12 4 bs"
    unfolding resize_layout_def r by (simp only: ResizePayload.select_convs parts)
  also have "\<dots> = peek 0 16 bs"
    using peek_split [of 0 4 12 bs] peek_split [of 4 4 8 bs] peek_split [of 8 4 4 bs] by simp
  also have "\<dots> = bs" using len by (simp add: peek_def)
  finally show ?thesis using ok by simp
qed

interpretation resize: wire_codec encodeResizePayload decodeResizePayload
  by unfold_locales
    (auto simp: encodeResizePayload_Inr_iff decodeResizePayload_layout dest: decodeResizePayload_Inr)

text \<open>
  The resize payload codec is canonical: it encodes exactly the dimensions the decoder returns,
  so the columns, rows and pixel sizes the host applied are the ones every replica applies.
\<close>

theorem resize_payload_codec: "encodeResizePayload r = Inr bs \<longleftrightarrow> decodeResizePayload bs = Inr r"
  using resize.dec_enc resize.enc_dec by blast

end
