(* ===== verification/Replica_Cursor.thy ===== *)
theory Replica_Cursor
  imports Data_Batch
begin

text \<open>
  \<open>packages/protocol/src/replica-cursor.ts\<close> and \<open>delivery-credit.ts\<close>: how one canonical mutation
  advances a replica's cursor, and how many bytes of credit two cursors are apart.
\<close>

section \<open>\<open>applyMutationCursor\<close>\<close>

record ReplicaCursor =
  rc_sessionEpoch :: int
  rc_deliveryGeneration :: int
  rc_lastEventSeq :: int
  rc_nextPtyOffset :: int

definition applyMutationCursor ::
  "ReplicaCursor \<Rightarrow> data_frame \<Rightarrow> ProtocolErrorCode + (ReplicaCursor \<times> ResizePayload option)" where
  "applyMutationCursor cursor frame =
     (if df_sessionEpoch frame \<noteq> rc_sessionEpoch cursor then Inl BAD_EPOCH
      else if df_deliveryGeneration frame \<noteq> rc_deliveryGeneration cursor then Inl BAD_GENERATION
      else if df_eventSeq frame \<noteq> rc_lastEventSeq cursor + 1 then Inl EVENT_GAP
      else if df_ptyOffset frame \<noteq> rc_nextPtyOffset cursor then Inl PTY_OFFSET_GAP
      else if df_kind frame = PtyOutput then
        Inr (cursor\<lparr>rc_lastEventSeq := df_eventSeq frame,
               rc_nextPtyOffset := rc_nextPtyOffset cursor + payload_length frame\<rparr>, None)
      else if df_kind frame = ResizeApplied then
        bindR (decodeResizePayload (df_payload frame)) (\<lambda>resize.
          Inr (cursor\<lparr>rc_lastEventSeq := df_eventSeq frame\<rparr>, Some resize))
      else Inl BAD_KIND)"

text \<open>A replica that applies a sequence of frames stops at the first error.\<close>

fun apply_frames :: "ReplicaCursor \<Rightarrow> data_frame list \<Rightarrow> ProtocolErrorCode + ReplicaCursor" where
  "apply_frames c [] = Inr c"
| "apply_frames c (f # fs) = bindR (applyMutationCursor c f) (\<lambda>(c', _). apply_frames c' fs)"

text \<open>The PTY bytes a frame contributes, and the offset after it.\<close>

definition pty_bytes :: "data_frame \<Rightarrow> bytes" where
  "pty_bytes f = (if df_kind f = PtyOutput then df_payload f else [])"

definition offset_after :: "data_frame \<Rightarrow> int" where
  "offset_after f = (if df_kind f = PtyOutput then df_ptyOffset f + payload_length f else df_ptyOffset f)"

definition well_formed_mutation :: "data_frame \<Rightarrow> bool" where
  "well_formed_mutation f \<longleftrightarrow> df_kind f = PtyOutput \<or>
     (df_kind f = ResizeApplied \<and> okR (decodeResizePayload (df_payload f)))"

text \<open>Frames that continue a cursor without a gap, in one epoch and generation.\<close>

fun continues :: "ReplicaCursor \<Rightarrow> data_frame list \<Rightarrow> bool" where
  "continues c [] \<longleftrightarrow> True"
| "continues c (f # fs) \<longleftrightarrow>
     df_sessionEpoch f = rc_sessionEpoch c \<and> df_deliveryGeneration f = rc_deliveryGeneration c \<and>
     df_eventSeq f = rc_lastEventSeq c + 1 \<and> df_ptyOffset f = rc_nextPtyOffset c \<and>
     well_formed_mutation f \<and>
     continues (c\<lparr>rc_lastEventSeq := df_eventSeq f, rc_nextPtyOffset := offset_after f\<rparr>) fs"

lemma applyMutationCursor_Inr_iff:
  "(\<exists>r. applyMutationCursor c f = Inr (c', r)) \<longleftrightarrow>
     df_sessionEpoch f = rc_sessionEpoch c \<and> df_deliveryGeneration f = rc_deliveryGeneration c \<and>
     df_eventSeq f = rc_lastEventSeq c + 1 \<and> df_ptyOffset f = rc_nextPtyOffset c \<and>
     well_formed_mutation f \<and>
     c' = c\<lparr>rc_lastEventSeq := df_eventSeq f, rc_nextPtyOffset := offset_after f\<rparr>"
  by (cases "df_kind f")
    (auto simp: applyMutationCursor_def well_formed_mutation_def offset_after_def bindR_Inr_iff okR_iff)

lemma applyMutationCursor_fields:
  assumes "applyMutationCursor c f = Inr (c', r)"
  shows "rc_sessionEpoch c' = rc_sessionEpoch c" "rc_deliveryGeneration c' = rc_deliveryGeneration c"
    "rc_lastEventSeq c' = rc_lastEventSeq c + 1" "df_eventSeq f = rc_lastEventSeq c + 1"
    "rc_nextPtyOffset c' = rc_nextPtyOffset c + int (length (pty_bytes f))"
    "well_formed_mutation f"
proof -
  from assms have "\<exists>r. applyMutationCursor c f = Inr (c', r)" by blast
  then show "rc_sessionEpoch c' = rc_sessionEpoch c"
    "rc_deliveryGeneration c' = rc_deliveryGeneration c"
    "rc_lastEventSeq c' = rc_lastEventSeq c + 1" "df_eventSeq f = rc_lastEventSeq c + 1"
    "rc_nextPtyOffset c' = rc_nextPtyOffset c + int (length (pty_bytes f))" "well_formed_mutation f"
    unfolding applyMutationCursor_Inr_iff
    by (auto simp: offset_after_def pty_bytes_def payload_length_def)
qed

lemma apply_frames_append:
  "apply_frames c (fs @ gs) = bindR (apply_frames c fs) (\<lambda>c'. apply_frames c' gs)"
proof (induction fs arbitrary: c)
  case Nil
  then show ?case by simp
next
  case (Cons f fs)
  show ?case by (cases "applyMutationCursor c f") (auto simp: Cons.IH)
qed

lemma apply_frames_continues: "okR (apply_frames c fs) \<longleftrightarrow> continues c fs"
proof (induction fs arbitrary: c)
  case Nil
  then show ?case by simp
next
  case (Cons f fs)
  show ?case
  proof (cases "applyMutationCursor c f")
    case (Inl e)
    then have "\<not> (\<exists>c' r. applyMutationCursor c f = Inr (c', r))" by simp
    then have "\<not> continues c (f # fs)" unfolding applyMutationCursor_Inr_iff by auto
    with Inl show ?thesis by simp
  next
    case (Inr p)
    obtain c' r where p: "p = (c', r)" by (cases p)
    from Inr p have "\<exists>r. applyMutationCursor c f = Inr (c', r)" by blast
    with Inr p show ?thesis unfolding applyMutationCursor_Inr_iff by (auto simp: Cons.IH)
  qed
qed

lemma apply_frames_result:
  "apply_frames c fs = Inr c' \<Longrightarrow>
   c' = c\<lparr>rc_lastEventSeq := rc_lastEventSeq c + int (length fs),
     rc_nextPtyOffset := rc_nextPtyOffset c + int (length (concat (map pty_bytes fs)))\<rparr>"
proof (induction fs arbitrary: c)
  case Nil
  then show ?case by simp
next
  case (Cons f fs)
  then obtain c1 r where step: "applyMutationCursor c f = Inr (c1, r)"
    and rest: "apply_frames c1 fs = Inr c'" by (auto simp: bindR_Inr_iff)
  note flds = applyMutationCursor_fields [OF step]
  show ?case using Cons.IH [OF rest] flds by simp
qed

text \<open>
  A replica accepts a sequence of frames exactly when they continue its cursor without a gap (same
  epoch and generation, consecutive event numbers, exact PTY offsets, valid payloads); it then ends
  at the cursor advanced by one event per frame and by exactly the PTY bytes the frames carry.
\<close>

theorem apply_frames_exact:
  "apply_frames c fs = Inr c' \<longleftrightarrow>
     continues c fs \<and>
     c' = c\<lparr>rc_lastEventSeq := rc_lastEventSeq c + int (length fs),
            rc_nextPtyOffset := rc_nextPtyOffset c + int (length (concat (map pty_bytes fs)))\<rparr>"
  using apply_frames_continues [of c fs] apply_frames_result [of c fs] by (auto simp: okR_iff)

section \<open>\<open>deliveryOutstandingBytes\<close>\<close>

definition DELIVERY_EVENT_OVERHEAD_BYTES :: int where "DELIVERY_EVENT_OVERHEAD_BYTES = 64"
definition MAX_DELIVERY_OUTSTANDING_BYTES :: int where "MAX_DELIVERY_OUTSTANDING_BYTES = 512 * 1024"

record DeliveryCreditCursor =
  cc_eventSeq :: int
  cc_nextPtyOffset :: int

text \<open>\<open>None\<close> is the thrown \<open>RangeError\<close>.\<close>

definition deliveryOutstandingBytes ::
  "DeliveryCreditCursor \<Rightarrow> DeliveryCreditCursor \<Rightarrow> int option" where
  "deliveryOutstandingBytes acknowledged sent =
     (if cc_eventSeq acknowledged < 0 \<or> cc_nextPtyOffset acknowledged < 0 \<or>
         cc_eventSeq sent < cc_eventSeq acknowledged \<or>
         cc_nextPtyOffset sent < cc_nextPtyOffset acknowledged
      then None
      else Some (cc_nextPtyOffset sent - cc_nextPtyOffset acknowledged +
             (cc_eventSeq sent - cc_eventSeq acknowledged) * DELIVERY_EVENT_OVERHEAD_BYTES))"

definition credit_of :: "ReplicaCursor \<Rightarrow> DeliveryCreditCursor" where
  "credit_of c = \<lparr>cc_eventSeq = rc_lastEventSeq c, cc_nextPtyOffset = rc_nextPtyOffset c\<rparr>"

text \<open>
  The credit between a replica's cursor and the cursor after a delivered sequence is exactly 64
  bytes per event plus the PTY bytes delivered, so flow control charges every frame, empty resize
  events included, and never charges one twice.
\<close>

theorem outstanding_of_delivery:
  assumes "apply_frames c fs = Inr c'" and "0 \<le> rc_lastEventSeq c" and "0 \<le> rc_nextPtyOffset c"
  shows "deliveryOutstandingBytes (credit_of c) (credit_of c') =
    Some (int (length (concat (map pty_bytes fs))) + 64 * int (length fs))"
  using assms(2,3) unfolding apply_frames_result [OF assms(1)]
  by (simp add: deliveryOutstandingBytes_def credit_of_def DELIVERY_EVENT_OVERHEAD_BYTES_def)

theorem outstanding_of_delivery_witness:
  "deliveryOutstandingBytes
     (credit_of \<lparr>rc_sessionEpoch = 7, rc_deliveryGeneration = 1, rc_lastEventSeq = 4, rc_nextPtyOffset = 10\<rparr>)
     (credit_of \<lparr>rc_sessionEpoch = 7, rc_deliveryGeneration = 1, rc_lastEventSeq = 5, rc_nextPtyOffset = 12\<rparr>)
   = Some 66"
proof -
  let ?c = "\<lparr>rc_sessionEpoch = 7, rc_deliveryGeneration = 1, rc_lastEventSeq = 4, rc_nextPtyOffset = 10\<rparr>"
  let ?f = "\<lparr>df_kind = PtyOutput, df_flags = 0, df_sessionEpoch = 7, df_deliveryGeneration = 1,
    df_eventSeq = 5, df_ptyOffset = 10, df_streamId = 3, df_payload = [65, 66]\<rparr>"
  have run: "apply_frames ?c [?f] = Inr \<lparr>rc_sessionEpoch = 7, rc_deliveryGeneration = 1,
      rc_lastEventSeq = 5, rc_nextPtyOffset = 12\<rparr>"
    by (simp add: applyMutationCursor_def payload_length_def)
  show ?thesis using outstanding_of_delivery [OF run] by (simp add: pty_bytes_def)
qed

lemma outstanding_trans:
  "deliveryOutstandingBytes a b = Some m \<Longrightarrow> deliveryOutstandingBytes b c = Some n \<Longrightarrow>
   deliveryOutstandingBytes a c = Some (m + n)"
  by (auto simp: deliveryOutstandingBytes_def DELIVERY_EVENT_OVERHEAD_BYTES_def split: if_splits)

end
