(* ===== verification/Relay_Delivery.thy ===== *)
theory Relay_Delivery
  imports Replica_Cursor
begin

text \<open>
  \<open>apps/terminal-cloud/src/worker/relay-delivery.ts\<close>: the per-browser delivery cursor the cloud relay
  advances before it forwards canonical frames, with its flow-control credit. The nullable decimal
  strings of the socket attachment are \<open>int option\<close>.
\<close>

datatype DataState = awaiting_attach | catching_up | synced

record DeliveryCursorState =
  ds_ackedEventSeq :: "int option"
  ds_ackedPtyOffset :: "int option"
  ds_dataState :: "DataState option"
  ds_firstEventSeq :: "int option"
  ds_firstPtyOffset :: "int option"
  ds_sentEventSeq :: "int option"
  ds_sentPtyOffset :: "int option"

text \<open>\<open>CursorThrow\<close> is the \<open>RangeError\<close> of \<open>deliveryOutstandingBytes\<close>.\<close>

datatype DeliveryCursorResult =
    CreditExceeded | SequenceError | CursorThrow | CursorOk DeliveryCursorState int

text \<open>The body of the loop over the frames: the guards of one frame, in order.\<close>

definition frame_sequence_error :: "int \<Rightarrow> int \<Rightarrow> int \<Rightarrow> int \<Rightarrow> data_frame \<Rightarrow> bool" where
  "frame_sequence_error ackedEvent ackedPty previousSentEvent previousSentPty frame \<longleftrightarrow>
     (df_kind frame \<noteq> PtyOutput \<and> df_kind frame \<noteq> ResizeApplied \<and> df_kind frame \<noteq> ReplayCommit) \<or>
     (df_kind frame = ReplayCommit \<and> payload_length frame \<noteq> 0) \<or>
     (df_kind frame = ResizeApplied \<and> payload_length frame \<noteq> 16) \<or>
     (df_kind frame = PtyOutput \<and> MAX_U64 - payload_length frame < df_ptyOffset frame) \<or>
     df_eventSeq frame \<noteq> (if df_kind frame = ReplayCommit then previousSentEvent else previousSentEvent + 1) \<or>
     df_ptyOffset frame \<noteq> previousSentPty \<or>
     df_eventSeq frame < ackedEvent \<or> offset_after frame < ackedPty"

fun advance_loop ::
  "DeliveryCursorState \<Rightarrow> int \<Rightarrow> int \<Rightarrow> data_frame list \<Rightarrow> int \<Rightarrow> int \<Rightarrow> DataState \<Rightarrow> int \<Rightarrow> DeliveryCursorResult"
where
  "advance_loop state ackedEvent ackedPty [] previousSentEvent previousSentPty dataState outstanding =
     CursorOk (state\<lparr>ds_dataState := Some dataState, ds_sentEventSeq := Some previousSentEvent,
                ds_sentPtyOffset := Some previousSentPty\<rparr>) outstanding"
| "advance_loop state ackedEvent ackedPty (frame # frames) previousSentEvent previousSentPty dataState outstanding =
     (if frame_sequence_error ackedEvent ackedPty previousSentEvent previousSentPty frame then SequenceError
      else case deliveryOutstandingBytes
          \<lparr>cc_eventSeq = ackedEvent, cc_nextPtyOffset = ackedPty\<rparr>
          \<lparr>cc_eventSeq = df_eventSeq frame, cc_nextPtyOffset = offset_after frame\<rparr> of
        None \<Rightarrow> CursorThrow
      | Some outstanding' \<Rightarrow>
          if MAX_DELIVERY_OUTSTANDING_BYTES < outstanding' then CreditExceeded
          else advance_loop state ackedEvent ackedPty frames (df_eventSeq frame) (offset_after frame)
            (if df_kind frame = ReplayCommit then synced else dataState) outstanding')"

definition advanceDeliveryCursorBatch ::
  "DeliveryCursorState \<Rightarrow> data_frame list \<Rightarrow> DeliveryCursorResult" where
  "advanceDeliveryCursorBatch state frames =
     (if frames = [] then SequenceError
      else case ds_dataState state of
        None \<Rightarrow> SequenceError
      | Some awaiting_attach \<Rightarrow> SequenceError
      | Some dataState \<Rightarrow>
         (case (ds_sentEventSeq state, ds_sentPtyOffset state, ds_ackedEventSeq state, ds_ackedPtyOffset state) of
            (Some sentEvent, Some sentPty, Some ackedEvent, Some ackedPty) \<Rightarrow>
              advance_loop state ackedEvent ackedPty frames sentEvent sentPty dataState 0
          | _ \<Rightarrow> SequenceError))"

definition advanceDeliveryCursor :: "DeliveryCursorState \<Rightarrow> data_frame \<Rightarrow> DeliveryCursorResult" where
  "advanceDeliveryCursor state frame = advanceDeliveryCursorBatch state [frame]"

section \<open>A batch is the sequence of its frames\<close>

lemma advance_loop_state_irrelevant:
  "advance_loop (s\<lparr>ds_dataState := d, ds_sentEventSeq := e, ds_sentPtyOffset := p\<rparr>) a b fs pe pp ds outst =
   advance_loop s a b fs pe pp ds outst"
  by (induction fs arbitrary: pe pp ds outst) (simp_all split: option.split)

lemma advance_loop_outstanding_irrelevant:
  "fs \<noteq> [] \<Longrightarrow> advance_loop s a b fs pe pp ds outst = advance_loop s a b fs pe pp ds outst'"
  by (cases fs) simp_all

lemma advance_loop_Cons:
  "advance_loop st ae ap (f # fs) se sp d n =
     (case advance_loop st ae ap [f] se sp d n of
        CursorOk _ n' \<Rightarrow> advance_loop st ae ap fs (df_eventSeq f) (offset_after f)
          (if df_kind f = ReplayCommit then synced else d) n'
      | r \<Rightarrow> r)"
  by (simp split: option.split)

lemma advance_loop_single_state:
  "advance_loop st ae ap [f] se sp d n = CursorOk st' n' \<Longrightarrow>
   st' = st\<lparr>ds_dataState := Some (if df_kind f = ReplayCommit then synced else d),
     ds_sentEventSeq := Some (df_eventSeq f), ds_sentPtyOffset := Some (offset_after f)\<rparr>"
  by (auto split: if_splits option.splits)

lemmas advance_defs = advanceDeliveryCursorBatch_def advanceDeliveryCursor_def

text \<open>
  Advancing a delivery cursor over a batch is the same as advancing it frame by frame and stopping
  at the first frame that does not fit, with the same verdict: the batched fan-out of the relay
  accepts, charges and rejects exactly what the unbatched path does.
\<close>

theorem batch_is_sequential:
  "advanceDeliveryCursorBatch st (f # g # fs) =
     (case advanceDeliveryCursor st f of
        CursorOk st' _ \<Rightarrow> advanceDeliveryCursorBatch st' (g # fs)
      | r \<Rightarrow> r)"
proof (cases "\<exists>d se sp ae ap. ds_dataState st = Some d \<and> d \<noteq> awaiting_attach \<and> ds_sentEventSeq st = Some se \<and>
    ds_sentPtyOffset st = Some sp \<and> ds_ackedEventSeq st = Some ae \<and> ds_ackedPtyOffset st = Some ap")
  case False
  then show ?thesis
    by (auto simp: advance_defs split: option.splits DataState.splits)
next
  case True
  then obtain d se sp ae ap where st: "ds_dataState st = Some d" "d \<noteq> awaiting_attach"
    "ds_sentEventSeq st = Some se" "ds_sentPtyOffset st = Some sp" "ds_ackedEventSeq st = Some ae"
    "ds_ackedPtyOffset st = Some ap" by blast
  have open_batch: "advanceDeliveryCursorBatch st (x # xs) = advance_loop st ae ap (x # xs) se sp d 0" for x xs
    using st by (cases d) (simp_all add: advanceDeliveryCursorBatch_def)
  define d' where "d' = (if df_kind f = ReplayCommit then synced else d)"
  with st have d': "d' \<noteq> awaiting_attach" by simp
  let ?st' = "st\<lparr>ds_dataState := Some d', ds_sentEventSeq := Some (df_eventSeq f),
    ds_sentPtyOffset := Some (offset_after f)\<rparr>"
  have rest: "advanceDeliveryCursorBatch ?st' (g # fs) =
      advance_loop st ae ap (g # fs) (df_eventSeq f) (offset_after f) d' n" for n
  proof -
    have "advanceDeliveryCursorBatch ?st' (g # fs) =
        advance_loop ?st' ae ap (g # fs) (df_eventSeq f) (offset_after f) d' 0"
      using st d' by (cases d') (simp_all add: advanceDeliveryCursorBatch_def del: advance_loop.simps)
    also have "\<dots> = advance_loop st ae ap (g # fs) (df_eventSeq f) (offset_after f) d' n"
      unfolding advance_loop_state_irrelevant by (rule advance_loop_outstanding_irrelevant) simp
    finally show ?thesis .
  qed
  have split: "advanceDeliveryCursorBatch st (f # g # fs) =
      (case advance_loop st ae ap [f] se sp d 0 of
        CursorOk _ n' \<Rightarrow> advance_loop st ae ap (g # fs) (df_eventSeq f) (offset_after f) d' n'
      | r \<Rightarrow> r)"
    unfolding d'_def by (subst open_batch, subst advance_loop_Cons) (rule refl)
  have one: "advanceDeliveryCursor st f = advance_loop st ae ap [f] se sp d 0"
    by (simp only: advanceDeliveryCursor_def open_batch)
  show ?thesis
  proof (cases "advance_loop st ae ap [f] se sp d 0")
    case (CursorOk st' n)
    from CursorOk have "st' = ?st'" unfolding d'_def by (rule advance_loop_single_state)
    then have "advanceDeliveryCursorBatch st' (g # fs) =
        advance_loop st ae ap (g # fs) (df_eventSeq f) (offset_after f) d' n"
      by (simp only: rest [of n])
    then show ?thesis unfolding split one CursorOk by (simp only: DeliveryCursorResult.case)
  qed (simp_all only: split one DeliveryCursorResult.case)
qed

section \<open>Credit and cursor bounds\<close>

lemma advance_loop_ok:
  "advance_loop st ae ap fs pe pp d outst = CursorOk st' n \<Longrightarrow>
   ds_ackedEventSeq st' = ds_ackedEventSeq st \<and> ds_ackedPtyOffset st' = ds_ackedPtyOffset st \<and>
   (\<exists>se sp. ds_sentEventSeq st' = Some se \<and> ds_sentPtyOffset st' = Some sp \<and> pe \<le> se \<and> pp \<le> sp \<and>
     (fs \<noteq> [] \<longrightarrow> n \<le> MAX_DELIVERY_OUTSTANDING_BYTES \<and>
       deliveryOutstandingBytes \<lparr>cc_eventSeq = ae, cc_nextPtyOffset = ap\<rparr>
         \<lparr>cc_eventSeq = se, cc_nextPtyOffset = sp\<rparr> = Some n))"
proof (induction fs arbitrary: pe pp d outst)
  case Nil
  then show ?case by auto
next
  case (Cons f fs)
  from Cons.prems obtain o' where
    noerr: "\<not> frame_sequence_error ae ap pe pp f"
    and out: "deliveryOutstandingBytes \<lparr>cc_eventSeq = ae, cc_nextPtyOffset = ap\<rparr>
          \<lparr>cc_eventSeq = df_eventSeq f, cc_nextPtyOffset = offset_after f\<rparr> = Some o'"
    and credit: "o' \<le> MAX_DELIVERY_OUTSTANDING_BYTES"
    and rec: "advance_loop st ae ap fs (df_eventSeq f) (offset_after f)
      (if df_kind f = ReplayCommit then synced else d) o' = CursorOk st' n"
    by (auto split: if_splits option.splits)
  have mono: "pe \<le> df_eventSeq f" "pp \<le> offset_after f"
    using noerr by (auto simp: frame_sequence_error_def offset_after_def payload_length_def split: if_splits)
  show ?case
  proof (cases "fs = []")
    case True
    with rec out credit mono show ?thesis by auto
  next
    case False
    with Cons.IH [OF rec] mono show ?thesis by force
  qed
qed

text \<open>
  When the relay accepts frames for a browser, the unacknowledged bytes never exceed the 512-KiB
  credit, the reported figure is exactly the credit between the acknowledged and the new sent
  cursor, the acknowledged cursor is untouched and the sent cursor never moves back.
\<close>

theorem advance_within_credit:
  assumes "advanceDeliveryCursorBatch st fs = CursorOk st' n"
  shows "\<exists>ae ap se sp se' sp'.
    ds_ackedEventSeq st' = Some ae \<and> ds_ackedEventSeq st = Some ae \<and>
    ds_ackedPtyOffset st' = Some ap \<and> ds_ackedPtyOffset st = Some ap \<and>
    ds_sentEventSeq st = Some se \<and> ds_sentPtyOffset st = Some sp \<and>
    ds_sentEventSeq st' = Some se' \<and> ds_sentPtyOffset st' = Some sp' \<and> se \<le> se' \<and> sp \<le> sp' \<and>
    deliveryOutstandingBytes \<lparr>cc_eventSeq = ae, cc_nextPtyOffset = ap\<rparr>
      \<lparr>cc_eventSeq = se', cc_nextPtyOffset = sp'\<rparr> = Some n \<and>
    n \<le> MAX_DELIVERY_OUTSTANDING_BYTES"
proof -
  from assms obtain d se sp ae ap where st: "fs \<noteq> []" "ds_sentEventSeq st = Some se"
    "ds_sentPtyOffset st = Some sp" "ds_ackedEventSeq st = Some ae" "ds_ackedPtyOffset st = Some ap"
    and loop: "advance_loop st ae ap fs se sp d 0 = CursorOk st' n"
    by (auto simp: advanceDeliveryCursorBatch_def split: if_splits option.splits DataState.splits)
  with advance_loop_ok [OF loop] show ?thesis by auto
qed

theorem advance_within_credit_witness:
  "\<exists>st'. advanceDeliveryCursorBatch
     \<lparr>ds_ackedEventSeq = Some 1, ds_ackedPtyOffset = Some 2, ds_dataState = Some synced,
       ds_firstEventSeq = Some 0, ds_firstPtyOffset = Some 0, ds_sentEventSeq = Some 1, ds_sentPtyOffset = Some 2\<rparr>
     [\<lparr>df_kind = PtyOutput, df_flags = 0, df_sessionEpoch = 7, df_deliveryGeneration = 0,
       df_eventSeq = 2, df_ptyOffset = 2, df_streamId = 0, df_payload = [65]\<rparr>] = CursorOk st' 65 \<and>
     (\<exists>n. n \<le> MAX_DELIVERY_OUTSTANDING_BYTES \<and> deliveryOutstandingBytes
       \<lparr>cc_eventSeq = 1, cc_nextPtyOffset = 2\<rparr> \<lparr>cc_eventSeq = 2, cc_nextPtyOffset = 3\<rparr> = Some n)"
  (is "\<exists>st'. ?run = CursorOk st' 65 \<and> _")
proof -
  have run: "\<exists>st'. ?run = CursorOk st' 65 \<and> ds_sentEventSeq st' = Some 2 \<and> ds_sentPtyOffset st' = Some 3 \<and>
      ds_ackedEventSeq st' = Some 1 \<and> ds_ackedPtyOffset st' = Some 2"
    by (simp add: advanceDeliveryCursorBatch_def frame_sequence_error_def payload_length_def
        offset_after_def deliveryOutstandingBytes_def DELIVERY_EVENT_OVERHEAD_BYTES_def
        MAX_DELIVERY_OUTSTANDING_BYTES_def MAX_U64_def)
  then obtain st' where st': "?run = CursorOk st' 65" "ds_sentEventSeq st' = Some 2"
    "ds_sentPtyOffset st' = Some 3" "ds_ackedEventSeq st' = Some 1" "ds_ackedPtyOffset st' = Some 2" by blast
  from advance_within_credit [OF st'(1)] st' show ?thesis by auto
qed

section \<open>The relay and the replica agree\<close>

text \<open>The frame as \<open>rewriteDelivery\<close> sends it to the browser.\<close>

definition directed :: "int \<Rightarrow> int \<Rightarrow> data_frame \<Rightarrow> data_frame" where
  "directed g sid f = f\<lparr>df_deliveryGeneration := g, df_streamId := sid\<rparr>"

lemma directed_simps [simp]:
  "df_kind (directed g sid f) = df_kind f" "df_eventSeq (directed g sid f) = df_eventSeq f"
  "df_ptyOffset (directed g sid f) = df_ptyOffset f" "df_payload (directed g sid f) = df_payload f"
  "df_sessionEpoch (directed g sid f) = df_sessionEpoch f" "df_deliveryGeneration (directed g sid f) = g"
  "df_streamId (directed g sid f) = sid" "payload_length (directed g sid f) = payload_length f"
  "offset_after (directed g sid f) = offset_after f"
  "well_formed_mutation (directed g sid f) = well_formed_mutation f"
  "pty_bytes (directed g sid f) = pty_bytes f"
  by (simp_all add: directed_def payload_length_def offset_after_def well_formed_mutation_def pty_bytes_def)

lemma advance_loop_replica:
  "advance_loop st ae ap fs pe pp d outst = CursorOk st' n \<Longrightarrow>
   list_all (\<lambda>f. df_sessionEpoch f = ep \<and> well_formed_mutation f) fs \<Longrightarrow>
   \<exists>se sp. ds_sentEventSeq st' = Some se \<and> ds_sentPtyOffset st' = Some sp \<and>
     apply_frames \<lparr>rc_sessionEpoch = ep, rc_deliveryGeneration = g, rc_lastEventSeq = pe, rc_nextPtyOffset = pp\<rparr>
       (map (directed g sid) fs) =
     Inr \<lparr>rc_sessionEpoch = ep, rc_deliveryGeneration = g, rc_lastEventSeq = se, rc_nextPtyOffset = sp\<rparr>"
proof (induction fs arbitrary: pe pp d outst)
  case Nil
  then show ?case by auto
next
  case (Cons f fs)
  from Cons.prems(1) obtain o' where
    noerr: "\<not> frame_sequence_error ae ap pe pp f"
    and rec: "advance_loop st ae ap fs (df_eventSeq f) (offset_after f)
      (if df_kind f = ReplayCommit then synced else d) o' = CursorOk st' n"
    by (auto split: if_splits option.splits)
  let ?c = "\<lparr>rc_sessionEpoch = ep, rc_deliveryGeneration = g, rc_lastEventSeq = pe, rc_nextPtyOffset = pp\<rparr>"
  let ?c' = "\<lparr>rc_sessionEpoch = ep, rc_deliveryGeneration = g, rc_lastEventSeq = df_eventSeq f,
    rc_nextPtyOffset = offset_after f\<rparr>"
  have f: "well_formed_mutation f" "df_sessionEpoch f = ep" using Cons.prems(2) by auto
  then have "df_kind f \<noteq> ReplayCommit" by (auto simp: well_formed_mutation_def)
  with noerr f have "\<exists>r. applyMutationCursor ?c (directed g sid f) = Inr (?c', r)"
    unfolding applyMutationCursor_Inr_iff by (simp add: frame_sequence_error_def)
  with Cons.IH [OF rec] Cons.prems(2) show ?case by auto
qed



end
