(* ===== verification/Journal.thy ===== *)
theory Journal
  imports Replica_Cursor
begin

text \<open>
  \<open>apps/host-daemon/src/journal.ts\<close>: the bounded, segmented journal of canonical frames from which the
  host replays a delivery. The private fields of \<open>EventJournal\<close> are one record, the clock is an
  argument of the operations that read it, and the abstract specification is the list of every entry
  ever accepted.
\<close>

section \<open>State\<close>

record JournalCursor =
  jc_lastEventSeq :: int
  jc_nextPtyOffset :: int

record JournalEntry =
  je_eventSeq :: int
  je_frame :: bytes
  je_nextPtyOffset :: int

record JournalSegment =
  js_byteLength :: int
  js_createdAt :: int
  js_entries :: "JournalEntry list"
  js_sealed :: bool

record EventJournal =
  j_maxAgeMs :: int
  j_maxBytes :: int
  j_segmentAgeMs :: int
  j_segmentBytes :: int
  j_segments :: "JournalSegment list"
  j_evictedCursor :: JournalCursor
  j_headCursor :: JournalCursor
  j_sessionEpoch :: "int option"
  j_totalBytes :: int

datatype JournalError =
    JournalProtocol ProtocolErrorCode
  | NotMutationFrame | NotDeliveryNeutral | EventSeqGap | OffsetGap | EpochMix
  | LimitNotPositive

datatype JournalReplay = ReplayOk "bytes list" | ReplayGap

definition zero_cursor :: JournalCursor where
  "zero_cursor = \<lparr>jc_lastEventSeq = 0, jc_nextPtyOffset = 0\<rparr>"

definition positiveLimit :: "int \<Rightarrow> JournalError + int" where
  "positiveLimit v = (if v \<le> 0 then Inl LimitNotPositive else Inr v)"

definition JOURNAL_DEFAULTS :: "int \<times> int \<times> int \<times> int" where
  "JOURNAL_DEFAULTS = (60000, 8 * 1024 * 1024, 250, 256 * 1024)"

text \<open>The constructor: absent options take the defaults, in the order of \<open>JOURNAL_DEFAULTS\<close>.\<close>

definition newEventJournal ::
  "int option \<Rightarrow> int option \<Rightarrow> int option \<Rightarrow> int option \<Rightarrow> JournalError + EventJournal" where
  "newEventJournal maxAge maxBytes segmentAge segmentBytes =
     (case JOURNAL_DEFAULTS of (dAge, dBytes, dSegAge, dSegBytes) \<Rightarrow>
       bindR (positiveLimit (case maxAge of None \<Rightarrow> dAge | Some v \<Rightarrow> v)) (\<lambda>ma.
       bindR (positiveLimit (case maxBytes of None \<Rightarrow> dBytes | Some v \<Rightarrow> v)) (\<lambda>mb.
       bindR (positiveLimit (case segmentAge of None \<Rightarrow> dSegAge | Some v \<Rightarrow> v)) (\<lambda>sa.
       bindR (positiveLimit (case segmentBytes of None \<Rightarrow> dSegBytes | Some v \<Rightarrow> v)) (\<lambda>sb.
         Inr \<lparr>j_maxAgeMs = ma, j_maxBytes = mb, j_segmentAgeMs = sa, j_segmentBytes = sb,
           j_segments = [], j_evictedCursor = zero_cursor, j_headCursor = zero_cursor,
           j_sessionEpoch = None, j_totalBytes = 0\<rparr>)))))"

section \<open>Operations\<close>

text \<open>\<open>#sealAgedActive\<close> looks only at the newest segment.\<close>

definition sealAgedActive :: "EventJournal \<Rightarrow> int \<Rightarrow> EventJournal" where
  "sealAgedActive j now =
     (if j_segments j \<noteq> [] \<and> \<not> js_sealed (last (j_segments j)) \<and>
         j_segmentAgeMs j \<le> now - js_createdAt (last (j_segments j))
      then j\<lparr>j_segments := butlast (j_segments j) @ [(last (j_segments j))\<lparr>js_sealed := True\<rparr>]\<rparr>
      else j)"

text \<open>The loop of \<open>#prune\<close>: segments, total bytes and evicted cursor.\<close>

fun prune_loop ::
  "int \<Rightarrow> int \<Rightarrow> int \<Rightarrow> JournalSegment list \<Rightarrow> int \<Rightarrow> JournalCursor \<Rightarrow>
   JournalSegment list \<times> int \<times> JournalCursor" where
  "prune_loop maxAge maxBytes now [] held evicted = ([], held, evicted)"
| "prune_loop maxAge maxBytes now (oldest # segments) held evicted =
     (if \<not> js_sealed oldest \<or> (\<not> maxAge < now - js_createdAt oldest \<and> \<not> maxBytes < held)
      then (oldest # segments, held, evicted)
      else prune_loop maxAge maxBytes now segments (held - js_byteLength oldest)
        (if js_entries oldest = [] then evicted
         else \<lparr>jc_lastEventSeq = je_eventSeq (last (js_entries oldest)),
           jc_nextPtyOffset = je_nextPtyOffset (last (js_entries oldest))\<rparr>))"

definition prune :: "EventJournal \<Rightarrow> int \<Rightarrow> EventJournal" where
  "prune j now =
     (case prune_loop (j_maxAgeMs j) (j_maxBytes j) now (j_segments j) (j_totalBytes j) (j_evictedCursor j) of
        (segments, held, evicted) \<Rightarrow>
          j\<lparr>j_segments := segments, j_totalBytes := held, j_evictedCursor := evicted\<rparr>)"

definition maintain :: "EventJournal \<Rightarrow> int \<Rightarrow> EventJournal" where
  "maintain j now = prune (sealAgedActive j now) now"

text \<open>The guards of \<open>append\<close>, in order, and the frame they let through.\<close>

definition append_guard :: "EventJournal \<Rightarrow> bytes \<Rightarrow> JournalError + data_frame" where
  "append_guard j encoded =
     (case decodeDataFrame encoded of
        Inl e \<Rightarrow> Inl (JournalProtocol e)
      | Inr frame \<Rightarrow>
          if df_kind frame \<noteq> PtyOutput \<and> df_kind frame \<noteq> ResizeApplied then Inl NotMutationFrame
          else if df_deliveryGeneration frame \<noteq> 0 \<or> df_streamId frame \<noteq> 0 then Inl NotDeliveryNeutral
          else if df_eventSeq frame \<noteq> jc_lastEventSeq (j_headCursor j) + 1 then Inl EventSeqGap
          else if df_ptyOffset frame \<noteq> jc_nextPtyOffset (j_headCursor j) then Inl OffsetGap
          else if j_sessionEpoch j \<noteq> None \<and> j_sessionEpoch j \<noteq> Some (df_sessionEpoch frame) then Inl EpochMix
          else Inr frame)"

text \<open>The active segment: the newest one, or a new one when there is none or it is sealed.\<close>

definition open_active :: "EventJournal \<Rightarrow> int \<Rightarrow> EventJournal" where
  "open_active j now =
     (if j_segments j = [] \<or> js_sealed (last (j_segments j))
      then j\<lparr>j_segments := j_segments j @
        [\<lparr>js_byteLength = 0, js_createdAt = now, js_entries = [], js_sealed = False\<rparr>]\<rparr>
      else j)"

definition push_entry :: "EventJournal \<Rightarrow> JournalEntry \<Rightarrow> EventJournal" where
  "push_entry j e =
     (let segment = last (j_segments j);
          stored = int (length (je_frame e));
          filled = segment\<lparr>js_entries := js_entries segment @ [e],
            js_byteLength := js_byteLength segment + stored\<rparr>;
          held = j_totalBytes j + stored;
          sealed = (if j_segmentBytes j \<le> js_byteLength filled \<or> j_maxBytes j < held
            then filled\<lparr>js_sealed := True\<rparr> else filled)
      in j\<lparr>j_segments := butlast (j_segments j) @ [sealed], j_totalBytes := held,
           j_headCursor := \<lparr>jc_lastEventSeq = je_eventSeq e, jc_nextPtyOffset = je_nextPtyOffset e\<rparr>\<rparr>)"

definition entry_of :: "data_frame \<Rightarrow> bytes \<Rightarrow> JournalEntry" where
  "entry_of frame encoded =
     \<lparr>je_eventSeq = df_eventSeq frame, je_frame = encoded, je_nextPtyOffset = offset_after frame\<rparr>"

definition journal_append :: "EventJournal \<Rightarrow> int \<Rightarrow> bytes \<Rightarrow> JournalError + EventJournal" where
  "journal_append j now encoded =
     bindR (append_guard j encoded) (\<lambda>frame.
       let j1 = (if j_sessionEpoch j = None then j\<lparr>j_sessionEpoch := Some (df_sessionEpoch frame)\<rparr> else j);
           j2 = open_active (sealAgedActive j1 now) now;
           j3 = push_entry j2 (entry_of frame encoded)
       in Inr (prune j3 now))"

definition entries :: "EventJournal \<Rightarrow> int \<Rightarrow> EventJournal \<times> bytes list" where
  "entries j now = (let j' = maintain j now in
     (j', concat (map (\<lambda>s. map je_frame (js_entries s)) (j_segments j'))))"

fun offset_in_segments :: "JournalSegment list \<Rightarrow> int \<Rightarrow> int option" where
  "offset_in_segments [] eventSeq = None"
| "offset_in_segments (s # ss) eventSeq =
     (case find (\<lambda>e. je_eventSeq e = eventSeq) (js_entries s) of
        Some e \<Rightarrow> Some (je_nextPtyOffset e)
      | None \<Rightarrow> offset_in_segments ss eventSeq)"

definition offsetAfter :: "EventJournal \<Rightarrow> int \<Rightarrow> int option" where
  "offsetAfter j eventSeq =
     (if eventSeq = jc_lastEventSeq (j_evictedCursor j) then Some (jc_nextPtyOffset (j_evictedCursor j))
      else if eventSeq = jc_lastEventSeq (j_headCursor j) then Some (jc_nextPtyOffset (j_headCursor j))
      else offset_in_segments (j_segments j) eventSeq)"

definition replayRange :: "EventJournal \<Rightarrow> JournalCursor \<Rightarrow> JournalCursor \<Rightarrow> JournalReplay" where
  "replayRange j cursor commit =
     (if jc_lastEventSeq cursor < jc_lastEventSeq (j_evictedCursor j) \<or>
         jc_lastEventSeq commit < jc_lastEventSeq cursor \<or>
         jc_lastEventSeq (j_headCursor j) < jc_lastEventSeq commit
      then ReplayGap
      else if offsetAfter j (jc_lastEventSeq cursor) \<noteq> Some (jc_nextPtyOffset cursor) \<or>
         offsetAfter j (jc_lastEventSeq commit) \<noteq> Some (jc_nextPtyOffset commit)
      then ReplayGap
      else ReplayOk (concat (map (\<lambda>s. map je_frame
        (filter (\<lambda>e. jc_lastEventSeq cursor < je_eventSeq e \<and> je_eventSeq e \<le> jc_lastEventSeq commit)
          (js_entries s))) (j_segments j))))"

definition replayFrom :: "EventJournal \<Rightarrow> int \<Rightarrow> JournalCursor \<Rightarrow> EventJournal \<times> JournalReplay" where
  "replayFrom j now cursor = (let j' = maintain j now in (j', replayRange j' cursor (j_headCursor j')))"

definition replayThrough ::
  "EventJournal \<Rightarrow> int \<Rightarrow> JournalCursor \<Rightarrow> JournalCursor \<Rightarrow> EventJournal \<times> JournalReplay" where
  "replayThrough j now cursor commit = (let j' = maintain j now in (j', replayRange j' cursor commit))"

section \<open>The abstract journal: every entry ever accepted\<close>

text \<open>Entries linked from an event number and a byte offset, in one epoch.\<close>

fun linked :: "int option \<Rightarrow> int \<Rightarrow> int \<Rightarrow> JournalEntry list \<Rightarrow> bool" where
  "linked ep n off [] \<longleftrightarrow> True"
| "linked ep n off (e # es) \<longleftrightarrow>
     (case decodeDataFrame (je_frame e) of
        Inl _ \<Rightarrow> False
      | Inr f \<Rightarrow> (df_kind f = PtyOutput \<or> df_kind f = ResizeApplied) \<and> df_deliveryGeneration f = 0 \<and>
          df_streamId f = 0 \<and> ep = Some (df_sessionEpoch f) \<and> df_eventSeq f = n + 1 \<and>
          df_ptyOffset f = off \<and> e = entry_of f (je_frame e)) \<and>
     linked ep (n + 1) (je_nextPtyOffset e) es"

definition log_offset :: "JournalEntry list \<Rightarrow> nat \<Rightarrow> int" where
  "log_offset log n = (if n = 0 then 0 else je_nextPtyOffset (log ! (n - 1)))"

definition log_cursor :: "JournalEntry list \<Rightarrow> nat \<Rightarrow> JournalCursor" where
  "log_cursor log n = \<lparr>jc_lastEventSeq = int n, jc_nextPtyOffset = log_offset log n\<rparr>"

text \<open>What a replay means on the abstract log: a gap, or exactly the entries between the cursors.\<close>

definition log_replay :: "JournalEntry list \<Rightarrow> nat \<Rightarrow> JournalCursor \<Rightarrow> JournalCursor \<Rightarrow> JournalReplay" where
  "log_replay log evicted cursor commit =
     (if \<exists>a\<in>set [evicted..<Suc (length log)]. \<exists>b\<in>set [a..<Suc (length log)].
         cursor = log_cursor log a \<and> commit = log_cursor log b
      then ReplayOk (map je_frame (take (nat (jc_lastEventSeq commit - jc_lastEventSeq cursor))
        (drop (nat (jc_lastEventSeq cursor)) log)))
      else ReplayGap)"

abbreviation retained :: "EventJournal \<Rightarrow> JournalEntry list" where
  "retained j \<equiv> concat (map js_entries (j_segments j))"

definition entry_bytes :: "JournalEntry list \<Rightarrow> int" where
  "entry_bytes es = sum_list (map (\<lambda>e. int (length (je_frame e))) es)"

definition segment_ok :: "JournalSegment \<Rightarrow> bool" where
  "segment_ok s \<longleftrightarrow> js_entries s \<noteq> [] \<and> js_byteLength s = entry_bytes (js_entries s)"

text \<open>
  The concrete journal represents a log when it retains the log's suffix after the evicted cursor,
  counts its bytes exactly, and only its newest segment may be unsealed.
\<close>

definition journal_rep :: "JournalEntry list \<Rightarrow> EventJournal \<Rightarrow> bool" where
  "journal_rep log j \<longleftrightarrow>
     0 < j_maxBytes j \<and>
     linked (j_sessionEpoch j) 0 0 log \<and>
     j_headCursor j = log_cursor log (length log) \<and>
     (\<exists>k \<le> length log. j_evictedCursor j = log_cursor log k \<and> retained j = drop k log) \<and>
     list_all segment_ok (j_segments j) \<and>
     list_all js_sealed (butlast (j_segments j)) \<and>
     j_totalBytes j = entry_bytes (retained j) \<and> j_totalBytes j \<le> j_maxBytes j"

lemma linked_append:
  "linked ep n off (es @ [e]) \<longleftrightarrow> linked ep n off es \<and>
     linked ep (n + int (length es)) (if es = [] then off else je_nextPtyOffset (last es)) [e]"
proof (induction es arbitrary: n off)
  case (Cons x es)
  show ?case
    by (cases "es = []") (simp_all add: Cons.IH algebra_simps)
qed simp

lemma linked_seq: "linked ep n off es \<Longrightarrow> i < length es \<Longrightarrow> je_eventSeq (es ! i) = n + 1 + int i"
proof (induction es arbitrary: n off i)
  case (Cons x es)
  from Cons.prems(1) have x: "je_eventSeq x = n + 1" and rest: "linked ep (n + 1) (je_nextPtyOffset x) es"
    by (auto simp: entry_of_def split: sum.splits dest: arg_cong [where f = je_eventSeq])
  show ?case
  proof (cases i)
    case (Suc m)
    with Cons.IH [OF rest, of m] Cons.prems(2) show ?thesis by simp
  qed (simp add: x)
qed simp

lemma entry_bytes_simps [simp]:
  "entry_bytes [] = 0" "entry_bytes (e # es) = int (length (je_frame e)) + entry_bytes es"
  "entry_bytes (es @ es') = entry_bytes es + entry_bytes es'"
  by (simp_all add: entry_bytes_def)

lemma entry_bytes_nonneg: "0 \<le> entry_bytes es"
  by (induction es) auto

section \<open>Every operation keeps the representation\<close>

lemma log_cursor_step:
  assumes lk: "linked ep 0 0 log" and k: "k + length es \<le> length log" and es: "es \<noteq> []"
    and d: "take (length es) (drop k log) = es"
  shows "log_cursor log (k + length es) =
    \<lparr>jc_lastEventSeq = je_eventSeq (last es), jc_nextPtyOffset = je_nextPtyOffset (last es)\<rparr>"
proof -
  have "last es = take (length es) (drop k log) ! (length es - 1)"
    using es d by (simp add: last_conv_nth)
  also have "\<dots> = log ! (k + (length es - 1))" using k es by (simp add: nth_take)
  finally have l: "last es = log ! (k + length es - 1)" using es by (simp add: Suc_leI)
  have "je_eventSeq (log ! (k + length es - 1)) = int (k + length es)"
  proof -
    have "k + length es - 1 < length log" "1 \<le> length es" using k es by (cases es; simp)+
    with linked_seq [OF lk, of "k + length es - 1"] show ?thesis by simp
  qed
  then show ?thesis using es l by (simp add: log_cursor_def log_offset_def)
qed

text \<open>The part of the representation that the pruning loop works on.\<close>

definition suffix_rep ::
  "JournalEntry list \<Rightarrow> JournalSegment list \<Rightarrow> int \<Rightarrow> JournalCursor \<Rightarrow> bool" where
  "suffix_rep log ss held ev \<longleftrightarrow>
     (\<exists>k \<le> length log. ev = log_cursor log k \<and> concat (map js_entries ss) = drop k log) \<and>
     list_all segment_ok ss \<and> list_all js_sealed (butlast ss) \<and>
     held = entry_bytes (concat (map js_entries ss))"

lemma suffix_rep_shift:
  assumes lk: "linked ep 0 0 log" and r: "suffix_rep log (s # ss) held ev"
  shows "suffix_rep log ss (held - js_byteLength s)
    \<lparr>jc_lastEventSeq = je_eventSeq (last (js_entries s)), jc_nextPtyOffset = je_nextPtyOffset (last (js_entries s))\<rparr>"
proof -
  let ?es = "js_entries s"
  from r obtain k where k: "k \<le> length log" and d: "?es @ concat (map js_entries ss) = drop k log"
    and s: "segment_ok s" "list_all segment_ok ss" and sl: "list_all js_sealed (butlast (s # ss))"
    and held: "held = entry_bytes ?es + entry_bytes (concat (map js_entries ss))"
    by (auto simp: suffix_rep_def)
  have len: "k + length ?es \<le> length log"
    using arg_cong [OF d, of length] k by simp
  have "drop (length ?es) (drop k log) = concat (map js_entries ss)"
    using arg_cong [OF d, of "drop (length ?es)"] by simp
  then have rest: "concat (map js_entries ss) = drop (k + length ?es) log" by (simp add: add.commute)
  have tk: "take (length ?es) (drop k log) = ?es"
    using arg_cong [OF d, of "take (length ?es)"] by simp
  note cur = log_cursor_step [OF lk len _ tk]
  show ?thesis unfolding suffix_rep_def
  proof (intro conjI)
    show "\<exists>k\<le>length log.
       \<lparr>jc_lastEventSeq = je_eventSeq (last ?es), jc_nextPtyOffset = je_nextPtyOffset (last ?es)\<rparr> = log_cursor log k \<and>
       concat (map js_entries ss) = drop k log"
      using len rest cur s(1) by (auto simp: segment_ok_def)
    show "list_all segment_ok ss" by (rule s(2))
    show "list_all js_sealed (butlast ss)" using sl by (cases ss) auto
    show "held - js_byteLength s = entry_bytes (concat (map js_entries ss))"
      using held s(1) by (simp add: segment_ok_def)
  qed
qed

lemma prune_loop_rep:
  assumes lk: "linked ep 0 0 log"
  shows "suffix_rep log ss held ev \<Longrightarrow> prune_loop ma mb now ss held ev = (ss', held', ev') \<Longrightarrow>
    suffix_rep log ss' held' ev' \<and> (0 < mb \<and> (list_all js_sealed ss \<or> held \<le> mb) \<longrightarrow> held' \<le> mb) \<and>
    (\<exists>n. ss' = drop n ss) \<and>
    (ss' \<noteq> [] \<longrightarrow> js_sealed (hd ss') \<longrightarrow> now - js_createdAt (hd ss') \<le> ma)"
proof (induction ss arbitrary: held ev)
  case Nil
  then show ?case by (auto simp: suffix_rep_def)
next
  case (Cons s ss)
  show ?case
  proof (cases "\<not> js_sealed s \<or> (\<not> ma < now - js_createdAt s \<and> \<not> mb < held)")
    case True
    with Cons.prems(2) have "ss' = drop 0 (s # ss)" "held' = held" "ev' = ev" by auto
    moreover have "js_sealed s \<Longrightarrow> now - js_createdAt s \<le> ma" using True by auto
    moreover have "list_all js_sealed (s # ss) \<or> held \<le> mb \<Longrightarrow> held \<le> mb" using True by auto
    ultimately show ?thesis using Cons.prems(1) by (auto intro: exI [of _ 0])
  next
    case False
    have "js_entries s \<noteq> []" using Cons.prems(1) by (simp add: suffix_rep_def segment_ok_def)
    with False Cons.prems(2) have rec: "prune_loop ma mb now ss (held - js_byteLength s)
      \<lparr>jc_lastEventSeq = je_eventSeq (last (js_entries s)), jc_nextPtyOffset = je_nextPtyOffset (last (js_entries s))\<rparr>
      = (ss', held', ev')" by (auto split: if_splits)
    note sh = suffix_rep_shift [OF lk Cons.prems(1)]
    have "0 \<le> js_byteLength s" using Cons.prems(1)
      by (simp add: suffix_rep_def segment_ok_def entry_bytes_nonneg)
    with Cons.IH [OF sh rec] show ?thesis
      by (auto intro: exI [of _ "Suc n" for n])
  qed
qed

lemma journal_rep_alt:
  "journal_rep log j \<longleftrightarrow> 0 < j_maxBytes j \<and> linked (j_sessionEpoch j) 0 0 log \<and>
     j_headCursor j = log_cursor log (length log) \<and>
     suffix_rep log (j_segments j) (j_totalBytes j) (j_evictedCursor j) \<and> j_totalBytes j \<le> j_maxBytes j"
  by (auto simp: journal_rep_def suffix_rep_def)

lemma suffix_rep_seal:
  assumes "suffix_rep log ss held ev" "ss \<noteq> []"
  shows "suffix_rep log (butlast ss @ [(last ss)\<lparr>js_sealed := True\<rparr>]) held ev"
proof -
  from assms(2) obtain xs x where ss: "ss = xs @ [x]" by (cases ss rule: rev_cases) auto
  show ?thesis using assms(1) by (simp add: ss suffix_rep_def segment_ok_def)
qed

lemma sealAgedActive_fields [simp]:
  "j_maxBytes (sealAgedActive j now) = j_maxBytes j" "j_maxAgeMs (sealAgedActive j now) = j_maxAgeMs j"
  "j_segmentAgeMs (sealAgedActive j now) = j_segmentAgeMs j"
  "j_segmentBytes (sealAgedActive j now) = j_segmentBytes j"
  "j_sessionEpoch (sealAgedActive j now) = j_sessionEpoch j"
  "j_headCursor (sealAgedActive j now) = j_headCursor j"
  "j_evictedCursor (sealAgedActive j now) = j_evictedCursor j"
  "j_totalBytes (sealAgedActive j now) = j_totalBytes j"
  by (simp_all add: sealAgedActive_def)

lemma sealAgedActive_suffix:
  "suffix_rep log (j_segments j) held ev \<Longrightarrow> suffix_rep log (j_segments (sealAgedActive j now)) held ev"
  by (simp add: sealAgedActive_def suffix_rep_seal)

lemma prune_fields [simp]:
  "j_maxBytes (prune j now) = j_maxBytes j" "j_maxAgeMs (prune j now) = j_maxAgeMs j"
  "j_segmentAgeMs (prune j now) = j_segmentAgeMs j" "j_segmentBytes (prune j now) = j_segmentBytes j"
  "j_sessionEpoch (prune j now) = j_sessionEpoch j" "j_headCursor (prune j now) = j_headCursor j"
  by (simp_all add: prune_def split: prod.split)

lemma prune_rep:
  assumes "linked (j_sessionEpoch j) 0 0 log" "0 < j_maxBytes j"
    "suffix_rep log (j_segments j) (j_totalBytes j) (j_evictedCursor j)"
    "j_headCursor j = log_cursor log (length log)"
    "list_all js_sealed (j_segments j) \<or> j_totalBytes j \<le> j_maxBytes j"
  shows "journal_rep log (prune j now)"
proof -
  obtain ss held ev where l: "prune_loop (j_maxAgeMs j) (j_maxBytes j) now (j_segments j)
      (j_totalBytes j) (j_evictedCursor j) = (ss, held, ev)" by (cases rule: prod_cases3)
  from prune_loop_rep [OF assms(1) assms(3) l] assms l show ?thesis
    by (simp add: journal_rep_alt prune_def)
qed

lemma maintain_rep: "journal_rep log j \<Longrightarrow> journal_rep log (maintain j now)"
  unfolding maintain_def
  by (rule prune_rep) (simp_all add: journal_rep_alt sealAgedActive_suffix)

lemma append_guard_Inr:
  assumes "append_guard j bs = Inr f"
  shows "decodeDataFrame bs = Inr f" "df_kind f = PtyOutput \<or> df_kind f = ResizeApplied"
    "df_deliveryGeneration f = 0" "df_streamId f = 0"
    "df_eventSeq f = jc_lastEventSeq (j_headCursor j) + 1" "df_ptyOffset f = jc_nextPtyOffset (j_headCursor j)"
    "j_sessionEpoch j = None \<or> j_sessionEpoch j = Some (df_sessionEpoch f)"
  using assms by (auto simp: append_guard_def split: sum.splits if_splits)

lemma log_cursor_snoc: "k \<le> length log \<Longrightarrow> log_cursor (log @ [e]) k = log_cursor log k"
  by (auto simp: log_cursor_def log_offset_def nth_append)

lemma log_cursor_head: "log_cursor (log @ [e]) (Suc (length log)) =
  \<lparr>jc_lastEventSeq = 1 + int (length log), jc_nextPtyOffset = je_nextPtyOffset e\<rparr>"
  by (simp add: log_cursor_def log_offset_def)

lemma log_offset_last: "log_offset log (length log) = (if log = [] then 0 else je_nextPtyOffset (last log))"
  by (simp add: log_offset_def last_conv_nth)

text \<open>Pushing onto the newest, unsealed segment: it may be the fresh, still empty one.\<close>

lemma push_entry_fields [simp]:
  "j_maxBytes (push_entry j e) = j_maxBytes j" "j_maxAgeMs (push_entry j e) = j_maxAgeMs j"
  "j_segmentAgeMs (push_entry j e) = j_segmentAgeMs j" "j_segmentBytes (push_entry j e) = j_segmentBytes j"
  "j_sessionEpoch (push_entry j e) = j_sessionEpoch j"
  "j_evictedCursor (push_entry j e) = j_evictedCursor j"
  "j_headCursor (push_entry j e) = \<lparr>jc_lastEventSeq = je_eventSeq e, jc_nextPtyOffset = je_nextPtyOffset e\<rparr>"
  "j_totalBytes (push_entry j e) = j_totalBytes j + int (length (je_frame e))"
  by (simp_all add: push_entry_def Let_def)

lemma push_entry_open:
  assumes segs: "j_segments j = xs @ [x]" and x: "js_byteLength x = entry_bytes (js_entries x)"
    and xs: "list_all segment_ok xs" "list_all js_sealed xs"
    and k: "k \<le> length log" "j_evictedCursor j = log_cursor log k"
      "concat (map js_entries (j_segments j)) = drop k log"
    and tot: "j_totalBytes j = entry_bytes (concat (map js_entries (j_segments j)))"
  shows "suffix_rep (log @ [e]) (j_segments (push_entry j e)) (j_totalBytes (push_entry j e))
      (j_evictedCursor (push_entry j e))"
    and "list_all js_sealed (j_segments (push_entry j e)) \<or>
      j_totalBytes (push_entry j e) \<le> j_maxBytes (push_entry j e)"
proof -
  have segs': "\<exists>y. j_segments (push_entry j e) = xs @ [y] \<and> js_entries y = js_entries x @ [e] \<and>
      js_byteLength y = js_byteLength x + int (length (je_frame e)) \<and>
      (js_sealed y \<or> j_totalBytes (push_entry j e) \<le> j_maxBytes j)"
    by (auto simp: push_entry_def Let_def segs)
  then obtain y where y: "j_segments (push_entry j e) = xs @ [y]" "js_entries y = js_entries x @ [e]"
      "js_byteLength y = js_byteLength x + int (length (je_frame e))"
      "js_sealed y \<or> j_totalBytes (push_entry j e) \<le> j_maxBytes j" by blast
  have c: "concat (map js_entries xs) @ js_entries x = drop k log" using k(3) segs by simp
  have k': "k \<le> length (log @ [e])" "j_evictedCursor j = log_cursor (log @ [e]) k"
    "concat (map js_entries (xs @ [y])) = drop k (log @ [e])"
    using k c y(2) by (simp_all add: log_cursor_snoc flip: append_assoc)
  show "suffix_rep (log @ [e]) (j_segments (push_entry j e)) (j_totalBytes (push_entry j e))
      (j_evictedCursor (push_entry j e))"
    unfolding suffix_rep_def y(1) push_entry_fields
  proof (intro conjI)
    show "\<exists>k\<le>length (log @ [e]). j_evictedCursor j = log_cursor (log @ [e]) k \<and>
        concat (map js_entries (xs @ [y])) = drop k (log @ [e])" using k' by blast
    show "list_all segment_ok (xs @ [y])" using xs(1) x y by (simp add: segment_ok_def)
    show "list_all js_sealed (butlast (xs @ [y]))" using xs(2) by simp
    show "j_totalBytes j + int (length (je_frame e)) = entry_bytes (concat (map js_entries (xs @ [y])))"
      using tot segs y(2) by simp
  qed
  show "list_all js_sealed (j_segments (push_entry j e)) \<or>
      j_totalBytes (push_entry j e) \<le> j_maxBytes (push_entry j e)"
    using y xs(2) by auto
qed

lemma open_active_fields [simp]:
  "j_maxBytes (open_active j now) = j_maxBytes j" "j_sessionEpoch (open_active j now) = j_sessionEpoch j"
  "j_evictedCursor (open_active j now) = j_evictedCursor j"
  "j_headCursor (open_active j now) = j_headCursor j" "j_totalBytes (open_active j now) = j_totalBytes j"
  by (simp_all add: open_active_def)

lemma open_active_segments:
  assumes "list_all segment_ok (j_segments j)" "list_all js_sealed (butlast (j_segments j))"
  obtains xs x where "j_segments (open_active j now) = xs @ [x]" "js_byteLength x = entry_bytes (js_entries x)"
    "list_all segment_ok xs" "list_all js_sealed xs"
    "concat (map js_entries (xs @ [x])) = concat (map js_entries (j_segments j))"
proof (cases "j_segments j = [] \<or> js_sealed (last (j_segments j))")
  case True
  have "list_all js_sealed (j_segments j)"
  proof (cases "j_segments j" rule: rev_cases)
    case (snoc ys y)
    with assms(2) True show ?thesis by simp
  qed simp
  with True assms(1) show ?thesis
    by (intro that [of "j_segments j" "\<lparr>js_byteLength = 0, js_createdAt = now, js_entries = [], js_sealed = False\<rparr>"])
      (simp_all add: open_active_def)
next
  case False
  then obtain xs x where s: "j_segments j = xs @ [x]" by (cases "j_segments j" rule: rev_cases) auto
  with False assms show ?thesis
    by (intro that [of xs x]) (simp_all add: open_active_def segment_ok_def)
qed

lemma append_rep:
  assumes rep: "journal_rep log j" and app: "journal_append j now bs = Inr j'"
  shows "\<exists>f. decodeDataFrame bs = Inr f \<and> journal_rep (log @ [entry_of f bs]) j'"
proof -
  from app obtain f where g: "append_guard j bs = Inr f" by (auto simp: journal_append_def bindR_Inr_iff)
  note f = append_guard_Inr [OF g]
  let ?e = "entry_of f bs"
  define j1 where "j1 = (if j_sessionEpoch j = None then j\<lparr>j_sessionEpoch := Some (df_sessionEpoch f)\<rparr> else j)"
  define j2 where "j2 = open_active (sealAgedActive j1 now) now"
  have j': "j' = prune (push_entry j2 ?e) now"
    using app g by (simp add: journal_append_def Let_def j1_def j2_def)
  have j1: "j_segments j1 = j_segments j" "j_headCursor j1 = j_headCursor j" "j_maxBytes j1 = j_maxBytes j"
    "j_totalBytes j1 = j_totalBytes j" "j_evictedCursor j1 = j_evictedCursor j"
    "j_sessionEpoch j1 = Some (df_sessionEpoch f)"
    using f(7) by (auto simp: j1_def)
  have lk: "linked (Some (df_sessionEpoch f)) 0 0 log"
  proof (cases "log = []")
    case False
    then have "j_sessionEpoch j \<noteq> None" using rep
      by (cases log) (auto simp: journal_rep_def split: sum.splits)
    with f(7) rep show ?thesis by (simp add: journal_rep_def)
  qed simp
  have head: "jc_lastEventSeq (j_headCursor j) = int (length log)"
    "jc_nextPtyOffset (j_headCursor j) = (if log = [] then 0 else je_nextPtyOffset (last log))"
    using rep by (simp_all add: journal_rep_def log_cursor_def log_offset_last)
  have lk': "linked (Some (df_sessionEpoch f)) 0 0 (log @ [?e])"
    unfolding linked_append using lk f head by (simp add: entry_of_def)
  have sr: "suffix_rep log (j_segments (sealAgedActive j1 now)) (j_totalBytes j) (j_evictedCursor j)"
    using rep j1(1) by (intro sealAgedActive_suffix) (simp add: journal_rep_alt)
  then obtain k where k: "k \<le> length log" "j_evictedCursor j = log_cursor log k"
    "concat (map js_entries (j_segments (sealAgedActive j1 now))) = drop k log"
    "j_totalBytes j = entry_bytes (concat (map js_entries (j_segments (sealAgedActive j1 now))))"
    by (auto simp: suffix_rep_def)
  from sr obtain xs x where xs: "j_segments j2 = xs @ [x]" "js_byteLength x = entry_bytes (js_entries x)"
    "list_all segment_ok xs" "list_all js_sealed xs"
    "concat (map js_entries (xs @ [x])) = concat (map js_entries (j_segments (sealAgedActive j1 now)))"
    unfolding j2_def suffix_rep_def by (elim conjE) (erule (1) open_active_segments)
  have c2: "concat (map js_entries (j_segments j2)) =
      concat (map js_entries (j_segments (sealAgedActive j1 now)))" using xs(1,5) by simp
  have flds: "j_totalBytes j2 = j_totalBytes j" "j_evictedCursor j2 = j_evictedCursor j"
    "j_maxBytes j2 = j_maxBytes j" "j_sessionEpoch j2 = Some (df_sessionEpoch f)"
    by (simp_all add: j2_def j1)
  note push = push_entry_open [OF xs(1-4) k(1), of ?e]
  have "journal_rep (log @ [?e]) j'" unfolding j'
  proof (rule prune_rep)
    show "linked (j_sessionEpoch (push_entry j2 ?e)) 0 0 (log @ [?e])" using lk' flds by simp
    show "0 < j_maxBytes (push_entry j2 ?e)" using rep flds by (simp add: journal_rep_def)
    show "suffix_rep (log @ [?e]) (j_segments (push_entry j2 ?e)) (j_totalBytes (push_entry j2 ?e))
        (j_evictedCursor (push_entry j2 ?e))"
      using k flds c2 by (intro push(1)) simp_all
    show "list_all js_sealed (j_segments (push_entry j2 ?e)) \<or>
        j_totalBytes (push_entry j2 ?e) \<le> j_maxBytes (push_entry j2 ?e)"
      using k flds c2 by (intro push(2)) simp_all
    show "j_headCursor (push_entry j2 ?e) = log_cursor (log @ [?e]) (length (log @ [?e]))"
      using f(5) head by (simp add: log_cursor_head) (simp add: entry_of_def)
  qed
  with f(1) show ?thesis by blast
qed

section \<open>Replay\<close>

lemma consecutive_tl:
  assumes "\<forall>i < length (x # es). je_eventSeq ((x # es) ! i) = n + 1 + int i"
  shows "\<forall>i < length es. je_eventSeq (es ! i) = (n + 1) + 1 + int i"
proof (intro allI impI)
  fix i assume "i < length es"
  with assms [rule_format, of "Suc i"] show "je_eventSeq (es ! i) = (n + 1) + 1 + int i" by simp
qed

lemma filter_consecutive:
  "(\<forall>i < length es. je_eventSeq (es ! i) = n + 1 + int i) \<Longrightarrow>
   filter (\<lambda>e. lo < je_eventSeq e \<and> je_eventSeq e \<le> hi) es = drop (nat (lo - n)) (take (nat (hi - n)) es)"
proof (induction es arbitrary: n)
  case (Cons x es)
  from Cons.prems have x: "je_eventSeq x = n + 1" by force
  note IH = Cons.IH [OF consecutive_tl [OF Cons.prems]]
  show ?case
  proof (cases "hi \<le> n")
    case True
    then show ?thesis using x IH by simp
  next
    case False
    then have hi: "nat (hi - n) = Suc (nat (hi - (n + 1)))" by simp
    show ?thesis
    proof (cases "lo \<le> n")
      case True
      with False x IH hi show ?thesis by simp
    next
      case False
      then have lo: "nat (lo - n) = Suc (nat (lo - (n + 1)))" by simp
      from False x IH hi show ?thesis unfolding lo by simp
    qed
  qed
qed simp

lemma concat_map_filter: "concat (map (\<lambda>s. map g (filter P (h s))) ss) = map g (filter P (concat (map h ss)))"
  by (induction ss) auto

lemma offset_in_segments_find:
  "offset_in_segments ss n = map_option je_nextPtyOffset (find (\<lambda>e. je_eventSeq e = n) (concat (map js_entries ss)))"
proof (induction ss)
  case (Cons s ss)
  have "find P (xs @ ys) = (case find P xs of Some x \<Rightarrow> Some x | None \<Rightarrow> find P ys)"
    for P :: "JournalEntry \<Rightarrow> bool" and xs ys by (induction xs) auto
  with Cons show ?case by (auto split: option.split)
qed simp

lemma find_consecutive:
  "(\<forall>i < length es. je_eventSeq (es ! i) = n + 1 + int i) \<Longrightarrow>
   find (\<lambda>e. je_eventSeq e = m) es =
     (if n < m \<and> m \<le> n + int (length es) then Some (es ! nat (m - n - 1)) else None)"
proof (induction es arbitrary: n)
  case (Cons x es)
  from Cons.prems have x: "je_eventSeq x = n + 1" by force
  note IH = Cons.IH [OF consecutive_tl [OF Cons.prems]]
  show ?case
  proof (cases "m \<le> n + 1")
    case False
    then have "nat (m - n - 1) = Suc (nat (m - (n + 1) - 1))" by simp
    with False x IH show ?thesis by auto
  qed (use x IH in auto)
qed simp

text \<open>Within the retained range the code's offset lookup is the log's.\<close>

lemma offsetAfter_log:
  assumes rep: "journal_rep log j" and "jc_lastEventSeq (j_evictedCursor j) \<le> m"
    "m \<le> jc_lastEventSeq (j_headCursor j)"
  shows "offsetAfter j m = Some (log_offset log (nat m))"
proof -
  from rep obtain k where k: "k \<le> length log" "j_evictedCursor j = log_cursor log k" "retained j = drop k log"
    by (auto simp: journal_rep_def)
  have head: "j_headCursor j = log_cursor log (length log)" using rep by (simp add: journal_rep_def)
  have lk: "linked (j_sessionEpoch j) 0 0 log" using rep by (simp add: journal_rep_def)
  have m: "int k \<le> m" "m \<le> int (length log)" using assms(2,3) k head by (simp_all add: log_cursor_def)
  have seq: "\<forall>i < length (drop k log). je_eventSeq (drop k log ! i) = int k + 1 + int i"
    using linked_seq [OF lk] k(1) by simp
  show ?thesis
  proof (cases "m = int k \<or> m = int (length log)")
    case True
    then show ?thesis using k(2) head by (auto simp: offsetAfter_def log_cursor_def)
  next
    case False
    with m have m': "int k < m" "m < int (length log)" by auto
    have "drop k log ! nat (m - int k - 1) = log ! (nat m - 1)"
    proof -
      have "k + nat (m - int k - 1) = nat m - 1" using m' by simp
      with k(1) show ?thesis by simp
    qed
    moreover have "m \<le> int k + int (length (drop k log))" using m k(1) by simp
    ultimately show ?thesis
      using m' k head find_consecutive [OF seq, of m]
      by (simp add: offsetAfter_def offset_in_segments_find log_cursor_def log_offset_def)
  qed
qed

lemma replayRange_log:
  assumes rep: "journal_rep log j"
  shows "replayRange j cur com = log_replay log (nat (jc_lastEventSeq (j_evictedCursor j))) cur com"
proof -
  from rep obtain k where k: "k \<le> length log" "j_evictedCursor j = log_cursor log k" "retained j = drop k log"
    by (auto simp: journal_rep_def)
  have head: "j_headCursor j = log_cursor log (length log)" using rep by (simp add: journal_rep_def)
  have lk: "linked (j_sessionEpoch j) 0 0 log" using rep by (simp add: journal_rep_def)
  have ek: "jc_lastEventSeq (j_evictedCursor j) = int k" "jc_lastEventSeq (j_headCursor j) = int (length log)"
    using k head by (simp_all add: log_cursor_def)
  define valid where "valid = (\<exists>a\<in>set [k..<Suc (length log)]. \<exists>b\<in>set [a..<Suc (length log)].
      cur = log_cursor log a \<and> com = log_cursor log b)"
  let ?a = "jc_lastEventSeq cur" and ?b = "jc_lastEventSeq com"
  have valid_iff: "valid \<longleftrightarrow> int k \<le> ?a \<and> ?a \<le> ?b \<and> ?b \<le> int (length log) \<and>
      offsetAfter j ?a = Some (jc_nextPtyOffset cur) \<and> offsetAfter j ?b = Some (jc_nextPtyOffset com)"
    (is "_ \<longleftrightarrow> ?rhs")
  proof
    assume valid
    then obtain a b where ab: "k \<le> a" "a \<le> b" "b \<le> length log" "cur = log_cursor log a" "com = log_cursor log b"
      by (auto simp: valid_def)
    then show ?rhs using offsetAfter_log [OF rep, of "int a"] offsetAfter_log [OF rep, of "int b"] ek
      by (simp add: log_cursor_def)
  next
    assume r: ?rhs
    have "cur = log_cursor log (nat ?a)" "com = log_cursor log (nat ?b)"
      using r offsetAfter_log [OF rep, of ?a] offsetAfter_log [OF rep, of ?b] ek
      by (simp_all add: log_cursor_def)
    moreover have "nat ?a \<in> set [k..<Suc (length log)]" "nat ?b \<in> set [nat ?a..<Suc (length log)]"
      using r by auto
    ultimately show valid unfolding valid_def by blast
  qed
  have frames: "concat (map (\<lambda>s. map je_frame (filter (\<lambda>e. ?a < je_eventSeq e \<and> je_eventSeq e \<le> ?b)
      (js_entries s))) (j_segments j)) = map je_frame (take (nat (?b - ?a)) (drop (nat ?a) log))" if ab: "int k \<le> ?a" "?a \<le> ?b"
  proof -
    have "\<forall>i < length (drop k log). je_eventSeq (drop k log ! i) = int k + 1 + int i"
      using linked_seq [OF lk] k(1) by simp
    from filter_consecutive [OF this] have
      "filter (\<lambda>e. ?a < je_eventSeq e \<and> je_eventSeq e \<le> ?b) (drop k log) =
        drop (nat (?a - int k)) (take (nat (?b - int k)) (drop k log))" .
    also have "\<dots> = take (nat (?b - ?a)) (drop (nat ?a) log)"
    proof -
      have "nat (?b - int k) - nat (?a - int k) = nat (?b - ?a)" "nat (?a - int k) + k = nat ?a"
        using ab by auto
      then show ?thesis by (simp add: drop_take)
    qed
    finally show ?thesis by (simp add: concat_map_filter k(3))
  qed
  show ?thesis
  proof (cases valid)
    case True
    then have r: "int k \<le> ?a" "?a \<le> ?b" "?b \<le> int (length log)"
      "offsetAfter j ?a = Some (jc_nextPtyOffset cur)" "offsetAfter j ?b = Some (jc_nextPtyOffset com)"
      unfolding valid_iff by auto
    have "replayRange j cur com = ReplayOk (map je_frame (take (nat (?b - ?a)) (drop (nat ?a) log)))"
      unfolding replayRange_def frames [OF r(1,2)] using r ek by simp
    then show ?thesis using True unfolding log_replay_def valid_def ek nat_int by (simp only: if_True)
  next
    case False
    then have "replayRange j cur com = ReplayGap"
      unfolding valid_iff replayRange_def ek by (auto simp: not_le)
    then show ?thesis using False unfolding log_replay_def valid_def ek nat_int by (simp only: if_False)
  qed
qed

section \<open>The journal as a machine\<close>

datatype JournalEvent = AppendFrame int bytes | Maintain int

fun journal_step :: "EventJournal \<Rightarrow> JournalEvent \<Rightarrow> EventJournal" where
  "journal_step j (AppendFrame now bs) = (case journal_append j now bs of Inl _ \<Rightarrow> j | Inr j' \<Rightarrow> j')"
| "journal_step j (Maintain now) = maintain j now"

text \<open>The history of a run: the frames the journal accepted, oldest first.\<close>

fun accepted :: "EventJournal \<Rightarrow> JournalEvent list \<Rightarrow> bytes list" where
  "accepted j [] = []"
| "accepted j (AppendFrame now bs # evs) =
     (case journal_append j now bs of Inl _ \<Rightarrow> accepted j evs | Inr j' \<Rightarrow> bs # accepted j' evs)"
| "accepted j (Maintain now # evs) = accepted (maintain j now) evs"

lemma journal_step_rep:
  "journal_rep log j \<Longrightarrow>
   \<exists>log'. map je_frame log' = map je_frame log @ accepted j [e] \<and> journal_rep log' (journal_step j e)"
proof (cases e)
  case (AppendFrame now bs)
  assume rep: "journal_rep log j"
  show ?thesis
  proof (cases "journal_append j now bs")
    case (Inr j')
    with append_rep [OF rep Inr] obtain f where "journal_rep (log @ [entry_of f bs]) j'" by blast
    with AppendFrame Inr show ?thesis
      by (intro exI [of _ "log @ [entry_of f bs]"]) (simp add: entry_of_def)
  qed (use AppendFrame rep in auto)
qed (auto dest: maintain_rep)

interpretation journal: inv_machine journal_step "\<lambda>j. \<exists>log. journal_rep log j"
  by unfold_locales (meson journal_step_rep)

lemma accepted_Cons: "accepted j (e # evs) = accepted j [e] @ accepted (journal_step j e) evs"
  by (cases e) (auto split: sum.split)

lemma journal_run_rep:
  "journal_rep log j \<Longrightarrow>
   \<exists>log'. map je_frame log' = map je_frame log @ accepted j evs \<and> journal_rep log' (foldl journal_step j evs)"
proof (induction evs arbitrary: j log)
  case (Cons e evs)
  from journal_step_rep [OF Cons.prems, of e] obtain log1 where
    l1: "map je_frame log1 = map je_frame log @ accepted j [e]" "journal_rep log1 (journal_step j e)" by blast
  from Cons.IH [OF l1(2)] l1(1) show ?case by (subst accepted_Cons) auto
qed auto

lemma newEventJournal_rep: "newEventJournal a b c d = Inr j \<Longrightarrow> journal_rep [] j"
  by (auto simp: newEventJournal_def JOURNAL_DEFAULTS_def positiveLimit_def bindR_Inr_iff journal_rep_def
      zero_cursor_def log_cursor_def log_offset_def split: if_splits)

lemma journal_reachable_rep:
  assumes "newEventJournal a b c d = Inr j0"
  obtains log where "map je_frame log = accepted j0 evs" "journal_rep log (foldl journal_step j0 evs)"
  using journal_run_rep [OF newEventJournal_rep [OF assms], of evs] by auto

section \<open>Properties\<close>

text \<open>
  C11. Replay is exact: after any sequence of appends and maintenance, a replay that is not refused as a
  gap returns exactly the accepted frames numbered after the first cursor up to the commit cursor,
  in order, however often the journal has been segmented and pruned in between.
\<close>

theorem journal_replay_exact:
  assumes "newEventJournal a b c d = Inr j0"
    and "snd (replayThrough (foldl journal_step j0 evs) now cur com) = ReplayOk frames"
  shows "0 \<le> jc_lastEventSeq cur \<and> jc_lastEventSeq cur \<le> jc_lastEventSeq com \<and>
    jc_lastEventSeq com \<le> int (length (accepted j0 evs)) \<and>
    frames = take (nat (jc_lastEventSeq com - jc_lastEventSeq cur))
      (drop (nat (jc_lastEventSeq cur)) (accepted j0 evs))"
proof -
  from assms(1) obtain log where log: "map je_frame log = accepted j0 evs"
    "journal_rep log (foldl journal_step j0 evs)" by (rule journal_reachable_rep)
  have "length log = length (accepted j0 evs)" using arg_cong [OF log(1), of length] by simp
  moreover from assms(2) have "log_replay log (nat (jc_lastEventSeq (j_evictedCursor
      (maintain (foldl journal_step j0 evs) now)))) cur com = ReplayOk frames"
    using replayRange_log [OF maintain_rep [OF log(2)]] by (simp add: replayThrough_def Let_def)
  ultimately show ?thesis
    by (auto simp: log_replay_def log_cursor_def take_map drop_map simp flip: log(1) split: if_splits)
qed

text \<open>
  Replay is available: every pair of cursors that were once journal heads, in order and not before
  the evicted cursor, can be replayed; the current head, in particular, always can.
\<close>

theorem journal_replay_available:
  assumes "journal_rep log j"
    and "nat (jc_lastEventSeq (j_evictedCursor (maintain j now))) \<le> m" and "m \<le> n" and "n \<le> length log"
  shows "snd (replayThrough j now (log_cursor log m) (log_cursor log n)) =
      ReplayOk (map je_frame (take (n - m) (drop m log))) \<and>
    snd (replayFrom j now (j_headCursor j)) = ReplayOk []"
proof -
  let ?j = "maintain j now"
  note rep = maintain_rep [OF assms(1), of now]
  from rep obtain k where k: "k \<le> length log" "j_evictedCursor ?j = log_cursor log k"
    by (auto simp: journal_rep_def)
  have head: "j_headCursor j = log_cursor log (length log)" "j_headCursor ?j = log_cursor log (length log)"
    using assms(1) rep by (simp_all add: journal_rep_def)
  have ok: "replayRange ?j (log_cursor log p) (log_cursor log q) =
      ReplayOk (map je_frame (take (q - p) (drop p log)))"
    if "k \<le> p" "p \<le> q" "q \<le> length log" for p q
  proof -
    have "p \<in> set [k..<Suc (length log)]" "q \<in> set [p..<Suc (length log)]" using that by auto
    then have ex: "\<exists>a\<in>set [k..<Suc (length log)]. \<exists>b\<in>set [a..<Suc (length log)].
        log_cursor log p = log_cursor log a \<and> log_cursor log q = log_cursor log b" by blast
    have "nat (jc_lastEventSeq (j_evictedCursor ?j)) = k" using k by (simp add: log_cursor_def)
    with replayRange_log [OF rep, of "log_cursor log p" "log_cursor log q"] ex show ?thesis
      by (simp only: log_replay_def if_True) (simp add: log_cursor_def that flip: of_nat_diff)
  qed
  have "k \<le> m" using assms(2) k by (simp add: log_cursor_def)
  then show ?thesis using ok [of m n] ok [of "length log" "length log"] assms(3,4) k head
    by (simp add: replayThrough_def replayFrom_def Let_def)
qed

text \<open>
  The journal is bounded and its accounting exact: after every append or maintenance its byte total
  equals the bytes of the frames it holds and is within the configured maximum.
\<close>

theorem journal_bounded:
  assumes "newEventJournal a b c d = Inr j0"
  shows "let j = foldl journal_step j0 evs in
    j_totalBytes j = sum_list (map (\<lambda>f. int (length f)) (concat (map (\<lambda>s. map je_frame (js_entries s)) (j_segments j)))) \<and>
    j_totalBytes j \<le> j_maxBytes j \<and> (\<forall>s\<in>set (butlast (j_segments j)). js_sealed s)"
proof -
  have "\<exists>log. journal_rep log (foldl journal_step j0 evs)"
    by (rule journal.run_inv) (use newEventJournal_rep [OF assms] in blast)
  then obtain log where rep: "journal_rep log (foldl journal_step j0 evs)" by blast
  have "sum_list (map (\<lambda>f. int (length f)) (concat (map (\<lambda>s. map je_frame (js_entries s)) ss))) =
      entry_bytes (concat (map js_entries ss))" for ss :: "JournalSegment list"
    by (induction ss) (simp_all add: entry_bytes_def comp_def)
  with rep show ?thesis by (simp add: journal_rep_def Let_def list_all_iff)
qed

text \<open>
  With a segment age within the retention age, maintenance leaves no frame group older than the
  retention age: the oldest retained segment was created at most \<open>maxAgeMs\<close> ago, sealed or not.
\<close>

theorem journal_retention:
  assumes "newEventJournal a b c d = Inr j0" and "j = maintain (foldl journal_step j0 evs) now"
    and "j_segmentAgeMs j \<le> j_maxAgeMs j" and "j_segments j \<noteq> []"
  shows "now - js_createdAt (hd (j_segments j)) \<le> j_maxAgeMs j"
proof -
  let ?j = "sealAgedActive (foldl journal_step j0 evs) now"
  from assms(1) obtain log where rep: "journal_rep log (foldl journal_step j0 evs)"
    by (rule journal_reachable_rep)
  then have rep': "linked (j_sessionEpoch ?j) 0 0 log"
    "suffix_rep log (j_segments ?j) (j_totalBytes ?j) (j_evictedCursor ?j)"
    by (simp_all add: journal_rep_alt sealAgedActive_suffix)
  obtain ss held ev where l: "prune_loop (j_maxAgeMs ?j) (j_maxBytes ?j) now (j_segments ?j)
      (j_totalBytes ?j) (j_evictedCursor ?j) = (ss, held, ev)" by (cases rule: prod_cases3)
  have j: "j_segments j = ss" "j_maxAgeMs j = j_maxAgeMs ?j" "j_segmentAgeMs j = j_segmentAgeMs ?j"
    unfolding assms(2) maintain_def prune_def l by simp_all
  note loop = prune_loop_rep [OF rep' l]
  show ?thesis
  proof (cases "js_sealed (hd ss)")
    case True
    with loop j assms(4) show ?thesis by simp
  next
    case False
    from loop have "list_all js_sealed (butlast ss)" by (simp add: suffix_rep_def)
    with False assms(4) j(1) obtain x where x: "ss = [x]" "\<not> js_sealed x"
      by (cases ss) (auto split: if_splits)
    from loop obtain n where "[x] = drop n (j_segments ?j)" unfolding x(1) by blast
    then have "last (j_segments ?j) = x" "j_segments ?j \<noteq> []"
      by (metis last_ConsL last_drop list.distinct(1) drop_eq_Nil linorder_not_le, auto)
    with x(2) have "now - js_createdAt x < j_segmentAgeMs ?j"
      by (auto simp: sealAgedActive_def split: if_splits)
    with x(1) j assms(3) show ?thesis by simp
  qed
qed

section \<open>Witnesses\<close>

definition example_frame :: data_frame where
  "example_frame = \<lparr>df_kind = PtyOutput, df_flags = 0, df_sessionEpoch = 7,
     df_deliveryGeneration = 0, df_eventSeq = 1, df_ptyOffset = 0, df_streamId = 0, df_payload = [65, 66]\<rparr>"

lemma example_frame_decodes: "decodeDataFrame (frame_layout example_frame) = Inr example_frame"
  by (rule decode_layout)
    (simp add: example_frame_def frame_ok_def is_u64_def is_u32_def MAX_U64_def payload_length_def
      MAX_DATA_PAYLOAD_BYTES_def)

definition example_journal :: EventJournal where
  "example_journal = \<lparr>j_maxAgeMs = 60000, j_maxBytes = 8388608, j_segmentAgeMs = 250, j_segmentBytes = 262144,
     j_segments = [], j_evictedCursor = zero_cursor, j_headCursor = zero_cursor,
     j_sessionEpoch = None, j_totalBytes = 0\<rparr>"

definition example_journal' :: EventJournal where
  "example_journal' = \<lparr>j_maxAgeMs = 60000, j_maxBytes = 8388608, j_segmentAgeMs = 250, j_segmentBytes = 262144,
     j_segments = [\<lparr>js_byteLength = 50, js_createdAt = 5,
       js_entries = [entry_of example_frame (frame_layout example_frame)], js_sealed = False\<rparr>],
     j_evictedCursor = zero_cursor, j_headCursor = \<lparr>jc_lastEventSeq = 1, jc_nextPtyOffset = 2\<rparr>,
     j_sessionEpoch = Some 7, j_totalBytes = 50\<rparr>"

lemma example_new: "newEventJournal None None None None = Inr example_journal"
  by (simp add: newEventJournal_def JOURNAL_DEFAULTS_def positiveLimit_def example_journal_def)

lemma example_append:
  "journal_append example_journal 5 (frame_layout example_frame) = Inr example_journal'"
  using example_frame_decodes
  by (simp add: journal_append_def append_guard_def example_journal_def example_journal'_def example_frame_def
      zero_cursor_def Let_def sealAgedActive_def open_active_def push_entry_def prune_def entry_of_def
      offset_after_def payload_length_def)

lemma example_maintain: "maintain example_journal' 6 = example_journal'"
  by (simp add: maintain_def sealAgedActive_def prune_def example_journal'_def)

lemma example_run: "foldl journal_step example_journal [AppendFrame 5 (frame_layout example_frame)] = example_journal'"
  "accepted example_journal [AppendFrame 5 (frame_layout example_frame)] = [frame_layout example_frame]"
  by (simp_all add: example_append)

theorem journal_replay_exact_witness:
  "[frame_layout example_frame] = take 1 (drop 0 (accepted example_journal [AppendFrame 5 (frame_layout example_frame)]))"
proof -
  have "snd (replayThrough (foldl journal_step example_journal [AppendFrame 5 (frame_layout example_frame)]) 6
      zero_cursor \<lparr>jc_lastEventSeq = 1, jc_nextPtyOffset = 2\<rparr>) = ReplayOk [frame_layout example_frame]"
    unfolding example_run replayThrough_def example_maintain
    by (simp add: replayRange_def example_journal'_def zero_cursor_def offsetAfter_def entry_of_def example_frame_def)
  from journal_replay_exact [OF example_new this] show ?thesis by (simp add: zero_cursor_def)
qed

theorem journal_replay_available_witness:
  "snd (replayThrough example_journal' 6 zero_cursor \<lparr>jc_lastEventSeq = 1, jc_nextPtyOffset = 2\<rparr>) =
     ReplayOk [frame_layout example_frame]"
proof -
  let ?e = "entry_of example_frame (frame_layout example_frame)"
  have rep: "journal_rep [?e] example_journal'"
    using append_rep [OF newEventJournal_rep [OF example_new] example_append] example_frame_decodes by auto
  have c: "log_cursor [?e] 0 = zero_cursor" "log_cursor [?e] 1 = \<lparr>jc_lastEventSeq = 1, jc_nextPtyOffset = 2\<rparr>"
    by (simp_all add: log_cursor_def log_offset_def zero_cursor_def entry_of_def example_frame_def
        offset_after_def payload_length_def)
  have "nat (jc_lastEventSeq (j_evictedCursor (maintain example_journal' 6))) \<le> 0"
    unfolding example_maintain by (simp add: example_journal'_def zero_cursor_def)
  from journal_replay_available [OF rep this, of 1] show ?thesis
    unfolding c by (simp add: entry_of_def)
qed

theorem journal_bounded_witness:
  "j_totalBytes example_journal' = 50 \<and> j_totalBytes example_journal' \<le> 8388608"
  using journal_bounded [OF example_new, of "[AppendFrame 5 (frame_layout example_frame)]"]
  unfolding example_run by (simp add: example_journal'_def)

theorem journal_retention_witness:
  "6 - js_createdAt (hd (j_segments example_journal')) \<le> 60000"
proof -
  have "example_journal' = maintain (foldl journal_step example_journal
      [AppendFrame 5 (frame_layout example_frame)]) 6"
    unfolding example_run example_maintain ..
  from journal_retention [OF example_new this] show ?thesis by (simp add: example_journal'_def)
qed

end
