(* ===== verification/Session.thy ===== *)
theory Session
  imports Journal "HOL-Library.While_Combinator"
begin

text \<open>
  \<open>apps/host-daemon/src/session.ts\<close>: the terminal session actor that owns the canonical order of
  terminal mutations. The terminal authority, the PTY, the clocks and the subscribers are objects
  handed to the session; they are a record of functions on a world of their own. Each call returns a
  result or an exception, the PTY data it makes the PTY emit synchronously, and the new world: while
  the actor drains its queue such data is only queued, which is what the \<open>#draining\<close> flag
  achieves. Callbacks that re-enter other operations are outside the model.
\<close>

section \<open>Data\<close>

datatype KeyAction = key_press | key_repeat | key_release

record SemanticKey =
  sk_action :: KeyAction
  sk_altGraph :: bool
  sk_code :: string
  sk_composing :: bool
  sk_consumedModifiers :: int
  sk_key :: string
  sk_text :: "string option"
  sk_modifiers :: int
  sk_unshiftedCodepoint :: "int option"

record MouseBase =
  sm_altGraph :: bool
  sm_buttons :: int
  sm_modifiers :: int
  sm_surfaceX :: int
  sm_surfaceY :: int

datatype DeltaMode = delta_pixel | delta_line | delta_page

datatype SemanticMouse =
    MousePress MouseBase int
  | MouseRelease MouseBase int
  | MouseMove MouseBase
  | MouseWheel MouseBase DeltaMode "int option" "int option"

definition MAX_PTY_FRAME_BYTES :: nat where "MAX_PTY_FRAME_BYTES = 16 * 1024"
definition MAX_TEXT_BYTES :: nat where "MAX_TEXT_BYTES = 1024 * 1024"

record SemanticInputIdentity =
  si_clientId :: string
  si_clientInputSeq :: int
  si_inputEpoch :: string
  si_observedEventSeq :: "int option"
  si_writerFence :: int

record ReplayCursor = JournalCursor +
  rp_sessionEpoch :: int

datatype InputAckStatus = written | duplicate | rejected | uncertain

record InputAck =
  ia_authorityEventSeq :: int
  ia_clientInputSeq :: int
  ia_inputEpoch :: string
  ia_status :: InputAckStatus

record SnapshotCapture =
  sc_bytes :: bytes
  sc_cutEventSeq :: int
  sc_encodeMs :: int
  sc_engineId :: string
  sc_nextPtyOffset :: int
  sc_sessionEpoch :: int

text \<open>What a submitted input does when it commits: the closures \<open>commit\<close> and \<open>validate\<close>.\<close>

datatype InputCommit =
    CommitKey SemanticKey
  | CommitPaste string
  | CommitText bytes
  | CommitFocus bool
  | CommitMouse SemanticMouse
  | CommitResize ResizePayload

text \<open>The Boolean of a snapshot message says whether it has a fence callback.\<close>

datatype SessionMessage =
    PtyOutputMsg bytes
  | ResizeMsg ResizePayload
  | RawInputMsg bytes
  | KeyMsg SemanticKey
  | PasteMsg string
  | SubmittedInputMsg SemanticInputIdentity InputCommit
  | SnapshotMsg bool

datatype SessionError =
    EnvError string
  | SessionProtocol ProtocolErrorCode
  | SessionJournal JournalError
  | EmptySnapshot | PtyExitedError | SessionFailedError | SessionDisposedError | RangeErr

datatype PtyExitStatus = Exited int int | FailedExit | DisposedExit

datatype InputResult = result_written | result_uncertain

record InputWriterState =
  iw_clientId :: string
  iw_highWater :: int
  iw_inputEpoch :: string

text \<open>Promise resolutions, in the order they happen.\<close>

datatype SessionReply = AckReply InputAck | SnapshotReply SnapshotCapture | SnapshotReject SessionError

text \<open>
  The session's fields. \<open>s_replies\<close> and \<open>s_commits\<close> only record: the promises resolved so far,
  and the fence and sequence number of every input whose \<open>commit\<close> was called.
\<close>

record 'w session =
  s_world :: 'w
  s_journal :: EventJournal
  s_sessionEpoch :: int
  s_queue :: "SessionMessage list"
  s_subscribers :: "nat list"
  s_inputDedupEntries :: int
  s_inputResults :: "(int, InputResult) jsmap"
  s_disposed :: bool
  s_authorityDisposed :: bool
  s_exit :: "PtyExitStatus option"
  s_failure :: "SessionError option"
  s_ptyExited :: bool
  s_eventSeq :: int
  s_inputFence :: int
  s_inputWriter :: "InputWriterState option"
  s_nextPtyOffset :: int
  s_replies :: "SessionReply list"
  s_commits :: "(int \<times> int) list"

text \<open>
  A call to the outside: result or exception, PTY data emitted meanwhile, new world. A subscriber
  returns whether it accepted the frame (\<open>False\<close>: it threw).
\<close>

type_synonym ('w, 'a) env_call = "'w \<Rightarrow> (string + 'a) \<times> bytes list \<times> 'w"

record 'w session_env =
  env_now :: "'w \<Rightarrow> int \<times> 'w"
  env_monotonicNow :: "'w \<Rightarrow> int \<times> 'w"
  env_engineId :: string
  env_applyOutput :: "bytes \<Rightarrow> ('w, bytes list) env_call"
  env_resize :: "ResizePayload \<Rightarrow> ('w, bytes list) env_call"
  env_encodeSnapshot :: "('w, bytes) env_call"
  env_encodeKey :: "SemanticKey \<Rightarrow> ('w, bytes) env_call"
  env_encodePaste :: "string \<Rightarrow> ('w, bytes) env_call"
  env_encodeFocus :: "bool \<Rightarrow> ('w, bytes) env_call"
  env_validateMouse :: "SemanticMouse \<Rightarrow> ('w, unit) env_call"
  env_encodeMouse :: "SemanticMouse \<Rightarrow> ('w, bytes) env_call"
  env_disposeAuthority :: "('w, unit) env_call"
  env_ptyWrite :: "bytes \<Rightarrow> ('w, unit) env_call"
  env_ptyResize :: "ResizePayload \<Rightarrow> ('w, unit) env_call"
  env_ptyKill :: "('w, unit) env_call"
  env_subscriber :: "nat \<Rightarrow> bytes \<Rightarrow> 'w \<Rightarrow> bool \<times> 'w"
  env_snapshotFence :: "SnapshotCapture \<Rightarrow> ('w, unit) env_call"

text \<open>The constructor.\<close>

definition newSession ::
  "'w \<Rightarrow> EventJournal \<Rightarrow> int \<Rightarrow> int option \<Rightarrow> SessionError + 'w session" where
  "newSession w journal epoch dedup =
     (if epoch \<le> 0 \<or> MAX_U64 < epoch then Inl RangeErr
      else let entries = (case dedup of None \<Rightarrow> 4096 | Some n \<Rightarrow> n) in
        if entries \<le> 0 then Inl RangeErr
        else Inr \<lparr>s_world = w, s_journal = journal, s_sessionEpoch = epoch, s_queue = [], s_subscribers = [],
          s_inputDedupEntries = entries, s_inputResults = [], s_disposed = False, s_authorityDisposed = False,
          s_exit = None, s_failure = None, s_ptyExited = False, s_eventSeq = 0, s_inputFence = 0,
          s_inputWriter = None, s_nextPtyOffset = 0, s_replies = [], s_commits = []\<rparr>)"

section \<open>Calls to the outside\<close>

text \<open>The PTY data handler while the actor drains: the pieces are queued, unless the actor is closed.\<close>

definition receive :: "bytes list \<Rightarrow> 'w session \<Rightarrow> 'w session" where
  "receive ingress s =
     (if s_disposed s \<or> s_failure s \<noteq> None then s
      else s\<lparr>s_queue := s_queue s @ map PtyOutputMsg (concat (map (slices MAX_PTY_FRAME_BYTES) ingress))\<rparr>)"

definition call :: "('w, 'a) env_call \<Rightarrow> ('w session, SessionError, 'a) se" where
  "call f s = (case f (s_world s) of (r, ingress, w) \<Rightarrow>
     (receive ingress (s\<lparr>s_world := w\<rparr>), case r of Inl e \<Rightarrow> Inl (EnvError e) | Inr x \<Rightarrow> Inr x))"

text \<open>\<open>#bestEffort\<close>: an exception is swallowed.\<close>

definition bestEffort :: "('w, unit) env_call \<Rightarrow> 'w session \<Rightarrow> 'w session" where
  "bestEffort f s = fst (call f s)"

definition clock :: "('w \<Rightarrow> int \<times> 'w) \<Rightarrow> ('w session, SessionError, int) se" where
  "clock f s = (case f (s_world s) of (t, w) \<Rightarrow> (s\<lparr>s_world := w\<rparr>, Inr t))"

definition writePty :: "'w session_env \<Rightarrow> bytes \<Rightarrow> ('w session, SessionError, unit) se" where
  "writePty env data = (if data = [] then returnS () else call (env_ptyWrite env data))"

definition lift_protocol :: "(ProtocolErrorCode + 'a) \<Rightarrow> ('w session, SessionError, 'a) se" where
  "lift_protocol r s = (s, case r of Inl e \<Rightarrow> Inl (SessionProtocol e) | Inr x \<Rightarrow> Inr x)"

section \<open>\<open>#publish\<close>, \<open>#commitPtyOutput\<close>, \<open>#commitResize\<close>, \<open>#captureSnapshot\<close>\<close>

definition deliver :: "'w session_env \<Rightarrow> bytes \<Rightarrow> nat \<Rightarrow> ('w session, SessionError, unit) se" where
  "deliver env frame subscriber s =
     (case env_subscriber env subscriber frame (s_world s) of (took, w) \<Rightarrow>
        (if took then s\<lparr>s_world := w\<rparr>
         else s\<lparr>s_world := w, s_subscribers := removeAll subscriber (s_subscribers s)\<rparr>, Inr ()))"

definition journalFrame :: "'w session_env \<Rightarrow> bytes \<Rightarrow> ('w session, SessionError, unit) se" where
  "journalFrame env frame = bindS (clock (env_now env)) (\<lambda>now s.
     case journal_append (s_journal s) now frame of
       Inl e \<Rightarrow> (s, Inl (SessionJournal e))
     | Inr j \<Rightarrow> (s\<lparr>s_journal := j\<rparr>, Inr ()))"

definition publish :: "'w session_env \<Rightarrow> bytes \<Rightarrow> ('w session, SessionError, unit) se" where
  "publish env frame = bindS (journalFrame env frame) (\<lambda>_.
     readS (\<lambda>s. forS (deliver env frame) (s_subscribers s)))"

definition canonical_frame :: "'w session \<Rightarrow> DataFrameKind \<Rightarrow> bytes \<Rightarrow> data_frame" where
  "canonical_frame s kind payload =
     \<lparr>df_kind = kind, df_flags = 0, df_sessionEpoch = s_sessionEpoch s, df_deliveryGeneration = 0,
      df_eventSeq = s_eventSeq s, df_ptyOffset = s_nextPtyOffset s, df_streamId = 0, df_payload = payload\<rparr>"

text \<open>One pass of the loop of \<open>#commitPtyOutput\<close>.\<close>

definition commitPtyChunk :: "'w session_env \<Rightarrow> bytes \<Rightarrow> ('w session, SessionError, unit) se" where
  "commitPtyChunk env chunk =
     bindS (call (env_applyOutput env chunk)) (\<lambda>replies.
     bindS (modifyS (\<lambda>s. s\<lparr>s_eventSeq := s_eventSeq s + 1\<rparr>)) (\<lambda>_. readS (\<lambda>s.
       bindS (lift_protocol (encodeDataFrame (canonical_frame s PtyOutput chunk))) (\<lambda>frame.
       bindS (modifyS (\<lambda>s. s\<lparr>s_nextPtyOffset := s_nextPtyOffset s + int (length chunk)\<rparr>)) (\<lambda>_.
       bindS (publish env frame) (\<lambda>_.
         forS (writePty env) replies))))))"

definition commitPtyOutput :: "'w session_env \<Rightarrow> bytes \<Rightarrow> ('w session, SessionError, unit) se" where
  "commitPtyOutput env data = forS (commitPtyChunk env) (slices MAX_PTY_FRAME_BYTES data)"

definition commitResize :: "'w session_env \<Rightarrow> ResizePayload \<Rightarrow> ('w session, SessionError, unit) se" where
  "commitResize env dimensions =
     bindS (lift_protocol (encodeResizePayload dimensions)) (\<lambda>payload.
     bindS (call (env_resize env dimensions)) (\<lambda>replies.
     bindS (call (env_ptyResize env dimensions)) (\<lambda>_.
     bindS (modifyS (\<lambda>s. s\<lparr>s_eventSeq := s_eventSeq s + 1\<rparr>)) (\<lambda>_. readS (\<lambda>s.
       bindS (lift_protocol (encodeDataFrame (canonical_frame s ResizeApplied payload))) (\<lambda>frame.
       bindS (publish env frame) (\<lambda>_.
         forS (writePty env) replies)))))))"

definition captureSnapshot :: "'w session_env \<Rightarrow> ('w session, SessionError, SnapshotCapture) se" where
  "captureSnapshot env = readS (\<lambda>s0.
     bindS (clock (env_monotonicNow env)) (\<lambda>startedAt.
     bindS (call (env_encodeSnapshot env)) (\<lambda>bs.
       if bs = [] then throwS EmptySnapshot
       else bindS (clock (env_monotonicNow env)) (\<lambda>ended.
         returnS \<lparr>sc_bytes = bs, sc_cutEventSeq = s_eventSeq s0, sc_encodeMs = ended - startedAt,
           sc_engineId = env_engineId env, sc_nextPtyOffset = s_nextPtyOffset s0,
           sc_sessionEpoch = s_sessionEpoch s0\<rparr>))))"

section \<open>Failing and disposing\<close>

definition inputAck :: "'w session \<Rightarrow> SemanticInputIdentity \<Rightarrow> InputAckStatus \<Rightarrow> InputAck" where
  "inputAck s ident status =
     \<lparr>ia_authorityEventSeq = s_eventSeq s, ia_clientInputSeq = si_clientInputSeq ident,
      ia_inputEpoch = si_inputEpoch ident, ia_status = status\<rparr>"

fun reject_message :: "'w session \<Rightarrow> SessionError \<Rightarrow> SessionMessage \<Rightarrow> SessionReply list" where
  "reject_message s e (SnapshotMsg fence) = [SnapshotReject e]"
| "reject_message s e (SubmittedInputMsg ident c) = [AckReply (inputAck s ident rejected)]"
| "reject_message s e _ = []"

definition rejectQueued :: "SessionError \<Rightarrow> 'w session \<Rightarrow> 'w session" where
  "rejectQueued e s =
     s\<lparr>s_queue := [], s_replies := s_replies s @ concat (map (reject_message s e) (s_queue s))\<rparr>"

definition resolveExit :: "PtyExitStatus \<Rightarrow> 'w session \<Rightarrow> 'w session" where
  "resolveExit x s = (if s_exit s = None then s\<lparr>s_exit := Some x\<rparr> else s)"

definition disposeAuthority :: "'w session_env \<Rightarrow> 'w session \<Rightarrow> 'w session" where
  "disposeAuthority env s =
     (if s_authorityDisposed s then s
      else bestEffort (env_disposeAuthority env) (s\<lparr>s_authorityDisposed := True\<rparr>))"

definition fail :: "'w session_env \<Rightarrow> SessionError \<Rightarrow> 'w session \<Rightarrow> 'w session" where
  "fail env cause s =
     (if s_failure s \<noteq> None \<or> s_disposed s then s
      else bestEffort (env_ptyKill env) (disposeAuthority env
        ((resolveExit FailedExit (rejectQueued cause (s\<lparr>s_failure := Some cause\<rparr>)))\<lparr>s_subscribers := []\<rparr>)))"

definition dispose :: "'w session_env \<Rightarrow> 'w session \<Rightarrow> 'w session" where
  "dispose env s =
     (if s_disposed s then s
      else bestEffort (env_ptyKill env) (disposeAuthority env
        ((resolveExit DisposedExit (rejectQueued SessionDisposedError (s\<lparr>s_disposed := True\<rparr>)))
           \<lparr>s_subscribers := []\<rparr>)))"

section \<open>Submitted input\<close>

definition runCommit :: "'w session_env \<Rightarrow> InputCommit \<Rightarrow> ('w session, SessionError, unit) se" where
  "runCommit env c =
     (case c of
        CommitKey k \<Rightarrow> bindS (call (env_encodeKey env k)) (writePty env)
      | CommitPaste d \<Rightarrow> bindS (call (env_encodePaste env d)) (writePty env)
      | CommitText bs \<Rightarrow> writePty env bs
      | CommitFocus b \<Rightarrow> bindS (call (env_encodeFocus env b)) (writePty env)
      | CommitMouse m \<Rightarrow> bindS (call (env_encodeMouse env m)) (writePty env)
      | CommitResize d \<Rightarrow> commitResize env d)"

definition runValidate :: "'w session_env \<Rightarrow> InputCommit \<Rightarrow> ('w session, SessionError, unit) se" where
  "runValidate env c =
     (case c of
        CommitText bs \<Rightarrow> (if MAX_TEXT_BYTES < length bs then throwS RangeErr else returnS ())
      | CommitMouse m \<Rightarrow> call (env_validateMouse env m)
      | _ \<Rightarrow> returnS ())"

text \<open>The deletion loop of \<open>#rememberInput\<close> drops the oldest results over the limit.\<close>

definition rememberInput :: "int \<Rightarrow> InputResult \<Rightarrow> 'w session \<Rightarrow> 'w session" where
  "rememberInput clientInputSeq result s =
     (let results = jm_set clientInputSeq result (s_inputResults s);
          excess = length results - nat (s_inputDedupEntries s)
      in s\<lparr>s_inputResults := drop excess results,
           s_inputWriter := map_option (\<lambda>w. if iw_highWater w < clientInputSeq
             then w\<lparr>iw_highWater := clientInputSeq\<rparr> else w) (s_inputWriter s)\<rparr>)"

definition identity_malformed :: "SemanticInputIdentity \<Rightarrow> bool" where
  "identity_malformed ident \<longleftrightarrow>
     length (si_clientId ident) = 0 \<or> 128 < length (si_clientId ident) \<or>
     length (si_inputEpoch ident) = 0 \<or> 128 < length (si_inputEpoch ident) \<or> si_clientInputSeq ident \<le> 0"

text \<open>A higher fence resets the writer and the results.\<close>

definition adoptFence :: "int \<Rightarrow> 'w session \<Rightarrow> 'w session" where
  "adoptFence fence s =
     (if s_inputFence s < fence
      then s\<lparr>s_inputFence := fence, s_inputWriter := None, s_inputResults := []\<rparr> else s)"

text \<open>The checks between the fence and the validation: \<open>Some\<close> status ends the submission.\<close>

definition dedupVerdict :: "'w session \<Rightarrow> SemanticInputIdentity \<Rightarrow> InputAckStatus option" where
  "dedupVerdict s ident =
     (if identity_malformed ident then Some rejected
      else case s_inputWriter s of
        None \<Rightarrow> if si_clientInputSeq ident \<noteq> 1 then Some rejected
          else if (case si_observedEventSeq ident of None \<Rightarrow> False | Some o' \<Rightarrow> s_eventSeq s < o') then Some rejected
          else None
      | Some w \<Rightarrow>
          if iw_clientId w \<noteq> si_clientId ident \<or> iw_inputEpoch w \<noteq> si_inputEpoch ident then Some rejected
          else case jm_get (s_inputResults s) (si_clientInputSeq ident) of
            Some result_written \<Rightarrow> Some duplicate
          | Some result_uncertain \<Rightarrow> Some uncertain
          | None \<Rightarrow>
              if si_clientInputSeq ident \<le> iw_highWater w then Some uncertain
              else if (case si_observedEventSeq ident of None \<Rightarrow> False | Some o' \<Rightarrow> s_eventSeq s < o') then Some rejected
              else None)"

definition startWriter :: "SemanticInputIdentity \<Rightarrow> 'w session \<Rightarrow> 'w session" where
  "startWriter ident s =
     (if s_inputWriter s = None
      then s\<lparr>s_inputWriter := Some \<lparr>iw_clientId = si_clientId ident, iw_highWater = 0,
        iw_inputEpoch = si_inputEpoch ident\<rparr>\<rparr>
      else s)"

definition commitSubmittedInput ::
  "'w session_env \<Rightarrow> SemanticInputIdentity \<Rightarrow> InputCommit \<Rightarrow> 'w session \<Rightarrow> 'w session \<times> InputAck" where
  "commitSubmittedInput env ident c s =
     (if s_ptyExited s \<or> s_failure s \<noteq> None then (s, inputAck s ident rejected)
      else if si_writerFence ident \<le> 0 \<or> MAX_U64 < si_writerFence ident then (s, inputAck s ident rejected)
      else if si_writerFence ident < s_inputFence s then (s, inputAck s ident rejected)
      else let s1 = adoptFence (si_writerFence ident) s in
        case dedupVerdict s1 ident of
          Some status \<Rightarrow> (s1, inputAck s1 ident status)
        | None \<Rightarrow>
            (case runValidate env c s1 of
               (s2, Inl _) \<Rightarrow> (s2, inputAck s2 ident rejected)
             | (s2, Inr _) \<Rightarrow>
                 let s3 = startWriter ident s2;
                     s4 = s3\<lparr>s_commits := s_commits s3 @ [(si_writerFence ident, si_clientInputSeq ident)]\<rparr>
                 in case runCommit env c s4 of
                      (s5, Inr _) \<Rightarrow>
                        let s6 = rememberInput (si_clientInputSeq ident) result_written s5
                        in (s6, inputAck s6 ident written)
                    | (s5, Inl e) \<Rightarrow>
                        let s6 = fail env e (rememberInput (si_clientInputSeq ident) result_uncertain s5)
                        in (s6, inputAck s6 ident uncertain)))"

section \<open>The actor\<close>

definition process_snapshot :: "'w session_env \<Rightarrow> bool \<Rightarrow> ('w session, SessionError, unit) se" where
  "process_snapshot env fence s =
     (case bindS (captureSnapshot env) (\<lambda>snap.
         bindS (if fence then call (env_snapshotFence env snap) else returnS ()) (\<lambda>_.
           modifyS (\<lambda>s. s\<lparr>s_replies := s_replies s @ [SnapshotReply snap]\<rparr>))) s of
        (s', Inr _) \<Rightarrow> (s', Inr ())
      | (s', Inl e) \<Rightarrow> (s'\<lparr>s_replies := s_replies s' @ [SnapshotReject e]\<rparr>, Inl e))"

definition process_message :: "'w session_env \<Rightarrow> SessionMessage \<Rightarrow> ('w session, SessionError, unit) se" where
  "process_message env m =
     (case m of
        PtyOutputMsg d \<Rightarrow> commitPtyOutput env d
      | ResizeMsg d \<Rightarrow> commitResize env d
      | RawInputMsg d \<Rightarrow> writePty env d
      | KeyMsg k \<Rightarrow> bindS (call (env_encodeKey env k)) (writePty env)
      | PasteMsg d \<Rightarrow> bindS (call (env_encodePaste env d)) (writePty env)
      | SubmittedInputMsg ident c \<Rightarrow> (\<lambda>s. case commitSubmittedInput env ident c s of
          (s', ack) \<Rightarrow> (s'\<lparr>s_replies := s_replies s' @ [AckReply ack]\<rparr>, Inr ()))
      | SnapshotMsg fence \<Rightarrow> process_snapshot env fence)"

text \<open>One pass of the drain loop: a thrown error fails the actor and leaves the loop.\<close>

definition drain_pass ::
  "'w session_env \<Rightarrow> 'w session \<times> SessionError option \<Rightarrow> 'w session \<times> SessionError option" where
  "drain_pass env st = (case st of (s, thrown) \<Rightarrow>
     (case s_queue s of
        [] \<Rightarrow> (s, thrown)
      | m # rest \<Rightarrow>
          (case process_message env m (s\<lparr>s_queue := rest\<rparr>) of
             (s', Inr _) \<Rightarrow> (s', None)
           | (s', Inl e) \<Rightarrow> (fail env e s', Some e))))"

text \<open>\<open>None\<close> is a drain that never ends (PTY data emitted on every pass).\<close>

definition drainQueue :: "'w session_env \<Rightarrow> 'w session \<Rightarrow> ('w session \<times> SessionError option) option" where
  "drainQueue env s =
     (if s_disposed s \<or> s_failure s \<noteq> None then Some (s, None)
      else while_option (\<lambda>(s, thrown). s_queue s \<noteq> [] \<and> thrown = None) (drain_pass env) (s, None))"

definition enqueue :: "'w session_env \<Rightarrow> SessionMessage \<Rightarrow> 'w session \<Rightarrow> ('w session \<times> SessionError option) option" where
  "enqueue env m s =
     (if s_disposed s then Some (s, Some SessionDisposedError)
      else if s_failure s \<noteq> None then Some (s, Some SessionFailedError)
      else drainQueue env (s\<lparr>s_queue := s_queue s @ [m]\<rparr>))"

text \<open>A loop of \<open>enqueue\<close> calls stops at the first throw.\<close>

fun enqueue_all ::
  "'w session_env \<Rightarrow> SessionMessage list \<Rightarrow> 'w session \<Rightarrow> ('w session \<times> SessionError option) option" where
  "enqueue_all env [] s = Some (s, None)"
| "enqueue_all env (m # ms) s =
     (case enqueue env m s of
        None \<Rightarrow> None
      | Some (s', Some e) \<Rightarrow> Some (s', Some e)
      | Some (s', None) \<Rightarrow> enqueue_all env ms s')"

definition assertPtyWritable :: "'w session \<Rightarrow> SessionError option" where
  "assertPtyWritable s =
     (if s_ptyExited s then Some PtyExitedError
      else if s_failure s \<noteq> None then Some SessionFailedError
      else if s_disposed s then Some SessionDisposedError else None)"

section \<open>The public operations\<close>

definition replayThroughSession ::
  "'w session_env \<Rightarrow> ReplayCursor \<Rightarrow> ReplayCursor \<Rightarrow> 'w session \<Rightarrow> 'w session \<times> JournalReplay" where
  "replayThroughSession env base commit s =
     (if rp_sessionEpoch base \<noteq> s_sessionEpoch s \<or> rp_sessionEpoch commit \<noteq> s_sessionEpoch s then (s, ReplayGap)
      else case env_now env (s_world s) of (now, w) \<Rightarrow>
        (case replayThrough (s_journal s) now (JournalCursor.truncate base) (JournalCursor.truncate commit) of
           (j, r) \<Rightarrow> (s\<lparr>s_world := w, s_journal := j\<rparr>, r)))"

definition replayFromSession ::
  "'w session_env \<Rightarrow> ReplayCursor \<Rightarrow> 'w session \<Rightarrow> 'w session \<times> JournalReplay" where
  "replayFromSession env cursor s =
     (case env_now env (s_world s) of (now, w) \<Rightarrow>
       (case replayFrom (s_journal s) now (JournalCursor.truncate cursor) of
          (j, r) \<Rightarrow> (s\<lparr>s_world := w, s_journal := j\<rparr>, r)))"

text \<open>Replayed frames go to the new subscriber; its first exception unsubscribes it.\<close>

fun deliver_replay :: "'w session_env \<Rightarrow> nat \<Rightarrow> bytes list \<Rightarrow> 'w session \<Rightarrow> 'w session \<times> bool" where
  "deliver_replay env i [] s = (s, True)"
| "deliver_replay env i (f # fs) s =
     (case env_subscriber env i f (s_world s) of (took, w) \<Rightarrow>
        if took then deliver_replay env i fs (s\<lparr>s_world := w\<rparr>)
        else (s\<lparr>s_world := w, s_subscribers := removeAll i (s_subscribers s)\<rparr>, False))"

definition subscribe ::
  "'w session_env \<Rightarrow> nat \<Rightarrow> ReplayCursor option \<Rightarrow> 'w session \<Rightarrow> 'w session \<times> SessionError option" where
  "subscribe env i cursor s =
     (case cursor of
        None \<Rightarrow> (s\<lparr>s_subscribers := s_subscribers s @ [i]\<rparr>, None)
      | Some c \<Rightarrow>
          if rp_sessionEpoch c \<noteq> s_sessionEpoch s then (s, None)
          else case replayFromSession env c s of
            (s', ReplayGap) \<Rightarrow> (s', None)
          | (s', ReplayOk frames) \<Rightarrow>
              (case deliver_replay env i frames (s'\<lparr>s_subscribers := s_subscribers s' @ [i]\<rparr>) of
                 (s'', True) \<Rightarrow> (s'', None)
               | (s'', False) \<Rightarrow> (s'', Some (EnvError ''subscriber''))))"

definition submitInput ::
  "'w session_env \<Rightarrow> SemanticInputIdentity \<Rightarrow> InputCommit \<Rightarrow> 'w session \<Rightarrow>
   ('w session \<times> SessionError option) option" where
  "submitInput env ident c s =
     (if s_disposed s \<or> s_failure s \<noteq> None \<or> s_ptyExited s
      then Some (s\<lparr>s_replies := s_replies s @ [AckReply (inputAck s ident rejected)]\<rparr>, None)
      else enqueue env (SubmittedInputMsg ident c) s)"

text \<open>Non-reentrant writes check the PTY first.\<close>

definition guarded ::
  "'w session_env \<Rightarrow> SessionMessage list \<Rightarrow> 'w session \<Rightarrow> ('w session \<times> SessionError option) option" where
  "guarded env ms s = (case assertPtyWritable s of Some e \<Rightarrow> Some (s, Some e) | None \<Rightarrow> enqueue_all env ms s)"

datatype SessionEvent =
    OnPtyData bytes
  | OnPtyExit int int
  | ResizeOp ResizePayload
  | WriteKey SemanticKey
  | WritePaste string
  | WriteRawInput bytes
  | SubmitInput SemanticInputIdentity InputCommit
  | CaptureSnapshotOp bool
  | Subscribe nat "ReplayCursor option"
  | Unsubscribe nat
  | ReplayThroughOp ReplayCursor ReplayCursor
  | DisposeOp

fun session_op ::
  "'w session_env \<Rightarrow> SessionEvent \<Rightarrow> 'w session \<Rightarrow> ('w session \<times> SessionError option) option" where
  "session_op env (OnPtyData d) s =
     (if s_disposed s \<or> s_failure s \<noteq> None then Some (s, None)
      else map_option (\<lambda>(s', _). (s', None))
        (enqueue_all env (map PtyOutputMsg (slices MAX_PTY_FRAME_BYTES d)) s))"
| "session_op env (OnPtyExit code sig) s =
     (if s_disposed s \<or> s_failure s \<noteq> None then Some (s, None)
      else Some (resolveExit (Exited code sig) (s\<lparr>s_ptyExited := True\<rparr>), None))"
| "session_op env (ResizeOp d) s = guarded env [ResizeMsg d] s"
| "session_op env (WriteKey k) s = guarded env [KeyMsg k] s"
| "session_op env (WritePaste d) s = guarded env [PasteMsg d] s"
| "session_op env (WriteRawInput d) s = guarded env (map RawInputMsg (slices MAX_PTY_FRAME_BYTES d)) s"
| "session_op env (SubmitInput ident c) s = submitInput env ident c s"
| "session_op env (CaptureSnapshotOp fence) s = enqueue env (SnapshotMsg fence) s"
| "session_op env (Subscribe i cursor) s = Some (subscribe env i cursor s)"
| "session_op env (Unsubscribe i) s = Some (s\<lparr>s_subscribers := removeAll i (s_subscribers s)\<rparr>, None)"
| "session_op env (ReplayThroughOp b c) s = Some (fst (replayThroughSession env b c s), None)"
| "session_op env DisposeOp s = Some (dispose env s, None)"

text \<open>The sessions an environment can bring about, from a new one with a new journal.\<close>

inductive session_reachable :: "'w session_env \<Rightarrow> 'w session \<Rightarrow> bool" for env where
  start: "newEventJournal a b c d = Inr j \<Longrightarrow> newSession w j epoch dedup = Inr s \<Longrightarrow> session_reachable env s"
| step: "session_reachable env s \<Longrightarrow> session_op env e s = Some (s', thrown) \<Longrightarrow> session_reachable env s'"

end
