(* ===== verification/Session_Props.thy ===== *)
theory Session_Props
  imports Session
begin

text \<open>
  Properties of the terminal session actor: submitted input is committed at most once and in order,
  the journal and the actor's cursor stay in lock step, the actor fails closed, and its operations
  return.
\<close>

section \<open>What the operations leave alone\<close>

text \<open>Parts of the session that calls to the outside, publishing and closing do not touch.\<close>

definition outside :: "('w session \<Rightarrow> 'v) \<Rightarrow> bool" where
  "outside g \<longleftrightarrow> (\<forall>s w q. g (s\<lparr>s_world := w\<rparr>) = g s \<and> g (s\<lparr>s_queue := q\<rparr>) = g s)"

definition not_published :: "('w session \<Rightarrow> 'v) \<Rightarrow> bool" where
  "not_published g \<longleftrightarrow> outside g \<and> (\<forall>s j b e p. g (s\<lparr>s_journal := j\<rparr>) = g s \<and> g (s\<lparr>s_subscribers := b\<rparr>) = g s \<and>
     g (s\<lparr>s_eventSeq := e\<rparr>) = g s \<and> g (s\<lparr>s_nextPtyOffset := p\<rparr>) = g s)"

definition not_closed :: "('w session \<Rightarrow> 'v) \<Rightarrow> bool" where
  "not_closed g \<longleftrightarrow> outside g \<and> (\<forall>s x y z b f d. g (s\<lparr>s_failure := x\<rparr>) = g s \<and> g (s\<lparr>s_exit := y\<rparr>) = g s \<and>
     g (s\<lparr>s_replies := z\<rparr>) = g s \<and> g (s\<lparr>s_subscribers := b\<rparr>) = g s \<and>
     g (s\<lparr>s_authorityDisposed := f\<rparr>) = g s \<and> g (s\<lparr>s_disposed := d\<rparr>) = g s)"

lemma receive_keeps: "outside g \<Longrightarrow> g (receive ing s) = g s"
  by (simp add: receive_def outside_def)

lemma call_keeps [keeps_intro]: "outside g \<Longrightarrow> keeps g (call f)"
  by (simp add: keeps_def call_def receive_keeps split: prod.split) (simp add: outside_def)

lemma clock_keeps [keeps_intro]: "outside g \<Longrightarrow> keeps g (clock f)"
  by (simp add: keeps_def clock_def outside_def split: prod.split)

lemma writePty_keeps [keeps_intro]: "outside g \<Longrightarrow> keeps g (writePty env d)"
  by (auto simp: writePty_def intro: keeps_intro)

lemma lift_protocol_keeps [keeps_intro]: "keeps g (lift_protocol r)"
  by (simp add: keeps_def lift_protocol_def)

lemma deliver_keeps: "not_published g \<Longrightarrow> keeps g (deliver env frame i)"
  by (simp add: keeps_def deliver_def not_published_def outside_def split: prod.split)

lemma not_published_outside: "not_published g \<Longrightarrow> outside g"
  by (simp add: not_published_def)

lemma not_closed_outside: "not_closed g \<Longrightarrow> outside g"
  by (simp add: not_closed_def)

lemma journalFrame_keeps: "not_published g \<Longrightarrow> keeps g (journalFrame env frame)"
  unfolding journalFrame_def
proof (intro keeps_bind clock_keeps)
  fix now assume g: "not_published g"
  show "keeps g (\<lambda>s. case journal_append (s_journal s) now frame of
      Inl e \<Rightarrow> (s, Inl (SessionJournal e)) | Inr j \<Rightarrow> (s\<lparr>s_journal := j\<rparr>, Inr ()))"
    using g by (auto simp: keeps_def not_published_def split: sum.split)
qed (rule not_published_outside)

lemma publish_keeps: "not_published g \<Longrightarrow> keeps g (publish env frame)"
  unfolding publish_def
  by (intro keeps_bind journalFrame_keeps keeps_read keeps_for deliver_keeps)

lemma modify_keeps_published:
  "not_published g \<Longrightarrow> keeps g (modifyS (\<lambda>s. s\<lparr>s_eventSeq := F s\<rparr>))"
  "not_published g \<Longrightarrow> keeps g (modifyS (\<lambda>s. s\<lparr>s_nextPtyOffset := G s\<rparr>))"
  by (simp_all add: keeps_def modifyS_def not_published_def)

lemma commitPtyOutput_keeps: "not_published g \<Longrightarrow> keeps g (commitPtyOutput env d)"
  unfolding commitPtyOutput_def commitPtyChunk_def
  by (intro keeps_intro publish_keeps modify_keeps_published not_published_outside)

lemma commitResize_keeps: "not_published g \<Longrightarrow> keeps g (commitResize env d)"
  unfolding commitResize_def
  by (intro keeps_intro publish_keeps modify_keeps_published not_published_outside)

lemma captureSnapshot_keeps: "outside g \<Longrightarrow> keeps g (captureSnapshot env)"
  unfolding captureSnapshot_def by (intro keeps_intro)

lemma runCommit_keeps: "not_published g \<Longrightarrow> keeps g (runCommit env c)"
  by (cases c) (auto simp: runCommit_def intro: keeps_intro commitResize_keeps dest: not_published_outside)

lemma runValidate_keeps: "outside g \<Longrightarrow> keeps g (runValidate env c)"
  by (cases c) (auto simp: runValidate_def intro: keeps_intro)

lemma bestEffort_keeps: "outside g \<Longrightarrow> g (bestEffort f s) = g s"
  unfolding bestEffort_def by (rule keepsD) (rule call_keeps)

lemma disposeAuthority_keeps: "not_closed g \<Longrightarrow> g (disposeAuthority env s) = g s"
  by (simp add: disposeAuthority_def bestEffort_keeps not_closed_outside) (simp add: not_closed_def)

lemma fail_keeps: "not_closed g \<Longrightarrow> g (fail env e s) = g s"
  by (simp add: fail_def bestEffort_keeps not_closed_outside disposeAuthority_keeps)
    (simp add: not_closed_def outside_def resolveExit_def rejectQueued_def)

lemma dispose_keeps: "not_closed g \<Longrightarrow> g (dispose env s) = g s"
  by (simp add: dispose_def bestEffort_keeps not_closed_outside disposeAuthority_keeps)
    (simp add: not_closed_def outside_def resolveExit_def rejectQueued_def)

text \<open>Closing leaves an empty queue behind, because a closed session receives nothing.\<close>

lemma receive_closed: "s_disposed s \<or> s_failure s \<noteq> None \<Longrightarrow> receive ing s = s"
  by (simp add: receive_def)

lemma closing_call:
  assumes "s_disposed s \<or> s_failure s \<noteq> None"
  shows "s_queue (bestEffort f s) = s_queue s" "s_disposed (bestEffort f s) = s_disposed s"
    "s_failure (bestEffort f s) = s_failure s"
  using assms by (auto simp: bestEffort_def call_def receive_closed split: prod.split)

lemma disposeAuthority_closed:
  assumes "s_disposed s \<or> s_failure s \<noteq> None"
  shows "s_queue (disposeAuthority env s) = s_queue s"
    "s_disposed (disposeAuthority env s) = s_disposed s" "s_failure (disposeAuthority env s) = s_failure s"
  using assms closing_call [of "s\<lparr>s_authorityDisposed := True\<rparr>"] by (auto simp: disposeAuthority_def)

lemma fail_closed:
  assumes "s_failure s = None" "\<not> s_disposed s"
  shows "s_queue (fail env e s) = []" "s_failure (fail env e s) = Some e" "\<not> s_disposed (fail env e s)"
  using assms
  by (simp_all add: fail_def closing_call disposeAuthority_closed resolveExit_def rejectQueued_def)

lemma fail_closes: "s_failure (fail env e s) \<noteq> None \<or> s_disposed (fail env e s)"
proof (cases "s_failure s \<noteq> None \<or> s_disposed s")
  case True
  then show ?thesis by (auto simp: fail_def)
qed (simp add: fail_closed)

lemma dispose_closed: "\<not> s_disposed s \<Longrightarrow> s_queue (dispose env s) = [] \<and> s_disposed (dispose env s)"
  by (simp add: dispose_def closing_call disposeAuthority_closed resolveExit_def rejectQueued_def)

section \<open>The drain loop\<close>

text \<open>
  What a predicate has to satisfy to survive one pass of the drain loop, and a push onto the queue of
  an open session.
\<close>

definition pass_ok :: "'w session_env \<Rightarrow> ('w session \<Rightarrow> bool) \<Rightarrow> bool" where
  "pass_ok env P \<longleftrightarrow> (\<forall>s m rest s' r. P s \<longrightarrow> s_queue s = m # rest \<longrightarrow>
     process_message env m (s\<lparr>s_queue := rest\<rparr>) = (s', r) \<longrightarrow>
     (case r of Inr _ \<Rightarrow> P s' | Inl e \<Rightarrow> P (fail env e s')))"

definition push_ok :: "('w session \<Rightarrow> bool) \<Rightarrow> bool" where
  "push_ok P \<longleftrightarrow> (\<forall>s m. P s \<longrightarrow> \<not> s_disposed s \<longrightarrow> s_failure s = None \<longrightarrow> P (s\<lparr>s_queue := s_queue s @ [m]\<rparr>))"

lemma drainQueue_preserves:
  assumes pass: "pass_ok env P"
    and P: "P s" and drain: "drainQueue env s = Some (s', t)"
  shows "P s'"
proof (cases "s_disposed s \<or> s_failure s \<noteq> None")
  case True
  with P drain show ?thesis by (auto simp: drainQueue_def)
next
  case False
  with drain have w: "while_option (\<lambda>(s, thrown). s_queue s \<noteq> [] \<and> thrown = None) (drain_pass env) (s, None)
    = Some (s', t)" by (auto simp: drainQueue_def)
  have "P (fst (s', t))"
  proof (rule while_option_rule [where P = "\<lambda>st. P (fst st)", OF _ w])
    fix st :: "'a session \<times> SessionError option"
    assume st: "P (fst st)" "case st of (s, thrown) \<Rightarrow> s_queue s \<noteq> [] \<and> thrown = None"
    obtain s0 where s0: "st = (s0, None)" using st(2) by (cases st) auto
    with st(2) obtain m rest where q: "s_queue s0 = m # rest" by (cases "s_queue s0") auto
    obtain s1 r where r: "process_message env m (s0\<lparr>s_queue := rest\<rparr>) = (s1, r)" by fastforce
    have "case r of Inr _ \<Rightarrow> P s1 | Inl e \<Rightarrow> P (fail env e s1)"
      using pass st(1) s0 q r unfolding pass_ok_def by auto
    then show "P (fst (drain_pass env st))"
      by (cases r) (simp_all add: s0 drain_pass_def q r)
  qed (simp add: P)
  then show ?thesis by simp
qed

lemma enqueue_all_preserves:
  assumes pass: "pass_ok env P"
    and push: "push_ok P"
  shows "P s \<Longrightarrow> enqueue_all env ms s = Some (s', t) \<Longrightarrow> P s'"
proof (induction ms arbitrary: s)
  case (Cons m ms)
  show ?case
  proof (cases "enqueue env m s")
    case None
    with Cons.prems(2) show ?thesis by simp
  next
    case (Some st)
    obtain s1 t1 where st: "st = (s1, t1)" by (cases st)
    have "P s1"
    proof (cases "s_disposed s \<or> s_failure s \<noteq> None")
      case True
      with Some st Cons.prems(1) show ?thesis by (auto simp: enqueue_def split: if_splits)
    next
      case False
      with Some st have "drainQueue env (s\<lparr>s_queue := s_queue s @ [m]\<rparr>) = Some (s1, t1)"
        by (simp add: enqueue_def)
      moreover have "P (s\<lparr>s_queue := s_queue s @ [m]\<rparr>)"
        using push Cons.prems(1) False unfolding push_ok_def by auto
      ultimately show ?thesis using drainQueue_preserves [OF pass] by blast
    qed
    with Cons Some st show ?thesis by (cases t1) auto
  qed
qed simp

lemma enqueue_as_all: "enqueue env m s = Some (s', t) \<Longrightarrow> enqueue_all env [m] s = Some (s', t)"
  by (cases t) auto

text \<open>
  A predicate that the message handlers, closing and the bookkeeping of the entry points preserve holds
  after every operation.
\<close>

lemma session_op_preserves:
  assumes pass: "pass_ok env P"
    and push: "push_ok P"
    and direct: "\<And>s w b x r. P s \<Longrightarrow>
      P (s\<lparr>s_world := w, s_subscribers := b, s_replies := r\<rparr>) \<and> P (s\<lparr>s_ptyExited := True\<rparr>) \<and>
      P (resolveExit x (s\<lparr>s_ptyExited := True\<rparr>)) \<and> P (dispose env s)"
    and journal: "\<And>s now. P s \<Longrightarrow> P (s\<lparr>s_journal := maintain (s_journal s) now\<rparr>)"
    and op: "session_op env e s = Some (s', t)" and P: "P s"
  shows "P s'"
proof -
  note all = enqueue_all_preserves [OF pass push]
  have one: "P s'" if "enqueue env m s = Some (s', t)" for m
    using all [OF P enqueue_as_all [OF that]] .
  have upd: "P (s\<lparr>s_world := w, s_subscribers := b\<rparr>)" if "P s" for s w b
    using conjunct1 [OF direct [OF that, where w = w and b = b and r = "s_replies s"]] by simp
  have updw: "P (s\<lparr>s_world := w\<rparr>)" "P (s\<lparr>s_subscribers := b\<rparr>)" "P (s\<lparr>s_replies := r\<rparr>)" if "P s" for s w b r
    using conjunct1 [OF direct [OF that, where w = w and b = "s_subscribers s" and r = "s_replies s"]]
      conjunct1 [OF direct [OF that, where w = "s_world s" and b = b and r = "s_replies s"]]
      conjunct1 [OF direct [OF that, where w = "s_world s" and b = "s_subscribers s" and r = r]]
    by simp_all
  have rep: "P s'" if "deliver_replay env i fs s = (s', ok)" "P s" for i fs s s' ok
    using that
  proof (induction fs arbitrary: s)
    case (Cons f fs)
    obtain took w where c: "env_subscriber env i f (s_world s) = (took, w)" by fastforce
    show ?case
    proof (cases took)
      case True
      with Cons.IH [of "s\<lparr>s_world := w\<rparr>"] Cons.prems c updw(1) show ?thesis by simp
    next
      case False
      with Cons.prems c upd show ?thesis by auto
    qed
  qed simp
  have jn: "P (s\<lparr>s_world := w, s_journal := maintain (s_journal s) now\<rparr>)" for w now
    using journal [OF updw(1) [OF P, of w], of now] by simp
  show ?thesis
  proof (cases e)
    case (OnPtyData d)
    with op all [OF P] P show ?thesis by (auto split: if_splits)
  next
    case (SubmitInput ident c)
    with op one updw(3) [OF P] show ?thesis by (auto simp: submitInput_def split: if_splits)
  next
    case (Subscribe i cursor)
    with op have sub: "subscribe env i cursor s = (s', t)" by simp
    show ?thesis
    proof (cases cursor)
      case None
      with sub updw(2) [OF P] show ?thesis by (auto simp: subscribe_def)
    next
      case (Some c)
      obtain now w where nw: "env_now env (s_world s) = (now, w)" by fastforce
      let ?s1 = "s\<lparr>s_world := w, s_journal := maintain (s_journal s) now\<rparr>"
      have "P (?s1\<lparr>s_subscribers := s_subscribers ?s1 @ [i]\<rparr>)" using updw(2) [OF jn] .
      then show ?thesis using sub Some nw P jn [where w = w and now = now] rep
        by (auto simp: subscribe_def replayFromSession_def replayFrom_def Let_def
            split: if_splits JournalReplay.splits prod.splits bool.splits)
    qed
  next
    case (ReplayThroughOp b c)
    with op P jn show ?thesis
      by (auto simp: replayThroughSession_def replayThrough_def Let_def split: if_splits prod.splits)
  next
    case (WriteRawInput d)
    with op P all [OF P] show ?thesis by (auto simp: guarded_def split: option.splits)
  next
    case (ResizeOp d)
    with op P all [OF P, of "[ResizeMsg d]"] show ?thesis
      by (auto simp only: session_op.simps guarded_def split: option.splits)
  next
    case (WriteKey k)
    with op P all [OF P, of "[KeyMsg k]"] show ?thesis
      by (auto simp only: session_op.simps guarded_def split: option.splits)
  next
    case (WritePaste d)
    with op P all [OF P, of "[PasteMsg d]"] show ?thesis
      by (auto simp only: session_op.simps guarded_def split: option.splits)
  qed (use op P one direct [OF P] updw(2) [OF P] in \<open>auto split: if_splits\<close>)
qed

section \<open>Submitted input: fenced, deduplicated, at most once\<close>

text \<open>The order of commits: by fence, then by sequence number.\<close>

definition before :: "int \<times> int \<Rightarrow> int \<times> int \<Rightarrow> bool" where
  "before a b \<longleftrightarrow> fst a < fst b \<or> (fst a = fst b \<and> snd a < snd b)"

text \<open>The fields the input protocol works on.\<close>

definition input_view ::
  "'w session \<Rightarrow> int \<times> InputWriterState option \<times> (int, InputResult) jsmap \<times> (int \<times> int) list \<times> int" where
  "input_view s = (s_inputFence s, s_inputWriter s, s_inputResults s, s_commits s, s_inputDedupEntries s)"

fun input_inv ::
  "int \<times> InputWriterState option \<times> (int, InputResult) jsmap \<times> (int \<times> int) list \<times> int \<Rightarrow> bool" where
  "input_inv (fence, writer, results, commits, dedup) \<longleftrightarrow>
     0 \<le> fence \<and> 0 < dedup \<and> jm_wf results \<and> length results \<le> nat dedup \<and>
     (\<forall>k\<in>fst ` set results. \<exists>w. writer = Some w \<and> k \<le> iw_highWater w) \<and>
     sorted_wrt before commits \<and>
     (\<forall>c\<in>set commits. fst c < fence \<or> (fst c = fence \<and> (\<exists>w. writer = Some w \<and> snd c \<le> iw_highWater w)))"

lemma input_view_frames: "not_published input_view" "not_closed input_view" "outside input_view"
  by (simp_all add: not_published_def not_closed_def outside_def input_view_def)

lemma adoptFence_inv:
  assumes "input_inv (input_view s)" "s_inputFence s \<le> fence"
  shows "input_inv (input_view (adoptFence fence s))"
    "s_inputFence (adoptFence fence s) = fence" "s_commits (adoptFence fence s) = s_commits s"
  using assms by (force simp: input_view_def adoptFence_def)+

text \<open>An accepted identity is new: above the high water of the writer it belongs to.\<close>

lemma dedupVerdict_None:
  assumes "dedupVerdict s ident = None"
  shows "0 < si_clientInputSeq ident"
    "s_inputWriter s = Some w \<Longrightarrow> iw_highWater w < si_clientInputSeq ident"
    "jm_get (s_inputResults s) (si_clientInputSeq ident) = None \<or> s_inputWriter s = None"
  using assms
  by (auto simp: dedupVerdict_def identity_malformed_def split: if_splits option.splits InputResult.splits)

lemma drop_set_fst: "k \<in> fst ` set (drop n xs) \<Longrightarrow> k \<in> fst ` set xs"
  by (auto dest: in_set_dropD)

text \<open>The effect of committing a new input on the protocol's fields.\<close>

lemma remember_inv:
  assumes inv: "input_inv (fence, writer, results, commits, dedup)"
    and w: "w = (case writer of Some w \<Rightarrow> w | None \<Rightarrow> \<lparr>iw_clientId = cid, iw_highWater = 0, iw_inputEpoch = ep\<rparr>)"
    and new: "iw_highWater w < seq" "writer = None \<longrightarrow> results = []"
    and s: "input_view s = (fence, Some w, results, commits @ [(fence, seq)], dedup)"
  shows "input_inv (input_view (rememberInput seq r s))"
proof -
  have fields: "s_inputFence s = fence" "s_inputWriter s = Some w" "s_inputResults s = results"
    "s_commits s = commits @ [(fence, seq)]" "s_inputDedupEntries s = dedup"
    using s by (simp_all add: input_view_def)
  let ?res = "jm_set seq r results"
  have hw: "k < seq" if "k \<in> fst ` set results" for k
  proof -
    from inv that obtain w' where w': "writer = Some w'" "k \<le> iw_highWater w'" by auto
    with w new(1) show ?thesis by simp
  qed
  then have len: "length ?res = Suc (length results)" by (force simp: length_jm_set)
  have keys: "k \<le> seq" if "k \<in> fst ` set (drop n ?res)" for k n
  proof -
    have "k = seq \<or> k \<in> fst ` set results" using drop_set_fst [OF that] unfolding fst_set_jm_set by simp
    then show ?thesis using hw [of k] by (elim disjE) simp_all
  qed
  have wf: "jm_wf (drop n ?res)" for n
    using inv jm_wf_set [of results seq r] by (simp add: jm_wf_def drop_map [symmetric])
  have com: "before c (fence, seq)" if "c \<in> set commits" for c
  proof -
    from inv that have "fst c < fence \<or> (fst c = fence \<and> (\<exists>w. writer = Some w \<and> snd c \<le> iw_highWater w))" by auto
    with w new(1) show ?thesis by (auto simp: before_def)
  qed
  have old: "fst c < fence \<or> (fst c = fence \<and> snd c \<le> seq)" if "c \<in> set commits" for c
    using com [OF that] by (auto simp: before_def)
  show ?thesis
    using inv len keys wf com old new(1)
    by (auto simp: rememberInput_def Let_def input_view_def fields sorted_wrt_append)
qed

lemma commitSubmittedInput_inv:
  assumes inv: "input_inv (input_view s)" and step: "commitSubmittedInput env ident c s = (s', ack)"
  shows "input_inv (input_view s') \<and> s_inputFence s \<le> s_inputFence s' \<and>
    (s_commits s' = s_commits s \<or> s_commits s' = s_commits s @ [(si_writerFence ident, si_clientInputSeq ident)])"
proof -
  let ?f = "si_writerFence ident" and ?n = "si_clientInputSeq ident"
  consider (refused) "s' = s"
    | (go) "s_inputFence s \<le> ?f" "\<not> (s_ptyExited s \<or> s_failure s \<noteq> None)"
        "\<not> (?f \<le> 0 \<or> MAX_U64 < ?f)" "\<not> ?f < s_inputFence s"
    using step by (fastforce simp: commitSubmittedInput_def split: if_splits)
  then show ?thesis
  proof cases
    case refused
    with inv show ?thesis by simp
  next
    case go
    define s1 where "s1 = adoptFence ?f s"
    have s1: "input_inv (input_view s1)" "s_inputFence s1 = ?f" "s_commits s1 = s_commits s"
      using adoptFence_inv [OF inv go(1)] by (simp_all add: s1_def)
    obtain s2 v where v: "runValidate env c s1 = (s2, v)" by fastforce
    have s2: "input_view s2 = input_view s1"
      using keeps_result [OF runValidate_keeps [OF input_view_frames(3)] v] .
    note cs = step [unfolded commitSubmittedInput_def, simplified go if_False Let_def, folded s1_def]
    show ?thesis
    proof (cases "dedupVerdict s1 ident")
      case (Some status)
      with cs go have "s' = s1" by simp
      with s1 go show ?thesis by simp
    next
      case None
      show ?thesis
      proof (cases v)
        case (Inl e)
        with cs None v go have "s' = s2" by simp
        with s1 s2 go show ?thesis by (simp add: input_view_def)
      next
        case (Inr u)
        define s4 where "s4 = (startWriter ident s2)\<lparr>s_commits := s_commits (startWriter ident s2) @ [(?f, ?n)]\<rparr>"
        obtain s5 r where r: "runCommit env c s4 = (s5, r)" by fastforce
        have s5: "input_view s5 = input_view s4"
          using keeps_result [OF runCommit_keeps [OF input_view_frames(1)] r] .
        define w where "w = (case s_inputWriter s1 of Some w \<Rightarrow> w
          | None \<Rightarrow> \<lparr>iw_clientId = si_clientId ident, iw_highWater = 0, iw_inputEpoch = si_inputEpoch ident\<rparr>)"
        have s4: "input_view s4 = (?f, Some w, s_inputResults s1, s_commits s1 @ [(?f, ?n)], s_inputDedupEntries s1)"
          using s2 s1(2) by (auto simp: s4_def input_view_def startWriter_def w_def split: option.split)
        have new: "iw_highWater w < ?n" "s_inputWriter s1 = None \<longrightarrow> s_inputResults s1 = []"
        proof -
          show "iw_highWater w < ?n"
            using dedupVerdict_None(1,2) [OF None] by (auto simp: w_def split: option.split)
          show "s_inputWriter s1 = None \<longrightarrow> s_inputResults s1 = []"
            using s1(1) by (cases "s_inputResults s1") (auto simp: input_view_def)
        qed
        have view1: "input_inv (?f, s_inputWriter s1, s_inputResults s1, s_commits s1, s_inputDedupEntries s1)"
          using s1(1,2) by (simp add: input_view_def)
        note rem = remember_inv [OF view1 w_def new, of s5]
        have "\<exists>res. input_view s' = input_view (rememberInput ?n res s5)"
        proof (cases r)
          case (Inl e)
          with cs None v Inr r go have "s' = fail env e (rememberInput ?n result_uncertain s5)"
            by (simp add: s4_def)
          with fail_keeps [OF input_view_frames(2)] show ?thesis by blast
        next
          case (Inr u')
          with cs None v \<open>v = Inr u\<close> r go have "s' = rememberInput ?n result_written s5"
            by (simp add: s4_def)
          then show ?thesis by blast
        qed
        then obtain res where res: "input_view s' = input_view (rememberInput ?n res s5)" by blast
        with rem s5 s4 have inv': "input_inv (input_view s')" by simp
        have "s_inputFence s' = ?f" "s_commits s' = s_commits s @ [(?f, ?n)]"
          using res s5 s4 s1(3) by (simp_all add: input_view_def rememberInput_def Let_def)
        with inv' go show ?thesis by simp
      qed
    qed
  qed
qed

lemma input_view_update:
  "input_view (s\<lparr>s_queue := q\<rparr>) = input_view s" "input_view (s\<lparr>s_replies := r\<rparr>) = input_view s"
  "input_view (s\<lparr>s_journal := j\<rparr>) = input_view s"
  by (simp_all add: input_view_def)

lemma process_snapshot_keeps: "not_closed g \<Longrightarrow> g (fst (process_snapshot env fence s)) = g s"
proof -
  assume g: "not_closed g"
  let ?m = "bindS (captureSnapshot env) (\<lambda>snap. bindS (if fence then call (env_snapshotFence env snap) else returnS ())
    (\<lambda>_. modifyS (\<lambda>s. s\<lparr>s_replies := s_replies s @ [SnapshotReply snap]\<rparr>)))"
  have "keeps g ?m"
    using g by (intro keeps_intro captureSnapshot_keeps keeps_modify not_closed_outside) (simp_all add: not_closed_def)
  then have "g (fst (?m s)) = g s" by (rule keepsD)
  with g show ?thesis
    by (auto simp: process_snapshot_def not_closed_def split: prod.split sum.split)
qed

text \<open>Every message other than submitted input leaves the protocol's fields alone.\<close>

lemma process_message_view:
  assumes "process_message env m s = (s', r)" "\<forall>ident c. m \<noteq> SubmittedInputMsg ident c"
  shows "input_view s' = input_view s"
proof (cases m)
  case (SnapshotMsg fence)
  with assms process_snapshot_keeps [OF input_view_frames(2), of env fence s] show ?thesis
    by (simp add: process_message_def)
next
  case (PtyOutputMsg d)
  with assms keeps_result [OF commitPtyOutput_keeps [OF input_view_frames(1)]] show ?thesis
    by (auto simp: process_message_def)
next
  case (ResizeMsg d)
  with assms keeps_result [OF commitResize_keeps [OF input_view_frames(1)]] show ?thesis
    by (auto simp: process_message_def)
next
  case (RawInputMsg d)
  with assms keeps_result [OF writePty_keeps [OF input_view_frames(3)]] show ?thesis
    by (auto simp: process_message_def)
next
  case (KeyMsg k)
  have "keeps input_view (bindS (call (env_encodeKey env k)) (writePty env))"
    by (intro keeps_intro input_view_frames)
  with KeyMsg assms keeps_result show ?thesis by (auto simp: process_message_def)
next
  case (PasteMsg d)
  have "keeps input_view (bindS (call (env_encodePaste env d)) (writePty env))"
    by (intro keeps_intro input_view_frames)
  with PasteMsg assms keeps_result show ?thesis by (auto simp: process_message_def)
qed (use assms in simp)

text \<open>The invariant relative to an earlier state: the fence grew and commits were only added.\<close>

definition input_since :: "'w session \<Rightarrow> 'w session \<Rightarrow> bool" where
  "input_since s0 s \<longleftrightarrow> input_inv (input_view s) \<and> s_inputFence s0 \<le> s_inputFence s \<and>
     (\<exists>new. s_commits s = s_commits s0 @ new)"

lemma input_since_view: "input_view s' = input_view s \<Longrightarrow> input_since s0 s' = input_since s0 s"
  by (simp add: input_since_def input_view_def)

lemma process_message_since:
  assumes "input_since s0 s" "process_message env m s = (s', r)"
  shows "input_since s0 s'"
proof (cases "\<exists>ident c. m = SubmittedInputMsg ident c")
  case True
  then obtain ident c where m: "m = SubmittedInputMsg ident c" by blast
  obtain s1 ack where c: "commitSubmittedInput env ident c s = (s1, ack)" by fastforce
  with m assms(2) have s': "s' = s1\<lparr>s_replies := s_replies s1 @ [AckReply ack]\<rparr>"
    by (auto simp: process_message_def)
  have "input_since s0 s1"
    using commitSubmittedInput_inv [OF _ c] assms(1) by (auto simp: input_since_def)
  with s' show ?thesis by (simp add: input_since_view [OF input_view_update(2)])
next
  case False
  with assms show ?thesis using input_since_view [OF process_message_view] by blast
qed

lemma input_since_pass: "pass_ok env (input_since s0)"
  unfolding pass_ok_def
proof (intro allI impI)
  fix s m rest s' r
  assume "input_since s0 s" "process_message env m (s\<lparr>s_queue := rest\<rparr>) = (s', r)"
  then have "input_since s0 s'"
    using process_message_since [of s0 "s\<lparr>s_queue := rest\<rparr>" env m s' r]
    by (simp add: input_since_view [OF input_view_update(1)])
  then show "case r of Inl e \<Rightarrow> input_since s0 (fail env e s') | Inr _ \<Rightarrow> input_since s0 s'"
    by (simp add: input_since_view [OF fail_keeps [OF input_view_frames(2)]] split: sum.split)
qed

lemma input_since_direct:
  assumes "input_since s0 s"
  shows "input_since s0 (s\<lparr>s_world := w, s_subscribers := b, s_replies := r\<rparr>)"
    "input_since s0 (s\<lparr>s_ptyExited := True\<rparr>)" "input_since s0 (resolveExit x (s\<lparr>s_ptyExited := True\<rparr>))"
    "input_since s0 (dispose env s)"
  using assms
  by (simp_all only: input_since_view [OF dispose_keeps [OF input_view_frames(2)]])
    (simp_all add: input_since_def input_view_def resolveExit_def)

lemma session_op_since:
  assumes "session_op env e s = Some (s', t)" "input_since s0 s"
  shows "input_since s0 s'"
proof (rule session_op_preserves [OF input_since_pass, of s0, OF _ _ _ assms])
  show "push_ok (input_since s0)"
    by (simp add: push_ok_def input_since_view [OF input_view_update(1)])
qed (simp_all add: input_since_direct input_since_view [OF input_view_update(3)])

lemma session_reachable_input: "session_reachable env s \<Longrightarrow> input_inv (input_view s)"
proof (induction rule: session_reachable.induct)
  case (start a b c d j w epoch dedup s)
  then show ?case by (auto simp: newSession_def Let_def input_view_def split: if_splits)
next
  case (step s e s' thrown)
  then have "input_since s s" by (simp add: input_since_def)
  from session_op_since [OF step.hyps(2) this] show ?case by (simp add: input_since_def)
qed

text \<open>
  C12. Submitted input is committed at most once and in order: over any history of a session, the
  (writer fence, sequence number) pairs whose commit ran are strictly increasing, fence first; in
  particular no input is ever committed twice, across writers, retries and failures. The table of
  remembered results never exceeds its configured size.
\<close>

theorem session_input_at_most_once:
  assumes "session_reachable env s"
  shows "sorted_wrt before (s_commits s) \<and> distinct (s_commits s) \<and>
    length (s_inputResults s) \<le> nat (s_inputDedupEntries s)"
proof -
  from session_reachable_input [OF assms] have "sorted_wrt before (s_commits s)"
    "length (s_inputResults s) \<le> nat (s_inputDedupEntries s)" by (simp_all add: input_view_def)
  moreover have "distinct cs" if "sorted_wrt before cs" for cs
    using that by (induction cs) (auto simp: before_def)
  ultimately show ?thesis by blast
qed

text \<open>
  The writer fence is monotone and commits are only added: no operation of a session, failing ones
  included, ever lowers the fence or forgets a commit.
\<close>

theorem session_fence_monotone:
  assumes "session_reachable env s" and "session_op env e s = Some (s', t)"
  shows "s_inputFence s \<le> s_inputFence s' \<and> (\<exists>new. s_commits s' = s_commits s @ new)"
  using session_op_since [OF assms(2), of s] session_reachable_input [OF assms(1)]
  by (simp add: input_since_def)

end
