(* ===== verification/Session_Lockstep.thy ===== *)
theory Session_Lockstep
  imports Session_Props
begin

text \<open>
  The session actor and its journal advance in lock step: while the actor is open its cursor is the
  journal's head, every journalled frame carries the session's epoch and a valid payload, and a
  closed actor does nothing any more.
\<close>

section \<open>The journal side of the invariant\<close>

definition valid_log :: "JournalEntry list \<Rightarrow> bool" where
  "valid_log log \<longleftrightarrow> (\<forall>e\<in>set log. \<exists>f. decodeDataFrame (je_frame e) = Inr f \<and> well_formed_mutation f)"

definition journal_ok :: "'w session \<Rightarrow> bool" where
  "journal_ok s \<longleftrightarrow> (\<exists>log. journal_rep log (s_journal s) \<and> valid_log log) \<and>
     (j_sessionEpoch (s_journal s) = None \<or> j_sessionEpoch (s_journal s) = Some (s_sessionEpoch s))"

definition at_head :: "'w session \<Rightarrow> bool" where
  "at_head s \<longleftrightarrow> j_headCursor (s_journal s) =
     \<lparr>jc_lastEventSeq = s_eventSeq s, jc_nextPtyOffset = s_nextPtyOffset s\<rparr>"

definition lockstep :: "'w session \<Rightarrow> bool" where
  "lockstep s \<longleftrightarrow> journal_ok s \<and> (s_failure s = None \<and> \<not> s_disposed s \<longrightarrow> at_head s)"

definition journal_view :: "'w session \<Rightarrow> EventJournal \<times> int \<times> int \<times> int" where
  "journal_view s = (s_journal s, s_sessionEpoch s, s_eventSeq s, s_nextPtyOffset s)"

lemma journal_view_frames: "outside journal_view" "not_closed journal_view"
  by (simp_all add: outside_def not_closed_def journal_view_def)

lemma ok_view: "journal_view s' = journal_view s \<Longrightarrow> journal_ok s' = journal_ok s"
  "journal_view s' = journal_view s \<Longrightarrow> at_head s' = at_head s"
  by (simp_all add: journal_ok_def at_head_def journal_view_def)

text \<open>
  A step that keeps the journal sound however it ends, and the cursor at the journal's head when it
  returns normally.
\<close>

definition advances :: "('w session, SessionError, 'a) se \<Rightarrow> bool" where
  "advances m \<longleftrightarrow> (\<forall>s. journal_ok s \<longrightarrow> journal_ok (fst (m s)) \<and>
     (at_head s \<longrightarrow> (case snd (m s) of Inl _ \<Rightarrow> True | Inr _ \<Rightarrow> at_head (fst (m s)))))"

lemma advances_keeps: "keeps journal_view m \<Longrightarrow> advances m"
  unfolding advances_def using ok_view keepsD by (metis sum.case_eq_if)

lemma advancesD:
  assumes "advances m" "m s = (s', r)" "journal_ok s"
  shows "journal_ok s'" "at_head s \<Longrightarrow> r = Inr x \<Longrightarrow> at_head s'"
  using assms unfolding advances_def by (force dest: spec [of _ s])+

lemma advances_bind:
  fixes m :: "('w session, SessionError, 'x) se"
  assumes m: "advances m" and k: "\<And>x. advances (k x)"
  shows "advances (bindS m k)"
  unfolding advances_def
proof (intro allI impI conjI)
  fix s :: "'w session" assume ok: "journal_ok s"
  obtain s1 r where r: "m s = (s1, r)" by fastforce
  note m' = advancesD [OF m r ok]
  show "journal_ok (fst (bindS m k s))"
    using m'(1) k r by (cases r) (auto simp: bindS_def advances_def)
  assume h: "at_head s"
  show "case snd (bindS m k s) of Inl _ \<Rightarrow> True | Inr _ \<Rightarrow> at_head (fst (bindS m k s))"
  proof (cases r)
    case (Inr x)
    then have "at_head s1" using m'(2) h by blast
    moreover have eq: "bindS m k s = k x s1" by (simp add: bindS_def r Inr)
    ultimately show ?thesis unfolding eq using k [of x] m'(1) by (simp add: advances_def)
  qed (simp add: bindS_def r)
qed

lemma advances_for: "(\<And>x. advances (f x)) \<Longrightarrow> advances (forS f xs)"
  by (induction xs) (auto intro: advances_bind advances_keeps keeps_intro)

lemma append_head:
  assumes "journal_append j now bs = Inr j'" "decodeDataFrame bs = Inr f"
  shows "j_headCursor j' = \<lparr>jc_lastEventSeq = df_eventSeq f, jc_nextPtyOffset = offset_after f\<rparr>"
    "j_sessionEpoch j' = Some (df_sessionEpoch f)"
proof -
  from assms(1) obtain f' where g': "append_guard j bs = Inr f'" by (auto simp: journal_append_def bindR_Inr_iff)
  with append_guard_Inr(1) [OF g'] assms(2) have g: "append_guard j bs = Inr f" by simp
  with assms(1) append_guard_Inr(7) [OF g]
  show "j_headCursor j' = \<lparr>jc_lastEventSeq = df_eventSeq f, jc_nextPtyOffset = offset_after f\<rparr>"
    "j_sessionEpoch j' = Some (df_sessionEpoch f)"
    by (auto simp: journal_append_def Let_def entry_of_def)
qed

text \<open>Journalling one frame of the session: it either throws or lands the head on the frame.\<close>

lemma journalFrame_step:
  assumes ok: "journal_ok s" and enc: "encodeDataFrame f = Inr bs" and wf: "well_formed_mutation f"
    and ep: "df_sessionEpoch f = s_sessionEpoch s" and j: "journalFrame env bs s = (s', r)"
  shows "journal_ok s'" "s_eventSeq s' = s_eventSeq s" "s_nextPtyOffset s' = s_nextPtyOffset s"
    "r = Inr x \<Longrightarrow> j_headCursor (s_journal s') =
      \<lparr>jc_lastEventSeq = df_eventSeq f, jc_nextPtyOffset = offset_after f\<rparr>"
proof -
  have dec: "decodeDataFrame bs = Inr f" using enc by (rule frame.dec_enc)
  obtain now w where c: "env_now env (s_world s) = (now, w)" by fastforce
  from ok obtain log where log: "journal_rep log (s_journal s)" "valid_log log"
    by (auto simp: journal_ok_def)
  have cases: "(\<exists>j1. journal_append (s_journal s) now bs = Inr j1 \<and> s' = s\<lparr>s_world := w, s_journal := j1\<rparr>) \<or>
      (s' = s\<lparr>s_world := w\<rparr> \<and> (\<exists>e. r = Inl e))"
    using j c by (auto simp: journalFrame_def bindS_def clock_def split: sum.splits)
  then show "s_eventSeq s' = s_eventSeq s" "s_nextPtyOffset s' = s_nextPtyOffset s" by auto
  have "journal_ok s' \<and> (\<forall>x. r = Inr x \<longrightarrow> j_headCursor (s_journal s') =
      \<lparr>jc_lastEventSeq = df_eventSeq f, jc_nextPtyOffset = offset_after f\<rparr>)"
    using cases
  proof
    assume "\<exists>j1. journal_append (s_journal s) now bs = Inr j1 \<and> s' = s\<lparr>s_world := w, s_journal := j1\<rparr>"
    then obtain j1 where j1: "journal_append (s_journal s) now bs = Inr j1"
      "s' = s\<lparr>s_world := w, s_journal := j1\<rparr>" by blast
    from append_rep [OF log(1) j1(1)] dec have rep: "journal_rep (log @ [entry_of f bs]) j1" by auto
    have "valid_log (log @ [entry_of f bs])"
      using log(2) dec wf by (simp add: valid_log_def entry_of_def)
    with rep append_head [OF j1(1) dec] ep j1(2) show ?thesis
      unfolding journal_ok_def by (auto intro: exI [of _ "log @ [entry_of f bs]"])
  next
    assume "s' = s\<lparr>s_world := w\<rparr> \<and> (\<exists>e. r = Inl e)"
    with ok show ?thesis by (auto simp: journal_ok_def)
  qed
  then show "journal_ok s'" "r = Inr x \<Longrightarrow> j_headCursor (s_journal s') =
      \<lparr>jc_lastEventSeq = df_eventSeq f, jc_nextPtyOffset = offset_after f\<rparr>" by auto
qed

text \<open>Publishing is journalling followed by deliveries that cannot touch the journal.\<close>

lemma publish_step:
  assumes ok: "journal_ok s" and enc: "encodeDataFrame f = Inr bs" and wf: "well_formed_mutation f"
    and ep: "df_sessionEpoch f = s_sessionEpoch s" and p: "publish env bs s = (s', r)"
  shows "journal_ok s'" "s_eventSeq s' = s_eventSeq s" "s_nextPtyOffset s' = s_nextPtyOffset s"
    "r = Inr x \<Longrightarrow> j_headCursor (s_journal s') =
      \<lparr>jc_lastEventSeq = df_eventSeq f, jc_nextPtyOffset = offset_after f\<rparr>"
proof -
  obtain s1 r1 where j: "journalFrame env bs s = (s1, r1)" by fastforce
  note st = journalFrame_step [OF ok enc wf ep j]
  have view: "journal_view s' = journal_view s1 \<and> (\<forall>x. r = Inr x \<longrightarrow> (\<exists>y. r1 = Inr y))"
  proof (cases r1)
    case (Inr y)
    have "keeps journal_view (deliver env bs i)" for i
      by (simp add: keeps_def deliver_def journal_view_def split: prod.split)
    then have k: "keeps journal_view (readS (\<lambda>s. forS (deliver env bs) (s_subscribers s)))"
      by (intro keeps_intro)
    from p j Inr have "readS (\<lambda>s. forS (deliver env bs) (s_subscribers s)) s1 = (s', r)"
      by (simp add: publish_def bindS_def)
    from keeps_result [OF k this] Inr show ?thesis by simp
  qed (use p j in \<open>auto simp: publish_def bindS_def\<close>)
  then show "journal_ok s'" "s_eventSeq s' = s_eventSeq s" "s_nextPtyOffset s' = s_nextPtyOffset s"
    using st(1-3) ok_view(1) [of s' s1] by (auto simp: journal_view_def)
  show "r = Inr x \<Longrightarrow> j_headCursor (s_journal s') =
      \<lparr>jc_lastEventSeq = df_eventSeq f, jc_nextPtyOffset = offset_after f\<rparr>"
    using view st(4) by (auto simp: journal_view_def)
qed

section \<open>The handlers advance the journal\<close>

lemma encode_valid:
  "encodeDataFrame (canonical_frame s PtyOutput d) = Inr bs \<Longrightarrow> well_formed_mutation (canonical_frame s PtyOutput d)"
  "encodeResizePayload dims = Inr d \<Longrightarrow> well_formed_mutation (canonical_frame s ResizeApplied d)"
  using resize.dec_enc by (auto simp: well_formed_mutation_def canonical_frame_def)

text \<open>
  The part of a handler after the outside has accepted the mutation: number it, encode it, move the
  byte offset by what the frame carries, publish it.
\<close>

definition emit :: "'w session_env \<Rightarrow> DataFrameKind \<Rightarrow> bytes \<Rightarrow> ('w session, SessionError, unit) se" where
  "emit env kind payload =
     bindS (modifyS (\<lambda>s. s\<lparr>s_eventSeq := s_eventSeq s + 1\<rparr>)) (\<lambda>_. readS (\<lambda>s.
       bindS (lift_protocol (encodeDataFrame (canonical_frame s kind payload))) (\<lambda>frame.
       bindS (modifyS (\<lambda>s. s\<lparr>s_nextPtyOffset := s_nextPtyOffset s +
         (if kind = PtyOutput then int (length payload) else 0)\<rparr>)) (\<lambda>_. publish env frame))))"

lemma emit_advances:
  fixes env :: "'w session_env"
  assumes valid: "\<And>s :: 'w session. well_formed_mutation (canonical_frame s kind payload)"
  shows "advances (emit env kind payload)"
  unfolding advances_def
proof (intro allI impI conjI)
  fix s :: "'w session" assume ok: "journal_ok s"
  let ?s1 = "s\<lparr>s_eventSeq := s_eventSeq s + 1\<rparr>"
  let ?f = "canonical_frame ?s1 kind payload"
  let ?s2 = "?s1\<lparr>s_nextPtyOffset := s_nextPtyOffset s + (if kind = PtyOutput then int (length payload) else 0)\<rparr>"
  obtain s' r where e: "emit env kind payload s = (s', r)" by fastforce
  have ok1: "journal_ok ?s1" "journal_ok ?s2" using ok by (simp_all add: journal_ok_def)
  have "journal_ok s' \<and> (\<forall>x. r = Inr x \<longrightarrow> at_head s')"
  proof (cases "encodeDataFrame ?f")
    case (Inl x)
    with e have "s' = ?s1" "\<exists>y. r = Inl y"
      by (auto simp: emit_def bindS_def modifyS_def readS_def lift_protocol_def)
    with ok1 show ?thesis by auto
  next
    case (Inr bs)
    with e have p: "publish env bs ?s2 = (s', r)"
      by (simp add: emit_def bindS_def modifyS_def readS_def lift_protocol_def)
    have "df_sessionEpoch ?f = s_sessionEpoch ?s2" by (simp add: canonical_frame_def)
    note st = publish_step [OF ok1(2) Inr valid this p]
    have off: "offset_after ?f = s_nextPtyOffset ?s2" "df_eventSeq ?f = s_eventSeq ?s2"
      by (simp_all add: offset_after_def canonical_frame_def payload_length_def)
    have "at_head s'" if "r = Inr x" for x
      using st(4) [OF that] st(2,3) unfolding at_head_def off by simp
    with st(1) show ?thesis by blast
  qed
  then show "journal_ok (fst (emit env kind payload s))"
    "case snd (emit env kind payload s) of Inl _ \<Rightarrow> True | Inr _ \<Rightarrow> at_head (fst (emit env kind payload s))"
    by (auto simp: e split: sum.split)
qed

lemma bindS_assoc: "bindS (bindS m k) h = bindS m (\<lambda>x. bindS (k x) h)"
  by (rule ext) (simp add: bindS_def split: prod.split sum.split)

lemma lift_Inr: "bindS (lift_protocol (Inr x)) k = k x"
  by (rule ext) (simp add: bindS_def lift_protocol_def)

lemma readS_bind: "bindS (readS k) h = readS (\<lambda>s. bindS (k s) h)"
  by (rule ext) (simp add: readS_def bindS_def)

lemma commitPtyChunk_emit:
  "commitPtyChunk env chunk = bindS (call (env_applyOutput env chunk)) (\<lambda>replies.
     bindS (emit env PtyOutput chunk) (\<lambda>_. forS (writePty env) replies))"
  by (simp add: commitPtyChunk_def emit_def bindS_assoc readS_bind)

lemma modify_nothing: "bindS (modifyS (\<lambda>s. s)) (\<lambda>_. m) = m"
  by (rule ext) (simp add: bindS_def modifyS_def)

lemma commitResize_emit:
  "commitResize env dims = bindS (lift_protocol (encodeResizePayload dims)) (\<lambda>payload.
     bindS (call (env_resize env dims)) (\<lambda>replies. bindS (call (env_ptyResize env dims)) (\<lambda>_.
       bindS (emit env ResizeApplied payload) (\<lambda>_. forS (writePty env) replies))))"
  by (simp add: commitResize_def emit_def bindS_assoc readS_bind modify_nothing)

lemma call_advances: "advances (call f)" "advances (writePty env d)" "advances (lift_protocol r)"
  by (intro advances_keeps keeps_intro journal_view_frames)+

lemma commitPtyOutput_advances: "advances (commitPtyOutput env d)"
  unfolding commitPtyOutput_def commitPtyChunk_emit
  by (intro advances_for advances_bind call_advances emit_advances)
    (simp add: well_formed_mutation_def canonical_frame_def)

lemma commitResize_advances: "advances (commitResize env dims)"
proof (cases "encodeResizePayload dims")
  case (Inl e)
  have "commitResize env dims = lift_protocol (Inl e)"
    by (rule ext) (simp add: commitResize_def Inl bindS_def lift_protocol_def)
  then show ?thesis by (simp add: call_advances)
next
  case (Inr d)
  have "commitResize env dims = bindS (call (env_resize env dims)) (\<lambda>replies.
      bindS (call (env_ptyResize env dims)) (\<lambda>_.
        bindS (emit env ResizeApplied d) (\<lambda>_. forS (writePty env) replies)))"
    by (simp add: commitResize_emit Inr lift_Inr)
  then show ?thesis
    by (simp only:) (intro advances_bind advances_for call_advances emit_advances encode_valid(2) [OF Inr])
qed

lemma runCommit_advances: "advances (runCommit env c)"
  by (cases c) (auto simp: runCommit_def intro: advances_bind call_advances commitResize_advances)

section \<open>Lock step of the actor\<close>

lemma lockstep_view:
  assumes "journal_view s' = journal_view s" "s_failure s' = None \<and> \<not> s_disposed s' \<Longrightarrow> s_failure s = None \<and> \<not> s_disposed s"
  shows "lockstep s \<Longrightarrow> lockstep s'"
  using assms ok_view [of s' s] by (auto simp: lockstep_def)

text \<open>Which operations leave the closed flags alone.\<close>

definition flags :: "'w session \<Rightarrow> SessionError option \<times> bool" where
  "flags s = (s_failure s, s_disposed s)"

lemma flags_published: "not_published flags" "outside flags"
  by (simp_all add: not_published_def outside_def flags_def)

lemma advances_lockstep:
  assumes "advances m" "keeps flags m" "lockstep s" "m s = (s', r)"
  shows "journal_ok s'" "r = Inr x \<Longrightarrow> lockstep s'"
proof -
  have fl: "s_failure s' = s_failure s" "s_disposed s' = s_disposed s"
    using keeps_result [OF assms(2,4)] by (simp_all add: flags_def)
  note a = advancesD [OF assms(1,4)]
  show "journal_ok s'" using a(1) assms(3) by (simp add: lockstep_def)
  then show "lockstep s'" if "r = Inr x"
    using a(2) [OF _ _ that] assms(3) fl by (auto simp: lockstep_def)
qed

lemma fail_lockstep: "journal_ok s \<Longrightarrow> lockstep (fail env e s)"
  using ok_view(1) [OF fail_keeps [OF journal_view_frames(2), of env e s]] fail_closes [of env e s]
  by (auto simp: lockstep_def)

lemma rememberInput_view: "journal_view (rememberInput n r s) = journal_view s"
  "s_failure (rememberInput n r s) = s_failure s" "s_disposed (rememberInput n r s) = s_disposed s"
  by (simp_all add: journal_view_def rememberInput_def Let_def)

lemma commitSubmittedInput_lockstep:
  assumes ls: "lockstep s" and step: "commitSubmittedInput env ident c s = (s', ack)"
  shows "lockstep s'"
proof -
  define s1 where "s1 = adoptFence (si_writerFence ident) s"
  have ls1: "lockstep s1" using ls
    by (rule lockstep_view [rotated 2]) (auto simp: s1_def adoptFence_def journal_view_def split: if_splits)
  obtain s2 v where v: "runValidate env c s1 = (s2, v)" by fastforce
  have ls2: "lockstep s2"
    using ls1 keeps_result [OF runValidate_keeps [OF journal_view_frames(1)] v]
      keeps_result [OF runValidate_keeps [OF flags_published(2)] v]
    by (intro lockstep_view [of s2 s1]) (auto simp: flags_def)
  define s4 where "s4 = (startWriter ident s2)\<lparr>s_commits :=
    s_commits (startWriter ident s2) @ [(si_writerFence ident, si_clientInputSeq ident)]\<rparr>"
  have ls4: "lockstep s4" using ls2
    by (rule lockstep_view [rotated 2]) (auto simp: s4_def startWriter_def journal_view_def split: if_splits)
  obtain s5 r where r: "runCommit env c s4 = (s5, r)" by fastforce
  note ls5 = advances_lockstep [OF runCommit_advances runCommit_keeps [OF flags_published(1)] ls4 r]
  have ok6: "journal_ok (rememberInput n w s5)" for n w
    using ls5(1) ok_view(1) [OF rememberInput_view(1)] by blast
  have ls6: "lockstep (rememberInput n w s5)" if "r = Inr x" for n w x
    using ls5(2) [OF that] by (rule lockstep_view [rotated 2]) (simp_all add: rememberInput_view)
  show ?thesis
    using step ls ls1 ls2 fail_lockstep [OF ok6] ls6 v r
    unfolding commitSubmittedInput_def Let_def s1_def [symmetric]
    by (auto simp: s4_def [symmetric] split: if_splits option.splits sum.splits)
qed

lemma process_snapshot_lockstep:
  assumes "lockstep s" "process_snapshot env fence s = (s', r)"
  shows "journal_ok s'" "r = Inr x \<Longrightarrow> lockstep s'"
proof -
  have v: "journal_view s' = journal_view s"
    using process_snapshot_keeps [OF journal_view_frames(2), of env fence s] assms(2) by simp
  let ?m = "bindS (captureSnapshot env) (\<lambda>snap. bindS (if fence then call (env_snapshotFence env snap) else returnS ())
    (\<lambda>_. modifyS (\<lambda>s. s\<lparr>s_replies := s_replies s @ [SnapshotReply snap]\<rparr>)))"
  have "keeps flags ?m"
    by (intro keeps_intro captureSnapshot_keeps flags_published keeps_modify) (simp add: flags_def)
  then have "flags (fst (?m s)) = flags s" by (rule keepsD)
  moreover have "flags s' = flags (fst (?m s))"
    using assms(2) by (auto simp: process_snapshot_def flags_def split: prod.splits sum.splits)
  ultimately have f: "s_failure s' = s_failure s" "s_disposed s' = s_disposed s" by (simp_all add: flags_def)
  show "journal_ok s'" using ok_view(1) [OF v] assms(1) by (simp add: lockstep_def)
  show "lockstep s'" by (rule lockstep_view [OF v _ assms(1)]) (simp add: f)
qed

lemma process_message_lockstep:
  assumes ls: "lockstep s" and step: "process_message env m s = (s', r)"
  shows "journal_ok s' \<and> (\<forall>x. r = Inr x \<longrightarrow> lockstep s')"
proof (cases m)
  case (SubmittedInputMsg ident c)
  obtain s1 ack where c: "commitSubmittedInput env ident c s = (s1, ack)" by fastforce
  with SubmittedInputMsg step have s': "s' = s1\<lparr>s_replies := s_replies s1 @ [AckReply ack]\<rparr>"
    by (auto simp: process_message_def)
  have "lockstep s'" using commitSubmittedInput_lockstep [OF ls c]
    by (rule lockstep_view [rotated 2]) (simp_all add: s' journal_view_def)
  then show ?thesis by (simp add: lockstep_def)
next
  case (SnapshotMsg fence)
  with step process_snapshot_lockstep [OF ls] show ?thesis by (auto simp: process_message_def)
next
  case (PtyOutputMsg d)
  with step advances_lockstep [OF commitPtyOutput_advances commitPtyOutput_keeps [OF flags_published(1)] ls]
  show ?thesis by (simp add: process_message_def) blast
next
  case (ResizeMsg d)
  with step advances_lockstep [OF commitResize_advances commitResize_keeps [OF flags_published(1)] ls]
  show ?thesis by (simp add: process_message_def) blast
next
  case (RawInputMsg d)
  with step advances_lockstep [OF call_advances(2) writePty_keeps [OF flags_published(2)] ls]
  show ?thesis by (simp add: process_message_def) blast
next
  case (KeyMsg k)
  have k: "keeps flags (bindS (call (env_encodeKey env k)) (writePty env))"
    by (intro keeps_intro flags_published)
  have a: "advances (bindS (call (env_encodeKey env k)) (writePty env))"
    by (intro advances_bind call_advances)
  from KeyMsg step advances_lockstep [OF a k ls] show ?thesis by (simp add: process_message_def)
next
  case (PasteMsg d)
  have k: "keeps flags (bindS (call (env_encodePaste env d)) (writePty env))"
    by (intro keeps_intro flags_published)
  have a: "advances (bindS (call (env_encodePaste env d)) (writePty env))"
    by (intro advances_bind call_advances)
  from PasteMsg step advances_lockstep [OF a k ls] show ?thesis by (simp add: process_message_def)
qed

lemma lockstep_pass: "pass_ok env lockstep"
  unfolding pass_ok_def
proof (intro allI impI)
  fix s m rest s' r
  assume ls: "lockstep s" and p: "process_message env m (s\<lparr>s_queue := rest\<rparr>) = (s', r)"
  from ls have "lockstep (s\<lparr>s_queue := rest\<rparr>)" by (rule lockstep_view [rotated 2]) (simp_all add: journal_view_def)
  from process_message_lockstep [OF this p]
  show "case r of Inl e \<Rightarrow> lockstep (fail env e s') | Inr _ \<Rightarrow> lockstep s'"
    using fail_lockstep [of s' env] by (auto split: sum.split)
qed

lemma dispose_lockstep: "lockstep s \<Longrightarrow> lockstep (dispose env s)"
proof (cases "s_disposed s")
  case False
  assume "lockstep s"
  with False ok_view(1) [OF dispose_keeps [OF journal_view_frames(2), of env s]] dispose_closed [of s env]
  show ?thesis by (simp add: lockstep_def)
qed (simp add: dispose_def)

lemma maintain_fields: "j_headCursor (maintain j now) = j_headCursor j" "j_sessionEpoch (maintain j now) = j_sessionEpoch j"
  by (simp_all add: maintain_def)

lemma lockstep_maintain: "lockstep s \<Longrightarrow> lockstep (s\<lparr>s_journal := maintain (s_journal s) now\<rparr>)"
  unfolding lockstep_def journal_ok_def at_head_def
  by (auto simp: maintain_fields intro: maintain_rep)

lemma session_op_lockstep:
  assumes "session_op env e s = Some (s', t)" "lockstep s"
  shows "lockstep s'"
proof (rule session_op_preserves [OF lockstep_pass _ _ _ assms])
  show "push_ok lockstep"
    unfolding push_ok_def by (auto intro: lockstep_view [rotated 2] simp: journal_view_def)
  fix s :: "'a session" and w b x r assume ls: "lockstep s"
  have "lockstep (s\<lparr>s_world := w, s_subscribers := b, s_replies := r\<rparr>)" "lockstep (s\<lparr>s_ptyExited := True\<rparr>)"
    "lockstep (resolveExit x (s\<lparr>s_ptyExited := True\<rparr>))"
    using ls by (auto intro!: lockstep_view [OF _ _ ls] simp: journal_view_def resolveExit_def split: if_splits)
  with dispose_lockstep [OF ls]
  show "lockstep (s\<lparr>s_world := w, s_subscribers := b, s_replies := r\<rparr>) \<and> lockstep (s\<lparr>s_ptyExited := True\<rparr>) \<and>
      lockstep (resolveExit x (s\<lparr>s_ptyExited := True\<rparr>)) \<and> lockstep (dispose env s)" by blast
qed (rule lockstep_maintain)

lemma newEventJournal_zero:
  "newEventJournal a b c d = Inr j \<Longrightarrow> j_headCursor j = zero_cursor \<and> j_sessionEpoch j = None"
  by (auto simp: newEventJournal_def JOURNAL_DEFAULTS_def bindR_Inr_iff)

lemma session_reachable_lockstep: "session_reachable env s \<Longrightarrow> lockstep s"
proof (induction rule: session_reachable.induct)
  case (start a b c d j w epoch dedup s)
  from newEventJournal_rep [OF start(1)] have "\<exists>log. journal_rep log j \<and> valid_log log"
    by (auto simp: valid_log_def)
  with newEventJournal_zero [OF start(1)] start(2) show ?case
    by (auto simp: newSession_def Let_def lockstep_def journal_ok_def at_head_def zero_cursor_def split: if_splits)
next
  case (step s e s' thrown)
  then show ?case using session_op_lockstep by blast
qed


end
