(* ===== verification/Session_Safety.thy ===== *)
theory Session_Safety
  imports Session_Lockstep
begin

text \<open>
  The session actor fails closed, answers a retried input without acting again, and returns from every
  operation when the outside does not feed it PTY data synchronously for ever.
\<close>

section \<open>A closed session has an empty queue\<close>

definition closed_empty :: "'w session \<Rightarrow> bool" where
  "closed_empty s \<longleftrightarrow> (s_failure s \<noteq> None \<or> s_disposed s \<longrightarrow> s_queue s = [])"

lemma flags_open: "flags s' = flags s \<Longrightarrow> s_failure s = None \<Longrightarrow> \<not> s_disposed s \<Longrightarrow>
    s_failure s' = None \<and> \<not> s_disposed s'"
  by (simp add: flags_def)

lemma commitSubmittedInput_closed_empty:
  assumes open_s: "s_failure s = None" "\<not> s_disposed s"
    and step: "commitSubmittedInput env ident c s = (s', ack)"
  shows "closed_empty s'"
proof -
  define s1 where "s1 = adoptFence (si_writerFence ident) s"
  have f1: "flags s1 = flags s" by (simp add: s1_def adoptFence_def flags_def)
  obtain s2 v where v: "runValidate env c s1 = (s2, v)" by fastforce
  have f2: "flags s2 = flags s" using keeps_result [OF runValidate_keeps [OF flags_published(2)] v] f1 by simp
  define s4 where "s4 = (startWriter ident s2)\<lparr>s_commits :=
    s_commits (startWriter ident s2) @ [(si_writerFence ident, si_clientInputSeq ident)]\<rparr>"
  have f4: "flags s4 = flags s" using f2 by (simp add: s4_def startWriter_def flags_def)
  obtain s5 r where r: "runCommit env c s4 = (s5, r)" by fastforce
  have f5: "flags s5 = flags s" using keeps_result [OF runCommit_keeps [OF flags_published(1)] r] f4 by simp
  have f6: "flags (rememberInput n q s5) = flags s" for n q
    using f5 by (simp add: flags_def rememberInput_def Let_def)
  have ce: "closed_empty t" if "flags t = flags s" for t
    using flags_open [OF that open_s] by (simp add: closed_empty_def)
  have fl: "closed_empty (fail env e (rememberInput n q s5))" for e n q
    using flags_open [OF f6 open_s] by (simp add: closed_empty_def fail_closed(1))
  show ?thesis
    using step ce [OF f1] ce [OF f2] ce [OF f6] ce [of s] fl v r
    unfolding commitSubmittedInput_def Let_def s1_def [symmetric]
    by (auto simp: s4_def [symmetric] split: if_splits option.splits sum.splits)
qed

text \<open>Every other message leaves the flags alone.\<close>

lemma process_message_flags:
  assumes "process_message env m s = (s', r)" "\<forall>ident c. m \<noteq> SubmittedInputMsg ident c"
  shows "flags s' = flags s"
proof (cases m)
  case (SnapshotMsg fence)
  let ?m = "bindS (captureSnapshot env) (\<lambda>snap. bindS (if fence then call (env_snapshotFence env snap) else returnS ())
    (\<lambda>_. modifyS (\<lambda>s. s\<lparr>s_replies := s_replies s @ [SnapshotReply snap]\<rparr>)))"
  have "keeps flags ?m"
    by (intro keeps_intro captureSnapshot_keeps flags_published keeps_modify) (simp add: flags_def)
  then have "flags (fst (?m s)) = flags s" by (rule keepsD)
  with SnapshotMsg assms(1) show ?thesis
    by (auto simp: process_message_def process_snapshot_def flags_def split: prod.splits sum.splits)
next
  case (PtyOutputMsg d)
  with assms keeps_result [OF commitPtyOutput_keeps [OF flags_published(1)]] show ?thesis
    by (auto simp: process_message_def)
next
  case (ResizeMsg d)
  with assms keeps_result [OF commitResize_keeps [OF flags_published(1)]] show ?thesis
    by (auto simp: process_message_def)
next
  case (RawInputMsg d)
  with assms keeps_result [OF writePty_keeps [OF flags_published(2)]] show ?thesis
    by (auto simp: process_message_def)
next
  case (KeyMsg k)
  have "keeps flags (bindS (call (env_encodeKey env k)) (writePty env))"
    by (intro keeps_intro flags_published)
  with KeyMsg assms keeps_result show ?thesis by (auto simp: process_message_def)
next
  case (PasteMsg d)
  have "keeps flags (bindS (call (env_encodePaste env d)) (writePty env))"
    by (intro keeps_intro flags_published)
  with PasteMsg assms keeps_result show ?thesis by (auto simp: process_message_def)
qed (use assms in simp)

lemma closed_empty_pass: "pass_ok env closed_empty"
  unfolding pass_ok_def
proof (intro allI impI)
  fix s m rest s' r
  assume P: "closed_empty s" "s_queue s = m # rest" and p: "process_message env m (s\<lparr>s_queue := rest\<rparr>) = (s', r)"
  let ?s = "s\<lparr>s_queue := rest\<rparr>"
  have o: "s_failure ?s = None" "\<not> s_disposed ?s" using P by (auto simp: closed_empty_def)
  show "case r of Inl e \<Rightarrow> closed_empty (fail env e s') | Inr _ \<Rightarrow> closed_empty s'"
  proof (cases "\<exists>ident c. m = SubmittedInputMsg ident c")
    case True
    then obtain ident c where m: "m = SubmittedInputMsg ident c" by blast
    obtain s1 ack where c: "commitSubmittedInput env ident c ?s = (s1, ack)" by fastforce
    from commitSubmittedInput_closed_empty [OF o c] p m c show ?thesis
      by (auto simp: process_message_def closed_empty_def)
  next
    case False
    with p have "flags s' = flags ?s" by (intro process_message_flags) auto
    from flags_open [OF this o] fail_closed(1) show ?thesis
      by (auto simp: closed_empty_def split: sum.split)
  qed
qed

lemma session_op_closed_empty:
  assumes "session_op env e s = Some (s', t)" "closed_empty s"
  shows "closed_empty s'"
proof (rule session_op_preserves [OF closed_empty_pass _ _ _ assms])
  fix s :: "'a session" and w b x r assume ce: "closed_empty s"
  have "closed_empty (dispose env s)"
    using ce dispose_closed [of s env] by (cases "s_disposed s") (simp_all add: closed_empty_def dispose_def)
  with ce show "closed_empty (s\<lparr>s_world := w, s_subscribers := b, s_replies := r\<rparr>) \<and>
      closed_empty (s\<lparr>s_ptyExited := True\<rparr>) \<and> closed_empty (resolveExit x (s\<lparr>s_ptyExited := True\<rparr>)) \<and>
      closed_empty (dispose env s)"
    by (simp add: closed_empty_def resolveExit_def)
qed (simp_all add: push_ok_def closed_empty_def)

lemma session_reachable_closed_empty: "session_reachable env s \<Longrightarrow> closed_empty s"
proof (induction rule: session_reachable.induct)
  case (start a b c d j w epoch dedup s)
  then show ?case by (auto simp: newSession_def Let_def closed_empty_def split: if_splits)
qed (rule session_op_closed_empty)

text \<open>What a closed session may still change: its flags, subscribers, replies, exit and world.\<close>

definition session_core :: "'w session \<Rightarrow> int \<times> int \<times> (int \<times> int) list \<times> int" where
  "session_core s = (s_eventSeq s, s_nextPtyOffset s, s_commits s, s_inputFence s)"

lemma core_frames: "not_closed session_core"
  by (simp add: not_closed_def outside_def session_core_def)

lemma deliver_replay_core:
  "deliver_replay env i fs s = (s', ok) \<Longrightarrow> session_core s' = session_core s \<and> s_queue s' = s_queue s"
  by (induction fs arbitrary: s) (auto simp: session_core_def split: prod.splits if_splits)

text \<open>
  C37. The actor fails closed: once a session has failed or been disposed, its queue is empty and no
  operation commits an input, applies a mutation or moves its cursor or fence any more; a submitted
  input is answered as rejected.
\<close>

theorem session_fails_closed:
  assumes "session_reachable env s" and "s_failure s \<noteq> None \<or> s_disposed s"
    and "session_op env e s = Some (s', t)"
  shows "s_queue s' = [] \<and> s_eventSeq s' = s_eventSeq s \<and> s_nextPtyOffset s' = s_nextPtyOffset s \<and>
    s_commits s' = s_commits s \<and> s_inputFence s' = s_inputFence s \<and>
    (\<forall>ident c. e = SubmitInput ident c \<longrightarrow>
      s_replies s' = s_replies s @ [AckReply (inputAck s ident rejected)])"
proof -
  have q: "s_queue s = []"
    using session_reachable_closed_empty [OF assms(1)] assms(2) unfolding closed_empty_def by blast
  have e1: "s' = s" if "enqueue env m s = Some (s', t)" for m
    using that assms(2) by (auto simp: enqueue_def split: if_splits)
  have core: "session_core s' = session_core s \<and> s_queue s' = []"
  proof (cases e)
    case (Subscribe i cursor)
    with assms(3) have "subscribe env i cursor s = (s', t)" by simp
    with q show ?thesis
      by (auto simp: subscribe_def replayFromSession_def session_core_def
          split: option.splits if_splits prod.splits JournalReplay.splits bool.splits
          dest!: deliver_replay_core)
  next
    case (ReplayThroughOp b c)
    with assms(3) q show ?thesis
      by (auto simp: replayThroughSession_def session_core_def split: if_splits prod.splits)
  next
    case DisposeOp
    with assms(3) have s': "s' = dispose env s" by simp
    have "s_queue s' = []" using s' q dispose_closed [of s env] by (cases "s_disposed s") (auto simp: dispose_def)
    with dispose_keeps [OF core_frames] s' show ?thesis by metis
  next
    case (WriteRawInput d)
    with assms(2,3) q show ?thesis
      by (auto simp: guarded_def assertPtyWritable_def split: option.splits if_splits)
  next
    case (SubmitInput ident c)
    with assms(2,3) q show ?thesis by (auto simp: submitInput_def session_core_def split: if_splits)
  qed (use assms(2,3) q e1 in \<open>auto simp: guarded_def assertPtyWritable_def session_core_def split: if_splits\<close>)
  moreover have "s_replies s' = s_replies s @ [AckReply (inputAck s ident rejected)]"
    if "e = SubmitInput ident c" for ident c
    using that assms(2,3) by (auto simp: submitInput_def split: if_splits)
  ultimately show ?thesis by (simp add: session_core_def)
qed

section \<open>A retried input\<close>

definition exited_view :: "'w session \<Rightarrow> bool \<times> SessionError option" where
  "exited_view s = (s_ptyExited s, s_failure s)"

lemma exited_frames: "not_published exited_view" "outside exited_view"
  by (simp_all add: not_published_def outside_def exited_view_def)

lemma jm_get_last: "k \<notin> fst ` set m \<Longrightarrow> n \<le> length m \<Longrightarrow> jm_get (drop n (m @ [(k, v)])) k = Some v"
proof -
  assume k: "k \<notin> fst ` set m" and n: "n \<le> length m"
  have "k \<notin> fst ` set (drop n m)" using k by (auto dest: in_set_dropD)
  then have "jm_get (drop n m) k = None" by (simp add: jm_get_None_iff)
  with n show ?thesis by (simp add: map_add_def)
qed

lemma commit_refused:
  "s_ptyExited s \<or> s_failure s \<noteq> None \<or> si_writerFence ident \<le> 0 \<or> MAX_U64 < si_writerFence ident \<or>
   si_writerFence ident < s_inputFence s \<Longrightarrow>
   commitSubmittedInput env ident c s = (s, inputAck s ident rejected)"
  by (auto simp: commitSubmittedInput_def)

lemma commit_admitted:
  assumes "\<not> (s_ptyExited s \<or> s_failure s \<noteq> None)"
    "\<not> (si_writerFence ident \<le> 0 \<or> MAX_U64 < si_writerFence ident)" "\<not> si_writerFence ident < s_inputFence s"
  shows "commitSubmittedInput env ident c s =
    (let s1 = adoptFence (si_writerFence ident) s in
     case dedupVerdict s1 ident of Some status \<Rightarrow> (s1, inputAck s1 ident status)
     | None \<Rightarrow> (case runValidate env c s1 of (s2, Inl _) \<Rightarrow> (s2, inputAck s2 ident rejected)
       | (s2, Inr _) \<Rightarrow>
           let s3 = startWriter ident s2;
               s4 = s3\<lparr>s_commits := s_commits s3 @ [(si_writerFence ident, si_clientInputSeq ident)]\<rparr>
           in case runCommit env c s4 of
                (s5, Inr _) \<Rightarrow> let s6 = rememberInput (si_clientInputSeq ident) result_written s5
                  in (s6, inputAck s6 ident written)
              | (s5, Inl e) \<Rightarrow> let s6 = fail env e (rememberInput (si_clientInputSeq ident) result_uncertain s5)
                  in (s6, inputAck s6 ident uncertain)))"
  using assms unfolding commitSubmittedInput_def by (simp only: if_False)

text \<open>
  Retrying is safe: after an input was written, submitting the same identity again, with whatever
  payload, is answered as a duplicate and changes nothing, as long as no other event intervened.
\<close>

theorem session_retry_is_duplicate:
  assumes "session_reachable env s"
    and "commitSubmittedInput env ident c s = (s', ack)" and "ia_status ack = written"
  shows "\<exists>ack'. commitSubmittedInput env ident c' s' = (s', ack') \<and> ia_status ack' = duplicate \<and>
    ia_clientInputSeq ack' = si_clientInputSeq ident"
proof -
  let ?f = "si_writerFence ident" and ?n = "si_clientInputSeq ident"
  define s1 where "s1 = adoptFence ?f s"
  obtain s2 v where v: "runValidate env c s1 = (s2, v)" by fastforce
  define s4 where "s4 = (startWriter ident s2)\<lparr>s_commits := s_commits (startWriter ident s2) @ [(?f, ?n)]\<rparr>"
  obtain s5 r where r: "runCommit env c s4 = (s5, r)" by fastforce
  have rej: "(s', ack) \<noteq> (t, inputAck t ident q)" if "q \<noteq> written" for t q
    using assms(3) that by (auto simp: inputAck_def)
  have st: "\<not> (s_ptyExited s \<or> s_failure s \<noteq> None)" "\<not> (?f \<le> 0 \<or> MAX_U64 < ?f)" "\<not> ?f < s_inputFence s"
    using commit_refused [of s ident env c] rej [of rejected s] unfolding assms(2) by blast+
  have cs: "(case dedupVerdict s1 ident of Some q \<Rightarrow> (s1, inputAck s1 ident q) | None \<Rightarrow>
      (case v of Inl _ \<Rightarrow> (s2, inputAck s2 ident rejected) | Inr _ \<Rightarrow>
        (case r of Inr _ \<Rightarrow> (rememberInput ?n result_written s5, inputAck (rememberInput ?n result_written s5) ident written)
         | Inl e \<Rightarrow> (fail env e (rememberInput ?n result_uncertain s5),
             inputAck (fail env e (rememberInput ?n result_uncertain s5)) ident uncertain)))) = (s', ack)"
    using assms(2) unfolding commit_admitted [OF st] Let_def s1_def [symmetric] v prod.case
      s4_def [symmetric] r by (simp cong: option.case_cong sum.case_cong)
  have nw: "dedupVerdict s1 ident \<noteq> Some written"
    by (simp add: dedupVerdict_def split: option.split InputResult.split)
  have verdict: "dedupVerdict s1 ident = None"
  proof (cases "dedupVerdict s1 ident")
    case (Some q)
    with cs rej [of q s1] nw show ?thesis by auto
  qed
  have s': "s' = rememberInput ?n result_written s5"
    using cs rej [of rejected s2] rej [of uncertain] by (cases v; cases r) (auto simp: verdict)
  have inv1: "input_inv (input_view s1)" and fence1: "s_inputFence s1 = ?f"
    using adoptFence_inv [OF session_reachable_input [OF assms(1)]] st(3) by (auto simp: s1_def)
  have v2: "input_view s2 = input_view s1" "exited_view s2 = exited_view s1"
    using keeps_result [OF runValidate_keeps [OF input_view_frames(3)] v]
      keeps_result [OF runValidate_keeps [OF exited_frames(2)] v] by simp_all
  have v5: "input_view s5 = input_view s4" "exited_view s5 = exited_view s4"
    using keeps_result [OF runCommit_keeps [OF input_view_frames(1)] r]
      keeps_result [OF runCommit_keeps [OF exited_frames(1)] r] by simp_all
  have alive: "\<not> (s_ptyExited s' \<or> s_failure s' \<noteq> None)"
    using st(1) v2(2) v5(2)
    by (simp add: s' rememberInput_def Let_def exited_view_def s4_def startWriter_def s1_def adoptFence_def
        split: if_splits)
  have fence: "s_inputFence s' = ?f"
    using v2(1) v5(1) fence1 by (simp add: s' rememberInput_def Let_def input_view_def s4_def startWriter_def)
  have absent: "?n \<notin> fst ` set (s_inputResults s1)"
  proof (cases "s_inputWriter s1")
    case None
    then show ?thesis using inv1 by (fastforce simp: input_view_def)
  next
    case (Some w)
    with dedupVerdict_None(3) [OF verdict] show ?thesis by (simp add: jm_get_None_iff)
  qed
  have res5: "s_inputResults s5 = s_inputResults s1" "s_inputDedupEntries s5 = s_inputDedupEntries s1"
    using v2(1) v5(1) by (simp_all add: input_view_def s4_def startWriter_def split: if_splits)
  have get: "jm_get (s_inputResults s') ?n = Some result_written"
  proof -
    let ?m = "s_inputResults s1"
    have "0 < s_inputDedupEntries s1" using inv1 by (simp add: input_view_def)
    then have "1 \<le> nat (s_inputDedupEntries s1)" by linarith
    then have "length (jm_set ?n result_written ?m) - nat (s_inputDedupEntries s1) \<le> length ?m"
      unfolding jm_set_absent [OF absent] length_append by simp
    from jm_get_last [OF absent this] show ?thesis
      by (simp add: s' rememberInput_def Let_def res5 jm_set_absent [OF absent])
  qed
  have "\<exists>w. s_inputWriter s5 = Some w \<and> iw_clientId w = si_clientId ident \<and> iw_inputEpoch w = si_inputEpoch ident"
  proof (cases "s_inputWriter s1")
    case None
    with v2(1) v5(1) show ?thesis by (simp add: input_view_def s4_def startWriter_def)
  next
    case (Some w)
    with verdict have "iw_clientId w = si_clientId ident \<and> iw_inputEpoch w = si_inputEpoch ident"
      by (simp add: dedupVerdict_def split: if_splits)
    with Some v2(1) v5(1) show ?thesis by (simp add: input_view_def s4_def startWriter_def)
  qed
  then obtain w where w: "s_inputWriter s' = Some w" "iw_clientId w = si_clientId ident"
    "iw_inputEpoch w = si_inputEpoch ident"
    by (auto simp: s' rememberInput_def Let_def)
  have "\<not> identity_malformed ident" using verdict by (simp add: dedupVerdict_def split: if_splits)
  with w get have dup: "dedupVerdict s' ident = Some duplicate" by (simp add: dedupVerdict_def)
  have "adoptFence ?f s' = s'" using fence by (simp add: adoptFence_def)
  then have "commitSubmittedInput env ident c' s' = (s', inputAck s' ident duplicate)"
    using alive st(2) fence dup by (auto simp: commitSubmittedInput_def)
  then show ?thesis by (simp add: inputAck_def)
qed

section \<open>Operations return\<close>

text \<open>An environment that emits no PTY data from inside its own calls.\<close>

definition quiet_call :: "('w, 'a) env_call \<Rightarrow> bool" where
  "quiet_call f \<longleftrightarrow> (\<forall>w. fst (snd (f w)) = [])"

definition quiet :: "'w session_env \<Rightarrow> bool" where
  "quiet env \<longleftrightarrow> (\<forall>d. quiet_call (env_applyOutput env d)) \<and> (\<forall>d. quiet_call (env_resize env d)) \<and>
     quiet_call (env_encodeSnapshot env) \<and> (\<forall>k. quiet_call (env_encodeKey env k)) \<and>
     (\<forall>d. quiet_call (env_encodePaste env d)) \<and> (\<forall>b. quiet_call (env_encodeFocus env b)) \<and>
     (\<forall>m. quiet_call (env_validateMouse env m)) \<and> (\<forall>m. quiet_call (env_encodeMouse env m)) \<and>
     quiet_call (env_disposeAuthority env) \<and> (\<forall>d. quiet_call (env_ptyWrite env d)) \<and>
     (\<forall>d. quiet_call (env_ptyResize env d)) \<and> quiet_call (env_ptyKill env) \<and>
     (\<forall>sn. quiet_call (env_snapshotFence env sn))"

lemma quiet_call_keeps [keeps_intro]:
  fixes f :: "('w, 'a) env_call"
  shows "quiet_call f \<Longrightarrow> keeps s_queue (call f)"
  unfolding keeps_def
proof
  fix s :: "'w session" assume q: "quiet_call f"
  obtain r w where "f (s_world s) = (r, [], w)"
    using q unfolding quiet_call_def by (metis prod.collapse)
  then show "s_queue (fst (call f s)) = s_queue s" by (simp add: call_def receive_def)
qed

lemma queue_write: "quiet env \<Longrightarrow> keeps s_queue (writePty env d)"
  by (auto simp: writePty_def quiet_def intro: keeps_intro)

lemma queue_clock: "keeps s_queue (clock f)"
  by (simp add: keeps_def clock_def split: prod.split)

lemma queue_publish: "keeps s_queue (publish env frame)"
proof -
  have "keeps s_queue (\<lambda>s. case journal_append (s_journal s) now frame of
      Inl e \<Rightarrow> (s, Inl (SessionJournal e)) | Inr j \<Rightarrow> (s\<lparr>s_journal := j\<rparr>, Inr ()))" for now
    by (simp add: keeps_def split: sum.split)
  then have "keeps s_queue (journalFrame env frame)"
    unfolding journalFrame_def by (intro keeps_intro queue_clock)
  moreover have "keeps s_queue (deliver env frame i)" for i
    by (simp add: keeps_def deliver_def split: prod.split)
  ultimately show ?thesis unfolding publish_def by (intro keeps_intro)
qed

lemma queue_modify: "keeps s_queue (modifyS (\<lambda>s. s\<lparr>s_eventSeq := F s\<rparr>))"
  "keeps s_queue (modifyS (\<lambda>s. s\<lparr>s_nextPtyOffset := G s\<rparr>))"
  "keeps s_queue (modifyS (\<lambda>s. s\<lparr>s_replies := R s\<rparr>))"
  by (simp_all add: keeps_def modifyS_def)

lemma queue_commitPtyOutput: "quiet env \<Longrightarrow> keeps s_queue (commitPtyOutput env d)"
  unfolding commitPtyOutput_def commitPtyChunk_def
  by (intro keeps_intro queue_modify queue_publish queue_write) (simp_all add: quiet_def)

lemma queue_commitResize: "quiet env \<Longrightarrow> keeps s_queue (commitResize env d)"
  unfolding commitResize_def
  by (intro keeps_intro queue_modify queue_publish queue_write) (simp_all add: quiet_def)

lemma queue_runCommit: "quiet env \<Longrightarrow> keeps s_queue (runCommit env c)"
  unfolding runCommit_def
  by (cases c; simp add: queue_write queue_commitResize; intro keeps_intro queue_write; simp add: quiet_def)

lemma queue_runValidate: "quiet env \<Longrightarrow> keeps s_queue (runValidate env c)"
  unfolding runValidate_def
  by (cases c) (auto simp: quiet_def intro: keeps_intro)

lemma queue_fail: "length (s_queue (fail env e s)) \<le> length (s_queue s)"
proof (cases "s_failure s \<noteq> None \<or> s_disposed s")
  case True
  then show ?thesis by (auto simp: fail_def)
qed (simp add: fail_closed)

lemma queue_commitSubmittedInput:
  assumes q: "quiet env" and step: "commitSubmittedInput env ident c s = (s', ack)"
  shows "length (s_queue s') \<le> length (s_queue s)"
proof -
  define s1 where "s1 = adoptFence (si_writerFence ident) s"
  have q1: "s_queue s1 = s_queue s" by (simp add: s1_def adoptFence_def)
  obtain s2 v where v: "runValidate env c s1 = (s2, v)" by fastforce
  have q2: "s_queue s2 = s_queue s" using keeps_result [OF queue_runValidate [OF q] v] q1 by simp
  define s4 where "s4 = (startWriter ident s2)\<lparr>s_commits :=
    s_commits (startWriter ident s2) @ [(si_writerFence ident, si_clientInputSeq ident)]\<rparr>"
  have q4: "s_queue s4 = s_queue s" using q2 by (simp add: s4_def startWriter_def)
  obtain s5 r where r: "runCommit env c s4 = (s5, r)" by fastforce
  have "s_queue s5 = s_queue s" using keeps_result [OF queue_runCommit [OF q] r] q4 by simp
  then have q6: "s_queue (rememberInput n w s5) = s_queue s" for n w
    by (simp add: rememberInput_def Let_def)
  have qf: "length (s_queue (fail env e (rememberInput n w s5))) \<le> length (s_queue s)" for e n w
    using queue_fail [of env e "rememberInput n w s5"] q6 by simp
  show ?thesis
    using step q1 q2 q6 qf v r unfolding commitSubmittedInput_def Let_def s1_def [symmetric]
    by (auto simp: s4_def [symmetric] split: if_splits option.splits sum.splits)
qed

lemma queue_process_message:
  assumes q: "quiet env" and step: "process_message env m s = (s', r)"
  shows "length (s_queue s') \<le> length (s_queue s)"
proof (cases m)
  case (SubmittedInputMsg ident c)
  obtain s1 ack where c: "commitSubmittedInput env ident c s = (s1, ack)" by fastforce
  with queue_commitSubmittedInput [OF q c] SubmittedInputMsg step show ?thesis
    by (auto simp: process_message_def)
next
  case (SnapshotMsg fence)
  let ?m = "bindS (captureSnapshot env) (\<lambda>snap. bindS (if fence then call (env_snapshotFence env snap) else returnS ())
    (\<lambda>_. modifyS (\<lambda>s. s\<lparr>s_replies := s_replies s @ [SnapshotReply snap]\<rparr>)))"
  have "keeps s_queue ?m"
    using q unfolding captureSnapshot_def
    by (intro keeps_intro queue_clock queue_modify) (simp_all add: quiet_def)
  then have "s_queue (fst (?m s)) = s_queue s" by (rule keepsD)
  with SnapshotMsg step show ?thesis
    by (auto simp: process_message_def process_snapshot_def split: prod.splits sum.splits)
next
  case (PtyOutputMsg d)
  with step keeps_result [OF queue_commitPtyOutput [OF q]] show ?thesis by (auto simp: process_message_def)
next
  case (ResizeMsg d)
  with step keeps_result [OF queue_commitResize [OF q]] show ?thesis by (auto simp: process_message_def)
next
  case (RawInputMsg d)
  with step keeps_result [OF queue_write [OF q]] show ?thesis by (auto simp: process_message_def)
next
  case (KeyMsg k)
  have "keeps s_queue (bindS (call (env_encodeKey env k)) (writePty env))"
    using q by (intro keeps_intro queue_write) (simp_all add: quiet_def)
  with KeyMsg step keeps_result show ?thesis by (force simp: process_message_def)
next
  case (PasteMsg d)
  have "keeps s_queue (bindS (call (env_encodePaste env d)) (writePty env))"
    using q by (intro keeps_intro queue_write) (simp_all add: quiet_def)
  with PasteMsg step keeps_result show ?thesis by (force simp: process_message_def)
qed

lemma drainQueue_returns:
  assumes q: "quiet env"
  shows "\<exists>r. drainQueue env s = Some r"
proof (cases "s_disposed s \<or> s_failure s \<noteq> None")
  case False
  have "\<exists>t. while_option (\<lambda>(s, thrown). s_queue s \<noteq> [] \<and> thrown = None) (drain_pass env) (s, None) = Some t"
  proof (rule measure_while_option_Some [where P = "\<lambda>_. True" and f = "\<lambda>(s, _). length (s_queue s)"])
    fix st :: "'a session \<times> SessionError option"
    assume st: "case st of (s, thrown) \<Rightarrow> s_queue s \<noteq> [] \<and> thrown = None"
    obtain s0 where s0: "st = (s0, None)" using st by (cases st) auto
    with st obtain m rest where m: "s_queue s0 = m # rest" by (cases "s_queue s0") auto
    obtain s1 r where r: "process_message env m (s0\<lparr>s_queue := rest\<rparr>) = (s1, r)" by fastforce
    from queue_process_message [OF q r] queue_fail [of env _ s1]
    have "length (s_queue s1) < length (s_queue s0)" "length (s_queue (fail env e s1)) < length (s_queue s0)" for e
      using m by (auto simp: less_Suc_eq_le intro: order_trans)
    then show "True \<and> (case drain_pass env st of (s, _) \<Rightarrow> length (s_queue s)) <
        (case st of (s, _) \<Rightarrow> length (s_queue s))"
      by (simp add: s0 drain_pass_def m r split: sum.split)
  qed simp
  then show ?thesis using False by (simp add: drainQueue_def)
qed (simp add: drainQueue_def)

lemma enqueue_all_returns: "quiet env \<Longrightarrow> \<exists>r. enqueue_all env ms s = Some r"
proof (induction ms arbitrary: s)
  case (Cons m ms)
  have "\<exists>r. enqueue env m s = Some r"
    using drainQueue_returns [OF Cons.prems] by (auto simp: enqueue_def)
  then obtain s1 t1 where "enqueue env m s = Some (s1, t1)" by auto
  with Cons.IH [OF Cons.prems, of s1] show ?case by (cases t1) auto
qed simp

text \<open>
  C40. Every operation of the session returns: with an authority and a PTY that emit no data from
  inside the actor's own calls, the drain loop empties the queue after finitely many passes,
  whatever the state and whatever the calls answer or throw.
\<close>

theorem session_op_returns:
  assumes "quiet env"
  shows "\<exists>s' t. session_op env e s = Some (s', t)"
proof -
  have one: "\<exists>s' t. enqueue env m s = Some (s', t)" for m
    using drainQueue_returns [OF assms] by (auto simp: enqueue_def)
  have all: "\<exists>s' t. enqueue_all env ms s = Some (s', t)" for ms
    using enqueue_all_returns [OF assms, of ms s] by auto
  have g: "\<exists>s' t. guarded env ms s = Some (s', t)" for ms
    using all [of ms] by (simp add: guarded_def split: option.split)
  have sub: "\<exists>s' t. submitInput env ident c s = Some (s', t)" for ident c
    using one [of "SubmittedInputMsg ident c"] by (simp add: submitInput_def)
  have pty: "\<exists>s' t. session_op env (OnPtyData d) s = Some (s', t)" for d
    using all [of "map PtyOutputMsg (slices MAX_PTY_FRAME_BYTES d)"] by auto
  show ?thesis
  proof (cases e)
    case (OnPtyData d)
    with pty [of d] show ?thesis by simp
  next
    case (Subscribe i cursor)
    then show ?thesis by (cases "subscribe env i cursor s") simp
  qed (use g sub one in \<open>simp_all\<close>)
qed

end
