(* ===== verification/Session_Examples.thy ===== *)
theory Session_Examples
  imports Session_Safety
begin

text \<open>
  A concrete session: an authority that replies to nothing, a PTY that accepts everything, and the
  witnesses that apply the session's properties to it.
\<close>

definition example_env :: "unit session_env" where
  "example_env = \<lparr>env_now = (\<lambda>w. (5, w)), env_monotonicNow = (\<lambda>w. (5, w)), env_engineId = ''engine'',
     env_applyOutput = (\<lambda>d w. (Inr [], [], w)), env_resize = (\<lambda>d w. (Inr [], [], w)),
     env_encodeSnapshot = (\<lambda>w. (Inr [1], [], w)), env_encodeKey = (\<lambda>k w. (Inr [65], [], w)),
     env_encodePaste = (\<lambda>d w. (Inr [66], [], w)), env_encodeFocus = (\<lambda>b w. (Inr [67], [], w)),
     env_validateMouse = (\<lambda>m w. (Inr (), [], w)), env_encodeMouse = (\<lambda>m w. (Inr [68], [], w)),
     env_disposeAuthority = (\<lambda>w. (Inr (), [], w)), env_ptyWrite = (\<lambda>d w. (Inr (), [], w)),
     env_ptyResize = (\<lambda>d w. (Inr (), [], w)), env_ptyKill = (\<lambda>w. (Inr (), [], w)),
     env_subscriber = (\<lambda>i f w. (True, w)), env_snapshotFence = (\<lambda>sn w. (Inr (), [], w))\<rparr>"

definition example_session :: "unit session" where
  "example_session = \<lparr>s_world = (), s_journal = example_journal, s_sessionEpoch = 7, s_queue = [],
     s_subscribers = [], s_inputDedupEntries = 4096, s_inputResults = [], s_disposed = False,
     s_authorityDisposed = False, s_exit = None, s_failure = None, s_ptyExited = False, s_eventSeq = 0,
     s_inputFence = 0, s_inputWriter = None, s_nextPtyOffset = 0, s_replies = [], s_commits = []\<rparr>"

definition example_ident :: SemanticInputIdentity where
  "example_ident = \<lparr>si_clientId = ''c'', si_clientInputSeq = 1, si_inputEpoch = ''e'',
     si_observedEventSeq = None, si_writerFence = 3\<rparr>"

definition example_written :: "unit session" where
  "example_written = example_session\<lparr>s_inputResults := [(1, result_written)], s_inputFence := 3,
     s_inputWriter := Some \<lparr>iw_clientId = ''c'', iw_highWater = 1, iw_inputEpoch = ''e''\<rparr>, s_commits := [(3, 1)]\<rparr>"

definition example_replied :: "unit session" where
  "example_replied = example_written\<lparr>s_replies := [AckReply (inputAck example_written example_ident written)]\<rparr>"

definition example_disposed :: "unit session" where
  "example_disposed = dispose example_env example_replied"

lemma example_quiet: "quiet example_env"
  by (simp add: quiet_def quiet_call_def example_env_def)

lemma example_reachable: "session_reachable example_env example_session"
  by (rule session_reachable.start [OF example_new, of "()" 7 None])
    (simp add: newSession_def example_session_def MAX_U64_def)

lemma example_commit:
  "commitSubmittedInput example_env example_ident (CommitText [65]) example_session =
     (example_written, inputAck example_written example_ident written)"
  by (simp add: commitSubmittedInput_def example_session_def example_ident_def example_env_def example_written_def
      MAX_U64_def adoptFence_def dedupVerdict_def identity_malformed_def runValidate_def MAX_TEXT_BYTES_def
      startWriter_def runCommit_def writePty_def call_def receive_def rememberInput_def returnS_def Let_def)

lemma example_drain:
  "drainQueue example_env (example_session\<lparr>s_queue := [SubmittedInputMsg example_ident (CommitText [65])]\<rparr>) =
     Some (example_replied, None)"
proof -
  let ?s = "example_session\<lparr>s_queue := [SubmittedInputMsg example_ident (CommitText [65])]\<rparr>"
  have restored: "?s\<lparr>s_queue := []\<rparr> = example_session" by (simp add: example_session_def)
  have pass: "drain_pass example_env (?s, None) =
      (example_replied, None)"
    using example_commit restored
    by (simp add: drain_pass_def process_message_def example_replied_def)
      (simp add: example_written_def example_session_def)
  show ?thesis
    unfolding drainQueue_def
    by (subst while_option_unfold, subst while_option_unfold)
      (simp add: pass, simp add: example_session_def example_written_def example_replied_def)
qed

lemma example_op:
  "session_op example_env (SubmitInput example_ident (CommitText [65])) example_session =
     Some (example_replied, None)"
proof -
  have q: "s_queue example_session = []" "\<not> s_disposed example_session" "s_failure example_session = None"
    "\<not> s_ptyExited example_session" by (simp_all add: example_session_def)
  show ?thesis using example_drain q by (simp add: submitInput_def enqueue_def)
qed

lemma example_reachable_written:
  "session_reachable example_env example_replied"
  by (rule session_reachable.step [OF example_reachable example_op])

section \<open>Witnesses\<close>

theorem session_input_at_most_once_witness:
  "sorted_wrt before (s_commits example_written) \<and> s_commits example_written = [(3, 1)]"
  using session_input_at_most_once [OF example_reachable_written] by (simp add: example_replied_def example_written_def)

theorem session_fence_monotone_witness: "s_inputFence example_session \<le> s_inputFence example_written"
  using session_fence_monotone [OF example_reachable example_op] by (simp add: example_replied_def)


theorem session_fails_closed_witness:
  "\<exists>s' t. session_op example_env (SubmitInput example_ident (CommitText [65])) example_disposed = Some (s', t) \<and>
     s_queue s' = [] \<and> s_eventSeq s' = 0 \<and> s_commits s' = [(3, 1)]"
proof -
  have o: "\<not> s_disposed example_replied" "s_commits example_replied = [(3, 1)]" "s_eventSeq example_replied = 0"
    by (simp_all add: example_replied_def example_written_def example_session_def)
  have d: "s_commits example_disposed = [(3, 1)]" "s_eventSeq example_disposed = 0" "s_disposed example_disposed"
    using dispose_closed [OF o(1), of example_env] dispose_keeps [OF core_frames, of example_env example_replied] o
    by (simp_all add: session_core_def example_disposed_def)
  have r: "session_reachable example_env example_disposed"
    unfolding example_disposed_def
    by (rule session_reachable.step [OF example_reachable_written, of DisposeOp]) simp
  obtain s' t where op: "session_op example_env (SubmitInput example_ident (CommitText [65])) example_disposed = Some (s', t)"
    using d(3) by (simp add: submitInput_def)
  from session_fails_closed [OF r _ op] d op show ?thesis by auto
qed

theorem session_retry_is_duplicate_witness:
  "\<exists>ack. commitSubmittedInput example_env example_ident (CommitText [66]) example_written = (example_written, ack) \<and>
     ia_status ack = duplicate"
proof -
  have "ia_status (inputAck example_written example_ident written) = written" by (simp add: inputAck_def)
  from session_retry_is_duplicate [OF example_reachable example_commit this] show ?thesis by blast
qed

theorem session_op_returns_witness: "\<exists>s' t. session_op example_env (WriteRawInput [1, 2, 3]) example_session = Some (s', t)"
  by (rule session_op_returns [OF example_quiet])

end
