(* ===== verification/Input_Authority.thy ===== *)
theory Input_Authority
  imports Scalars Prelude
begin

text \<open>
  \<open>apps/terminal-cloud/src/browser/input-authority.ts\<close>: the browser's write authority, a state machine
  over detached, read-only, open and sealed whose writer fence only grows. The union type is a
  datatype; a transport's object identity (\<open>===\<close>) is its \<open>it_ref\<close>, and a transport object the
  code creates gets its reference from the caller.
\<close>

section \<open>State\<close>

record InputTransport =
  it_ref :: nat
  it_generation :: int
  it_sender :: nat
  it_writerFence :: "string option"
  it_writerLease :: "string option"

record InputEpochState =
  ie_writerFence :: string
  ie_inputEpoch :: string
  ie_nextSequence :: int

record InputIdentity =
  id_writerFence :: string
  id_inputEpoch :: string
  id_clientInputSeq :: string

datatype ReadOnlyReason = missing_authority | stale_fence
datatype SealReason = authority_revoked | replacement_required | transport_replaced

datatype AuthorityState =
    Detached (highestWriterFence: int)
  | ReadOnly (highestWriterFence: int) InputTransport ReadOnlyReason
  | OpenA (highestWriterFence: int) InputTransport InputEpochState
  | Sealed (highestWriterFence: int) InputTransport InputEpochState SealReason

definition initialAuthorityState :: AuthorityState where
  "initialAuthorityState = Detached 0"

text \<open>
  \<open>BigInt(value)\<close> reads more than decimal digits, but the comparison with the printed form rejects
  everything else, so only digit strings are parsed here.
\<close>

definition positiveWriterFence :: "string option \<Rightarrow> int option" where
  "positiveWriterFence value =
     (case value of
        None \<Rightarrow> None
      | Some s \<Rightarrow>
          if s \<noteq> [] \<and> list_all is_digit s then
            (let parsed = bigint_of s in
             if 0 < parsed \<and> parsed \<le> MAX_U64 \<and> bigint_toString parsed = s then Some parsed else None)
          else None)"

fun authorityTransport :: "AuthorityState \<Rightarrow> InputTransport option" where
  "authorityTransport (Detached h) = None"
| "authorityTransport (ReadOnly h t r) = Some t"
| "authorityTransport (OpenA h t e) = Some t"
| "authorityTransport (Sealed h t e r) = Some t"

fun authorityEpoch :: "AuthorityState \<Rightarrow> InputEpochState option" where
  "authorityEpoch (OpenA h t e) = Some e"
| "authorityEpoch (Sealed h t e r) = Some e"
| "authorityEpoch s = None"

fun controlReplacementRequired :: "AuthorityState \<Rightarrow> bool" where
  "controlReplacementRequired (Sealed h t e r) = (r = replacement_required)"
| "controlReplacementRequired s = False"

fun isWritableAuthority :: "AuthorityState \<Rightarrow> bool" where
  "isWritableAuthority (OpenA h t e) = True"
| "isWritableAuthority s = False"

section \<open>Transitions\<close>

definition lease_ok :: "string option \<Rightarrow> bool" where
  "lease_ok lease = (case lease of None \<Rightarrow> False | Some l \<Rightarrow> 0 < length l \<and> length l \<le> 128)"

definition refused_attachment :: "AuthorityState \<Rightarrow> InputTransport \<Rightarrow> AuthorityState" where
  "refused_attachment current transport =
     (let reason = (if positiveWriterFence (it_writerFence transport) = None \<or> it_writerLease transport = None
        then missing_authority else stale_fence)
      in case current of
        OpenA h t e \<Rightarrow> if it_ref t = it_ref transport then current else ReadOnly h transport reason
      | Sealed h t e r \<Rightarrow> Sealed h transport e r
      | _ \<Rightarrow> ReadOnly (highestWriterFence current) transport reason)"

text \<open>The new state and whether the attachment was accepted.\<close>

definition attachAuthority ::
  "AuthorityState \<Rightarrow> InputTransport \<Rightarrow> string \<Rightarrow> AuthorityState \<times> bool" where
  "attachAuthority current transport inputEpoch =
     (case (positiveWriterFence (it_writerFence transport), it_writerFence transport) of
        (Some fence, Some fence_string) \<Rightarrow>
          if lease_ok (it_writerLease transport) \<and> highestWriterFence current < fence
          then (OpenA fence transport
            \<lparr>ie_writerFence = fence_string, ie_inputEpoch = inputEpoch, ie_nextSequence = 1\<rparr>, True)
          else (refused_attachment current transport, False)
      | _ \<Rightarrow> (refused_attachment current transport, False))"

definition detachAuthority :: "AuthorityState \<Rightarrow> AuthorityState" where
  "detachAuthority current = Detached (highestWriterFence current)"

text \<open>The stripped transport object is new: its reference is the second argument.\<close>

definition strip_transport :: "InputTransport \<Rightarrow> nat \<Rightarrow> InputTransport" where
  "strip_transport t ref = t\<lparr>it_ref := ref, it_writerFence := None, it_writerLease := None\<rparr>"

fun revokeAuthority :: "AuthorityState \<Rightarrow> nat \<Rightarrow> AuthorityState" where
  "revokeAuthority (Detached h) ref = Detached h"
| "revokeAuthority (OpenA h t e) ref = Sealed h (strip_transport t ref) e authority_revoked"
| "revokeAuthority (Sealed h t e r) ref = Sealed h (strip_transport t ref) e r"
| "revokeAuthority (ReadOnly h t r) ref = ReadOnly h (strip_transport t ref) missing_authority"

fun sealAuthority :: "AuthorityState \<Rightarrow> SealReason \<Rightarrow> AuthorityState" where
  "sealAuthority (OpenA h t e) reason = Sealed h t e reason"
| "sealAuthority (Sealed h t e r) reason =
     (if r = replacement_required \<or> r = reason then Sealed h t e r
      else Sealed h t e (if reason = replacement_required then reason else r))"
| "sealAuthority s reason = s"

definition identityBelongsToAuthority :: "AuthorityState \<Rightarrow> InputIdentity \<Rightarrow> bool" where
  "identityBelongsToAuthority s ident =
     (case authorityEpoch s of
        None \<Rightarrow> False
      | Some e \<Rightarrow> ie_writerFence e = id_writerFence ident \<and> ie_inputEpoch e = id_inputEpoch ident)"

text \<open>Only defined on the open state; on the others it is the identity and allocates nothing.\<close>

fun allocateInputIdentity :: "AuthorityState \<Rightarrow> AuthorityState \<times> InputIdentity option" where
  "allocateInputIdentity (OpenA h t e) =
     (OpenA h t (e\<lparr>ie_nextSequence := ie_nextSequence e + 1\<rparr>),
      Some \<lparr>id_writerFence = ie_writerFence e, id_inputEpoch = ie_inputEpoch e,
        id_clientInputSeq = bigint_toString (ie_nextSequence e)\<rparr>)"
| "allocateInputIdentity s = (s, None)"

text \<open>The code's own self-check, as a predicate: \<open>True\<close> when it does not throw.\<close>

fun assertAuthorityInvariants :: "AuthorityState \<Rightarrow> bool" where
  "assertAuthorityInvariants (Detached h) \<longleftrightarrow> 0 \<le> h"
| "assertAuthorityInvariants (ReadOnly h t r) \<longleftrightarrow> 0 \<le> h"
| "assertAuthorityInvariants (OpenA h t e) \<longleftrightarrow> 0 \<le> h \<and>
     positiveWriterFence (it_writerFence t) = Some h \<and> it_writerLease t \<noteq> Some [] \<and>
     Some (ie_writerFence e) = it_writerFence t \<and> 1 \<le> ie_nextSequence e"
| "assertAuthorityInvariants (Sealed h t e r) \<longleftrightarrow> 0 \<le> h \<and>
     (case positiveWriterFence (Some (ie_writerFence e)) of None \<Rightarrow> False | Some f \<Rightarrow> f \<le> h) \<and>
     1 \<le> ie_nextSequence e"

section \<open>The authority as a fenced machine\<close>

datatype AuthorityEvent =
    AttachEvent InputTransport string
  | DetachEvent
  | RevokeEvent nat
  | SealEvent SealReason
  | AllocateEvent

fun authority_step :: "AuthorityState \<Rightarrow> AuthorityEvent \<Rightarrow> AuthorityState" where
  "authority_step s (AttachEvent t ep) = fst (attachAuthority s t ep)"
| "authority_step s DetachEvent = detachAuthority s"
| "authority_step s (RevokeEvent ref) = revokeAuthority s ref"
| "authority_step s (SealEvent r) = sealAuthority s r"
| "authority_step s AllocateEvent = fst (allocateInputIdentity s)"

lemma positiveWriterFence_Some_iff:
  "positiveWriterFence (Some s) = Some f \<longleftrightarrow> 0 < f \<and> f \<le> MAX_U64 \<and> s = bigint_toString f"
proof
  assume "positiveWriterFence (Some s) = Some f"
  then show "0 < f \<and> f \<le> MAX_U64 \<and> s = bigint_toString f"
    by (auto simp: positiveWriterFence_def Let_def split: if_splits)
next
  assume f: "0 < f \<and> f \<le> MAX_U64 \<and> s = bigint_toString f"
  then have "bigint_of s = f" by (simp add: bigint_of_toString)
  moreover have "s \<noteq> [] \<and> list_all is_digit s"
    using f decimal_of_nat_digits [of "nat f"] by (simp add: bigint_toString_def)
  ultimately show "positiveWriterFence (Some s) = Some f"
    using f by (simp add: positiveWriterFence_def Let_def)
qed

lemma positiveWriterFence_None [simp]: "positiveWriterFence None = None"
  by (simp add: positiveWriterFence_def)

lemma fence_string_eq:
  "positiveWriterFence (Some s) = Some f \<Longrightarrow> positiveWriterFence (Some t) = Some f \<Longrightarrow> s = t"
  by (simp add: positiveWriterFence_Some_iff)

lemma refused_keeps:
  assumes "assertAuthorityInvariants s"
  shows "assertAuthorityInvariants (refused_attachment s t)"
    "highestWriterFence (refused_attachment s t) = highestWriterFence s"
  using assms by (cases s; simp add: refused_attachment_def Let_def)+

lemma attach_keeps:
  assumes "assertAuthorityInvariants s"
  shows "assertAuthorityInvariants (fst (attachAuthority s t ep))"
    "highestWriterFence s \<le> highestWriterFence (fst (attachAuthority s t ep))"
    "snd (attachAuthority s t ep) \<Longrightarrow>
       isWritableAuthority (fst (attachAuthority s t ep)) \<and>
       highestWriterFence s < highestWriterFence (fst (attachAuthority s t ep))"
proof -
  have h: "0 \<le> highestWriterFence s" using assms by (cases s) auto
  note r = refused_keeps [OF assms, of t]
  show "assertAuthorityInvariants (fst (attachAuthority s t ep))"
    "highestWriterFence s \<le> highestWriterFence (fst (attachAuthority s t ep))"
    "snd (attachAuthority s t ep) \<Longrightarrow>
       isWritableAuthority (fst (attachAuthority s t ep)) \<and>
       highestWriterFence s < highestWriterFence (fst (attachAuthority s t ep))"
    using r h by (auto simp: attachAuthority_def lease_ok_def split: option.splits if_splits)
qed

lemma authority_step_ok:
  assumes "assertAuthorityInvariants s"
  shows "assertAuthorityInvariants (authority_step s e) \<and>
    highestWriterFence s \<le> highestWriterFence (authority_step s e)"
proof (cases e)
  case (AttachEvent t ep)
  with attach_keeps [OF assms] show ?thesis by simp
next
  case (RevokeEvent ref)
  with assms show ?thesis by (cases s) auto
next
  case (SealEvent r)
  with assms show ?thesis by (cases s) auto
next
  case DetachEvent
  with assms show ?thesis by (cases s) (auto simp: detachAuthority_def)
next
  case AllocateEvent
  with assms show ?thesis by (cases s) auto
qed

interpretation authority: fenced_machine authority_step assertAuthorityInvariants highestWriterFence
  using authority_step_ok by unfold_locales blast+

text \<open>
  The authority's self-check can never fail and its fence never drops: from the initial state, after
  any sequence of attachments, detachments, revocations, seals and allocations, the invariants the
  code asserts hold, and a longer history never has a lower highest fence.
\<close>

theorem authority_invariants:
  "assertAuthorityInvariants (foldl authority_step initialAuthorityState es) \<and>
   highestWriterFence (foldl authority_step initialAuthorityState es) \<le>
     highestWriterFence (foldl authority_step initialAuthorityState (es @ es'))"
proof -
  have "assertAuthorityInvariants initialAuthorityState" by (simp add: initialAuthorityState_def)
  then show ?thesis using authority.run_inv authority.fence_between by blast
qed

section \<open>Identities\<close>

fun identities :: "AuthorityState \<Rightarrow> AuthorityEvent list \<Rightarrow> InputIdentity list" where
  "identities s [] = []"
| "identities s (e # es) =
     (case e of
        AllocateEvent \<Rightarrow> (case snd (allocateInputIdentity s) of None \<Rightarrow> [] | Some i \<Rightarrow> [i])
      | _ \<Rightarrow> []) @ identities (authority_step s e) es"

text \<open>The numbers an identity carries, in the order the authority hands them out.\<close>

definition identity_rank :: "InputIdentity \<Rightarrow> int \<times> int" where
  "identity_rank i = (bigint_of (id_writerFence i), bigint_of (id_clientInputSeq i))"

definition rank_less :: "int \<times> int \<Rightarrow> int \<times> int \<Rightarrow> bool" where
  "rank_less a b \<longleftrightarrow> fst a < fst b \<or> (fst a = fst b \<and> snd a < snd b)"

text \<open>A bound below every identity the state can still allocate.\<close>

fun next_rank :: "AuthorityState \<Rightarrow> int \<times> int" where
  "next_rank (OpenA h t e) = (h, ie_nextSequence e)"
| "next_rank s = (highestWriterFence s + 1, 0)"

definition rank_le :: "int \<times> int \<Rightarrow> int \<times> int \<Rightarrow> bool" where
  "rank_le a b \<longleftrightarrow> a = b \<or> rank_less a b"

lemma rank_order:
  "rank_le a a" "rank_le a b \<Longrightarrow> rank_le b c \<Longrightarrow> rank_le a c" "rank_less a b \<Longrightarrow> rank_le b c \<Longrightarrow> rank_less a c"
  "\<not> rank_less a a"
  by (auto simp: rank_le_def rank_less_def)

lemma next_rank_step:
  assumes "assertAuthorityInvariants s"
  shows "rank_le (next_rank s) (next_rank (authority_step s e))"
proof -
  have up: "rank_le (next_rank s) (next_rank s')"
    if "highestWriterFence s < highestWriterFence s' \<or> \<not> isWritableAuthority s' \<and> highestWriterFence s = highestWriterFence s'"
      "assertAuthorityInvariants s'" for s'
    using that by (cases s; cases s') (auto simp: rank_le_def rank_less_def)
  have refused: "rank_le (next_rank s) (next_rank (refused_attachment s t))" for t
  proof (cases "\<exists>h t' e. s = OpenA h t' e \<and> it_ref t' = it_ref t")
    case True
    then show ?thesis by (auto simp: refused_attachment_def rank_order)
  next
    case False
    then have "\<not> isWritableAuthority (refused_attachment s t)"
      by (cases s) (auto simp: refused_attachment_def Let_def)
    with up refused_keeps [OF assms] show ?thesis by metis
  qed
  show ?thesis
  proof (cases e)
    case (AttachEvent t ep)
    show ?thesis
    proof (cases "snd (attachAuthority s t ep)")
      case True
      with AttachEvent attach_keeps [OF assms] up show ?thesis by simp
    next
      case False
      then have "fst (attachAuthority s t ep) = refused_attachment s t"
        by (auto simp: attachAuthority_def split: option.splits if_splits)
      with AttachEvent refused show ?thesis by simp
    qed
  next
    case (RevokeEvent ref)
    then show ?thesis by (cases s) (auto simp: rank_le_def rank_less_def)
  next
    case (SealEvent r)
    then show ?thesis by (cases s) (auto simp: rank_le_def rank_less_def)
  next
    case DetachEvent
    then show ?thesis by (cases s) (auto simp: rank_le_def rank_less_def detachAuthority_def)
  next
    case AllocateEvent
    then show ?thesis by (cases s) (auto simp: rank_le_def rank_less_def)
  qed
qed

lemma allocate_rank:
  assumes "assertAuthorityInvariants s" "snd (allocateInputIdentity s) = Some i"
  shows "identity_rank i = next_rank s \<and> rank_less (next_rank s) (next_rank (fst (allocateInputIdentity s)))"
proof (cases s)
  case (OpenA h t e)
  with assms(1) have w: "positiveWriterFence (Some (ie_writerFence e)) = Some h" "1 \<le> ie_nextSequence e" by simp_all
  then have "bigint_of (ie_writerFence e) = h" "bigint_of (bigint_toString (ie_nextSequence e)) = ie_nextSequence e"
    by (auto simp: positiveWriterFence_Some_iff bigint_of_toString)
  with OpenA assms(2) show ?thesis by (auto simp: identity_rank_def rank_less_def)
qed (use assms in auto)

lemma identities_ranked:
  "assertAuthorityInvariants s \<Longrightarrow>
   (\<forall>i\<in>set (identities s es). rank_le (next_rank s) (identity_rank i)) \<and>
   sorted_wrt rank_less (map identity_rank (identities s es))"
proof (induction es arbitrary: s)
  case (Cons e es)
  note ok = authority_step_ok [OF Cons.prems, of e]
  note IH = Cons.IH [OF conjunct1 [OF ok]]
  note up = next_rank_step [OF Cons.prems, of e]
  show ?case
  proof (cases "e = AllocateEvent \<and> (\<exists>i. snd (allocateInputIdentity s) = Some i)")
    case True
    then obtain i where e: "e = AllocateEvent" and i: "snd (allocateInputIdentity s) = Some i" by blast
    note a = allocate_rank [OF Cons.prems i]
    have "rank_less (identity_rank i) (identity_rank j)" if "j \<in> set (identities (authority_step s e) es)" for j
      using rank_order(3) [of "next_rank s" "next_rank (fst (allocateInputIdentity s))" "identity_rank j"]
        a IH that e by simp
    moreover have "rank_le (next_rank s) (identity_rank j)" if "j \<in> set (identities (authority_step s e) es)" for j
      using up IH that rank_order(2) by blast
    ultimately show ?thesis using a IH by (auto simp: e i rank_order)
  next
    case False
    then have "identities s (e # es) = identities (authority_step s e) es"
      by (auto split: AuthorityEvent.split option.split)
    with IH up rank_order(2) show ?thesis by metis
  qed
qed simp

text \<open>
  Input identities are never reused: over any history of the authority the identities it allocates
  are strictly increasing by writer fence and then by sequence number, so no two inputs ever carry
  the same identity, across reconnections, revocations and seals.
\<close>

theorem identities_unique:
  "sorted_wrt rank_less (map identity_rank (identities initialAuthorityState es)) \<and>
   distinct (identities initialAuthorityState es)"
proof -
  have "sorted_wrt rank_less (map identity_rank (identities initialAuthorityState es))"
    using identities_ranked [of initialAuthorityState es] by (simp add: initialAuthorityState_def)
  moreover have "distinct is" if "sorted_wrt rank_less (map identity_rank is)" for "is"
    using that by (induction "is") (auto simp: rank_less_def)
  ultimately show ?thesis by blast
qed

text \<open>
  A sealed or revoked epoch stays sealed: the authority becomes writable, or a demanded control
  replacement is forgotten other than by detaching, only through an accepted attachment, and that
  needs a valid fence strictly above every fence the authority ever held.
\<close>

theorem authority_reopens_only_by_higher_fence:
  assumes "(\<not> isWritableAuthority s \<and> isWritableAuthority (authority_step s e)) \<or>
    (controlReplacementRequired s \<and> \<not> controlReplacementRequired (authority_step s e) \<and> e \<noteq> DetachEvent)"
  shows "\<exists>t ep f. e = AttachEvent t ep \<and> positiveWriterFence (it_writerFence t) = Some f \<and>
    highestWriterFence s < f \<and> highestWriterFence (authority_step s e) = f"
proof (cases e)
  case (AttachEvent t ep)
  have "snd (attachAuthority s t ep)"
  proof (rule ccontr)
    assume "\<not> snd (attachAuthority s t ep)"
    then have "fst (attachAuthority s t ep) = refused_attachment s t"
      by (auto simp: attachAuthority_def split: option.splits if_splits)
    with AttachEvent assms show False by (cases s) (auto simp: refused_attachment_def Let_def split: if_splits)
  qed
  with AttachEvent show ?thesis by (auto simp: attachAuthority_def split: option.splits if_splits)
next
  case (RevokeEvent ref)
  with assms show ?thesis by (cases s) auto
next
  case (SealEvent r)
  with assms show ?thesis by (cases s) (auto split: if_splits)
next
  case AllocateEvent
  with assms show ?thesis by (cases s) auto
qed (use assms in \<open>simp add: detachAuthority_def\<close>)

theorem authority_reopens_only_by_higher_fence_witness:
  "\<exists>t ep f. AttachEvent \<lparr>it_ref = 1, it_generation = 1, it_sender = 0, it_writerFence = Some ''7'',
      it_writerLease = Some ''lease''\<rparr> ''epoch'' = AttachEvent t ep \<and>
    positiveWriterFence (it_writerFence t) = Some f \<and> 0 < f"
proof -
  let ?t = "\<lparr>it_ref = 1, it_generation = 1, it_sender = 0, it_writerFence = Some ''7'', it_writerLease = Some ''lease''\<rparr>"
  have "bigint_toString 7 = ''7''" by code_simp
  then have f: "positiveWriterFence (Some ''7'') = Some 7"
    by (simp add: positiveWriterFence_Some_iff MAX_U64_def)
  then have "isWritableAuthority (authority_step (Detached 0) (AttachEvent ?t ''epoch''))"
    by (simp add: attachAuthority_def lease_ok_def)
  with authority_reopens_only_by_higher_fence [of "Detached 0" "AttachEvent ?t ''epoch''"]
  show ?thesis by auto
qed

end
