(* ===== verification/Intent_Ledger.thy ===== *)
theory Intent_Ledger
  imports Input_Authority
begin

text \<open>
  \<open>apps/terminal-cloud/src/browser/input-intent-ledger.ts\<close>: the ledger that owns every input intent
  from its consumption to its one terminal result. The tagged record union is a datatype (the two
  shapes of a terminal record are two constructors); the payload \<open>'p\<close> and the frame \<open>'f\<close> are
  only stored. Byte counts are \<open>byteLength\<close>s, so they are natural numbers in the records.
\<close>

section \<open>Records\<close>

definition maxBytes :: int where "maxBytes = 6 * 1024 * 1024 + 4096"
definition maxCount :: nat where "maxCount = 256"
definition maxPending :: nat where "maxPending = 1024"
definition maxPreAdmissionAgeMs :: int where "maxPreAdmissionAgeMs = 250"
definition maxRetainedResults :: nat where "maxRetainedResults = 4096"

lemmas input_queue_contract = maxBytes_def maxCount_def maxPending_def maxPreAdmissionAgeMs_def
  maxRetainedResults_def

datatype InputKind =
  kind_key | kind_text | kind_paste | kind_focus | kind_resize | kind_mouse | kind_unknown

datatype InputNotSentReason =
    ns_closed | ns_control_replaced | ns_epoch_sealed | ns_malformed | ns_mouse_gate | ns_not_writable
  | ns_overload | ns_policy | ns_pre_admission_expired | ns_queue_expired | ns_replica_not_current
  | ns_superseded | ns_transport_rejected | ns_validation

datatype InputUncertainReason =
    un_acknowledgement_timeout | un_closed | un_control_replaced | un_input_ack_uncertain
  | un_termination_timeout | un_transport_uncertain

datatype DeterministicReason = input_ack | tombstone_proof
datatype DeterministicResult = det_duplicate | det_rejected | det_written

datatype Outcome =
    NotSent InputNotSentReason
  | Deterministic DeterministicReason DeterministicResult string
  | Uncertain InputUncertainReason

record InputIntentResult =
  ir_localIntentId :: string
  ir_kind :: InputKind
  ir_identity :: "InputIdentity option"
  ir_consumedAtMs :: int
  ir_terminalAtMs :: int
  ir_outcome :: Outcome

datatype IntentTerminationReason = term_acknowledgement_timeout | term_control_replaced | term_transport_uncertain

record IntentBase =
  ib_localIntentId :: string
  ib_kind :: InputKind
  ib_consumedAtMs :: int

record Admission =
  ad_identity :: InputIdentity
  ad_encodedBytes :: nat
  ad_admittedAtMs :: int
  ad_transportGeneration :: int

datatype ('p, 'f) IntentRecord =
    Consumed (base: IntentBase)
  | PreAdmission (base: IntentBase) 'p nat
  | Queued (base: IntentBase) Admission 'f int
  | Sending (base: IntentBase) Admission 'f int
  | Sent (base: IntentBase) Admission int int
  | Terminating (base: IntentBase) Admission int int IntentTerminationReason
  | TerminalUnadmitted (base: IntentBase) InputIntentResult
  | TerminalAdmitted (base: IntentBase) Admission "int option" InputIntentResult

datatype Phase = ph_consumed | ph_pre_admission | ph_queued | ph_sending | ph_sent | ph_terminating | ph_terminal

fun phase :: "('p, 'f) IntentRecord \<Rightarrow> Phase" where
  "phase (Consumed b) = ph_consumed"
| "phase (PreAdmission b p n) = ph_pre_admission"
| "phase (Queued b a f d) = ph_queued"
| "phase (Sending b a f t) = ph_sending"
| "phase (Sent b a t d) = ph_sent"
| "phase (Terminating b a t d r) = ph_terminating"
| "phase (TerminalUnadmitted b r) = ph_terminal"
| "phase (TerminalAdmitted b a t r) = ph_terminal"

fun admission :: "('p, 'f) IntentRecord \<Rightarrow> Admission option" where
  "admission (Queued b a f d) = Some a"
| "admission (Sending b a f t) = Some a"
| "admission (Sent b a t d) = Some a"
| "admission (Terminating b a t d r) = Some a"
| "admission (TerminalAdmitted b a t r) = Some a"
| "admission r = None"

definition record_identity :: "('p, 'f) IntentRecord \<Rightarrow> InputIdentity option" where
  "record_identity r = map_option ad_identity (admission r)"

fun sendDecisionAt :: "('p, 'f) IntentRecord \<Rightarrow> int option" where
  "sendDecisionAt (Sending b a f t) = Some t"
| "sendDecisionAt (Sent b a t d) = Some t"
| "sendDecisionAt (Terminating b a t d r) = Some t"
| "sendDecisionAt (TerminalAdmitted b a t r) = t"
| "sendDecisionAt r = None"

fun deadlineAt :: "('p, 'f) IntentRecord \<Rightarrow> int option" where
  "deadlineAt (Queued b a f d) = Some d"
| "deadlineAt (Sent b a t d) = Some d"
| "deadlineAt (Terminating b a t d r) = Some d"
| "deadlineAt r = None"

fun record_result :: "('p, 'f) IntentRecord \<Rightarrow> InputIntentResult option" where
  "record_result (TerminalUnadmitted b r) = Some r"
| "record_result (TerminalAdmitted b a t r) = Some r"
| "record_result r = None"

text \<open>\<open>identityKey\<close> joins the three fields with NUL characters.\<close>

definition identityKey :: "InputIdentity \<Rightarrow> string" where
  "identityKey i = id_writerFence i @ CHR 0x00 # id_inputEpoch i @ CHR 0x00 # id_clientInputSeq i"

definition sameIdentity :: "InputIdentity option \<Rightarrow> InputIdentity option \<Rightarrow> bool" where
  "sameIdentity l r = (case (l, r) of
     (Some a, Some b) \<Rightarrow> identityKey a = identityKey b
   | (None, None) \<Rightarrow> True
   | _ \<Rightarrow> False)"

definition terminalRecord :: "('p, 'f) IntentRecord \<Rightarrow> InputIntentResult \<Rightarrow> ('p, 'f) IntentRecord" where
  "terminalRecord r result =
     (case admission r of
        None \<Rightarrow> TerminalUnadmitted (base r) result
      | Some a \<Rightarrow> TerminalAdmitted (base r) a (if phase r = ph_queued then None else sendDecisionAt r) result)"

section \<open>The ledger\<close>

record ('p, 'f) ledger =
  il_records :: "(string, ('p, 'f) IntentRecord) jsmap"
  il_activeByIdentity :: "(string, string) jsmap"
  il_terminalOrder :: "string list"
  il_preAdmissionIds :: "string list"
  il_preAdmissionBytes :: int
  il_queueIds :: "string list"
  il_queueBytes :: int

datatype LedgerError =
    DuplicateLocalIntentId | UnknownLocalIntentId | WrongPhase | CapacityNotReserved | DuplicateIdentity
  | ResultMismatch | StaleIdentityIndex

definition emptyLedger :: "('p, 'f) ledger" where
  "emptyLedger = \<lparr>il_records = [], il_activeByIdentity = [], il_terminalOrder = [], il_preAdmissionIds = [],
     il_preAdmissionBytes = 0, il_queueIds = [], il_queueBytes = 0\<rparr>"

definition requirePhase :: "('p, 'f) ledger \<Rightarrow> string \<Rightarrow> Phase \<Rightarrow> LedgerError + ('p, 'f) IntentRecord" where
  "requirePhase l i ph =
     (case jm_get (il_records l) i of
        None \<Rightarrow> Inl UnknownLocalIntentId
      | Some r \<Rightarrow> if phase r = ph then Inr r else Inl WrongPhase)"

definition put :: "string \<Rightarrow> ('p, 'f) IntentRecord \<Rightarrow> ('p, 'f) ledger \<Rightarrow> ('p, 'f) ledger" where
  "put i r l = l\<lparr>il_records := jm_set i r (il_records l)\<rparr>"

definition createConsumed :: "('p, 'f) ledger \<Rightarrow> string \<Rightarrow> int \<Rightarrow> LedgerError + ('p, 'f) ledger" where
  "createConsumed l i now =
     (if jm_get (il_records l) i \<noteq> None then Inl DuplicateLocalIntentId
      else Inr (put i (Consumed \<lparr>ib_localIntentId = i, ib_kind = kind_unknown, ib_consumedAtMs = now\<rparr>) l))"

definition identify :: "('p, 'f) ledger \<Rightarrow> string \<Rightarrow> InputKind \<Rightarrow> LedgerError + ('p, 'f) ledger" where
  "identify l i k = bindR (requirePhase l i ph_consumed) (\<lambda>r. Inr (put i (Consumed ((base r)\<lparr>ib_kind := k\<rparr>)) l))"

definition getResult :: "('p, 'f) ledger \<Rightarrow> string \<Rightarrow> InputIntentResult option" where
  "getResult l i = Option.bind (jm_get (il_records l) i) record_result"

record InputIntentSnapshot =
  is_base :: IntentBase
  is_identity :: "InputIdentity option"
  is_state :: Phase
  is_admission :: "(int \<times> nat \<times> int) option"
  is_sendDecisionAtMs :: "int option"
  is_deadlineAtMs :: "int option"
  is_result :: "InputIntentResult option"

definition getSnapshot :: "('p, 'f) ledger \<Rightarrow> string \<Rightarrow> InputIntentSnapshot option" where
  "getSnapshot l i = map_option (\<lambda>r.
     \<lparr>is_base = base r, is_identity = record_identity r,
      is_state = (if phase r = ph_pre_admission then ph_consumed else phase r),
      is_admission = map_option (\<lambda>a. (ad_admittedAtMs a, ad_encodedBytes a, ad_transportGeneration a)) (admission r),
      is_sendDecisionAtMs = sendDecisionAt r, is_deadlineAtMs = deadlineAt r,
      is_result = record_result r\<rparr>) (jm_get (il_records l) i)"

definition canReservePreAdmission :: "('p, 'f) ledger \<Rightarrow> nat \<Rightarrow> bool" where
  "canReservePreAdmission l n \<longleftrightarrow>
     length (il_preAdmissionIds l) + length (il_queueIds l) < maxCount \<and>
     il_preAdmissionBytes l + il_queueBytes l + int n \<le> maxBytes"

definition enqueuePreAdmission ::
  "('p, 'f) ledger \<Rightarrow> string \<Rightarrow> 'p \<Rightarrow> nat \<Rightarrow> LedgerError + ('p, 'f) ledger" where
  "enqueuePreAdmission l i p n =
     bindR (requirePhase l i ph_consumed) (\<lambda>r.
       if \<not> canReservePreAdmission l n then Inl CapacityNotReserved
       else Inr ((put i (PreAdmission (base r) p n) l)\<lparr>il_preAdmissionIds := il_preAdmissionIds l @ [i],
              il_preAdmissionBytes := il_preAdmissionBytes l + int n\<rparr>))"

definition preAdmissionRecords :: "('p, 'f) ledger \<Rightarrow> LedgerError + ('p, 'f) IntentRecord list" where
  "preAdmissionRecords l = mapR (\<lambda>i. requirePhase l i ph_pre_admission) (il_preAdmissionIds l)"

definition lastPreAdmission :: "('p, 'f) ledger \<Rightarrow> LedgerError + ('p, 'f) IntentRecord option" where
  "lastPreAdmission l =
     (if il_preAdmissionIds l = [] then Inr None
      else bindR (requirePhase l (last (il_preAdmissionIds l)) ph_pre_admission) (\<lambda>r. Inr (Some r)))"

definition takePreAdmission ::
  "('p, 'f) ledger \<Rightarrow> LedgerError + (('p, 'f) ledger \<times> ('p, 'f) IntentRecord list)" where
  "takePreAdmission l = bindR (preAdmissionRecords l) (\<lambda>rs.
     Inr (l\<lparr>il_preAdmissionIds := [], il_preAdmissionBytes := 0\<rparr>, rs))"

definition canAdmit :: "('p, 'f) ledger \<Rightarrow> nat \<Rightarrow> bool" where
  "canAdmit l n \<longleftrightarrow> length (il_activeByIdentity l) < maxPending \<and> length (il_queueIds l) < maxCount \<and>
     il_queueBytes l + int n \<le> maxBytes"

definition admit ::
  "('p, 'f) ledger \<Rightarrow> string \<Rightarrow> Admission \<Rightarrow> 'f \<Rightarrow> int \<Rightarrow> LedgerError + ('p, 'f) ledger" where
  "admit l i a frame deadline =
     bindR (requirePhase l i ph_pre_admission) (\<lambda>r.
       if \<not> canAdmit l (ad_encodedBytes a) then Inl CapacityNotReserved
       else if jm_get (il_activeByIdentity l) (identityKey (ad_identity a)) \<noteq> None then Inl DuplicateIdentity
       else Inr ((put i (Queued (base r) a frame deadline) l)
         \<lparr>il_queueIds := il_queueIds l @ [i], il_queueBytes := il_queueBytes l + int (ad_encodedBytes a),
          il_activeByIdentity := jm_set (identityKey (ad_identity a)) i (il_activeByIdentity l)\<rparr>))"

definition queuedRecords :: "('p, 'f) ledger \<Rightarrow> LedgerError + ('p, 'f) IntentRecord list" where
  "queuedRecords l = mapR (\<lambda>i. requirePhase l i ph_queued) (il_queueIds l)"

definition queueHead :: "('p, 'f) ledger \<Rightarrow> LedgerError + ('p, 'f) IntentRecord option" where
  "queueHead l = (case il_queueIds l of
     [] \<Rightarrow> Inr None | i # _ \<Rightarrow> bindR (requirePhase l i ph_queued) (\<lambda>r. Inr (Some r)))"

definition removePreAdmission :: "string \<Rightarrow> nat \<Rightarrow> ('p, 'f) ledger \<Rightarrow> ('p, 'f) ledger" where
  "removePreAdmission i n l =
     (if i \<in> set (il_preAdmissionIds l)
      then l\<lparr>il_preAdmissionIds := remove1 i (il_preAdmissionIds l),
             il_preAdmissionBytes := il_preAdmissionBytes l - int n\<rparr>
      else l)"

definition removeQueued :: "string \<Rightarrow> nat \<Rightarrow> ('p, 'f) ledger \<Rightarrow> ('p, 'f) ledger" where
  "removeQueued i n l =
     (if i \<in> set (il_queueIds l)
      then l\<lparr>il_queueIds := remove1 i (il_queueIds l), il_queueBytes := il_queueBytes l - int n\<rparr>
      else l)"

definition startSending :: "('p, 'f) ledger \<Rightarrow> string \<Rightarrow> int \<Rightarrow> LedgerError + ('p, 'f) ledger" where
  "startSending l i t =
     bindR (requirePhase l i ph_queued) (\<lambda>r. case r of
       Queued b a f d \<Rightarrow> Inr (put i (Sending b a f t) (removeQueued i (ad_encodedBytes a) l))
     | _ \<Rightarrow> Inl WrongPhase)"

definition markSent :: "('p, 'f) ledger \<Rightarrow> string \<Rightarrow> int \<Rightarrow> LedgerError + ('p, 'f) ledger" where
  "markSent l i d =
     bindR (requirePhase l i ph_sending) (\<lambda>r. case r of
       Sending b a f t \<Rightarrow> Inr (put i (Sent b a t d) l)
     | _ \<Rightarrow> Inl WrongPhase)"

text \<open>\<open>None\<close>: there is nothing to terminate.\<close>

definition beginTermination ::
  "('p, 'f) ledger \<Rightarrow> string \<Rightarrow> IntentTerminationReason \<Rightarrow> int \<Rightarrow> ('p, 'f) ledger option" where
  "beginTermination l i reason d =
     (case jm_get (il_records l) i of
        Some (Sending b a f t) \<Rightarrow> Some (put i (Terminating b a t d reason) l)
      | Some (Sent b a t d') \<Rightarrow> Some (put i (Terminating b a t d reason) l)
      | _ \<Rightarrow> None)"

definition is_active :: "('p, 'f) IntentRecord \<Rightarrow> bool" where
  "is_active r \<longleftrightarrow> phase r \<in> {ph_queued, ph_sending, ph_sent, ph_terminating}"

definition activeRecords :: "('p, 'f) ledger \<Rightarrow> LedgerError + ('p, 'f) IntentRecord list" where
  "activeRecords l = mapR (\<lambda>(k, i). case jm_get (il_records l) i of
      Some r \<Rightarrow> if is_active r then Inr r else Inl StaleIdentityIndex
    | None \<Rightarrow> Inl StaleIdentityIndex) (il_activeByIdentity l)"

definition getByIdentity :: "('p, 'f) ledger \<Rightarrow> InputIdentity \<Rightarrow> ('p, 'f) IntentRecord option" where
  "getByIdentity l ident =
     (case jm_get (il_activeByIdentity l) (identityKey ident) of
        None \<Rightarrow> None
      | Some i \<Rightarrow> (case jm_get (il_records l) i of
          Some r \<Rightarrow> if is_active r then Some r else None | None \<Rightarrow> None))"

text \<open>The retention loop of \<open>finish\<close>.\<close>

fun evict :: "string list \<Rightarrow> (string, ('p, 'f) IntentRecord) jsmap \<Rightarrow>
    string list \<times> (string, ('p, 'f) IntentRecord) jsmap" where
  "evict [] recs = ([], recs)"
| "evict (i # order) recs =
     (if maxRetainedResults < length (i # order)
      then evict order (case jm_get recs i of
          Some r \<Rightarrow> if phase r = ph_terminal then jm_delete i recs else recs | None \<Rightarrow> recs)
      else (i # order, recs))"

definition result_matches :: "('p, 'f) IntentRecord \<Rightarrow> InputIntentResult \<Rightarrow> bool" where
  "result_matches r result \<longleftrightarrow> ir_localIntentId result = ib_localIntentId (base r) \<and>
     ir_kind result = ib_kind (base r) \<and> ir_consumedAtMs result = ib_consumedAtMs (base r) \<and>
     sameIdentity (ir_identity result) (record_identity r)"

definition unindex :: "string \<Rightarrow> ('p, 'f) IntentRecord \<Rightarrow> ('p, 'f) ledger \<Rightarrow> ('p, 'f) ledger" where
  "unindex i r l =
     (let l1 = (case r of PreAdmission b p n \<Rightarrow> removePreAdmission i n l | _ \<Rightarrow> l);
          l2 = (case r of Queued b a f d \<Rightarrow> removeQueued i (ad_encodedBytes a) l1 | _ \<Rightarrow> l1)
      in case record_identity r of
           None \<Rightarrow> l2
         | Some ident \<Rightarrow> l2\<lparr>il_activeByIdentity := jm_delete (identityKey ident) (il_activeByIdentity l2)\<rparr>)"

definition finish ::
  "('p, 'f) ledger \<Rightarrow> string \<Rightarrow> InputIntentResult \<Rightarrow> LedgerError + ('p, 'f) ledger option" where
  "finish l i result =
     (case jm_get (il_records l) i of
        None \<Rightarrow> Inr None
      | Some r \<Rightarrow>
          if phase r = ph_terminal then Inr None
          else if \<not> result_matches r result then Inl ResultMismatch
          else let l3 = put i (terminalRecord r result) (unindex i r l) in
            (case evict (il_terminalOrder l3 @ [i]) (il_records l3) of
               (order, recs) \<Rightarrow> Inr (Some (l3\<lparr>il_terminalOrder := order, il_records := recs\<rparr>))))"

text \<open>The earliest deadline over the pre-admission, queued, sent and terminating records.\<close>

definition earliest :: "int option \<Rightarrow> int \<Rightarrow> int option" where
  "earliest e d = Some (case e of None \<Rightarrow> d | Some m \<Rightarrow> min m d)"

definition earliestDeadline :: "('p, 'f) ledger \<Rightarrow> LedgerError + int option" where
  "earliestDeadline l =
     bindR (preAdmissionRecords l) (\<lambda>pre. bindR (queuedRecords l) (\<lambda>qs. bindR (activeRecords l) (\<lambda>act.
       let e1 = foldl (\<lambda>e r. earliest e (ib_consumedAtMs (base r) + maxPreAdmissionAgeMs)) None pre;
           e2 = foldl (\<lambda>e r. case deadlineAt r of Some d \<Rightarrow> earliest e d | None \<Rightarrow> e) e1 qs
       in Inr (foldl (\<lambda>e r. if phase r = ph_sent \<or> phase r = ph_terminating
            then (case deadlineAt r of Some d \<Rightarrow> earliest e d | None \<Rightarrow> e) else e) e2 act))))"

section \<open>The code's self-check\<close>

text \<open>The checks \<open>assertInvariants\<close> makes on one entry of the record map.\<close>

definition record_check :: "('p, 'f) ledger \<Rightarrow> string \<times> ('p, 'f) IntentRecord \<Rightarrow> bool" where
  "record_check l e = (case e of (i, r) \<Rightarrow>
     (case r of
        Consumed b \<Rightarrow> False
      | PreAdmission b p n \<Rightarrow> i \<in> set (il_preAdmissionIds l)
      | Queued b a f d \<Rightarrow> i \<in> set (il_queueIds l) \<and>
          jm_get (il_activeByIdentity l) (identityKey (ad_identity a)) = Some i
      | Sending b a f t \<Rightarrow> False
      | Sent b a t d \<Rightarrow> i \<notin> set (il_queueIds l) \<and> i \<notin> set (il_preAdmissionIds l) \<and>
          jm_get (il_activeByIdentity l) (identityKey (ad_identity a)) = Some i
      | Terminating b a t d q \<Rightarrow> i \<notin> set (il_queueIds l) \<and> i \<notin> set (il_preAdmissionIds l) \<and>
          jm_get (il_activeByIdentity l) (identityKey (ad_identity a)) = Some i
      | TerminalUnadmitted b res \<Rightarrow> i \<in> set (il_terminalOrder l) \<and> sameIdentity None (ir_identity res)
      | TerminalAdmitted b a t res \<Rightarrow> i \<in> set (il_terminalOrder l) \<and>
          sameIdentity (Some (ad_identity a)) (ir_identity res)))"

fun pre_bytes :: "('p, 'f) IntentRecord \<Rightarrow> int" where
  "pre_bytes (PreAdmission b p n) = int n"
| "pre_bytes r = 0"

fun queued_bytes :: "('p, 'f) IntentRecord \<Rightarrow> int" where
  "queued_bytes (Queued b a f d) = int (ad_encodedBytes a)"
| "queued_bytes r = 0"

definition identity_check :: "('p, 'f) ledger \<Rightarrow> string \<times> string \<Rightarrow> bool" where
  "identity_check l e = (case e of (k, i) \<Rightarrow>
     (case jm_get (il_records l) i of
        None \<Rightarrow> False
      | Some r \<Rightarrow> (case record_identity r of
          None \<Rightarrow> False | Some ident \<Rightarrow> phase r \<noteq> ph_terminal \<and> identityKey ident = k)))"

text \<open>\<open>True\<close> exactly when \<open>assertInvariants\<close> does not throw.\<close>

definition assertInvariants :: "('p, 'f) ledger \<Rightarrow> bool" where
  "assertInvariants l \<longleftrightarrow>
     distinct (il_preAdmissionIds l) \<and> distinct (il_queueIds l) \<and> distinct (il_terminalOrder l) \<and>
     list_all (record_check l) (il_records l) \<and>
     list_all (identity_check l) (il_activeByIdentity l) \<and>
     length (filter (\<lambda>(i, r). phase r = ph_terminal) (il_records l)) = length (il_terminalOrder l) \<and>
     sum_list (map (\<lambda>(i, r). pre_bytes r) (il_records l)) = il_preAdmissionBytes l \<and>
     sum_list (map (\<lambda>(i, r). queued_bytes r) (il_records l)) = il_queueBytes l \<and>
     length (il_preAdmissionIds l) + length (il_queueIds l) \<le> maxCount \<and>
     il_preAdmissionBytes l + il_queueBytes l \<le> maxBytes \<and>
     length (il_activeByIdentity l) \<le> maxPending \<and>
     length (il_terminalOrder l) \<le> maxRetainedResults"

section \<open>The inductive invariant\<close>

text \<open>An index of record identifiers: distinct, exact for a class of records, with an exact byte count.\<close>

definition bytes_of :: "(('p, 'f) IntentRecord \<Rightarrow> int) \<Rightarrow> (string \<rightharpoonup> ('p, 'f) IntentRecord) \<Rightarrow> string list \<Rightarrow> int" where
  "bytes_of g R ids = sum_list (map (\<lambda>i. case R i of Some r \<Rightarrow> g r | None \<Rightarrow> 0) ids)"

definition pre_index :: "(string \<rightharpoonup> ('p, 'f) IntentRecord) \<Rightarrow> string list \<Rightarrow> int \<Rightarrow> bool" where
  "pre_index R ids n \<longleftrightarrow> distinct ids \<and>
     (\<forall>i\<in>set ids. map_option phase (R i) = Some ph_pre_admission) \<and> n = bytes_of pre_bytes R ids"

definition queue_index :: "(string \<rightharpoonup> ('p, 'f) IntentRecord) \<Rightarrow> string list \<Rightarrow> int \<Rightarrow> bool" where
  "queue_index R ids n \<longleftrightarrow> distinct ids \<and>
     (\<forall>i. i \<in> set ids \<longleftrightarrow> map_option phase (R i) = Some ph_queued) \<and> n = bytes_of queued_bytes R ids"

definition terminal_index :: "(string \<rightharpoonup> ('p, 'f) IntentRecord) \<Rightarrow> string list \<Rightarrow> bool" where
  "terminal_index R ids \<longleftrightarrow> distinct ids \<and>
     (\<forall>i. i \<in> set ids \<longleftrightarrow> map_option phase (R i) = Some ph_terminal)"

definition active_key :: "('p, 'f) IntentRecord \<Rightarrow> string option" where
  "active_key r = (if phase r = ph_terminal then None else map_option identityKey (record_identity r))"

definition active_index :: "(string \<rightharpoonup> ('p, 'f) IntentRecord) \<Rightarrow> (string \<rightharpoonup> string) \<Rightarrow> bool" where
  "active_index R A \<longleftrightarrow> (\<forall>k i. A k = Some i \<longleftrightarrow> (\<exists>r. R i = Some r \<and> active_key r = Some k))"

definition terminal_ok :: "(string \<rightharpoonup> ('p, 'f) IntentRecord) \<Rightarrow> bool" where
  "terminal_ok R \<longleftrightarrow> (\<forall>i r. R i = Some r \<longrightarrow> ib_localIntentId (base r) = i \<and>
     (\<forall>res. record_result r = Some res \<longrightarrow> result_matches r res))"

definition ledger_inv :: "('p, 'f) ledger \<Rightarrow> bool" where
  "ledger_inv l \<longleftrightarrow>
     jm_wf (il_records l) \<and> jm_wf (il_activeByIdentity l) \<and> terminal_ok (jm_get (il_records l)) \<and>
     pre_index (jm_get (il_records l)) (il_preAdmissionIds l) (il_preAdmissionBytes l) \<and>
     queue_index (jm_get (il_records l)) (il_queueIds l) (il_queueBytes l) \<and>
     terminal_index (jm_get (il_records l)) (il_terminalOrder l) \<and>
     active_index (jm_get (il_records l)) (jm_get (il_activeByIdentity l)) \<and>
     length (il_queueIds l) \<le> maxCount \<and> il_queueBytes l \<le> maxBytes \<and>
     length (il_activeByIdentity l) \<le> maxPending \<and>
     length (il_terminalOrder l) \<le> maxRetainedResults"

lemma jm_get_put: "jm_get (il_records (put i r l)) = (jm_get (il_records l))(i \<mapsto> r)"
  by (rule ext) (simp add: put_def jm_get_set)

lemma bytes_of_upd: "i \<notin> set ids \<Longrightarrow> bytes_of g (R(i \<mapsto> r)) ids = bytes_of g R ids"
  unfolding bytes_of_def by (intro arg_cong [of _ _ sum_list] map_cong) auto

lemma bytes_of_remove:
  "i \<in> set ids \<Longrightarrow> R i = Some r \<Longrightarrow> bytes_of g R (remove1 i ids) = bytes_of g R ids - g r"
  by (induction ids) (auto simp: bytes_of_def)

lemma bytes_of_snoc: "bytes_of g R (ids @ [i]) = bytes_of g R ids + (case R i of Some r \<Rightarrow> g r | None \<Rightarrow> 0)"
  by (simp add: bytes_of_def)

lemma bytes_of_nonneg: "(\<And>r. 0 \<le> g r) \<Longrightarrow> 0 \<le> bytes_of g R ids"
  unfolding bytes_of_def by (induction ids) (auto split: option.split)

lemma pre_bytes_nonneg: "0 \<le> pre_bytes r" "0 \<le> queued_bytes r"
  by (cases r; simp)+

text \<open>How the indexes follow a change of one record.\<close>

lemma pre_index_upd: "pre_index R ids n \<Longrightarrow> i \<notin> set ids \<Longrightarrow> pre_index (R(i \<mapsto> r)) ids n"
  by (auto simp: pre_index_def bytes_of_upd)

lemma pre_index_remove:
  assumes "pre_index R ids n" "i \<in> set ids" "R i = Some r0"
  shows "pre_index (R(i \<mapsto> r)) (remove1 i ids) (n - pre_bytes r0)"
proof -
  have d: "distinct ids" using assms(1) by (simp add: pre_index_def)
  then have "i \<notin> set (remove1 i ids)" by simp
  with assms d bytes_of_remove [where R = R, OF assms(2) assms(3), of pre_bytes] show ?thesis
    by (auto simp: pre_index_def bytes_of_upd)
qed

lemma pre_index_add:
  assumes "pre_index R ids n" "i \<notin> set ids" "phase r = ph_pre_admission"
  shows "pre_index (R(i \<mapsto> r)) (ids @ [i]) (n + pre_bytes r)"
  using assms by (auto simp: pre_index_def bytes_of_snoc bytes_of_upd)

lemma queue_index_upd:
  "queue_index R ids n \<Longrightarrow> i \<notin> set ids \<Longrightarrow> phase r \<noteq> ph_queued \<Longrightarrow> queue_index (R(i \<mapsto> r)) ids n"
  by (auto simp: queue_index_def bytes_of_upd)

lemma queue_index_remove:
  assumes "queue_index R ids n" "i \<in> set ids" "R i = Some r0" "phase r \<noteq> ph_queued"
  shows "queue_index (R(i \<mapsto> r)) (remove1 i ids) (n - queued_bytes r0)"
proof -
  have d: "distinct ids" using assms(1) by (simp add: queue_index_def)
  then have "i \<notin> set (remove1 i ids)" by simp
  with assms d bytes_of_remove [where R = R, OF assms(2) assms(3), of queued_bytes] show ?thesis
    by (auto simp: queue_index_def bytes_of_upd)
qed

lemma queue_index_add:
  assumes "queue_index R ids n" "i \<notin> set ids" "phase r = ph_queued"
  shows "queue_index (R(i \<mapsto> r)) (ids @ [i]) (n + queued_bytes r)"
  using assms by (auto simp: queue_index_def bytes_of_snoc bytes_of_upd)

lemma terminal_index_upd:
  "terminal_index R ids \<Longrightarrow> map_option phase (R i) \<noteq> Some ph_terminal \<Longrightarrow> phase r \<noteq> ph_terminal \<Longrightarrow>
   terminal_index (R(i \<mapsto> r)) ids"
  by (auto simp: terminal_index_def)

lemma active_index_same:
  "active_index R A \<Longrightarrow> active_key r = Option.bind (R i) active_key \<Longrightarrow> active_index (R(i \<mapsto> r)) A"
  by (cases "R i") (auto simp: active_index_def)

lemma active_index_add:
  assumes "active_index R A" "Option.bind (R i) active_key = None" "active_key r = Some k" "A k = None"
  shows "active_index (R(i \<mapsto> r)) (A(k \<mapsto> i))"
proof -
  have iff: "A k' = Some j \<longleftrightarrow> (\<exists>r. R j = Some r \<and> active_key r = Some k')" for k' j
    using assms(1) by (simp add: active_index_def)
  have free: "\<not> (\<exists>r. R j = Some r \<and> active_key r = Some k)" for j
    using iff [of k j] assms(4) by simp
  have new: "\<not> (\<exists>r. R i = Some r \<and> active_key r = Some k')" for k'
    using assms(2) by (cases "R i") auto
  show ?thesis unfolding active_index_def
  proof (intro allI)
    fix k' j
    show "(A(k \<mapsto> i)) k' = Some j \<longleftrightarrow> (\<exists>r'. (R(i \<mapsto> r)) j = Some r' \<and> active_key r' = Some k')"
      using iff [of k' j] free [of j] new [of k'] assms(3) by (cases "k' = k"; cases "j = i") simp_all
  qed
qed

lemma active_index_remove:
  assumes "active_index R A" "R i = Some r0" "active_key r0 = Some k" "active_key r = None"
  shows "active_index (R(i \<mapsto> r)) (A(k := None))"
proof -
  have iff: "A k' = Some j \<longleftrightarrow> (\<exists>r. R j = Some r \<and> active_key r = Some k')" for k' j
    using assms(1) by (simp add: active_index_def)
  have "A k = Some i" using iff [of k i] assms(2,3) by simp
  then have only: "\<not> (\<exists>r. R j = Some r \<and> active_key r = Some k)" if "j \<noteq> i" for j
    using iff [of k j] that by simp
  show ?thesis unfolding active_index_def
  proof (intro allI)
    fix k' j
    show "(A(k := None)) k' = Some j \<longleftrightarrow> (\<exists>r'. (R(i \<mapsto> r)) j = Some r' \<and> active_key r' = Some k')"
      using iff [of k' j] iff [of k' i] only [of j] assms(2,3,4) by (cases "k' = k"; cases "j = i") auto
  qed
qed

end
