(* ===== verification/Intent_Ledger_Props.thy ===== *)
theory Intent_Ledger_Props
  imports Intent_Ledger
begin

text \<open>
  The ledger's operations keep its invariant: exact indexes, exact byte accounting, the product limits,
  and one immutable terminal result per intent.
\<close>

section \<open>Reading the invariant\<close>

lemma ledger_invD:
  assumes "ledger_inv l"
  shows "jm_wf (il_records l)" "jm_wf (il_activeByIdentity l)" "terminal_ok (jm_get (il_records l))"
    "pre_index (jm_get (il_records l)) (il_preAdmissionIds l) (il_preAdmissionBytes l)"
    "queue_index (jm_get (il_records l)) (il_queueIds l) (il_queueBytes l)"
    "terminal_index (jm_get (il_records l)) (il_terminalOrder l)"
    "active_index (jm_get (il_records l)) (jm_get (il_activeByIdentity l))"
    "length (il_queueIds l) \<le> maxCount" "il_queueBytes l \<le> maxBytes"
    "length (il_activeByIdentity l) \<le> maxPending" "length (il_terminalOrder l) \<le> maxRetainedResults"
  using assms by (simp_all add: ledger_inv_def)

lemma pre_index_mem: "pre_index R ids n \<Longrightarrow> i \<in> set ids \<Longrightarrow> \<exists>r. R i = Some r \<and> phase r = ph_pre_admission"
  by (auto simp: pre_index_def)

lemma queue_index_mem: "queue_index R ids n \<Longrightarrow> i \<in> set ids \<longleftrightarrow> (\<exists>r. R i = Some r \<and> phase r = ph_queued)"
  by (auto simp: queue_index_def)

lemma terminal_index_mem: "terminal_index R ids \<Longrightarrow> i \<in> set ids \<longleftrightarrow> (\<exists>r. R i = Some r \<and> phase r = ph_terminal)"
  by (auto simp: terminal_index_def)

lemma put_fields [simp]:
  "il_activeByIdentity (put i r l) = il_activeByIdentity l" "il_terminalOrder (put i r l) = il_terminalOrder l"
  "il_preAdmissionIds (put i r l) = il_preAdmissionIds l"
  "il_preAdmissionBytes (put i r l) = il_preAdmissionBytes l"
  "il_queueIds (put i r l) = il_queueIds l" "il_queueBytes (put i r l) = il_queueBytes l"
  by (simp_all add: put_def)

lemma jm_wf_put: "jm_wf (il_records l) \<Longrightarrow> jm_wf (il_records (put i r l))"
  by (simp add: put_def)

lemma terminal_ok_upd:
  "terminal_ok R \<Longrightarrow> ib_localIntentId (base r) = i \<Longrightarrow> record_result r = None \<or> (\<exists>res. record_result r = Some res \<and> result_matches r res) \<Longrightarrow>
   terminal_ok (R(i \<mapsto> r))"
  by (auto simp: terminal_ok_def)

lemma phase_result: "phase r \<noteq> ph_terminal \<Longrightarrow> record_result r = None"
  by (cases r) auto

lemma requirePhase_Inr_iff: "requirePhase l i ph = Inr r \<longleftrightarrow> jm_get (il_records l) i = Some r \<and> phase r = ph"
  by (auto simp: requirePhase_def split: option.splits)

lemma phase_cases:
  "phase r = ph_consumed \<longleftrightarrow> (\<exists>b. r = Consumed b)"
  "phase r = ph_pre_admission \<longleftrightarrow> (\<exists>b p n. r = PreAdmission b p n)"
  "phase r = ph_queued \<longleftrightarrow> (\<exists>b a f d. r = Queued b a f d)"
  "phase r = ph_sending \<longleftrightarrow> (\<exists>b a f t. r = Sending b a f t)"
  "phase r = ph_sent \<longleftrightarrow> (\<exists>b a t d. r = Sent b a t d)"
  "phase r = ph_terminating \<longleftrightarrow> (\<exists>b a t d q. r = Terminating b a t d q)"
  by (cases r; simp)+

lemma active_key_simps [simp]:
  "active_key (Consumed b) = None" "active_key (PreAdmission b p n) = None"
  "active_key (Queued b a f d) = Some (identityKey (ad_identity a))"
  "active_key (Sending b a f t) = Some (identityKey (ad_identity a))"
  "active_key (Sent b a t d) = Some (identityKey (ad_identity a))"
  "active_key (Terminating b a t d q) = Some (identityKey (ad_identity a))"
  "active_key (TerminalUnadmitted b res) = None" "active_key (TerminalAdmitted b a t' res) = None"
  by (simp_all add: active_key_def record_identity_def)

text \<open>Replacing a record by one that is indexed the same way.\<close>

lemma inv_put_same:
  assumes inv: "ledger_inv l" and i: "i \<notin> set (il_preAdmissionIds l)" "i \<notin> set (il_queueIds l)"
    and old: "map_option phase (jm_get (il_records l) i) \<noteq> Some ph_terminal"
    and new: "phase r \<noteq> ph_queued" "phase r \<noteq> ph_terminal" "ib_localIntentId (base r) = i"
    and key: "active_key r = Option.bind (jm_get (il_records l) i) active_key"
  shows "ledger_inv (put i r l)"
  using ledger_invD [OF inv] i old new key
  by (simp add: ledger_inv_def jm_get_put jm_wf_put pre_index_upd queue_index_upd terminal_index_upd
      active_index_same terminal_ok_upd phase_result)

section \<open>The operations\<close>

lemma createConsumed_inv:
  assumes inv: "ledger_inv l" and op: "createConsumed l i now = Inr l'"
  shows "ledger_inv l'"
proof -
  from op have none: "jm_get (il_records l) i = None"
    and l': "l' = put i (Consumed \<lparr>ib_localIntentId = i, ib_kind = kind_unknown, ib_consumedAtMs = now\<rparr>) l"
    by (auto simp: createConsumed_def split: if_splits)
  show ?thesis unfolding l'
    using none pre_index_mem [OF ledger_invD(4) [OF inv], of i] queue_index_mem [OF ledger_invD(5) [OF inv], of i]
    by (intro inv_put_same [OF inv]) auto
qed

lemma identify_inv:
  assumes inv: "ledger_inv l" and op: "identify l i k = Inr l'"
  shows "ledger_inv l'"
proof -
  from op obtain b where b: "jm_get (il_records l) i = Some (Consumed b)"
    and l': "l' = put i (Consumed (b\<lparr>ib_kind := k\<rparr>)) l"
    by (auto simp: identify_def bindR_Inr_iff requirePhase_Inr_iff phase_cases)
  have "ib_localIntentId b = i" using ledger_invD(3) [OF inv] b by (force simp: terminal_ok_def)
  then show ?thesis unfolding l'
    using b pre_index_mem [OF ledger_invD(4) [OF inv], of i] queue_index_mem [OF ledger_invD(5) [OF inv], of i]
    by (intro inv_put_same [OF inv]) auto
qed

lemma enqueuePreAdmission_inv:
  assumes inv: "ledger_inv l" and op: "enqueuePreAdmission l i p n = Inr l'"
  shows "ledger_inv l'"
proof -
  note D = ledger_invD [OF inv]
  from op obtain b where b: "jm_get (il_records l) i = Some (Consumed b)"
    and l': "l' = (put i (PreAdmission b p n) l)\<lparr>il_preAdmissionIds := il_preAdmissionIds l @ [i],
      il_preAdmissionBytes := il_preAdmissionBytes l + int n\<rparr>"
    by (auto simp: enqueuePreAdmission_def bindR_Inr_iff requirePhase_Inr_iff phase_cases split: if_splits)
  have id: "ib_localIntentId b = i" using D(3) b by (force simp: terminal_ok_def)
  have i: "i \<notin> set (il_preAdmissionIds l)" "i \<notin> set (il_queueIds l)"
    using b pre_index_mem [OF D(4), of i] queue_index_mem [OF D(5), of i] by auto
  have "pre_index ((jm_get (il_records l))(i \<mapsto> PreAdmission b p n)) (il_preAdmissionIds l @ [i])
      (il_preAdmissionBytes l + int n)"
    using pre_index_add [OF D(4) i(1), of "PreAdmission b p n"] by simp
  with D i b id show ?thesis unfolding l'
    by (simp add: ledger_inv_def jm_get_put jm_wf_put queue_index_upd terminal_index_upd active_index_same
        terminal_ok_upd)
qed

lemma takePreAdmission_inv:
  "ledger_inv l \<Longrightarrow> takePreAdmission l = Inr (l', rs) \<Longrightarrow> ledger_inv l'"
  by (auto simp: takePreAdmission_def bindR_Inr_iff ledger_inv_def pre_index_def bytes_of_def)

text \<open>Admission is for records the caller has taken from the pre-admission index.\<close>

lemma admit_inv:
  assumes inv: "ledger_inv l" and taken: "i \<notin> set (il_preAdmissionIds l)"
    and op: "admit l i a frame d = Inr l'"
  shows "ledger_inv l'"
proof -
  note D = ledger_invD [OF inv]
  let ?key = "identityKey (ad_identity a)"
  from op obtain b p n where b: "jm_get (il_records l) i = Some (PreAdmission b p n)"
    and can: "canAdmit l (ad_encodedBytes a)" and free: "jm_get (il_activeByIdentity l) ?key = None"
    and l': "l' = (put i (Queued b a frame d) l)\<lparr>il_queueIds := il_queueIds l @ [i],
      il_queueBytes := il_queueBytes l + int (ad_encodedBytes a),
      il_activeByIdentity := jm_set ?key i (il_activeByIdentity l)\<rparr>"
    by (auto simp: admit_def bindR_Inr_iff requirePhase_Inr_iff phase_cases split: if_splits)
  have id: "ib_localIntentId b = i" using D(3) b by (force simp: terminal_ok_def)
  have iq: "i \<notin> set (il_queueIds l)" using b queue_index_mem [OF D(5), of i] by auto
  have q: "queue_index ((jm_get (il_records l))(i \<mapsto> Queued b a frame d)) (il_queueIds l @ [i])
      (il_queueBytes l + int (ad_encodedBytes a))"
    using queue_index_add [OF D(5) iq, of "Queued b a frame d"] by simp
  have A: "jm_get (jm_set ?key i (il_activeByIdentity l)) = (jm_get (il_activeByIdentity l))(?key \<mapsto> i)"
    by (rule ext) (simp add: jm_get_set)
  have act: "active_index ((jm_get (il_records l))(i \<mapsto> Queued b a frame d))
      ((jm_get (il_activeByIdentity l))(?key \<mapsto> i))"
    by (rule active_index_add [OF D(7)]) (simp_all add: b free)
  have len: "length (jm_set ?key i (il_activeByIdentity l)) \<le> maxPending"
    using can by (simp add: canAdmit_def length_jm_set)
  show ?thesis unfolding l' using D q act len taken b id can
    by (simp add: ledger_inv_def jm_get_put jm_wf_put A pre_index_upd terminal_index_upd terminal_ok_upd canAdmit_def)
qed

lemma startSending_inv:
  assumes inv: "ledger_inv l" and op: "startSending l i t = Inr l'"
  shows "ledger_inv l'"
proof -
  note D = ledger_invD [OF inv]
  from op obtain b a f d where b: "jm_get (il_records l) i = Some (Queued b a f d)"
    and l': "l' = put i (Sending b a f t) (removeQueued i (ad_encodedBytes a) l)"
    by (auto simp: startSending_def bindR_Inr_iff requirePhase_Inr_iff phase_cases)
  have id: "ib_localIntentId b = i" using D(3) b by (force simp: terminal_ok_def)
  have i: "i \<notin> set (il_preAdmissionIds l)" "i \<in> set (il_queueIds l)"
    using b pre_index_mem [OF D(4), of i] queue_index_mem [OF D(5), of i] by auto
  have q: "queue_index ((jm_get (il_records l))(i \<mapsto> Sending b a f t)) (remove1 i (il_queueIds l))
      (il_queueBytes l - int (ad_encodedBytes a))"
    using queue_index_remove [OF D(5) i(2) b, of "Sending b a f t"] by simp
  have "length (remove1 i (il_queueIds l)) \<le> maxCount" using D(8) length_remove1 [of i "il_queueIds l"] by (simp split: if_splits)
  with D q i b id show ?thesis unfolding l' removeQueued_def
    by (simp add: ledger_inv_def jm_get_put jm_wf_put pre_index_upd terminal_index_upd active_index_same
        terminal_ok_upd)
qed

lemma markSent_inv:
  assumes inv: "ledger_inv l" and op: "markSent l i d = Inr l'"
  shows "ledger_inv l'"
proof -
  from op obtain b a f t where b: "jm_get (il_records l) i = Some (Sending b a f t)" and l': "l' = put i (Sent b a t d) l"
    by (auto simp: markSent_def bindR_Inr_iff requirePhase_Inr_iff phase_cases)
  have "ib_localIntentId b = i" using ledger_invD(3) [OF inv] b by (force simp: terminal_ok_def)
  then show ?thesis unfolding l'
    using b pre_index_mem [OF ledger_invD(4) [OF inv], of i] queue_index_mem [OF ledger_invD(5) [OF inv], of i]
    by (intro inv_put_same [OF inv]) auto
qed

lemma beginTermination_inv:
  assumes inv: "ledger_inv l" and op: "beginTermination l i q d = Some l'"
  shows "ledger_inv l'"
proof -
  from op obtain r b a t where r: "jm_get (il_records l) i = Some r" "ib_localIntentId b = ib_localIntentId (base r)"
      "phase r = ph_sending \<or> phase r = ph_sent" "active_key r = Some (identityKey (ad_identity a))"
    and l': "l' = put i (Terminating b a t d q) l"
    by (auto simp: beginTermination_def split: option.splits IntentRecord.splits)
  have "ib_localIntentId b = i" using ledger_invD(3) [OF inv] r(1,2) by (force simp: terminal_ok_def)
  then show ?thesis unfolding l'
    using r pre_index_mem [OF ledger_invD(4) [OF inv], of i] queue_index_mem [OF ledger_invD(5) [OF inv], of i]
    by (intro inv_put_same [OF inv]) auto
qed

section \<open>\<open>finish\<close>\<close>

text \<open>What the retention loop keeps while it drops the oldest terminal records.\<close>

definition retention_inv ::
  "('p, 'f) ledger \<Rightarrow> string list \<Rightarrow> (string, ('p, 'f) IntentRecord) jsmap \<Rightarrow> bool" where
  "retention_inv l order recs \<longleftrightarrow> jm_wf recs \<and> terminal_ok (jm_get recs) \<and>
     pre_index (jm_get recs) (il_preAdmissionIds l) (il_preAdmissionBytes l) \<and>
     queue_index (jm_get recs) (il_queueIds l) (il_queueBytes l) \<and>
     terminal_index (jm_get recs) order \<and> active_index (jm_get recs) (jm_get (il_activeByIdentity l))"

lemma bytes_of_None: "i \<notin> set ids \<Longrightarrow> bytes_of g (R(i := None)) ids = bytes_of g R ids"
  unfolding bytes_of_def by (intro arg_cong [of _ _ sum_list] map_cong) auto

lemma drop_terminal:
  assumes "retention_inv l (i # order) recs"
  shows "\<exists>r. jm_get recs i = Some r \<and> phase r = ph_terminal \<and> retention_inv l order (jm_delete i recs)"
proof -
  let ?R = "jm_get recs"
  note D = assms [unfolded retention_inv_def]
  from D have t: "terminal_index ?R (i # order)" by blast
  then obtain r where r: "?R i = Some r" "phase r = ph_terminal"
    using terminal_index_mem [of ?R "i # order" i] by auto
  have del: "jm_get (jm_delete i recs) = ?R(i := None)" by (rule ext) (simp add: jm_get_delete)
  have ids: "i \<notin> set (il_preAdmissionIds l)" "i \<notin> set (il_queueIds l)"
    using D r pre_index_mem [of ?R "il_preAdmissionIds l" _ i] queue_index_mem [of ?R "il_queueIds l" _ i] by auto
  have "active_key r = None" using r(2) by (simp add: active_key_def)
  then have act: "active_index (?R(i := None)) (jm_get (il_activeByIdentity l))"
    using D r(1) by (auto simp: active_index_def)
  have "pre_index (?R(i := None)) (il_preAdmissionIds l) (il_preAdmissionBytes l)"
    using D ids by (auto simp: pre_index_def bytes_of_None)
  moreover have "queue_index (?R(i := None)) (il_queueIds l) (il_queueBytes l)"
    using D ids r by (auto simp: queue_index_def bytes_of_None)
  moreover have "terminal_index (?R(i := None)) order" using t by (auto simp: terminal_index_def)
  moreover have "terminal_ok (?R(i := None))" using D by (auto simp: terminal_ok_def)
  moreover have "jm_wf (jm_delete i recs)" using D by (simp add: jm_wf_delete)
  ultimately show ?thesis using r act unfolding retention_inv_def del by blast
qed

lemma evict_inv:
  "retention_inv l order recs \<Longrightarrow> evict order recs = (order', recs') \<Longrightarrow>
   retention_inv l order' recs' \<and> length order' \<le> maxRetainedResults \<and>
   (\<forall>i. jm_get recs' i = jm_get recs i \<or> jm_get recs' i = None)"
proof (induction order arbitrary: recs)
  case Nil
  then show ?case by simp
next
  case (Cons i order)
  from drop_terminal [OF Cons.prems(1)] obtain r where r: "jm_get recs i = Some r" "phase r = ph_terminal"
    and next_inv: "retention_inv l order (jm_delete i recs)" by blast
  show ?case
  proof (cases "maxRetainedResults < length (i # order)")
    case True
    with Cons.prems(2) r have "evict order (jm_delete i recs) = (order', recs')" by simp
    note IH = Cons.IH [OF next_inv this]
    have "jm_get recs' j = jm_get recs j \<or> jm_get recs' j = None" for j
      using conjunct2 [OF conjunct2 [OF IH], rule_format, of j] by (cases "j = i") (simp_all add: jm_get_delete)
    with IH show ?thesis by blast
  next
    case False
    with Cons.prems show ?thesis by auto
  qed
qed

lemma unindex_fields [simp]:
  "il_records (unindex i r l) = il_records l" "il_terminalOrder (unindex i r l) = il_terminalOrder l"
  by (cases r; auto simp: unindex_def record_identity_def removePreAdmission_def removeQueued_def)+

lemma terminalRecord_phase: "phase (terminalRecord r res) = ph_terminal" "base (terminalRecord r res) = base r"
  "record_result (terminalRecord r res) = Some res"
  "phase r \<noteq> ph_terminal \<Longrightarrow> record_identity (terminalRecord r res) = record_identity r"
  by (cases r; auto simp: terminalRecord_def record_identity_def)+

text \<open>Taking the record out of its indexes and writing the terminal record over it.\<close>

lemma finish_indexes:
  assumes inv: "ledger_inv l" and r: "jm_get (il_records l) i = Some r" "phase r \<noteq> ph_terminal"
    and m: "result_matches r res"
  shows "retention_inv (unindex i r l) (il_terminalOrder l @ [i]) (jm_set i (terminalRecord r res) (il_records l))"
    and "length (il_queueIds (unindex i r l)) \<le> maxCount" "il_queueBytes (unindex i r l) \<le> maxBytes"
    "length (il_activeByIdentity (unindex i r l)) \<le> maxPending" "jm_wf (il_activeByIdentity (unindex i r l))"
proof -
  note D = ledger_invD [OF inv]
  let ?R = "jm_get (il_records l)" and ?l = "unindex i r l" and ?t = "terminalRecord r res"
  have R': "jm_get (jm_set i ?t (il_records l)) = ?R(i \<mapsto> ?t)" by (rule ext) (simp add: jm_get_set)
  have id: "ib_localIntentId (base r) = i" using D(3) r(1) by (auto simp: terminal_ok_def)
  have tph: "phase ?t = ph_terminal" by (rule terminalRecord_phase)
  have pre: "pre_index (?R(i \<mapsto> ?t)) (il_preAdmissionIds ?l) (il_preAdmissionBytes ?l)"
  proof (cases "i \<in> set (il_preAdmissionIds l)")
    case True
    with pre_index_mem [OF D(4), of i] r(1) obtain b p n where rp: "r = PreAdmission b p n" by (auto simp: phase_cases)
    with pre_index_remove [OF D(4) True r(1), of ?t] True show ?thesis
      by (simp add: unindex_def removePreAdmission_def record_identity_def)
  next
    case False
    have "il_preAdmissionIds ?l = il_preAdmissionIds l \<and> il_preAdmissionBytes ?l = il_preAdmissionBytes l"
      using False by (cases r) (auto simp: unindex_def removePreAdmission_def removeQueued_def record_identity_def)
    with pre_index_upd [OF D(4) False] show ?thesis by simp
  qed
  have queue: "queue_index (?R(i \<mapsto> ?t)) (il_queueIds ?l) (il_queueBytes ?l) \<and>
      length (il_queueIds ?l) \<le> maxCount \<and> il_queueBytes ?l \<le> maxBytes"
  proof (cases "i \<in> set (il_queueIds l)")
    case True
    with queue_index_mem [OF D(5), of i] r(1) obtain b a f d where rq: "r = Queued b a f d" by (auto simp: phase_cases)
    have "length (remove1 i (il_queueIds l)) \<le> maxCount"
      using D(8) length_remove1 [of i "il_queueIds l"] by (simp split: if_splits)
    with queue_index_remove [OF D(5) True r(1), of ?t] True rq tph D(9) show ?thesis
      by (simp add: unindex_def removeQueued_def record_identity_def)
  next
    case False
    have "il_queueIds ?l = il_queueIds l \<and> il_queueBytes ?l = il_queueBytes l"
      using False by (cases r) (auto simp: unindex_def removePreAdmission_def removeQueued_def record_identity_def)
    with queue_index_upd [OF D(5) False, of ?t] tph D(8,9) show ?thesis by simp
  qed
  then show "length (il_queueIds ?l) \<le> maxCount" "il_queueBytes ?l \<le> maxBytes" by simp_all
  have act: "active_index (?R(i \<mapsto> ?t)) (jm_get (il_activeByIdentity ?l)) \<and>
      length (il_activeByIdentity ?l) \<le> maxPending \<and> jm_wf (il_activeByIdentity ?l)"
  proof (cases "record_identity r")
    case None
    have "il_activeByIdentity ?l = il_activeByIdentity l"
      using None by (cases r) (auto simp: unindex_def removePreAdmission_def removeQueued_def record_identity_def)
    moreover have "active_key r = None" "active_key ?t = None"
      using None tph by (simp_all add: active_key_def)
    ultimately show ?thesis using active_index_same [OF D(7), of ?t i] r(1) D(2,10) by simp
  next
    case (Some ident)
    have A: "il_activeByIdentity ?l = jm_delete (identityKey ident) (il_activeByIdentity l)"
      using Some by (cases r) (auto simp: unindex_def removePreAdmission_def removeQueued_def record_identity_def)
    have "jm_get (jm_delete (identityKey ident) (il_activeByIdentity l)) =
        (jm_get (il_activeByIdentity l))(identityKey ident := None)" by (rule ext) (simp add: jm_get_delete)
    moreover have "active_key r = Some (identityKey ident)" "active_key ?t = None"
      using Some r(2) tph by (simp_all add: active_key_def)
    ultimately show ?thesis
      using active_index_remove [OF D(7) r(1)] D(2,10) length_jm_delete_le [of "identityKey ident" "il_activeByIdentity l"]
      by (simp add: A jm_wf_delete)
  qed
  then show "length (il_activeByIdentity ?l) \<le> maxPending" "jm_wf (il_activeByIdentity ?l)" by simp_all
  have "i \<notin> set (il_terminalOrder l)" using terminal_index_mem [OF D(6), of i] r by auto
  then have trm: "terminal_index (?R(i \<mapsto> ?t)) (il_terminalOrder l @ [i])"
    using D(6) tph by (auto simp: terminal_index_def)
  have "result_matches ?t res"
    using m terminalRecord_phase(2,4) [of r res] r(2) by (simp add: result_matches_def)
  then have "terminal_ok (?R(i \<mapsto> ?t))"
    using id by (intro terminal_ok_upd [OF D(3)]) (simp_all add: terminalRecord_phase)
  with pre queue act trm D(1)
  show "retention_inv ?l (il_terminalOrder l @ [i]) (jm_set i ?t (il_records l))"
    unfolding retention_inv_def R' by simp
qed

lemma finish_inv:
  assumes inv: "ledger_inv l" and op: "finish l i res = Inr (Some l')"
  shows "ledger_inv l'"
proof -
  from op obtain r where r: "jm_get (il_records l) i = Some r" "phase r \<noteq> ph_terminal" "result_matches r res"
    by (auto simp: finish_def split: option.splits if_splits)
  obtain order recs where e: "evict (il_terminalOrder l @ [i]) (jm_set i (terminalRecord r res) (il_records l)) =
    (order, recs)" by fastforce
  note fi = finish_indexes [OF inv r]
  from op r e have l': "l' = (put i (terminalRecord r res) (unindex i r l))\<lparr>il_terminalOrder := order, il_records := recs\<rparr>"
    by (simp add: finish_def Let_def put_def)
  from evict_inv [OF fi(1) e] fi(2-5) show ?thesis unfolding l'
    by (simp add: ledger_inv_def retention_inv_def put_def)
qed

section \<open>The ledger as a step relation\<close>

text \<open>
  One step is one successful mutating operation. Admission is only for records its caller took from
  the pre-admission index before, as the dispatcher does.
\<close>

inductive ledger_step :: "('p, 'f) ledger \<Rightarrow> ('p, 'f) ledger \<Rightarrow> bool" where
  create: "createConsumed l i now = Inr l' \<Longrightarrow> ledger_step l l'"
| identify: "identify l i k = Inr l' \<Longrightarrow> ledger_step l l'"
| enqueue: "enqueuePreAdmission l i p n = Inr l' \<Longrightarrow> ledger_step l l'"
| take: "takePreAdmission l = Inr (l', rs) \<Longrightarrow> ledger_step l l'"
| admit: "i \<notin> set (il_preAdmissionIds l) \<Longrightarrow> admit l i a f d = Inr l' \<Longrightarrow> ledger_step l l'"
| sending: "startSending l i t = Inr l' \<Longrightarrow> ledger_step l l'"
| sent: "markSent l i d = Inr l' \<Longrightarrow> ledger_step l l'"
| terminating: "beginTermination l i q d = Some l' \<Longrightarrow> ledger_step l l'"
| finish: "finish l i res = Inr (Some l') \<Longrightarrow> ledger_step l l'"

inductive ledger_reachable :: "('p, 'f) ledger \<Rightarrow> bool" where
  empty: "ledger_reachable emptyLedger"
| step: "ledger_reachable l \<Longrightarrow> ledger_step l l' \<Longrightarrow> ledger_reachable l'"

lemma ledger_step_inv: "ledger_step l l' \<Longrightarrow> ledger_inv l \<Longrightarrow> ledger_inv l'"
  by (induction rule: ledger_step.induct)
    (blast intro: createConsumed_inv identify_inv enqueuePreAdmission_inv takePreAdmission_inv admit_inv
      startSending_inv markSent_inv beginTermination_inv finish_inv)+

lemma emptyLedger_inv: "ledger_inv emptyLedger"
  by (simp add: ledger_inv_def emptyLedger_def terminal_ok_def pre_index_def queue_index_def terminal_index_def
      active_index_def bytes_of_def maxBytes_def)

lemma ledger_reachable_inv: "ledger_reachable l \<Longrightarrow> ledger_inv l"
  by (induction rule: ledger_reachable.induct) (auto intro: emptyLedger_inv ledger_step_inv)

text \<open>
  The intent ledger stays within its product limits with exact indexes: in every reachable state
  the queue holds exactly the queued intents and the retention order exactly the terminal ones, the
  identity index maps exactly the live identities to their intents, the queued byte count is the sum
  over the queue, and count, bytes, pending identities and retained results respect their limits.
\<close>

theorem ledger_limits:
  assumes "ledger_reachable l"
  shows "(\<forall>i. i \<in> set (il_queueIds l) \<longleftrightarrow> (\<exists>r. jm_get (il_records l) i = Some r \<and> phase r = ph_queued)) \<and>
    (\<forall>i. i \<in> set (il_terminalOrder l) \<longleftrightarrow> (\<exists>r. jm_get (il_records l) i = Some r \<and> phase r = ph_terminal)) \<and>
    (\<forall>k i. jm_get (il_activeByIdentity l) k = Some i \<longleftrightarrow>
      (\<exists>r. jm_get (il_records l) i = Some r \<and> active_key r = Some k)) \<and>
    il_queueBytes l = bytes_of queued_bytes (jm_get (il_records l)) (il_queueIds l) \<and>
    0 \<le> il_queueBytes l \<and> il_queueBytes l \<le> 6 * 1024 * 1024 + 4096 \<and>
    length (il_queueIds l) \<le> 256 \<and> length (il_activeByIdentity l) \<le> 1024 \<and> length (il_terminalOrder l) \<le> 4096"
proof -
  note D = ledger_invD [OF ledger_reachable_inv [OF assms]]
  have "il_queueBytes l = bytes_of queued_bytes (jm_get (il_records l)) (il_queueIds l)"
    using D(5) by (simp add: queue_index_def)
  moreover have "0 \<le> bytes_of queued_bytes (jm_get (il_records l)) (il_queueIds l)"
    by (rule bytes_of_nonneg) (rule pre_bytes_nonneg)
  ultimately show ?thesis
    using D(7-11) queue_index_mem [OF D(5)] terminal_index_mem [OF D(6)]
    by (simp add: input_queue_contract active_index_def)
qed

section \<open>One terminal result\<close>

lemma put_result:
  "phase r \<noteq> ph_terminal \<Longrightarrow> map_option phase (jm_get (il_records l) j) \<noteq> Some ph_terminal \<Longrightarrow>
   getResult (put j r l) i = getResult l i"
proof -
  assume "phase r \<noteq> ph_terminal" "map_option phase (jm_get (il_records l) j) \<noteq> Some ph_terminal"
  then have "record_result r = None" "getResult l j = None"
    by (cases "jm_get (il_records l) j"; simp add: getResult_def phase_result)+
  then show ?thesis by (simp add: getResult_def jm_get_put)
qed

lemma finish_result:
  assumes inv: "ledger_inv l" and op: "finish l j res = Inr (Some l')" and some: "getResult l i = Some r"
  shows "getResult l' i = Some r \<or> getResult l' i = None"
proof -
  from op obtain r0 where r0: "jm_get (il_records l) j = Some r0" "phase r0 \<noteq> ph_terminal" "result_matches r0 res"
    by (auto simp: finish_def split: option.splits if_splits)
  obtain order recs where e: "evict (il_terminalOrder l @ [j]) (jm_set j (terminalRecord r0 res) (il_records l)) =
    (order, recs)" by fastforce
  from op r0 e have "l' = (put j (terminalRecord r0 res) (unindex j r0 l))\<lparr>il_terminalOrder := order, il_records := recs\<rparr>"
    by (simp add: finish_def Let_def put_def)
  then have l': "il_records l' = recs" by simp
  have "i \<noteq> j" using some r0 by (auto simp: getResult_def phase_result)
  moreover have "jm_get recs i = jm_get (jm_set j (terminalRecord r0 res) (il_records l)) i \<or> jm_get recs i = None"
    by (rule conjunct2 [OF conjunct2 [OF evict_inv [OF finish_indexes(1) [OF inv r0] e]], rule_format])
  ultimately show ?thesis using some by (simp add: getResult_def l' jm_get_set) (elim disjE; simp)
qed

lemma step_result:
  assumes "ledger_step l l'" "ledger_inv l" "getResult l i = Some r"
  shows "getResult l' i = Some r \<or> getResult l' i = None"
  using assms
proof (induction rule: ledger_step.induct)
  case (create l j now l')
  then show ?case by (auto simp: createConsumed_def put_result split: if_splits)
next
  case (identify l j k l')
  then show ?case by (auto simp: identify_def bindR_Inr_iff requirePhase_Inr_iff put_result)
next
  case (enqueue l j p n l')
  then obtain b where "jm_get (il_records l) j = Some b" "phase b = ph_consumed"
    "il_records l' = il_records (put j (PreAdmission (base b) p n) l)"
    by (auto simp: enqueuePreAdmission_def bindR_Inr_iff requirePhase_Inr_iff split: if_splits)
  with enqueue put_result [of "PreAdmission (base b) p n" l j i] show ?case by (simp add: getResult_def)
next
  case (take l l' rs)
  then show ?case by (auto simp: takePreAdmission_def bindR_Inr_iff getResult_def)
next
  case (admit j l a f d l')
  then obtain b where "jm_get (il_records l) j = Some b" "phase b = ph_pre_admission"
    "il_records l' = il_records (put j (Queued (base b) a f d) l)"
    by (auto simp: admit_def bindR_Inr_iff requirePhase_Inr_iff split: if_splits)
  with admit put_result [of "Queued (base b) a f d" l j i] show ?case by (simp add: getResult_def)
next
  case (sending l j t l')
  then obtain b a f d where "jm_get (il_records l) j = Some (Queued b a f d)"
    "il_records l' = il_records (put j (Sending b a f t) l)"
    by (auto simp: startSending_def bindR_Inr_iff requirePhase_Inr_iff phase_cases removeQueued_def put_def
        split: if_splits)
  with sending put_result [of "Sending b a f t" l j i] show ?case by (simp add: getResult_def)
next
  case (sent l j d l')
  then show ?case by (auto simp: markSent_def bindR_Inr_iff requirePhase_Inr_iff phase_cases put_result)
next
  case (terminating l j q d l')
  then show ?case
    by (auto simp: beginTermination_def put_result split: option.splits IntentRecord.splits)
next
  case (finish l j res l')
  show ?case by (rule finish_result [OF finish(2) finish(1) finish(3)])
qed

text \<open>
  Every intent has one immutable terminal result: once a result is recorded, finishing the intent
  again is refused, and no operation replaces the result; it can only be dropped by the bounded
  retention.
\<close>

theorem terminal_result_immutable:
  assumes "ledger_reachable l" and "getResult l i = Some r"
  shows "finish l i r' = Inr None \<and> (\<forall>l'. ledger_step l l' \<longrightarrow> getResult l' i = Some r \<or> getResult l' i = None)"
proof -
  from assms(2) obtain q where "jm_get (il_records l) i = Some q" "record_result q = Some r"
    by (cases "jm_get (il_records l) i") (auto simp: getResult_def)
  moreover from this(2) have "phase q = ph_terminal" by (cases q) auto
  ultimately have "finish l i r' = Inr None" by (simp add: finish_def)
  moreover have "getResult l' i = Some r \<or> getResult l' i = None" if "ledger_step l l'" for l'
    by (rule step_result [OF that ledger_reachable_inv [OF assms(1)] assms(2)])
  ultimately show ?thesis by simp
qed

section \<open>The self-check of a settled ledger\<close>

lemma sum_records:
  assumes "jm_wf m"
  shows "sum_list (map (\<lambda>(i, r). g r) m) =
    (\<Sum>i\<in>fst ` set m. case jm_get m i of Some r \<Rightarrow> g r | None \<Rightarrow> (0 :: int))"
proof -
  have d: "distinct (map fst m)" using assms by (simp add: jm_wf_def)
  have "sum_list (map (\<lambda>(i, r). g r) m) = sum_list (map (\<lambda>i. case jm_get m i of Some r \<Rightarrow> g r | None \<Rightarrow> 0) (map fst m))"
    unfolding map_map using jm_mem_iff [OF assms] by (intro arg_cong [of _ _ sum_list] map_cong) auto
  also have "\<dots> = (\<Sum>i\<in>set (map fst m). case jm_get m i of Some r \<Rightarrow> g r | None \<Rightarrow> 0)"
    by (rule sum_list_distinct_conv_sum_set [OF d])
  finally show ?thesis by simp
qed

lemma sum_indexed:
  assumes "jm_wf m" "distinct ids"
    and sub: "\<And>i. i \<in> set ids \<Longrightarrow> jm_get m i \<noteq> None"
    and zero: "\<And>i r. jm_get m i = Some r \<Longrightarrow> i \<notin> set ids \<Longrightarrow> g r = (0 :: int)"
  shows "sum_list (map (\<lambda>(i, r). g r) m) = bytes_of g (jm_get m) ids"
proof -
  let ?h = "\<lambda>i. case jm_get m i of Some r \<Rightarrow> g r | None \<Rightarrow> 0"
  have "set ids \<subseteq> fst ` set m" using sub jm_get_None_iff [of m] by blast
  then have "sum ?h (fst ` set m) = sum ?h (set ids)"
    using zero by (intro sum.mono_neutral_right) (auto split: option.split)
  then show ?thesis
    by (simp add: sum_records [OF assms(1)] bytes_of_def sum_list_distinct_conv_sum_set [OF assms(2)])
qed

lemma count_terminal:
  assumes wf: "jm_wf m" and t: "terminal_index (jm_get m) ids"
  shows "length (filter (\<lambda>(i, r). phase r = ph_terminal) m) = length ids"
proof -
  let ?f = "filter (\<lambda>(i, r). phase r = ph_terminal) m"
  have "distinct (map fst ?f)" using wf unfolding jm_wf_def by (rule distinct_map_filter)
  moreover have "set (map fst ?f) = set ids"
  proof (rule set_eqI)
    fix i
    have "i \<in> set (map fst ?f) \<longleftrightarrow> (\<exists>r. (i, r) \<in> set m \<and> phase r = ph_terminal)"
      by (auto intro: rev_image_eqI)
    then show "i \<in> set (map fst ?f) \<longleftrightarrow> i \<in> set ids"
      by (simp only: jm_mem_iff [OF wf] terminal_index_mem [OF t])
  qed
  moreover have "distinct ids" using t by (simp add: terminal_index_def)
  ultimately have "length (map fst ?f) = length ids" by (metis distinct_card)
  then show ?thesis by simp
qed

lemma self_check_of_inv:
  assumes "ledger_inv l"
    and "\<forall>i r. jm_get (il_records l) i = Some r \<longrightarrow> phase r \<noteq> ph_consumed \<and> phase r \<noteq> ph_sending \<and>
      (phase r = ph_pre_admission \<longrightarrow> i \<in> set (il_preAdmissionIds l))"
    and "length (il_preAdmissionIds l) + length (il_queueIds l) \<le> maxCount"
    and "il_preAdmissionBytes l + il_queueBytes l \<le> maxBytes"
  shows "assertInvariants l"
proof -
  note D = ledger_invD [OF assms(1)]
  let ?R = "jm_get (il_records l)"
  have quiet: "phase r \<noteq> ph_consumed" "phase r \<noteq> ph_sending"
    "phase r = ph_pre_admission \<Longrightarrow> i \<in> set (il_preAdmissionIds l)" if "?R i = Some r" for i r
    using assms(2) that by auto
  have act: "jm_get (il_activeByIdentity l) k = Some i \<longleftrightarrow> (\<exists>r. ?R i = Some r \<and> active_key r = Some k)" for k i
    using D(7) by (simp add: active_index_def)
  have pmem: "phase r = ph_pre_admission" if "i \<in> set (il_preAdmissionIds l)" "?R i = Some r" for i r
    using pre_index_mem [OF D(4) that(1)] that(2) by auto
  have qmem: "i \<in> set (il_queueIds l) \<longleftrightarrow> phase r = ph_queued" if "?R i = Some r" for i r
    using queue_index_mem [OF D(5), of i] that by auto
  have tmem: "i \<in> set (il_terminalOrder l) \<longleftrightarrow> phase r = ph_terminal" if "?R i = Some r" for i r
    using terminal_index_mem [OF D(6), of i] that by auto
  have res: "sameIdentity (record_identity r) (ir_identity x)" if "?R i = Some r" "record_result r = Some x" for i r x
  proof -
    have "sameIdentity (ir_identity x) (record_identity r)"
      using D(3) that by (auto simp: terminal_ok_def result_matches_def)
    then show ?thesis by (auto simp: sameIdentity_def split: option.splits)
  qed
  have records: "record_check l (i, r)" if m: "(i, r) \<in> set (il_records l)" for i r
  proof -
    have R: "?R i = Some r" using m jm_mem_iff [OF D(1)] by simp
    have ac: "active_key r = Some k \<Longrightarrow> jm_get (il_activeByIdentity l) k = Some i" for k
      using act R by blast
    show ?thesis
      using quiet [OF R] pmem [of i r] qmem [OF R] tmem [OF R] ac res [OF R] R
      by (cases r) (auto simp: record_check_def record_identity_def)
  qed
  have idents: "identity_check l (k, i)" if m: "(k, i) \<in> set (il_activeByIdentity l)" for k i
  proof -
    have "jm_get (il_activeByIdentity l) k = Some i" using m jm_mem_iff [OF D(2)] by simp
    then obtain r where "?R i = Some r" "active_key r = Some k" using act by blast
    then show ?thesis by (auto simp: identity_check_def active_key_def split: if_splits)
  qed
  have "sum_list (map (\<lambda>(i, r). pre_bytes r) (il_records l)) = il_preAdmissionBytes l"
  proof -
    have "pre_bytes r = 0" if "?R i = Some r" "i \<notin> set (il_preAdmissionIds l)" for i r
      using quiet(3) [OF that(1)] that(2) by (cases r) auto
    moreover have "?R i \<noteq> None" if "i \<in> set (il_preAdmissionIds l)" for i
      using D(4) that by (auto simp: pre_index_def)
    ultimately show ?thesis
      using sum_indexed [OF D(1), of "il_preAdmissionIds l" pre_bytes] D(4) by (simp add: pre_index_def)
  qed
  moreover have "sum_list (map (\<lambda>(i, r). queued_bytes r) (il_records l)) = il_queueBytes l"
  proof -
    have "queued_bytes r = 0" if "?R i = Some r" "i \<notin> set (il_queueIds l)" for i r
      using qmem [OF that(1)] that(2) by (cases r) auto
    moreover have "?R i \<noteq> None" if "i \<in> set (il_queueIds l)" for i
      using D(5) that by (auto simp: queue_index_def)
    ultimately show ?thesis
      using sum_indexed [OF D(1), of "il_queueIds l" queued_bytes] D(5) by (simp add: queue_index_def)
  qed
  moreover have "distinct (il_preAdmissionIds l)" "distinct (il_queueIds l)" "distinct (il_terminalOrder l)"
    using D(4-6) by (simp_all add: pre_index_def queue_index_def terminal_index_def)
  ultimately show ?thesis
    using records idents count_terminal [OF D(1) D(6)] assms(3,4) D(10,11)
    by (auto simp: assertInvariants_def list_all_iff)
qed


section \<open>Witnesses\<close>

definition example_identity :: InputIdentity where
  "example_identity = \<lparr>id_writerFence = ''3'', id_inputEpoch = ''e'', id_clientInputSeq = ''1''\<rparr>"

definition example_result :: InputIntentResult where
  "example_result = \<lparr>ir_localIntentId = ''a'', ir_kind = kind_unknown, ir_identity = None, ir_consumedAtMs = 5,
     ir_terminalAtMs = 6, ir_outcome = NotSent ns_policy\<rparr>"

definition example_ledger :: "(unit, unit) ledger" where
  "example_ledger = emptyLedger\<lparr>il_records := [(''a'', TerminalUnadmitted
     \<lparr>ib_localIntentId = ''a'', ib_kind = kind_unknown, ib_consumedAtMs = 5\<rparr> example_result)],
     il_terminalOrder := [''a'']\<rparr>"

lemma example_ledger_reachable: "ledger_reachable example_ledger"
proof -
  let ?l = "put ''a'' (Consumed \<lparr>ib_localIntentId = ''a'', ib_kind = kind_unknown, ib_consumedAtMs = 5\<rparr>)
    (emptyLedger :: (unit, unit) ledger)"
  have "ledger_step emptyLedger ?l"
    by (rule ledger_step.create [of _ "''a''" 5]) (simp add: createConsumed_def emptyLedger_def)
  moreover have "ledger_step ?l example_ledger"
    by (rule ledger_step.finish [of _ "''a''" example_result])
      (simp add: finish_def put_def emptyLedger_def example_ledger_def result_matches_def example_result_def
        sameIdentity_def record_identity_def unindex_def terminalRecord_def maxRetainedResults_def)
  ultimately show ?thesis by (blast intro: ledger_reachable.intros)
qed

theorem ledger_limits_witness: "length (il_terminalOrder example_ledger) \<le> 4096 \<and> 0 \<le> il_queueBytes example_ledger"
  using ledger_limits [OF example_ledger_reachable] by blast

theorem terminal_result_immutable_witness: "finish example_ledger ''a'' example_result = Inr None"
proof -
  have "getResult example_ledger ''a'' = Some example_result"
    by (simp add: getResult_def example_ledger_def emptyLedger_def)
  from terminal_result_immutable [OF example_ledger_reachable this] show ?thesis by blast
qed


end
