(* ===== verification/Session_Coordinator.thy ===== *)
theory Session_Coordinator
  imports Replica_Cursor
begin

text \<open>
  \<open>packages/session-client/src/session-coordinator.ts\<close>: the browser-side coordinator that turns
  control starts and data frames into one gap-free replica. Replicas (\<open>ReplicaSink\<close>) are objects
  handed in; they are references, their engine and whether a call on them throws are parameters, and
  every effect on the outside is appended to a trace. The asynchronous \<open>startSnapshot\<close> is cut at
  its two \<open>await\<close>s into events (\<open>co_loading\<close> and \<open>co_restorings\<close> list the calls suspended at each); an
  aborted signal always comes with a new restore attempt, so the attempt number alone decides
  staleness, and the armed deadline is the attempt its callback captured. Callbacks do not re-enter.
\<close>

section \<open>Data\<close>

record SnapshotManifest =
  mf_streamId :: int
  mf_snapshotId :: string
  mf_engineId :: string
  mf_sessionEpoch :: int
  mf_deliveryGeneration :: int
  mf_cutEventSeq :: int
  mf_nextPtyOffset :: int
  mf_commitEventSeq :: int
  mf_commitPtyOffset :: int
  mf_compression :: string
  mf_compressedLength :: int
  mf_uncompressedLength :: int
  mf_sha256 :: string
  mf_downloadPath :: string
  mf_restoreThrough :: string

record WarmReplayStart =
  wr_streamId :: int
  wr_sessionEpoch :: int
  wr_deliveryGeneration :: int
  wr_baseEventSeq :: int
  wr_basePtyOffset :: int
  wr_commitEventSeq :: int
  wr_commitPtyOffset :: int

datatype DeliveryStart =
    WarmStart int ReplicaCursor ReplicaCursor
  | SnapshotStart int SnapshotManifest

record Delivery =
  dl_start :: DeliveryStart
  dl_streamId :: int
  dl_received :: ReplicaCursor
  dl_applied :: ReplicaCursor
  dl_buffered :: "data_frame list"
  dl_bufferedBytes :: int
  dl_commit :: "ReplicaCursor option"
  dl_expectedCommit :: ReplicaCursor
  dl_candidate :: "nat option"

datatype DeliveryState = idle | awaiting_control | replaying | restoring | live | resyncing | closed

datatype ResyncReason = journal_gap | slow_client | engine_mismatch | epoch_changed | restore_failed

datatype CoordinatorEffect =
    Acknowledge ReplicaCursor
  | ReplicaProgress ReplicaCursor
  | Resync ResyncReason
  | Adopt nat ReplicaCursor
  | DisposeReplica nat
  | WriteReplica nat bytes
  | ResizeReplica nat ResizePayload

datatype CoordinatorError = CoProtocol ProtocolErrorCode | CoOther | CoClosed | CoRange

fun isProtocolError :: "CoordinatorError \<Rightarrow> bool" where
  "isProtocolError (CoProtocol _) \<longleftrightarrow> True"
| "isProtocolError _ \<longleftrightarrow> False"

text \<open>The replicas: their engine, and whether writing a frame or adopting throws.\<close>

record replica_env =
  re_engine :: "nat \<Rightarrow> string"
  re_write_throws :: "nat \<Rightarrow> data_frame \<Rightarrow> bool"
  re_adopt_throws :: "nat \<Rightarrow> ReplicaCursor \<Rightarrow> bool"

record coordinator =
  co_hostEngineId :: string
  co_maxBufferedTailBytes :: int
  co_maxBufferedTailFrames :: nat
  co_state :: DeliveryState
  co_delivery :: "Delivery option"
  co_pendingFrames :: "data_frame list"
  co_pendingBytes :: int
  co_liveReplica :: "nat option"
  co_activeCursor :: "ReplicaCursor option"
  co_generationFence :: "int option"
  co_restoreAttempt :: int
  co_timer :: "int option"
  co_loading :: "int list"
  co_restorings :: "int list"
  co_trace :: "CoordinatorEffect list"

section \<open>Cursors of a start\<close>

definition warmReplayCursor :: "WarmReplayStart \<Rightarrow> ReplicaCursor" where
  "warmReplayCursor w = \<lparr>rc_sessionEpoch = wr_sessionEpoch w, rc_deliveryGeneration = wr_deliveryGeneration w,
     rc_lastEventSeq = wr_baseEventSeq w, rc_nextPtyOffset = wr_basePtyOffset w\<rparr>"

definition warmReplayCommit :: "WarmReplayStart \<Rightarrow> ReplicaCursor" where
  "warmReplayCommit w = \<lparr>rc_sessionEpoch = wr_sessionEpoch w, rc_deliveryGeneration = wr_deliveryGeneration w,
     rc_lastEventSeq = wr_commitEventSeq w, rc_nextPtyOffset = wr_commitPtyOffset w\<rparr>"

definition manifestCursor :: "SnapshotManifest \<Rightarrow> ReplicaCursor" where
  "manifestCursor m = \<lparr>rc_sessionEpoch = mf_sessionEpoch m, rc_deliveryGeneration = mf_deliveryGeneration m,
     rc_lastEventSeq = mf_cutEventSeq m, rc_nextPtyOffset = mf_nextPtyOffset m\<rparr>"

definition representsSameTerminalState :: "ReplicaCursor \<Rightarrow> ReplicaCursor \<Rightarrow> bool" where
  "representsSameTerminalState l r \<longleftrightarrow> rc_sessionEpoch l = rc_sessionEpoch r \<and>
     rc_lastEventSeq l = rc_lastEventSeq r \<and> rc_nextPtyOffset l = rc_nextPtyOffset r"

definition sameCursor :: "ReplicaCursor \<Rightarrow> ReplicaCursor \<Rightarrow> bool" where
  "sameCursor l r \<longleftrightarrow> rc_sessionEpoch l = rc_sessionEpoch r \<and>
     rc_deliveryGeneration l = rc_deliveryGeneration r \<and>
     rc_lastEventSeq l = rc_lastEventSeq r \<and> rc_nextPtyOffset l = rc_nextPtyOffset r"

text \<open>The manifest's stream is compared by \<open>sameDeliveryStart\<close> itself.\<close>

definition sameSnapshotManifest :: "SnapshotManifest \<Rightarrow> SnapshotManifest \<Rightarrow> bool" where
  "sameSnapshotManifest l r \<longleftrightarrow> mf_snapshotId l = mf_snapshotId r \<and> mf_engineId l = mf_engineId r \<and>
     mf_sessionEpoch l = mf_sessionEpoch r \<and> mf_deliveryGeneration l = mf_deliveryGeneration r \<and>
     mf_cutEventSeq l = mf_cutEventSeq r \<and> mf_nextPtyOffset l = mf_nextPtyOffset r \<and>
     mf_commitEventSeq l = mf_commitEventSeq r \<and> mf_commitPtyOffset l = mf_commitPtyOffset r \<and>
     mf_compression l = mf_compression r \<and> mf_compressedLength l = mf_compressedLength r \<and>
     mf_uncompressedLength l = mf_uncompressedLength r \<and> mf_sha256 l = mf_sha256 r \<and>
     mf_downloadPath l = mf_downloadPath r \<and> mf_restoreThrough l = mf_restoreThrough r"

fun sameDeliveryStart :: "DeliveryStart \<Rightarrow> DeliveryStart \<Rightarrow> bool" where
  "sameDeliveryStart (WarmStart i c e) (WarmStart i' c' e') \<longleftrightarrow> i = i' \<and> sameCursor c c' \<and> sameCursor e e'"
| "sameDeliveryStart (SnapshotStart i m) (SnapshotStart i' m') \<longleftrightarrow> i = i' \<and> sameSnapshotManifest m m'"
| "sameDeliveryStart _ _ \<longleftrightarrow> False"

fun deliveryStartGeneration :: "DeliveryStart \<Rightarrow> int" where
  "deliveryStartGeneration (WarmStart i c e) = rc_deliveryGeneration c"
| "deliveryStartGeneration (SnapshotStart i m) = mf_deliveryGeneration m"

section \<open>Discarding, fencing and resynchronising\<close>

definition emit_effect :: "CoordinatorEffect \<Rightarrow> coordinator \<Rightarrow> coordinator" where
  "emit_effect e s = s\<lparr>co_trace := co_trace s @ [e]\<rparr>"

definition cancelRestore :: "coordinator \<Rightarrow> coordinator" where
  "cancelRestore s = s\<lparr>co_restoreAttempt := co_restoreAttempt s + 1, co_timer := None\<rparr>"

text \<open>A candidate that is not the live replica is disposed of when its delivery is dropped.\<close>

definition disposeCandidate :: "coordinator \<Rightarrow> coordinator" where
  "disposeCandidate s =
     (case co_delivery s of
        None \<Rightarrow> s
      | Some d \<Rightarrow> (case dl_candidate d of
          None \<Rightarrow> s
        | Some k \<Rightarrow> if co_liveReplica s = Some k then s else emit_effect (DisposeReplica k) s))"

definition clearPendingFrames :: "coordinator \<Rightarrow> coordinator" where
  "clearPendingFrames s = s\<lparr>co_pendingFrames := [], co_pendingBytes := 0\<rparr>"

definition discardPendingDelivery :: "coordinator \<Rightarrow> coordinator" where
  "discardPendingDelivery s = (disposeCandidate (cancelRestore s))\<lparr>co_delivery := None\<rparr>"

definition requestResync :: "ResyncReason \<Rightarrow> coordinator \<Rightarrow> coordinator" where
  "requestResync reason s =
     (if co_state s = closed \<or> co_state s = resyncing then s
      else emit_effect (Resync reason) (clearPendingFrames
        ((disposeCandidate (cancelRestore (s\<lparr>co_state := resyncing\<rparr>)))\<lparr>co_delivery := None\<rparr>)))"

definition frame_size :: "data_frame \<Rightarrow> int" where
  "frame_size f = int DATA_HEADER_BYTES + payload_length f"

definition discardPendingFramesBefore :: "int \<Rightarrow> coordinator \<Rightarrow> coordinator" where
  "discardPendingFramesBefore g s =
     (let kept = filter (\<lambda>f. g \<le> df_deliveryGeneration f) (co_pendingFrames s)
      in s\<lparr>co_pendingFrames := kept, co_pendingBytes := sum_list (map frame_size kept)\<rparr>)"

definition advanceGenerationFence :: "int \<Rightarrow> bool \<Rightarrow> coordinator \<Rightarrow> coordinator" where
  "advanceGenerationFence g resumeFromResync s =
     (if (case co_generationFence s of None \<Rightarrow> False | Some f \<Rightarrow> g \<le> f) then s
      else let s1 = s\<lparr>co_generationFence := Some g\<rparr>;
               s2 = (case co_delivery s1 of
                 None \<Rightarrow> s1
               | Some d \<Rightarrow> if rc_deliveryGeneration (dl_received d) < g then discardPendingDelivery s1 else s1);
               s3 = discardPendingFramesBefore g s2
           in if co_state s3 \<noteq> closed \<and> (co_state s3 \<noteq> resyncing \<or> resumeFromResync)
              then s3\<lparr>co_state := awaiting_control\<rparr> else s3)"

definition acknowledge :: "ReplicaCursor \<Rightarrow> coordinator \<Rightarrow> coordinator" where
  "acknowledge c = emit_effect (Acknowledge c)"

definition bufferBudgetExceeded :: "coordinator \<Rightarrow> bool" where
  "bufferBudgetExceeded s \<longleftrightarrow>
     co_maxBufferedTailBytes s < co_pendingBytes s + (case co_delivery s of None \<Rightarrow> 0 | Some d \<Rightarrow> dl_bufferedBytes d) \<or>
     co_maxBufferedTailFrames s <
       length (co_pendingFrames s) + (case co_delivery s of None \<Rightarrow> 0 | Some d \<Rightarrow> length (dl_buffered d))"

definition bufferPendingFrame :: "data_frame \<Rightarrow> coordinator \<Rightarrow> coordinator" where
  "bufferPendingFrame f s =
     (let s1 = s\<lparr>co_pendingFrames := co_pendingFrames s @ [f], co_pendingBytes := co_pendingBytes s + frame_size f\<rparr>
      in if bufferBudgetExceeded s1 then requestResync slow_client s1 else s1)"

section \<open>Applying frames\<close>

text \<open>\<open>applyFrame\<close>: the cursor check first, then the effect on the replica, which may throw.\<close>

definition applyFrame ::
  "replica_env \<Rightarrow> nat \<Rightarrow> ReplicaCursor \<Rightarrow> data_frame \<Rightarrow> (coordinator, CoordinatorError, ReplicaCursor) se" where
  "applyFrame env k cursor frame s =
     (case applyMutationCursor cursor frame of
        Inl e \<Rightarrow> (s, Inl (CoProtocol e))
      | Inr (c, resize) \<Rightarrow>
          if df_kind frame = PtyOutput then
            (if re_write_throws env k frame then (s, Inl CoOther)
             else (emit_effect (WriteReplica k (df_payload frame)) s, Inr c))
          else (case resize of
              None \<Rightarrow> (s, Inr c)
            | Some r \<Rightarrow> if re_write_throws env k frame then (s, Inl CoOther)
                else (emit_effect (ResizeReplica k r) s, Inr c)))"

definition acceptCommit :: "Delivery \<Rightarrow> data_frame \<Rightarrow> ProtocolErrorCode + Delivery" where
  "acceptCommit d frame =
     (if payload_length frame \<noteq> 0 then Inl BAD_PAYLOAD
      else if df_sessionEpoch frame \<noteq> rc_sessionEpoch (dl_received d) \<or>
         df_eventSeq frame \<noteq> rc_lastEventSeq (dl_received d) \<or>
         df_ptyOffset frame \<noteq> rc_nextPtyOffset (dl_received d) then Inl EVENT_GAP
      else if df_eventSeq frame \<noteq> rc_lastEventSeq (dl_expectedCommit d) \<or>
         df_ptyOffset frame \<noteq> rc_nextPtyOffset (dl_expectedCommit d) then Inl EVENT_GAP
      else Inr (d\<lparr>dl_commit := Some (dl_received d)\<rparr>))"

text \<open>\<open>#tryCommit\<close> on the current delivery: it adopts a restored candidate and goes live.\<close>

definition tryCommit :: "replica_env \<Rightarrow> (coordinator, CoordinatorError, unit) se" where
  "tryCommit env s =
     (case co_delivery s of
        None \<Rightarrow> (s, Inr ())
      | Some d \<Rightarrow> (case (dl_candidate d, dl_commit d) of
          (Some k, Some _) \<Rightarrow>
            if rc_lastEventSeq (dl_applied d) \<noteq> rc_lastEventSeq (dl_received d) \<or>
               rc_nextPtyOffset (dl_applied d) \<noteq> rc_nextPtyOffset (dl_received d)
            then (requestResync journal_gap s, Inr ())
            else if co_state s = restoring then
              (if re_adopt_throws env k (dl_applied d) then (s, Inl CoOther)
               else let s1 = emit_effect (ReplicaProgress (dl_applied d))
                      ((emit_effect (Adopt k (dl_applied d)) s)
                         \<lparr>co_liveReplica := Some k, co_activeCursor := Some (dl_applied d)\<rparr>)
                    in (s1\<lparr>co_timer := None, co_state := live\<rparr>, Inr ()))
            else (s\<lparr>co_timer := None, co_state := live\<rparr>, Inr ())
        | _ \<Rightarrow> (s, Inr ())))"

text \<open>A frame of the current delivery.\<close>

definition acceptDeliveryFrame ::
  "replica_env \<Rightarrow> data_frame \<Rightarrow> Delivery \<Rightarrow> (coordinator, CoordinatorError, unit) se" where
  "acceptDeliveryFrame env frame d s =
     (if df_kind frame = ReplayCommit then
        (case acceptCommit d frame of
           Inl e \<Rightarrow> (s, Inl (CoProtocol e))
         | Inr d' \<Rightarrow> tryCommit env (acknowledge (dl_received d') (s\<lparr>co_delivery := Some d'\<rparr>)))
      else (case applyMutationCursor (dl_received d) frame of
         Inl e \<Rightarrow> (s, Inl (CoProtocol e))
       | Inr (c, _) \<Rightarrow>
           let d1 = d\<lparr>dl_received := c\<rparr>; s1 = s\<lparr>co_delivery := Some d1\<rparr> in
           (case dl_candidate d of
              Some k \<Rightarrow>
                (case applyFrame env k (dl_applied d) frame s1 of
                   (s2, Inl e) \<Rightarrow>
                     (if co_liveReplica s2 = Some k \<and> \<not> isProtocolError e
                      then s2\<lparr>co_activeCursor := None\<rparr> else s2, Inl e)
                 | (s2, Inr a) \<Rightarrow>
                     let s3 = s2\<lparr>co_delivery := Some (d1\<lparr>dl_applied := a\<rparr>)\<rparr>;
                         s4 = (if co_liveReplica s3 = Some k
                           then emit_effect (ReplicaProgress a) (s3\<lparr>co_activeCursor := Some a\<rparr>) else s3)
                     in (acknowledge c s4, Inr ()))
            | None \<Rightarrow>
                let d2 = d1\<lparr>dl_buffered := dl_buffered d @ [frame],
                      dl_bufferedBytes := dl_bufferedBytes d + frame_size frame\<rparr>;
                    s2 = s\<lparr>co_delivery := Some d2\<rparr>
                in if bufferBudgetExceeded s2 then (requestResync slow_client s2, Inr ())
                   else (acknowledge c s2, Inr ()))))"

definition acceptFrame :: "replica_env \<Rightarrow> data_frame \<Rightarrow> (coordinator, CoordinatorError, unit) se" where
  "acceptFrame env frame s =
     (if (case co_generationFence s of None \<Rightarrow> False | Some f \<Rightarrow> df_deliveryGeneration frame < f) then (s, Inr ())
      else let s1 = advanceGenerationFence (df_deliveryGeneration frame) False s in
        if df_kind frame = DeliveryBarrier then (s1, Inl (CoProtocol BAD_KIND))
        else if df_kind frame = Reset then (requestResync slow_client s1, Inr ())
        else (case co_delivery s1 of
            None \<Rightarrow> (bufferPendingFrame frame s1, Inr ())
          | Some d \<Rightarrow>
              if df_deliveryGeneration frame < rc_deliveryGeneration (dl_received d) \<or>
                 df_streamId frame \<noteq> dl_streamId d
              then (s1, Inr ())
              else acceptDeliveryFrame env frame d s1))"

text \<open>The resync reason the callers derive from a caught error.\<close>

definition resync_reason :: "CoordinatorError \<Rightarrow> ResyncReason" where
  "resync_reason e =
     (case e of CoProtocol BAD_EPOCH \<Rightarrow> epoch_changed | CoProtocol _ \<Rightarrow> journal_gap | _ \<Rightarrow> restore_failed)"

definition acceptData :: "replica_env \<Rightarrow> bytes \<Rightarrow> coordinator \<Rightarrow> coordinator" where
  "acceptData env encoded s =
     (if co_state s = closed \<or> co_state s = resyncing then s
      else case decodeDataFrame encoded of
          Inl e \<Rightarrow> requestResync (resync_reason (CoProtocol e)) s
        | Inr frame \<Rightarrow> (case acceptFrame env frame s of
            (s', Inr _) \<Rightarrow> s'
          | (s', Inl e) \<Rightarrow> requestResync (resync_reason e) s'))"

section \<open>Starting a delivery\<close>

text \<open>
  The queued frames of the new delivery are fed to it in order. In the loop \<open>acceptFrame\<close> may drop the
  delivery but never replaces it, so the identity test is that there is one.
\<close>

fun drain_loop :: "replica_env \<Rightarrow> data_frame list \<Rightarrow> coordinator \<Rightarrow> coordinator" where
  "drain_loop env [] s = s"
| "drain_loop env (f # fs) s =
     (if co_delivery s = None \<or> co_state s = resyncing then s
      else case acceptFrame env f s of
          (s', Inr _) \<Rightarrow> drain_loop env fs s'
        | (s', Inl e) \<Rightarrow> requestResync (resync_reason e) s')"

definition drainPendingFrames :: "replica_env \<Rightarrow> Delivery \<Rightarrow> coordinator \<Rightarrow> coordinator" where
  "drainPendingFrames env d s =
     (let g = rc_deliveryGeneration (dl_received d);
          ready = filter (\<lambda>f. df_deliveryGeneration f = g \<and> df_streamId f = dl_streamId d) (co_pendingFrames s);
          retained = filter (\<lambda>f. g < df_deliveryGeneration f) (co_pendingFrames s)
      in drain_loop env ready
           (s\<lparr>co_pendingFrames := retained, co_pendingBytes := sum_list (map frame_size retained)\<rparr>))"

definition acceptDeliveryStart :: "DeliveryStart \<Rightarrow> coordinator \<Rightarrow> coordinator \<times> bool" where
  "acceptDeliveryStart start s =
     (if co_state s = resyncing then (s, False)
      else let g = deliveryStartGeneration start;
               fresh = (case co_activeCursor s of None \<Rightarrow> True | Some a \<Rightarrow> \<not> g < rc_deliveryGeneration a) in
        if (case co_generationFence s of None \<Rightarrow> False | Some f \<Rightarrow> g < f) then (s, False)
        else (case co_delivery s of
            None \<Rightarrow> (s, fresh)
          | Some d \<Rightarrow>
              if g < deliveryStartGeneration (dl_start d) then (s, False)
              else if g = deliveryStartGeneration (dl_start d) then
                (if sameDeliveryStart (dl_start d) start then (s, False)
                 else (requestResync journal_gap s, False))
              else (s, fresh)))"

definition newDelivery :: "DeliveryStart \<Rightarrow> int \<Rightarrow> ReplicaCursor \<Rightarrow> ReplicaCursor \<Rightarrow> nat option \<Rightarrow> Delivery" where
  "newDelivery start stream c e k = \<lparr>dl_start = start, dl_streamId = stream, dl_received = c, dl_applied = c,
     dl_buffered = [], dl_bufferedBytes = 0, dl_commit = None, dl_expectedCommit = e, dl_candidate = k\<rparr>"

definition startWarmReplay ::
  "replica_env \<Rightarrow> WarmReplayStart \<Rightarrow> (coordinator, CoordinatorError, unit) se" where
  "startWarmReplay env w s =
     (if co_state s = closed then (s, Inl CoClosed)
      else let c = warmReplayCursor w; e = warmReplayCommit w;
               identity = WarmStart (wr_streamId w) c e in
        (case acceptDeliveryStart identity s of
          (s0, False) \<Rightarrow> (s0, Inr ())
        | (s0, True) \<Rightarrow>
            let s1 = advanceGenerationFence (rc_deliveryGeneration c) False s0 in
            (case co_liveReplica s1 of
              None \<Rightarrow> (requestResync engine_mismatch s1, Inr ())
            | Some k \<Rightarrow>
                if re_engine env k \<noteq> co_hostEngineId s1 then (requestResync engine_mismatch s1, Inr ())
                else if rc_lastEventSeq e < rc_lastEventSeq c \<or> rc_nextPtyOffset e < rc_nextPtyOffset c \<or>
                   (case co_activeCursor s1 of None \<Rightarrow> True | Some a \<Rightarrow> \<not> representsSameTerminalState a c)
                then (requestResync journal_gap s1, Inr ())
                else let d = newDelivery identity (wr_streamId w) c e (Some k) in
                  (drainPendingFrames env d
                     ((discardPendingDelivery s1)
                        \<lparr>co_delivery := Some d, co_activeCursor := Some c, co_state := replaying\<rparr>), Inr ()))))"

text \<open>The part of \<open>startSnapshot\<close> before its first \<open>await\<close>.\<close>

definition startSnapshot ::
  "replica_env \<Rightarrow> SnapshotManifest \<Rightarrow> (coordinator, CoordinatorError, unit) se" where
  "startSnapshot env m s =
     (if co_state s = closed then (s, Inl CoClosed)
      else let identity = SnapshotStart (mf_streamId m) m in
        (case acceptDeliveryStart identity s of
          (s0, False) \<Rightarrow> (s0, Inr ())
        | (s0, True) \<Rightarrow>
            let s1 = advanceGenerationFence (mf_deliveryGeneration m) False s0 in
            if mf_engineId m \<noteq> co_hostEngineId s1 then (requestResync engine_mismatch s1, Inr ())
            else
              let s2 = discardPendingDelivery s1;
                  attempt = co_restoreAttempt s2 + 1;
                  s3 = s2\<lparr>co_restoreAttempt := attempt\<rparr>;
                  c = manifestCursor m;
                  e = \<lparr>rc_sessionEpoch = rc_sessionEpoch c, rc_deliveryGeneration = rc_deliveryGeneration c,
                       rc_lastEventSeq = mf_commitEventSeq m, rc_nextPtyOffset = mf_commitPtyOffset m\<rparr> in
              if rc_lastEventSeq e < rc_lastEventSeq c \<or> rc_nextPtyOffset e < rc_nextPtyOffset c
              then (requestResync journal_gap s3, Inr ())
              else
                let d = newDelivery identity (mf_streamId m) c e None;
                    s4 = drainPendingFrames env d (s3\<lparr>co_delivery := Some d, co_state := restoring\<rparr>) in
                if co_delivery s4 = None \<or> co_state s4 \<noteq> restoring then (s4, Inr ())
                else (s4\<lparr>co_timer := Some attempt, co_loading := co_loading s4 @ [attempt]\<rparr>, Inr ())))"

section \<open>The restore's continuations, its deadline, and closing\<close>

text \<open>The \<open>catch\<close> of \<open>startSnapshot\<close>, for an error of an attempt that is still current.\<close>

definition restore_error :: "CoordinatorError \<Rightarrow> coordinator \<Rightarrow> coordinator" where
  "restore_error e = requestResync (case e of CoProtocol _ \<Rightarrow> journal_gap | _ \<Rightarrow> restore_failed)"

definition snapshotLoaded :: "int \<Rightarrow> CoordinatorError option \<Rightarrow> coordinator \<Rightarrow> coordinator" where
  "snapshotLoaded a r s =
     (if a \<notin> set (co_loading s) then s
      else let s1 = s\<lparr>co_loading := removeAll a (co_loading s)\<rparr> in
        if a \<noteq> co_restoreAttempt s1 then s1
        else (case r of Some e \<Rightarrow> restore_error e s1
          | None \<Rightarrow> s1\<lparr>co_restorings := co_restorings s1 @ [a]\<rparr>))"

text \<open>\<open>#flushBuffered\<close>: the buffered tail is replayed on the candidate, keeping what was applied.\<close>

fun flush_loop ::
  "replica_env \<Rightarrow> nat \<Rightarrow> data_frame list \<Rightarrow> Delivery \<Rightarrow> (coordinator, CoordinatorError, Delivery) se" where
  "flush_loop env k [] d s = (s, Inr d)"
| "flush_loop env k (f # fs) d s =
     (case applyFrame env k (dl_applied d) f s of
        (s', Inl e) \<Rightarrow> (s', Inl e)
      | (s', Inr a) \<Rightarrow> flush_loop env k fs (d\<lparr>dl_applied := a\<rparr>) (s'\<lparr>co_delivery := Some (d\<lparr>dl_applied := a\<rparr>)\<rparr>))"

definition flushBuffered :: "replica_env \<Rightarrow> (coordinator, CoordinatorError, unit) se" where
  "flushBuffered env s =
     (case co_delivery s of
        None \<Rightarrow> (s, Inr ())
      | Some d \<Rightarrow> (case dl_candidate d of
          None \<Rightarrow> (s, Inr ())
        | Some k \<Rightarrow> (case flush_loop env k (dl_buffered d) d s of
            (s', Inl e) \<Rightarrow> (s', Inl e)
          | (s', Inr d') \<Rightarrow> (s'\<lparr>co_delivery := Some (d'\<lparr>dl_buffered := [], dl_bufferedBytes := 0\<rparr>)\<rparr>, Inr ()))))"

definition candidateRestored ::
  "replica_env \<Rightarrow> int \<Rightarrow> CoordinatorError + nat \<Rightarrow> coordinator \<Rightarrow> coordinator" where
  "candidateRestored env a r s =
     (if a \<notin> set (co_restorings s) then s
      else let s1 = s\<lparr>co_restorings := removeAll a (co_restorings s)\<rparr> in
        (case r of
          Inl e \<Rightarrow> if a \<noteq> co_restoreAttempt s1 then s1 else restore_error e s1
        | Inr k \<Rightarrow>
            if a \<noteq> co_restoreAttempt s1 then emit_effect (DisposeReplica k) s1
            else if re_engine env k \<noteq> co_hostEngineId s1 then
              requestResync engine_mismatch (emit_effect (DisposeReplica k) s1)
            else (case co_delivery s1 of
                None \<Rightarrow> emit_effect (DisposeReplica k) s1
              | Some d \<Rightarrow>
                  (case bindS (flushBuffered env) (\<lambda>_. tryCommit env)
                          (s1\<lparr>co_delivery := Some (d\<lparr>dl_candidate := Some k\<rparr>)\<rparr>) of
                    (s2, Inr _) \<Rightarrow> s2
                  | (s2, Inl e) \<Rightarrow> if a \<noteq> co_restoreAttempt s2 then s2 else restore_error e s2))))"

definition restoreDeadline :: "coordinator \<Rightarrow> coordinator" where
  "restoreDeadline s =
     (case co_timer s of
        None \<Rightarrow> s
      | Some a \<Rightarrow> if co_restoreAttempt s = a \<and> co_state s = restoring then requestResync slow_client s else s)"

definition close_coordinator :: "coordinator \<Rightarrow> coordinator" where
  "close_coordinator s =
     (if co_state s = closed then s
      else (clearPendingFrames ((disposeCandidate (cancelRestore s))\<lparr>co_delivery := None\<rparr>))\<lparr>co_state := closed\<rparr>)"

definition MAX_DELIVERY_GENERATION :: int where "MAX_DELIVERY_GENERATION = 0xffffffffffffffff"

definition fenceDeliveryGeneration :: "int \<Rightarrow> (coordinator, CoordinatorError, unit) se" where
  "fenceDeliveryGeneration g s =
     (if co_state s = closed then (s, Inl CoClosed)
      else if g < 0 \<or> MAX_DELIVERY_GENERATION < g then (s, Inl CoRange)
      else (advanceGenerationFence g True s, Inr ()))"

text \<open>The constructor: an initial cursor requires an active replica.\<close>

definition newCoordinator ::
  "string \<Rightarrow> nat option \<Rightarrow> ReplicaCursor option \<Rightarrow> int option \<Rightarrow> nat option \<Rightarrow> CoordinatorError + coordinator" where
  "newCoordinator engine active initialCursor maxBytes maxFrames =
     (if initialCursor \<noteq> None \<and> active = None then Inl CoOther
      else Inr \<lparr>co_hostEngineId = engine,
        co_maxBufferedTailBytes = (case maxBytes of Some b \<Rightarrow> b | None \<Rightarrow> 2 * 1024 * 1024),
        co_maxBufferedTailFrames = (case maxFrames of Some n \<Rightarrow> n | None \<Rightarrow> 1024),
        co_state = idle, co_delivery = None, co_pendingFrames = [], co_pendingBytes = 0,
        co_liveReplica = active, co_activeCursor = initialCursor,
        co_generationFence = map_option rc_deliveryGeneration initialCursor,
        co_restoreAttempt = 0, co_timer = None, co_loading = [], co_restorings = [], co_trace = []\<rparr>)"

section \<open>The coordinator as a machine of events\<close>

datatype CoordinatorEvent =
    FenceGeneration int
  | StartWarm WarmReplayStart
  | StartSnapshot SnapshotManifest
  | DataArrives bytes
  | SnapshotLoaded int "CoordinatorError option"
  | CandidateRestored int "CoordinatorError + nat"
  | RestoreDeadline
  | CloseCoordinator

text \<open>Each event comes with the replicas' behaviour while it is handled.\<close>

fun coordinator_step :: "coordinator \<Rightarrow> replica_env \<times> CoordinatorEvent \<Rightarrow> coordinator" where
  "coordinator_step s (env, FenceGeneration g) = fst (fenceDeliveryGeneration g s)"
| "coordinator_step s (env, StartWarm w) = fst (startWarmReplay env w s)"
| "coordinator_step s (env, StartSnapshot m) = fst (startSnapshot env m s)"
| "coordinator_step s (env, DataArrives b) = acceptData env b s"
| "coordinator_step s (env, SnapshotLoaded a r) = snapshotLoaded a r s"
| "coordinator_step s (env, CandidateRestored a r) = candidateRestored env a r s"
| "coordinator_step s (env, RestoreDeadline) = restoreDeadline s"
| "coordinator_step s (env, CloseCoordinator) = close_coordinator s"

end
