(* ===== verification/Session_Coordinator_Props.thy ===== *)
theory Session_Coordinator_Props
  imports Session_Coordinator "HOL-Library.Option_ord"
begin

text \<open>
  What the coordinator keeps true: one invariant of every reachable state (the delivery is a gap-free
  run of frames from its start, a candidate has been fed exactly those frames, the buffers are within
  budget, acknowledgements never go back), proved operation by operation.
\<close>

section \<open>What the trace says\<close>

fun acks_of :: "CoordinatorEffect list \<Rightarrow> ReplicaCursor list" where
  "acks_of [] = []"
| "acks_of (Acknowledge c # es) = c # acks_of es"
| "acks_of (_ # es) = acks_of es"

fun written :: "nat \<Rightarrow> CoordinatorEffect list \<Rightarrow> bytes" where
  "written k [] = []"
| "written k (WriteReplica j b # es) = (if j = k then b else []) @ written k es"
| "written k (_ # es) = written k es"

lemma acks_of_append [simp]: "acks_of (xs @ ys) = acks_of xs @ acks_of ys"
  by (induction xs rule: acks_of.induct) simp_all

lemma written_append [simp]: "written k (xs @ ys) = written k xs @ written k ys"
  by (induction k xs rule: written.induct) simp_all

abbreviation acks :: "coordinator \<Rightarrow> ReplicaCursor list" where
  "acks s \<equiv> acks_of (co_trace s)"

definition ack_le :: "ReplicaCursor \<Rightarrow> ReplicaCursor \<Rightarrow> bool" where
  "ack_le a b \<longleftrightarrow> rc_deliveryGeneration a < rc_deliveryGeneration b \<or>
     (rc_deliveryGeneration a = rc_deliveryGeneration b \<and> rc_lastEventSeq a \<le> rc_lastEventSeq b \<and>
      rc_nextPtyOffset a \<le> rc_nextPtyOffset b)"

lemma ack_le_refl [simp]: "ack_le a a"
  by (simp add: ack_le_def)

lemma ack_le_trans: "ack_le a b \<Longrightarrow> ack_le b c \<Longrightarrow> ack_le a c"
  by (auto simp: ack_le_def)

lemma ack_le_mutation: "applyMutationCursor c f = Inr (c', r) \<Longrightarrow> ack_le c c'"
  using applyMutationCursor_fields [of c f c' r] by (simp add: ack_le_def)

section \<open>The invariant\<close>

fun start_cursor :: "DeliveryStart \<Rightarrow> ReplicaCursor" where
  "start_cursor (WarmStart i c e) = c"
| "start_cursor (SnapshotStart i m) = manifestCursor m"

text \<open>The replica was given exactly the bytes of an unbroken run of frames from the start to where it is.\<close>

definition replica_fed :: "CoordinatorEffect list \<Rightarrow> Delivery \<Rightarrow> nat \<Rightarrow> bool" where
  "replica_fed tr d k \<longleftrightarrow> (\<exists>pre post fs. tr = pre @ post \<and>
     apply_frames (start_cursor (dl_start d)) fs = Inr (dl_applied d) \<and>
     written k post = concat (map pty_bytes fs))"

definition commit_ok :: "Delivery \<Rightarrow> bool" where
  "commit_ok d \<longleftrightarrow> (\<forall>c. dl_commit d = Some c \<longrightarrow>
     rc_lastEventSeq c = rc_lastEventSeq (dl_expectedCommit d) \<and>
     rc_nextPtyOffset c = rc_nextPtyOffset (dl_expectedCommit d) \<and>
     (\<exists>fs. apply_frames (start_cursor (dl_start d)) fs = Inr c) \<and>
     (\<exists>gs. apply_frames c gs = Inr (dl_received d)))"

definition received_ok :: "CoordinatorEffect list \<Rightarrow> Delivery \<Rightarrow> bool" where
  "received_ok tr d \<longleftrightarrow>
     (case dl_candidate d of
        None \<Rightarrow> dl_applied d = start_cursor (dl_start d) \<and>
          apply_frames (dl_applied d) (dl_buffered d) = Inr (dl_received d)
      | Some k \<Rightarrow> dl_buffered d = [] \<and> dl_applied d = dl_received d \<and> replica_fed tr d k)"

definition deliv_ok :: "CoordinatorEffect list \<Rightarrow> int option \<Rightarrow> Delivery \<Rightarrow> bool" where
  "deliv_ok tr fence d \<longleftrightarrow>
     fence = Some (rc_deliveryGeneration (dl_received d)) \<and>
     deliveryStartGeneration (dl_start d) = rc_deliveryGeneration (dl_received d) \<and>
     received_ok tr d \<and> commit_ok d \<and>
     dl_bufferedBytes d = sum_list (map frame_size (dl_buffered d)) \<and>
     (\<forall>a\<in>set (acks_of tr). ack_le a (dl_received d))"

definition acks_ok :: "coordinator \<Rightarrow> bool" where
  "acks_ok s \<longleftrightarrow> sorted_wrt ack_le (acks s) \<and>
     (\<forall>a\<in>set (acks s). Some (rc_deliveryGeneration a) \<le> co_generationFence s)"

text \<open>The suspended restores: at most the current attempt still matters, and only before its candidate came.\<close>

definition inflight_ok :: "coordinator \<Rightarrow> bool" where
  "inflight_ok s \<longleftrightarrow> distinct (co_loading s @ co_restorings s) \<and>
     (\<forall>a\<in>set (co_loading s) \<union> set (co_restorings s). a \<le> co_restoreAttempt s)"

definition current_ok :: "coordinator \<Rightarrow> bool" where
  "current_ok s \<longleftrightarrow>
     (co_restoreAttempt s \<in> set (co_loading s) \<union> set (co_restorings s) \<longrightarrow>
       co_state s = restoring \<and> (\<exists>d. co_delivery s = Some d \<and> dl_candidate d = None))"

text \<open>What is left of the invariant while an error is on its way to a resync.\<close>

definition co_weak :: "coordinator \<Rightarrow> bool" where
  "co_weak s \<longleftrightarrow> acks_ok s \<and> inflight_ok s \<and> 0 \<le> co_maxBufferedTailBytes s"

definition phase_ok :: "coordinator \<Rightarrow> bool" where
  "phase_ok s \<longleftrightarrow> (case co_delivery s of
     None \<Rightarrow> co_state s = resyncing \<or> co_state s = closed \<or>
       ((co_state s = idle \<or> co_state s = awaiting_control) \<and>
        (\<forall>a\<in>set (acks s). Some (rc_deliveryGeneration a) < co_generationFence s))
   | Some d \<Rightarrow> deliv_ok (co_trace s) (co_generationFence s) d \<and>
       (co_state s = restoring \<or>
        ((co_state s = replaying \<or> co_state s = live \<and> dl_commit d \<noteq> None) \<and> dl_candidate d \<noteq> None \<and>
         dl_candidate d = co_liveReplica s \<and> co_activeCursor s = Some (dl_applied d))))"

definition co_inv :: "coordinator \<Rightarrow> bool" where
  "co_inv s \<longleftrightarrow> co_weak s \<and> phase_ok s \<and> current_ok s \<and>
     co_pendingBytes s = sum_list (map frame_size (co_pendingFrames s)) \<and>
     \<not> bufferBudgetExceeded s \<and>
     (co_state s = resyncing \<or> co_state s = closed \<longrightarrow> co_pendingFrames s = [])"

definition open_state :: "coordinator \<Rightarrow> bool" where
  "open_state s \<longleftrightarrow> co_state s \<noteq> closed \<and> co_state s \<noteq> resyncing"

lemma co_invD: "co_inv s \<Longrightarrow> co_weak s"
  by (simp add: co_inv_def)

section \<open>Discarding, resynchronising, closing\<close>

lemma emit_fields [simp]:
  "co_hostEngineId (emit_effect e s) = co_hostEngineId s"
  "co_maxBufferedTailBytes (emit_effect e s) = co_maxBufferedTailBytes s"
  "co_maxBufferedTailFrames (emit_effect e s) = co_maxBufferedTailFrames s"
  "co_state (emit_effect e s) = co_state s" "co_delivery (emit_effect e s) = co_delivery s"
  "co_pendingFrames (emit_effect e s) = co_pendingFrames s"
  "co_pendingBytes (emit_effect e s) = co_pendingBytes s"
  "co_liveReplica (emit_effect e s) = co_liveReplica s"
  "co_activeCursor (emit_effect e s) = co_activeCursor s"
  "co_generationFence (emit_effect e s) = co_generationFence s"
  "co_restoreAttempt (emit_effect e s) = co_restoreAttempt s"
  "co_timer (emit_effect e s) = co_timer s"
  "co_loading (emit_effect e s) = co_loading s" "co_restorings (emit_effect e s) = co_restorings s"
  "co_trace (emit_effect e s) = co_trace s @ [e]"
  by (simp_all add: emit_effect_def)

lemma disposeCandidate_is: "\<exists>es. acks_of es = [] \<and> disposeCandidate s = s\<lparr>co_trace := co_trace s @ es\<rparr>"
proof -
  have "disposeCandidate s = s \<or> (\<exists>k. disposeCandidate s = s\<lparr>co_trace := co_trace s @ [DisposeReplica k]\<rparr>)"
    by (auto simp: disposeCandidate_def emit_effect_def split: option.splits)
  then show ?thesis
  proof
    assume "disposeCandidate s = s"
    then show ?thesis by (intro exI [of _ "[]"]) simp
  next
    assume "\<exists>k. disposeCandidate s = s\<lparr>co_trace := co_trace s @ [DisposeReplica k]\<rparr>"
    then show ?thesis by (auto intro: exI [of _ "[DisposeReplica k]" for k])
  qed
qed

lemma discardPendingDelivery_is:
  "\<exists>es. acks_of es = [] \<and> discardPendingDelivery s =
     s\<lparr>co_restoreAttempt := co_restoreAttempt s + 1, co_timer := None, co_delivery := None,
       co_trace := co_trace s @ es\<rparr>"
proof -
  obtain es where "acks_of es = []"
    "disposeCandidate (cancelRestore s) = (cancelRestore s)\<lparr>co_trace := co_trace (cancelRestore s) @ es\<rparr>"
    using disposeCandidate_is by blast
  then show ?thesis by (auto simp: discardPendingDelivery_def cancelRestore_def intro!: exI [of _ es])
qed

lemma requestResync_is:
  "open_state s \<Longrightarrow> \<exists>es. acks_of es = [] \<and> requestResync r s =
     s\<lparr>co_state := resyncing, co_restoreAttempt := co_restoreAttempt s + 1, co_timer := None,
       co_delivery := None, co_pendingFrames := [], co_pendingBytes := 0, co_trace := co_trace s @ es\<rparr>"
proof -
  assume o: "open_state s"
  let ?c = "cancelRestore (s\<lparr>co_state := resyncing\<rparr>)"
  obtain es where "acks_of es = []" "disposeCandidate ?c = ?c\<lparr>co_trace := co_trace ?c @ es\<rparr>"
    using disposeCandidate_is by blast
  with o show ?thesis
    by (auto simp: requestResync_def open_state_def cancelRestore_def clearPendingFrames_def emit_effect_def
        intro!: exI [of _ "es @ [Resync r]"])
qed

lemma frame_size_nonneg [simp]: "0 \<le> frame_size f"
  by (simp add: frame_size_def payload_length_def)

lemma bump_attempt:
  assumes "inflight_ok s" and "co_restoreAttempt s' = co_restoreAttempt s + 1"
    and "co_loading s' = co_loading s" and "co_restorings s' = co_restorings s"
  shows "inflight_ok s'" and "current_ok s'"
proof -
  have le: "a \<in> set (co_loading s) \<union> set (co_restorings s) \<Longrightarrow> a < co_restoreAttempt s'" for a
    using assms(1,2) by (force simp: inflight_ok_def)
  show "inflight_ok s'"
    unfolding inflight_ok_def assms(3,4) using assms(1) le by (force simp: inflight_ok_def)
  show "current_ok s'"
    unfolding current_ok_def assms(3,4) using le [of "co_restoreAttempt s'"] by blast
qed

lemma weak_resync:
  assumes "co_weak s" and "open_state s"
  shows "co_inv (requestResync r s) \<and> co_state (requestResync r s) = resyncing \<and>
    co_delivery (requestResync r s) = None \<and> co_generationFence (requestResync r s) = co_generationFence s"
proof -
  obtain es where es: "acks_of es = []" and q: "requestResync r s =
     s\<lparr>co_state := resyncing, co_restoreAttempt := co_restoreAttempt s + 1, co_timer := None,
       co_delivery := None, co_pendingFrames := [], co_pendingBytes := 0, co_trace := co_trace s @ es\<rparr>"
    using requestResync_is [OF assms(2)] by blast
  have "inflight_ok s" using assms(1) by (simp add: co_weak_def)
  then have "inflight_ok (requestResync r s)" "current_ok (requestResync r s)"
    by (auto simp: q intro: bump_attempt)
  with assms(1) es show ?thesis
    by (simp add: q co_inv_def co_weak_def acks_ok_def phase_ok_def bufferBudgetExceeded_def)
qed

lemma resync_inv: "co_inv s \<Longrightarrow> co_inv (requestResync r s)"
proof (cases "open_state s")
  case True
  then show "co_inv s \<Longrightarrow> co_inv (requestResync r s)" using weak_resync [OF co_invD] by blast
next
  case False
  then show "co_inv s \<Longrightarrow> co_inv (requestResync r s)" by (auto simp: open_state_def requestResync_def)
qed

lemma close_inv: "co_inv s \<Longrightarrow> co_inv (close_coordinator s)"
proof (cases "co_state s = closed")
  case False
  assume inv: "co_inv s"
  obtain es where es: "acks_of es = []" and q:
    "disposeCandidate (cancelRestore s) = (cancelRestore s)\<lparr>co_trace := co_trace (cancelRestore s) @ es\<rparr>"
    using disposeCandidate_is by blast
  have c: "close_coordinator s = s\<lparr>co_state := closed, co_restoreAttempt := co_restoreAttempt s + 1,
      co_timer := None, co_delivery := None, co_pendingFrames := [], co_pendingBytes := 0,
      co_trace := co_trace s @ es\<rparr>"
    using False q by (simp add: close_coordinator_def cancelRestore_def clearPendingFrames_def)
  have "inflight_ok s" using inv by (simp add: co_inv_def co_weak_def)
  then have "inflight_ok (close_coordinator s)" "current_ok (close_coordinator s)"
    by (auto simp: c intro: bump_attempt)
  with inv es show ?thesis
    by (simp add: c co_inv_def co_weak_def acks_ok_def phase_ok_def bufferBudgetExceeded_def)
qed (simp add: close_coordinator_def)

section \<open>Raising the fence\<close>

lemma filter_sum_le: "sum_list (map frame_size (filter P fs)) \<le> sum_list (map frame_size fs)"
  by (induction fs) (auto intro: add_increasing)

lemma sum_size_nonneg: "0 \<le> sum_list (map frame_size fs)"
  by (induction fs) auto

definition fresh_for :: "int \<Rightarrow> coordinator \<Rightarrow> bool" where
  "fresh_for g s \<longleftrightarrow> co_delivery s = None \<and> (co_state s = idle \<or> co_state s = awaiting_control) \<and>
     co_generationFence s = Some g"

lemma discard_weak:
  assumes "co_weak s"
  shows "co_weak (discardPendingDelivery s)" "current_ok (discardPendingDelivery s)"
proof -
  obtain es where es: "acks_of es = []" and q: "discardPendingDelivery s =
     s\<lparr>co_restoreAttempt := co_restoreAttempt s + 1, co_timer := None, co_delivery := None,
       co_trace := co_trace s @ es\<rparr>"
    using discardPendingDelivery_is by blast
  have "inflight_ok s" using assms by (simp add: co_weak_def)
  then have i: "inflight_ok (discardPendingDelivery s)" "current_ok (discardPendingDelivery s)"
    by (auto simp: q intro: bump_attempt)
  with assms es show "co_weak (discardPendingDelivery s)"
    by (simp add: q co_weak_def acks_ok_def)
  show "current_ok (discardPendingDelivery s)" by (rule i)
qed

lemma advance_low:
  "co_generationFence s = Some f \<Longrightarrow> g \<le> f \<Longrightarrow> advanceGenerationFence g b s = s"
  by (simp add: advanceGenerationFence_def)

lemma advance_is:
  assumes inv: "co_inv s" and up: "co_generationFence s < Some g"
  shows "\<exists>es n t. acks_of es = [] \<and> (n = co_restoreAttempt s + 1 \<or> n = co_restoreAttempt s \<and> co_delivery s = None) \<and>
    advanceGenerationFence g b s = s\<lparr>co_generationFence := Some g, co_delivery := None,
      co_pendingFrames := filter (\<lambda>f. g \<le> df_deliveryGeneration f) (co_pendingFrames s),
      co_pendingBytes := sum_list (map frame_size (filter (\<lambda>f. g \<le> df_deliveryGeneration f) (co_pendingFrames s))),
      co_restoreAttempt := n, co_timer := t, co_trace := co_trace s @ es,
      co_state := if co_state s \<noteq> closed \<and> (co_state s \<noteq> resyncing \<or> b) then awaiting_control else co_state s\<rparr>"
proof -
  have nlow: "\<not> (case co_generationFence s of None \<Rightarrow> False | Some f \<Rightarrow> g \<le> f)"
    using up by (auto split: option.splits)
  let ?s1 = "s\<lparr>co_generationFence := Some g\<rparr>"
  show ?thesis
  proof (cases "co_delivery s")
    case None
    with nlow show ?thesis
      by (intro exI [of _ "[]"] exI [of _ "co_restoreAttempt s"] exI [of _ "co_timer s"])
        (simp add: advanceGenerationFence_def discardPendingFramesBefore_def Let_def)
  next
    case (Some d)
    with inv have "co_generationFence s = Some (rc_deliveryGeneration (dl_received d))"
      by (simp add: co_inv_def phase_ok_def deliv_ok_def)
    with up have lt: "rc_deliveryGeneration (dl_received d) < g" by simp
    obtain es where es: "acks_of es = []" and q: "discardPendingDelivery ?s1 =
      ?s1\<lparr>co_restoreAttempt := co_restoreAttempt ?s1 + 1, co_timer := None, co_delivery := None,
        co_trace := co_trace ?s1 @ es\<rparr>" using discardPendingDelivery_is by blast
    from Some nlow lt es show ?thesis
      by (intro exI [of _ es] exI [of _ "co_restoreAttempt s + 1"] exI [of _ None])
        (simp add: advanceGenerationFence_def discardPendingFramesBefore_def Let_def q)
  qed
qed

lemma fence_le_Some: "\<forall>a\<in>A. Some (h a) \<le> fe \<Longrightarrow> fe < Some g \<Longrightarrow> \<forall>a\<in>A. Some (h a) < Some (g :: int)"
  using le_less_trans by blast

lemma advance_raises:
  assumes inv: "co_inv s" and up: "co_generationFence s < Some g"
  shows "co_inv (advanceGenerationFence g b s) \<and>
    (open_state s \<longrightarrow> fresh_for g (advanceGenerationFence g b s)) \<and>
    co_generationFence (advanceGenerationFence g b s) = Some g"
proof -
  obtain es n t where es: "acks_of es = []"
    and n: "n = co_restoreAttempt s + 1 \<or> n = co_restoreAttempt s \<and> co_delivery s = None"
    and q: "advanceGenerationFence g b s = s\<lparr>co_generationFence := Some g, co_delivery := None,
      co_pendingFrames := filter (\<lambda>f. g \<le> df_deliveryGeneration f) (co_pendingFrames s),
      co_pendingBytes := sum_list (map frame_size (filter (\<lambda>f. g \<le> df_deliveryGeneration f) (co_pendingFrames s))),
      co_restoreAttempt := n, co_timer := t, co_trace := co_trace s @ es,
      co_state := if co_state s \<noteq> closed \<and> (co_state s \<noteq> resyncing \<or> b) then awaiting_control else co_state s\<rparr>"
    using advance_is [OF inv up, of b] by blast
  let ?s = "advanceGenerationFence g b s"
  have w: "acks_ok s" "inflight_ok s" "0 \<le> co_maxBufferedTailBytes s" "current_ok s"
    and pb: "co_pendingBytes s = sum_list (map frame_size (co_pendingFrames s))"
    and bu: "\<not> bufferBudgetExceeded s"
    and pf: "co_state s = resyncing \<or> co_state s = closed \<Longrightarrow> co_pendingFrames s = []"
    using inv by (auto simp: co_inv_def co_weak_def)
  have acks_lt: "\<forall>a\<in>set (acks s). Some (rc_deliveryGeneration a) < Some g"
    by (rule fence_le_Some [OF _ up]) (use w(1) in \<open>simp add: acks_ok_def\<close>)
  have ifl: "inflight_ok ?s \<and> current_ok ?s"
    using n
  proof
    assume "n = co_restoreAttempt s + 1"
    then show ?thesis using bump_attempt [OF w(2), of ?s] by (simp add: q)
  next
    assume n0: "n = co_restoreAttempt s \<and> co_delivery s = None"
    then have "co_restoreAttempt s \<notin> set (co_loading s) \<union> set (co_restorings s)"
      using w(4) by (auto simp: current_ok_def)
    then show ?thesis using w(2) n0 by (simp add: q inflight_ok_def current_ok_def)
  qed
  have bo: "0 \<le> (case co_delivery s of None \<Rightarrow> 0 | Some d \<Rightarrow> dl_bufferedBytes d)"
    using inv by (auto simp: co_inv_def phase_ok_def deliv_ok_def sum_size_nonneg split: option.splits)
  have budget: "\<not> bufferBudgetExceeded ?s"
    using bu bo pb filter_sum_le [of "\<lambda>f. g \<le> df_deliveryGeneration f" "co_pendingFrames s"]
      length_filter_le [of "\<lambda>f. g \<le> df_deliveryGeneration f" "co_pendingFrames s"]
    unfolding q bufferBudgetExceeded_def by (auto simp: not_less intro: order_trans [OF length_filter_le])
  have "acks_ok ?s" using w(1) acks_lt es unfolding q acks_ok_def by auto
  moreover have "phase_ok ?s" using acks_lt es unfolding q phase_ok_def by auto
  ultimately show ?thesis
    using ifl budget w(3) pf
    by (auto simp: co_inv_def co_weak_def q fresh_for_def open_state_def)
qed

lemma advance_inv: "co_inv s \<Longrightarrow> co_inv (advanceGenerationFence g b s)"
proof (cases "co_generationFence s < Some g")
  case False
  then obtain f where "co_generationFence s = Some f" "g \<le> f"
    by (cases "co_generationFence s") auto
  then show "co_inv s \<Longrightarrow> co_inv (advanceGenerationFence g b s)" by (simp add: advance_low)
qed (simp add: advance_raises)

section \<open>Applying frames\<close>

text \<open>What an operation may do to the replicas: append effects that are not acknowledgements.\<close>

lemma applyFrame_is:
  assumes "applyFrame env k c f s = (s', r)"
  shows "\<exists>es. acks_of es = [] \<and> s' = s\<lparr>co_trace := co_trace s @ es\<rparr> \<and>
    (\<forall>a. r = Inr a \<longrightarrow> (\<exists>x. applyMutationCursor c f = Inr (a, x)) \<and> written k es = pty_bytes f)"
proof (cases "applyMutationCursor c f")
  case (Inl e)
  with assms show ?thesis by (intro exI [of _ "[]"]) (auto simp: applyFrame_def)
next
  case (Inr p)
  obtain a x where p: "p = (a, x)" by (cases p)
  show ?thesis
  proof (cases "df_kind f = PtyOutput")
    case True
    with assms Inr p show ?thesis
      by (auto simp: applyFrame_def emit_effect_def pty_bytes_def split: if_splits
          intro: exI [of _ "[]"] exI [of _ "[WriteReplica k (df_payload f)]"])
  next
    case False
    with assms Inr p show ?thesis
      by (auto simp: applyFrame_def emit_effect_def pty_bytes_def split: if_splits option.splits
          intro: exI [of _ "[]"] exI [of _ "[ResizeReplica k z]" for z])
  qed
qed

lemma apply_frames_snoc:
  "apply_frames c fs = Inr c1 \<Longrightarrow> applyMutationCursor c1 f = Inr (c2, x) \<Longrightarrow> apply_frames c (fs @ [f]) = Inr c2"
  by (simp add: apply_frames_append)

text \<open>\<open>#flushBuffered\<close> feeds the candidate the buffered run.\<close>

lemma flush_loop_is:
  "flush_loop env k fs d s = (s', r) \<Longrightarrow> \<exists>es x. acks_of es = [] \<and>
     s' = s\<lparr>co_trace := co_trace s @ es, co_delivery := x\<rparr> \<and> (co_delivery s \<noteq> None \<longrightarrow> x \<noteq> None) \<and>
     (\<forall>d'. r = Inr d' \<longrightarrow> (\<exists>a. d' = d\<lparr>dl_applied := a\<rparr> \<and> apply_frames (dl_applied d) fs = Inr a) \<and>
        written k es = concat (map pty_bytes fs))"
proof (induction fs arbitrary: d s)
  case Nil
  then show ?case
    by (intro exI [of _ "[]"] exI [of _ "co_delivery s"]) (auto intro: exI [of _ "dl_applied d"])
next
  case (Cons f fs)
  obtain s1 r1 where ap: "applyFrame env k (dl_applied d) f s = (s1, r1)" by (cases "applyFrame env k (dl_applied d) f s")
  then obtain es where es: "acks_of es = []" "s1 = s\<lparr>co_trace := co_trace s @ es\<rparr>"
    and ok: "\<And>a. r1 = Inr a \<Longrightarrow> (\<exists>x. applyMutationCursor (dl_applied d) f = Inr (a, x)) \<and> written k es = pty_bytes f"
    using applyFrame_is [OF ap] by blast
  show ?case
  proof (cases r1)
    case (Inl e)
    with Cons.prems ap es show ?thesis
      by (intro exI [of _ es] exI [of _ "co_delivery s"]) auto
  next
    case (Inr a)
    then obtain z where am: "applyMutationCursor (dl_applied d) f = Inr (a, z)" and wr: "written k es = pty_bytes f"
      using ok by blast
    from Cons.prems ap Inr have
      "flush_loop env k fs (d\<lparr>dl_applied := a\<rparr>) (s1\<lparr>co_delivery := Some (d\<lparr>dl_applied := a\<rparr>)\<rparr>) = (s', r)" by simp
    from Cons.IH [OF this] obtain es2 x where *: "acks_of es2 = []"
      "s' = s1\<lparr>co_delivery := Some (d\<lparr>dl_applied := a\<rparr>)\<rparr>
         \<lparr>co_trace := co_trace (s1\<lparr>co_delivery := Some (d\<lparr>dl_applied := a\<rparr>)\<rparr>) @ es2, co_delivery := x\<rparr>"
      "co_delivery (s1\<lparr>co_delivery := Some (d\<lparr>dl_applied := a\<rparr>)\<rparr>) \<noteq> None \<longrightarrow> x \<noteq> None"
      and res: "\<forall>d'. r = Inr d' \<longrightarrow> (\<exists>b. d' = d\<lparr>dl_applied := a\<rparr>\<lparr>dl_applied := b\<rparr> \<and>
         apply_frames (dl_applied (d\<lparr>dl_applied := a\<rparr>)) fs = Inr b) \<and> written k es2 = concat (map pty_bytes fs)"
      by blast
    have "\<forall>d'. r = Inr d' \<longrightarrow> (\<exists>b. d' = d\<lparr>dl_applied := b\<rparr> \<and> apply_frames (dl_applied d) (f # fs) = Inr b) \<and>
       written k (es @ es2) = concat (map pty_bytes (f # fs))"
      using res am wr by auto
    with * es show ?thesis
      by (intro exI [of _ "es @ es2"] exI [of _ x]) simp
  qed
qed

section \<open>Committing\<close>

lemma replica_fed_extend:
  "replica_fed tr d k \<Longrightarrow> written k es = [] \<Longrightarrow> replica_fed (tr @ es) d k"
proof -
  assume "replica_fed tr d k" and w: "written k es = []"
  then obtain pre post fs where "tr = pre @ post" "apply_frames (start_cursor (dl_start d)) fs = Inr (dl_applied d)"
    "written k post = concat (map pty_bytes fs)" by (auto simp: replica_fed_def)
  with w show ?thesis
    unfolding replica_fed_def by (intro exI [of _ pre] exI [of _ "post @ es"] exI [of _ fs]) simp
qed

definition quiet :: "CoordinatorEffect list \<Rightarrow> bool" where
  "quiet es \<longleftrightarrow> acks_of es = [] \<and> (\<forall>k. written k es = [])"

lemma deliv_ok_quiet: "deliv_ok tr fe d \<Longrightarrow> quiet es \<Longrightarrow> deliv_ok (tr @ es) fe d"
  unfolding deliv_ok_def received_ok_def quiet_def
  by (auto split: option.splits intro: replica_fed_extend)

text \<open>Going live from a restored, caught-up candidate, or staying live.\<close>

lemma tryCommit_result:
  assumes inv: "co_inv s" and "open_state s" and run: "tryCommit env s = (s', r)"
  shows "co_weak s' \<and> co_generationFence s' = co_generationFence s \<and>
    (if r = Inr () then co_inv s' else open_state s')"
proof (cases "\<exists>d k c. co_delivery s = Some d \<and> dl_candidate d = Some k \<and> dl_commit d = Some c")
  case False
  with run inv have "s' = s" "r = Inr ()"
    by (auto simp: tryCommit_def split: option.splits)
  with inv show ?thesis by (simp add: co_invD)
next
  case True
  then obtain d k c where d: "co_delivery s = Some d" "dl_candidate d = Some k" "dl_commit d = Some c" by blast
  have dok: "deliv_ok (co_trace s) (co_generationFence s) d"
    using inv d by (simp add: co_inv_def phase_ok_def)
  then have ar: "dl_applied d = dl_received d"
    using d by (simp add: deliv_ok_def received_ok_def)
  let ?s1 = "s\<lparr>co_trace := co_trace s @ [Adopt k (dl_applied d), ReplicaProgress (dl_applied d)],
     co_liveReplica := Some k, co_activeCursor := Some (dl_applied d), co_timer := None, co_state := live\<rparr>"
  consider "co_state s = restoring" "s' = s" "r = Inl CoOther"
    | "co_state s = restoring" "s' = ?s1" "r = Inr ()"
    | "co_state s \<noteq> restoring" "s' = s\<lparr>co_timer := None, co_state := live\<rparr>" "r = Inr ()"
    using run d ar by (auto simp: tryCommit_def Let_def emit_effect_def split: if_splits)
  then show ?thesis
  proof cases
    case 1
    with assms(2) inv show ?thesis by (simp add: co_invD)
  next
    case 2
    have "deliv_ok (co_trace ?s1) (co_generationFence ?s1) d"
      using deliv_ok_quiet [OF dok, of "[Adopt k (dl_applied d), ReplicaProgress (dl_applied d)]"]
      by (simp add: quiet_def)
    then have "co_inv ?s1"
      using inv d by (auto simp: co_inv_def co_weak_def acks_ok_def inflight_ok_def phase_ok_def current_ok_def
          bufferBudgetExceeded_def)
    with 2 show ?thesis by (simp add: co_invD)
  next
    case 3
    have "co_inv (s\<lparr>co_timer := None, co_state := live\<rparr>)"
      using inv d 3(1) dok by (auto simp: co_inv_def co_weak_def acks_ok_def inflight_ok_def phase_ok_def current_ok_def
          bufferBudgetExceeded_def)
    with 3 show ?thesis by (simp add: co_invD)
  qed
qed

section \<open>A frame of the delivery\<close>

lemma received_run: "received_ok tr d \<Longrightarrow> \<exists>fs. apply_frames (start_cursor (dl_start d)) fs = Inr (dl_received d)"
  by (auto simp: received_ok_def replica_fed_def split: option.splits)

lemma received_advance:
  assumes d: "deliv_ok tr fe d" and mc: "applyMutationCursor (dl_received d) f = Inr (c, x)"
    and same: "dl_start d' = dl_start d" "dl_expectedCommit d' = dl_expectedCommit d" "dl_commit d' = dl_commit d"
      "dl_received d' = c"
    and rec: "received_ok (tr @ es @ [Acknowledge c]) d'"
    and bytes: "dl_bufferedBytes d' = sum_list (map frame_size (dl_buffered d'))" and es: "acks_of es = []"
  shows "deliv_ok (tr @ es @ [Acknowledge c]) fe d'"
proof -
  note flds = applyMutationCursor_fields [OF mc]
  have cm: "commit_ok d'"
    unfolding commit_ok_def same
  proof (intro allI impI)
    fix cc assume "dl_commit d = Some cc"
    then have old: "rc_lastEventSeq cc = rc_lastEventSeq (dl_expectedCommit d)"
      "rc_nextPtyOffset cc = rc_nextPtyOffset (dl_expectedCommit d)"
      "\<exists>fs. apply_frames (start_cursor (dl_start d)) fs = Inr cc" "\<exists>gs. apply_frames cc gs = Inr (dl_received d)"
      using d by (auto simp: deliv_ok_def commit_ok_def)
    then obtain gs where "apply_frames cc gs = Inr (dl_received d)" by blast
    from apply_frames_snoc [OF this mc] old
    show "rc_lastEventSeq cc = rc_lastEventSeq (dl_expectedCommit d) \<and>
      rc_nextPtyOffset cc = rc_nextPtyOffset (dl_expectedCommit d) \<and>
      (\<exists>fs. apply_frames (start_cursor (dl_start d)) fs = Inr cc) \<and> (\<exists>gs. apply_frames cc gs = Inr c)"
      by blast
  qed
  have "\<forall>a\<in>set (acks_of tr). ack_le a c"
    using d ack_le_mutation [OF mc] unfolding deliv_ok_def by (blast intro: ack_le_trans)
  with d cm rec bytes es flds same show ?thesis
    by (auto simp: deliv_ok_def)
qed

lemma acks_ok_snoc:
  assumes "acks_ok s" and "\<forall>a\<in>set (acks s). ack_le a c"
    and "Some (rc_deliveryGeneration c) \<le> co_generationFence s"
    and "acks s' = acks s @ [c]" and "co_generationFence s' = co_generationFence s"
  shows "acks_ok s'"
  using assms by (auto simp: acks_ok_def sorted_wrt_append)

text \<open>The pinned commit, then possibly going live.\<close>

lemma commit_frame_result:
  assumes inv: "co_inv s" and o: "open_state s" and d: "co_delivery s = Some d"
    and cm: "acceptCommit d frame = Inr d'"
    and run: "tryCommit env (acknowledge (dl_received d') (s\<lparr>co_delivery := Some d'\<rparr>)) = (s', r)"
  shows "co_weak s' \<and> co_generationFence s' = co_generationFence s \<and>
    (if r = Inr () then co_inv s' else open_state s')"
proof -
  let ?s1 = "acknowledge (dl_received d') (s\<lparr>co_delivery := Some d'\<rparr>)"
  have dok: "deliv_ok (co_trace s) (co_generationFence s) d"
    using inv d by (simp add: co_inv_def phase_ok_def)
  have d': "d' = d\<lparr>dl_commit := Some (dl_received d)\<rparr>"
    and at: "rc_lastEventSeq (dl_received d) = rc_lastEventSeq (dl_expectedCommit d)"
      "rc_nextPtyOffset (dl_received d) = rc_nextPtyOffset (dl_expectedCommit d)"
    using cm by (auto simp: acceptCommit_def split: if_splits)
  have rec: "received_ok (co_trace s) d" using dok by (simp add: deliv_ok_def)
  have "commit_ok d'"
    using received_run [OF rec] at unfolding commit_ok_def d' by (auto intro: exI [of _ "[]"])
  moreover have "replica_fed (co_trace s) d k \<Longrightarrow> replica_fed (co_trace s @ [Acknowledge (dl_received d)]) d' k" for k
    using replica_fed_extend [of "co_trace s" d k "[Acknowledge (dl_received d)]"]
    by (simp add: replica_fed_def d')
  then have "received_ok (co_trace s @ [Acknowledge (dl_received d)]) d'"
    using rec by (auto simp: received_ok_def d' split: option.splits)
  ultimately have dok': "deliv_ok (co_trace ?s1) (co_generationFence ?s1) d'"
    using dok by (auto simp: deliv_ok_def d' acknowledge_def)
  have "acks_ok ?s1"
    by (rule acks_ok_snoc [of s "dl_received d"])
      (use inv dok in \<open>auto simp: co_inv_def co_weak_def deliv_ok_def acknowledge_def d'\<close>)
  then have "co_inv ?s1"
    using inv d dok' unfolding co_inv_def co_weak_def
    by (auto simp: phase_ok_def inflight_ok_def current_ok_def bufferBudgetExceeded_def acknowledge_def d')
  moreover have "open_state ?s1" using o by (simp add: open_state_def acknowledge_def)
  ultimately show ?thesis
    using tryCommit_result [OF _ _ run] by (simp add: acknowledge_def)
qed

text \<open>A mutation on a delivery that still waits for its candidate is buffered, within budget.\<close>

lemma buffered_frame_result:
  assumes inv: "co_inv s" and o: "open_state s" and d: "co_delivery s = Some d" "dl_candidate d = None"
    and mc: "applyMutationCursor (dl_received d) f = Inr (c, x)"
    and d2: "d2 = d\<lparr>dl_received := c, dl_buffered := dl_buffered d @ [f],
                    dl_bufferedBytes := dl_bufferedBytes d + frame_size f\<rparr>"
    and s2: "s2 = s\<lparr>co_delivery := Some d2\<rparr>"
  shows "co_weak s2" and "open_state s2" and "\<not> bufferBudgetExceeded s2 \<Longrightarrow> co_inv (acknowledge c s2)"
proof -
  have dok: "deliv_ok (co_trace s) (co_generationFence s) d"
    using inv d by (simp add: co_inv_def phase_ok_def)
  show "co_weak s2" using co_invD [OF inv] by (simp add: s2 co_weak_def acks_ok_def inflight_ok_def)
  show "open_state s2" using o by (simp add: s2 open_state_def)
  have st: "co_state s = restoring" using inv d by (auto simp: co_inv_def phase_ok_def)
  have fit: "deliv_ok (co_trace s @ [] @ [Acknowledge c]) (co_generationFence s) d2"
    by (rule received_advance [OF dok mc])
      (use dok d mc in \<open>auto simp: d2 received_ok_def deliv_ok_def apply_frames_append\<close>)
  have "acks_ok (acknowledge c s2)"
    by (rule acks_ok_snoc [of s c])
      (use inv fit applyMutationCursor_fields [OF mc] dok in
        \<open>auto simp: co_inv_def co_weak_def deliv_ok_def acknowledge_def d2 s2\<close>)
  then show "co_inv (acknowledge c s2)" if "\<not> bufferBudgetExceeded s2"
    using inv fit that st d unfolding co_inv_def co_weak_def
    by (auto simp: phase_ok_def inflight_ok_def current_ok_def bufferBudgetExceeded_def acknowledge_def s2 d2)
qed

text \<open>A mutation on a delivery with a candidate is applied to it.\<close>

lemma applied_frame_result:
  assumes inv: "co_inv s" and d: "co_delivery s = Some d" "dl_candidate d = Some k"
    and mc: "applyMutationCursor (dl_received d) f = Inr (c, x)"
    and es: "acks_of es = []" "written k es = pty_bytes f"
    and s4: "s4 = s\<lparr>co_delivery := Some (d\<lparr>dl_received := c, dl_applied := c\<rparr>), co_trace := co_trace s @ es @ p @ [Acknowledge c],
       co_activeCursor := z\<rparr>"
    and p: "(if co_liveReplica s = Some k then p = [ReplicaProgress c] \<and> z = Some c
             else p = [] \<and> z = co_activeCursor s)"
  shows "co_inv s4"
proof -
  let ?d = "d\<lparr>dl_received := c, dl_applied := c\<rparr>"
  have dok: "deliv_ok (co_trace s) (co_generationFence s) d"
    using inv d by (simp add: co_inv_def phase_ok_def)
  then have ap: "dl_applied d = dl_received d" and bu: "dl_buffered d = []" "dl_bufferedBytes d = 0"
    and fed: "replica_fed (co_trace s) d k"
    using d by (auto simp: deliv_ok_def received_ok_def)
  have pq: "acks_of p = []" "written k p = []" using p by (auto split: if_splits)
  obtain pre post fs where "co_trace s = pre @ post"
    "apply_frames (start_cursor (dl_start d)) fs = Inr (dl_applied d)" "written k post = concat (map pty_bytes fs)"
    using fed by (auto simp: replica_fed_def)
  with es pq mc ap have "replica_fed (co_trace s @ (es @ p) @ [Acknowledge c]) ?d k"
    unfolding replica_fed_def
    by (intro exI [of _ pre] exI [of _ "post @ es @ p @ [Acknowledge c]"] exI [of _ "fs @ [f]"])
      (simp add: apply_frames_append)
  then have fit: "deliv_ok (co_trace s @ (es @ p) @ [Acknowledge c]) (co_generationFence s) ?d"
    by (intro received_advance [OF dok mc]) (use d bu es pq in \<open>auto simp: received_ok_def\<close>)
  have "acks_ok s4"
    by (rule acks_ok_snoc [of s c])
      (use inv fit applyMutationCursor_fields [OF mc] dok es pq in
        \<open>auto simp: co_inv_def co_weak_def deliv_ok_def s4\<close>)
  then show "co_inv s4"
    using inv fit d p bu unfolding co_inv_def co_weak_def
    by (auto simp: phase_ok_def inflight_ok_def current_ok_def bufferBudgetExceeded_def s4 split: if_splits)
qed

text \<open>What a handled frame leaves of the delivery it was for.\<close>

definition same_restore :: "coordinator \<Rightarrow> coordinator \<Rightarrow> bool" where
  "same_restore s s' \<longleftrightarrow> co_loading s' = co_loading s \<and> co_restorings s' = co_restorings s \<and>
     (\<forall>d'. co_delivery s' = Some d' \<longrightarrow> co_restoreAttempt s' = co_restoreAttempt s \<and>
        (\<exists>d. co_delivery s = Some d \<and> dl_candidate d' = dl_candidate d))"

lemma same_restore_refl [simp]: "same_restore s s"
  by (simp add: same_restore_def)

lemma same_restore_trans: "same_restore a b \<Longrightarrow> same_restore b c \<Longrightarrow> same_restore a c"
  unfolding same_restore_def by (metis (no_types, lifting))

lemma same_restore_resync [simp]: "open_state s \<Longrightarrow> same_restore s' s \<Longrightarrow> same_restore s' (requestResync r s)"
  using requestResync_is [of s r] by (auto simp: same_restore_def)

lemma tryCommit_same: "open_state s \<Longrightarrow> tryCommit env s = (s', r) \<Longrightarrow> same_restore s s'"
proof -
  assume o: "open_state s" and run: "tryCommit env s = (s', r)"
  consider "s' = s" | "s' = requestResync journal_gap s"
    | "co_loading s' = co_loading s" "co_restorings s' = co_restorings s" "co_delivery s' = co_delivery s"
      "co_restoreAttempt s' = co_restoreAttempt s"
    using run by (auto simp: tryCommit_def Let_def emit_effect_def split: option.splits if_splits)
  then show ?thesis
  proof cases
    case 2
    with o show ?thesis by simp
  next
    case 3
    then show ?thesis by (simp add: same_restore_def)
  qed simp
qed

lemma acceptDeliveryFrame_result:
  assumes inv: "co_inv s" and o: "open_state s" and d: "co_delivery s = Some d"
    and run: "acceptDeliveryFrame env f d s = (s', r)"
  shows "co_weak s' \<and> co_generationFence s' = co_generationFence s \<and> same_restore s s' \<and>
    (if r = Inr () then co_inv s' else open_state s')"
proof (cases "df_kind f = ReplayCommit")
  case True
  show ?thesis
  proof (cases "acceptCommit d f")
    case (Inl e)
    with True run have "s' = s" "r = Inl (CoProtocol e)" by (auto simp: acceptDeliveryFrame_def)
    with inv o show ?thesis by (simp add: co_invD)
  next
    case (Inr d')
    let ?s1 = "acknowledge (dl_received d') (s\<lparr>co_delivery := Some d'\<rparr>)"
    from True run Inr have tc: "tryCommit env ?s1 = (s', r)" by (simp add: acceptDeliveryFrame_def)
    have "open_state ?s1" using o by (simp add: open_state_def acknowledge_def)
    from tryCommit_same [OF this tc] have "same_restore ?s1 s'" .
    moreover have "same_restore s ?s1"
      using Inr d by (auto simp: same_restore_def acknowledge_def acceptCommit_def split: if_splits)
    ultimately have "same_restore s s'" by (rule same_restore_trans [rotated])
    with commit_frame_result [OF inv o d Inr tc] show ?thesis by simp
  qed
next
  case False
  show ?thesis
  proof (cases "applyMutationCursor (dl_received d) f")
    case (Inl e)
    with False run have "s' = s" "r = Inl (CoProtocol e)" by (auto simp: acceptDeliveryFrame_def)
    with inv o show ?thesis by (simp add: co_invD)
  next
    case (Inr q)
    obtain c x where q: "q = (c, x)" by (cases q)
    with Inr have mc: "applyMutationCursor (dl_received d) f = Inr (c, x)" by simp
    show ?thesis
    proof (cases "dl_candidate d")
      case None
      let ?d2 = "d\<lparr>dl_received := c, dl_buffered := dl_buffered d @ [f],
                    dl_bufferedBytes := dl_bufferedBytes d + frame_size f\<rparr>"
      let ?s2 = "s\<lparr>co_delivery := Some ?d2\<rparr>"
      note b = buffered_frame_result [OF inv o d None mc refl refl]
      have out: "(s', r) = (if bufferBudgetExceeded ?s2 then (requestResync slow_client ?s2, Inr ())
          else (acknowledge c ?s2, Inr ()))"
        using run False mc None by (simp add: acceptDeliveryFrame_def Let_def)
      have sr: "same_restore s ?s2" using d by (simp add: same_restore_def)
      show ?thesis
      proof (cases "bufferBudgetExceeded ?s2")
        case True
        with out have "s' = requestResync slow_client ?s2" "r = Inr ()" by simp_all
        with weak_resync [OF b(1,2)] sr b(2) show ?thesis by (auto dest: co_invD)
      next
        case nb: False
        with out have s': "s' = acknowledge c ?s2" "r = Inr ()" by simp_all
        have "same_restore s s'" using sr by (simp add: s' same_restore_def acknowledge_def)
        with b(3) [OF nb] s' show ?thesis by (auto simp: acknowledge_def dest: co_invD)
      qed
    next
      case (Some k)
      let ?d1 = "d\<lparr>dl_received := c\<rparr>" and ?s1 = "s\<lparr>co_delivery := Some (d\<lparr>dl_received := c\<rparr>)\<rparr>"
      have dok: "deliv_ok (co_trace s) (co_generationFence s) d"
        using inv d by (simp add: co_inv_def phase_ok_def)
      then have ap: "dl_applied d = dl_received d" using Some by (simp add: deliv_ok_def received_ok_def)
      obtain s2 r2 where af: "applyFrame env k (dl_applied d) f ?s1 = (s2, r2)"
        by (cases "applyFrame env k (dl_applied d) f ?s1")
      obtain es where es: "acks_of es = []" "s2 = ?s1\<lparr>co_trace := co_trace ?s1 @ es\<rparr>"
        and ok: "\<forall>a. r2 = Inr a \<longrightarrow> (\<exists>x. applyMutationCursor (dl_applied d) f = Inr (a, x)) \<and> written k es = pty_bytes f"
        using applyFrame_is [OF af] by blast
      show ?thesis
      proof (cases r2)
        case (Inl e)
        with run False mc Some af have s': "r = Inl e" "s' = s2 \<or> s' = s2\<lparr>co_activeCursor := None\<rparr>"
          by (auto simp: acceptDeliveryFrame_def Let_def split: if_splits)
        with es d co_invD [OF inv] o show ?thesis
          by (auto simp: co_weak_def acks_ok_def inflight_ok_def same_restore_def open_state_def)
      next
        case (Inr a)
        with ok mc ap have a: "a = c" and wr: "written k es = pty_bytes f" by auto
        let ?p = "if co_liveReplica s = Some k then [ReplicaProgress c] else []"
        let ?z = "if co_liveReplica s = Some k then Some c else co_activeCursor s"
        from run False mc Some af Inr a es have s': "r = Inr ()"
          "s' = s\<lparr>co_delivery := Some (d\<lparr>dl_received := c, dl_applied := c\<rparr>),
             co_trace := co_trace s @ es @ ?p @ [Acknowledge c], co_activeCursor := ?z\<rparr>"
          by (auto simp: acceptDeliveryFrame_def Let_def acknowledge_def emit_effect_def)
        have "co_inv s'"
          by (rule applied_frame_result [OF inv d Some mc es(1) wr s'(2)]) simp
        moreover have "same_restore s s'" using d by (simp add: s' same_restore_def)
        ultimately show ?thesis using s' by (simp add: co_invD)
      qed
    qed
  qed
qed

section \<open>Data from the relay\<close>

lemma pending_frame_inv:
  assumes inv: "co_inv s" and o: "open_state s" and d: "co_delivery s = None"
  shows "co_inv (bufferPendingFrame f s)" and "same_restore s (bufferPendingFrame f s)"
    and "co_generationFence (bufferPendingFrame f s) = co_generationFence s"
proof -
  let ?s1 = "s\<lparr>co_pendingFrames := co_pendingFrames s @ [f], co_pendingBytes := co_pendingBytes s + frame_size f\<rparr>"
  have w: "co_weak ?s1" "open_state ?s1"
    using inv o by (auto simp: co_inv_def co_weak_def acks_ok_def inflight_ok_def open_state_def)
  have "\<not> bufferBudgetExceeded ?s1 \<Longrightarrow> co_inv ?s1"
    using inv o d w by (auto simp: co_inv_def phase_ok_def current_ok_def open_state_def)
  with weak_resync [OF w] show "co_inv (bufferPendingFrame f s)"
    by (simp add: bufferPendingFrame_def Let_def)
  have "same_restore s ?s1" using d by (simp add: same_restore_def)
  with w show "same_restore s (bufferPendingFrame f s)"
    by (simp add: bufferPendingFrame_def Let_def)
  show "co_generationFence (bufferPendingFrame f s) = co_generationFence s"
    using weak_resync [OF w] by (simp add: bufferPendingFrame_def Let_def)
qed

definition fence_le :: "coordinator \<Rightarrow> coordinator \<Rightarrow> bool" where
  "fence_le s s' \<longleftrightarrow> co_generationFence s \<le> co_generationFence s'"

lemma fence_le_refl [simp]: "fence_le s s"
  by (simp add: fence_le_def)

lemma advance_fence: "co_inv s \<Longrightarrow> fence_le s (advanceGenerationFence g b s)"
proof (cases "co_generationFence s < Some g")
  case False
  then obtain f where "co_generationFence s = Some f" "g \<le> f" by (cases "co_generationFence s") auto
  then show ?thesis by (simp add: advance_low)
next
  case True
  then show "co_inv s \<Longrightarrow> fence_le s (advanceGenerationFence g b s)"
    using advance_raises [of s g b] by (simp add: fence_le_def)
qed

lemma advance_open: "co_inv s \<Longrightarrow> open_state s \<Longrightarrow> open_state (advanceGenerationFence g b s)"
proof (cases "co_generationFence s < Some g")
  case False
  then obtain f where "co_generationFence s = Some f" "g \<le> f" by (cases "co_generationFence s") auto
  then show "open_state s \<Longrightarrow> open_state (advanceGenerationFence g b s)" by (simp add: advance_low)
next
  case True
  then show "co_inv s \<Longrightarrow> open_state s \<Longrightarrow> open_state (advanceGenerationFence g b s)"
    using advance_raises [of s g b] by (auto simp: fresh_for_def open_state_def)
qed

lemma resync_result:
  "co_inv s \<Longrightarrow> open_state s \<Longrightarrow>
   co_inv (requestResync r s) \<and> co_generationFence (requestResync r s) = co_generationFence s \<and>
   same_restore s (requestResync r s)"
  using weak_resync [OF co_invD, of s r] by simp

lemma frame_cases:
  assumes "(if B then (t, Inl e) else if R then (u, Inr ())
    else (case delivery of None \<Rightarrow> (q, Inr ()) | Some d \<Rightarrow> if S d then (t, Inr ()) else acc d)) = (s', r)"
  obtains "s' = t" "r = Inl e" | "s' = u" "r = Inr ()" | "delivery = None" "s' = q" "r = Inr ()"
    | "s' = t" "r = Inr ()" | d where "delivery = Some d" "acc d = (s', r)"
proof (cases B)
  case True
  with assms that(1) show ?thesis by simp
next
  case B: False
  show ?thesis
  proof (cases R)
    case True
    with assms B that(2) show ?thesis by simp
  next
    case R: False
    show ?thesis
    proof (cases delivery)
      case None
      with assms B R that(3) show ?thesis by simp
    next
      case (Some d)
      with assms B R that(4) that(5) [of d] show ?thesis by (cases "S d") simp_all
    qed
  qed
qed

text \<open>A frame that does not raise the fence leaves the current restore alone.\<close>

lemma acceptFrame_result:
  assumes inv: "co_inv s" and o: "open_state s" and run: "acceptFrame env f s = (s', r)"
  shows "co_weak s' \<and> fence_le s s' \<and>
    (Some (df_deliveryGeneration f) \<le> co_generationFence s \<longrightarrow>
       same_restore s s' \<and> co_generationFence s' = co_generationFence s) \<and>
    (if r = Inr () then co_inv s' else open_state s')"
proof (cases "case co_generationFence s of None \<Rightarrow> False | Some z \<Rightarrow> df_deliveryGeneration f < z")
  case True
  with run inv show ?thesis by (simp add: acceptFrame_def co_invD)
next
  case False
  let ?s1 = "advanceGenerationFence (df_deliveryGeneration f) False s"
  have i1: "co_inv ?s1" and o1: "open_state ?s1" and f1: "fence_le s ?s1"
    using advance_inv [OF inv] advance_open [OF inv o] advance_fence [OF inv] by auto
  have low: "Some (df_deliveryGeneration f) \<le> co_generationFence s \<Longrightarrow> ?s1 = s"
    by (cases "co_generationFence s") (auto simp: advance_low)
  have eq: "acceptFrame env f s = (if df_kind f = DeliveryBarrier then (?s1, Inl (CoProtocol BAD_KIND))
        else if df_kind f = Reset then (requestResync slow_client ?s1, Inr ())
        else (case co_delivery ?s1 of
            None \<Rightarrow> (bufferPendingFrame f ?s1, Inr ())
          | Some d \<Rightarrow>
              if df_deliveryGeneration f < rc_deliveryGeneration (dl_received d) \<or> df_streamId f \<noteq> dl_streamId d
              then (?s1, Inr ()) else acceptDeliveryFrame env f d ?s1))"
    unfolding acceptFrame_def if_not_P [OF False] Let_def by simp
  have goal: "co_weak s' \<and> co_generationFence s' = co_generationFence ?s1 \<and> same_restore ?s1 s' \<and>
    (if r = Inr () then co_inv s' else open_state s')"
  proof -
    consider (barrier) "s' = ?s1" "r = Inl (CoProtocol BAD_KIND)"
      | (reset) "s' = requestResync slow_client ?s1" "r = Inr ()"
      | (queue) "co_delivery ?s1 = None" "s' = bufferPendingFrame f ?s1" "r = Inr ()"
      | (skip) "s' = ?s1" "r = Inr ()"
      | (accept) d where "co_delivery ?s1 = Some d" "acceptDeliveryFrame env f d ?s1 = (s', r)"
      by (rule frame_cases [OF run [unfolded eq]])
    then show ?thesis
    proof cases
      case barrier with i1 o1 show ?thesis by (simp add: co_invD)
    next
      case reset with resync_result [OF i1 o1] show ?thesis by (simp add: co_invD)
    next
      case queue with pending_frame_inv [OF i1 o1 queue(1)] show ?thesis by (simp add: co_invD)
    next
      case skip with i1 show ?thesis by (simp add: co_invD)
    next
      case accept with acceptDeliveryFrame_result [OF i1 o1 accept] show ?thesis by simp
    qed
  qed
  moreover have "same_restore s s' \<and> co_generationFence s' = co_generationFence s"
    if "Some (df_deliveryGeneration f) \<le> co_generationFence s"
    using goal unfolding low [OF that] by blast
  moreover have "fence_le s s'" using f1 goal by (simp add: fence_le_def)
  ultimately show ?thesis by blast
qed

lemma caught_resync:
  assumes "co_weak s'" "fence_le s s'" "open_state s'"
  shows "co_inv (requestResync q s') \<and> fence_le s (requestResync q s')"
  using weak_resync [OF assms(1,3), of q] assms(2) by (simp add: fence_le_def)

lemma acceptData_result: "co_inv s \<Longrightarrow> co_inv (acceptData env b s) \<and> fence_le s (acceptData env b s)"
proof (cases "open_state s")
  case False
  then show "co_inv s \<Longrightarrow> ?thesis" by (auto simp: acceptData_def open_state_def)
next
  case o: True
  assume inv: "co_inv s"
  from o have ns: "\<not> (co_state s = closed \<or> co_state s = resyncing)" by (simp add: open_state_def)
  show ?thesis
  proof (cases "decodeDataFrame b")
    case (Inl e)
    with ns resync_result [OF inv o] show ?thesis by (simp add: acceptData_def fence_le_def)
  next
    case (Inr f)
    obtain s' r where run: "acceptFrame env f s = (s', r)" by (cases "acceptFrame env f s")
    note res = acceptFrame_result [OF inv o run]
    show ?thesis
    proof (cases r)
      case (Inl e)
      with ns Inr run res caught_resync [of s' s] show ?thesis by (simp add: acceptData_def o)
    next
      case (Inr u)
      with ns \<open>decodeDataFrame b = Inr f\<close> run res show ?thesis by (simp add: acceptData_def)
    qed
  qed
qed

section \<open>Starting a delivery\<close>

lemma drain_loop_result:
  "co_inv s \<Longrightarrow> co_state s \<noteq> closed \<Longrightarrow> co_generationFence s = Some g \<Longrightarrow>
   \<forall>f\<in>set fs. df_deliveryGeneration f = g \<Longrightarrow>
   co_inv (drain_loop env fs s) \<and> fence_le s (drain_loop env fs s) \<and> same_restore s (drain_loop env fs s)"
proof (induction fs arbitrary: s)
  case Nil
  then show ?case by simp
next
  case (Cons f fs)
  show ?case
  proof (cases "co_delivery s = None \<or> co_state s = resyncing")
    case True
    with Cons.prems show ?thesis by simp
  next
    case False
    with Cons.prems have o: "open_state s" by (simp add: open_state_def)
    obtain s' r where run: "acceptFrame env f s = (s', r)" by (cases "acceptFrame env f s")
    have "Some (df_deliveryGeneration f) \<le> co_generationFence s" using Cons.prems by simp
    with acceptFrame_result [OF Cons.prems(1) o run]
    have res: "co_weak s'" "fence_le s s'" "same_restore s s'" "if r = Inr () then co_inv s' else open_state s'"
      "co_generationFence s' = co_generationFence s"
      by blast+
    show ?thesis
    proof (cases r)
      case (Inl e)
      then have "drain_loop env (f # fs) s = requestResync (resync_reason e) s'"
        using False run by (simp only: drain_loop.simps if_False prod.case sum.case)
      moreover have "open_state s'" using res(4) Inl by simp
      ultimately show ?thesis
        using caught_resync [OF res(1,2)] res(3) by (simp del: drain_loop.simps)
    next
      case (Inr u)
      then have eq: "drain_loop env (f # fs) s = drain_loop env fs s'"
        using False run by (simp only: drain_loop.simps if_False prod.case sum.case)
      have i': "co_inv s'" using res(4) Inr by simp
      show ?thesis
      proof (cases "co_delivery s' = None \<or> co_state s' = resyncing")
        case True
        then have "drain_loop env fs s' = s'" by (cases fs) simp_all
        with eq i' res show ?thesis by simp
      next
        case cont: False
        then have "co_state s' \<noteq> closed"
          using i' by (auto simp: co_inv_def phase_ok_def split: option.splits)
        from Cons.IH [OF i' this] res(5) Cons.prems(3,4)
        have "co_inv (drain_loop env fs s') \<and> fence_le s' (drain_loop env fs s') \<and>
          same_restore s' (drain_loop env fs s')" by simp
        with eq res(2,3) show ?thesis
          unfolding fence_le_def by (auto intro: order_trans same_restore_trans)
      qed
    qed
  qed
qed

lemma drainPendingFrames_result:
  assumes inv: "co_inv s" and d: "co_delivery s = Some d"
  shows "co_inv (drainPendingFrames env d s) \<and> fence_le s (drainPendingFrames env d s) \<and>
    same_restore s (drainPendingFrames env d s)"
proof -
  let ?g = "rc_deliveryGeneration (dl_received d)"
  let ?P = "\<lambda>f. ?g < df_deliveryGeneration f"
  let ?s = "s\<lparr>co_pendingFrames := filter ?P (co_pendingFrames s),
     co_pendingBytes := sum_list (map frame_size (filter ?P (co_pendingFrames s)))\<rparr>"
  have g: "co_generationFence s = Some ?g" and st: "co_state s \<noteq> closed" "co_state s \<noteq> resyncing"
    using inv d by (auto simp: co_inv_def phase_ok_def deliv_ok_def)
  have "\<not> bufferBudgetExceeded s" "co_pendingBytes s = sum_list (map frame_size (co_pendingFrames s))"
    using inv by (simp_all add: co_inv_def)
  then have "\<not> bufferBudgetExceeded ?s"
    using filter_sum_le [of ?P "co_pendingFrames s"] length_filter_le [of ?P "co_pendingFrames s"] d
    unfolding bufferBudgetExceeded_def by (auto simp: not_less intro: order_trans [OF add_mono [OF length_filter_le order_refl]])
  then have "co_inv ?s"
    using inv st d by (simp add: co_inv_def co_weak_def acks_ok_def inflight_ok_def phase_ok_def current_ok_def)
  moreover have "\<forall>f\<in>set (filter (\<lambda>f. df_deliveryGeneration f = ?g \<and> df_streamId f = dl_streamId d)
      (co_pendingFrames s)). df_deliveryGeneration f = ?g" by simp
  moreover have "co_state ?s \<noteq> closed" "co_generationFence ?s = Some ?g" using st g by simp_all
  ultimately have run: "co_inv (drain_loop env ready ?s) \<and> fence_le ?s (drain_loop env ready ?s) \<and>
      same_restore ?s (drain_loop env ready ?s)"
    if "ready = filter (\<lambda>f. df_deliveryGeneration f = ?g \<and> df_streamId f = dl_streamId d) (co_pendingFrames s)" for ready
    using drain_loop_result [of ?s ?g ready env] that by blast
  have e: "fence_le ?s x = fence_le s x" "same_restore ?s x = same_restore s x" for x
    by (simp_all add: fence_le_def same_restore_def)
  show ?thesis
    unfolding drainPendingFrames_def Let_def using run [OF refl] unfolding e .
qed

lemma acceptDeliveryStart_result:
  assumes inv: "co_inv s" and nc: "co_state s \<noteq> closed" and run: "acceptDeliveryStart start s = (s0, ok)"
  shows "co_inv s0 \<and> co_generationFence s0 = co_generationFence s"
    and "ok \<Longrightarrow> s0 = s \<and> open_state s \<and> (co_generationFence s < Some (deliveryStartGeneration start) \<or>
      co_generationFence s = Some (deliveryStartGeneration start) \<and> co_delivery s = None)"
proof -
  let ?g = "deliveryStartGeneration start"
  have gen: "co_delivery s = Some d \<Longrightarrow> co_generationFence s = Some (deliveryStartGeneration (dl_start d))" for d
    using inv by (simp add: co_inv_def phase_ok_def deliv_ok_def)
  have "s0 = s \<or> (s0 = requestResync journal_gap s \<and> open_state s)"
    using run nc by (auto simp: acceptDeliveryStart_def Let_def open_state_def split: if_splits option.splits)
  then show "co_inv s0 \<and> co_generationFence s0 = co_generationFence s"
    using inv resync_result [OF inv] by auto
  assume "ok"
  with run nc have *: "s0 = s" "open_state s" "\<not> (case co_generationFence s of None \<Rightarrow> False | Some f \<Rightarrow> ?g < f)"
    "\<forall>d. co_delivery s = Some d \<longrightarrow> deliveryStartGeneration (dl_start d) < ?g"
    by (auto simp: acceptDeliveryStart_def Let_def open_state_def split: if_splits option.splits)
  have "co_generationFence s < Some ?g \<or> co_generationFence s = Some ?g \<and> co_delivery s = None"
    using * gen by (cases "co_generationFence s"; cases "co_delivery s") auto
  with * show "s0 = s \<and> open_state s \<and> (co_generationFence s < Some ?g \<or>
      co_generationFence s = Some ?g \<and> co_delivery s = None)" by simp
qed

lemma fresh_start:
  assumes inv: "co_inv s" and o: "open_state s"
    and g: "co_generationFence s < Some g \<or> co_generationFence s = Some g \<and> co_delivery s = None"
  shows "co_inv (advanceGenerationFence g False s)" "fresh_for g (advanceGenerationFence g False s)"
    "fence_le s (advanceGenerationFence g False s)"
proof -
  show "co_inv (advanceGenerationFence g False s)" using inv by (rule advance_inv)
  show "fence_le s (advanceGenerationFence g False s)" using inv by (rule advance_fence)
  show "fresh_for g (advanceGenerationFence g False s)"
    using g
  proof
    assume "co_generationFence s < Some g"
    from advance_raises [OF inv this] o show ?thesis by blast
  next
    assume eq: "co_generationFence s = Some g \<and> co_delivery s = None"
    then have "advanceGenerationFence g False s = s" by (simp add: advance_low)
    with eq inv o show ?thesis by (auto simp: fresh_for_def co_inv_def phase_ok_def open_state_def)
  qed
qed

lemma install_inv:
  assumes inv: "co_inv s" and fresh: "fresh_for g s"
    and s3: "s3 = s\<lparr>co_restoreAttempt := n, co_timer := t, co_delivery := Some d, co_activeCursor := z,
       co_state := st, co_trace := co_trace s @ es\<rparr>"
    and es: "acks_of es = []" and n: "co_restoreAttempt s < n"
    and d: "d = newDelivery start stream c e cand" "c = start_cursor start" "rc_deliveryGeneration c = g"
      "deliveryStartGeneration start = g"
    and st: "st = restoring \<and> cand = None \<or> st = replaying \<and> cand \<noteq> None \<and> cand = co_liveReplica s \<and> z = Some c"
  shows "co_inv s3"
proof -
  have old: "\<forall>a\<in>set (co_loading s) \<union> set (co_restorings s). a < n"
    using inv n by (force simp: co_inv_def co_weak_def inflight_ok_def)
  have le: "\<forall>a\<in>set (co_loading s) \<union> set (co_restorings s). a \<le> n"
    using old less_imp_le by blast
  have "n \<notin> set (co_loading s) \<union> set (co_restorings s)"
    using old by blast
  then have i: "current_ok s3"
    by (simp add: s3 current_ok_def)
  have "inflight_ok s" using inv by (simp add: co_inv_def co_weak_def)
  then have i: "inflight_ok s3" "current_ok s3"
    using i le by (simp_all add: s3 inflight_ok_def)
  have lt: "\<forall>a\<in>set (acks s). Some (rc_deliveryGeneration a) < Some g"
    using inv fresh by (auto simp: co_inv_def phase_ok_def fresh_for_def)
  have fed: "replica_fed (co_trace s @ es) (newDelivery start stream c e (Some k)) k" for k
    unfolding replica_fed_def
    by (intro exI [of _ "co_trace s @ es"] exI [of _ "[]"]) (simp add: newDelivery_def d)
  have "received_ok (co_trace s @ es) d"
    using fed by (auto simp: received_ok_def d newDelivery_def split: option.splits)
  then have "deliv_ok (co_trace s3) (co_generationFence s3) d"
    using lt fresh d es by (auto simp: deliv_ok_def s3 newDelivery_def commit_ok_def fresh_for_def ack_le_def)
  then show ?thesis
    using inv i st fresh es d(1)
    by (auto simp: co_inv_def co_weak_def acks_ok_def phase_ok_def s3 bufferBudgetExceeded_def newDelivery_def fresh_for_def)
qed

lemma fresh_open: "fresh_for g s \<Longrightarrow> open_state s"
  by (auto simp: fresh_for_def open_state_def)

lemma fence_le_trans: "fence_le a b \<Longrightarrow> fence_le b c \<Longrightarrow> fence_le a c"
  by (auto simp: fence_le_def)

lemma fenced_resync: "co_inv s \<Longrightarrow> fence_le s0 s \<Longrightarrow> open_state s \<Longrightarrow>
  co_inv (requestResync q s) \<and> fence_le s0 (requestResync q s)"
  using resync_result [of s q] by (simp add: fence_le_def)

lemma startWarmReplay_result:
  assumes inv: "co_inv s" and run: "startWarmReplay env w s = (s', r)"
  shows "co_inv s' \<and> fence_le s s'"
proof (cases "co_state s = closed")
  case True
  with inv run show ?thesis by (simp add: startWarmReplay_def)
next
  case nc: False
  let ?c = "warmReplayCursor w" and ?e = "warmReplayCommit w"
  let ?id = "WarmStart (wr_streamId w) ?c ?e"
  let ?g = "rc_deliveryGeneration ?c"
  obtain s0 ok where acc: "acceptDeliveryStart ?id s = (s0, ok)" by (cases "acceptDeliveryStart ?id s")
  note a = acceptDeliveryStart_result [OF inv nc acc]
  show ?thesis
  proof (cases ok)
    case False
    with acc nc run have "s' = s0" by (simp add: startWarmReplay_def Let_def)
    with a(1) show ?thesis by (simp add: fence_le_def)
  next
    case True
    with a(2) have s0: "s0 = s" and o: "open_state s"
      and g: "co_generationFence s < Some ?g \<or> co_generationFence s = Some ?g \<and> co_delivery s = None" by auto
    let ?s1 = "advanceGenerationFence ?g False s"
    note f = fresh_start [OF inv o g]
    let ?bad = "\<lambda>k. rc_lastEventSeq ?e < rc_lastEventSeq ?c \<or> rc_nextPtyOffset ?e < rc_nextPtyOffset ?c \<or>
       (case co_activeCursor ?s1 of None \<Rightarrow> True | Some a \<Rightarrow> \<not> representsSameTerminalState a ?c)"
    let ?s3 = "\<lambda>k. (discardPendingDelivery ?s1)\<lparr>co_delivery := Some (newDelivery ?id (wr_streamId w) ?c ?e (Some k)),
       co_activeCursor := Some ?c, co_state := replaying\<rparr>"
    have out: "s' = requestResync engine_mismatch ?s1 \<or> s' = requestResync journal_gap ?s1 \<or>
      (\<exists>k. co_liveReplica ?s1 = Some k \<and>
         s' = drainPendingFrames env (newDelivery ?id (wr_streamId w) ?c ?e (Some k)) (?s3 k))"
      using run acc nc True s0 by (auto simp: startWarmReplay_def Let_def split: option.splits if_splits)
    have ok: "co_inv (drainPendingFrames env (newDelivery ?id (wr_streamId w) ?c ?e (Some k)) (?s3 k)) \<and>
        fence_le ?s1 (drainPendingFrames env (newDelivery ?id (wr_streamId w) ?c ?e (Some k)) (?s3 k))"
      if k: "co_liveReplica ?s1 = Some k" for k
    proof -
      obtain es where es: "acks_of es = []" "discardPendingDelivery ?s1 =
         ?s1\<lparr>co_restoreAttempt := co_restoreAttempt ?s1 + 1, co_timer := None, co_delivery := None,
           co_trace := co_trace ?s1 @ es\<rparr>" using discardPendingDelivery_is by blast
      have "co_inv (?s3 k)"
        by (rule install_inv [OF f(1,2), where start = ?id and c = ?c and e = ?e and cand = "Some k" and es = es
            and stream = "wr_streamId w" and n = "co_restoreAttempt ?s1 + 1" and st = replaying and z = "Some ?c"
            and t = None])
          (use es k in simp_all)
      moreover have "co_generationFence (?s3 k) = co_generationFence ?s1" by (simp add: es)
      ultimately show ?thesis
        using drainPendingFrames_result [of "?s3 k" "newDelivery ?id (wr_streamId w) ?c ?e (Some k)" env]
        by (simp add: fence_le_def)
    qed
    from out show ?thesis
      using fenced_resync [OF f(1,3) fresh_open [OF f(2)]] ok fence_le_trans [OF f(3)] by blast
  qed
qed

lemma arm_inv:
  assumes inv: "co_inv s" and d: "co_delivery s = Some d" "dl_candidate d = None" "co_state s = restoring"
    and fresh: "co_restoreAttempt s \<notin> set (co_loading s) \<union> set (co_restorings s)"
  shows "co_inv (s\<lparr>co_timer := t, co_loading := co_loading s @ [co_restoreAttempt s]\<rparr>)"
  using assms
  by (auto simp: co_inv_def co_weak_def acks_ok_def inflight_ok_def phase_ok_def current_ok_def bufferBudgetExceeded_def)

lemma startSnapshot_result:
  assumes inv: "co_inv s" and run: "startSnapshot env m s = (s', r)"
  shows "co_inv s' \<and> fence_le s s'"
proof (cases "co_state s = closed")
  case True
  with inv run show ?thesis by (simp add: startSnapshot_def)
next
  case nc: False
  let ?c = "manifestCursor m" and ?id = "SnapshotStart (mf_streamId m) m" and ?g = "mf_deliveryGeneration m"
  let ?e = "\<lparr>rc_sessionEpoch = rc_sessionEpoch ?c, rc_deliveryGeneration = rc_deliveryGeneration ?c,
     rc_lastEventSeq = mf_commitEventSeq m, rc_nextPtyOffset = mf_commitPtyOffset m\<rparr>"
  let ?d = "newDelivery ?id (mf_streamId m) ?c ?e None"
  obtain s0 ok where acc: "acceptDeliveryStart ?id s = (s0, ok)" by (cases "acceptDeliveryStart ?id s")
  note a = acceptDeliveryStart_result [OF inv nc acc]
  show ?thesis
  proof (cases ok)
    case False
    with acc nc run have "s' = s0" by (simp add: startSnapshot_def Let_def)
    with a(1) show ?thesis by (simp add: fence_le_def)
  next
    case True
    with a(2) have s0: "s0 = s" and o: "open_state s"
      and g: "co_generationFence s < Some ?g \<or> co_generationFence s = Some ?g \<and> co_delivery s = None" by auto
    let ?s1 = "advanceGenerationFence ?g False s"
    let ?s2 = "discardPendingDelivery ?s1"
    let ?s3 = "?s2\<lparr>co_restoreAttempt := co_restoreAttempt ?s2 + 1\<rparr>"
    let ?i = "?s3\<lparr>co_delivery := Some ?d, co_state := restoring\<rparr>"
    let ?s4 = "drainPendingFrames env ?d ?i"
    note f = fresh_start [OF inv o g]
    obtain es where es: "acks_of es = []" "?s2 =
       ?s1\<lparr>co_restoreAttempt := co_restoreAttempt ?s1 + 1, co_timer := None, co_delivery := None,
         co_trace := co_trace ?s1 @ es\<rparr>" using discardPendingDelivery_is by blast
    have "co_weak ?s3" "open_state ?s3" "co_generationFence ?s3 = co_generationFence ?s1"
      using f(1) fresh_open [OF f(2)] es
      by (auto simp: co_inv_def co_weak_def acks_ok_def inflight_ok_def open_state_def dest!: bspec)
    from weak_resync [OF this(1,2)] this(3) f(3)
    have bad: "co_inv (requestResync journal_gap ?s3) \<and> fence_le s (requestResync journal_gap ?s3)"
      by (simp add: fence_le_def)
    have "co_inv ?i"
      by (rule install_inv [OF f(1,2), where start = ?id and c = ?c and e = ?e and cand = None and es = es
          and stream = "mf_streamId m" and n = "co_restoreAttempt ?s1 + 2" and st = restoring
          and z = "co_activeCursor ?s1" and t = None])
        (use es in \<open>simp_all add: manifestCursor_def\<close>)
    then have dr: "co_inv ?s4" "fence_le ?i ?s4" "same_restore ?i ?s4"
      using drainPendingFrames_result [of ?i ?d env] by simp_all
    have fi: "fence_le s ?i" using f(3) by (simp add: fence_le_def es)
    have armed: "co_inv (?s4\<lparr>co_timer := Some (co_restoreAttempt ?s3),
        co_loading := co_loading ?s4 @ [co_restoreAttempt ?s3]\<rparr>)"
      if live: "co_delivery ?s4 \<noteq> None" "co_state ?s4 = restoring"
    proof -
      obtain d where d: "co_delivery ?s4 = Some d" using live by blast
      have att: "co_restoreAttempt ?s4 = co_restoreAttempt ?s3" and cn: "dl_candidate d = None"
        and ll: "co_loading ?s4 = co_loading ?s1" "co_restorings ?s4 = co_restorings ?s1"
        using dr(3) d by (auto simp: same_restore_def newDelivery_def es)
      have "co_restoreAttempt ?s4 \<notin> set (co_loading ?s4) \<union> set (co_restorings ?s4)"
        unfolding ll att using f(1) by (force simp: co_inv_def co_weak_def inflight_ok_def es)
      from arm_inv [OF dr(1) d cn live(2) this] att show ?thesis by simp
    qed
    have "s' = requestResync engine_mismatch ?s1 \<or> s' = requestResync journal_gap ?s3 \<or> s' = ?s4 \<or>
      (co_delivery ?s4 \<noteq> None \<and> co_state ?s4 = restoring \<and>
       s' = ?s4\<lparr>co_timer := Some (co_restoreAttempt ?s3), co_loading := co_loading ?s4 @ [co_restoreAttempt ?s3]\<rparr>)"
      using run acc nc True s0 by (simp add: startSnapshot_def Let_def split: if_splits)
    then show ?thesis
      using fenced_resync [OF f(1,3) fresh_open [OF f(2)]] bad dr(1) fence_le_trans [OF fi dr(2)] armed
      by (auto simp: fence_le_def)
  qed
qed

section \<open>The restore's continuations\<close>

lemma quiet_inv:
  assumes "co_inv s" and "quiet [e]"
  shows "co_inv (emit_effect e s)"
  using assms deliv_ok_quiet [OF _ assms(2)]
  by (auto simp: co_inv_def co_weak_def acks_ok_def inflight_ok_def phase_ok_def current_ok_def
      bufferBudgetExceeded_def quiet_def split: option.splits)

lemma restore_error_inv: "co_inv s \<Longrightarrow> co_inv (restore_error e s) \<and> fence_le s (restore_error e s)"
proof (cases "open_state s")
  case True
  then show "co_inv s \<Longrightarrow> ?thesis" using resync_result [of s] by (simp add: restore_error_def fence_le_def)
next
  case False
  then show "co_inv s \<Longrightarrow> ?thesis" by (auto simp: restore_error_def requestResync_def open_state_def)
qed

lemma any_resync: "co_inv s \<Longrightarrow> co_inv (requestResync q s) \<and> fence_le s (requestResync q s)"
proof (cases "open_state s")
  case True
  then show "co_inv s \<Longrightarrow> ?thesis" using resync_result [of s] by (simp add: fence_le_def)
next
  case False
  then show "co_inv s \<Longrightarrow> ?thesis" by (auto simp: requestResync_def open_state_def)
qed

lemma phase_ok_same:
  assumes "co_delivery s' = co_delivery s" "co_state s' = co_state s" "co_trace s' = co_trace s"
    "co_generationFence s' = co_generationFence s" "co_liveReplica s' = co_liveReplica s"
    "co_activeCursor s' = co_activeCursor s"
  shows "phase_ok s' \<longleftrightarrow> phase_ok s"
  unfolding phase_ok_def assms ..

lemma forget_inv:
  assumes "co_inv s" and "set L \<subseteq> set (co_loading s)" and "set R \<subseteq> set (co_restorings s)" and "distinct (L @ R)"
  shows "co_inv (s\<lparr>co_loading := L, co_restorings := R\<rparr>)"
proof -
  have "inflight_ok (s\<lparr>co_loading := L, co_restorings := R\<rparr>)" "current_ok (s\<lparr>co_loading := L, co_restorings := R\<rparr>)"
    using assms unfolding co_inv_def co_weak_def inflight_ok_def current_ok_def by (simp, blast)+
  moreover have "phase_ok (s\<lparr>co_loading := L, co_restorings := R\<rparr>) \<longleftrightarrow> phase_ok s"
    by (rule phase_ok_same) simp_all
  ultimately show ?thesis
    using assms(1) by (simp add: co_inv_def co_weak_def acks_ok_def bufferBudgetExceeded_def)
qed

lemma snapshotLoaded_result: "co_inv s \<Longrightarrow> co_inv (snapshotLoaded a r s) \<and> fence_le s (snapshotLoaded a r s)"
proof (cases "a \<in> set (co_loading s)")
  case False
  then show "co_inv s \<Longrightarrow> ?thesis" by (simp add: snapshotLoaded_def)
next
  case True
  assume inv: "co_inv s"
  let ?s1 = "s\<lparr>co_loading := removeAll a (co_loading s)\<rparr>"
  have dis: "distinct (co_loading s @ co_restorings s)" using inv by (simp add: co_inv_def co_weak_def inflight_ok_def)
  have "co_inv (s\<lparr>co_loading := removeAll a (co_loading s), co_restorings := co_restorings s\<rparr>)"
    by (rule forget_inv [OF inv]) (use dis in \<open>auto simp: distinct_removeAll\<close>)
  moreover have "s\<lparr>co_loading := removeAll a (co_loading s), co_restorings := co_restorings s\<rparr> = ?s1" by simp
  ultimately have i1: "co_inv ?s1" by metis
  have cur: "a = co_restoreAttempt s \<Longrightarrow> co_state s = restoring \<and> (\<exists>d. co_delivery s = Some d \<and> dl_candidate d = None)"
    using inv True by (auto simp: co_inv_def current_ok_def)
  have go: "co_inv (?s1\<lparr>co_restorings := co_restorings s @ [a]\<rparr>)" if "a = co_restoreAttempt s"
    using i1 cur [OF that] dis True that
    by (auto simp: co_inv_def co_weak_def acks_ok_def inflight_ok_def phase_ok_def current_ok_def bufferBudgetExceeded_def)
  from True show ?thesis
    using i1 restore_error_inv [OF i1] go
    by (auto simp: snapshotLoaded_def fence_le_def Let_def split: option.splits)
qed

lemma tryCommit_throws: "tryCommit env s = (s', Inl e) \<Longrightarrow> s' = s"
  by (auto simp: tryCommit_def Let_def split: option.splits if_splits)

lemma restored_candidate_result:
  assumes inv: "co_inv s" and d: "co_delivery s = Some d" "dl_candidate d = None" and st: "co_state s = restoring"
    and old: "co_restoreAttempt s \<notin> set (co_loading s) \<union> set (co_restorings s)"
    and run: "bindS (flushBuffered env) (\<lambda>_. tryCommit env) (s\<lparr>co_delivery := Some (d\<lparr>dl_candidate := Some k\<rparr>)\<rparr>) = (s2, r)"
  shows "co_weak s2 \<and> fence_le s s2 \<and>
    (if r = Inr () then co_inv s2 else open_state s2 \<and> co_restoreAttempt s2 = co_restoreAttempt s)"
proof -
  let ?d = "d\<lparr>dl_candidate := Some k\<rparr>"
  let ?s = "s\<lparr>co_delivery := Some ?d\<rparr>"
  obtain s1 q where fl: "flush_loop env k (dl_buffered d) ?d ?s = (s1, q)" by (cases "flush_loop env k (dl_buffered d) ?d ?s")
  obtain es x where es: "acks_of es = []" and s1: "s1 = ?s\<lparr>co_trace := co_trace ?s @ es, co_delivery := x\<rparr>"
    and ok: "\<forall>d'. q = Inr d' \<longrightarrow> (\<exists>a. d' = ?d\<lparr>dl_applied := a\<rparr> \<and> apply_frames (dl_applied ?d) (dl_buffered d) = Inr a) \<and>
        written k es = concat (map pty_bytes (dl_buffered d))"
    using flush_loop_is [OF fl] by blast
  have dok: "deliv_ok (co_trace s) (co_generationFence s) d"
    using inv d by (simp add: co_inv_def phase_ok_def)
  show ?thesis
  proof (cases q)
    case (Inl e)
    with fl run have out: "s2 = s1" "r = Inl e" by (auto simp: bindS_def flushBuffered_def)
    have "co_weak s1" using co_invD [OF inv] es by (simp add: s1 co_weak_def acks_ok_def inflight_ok_def)
    with out st show ?thesis by (simp add: s1 fence_le_def open_state_def)
  next
    case (Inr d')
    have ap: "dl_applied d = start_cursor (dl_start d)" "apply_frames (dl_applied d) (dl_buffered d) = Inr (dl_received d)"
      using dok d by (auto simp: deliv_ok_def received_ok_def)
    with ok Inr have d': "d' = ?d\<lparr>dl_applied := dl_received d\<rparr>"
      and wr: "written k es = concat (map pty_bytes (dl_buffered d))" by auto
    let ?d2 = "d'\<lparr>dl_buffered := [], dl_bufferedBytes := 0\<rparr>"
    let ?s3 = "s1\<lparr>co_delivery := Some ?d2\<rparr>"
    from fl run Inr have tc: "tryCommit env ?s3 = (s2, r)" by (auto simp: bindS_def flushBuffered_def)
    have "replica_fed (co_trace s @ es) ?d2 k"
      unfolding replica_fed_def
      by (intro exI [of _ "co_trace s"] exI [of _ es] exI [of _ "dl_buffered d"]) (use ap wr in \<open>simp add: d'\<close>)
    then have dok3: "deliv_ok (co_trace ?s3) (co_generationFence ?s3) ?d2"
      using dok es by (auto simp: deliv_ok_def received_ok_def commit_ok_def d' s1)
    have "0 \<le> dl_bufferedBytes d" using dok by (auto simp: deliv_ok_def sum_size_nonneg)
    then have "\<not> bufferBudgetExceeded ?s3"
      using inv d by (auto simp: co_inv_def bufferBudgetExceeded_def s1)
    then have i3: "co_inv ?s3"
      using inv st dok3 old es
      by (auto simp: co_inv_def co_weak_def acks_ok_def inflight_ok_def phase_ok_def current_ok_def s1)
    have "open_state ?s3" using st by (simp add: open_state_def s1)
    from tryCommit_result [OF i3 this tc] tc show ?thesis
      by (cases r) (auto simp: fence_le_def s1 dest: tryCommit_throws)
  qed
qed

lemma candidateRestored_result:
  assumes inv: "co_inv s"
  shows "co_inv (candidateRestored env a r s) \<and> fence_le s (candidateRestored env a r s)"
proof (cases "a \<in> set (co_restorings s)")
  case False
  with inv show ?thesis by (simp add: candidateRestored_def)
next
  case True
  let ?s1 = "s\<lparr>co_restorings := removeAll a (co_restorings s)\<rparr>"
  have dis: "distinct (co_loading s @ co_restorings s)" using inv by (simp add: co_inv_def co_weak_def inflight_ok_def)
  have "co_inv (s\<lparr>co_loading := co_loading s, co_restorings := removeAll a (co_restorings s)\<rparr>)"
    by (rule forget_inv [OF inv]) (use dis in \<open>auto simp: distinct_removeAll\<close>)
  moreover have "s\<lparr>co_loading := co_loading s, co_restorings := removeAll a (co_restorings s)\<rparr> = ?s1" by simp
  ultimately have i1: "co_inv ?s1" by metis
  have f1: "fence_le s ?s1" by (simp add: fence_le_def)
  have q: "co_inv (emit_effect (DisposeReplica k) ?s1)" for k
    by (rule quiet_inv [OF i1]) (simp add: quiet_def)
  have fq: "fence_le s (emit_effect (DisposeReplica k) ?s1)" for k
    by (simp add: fence_le_def)
  show ?thesis
  proof (cases r)
    case (Inl e)
    with True have "candidateRestored env a r s = ?s1 \<or> candidateRestored env a r s = restore_error e ?s1"
      by (simp add: candidateRestored_def Let_def)
    then show ?thesis using i1 f1 restore_error_inv [OF i1, of e] fence_le_trans [OF f1] by metis
  next
    case (Inr k)
    show ?thesis
    proof (cases "a = co_restoreAttempt s \<and> re_engine env k = co_hostEngineId s")
      case False
      have "candidateRestored env a r s = emit_effect (DisposeReplica k) ?s1 \<or>
        candidateRestored env a r s = requestResync engine_mismatch (emit_effect (DisposeReplica k) ?s1)"
        using True Inr False by (auto simp: candidateRestored_def Let_def)
      then show ?thesis using q fq any_resync [OF q] fence_le_trans [OF fq] by metis
    next
      case cur: True
      with inv True obtain d where d: "co_delivery s = Some d" "dl_candidate d = None" and st: "co_state s = restoring"
        by (auto simp: co_inv_def current_ok_def)
      let ?m = "bindS (flushBuffered env) (\<lambda>_. tryCommit env) (?s1\<lparr>co_delivery := Some (d\<lparr>dl_candidate := Some k\<rparr>)\<rparr>)"
      obtain s2 q where run: "?m = (s2, q)" by (cases ?m)
      have "co_restoreAttempt ?s1 \<notin> set (co_loading ?s1) \<union> set (co_restorings ?s1)"
        using cur True dis by auto
      with restored_candidate_result [OF i1 _ d(2) _ _ run] d(1) st
      have res: "co_weak s2 \<and> fence_le ?s1 s2 \<and> (if q = Inr () then co_inv s2
          else open_state s2 \<and> co_restoreAttempt s2 = co_restoreAttempt ?s1)" by simp
      have out: "candidateRestored env a r s =
        (case (s2, q) of (s2, Inr _) \<Rightarrow> s2 | (s2, Inl e) \<Rightarrow> if a \<noteq> co_restoreAttempt s2 then s2 else restore_error e s2)"
        unfolding run [symmetric] using True Inr cur d(1) by (simp add: candidateRestored_def Let_def)
      show ?thesis
      proof (cases q)
        case (Inr u)
        with out res f1 show ?thesis by (auto intro: fence_le_trans)
      next
        case (Inl e)
        with res cur have "candidateRestored env a r s = restore_error e s2" "co_weak s2" "open_state s2" "fence_le s s2"
          unfolding out by (auto simp: fence_le_def)
        then show ?thesis using caught_resync [of s2 s] by (simp add: restore_error_def)
      qed
    qed
  qed
qed

section \<open>The coordinator as a fenced machine\<close>

lemma fence_open_inv: "co_inv s \<Longrightarrow> co_inv (fst (fenceDeliveryGeneration g s)) \<and> fence_le s (fst (fenceDeliveryGeneration g s))"
  using advance_inv [of s g True] advance_fence [of s g True] by (simp add: fenceDeliveryGeneration_def)

lemma coordinator_step_inv: "co_inv s \<Longrightarrow> co_inv (coordinator_step s e) \<and> fence_le s (coordinator_step s e)"
proof -
  assume inv: "co_inv s"
  obtain env ev where e: "e = (env, ev)" by (cases e)
  show ?thesis
  proof (cases ev)
    case (FenceGeneration g)
    with fence_open_inv [OF inv] e show ?thesis by simp
  next
    case (StartWarm w)
    with startWarmReplay_result [OF inv, of env w] e show ?thesis by (metis coordinator_step.simps(2) prod.collapse)
  next
    case (StartSnapshot m)
    with startSnapshot_result [OF inv, of env m] e show ?thesis by (metis coordinator_step.simps(3) prod.collapse)
  next
    case (DataArrives b)
    with acceptData_result [OF inv] e show ?thesis by simp
  next
    case (SnapshotLoaded a r)
    with snapshotLoaded_result [OF inv] e show ?thesis by simp
  next
    case (CandidateRestored a r)
    with candidateRestored_result [OF inv] e show ?thesis by simp
  next
    case RestoreDeadline
    with any_resync [OF inv] inv e show ?thesis by (auto simp: restoreDeadline_def split: option.splits)
  next
    case CloseCoordinator
    have "co_generationFence (close_coordinator s) = co_generationFence s"
      using disposeCandidate_is [of "cancelRestore s"]
      by (auto simp: close_coordinator_def clearPendingFrames_def cancelRestore_def)
    with close_inv [OF inv] CloseCoordinator e show ?thesis by (simp add: fence_le_def)
  qed
qed

interpretation coord: fenced_machine coordinator_step co_inv co_generationFence
  by unfold_locales (use coordinator_step_inv fence_le_def in blast)+

lemma newCoordinator_inv:
  "newCoordinator engine active cur mb mf = Inr s \<Longrightarrow> (\<forall>b. mb = Some b \<longrightarrow> 0 \<le> b) \<Longrightarrow> co_inv s"
  by (auto simp: newCoordinator_def co_inv_def co_weak_def acks_ok_def inflight_ok_def phase_ok_def current_ok_def
      bufferBudgetExceeded_def split: if_splits option.splits)

text \<open>A coordinator's life: constructed with a non-negative byte budget, then any events.\<close>

inductive coordinator_reachable :: "coordinator \<Rightarrow> bool" where
  co_new: "newCoordinator engine active cur mb mf = Inr s \<Longrightarrow> (\<forall>b. mb = Some b \<longrightarrow> 0 \<le> b) \<Longrightarrow>
    coordinator_reachable s"
| co_event: "coordinator_reachable s \<Longrightarrow> coordinator_reachable (coordinator_step s e)"

lemma reachable_co_inv: "coordinator_reachable s \<Longrightarrow> co_inv s"
proof (induction rule: coordinator_reachable.induct)
  case (co_new engine active cur mb mf s)
  then show ?case by (rule newCoordinator_inv)
next
  case (co_event s e)
  then show ?case using coord.step_inv by blast
qed

end
