(* ===== verification/Session_Coordinator_Safety.thy ===== *)
theory Session_Coordinator_Safety
  imports Session_Coordinator_Props
begin

text \<open>
  The coordinator's promises to the terminal it feeds and to the relay, read off the invariant of its
  reachable states, and a warm replay that goes live as the example that instantiates them.
\<close>

section \<open>A warm replay that goes live\<close>

definition demo_env :: replica_env where
  "demo_env = \<lparr>re_engine = (\<lambda>_. ''wterm-1''), re_write_throws = (\<lambda>_ _. False), re_adopt_throws = (\<lambda>_ _. False)\<rparr>"

definition demo_cursor :: ReplicaCursor where
  "demo_cursor = \<lparr>rc_sessionEpoch = 7, rc_deliveryGeneration = 2, rc_lastEventSeq = 4, rc_nextPtyOffset = 10\<rparr>"

definition demo_warm :: WarmReplayStart where
  "demo_warm = \<lparr>wr_streamId = 3, wr_sessionEpoch = 7, wr_deliveryGeneration = 3, wr_baseEventSeq = 4,
     wr_basePtyOffset = 10, wr_commitEventSeq = 5, wr_commitPtyOffset = 12\<rparr>"

definition demo_frame :: "DataFrameKind \<Rightarrow> int \<Rightarrow> int \<Rightarrow> bytes \<Rightarrow> data_frame" where
  "demo_frame k q off p = \<lparr>df_kind = k, df_flags = 0, df_sessionEpoch = 7, df_deliveryGeneration = 3,
     df_eventSeq = q, df_ptyOffset = off, df_streamId = 3, df_payload = p\<rparr>"

definition demo_bytes :: "data_frame \<Rightarrow> bytes" where
  "demo_bytes f = (case encodeDataFrame f of Inr b \<Rightarrow> b | Inl _ \<Rightarrow> [])"

definition demo_start :: coordinator where
  "demo_start = (case newCoordinator ''wterm-1'' (Some 0) (Some demo_cursor) None None of Inr s \<Rightarrow> s)"

definition demo_events :: "(replica_env \<times> CoordinatorEvent) list" where
  "demo_events = [(demo_env, StartWarm demo_warm),
     (demo_env, DataArrives (demo_bytes (demo_frame PtyOutput 5 10 [65, 66]))),
     (demo_env, DataArrives (demo_bytes (demo_frame ReplayCommit 5 12 [])))]"

definition demo_live :: coordinator where
  "demo_live = foldl coordinator_step demo_start demo_events"

lemma demo_start_reachable: "coordinator_reachable demo_start"
  by (rule co_new [of "''wterm-1''" "Some 0" "Some demo_cursor" None None])
    (simp_all add: demo_start_def newCoordinator_def)

lemma demo_live_reachable: "coordinator_reachable demo_live"
  unfolding demo_live_def demo_events_def foldl.simps by (intro co_event demo_start_reachable)

lemma demo_live_is:
  "co_state demo_live = live \<and>
   co_trace demo_live = [WriteReplica 0 [65, 66],
     ReplicaProgress \<lparr>rc_sessionEpoch = 7, rc_deliveryGeneration = 3, rc_lastEventSeq = 5, rc_nextPtyOffset = 12\<rparr>,
     Acknowledge \<lparr>rc_sessionEpoch = 7, rc_deliveryGeneration = 3, rc_lastEventSeq = 5, rc_nextPtyOffset = 12\<rparr>,
     Acknowledge \<lparr>rc_sessionEpoch = 7, rc_deliveryGeneration = 3, rc_lastEventSeq = 5, rc_nextPtyOffset = 12\<rparr>]"
  by code_simp

lemma demo_delivery_is:
  "co_delivery demo_live \<noteq> None \<and> map_option dl_candidate (co_delivery demo_live) = Some (Some 0)"
  by code_simp

section \<open>Properties\<close>

text \<open>
  C14. While the coordinator is live, the terminal is exactly where the relay pinned the handover and beyond: the
  replica adopted is the delivery's candidate, an unbroken run of frames leads from the delivery's
  start to the commit (at the expected event number and PTY offset) and another from the commit to the
  active cursor, and nothing received is still waiting to be applied.
\<close>

theorem coordinator_live_caught_up:
  assumes "coordinator_reachable s" and "co_state s = live"
  shows "\<exists>d k c fs gs. co_delivery s = Some d \<and> dl_candidate d = Some k \<and> co_liveReplica s = Some k \<and>
    dl_commit d = Some c \<and> rc_lastEventSeq c = rc_lastEventSeq (dl_expectedCommit d) \<and>
    rc_nextPtyOffset c = rc_nextPtyOffset (dl_expectedCommit d) \<and>
    apply_frames (start_cursor (dl_start d)) fs = Inr c \<and> apply_frames c gs = Inr (dl_applied d) \<and>
    dl_applied d = dl_received d \<and> dl_buffered d = [] \<and> co_activeCursor s = Some (dl_applied d)"
proof -
  from reachable_co_inv [OF assms(1)] assms(2) obtain d k where d: "co_delivery s = Some d" "dl_candidate d = Some k"
    and l: "co_liveReplica s = Some k" "co_activeCursor s = Some (dl_applied d)" "dl_commit d \<noteq> None"
    and dok: "deliv_ok (co_trace s) (co_generationFence s) d"
    by (auto simp: co_inv_def phase_ok_def split: option.splits)
  from l(3) obtain c where c: "dl_commit d = Some c" by blast
  with dok obtain fs gs where "rc_lastEventSeq c = rc_lastEventSeq (dl_expectedCommit d)"
    "rc_nextPtyOffset c = rc_nextPtyOffset (dl_expectedCommit d)"
    "apply_frames (start_cursor (dl_start d)) fs = Inr c" "apply_frames c gs = Inr (dl_received d)"
    unfolding deliv_ok_def commit_ok_def by blast
  moreover have "dl_applied d = dl_received d" "dl_buffered d = []"
    using dok d by (simp_all add: deliv_ok_def received_ok_def)
  ultimately show ?thesis
    using d l c by (intro exI [of _ d] exI [of _ k] exI [of _ c] exI [of _ fs] exI [of _ gs]) simp
qed

theorem coordinator_live_caught_up_witness:
  "\<exists>d. co_delivery demo_live = Some d \<and> dl_applied d = dl_received d \<and> co_activeCursor demo_live = Some (dl_applied d)"
  using coordinator_live_caught_up [OF demo_live_reachable] demo_live_is by blast



text \<open>
  Acknowledgements never go back: in the order they are sent, each has a newer delivery generation than the one
  before, or the same generation and an event number and PTY offset that are no smaller; and none is
  ahead of the generation fence.
\<close>

theorem coordinator_acks_monotone:
  assumes "coordinator_reachable s"
  shows "sorted_wrt (\<lambda>a b. rc_deliveryGeneration a < rc_deliveryGeneration b \<or>
      (rc_deliveryGeneration a = rc_deliveryGeneration b \<and> rc_lastEventSeq a \<le> rc_lastEventSeq b \<and>
       rc_nextPtyOffset a \<le> rc_nextPtyOffset b)) (acks_of (co_trace s))
    \<and> list_all (\<lambda>a. Some (rc_deliveryGeneration a) \<le> co_generationFence s) (acks_of (co_trace s))"
  using reachable_co_inv [OF assms]
  by (simp add: co_inv_def co_weak_def acks_ok_def ack_le_def [abs_def] list_all_iff)

theorem coordinator_acks_monotone_witness:
  "length (acks_of (co_trace demo_live)) = 2 \<and>
   list_all (\<lambda>a. Some (rc_deliveryGeneration a) \<le> co_generationFence demo_live) (acks_of (co_trace demo_live))"
  using coordinator_acks_monotone [OF demo_live_reachable] demo_live_is by simp

text \<open>
  The generation fence never falls, whatever control messages, data, restores and deadlines arrive in whatever
  order, so a frame or start of an older delivery can never be accepted after a newer one was seen.
\<close>

theorem coordinator_fence_never_falls:
  assumes "coordinator_reachable s"
  shows "co_generationFence s \<le> co_generationFence (foldl coordinator_step s es)"
  by (rule coord.fence_run [OF reachable_co_inv [OF assms]])

theorem coordinator_fence_never_falls_witness:
  "co_generationFence demo_start \<le> co_generationFence demo_live"
  unfolding demo_live_def by (rule coordinator_fence_never_falls [OF demo_start_reachable])

text \<open>
  C39. What the coordinator holds back is bounded: pending and buffered frames together stay within the byte and the
  frame budget, the byte counters are exact, and after asking for a resync or being closed it holds no frame and
  no delivery at all.
\<close>

theorem coordinator_buffers_bounded:
  assumes "coordinator_reachable s"
  shows "(case co_delivery s of
      None \<Rightarrow> sum_list (map frame_size (co_pendingFrames s)) \<le> co_maxBufferedTailBytes s \<and>
        length (co_pendingFrames s) \<le> co_maxBufferedTailFrames s
    | Some d \<Rightarrow> sum_list (map frame_size (co_pendingFrames s @ dl_buffered d)) \<le> co_maxBufferedTailBytes s \<and>
        length (co_pendingFrames s @ dl_buffered d) \<le> co_maxBufferedTailFrames s) \<and>
    co_pendingBytes s = sum_list (map frame_size (co_pendingFrames s)) \<and>
    (co_state s = resyncing \<or> co_state s = closed \<longrightarrow> co_pendingFrames s = [] \<and> co_delivery s = None)"
  using reachable_co_inv [OF assms]
  by (cases "co_delivery s") (auto simp: co_inv_def bufferBudgetExceeded_def phase_ok_def deliv_ok_def)

lemma demo_closed_is: "co_state (coordinator_step demo_live (demo_env, CloseCoordinator)) = closed"
  by code_simp

theorem coordinator_buffers_bounded_witness:
  "co_pendingFrames (coordinator_step demo_live (demo_env, CloseCoordinator)) = [] \<and>
   co_delivery (coordinator_step demo_live (demo_env, CloseCoordinator)) = None"
  using coordinator_buffers_bounded [OF co_event [OF demo_live_reachable, of "(demo_env, CloseCoordinator)"]]
    demo_closed_is by simp

end
