(* ===== verification/Recovery_Queue.thy ===== *)
theory Recovery_Queue
  imports Scalars
begin

text \<open>
  \<open>apps/host-daemon/src/cloud/delivery-recovery-queue.ts\<close>: the host's queue of browsers waiting for
  a delivery, one request per stream, newest generation first, with a backoff kept under the string
  key \<open>stream:generation\<close>. Times are whole milliseconds; a JavaScript \<open>Set\<close> is a list without
  duplicates.
\<close>

section \<open>Requests, keys and state\<close>

record AttachRequest =
  at_connectionId :: string
  at_streamId :: int
  at_deliveryGeneration :: string
  at_engineId :: string
  at_liveReplica :: "(string \<times> string \<times> string) option"

text \<open>The live replica's epoch, event and offset, when the browser has one. What the control-frame schema guarantees of a request.\<close>

definition valid_request :: "AttachRequest \<Rightarrow> bool" where
  "valid_request r \<longleftrightarrow> 1 \<le> at_streamId r \<and> at_streamId r \<le> 0xffffffff \<and> DecimalU64Schema (at_deliveryGeneration r)"

definition generation_of :: "AttachRequest \<Rightarrow> int" where
  "generation_of r = bigint_of (at_deliveryGeneration r)"

definition recoveryKey :: "AttachRequest \<Rightarrow> string" where
  "recoveryKey r = bigint_toString (at_streamId r) @ '':'' @ at_deliveryGeneration r"

text \<open>The two halves \<open>#clearMatching\<close> cuts a key into at its first colon.\<close>

definition key_stream :: "string \<Rightarrow> int" where
  "key_stream k = bigint_of (takeWhile (\<lambda>c. c \<noteq> CHR '':'') k)"

definition key_generation :: "string \<Rightarrow> int" where
  "key_generation k = bigint_of (tl (dropWhile (\<lambda>c. c \<noteq> CHR '':'') k))"

record recovery_queue =
  rq_maxQuietWaitMs :: int
  rq_maxRetryMs :: int
  rq_quietMs :: int
  rq_attempts :: "(string, nat) jsmap"
  rq_cold :: "string list"
  rq_notBefore :: "(string, int) jsmap"
  rq_quietDeadline :: "(string, int) jsmap"
  rq_order :: "int list"
  rq_pending :: "(int, AttachRequest) jsmap"
  rq_queuedStreams :: "int list"

definition newRecoveryQueue :: "int \<Rightarrow> int \<Rightarrow> int \<Rightarrow> recovery_queue" where
  "newRecoveryQueue maxQuietWait maxRetry quiet =
     \<lparr>rq_maxQuietWaitMs = maxQuietWait, rq_maxRetryMs = maxRetry, rq_quietMs = quiet, rq_attempts = [],
      rq_cold = [], rq_notBefore = [], rq_quietDeadline = [], rq_order = [], rq_pending = [], rq_queuedStreams = []\<rparr>"

definition js_add :: "'a \<Rightarrow> 'a list \<Rightarrow> 'a list" where
  "js_add x xs = (if x \<in> set xs then xs else xs @ [x])"

lemma set_js_add [simp]: "set (js_add x xs) = insert x (set xs)"
  by (auto simp: js_add_def)

lemma distinct_js_add [simp]: "distinct (js_add x xs) \<longleftrightarrow> distinct xs"
  by (auto simp: js_add_def)

section \<open>Operations\<close>

definition queueStream :: "int \<Rightarrow> recovery_queue \<Rightarrow> recovery_queue" where
  "queueStream i s =
     (if i \<in> set (rq_queuedStreams s) then s
      else s\<lparr>rq_queuedStreams := rq_queuedStreams s @ [i], rq_order := rq_order s @ [i]\<rparr>)"

definition forget_key :: "string \<Rightarrow> recovery_queue \<Rightarrow> recovery_queue" where
  "forget_key k s = s\<lparr>rq_attempts := jm_delete k (rq_attempts s), rq_cold := removeAll k (rq_cold s),
     rq_notBefore := jm_delete k (rq_notBefore s), rq_quietDeadline := jm_delete k (rq_quietDeadline s)\<rparr>"

definition state_keys :: "recovery_queue \<Rightarrow> string list" where
  "state_keys s = fold js_add
     (jm_keys (rq_attempts s) @ rq_cold s @ jm_keys (rq_notBefore s) @ jm_keys (rq_quietDeadline s)) []"

definition clearMatching :: "int \<Rightarrow> (int \<Rightarrow> bool) \<Rightarrow> recovery_queue \<Rightarrow> recovery_queue \<times> string list" where
  "clearMatching i P s =
     (let hit = filter (\<lambda>k. key_stream k = i \<and> P (key_generation k)) (state_keys s)
      in (fold forget_key hit s, hit))"

definition enqueueRecovery :: "AttachRequest \<Rightarrow> recovery_queue \<Rightarrow> recovery_queue \<times> string list" where
  "enqueueRecovery r s =
     (let existing = jm_get (rq_pending s) (at_streamId r) in
      if (case existing of None \<Rightarrow> False | Some e \<Rightarrow> generation_of r \<le> generation_of e) then (s, [])
      else let (s1, superseded) = clearMatching (at_streamId r) (\<lambda>g. g < generation_of r) s;
               superseded' = (case existing of
                 None \<Rightarrow> superseded
               | Some e \<Rightarrow> if generation_of e < generation_of r then js_add (recoveryKey e) superseded else superseded)
        in (queueStream (at_streamId r) (s1\<lparr>rq_pending := jm_set (at_streamId r) r (rq_pending s1)\<rparr>), superseded'))"

definition requeue :: "AttachRequest \<Rightarrow> recovery_queue \<Rightarrow> recovery_queue" where
  "requeue r s =
     (if (case jm_get (rq_pending s) (at_streamId r) of None \<Rightarrow> False | Some e \<Rightarrow> generation_of r \<le> generation_of e)
      then s
      else queueStream (at_streamId r) (s\<lparr>rq_pending := jm_set (at_streamId r) r (rq_pending s)\<rparr>))"

text \<open>One pass visits every stream queued when it starts, exactly once.\<close>

primrec pass_loop ::
  "(AttachRequest \<Rightarrow> bool) \<Rightarrow> nat \<Rightarrow> recovery_queue \<times> AttachRequest list \<Rightarrow> recovery_queue \<times> AttachRequest list" where
  "pass_loop isRunnable 0 p = p"
| "pass_loop isRunnable (Suc n) p =
     (case p of (s, runnable) \<Rightarrow>
       (case rq_order s of
          [] \<Rightarrow> (s, runnable)
        | i # rest \<Rightarrow>
            let s1 = s\<lparr>rq_order := rest, rq_queuedStreams := removeAll i (rq_queuedStreams s)\<rparr> in
            (case jm_get (rq_pending s1) i of
               None \<Rightarrow> pass_loop isRunnable n (s1, runnable)
             | Some r \<Rightarrow>
                 if \<not> isRunnable r then pass_loop isRunnable n (queueStream i s1, runnable)
                 else pass_loop isRunnable n
                   (s1\<lparr>rq_pending := jm_delete i (rq_pending s1)\<rparr>, runnable @ [r]))))"

definition takeRunnablePass ::
  "(AttachRequest \<Rightarrow> bool) \<Rightarrow> recovery_queue \<Rightarrow> recovery_queue \<times> AttachRequest list" where
  "takeRunnablePass isRunnable s = pass_loop isRunnable (length (rq_order s)) (s, [])"

definition some_pending :: "(AttachRequest \<Rightarrow> bool) \<Rightarrow> recovery_queue \<Rightarrow> bool" where
  "some_pending P s \<longleftrightarrow> list_ex P (map snd (rq_pending s))"

definition pendingSize :: "recovery_queue \<Rightarrow> nat" where
  "pendingSize s = length (rq_pending s)"

definition isCold :: "AttachRequest \<Rightarrow> recovery_queue \<Rightarrow> bool" where
  "isCold r s \<longleftrightarrow> recoveryKey r \<in> set (rq_cold s)"

definition markCold :: "AttachRequest \<Rightarrow> recovery_queue \<Rightarrow> recovery_queue" where
  "markCold r s = s\<lparr>rq_cold := js_add (recoveryKey r) (rq_cold s)\<rparr>"

definition readyAt :: "AttachRequest \<Rightarrow> int \<Rightarrow> recovery_queue \<Rightarrow> int" where
  "readyAt r lastCanonicalAt s =
     (case jm_get (rq_notBefore s) (recoveryKey r) of
        None \<Rightarrow> 0
      | Some nb \<Rightarrow>
          let quiet = (case jm_get (rq_quietDeadline s) (recoveryKey r) of None \<Rightarrow> nb | Some q \<Rightarrow> q)
          in max nb (min (lastCanonicalAt + rq_quietMs s) quiet))"

definition or_zero :: "int option \<Rightarrow> int" where
  "or_zero x = (case x of None \<Rightarrow> 0 | Some v \<Rightarrow> v)"

definition defer_recovery :: "int \<Rightarrow> AttachRequest \<Rightarrow> int \<Rightarrow> recovery_queue \<Rightarrow> recovery_queue" where
  "defer_recovery now r delayMs s =
     (let k = recoveryKey r;
          nb = max (or_zero (jm_get (rq_notBefore s) k)) (now + delayMs)
      in s\<lparr>rq_cold := js_add k (rq_cold s), rq_notBefore := jm_set k nb (rq_notBefore s),
           rq_quietDeadline := jm_set k
             (max (max (or_zero (jm_get (rq_quietDeadline s) k)) nb) (now + rq_maxQuietWaitMs s))
             (rq_quietDeadline s)\<rparr>)"

definition deferAfterFailure :: "int \<Rightarrow> AttachRequest \<Rightarrow> int \<Rightarrow> recovery_queue \<Rightarrow> recovery_queue \<times> int" where
  "deferAfterFailure now r minimumDelayMs s =
     (let k = recoveryKey r;
          attempt = (case jm_get (rq_attempts s) k of None \<Rightarrow> 0 | Some n \<Rightarrow> n) + 1;
          exponential = min (rq_maxRetryMs s) (rq_quietMs s * 2 ^ min 20 (attempt - 1));
          delayMs = max minimumDelayMs exponential
      in (defer_recovery now r delayMs (s\<lparr>rq_attempts := jm_set k attempt (rq_attempts s)\<rparr>), delayMs))"

definition complete_recovery :: "AttachRequest \<Rightarrow> recovery_queue \<Rightarrow> recovery_queue" where
  "complete_recovery r s = forget_key (recoveryKey r) s"

definition reset_recovery :: "int \<Rightarrow> string \<Rightarrow> recovery_queue \<Rightarrow> recovery_queue \<times> string list" where
  "reset_recovery i throughGeneration s =
     (let maximum = bigint_of throughGeneration;
          (s1, removed) = clearMatching i (\<lambda>g. g \<le> maximum) s
      in case jm_get (rq_pending s1) i of
           None \<Rightarrow> (s1, removed)
         | Some e \<Rightarrow> if generation_of e \<le> maximum
             then (s1\<lparr>rq_pending := jm_delete i (rq_pending s1)\<rparr>, js_add (recoveryKey e) removed)
             else (s1, removed))"

definition clear_recovery :: "recovery_queue \<Rightarrow> recovery_queue" where
  "clear_recovery s = s\<lparr>rq_attempts := [], rq_cold := [], rq_notBefore := [], rq_quietDeadline := [],
     rq_order := [], rq_pending := [], rq_queuedStreams := []\<rparr>"

section \<open>Keys\<close>

lemma digits_no_colon: "list_all is_digit xs \<Longrightarrow> CHR '':'' \<notin> set xs"
proof -
  have "\<not> is_digit (CHR '':'')" by code_simp
  then show "list_all is_digit xs \<Longrightarrow> CHR '':'' \<notin> set xs" by (auto simp: list_all_iff)
qed

lemma recoveryKey_parts:
  assumes "valid_request r"
  shows "key_stream (recoveryKey r) = at_streamId r" and "key_generation (recoveryKey r) = generation_of r"
proof -
  have nn: "0 \<le> at_streamId r" using assms by (simp add: valid_request_def)
  have "list_all is_digit (bigint_toString (at_streamId r))"
    using nn decimal_of_nat_digits by (simp add: bigint_toString_def)
  then have nc: "\<forall>c\<in>set (bigint_toString (at_streamId r)). c \<noteq> CHR '':''"
    using digits_no_colon by blast
  have "takeWhile (\<lambda>c. c \<noteq> CHR '':'') (recoveryKey r) = bigint_toString (at_streamId r)"
    unfolding recoveryKey_def using nc by (subst takeWhile_append2) auto
  then show "key_stream (recoveryKey r) = at_streamId r"
    using nn by (simp add: key_stream_def bigint_of_toString)
  have "dropWhile (\<lambda>c. c \<noteq> CHR '':'') (recoveryKey r) = '':'' @ at_deliveryGeneration r"
    unfolding recoveryKey_def using nc by (subst dropWhile_append2) auto
  then show "key_generation (recoveryKey r) = generation_of r"
    by (simp add: key_generation_def generation_of_def)
qed

lemma recoveryKey_inj:
  assumes "valid_request r" "valid_request q" "recoveryKey r = recoveryKey q"
  shows "at_streamId r = at_streamId q \<and> generation_of r = generation_of q"
  using recoveryKey_parts [OF assms(1)] recoveryKey_parts [OF assms(2)] assms(3) by simp

section \<open>Clearing\<close>

lemma set_fold_js_add: "set (fold js_add xs acc) = set xs \<union> set acc"
  by (induction xs arbitrary: acc) auto

lemma set_state_keys: "set (state_keys s) =
  fst ` set (rq_attempts s) \<union> set (rq_cold s) \<union> fst ` set (rq_notBefore s) \<union> fst ` set (rq_quietDeadline s)"
  by (auto simp: state_keys_def set_fold_js_add)

lemma forget_fields [simp]:
  "rq_order (forget_key k s) = rq_order s" "rq_pending (forget_key k s) = rq_pending s"
  "rq_queuedStreams (forget_key k s) = rq_queuedStreams s"
  "rq_maxQuietWaitMs (forget_key k s) = rq_maxQuietWaitMs s" "rq_maxRetryMs (forget_key k s) = rq_maxRetryMs s"
  "rq_quietMs (forget_key k s) = rq_quietMs s"
  by (simp_all add: forget_key_def)

lemma forget_state_keys: "set (state_keys (forget_key k s)) = set (state_keys s) - {k}"
  by (auto simp: set_state_keys forget_key_def set_jm_delete)

lemma fold_forget_fields [simp]:
  "rq_order (fold forget_key ks s) = rq_order s" "rq_pending (fold forget_key ks s) = rq_pending s"
  "rq_queuedStreams (fold forget_key ks s) = rq_queuedStreams s"
  "rq_maxQuietWaitMs (fold forget_key ks s) = rq_maxQuietWaitMs s"
  "rq_maxRetryMs (fold forget_key ks s) = rq_maxRetryMs s" "rq_quietMs (fold forget_key ks s) = rq_quietMs s"
  by (induction ks arbitrary: s) simp_all

lemma fold_forget_keys: "set (state_keys (fold forget_key ks s)) = set (state_keys s) - set ks"
  by (induction ks arbitrary: s) (auto simp: forget_state_keys)

lemma clearMatching_fields:
  assumes "clearMatching i P s = (s', ks)"
  shows "rq_order s' = rq_order s" "rq_pending s' = rq_pending s" "rq_queuedStreams s' = rq_queuedStreams s"
    "set (state_keys s') = {k \<in> set (state_keys s). \<not> (key_stream k = i \<and> P (key_generation k))}"
    "set ks = {k \<in> set (state_keys s). key_stream k = i \<and> P (key_generation k)}"
  using assms by (auto simp: clearMatching_def Let_def fold_forget_keys)

section \<open>The invariant\<close>

text \<open>
  Every waiting request is in the rotation (no lost wake-up), the rotation has no duplicates, a
  request is filed under its own stream, and the backoff keys are keys of valid requests.
\<close>

definition rq_inv :: "recovery_queue \<Rightarrow> bool" where
  "rq_inv s \<longleftrightarrow> distinct (rq_order s) \<and> set (rq_queuedStreams s) = set (rq_order s) \<and>
     jm_wf (rq_pending s) \<and> fst ` set (rq_pending s) \<subseteq> set (rq_order s) \<and>
     (\<forall>i r. jm_get (rq_pending s) i = Some r \<longrightarrow> at_streamId r = i \<and> valid_request r)"

lemma queueStream_order:
  "rq_inv s \<or> set (rq_queuedStreams s) = set (rq_order s) \<Longrightarrow> rq_order (queueStream i s) = js_add i (rq_order s)"
  by (auto simp: queueStream_def js_add_def rq_inv_def)

lemma queueStream_fields [simp]:
  "rq_pending (queueStream i s) = rq_pending s" "rq_attempts (queueStream i s) = rq_attempts s"
  "rq_cold (queueStream i s) = rq_cold s" "rq_notBefore (queueStream i s) = rq_notBefore s"
  "rq_quietDeadline (queueStream i s) = rq_quietDeadline s" "state_keys (queueStream i s) = state_keys s"
  "rq_quietMs (queueStream i s) = rq_quietMs s"
  by (auto simp: queueStream_def state_keys_def)

lemma queueStream_queued: "set (rq_queuedStreams (queueStream i s)) = insert i (set (rq_queuedStreams s))"
  by (auto simp: queueStream_def)

lemma file_request_inv:
  assumes "rq_inv s" and "valid_request r"
  shows "rq_inv (queueStream (at_streamId r) (s\<lparr>rq_pending := jm_set (at_streamId r) r (rq_pending s)\<rparr>))"
  using assms queueStream_order [of "s\<lparr>rq_pending := jm_set (at_streamId r) r (rq_pending s)\<rparr>" "at_streamId r"]
  by (auto simp: rq_inv_def queueStream_queued fst_set_jm_set jsmap_simps split: if_splits)

lemma rq_inv_cong:
  assumes "rq_inv s" "rq_order s' = rq_order s" "rq_pending s' = rq_pending s" "rq_queuedStreams s' = rq_queuedStreams s"
  shows "rq_inv s'"
  using assms by (simp add: rq_inv_def)

lemma drop_request_inv:
  assumes "rq_inv s"
  shows "rq_inv (s\<lparr>rq_pending := jm_delete i (rq_pending s)\<rparr>)"
  using assms by (auto simp: rq_inv_def jsmap_simps set_jm_delete)

lemma enqueue_inv: "rq_inv s \<Longrightarrow> valid_request r \<Longrightarrow> rq_inv (fst (enqueueRecovery r s))"
proof -
  assume inv: "rq_inv s" and v: "valid_request r"
  obtain s1 ks where c: "clearMatching (at_streamId r) (\<lambda>g. g < generation_of r) s = (s1, ks)"
    by (cases "clearMatching (at_streamId r) (\<lambda>g. g < generation_of r) s")
  note f = clearMatching_fields [OF c]
  have "rq_inv s1" by (rule rq_inv_cong [OF inv f(1,2,3)])
  then show ?thesis using inv file_request_inv [OF _ v, of s1] c
    by (simp add: enqueueRecovery_def Let_def)
qed

lemma requeue_inv: "rq_inv s \<Longrightarrow> valid_request r \<Longrightarrow> rq_inv (requeue r s)"
  using file_request_inv [of s r] by (simp add: requeue_def)

section \<open>One pass\<close>

definition chosen :: "(AttachRequest \<Rightarrow> bool) \<Rightarrow> (int, AttachRequest) jsmap \<Rightarrow> int \<Rightarrow> AttachRequest option" where
  "chosen P m i = (case jm_get m i of None \<Rightarrow> None | Some r \<Rightarrow> if P r then Some r else None)"

definition waiting :: "(AttachRequest \<Rightarrow> bool) \<Rightarrow> (int, AttachRequest) jsmap \<Rightarrow> int \<Rightarrow> bool" where
  "waiting P m i \<longleftrightarrow> (case jm_get m i of None \<Rightarrow> False | Some r \<Rightarrow> \<not> P r)"

lemma chosen_delete: "i \<noteq> j \<Longrightarrow> chosen P (jm_delete j m) i = chosen P m i"
  by (simp add: chosen_def jsmap_simps)

lemma waiting_delete: "i \<noteq> j \<Longrightarrow> waiting P (jm_delete j m) i = waiting P m i"
  by (simp add: waiting_def jsmap_simps)

lemma map_filter_cong2: "(\<And>x. x \<in> set xs \<Longrightarrow> f x = g x) \<Longrightarrow> List.map_filter f xs = List.map_filter g xs"
  by (induction xs) (simp_all add: List.map_filter_simps split: option.splits)

lemma mem_map_filter: "r \<in> set (List.map_filter f xs) \<longleftrightarrow> (\<exists>x\<in>set xs. f x = Some r)"
  by (induction xs) (auto simp: List.map_filter_simps split: option.splits)

lemma chosen_Some: "chosen P m i = Some r \<longleftrightarrow> jm_get m i = Some r \<and> P r"
  by (auto simp: chosen_def split: option.splits)

lemma pass_loop_is:
  "set (rq_queuedStreams s) = set (rq_order s) \<Longrightarrow> distinct (rq_order s) \<Longrightarrow> rq_order s = todo @ kept \<Longrightarrow>
   jm_wf (rq_pending s) \<Longrightarrow>
   \<exists>s'. pass_loop P (length todo) (s, acc) = (s', acc @ List.map_filter (chosen P (rq_pending s)) todo) \<and>
     rq_order s' = kept @ filter (waiting P (rq_pending s)) todo \<and>
     set (rq_queuedStreams s') = set (rq_order s') \<and> jm_wf (rq_pending s') \<and> state_keys s' = state_keys s \<and>
     (\<forall>i. jm_get (rq_pending s') i =
        (if i \<in> set todo \<and> chosen P (rq_pending s) i \<noteq> None then None else jm_get (rq_pending s) i))"
proof (induction todo arbitrary: s acc kept)
  case Nil
  then show ?case by (auto simp: List.map_filter_simps)
next
  case (Cons i todo)
  let ?s1 = "s\<lparr>rq_order := todo @ kept, rq_queuedStreams := removeAll i (rq_queuedStreams s)\<rparr>"
  have q1: "set (rq_queuedStreams ?s1) = set (rq_order ?s1)" "distinct (rq_order ?s1)"
    and ni: "i \<notin> set todo" "i \<notin> set kept"
    using Cons.prems by auto
  have sk: "state_keys ?s1 = state_keys s" by (simp add: state_keys_def)
  show ?case
  proof (cases "jm_get (rq_pending s) i")
    case None
    have step: "pass_loop P (length (i # todo)) (s, acc) = pass_loop P (length todo) (?s1, acc)"
      using Cons.prems None by simp
    have no: "chosen P (rq_pending s) i = None" "\<not> waiting P (rq_pending s) i"
      using None by (simp_all add: chosen_def waiting_def)
    have p1: "rq_pending ?s1 = rq_pending s" "rq_order ?s1 = todo @ kept" by simp_all
    from Cons.IH [OF q1 p1(2), of acc] Cons.prems(4) obtain s' where
      "pass_loop P (length todo) (?s1, acc) = (s', acc @ List.map_filter (chosen P (rq_pending s)) todo)"
      "rq_order s' = kept @ filter (waiting P (rq_pending s)) todo"
      "set (rq_queuedStreams s') = set (rq_order s')" "jm_wf (rq_pending s')" "state_keys s' = state_keys ?s1"
      "\<forall>j. jm_get (rq_pending s') j =
        (if j \<in> set todo \<and> chosen P (rq_pending s) j \<noteq> None then None else jm_get (rq_pending s) j)"
      unfolding p1 by blast
    with step no sk show ?thesis by (intro exI [of _ s']) (auto simp: List.map_filter_simps)
  next
    case (Some r)
    show ?thesis
    proof (cases "P r")
      case False
      let ?s2 = "queueStream i ?s1"
      have step: "pass_loop P (length (i # todo)) (s, acc) = pass_loop P (length todo) (?s2, acc)"
        using Cons.prems Some False by simp
      have no: "chosen P (rq_pending s) i = None" "waiting P (rq_pending s) i"
        using Some False by (simp_all add: chosen_def waiting_def)
      have q2: "set (rq_queuedStreams ?s2) = set (rq_order ?s2)" "distinct (rq_order ?s2)"
        "rq_order ?s2 = todo @ (kept @ [i])"
        using q1 ni by (auto simp: queueStream_def)
      have p2: "rq_pending ?s2 = rq_pending s" "state_keys ?s2 = state_keys ?s1" by simp_all
      from Cons.IH [OF q2, of acc] Cons.prems(4) obtain s' where
        "pass_loop P (length todo) (?s2, acc) = (s', acc @ List.map_filter (chosen P (rq_pending s)) todo)"
        "rq_order s' = (kept @ [i]) @ filter (waiting P (rq_pending s)) todo"
        "set (rq_queuedStreams s') = set (rq_order s')" "jm_wf (rq_pending s')" "state_keys s' = state_keys ?s1"
        "\<forall>j. jm_get (rq_pending s') j =
          (if j \<in> set todo \<and> chosen P (rq_pending s) j \<noteq> None then None else jm_get (rq_pending s) j)"
        unfolding p2 by blast
      with step no sk show ?thesis by (intro exI [of _ s']) (auto simp: List.map_filter_simps)
    next
      case True
      let ?s2 = "?s1\<lparr>rq_pending := jm_delete i (rq_pending s)\<rparr>"
      have step: "pass_loop P (length (i # todo)) (s, acc) = pass_loop P (length todo) (?s2, acc @ [r])"
        using Cons.prems Some True by simp
      have yes: "chosen P (rq_pending s) i = Some r" "\<not> waiting P (rq_pending s) i"
        using Some True by (simp_all add: chosen_def waiting_def)
      have q2: "set (rq_queuedStreams ?s2) = set (rq_order ?s2)" "distinct (rq_order ?s2)" "rq_order ?s2 = todo @ kept"
        "jm_wf (rq_pending ?s2)" using q1 Cons.prems(4) by auto
      have ne: "x \<in> set todo \<Longrightarrow> x \<noteq> i" for x using ni by blast
      have same: "List.map_filter (chosen P (rq_pending ?s2)) todo = List.map_filter (chosen P (rq_pending s)) todo"
        "filter (waiting P (rq_pending ?s2)) todo = filter (waiting P (rq_pending s)) todo"
        using ne by (simp_all add: chosen_delete waiting_delete cong: map_filter_cong2 filter_cong)
      from Cons.IH [OF q2, of "acc @ [r]"] obtain s' where
        "pass_loop P (length todo) (?s2, acc @ [r]) = (s', (acc @ [r]) @ List.map_filter (chosen P (rq_pending ?s2)) todo)"
        "rq_order s' = kept @ filter (waiting P (rq_pending ?s2)) todo"
        "set (rq_queuedStreams s') = set (rq_order s')" "jm_wf (rq_pending s')" "state_keys s' = state_keys ?s2"
        and get: "\<forall>j. jm_get (rq_pending s') j =
          (if j \<in> set todo \<and> chosen P (rq_pending ?s2) j \<noteq> None then None else jm_get (rq_pending ?s2) j)" by blast
      moreover have "jm_get (rq_pending s') j =
          (if j \<in> set (i # todo) \<and> chosen P (rq_pending s) j \<noteq> None then None else jm_get (rq_pending s) j)" for j
        using get yes ni by (cases "j = i") (auto simp: jsmap_simps chosen_delete)
      moreover have "state_keys ?s2 = state_keys s" by (simp add: state_keys_def)
      ultimately show ?thesis
        using step yes unfolding same by (intro exI [of _ s']) (auto simp: List.map_filter_simps)
    qed
  qed
qed

lemma takeRunnablePass_is:
  assumes "rq_inv s" and "takeRunnablePass P s = (s', out)"
  shows "out = List.map_filter (chosen P (rq_pending s)) (rq_order s)"
    and "rq_order s' = filter (waiting P (rq_pending s)) (rq_order s)"
    and "jm_get (rq_pending s') i = (if chosen P (rq_pending s) i \<noteq> None then None else jm_get (rq_pending s) i)"
    and "rq_inv s'" and "state_keys s' = state_keys s"
proof -
  have q: "set (rq_queuedStreams s) = set (rq_order s)" "distinct (rq_order s)" "rq_order s = rq_order s @ []"
    "jm_wf (rq_pending s)" using assms(1) by (simp_all add: rq_inv_def)
  from pass_loop_is [OF q, of P "[]"] assms(2)
  have out: "out = List.map_filter (chosen P (rq_pending s)) (rq_order s)"
    and ord: "rq_order s' = filter (waiting P (rq_pending s)) (rq_order s)"
    and qs: "set (rq_queuedStreams s') = set (rq_order s')" "jm_wf (rq_pending s')" "state_keys s' = state_keys s"
    and get: "\<forall>i. jm_get (rq_pending s') i =
        (if i \<in> set (rq_order s) \<and> chosen P (rq_pending s) i \<noteq> None then None else jm_get (rq_pending s) i)"
    by (auto simp: takeRunnablePass_def)
  have inq: "jm_get (rq_pending s) i \<noteq> None \<Longrightarrow> i \<in> set (rq_order s)" for i
    using assms(1) jm_get_Some_key [of "rq_pending s" i] by (auto simp: rq_inv_def)
  have get': "jm_get (rq_pending s') i = (if chosen P (rq_pending s) i \<noteq> None then None else jm_get (rq_pending s) i)" for i
    using get inq [of i] by (cases "jm_get (rq_pending s) i") (auto simp: chosen_def)
  have "i \<in> set (rq_order s')" if "i \<in> fst ` set (rq_pending s')" for i
  proof -
    from that obtain r where "jm_get (rq_pending s') i = Some r"
      by (metis jm_get_None_iff option.exhaust)
    with get' inq [of i] show ?thesis by (auto simp: ord chosen_def waiting_def split: option.splits if_splits)
  qed
  then show "rq_inv s'"
    using assms(1) qs get' by (auto simp: rq_inv_def ord split: if_splits)
  show "out = List.map_filter (chosen P (rq_pending s)) (rq_order s)" by (rule out)
  show "rq_order s' = filter (waiting P (rq_pending s)) (rq_order s)" by (rule ord)
  show "jm_get (rq_pending s') i = (if chosen P (rq_pending s) i \<noteq> None then None else jm_get (rq_pending s) i)"
    by (rule get')
  show "state_keys s' = state_keys s" by (rule qs(3))
qed

section \<open>The queue as a machine\<close>

datatype recovery_event =
    Enqueue AttachRequest
  | Requeue AttachRequest
  | Pass "AttachRequest \<Rightarrow> bool"
  | MarkCold AttachRequest
  | Defer int AttachRequest int
  | DeferAfterFailure int AttachRequest int
  | Complete AttachRequest
  | ResetStream int string
  | ClearQueue

text \<open>Requests come from the validated control channel.\<close>

definition valid_event :: "recovery_event \<Rightarrow> bool" where
  "valid_event e \<longleftrightarrow> (case e of Enqueue r \<Rightarrow> valid_request r | Requeue r \<Rightarrow> valid_request r | _ \<Rightarrow> True)"

fun recovery_step :: "recovery_queue \<Rightarrow> recovery_event \<Rightarrow> recovery_queue" where
  "recovery_step s (Enqueue r) = fst (enqueueRecovery r s)"
| "recovery_step s (Requeue r) = requeue r s"
| "recovery_step s (Pass P) = fst (takeRunnablePass P s)"
| "recovery_step s (MarkCold r) = markCold r s"
| "recovery_step s (Defer now r d) = defer_recovery now r d s"
| "recovery_step s (DeferAfterFailure now r d) = fst (deferAfterFailure now r d s)"
| "recovery_step s (Complete r) = complete_recovery r s"
| "recovery_step s (ResetStream i g) = fst (reset_recovery i g s)"
| "recovery_step s ClearQueue = clear_recovery s"

lemma reset_inv: "rq_inv s \<Longrightarrow> rq_inv (fst (reset_recovery i g s))"
proof -
  assume inv: "rq_inv s"
  obtain s1 ks where c: "clearMatching i (\<lambda>h. h \<le> bigint_of g) s = (s1, ks)"
    by (cases "clearMatching i (\<lambda>h. h \<le> bigint_of g) s")
  have "rq_inv s1" using clearMatching_fields [OF c] inv by (blast intro: rq_inv_cong)
  with drop_request_inv [OF this, of i] c show ?thesis
    by (auto simp: reset_recovery_def Let_def split: option.splits)
qed

lemma backoff_inv:
  "rq_inv s \<Longrightarrow> rq_inv (markCold r s)" "rq_inv s \<Longrightarrow> rq_inv (defer_recovery now r d s)"
  "rq_inv s \<Longrightarrow> rq_inv (complete_recovery r s)"
  by (erule rq_inv_cong; simp add: markCold_def defer_recovery_def Let_def complete_recovery_def)+

lemma defer_failure_inv: "rq_inv s \<Longrightarrow> rq_inv (fst (deferAfterFailure now r d s))"
  unfolding deferAfterFailure_def Let_def fst_conv
  by (rule backoff_inv(2), erule rq_inv_cong) simp_all

lemma clear_recovery_inv: "rq_inv (clear_recovery s)"
  by (simp add: clear_recovery_def rq_inv_def)

lemma recovery_step_inv:
  assumes inv: "rq_inv s" and v: "valid_event e"
  shows "rq_inv (recovery_step s e)"
proof (cases e)
  case (Enqueue r)
  with v enqueue_inv [OF inv] show ?thesis by (simp add: valid_event_def)
next
  case (Requeue r)
  with v requeue_inv [OF inv] show ?thesis by (simp add: valid_event_def)
next
  case (Pass P)
  with takeRunnablePass_is(4) [OF inv, of P] show ?thesis by (cases "takeRunnablePass P s") simp
next
  case (MarkCold r)
  with backoff_inv inv show ?thesis by simp
next
  case (Defer now r d)
  with backoff_inv inv show ?thesis by simp
next
  case (DeferAfterFailure now r d)
  with defer_failure_inv [OF inv] show ?thesis by simp
next
  case (Complete r)
  with backoff_inv inv show ?thesis by simp
next
  case (ResetStream i g)
  with reset_inv [OF inv] show ?thesis by simp
next
  case ClearQueue
  with clear_recovery_inv show ?thesis by simp
qed

inductive recovery_reachable :: "recovery_queue \<Rightarrow> bool" where
  rq_new: "recovery_reachable (newRecoveryQueue w m q)"
| rq_event: "recovery_reachable s \<Longrightarrow> valid_event e \<Longrightarrow> recovery_reachable (recovery_step s e)"

lemma recovery_reachable_inv: "recovery_reachable s \<Longrightarrow> rq_inv s"
proof (induction rule: recovery_reachable.induct)
  case (rq_new w m q)
  then show ?case by (simp add: rq_inv_def newRecoveryQueue_def)
next
  case (rq_event s e)
  then show ?case by (simp add: recovery_step_inv)
qed

section \<open>Properties\<close>

text \<open>
  C19. No browser waiting for a delivery is ever forgotten: whatever sequence of requests, retries, passes, resets and
  completions ran, the next pass hands out exactly the pending requests its predicate admits, each once
  and in rotation order, keeps every other one pending, and leaves exactly those others in the rotation.
\<close>

theorem recovery_pass_exact:
  assumes "recovery_reachable s" and "takeRunnablePass P s = (s', out)"
  shows "(\<forall>r. r \<in> set out \<longleftrightarrow> jm_get (rq_pending s) (at_streamId r) = Some r \<and> P r) \<and>
    distinct (map at_streamId out) \<and>
    (\<forall>i. jm_get (rq_pending s') i =
       (case jm_get (rq_pending s) i of None \<Rightarrow> None | Some r \<Rightarrow> if P r then None else Some r)) \<and>
    set (rq_order s') = fst ` set (rq_pending s')"
proof -
  note inv = recovery_reachable_inv [OF assms(1)]
  note t = takeRunnablePass_is [OF inv assms(2)]
  have keyed: "jm_get (rq_pending s) i = Some r \<Longrightarrow> at_streamId r = i" for i r
    using inv by (simp add: rq_inv_def)
  have inq: "jm_get (rq_pending s) i = Some r \<Longrightarrow> i \<in> set (rq_order s)" for i r
    using inv jm_get_Some_key [of "rq_pending s" i r] by (auto simp: rq_inv_def)
  have mem: "r \<in> set out \<longleftrightarrow> jm_get (rq_pending s) (at_streamId r) = Some r \<and> P r" for r
  proof -
    have "r \<in> set out \<longleftrightarrow> (\<exists>i\<in>set (rq_order s). chosen P (rq_pending s) i = Some r)"
      unfolding t(1) by (rule mem_map_filter)
    then show ?thesis unfolding chosen_Some using keyed inq by blast
  qed
  have dis: "distinct (map at_streamId (List.map_filter (chosen P (rq_pending s)) is))" if "distinct is" for "is"
    using that
  proof (induction "is")
    case Nil
    then show ?case by (simp add: List.map_filter_simps)
  next
    case (Cons i "is")
    have "at_streamId r \<in> set is" if "r \<in> set (List.map_filter (chosen P (rq_pending s)) is)" for r
    proof -
      from that obtain j where "j \<in> set is" "jm_get (rq_pending s) j = Some r"
        unfolding mem_map_filter chosen_Some by blast
      then show ?thesis using keyed [of j r] by simp
    qed
    then show ?case
    proof (cases "chosen P (rq_pending s) i")
      case None
      with Cons show ?thesis by (simp add: List.map_filter_simps)
    next
      case (Some q)
      then have "at_streamId q = i" using keyed [of i q] by (simp add: chosen_Some)
      with Some Cons \<open>\<And>r. r \<in> set (List.map_filter (chosen P (rq_pending s)) is) \<Longrightarrow> at_streamId r \<in> set is\<close>
      show ?thesis by (auto simp: List.map_filter_simps)
    qed
  qed
  have get: "jm_get (rq_pending s') i =
       (case jm_get (rq_pending s) i of None \<Rightarrow> None | Some r \<Rightarrow> if P r then None else Some r)" for i
    using t(3) [of i] by (auto simp: chosen_def split: option.splits)
  have ord: "i \<in> set (rq_order s') \<longleftrightarrow> i \<in> fst ` set (rq_pending s')" for i
  proof (cases "jm_get (rq_pending s) i")
    case None
    with get [of i] jm_get_None_iff [of "rq_pending s'" i] show ?thesis by (simp add: t(2) waiting_def)
  next
    case (Some r)
    with get [of i] jm_get_None_iff [of "rq_pending s'" i] inq [OF Some] show ?thesis
      by (cases "P r") (simp_all add: t(2) waiting_def)
  qed
  have "distinct (map at_streamId out)"
    unfolding t(1) by (rule dis) (use inv in \<open>simp add: rq_inv_def\<close>)
  moreover have "set (rq_order s') = fst ` set (rq_pending s')"
    using ord by blast
  ultimately show ?thesis using mem get by blast
qed

definition demo_request :: "int \<Rightarrow> string \<Rightarrow> AttachRequest" where
  "demo_request i g = \<lparr>at_connectionId = ''c1'', at_streamId = i, at_deliveryGeneration = g,
     at_engineId = ''wterm-1'', at_liveReplica = None\<rparr>"

definition demo_queue :: recovery_queue where
  "demo_queue = foldl recovery_step (newRecoveryQueue 5000 5000 250)
     [Enqueue (demo_request 3 ''1''), Enqueue (demo_request 4 ''7''), DeferAfterFailure 100 (demo_request 3 ''1'') 0]"

lemma demo_valid: "valid_request (demo_request 3 ''1'')" "valid_request (demo_request 4 ''7'')"
  "valid_request (demo_request 3 ''2'')"
  by code_simp+

lemma demo_queue_reachable: "recovery_reachable demo_queue"
  unfolding demo_queue_def foldl.simps
  by (intro rq_event rq_new) (simp_all add: valid_event_def demo_valid)

theorem recovery_pass_exact_witness:
  "demo_request 4 ''7'' \<in> set (snd (takeRunnablePass (\<lambda>r. at_streamId r = 4) demo_queue)) \<and>
   set (rq_order (fst (takeRunnablePass (\<lambda>r. at_streamId r = 4) demo_queue))) = {3}"
proof -
  have "jm_get (rq_pending demo_queue) 4 = Some (demo_request 4 ''7'')" by code_simp
  moreover have "fst ` set (rq_pending (fst (takeRunnablePass (\<lambda>r. at_streamId r = 4) demo_queue))) = {3}" by code_simp
  ultimately show ?thesis
    using recovery_pass_exact [OF demo_queue_reachable, of "\<lambda>r. at_streamId r = 4", OF prod.collapse [symmetric]]
    by (simp add: demo_request_def)
qed

lemma older_keys:
  "valid_request q \<Longrightarrow> clearMatching i P s = (s1, ks) \<Longrightarrow>
   recoveryKey q \<in> set (state_keys s1) \<longleftrightarrow>
     recoveryKey q \<in> set (state_keys s) \<and> \<not> (at_streamId q = i \<and> P (generation_of q))"
  using clearMatching_fields(4) [of i P s s1 ks] recoveryKey_parts [of q] by auto

lemma state_keys_pending [simp]: "state_keys (s\<lparr>rq_pending := m\<rparr>) = state_keys s"
  by (simp add: state_keys_def)

text \<open>
  A newer request of a stream replaces the older one and wipes its backoff: after an enqueue the stream's pending
  request is of a generation at least as new as the request's; unless an equally new one was already
  waiting (then nothing changes) it is the request itself, every attempt count, cold mark and deadline of the stream's
  older generations is gone, and those of every other generation and stream are kept.
\<close>

theorem enqueue_supersedes:
  assumes "recovery_reachable s" and "valid_request r" and "enqueueRecovery r s = (s', out)"
  shows "(\<exists>e. jm_get (rq_pending s') (at_streamId r) = Some e \<and> generation_of r \<le> generation_of e) \<and>
    (\<forall>j. j \<noteq> at_streamId r \<longrightarrow> jm_get (rq_pending s') j = jm_get (rq_pending s) j) \<and>
    (s' = s \<and> out = [] \<or>
     jm_get (rq_pending s') (at_streamId r) = Some r \<and>
     (\<forall>q. valid_request q \<longrightarrow> (recoveryKey q \<in> set (state_keys s') \<longleftrightarrow> recoveryKey q \<in> set (state_keys s) \<and>
        \<not> (at_streamId q = at_streamId r \<and> generation_of q < generation_of r))))"
proof (cases "case jm_get (rq_pending s) (at_streamId r) of None \<Rightarrow> False | Some e \<Rightarrow> generation_of r \<le> generation_of e")
  case True
  with assms(3) show ?thesis
    by (auto simp: enqueueRecovery_def split: option.splits)
next
  case False
  obtain s1 ks where c: "clearMatching (at_streamId r) (\<lambda>g. g < generation_of r) s = (s1, ks)"
    by (cases "clearMatching (at_streamId r) (\<lambda>g. g < generation_of r) s")
  have s': "s' = queueStream (at_streamId r) (s1\<lparr>rq_pending := jm_set (at_streamId r) r (rq_pending s1)\<rparr>)"
    using assms(3) unfolding enqueueRecovery_def Let_def if_not_P [OF False] c by simp
  have p: "jm_get (rq_pending s') j = (if j = at_streamId r then Some r else jm_get (rq_pending s) j)" for j
    by (simp add: s' jsmap_simps clearMatching_fields(2) [OF c])
  have k: "state_keys s' = state_keys s1" by (simp add: s')
  show ?thesis using p older_keys [OF _ c] unfolding k by auto
qed

theorem enqueue_supersedes_witness:
  "recoveryKey (demo_request 3 ''1'') \<notin> set (state_keys (fst (enqueueRecovery (demo_request 3 ''2'') demo_queue)))"
proof -
  have "jm_get (rq_pending (fst (enqueueRecovery (demo_request 3 ''2'') demo_queue))) 3 = Some (demo_request 3 ''2'') \<and>
    jm_get (rq_pending demo_queue) 3 = Some (demo_request 3 ''1'') \<and>
    generation_of (demo_request 3 ''1'') < generation_of (demo_request 3 ''2'') \<and>
    demo_request 3 ''1'' \<noteq> demo_request 3 ''2''" by code_simp
  with enqueue_supersedes [OF demo_queue_reachable demo_valid(3) prod.collapse [symmetric]]
  show ?thesis using demo_valid(1) by (auto simp: demo_request_def)
qed

lemma defer_ready:
  "now + d \<le> readyAt r canonical (defer_recovery now r d s) \<and>
   readyAt r canonical (defer_recovery now r d s) \<le>
     max (max (or_zero (jm_get (rq_quietDeadline s) (recoveryKey r)))
       (max (or_zero (jm_get (rq_notBefore s) (recoveryKey r))) (now + d))) (now + rq_maxQuietWaitMs s) \<and>
   isCold r (defer_recovery now r d s)"
proof -
  let ?nb = "max (or_zero (jm_get (rq_notBefore s) (recoveryKey r))) (now + d)"
  let ?q = "max (max (or_zero (jm_get (rq_quietDeadline s) (recoveryKey r))) ?nb) (now + rq_maxQuietWaitMs s)"
  have "readyAt r canonical (defer_recovery now r d s) = max ?nb (min (canonical + rq_quietMs s) ?q)"
    by (simp add: readyAt_def defer_recovery_def Let_def jsmap_simps)
  moreover have "now + d \<le> ?nb" by (rule max.cobounded2)
  moreover have "?nb \<le> ?q" by (rule max.coboundedI1) (rule max.cobounded2)
  moreover have "isCold r (defer_recovery now r d s)"
    by (simp add: isCold_def defer_recovery_def Let_def)
  moreover have "x \<le> y \<Longrightarrow> y \<le> z \<Longrightarrow> x \<le> max y (min a z) \<and> max y (min a z) \<le> z" for x y z a :: int
    by simp
  ultimately show ?thesis by presburger
qed

lemma complete_ready: "readyAt r canonical (complete_recovery r s) = 0 \<and> \<not> isCold r (complete_recovery r s)"
  by (simp add: readyAt_def isCold_def complete_recovery_def forget_key_def jsmap_simps)

text \<open>
  The backoff after a failure is the exponential one, clamped: the delay is the larger of the caller's minimum and
  the quiet time doubled per earlier failure of the same key up to the retry limit; the request is not ready
  before the delay has passed however idle the terminal, and, once the quiet deadline has passed, is ready however busy it is;
  completing it makes it ready at once.
\<close>

theorem failure_backoff_bounds:
  "let k = recoveryKey r;
       failures = (case jm_get (rq_attempts s) k of None \<Rightarrow> 0 | Some n \<Rightarrow> n);
       s' = fst (deferAfterFailure now r m s);
       d = snd (deferAfterFailure now r m s);
       nb = max (or_zero (jm_get (rq_notBefore s) k)) (now + d)
   in d = max m (min (rq_maxRetryMs s) (rq_quietMs s * 2 ^ min 20 failures)) \<and>
      jm_get (rq_attempts s') k = Some (failures + 1) \<and> isCold r s' \<and>
      now + d \<le> readyAt r canonical s' \<and>
      readyAt r canonical s' \<le> max (max (or_zero (jm_get (rq_quietDeadline s) k)) nb) (now + rq_maxQuietWaitMs s) \<and>
      readyAt r canonical (complete_recovery r s') = 0 \<and> \<not> isCold r (complete_recovery r s')"
proof -
  let ?k = "recoveryKey r"
  let ?n = "case jm_get (rq_attempts s) ?k of None \<Rightarrow> 0 | Some n \<Rightarrow> n"
  let ?s = "s\<lparr>rq_attempts := jm_set ?k (?n + 1) (rq_attempts s)\<rparr>"
  let ?d = "max m (min (rq_maxRetryMs s) (rq_quietMs s * 2 ^ min 20 ?n))"
  have f: "deferAfterFailure now r m s = (defer_recovery now r ?d ?s, ?d)"
    by (simp add: deferAfterFailure_def Let_def)
  have fields: "rq_quietDeadline ?s = rq_quietDeadline s" "rq_notBefore ?s = rq_notBefore s"
    "rq_maxQuietWaitMs ?s = rq_maxQuietWaitMs s" by simp_all
  note d = defer_ready [of now ?d r canonical ?s, unfolded fields]
  have a: "jm_get (rq_attempts (defer_recovery now r ?d ?s)) ?k = Some (?n + 1)"
    by (simp add: defer_recovery_def Let_def jsmap_simps)
  show ?thesis
    unfolding Let_def f fst_conv snd_conv using a d complete_ready by blast
qed

end
