(* ===== verification/Zstd_Frame.thy ===== *)
theory Zstd_Frame
  imports Prelude
begin

unbundle bit_operations_syntax

text \<open>
  \<open>packages/session-client/src/zstd-frame.ts\<close>: the check of a snapshot's zstd envelope before the
  decoder may allocate from its header, and the bounded collection of the decoder's output. The decoder
  (\<open>fzstd\<close>) is a parameter: the chunks it hands to the callback, and whether it throws at the end.
\<close>

section \<open>The validator\<close>

datatype ZstdError =
    ZTruncated | ZMagic | ZReservedBit | ZWindowLimit | ZDictionary | ZContentLimit | ZContentMismatch
  | ZNoContentSize | ZNoWindow | ZReservedBlock | ZBlockLimit | ZTrailing | ZExpectedLimit
  | ZAfterCompletion | ZOutputLimit | ZDecoder | ZNotFinished | ZLengthMismatch

definition ZSTD_MAGIC :: bytes where "ZSTD_MAGIC = [0x28, 0xb5, 0x2f, 0xfd]"
definition MAX_ZSTD_BLOCK_BYTES :: int where "MAX_ZSTD_BLOCK_BYTES = 128 * 1024"

definition requireBytes :: "bytes \<Rightarrow> nat \<Rightarrow> nat \<Rightarrow> ZstdError + unit" where
  "requireBytes b off n = (if length b < off + n then Inl ZTruncated else Inr ())"

definition readLittleEndian :: "bytes \<Rightarrow> nat \<Rightarrow> nat \<Rightarrow> ZstdError + int" where
  "readLittleEndian b off n = bindR (requireBytes b off n) (\<lambda>_. Inr (le_get (peek off n b)))"

definition contentSizeFieldBytes :: "8 word \<Rightarrow> bool \<Rightarrow> nat" where
  "contentSizeFieldBytes flag singleSegment =
     (if flag = 0 then (if singleSegment then 1 else 0) else if flag = 1 then 2 else if flag = 2 then 4 else 8)"

definition dictionaryIdFieldBytes :: "8 word \<Rightarrow> nat" where
  "dictionaryIdFieldBytes flag = (if flag = 3 then 4 else unat flag)"

definition windowSizeOf :: "8 word \<Rightarrow> int" where
  "windowSizeOf w = (let base = 2 ^ (10 + unat (drop_bit 3 w)) in base + (base div 8) * uint (w AND 7))"

definition single_segment :: "8 word \<Rightarrow> bool" where "single_segment d \<longleftrightarrow> d AND 0x20 \<noteq> 0"
definition has_checksum :: "8 word \<Rightarrow> bool" where "has_checksum d \<longleftrightarrow> d AND 0x04 \<noteq> 0"

definition block_last :: "int \<Rightarrow> bool" where "block_last h \<longleftrightarrow> h AND 1 \<noteq> 0"
definition block_type :: "int \<Rightarrow> int" where "block_type h = drop_bit 1 h AND 3"
definition block_size :: "int \<Rightarrow> int" where "block_size h = drop_bit 3 h"

definition encoded_block_size :: "int \<Rightarrow> nat" where
  "encoded_block_size h = (if block_type h = 1 then 1 else nat (block_size h))"

text \<open>The loop over the blocks; every turn moves at least the three header bytes forward.\<close>

function block_loop :: "bytes \<Rightarrow> int \<Rightarrow> nat \<Rightarrow> ZstdError + nat" where
  "block_loop b maximumBlockSize off =
     (case readLittleEndian b off 3 of
        Inl e \<Rightarrow> Inl e
      | Inr h \<Rightarrow>
          if block_type h = 3 then Inl ZReservedBlock
          else if maximumBlockSize < block_size h then Inl ZBlockLimit
          else (case requireBytes b (off + 3) (encoded_block_size h) of
              Inl e \<Rightarrow> Inl e
            | Inr _ \<Rightarrow>
                if block_last h then Inr (off + 3 + encoded_block_size h)
                else block_loop b maximumBlockSize (off + 3 + encoded_block_size h)))"
  by pat_completeness auto
termination
  by (relation "measure (\<lambda>(b, m, off). length b - off)")
    (auto simp: readLittleEndian_def requireBytes_def bindR_def split: if_splits)

declare block_loop.simps [simp del]

text \<open>The window descriptor, present unless the frame is a single segment: its size and the next offset.\<close>

definition read_window :: "bytes \<Rightarrow> int \<Rightarrow> bool \<Rightarrow> ZstdError + (int option \<times> nat)" where
  "read_window b maximumLength single =
     (if single then Inr (None, 5)
      else bindR (requireBytes b 5 1) (\<lambda>_.
        let w = windowSizeOf (b ! 5) in
        if maximumLength < w then Inl ZWindowLimit else Inr (Some w, 6)))"

definition read_content_size :: "bytes \<Rightarrow> int \<Rightarrow> int \<Rightarrow> nat \<Rightarrow> nat \<Rightarrow> ZstdError + (int option \<times> nat)" where
  "read_content_size b expectedLength maximumLength n off =
     (if n = 0 then Inr (None, off)
      else bindR (readLittleEndian b off n) (\<lambda>v.
        let size = (if n = 2 then v + 256 else v) in
        if maximumLength < size then Inl ZContentLimit
        else if size \<noteq> expectedLength then Inl ZContentMismatch
        else Inr (Some size, off + n)))"

definition bounded_window :: "bool \<Rightarrow> int option \<Rightarrow> int option \<Rightarrow> ZstdError + int" where
  "bounded_window single windowSize contentSize =
     (if single then (case contentSize of None \<Rightarrow> Inl ZNoContentSize | Some c \<Rightarrow> Inr c)
      else (case windowSize of None \<Rightarrow> Inl ZNoWindow | Some w \<Rightarrow> Inr w))"

definition validateZstdFrameEnvelope :: "bytes \<Rightarrow> int \<Rightarrow> int \<Rightarrow> ZstdError + unit" where
  "validateZstdFrameEnvelope b expectedLength maximumLength =
     bindR (requireBytes b 0 5) (\<lambda>_.
     if take 4 b \<noteq> ZSTD_MAGIC then Inl ZMagic
     else let d = b ! 4; single = single_segment d; dn = dictionaryIdFieldBytes (d AND 3) in
     if d AND 0x08 \<noteq> 0 then Inl ZReservedBit
     else bindR (read_window b maximumLength single) (\<lambda>(windowSize, off1).
     bindR (readLittleEndian b off1 dn) (\<lambda>dictionaryId.
     if dictionaryId \<noteq> 0 then Inl ZDictionary
     else bindR (read_content_size b expectedLength maximumLength
         (contentSizeFieldBytes (drop_bit 6 d) single) (off1 + dn)) (\<lambda>(contentSize, off2).
     bindR (bounded_window single windowSize contentSize) (\<lambda>window.
     bindR (block_loop b (min window MAX_ZSTD_BLOCK_BYTES) off2) (\<lambda>off3.
     bindR (if has_checksum d then bindR (requireBytes b off3 4) (\<lambda>_. Inr (off3 + 4)) else Inr off3) (\<lambda>off4.
     if off4 \<noteq> length b then Inl ZTrailing else Inr ())))))))"

section \<open>The grammar it accepts\<close>

text \<open>A block is its 3-byte header and its body; a chain of blocks ends with the first last one.\<close>

type_synonym zstd_block = "int \<times> bytes"

definition block_ok :: "int \<Rightarrow> zstd_block \<Rightarrow> bool" where
  "block_ok m = (\<lambda>(h, body). 0 \<le> h \<and> h < 2 ^ 24 \<and> block_type h \<noteq> 3 \<and> block_size h \<le> m \<and>
     length body = encoded_block_size h)"

definition encode_block :: "zstd_block \<Rightarrow> bytes" where
  "encode_block = (\<lambda>(h, body). le_put 3 h @ body)"

fun block_chain :: "int \<Rightarrow> zstd_block list \<Rightarrow> bool" where
  "block_chain m [] \<longleftrightarrow> False"
| "block_chain m (p # ps) \<longleftrightarrow> block_ok m p \<and> (if block_last (fst p) then ps = [] else block_chain m ps)"

record zstd_frame =
  zf_descriptor :: "8 word"
  zf_window :: bytes
  zf_dictionary :: bytes
  zf_content :: bytes
  zf_blocks :: "zstd_block list"
  zf_checksum :: bytes

definition zstd_encode :: "zstd_frame \<Rightarrow> bytes" where
  "zstd_encode f = ZSTD_MAGIC @ [zf_descriptor f] @ zf_window f @ zf_dictionary f @ zf_content f @
     concat (map encode_block (zf_blocks f)) @ zf_checksum f"

definition content_value :: "bytes \<Rightarrow> int" where
  "content_value c = (if length c = 2 then le_get c + 256 else le_get c)"

definition frame_window :: "zstd_frame \<Rightarrow> int" where
  "frame_window f = (if single_segment (zf_descriptor f) then content_value (zf_content f)
     else windowSizeOf (hd (zf_window f)))"

definition zstd_frame_ok :: "zstd_frame \<Rightarrow> int \<Rightarrow> int \<Rightarrow> bool" where
  "zstd_frame_ok f expectedLength maximumLength \<longleftrightarrow>
     (let d = zf_descriptor f; single = single_segment d in
      d AND 0x08 = 0 \<and>
      length (zf_window f) = (if single then 0 else 1) \<and>
      length (zf_dictionary f) = dictionaryIdFieldBytes (d AND 3) \<and> le_get (zf_dictionary f) = 0 \<and>
      length (zf_content f) = contentSizeFieldBytes (drop_bit 6 d) single \<and>
      (zf_content f \<noteq> [] \<longrightarrow> content_value (zf_content f) = expectedLength \<and> expectedLength \<le> maximumLength) \<and>
      frame_window f \<le> maximumLength \<and>
      block_chain (min (frame_window f) MAX_ZSTD_BLOCK_BYTES) (zf_blocks f) \<and>
      length (zf_checksum f) = (if has_checksum d then 4 else 0))"

section \<open>The block loop and the grammar\<close>

lemma drop_peek: "off + n \<le> length b \<Longrightarrow> drop off b = peek off n b @ drop (off + n) b"
  unfolding peek_def by (metis append_take_drop_id drop_drop add.commute)

lemma peek_zero [simp]: "peek off 0 b = []"
  by (simp add: peek_def)

lemma readLE_Inr: "readLittleEndian b off n = Inr v \<longleftrightarrow> off + n \<le> length b \<and> v = le_get (peek off n b)"
  by (auto simp: readLittleEndian_def requireBytes_def)

lemma requireBytes_Inr: "requireBytes b off n = Inr u \<longleftrightarrow> off + n \<le> length b"
  by (auto simp: requireBytes_def)

lemma peek3_bounds: "off + 3 \<le> length b \<Longrightarrow> 0 \<le> le_get (peek off 3 b) \<and> le_get (peek off 3 b) < 2 ^ 24"
  using le_get_nonneg [of "peek off 3 b"] le_get_bound [of "peek off 3 b"] by simp

lemma block_loop_sound:
  "block_loop b m off = Inr off' \<Longrightarrow> off' \<le> length b \<and>
   (\<exists>ps. block_chain m ps \<and> off' = off + length (concat (map encode_block ps)) \<and>
      drop off b = concat (map encode_block ps) @ drop off' b)"
proof (induction b m off rule: block_loop.induct)
  case (1 b m off)
  let ?h = "le_get (peek off 3 b)"
  let ?n = "encoded_block_size ?h"
  let ?body = "peek (off + 3) ?n b"
  from "1.prems" have rd: "off + 3 \<le> length b" "block_type ?h \<noteq> 3" "block_size ?h \<le> m" "off + 3 + ?n \<le> length b"
    and go: "if block_last ?h then off' = off + 3 + ?n else block_loop b m (off + 3 + ?n) = Inr off'"
    by (subst (asm) block_loop.simps;
        auto simp: readLittleEndian_def requireBytes_def bindR_def split: if_splits)+
  have ok: "block_ok m (?h, ?body)"
    using rd peek3_bounds [OF rd(1)] by (simp add: block_ok_def)
  have enc: "encode_block (?h, ?body) = peek off 3 b @ ?body"
    using rd(1) by (simp add: encode_block_def le_put_le_get_len)
  have split: "drop off b = encode_block (?h, ?body) @ drop (off + 3 + ?n) b"
    using drop_peek [OF rd(1)] drop_peek [OF rd(4)] unfolding enc by simp
  have len: "length (encode_block (?h, ?body)) = 3 + ?n" using rd unfolding enc by simp
  show ?case
  proof (cases "block_last ?h")
    case True
    with go rd ok split len show ?thesis by (intro conjI exI [of _ "[(?h, ?body)]"]) auto
  next
    case False
    with go have rest: "block_loop b m (off + 3 + ?n) = Inr off'" by simp
    have "readLittleEndian b off 3 = Inr ?h" "requireBytes b (off + 3) ?n = Inr ()"
      using rd by (simp_all add: readLE_Inr requireBytes_Inr)
    from "1.IH" [OF this(1) rd(2) _ this(2) False rest] rd(3) obtain ps where
      "off' \<le> length b" "block_chain m ps" "off' = off + 3 + ?n + length (concat (map encode_block ps))"
      "drop (off + 3 + ?n) b = concat (map encode_block ps) @ drop off' b" by auto
    with False ok split len show ?thesis by (intro conjI exI [of _ "(?h, ?body) # ps"]) auto
  qed
qed

lemma block_loop_complete:
  "block_chain m ps \<Longrightarrow> drop off b = concat (map encode_block ps) @ rest \<Longrightarrow> off \<le> length b \<Longrightarrow>
   block_loop b m off = Inr (off + length (concat (map encode_block ps)))"
proof (induction ps arbitrary: off)
  case Nil
  then show ?case by simp
next
  case (Cons p ps)
  obtain h body where p: "p = (h, body)" by (cases p)
  from Cons.prems p have ok: "block_ok m (h, body)" by simp
  then have h: "0 \<le> h" "h < 256 ^ 3" and body: "length body = encoded_block_size h"
    by (simp_all add: block_ok_def)
  let ?n = "encoded_block_size h"
  have d: "drop off b = le_put 3 h @ body @ concat (map encode_block ps) @ rest"
    using Cons.prems(2) p by (simp add: encode_block_def)
  then have "length (drop off b) = 3 + ?n + length (concat (map encode_block ps) @ rest)" using body by simp
  then have len: "off + 3 + ?n \<le> length b" using Cons.prems(3) by simp
  have pk: "le_get (peek off 3 b) = h" unfolding peek_def d using h by (simp add: le_get_le_put_id)
  have dr: "drop (off + 3 + ?n) b = concat (map encode_block ps) @ rest"
  proof -
    have "drop (off + 3 + ?n) b = drop (3 + ?n) (drop off b)" by (simp add: add.commute add.left_commute)
    then show ?thesis unfolding d using body by simp
  qed
  have step: "block_loop b m off = (if block_last h then Inr (off + 3 + ?n) else block_loop b m (off + 3 + ?n))"
    using len ok pk by (subst block_loop.simps) (simp add: readLittleEndian_def requireBytes_def block_ok_def)
  show ?case
  proof (cases "block_last h")
    case True
    with step Cons.prems(1) p body show ?thesis by (simp add: encode_block_def)
  next
    case False
    with Cons.prems(1) p have "block_chain m ps" by simp
    from Cons.IH [OF this dr len] False step p body show ?thesis by (simp add: encode_block_def)
  qed
qed

section \<open>The validator accepts exactly the grammar\<close>

text \<open>What the validator checked, with the fields where it read them.\<close>

definition header_checked :: "bytes \<Rightarrow> int \<Rightarrow> int \<Rightarrow> nat \<Rightarrow> nat \<Rightarrow> nat \<Rightarrow> int \<Rightarrow> bool" where
  "header_checked b e m wn dn cn w \<longleftrightarrow>
     (let d = b ! 4; single = single_segment d; c = peek (5 + wn + dn) cn b in
      5 \<le> length b \<and> take 4 b = ZSTD_MAGIC \<and> d AND 0x08 = 0 \<and>
      wn = (if single then 0 else 1) \<and> dn = dictionaryIdFieldBytes (d AND 3) \<and>
      cn = contentSizeFieldBytes (drop_bit 6 d) single \<and> 5 + wn + dn + cn \<le> length b \<and>
      le_get (peek (5 + wn) dn b) = 0 \<and>
      (cn \<noteq> 0 \<longrightarrow> content_value c = e \<and> e \<le> m) \<and>
      w = (if single then content_value c else windowSizeOf (b ! 5)) \<and> w \<le> m)"

lemma single_has_content: "0 < contentSizeFieldBytes flag True"
  by (simp add: contentSizeFieldBytes_def)

lemma read_window_Inr:
  "read_window b m single = Inr (ws, off) \<longleftrightarrow>
     (if single then ws = None \<and> off = 5
      else 6 \<le> length b \<and> windowSizeOf (b ! 5) \<le> m \<and> ws = Some (windowSizeOf (b ! 5)) \<and> off = 6)"
  by (auto simp: read_window_def bindR_Inr_iff requireBytes_Inr Let_def)

lemma read_content_Inr:
  "read_content_size b e m n off = Inr (cs, off') \<longleftrightarrow>
     (if n = 0 then cs = None \<and> off' = off
      else off + n \<le> length b \<and> content_value (peek off n b) = e \<and> e \<le> m \<and>
        cs = Some (content_value (peek off n b)) \<and> off' = off + n)"
  by (auto simp: read_content_size_def bindR_Inr_iff readLE_Inr Let_def content_value_def)

lemma checksum_Inr:
  "(if chk then bindR (requireBytes b off 4) (\<lambda>_. Inr (off + 4)) else Inr off) = Inr off' \<longleftrightarrow>
     (if chk then off + 4 \<le> length b \<and> off' = off + 4 else off' = off)"
  by (auto simp: bindR_Inr_iff requireBytes_Inr)

lemma throw_if_Inr: "(if P then Inl e else r) = Inr y \<longleftrightarrow> \<not> P \<and> r = Inr y"
  by simp

lemma validate_checked:
  "validateZstdFrameEnvelope b e m = Inr () \<longleftrightarrow>
   (\<exists>wn dn cn w off. header_checked b e m wn dn cn w \<and>
      block_loop b (min w MAX_ZSTD_BLOCK_BYTES) (5 + wn + dn + cn) = Inr off \<and>
      off + (if has_checksum (b ! 4) then 4 else 0) = length b)"
proof -
  let ?d = "b ! 4" and ?s = "single_segment (b ! 4)" and ?dn = "dictionaryIdFieldBytes (b ! 4 AND 3)"
  let ?cn = "contentSizeFieldBytes (drop_bit 6 (b ! 4)) (single_segment (b ! 4))"
  have "validateZstdFrameEnvelope b e m = Inr () \<longleftrightarrow>
    5 \<le> length b \<and> take 4 b = ZSTD_MAGIC \<and> ?d AND 0x08 = 0 \<and>
    (\<exists>ws off1. read_window b m ?s = Inr (ws, off1) \<and> off1 + ?dn \<le> length b \<and> le_get (peek off1 ?dn b) = 0 \<and>
      (\<exists>cs off2. read_content_size b e m ?cn (off1 + ?dn) = Inr (cs, off2) \<and>
        (\<exists>w. bounded_window ?s ws cs = Inr w \<and>
          (\<exists>off3. block_loop b (min w MAX_ZSTD_BLOCK_BYTES) off2 = Inr off3 \<and>
            off3 + (if has_checksum ?d then 4 else 0) = length b))))"
    unfolding validateZstdFrameEnvelope_def Let_def bindR_Inr_iff split_paired_Ex prod.case throw_if_Inr
      requireBytes_Inr readLE_Inr checksum_Inr by force
  also have "\<dots> \<longleftrightarrow> (\<exists>wn dn cn w off. header_checked b e m wn dn cn w \<and>
      block_loop b (min w MAX_ZSTD_BLOCK_BYTES) (5 + wn + dn + cn) = Inr off \<and>
      off + (if has_checksum ?d then 4 else 0) = length b)"
  proof (cases ?s)
    case True
    then show ?thesis
      using single_has_content [of "drop_bit 6 ?d"]
      by (auto simp: read_window_Inr read_content_Inr bounded_window_def header_checked_def Let_def)
  next
    case False
    show ?thesis
    proof (cases "?cn = 0")
      case True
      with False show ?thesis
        by (auto simp: read_window_Inr read_content_Inr bounded_window_def header_checked_def Let_def)
    next
      case cn: False
      with False show ?thesis
        by (auto simp: read_window_Inr read_content_Inr bounded_window_def header_checked_def Let_def)
    qed
  qed
  finally show ?thesis .
qed

lemma checked_sound:
  assumes h: "header_checked b e m wn dn cn w"
    and l: "block_loop b (min w MAX_ZSTD_BLOCK_BYTES) (5 + wn + dn + cn) = Inr off"
    and tail: "off + (if has_checksum (b ! 4) then 4 else 0) = length b"
  shows "\<exists>f. zstd_frame_ok f e m \<and> b = zstd_encode f"
proof -
  obtain ps where ps: "block_chain (min w MAX_ZSTD_BLOCK_BYTES) ps"
    "drop (5 + wn + dn + cn) b = concat (map encode_block ps) @ drop off b"
    using block_loop_sound [OF l] by blast
  have len: "5 \<le> length b" "5 + wn + dn + cn \<le> length b" and mg: "take 4 b = ZSTD_MAGIC"
    using h by (simp_all add: header_checked_def Let_def)
  let ?f = "\<lparr>zf_descriptor = b ! 4, zf_window = peek 5 wn b, zf_dictionary = peek (5 + wn) dn b,
    zf_content = peek (5 + wn + dn) cn b, zf_blocks = ps, zf_checksum = drop off b\<rparr>"
  have "b = take 4 b @ [b ! 4] @ drop 5 b"
    using len(1) id_take_nth_drop [of 4 b] by simp
  also have "drop 5 b = peek 5 wn b @ peek (5 + wn) dn b @ peek (5 + wn + dn) cn b @ drop (5 + wn + dn + cn) b"
    using drop_peek [of 5 wn b] drop_peek [of "5 + wn" dn b] drop_peek [of "5 + wn + dn" cn b] len by simp
  finally have "b = zstd_encode ?f" using ps(2) mg by (simp add: zstd_encode_def)
  moreover have hd: "wn = 1 \<Longrightarrow> hd (peek 5 wn b) = b ! 5"
    using len by (simp add: peek_def hd_drop_conv_nth)
  have "frame_window ?f = w"
    using h hd by (auto simp: frame_window_def header_checked_def Let_def)
  then have "zstd_frame_ok ?f e m"
    using h ps(1) len tail by (auto simp: zstd_frame_ok_def header_checked_def Let_def)
  ultimately show ?thesis by blast
qed

lemma checked_complete:
  assumes ok: "zstd_frame_ok f e m" and b: "b = zstd_encode f"
  shows "\<exists>wn dn cn w off. header_checked b e m wn dn cn w \<and>
      block_loop b (min w MAX_ZSTD_BLOCK_BYTES) (5 + wn + dn + cn) = Inr off \<and>
      off + (if has_checksum (b ! 4) then 4 else 0) = length b"
proof -
  let ?wn = "length (zf_window f)" and ?dn = "length (zf_dictionary f)" and ?cn = "length (zf_content f)"
  let ?bs = "concat (map encode_block (zf_blocks f))"
  have d: "b ! 4 = zf_descriptor f" and mg: "take 4 b = ZSTD_MAGIC"
    and d5: "drop 5 b = zf_window f @ zf_dictionary f @ zf_content f @ ?bs @ zf_checksum f"
    and len: "length b = 5 + ?wn + ?dn + ?cn + length ?bs + length (zf_checksum f)"
    by (simp_all add: b zstd_encode_def ZSTD_MAGIC_def)
  have at: "peek (5 + k) n b = take n (drop k (drop 5 b))" "drop (5 + k) b = drop k (drop 5 b)" for k n
    by (simp_all add: peek_def add.commute)
  have dict: "peek (5 + ?wn) ?dn b = zf_dictionary f" unfolding at d5 by simp
  have cont: "peek (5 + ?wn + ?dn) ?cn b = zf_content f"
    unfolding add.assoc at d5 by simp
  have rest: "drop (5 + ?wn + ?dn + ?cn) b = ?bs @ zf_checksum f"
    unfolding add.assoc at d5 by simp
  have w5: "?wn = 1 \<Longrightarrow> b ! 5 = hd (zf_window f)"
    using d5 nth_via_drop [of 5 b "hd (zf_window f)"] by (cases "zf_window f") auto
  have hc: "header_checked b e m ?wn ?dn ?cn (frame_window f)"
    using ok d mg dict cont len w5
    by (auto simp: header_checked_def zstd_frame_ok_def Let_def frame_window_def split: if_splits)
  have "block_loop b (min (frame_window f) MAX_ZSTD_BLOCK_BYTES) (5 + ?wn + ?dn + ?cn) =
      Inr (5 + ?wn + ?dn + ?cn + length ?bs)"
    by (rule block_loop_complete [OF _ rest]) (use ok len in \<open>simp_all add: zstd_frame_ok_def Let_def\<close>)
  then show ?thesis
    using hc ok d len
    by (intro exI [of _ ?wn] exI [of _ ?dn] exI [of _ ?cn] exI [of _ "frame_window f"]
        exI [of _ "5 + ?wn + ?dn + ?cn + length ?bs"]) (simp add: zstd_frame_ok_def Let_def)
qed

text \<open>
  C20. The envelope check accepts exactly the byte strings that are one standard zstd frame, complete and with nothing
  after it, whose window is within the configured limit, whose declared content size (when present) is the
  manifest's, which uses no dictionary, reserved bit or reserved block type, and whose blocks all fit
  the window: it never reads past the end, and always terminates.
\<close>

theorem zstd_envelope_exact:
  "validateZstdFrameEnvelope b expectedLength maximumLength = Inr () \<longleftrightarrow>
     (\<exists>f. zstd_frame_ok f expectedLength maximumLength \<and> b = zstd_encode f)"
  unfolding validate_checked using checked_sound checked_complete by blast

section \<open>The bounded decompression\<close>

definition MAX_SAFE_INTEGER :: int where "MAX_SAFE_INTEGER = 9007199254740991"

text \<open>What the decoder does with the frame: the callback's calls in order, then whether it throws.\<close>

record zstd_decoding =
  zd_chunks :: "(bytes \<times> bool) list"
  zd_throws :: bool

record zstd_output =
  zo_output :: bytes
  zo_offset :: nat
  zo_finished :: bool

definition take_chunk :: "int \<Rightarrow> int \<Rightarrow> bytes \<times> bool \<Rightarrow> zstd_output \<Rightarrow> ZstdError + zstd_output" where
  "take_chunk expectedLength maximumLength c z =
     (if zo_finished z then Inl ZAfterCompletion
      else if expectedLength - int (zo_offset z) < int (length (fst c)) \<or>
         maximumLength - int (zo_offset z) < int (length (fst c)) then Inl ZOutputLimit
      else Inr \<lparr>zo_output = poke (zo_offset z) (fst c) (zo_output z),
             zo_offset = zo_offset z + length (fst c), zo_finished = snd c\<rparr>)"

fun take_chunks :: "int \<Rightarrow> int \<Rightarrow> (bytes \<times> bool) list \<Rightarrow> zstd_output \<Rightarrow> ZstdError + zstd_output" where
  "take_chunks e m [] z = Inr z"
| "take_chunks e m (c # cs) z = bindR (take_chunk e m c z) (take_chunks e m cs)"

definition decompressBoundedZstdFrame ::
  "(bytes \<Rightarrow> zstd_decoding) \<Rightarrow> bytes \<Rightarrow> int \<Rightarrow> int \<Rightarrow> ZstdError + bytes" where
  "decompressBoundedZstdFrame decoder b expectedLength maximumLength =
     (if \<not> (\<bar>expectedLength\<bar> \<le> MAX_SAFE_INTEGER) \<or> expectedLength < 0 \<or> maximumLength < expectedLength
      then Inl ZExpectedLimit
      else bindR (validateZstdFrameEnvelope b expectedLength maximumLength) (\<lambda>_.
        bindR (take_chunks expectedLength maximumLength (zd_chunks (decoder b))
          \<lparr>zo_output = replicate (nat expectedLength) 0, zo_offset = 0, zo_finished = False\<rparr>) (\<lambda>z.
        if zd_throws (decoder b) then Inl ZDecoder
        else if \<not> zo_finished z then Inl ZNotFinished
        else if int (zo_offset z) \<noteq> expectedLength then Inl ZLengthMismatch
        else Inr (zo_output z))))"

lemma take_poke: "off + length bs \<le> length buf \<Longrightarrow> take (off + length bs) (poke off bs buf) = take off buf @ bs"
  by (simp add: poke_def)

lemma take_chunks_collect:
  "take_chunks e m cs z = Inr z' \<Longrightarrow> int (length (zo_output z)) = e \<Longrightarrow> zo_offset z \<le> length (zo_output z) \<Longrightarrow>
   length (zo_output z') = length (zo_output z) \<and> zo_offset z' \<le> length (zo_output z') \<and>
   take (zo_offset z') (zo_output z') = take (zo_offset z) (zo_output z) @ concat (map fst cs) \<and>
   zo_offset z' = zo_offset z + length (concat (map fst cs)) \<and>
   (cs \<noteq> [] \<longrightarrow> zo_finished z' = snd (last cs) \<and> \<not> zo_finished z \<and> (\<forall>c\<in>set (butlast cs). \<not> snd c)) \<and>
   (cs = [] \<longrightarrow> zo_finished z' = zo_finished z)"
proof (induction cs arbitrary: z)
  case Nil
  then show ?case by simp
next
  case (Cons c cs)
  then obtain z1 where st: "take_chunk e m c z = Inr z1" and rest: "take_chunks e m cs z1 = Inr z'"
    by (auto simp: bindR_Inr_iff)
  from st have fin: "\<not> zo_finished z" and fits: "int (length (fst c)) \<le> e - int (zo_offset z)"
    and z1: "z1 = \<lparr>zo_output = poke (zo_offset z) (fst c) (zo_output z),
        zo_offset = zo_offset z + length (fst c), zo_finished = snd c\<rparr>"
    by (auto simp: take_chunk_def split: if_splits)
  have room: "zo_offset z + length (fst c) \<le> length (zo_output z)" using fits Cons.prems(2) by simp
  then have "int (length (zo_output z1)) = e" "zo_offset z1 \<le> length (zo_output z1)"
    using Cons.prems(2) by (simp_all add: z1)
  from Cons.IH [OF rest this] show ?case
    using fin room take_poke [OF room] by (cases cs) (auto simp: z1)
qed

text \<open>
  Whatever the decoder does, a decompressed snapshot is exactly what it emitted: if decompression returns, the
  input was a valid envelope, the output has the manifest's length, which is within the limit,
  it is the concatenation of the emitted chunks, none was emitted after the final one, and the
  decoder did not fail.
\<close>

theorem decompress_bounded:
  assumes "decompressBoundedZstdFrame decoder b expectedLength maximumLength = Inr out"
  shows "int (length out) = expectedLength \<and> expectedLength \<le> maximumLength \<and>
    out = concat (map fst (zd_chunks (decoder b))) \<and>
    validateZstdFrameEnvelope b expectedLength maximumLength = Inr () \<and> \<not> zd_throws (decoder b) \<and>
    (\<exists>cs c. zd_chunks (decoder b) = cs @ [(c, True)] \<and> list_all (\<lambda>p. \<not> snd p) cs)"
proof -
  let ?z = "\<lparr>zo_output = replicate (nat expectedLength) 0, zo_offset = 0, zo_finished = False\<rparr>"
  let ?cs = "zd_chunks (decoder b)"
  have e: "0 \<le> expectedLength" "expectedLength \<le> maximumLength"
    using assms by (auto simp: decompressBoundedZstdFrame_def split: if_splits)
  have v: "validateZstdFrameEnvelope b expectedLength maximumLength = Inr ()"
    using assms by (auto simp: decompressBoundedZstdFrame_def bindR_Inr_iff split: if_splits)
  from assms obtain z' where t: "take_chunks expectedLength maximumLength ?cs ?z = Inr z'"
    and f: "zo_finished z'" "int (zo_offset z') = expectedLength" "out = zo_output z'" "\<not> zd_throws (decoder b)"
    by (auto simp: decompressBoundedZstdFrame_def bindR_Inr_iff split: if_splits)
  note c = take_chunks_collect [OF t]
  have "?cs \<noteq> []" using c f(1) e by auto
  then obtain cs p where cs: "?cs = cs @ [p]" by (metis append_butlast_last_id)
  with c e f(1) have p: "snd p" "list_all (\<lambda>p. \<not> snd p) cs" by (auto simp: list_all_iff)
  have "out = concat (map fst ?cs)" "int (length out) = expectedLength"
    using c e f by auto
  moreover have "\<exists>cs c. ?cs = cs @ [(c, True)] \<and> list_all (\<lambda>p. \<not> snd p) cs"
    using cs p by (intro exI [of _ cs] exI [of _ "fst p"]) (cases p; simp)
  ultimately show ?thesis using v e f by blast
qed

text \<open>A raw three-byte snapshot, with a decoder that emits it in two chunks.\<close>

definition demo_snapshot :: bytes where
  "demo_snapshot = [0x28, 0xb5, 0x2f, 0xfd, 0x20, 3, 0x19, 0, 0, 65, 66, 67]"

definition demo_decoder :: "bytes \<Rightarrow> zstd_decoding" where
  "demo_decoder b = \<lparr>zd_chunks = [([65, 66], False), ([67], True)], zd_throws = False\<rparr>"

lemma demo_decompresses: "decompressBoundedZstdFrame demo_decoder demo_snapshot 3 1024 = Inr [65, 66, 67]"
  by code_simp

theorem decompress_bounded_witness:
  "[65, 66, 67] = concat (map fst (zd_chunks (demo_decoder demo_snapshot))) \<and>
   validateZstdFrameEnvelope demo_snapshot 3 1024 = Inr ()"
  using decompress_bounded [OF demo_decompresses] by blast

end
