(* ===== verification/Relay_Sockets.thy ===== *)
theory Relay_Sockets
  imports Scalars
begin

text \<open>
  The relay's view of its WebSockets: the attachment schema of \<open>worker/relay-socket.ts\<close>, the pairing
  of control and data sockets of \<open>worker/relay-connection-state.ts\<close>, and the lookups and the
  closing of \<open>worker/relay-socket-runtime.ts\<close> (all under \<open>apps/terminal-cloud/src\<close>). The Durable
  Object's sockets are an ordered map from references to sockets with their tags, their ready state
  and the attached value; \<open>None\<close> stands for a value of another shape.
\<close>

section \<open>Attachments\<close>

datatype Peer = host | browser
datatype RelayChannel = control | data
datatype SocketRole = host_role | writer | observer
datatype ControlState = control_awaiting_attach | active
datatype SocketDataState = data_awaiting_attach | data_catching_up | data_synced
datatype ReplayMode = warm | snapshot

record SocketAttachment =
  sa_version :: int
  sa_peer :: Peer
  sa_channel :: RelayChannel
  sa_connectionSetId :: string
  sa_connectionId :: string
  sa_subject :: string
  sa_clientId :: "string option"
  sa_role :: SocketRole
  sa_streamId :: int
  sa_deliveryGeneration :: string
  sa_hostFence :: "string option"
  sa_leaseFence :: "string option"
  sa_leaseExpiresAt :: "int option"
  sa_controlState :: "ControlState option"
  sa_dataState :: "SocketDataState option"
  sa_firstEventSeq :: "string option"
  sa_ackedEventSeq :: "string option"
  sa_sentEventSeq :: "string option"
  sa_firstPtyOffset :: "string option"
  sa_ackedPtyOffset :: "string option"
  sa_sentPtyOffset :: "string option"
  sa_replayMode :: "ReplayMode option"
  sa_snapshotId :: "string option"
  sa_replayCommitEventSeq :: "string option"
  sa_replayCommitPtyOffset :: "string option"
  sa_relayCapabilities :: "string list"

definition nullable :: "('a \<Rightarrow> bool) \<Rightarrow> 'a option \<Rightarrow> bool" where
  "nullable P x \<longleftrightarrow> (case x of None \<Rightarrow> True | Some v \<Rightarrow> P v)"

text \<open>The capability names themselves are an enumeration of the protocol; only their number is bounded here.\<close>

definition SocketAttachmentSchema :: "SocketAttachment \<Rightarrow> bool" where
  "SocketAttachmentSchema a \<longleftrightarrow> sa_version a = 2 \<and>
     identifier_ok (sa_connectionSetId a) \<and> identifier_ok (sa_connectionId a) \<and> identifier_ok (sa_subject a) \<and>
     nullable identifier_ok (sa_clientId a) \<and> 0 \<le> sa_streamId a \<and> sa_streamId a \<le> 0xffffffff \<and>
     DecimalU64Schema (sa_deliveryGeneration a) \<and> nullable DecimalU64Schema (sa_hostFence a) \<and>
     nullable DecimalU64Schema (sa_leaseFence a) \<and> nullable (\<lambda>t. 0 \<le> t \<and> t \<le> 9007199254740991) (sa_leaseExpiresAt a) \<and>
     nullable DecimalU64Schema (sa_firstEventSeq a) \<and> nullable DecimalU64Schema (sa_ackedEventSeq a) \<and>
     nullable DecimalU64Schema (sa_sentEventSeq a) \<and> nullable DecimalU64Schema (sa_firstPtyOffset a) \<and>
     nullable DecimalU64Schema (sa_ackedPtyOffset a) \<and> nullable DecimalU64Schema (sa_sentPtyOffset a) \<and>
     nullable identifier_ok (sa_snapshotId a) \<and> nullable DecimalU64Schema (sa_replayCommitEventSeq a) \<and>
     nullable DecimalU64Schema (sa_replayCommitPtyOffset a) \<and> length (sa_relayCapabilities a) \<le> 16"

section \<open>Sockets\<close>

datatype ReadyState = CONNECTING | OPEN | CLOSING | CLOSED

record relay_socket =
  so_readyState :: ReadyState
  so_tags :: "string list"
  so_attachment :: "SocketAttachment option"

type_synonym relay_sockets = "(nat, relay_socket) jsmap"

definition readSocketAttachment :: "relay_socket \<Rightarrow> SocketAttachment option" where
  "readSocketAttachment s =
     (case so_attachment s of None \<Rightarrow> None | Some a \<Rightarrow> if SocketAttachmentSchema a then Some a else None)"

text \<open>\<open>None\<close> is the thrown parse error.\<close>

definition writeSocketAttachment :: "nat \<Rightarrow> SocketAttachment \<Rightarrow> relay_sockets \<Rightarrow> relay_sockets option" where
  "writeSocketAttachment i a ws =
     (if \<not> SocketAttachmentSchema a then None
      else Some (case jm_get ws i of None \<Rightarrow> ws | Some s \<Rightarrow> jm_set i (s\<lparr>so_attachment := Some a\<rparr>) ws))"

definition attachment_of :: "relay_sockets \<Rightarrow> nat \<Rightarrow> SocketAttachment option" where
  "attachment_of ws i = (case jm_get ws i of None \<Rightarrow> None | Some s \<Rightarrow> readSocketAttachment s)"

definition socket_open :: "relay_sockets \<Rightarrow> nat \<Rightarrow> bool" where
  "socket_open ws i \<longleftrightarrow> (case jm_get ws i of None \<Rightarrow> False | Some s \<Rightarrow> so_readyState s = OPEN)"

definition getWebSockets :: "string \<Rightarrow> relay_sockets \<Rightarrow> nat list" where
  "getWebSockets tag ws = map fst (filter (\<lambda>(i, s). tag \<in> set (so_tags s)) ws)"

section \<open>Connections\<close>

datatype ConnectionPhase = reserved | control_open | data_open | paired | ready | closed_phase

definition deriveConnectionPhase :: "ControlState option option \<Rightarrow> bool \<Rightarrow> bool \<Rightarrow> ConnectionPhase" where
  "deriveConnectionPhase controlState dataOpen isReserved =
     (if controlState \<noteq> None \<and> dataOpen then (if controlState = Some (Some active) then ready else paired)
      else if controlState \<noteq> None then control_open
      else if dataOpen then data_open
      else if isReserved then reserved else closed_phase)"

definition sameConnection :: "SocketAttachment \<Rightarrow> SocketAttachment \<Rightarrow> bool" where
  "sameConnection candidate ident \<longleftrightarrow>
     sa_peer candidate = sa_peer ident \<and> sa_connectionSetId candidate = sa_connectionSetId ident \<and>
     sa_connectionId candidate = sa_connectionId ident \<and>
     (if sa_peer ident = host then sa_hostFence candidate \<noteq> None \<and> sa_hostFence candidate = sa_hostFence ident
      else sa_clientId candidate \<noteq> None \<and> sa_clientId candidate = sa_clientId ident \<and>
        sa_deliveryGeneration candidate = sa_deliveryGeneration ident)"

record ConnectionSockets =
  cs_control :: "nat option"
  cs_data :: "nat option"
  cs_phase :: ConnectionPhase

text \<open>The loop over the set's sockets: the last open match of each channel.\<close>

fun connection_loop ::
  "relay_sockets \<Rightarrow> SocketAttachment \<Rightarrow> nat option \<Rightarrow> nat list \<Rightarrow> nat option \<Rightarrow> nat option \<Rightarrow> nat option \<times> nat option"
where
  "connection_loop ws ident except [] c d = (c, d)"
| "connection_loop ws ident except (i # is) c d =
     (if Some i = except \<or> \<not> socket_open ws i then connection_loop ws ident except is c d
      else case attachment_of ws i of
          None \<Rightarrow> connection_loop ws ident except is c d
        | Some a \<Rightarrow>
            if \<not> sameConnection a ident then connection_loop ws ident except is c d
            else if sa_channel a = control then connection_loop ws ident except is (Some i) d
            else connection_loop ws ident except is c (Some i))"

definition connectionSockets ::
  "relay_sockets \<Rightarrow> SocketAttachment \<Rightarrow> bool \<Rightarrow> nat option \<Rightarrow> ConnectionSockets" where
  "connectionSockets ws ident isReserved except =
     (case connection_loop ws ident except (getWebSockets (''set:'' @ sa_connectionSetId ident) ws) None None of
        (c, d) \<Rightarrow> \<lparr>cs_control = c, cs_data = d,
          cs_phase = deriveConnectionPhase
            (case c of None \<Rightarrow> None | Some i \<Rightarrow> map_option sa_controlState (attachment_of ws i))
            (d \<noteq> None) isReserved\<rparr>)"

definition matchingSocket ::
  "relay_sockets \<Rightarrow> SocketAttachment \<Rightarrow> RelayChannel \<Rightarrow> nat option \<Rightarrow> nat option" where
  "matchingSocket ws ident channel except =
     (let c = connectionSockets ws ident False except in if channel = control then cs_control c else cs_data c)"

record TicketRow =
  tk_channel :: RelayChannel
  tk_client_id :: "string option"
  tk_connection_id :: string
  tk_connection_set_id :: string
  tk_delivery_generation :: string
  tk_expires_at :: int
  tk_host_fence :: "string option"
  tk_relay_capabilities_json :: string
  tk_peer :: Peer
  tk_role :: SocketRole
  tk_stream_id :: int
  tk_subject :: string
  tk_ticket_digest :: string

text \<open>The first open control socket of the ticket's connection decides.\<close>

fun eligible_loop ::
  "relay_sockets \<Rightarrow> TicketRow \<Rightarrow> string option \<Rightarrow> nat list \<Rightarrow> SocketAttachment option" where
  "eligible_loop ws t currentHostFence [] = None"
| "eligible_loop ws t currentHostFence (i # is) =
     (if \<not> socket_open ws i then eligible_loop ws t currentHostFence is
      else case attachment_of ws i of
          None \<Rightarrow> eligible_loop ws t currentHostFence is
        | Some a \<Rightarrow>
            if sa_channel a \<noteq> control \<or> sa_peer a \<noteq> tk_peer t \<or>
               sa_connectionSetId a \<noteq> tk_connection_set_id t \<or> sa_connectionId a \<noteq> tk_connection_id t
            then eligible_loop ws t currentHostFence is
            else if tk_peer t = host
            then (if sa_hostFence a \<noteq> None \<and> sa_hostFence a = currentHostFence then Some a else None)
            else (if tk_client_id t \<noteq> None \<and> sa_clientId a = tk_client_id t then Some a else None))"

definition eligibleControlForDataTicket ::
  "relay_sockets \<Rightarrow> TicketRow \<Rightarrow> string option \<Rightarrow> SocketAttachment option" where
  "eligibleControlForDataTicket ws t currentHostFence =
     (if tk_channel t \<noteq> data then None
      else eligible_loop ws t currentHostFence (getWebSockets (''set:'' @ tk_connection_set_id t) ws))"

section \<open>The socket runtime\<close>

definition isCurrentHost :: "string option \<Rightarrow> SocketAttachment \<Rightarrow> bool" where
  "isCurrentHost sessionHostFence a \<longleftrightarrow>
     sa_peer a = host \<and> sa_hostFence a \<noteq> None \<and> sa_hostFence a = sessionHostFence"

definition find_socket :: "relay_sockets \<Rightarrow> string \<Rightarrow> (nat \<Rightarrow> SocketAttachment \<Rightarrow> bool) \<Rightarrow> nat list" where
  "find_socket ws tag P = filter
     (\<lambda>i. socket_open ws i \<and> (case attachment_of ws i of None \<Rightarrow> False | Some a \<Rightarrow> P i a)) (getWebSockets tag ws)"

definition first_of :: "nat list \<Rightarrow> nat option" where
  "first_of is = (case is of [] \<Rightarrow> None | i # _ \<Rightarrow> Some i)"

text \<open>The session row's fence; without a session there is no current host.\<close>

definition currentHostControl :: "relay_sockets \<Rightarrow> string option \<Rightarrow> nat option \<Rightarrow> nat option" where
  "currentHostControl ws sessionHostFence except =
     (case sessionHostFence of None \<Rightarrow> None
      | Some f \<Rightarrow> first_of (find_socket ws ''peer:host'' (\<lambda>i a. Some i \<noteq> except \<and> sa_channel a = control \<and>
          sa_hostFence a = Some f \<and> sa_controlState a = Some active)))"

definition currentInputHostControl :: "relay_sockets \<Rightarrow> nat option" where
  "currentInputHostControl ws =
     (case find_socket ws ''peer:host'' (\<lambda>i a. sa_channel a = control \<and> sa_hostFence a \<noteq> None \<and>
          sa_controlState a = Some active) of [i] \<Rightarrow> Some i | _ \<Rightarrow> None)"

definition currentHostData :: "relay_sockets \<Rightarrow> string option \<Rightarrow> nat option \<Rightarrow> nat option" where
  "currentHostData ws sessionHostFence except =
     (case currentHostControl ws sessionHostFence None of None \<Rightarrow> None
      | Some i \<Rightarrow> (case attachment_of ws i of None \<Rightarrow> None | Some a \<Rightarrow> matchingSocket ws a data except))"

definition activeBrowserControl :: "relay_sockets \<Rightarrow> string \<Rightarrow> nat option \<Rightarrow> nat option" where
  "activeBrowserControl ws clientId except =
     first_of (find_socket ws (''client:'' @ clientId) (\<lambda>i a. Some i \<noteq> except \<and> sa_channel a = control))"

definition browserControlSockets :: "relay_sockets \<Rightarrow> nat list" where
  "browserControlSockets ws = find_socket ws ''peer:browser'' (\<lambda>i a. sa_channel a = control)"

definition browserDataSockets :: "relay_sockets \<Rightarrow> nat list" where
  "browserDataSockets ws = find_socket ws ''peer:browser'' (\<lambda>i a. sa_channel a = data)"

definition browserControlByConnection :: "relay_sockets \<Rightarrow> string \<Rightarrow> nat option" where
  "browserControlByConnection ws connectionId =
     first_of (filter (\<lambda>i. case attachment_of ws i of None \<Rightarrow> False
       | Some a \<Rightarrow> sa_connectionId a = connectionId \<and> sa_controlState a = Some active) (browserControlSockets ws))"

definition browserDataByClient :: "relay_sockets \<Rightarrow> string \<Rightarrow> nat option \<Rightarrow> nat option" where
  "browserDataByClient ws clientId except =
     first_of (find_socket ws (''client:'' @ clientId) (\<lambda>i a. Some i \<noteq> except \<and> sa_channel a = data))"

definition mark_catching_up :: "nat \<Rightarrow> relay_sockets \<Rightarrow> relay_sockets option" where
  "mark_catching_up i ws =
     (case attachment_of ws i of None \<Rightarrow> Some ws
      | Some a \<Rightarrow> writeSocketAttachment i (a\<lparr>sa_dataState :=
          Some (if sa_dataState a = Some data_awaiting_attach then data_awaiting_attach else data_catching_up)\<rparr>) ws)"

fun mark_all :: "nat list \<Rightarrow> relay_sockets \<Rightarrow> relay_sockets option" where
  "mark_all [] ws = Some ws"
| "mark_all (i # is) ws = (case mark_catching_up i ws of None \<Rightarrow> None | Some ws' \<Rightarrow> mark_all is ws')"

definition markBrowserDataCatchingUp :: "relay_sockets \<Rightarrow> relay_sockets option" where
  "markBrowserDataCatchingUp ws = mark_all (browserDataSockets ws) ws"

text \<open>Closing starts the closing handshake; the result says whether a pinned snapshot was released.\<close>

definition below_closing :: "relay_socket \<Rightarrow> bool" where
  "below_closing s \<longleftrightarrow> so_readyState s = CONNECTING \<or> so_readyState s = OPEN"

definition closes :: "(SocketAttachment \<Rightarrow> bool) \<Rightarrow> nat option \<Rightarrow> nat \<Rightarrow> relay_socket \<Rightarrow> bool" where
  "closes P except i s \<longleftrightarrow> Some i \<noteq> except \<and> below_closing s \<and>
     (case readSocketAttachment s of None \<Rightarrow> False | Some a \<Rightarrow> P a)"

definition closeSockets ::
  "(SocketAttachment \<Rightarrow> bool) \<Rightarrow> nat option \<Rightarrow> relay_sockets \<Rightarrow> relay_sockets \<times> bool" where
  "closeSockets P except ws =
     (map (\<lambda>(i, s). (i, if closes P except i s then s\<lparr>so_readyState := CLOSING\<rparr> else s)) ws,
      list_ex (\<lambda>(i, s). closes P except i s \<and> (case readSocketAttachment s of None \<Rightarrow> False
        | Some a \<Rightarrow> sa_peer a = browser \<and> sa_channel a = data \<and> sa_snapshotId a \<noteq> None)) ws)"

definition closeProtocol :: "nat \<Rightarrow> relay_sockets \<Rightarrow> relay_sockets" where
  "closeProtocol i ws = (case jm_get ws i of None \<Rightarrow> ws
     | Some s \<Rightarrow> if below_closing s then jm_set i (s\<lparr>so_readyState := CLOSING\<rparr>) ws else ws)"

definition pinnedSnapshotIds :: "relay_sockets \<Rightarrow> string list" where
  "pinnedSnapshotIds ws = List.map_filter (\<lambda>i. case attachment_of ws i of None \<Rightarrow> None
     | Some a \<Rightarrow> if socket_open ws i \<and> sa_channel a = data then sa_snapshotId a else None)
     (getWebSockets ''peer:browser'' ws)"

section \<open>Lookups find what they name\<close>

lemma find_socket_mem: "i \<in> set (find_socket ws tag P) \<Longrightarrow>
  socket_open ws i \<and> (\<exists>a. attachment_of ws i = Some a \<and> P i a)"
  by (auto simp: find_socket_def split: option.splits)

lemma first_of_Some: "first_of is = Some i \<Longrightarrow> i \<in> set is"
  by (cases "is") (auto simp: first_of_def)

lemma connection_loop_found:
  "connection_loop ws a except is c d = (c', d') \<Longrightarrow>
   (c' = c \<or> (\<exists>i b. c' = Some i \<and> Some i \<noteq> except \<and> socket_open ws i \<and> attachment_of ws i = Some b \<and>
      sameConnection b a \<and> sa_channel b = control)) \<and>
   (d' = d \<or> (\<exists>i b. d' = Some i \<and> Some i \<noteq> except \<and> socket_open ws i \<and> attachment_of ws i = Some b \<and>
      sameConnection b a \<and> sa_channel b = data))"
proof (induction ws a except "is" c d rule: connection_loop.induct)
  case (1 ws a except c d)
  then show ?case by simp
next
  case (2 ws a except i "is" c d)
  show ?case
  proof (cases "Some i = except \<or> \<not> socket_open ws i")
    case True
    with 2 show ?thesis by simp
  next
    case False
    show ?thesis
    proof (cases "attachment_of ws i")
      case None
      with 2 False show ?thesis by simp
    next
      case (Some b)
      show ?thesis
      proof (cases "sameConnection b a")
        case same: True
        show ?thesis
        proof (cases "sa_channel b")
          case control
          with "2.IH"(4) [OF False Some] "2.prems" False Some same show ?thesis by auto
        next
          case data
          with "2.IH"(5) [OF False Some] "2.prems" False Some same show ?thesis by auto
        qed
      next
        case diff: False
        with 2 False Some show ?thesis by simp
      qed
    qed
  qed
qed

text \<open>
  The relay pairs only sockets of one connection: a control or data socket it finds for a connection is open, is not the
  excluded one and carries an attachment of the same peer, connection set, connection and fence or client and
  generation, and the phase it reports is ready only when an active control socket and a data socket are both there.
\<close>

theorem connection_sockets_sound:
  "let c = connectionSockets ws ident isReserved except in
   (\<forall>i. cs_control c = Some i \<longrightarrow> Some i \<noteq> except \<and> socket_open ws i \<and>
      (\<exists>a. attachment_of ws i = Some a \<and> sameConnection a ident \<and> sa_channel a = control)) \<and>
   (\<forall>i. cs_data c = Some i \<longrightarrow> Some i \<noteq> except \<and> socket_open ws i \<and>
      (\<exists>a. attachment_of ws i = Some a \<and> sameConnection a ident \<and> sa_channel a = data)) \<and>
   (cs_phase c = ready \<longleftrightarrow> cs_data c \<noteq> None \<and>
      (\<exists>i a. cs_control c = Some i \<and> attachment_of ws i = Some a \<and> sa_controlState a = Some active))"
proof -
  obtain c d where l: "connection_loop ws ident except (getWebSockets (''set:'' @ sa_connectionSetId ident) ws) None None = (c, d)"
    by (cases "connection_loop ws ident except (getWebSockets (''set:'' @ sa_connectionSetId ident) ws) None None")
  from connection_loop_found [OF l] l show ?thesis
    by (auto simp: connectionSockets_def Let_def deriveConnectionPhase_def split: option.splits)
qed

definition demo_attachment :: "RelayChannel \<Rightarrow> SocketAttachment" where
  "demo_attachment ch = \<lparr>sa_version = 2, sa_peer = browser, sa_channel = ch,
     sa_connectionSetId = ''set-0000000000000'', sa_connectionId = ''conn-000000000000'', sa_subject = ''subject-000000000'',
     sa_clientId = Some ''client-0000000000'', sa_role = writer, sa_streamId = 3, sa_deliveryGeneration = ''2'',
     sa_hostFence = None, sa_leaseFence = Some ''4'', sa_leaseExpiresAt = Some 50000,
     sa_controlState = (if ch = control then Some active else None),
     sa_dataState = (if ch = data then Some data_synced else None),
     sa_firstEventSeq = None, sa_ackedEventSeq = None, sa_sentEventSeq = None, sa_firstPtyOffset = None,
     sa_ackedPtyOffset = None, sa_sentPtyOffset = None, sa_replayMode = None, sa_snapshotId = None,
     sa_replayCommitEventSeq = None, sa_replayCommitPtyOffset = None, sa_relayCapabilities = []\<rparr>"

definition demo_sockets :: relay_sockets where
  "demo_sockets = map (\<lambda>(i, ch). (i, \<lparr>so_readyState = OPEN,
     so_tags = [''set:set-0000000000000'', ''peer:browser'', ''client:client-0000000000''],
     so_attachment = Some (demo_attachment ch)\<rparr>)) [(0, control), (1, data)]"

lemma demo_connection: "cs_control (connectionSockets demo_sockets (demo_attachment control) False None) = Some 0"
  by code_simp

theorem connection_sockets_sound_witness:
  "\<exists>a. attachment_of demo_sockets 0 = Some a \<and> sameConnection a (demo_attachment control)"
  using connection_sockets_sound [of demo_sockets "demo_attachment control" False None] demo_connection
  unfolding Let_def by blast

section \<open>Closing\<close>

lemma closeSockets_get: "jm_get (fst (closeSockets P except ws)) i =
  map_option (\<lambda>s. if closes P except i s then s\<lparr>so_readyState := CLOSING\<rparr> else s) (jm_get ws i)"
  by (induction ws) (auto simp: closeSockets_def)

lemma closeSockets_attachment [simp]: "attachment_of (fst (closeSockets P except ws)) i = attachment_of ws i"
  by (auto simp: attachment_of_def closeSockets_get readSocketAttachment_def split: option.splits)

lemma closeSockets_open: "socket_open (fst (closeSockets P except ws)) i \<longleftrightarrow>
  socket_open ws i \<and> (Some i = except \<or> (\<forall>a. attachment_of ws i = Some a \<longrightarrow> \<not> P a))"
  by (auto simp: socket_open_def closeSockets_get closes_def below_closing_def attachment_of_def split: option.splits)

end
