(* ===== verification/Writer_Authority.thy ===== *)
theory Writer_Authority
  imports Relay_Sockets
begin

text \<open>
  \<open>apps/terminal-cloud/src/worker/writer-authority.ts\<close>: the one writer lease of a session, kept in the
  singleton row of \<open>writer_lease\<close> and proved by the holder's control socket. \<open>acquire\<close> and \<open>renew\<close>
  are cut at their \<open>await\<close>; what comes after it re-reads the row and the socket. The readings of the
  clock are arguments, in the order the code takes them, and the digest of a token is given.
\<close>

section \<open>State\<close>

record WriterLeaseRow =
  wl_client_id :: string
  wl_connection_id :: string
  wl_expires_at :: int
  wl_fence :: string
  wl_lease_digest :: string

record relay_world =
  rw_lease :: "WriterLeaseRow option"
  rw_sockets :: relay_sockets

record AcquiredWriterLease =
  al_expiresAt :: int
  al_fence :: string
  al_token :: string

datatype WriterError = FenceExhausted | AttachmentInvalid

definition WRITER_LEASE_MS :: int where "WRITER_LEASE_MS = 30000"

section \<open>Acquiring\<close>

text \<open>The check before the token is made.\<close>

definition acquire_begin :: "int \<Rightarrow> relay_world \<Rightarrow> bool" where
  "acquire_begin now w \<longleftrightarrow> \<not> (case rw_lease w of None \<Rightarrow> False | Some l \<Rightarrow> now < wl_expires_at l)"

text \<open>\<open>closeDisplacedWriters\<close> as \<open>terminal-session-do.ts\<close> wires it.\<close>

definition displaced :: "string \<Rightarrow> string \<Rightarrow> SocketAttachment \<Rightarrow> bool" where
  "displaced connectionId fence a \<longleftrightarrow> sa_peer a = browser \<and> sa_role a = writer \<and>
     sa_connectionId a \<noteq> connectionId \<and> sa_leaseFence a \<noteq> None \<and> sa_leaseFence a \<noteq> Some fence"

definition closeDisplacedWriters :: "string \<Rightarrow> string \<Rightarrow> relay_world \<Rightarrow> relay_world" where
  "closeDisplacedWriters connectionId fence w =
     w\<lparr>rw_sockets := fst (closeSockets (displaced connectionId fence) None (rw_sockets w))\<rparr>"

definition currentFence :: "relay_world \<Rightarrow> int" where
  "currentFence w = bigint_of (case rw_lease w of None \<Rightarrow> ''0'' | Some l \<Rightarrow> wl_fence l)"

text \<open>After the digest: \<open>now1\<close> is read for the check, \<open>now2\<close> for the expiry.\<close>

definition acquire_finish ::
  "string \<Rightarrow> string \<Rightarrow> string \<Rightarrow> string \<Rightarrow> int \<Rightarrow> int \<Rightarrow> relay_world \<Rightarrow>
   relay_world \<times> (WriterError + AcquiredWriterLease option)" where
  "acquire_finish clientId connectionId token digest now1 now2 w =
     (if (case rw_lease w of None \<Rightarrow> False | Some l \<Rightarrow> now1 < wl_expires_at l) then (w, Inr None)
      else if MAX_U64 \<le> currentFence w then (w, Inl FenceExhausted)
      else let fence = bigint_toString (currentFence w + 1);
               expiresAt = now2 + WRITER_LEASE_MS;
               row = \<lparr>wl_client_id = clientId, wl_connection_id = connectionId, wl_expires_at = expiresAt,
                      wl_fence = fence, wl_lease_digest = digest\<rparr>
        in (closeDisplacedWriters connectionId fence (w\<lparr>rw_lease := Some row\<rparr>),
            Inr (Some \<lparr>al_expiresAt = expiresAt, al_fence = fence, al_token = token\<rparr>)))"

section \<open>The live attachment, renewing, releasing\<close>

definition liveAttachment :: "nat \<Rightarrow> SocketAttachment \<Rightarrow> int \<Rightarrow> relay_world \<Rightarrow> SocketAttachment option" where
  "liveAttachment i expected now w =
     (case attachment_of (rw_sockets w) i of
        None \<Rightarrow> None
      | Some a \<Rightarrow>
          if \<not> socket_open (rw_sockets w) i \<or> sa_peer a \<noteq> browser \<or> sa_channel a \<noteq> control \<or>
             sa_role a \<noteq> writer \<or> sa_controlState a \<noteq> Some active \<or>
             sa_clientId a = None \<or> sa_clientId a \<noteq> sa_clientId expected \<or>
             sa_connectionId a \<noteq> sa_connectionId expected \<or> sa_connectionSetId a \<noteq> sa_connectionSetId expected \<or>
             sa_leaseFence a = None \<or> sa_leaseFence a \<noteq> sa_leaseFence expected \<or>
             (case sa_leaseExpiresAt a of None \<Rightarrow> True | Some t \<Rightarrow> t \<le> now) \<or>
             (case sa_clientId a of None \<Rightarrow> True
              | Some c \<Rightarrow> activeBrowserControl (rw_sockets w) c None \<noteq> Some i)
          then None else Some a)"

definition renew_begin :: "nat \<Rightarrow> SocketAttachment \<Rightarrow> string \<Rightarrow> int \<Rightarrow> relay_world \<Rightarrow> SocketAttachment option" where
  "renew_begin i attachment token now w =
     (case liveAttachment i attachment now w of
        None \<Rightarrow> None
      | Some a \<Rightarrow> if 256 < length token then None else Some a)"

text \<open>The row is the holder's: the same client, connection, fence and token digest.\<close>

definition lease_of :: "SocketAttachment \<Rightarrow> string \<Rightarrow> WriterLeaseRow \<Rightarrow> bool" where
  "lease_of a digest l \<longleftrightarrow> Some (wl_client_id l) = sa_clientId a \<and> wl_connection_id l = sa_connectionId a \<and>
     Some (wl_fence l) = sa_leaseFence a \<and> wl_lease_digest l = digest"

text \<open>
  After the digest, with \<open>initial\<close> the attachment found before it: the clock is read for the attachment, the row, the new
  expiry and the guard of the update, in this order.
\<close>

definition renew_finish ::
  "nat \<Rightarrow> SocketAttachment \<Rightarrow> string \<Rightarrow> int \<Rightarrow> int \<Rightarrow> int \<Rightarrow> int \<Rightarrow> relay_world \<Rightarrow>
   relay_world \<times> (WriterError + int option)" where
  "renew_finish i initial digest now1 now2 now3 now4 w =
     (case liveAttachment i initial now1 w of
        None \<Rightarrow> (w, Inr None)
      | Some a \<Rightarrow>
          (case rw_lease w of
             None \<Rightarrow> (w, Inr None)
           | Some l \<Rightarrow>
               if \<not> lease_of a digest l \<or> wl_expires_at l \<le> now2 then (w, Inr None)
               else
                 let expiresAt = now3 + WRITER_LEASE_MS;
                     renewed = (if lease_of a digest l \<and> now4 < wl_expires_at l
                       then l\<lparr>wl_expires_at := expiresAt\<rparr> else l);
                     w1 = w\<lparr>rw_lease := Some renewed\<rparr>
                 in if \<not> lease_of a digest renewed \<or> wl_expires_at renewed \<noteq> expiresAt then (w1, Inr None)
                    else (case writeSocketAttachment i (a\<lparr>sa_leaseExpiresAt := Some expiresAt\<rparr>) (rw_sockets w1) of
                        None \<Rightarrow> (w1, Inl AttachmentInvalid)
                      | Some ws \<Rightarrow> (w1\<lparr>rw_sockets := ws\<rparr>, Inr (Some expiresAt)))))"

definition release :: "string \<Rightarrow> string option \<Rightarrow> string \<Rightarrow> relay_world \<Rightarrow> relay_world" where
  "release clientId fence connectionId w =
     (case fence of None \<Rightarrow> w
      | Some f \<Rightarrow> w\<lparr>rw_lease := map_option (\<lambda>l.
          if wl_client_id l = clientId \<and> wl_connection_id l = connectionId \<and> wl_fence l = f
          then l\<lparr>wl_expires_at := 0\<rparr> else l) (rw_lease w)\<rparr>)"

section \<open>The lease as a fenced machine\<close>

datatype writer_event =
    AcquireFinish string string string string int int
  | RenewFinish nat SocketAttachment string int int int int
  | ReleaseLease string "string option" string
  | SocketsChange relay_sockets

text \<open>The sockets come and go by the rest of the relay: any change of them is an event.\<close>

fun writer_step :: "relay_world \<Rightarrow> writer_event \<Rightarrow> relay_world" where
  "writer_step w (AcquireFinish c k t d n1 n2) = fst (acquire_finish c k t d n1 n2 w)"
| "writer_step w (RenewFinish i a d n1 n2 n3 n4) = fst (renew_finish i a d n1 n2 n3 n4 w)"
| "writer_step w (ReleaseLease c f k) = release c f k w"
| "writer_step w (SocketsChange ws) = w\<lparr>rw_sockets := ws\<rparr>"

text \<open>The fence the event grants, if it grants one.\<close>

fun granted :: "relay_world \<Rightarrow> writer_event \<Rightarrow> int list" where
  "granted w (AcquireFinish c k t d n1 n2) =
     (case snd (acquire_finish c k t d n1 n2 w) of Inr (Some l) \<Rightarrow> [bigint_of (al_fence l)] | _ \<Rightarrow> [])"
| "granted w _ = []"

fun grants :: "relay_world \<Rightarrow> writer_event list \<Rightarrow> int list" where
  "grants w [] = []"
| "grants w (e # es) = granted w e @ grants (writer_step w e) es"

definition lease_ok_row :: "relay_world \<Rightarrow> bool" where
  "lease_ok_row w \<longleftrightarrow> (case rw_lease w of None \<Rightarrow> True | Some l \<Rightarrow> DecimalU64Schema (wl_fence l))"

lemma fence_nonneg: "0 \<le> currentFence w"
  by (simp add: currentFence_def bigint_of_def)

lemma currentFence_Some: "rw_lease w = Some l \<Longrightarrow> currentFence w = bigint_of (wl_fence l)"
  by (simp add: currentFence_def)

lemma acquire_finish_cases:
  obtains (busy) l where "rw_lease w = Some l" "now1 < wl_expires_at l"
      "acquire_finish c k t d now1 now2 w = (w, Inr None)"
    | (exhausted) "MAX_U64 \<le> currentFence w" "acquire_finish c k t d now1 now2 w = (w, Inl FenceExhausted)"
    | (granted) w' row where "currentFence w < MAX_U64"
      "\<forall>l. rw_lease w = Some l \<longrightarrow> wl_expires_at l \<le> now1"
      "row = \<lparr>wl_client_id = c, wl_connection_id = k, wl_expires_at = now2 + WRITER_LEASE_MS,
        wl_fence = bigint_toString (currentFence w + 1), wl_lease_digest = d\<rparr>"
      "w' = closeDisplacedWriters k (wl_fence row) (w\<lparr>rw_lease := Some row\<rparr>)"
      "acquire_finish c k t d now1 now2 w = (w', Inr (Some \<lparr>al_expiresAt = now2 + WRITER_LEASE_MS,
        al_fence = wl_fence row, al_token = t\<rparr>))"
proof (cases "case rw_lease w of None \<Rightarrow> False | Some l \<Rightarrow> now1 < wl_expires_at l")
  case True
  then obtain l where "rw_lease w = Some l" "now1 < wl_expires_at l" by (auto split: option.splits)
  with True busy show ?thesis by (simp add: acquire_finish_def)
next
  case False
  show ?thesis
  proof (cases "MAX_U64 \<le> currentFence w")
    case True
    with False exhausted show ?thesis by (simp add: acquire_finish_def)
  next
    case le: False
    with False have "\<forall>l. rw_lease w = Some l \<longrightarrow> wl_expires_at l \<le> now1" by (auto split: option.splits)
    with False le granted show ?thesis by (simp add: acquire_finish_def Let_def)
  qed
qed

lemma next_fence: "currentFence w < MAX_U64 \<Longrightarrow>
  bigint_of (bigint_toString (currentFence w + 1)) = currentFence w + 1 \<and>
  DecimalU64Schema (bigint_toString (currentFence w + 1))"
  using fence_nonneg [of w] by (simp add: bigint_of_toString toString_in_schema is_u64_def)

lemma writer_step_fence:
  assumes "lease_ok_row w"
  shows "lease_ok_row (writer_step w e) \<and>
    (granted w e = [] \<and> currentFence (writer_step w e) = currentFence w \<or>
     granted w e = [currentFence w + 1] \<and> currentFence (writer_step w e) = currentFence w + 1)"
proof (cases e)
  case (AcquireFinish c k t d n1 n2)
  show ?thesis
  proof (rule acquire_finish_cases [of w n1 c k t d n2])
    fix w' row
    assume g: "currentFence w < MAX_U64" "row = \<lparr>wl_client_id = c, wl_connection_id = k, wl_expires_at = n2 + WRITER_LEASE_MS,
        wl_fence = bigint_toString (currentFence w + 1), wl_lease_digest = d\<rparr>"
      "w' = closeDisplacedWriters k (wl_fence row) (w\<lparr>rw_lease := Some row\<rparr>)"
      "acquire_finish c k t d n1 n2 w = (w', Inr (Some \<lparr>al_expiresAt = n2 + WRITER_LEASE_MS,
        al_fence = wl_fence row, al_token = t\<rparr>))"
    then show ?thesis
      using AcquireFinish next_fence [OF g(1)]
      by (simp add: lease_ok_row_def closeDisplacedWriters_def currentFence_Some)
  qed (use assms AcquireFinish in simp_all)
next
  case (RenewFinish i a d n1 n2 n3 n4)
  have "rw_lease (fst (renew_finish i a d n1 n2 n3 n4 w)) = rw_lease w \<or>
    (\<exists>l t. rw_lease w = Some l \<and> rw_lease (fst (renew_finish i a d n1 n2 n3 n4 w)) = Some (l\<lparr>wl_expires_at := t\<rparr>))"
    by (auto simp: renew_finish_def Let_def split: option.splits)
  with assms RenewFinish show ?thesis
    by (auto simp: lease_ok_row_def currentFence_def)
next
  case (ReleaseLease c f k)
  with assms show ?thesis
    by (auto simp: release_def lease_ok_row_def currentFence_def split: option.splits)
next
  case (SocketsChange ws)
  with assms show ?thesis by (simp add: lease_ok_row_def currentFence_def)
qed

interpretation writer_lease: fenced_machine writer_step lease_ok_row currentFence
proof unfold_locales
  fix w e assume "lease_ok_row w"
  from writer_step_fence [OF this, of e]
  show "lease_ok_row (writer_step w e)" "currentFence w \<le> currentFence (writer_step w e)" by auto
qed

lemma grant_bound: "granted w e = [f] \<Longrightarrow> f \<le> MAX_U64"
proof (cases e)
  case (AcquireFinish c k t d n1 n2)
  assume g: "granted w e = [f]"
  show ?thesis
    by (rule acquire_finish_cases [of w n1 c k t d n2])
      (use g AcquireFinish next_fence [of w] in auto)
qed simp_all

text \<open>
  C26. Writer fences are never reused: over any history of acquisitions, renewals, releases and socket changes the
  fences granted are the consecutive numbers after the one in the row, none above the u64 maximum; so
  of two leases the later always has the greater fence, whatever expired or was released in between.
\<close>

theorem writer_fences_consecutive:
  assumes "lease_ok_row w"
  shows "grants w es = map (\<lambda>i. currentFence w + 1 + int i) [0..<length (grants w es)] \<and>
    currentFence (foldl writer_step w es) = currentFence w + int (length (grants w es)) \<and>
    list_all (\<lambda>f. f \<le> MAX_U64) (grants w es)"
  using assms
proof (induction es arbitrary: w)
  case Nil
  then show ?case by simp
next
  case (Cons e es)
  let ?w = "writer_step w e"
  have st: "lease_ok_row ?w" and
    d: "granted w e = [] \<and> currentFence ?w = currentFence w \<or>
      granted w e = [currentFence w + 1] \<and> currentFence ?w = currentFence w + 1"
    using writer_step_fence [OF Cons.prems, of e] by auto
  from d show ?case
  proof
    assume "granted w e = [] \<and> currentFence ?w = currentFence w"
    with Cons.IH [OF st] show ?thesis by simp
  next
    assume g: "granted w e = [currentFence w + 1] \<and> currentFence ?w = currentFence w + 1"
    have sh: "map (\<lambda>i. currentFence w + 1 + int i) [0..<Suc n] =
        (currentFence w + 1) # map (\<lambda>i. currentFence w + 1 + 1 + int i) [0..<n]" for n
      by (simp add: upt_rec [of 0 "Suc n"] map_Suc_upt [symmetric] del: upt_Suc)
    from g Cons.IH [OF st] grant_bound [of w e "currentFence w + 1"] show ?thesis
      by (simp del: upt_Suc add: sh)
  qed
qed


text \<open>
  Only the holder renews: when a renewal succeeds, the socket's attachment was live, the row was that client's,
  connection's and fence's with the digest of the presented token and had not expired; nothing but its expiry
  changes, and the new expiry is the one returned.
\<close>

theorem renew_only_by_holder:
  assumes "renew_finish i initial digest now1 now2 now3 now4 w = (w', Inr (Some t))"
  shows "\<exists>a l. liveAttachment i initial now1 w = Some a \<and> rw_lease w = Some l \<and>
    Some (wl_client_id l) = sa_clientId a \<and> wl_connection_id l = sa_connectionId a \<and>
    Some (wl_fence l) = sa_leaseFence a \<and> wl_lease_digest l = digest \<and> now2 < wl_expires_at l \<and>
    t = now3 + WRITER_LEASE_MS \<and> rw_lease w' = Some (l\<lparr>wl_expires_at := t\<rparr>)"
  using assms
  by (auto simp: renew_finish_def Let_def lease_of_def split: option.splits if_splits)

section \<open>A renewal\<close>

definition demo_world :: relay_world where
  "demo_world = \<lparr>rw_lease = Some \<lparr>wl_client_id = ''client-0000000000'', wl_connection_id = ''conn-000000000000'',
     wl_expires_at = 50000, wl_fence = ''4'', wl_lease_digest = ''d''\<rparr>, rw_sockets = demo_sockets\<rparr>"

lemma demo_renews: "\<exists>w'. renew_finish 0 (demo_attachment control) ''d'' 30000 30001 30002 30003 demo_world =
    (w', Inr (Some 60002))"
proof -
  have "snd (renew_finish 0 (demo_attachment control) ''d'' 30000 30001 30002 30003 demo_world) = Inr (Some 60002)"
    by code_simp
  then show ?thesis by (metis prod.collapse)
qed

theorem renew_only_by_holder_witness:
  "\<exists>l. rw_lease demo_world = Some l \<and> wl_lease_digest l = ''d''"
proof -
  from demo_renews obtain w' where
    r: "renew_finish 0 (demo_attachment control) ''d'' 30000 30001 30002 30003 demo_world = (w', Inr (Some 60002))" by blast
  show ?thesis using renew_only_by_holder [OF r] by blast
qed

lemma demo_acquires: "\<exists>w' l. acquire_finish ''client-1111111111'' ''conn-111111111111'' ''t'' ''e'' 50000 50001 demo_world =
    (w', Inr (Some l)) \<and> al_fence l = ''5'' \<and> \<not> socket_open (rw_sockets w') 0"
proof -
  let ?r = "acquire_finish ''client-1111111111'' ''conn-111111111111'' ''t'' ''e'' 50000 50001 demo_world"
  have "snd ?r = Inr (Some \<lparr>al_expiresAt = 80001, al_fence = ''5'', al_token = ''t''\<rparr>) \<and>
    \<not> socket_open (rw_sockets (fst ?r)) 0" by code_simp
  then show ?thesis by (intro exI [of _ "fst ?r"] exI) (auto intro: prod_eqI)
qed


theorem writer_fences_consecutive_witness:
  "grants demo_world [AcquireFinish ''a'' ''b'' ''t'' ''d'' 50000 50000, ReleaseLease ''a'' (Some ''5'') ''b'',
     AcquireFinish ''c'' ''e'' ''t'' ''d'' 50000 50000] = [5, 6]"
proof -
  let ?es = "[AcquireFinish ''a'' ''b'' ''t'' ''d'' 50000 50000, ReleaseLease ''a'' (Some ''5'') ''b'',
     AcquireFinish ''c'' ''e'' ''t'' ''d'' 50000 50000]"
  have ok: "lease_ok_row demo_world" by code_simp
  have "length (grants demo_world ?es) = 2 \<and> currentFence demo_world = 4" by code_simp
  then have n: "length (grants demo_world ?es) = 2" "currentFence demo_world = 4" by auto
  have "grants demo_world ?es = map (\<lambda>i. currentFence demo_world + 1 + int i) [0..<length (grants demo_world ?es)]"
    using writer_fences_consecutive [OF ok] by blast
  then show ?thesis unfolding n by (simp add: upt_rec)
qed

end
