(* ===== verification/Relay_Queue.thy ===== *)
theory Relay_Queue
  imports Prelude Complex_Main
begin

text \<open>
  \<open>apps/terminal-cloud/src/worker/relay-message-queue.ts\<close>: the relay's two bounded work queues. Keys are
  references (sockets), a task is an object with an identity; what running or expiring a task does
  (return, throw, or hand out a promise) and the readings of the clock are parameters. A promise that
  settles and a deadline that fires are events. Tasks do not re-enter the queue. Shares are compared
  as rationals where the code divides doubles.
\<close>

section \<open>Limits and usage\<close>

record SocketQueueLimits =
  sl_socketBytes :: int
  sl_socketCount :: int

record QueueLimits =
  ql_globalBytes :: int
  ql_globalCount :: int
  ql_socketBytes :: int
  ql_socketCount :: int

record KeyedQueueLimits = QueueLimits +
  ql_maxAgeMs :: int
  ql_maxConcurrency :: int

record QueueUsage =
  us_bytes :: int
  us_count :: int

definition RELAY_MESSAGE_QUEUE_LIMITS :: QueueLimits where
  "RELAY_MESSAGE_QUEUE_LIMITS = \<lparr>ql_globalBytes = 32 * 1024 * 1024, ql_globalCount = 2048,
     ql_socketBytes = 16 * 1024 * 1024, ql_socketCount = 8\<rparr>"

definition browserControlProfile :: SocketQueueLimits where
  "browserControlProfile = \<lparr>sl_socketBytes = 16 * 1024 * 1024, sl_socketCount = 64\<rparr>"

definition hostControlProfile :: SocketQueueLimits where
  "hostControlProfile = \<lparr>sl_socketBytes = 1024 * 1024, sl_socketCount = 64\<rparr>"

definition hostDataProfile :: SocketQueueLimits where
  "hostDataProfile = \<lparr>sl_socketBytes = 16 * 1024 * 1024, sl_socketCount = 1024\<rparr>"

definition BROWSER_CONTROL_LANE_LIMITS :: KeyedQueueLimits where
  "BROWSER_CONTROL_LANE_LIMITS = \<lparr>ql_globalBytes = 32 * 1024 * 1024, ql_globalCount = 512,
     ql_socketBytes = 16 * 1024 * 1024, ql_socketCount = 64, ql_maxAgeMs = 250, ql_maxConcurrency = 4\<rparr>"

definition isSafeInteger :: "int \<Rightarrow> bool" where
  "isSafeInteger n \<longleftrightarrow> - 9007199254740991 \<le> n \<and> n \<le> 9007199254740991"

definition usage_of :: "(nat, QueueUsage) jsmap \<Rightarrow> nat \<Rightarrow> QueueUsage" where
  "usage_of m k = (case jm_get m k of None \<Rightarrow> \<lparr>us_bytes = 0, us_count = 0\<rparr> | Some u \<Rightarrow> u)"

definition use_more :: "int \<Rightarrow> QueueUsage \<Rightarrow> QueueUsage" where
  "use_more b u = \<lparr>us_bytes = us_bytes u + b, us_count = us_count u + 1\<rparr>"

definition use_less :: "int \<Rightarrow> QueueUsage \<Rightarrow> QueueUsage" where
  "use_less b u = \<lparr>us_bytes = us_bytes u - b, us_count = us_count u - 1\<rparr>"

section \<open>The serial queue\<close>

record QueueReservation =
  rv_bytes :: int
  rv_key :: nat

text \<open>The promise chain is the list of reservations still held, the running task's first.\<close>

record serial_queue =
  sq_limits :: QueueLimits
  sq_socketUsage :: "(nat, QueueUsage) jsmap"
  sq_globalUsage :: QueueUsage
  sq_tail :: "QueueReservation list"

definition newSerialQueue :: "QueueLimits \<Rightarrow> serial_queue" where
  "newSerialQueue l = \<lparr>sq_limits = l, sq_socketUsage = [], sq_globalUsage = \<lparr>us_bytes = 0, us_count = 0\<rparr>, sq_tail = []\<rparr>"

definition serial_reserve ::
  "nat \<Rightarrow> int \<Rightarrow> SocketQueueLimits \<Rightarrow> serial_queue \<Rightarrow> (serial_queue \<times> QueueReservation) option" where
  "serial_reserve key b l s =
     (if \<not> isSafeInteger b \<or> b < 0 then None
      else let socket = usage_of (sq_socketUsage s) key; glob = sq_globalUsage s in
        if ql_globalCount (sq_limits s) < us_count glob + 1 \<or> ql_globalBytes (sq_limits s) < us_bytes glob + b \<or>
           sl_socketCount l < us_count socket + 1 \<or> sl_socketBytes l < us_bytes socket + b
        then None
        else Some (s\<lparr>sq_globalUsage := use_more b glob,
            sq_socketUsage := jm_set key (use_more b socket) (sq_socketUsage s)\<rparr>, \<lparr>rv_bytes = b, rv_key = key\<rparr>))"

text \<open>\<open>None\<close> is the thrown \<open>queue reservation is missing\<close>.\<close>

definition serial_release :: "QueueReservation \<Rightarrow> serial_queue \<Rightarrow> serial_queue option" where
  "serial_release r s =
     (case jm_get (sq_socketUsage s) (rv_key r) of
        None \<Rightarrow> None
      | Some socket \<Rightarrow>
          let nxt = use_less (rv_bytes r) socket
          in Some (s\<lparr>sq_globalUsage := use_less (rv_bytes r) (sq_globalUsage s),
               sq_socketUsage := (if us_count nxt = 0 then jm_delete (rv_key r) (sq_socketUsage s)
                 else jm_set (rv_key r) nxt (sq_socketUsage s))\<rparr>))"

definition serial_enqueue ::
  "nat \<Rightarrow> int \<Rightarrow> SocketQueueLimits \<Rightarrow> serial_queue \<Rightarrow> serial_queue \<times> bool" where
  "serial_enqueue key b l s =
     (case serial_reserve key b l s of
        None \<Rightarrow> (s, False)
      | Some (s', r) \<Rightarrow> (s'\<lparr>sq_tail := sq_tail s' @ [r]\<rparr>, True))"

text \<open>The running task settles: its reservation is released and the next task starts.\<close>

definition serial_settle :: "serial_queue \<Rightarrow> serial_queue option" where
  "serial_settle s =
     (case sq_tail s of [] \<Rightarrow> Some s | r # rs \<Rightarrow> serial_release r (s\<lparr>sq_tail := rs\<rparr>))"

section \<open>The keyed queue: state\<close>

datatype EntryState = entry_active | entry_queued | entry_settled
datatype QueueExpirationReason = age | global_overload

record QueueTaskTiming =
  tm_enqueuedAtMs :: int
  tm_startedAtMs :: int
  tm_waitMs :: int

datatype TaskOutcome = Returns | Throws | Promises

record queue_env =
  qe_now :: "nat \<Rightarrow> int"
  qe_run :: "nat \<Rightarrow> QueueTaskTiming \<Rightarrow> TaskOutcome"
  qe_expire :: "nat \<Rightarrow> QueueTaskTiming \<Rightarrow> QueueExpirationReason \<Rightarrow> TaskOutcome"

record KeyedQueueEntry =
  ke_id :: nat
  ke_key :: nat
  ke_bytes :: int
  ke_enqueuedAtMs :: int
  ke_startedAtMs :: "int option"
  ke_state :: EntryState

datatype QueueEffect =
    Started nat nat QueueTaskTiming
  | Resolved nat
  | Rejected nat
  | Expired nat QueueTaskTiming QueueExpirationReason TaskOutcome

record keyed_queue =
  kq_limits :: KeyedQueueLimits
  kq_socketUsage :: "(nat, QueueUsage) jsmap"
  kq_pending :: "(nat, KeyedQueueEntry list) jsmap"
  kq_activeKeys :: "nat list"
  kq_readyKeys :: "nat list"
  kq_readyOrder :: "nat list"
  kq_activeCount :: int
  kq_globalUsage :: QueueUsage
  kq_ticks :: nat
  kq_nextId :: nat
  kq_trace :: "QueueEffect list"

text \<open>The constructor refuses a concurrency below one or a negative age.\<close>

definition newKeyedQueue :: "KeyedQueueLimits \<Rightarrow> keyed_queue option" where
  "newKeyedQueue l =
     (if \<not> isSafeInteger (ql_maxConcurrency l) \<or> ql_maxConcurrency l < 1 \<or> ql_maxAgeMs l < 0 then None
      else Some \<lparr>kq_limits = l, kq_socketUsage = [], kq_pending = [], kq_activeKeys = [], kq_readyKeys = [],
        kq_readyOrder = [], kq_activeCount = 0, kq_globalUsage = \<lparr>us_bytes = 0, us_count = 0\<rparr>,
        kq_ticks = 0, kq_nextId = 0, kq_trace = []\<rparr>)"

definition read_clock :: "queue_env \<Rightarrow> keyed_queue \<Rightarrow> int \<times> keyed_queue" where
  "read_clock env s = (qe_now env (kq_ticks s), s\<lparr>kq_ticks := Suc (kq_ticks s)\<rparr>)"

definition log_effect :: "QueueEffect \<Rightarrow> keyed_queue \<Rightarrow> keyed_queue" where
  "log_effect e s = s\<lparr>kq_trace := kq_trace s @ [e]\<rparr>"

definition markReady :: "nat \<Rightarrow> keyed_queue \<Rightarrow> keyed_queue" where
  "markReady k s =
     (if k \<in> set (kq_activeKeys s) \<or> k \<in> set (kq_readyKeys s) then s
      else s\<lparr>kq_readyKeys := kq_readyKeys s @ [k], kq_readyOrder := kq_readyOrder s @ [k]\<rparr>)"

section \<open>Settling one entry\<close>

text \<open>In the operations below \<open>None\<close> is a thrown consistency error, or a loop that does not end.\<close>

definition releaseReservation :: "KeyedQueueEntry \<Rightarrow> keyed_queue \<Rightarrow> keyed_queue option" where
  "releaseReservation e s =
     (case jm_get (kq_socketUsage s) (ke_key e) of
        None \<Rightarrow> None
      | Some socket \<Rightarrow>
          let nxt = use_less (ke_bytes e) socket
          in Some (s\<lparr>kq_globalUsage := use_less (ke_bytes e) (kq_globalUsage s),
               kq_socketUsage := (if us_count nxt = 0 then jm_delete (ke_key e) (kq_socketUsage s)
                 else jm_set (ke_key e) nxt (kq_socketUsage s))\<rparr>))"

text \<open>\<open>#finish\<close> up to its call of \<open>#pump\<close>.\<close>

definition finish_entry :: "KeyedQueueEntry \<Rightarrow> keyed_queue \<Rightarrow> keyed_queue option" where
  "finish_entry e s =
     (case jm_get (kq_pending s) (ke_key e) of
        Some (h # rest) \<Rightarrow>
          if ke_id h \<noteq> ke_id e then None
          else Option.bind
            (releaseReservation e (s\<lparr>kq_pending := (if rest = [] then jm_delete (ke_key e) (kq_pending s)
               else jm_set (ke_key e) rest (kq_pending s))\<rparr>))
            (\<lambda>s1. let s2 = s1\<lparr>kq_activeKeys := removeAll (ke_key e) (kq_activeKeys s1),
                     kq_activeCount := kq_activeCount s1 - 1\<rparr>
              in Some (if rest \<noteq> [] then markReady (ke_key e) s2 else s2))
      | _ \<Rightarrow> None)"

definition timing_of :: "KeyedQueueEntry \<Rightarrow> int \<Rightarrow> QueueTaskTiming" where
  "timing_of e startedAt = \<lparr>tm_enqueuedAtMs = ke_enqueuedAtMs e, tm_startedAtMs = startedAt,
     tm_waitMs = max 0 (startedAt - ke_enqueuedAtMs e)\<rparr>"

fun expire_entries ::
  "queue_env \<Rightarrow> int \<Rightarrow> QueueExpirationReason \<Rightarrow> KeyedQueueEntry list \<Rightarrow> keyed_queue \<Rightarrow> keyed_queue option" where
  "expire_entries env expiredAt reason [] s = Some s"
| "expire_entries env expiredAt reason (e # es) s =
     (if ke_state e = entry_settled then expire_entries env expiredAt reason es s
      else Option.bind (releaseReservation e s) (\<lambda>s1.
        let t = timing_of e (case ke_startedAtMs e of None \<Rightarrow> expiredAt | Some x \<Rightarrow> x)
        in expire_entries env expiredAt reason es
             (log_effect (Expired (ke_id e) t reason (qe_expire env (ke_id e) t reason)) s1)))"

text \<open>\<open>#expireKey\<close> up to its call of \<open>#pump\<close>; the flag says whether it gets there.\<close>

definition expire_core ::
  "queue_env \<Rightarrow> nat \<Rightarrow> QueueExpirationReason \<Rightarrow> nat option \<Rightarrow> keyed_queue \<Rightarrow> (keyed_queue \<times> bool) option" where
  "expire_core env k reason trigger s =
     (case jm_get (kq_pending s) k of
        None \<Rightarrow> Some (s, False)
      | Some es \<Rightarrow>
          if (case trigger of None \<Rightarrow> False | Some i \<Rightarrow> i \<notin> set (map ke_id es)) then Some (s, False)
          else
            let s1 = s\<lparr>kq_pending := jm_delete k (kq_pending s), kq_readyKeys := removeAll k (kq_readyKeys s),
                   kq_readyOrder := removeAll k (kq_readyOrder s),
                   kq_activeCount := (if k \<in> set (kq_activeKeys s) then kq_activeCount s - 1 else kq_activeCount s),
                   kq_activeKeys := removeAll k (kq_activeKeys s)\<rparr>;
                (now, s2) = read_clock env s1
            in map_option (\<lambda>s3. (s3, True)) (expire_entries env now reason es s2))"

text \<open>\<open>#run\<close>: the flag says whether a \<open>#pump\<close> follows.\<close>

definition run_entry :: "queue_env \<Rightarrow> KeyedQueueEntry \<Rightarrow> keyed_queue \<Rightarrow> (keyed_queue \<times> bool) option" where
  "run_entry env e s =
     (let (now, s1) = read_clock env s;
          e1 = e\<lparr>ke_startedAtMs := Some now\<rparr>;
          s2 = s1\<lparr>kq_pending := jm_set (ke_key e)
                 (case jm_get (kq_pending s1) (ke_key e) of Some (h # rest) \<Rightarrow> e1 # rest | _ \<Rightarrow> [e1]) (kq_pending s1)\<rparr>;
          t = timing_of e now
      in if ql_maxAgeMs (kq_limits s) \<le> tm_waitMs t then expire_core env (ke_key e) age (Some (ke_id e)) s2
         else let s3 = log_effect (Started (ke_id e) (ke_key e) t) s2 in
           (case qe_run env (ke_id e) t of
              Returns \<Rightarrow> map_option (\<lambda>s4. (s4, True)) (finish_entry e1 (log_effect (Resolved (ke_id e)) s3))
            | Throws \<Rightarrow> map_option (\<lambda>s4. (s4, True)) (finish_entry e1 (log_effect (Rejected (ke_id e)) s3))
            | Promises \<Rightarrow> Some (s3, False)))"

section \<open>Pumping, expiring, making room\<close>

text \<open>What the loop of \<open>#pump\<close> does with the key it takes, before \<open>#run\<close>.\<close>

definition take_ready :: "nat \<Rightarrow> nat list \<Rightarrow> keyed_queue \<Rightarrow> keyed_queue" where
  "take_ready k rest s = s\<lparr>kq_readyOrder := rest, kq_readyKeys := removeAll k (kq_readyKeys s)\<rparr>"

definition activate :: "KeyedQueueEntry \<Rightarrow> KeyedQueueEntry list \<Rightarrow> keyed_queue \<Rightarrow> keyed_queue" where
  "activate e es s = s\<lparr>kq_activeKeys := kq_activeKeys s @ [ke_key e], kq_activeCount := kq_activeCount s + 1,
     kq_pending := jm_set (ke_key e) (e\<lparr>ke_state := entry_active\<rparr> # es) (kq_pending s)\<rparr>"

partial_function (option) pump :: "queue_env \<Rightarrow> keyed_queue \<Rightarrow> keyed_queue option" where
  "pump env s =
     (if ql_maxConcurrency (kq_limits s) \<le> kq_activeCount s then Some s
      else case kq_readyOrder s of
        [] \<Rightarrow> Some s
      | k # rest \<Rightarrow>
          (case jm_get (kq_pending s) k of
             None \<Rightarrow> pump env (take_ready k rest s)
           | Some [] \<Rightarrow> pump env (take_ready k rest s)
           | Some (e # es) \<Rightarrow>
               if k \<in> set (kq_activeKeys s) then pump env (take_ready k rest s)
               else (case run_entry env (e\<lparr>ke_state := entry_active\<rparr>) (activate e es (take_ready k rest s)) of
                   None \<Rightarrow> None
                 | Some p \<Rightarrow> Option.bind (if snd p then pump env (fst p) else Some (fst p)) (pump env))))"

declare pump.simps [code]

definition expireKey ::
  "queue_env \<Rightarrow> nat \<Rightarrow> QueueExpirationReason \<Rightarrow> nat option \<Rightarrow> keyed_queue \<Rightarrow> keyed_queue option" where
  "expireKey env k reason trigger s =
     Option.bind (expire_core env k reason trigger s) (\<lambda>(s1, again). if again then pump env s1 else Some s1)"

text \<open>A share is a rational, or infinite (\<open>None\<close>) when something is used of a limit of zero.\<close>

type_synonym share = "rat option"

definition share_of :: "int \<Rightarrow> int \<Rightarrow> share" where
  "share_of n limit = (if limit = 0 then (if n = 0 then Some 0 else None) else Some (of_int n / of_int limit))"

definition share_less :: "share \<Rightarrow> share \<Rightarrow> bool" where
  "share_less a b \<longleftrightarrow> (case a of None \<Rightarrow> False | Some x \<Rightarrow> (case b of None \<Rightarrow> True | Some y \<Rightarrow> x < y))"

definition usageScore :: "KeyedQueueLimits \<Rightarrow> QueueUsage \<Rightarrow> share" where
  "usageScore l u =
     (let b = share_of (us_bytes u) (ql_globalBytes l); c = share_of (us_count u) (ql_globalCount l)
      in if share_less b c then c else b)"

fun largest_loop ::
  "KeyedQueueLimits \<Rightarrow> nat \<Rightarrow> (nat, QueueUsage) jsmap \<Rightarrow> nat option \<Rightarrow> share \<Rightarrow> nat option" where
  "largest_loop l key [] largest largestScore = largest"
| "largest_loop l key ((k, u) # m) largest largestScore =
     (if k \<noteq> key \<and> share_less largestScore (usageScore l u) then largest_loop l key m (Some k) (usageScore l u)
      else largest_loop l key m largest largestScore)"

definition largest_key :: "nat \<Rightarrow> keyed_queue \<Rightarrow> nat option" where
  "largest_key key s = largest_loop (kq_limits s) key (kq_socketUsage s) None
     (usageScore (kq_limits s) (usage_of (kq_socketUsage s) key))"

definition no_room :: "int \<Rightarrow> keyed_queue \<Rightarrow> bool" where
  "no_room b s \<longleftrightarrow> ql_globalCount (kq_limits s) < us_count (kq_globalUsage s) + 1 \<or>
     ql_globalBytes (kq_limits s) < us_bytes (kq_globalUsage s) + b"

partial_function (option) makeGlobalRoom ::
  "queue_env \<Rightarrow> nat \<Rightarrow> int \<Rightarrow> keyed_queue \<Rightarrow> (keyed_queue \<times> bool) option" where
  "makeGlobalRoom env key b s =
     (if \<not> no_room b s then Some (s, True)
      else case largest_key key s of
        None \<Rightarrow> Some (s, False)
      | Some k \<Rightarrow> Option.bind (expireKey env k global_overload None s) (makeGlobalRoom env key b))"

declare makeGlobalRoom.simps [code]

section \<open>The operations\<close>

definition keyed_reserve ::
  "queue_env \<Rightarrow> nat \<Rightarrow> int \<Rightarrow> SocketQueueLimits \<Rightarrow> keyed_queue \<Rightarrow> (keyed_queue \<times> bool) option" where
  "keyed_reserve env key b l s =
     (if \<not> isSafeInteger b \<or> b < 0 then Some (s, False)
      else let socket = usage_of (kq_socketUsage s) key in
        if sl_socketCount l < us_count socket + 1 \<or> sl_socketBytes l < us_bytes socket + b then Some (s, False)
        else map_option (\<lambda>(s1, room).
            if \<not> room then (s1, False)
            else (s1\<lparr>kq_globalUsage := use_more b (kq_globalUsage s1),
                kq_socketUsage := jm_set key (use_more b (usage_of (kq_socketUsage s1) key)) (kq_socketUsage s1)\<rparr>, True))
          (makeGlobalRoom env key b s))"

definition push_entry_keyed :: "nat \<Rightarrow> int \<Rightarrow> int \<Rightarrow> keyed_queue \<Rightarrow> keyed_queue" where
  "push_entry_keyed key b now s =
     (let e = \<lparr>ke_id = kq_nextId s, ke_key = key, ke_bytes = b, ke_enqueuedAtMs = now,
                ke_startedAtMs = None, ke_state = entry_queued\<rparr>;
          s1 = s\<lparr>kq_nextId := Suc (kq_nextId s)\<rparr>
      in markReady key (s1\<lparr>kq_pending :=
           (case jm_get (kq_pending s1) key of
              None \<Rightarrow> jm_set key [e] (kq_pending s1)
            | Some es \<Rightarrow> jm_set key (es @ [e]) (kq_pending s1))\<rparr>))"

definition keyed_enqueue ::
  "queue_env \<Rightarrow> nat \<Rightarrow> int \<Rightarrow> SocketQueueLimits \<Rightarrow> keyed_queue \<Rightarrow> (keyed_queue \<times> bool) option" where
  "keyed_enqueue env key b l s =
     Option.bind (keyed_reserve env key b l s) (\<lambda>(s1, ok).
       if \<not> ok then Some (s1, False)
       else case read_clock env s1 of (now, s2) \<Rightarrow>
         map_option (\<lambda>s3. (s3, True)) (pump env (push_entry_keyed key b now s2)))"

definition find_entry :: "nat \<Rightarrow> keyed_queue \<Rightarrow> KeyedQueueEntry option" where
  "find_entry i s = List.find (\<lambda>e. ke_id e = i) (concat (map snd (kq_pending s)))"

text \<open>A deadline fires only while it is armed, that is while its entry is pending.\<close>

definition deadline_fires :: "queue_env \<Rightarrow> nat \<Rightarrow> keyed_queue \<Rightarrow> keyed_queue option" where
  "deadline_fires env i s =
     (case find_entry i s of None \<Rightarrow> Some s | Some e \<Rightarrow> expireKey env (ke_key e) age (Some i) s)"

text \<open>The promise of a task that is running settles; a settled entry ignores it.\<close>

definition promise_settles :: "queue_env \<Rightarrow> nat \<Rightarrow> bool \<Rightarrow> keyed_queue \<Rightarrow> keyed_queue option" where
  "promise_settles env i resolved s =
     (case find_entry i s of
        None \<Rightarrow> Some s
      | Some e \<Rightarrow>
          if ke_state e \<noteq> entry_active then Some s
          else Option.bind
            (finish_entry e (log_effect (if resolved then Resolved i else Rejected i) s)) (pump env))"

datatype queue_event =
    EnqueueTask nat int SocketQueueLimits
  | DeadlineFires nat
  | PromiseSettles nat bool

fun keyed_step :: "queue_env \<Rightarrow> queue_event \<Rightarrow> keyed_queue \<Rightarrow> keyed_queue option" where
  "keyed_step env (EnqueueTask k b l) s = map_option fst (keyed_enqueue env k b l s)"
| "keyed_step env (DeadlineFires i) s = deadline_fires env i s"
| "keyed_step env (PromiseSettles i r) s = promise_settles env i r s"

end
