(* ===== verification/Relay_Queue_Props.thy ===== *)
theory Relay_Queue_Props
  imports Relay_Queue
begin

text \<open>
  The keyed queue's invariant (exact accounting within the global limits, one active head per active
  key, every other waiting key in the rotation, each accepted task pending or settled once), preserved by
  every operation, and that every operation returns.
\<close>

section \<open>Sums over a map\<close>

definition wsum :: "('v \<Rightarrow> int) \<Rightarrow> ('k, 'v) jsmap \<Rightarrow> int" where
  "wsum f m = sum_list (map (\<lambda>p. f (snd p)) m)"

lemma wsum_Nil [simp]: "wsum f [] = 0"
  by (simp add: wsum_def)

lemma wsum_delete: "jm_wf m \<Longrightarrow> wsum f (jm_delete k m) = wsum f m - (case jm_get m k of None \<Rightarrow> 0 | Some v \<Rightarrow> f v)"
proof (induction m)
  case Nil
  then show ?case by (simp add: wsum_def jm_delete_def)
next
  case (Cons p m)
  obtain k' v where p: "p = (k', v)" by (cases p)
  from Cons.prems have wf: "jm_wf m" and no: "k' \<notin> fst ` set m" by (simp_all add: jm_wf_Cons p)
  show ?case
  proof (cases "k' = k")
    case True
    with no have "jm_get m k = None" by (simp add: jm_get_None_iff)
    with Cons.IH [OF wf] True show ?thesis by (simp add: p wsum_def jm_delete_def)
  next
    case False
    with Cons.IH [OF wf] show ?thesis by (simp add: p wsum_def jm_delete_def)
  qed
qed

lemma jm_delete_absent: "k \<notin> fst ` set m \<Longrightarrow> jm_delete k m = m"
  by (induction m) (auto simp: jm_delete_def)

lemma jm_delete_set [simp]: "jm_delete k (jm_set k v m) = jm_delete k m"
  by (induction k v m rule: jm_set.induct) (simp_all add: jm_delete_def)

lemma wsum_set: "jm_wf m \<Longrightarrow> wsum f (jm_set k v m) = wsum f m - (case jm_get m k of None \<Rightarrow> 0 | Some w \<Rightarrow> f w) + f v"
  using wsum_delete [of m f k] wsum_delete [of "jm_set k v m" f k] by (simp add: jsmap_simps)

lemma wsum_nonneg: "\<forall>k v. jm_get m k = Some v \<longrightarrow> 0 \<le> f v \<Longrightarrow> jm_wf m \<Longrightarrow> 0 \<le> wsum f m"
proof (induction m)
  case Nil
  then show ?case by simp
next
  case (Cons p m)
  obtain k v where p: "p = (k, v)" by (cases p)
  from Cons.prems(2) have wf: "jm_wf m" and no: "jm_get m k = None" by (simp_all add: jm_wf_Cons p jm_get_None_iff)
  have "0 \<le> f v" using Cons.prems(1) [rule_format, of k v] by (simp add: p)
  moreover have "\<forall>j w. jm_get m j = Some w \<longrightarrow> 0 \<le> f w"
  proof (intro allI impI)
    fix j w assume j: "jm_get m j = Some w"
    with no have "j \<noteq> k" by auto
    with j have "jm_get (p # m) j = Some w" by (simp add: p)
    with Cons.prems(1) show "0 \<le> f w" by blast
  qed
  ultimately show ?case using Cons.IH wf by (simp add: p wsum_def)
qed

section \<open>The serial queue accounts exactly\<close>

definition reserved_by :: "QueueReservation list \<Rightarrow> nat \<Rightarrow> QueueReservation list" where
  "reserved_by rs k = filter (\<lambda>r. rv_key r = k) rs"

definition reservations_usage :: "QueueReservation list \<Rightarrow> QueueUsage" where
  "reservations_usage rs = \<lparr>us_bytes = sum_list (map rv_bytes rs), us_count = int (length rs)\<rparr>"

definition serial_inv :: "serial_queue \<Rightarrow> bool" where
  "serial_inv s \<longleftrightarrow> (\<forall>r\<in>set (sq_tail s). 0 \<le> rv_bytes r) \<and>
     sq_globalUsage s = reservations_usage (sq_tail s) \<and>
     (\<forall>k. jm_get (sq_socketUsage s) k = (if reserved_by (sq_tail s) k = [] then None
        else Some (reservations_usage (reserved_by (sq_tail s) k)))) \<and>
     int (length (sq_tail s)) \<le> ql_globalCount (sq_limits s) \<and>
     sum_list (map rv_bytes (sq_tail s)) \<le> ql_globalBytes (sq_limits s)"

lemma serial_enqueue_inv:
  assumes "serial_inv s"
  shows "serial_inv (fst (serial_enqueue k b l s))"
proof (cases "serial_reserve k b l s")
  case None
  with assms show ?thesis by (simp add: serial_enqueue_def)
next
  case (Some p)
  let ?u = "usage_of (sq_socketUsage s) k" and ?r = "\<lparr>rv_bytes = b, rv_key = k\<rparr>"
  have b: "0 \<le> b" and room: "us_count (sq_globalUsage s) + 1 \<le> ql_globalCount (sq_limits s)"
    "us_bytes (sq_globalUsage s) + b \<le> ql_globalBytes (sq_limits s)"
    and p: "p = (s\<lparr>sq_globalUsage := use_more b (sq_globalUsage s),
       sq_socketUsage := jm_set k (use_more b ?u) (sq_socketUsage s)\<rparr>, ?r)"
    using Some by (auto simp: serial_reserve_def Let_def split: if_splits)
  have u: "?u = reservations_usage (reserved_by (sq_tail s) k)"
    using assms by (auto simp: usage_of_def serial_inv_def reservations_usage_def)
  have "fst (serial_enqueue k b l s) = (s\<lparr>sq_globalUsage := use_more b (sq_globalUsage s),
       sq_socketUsage := jm_set k (use_more b ?u) (sq_socketUsage s), sq_tail := sq_tail s @ [?r]\<rparr>)"
    using Some p by (simp add: serial_enqueue_def)
  then show ?thesis
    using assms b room u
    by (auto simp: serial_inv_def reservations_usage_def use_more_def reserved_by_def jsmap_simps)
qed

lemma serial_settle_inv:
  assumes "serial_inv s"
  shows "\<exists>s'. serial_settle s = Some s' \<and> serial_inv s' \<and> sq_tail s' = tl (sq_tail s)"
proof (cases "sq_tail s")
  case Nil
  with assms show ?thesis by (simp add: serial_settle_def)
next
  case (Cons r rs)
  have own: "reserved_by (sq_tail s) (rv_key r) = r # reserved_by rs (rv_key r)"
    by (simp add: Cons reserved_by_def)
  then have get: "jm_get (sq_socketUsage s) (rv_key r) = Some (reservations_usage (r # reserved_by rs (rv_key r)))"
    using assms by (simp add: serial_inv_def)
  show ?thesis
    using assms Cons get own
    by (auto simp: serial_settle_def serial_release_def Let_def serial_inv_def reservations_usage_def use_less_def
        jsmap_simps reserved_by_def)
qed

text \<open>A queue in use: a new one after any enqueues and settlements.\<close>

datatype serial_event = SerialEnqueue nat int SocketQueueLimits | SerialSettle

fun serial_step :: "serial_event \<Rightarrow> serial_queue \<Rightarrow> serial_queue option" where
  "serial_step (SerialEnqueue k b l) s = Some (fst (serial_enqueue k b l s))"
| "serial_step SerialSettle s = serial_settle s"

abbreviation serial_run :: "serial_event list \<Rightarrow> serial_queue \<Rightarrow> serial_queue option" where
  "serial_run \<equiv> run_steps serial_step"

text \<open>The promise: a plain list of held reservations, with the sums taken afresh at every decision.\<close>

definition spec_fits :: "QueueLimits \<Rightarrow> nat \<Rightarrow> int \<Rightarrow> SocketQueueLimits \<Rightarrow> QueueReservation list \<Rightarrow> bool" where
  "spec_fits g k b l rs \<longleftrightarrow> isSafeInteger b \<and> 0 \<le> b \<and>
     int (length rs) + 1 \<le> ql_globalCount g \<and> sum_list (map rv_bytes rs) + b \<le> ql_globalBytes g \<and>
     int (length (reserved_by rs k)) + 1 \<le> sl_socketCount l \<and>
     sum_list (map rv_bytes (reserved_by rs k)) + b \<le> sl_socketBytes l"

fun spec_serial :: "QueueLimits \<Rightarrow> QueueReservation list \<Rightarrow> serial_event \<Rightarrow> QueueReservation list" where
  "spec_serial g rs (SerialEnqueue k b l) =
     (if spec_fits g k b l rs then rs @ [\<lparr>rv_bytes = b, rv_key = k\<rparr>] else rs)"
| "spec_serial g rs SerialSettle = tl rs"

lemma serial_enqueue_tail:
  assumes "serial_inv s"
  shows "sq_tail (fst (serial_enqueue k b l s)) = spec_serial (sq_limits s) (sq_tail s) (SerialEnqueue k b l)"
    "sq_limits (fst (serial_enqueue k b l s)) = sq_limits s"
proof -
  have u: "usage_of (sq_socketUsage s) k = reservations_usage (reserved_by (sq_tail s) k)"
    using assms by (auto simp: usage_of_def serial_inv_def reservations_usage_def)
  have g: "sq_globalUsage s = reservations_usage (sq_tail s)" using assms by (simp add: serial_inv_def)
  show "sq_tail (fst (serial_enqueue k b l s)) = spec_serial (sq_limits s) (sq_tail s) (SerialEnqueue k b l)"
    by (auto simp: serial_enqueue_def serial_reserve_def Let_def u g reservations_usage_def spec_fits_def)
  show "sq_limits (fst (serial_enqueue k b l s)) = sq_limits s"
    by (simp add: serial_enqueue_def serial_reserve_def Let_def)
qed

lemma serial_settle_limits: "serial_settle s = Some s' \<Longrightarrow> sq_limits s' = sq_limits s"
  by (auto simp: serial_settle_def serial_release_def Let_def split: list.splits option.splits if_splits)

lemma serial_step_refines:
  assumes "serial_inv s"
  shows "\<exists>s'. serial_step e s = Some s' \<and> serial_inv s' \<and> sq_limits s' = sq_limits s \<and>
    sq_tail s' = spec_serial (sq_limits s) (sq_tail s) e"
proof (cases e)
  case (SerialEnqueue k b l)
  then show ?thesis using serial_enqueue_inv [OF assms] serial_enqueue_tail [OF assms] by simp
next
  case SerialSettle
  then show ?thesis using serial_settle_inv [OF assms] serial_settle_limits [of s] by auto
qed

interpretation serial: refined_machine serial_step serial_inv "\<lambda>s. (sq_limits s, sq_tail s)"
    "\<lambda>(g, rs) e. (g, spec_serial g rs e)"
  by unfold_locales (use serial_step_refines in auto)

lemma foldl_keep_fst: "foldl (\<lambda>(g, rs) e. (g, f g rs e)) (g, rs) es = (g, foldl (f g) rs es)"
  by (induction es arbitrary: rs) simp_all

lemma serial_new_inv: "0 \<le> ql_globalBytes l \<Longrightarrow> 0 \<le> ql_globalCount l \<Longrightarrow> serial_inv (newSerialQueue l)"
  by (simp add: serial_inv_def newSerialQueue_def reservations_usage_def reserved_by_def)

text \<open>
  C30. The relay's serial queue, with its incremental counters, behaves as a plain list of reservations that sums
  them afresh: from a new queue any enqueues and settlements run without the missing-reservation error, admit
  exactly what fits the global and the socket limits, and keep the global usage exact and within the limits.
\<close>

theorem serial_queue_refines:
  assumes "0 \<le> ql_globalBytes l" "0 \<le> ql_globalCount l"
  shows "\<exists>s. serial_run es (newSerialQueue l) = Some s \<and> sq_tail s = foldl (spec_serial l) [] es \<and>
    sq_globalUsage s = reservations_usage (sq_tail s) \<and>
    (\<forall>k. usage_of (sq_socketUsage s) k = reservations_usage (reserved_by (sq_tail s) k)) \<and>
    us_count (sq_globalUsage s) \<le> ql_globalCount l \<and> us_bytes (sq_globalUsage s) \<le> ql_globalBytes l"
proof -
  obtain s where s: "serial_run es (newSerialQueue l) = Some s" "serial_inv s" "sq_limits s = l"
      "sq_tail s = foldl (spec_serial l) [] es"
    using serial.run_refines [OF serial_new_inv [OF assms], of es] by (auto simp: newSerialQueue_def foldl_keep_fst)
  then show ?thesis
    by (intro exI [of _ s]) (auto simp: serial_inv_def usage_of_def reservations_usage_def)
qed

text \<open>The default limits refuse a socket's ninth task and take it again once the first has settled.\<close>

theorem serial_queue_refines_witness:
  "\<exists>s. serial_run (replicate 9 (SerialEnqueue 1 10 \<lparr>sl_socketBytes = 100, sl_socketCount = 8\<rparr>) @
      [SerialSettle, SerialEnqueue 1 30 \<lparr>sl_socketBytes = 100, sl_socketCount = 8\<rparr>])
      (newSerialQueue RELAY_MESSAGE_QUEUE_LIMITS) = Some s \<and>
    map rv_bytes (sq_tail s) = [10, 10, 10, 10, 10, 10, 10, 30] \<and>
    sq_globalUsage s = \<lparr>us_bytes = 100, us_count = 8\<rparr>"
proof -
  let ?es = "replicate 9 (SerialEnqueue 1 10 \<lparr>sl_socketBytes = 100, sl_socketCount = 8\<rparr>) @
      [SerialSettle, SerialEnqueue 1 30 \<lparr>sl_socketBytes = 100, sl_socketCount = 8\<rparr>]"
  let ?rs = "map (\<lambda>b. \<lparr>rv_bytes = b, rv_key = 1\<rparr>) [10, 10, 10, 10, 10, 10, 10, 30]"
  have t: "foldl (spec_serial RELAY_MESSAGE_QUEUE_LIMITS) [] ?es = ?rs"
    by code_simp
  have nonneg: "0 \<le> ql_globalBytes RELAY_MESSAGE_QUEUE_LIMITS" "0 \<le> ql_globalCount RELAY_MESSAGE_QUEUE_LIMITS"
    by (simp_all add: RELAY_MESSAGE_QUEUE_LIMITS_def)
  obtain s where s: "serial_run ?es (newSerialQueue RELAY_MESSAGE_QUEUE_LIMITS) = Some s"
      "sq_tail s = ?rs" "sq_globalUsage s = reservations_usage (sq_tail s)"
    using serial_queue_refines [of RELAY_MESSAGE_QUEUE_LIMITS ?es, OF nonneg] unfolding t by blast
  show ?thesis
    by (rule exI [of _ s], simp only: s) (simp add: reservations_usage_def)
qed

end
