(* ===== verification/Keyed_Queue_Props.thy ===== *)
theory Keyed_Queue_Props
  imports Relay_Queue_Props
begin

text \<open>
  The keyed queue's invariant, preserved by every operation: one active head per active key, every
  other waiting key once in the rotation, usage that is the sum of the tasks still held, and every task ever
  accepted pending or settled exactly once. Each operation is described by what it does to one key's slot;
  \<open>pump\<close> returns because every turn starts a key or settles a task.
\<close>

section \<open>Slots and totals\<close>

definition slot :: "keyed_queue \<Rightarrow> nat \<Rightarrow> KeyedQueueEntry list" where
  "slot s k = (case jm_get (kq_pending s) k of None \<Rightarrow> [] | Some es \<Rightarrow> es)"

definition weight :: "(nat \<Rightarrow> int \<Rightarrow> int) \<Rightarrow> KeyedQueueEntry list \<Rightarrow> int" where
  "weight g es = (\<Sum>e\<leftarrow>es. g (ke_id e) (ke_bytes e))"

definition held :: "(nat \<Rightarrow> int \<Rightarrow> int) \<Rightarrow> keyed_queue \<Rightarrow> int" where
  "held g s = wsum (weight g) (kq_pending s)"

definition set_slot :: "nat \<Rightarrow> KeyedQueueEntry list \<Rightarrow> keyed_queue \<Rightarrow> keyed_queue" where
  "set_slot k es s = s\<lparr>kq_pending := (if es = [] then jm_delete k (kq_pending s) else jm_set k es (kq_pending s))\<rparr>"

named_theorems slot_simps \<open>what an update does to slots and totals\<close>

lemma weight_simps [simp]: "weight g [] = 0" "weight g (e # es) = g (ke_id e) (ke_bytes e) + weight g es"
  "weight g (es @ fs) = weight g es + weight g fs"
  by (simp_all add: weight_def)

lemma weight_count: "weight (\<lambda>_ _. 1) es = int (length es)"
  by (induction es) simp_all

lemma weight_bytes: "weight (\<lambda>_ b. b) es = sum_list (map ke_bytes es)"
  by (induction es) simp_all

lemma weight_id: "weight (\<lambda>j _. of_bool (j = i)) es = int (count_list (map ke_id es) i)"
  by (induction es) auto

lemma slot_set_slot [slot_simps]: "slot (set_slot k es s) j = (if j = k then es else slot s j)"
  by (simp add: slot_def set_slot_def jsmap_simps)

lemma held_set_slot [slot_simps]:
  "jm_wf (kq_pending s) \<Longrightarrow> held g (set_slot k es s) = held g s - weight g (slot s k) + weight g es"
  by (auto simp: held_def set_slot_def slot_def wsum_set wsum_delete split: option.split)

lemma set_slot_fields [simp]:
  "kq_limits (set_slot k es s) = kq_limits s" "kq_socketUsage (set_slot k es s) = kq_socketUsage s"
  "kq_activeKeys (set_slot k es s) = kq_activeKeys s" "kq_readyKeys (set_slot k es s) = kq_readyKeys s"
  "kq_readyOrder (set_slot k es s) = kq_readyOrder s" "kq_activeCount (set_slot k es s) = kq_activeCount s"
  "kq_globalUsage (set_slot k es s) = kq_globalUsage s" "kq_ticks (set_slot k es s) = kq_ticks s"
  "kq_nextId (set_slot k es s) = kq_nextId s" "kq_trace (set_slot k es s) = kq_trace s"
  by (simp_all add: set_slot_def)

text \<open>Updates of the other fields leave the slots alone.\<close>

lemma slot_cong: "kq_pending s' = kq_pending s \<Longrightarrow> slot s' = slot s"
  by (simp add: slot_def fun_eq_iff)

lemma held_cong: "kq_pending s' = kq_pending s \<Longrightarrow> held g s' = held g s"
  by (simp add: held_def)

lemma held_nonneg:
  assumes "jm_wf (kq_pending s)" "\<And>k. 0 \<le> weight g (slot s k)"
  shows "0 \<le> held g s" "weight g (slot s k) \<le> held g s"
proof -
  have n: "\<forall>j v. jm_get (kq_pending s) j = Some v \<longrightarrow> 0 \<le> weight g v"
    using assms(2) by (metis slot_def option.simps(5))
  show "0 \<le> held g s" unfolding held_def by (rule wsum_nonneg) (rule n, rule assms(1))
  have "0 \<le> wsum (weight g) (jm_delete k (kq_pending s))"
    by (rule wsum_nonneg) (use n assms(1) in \<open>auto simp: jsmap_simps\<close>)
  then show "weight g (slot s k) \<le> held g s"
    using assms(1) by (simp add: held_def wsum_delete slot_def split: option.splits)
qed

section \<open>The invariant\<close>

text \<open>The states of a slot: its head is active when its key is, everything else waits.\<close>

definition states_of :: "bool \<Rightarrow> KeyedQueueEntry list \<Rightarrow> bool" where
  "states_of act es \<longleftrightarrow> (case es of [] \<Rightarrow> \<not> act
     | e # rest \<Rightarrow> ke_state e = (if act then entry_active else entry_queued) \<and> (\<forall>x\<in>set rest. ke_state x = entry_queued))"

definition slots_inv :: "keyed_queue \<Rightarrow> bool" where
  "slots_inv s \<longleftrightarrow> jm_wf (kq_pending s) \<and> (\<forall>k. jm_get (kq_pending s) k \<noteq> Some []) \<and>
     (\<forall>k. \<forall>e\<in>set (slot s k). ke_key e = k \<and> 0 \<le> ke_bytes e) \<and>
     (\<forall>k. states_of (k \<in> set (kq_activeKeys s)) (slot s k))"

definition rotation_inv :: "keyed_queue \<Rightarrow> bool" where
  "rotation_inv s \<longleftrightarrow> distinct (kq_activeKeys s) \<and> distinct (kq_readyOrder s) \<and>
     set (kq_readyKeys s) = set (kq_readyOrder s) \<and>
     (\<forall>k. k \<in> set (kq_readyOrder s) \<longleftrightarrow> slot s k \<noteq> [] \<and> k \<notin> set (kq_activeKeys s)) \<and>
     kq_activeCount s = int (length (kq_activeKeys s)) \<and>
     kq_activeCount s \<le> ql_maxConcurrency (kq_limits s)"

definition usage_inv :: "keyed_queue \<Rightarrow> bool" where
  "usage_inv s \<longleftrightarrow>
     (\<forall>k. jm_get (kq_socketUsage s) k = (if slot s k = [] then None
        else Some \<lparr>us_bytes = weight (\<lambda>_ b. b) (slot s k), us_count = weight (\<lambda>_ _. 1) (slot s k)\<rparr>)) \<and>
     kq_globalUsage s = \<lparr>us_bytes = held (\<lambda>_ b. b) s, us_count = held (\<lambda>_ _. 1) s\<rparr> \<and>
     held (\<lambda>_ b. b) s \<le> ql_globalBytes (kq_limits s) \<and>
     held (\<lambda>_ _. 1) s \<le> ql_globalCount (kq_limits s)"

text \<open>The tasks the history settled, and the ones it started for a key, in order.\<close>

fun settled_id :: "QueueEffect \<Rightarrow> nat list" where
  "settled_id (Started i k t) = []"
| "settled_id (Resolved i) = [i]"
| "settled_id (Rejected i) = [i]"
| "settled_id (Expired i t r out) = [i]"

fun started_id :: "nat \<Rightarrow> QueueEffect \<Rightarrow> nat list" where
  "started_id k (Started i j t) = (if j = k then [i] else [])"
| "started_id k _ = []"

definition settled_ids :: "keyed_queue \<Rightarrow> nat list" where
  "settled_ids s = concat (map settled_id (kq_trace s))"

definition started_ids :: "keyed_queue \<Rightarrow> nat \<Rightarrow> nat list" where
  "started_ids s k = concat (map (started_id k) (kq_trace s))"

definition queued_ids :: "KeyedQueueEntry list \<Rightarrow> nat list" where
  "queued_ids es = map ke_id (filter (\<lambda>e. ke_state e = entry_queued) es)"

definition history_inv :: "keyed_queue \<Rightarrow> bool" where
  "history_inv s \<longleftrightarrow>
     (\<forall>i. held (\<lambda>j _. of_bool (j = i)) s + int (count_list (settled_ids s) i) = of_bool (i < kq_nextId s)) \<and>
     (\<forall>k. sorted_wrt (<) (started_ids s k @ queued_ids (slot s k) @ [kq_nextId s]))"

definition keyed_inv :: "keyed_queue \<Rightarrow> bool" where
  "keyed_inv s \<longleftrightarrow> slots_inv s \<and> rotation_inv s \<and> usage_inv s \<and> history_inv s"

definition busy :: "keyed_queue \<Rightarrow> bool" where
  "busy s \<longleftrightarrow> kq_readyOrder s = [] \<or> ql_maxConcurrency (kq_limits s) \<le> kq_activeCount s"

lemma slots_wf: "slots_inv s \<Longrightarrow> jm_wf (kq_pending s)"
  by (simp add: slots_inv_def)

lemma slot_update:
  assumes "kq_pending s' = kq_pending (set_slot k es s)" "slots_inv s"
  shows "slot s' = (slot s)(k := es)" "jm_wf (kq_pending s')" "\<forall>j. jm_get (kq_pending s') j \<noteq> Some []"
    "held g s' = held g s - weight g (slot s k) + weight g es"
proof -
  show "slot s' = (slot s)(k := es)"
    using slot_cong [OF assms(1)] by (simp add: fun_eq_iff slot_simps)
  show "held g s' = held g s - weight g (slot s k) + weight g es"
    using held_cong [OF assms(1)] assms(2) by (simp add: slot_simps slots_wf)
  show "jm_wf (kq_pending s')" "\<forall>j. jm_get (kq_pending s') j \<noteq> Some []"
    using assms by (simp_all add: set_slot_def slots_inv_def jsmap_simps)
qed

lemma slots_set_slot:
  assumes "slots_inv s" "kq_pending s' = kq_pending (set_slot k es s)"
    "\<forall>e\<in>set es. ke_key e = k \<and> 0 \<le> ke_bytes e" "states_of (k \<in> set (kq_activeKeys s')) es"
    "\<forall>j. j \<noteq> k \<longrightarrow> (j \<in> set (kq_activeKeys s') \<longleftrightarrow> j \<in> set (kq_activeKeys s))"
  shows "slots_inv s'"
  using assms(1,3-) slot_update [OF assms(2,1)] by (auto simp: slots_inv_def)

lemma held_count_nonneg: "slots_inv s \<Longrightarrow> 0 \<le> held (\<lambda>_ _. 1) s"
  by (rule held_nonneg) (simp_all add: slots_wf weight_count)

lemma held_count_slot: "slots_inv s \<Longrightarrow> int (length (slot s k)) \<le> held (\<lambda>_ _. 1) s"
  using held_nonneg(2) [of s "\<lambda>_ _. 1" k] by (simp add: slots_wf weight_count)

lemma slot_bytes_nonneg: "slots_inv s \<Longrightarrow> 0 \<le> weight (\<lambda>_ b. b) (slot s k)"
  unfolding weight_bytes by (rule sum_list_nonneg) (auto simp: slots_inv_def)

section \<open>Starting the head of a slot\<close>

definition started :: "nat \<Rightarrow> nat list \<Rightarrow> int \<Rightarrow> KeyedQueueEntry \<Rightarrow> KeyedQueueEntry list \<Rightarrow> keyed_queue \<Rightarrow> keyed_queue" where
  "started k rest now e es s = (set_slot k (e\<lparr>ke_state := entry_active, ke_startedAtMs := Some now\<rparr> # es) s)
     \<lparr>kq_readyOrder := rest, kq_readyKeys := removeAll k (kq_readyKeys s),
      kq_activeKeys := kq_activeKeys s @ [k], kq_activeCount := kq_activeCount s + 1, kq_ticks := Suc (kq_ticks s)\<rparr>"

lemma started_fields [simp]:
  "kq_limits (started k rest now e es s) = kq_limits s" "kq_globalUsage (started k rest now e es s) = kq_globalUsage s"
  "kq_socketUsage (started k rest now e es s) = kq_socketUsage s"
  "kq_readyOrder (started k rest now e es s) = rest" "kq_activeKeys (started k rest now e es s) = kq_activeKeys s @ [k]"
  "kq_readyKeys (started k rest now e es s) = removeAll k (kq_readyKeys s)"
  "kq_activeCount (started k rest now e es s) = kq_activeCount s + 1" "kq_nextId (started k rest now e es s) = kq_nextId s"
  "kq_trace (started k rest now e es s) = kq_trace s"
  "kq_pending (started k rest now e es s) =
     kq_pending (set_slot k (e\<lparr>ke_state := entry_active, ke_startedAtMs := Some now\<rparr> # es) s)"
  by (simp_all add: started_def)

lemma usage_same_weights:
  assumes "usage_inv s" "\<And>g k. weight g (slot s' k) = weight g (slot s k)" "\<And>g. held g s' = held g s"
    "\<And>k. slot s' k = [] \<longleftrightarrow> slot s k = []" "kq_socketUsage s' = kq_socketUsage s" "kq_globalUsage s' = kq_globalUsage s"
    "kq_limits s' = kq_limits s"
  shows "usage_inv s'"
  using assms(1) by (simp add: usage_inv_def assms(2-))

lemma log_effect_fields [simp]:
  "kq_limits (log_effect x s) = kq_limits s" "kq_pending (log_effect x s) = kq_pending s"
  "kq_socketUsage (log_effect x s) = kq_socketUsage s"
  "kq_activeKeys (log_effect x s) = kq_activeKeys s" "kq_readyKeys (log_effect x s) = kq_readyKeys s"
  "kq_readyOrder (log_effect x s) = kq_readyOrder s" "kq_activeCount (log_effect x s) = kq_activeCount s"
  "kq_globalUsage (log_effect x s) = kq_globalUsage s" "kq_ticks (log_effect x s) = kq_ticks s"
  "kq_nextId (log_effect x s) = kq_nextId s" "kq_trace (log_effect x s) = kq_trace s @ [x]"
  "slot (log_effect x s) = slot s" "held g (log_effect x s) = held g s"
  "settled_ids (log_effect x s) = settled_ids s @ settled_id x"
  "started_ids (log_effect x s) k = started_ids s k @ started_id k x"
  by (simp_all add: log_effect_def slot_def held_def fun_eq_iff settled_ids_def started_ids_def)

lemma log_effect_inv:
  "slots_inv (log_effect x s) = slots_inv s" "rotation_inv (log_effect x s) = rotation_inv s"
  "usage_inv (log_effect x s) = usage_inv s"
  by (simp_all add: slots_inv_def rotation_inv_def usage_inv_def)

lemma started_inv:
  assumes inv: "keyed_inv s" and order: "kq_readyOrder s = k # rest"
    and room: "kq_activeCount s < ql_maxConcurrency (kq_limits s)" and sl: "slot s k = e # es"
  shows "keyed_inv (started k rest now e es s)"
    "keyed_inv (log_effect (Started (ke_id e) k t) (started k rest now e es s))"
proof -
  let ?s = "started k rest now e es s" and ?e = "e\<lparr>ke_state := entry_active, ke_startedAtMs := Some now\<rparr>"
  from inv have si: "slots_inv s" and ri: "rotation_inv s" and ui: "usage_inv s" and hi: "history_inv s"
    by (simp_all add: keyed_inv_def)
  note up = slot_update [OF started_fields(10) si]
  from ri order have k: "k \<notin> set (kq_activeKeys s)" "k \<notin> set rest" "distinct rest"
    by (auto simp: rotation_inv_def)
  from si sl k have st: "ke_state e = entry_queued" "\<forall>x\<in>set es. ke_state x = entry_queued"
    by (auto simp: slots_inv_def states_of_def dest: spec [of _ k] split: list.splits)
  have same: "held g ?s = held g s" "weight g (slot ?s j) = weight g (slot s j)" for g j
    using up sl by simp_all
  have S: "slots_inv ?s"
    using si sl st by (intro slots_set_slot [OF si started_fields(10)])
      (auto simp: slots_inv_def states_of_def dest: spec [of _ k])
  have R: "rotation_inv ?s"
    using ri order k room by (auto simp: rotation_inv_def up(1))
  have U: "usage_inv ?s"
    by (rule usage_same_weights [OF ui]) (simp_all add: same, simp add: up(1) sl)
  have sets: "settled_ids ?s = settled_ids s" "started_ids ?s = started_ids s"
    by (simp_all add: settled_ids_def started_ids_def fun_eq_iff)
  have q: "queued_ids (slot s k) = ke_id e # queued_ids (slot ?s k)" "j \<noteq> k \<Longrightarrow> slot ?s j = slot s j" for j
    using sl st by (simp_all add: up(1) queued_ids_def)
  have H: "history_inv ?s"
    unfolding history_inv_def
  proof (intro conjI allI)
    show "held (\<lambda>j _. of_bool (j = i)) ?s + int (count_list (settled_ids ?s) i) = of_bool (i < kq_nextId ?s)" for i
      using hi by (simp add: history_inv_def same sets)
    show "sorted_wrt (<) (started_ids ?s j @ queued_ids (slot ?s j) @ [kq_nextId ?s])" for j
      using hi q by (cases "j = k") (auto simp: history_inv_def sets sorted_wrt_append dest: spec [of _ j])
  qed
  from S R U H show "keyed_inv ?s" by (simp add: keyed_inv_def)
  have "history_inv (log_effect (Started (ke_id e) k t) ?s)"
    unfolding history_inv_def
  proof (intro conjI allI)
    show "held (\<lambda>j _. of_bool (j = i)) (log_effect (Started (ke_id e) k t) ?s) +
        int (count_list (settled_ids (log_effect (Started (ke_id e) k t) ?s)) i) =
        of_bool (i < kq_nextId (log_effect (Started (ke_id e) k t) ?s))" for i
      using H by (simp add: history_inv_def)
    show "sorted_wrt (<) (started_ids (log_effect (Started (ke_id e) k t) ?s) j @
        queued_ids (slot (log_effect (Started (ke_id e) k t) ?s) j) @ [kq_nextId (log_effect (Started (ke_id e) k t) ?s)])" for j
      using hi q by (cases "j = k") (auto simp: history_inv_def sets dest: spec [of _ j])
  qed
  with S R U show "keyed_inv (log_effect (Started (ke_id e) k t) ?s)"
    by (simp add: keyed_inv_def log_effect_inv)
qed

section \<open>Settling the front of a slot\<close>

text \<open>What finishing a task and expiring a key have in common: the front of one slot settles.\<close>

definition settles :: "nat \<Rightarrow> KeyedQueueEntry list \<Rightarrow> KeyedQueueEntry list \<Rightarrow> QueueEffect list \<Rightarrow> keyed_queue \<Rightarrow> keyed_queue \<Rightarrow> bool" where
  "settles k ds rest xs s s' \<longleftrightarrow> slot s k = ds @ rest \<and> ds \<noteq> [] \<and> (rest \<noteq> [] \<longrightarrow> k \<in> set (kq_activeKeys s)) \<and>
     kq_pending s' = kq_pending (set_slot k rest s) \<and> kq_activeKeys s' = removeAll k (kq_activeKeys s) \<and>
     kq_activeCount s' = (if k \<in> set (kq_activeKeys s) then kq_activeCount s - 1 else kq_activeCount s) \<and>
     kq_readyOrder s' = (if rest = [] then removeAll k (kq_readyOrder s) else kq_readyOrder s @ [k]) \<and>
     set (kq_readyKeys s') = set (kq_readyOrder s') \<and>
     (\<forall>j. jm_get (kq_socketUsage s') j = (if j \<noteq> k then jm_get (kq_socketUsage s) j
        else if rest = [] then None
        else Some \<lparr>us_bytes = weight (\<lambda>_ b. b) rest, us_count = weight (\<lambda>_ _. 1) rest\<rparr>)) \<and>
     kq_globalUsage s' = \<lparr>us_bytes = us_bytes (kq_globalUsage s) - weight (\<lambda>_ b. b) ds,
       us_count = us_count (kq_globalUsage s) - weight (\<lambda>_ _. 1) ds\<rparr> \<and>
     kq_trace s' = kq_trace s @ xs \<and> concat (map settled_id xs) = map ke_id ds \<and>
     (\<forall>j. concat (map (started_id j) xs) = []) \<and>
     kq_limits s' = kq_limits s \<and> kq_nextId s' = kq_nextId s"

lemma removeAll_length: "distinct xs \<Longrightarrow> int (length (removeAll x xs)) = int (length xs) - (if x \<in> set xs then 1 else 0)"
  by (induction xs) auto

lemma keyed_invD: "keyed_inv s \<Longrightarrow> slots_inv s" "keyed_inv s \<Longrightarrow> rotation_inv s" "keyed_inv s \<Longrightarrow> usage_inv s"
  "keyed_inv s \<Longrightarrow> history_inv s"
  by (simp_all add: keyed_inv_def)

lemma settles_slot:
  assumes inv: "keyed_inv s" and st: "settles k ds rest xs s s'"
  shows "slot s' = (slot s)(k := rest)" "jm_wf (kq_pending s')" "\<forall>j. jm_get (kq_pending s') j \<noteq> Some []"
    "held g s' = held g s - weight g ds"
proof -
  have p: "kq_pending s' = kq_pending (set_slot k rest s)" and sl: "slot s k = ds @ rest"
    using st by (simp_all add: settles_def)
  note up = slot_update [OF p keyed_invD(1) [OF inv]]
  from up show "slot s' = (slot s)(k := rest)" "jm_wf (kq_pending s')" "\<forall>j. jm_get (kq_pending s') j \<noteq> Some []"
    by auto
  from up(4) sl show "held g s' = held g s - weight g ds" by simp
qed

lemma settles_rest_queued:
  assumes inv: "keyed_inv s" and st: "settles k ds rest xs s s'"
  shows "\<forall>x\<in>set rest. ke_state x = entry_queued"
  using st keyed_invD(1) [OF inv] by (cases ds) (auto simp: settles_def slots_inv_def states_of_def dest: spec [of _ k])

lemma states_of_queued: "\<forall>x\<in>set es. ke_state x = entry_queued \<Longrightarrow> states_of False es"
  by (auto simp: states_of_def split: list.split)

lemma settles_slots:
  assumes inv: "keyed_inv s" and st: "settles k ds rest xs s s'"
  shows "slots_inv s'"
proof (rule slots_set_slot [OF keyed_invD(1) [OF inv]])
  show "kq_pending s' = kq_pending (set_slot k rest s)" using st by (simp add: settles_def)
  show "\<forall>e\<in>set rest. ke_key e = k \<and> 0 \<le> ke_bytes e"
    using keyed_invD(1) [OF inv] st by (auto simp: slots_inv_def settles_def dest: spec [of _ k])
  have act: "kq_activeKeys s' = removeAll k (kq_activeKeys s)" using st by (simp add: settles_def)
  show "states_of (k \<in> set (kq_activeKeys s')) rest"
    using states_of_queued [OF settles_rest_queued [OF assms]] by (simp add: act)
  show "\<forall>j. j \<noteq> k \<longrightarrow> (j \<in> set (kq_activeKeys s') \<longleftrightarrow> j \<in> set (kq_activeKeys s))" by (simp add: act)
qed

lemma active_not_ready: "keyed_inv s \<Longrightarrow> k \<in> set (kq_activeKeys s) \<Longrightarrow> k \<notin> set (kq_readyOrder s)"
  by (auto simp: keyed_inv_def rotation_inv_def)

lemma settles_rotation:
  assumes inv: "keyed_inv s" and st: "settles k ds rest xs s s'"
  shows "rotation_inv s'"
  using keyed_invD(2) [OF inv] st settles_slot(1) [OF inv st] active_not_ready [OF inv, of k]
  by (auto simp: rotation_inv_def settles_def removeAll_length distinct_removeAll)

lemma settles_usage:
  assumes inv: "keyed_inv s" and st: "settles k ds rest xs s s'"
  shows "usage_inv s'"
proof -
  have "\<forall>e\<in>set ds. 0 \<le> ke_bytes e"
    using keyed_invD(1) [OF inv] st by (auto simp: slots_inv_def settles_def dest: spec [of _ k])
  then have "0 \<le> weight (\<lambda>_ b. b) ds" "0 \<le> weight (\<lambda>_ _. 1) ds"
    unfolding weight_bytes weight_count by (auto intro!: sum_list_nonneg)
  then show ?thesis
    using keyed_invD(3) [OF inv] st settles_slot(1) [OF inv st] settles_slot(4) [OF inv st] by (auto simp: usage_inv_def settles_def)
qed

lemma settles_history:
  assumes inv: "keyed_inv s" and st: "settles k ds rest xs s s'"
  shows "history_inv s'"
  unfolding history_inv_def
proof (intro conjI allI)
  have sets: "settled_ids s' = settled_ids s @ map ke_id ds" "started_ids s' j = started_ids s j" for j
    using st by (simp_all add: settled_ids_def started_ids_def settles_def)
  show "held (\<lambda>j _. of_bool (j = i)) s' + int (count_list (settled_ids s') i) = of_bool (i < kq_nextId s')" for i
    using keyed_invD(4) [OF inv] st by (auto simp: history_inv_def sets settles_slot(4) [OF inv st] weight_id settles_def)
  show "sorted_wrt (<) (started_ids s' j @ queued_ids (slot s' j) @ [kq_nextId s'])" for j
  proof (cases "j = k")
    case True
    have "queued_ids (slot s k) = queued_ids ds @ queued_ids rest"
      using st by (simp add: settles_def queued_ids_def)
    then show ?thesis
      using keyed_invD(4) [OF inv] st True
      by (auto simp: history_inv_def sets settles_slot(1) [OF inv st] settles_def sorted_wrt_append dest: spec [of _ k])
  next
    case False
    then show ?thesis using keyed_invD(4) [OF inv] st by (simp add: history_inv_def sets settles_slot(1) [OF inv st] settles_def)
  qed
qed

lemma settles_inv:
  assumes inv: "keyed_inv s" and st: "settles k ds rest xs s s'"
  shows "keyed_inv s'"
  using settles_slots [OF assms] settles_rotation [OF assms] settles_usage [OF assms] settles_history [OF assms]
  by (simp add: keyed_inv_def)

section \<open>Finishing a task\<close>

definition usage_of_entries :: "KeyedQueueEntry list \<Rightarrow> QueueUsage" where
  "usage_of_entries es = \<lparr>us_bytes = weight (\<lambda>_ b. b) es, us_count = weight (\<lambda>_ _. 1) es\<rparr>"

lemma usage_of_entries_Cons [simp]: "use_less (ke_bytes e) (usage_of_entries (e # es)) = usage_of_entries es"
  by (simp add: use_less_def usage_of_entries_def)

lemma usage_of_entries_zero: "us_count (usage_of_entries es) = 0 \<longleftrightarrow> es = []"
  by (simp add: usage_of_entries_def weight_count)

lemma finish_settles:
  assumes inv: "keyed_inv s" and sl: "slot s (ke_key e) = h # rest" and h: "ke_id h = ke_id e" "ke_bytes h = ke_bytes e"
    and act: "ke_key e \<in> set (kq_activeKeys s)"
    and x: "settled_id x = [ke_id e]" "\<And>j. started_id j x = []"
  shows "\<exists>s'. finish_entry e (log_effect x s) = Some s' \<and> settles (ke_key e) [h] rest [x] s s'"
proof -
  let ?k = "ke_key e"
  have get: "jm_get (kq_pending s) ?k = Some (h # rest)"
    using sl by (simp add: slot_def split: option.splits)
  have use: "jm_get (kq_socketUsage s) ?k = Some (usage_of_entries (h # rest))"
    using keyed_invD(3) [OF inv] sl by (simp add: usage_inv_def usage_of_entries_def)
  have less: "use_less (ke_bytes e) (usage_of_entries (h # rest)) = usage_of_entries rest"
    by (simp flip: h(2))
  have k: "?k \<notin> set (kq_readyOrder s)" by (rule active_not_ready [OF inv act])
  then have k': "?k \<notin> set (kq_readyKeys s)"
    using keyed_invD(2) [OF inv] by (simp add: rotation_inv_def)
  show ?thesis
    using get use less k k' keyed_invD(2) [OF inv] x h act sl
    by (auto simp: finish_entry_def releaseReservation_def Let_def usage_of_entries_zero markReady_def settles_def
        set_slot_def jsmap_simps rotation_inv_def use_less_def) (simp_all add: usage_of_entries_def)
qed

section \<open>Expiring a key\<close>

definition expired_effect :: "queue_env \<Rightarrow> int \<Rightarrow> QueueExpirationReason \<Rightarrow> KeyedQueueEntry \<Rightarrow> QueueEffect" where
  "expired_effect env tm reason e =
     (let t = timing_of e (case ke_startedAtMs e of None \<Rightarrow> tm | Some x \<Rightarrow> x)
      in Expired (ke_id e) t reason (qe_expire env (ke_id e) t reason))"

lemma expire_entries_is:
  assumes "\<forall>e\<in>set es. ke_key e = k \<and> ke_state e \<noteq> entry_settled" "es \<noteq> []"
    "jm_get (kq_socketUsage s) k = Some (usage_of_entries es)"
  shows "expire_entries env tm reason es s = Some (s
     \<lparr>kq_socketUsage := jm_delete k (kq_socketUsage s),
      kq_globalUsage := \<lparr>us_bytes = us_bytes (kq_globalUsage s) - weight (\<lambda>_ b. b) es,
        us_count = us_count (kq_globalUsage s) - weight (\<lambda>_ _. 1) es\<rparr>,
      kq_trace := kq_trace s @ map (expired_effect env tm reason) es\<rparr>)"
  using assms
proof (induction es arbitrary: s)
  case Nil
  then show ?case by simp
next
  case (Cons e es)
  show ?case
  proof (cases "es = []")
    case True
    with Cons.prems show ?thesis
      by (simp add: releaseReservation_def Let_def log_effect_def expired_effect_def use_less_def usage_of_entries_def)
  next
    case False
    let ?s = "log_effect (expired_effect env tm reason e) (s\<lparr>kq_globalUsage := use_less (ke_bytes e) (kq_globalUsage s),
      kq_socketUsage := jm_set k (usage_of_entries es) (kq_socketUsage s)\<rparr>)"
    have "expire_entries env tm reason (e # es) s = expire_entries env tm reason es ?s"
      using Cons.prems False
      by (simp add: releaseReservation_def Let_def expired_effect_def usage_of_entries_zero)
    also have "\<dots> = Some (?s
     \<lparr>kq_socketUsage := jm_delete k (kq_socketUsage ?s),
      kq_globalUsage := \<lparr>us_bytes = us_bytes (kq_globalUsage ?s) - weight (\<lambda>_ b. b) es,
        us_count = us_count (kq_globalUsage ?s) - weight (\<lambda>_ _. 1) es\<rparr>,
      kq_trace := kq_trace ?s @ map (expired_effect env tm reason) es\<rparr>)"
      by (rule Cons.IH) (use Cons.prems False in \<open>auto simp: jsmap_simps\<close>)
    also have "\<dots> = Some (s
     \<lparr>kq_socketUsage := jm_delete k (kq_socketUsage s),
      kq_globalUsage := \<lparr>us_bytes = us_bytes (kq_globalUsage s) - weight (\<lambda>_ b. b) (e # es),
        us_count = us_count (kq_globalUsage s) - weight (\<lambda>_ _. 1) (e # es)\<rparr>,
      kq_trace := kq_trace s @ map (expired_effect env tm reason) (e # es)\<rparr>)"
      by (simp add: log_effect_def use_less_def)
    finally show ?thesis .
  qed
qed

lemma expired_ids: "concat (map (settled_id \<circ> expired_effect env tm reason) es) = map ke_id es"
  "started_id j (expired_effect env tm reason e) = []"
  by (induction es) (simp_all add: expired_effect_def Let_def)

lemma states_not_settled: "states_of act es \<Longrightarrow> \<forall>e\<in>set es. ke_state e \<noteq> entry_settled"
  by (cases es) (auto simp: states_of_def)

lemma expire_settles:
  assumes inv: "keyed_inv s" and sl: "slot s k \<noteq> []"
    and tr: "case trigger of None \<Rightarrow> True | Some i \<Rightarrow> i \<in> set (map ke_id (slot s k))"
  shows "\<exists>s' xs. expire_core env k reason trigger s = Some (s', True) \<and> settles k (slot s k) [] xs s s'"
proof -
  let ?es = "slot s k"
  have get: "jm_get (kq_pending s) k = Some ?es"
    using sl by (simp add: slot_def split: option.splits)
  have use: "jm_get (kq_socketUsage s) k = Some (usage_of_entries ?es)"
    using keyed_invD(3) [OF inv] sl by (simp add: usage_inv_def usage_of_entries_def)
  have ok: "\<forall>e\<in>set ?es. ke_key e = k \<and> ke_state e \<noteq> entry_settled"
    using keyed_invD(1) [OF inv] states_not_settled [of "k \<in> set (kq_activeKeys s)" ?es] by (auto simp: slots_inv_def)
  have notr: "\<not> (case trigger of None \<Rightarrow> False | Some i \<Rightarrow> i \<notin> set (map ke_id ?es))"
    using tr by (simp split: option.splits)
  show ?thesis
    using get notr sl keyed_invD(2) [OF inv]
    by (simp add: expire_core_def Let_def read_clock_def expire_entries_is [OF ok sl] use settles_def set_slot_def
        jsmap_simps expired_ids rotation_inv_def exI [of _ "map (expired_effect env (qe_now env (kq_ticks s)) reason) ?es"])
qed

lemma expire_core_absent:
  "slots_inv s \<Longrightarrow> slot s k = [] \<Longrightarrow> expire_core env k reason trigger s = Some (s, False)"
  by (auto simp: expire_core_def slot_def slots_inv_def split: option.splits)

section \<open>The pump returns\<close>

text \<open>
  What every operation of the pump guarantees: the invariant, no more held tasks than before, and a smaller measure.
  A turn of the pump starts a key for good, or settles at least one task.
\<close>

definition queue_measure :: "keyed_queue \<Rightarrow> nat" where
  "queue_measure s = nat (held (\<lambda>_ _. 1) s) + length (kq_readyOrder s)"

definition settled_down :: "keyed_queue \<Rightarrow> keyed_queue \<Rightarrow> bool" where
  "settled_down s s' \<longleftrightarrow> keyed_inv s' \<and> kq_limits s' = kq_limits s \<and> kq_nextId s' = kq_nextId s \<and>
     held (\<lambda>_ _. 1) s' \<le> held (\<lambda>_ _. 1) s \<and> queue_measure s' \<le> queue_measure s"

lemma settled_down_refl: "keyed_inv s \<Longrightarrow> settled_down s s"
  by (simp add: settled_down_def)

lemma settled_down_trans: "settled_down s s1 \<Longrightarrow> settled_down s1 s2 \<Longrightarrow> settled_down s s2"
  by (auto simp: settled_down_def)

lemma length_removeAll_le: "length (removeAll x xs) \<le> length xs"
  by (induction xs) (simp_all add: le_SucI)

lemma settles_down:
  assumes inv: "keyed_inv s" and st: "settles k ds rest xs s s'"
  shows "settled_down s s'" "held (\<lambda>_ _. 1) s' < held (\<lambda>_ _. 1) s"
proof -
  have ds: "ds \<noteq> []" using st by (simp add: settles_def)
  have h: "held (\<lambda>_ _. 1) s' = held (\<lambda>_ _. 1) s - int (length ds)"
    using settles_slot(4) [OF assms] by (simp add: weight_count)
  have inv': "keyed_inv s'" by (rule settles_inv [OF assms])
  have n: "0 \<le> held (\<lambda>_ _. 1) s'" using keyed_invD(1) [OF inv'] by (rule held_count_nonneg)
  have "length (kq_readyOrder s') \<le> Suc (length (kq_readyOrder s))"
    using st le_SucI [OF length_removeAll_le [of k "kq_readyOrder s"]] by (simp add: settles_def)
  then have "queue_measure s' \<le> queue_measure s"
    using h ds n by (cases ds) (simp_all add: queue_measure_def)
  then show "settled_down s s'" using inv' h st by (simp add: settled_down_def settles_def)
  show "held (\<lambda>_ _. 1) s' < held (\<lambda>_ _. 1) s" using h ds by simp
qed

lemma jm_set_set [simp]: "jm_set k v (jm_set k w m) = jm_set k v m"
  by (induction k w m rule: jm_set.induct) simp_all

lemma run_started:
  assumes "ke_key e = k"
  shows "run_entry env (e\<lparr>ke_state := entry_active\<rparr>) (activate e es (take_ready k rest s)) =
    (let now = qe_now env (kq_ticks s); s0 = started k rest now e es s; t = timing_of e now;
         e1 = e\<lparr>ke_state := entry_active, ke_startedAtMs := Some now\<rparr>
     in if ql_maxAgeMs (kq_limits s) \<le> tm_waitMs t then expire_core env k age (Some (ke_id e)) s0
        else (case qe_run env (ke_id e) t of
            Returns \<Rightarrow> map_option (\<lambda>s4. (s4, True))
              (finish_entry e1 (log_effect (Resolved (ke_id e)) (log_effect (Started (ke_id e) k t) s0)))
          | Throws \<Rightarrow> map_option (\<lambda>s4. (s4, True))
              (finish_entry e1 (log_effect (Rejected (ke_id e)) (log_effect (Started (ke_id e) k t) s0)))
          | Promises \<Rightarrow> Some (log_effect (Started (ke_id e) k t) s0, False)))"
proof -
  let ?a = "activate e es (take_ready k rest s)" and ?now = "qe_now env (kq_ticks s)"
  have a: "kq_ticks ?a = kq_ticks s" "kq_limits ?a = kq_limits s"
    "jm_get (kq_pending ?a) k = Some (e\<lparr>ke_state := entry_active\<rparr> # es)"
    using assms by (simp_all add: activate_def take_ready_def jsmap_simps)
  have timing_same: "timing_of (e\<lparr>ke_state := entry_active\<rparr>) n = timing_of e n" for n
    by (simp add: timing_of_def)
  have s0: "?a\<lparr>kq_ticks := Suc (kq_ticks s),
      kq_pending := jm_set k (e\<lparr>ke_state := entry_active, ke_startedAtMs := Some ?now\<rparr> # es) (kq_pending ?a)\<rparr> =
      started k rest ?now e es s"
    using assms by (simp add: activate_def take_ready_def started_def set_slot_def)
  show ?thesis
    using assms timing_same
    by (simp add: run_entry_def read_clock_def a s0 Let_def split: TaskOutcome.split)
qed

lemma run_turn:
  assumes inv: "keyed_inv s" and order: "kq_readyOrder s = k # rest"
    and room: "kq_activeCount s < ql_maxConcurrency (kq_limits s)" and sl: "slot s k = e # es"
  shows "\<exists>s' again. run_entry env (e\<lparr>ke_state := entry_active\<rparr>) (activate e es (take_ready k rest s)) = Some (s', again) \<and>
    settled_down s s' \<and> queue_measure s' < queue_measure s"
proof -
  let ?now = "qe_now env (kq_ticks s)"
  let ?e = "e\<lparr>ke_state := entry_active, ke_startedAtMs := Some ?now\<rparr>"
  let ?s0 = "started k rest ?now e es s" and ?t = "timing_of e ?now"
  let ?s1 = "log_effect (Started (ke_id e) k ?t) ?s0"
  have key: "ke_key e = k" using keyed_invD(1) [OF inv] sl by (auto simp: slots_inv_def dest: spec [of _ k])
  note i0 = started_inv(1) [OF assms, where now = ?now] and i1 = started_inv(2) [OF assms, where now = ?now and t = ?t]
  note up = slot_update [OF started_fields(10) [of k rest ?now e es s] keyed_invD(1) [OF inv]]
  have h0: "held (\<lambda>_ _. 1) ?s0 = held (\<lambda>_ _. 1) s" using up(4) sl by simp
  have less: "queue_measure ?s0 < queue_measure s" "queue_measure ?s1 < queue_measure s"
    using h0 order by (simp_all add: queue_measure_def)
  have down: "settled_down s ?s0" "settled_down s ?s1"
    using i0 i1 h0 less by (simp_all add: settled_down_def)
  have settle: "\<exists>s'. finish_entry ?e (log_effect x ?s1) = Some s' \<and> settled_down ?s1 s'"
    if "settled_id x = [ke_id e]" "\<And>j. started_id j x = []" for x
    using finish_settles [OF i1, of ?e ?e es x] settles_down(1) [OF i1] up(1) key that by auto
  have expire: "\<exists>s'. expire_core env k age (Some (ke_id e)) ?s0 = Some (s', True) \<and> settled_down ?s0 s'"
    using expire_settles [OF i0, of k "Some (ke_id e)" env age] settles_down(1) [OF i0] up(1) by auto
  show ?thesis
  proof (cases "ql_maxAgeMs (kq_limits s) \<le> tm_waitMs ?t")
    case True
    with expire obtain s' where "expire_core env k age (Some (ke_id e)) ?s0 = Some (s', True)" "settled_down ?s0 s'" by blast
    with True down(1) less(1) show ?thesis
      by (intro exI [of _ s'] exI [of _ True]) (auto simp: run_started [OF key] Let_def settled_down_def)
  next
    case False
    show ?thesis
    proof (cases "qe_run env (ke_id e) ?t")
      case Returns
      obtain s' where "finish_entry ?e (log_effect (Resolved (ke_id e)) ?s1) = Some s'" "settled_down ?s1 s'"
        using settle [of "Resolved (ke_id e)"] by auto
      with False Returns down(2) less(2) show ?thesis
        by (intro exI [of _ s'] exI [of _ True]) (auto simp: run_started [OF key] Let_def settled_down_def)
    next
      case Throws
      obtain s' where "finish_entry ?e (log_effect (Rejected (ke_id e)) ?s1) = Some s'" "settled_down ?s1 s'"
        using settle [of "Rejected (ke_id e)"] by auto
      with False Throws down(2) less(2) show ?thesis
        by (intro exI [of _ s'] exI [of _ True]) (auto simp: run_started [OF key] Let_def settled_down_def)
    next
      case Promises
      with False less(2) down(2) show ?thesis
        by (intro exI [of _ ?s1] exI [of _ False]) (simp add: run_started [OF key] Let_def)
    qed
  qed
qed

lemma ready_slot:
  assumes "keyed_inv s" "kq_readyOrder s = k # rest"
  obtains e es where "slot s k = e # es" "jm_get (kq_pending s) k = Some (e # es)" "k \<notin> set (kq_activeKeys s)"
proof -
  have "slot s k \<noteq> []" "k \<notin> set (kq_activeKeys s)"
    using keyed_invD(2) [OF assms(1)] assms(2) by (auto simp: rotation_inv_def)
  with that show thesis by (auto simp: slot_def neq_Nil_conv split: option.splits)
qed

lemma pump_returns:
  assumes "keyed_inv s"
  shows "\<exists>s'. pump env s = Some s' \<and> settled_down s s' \<and> busy s'"
  using assms
proof (induction "queue_measure s" arbitrary: s rule: less_induct)
  case less
  show ?case
  proof (cases "ql_maxConcurrency (kq_limits s) \<le> kq_activeCount s")
    case True
    with less.prems show ?thesis by (simp add: pump.simps [of env s] settled_down_refl busy_def)
  next
    case room: False
    show ?thesis
    proof (cases "kq_readyOrder s")
      case Nil
      with less.prems room show ?thesis by (simp add: pump.simps [of env s] settled_down_refl busy_def)
    next
      case (Cons k rest)
      obtain e es where sl: "slot s k = e # es" "jm_get (kq_pending s) k = Some (e # es)" "k \<notin> set (kq_activeKeys s)"
        using ready_slot [OF less.prems Cons] .
      obtain s1 again where run: "run_entry env (e\<lparr>ke_state := entry_active\<rparr>) (activate e es (take_ready k rest s)) = Some (s1, again)"
          and d1: "settled_down s s1" and m1: "queue_measure s1 < queue_measure s"
        using run_turn [OF less.prems Cons _ sl(1)] room by force
      have i1: "keyed_inv s1" using d1 by (simp add: settled_down_def)
      obtain s2 where s2: "(if again then pump env s1 else Some s1) = Some s2" and d2: "settled_down s1 s2"
        using less.hyps [OF m1 i1] settled_down_refl [OF i1] by (cases again) auto
      have i2: "keyed_inv s2" and m2: "queue_measure s2 < queue_measure s"
        using d2 m1 by (auto simp: settled_down_def)
      obtain s3 where "pump env s2 = Some s3" "settled_down s2 s3" "busy s3"
        using less.hyps [OF m2 i2] by blast
      moreover have "pump env s = pump env s2"
        using room Cons sl run s2 by (cases again) (simp_all add: pump.simps [of env s])
      ultimately show ?thesis
        using settled_down_trans [OF d1 settled_down_trans [OF d2]] by auto
    qed
  qed
qed

section \<open>Expiring, making room, enqueuing\<close>

lemma expireKey_returns:
  assumes inv: "keyed_inv s" and sl: "slot s k \<noteq> []"
    and tr: "case trigger of None \<Rightarrow> True | Some i \<Rightarrow> i \<in> set (map ke_id (slot s k))"
  shows "\<exists>s'. expireKey env k reason trigger s = Some s' \<and> settled_down s s' \<and> busy s' \<and>
    held (\<lambda>_ _. 1) s' < held (\<lambda>_ _. 1) s"
proof -
  obtain s1 xs where c: "expire_core env k reason trigger s = Some (s1, True)" and st: "settles k (slot s k) [] xs s s1"
    using expire_settles [OF assms] by blast
  note d = settles_down [OF inv st]
  obtain s2 where "pump env s1 = Some s2" "settled_down s1 s2" "busy s2"
    using pump_returns [of s1 env] d(1) by (auto simp: settled_down_def)
  with c d show ?thesis
    using settled_down_trans [OF d(1)] by (auto simp: expireKey_def settled_down_def)
qed

lemma share_less_irrefl: "\<not> share_less a a"
  by (simp add: share_less_def split: option.split)

lemma share_less_trans: "share_less a b \<Longrightarrow> share_less b c \<Longrightarrow> share_less a c"
  by (auto simp: share_less_def split: option.splits)

lemma share_not_less_trans: "\<not> share_less a b \<Longrightarrow> share_less a c \<Longrightarrow> \<not> share_less c b"
  by (auto simp: share_less_def split: option.splits)

lemma largest_loop_is:
  "\<exists>sc'. (largest_loop l key m lg sc = lg \<and> sc' = sc \<or>
      (\<exists>k u. largest_loop l key m lg sc = Some k \<and> (k, u) \<in> set m \<and> k \<noteq> key \<and> sc' = usageScore l u \<and> share_less sc sc')) \<and>
    (\<forall>(j, u)\<in>set m. j \<noteq> key \<longrightarrow> \<not> share_less sc' (usageScore l u))"
proof (induction l key m lg sc rule: largest_loop.induct)
  case (1 l key lg sc)
  then show ?case by simp
next
  case (2 l key k u m lg sc)
  show ?case
  proof (cases "k \<noteq> key \<and> share_less sc (usageScore l u)")
    case True
    from "2.IH"(1) [OF True] obtain sc' where i:
      "largest_loop l key m (Some k) (usageScore l u) = Some k \<and> sc' = usageScore l u \<or>
       (\<exists>k' u'. largest_loop l key m (Some k) (usageScore l u) = Some k' \<and> (k', u') \<in> set m \<and> k' \<noteq> key \<and>
          sc' = usageScore l u' \<and> share_less (usageScore l u) sc')"
      and all: "\<forall>(j, v)\<in>set m. j \<noteq> key \<longrightarrow> \<not> share_less sc' (usageScore l v)" by blast
    have "\<not> share_less sc' (usageScore l u)"
      using i share_less_irrefl share_less_trans by blast
    with i all True share_less_trans show ?thesis by (intro exI [of _ sc']) auto
  next
    case False
    from "2.IH"(2) [OF False] obtain sc' where i:
      "largest_loop l key m lg sc = lg \<and> sc' = sc \<or>
       (\<exists>k' u'. largest_loop l key m lg sc = Some k' \<and> (k', u') \<in> set m \<and> k' \<noteq> key \<and>
          sc' = usageScore l u' \<and> share_less sc sc')"
      and all: "\<forall>(j, v)\<in>set m. j \<noteq> key \<longrightarrow> \<not> share_less sc' (usageScore l v)" by blast
    have "k \<noteq> key \<longrightarrow> \<not> share_less sc' (usageScore l u)"
      using i False share_not_less_trans by blast
    with i all False show ?thesis by (intro exI [of _ sc']) auto
  qed
qed

lemma largest_key_holds:
  assumes "keyed_inv s" "largest_key key s = Some k"
  shows "k \<noteq> key" "slot s k \<noteq> []"
proof -
  obtain u where u: "(k, u) \<in> set (kq_socketUsage s)" "k \<noteq> key"
    using largest_loop_is [of "kq_limits s" key "kq_socketUsage s" None
        "usageScore (kq_limits s) (usage_of (kq_socketUsage s) key)"] assms(2)
    unfolding largest_key_def [symmetric] by auto
  then obtain v where "jm_get (kq_socketUsage s) k = Some v" using weak_map_of_SomeI by metis
  with keyed_invD(3) [OF assms(1)] u(2) show "k \<noteq> key" "slot s k \<noteq> []"
    by (auto simp: usage_inv_def split: if_splits)
qed

lemma makeGlobalRoom_returns:
  assumes "keyed_inv s"
  shows "\<exists>s' room. makeGlobalRoom env key b s = Some (s', room) \<and> settled_down s s' \<and> (s' = s \<or> busy s') \<and>
    (room \<longrightarrow> \<not> no_room b s')"
  using assms
proof (induction "nat (held (\<lambda>_ _. 1) s)" arbitrary: s rule: less_induct)
  case less
  show ?case
  proof (cases "no_room b s")
    case False
    with less.prems show ?thesis
      by (intro exI [of _ s] exI [of _ True]) (simp add: makeGlobalRoom.simps [of env key b s] settled_down_refl)
  next
    case full: True
    show ?thesis
    proof (cases "largest_key key s")
      case None
      with full less.prems show ?thesis
        by (intro exI [of _ s] exI [of _ False]) (simp add: makeGlobalRoom.simps [of env key b s] settled_down_refl)
    next
      case (Some k)
      obtain s1 where e: "expireKey env k global_overload None s = Some s1" and d: "settled_down s s1" and bz: "busy s1"
          and h: "held (\<lambda>_ _. 1) s1 < held (\<lambda>_ _. 1) s"
        using expireKey_returns [OF less.prems largest_key_holds(2) [OF less.prems Some], of None] by auto
      have i1: "keyed_inv s1" using d by (simp add: settled_down_def)
      have "nat (held (\<lambda>_ _. 1) s1) < nat (held (\<lambda>_ _. 1) s)"
        using h held_count_nonneg [OF keyed_invD(1) [OF i1]] by simp
      from less.hyps [OF this i1] obtain s' room where
        r: "makeGlobalRoom env key b s1 = Some (s', room)" "settled_down s1 s'" "s' = s1 \<or> busy s'" "room \<longrightarrow> \<not> no_room b s'"
        by blast
      with full Some e bz settled_down_trans [OF d r(2)] show ?thesis
        by (auto simp: makeGlobalRoom.simps [of env key b s])
    qed
  qed
qed

text \<open>The state in which an accepted task is pushed, before the pump.\<close>

definition accepted_state :: "nat \<Rightarrow> int \<Rightarrow> int \<Rightarrow> keyed_queue \<Rightarrow> keyed_queue" where
  "accepted_state key b now s = push_entry_keyed key b now
     (s\<lparr>kq_globalUsage := use_more b (kq_globalUsage s),
        kq_socketUsage := jm_set key (use_more b (usage_of (kq_socketUsage s) key)) (kq_socketUsage s),
        kq_ticks := Suc (kq_ticks s)\<rparr>)"

definition new_entry :: "nat \<Rightarrow> int \<Rightarrow> int \<Rightarrow> keyed_queue \<Rightarrow> KeyedQueueEntry" where
  "new_entry key b now s = \<lparr>ke_id = kq_nextId s, ke_key = key, ke_bytes = b, ke_enqueuedAtMs = now,
     ke_startedAtMs = None, ke_state = entry_queued\<rparr>"

lemma markReady_fields [simp]:
  "kq_limits (markReady k s) = kq_limits s" "kq_pending (markReady k s) = kq_pending s"
  "kq_socketUsage (markReady k s) = kq_socketUsage s" "kq_activeKeys (markReady k s) = kq_activeKeys s"
  "kq_activeCount (markReady k s) = kq_activeCount s" "kq_globalUsage (markReady k s) = kq_globalUsage s"
  "kq_nextId (markReady k s) = kq_nextId s" "kq_trace (markReady k s) = kq_trace s"
  by (simp_all add: markReady_def)

lemma accepted_fields:
  fixes key b now s
  defines "s' \<equiv> accepted_state key b now s"
  assumes inv: "keyed_inv s"
  shows "kq_pending s' = kq_pending (set_slot key (slot s key @ [new_entry key b now s]) s)"
    "kq_limits s' = kq_limits s" "kq_activeKeys s' = kq_activeKeys s" "kq_activeCount s' = kq_activeCount s"
    "kq_globalUsage s' = use_more b (kq_globalUsage s)" "kq_nextId s' = Suc (kq_nextId s)" "kq_trace s' = kq_trace s"
    "kq_socketUsage s' = jm_set key (use_more b (usage_of (kq_socketUsage s) key)) (kq_socketUsage s)"
    "kq_readyOrder s' = (if slot s key = [] then kq_readyOrder s @ [key] else kq_readyOrder s)"
    "kq_readyKeys s' = (if slot s key = [] then kq_readyKeys s @ [key] else kq_readyKeys s)"
proof -
  have ready: "key \<in> set (kq_activeKeys s) \<or> key \<in> set (kq_readyKeys s) \<longleftrightarrow> slot s key \<noteq> []"
    using keyed_invD(1,2) [OF inv] by (auto simp: rotation_inv_def slots_inv_def states_of_def dest: spec [of _ key])
  show "kq_pending s' = kq_pending (set_slot key (slot s key @ [new_entry key b now s]) s)"
    by (simp add: s'_def accepted_state_def push_entry_keyed_def Let_def set_slot_def slot_def new_entry_def split: option.split)
  show "kq_readyOrder s' = (if slot s key = [] then kq_readyOrder s @ [key] else kq_readyOrder s)"
    "kq_readyKeys s' = (if slot s key = [] then kq_readyKeys s @ [key] else kq_readyKeys s)"
    using ready by (auto simp: s'_def accepted_state_def push_entry_keyed_def Let_def markReady_def)
qed (simp_all add: s'_def accepted_state_def push_entry_keyed_def Let_def)

lemma accepted_inv:
  assumes inv: "keyed_inv s" and b: "0 \<le> b" and room: "\<not> no_room b s"
  shows "keyed_inv (accepted_state key b now s)"
proof -
  let ?s = "accepted_state key b now s" and ?n = "new_entry key b now s"
  note f = accepted_fields [OF inv, of key b now] and up = slot_update [OF accepted_fields(1) [OF inv] keyed_invD(1) [OF inv]]
  note si = keyed_invD(1) [OF inv] and ri = keyed_invD(2) [OF inv] and ui = keyed_invD(3) [OF inv] and hi = keyed_invD(4) [OF inv]
  have held: "held g ?s = held g s + g (kq_nextId s) b" for g
    using up(4) [where g = g] by (simp add: new_entry_def)
  have old: "\<forall>e\<in>set (slot s key). ke_key e = key \<and> 0 \<le> ke_bytes e" and st: "states_of (key \<in> set (kq_activeKeys s)) (slot s key)"
    using si by (simp_all add: slots_inv_def)
  have "slots_inv ?s"
    using old b st f(3) by (intro slots_set_slot [OF si f(1)])
      (auto simp: new_entry_def states_of_def split: list.splits)
  moreover have "rotation_inv ?s"
  proof (cases "slot s key = []")
    case True
    then have "key \<notin> set (kq_activeKeys s)" "key \<notin> set (kq_readyOrder s)"
      using ri st by (simp_all add: rotation_inv_def states_of_def)
    with True ri show ?thesis by (auto simp: rotation_inv_def f up(1))
  next
    case False
    with ri show ?thesis by (simp add: rotation_inv_def f up(1))
  qed
  moreover have "usage_inv ?s"
  proof -
    have u: "usage_of (kq_socketUsage s) key = usage_of_entries (slot s key)"
      using ui by (auto simp: usage_of_def usage_inv_def usage_of_entries_def)
    have "jm_get (kq_socketUsage ?s) k = (if slot ?s k = [] then None else Some (usage_of_entries (slot ?s k)))" for k
      using ui by (cases "k = key") (simp_all add: f(8) u up(1) jsmap_simps usage_inv_def usage_of_entries_def use_more_def new_entry_def)
    moreover have "kq_globalUsage s = \<lparr>us_bytes = held (\<lambda>_ b. b) s, us_count = held (\<lambda>_ _. 1) s\<rparr>"
      using ui by (simp add: usage_inv_def)
    ultimately show ?thesis
      using room unfolding usage_inv_def held f(2,5) by (simp add: usage_of_entries_def use_more_def no_room_def)
  qed
  moreover have "history_inv ?s"
    unfolding history_inv_def
  proof (intro conjI allI)
    have sets: "settled_ids ?s = settled_ids s" "started_ids ?s j = started_ids s j" for j
      by (simp_all add: settled_ids_def started_ids_def f)
    show "held (\<lambda>j _. of_bool (j = i)) ?s + int (count_list (settled_ids ?s) i) = of_bool (i < kq_nextId ?s)" for i
    proof -
      have "held (\<lambda>j _. of_bool (j = i)) s + int (count_list (settled_ids s) i) = of_bool (i < kq_nextId s)"
        using hi by (simp add: history_inv_def)
      then show ?thesis by (cases "i = kq_nextId s") (simp_all add: sets held f less_Suc_eq)
    qed
    show "sorted_wrt (<) (started_ids ?s j @ queued_ids (slot ?s j) @ [kq_nextId ?s])" for j
    proof -
      have h: "sorted_wrt (<) (started_ids s j @ queued_ids (slot s j) @ [kq_nextId s])"
        using hi by (simp add: history_inv_def)
      then show ?thesis
        by (auto simp: sets up(1) f queued_ids_def new_entry_def sorted_wrt_append less_Suc_eq)
    qed
  qed
  ultimately show ?thesis by (simp add: keyed_inv_def)
qed

lemma keyed_enqueue_returns:
  assumes inv: "keyed_inv s" and bz: "busy s"
  shows "\<exists>s' ok. keyed_enqueue env key b l s = Some (s', ok) \<and> keyed_inv s' \<and> kq_limits s' = kq_limits s \<and> busy s' \<and>
    kq_nextId s' = (if ok then Suc (kq_nextId s) else kq_nextId s)"
proof (cases "isSafeInteger b \<and> 0 \<le> b \<and> us_count (usage_of (kq_socketUsage s) key) + 1 \<le> sl_socketCount l \<and>
    us_bytes (usage_of (kq_socketUsage s) key) + b \<le> sl_socketBytes l")
  case False
  then have "keyed_enqueue env key b l s = Some (s, False)"
    by (auto simp: keyed_enqueue_def keyed_reserve_def Let_def)
  with inv bz show ?thesis by (intro exI [of _ s] exI [of _ False]) simp
next
  case True
  obtain s1 room where r: "makeGlobalRoom env key b s = Some (s1, room)" "settled_down s s1" "s1 = s \<or> busy s1"
      "room \<longrightarrow> \<not> no_room b s1"
    using makeGlobalRoom_returns [OF inv] by blast
  have i1: "keyed_inv s1" and same: "kq_limits s1 = kq_limits s" "kq_nextId s1 = kq_nextId s"
    using r(2) by (simp_all add: settled_down_def)
  show ?thesis
  proof (cases room)
    case False
    with True r i1 same bz show ?thesis
      by (intro exI [of _ s1] exI [of _ False]) (auto simp: keyed_enqueue_def keyed_reserve_def Let_def)
  next
    case go: True
    let ?a = "accepted_state key b (qe_now env (kq_ticks s1)) s1"
    have ia: "keyed_inv ?a" using accepted_inv [OF i1] True r(4) go by simp
    obtain s2 where p: "pump env ?a = Some s2" "settled_down ?a s2" "busy s2"
      using pump_returns [OF ia] by blast
    have "keyed_enqueue env key b l s = Some (s2, True)"
      using True r(1) go p(1) by (simp add: keyed_enqueue_def keyed_reserve_def Let_def read_clock_def accepted_state_def)
    with p same accepted_fields(2,6) [OF i1] show ?thesis
      by (intro exI [of _ s2] exI [of _ True]) (simp add: settled_down_def)
  qed
qed

section \<open>Deadlines and promises\<close>

lemma find_entry_slot:
  assumes "slots_inv s" "find_entry i s = Some e"
  shows "ke_id e = i" "e \<in> set (slot s (ke_key e))"
proof -
  from assms(2) show "ke_id e = i" by (auto simp: find_entry_def find_Some_iff)
  from assms(2) have "e \<in> set (concat (map snd (kq_pending s)))"
    unfolding find_entry_def find_Some_iff by (metis nth_mem)
  then obtain k es where "(k, es) \<in> set (kq_pending s)" "e \<in> set es" by auto
  then have "e \<in> set (slot s k)"
    using jm_mem_iff [OF slots_wf [OF assms(1)]] by (simp add: slot_def)
  moreover from this have "ke_key e = k" using assms(1) by (simp add: slots_inv_def)
  ultimately show "e \<in> set (slot s (ke_key e))" by simp
qed

lemma deadline_returns:
  assumes inv: "keyed_inv s" and bz: "busy s"
  shows "\<exists>s'. deadline_fires env i s = Some s' \<and> keyed_inv s' \<and> kq_limits s' = kq_limits s \<and> busy s' \<and>
    kq_nextId s' = kq_nextId s"
proof (cases "find_entry i s")
  case None
  with inv bz show ?thesis by (simp add: deadline_fires_def)
next
  case (Some e)
  note e = find_entry_slot [OF keyed_invD(1) [OF inv] Some]
  then have "slot s (ke_key e) \<noteq> []" "i \<in> set (map ke_id (slot s (ke_key e)))" by auto
  with expireKey_returns [OF inv, of "ke_key e" "Some i" env age] Some show ?thesis
    by (auto simp: deadline_fires_def settled_down_def)
qed

lemma active_is_head:
  assumes "states_of act (h # rest)" "e \<in> set (h # rest)" "ke_state e = entry_active"
  shows "e = h" "act"
  using assms by (auto simp: states_of_def split: if_splits)

lemma promise_returns:
  assumes inv: "keyed_inv s" and bz: "busy s"
  shows "\<exists>s'. promise_settles env i ok s = Some s' \<and> keyed_inv s' \<and> kq_limits s' = kq_limits s \<and> busy s' \<and>
    kq_nextId s' = kq_nextId s"
proof (cases "\<exists>e. find_entry i s = Some e \<and> ke_state e = entry_active")
  case False
  with inv bz show ?thesis by (auto simp: promise_settles_def split: option.splits)
next
  case True
  then obtain e where fe: "find_entry i s = Some e" and act: "ke_state e = entry_active" by blast
  note e = find_entry_slot [OF keyed_invD(1) [OF inv] fe]
  then obtain h rest where sl: "slot s (ke_key e) = h # rest" by (cases "slot s (ke_key e)") auto
  have st: "states_of (ke_key e \<in> set (kq_activeKeys s)) (h # rest)"
    using keyed_invD(1) [OF inv] by (simp add: slots_inv_def flip: sl)
  note head = active_is_head [OF st _ act]
  have h: "e = h" "ke_key e \<in> set (kq_activeKeys s)" using head e(2) sl by auto
  let ?x = "if ok then Resolved i else Rejected i"
  have x: "settled_id ?x = [ke_id e]" "started_id j ?x = []" for j using e(1) by simp_all
  obtain s1 where s1: "finish_entry e (log_effect ?x s) = Some s1" "settles (ke_key e) [h] rest [?x] s s1"
    using finish_settles [OF inv sl _ _ h(2) x] h(1) by blast
  note d = settles_down(1) [OF inv s1(2)]
  obtain s2 where "pump env s1 = Some s2" "settled_down s1 s2" "busy s2"
    using pump_returns [of s1 env] d by (auto simp: settled_down_def)
  with fe act s1(1) d show ?thesis by (simp add: promise_settles_def settled_down_def)
qed

section \<open>Histories\<close>

lemma keyed_step_returns:
  assumes "keyed_inv s" "busy s"
  shows "\<exists>s'. keyed_step env e s = Some s' \<and> keyed_inv s' \<and> busy s' \<and> kq_limits s' = kq_limits s"
proof (cases e)
  case (EnqueueTask k b l)
  with keyed_enqueue_returns [OF assms, of env k b l] show ?thesis by auto
next
  case (DeadlineFires i)
  with deadline_returns [OF assms, of env i] show ?thesis by auto
next
  case (PromiseSettles i r)
  with promise_returns [OF assms, of env i r] show ?thesis by auto
qed

abbreviation keyed_run :: "queue_env \<Rightarrow> queue_event list \<Rightarrow> keyed_queue \<Rightarrow> keyed_queue option" where
  "keyed_run env \<equiv> run_steps (keyed_step env)"

interpretation keyed: refined_machine "keyed_step env" "\<lambda>s. keyed_inv s \<and> busy s" kq_limits "\<lambda>l e. l" for env
  by unfold_locales (use keyed_step_returns in blast)

lemma foldl_const: "foldl (\<lambda>x e. x) x es = x"
  by (induction es) simp_all

lemma newKeyedQueue_inv:
  assumes "newKeyedQueue l = Some s" "0 \<le> ql_globalBytes l" "0 \<le> ql_globalCount l"
  shows "keyed_inv s" "busy s" "kq_limits s = l"
  using assms by (auto simp: newKeyedQueue_def keyed_inv_def slots_inv_def rotation_inv_def usage_inv_def history_inv_def
      slot_def held_def states_of_def busy_def settled_ids_def started_ids_def queued_ids_def split: if_splits)

lemma keyed_reachable_inv:
  assumes "newKeyedQueue l = Some s0" "0 \<le> ql_globalBytes l" "0 \<le> ql_globalCount l"
  obtains s where "keyed_run env es s0 = Some s" "keyed_inv s" "busy s" "kq_limits s = l"
  using keyed.run_refines [of s0 env es] newKeyedQueue_inv [OF assms] by (auto simp: foldl_const)

text \<open>
  C27. The keyed queue never fails and never idles: from a new queue, any enqueues, deadlines and settling promises run
  without a consistency error and return, whatever the tasks do; afterwards the running tasks, one per active key, are
  within the concurrency limit, no key waits while a task could still be started, and the usage is exact and within the limits.
\<close>

theorem keyed_queue_works:
  assumes "newKeyedQueue l = Some s0" "0 \<le> ql_globalBytes l" "0 \<le> ql_globalCount l"
  shows "\<exists>s. keyed_run env es s0 = Some s \<and>
    kq_activeCount s = int (length (kq_activeKeys s)) \<and> kq_activeCount s \<le> ql_maxConcurrency l \<and>
    (kq_activeCount s < ql_maxConcurrency l \<longrightarrow> (\<forall>k. slot s k \<noteq> [] \<longrightarrow> k \<in> set (kq_activeKeys s))) \<and>
    (\<forall>k. usage_of (kq_socketUsage s) k = usage_of_entries (slot s k)) \<and>
    us_bytes (kq_globalUsage s) = wsum (\<lambda>es. sum_list (map ke_bytes es)) (kq_pending s) \<and>
    us_count (kq_globalUsage s) = wsum (\<lambda>es. int (length es)) (kq_pending s) \<and>
    us_bytes (kq_globalUsage s) \<le> ql_globalBytes l \<and> us_count (kq_globalUsage s) \<le> ql_globalCount l"
proof -
  obtain s where s: "keyed_run env es s0 = Some s" "keyed_inv s" "busy s" "kq_limits s = l"
    using keyed_reachable_inv [OF assms] .
  have w: "(\<lambda>es. sum_list (map ke_bytes es)) = weight (\<lambda>_ b. b)" "(\<lambda>es. int (length es)) = weight (\<lambda>_ _. 1)"
    by (simp_all add: fun_eq_iff weight_bytes weight_count)
  have g: "kq_globalUsage s = \<lparr>us_bytes = held (\<lambda>_ b. b) s, us_count = held (\<lambda>_ _. 1) s\<rparr>"
    "held (\<lambda>_ b. b) s \<le> ql_globalBytes l" "held (\<lambda>_ _. 1) s \<le> ql_globalCount l"
    using keyed_invD(3) [OF s(2)] s(4) by (simp_all add: usage_inv_def)
  have "\<forall>k. usage_of (kq_socketUsage s) k = usage_of_entries (slot s k)"
    using keyed_invD(3) [OF s(2)] by (simp add: usage_inv_def usage_of_def usage_of_entries_def)
  moreover have "\<forall>k. slot s k \<noteq> [] \<longrightarrow> k \<in> set (kq_activeKeys s)" if "kq_activeCount s < ql_maxConcurrency l"
    using keyed_invD(2) [OF s(2)] s(3,4) that by (auto simp: rotation_inv_def busy_def)
  ultimately show ?thesis
    using s(1,4) keyed_invD(2) [OF s(2)] g unfolding w by (auto simp: rotation_inv_def held_def)
qed

text \<open>Two promised tasks of one connection and one of another; the first of them settles.\<close>

definition demo_env :: queue_env where
  "demo_env = \<lparr>qe_now = (\<lambda>n. int n), qe_run = (\<lambda>i t. if i = 3 then Returns else Promises),
     qe_expire = (\<lambda>i t r. Returns)\<rparr>"

definition demo_events :: "queue_event list" where
  "demo_events = [EnqueueTask 7 10 browserControlProfile, EnqueueTask 7 20 browserControlProfile,
     EnqueueTask 8 30 browserControlProfile, EnqueueTask 7 40 browserControlProfile, PromiseSettles 0 True, DeadlineFires 2]"

definition demo_lane :: keyed_queue where
  "demo_lane = (case newKeyedQueue BROWSER_CONTROL_LANE_LIMITS of Some s \<Rightarrow> s)"

lemma demo_lane_new: "newKeyedQueue BROWSER_CONTROL_LANE_LIMITS = Some demo_lane"
  "0 \<le> ql_globalBytes BROWSER_CONTROL_LANE_LIMITS" "0 \<le> ql_globalCount BROWSER_CONTROL_LANE_LIMITS"
  by (simp_all add: demo_lane_def newKeyedQueue_def BROWSER_CONTROL_LANE_LIMITS_def isSafeInteger_def)

lemma demo_lane_run: "map_option (\<lambda>s. (settled_ids s, map (\<lambda>(k, es). (k, map ke_id es)) (kq_pending s), started_ids s 7))
    (keyed_run demo_env demo_events demo_lane) = Some ([0, 2], [(7, [1, 3])], [0, 1])"
  by code_simp

lemma demo_lane_obtain:
  obtains s where "keyed_run demo_env demo_events demo_lane = Some s" "settled_ids s = [0, 2]" "started_ids s 7 = [0, 1]"
    "map (\<lambda>(k, es). (k, map ke_id es)) (kq_pending s) = [(7, [1, 3])]"
  using demo_lane_run by (auto simp: map_option_eq_Some)

theorem keyed_queue_works_witness:
  "\<exists>s. keyed_run demo_env demo_events demo_lane = Some s \<and> settled_ids s = [0, 2] \<and>
    kq_activeCount s \<le> 4 \<and> us_count (kq_globalUsage s) \<le> 512"
proof -
  obtain s where "keyed_run demo_env demo_events demo_lane = Some s" "settled_ids s = [0, 2]"
    using demo_lane_obtain .
  with keyed_queue_works [OF demo_lane_new, of demo_env demo_events] show ?thesis
    by (auto simp: BROWSER_CONTROL_LANE_LIMITS_def)
qed

lemma wsum_ids: "wsum (\<lambda>es. int (count_list (map ke_id es) i)) m = int (count_list (map ke_id (concat (map snd m))) i)"
  by (induction m) (simp_all add: wsum_def)

text \<open>
  C28. The keyed queue settles every accepted task exactly once and starts a connection's tasks in order: after any history each accepted
  task is either still pending or was resolved, rejected or expired, once and not both; for every key the tasks started
  are in the order they were accepted, and every task still waiting is younger than all of them.
\<close>

theorem keyed_tasks_settle_once:
  assumes "newKeyedQueue l = Some s0" "0 \<le> ql_globalBytes l" "0 \<le> ql_globalCount l"
    and run: "keyed_run env es s0 = Some s"
  shows "(\<forall>i. count_list (map ke_id (concat (map snd (kq_pending s)))) i + count_list (settled_ids s) i =
      (if i < kq_nextId s then 1 else 0)) \<and>
    (\<forall>k. sorted_wrt (<) (started_ids s k @ queued_ids (slot s k)))"
proof -
  have inv: "keyed_inv s" using keyed_reachable_inv [OF assms(1-3), of env es] run by auto
  have "count_list (map ke_id (concat (map snd (kq_pending s)))) i + count_list (settled_ids s) i =
      (if i < kq_nextId s then 1 else 0)" for i
  proof -
    have "held (\<lambda>j _. of_bool (j = i)) s = int (count_list (map ke_id (concat (map snd (kq_pending s)))) i)"
      unfolding held_def wsum_ids [symmetric] by (simp add: weight_id [abs_def])
    moreover have "held (\<lambda>j _. of_bool (j = i)) s + int (count_list (settled_ids s) i) = of_bool (i < kq_nextId s)"
      using keyed_invD(4) [OF inv] by (simp add: history_inv_def)
    ultimately show ?thesis by (cases "i < kq_nextId s") simp_all
  qed
  then show ?thesis using keyed_invD(4) [OF inv] by (simp add: history_inv_def sorted_wrt_append)
qed

theorem keyed_tasks_settle_once_witness:
  "\<exists>s. keyed_run demo_env demo_events demo_lane = Some s \<and> settled_ids s = [0, 2] \<and> kq_nextId s = 4"
proof -
  obtain s where s: "keyed_run demo_env demo_events demo_lane = Some s" "settled_ids s = [0, 2]"
      "map (\<lambda>(k, es). (k, map ke_id es)) (kq_pending s) = [(7, [1, 3])]"
    using demo_lane_obtain .
  then have p: "map ke_id (concat (map snd (kq_pending s))) = [1, 3]" by auto
  from keyed_tasks_settle_once [OF demo_lane_new s(1)]
  have c: "count_list [1, 3] i + count_list [0, 2] i = (if i < kq_nextId s then 1 else 0)" for i
    unfolding p s(2) by blast
  have "3 < kq_nextId s" "\<not> 4 < kq_nextId s" using c [of 3] c [of 4] by (simp_all split: if_splits)
  with s show ?thesis by auto
qed


definition demo_full :: keyed_queue where
  "demo_full = demo_lane\<lparr>kq_socketUsage := [(1, \<lparr>us_bytes = 5, us_count = 300\<rparr>), (2, \<lparr>us_bytes = 33554000, us_count = 2\<rparr>)]\<rparr>"

lemma demo_full_largest: "jm_wf (kq_socketUsage demo_full) \<and> largest_key 1 demo_full = Some 2"
  by code_simp


end
