(* ===== verification/Canonical_Publisher.thy ===== *)
theory Canonical_Publisher
  imports Session
begin

text \<open>
  \<open>apps/host-daemon/src/cloud/canonical-publisher.ts\<close>: the host's queue of canonical frames between the session and
  the data socket. The subscription's callback, each call of \<open>sendData\<close>, the resumption of a loop that waits in
  \<open>yieldIo\<close> and the settling of the pump's promise are events or parameters; callbacks do not re-enter the
  publisher. Whether the n-th send throws is a parameter.
\<close>

section \<open>State\<close>

record QueuedCanonicalFrame =
  qf_bytes :: bytes
  qf_cursor :: ReplayCursor

text \<open>The pump's promise: none, waiting in \<open>yieldIo\<close>, resolved or rejected with the handler still to run.\<close>

datatype PumpPromise = NoPump | PumpYielding | PumpResolved | PumpRejected

datatype PublisherError =
    AlreadyPrepared | NotReplayable | AckMismatch | CannotReachCommit | SendFailed

datatype PublisherFailure = InvalidFrame ProtocolErrorCode | Discontinuous | QueueExceeded | PumpFailed

datatype PublisherEffect = SendData bytes | SendThrew bytes | Ingress | RecoveryPressure | Failure PublisherFailure

record canonical_publisher =
  cp_lastQueuedCursor :: "ReplayCursor option"
  cp_lastSentCursor :: "ReplayCursor option"
  cp_paused :: bool
  cp_pumpPromise :: PumpPromise
  cp_queue :: "QueuedCanonicalFrame list"
  cp_queueBytes :: int
  cp_ready :: bool
  cp_stopped :: bool
  cp_subscribed :: bool
  cp_flushes :: "ReplayCursor list"
  cp_sends :: nat
  cp_effects :: "PublisherEffect list"

definition newCanonicalPublisher :: canonical_publisher where
  "newCanonicalPublisher = \<lparr>cp_lastQueuedCursor = None, cp_lastSentCursor = None, cp_paused = False,
     cp_pumpPromise = NoPump, cp_queue = [], cp_queueBytes = 0, cp_ready = False, cp_stopped = False,
     cp_subscribed = False, cp_flushes = [], cp_sends = 0, cp_effects = []\<rparr>"

definition HOST_CANONICAL_QUEUE_LIMITS :: "int \<times> int" where
  "HOST_CANONICAL_QUEUE_LIMITS = (8 * 1024 * 1024, 1024)"

definition maxQueueBytes :: int where "maxQueueBytes = fst HOST_CANONICAL_QUEUE_LIMITS"
definition maxQueueFrames :: int where "maxQueueFrames = snd HOST_CANONICAL_QUEUE_LIMITS"
definition PUMP_YIELD_BYTES :: int where "PUMP_YIELD_BYTES = 256 * 1024"
definition PUMP_YIELD_FRAMES :: int where "PUMP_YIELD_FRAMES = 64"
definition MAX_CANONICAL_FRAME_BYTES :: int where "MAX_CANONICAL_FRAME_BYTES = int DATA_HEADER_BYTES + 16 * 1024"

definition cursorAfter :: "data_frame \<Rightarrow> ReplayCursor" where
  "cursorAfter f = \<lparr>jc_lastEventSeq = df_eventSeq f,
     jc_nextPtyOffset = (if df_kind f = PtyOutput then df_ptyOffset f + payload_length f else df_ptyOffset f),
     rp_sessionEpoch = df_sessionEpoch f\<rparr>"

definition sameReplayCursor :: "ReplayCursor \<Rightarrow> ReplayCursor \<Rightarrow> bool" where
  "sameReplayCursor l r \<longleftrightarrow> rp_sessionEpoch l = rp_sessionEpoch r \<and> jc_lastEventSeq l = jc_lastEventSeq r \<and>
     jc_nextPtyOffset l = jc_nextPtyOffset r"

definition publish_effect :: "PublisherEffect \<Rightarrow> canonical_publisher \<Rightarrow> canonical_publisher" where
  "publish_effect e s = s\<lparr>cp_effects := cp_effects s @ [e]\<rparr>"

section \<open>Stopping\<close>

definition dispose_publisher :: "canonical_publisher \<Rightarrow> canonical_publisher" where
  "dispose_publisher s = (if cp_stopped s then s
     else s\<lparr>cp_stopped := True, cp_ready := False, cp_subscribed := False, cp_queue := [], cp_queueBytes := 0\<rparr>)"

definition fail_publisher :: "PublisherFailure \<Rightarrow> canonical_publisher \<Rightarrow> canonical_publisher" where
  "fail_publisher r s = (if cp_stopped s then s else publish_effect (Failure r) (dispose_publisher s))"

section \<open>The loops\<close>

text \<open>\<open>shift\<close>, the byte count and \<open>sendData\<close>, common to both loops; the flag says whether the send threw.\<close>

definition send_head ::
  "(nat \<Rightarrow> bool) \<Rightarrow> QueuedCanonicalFrame \<Rightarrow> QueuedCanonicalFrame list \<Rightarrow> canonical_publisher \<Rightarrow> canonical_publisher \<times> bool" where
  "send_head throws q rest s =
     (let s1 = s\<lparr>cp_queue := rest, cp_queueBytes := cp_queueBytes s - int (length (qf_bytes q)), cp_sends := Suc (cp_sends s)\<rparr>
      in if throws (cp_sends s) then (publish_effect (SendThrew (qf_bytes q)) s1, True)
         else (publish_effect (SendData (qf_bytes q)) (s1\<lparr>cp_lastSentCursor := Some (qf_cursor q)\<rparr>), False))"

definition yields :: "int \<Rightarrow> int \<Rightarrow> bool" where
  "yields bytesSinceYield framesSinceYield \<longleftrightarrow>
     PUMP_YIELD_BYTES \<le> bytesSinceYield \<or> PUMP_YIELD_FRAMES \<le> framesSinceYield"

text \<open>\<open>#pump\<close> from its start or from a resumption, both counters zero there, up to the next wait or the end.\<close>

fun pump_loop ::
  "(nat \<Rightarrow> bool) \<Rightarrow> int \<Rightarrow> int \<Rightarrow> QueuedCanonicalFrame list \<Rightarrow> canonical_publisher \<Rightarrow> canonical_publisher \<times> PumpPromise" where
  "pump_loop throws b n [] s = (s, PumpResolved)"
| "pump_loop throws b n (q # rest) s =
     (if cp_stopped s \<or> \<not> cp_ready s \<or> cp_paused s then (s, PumpResolved)
      else case send_head throws q rest s of
          (s1, True) \<Rightarrow> (s1, PumpRejected)
        | (s1, False) \<Rightarrow>
            let s2 = (if rest = [] then s1\<lparr>cp_lastQueuedCursor := Some (qf_cursor q)\<rparr> else s1)
            in if yields (b + int (length (qf_bytes q))) (n + 1) then (s2, PumpYielding)
               else pump_loop throws (b + int (length (qf_bytes q))) (n + 1) rest s2)"

definition run_pump :: "(nat \<Rightarrow> bool) \<Rightarrow> canonical_publisher \<Rightarrow> canonical_publisher" where
  "run_pump throws s = (case pump_loop throws 0 0 (cp_queue s) s of (s1, p) \<Rightarrow> s1\<lparr>cp_pumpPromise := p\<rparr>)"

definition schedulePump :: "(nat \<Rightarrow> bool) \<Rightarrow> canonical_publisher \<Rightarrow> canonical_publisher" where
  "schedulePump throws s =
     (if cp_stopped s \<or> \<not> cp_ready s \<or> cp_paused s \<or> cp_pumpPromise s \<noteq> NoPump \<or> cp_queue s = [] then s
      else run_pump throws s)"

text \<open>The handlers of the pump's promise.\<close>

definition pump_settled :: "(nat \<Rightarrow> bool) \<Rightarrow> canonical_publisher \<Rightarrow> canonical_publisher" where
  "pump_settled throws s =
     (case cp_pumpPromise s of
        PumpResolved \<Rightarrow> schedulePump throws (s\<lparr>cp_pumpPromise := NoPump\<rparr>)
      | PumpRejected \<Rightarrow> fail_publisher PumpFailed (s\<lparr>cp_pumpPromise := NoPump\<rparr>)
      | _ \<Rightarrow> s)"

text \<open>The loop of \<open>flushThrough\<close>: \<open>None\<close> when it waits, otherwise whether it ended without a throw.\<close>

fun flush_through_loop ::
  "(nat \<Rightarrow> bool) \<Rightarrow> ReplayCursor \<Rightarrow> int \<Rightarrow> int \<Rightarrow> QueuedCanonicalFrame list \<Rightarrow> canonical_publisher \<Rightarrow>
   canonical_publisher \<times> bool option" where
  "flush_through_loop throws commit b n [] s = (s, Some True)"
| "flush_through_loop throws commit b n (q # rest) s =
     (if cp_stopped s \<or> jc_lastEventSeq commit < jc_lastEventSeq (qf_cursor q) then (s, Some True)
      else case send_head throws q rest s of
          (s1, True) \<Rightarrow> (s1, Some False)
        | (s1, False) \<Rightarrow>
            if yields (b + int (length (qf_bytes q))) (n + 1) then (s1, None)
            else flush_through_loop throws commit (b + int (length (qf_bytes q))) (n + 1) rest s1)"

text \<open>\<open>flushThrough\<close> from its start or from a resumption; \<open>None\<close> is a wait.\<close>

definition flush_run ::
  "(nat \<Rightarrow> bool) \<Rightarrow> ReplayCursor \<Rightarrow> canonical_publisher \<Rightarrow> canonical_publisher \<times> (PublisherError + unit) option" where
  "flush_run throws commit s =
     (case flush_through_loop throws commit 0 0 (cp_queue s) s of
        (s1, None) \<Rightarrow> (s1\<lparr>cp_flushes := cp_flushes s1 @ [commit]\<rparr>, None)
      | (s1, Some False) \<Rightarrow> (s1, Some (Inl SendFailed))
      | (s1, Some True) \<Rightarrow>
          let s2 = (if cp_queue s1 = [] \<and> cp_lastSentCursor s1 \<noteq> None
            then s1\<lparr>cp_lastQueuedCursor := cp_lastSentCursor s1\<rparr> else s1)
          in (case cp_lastSentCursor s2 of
              None \<Rightarrow> (s2, Some (Inl CannotReachCommit))
            | Some c \<Rightarrow> if sameReplayCursor c commit then (s2, Some (Inr ())) else (s2, Some (Inl CannotReachCommit))))"

definition flushThrough ::
  "(nat \<Rightarrow> bool) \<Rightarrow> ReplayCursor \<Rightarrow> canonical_publisher \<Rightarrow> canonical_publisher \<times> (PublisherError + unit) option" where
  "flushThrough throws commit s = flush_run throws commit s"

definition flush_resumes ::
  "(nat \<Rightarrow> bool) \<Rightarrow> ReplayCursor \<Rightarrow> canonical_publisher \<Rightarrow> canonical_publisher \<times> (PublisherError + unit) option" where
  "flush_resumes throws commit s =
     (if commit \<in> set (cp_flushes s) then flush_run throws commit (s\<lparr>cp_flushes := remove1 commit (cp_flushes s)\<rparr>)
      else (s, None))"

section \<open>The operations\<close>

text \<open>\<open>baseline\<close> is the session's cursor and \<open>attached\<close> the outcome of subscribing there.\<close>

definition prepare :: "ReplayCursor \<Rightarrow> bool \<Rightarrow> canonical_publisher \<Rightarrow> canonical_publisher \<times> (PublisherError + ReplayCursor)" where
  "prepare baseline attached s =
     (if cp_subscribed s then (s, Inl AlreadyPrepared)
      else let s1 = s\<lparr>cp_lastSentCursor := Some baseline, cp_lastQueuedCursor := Some baseline\<rparr>
        in if \<not> attached then (s1, Inl NotReplayable)
           else (s1\<lparr>cp_subscribed := True\<rparr>, Inr baseline))"

definition activate_publisher ::
  "(nat \<Rightarrow> bool) \<Rightarrow> ReplayCursor \<Rightarrow> canonical_publisher \<Rightarrow> canonical_publisher \<times> (PublisherError + unit)" where
  "activate_publisher throws acknowledged s =
     (case cp_lastSentCursor s of
        None \<Rightarrow> (s, Inl AckMismatch)
      | Some baseline \<Rightarrow>
          if \<not> sameReplayCursor baseline acknowledged then (s, Inl AckMismatch)
          else (schedulePump throws (s\<lparr>cp_ready := True\<rparr>), Inr ()))"

definition pause_publisher :: "canonical_publisher \<Rightarrow> canonical_publisher" where
  "pause_publisher s = s\<lparr>cp_paused := True\<rparr>"

definition resume_publisher :: "(nat \<Rightarrow> bool) \<Rightarrow> canonical_publisher \<Rightarrow> canonical_publisher" where
  "resume_publisher throws s = (if cp_stopped s then s else schedulePump throws (s\<lparr>cp_paused := False\<rparr>))"

definition accepts_canonical :: "canonical_publisher \<Rightarrow> data_frame \<Rightarrow> bool" where
  "accepts_canonical s frame \<longleftrightarrow> (df_kind frame = PtyOutput \<or> df_kind frame = ResizeApplied) \<and>
     df_deliveryGeneration frame = 0 \<and> df_streamId frame = 0 \<and>
     (case cp_lastQueuedCursor s of None \<Rightarrow> False
      | Some c \<Rightarrow> df_eventSeq frame = jc_lastEventSeq c + 1 \<and> df_ptyOffset frame = jc_nextPtyOffset c)"

definition exceedsSoftLimit :: "int \<Rightarrow> canonical_publisher \<Rightarrow> bool" where
  "exceedsSoftLimit n s \<longleftrightarrow>
     maxQueueFrames < int (length (cp_queue s)) + 1 \<or> maxQueueBytes < cp_queueBytes s + n"

definition withinPressureFrame :: "int \<Rightarrow> canonical_publisher \<Rightarrow> bool" where
  "withinPressureFrame n s \<longleftrightarrow>
     int (length (cp_queue s)) + 1 \<le> maxQueueFrames + 1 \<and> cp_queueBytes s + n \<le> maxQueueBytes + MAX_CANONICAL_FRAME_BYTES"

text \<open>
  The frame is taken up to the callbacks: \<open>canInterrupt\<close> is what \<open>canInterruptRecovery\<close> answers, the value says whether the
  frame was queued and whether \<open>onRecoveryPressure\<close> is due.
\<close>

definition push_canonical :: "bytes \<Rightarrow> bool \<Rightarrow> canonical_publisher \<Rightarrow> canonical_publisher \<times> bool option" where
  "push_canonical encoded canInterrupt s =
     (if cp_stopped s then (s, None)
      else case decodeDataFrame encoded of
          Inl e \<Rightarrow> (fail_publisher (InvalidFrame e) s, None)
        | Inr frame \<Rightarrow>
            if \<not> accepts_canonical s frame then (fail_publisher Discontinuous s, None)
            else let n = int (length encoded) in
              if exceedsSoftLimit n s \<and> (\<not> withinPressureFrame n s \<or> \<not> canInterrupt)
              then (fail_publisher QueueExceeded s, None)
              else (publish_effect Ingress (s\<lparr>cp_queue := cp_queue s @ [\<lparr>qf_bytes = encoded, qf_cursor = cursorAfter frame\<rparr>],
                      cp_queueBytes := cp_queueBytes s + n, cp_lastQueuedCursor := Some (cursorAfter frame)\<rparr>),
                    Some (exceedsSoftLimit n s)))"

definition enqueue_canonical ::
  "(nat \<Rightarrow> bool) \<Rightarrow> bytes \<Rightarrow> bool \<Rightarrow> canonical_publisher \<Rightarrow> canonical_publisher" where
  "enqueue_canonical throws encoded canInterrupt s =
     (case push_canonical encoded canInterrupt s of
        (s1, None) \<Rightarrow> s1
      | (s1, Some pressure) \<Rightarrow> schedulePump throws (if pressure then publish_effect RecoveryPressure s1 else s1))"

section \<open>Events\<close>

datatype publisher_event =
    Prepare ReplayCursor bool
  | Activate ReplayCursor
  | Pause
  | Resume
  | FlushThrough ReplayCursor
  | FlushResumes ReplayCursor
  | FrameArrives bytes bool
  | PumpResumes
  | PumpSettled
  | Dispose

text \<open>The callback of the subscription is called only while subscribed.\<close>

fun publisher_step :: "(nat \<Rightarrow> bool) \<Rightarrow> canonical_publisher \<Rightarrow> publisher_event \<Rightarrow> canonical_publisher" where
  "publisher_step throws s (Prepare c a) = fst (prepare c a s)"
| "publisher_step throws s (Activate c) = fst (activate_publisher throws c s)"
| "publisher_step throws s Pause = pause_publisher s"
| "publisher_step throws s Resume = resume_publisher throws s"
| "publisher_step throws s (FlushThrough c) = fst (flushThrough throws c s)"
| "publisher_step throws s (FlushResumes c) = fst (flush_resumes throws c s)"
| "publisher_step throws s (FrameArrives bs ok) = (if cp_subscribed s then enqueue_canonical throws bs ok s else s)"
| "publisher_step throws s PumpResumes = (if cp_pumpPromise s = PumpYielding then run_pump throws s else s)"
| "publisher_step throws s PumpSettled = pump_settled throws s"
| "publisher_step throws s Dispose = dispose_publisher s"

end
