(* ===== verification/Canonical_Publisher_Props.thy ===== *)
theory Canonical_Publisher_Props
  imports Canonical_Publisher
begin

text \<open>
  What the canonical publisher has sent is an unbroken run of canonical frames from the cursor it advertised, what it
  holds continues that run, its accounting is exact and bounded, and it never stalls: with the pump idle there is
  nothing it could send.
\<close>

section \<open>Runs of canonical frames\<close>

definition canonical_frame_after :: "ReplayCursor \<Rightarrow> bytes \<Rightarrow> data_frame option" where
  "canonical_frame_after c bs =
     (case decodeDataFrame bs of
        Inl _ \<Rightarrow> None
      | Inr f \<Rightarrow> if (df_kind f = PtyOutput \<or> df_kind f = ResizeApplied) \<and> df_deliveryGeneration f = 0 \<and> df_streamId f = 0 \<and>
            df_eventSeq f = jc_lastEventSeq c + 1 \<and> df_ptyOffset f = jc_nextPtyOffset c then Some f else None)"

text \<open>The cursor a run of encoded frames reaches, if each continues the one before.\<close>

fun canonical_run :: "ReplayCursor \<Rightarrow> bytes list \<Rightarrow> ReplayCursor option" where
  "canonical_run c [] = Some c"
| "canonical_run c (bs # bss) =
     (case canonical_frame_after c bs of None \<Rightarrow> None | Some f \<Rightarrow> canonical_run (cursorAfter f) bss)"

lemma canonical_run_append:
  "canonical_run c (xs @ ys) = (case canonical_run c xs of None \<Rightarrow> None | Some d \<Rightarrow> canonical_run d ys)"
  by (induction xs arbitrary: c) (simp_all split: option.split)

text \<open>The frames handed to the data socket so far, and whether a send ever threw.\<close>

fun sent_of :: "PublisherEffect \<Rightarrow> bytes list" where
  "sent_of (SendData bs) = [bs]"
| "sent_of _ = []"

definition sent_frames :: "canonical_publisher \<Rightarrow> bytes list" where
  "sent_frames s = concat (map sent_of (cp_effects s))"

fun is_threw :: "PublisherEffect \<Rightarrow> bool" where
  "is_threw (SendThrew bs) = True"
| "is_threw _ = False"

definition send_threw :: "canonical_publisher \<Rightarrow> bool" where
  "send_threw s \<longleftrightarrow> list_ex is_threw (cp_effects s)"

lemma effects_append [simp]:
  "sent_frames (publish_effect e s) = sent_frames s @ sent_of e"
  "send_threw (publish_effect e s) \<longleftrightarrow> send_threw s \<or> is_threw e"
  by (simp_all add: sent_frames_def send_threw_def publish_effect_def)

lemma effects_cong:
  "cp_effects s' = cp_effects s \<Longrightarrow> sent_frames s' = sent_frames s"
  "cp_effects s' = cp_effects s \<Longrightarrow> send_threw s' = send_threw s"
  by (simp_all add: sent_frames_def send_threw_def)

lemma publish_effect_fields [simp]:
  "cp_lastQueuedCursor (publish_effect e s) = cp_lastQueuedCursor s"
  "cp_lastSentCursor (publish_effect e s) = cp_lastSentCursor s" "cp_paused (publish_effect e s) = cp_paused s"
  "cp_pumpPromise (publish_effect e s) = cp_pumpPromise s" "cp_queue (publish_effect e s) = cp_queue s"
  "cp_queueBytes (publish_effect e s) = cp_queueBytes s" "cp_ready (publish_effect e s) = cp_ready s"
  "cp_stopped (publish_effect e s) = cp_stopped s" "cp_subscribed (publish_effect e s) = cp_subscribed s"
  "cp_flushes (publish_effect e s) = cp_flushes s" "cp_sends (publish_effect e s) = cp_sends s"
  by (simp_all add: publish_effect_def)

section \<open>The invariant\<close>

definition queued_bytes :: "QueuedCanonicalFrame list \<Rightarrow> int" where
  "queued_bytes qs = (\<Sum>q\<leftarrow>qs. int (length (qf_bytes q)))"

lemma queued_bytes_simps [simp]: "queued_bytes [] = 0" "queued_bytes (q # qs) = int (length (qf_bytes q)) + queued_bytes qs"
  "queued_bytes (qs @ rs) = queued_bytes qs + queued_bytes rs"
  by (simp_all add: queued_bytes_def)

lemma queued_bytes_nonneg: "0 \<le> queued_bytes qs"
  by (induction qs) simp_all

text \<open>Every queued cursor is the one after its frame.\<close>

definition cursors_ok :: "QueuedCanonicalFrame list \<Rightarrow> bool" where
  "cursors_ok qs \<longleftrightarrow> (\<forall>q\<in>set qs. \<exists>f. decodeDataFrame (qf_bytes q) = Inr f \<and> qf_cursor q = cursorAfter f)"

definition accounts :: "canonical_publisher \<Rightarrow> bool" where
  "accounts s \<longleftrightarrow> cp_queueBytes s = queued_bytes (cp_queue s) \<and> cursors_ok (cp_queue s) \<and>
     int (length (cp_queue s)) \<le> maxQueueFrames + 1 \<and> cp_queueBytes s \<le> maxQueueBytes + MAX_CANONICAL_FRAME_BYTES"

text \<open>The run sent from the advertised cursor \<open>b\<close>, and the queue that continues it.\<close>

definition unbroken :: "ReplayCursor \<Rightarrow> canonical_publisher \<Rightarrow> bool" where
  "unbroken b s \<longleftrightarrow> canonical_run b (sent_frames s) \<noteq> None \<and>
     (\<not> cp_stopped s \<longrightarrow> (case cp_lastSentCursor s of
        None \<Rightarrow> cp_queue s = [] \<and> sent_frames s = [] \<and> cp_lastQueuedCursor s = None
      | Some c \<Rightarrow> canonical_run b (sent_frames s) = Some c \<and>
          (\<exists>d. cp_lastQueuedCursor s = Some d \<and> canonical_run c (map qf_bytes (cp_queue s)) = Some d)))"

definition publisher_inv :: "canonical_publisher \<Rightarrow> bool" where
  "publisher_inv s \<longleftrightarrow> accounts s \<and> (cp_stopped s \<longrightarrow> cp_queue s = []) \<and>
     (\<not> cp_stopped s \<and> \<not> cp_subscribed s \<longrightarrow> cp_queue s = [] \<and> sent_frames s = []) \<and>
     (\<not> send_threw s \<longrightarrow> (\<exists>b. unbroken b s))"

definition never_stalls :: "canonical_publisher \<Rightarrow> bool" where
  "never_stalls s \<longleftrightarrow> cp_pumpPromise s = NoPump \<longrightarrow>
     cp_queue s = [] \<or> cp_stopped s \<or> \<not> cp_ready s \<or> cp_paused s"

lemma cursor_of_queued:
  "cursors_ok (q # rest) \<Longrightarrow> canonical_frame_after c (qf_bytes q) = Some f \<Longrightarrow> cursorAfter f = qf_cursor q"
  by (auto simp: cursors_ok_def canonical_frame_after_def split: if_splits)

text \<open>What both loops keep.\<close>

definition same_gates :: "canonical_publisher \<Rightarrow> canonical_publisher \<Rightarrow> bool" where
  "same_gates s s' \<longleftrightarrow> cp_stopped s' = cp_stopped s \<and> cp_subscribed s' = cp_subscribed s \<and> cp_ready s' = cp_ready s \<and>
     cp_paused s' = cp_paused s \<and> cp_pumpPromise s' = cp_pumpPromise s \<and> cp_flushes s' = cp_flushes s \<and>
     (cp_queue s = [] \<longrightarrow> cp_queue s' = [])"

lemma same_gates_refl [simp]: "same_gates s s"
  by (simp add: same_gates_def)

lemma same_gates_trans: "same_gates s s1 \<Longrightarrow> same_gates s1 s2 \<Longrightarrow> same_gates s s2"
  by (simp add: same_gates_def)

lemma send_head_inv:
  assumes inv: "publisher_inv s" and q: "cp_queue s = q # rest" and go: "\<not> cp_stopped s"
    and r: "send_head throws q rest s = (s', threw)"
  shows "publisher_inv s'" "same_gates s s'" "cp_queue s' = rest"
    "\<not> threw \<longrightarrow> cp_lastSentCursor s' = Some (qf_cursor q)"
    "\<not> send_threw s' \<and> rest = [] \<longrightarrow> cp_lastQueuedCursor s' = Some (qf_cursor q)"
proof -
  let ?s1 = "s\<lparr>cp_queue := rest, cp_queueBytes := cp_queueBytes s - int (length (qf_bytes q)), cp_sends := Suc (cp_sends s)\<rparr>"
  have s': "s' = (if threw then publish_effect (SendThrew (qf_bytes q)) ?s1
      else publish_effect (SendData (qf_bytes q)) (?s1\<lparr>cp_lastSentCursor := Some (qf_cursor q)\<rparr>))"
    using r by (auto simp: send_head_def Let_def split: if_splits)
  have eff: "sent_frames ?s1 = sent_frames s" "send_threw ?s1 = send_threw s"
    "sent_frames (?s1\<lparr>cp_lastSentCursor := c\<rparr>) = sent_frames s" "send_threw (?s1\<lparr>cp_lastSentCursor := c\<rparr>) = send_threw s" for c
    by (simp_all add: sent_frames_def send_threw_def)
  show "cp_queue s' = rest" "same_gates s s'" by (simp_all add: s' same_gates_def q)
  show "\<not> threw \<longrightarrow> cp_lastSentCursor s' = Some (qf_cursor q)" by (simp add: s')
  have acc: "accounts s'"
  proof -
    have a: "cp_queueBytes s = int (length (qf_bytes q)) + queued_bytes rest" "cursors_ok rest"
      "int (length rest) \<le> maxQueueFrames + 1" "cp_queueBytes s \<le> maxQueueBytes + MAX_CANONICAL_FRAME_BYTES"
      using inv q by (simp_all add: publisher_inv_def accounts_def cursors_ok_def)
    have "queued_bytes rest \<le> maxQueueBytes + MAX_CANONICAL_FRAME_BYTES"
      using a(1,4) by linarith
    with a show ?thesis by (simp add: accounts_def s')
  qed
  have sub: "cp_subscribed s" using inv q go by (auto simp: publisher_inv_def)
  have ub: "unbroken b s' \<and> (rest = [] \<longrightarrow> cp_lastQueuedCursor s' = Some (qf_cursor q))"
    if b: "unbroken b s" and ok: "\<not> send_threw s'" for b
  proof -
    have nt: "\<not> threw" using ok by (auto simp: s')
    obtain c d where c: "canonical_run b (sent_frames s) = Some c" "cp_lastQueuedCursor s = Some d"
        "canonical_run c (map qf_bytes (q # rest)) = Some d"
      using b go q by (auto simp: unbroken_def split: option.splits)
    then obtain f where f: "canonical_frame_after c (qf_bytes q) = Some f" "canonical_run (cursorAfter f) (map qf_bytes rest) = Some d"
      by (auto split: option.splits)
    have cur: "cursorAfter f = qf_cursor q"
      by (rule cursor_of_queued [where rest = rest, OF _ f(1)]) (use inv q in \<open>simp add: publisher_inv_def accounts_def\<close>)
    have last: "rest = [] \<longrightarrow> d = qf_cursor q" using f(2) cur by auto
    show ?thesis
      using nt c f go last unfolding unbroken_def s' by (simp add: eff canonical_run_append cur)
  qed
  have "\<not> send_threw s' \<longrightarrow> \<not> send_threw s" by (simp add: s' eff)
  with inv ub obtain b where b: "\<not> send_threw s' \<longrightarrow> unbroken b s' \<and> (rest = [] \<longrightarrow> cp_lastQueuedCursor s' = Some (qf_cursor q))"
    by (auto simp: publisher_inv_def)
  then show "publisher_inv s'" using acc sub go by (auto simp: publisher_inv_def s')
  show "\<not> send_threw s' \<and> rest = [] \<longrightarrow> cp_lastQueuedCursor s' = Some (qf_cursor q)" using b by blast
qed

lemma publisher_inv_cong:
  assumes "cp_effects s' = cp_effects s" "cp_stopped s' = cp_stopped s" "cp_subscribed s' = cp_subscribed s"
    "cp_queue s' = cp_queue s" "cp_queueBytes s' = cp_queueBytes s" "cp_lastSentCursor s' = cp_lastSentCursor s"
    "cp_lastQueuedCursor s' = cp_lastQueuedCursor s"
  shows "publisher_inv s' = publisher_inv s"
  unfolding publisher_inv_def accounts_def unbroken_def effects_cong [OF assms(1)] assms(2-) ..

lemma publisher_inv_gates [simp]:
  "publisher_inv (s\<lparr>cp_ready := r\<rparr>) = publisher_inv s" "publisher_inv (s\<lparr>cp_paused := r\<rparr>) = publisher_inv s"
  "publisher_inv (s\<lparr>cp_pumpPromise := p\<rparr>) = publisher_inv s" "publisher_inv (s\<lparr>cp_flushes := c\<rparr>) = publisher_inv s"
  by (rule publisher_inv_cong; simp)+

lemma pump_loop_inv:
  assumes "publisher_inv s" "cp_queue s = q" "pump_loop throws b n q s = (s', p)"
  shows "publisher_inv s' \<and> same_gates s s' \<and> p \<noteq> NoPump"
  using assms
proof (induction throws b n q s rule: pump_loop.induct)
  case (1 throws b n s)
  then show ?case by simp
next
  case (2 throws b n q rest s)
  show ?case
  proof (cases "cp_stopped s \<or> \<not> cp_ready s \<or> cp_paused s")
    case True
    with 2 show ?thesis by auto
  next
    case False
    obtain s1 t where h: "send_head throws q rest s = (s1, t)" by (cases "send_head throws q rest s")
    note sh = send_head_inv [OF "2.prems"(1,2) _ h]
    show ?thesis
    proof (cases t)
      case True
      with "2.prems" False h sh show ?thesis by auto
    next
      case sent: False
      let ?s2 = "if rest = [] then s1\<lparr>cp_lastQueuedCursor := Some (qf_cursor q)\<rparr> else s1"
      have same: "?s2 = s1" if "\<not> send_threw s1"
        using sh(5) False that by (cases "rest = []") auto
      have i2: "publisher_inv ?s2"
      proof (cases "send_threw s1")
        case True
        then show ?thesis
          using sh(1) False by (auto simp: publisher_inv_def accounts_def sent_frames_def send_threw_def)
      next
        case False
        with sh(1) same \<open>\<not> (cp_stopped s \<or> \<not> cp_ready s \<or> cp_paused s)\<close> show ?thesis by simp
      qed
      have g2: "same_gates s ?s2" using sh(2) False by (simp add: same_gates_def)
      have q2: "cp_queue ?s2 = rest" using sh(3) False by simp
      show ?thesis
      proof (cases "yields (b + int (length (qf_bytes q))) (n + 1)")
        case True
        with "2.prems"(3) False h sent i2 g2 show ?thesis by auto
      next
        case no: False
        have "pump_loop throws (b + int (length (qf_bytes q))) (n + 1) rest ?s2 = (s', p)"
          using "2.prems"(3) False h sent no by simp
        with "2.IH" [OF False h [symmetric] _ refl no i2 q2] sent same_gates_trans [OF g2] show ?thesis by auto
      qed
    qed
  qed
qed

lemma run_pump_inv:
  assumes "publisher_inv s"
  shows "publisher_inv (run_pump throws s)" "never_stalls (run_pump throws s)"
proof -
  obtain s1 p where l: "pump_loop throws 0 0 (cp_queue s) s = (s1, p)" by (cases "pump_loop throws 0 0 (cp_queue s) s")
  note i = pump_loop_inv [OF assms refl l]
  from i show "never_stalls (run_pump throws s)" by (simp add: run_pump_def l never_stalls_def)
  from i show "publisher_inv (run_pump throws s)"
    by (simp add: run_pump_def l)
qed

lemma schedulePump_inv:
  assumes "publisher_inv s"
  shows "publisher_inv (schedulePump throws s)" "never_stalls (schedulePump throws s)"
  using assms run_pump_inv [OF assms] by (auto simp: schedulePump_def never_stalls_def)

lemma dispose_publisher_inv:
  assumes "publisher_inv s"
  shows "publisher_inv (dispose_publisher s)" "cp_stopped (dispose_publisher s)"
  using assms
  by (auto simp: dispose_publisher_def publisher_inv_def accounts_def unbroken_def sent_frames_def send_threw_def cursors_ok_def
      maxQueueFrames_def maxQueueBytes_def HOST_CANONICAL_QUEUE_LIMITS_def MAX_CANONICAL_FRAME_BYTES_def)

lemma fail_publisher_inv:
  assumes "publisher_inv s"
  shows "publisher_inv (fail_publisher r s)" "cp_stopped (fail_publisher r s)"
  using assms dispose_publisher_inv [OF assms]
  by (auto simp: fail_publisher_def publisher_inv_def accounts_def unbroken_def)

lemma stopped_never_stalls: "cp_stopped s \<Longrightarrow> never_stalls s"
  by (simp add: never_stalls_def)

lemma flush_through_loop_inv:
  assumes "publisher_inv s" "cp_queue s = q" "flush_through_loop throws c b n q s = (s', r)"
  shows "publisher_inv s' \<and> same_gates s s' \<and>
    (r = Some True \<longrightarrow> cp_stopped s' \<or> cp_queue s' = [] \<or> jc_lastEventSeq c < jc_lastEventSeq (qf_cursor (hd (cp_queue s'))))"
  using assms
proof (induction throws c b n q s rule: flush_through_loop.induct)
  case (1 throws c b n s)
  then show ?case by simp
next
  case (2 throws c b n q rest s)
  show ?case
  proof (cases "cp_stopped s \<or> jc_lastEventSeq c < jc_lastEventSeq (qf_cursor q)")
    case True
    with 2 show ?thesis by auto
  next
    case False
    obtain s1 t where h: "send_head throws q rest s = (s1, t)" by (cases "send_head throws q rest s")
    note sh = send_head_inv [OF "2.prems"(1,2) _ h]
    show ?thesis
    proof (cases t)
      case True
      with "2.prems" False h sh show ?thesis by auto
    next
      case sent: False
      show ?thesis
      proof (cases "yields (b + int (length (qf_bytes q))) (n + 1)")
        case True
        with "2.prems"(3) False h sent sh show ?thesis by auto
      next
        case no: False
        have "flush_through_loop throws c (b + int (length (qf_bytes q))) (n + 1) rest s1 = (s', r)"
          using "2.prems"(3) False h sent no by simp
        with "2.IH" [OF False h [symmetric] _ no] sent sh False same_gates_trans [of s s1 s'] show ?thesis by auto
      qed
    qed
  qed
qed

text \<open>A flush that ends without a throw has sent everything up to the commit and nothing after it.\<close>

lemma flush_run_inv:
  assumes inv: "publisher_inv s"
  shows "publisher_inv (fst (flush_run throws c s))"
    "never_stalls s \<Longrightarrow> never_stalls (fst (flush_run throws c s))"
    "snd (flush_run throws c s) = Some (Inr ()) \<Longrightarrow>
      (\<exists>d. cp_lastSentCursor (fst (flush_run throws c s)) = Some d \<and> sameReplayCursor d c) \<and>
      (cp_stopped (fst (flush_run throws c s)) \<or> cp_queue (fst (flush_run throws c s)) = [] \<or>
       jc_lastEventSeq c < jc_lastEventSeq (qf_cursor (hd (cp_queue (fst (flush_run throws c s))))))"
proof -
  obtain s1 r where l: "flush_through_loop throws c 0 0 (cp_queue s) s = (s1, r)"
    by (cases "flush_through_loop throws c 0 0 (cp_queue s) s")
  note i = flush_through_loop_inv [OF inv refl l]
  have i1: "publisher_inv s1" and g: "same_gates s s1" using i by blast+
  let ?s2 = "if cp_queue s1 = [] \<and> cp_lastSentCursor s1 \<noteq> None
    then s1\<lparr>cp_lastQueuedCursor := cp_lastSentCursor s1\<rparr> else s1"
  have i2: "publisher_inv ?s2"
  proof (cases "cp_queue s1 = [] \<and> cp_lastSentCursor s1 \<noteq> None \<and> \<not> cp_stopped s1 \<and> \<not> send_threw s1")
    case True
    then obtain b where "unbroken b s1" using i1 by (auto simp: publisher_inv_def)
    then have "cp_lastQueuedCursor s1 = cp_lastSentCursor s1"
      using True by (auto simp: unbroken_def)
    then have "?s2 = s1" by (cases s1) simp
    with i1 show ?thesis by simp
  next
    case False
    have e: "sent_frames ?s2 = sent_frames s1" "send_threw ?s2 = send_threw s1" by (rule effects_cong; simp)+
    from False i1 show ?thesis
      by (auto simp: publisher_inv_def accounts_def unbroken_def sent_frames_def send_threw_def)
  qed
  have fst: "fst (flush_run throws c s) = (if r = None then s1\<lparr>cp_flushes := cp_flushes s1 @ [c]\<rparr>
      else if r = Some False then s1 else ?s2)"
    by (auto simp: flush_run_def l Let_def split: option.split bool.split)
  show "publisher_inv (fst (flush_run throws c s))"
    using i1 i2 by (simp add: fst)
  show "never_stalls (fst (flush_run throws c s))" if "never_stalls s"
    using that g by (auto simp: fst never_stalls_def same_gates_def)
  show "(\<exists>d. cp_lastSentCursor (fst (flush_run throws c s)) = Some d \<and> sameReplayCursor d c) \<and>
      (cp_stopped (fst (flush_run throws c s)) \<or> cp_queue (fst (flush_run throws c s)) = [] \<or>
       jc_lastEventSeq c < jc_lastEventSeq (qf_cursor (hd (cp_queue (fst (flush_run throws c s))))))"
    if "snd (flush_run throws c s) = Some (Inr ())"
    using that i by (auto simp: flush_run_def l Let_def split: option.splits bool.splits if_splits)
qed

lemma publish_effect_inv:
  assumes "publisher_inv s" "sent_of e = []" "\<not> is_threw e"
  shows "publisher_inv (publish_effect e s)"
proof -
  have e: "sent_frames (publish_effect e s) = sent_frames s" "send_threw (publish_effect e s) = send_threw s"
    using assms by simp_all
  from assms(1) show ?thesis
    unfolding publisher_inv_def accounts_def unbroken_def e publish_effect_fields .
qed

lemma queued_frame_inv:
  assumes inv: "publisher_inv s" and sub: "cp_subscribed s" and go: "\<not> cp_stopped s"
    and f: "decodeDataFrame bs = Inr f" "accepts_canonical s f"
    and room: "\<not> (exceedsSoftLimit (int (length bs)) s \<and> \<not> withinPressureFrame (int (length bs)) s)"
  shows "publisher_inv (s\<lparr>cp_queue := cp_queue s @ [\<lparr>qf_bytes = bs, qf_cursor = cursorAfter f\<rparr>],
    cp_queueBytes := cp_queueBytes s + int (length bs), cp_lastQueuedCursor := Some (cursorAfter f)\<rparr>)" (is "publisher_inv ?s")
proof -
  have e: "sent_frames ?s = sent_frames s" "send_threw ?s = send_threw s" by (rule effects_cong; simp)+
  have "accounts ?s"
    using inv f(1) room
    by (auto simp: publisher_inv_def accounts_def cursors_ok_def exceedsSoftLimit_def withinPressureFrame_def
        MAX_CANONICAL_FRAME_BYTES_def)
  moreover have "unbroken b ?s" if b: "unbroken b s" for b
  proof -
    obtain d where d: "cp_lastQueuedCursor s = Some d" using f(2) by (auto simp: accepts_canonical_def split: option.splits)
    have n: "canonical_frame_after d bs = Some f"
      using f d by (auto simp: canonical_frame_after_def accepts_canonical_def)
    show ?thesis
    proof (cases "cp_lastSentCursor s")
      case None
      with b go d show ?thesis by (simp add: unbroken_def)
    next
      case (Some c)
      with b go d n show ?thesis by (simp add: unbroken_def e canonical_run_append)
    qed
  qed
  ultimately show ?thesis using inv sub go by (auto simp: publisher_inv_def e)
qed

lemma push_canonical_inv:
  assumes inv: "publisher_inv s" and sub: "cp_subscribed s"
  shows "publisher_inv (fst (push_canonical bs ok s))"
    "snd (push_canonical bs ok s) = None \<Longrightarrow> cp_stopped (fst (push_canonical bs ok s))"
proof -
  have "publisher_inv (fst (push_canonical bs ok s)) \<and>
    (snd (push_canonical bs ok s) = None \<longrightarrow> cp_stopped (fst (push_canonical bs ok s)))"
  proof (cases "cp_stopped s")
    case True
    with inv show ?thesis by (simp add: push_canonical_def)
  next
    case go: False
    note bad = fail_publisher_inv [OF inv]
    show ?thesis
    proof (cases "decodeDataFrame bs")
      case (Inl e)
      with go bad show ?thesis by (simp add: push_canonical_def)
    next
      case (Inr f)
      let ?n = "int (length bs)"
      show ?thesis
      proof (cases "accepts_canonical s f \<and> \<not> (exceedsSoftLimit ?n s \<and> (\<not> withinPressureFrame ?n s \<or> \<not> ok))")
        case False
        with go Inr bad show ?thesis by (auto simp: push_canonical_def Let_def)
      next
        case True
        let ?s1 = "publish_effect Ingress (s\<lparr>cp_queue := cp_queue s @ [\<lparr>qf_bytes = bs, qf_cursor = cursorAfter f\<rparr>],
          cp_queueBytes := cp_queueBytes s + ?n, cp_lastQueuedCursor := Some (cursorAfter f)\<rparr>)"
        have "publisher_inv ?s1"
          by (rule publish_effect_inv [OF queued_frame_inv [OF inv sub go Inr]]) (use True in auto)
        moreover have "push_canonical bs ok s = (?s1, Some (exceedsSoftLimit ?n s))"
          using go Inr True by (auto simp: push_canonical_def Let_def)
        ultimately show ?thesis by simp
      qed
    qed
  qed
  then show "publisher_inv (fst (push_canonical bs ok s))"
    "snd (push_canonical bs ok s) = None \<Longrightarrow> cp_stopped (fst (push_canonical bs ok s))" by simp_all
qed

lemma enqueue_canonical_inv:
  assumes inv: "publisher_inv s" and sub: "cp_subscribed s"
  shows "publisher_inv (enqueue_canonical throws bs ok s)" "never_stalls (enqueue_canonical throws bs ok s)"
proof -
  obtain s1 p where e: "push_canonical bs ok s = (s1, p)" by (cases "push_canonical bs ok s")
  note pushed = push_canonical_inv [OF inv sub, of bs ok, unfolded e]
  have "publisher_inv (if b then publish_effect RecoveryPressure s1 else s1)" for b
    using pushed(1) by (simp add: publish_effect_inv)
  with pushed schedulePump_inv [of "if the p then publish_effect RecoveryPressure s1 else s1" throws] stopped_never_stalls
  show "publisher_inv (enqueue_canonical throws bs ok s)" "never_stalls (enqueue_canonical throws bs ok s)"
    by (cases p; simp add: enqueue_canonical_def e)+
qed

lemma prepare_inv:
  assumes inv: "publisher_inv s"
  shows "publisher_inv (fst (prepare c a s))"
proof (cases "cp_subscribed s")
  case True
  with inv show ?thesis by (simp add: prepare_def)
next
  case False
  define s' where "s' = s\<lparr>cp_lastSentCursor := Some c, cp_lastQueuedCursor := Some c, cp_subscribed := a\<rparr>"
  have e: "sent_frames s' = sent_frames s" "send_threw s' = send_threw s" by (rule effects_cong; simp add: s'_def)+
  have f: "cp_lastSentCursor s' = Some c" "cp_lastQueuedCursor s' = Some c" "cp_queue s' = cp_queue s"
    "cp_queueBytes s' = cp_queueBytes s" "cp_stopped s' = cp_stopped s"
    by (simp_all add: s'_def)
  have "publisher_inv s'"
  proof (cases "cp_stopped s")
    case True
    with inv show ?thesis by (auto simp: publisher_inv_def accounts_def unbroken_def e f)
  next
    case go: False
    with inv False have empty: "cp_queue s = []" "sent_frames s = []" by (simp_all add: publisher_inv_def)
    then have "unbroken c s'" by (simp add: unbroken_def e f)
    with inv empty show ?thesis by (auto simp: publisher_inv_def accounts_def e f)
  qed
  moreover have "fst (prepare c a s) = s'"
    using False by (simp add: prepare_def Let_def s'_def)
  ultimately show ?thesis by simp
qed

lemma publisher_step_inv:
  assumes inv: "publisher_inv s" and live: "never_stalls s"
  shows "publisher_inv (publisher_step throws s e) \<and> never_stalls (publisher_step throws s e)"
proof (cases e)
  case (Prepare c a)
  have "never_stalls (fst (prepare c a s))" using live by (simp add: prepare_def Let_def never_stalls_def)
  with Prepare prepare_inv [OF inv] show ?thesis by simp
next
  case (Activate c)
  with inv live schedulePump_inv [of "s\<lparr>cp_ready := True\<rparr>" throws] show ?thesis
    by (auto simp: activate_publisher_def split: option.split)
next
  case Pause
  with inv show ?thesis by (simp add: pause_publisher_def never_stalls_def)
next
  case Resume
  with inv live schedulePump_inv [of "s\<lparr>cp_paused := False\<rparr>" throws] show ?thesis by (simp add: resume_publisher_def)
next
  case (FlushThrough c)
  with flush_run_inv [OF inv] live show ?thesis by (simp add: flushThrough_def)
next
  case (FlushResumes c)
  have "publisher_inv (s\<lparr>cp_flushes := fs\<rparr>)" "never_stalls (s\<lparr>cp_flushes := fs\<rparr>)" for fs
    using inv live by (simp_all add: never_stalls_def)
  with FlushResumes inv live flush_run_inv(1,2) show ?thesis by (simp add: flush_resumes_def)
next
  case (FrameArrives bs ok)
  with enqueue_canonical_inv [OF inv] inv live show ?thesis by simp
next
  case PumpResumes
  with run_pump_inv [OF inv] inv live show ?thesis by simp
next
  case PumpSettled
  have "publisher_inv (pump_settled throws s) \<and> never_stalls (pump_settled throws s)"
  proof (cases "cp_pumpPromise s")
    case PumpResolved
    with inv schedulePump_inv [of "s\<lparr>cp_pumpPromise := NoPump\<rparr>" throws] show ?thesis by (simp add: pump_settled_def)
  next
    case PumpRejected
    with inv fail_publisher_inv [of "s\<lparr>cp_pumpPromise := NoPump\<rparr>" PumpFailed] stopped_never_stalls show ?thesis
      by (simp add: pump_settled_def)
  qed (use inv live in \<open>simp_all add: pump_settled_def\<close>)
  with PumpSettled show ?thesis by simp
next
  case Dispose
  with dispose_publisher_inv [OF inv] stopped_never_stalls show ?thesis by simp
qed

interpretation publisher: inv_machine "publisher_step throws" "\<lambda>s. publisher_inv s \<and> never_stalls s" for throws
  by unfold_locales (use publisher_step_inv in blast)

lemma newCanonicalPublisher_inv: "publisher_inv newCanonicalPublisher" "never_stalls newCanonicalPublisher"
  by (simp_all add: newCanonicalPublisher_def publisher_inv_def accounts_def unbroken_def sent_frames_def send_threw_def cursors_ok_def
      never_stalls_def maxQueueFrames_def maxQueueBytes_def HOST_CANONICAL_QUEUE_LIMITS_def MAX_CANONICAL_FRAME_BYTES_def)

lemma publisher_reachable:
  "publisher_inv (foldl (publisher_step throws) newCanonicalPublisher es) \<and>
   never_stalls (foldl (publisher_step throws) newCanonicalPublisher es)"
  by (rule publisher.run_inv) (simp add: newCanonicalPublisher_inv)

section \<open>What the publisher promises\<close>

definition publisher_after :: "(nat \<Rightarrow> bool) \<Rightarrow> publisher_event list \<Rightarrow> canonical_publisher" where
  "publisher_after throws es = foldl (publisher_step throws) newCanonicalPublisher es"

text \<open>
  C21. The canonical publisher sends an unbroken run: as long as no send has thrown, the frames handed to the data socket
  are canonical frames that follow each other without a gap in event numbers or offsets from one start cursor, the cursor it
  reports as sent is the end of that run, and while it is not stopped the queued frames continue it.
\<close>

theorem publisher_sends_unbroken_run:
  assumes "\<not> send_threw (publisher_after throws es)"
  shows "\<exists>b c. canonical_run b (sent_frames (publisher_after throws es)) = Some c \<and>
    (\<not> cp_stopped (publisher_after throws es) \<longrightarrow>
      (case cp_lastSentCursor (publisher_after throws es) of
         None \<Rightarrow> sent_frames (publisher_after throws es) = [] \<and> cp_queue (publisher_after throws es) = []
       | Some c' \<Rightarrow> c' = c \<and> (\<exists>d. cp_lastQueuedCursor (publisher_after throws es) = Some d \<and>
           canonical_run c (map qf_bytes (cp_queue (publisher_after throws es))) = Some d)))"
proof -
  let ?s = "publisher_after throws es"
  have "publisher_inv ?s" using publisher_reachable by (simp add: publisher_after_def)
  with assms obtain b where b: "unbroken b ?s" by (auto simp: publisher_inv_def)
  then obtain c where "canonical_run b (sent_frames ?s) = Some c" by (auto simp: unbroken_def)
  with b show ?thesis by (intro exI [of _ b] exI [of _ c]) (auto simp: unbroken_def split: option.splits)
qed

text \<open>
  C23. The canonical publisher never stalls: whenever its pump is not running and frames are queued, it is stopped, not yet
  ready or paused; its queue accounting is exact and stays within the limits and the one pressure frame.
\<close>

theorem publisher_never_stalls:
  "(cp_pumpPromise (publisher_after throws es) = NoPump \<and> cp_queue (publisher_after throws es) \<noteq> [] \<longrightarrow>
     \<not> cp_ready (publisher_after throws es) \<or> cp_paused (publisher_after throws es)) \<and>
   cp_queueBytes (publisher_after throws es) = (\<Sum>q\<leftarrow>cp_queue (publisher_after throws es). int (length (qf_bytes q))) \<and>
   length (cp_queue (publisher_after throws es)) \<le> 1025 \<and>
   cp_queueBytes (publisher_after throws es) \<le> 8 * 1024 * 1024 + 48 + 16 * 1024"
proof -
  let ?s = "publisher_after throws es"
  have i: "publisher_inv ?s" "never_stalls ?s" using publisher_reachable by (simp_all add: publisher_after_def)
  have a: "accounts ?s" and st: "cp_stopped ?s \<longrightarrow> cp_queue ?s = []"
    using i(1) by (simp_all add: publisher_inv_def)
  from a have "length (cp_queue ?s) \<le> 1025" "cp_queueBytes ?s \<le> 8 * 1024 * 1024 + 48 + 16 * 1024"
      "cp_queueBytes ?s = (\<Sum>q\<leftarrow>cp_queue ?s. int (length (qf_bytes q)))"
    by (simp_all add: accounts_def queued_bytes_def maxQueueFrames_def maxQueueBytes_def HOST_CANONICAL_QUEUE_LIMITS_def
        MAX_CANONICAL_FRAME_BYTES_def DATA_HEADER_BYTES_def)
  with i(2) st show ?thesis by (auto simp: never_stalls_def)
qed

text \<open>
  A flush that returns without an error has reached exactly the requested commit: the last frame sent is the commit's, and the
  next queued frame, if the publisher still runs and has one, lies after it.
\<close>

theorem flush_reaches_commit:
  assumes "snd (flush_run throws c (publisher_after throws' es)) = Some (Inr ())"
  shows "\<exists>d. cp_lastSentCursor (fst (flush_run throws c (publisher_after throws' es))) = Some d \<and> sameReplayCursor d c \<and>
    (\<forall>q rest. cp_queue (fst (flush_run throws c (publisher_after throws' es))) = q # rest \<longrightarrow>
      jc_lastEventSeq c < jc_lastEventSeq (qf_cursor q))"
proof -
  have i: "publisher_inv (publisher_after throws' es)" using publisher_reachable by (simp add: publisher_after_def)
  note f = flush_run_inv [OF i]
  have "cp_stopped (fst (flush_run throws c (publisher_after throws' es))) \<longrightarrow>
      cp_queue (fst (flush_run throws c (publisher_after throws' es))) = []"
    using f(1) by (simp add: publisher_inv_def)
  with f(3) [OF assms] show ?thesis by auto
qed

text \<open>Two frames arrive before the pair is ready; the first is flushed, then the pump sends the second.\<close>

definition demo_pty_frame :: "int \<Rightarrow> int \<Rightarrow> bytes" where
  "demo_pty_frame n off = write_data_frame \<lparr>df_kind = PtyOutput, df_flags = 0, df_sessionEpoch = 7,
     df_deliveryGeneration = 0, df_eventSeq = n, df_ptyOffset = off, df_streamId = 0, df_payload = [65, 66]\<rparr>"

definition demo_start_cursor :: ReplayCursor where
  "demo_start_cursor = \<lparr>jc_lastEventSeq = 4, jc_nextPtyOffset = 10, rp_sessionEpoch = 7\<rparr>"

definition demo_publisher_events :: "publisher_event list" where
  "demo_publisher_events = [Prepare demo_start_cursor True, FrameArrives (demo_pty_frame 5 10) True,
     FrameArrives (demo_pty_frame 6 12) True]"

definition demo_commit :: ReplayCursor where
  "demo_commit = \<lparr>jc_lastEventSeq = 5, jc_nextPtyOffset = 12, rp_sessionEpoch = 7\<rparr>"

lemma demo_publisher_quiet: "\<not> send_threw (publisher_after (\<lambda>_. False) demo_publisher_events)"
  by code_simp

lemma demo_flush: "snd (flush_run (\<lambda>_. False) demo_commit (publisher_after (\<lambda>_. False) demo_publisher_events)) = Some (Inr ()) \<and>
  map (jc_lastEventSeq \<circ> qf_cursor)
    (cp_queue (fst (flush_run (\<lambda>_. False) demo_commit (publisher_after (\<lambda>_. False) demo_publisher_events)))) = [6]"
  by code_simp

theorem publisher_sends_unbroken_run_witness:
  "\<exists>b c. canonical_run b (sent_frames (publisher_after (\<lambda>_. False) demo_publisher_events)) = Some c"
  using publisher_sends_unbroken_run [OF demo_publisher_quiet] by blast

lemma demo_queued: "cp_queue (publisher_after (\<lambda>_. False) demo_publisher_events) \<noteq> [] \<and>
  cp_pumpPromise (publisher_after (\<lambda>_. False) demo_publisher_events) = NoPump"
  by code_simp

theorem publisher_never_stalls_witness:
  "\<not> (cp_ready (publisher_after (\<lambda>_. False) demo_publisher_events) \<and>
      \<not> cp_paused (publisher_after (\<lambda>_. False) demo_publisher_events))"
  using publisher_never_stalls [of "\<lambda>_. False" demo_publisher_events] demo_queued by blast

theorem flush_reaches_commit_witness:
  "\<exists>d. cp_lastSentCursor (fst (flush_run (\<lambda>_. False) demo_commit (publisher_after (\<lambda>_. False) demo_publisher_events))) = Some d \<and>
    sameReplayCursor d demo_commit"
  using flush_reaches_commit [OF conjunct1 [OF demo_flush]] by blast

end
