(* ===== verification/Barrier_Waiter.thy ===== *)
theory Barrier_Waiter
  imports Data_Frame Scalars
begin

text \<open>
  \<open>apps/host-daemon/src/cloud/delivery-barrier-waiter.ts\<close> and the encoder of \<open>packages/protocol/src/delivery-barrier.ts\<close>:
  the host sends a barrier marker and waits for the relay's verdict. A waiting promise is a number; the receipt of the
  marker, the abort of its signal and the verdict are events. Strings are code points below 256, so that
  \<open>JSON.stringify\<close> and the UTF-8 encoder can be written out.
\<close>

section \<open>The barrier payload\<close>

datatype BarrierMode = warm_mode | snapshot_mode string

record DeliveryBarrierPayload =
  bp_mode :: BarrierMode
  bp_connectionId :: string

datatype PayloadError = SchemaError | PayloadTooLarge

definition SnapshotResourceIdSchema :: "string \<Rightarrow> bool" where
  "SnapshotResourceIdSchema s \<longleftrightarrow> identifier_ok s"

definition DeliveryBarrierPayloadSchema :: "DeliveryBarrierPayload \<Rightarrow> bool" where
  "DeliveryBarrierPayloadSchema p \<longleftrightarrow> 1 \<le> length (bp_connectionId p) \<and> length (bp_connectionId p) \<le> 128 \<and>
     (case bp_mode p of warm_mode \<Rightarrow> True | snapshot_mode i \<Rightarrow> SnapshotResourceIdSchema i)"

definition MAX_DELIVERY_BARRIER_PAYLOAD_BYTES :: nat where
  "MAX_DELIVERY_BARRIER_PAYLOAD_BYTES = 512"

definition hex_digit :: "nat \<Rightarrow> char" where
  "hex_digit n = char_of (if n < 10 then n + 48 else n + 87)"

text \<open>The escapes of \<open>JSON.stringify\<close> in a string: backspace, tab, line feed, form feed, return, quote, backslash, other controls.\<close>

definition json_escape :: "char \<Rightarrow> string" where
  "json_escape c = (let n = of_char c :: nat; b = char_of (92 :: nat) in
     if n = 34 \<or> n = 92 then [b, c]
     else if n = 8 then [b, CHR ''b''] else if n = 9 then [b, CHR ''t''] else if n = 10 then [b, CHR ''n'']
     else if n = 12 then [b, CHR ''f''] else if n = 13 then [b, CHR ''r'']
     else if n < 32 then [b, CHR ''u'', CHR ''0'', CHR ''0'', hex_digit (n div 16), hex_digit (n mod 16)]
     else [c])"

definition json_string :: "string \<Rightarrow> string" where
  "json_string s = [char_of (34 :: nat)] @ concat (map json_escape s) @ [char_of (34 :: nat)]"

definition json_field :: "string \<Rightarrow> string \<Rightarrow> string" where
  "json_field k v = json_string k @ '':'' @ json_string v"

definition payload_json :: "DeliveryBarrierPayload \<Rightarrow> string" where
  "payload_json p = ''{'' @ json_field ''mode'' (case bp_mode p of warm_mode \<Rightarrow> ''warm'' | snapshot_mode _ \<Rightarrow> ''snapshot'') @
     '','' @ json_field ''connectionId'' (bp_connectionId p) @
     (case bp_mode p of warm_mode \<Rightarrow> '''' | snapshot_mode i \<Rightarrow> '','' @ json_field ''snapshotId'' i) @ ''}''"

definition utf8 :: "char \<Rightarrow> bytes" where
  "utf8 c = (let n = of_char c :: nat in
     if n < 128 then [of_nat n] else [of_nat (192 + n div 64), of_nat (128 + n mod 64)])"

definition encodeDeliveryBarrierPayload :: "DeliveryBarrierPayload \<Rightarrow> PayloadError + bytes" where
  "encodeDeliveryBarrierPayload p =
     (if \<not> DeliveryBarrierPayloadSchema p then Inl SchemaError
      else let encoded = concat (map utf8 (payload_json p)) in
        if MAX_DELIVERY_BARRIER_PAYLOAD_BYTES < length encoded then Inl PayloadTooLarge else Inr encoded)"

section \<open>The waiter's state\<close>

record BarrierIdentity =
  bi_commitEventSeq :: string
  bi_commitPtyOffset :: string
  bi_connectionId :: string
  bi_deliveryGeneration :: string
  bi_streamId :: int
  bi_mode :: BarrierMode

datatype BarrierStatus = barrier_ready | barrier_stale | barrier_rejected

text \<open>The reason of a verdict, sent to hosts that negotiated it; it fixes the status and the scope of a retry.\<close>

datatype BarrierDetail =
    generation_fenced | client_gone | missing_live_seed | snapshot_missing | snapshot_metadata_mismatch | browser_control_send_failed

fun detail_status :: "BarrierDetail \<Rightarrow> BarrierStatus" where
  "detail_status generation_fenced = barrier_stale"
| "detail_status client_gone = barrier_stale"
| "detail_status _ = barrier_rejected"

record DeliveryBarrierResult = BarrierIdentity +
  br_status :: BarrierStatus
  br_detail :: "BarrierDetail option"

datatype WaitError = Disposed string | AlreadyPending | Aborted | BadMarker | SendError | MarkerCallbackError

record PendingBarrier =
  pb_id :: nat
  pb_expected :: BarrierIdentity
  pb_earlyResult :: "DeliveryBarrierResult option"
  pb_markerSent :: bool

datatype BarrierEffect =
    MarkerHanded nat bytes
  | MarkerSentCallback nat
  | BarrierResolved nat BarrierIdentity DeliveryBarrierResult
  | BarrierRejected nat WaitError

record barrier_waiter =
  bw_disposedReason :: "string option"
  bw_pending :: "PendingBarrier option"
  bw_nextId :: nat
  bw_effects :: "BarrierEffect list"

definition newBarrierWaiter :: barrier_waiter where
  "newBarrierWaiter = \<lparr>bw_disposedReason = None, bw_pending = None, bw_nextId = 0, bw_effects = []\<rparr>"

text \<open>What \<open>sendData\<close> does with the marker, and what \<open>onMarkerSent\<close> does.\<close>

datatype SendOutcome = SendReturns | SendThrows | SendPromises
datatype CallbackOutcome = CallbackReturns | CallbackThrows | CallbackAborts

definition barrier_effect :: "BarrierEffect \<Rightarrow> barrier_waiter \<Rightarrow> barrier_waiter" where
  "barrier_effect e s = s\<lparr>bw_effects := bw_effects s @ [e]\<rparr>"

section \<open>Settling\<close>

definition pending_is :: "nat \<Rightarrow> barrier_waiter \<Rightarrow> bool" where
  "pending_is i s \<longleftrightarrow> (case bw_pending s of None \<Rightarrow> False | Some p \<Rightarrow> pb_id p = i)"

definition rejectPending :: "nat \<Rightarrow> WaitError \<Rightarrow> barrier_waiter \<Rightarrow> barrier_waiter" where
  "rejectPending i e s =
     (if \<not> pending_is i s then s else barrier_effect (BarrierRejected i e) (s\<lparr>bw_pending := None\<rparr>))"

definition resolvePending :: "PendingBarrier \<Rightarrow> DeliveryBarrierResult \<Rightarrow> barrier_waiter \<Rightarrow> barrier_waiter" where
  "resolvePending p r s =
     (if \<not> pending_is (pb_id p) s then s
      else barrier_effect (BarrierResolved (pb_id p) (pb_expected p) r) (s\<lparr>bw_pending := None\<rparr>))"

definition markBarrierSent :: "nat \<Rightarrow> CallbackOutcome \<Rightarrow> barrier_waiter \<Rightarrow> barrier_waiter" where
  "markBarrierSent i cb s =
     (case bw_pending s of
        None \<Rightarrow> s
      | Some p \<Rightarrow>
          if pb_id p \<noteq> i then s
          else let p1 = p\<lparr>pb_markerSent := True\<rparr>;
                   s1 = barrier_effect (MarkerSentCallback i) (s\<lparr>bw_pending := Some p1\<rparr>)
            in (case cb of
                CallbackThrows \<Rightarrow> rejectPending i MarkerCallbackError s1
              | CallbackAborts \<Rightarrow> rejectPending i Aborted s1
              | CallbackReturns \<Rightarrow> (case pb_earlyResult p1 of None \<Rightarrow> s1 | Some r \<Rightarrow> resolvePending p1 r s1)))"

definition isMatchingDeliveryBarrierResult :: "BarrierIdentity \<Rightarrow> DeliveryBarrierResult \<Rightarrow> bool" where
  "isMatchingDeliveryBarrierResult expected result \<longleftrightarrow>
     bi_connectionId result = bi_connectionId expected \<and> bi_streamId result = bi_streamId expected \<and>
     bi_deliveryGeneration result = bi_deliveryGeneration expected \<and>
     bi_commitEventSeq result = bi_commitEventSeq expected \<and> bi_commitPtyOffset result = bi_commitPtyOffset expected \<and>
     bi_mode result = bi_mode expected"

section \<open>The operations\<close>

definition encode_marker :: "int \<Rightarrow> BarrierIdentity \<Rightarrow> WaitError + bytes" where
  "encode_marker sessionEpoch ident =
     (case encodeDeliveryBarrierPayload \<lparr>bp_mode = bi_mode ident, bp_connectionId = bi_connectionId ident\<rparr> of
        Inl _ \<Rightarrow> Inl BadMarker
      | Inr payload \<Rightarrow>
          (case encodeDataFrame \<lparr>df_kind = DeliveryBarrier, df_flags = 0, df_sessionEpoch = sessionEpoch,
              df_deliveryGeneration = bigint_of (bi_deliveryGeneration ident), df_eventSeq = bigint_of (bi_commitEventSeq ident),
              df_ptyOffset = bigint_of (bi_commitPtyOffset ident), df_streamId = bi_streamId ident, df_payload = payload\<rparr> of
             Inl _ \<Rightarrow> Inl BadMarker
           | Inr bs \<Rightarrow> Inr bs))"

text \<open>\<open>Inl\<close> is a synchronous throw, \<open>Inr\<close> the promise's number.\<close>

definition barrier_wait ::
  "BarrierIdentity \<Rightarrow> bool \<Rightarrow> int \<Rightarrow> SendOutcome \<Rightarrow> CallbackOutcome \<Rightarrow> barrier_waiter \<Rightarrow> barrier_waiter \<times> (WaitError + nat)" where
  "barrier_wait ident aborted sessionEpoch send cb s =
     (case bw_disposedReason s of
        Some r \<Rightarrow> (s, Inl (Disposed r))
      | None \<Rightarrow>
          if bw_pending s \<noteq> None then (s, Inl AlreadyPending)
          else if aborted then (s, Inl Aborted)
          else (case encode_marker sessionEpoch ident of
              Inl e \<Rightarrow> (s, Inl e)
            | Inr encoded \<Rightarrow>
                let i = bw_nextId s;
                    s1 = barrier_effect (MarkerHanded i encoded)
                      (s\<lparr>bw_nextId := Suc i, bw_pending := Some \<lparr>pb_id = i, pb_expected = ident, pb_earlyResult = None,
                          pb_markerSent = False\<rparr>\<rparr>)
                in (case send of
                    SendReturns \<Rightarrow> markBarrierSent i cb s1
                  | SendThrows \<Rightarrow> rejectPending i SendError s1
                  | SendPromises \<Rightarrow> s1, Inr i)))"

definition handle_result :: "DeliveryBarrierResult \<Rightarrow> barrier_waiter \<Rightarrow> barrier_waiter" where
  "handle_result r s =
     (case bw_pending s of
        None \<Rightarrow> s
      | Some p \<Rightarrow>
          if \<not> isMatchingDeliveryBarrierResult (pb_expected p) r then s
          else if \<not> pb_markerSent p
          then s\<lparr>bw_pending := Some (p\<lparr>pb_earlyResult := (case pb_earlyResult p of None \<Rightarrow> Some r | Some r' \<Rightarrow> Some r')\<rparr>)\<rparr>
          else resolvePending p r s)"

definition dispose_waiter :: "string \<Rightarrow> barrier_waiter \<Rightarrow> barrier_waiter" where
  "dispose_waiter reason s =
     (if bw_disposedReason s \<noteq> None then s
      else let s1 = s\<lparr>bw_disposedReason := Some reason\<rparr> in
        (case bw_pending s1 of None \<Rightarrow> s1 | Some p \<Rightarrow> rejectPending (pb_id p) (Disposed reason) s1))"

datatype waiter_event =
    WaitBarrier BarrierIdentity bool int SendOutcome CallbackOutcome
  | ReceiptResolves nat CallbackOutcome
  | ReceiptRejects nat
  | SignalAborts nat
  | HandleResult DeliveryBarrierResult
  | DisposeWaiter string

fun waiter_step :: "barrier_waiter \<Rightarrow> waiter_event \<Rightarrow> barrier_waiter" where
  "waiter_step s (WaitBarrier b a ep send cb) = fst (barrier_wait b a ep send cb s)"
| "waiter_step s (ReceiptResolves i cb) = markBarrierSent i cb s"
| "waiter_step s (ReceiptRejects i) = rejectPending i SendError s"
| "waiter_step s (SignalAborts i) = rejectPending i Aborted s"
| "waiter_step s (HandleResult r) = handle_result r s"
| "waiter_step s (DisposeWaiter r) = dispose_waiter r s"

section \<open>Every promise settles once, on its own verdict\<close>

fun settles_id :: "BarrierEffect \<Rightarrow> nat list" where
  "settles_id (BarrierResolved i b r) = [i]"
| "settles_id (BarrierRejected i e) = [i]"
| "settles_id _ = []"

definition settled_barriers :: "barrier_waiter \<Rightarrow> nat list" where
  "settled_barriers s = concat (map settles_id (bw_effects s))"

definition pending_barriers :: "barrier_waiter \<Rightarrow> nat list" where
  "pending_barriers s = (case bw_pending s of None \<Rightarrow> [] | Some p \<Rightarrow> [pb_id p])"

text \<open>A resolution is of a verdict that matches the barrier whose marker was handed over and went out.\<close>

definition resolution_ok :: "BarrierEffect list \<Rightarrow> nat \<Rightarrow> BarrierIdentity \<Rightarrow> DeliveryBarrierResult \<Rightarrow> bool" where
  "resolution_ok es i b r \<longleftrightarrow> isMatchingDeliveryBarrierResult b r \<and> MarkerSentCallback i \<in> set es \<and>
     (\<exists>ep bs. encode_marker ep b = Inr bs \<and> MarkerHanded i bs \<in> set es)"

definition resolutions_ok :: "BarrierEffect list \<Rightarrow> bool" where
  "resolutions_ok es \<longleftrightarrow> (\<forall>xs i b r ys. es = xs @ BarrierResolved i b r # ys \<longrightarrow> resolution_ok xs i b r)"

definition pending_ok :: "BarrierEffect list \<Rightarrow> PendingBarrier \<Rightarrow> bool" where
  "pending_ok es p \<longleftrightarrow> (pb_markerSent p \<longrightarrow> MarkerSentCallback (pb_id p) \<in> set es) \<and>
     (\<forall>r. pb_earlyResult p = Some r \<longrightarrow> isMatchingDeliveryBarrierResult (pb_expected p) r) \<and>
     (\<exists>ep bs. encode_marker ep (pb_expected p) = Inr bs \<and> MarkerHanded (pb_id p) bs \<in> set es)"

definition waiter_inv :: "barrier_waiter \<Rightarrow> bool" where
  "waiter_inv s \<longleftrightarrow>
     (\<forall>i. count_list (pending_barriers s) i + count_list (settled_barriers s) i = (if i < bw_nextId s then 1 else 0)) \<and>
     (bw_disposedReason s \<noteq> None \<longrightarrow> bw_pending s = None) \<and> resolutions_ok (bw_effects s) \<and>
     (\<forall>p. bw_pending s = Some p \<longrightarrow> pending_ok (bw_effects s) p)"

lemma resolutions_ok_snoc:
  "resolutions_ok (es @ [e]) \<longleftrightarrow> resolutions_ok es \<and> (\<forall>i b r. e = BarrierResolved i b r \<longrightarrow> resolution_ok es i b r)"
proof
  assume ok: "resolutions_ok (es @ [e])"
  have "resolution_ok xs i b r" if "es = xs @ BarrierResolved i b r # ys" for xs i b r ys
    using ok that unfolding resolutions_ok_def by (metis append.assoc append_Cons)
  moreover have "resolution_ok es i b r" if "e = BarrierResolved i b r" for i b r
    using ok that unfolding resolutions_ok_def by blast
  ultimately show "resolutions_ok es \<and> (\<forall>i b r. e = BarrierResolved i b r \<longrightarrow> resolution_ok es i b r)"
    unfolding resolutions_ok_def by blast
next
  assume a: "resolutions_ok es \<and> (\<forall>i b r. e = BarrierResolved i b r \<longrightarrow> resolution_ok es i b r)"
  show "resolutions_ok (es @ [e])"
    unfolding resolutions_ok_def
  proof (intro allI impI)
    fix xs i b r ys assume eq: "es @ [e] = xs @ BarrierResolved i b r # ys"
    show "resolution_ok xs i b r"
    proof (cases ys rule: rev_cases)
      case Nil
      with eq a show ?thesis by auto
    next
      case (snoc zs z)
      with eq have "es = xs @ BarrierResolved i b r # zs" by simp
      with a show ?thesis unfolding resolutions_ok_def by blast
    qed
  qed
qed

lemma pending_ok_mono: "pending_ok es p \<Longrightarrow> pending_ok (es @ fs) p"
  by (auto simp: pending_ok_def)

lemma barrier_effect_fields [simp]:
  "bw_disposedReason (barrier_effect e s) = bw_disposedReason s" "bw_pending (barrier_effect e s) = bw_pending s"
  "bw_nextId (barrier_effect e s) = bw_nextId s" "bw_effects (barrier_effect e s) = bw_effects s @ [e]"
  "settled_barriers (barrier_effect e s) = settled_barriers s @ settles_id e"
  "pending_barriers (barrier_effect e s) = pending_barriers s"
  by (simp_all add: barrier_effect_def settled_barriers_def pending_barriers_def)

text \<open>The pending promise settles: what rejecting and resolving have in common.\<close>

lemma settle_inv:
  assumes inv: "waiter_inv s" and p: "bw_pending s = Some p" and e: "settles_id e = [pb_id p]"
    and r: "\<And>i b r. e = BarrierResolved i b r \<Longrightarrow> resolution_ok (bw_effects s) i b r"
  shows "waiter_inv (barrier_effect e (s\<lparr>bw_pending := None\<rparr>))"
proof -
  have c: "count_list (pending_barriers s) j + count_list (settled_barriers s) j = (if j < bw_nextId s then 1 else 0)" for j
    using inv by (simp add: waiter_inv_def)
  have "count_list (settled_barriers s @ [pb_id p]) j = (if j < bw_nextId s then 1 else 0)" for j
    using c [of j] p by (auto simp: pending_barriers_def split: if_splits)
  then show ?thesis
    using inv e r
    by (auto simp: waiter_inv_def resolutions_ok_snoc pending_barriers_def settled_barriers_def barrier_effect_def)
qed

lemma reject_inv:
  assumes "waiter_inv s"
  shows "waiter_inv (rejectPending i e s)"
proof (cases "bw_pending s")
  case None
  with assms show ?thesis by (simp add: rejectPending_def pending_is_def)
next
  case (Some p)
  with settle_inv [OF assms Some, of "BarrierRejected (pb_id p) e"] assms show ?thesis
    by (auto simp: rejectPending_def pending_is_def)
qed

lemma resolve_inv:
  assumes inv: "waiter_inv s" and p: "bw_pending s = Some p" and sent: "pb_markerSent p"
    and r: "isMatchingDeliveryBarrierResult (pb_expected p) r"
  shows "waiter_inv (resolvePending p r s)"
proof -
  have "pending_ok (bw_effects s) p" using inv p by (simp add: waiter_inv_def)
  with r sent have "resolution_ok (bw_effects s) (pb_id p) (pb_expected p) r"
    by (auto simp: pending_ok_def resolution_ok_def)
  with settle_inv [OF inv p, of "BarrierResolved (pb_id p) (pb_expected p) r"] p show ?thesis
    by (simp add: resolvePending_def pending_is_def)
qed

text \<open>Replacing the pending record by one of the same number, and logging an effect that settles nothing.\<close>

lemma update_inv:
  assumes inv: "waiter_inv s" and p: "bw_pending s = Some p" and q: "pb_id q = pb_id p" "pending_ok (bw_effects s @ es) q"
    and es: "\<forall>e\<in>set es. settles_id e = [] \<and> (\<forall>i b r. e \<noteq> BarrierResolved i b r)"
  shows "waiter_inv (s\<lparr>bw_pending := Some q, bw_effects := bw_effects s @ es\<rparr>)"
proof -
  have "resolutions_ok (bw_effects s @ es)"
    using es
  proof (induction es rule: rev_induct)
    case Nil
    then show ?case using inv by (simp add: waiter_inv_def)
  next
    case (snoc e es)
    then show ?case by (auto simp: resolutions_ok_snoc simp flip: append_assoc)
  qed
  moreover have "concat (map settles_id es) = []" using es by auto
  ultimately show ?thesis
    using inv p q by (auto simp: waiter_inv_def pending_barriers_def settled_barriers_def)
qed

lemma markBarrierSent_inv:
  assumes inv: "waiter_inv s"
  shows "waiter_inv (markBarrierSent i cb s)"
proof (cases "\<exists>p. bw_pending s = Some p \<and> pb_id p = i")
  case False
  with inv show ?thesis by (auto simp: markBarrierSent_def split: option.split)
next
  case True
  then obtain p where p: "bw_pending s = Some p" "pb_id p = i" by blast
  let ?q = "p\<lparr>pb_markerSent := True\<rparr>"
  let ?s = "barrier_effect (MarkerSentCallback i) (s\<lparr>bw_pending := Some ?q\<rparr>)"
  have ok: "pending_ok (bw_effects s) p" using inv p by (simp add: waiter_inv_def)
  have i1: "waiter_inv ?s"
    using update_inv [OF inv p(1), of ?q "[MarkerSentCallback i]"] ok p(2)
    by (auto simp: pending_ok_def barrier_effect_def)
  show ?thesis
  proof (cases cb)
    case CallbackReturns
    show ?thesis
    proof (cases "pb_earlyResult p")
      case None
      with i1 p CallbackReturns show ?thesis by (simp add: markBarrierSent_def Let_def)
    next
      case (Some r)
      with ok have "isMatchingDeliveryBarrierResult (pb_expected ?q) r" by (simp add: pending_ok_def)
      from resolve_inv [OF i1 _ _ this] Some p CallbackReturns show ?thesis by (simp add: markBarrierSent_def Let_def)
    qed
  qed (use reject_inv [OF i1] p in \<open>simp_all add: markBarrierSent_def Let_def\<close>)
qed

lemma handle_inv:
  assumes inv: "waiter_inv s"
  shows "waiter_inv (handle_result r s)"
proof (cases "\<exists>p. bw_pending s = Some p \<and> isMatchingDeliveryBarrierResult (pb_expected p) r")
  case False
  with inv show ?thesis by (auto simp: handle_result_def split: option.split)
next
  case True
  then obtain p where p: "bw_pending s = Some p" "isMatchingDeliveryBarrierResult (pb_expected p) r" by blast
  show ?thesis
  proof (cases "pb_markerSent p")
    case True
    with p resolve_inv [OF inv p(1) True p(2)] show ?thesis by (simp add: handle_result_def)
  next
    case False
    let ?q = "p\<lparr>pb_earlyResult := (case pb_earlyResult p of None \<Rightarrow> Some r | Some r' \<Rightarrow> Some r')\<rparr>"
    have "pending_ok (bw_effects s) ?q"
      using inv p by (auto simp: waiter_inv_def pending_ok_def split: option.splits)
    from update_inv [OF inv p(1), of ?q "[]"] this p False show ?thesis by (simp add: handle_result_def)
  qed
qed

lemma wait_inv:
  assumes inv: "waiter_inv s"
  shows "waiter_inv (fst (barrier_wait b a ep send cb s))"
proof (cases "bw_disposedReason s = None \<and> bw_pending s = None \<and> \<not> a \<and> (\<exists>bs. encode_marker ep b = Inr bs)")
  case False
  with inv show ?thesis by (auto simp: barrier_wait_def split: option.splits sum.splits)
next
  case True
  then obtain bs where bs: "encode_marker ep b = Inr bs" by blast
  let ?p = "\<lparr>pb_id = bw_nextId s, pb_expected = b, pb_earlyResult = None, pb_markerSent = False\<rparr>"
  let ?s = "barrier_effect (MarkerHanded (bw_nextId s) bs) (s\<lparr>bw_nextId := Suc (bw_nextId s), bw_pending := Some ?p\<rparr>)"
  have c: "count_list (settled_barriers s) j = (if j < bw_nextId s then 1 else 0)" for j
    using inv True by (simp add: waiter_inv_def pending_barriers_def)
  have "waiter_inv ?s"
    using inv True bs c
    by (auto simp: waiter_inv_def resolutions_ok_snoc pending_ok_def pending_barriers_def settled_barriers_def barrier_effect_def)
  with True bs markBarrierSent_inv [of ?s] reject_inv [of ?s] show ?thesis
    by (simp add: barrier_wait_def Let_def split: SendOutcome.split)
qed

lemma dispose_waiter_inv:
  assumes inv: "waiter_inv s"
  shows "waiter_inv (dispose_waiter r s)"
proof (cases "bw_disposedReason s = None")
  case False
  with inv show ?thesis by (simp add: dispose_waiter_def)
next
  case True
  show ?thesis
  proof (cases "bw_pending s")
    case None
    with inv True show ?thesis
      by (simp add: dispose_waiter_def waiter_inv_def pending_barriers_def settled_barriers_def)
  next
    case (Some p)
    let ?e = "BarrierRejected (pb_id p) (Disposed r)"
    have "waiter_inv (barrier_effect ?e (s\<lparr>bw_pending := None\<rparr>))" by (rule settle_inv [OF inv Some]) simp_all
    then have "waiter_inv ((barrier_effect ?e (s\<lparr>bw_pending := None\<rparr>))\<lparr>bw_disposedReason := Some r\<rparr>)"
      by (simp add: waiter_inv_def pending_barriers_def settled_barriers_def)
    moreover have "dispose_waiter r s = (barrier_effect ?e (s\<lparr>bw_pending := None\<rparr>))\<lparr>bw_disposedReason := Some r\<rparr>"
      using True Some
      by (cases s) (simp add: dispose_waiter_def Let_def rejectPending_def pending_is_def barrier_effect_def)
    ultimately show ?thesis by simp
  qed
qed

lemma waiter_step_inv: "waiter_inv s \<Longrightarrow> waiter_inv (waiter_step s e)"
  by (cases e) (simp_all add: wait_inv markBarrierSent_inv reject_inv handle_inv dispose_waiter_inv)

interpretation waiter: inv_machine waiter_step waiter_inv
  by unfold_locales (rule waiter_step_inv)

lemma newBarrierWaiter_inv: "waiter_inv newBarrierWaiter"
  by (simp add: newBarrierWaiter_def waiter_inv_def pending_barriers_def settled_barriers_def resolutions_ok_def)

text \<open>
  C24. Every barrier the host waits for settles exactly once and only on its own verdict: over any history each promise handed out
  is the pending one or settled, once and not both; a promise resolves only with a verdict that matches, in every
  field, the barrier whose marker it sent, and only after the marker went out; a disposed waiter leaves none pending.
\<close>

theorem barrier_settles_once:
  "(\<forall>i. count_list (pending_barriers (foldl waiter_step newBarrierWaiter es)) i +
        count_list (settled_barriers (foldl waiter_step newBarrierWaiter es)) i =
      (if i < bw_nextId (foldl waiter_step newBarrierWaiter es) then 1 else 0)) \<and>
   (\<forall>xs i b r ys. bw_effects (foldl waiter_step newBarrierWaiter es) = xs @ BarrierResolved i b r # ys \<longrightarrow>
      isMatchingDeliveryBarrierResult b r \<and> MarkerSentCallback i \<in> set xs \<and>
      (\<exists>ep bs. encode_marker ep b = Inr bs \<and> MarkerHanded i bs \<in> set xs)) \<and>
   (bw_disposedReason (foldl waiter_step newBarrierWaiter es) \<noteq> None \<longrightarrow>
      bw_pending (foldl waiter_step newBarrierWaiter es) = None)"
proof -
  have "waiter_inv (foldl waiter_step newBarrierWaiter es)" by (rule waiter.run_inv [OF newBarrierWaiter_inv])
  then show ?thesis unfolding waiter_inv_def resolutions_ok_def resolution_ok_def by blast
qed

text \<open>The verdict arrives before the receipt of the marker and resolves the promise when the receipt does.\<close>

definition demo_barrier :: BarrierIdentity where
  "demo_barrier = \<lparr>bi_commitEventSeq = ''5'', bi_commitPtyOffset = ''12'', bi_connectionId = ''conn'', bi_deliveryGeneration = ''2'',
     bi_streamId = 3, bi_mode = warm_mode\<rparr>"

definition demo_verdict :: DeliveryBarrierResult where
  "demo_verdict = \<lparr>bi_commitEventSeq = ''5'', bi_commitPtyOffset = ''12'', bi_connectionId = ''conn'', bi_deliveryGeneration = ''2'',
     bi_streamId = 3, bi_mode = warm_mode, br_status = barrier_ready, br_detail = None\<rparr>"

definition demo_waiter_events :: "waiter_event list" where
  "demo_waiter_events = [WaitBarrier demo_barrier False 7 SendPromises CallbackReturns, HandleResult demo_verdict,
     ReceiptResolves 0 CallbackReturns]"

lemma demo_waiter_runs:
  "bw_effects (foldl waiter_step newBarrierWaiter demo_waiter_events) =
    [MarkerHanded 0 (projr (encode_marker 7 demo_barrier)), MarkerSentCallback 0, BarrierResolved 0 demo_barrier demo_verdict]"
  by code_simp

theorem barrier_settles_once_witness:
  "\<exists>ep bs. encode_marker ep demo_barrier = Inr bs \<and>
    MarkerHanded 0 bs \<in> set (bw_effects (foldl waiter_step newBarrierWaiter demo_waiter_events))"
proof -
  have e: "bw_effects (foldl waiter_step newBarrierWaiter demo_waiter_events) =
      [MarkerHanded 0 (projr (encode_marker 7 demo_barrier)), MarkerSentCallback 0] @ BarrierResolved 0 demo_barrier demo_verdict # []"
    using demo_waiter_runs by simp
  with barrier_settles_once [of demo_waiter_events] obtain ep bs where
    "encode_marker ep demo_barrier = Inr bs" "MarkerHanded 0 bs \<in> set [MarkerHanded 0 (projr (encode_marker 7 demo_barrier)), MarkerSentCallback 0]"
    by blast
  with e show ?thesis by auto
qed

end
