(* ===== verification/Relay_Frames.thy ===== *)
theory Relay_Frames
  imports Relay_Sockets Barrier_Waiter
begin

text \<open>
  The control frames the relay exchanges with browsers and with the host, and the schemas it checks before it sends one
  (\<open>packages/protocol/src/control-frame.ts\<close>, \<open>snapshot.ts\<close>). A frame is its decoded value: the JSON text is left out. Optional fields
  are options, decimal u64 fields are the strings the code carries.
\<close>

section \<open>Fields\<close>

definition id_ok :: "string \<Rightarrow> bool" where
  "id_ok s \<longleftrightarrow> 1 \<le> length s \<and> length s \<le> 128"

definition engine_id_ok :: "string \<Rightarrow> bool" where
  "engine_id_ok s \<longleftrightarrow> 1 \<le> length s \<and> length s \<le> 512"

definition stream_id_ok :: "int \<Rightarrow> bool" where
  "stream_id_ok k \<longleftrightarrow> 1 \<le> k \<and> k \<le> 0xffffffff"

datatype RelayCapability = browserDataBatchV1 | browserInputAdmissionV1 | deliveryBarrierOutcomeV1 | hostDataBatchV1

definition capability_name :: "RelayCapability \<Rightarrow> string" where
  "capability_name c = (case c of
     browserDataBatchV1 \<Rightarrow> ''browser-data-batch-v1''
   | browserInputAdmissionV1 \<Rightarrow> ''browser-input-admission-v1''
   | deliveryBarrierOutcomeV1 \<Rightarrow> ''delivery-barrier-outcome-v1''
   | hostDataBatchV1 \<Rightarrow> ''host-data-batch-v1'')"

definition capable :: "RelayCapability \<Rightarrow> SocketAttachment \<Rightarrow> bool" where
  "capable c a \<longleftrightarrow> capability_name c \<in> set (sa_relayCapabilities a)"

section \<open>From the browser\<close>

record LiveReplica =
  lr_lastSessionEpoch :: string
  lr_lastEventSeq :: string
  lr_nextPtyOffset :: string

record AttachFrame =
  af_engineId :: string
  af_deliveryGeneration :: string
  af_live :: "LiveReplica option"

record AckFrame =
  ak_sessionEpoch :: string
  ak_deliveryGeneration :: string
  ak_eventSeq :: string
  ak_nextPtyOffset :: string

text \<open>A semantic input with its identity; the rest of the key, text, paste, focus, mouse or resize frame is \<open>si_body\<close>.\<close>

record SemanticInput =
  si_writerLease :: string
  si_inputEpoch :: string
  si_clientInputSeq :: string
  si_body :: string

datatype ClientControlFrame = AttachRequested AttachFrame | AckReceived AckFrame | RenewRequested string | InputReceived SemanticInput

definition isSemanticInputFrame :: "ClientControlFrame \<Rightarrow> bool" where
  "isSemanticInputFrame f \<longleftrightarrow> (case f of InputReceived _ \<Rightarrow> True | _ \<Rightarrow> False)"

text \<open>What became of an input, for the relay's telemetry.\<close>

datatype CloudInputDisposition = input_host_sent | input_host_send_uncertain | input_lane_expired | input_lane_overload | input_rejected

record BrowserControlTiming =
  bt_receivedAtMs :: int
  bt_enqueuedAtMs :: int
  bt_startedAtMs :: int

section \<open>From the host\<close>

datatype RelayAckStatus = ack_written | ack_duplicate | ack_rejected | ack_uncertain

record RelayInputAck =
  ia_inputEpoch :: string
  ia_clientInputSeq :: string
  ia_status :: RelayAckStatus
  ia_authorityEventSeq :: string

datatype BrowserDeliveryResetReason =
    reset_journal_gap | reset_slow_client | reset_engine_mismatch | reset_epoch_changed | reset_data_disconnected | reset_host_reconnect

record HostReadyFrame =
  hr_engineId :: string
  hr_sessionEpoch :: string
  hr_headEventSeq :: string
  hr_nextPtyOffset :: string

datatype HostControlFrame =
    HostReady HostReadyFrame
  | HostInputAck string RelayInputAck
  | ReplayUnavailable string BrowserDeliveryResetReason

section \<open>To the browser\<close>

record WelcomeFrame =
  we_connectionId :: string
  we_streamId :: int
  we_writerLease :: "string option"
  we_writerFence :: "string option"
  we_engineId :: string
  we_sessionEpoch :: string
  we_deliveryGeneration :: string
  we_headEventSeq :: string
  we_nextPtyOffset :: string

record ReplayStartFrame =
  rs_sessionEpoch :: string
  rs_streamId :: int
  rs_deliveryGeneration :: string
  rs_baseEventSeq :: string
  rs_basePtyOffset :: string
  rs_commitEventSeq :: string
  rs_commitPtyOffset :: string

record SnapshotMetadata =
  sm_sessionId :: string
  sm_snapshotId :: string
  sm_engineId :: string
  sm_sessionEpoch :: string
  sm_cutEventSeq :: string
  sm_nextPtyOffset :: string
  sm_compression :: string
  sm_compressedLength :: string
  sm_uncompressedLength :: string
  sm_sha256 :: string

record ManifestFrame =
  mn_snapshot :: SnapshotMetadata
  mn_streamId :: int
  mn_deliveryGeneration :: string
  mn_commitEventSeq :: string
  mn_commitPtyOffset :: string
  mn_downloadPath :: string

datatype ServerControlFrame =
    Welcome WelcomeFrame
  | BrowserInputAck RelayInputAck "string option"
  | HostOffline
  | WriterLeaseStatus bool "int option" "string option"
  | ResyncRequired string BrowserDeliveryResetReason "string option" "int option"
  | ReplayStart ReplayStartFrame
  | ManifestOffered ManifestFrame

definition MAX_SNAPSHOT_COMPRESSED_BYTES :: int where "MAX_SNAPSHOT_COMPRESSED_BYTES = 32 * 1024 * 1024"
definition MAX_SNAPSHOT_UNCOMPRESSED_BYTES :: int where "MAX_SNAPSHOT_UNCOMPRESSED_BYTES = 128 * 1024 * 1024"

definition boundedLength :: "int \<Rightarrow> string \<Rightarrow> bool" where
  "boundedLength limit s \<longleftrightarrow> PositiveDecimalU64Schema s \<and> bigint_of s \<le> limit"

definition hex_lower :: "char \<Rightarrow> bool" where
  "hex_lower c \<longleftrightarrow> is_digit c \<or> (let n = of_char c :: nat in 97 \<le> n \<and> n \<le> 102)"

definition SnapshotContentMetadataSchema :: "SnapshotMetadata \<Rightarrow> bool" where
  "SnapshotContentMetadataSchema m \<longleftrightarrow> engine_id_ok (sm_engineId m) \<and> PositiveDecimalU64Schema (sm_sessionEpoch m) \<and>
     DecimalU64Schema (sm_cutEventSeq m) \<and> DecimalU64Schema (sm_nextPtyOffset m) \<and>
     sm_compression m \<in> {''none'', ''zstd''} \<and>
     boundedLength MAX_SNAPSHOT_COMPRESSED_BYTES (sm_compressedLength m) \<and>
     boundedLength MAX_SNAPSHOT_UNCOMPRESSED_BYTES (sm_uncompressedLength m) \<and>
     length (sm_sha256 m) = 64 \<and> list_all hex_lower (sm_sha256 m) \<and>
     (sm_compression m = ''none'' \<longrightarrow> sm_compressedLength m = sm_uncompressedLength m)"

fun ServerControlFrameSchema :: "ServerControlFrame \<Rightarrow> bool" where
  "ServerControlFrameSchema (Welcome w) \<longleftrightarrow> id_ok (we_connectionId w) \<and> stream_id_ok (we_streamId w) \<and>
     nullable id_ok (we_writerLease w) \<and> nullable PositiveDecimalU64Schema (we_writerFence w) \<and> engine_id_ok (we_engineId w) \<and>
     DecimalU64Schema (we_sessionEpoch w) \<and> DecimalU64Schema (we_deliveryGeneration w) \<and>
     DecimalU64Schema (we_headEventSeq w) \<and> DecimalU64Schema (we_nextPtyOffset w) \<and>
     (we_writerFence w = None \<or> we_writerLease w \<noteq> None)"
| "ServerControlFrameSchema (BrowserInputAck a f) \<longleftrightarrow> id_ok (ia_inputEpoch a) \<and> DecimalU64Schema (ia_clientInputSeq a) \<and>
     DecimalU64Schema (ia_authorityEventSeq a) \<and> nullable PositiveDecimalU64Schema f"
| "ServerControlFrameSchema HostOffline \<longleftrightarrow> True"
| "ServerControlFrameSchema (WriterLeaseStatus isActive expiresAt f) \<longleftrightarrow> nullable (\<lambda>t. 0 < t) expiresAt \<and>
     nullable PositiveDecimalU64Schema f \<and> (isActive \<longleftrightarrow> expiresAt \<noteq> None) \<and> (f = None \<or> isActive)"
| "ServerControlFrameSchema (ResyncRequired g reason ticket expiresAt) \<longleftrightarrow> DecimalU64Schema g \<and> nullable id_ok ticket \<and>
     nullable (\<lambda>t. 0 < t) expiresAt \<and> (ticket = None \<longleftrightarrow> expiresAt = None)"
| "ServerControlFrameSchema (ReplayStart r) \<longleftrightarrow> DecimalU64Schema (rs_sessionEpoch r) \<and> stream_id_ok (rs_streamId r) \<and>
     DecimalU64Schema (rs_deliveryGeneration r) \<and> DecimalU64Schema (rs_baseEventSeq r) \<and> DecimalU64Schema (rs_basePtyOffset r) \<and>
     DecimalU64Schema (rs_commitEventSeq r) \<and> DecimalU64Schema (rs_commitPtyOffset r) \<and>
     bigint_of (rs_baseEventSeq r) \<le> bigint_of (rs_commitEventSeq r) \<and> bigint_of (rs_basePtyOffset r) \<le> bigint_of (rs_commitPtyOffset r)"
| "ServerControlFrameSchema (ManifestOffered m) \<longleftrightarrow> SnapshotContentMetadataSchema (mn_snapshot m) \<and>
     SnapshotResourceIdSchema (sm_snapshotId (mn_snapshot m)) \<and> stream_id_ok (mn_streamId m) \<and>
     DecimalU64Schema (mn_deliveryGeneration m) \<and> DecimalU64Schema (mn_commitEventSeq m) \<and> DecimalU64Schema (mn_commitPtyOffset m) \<and>
     take 17 (mn_downloadPath m) = ''/api/v1/sessions/'' \<and>
     bigint_of (sm_cutEventSeq (mn_snapshot m)) \<le> bigint_of (mn_commitEventSeq m) \<and>
     bigint_of (sm_nextPtyOffset (mn_snapshot m)) \<le> bigint_of (mn_commitPtyOffset m)"

section \<open>To the host\<close>

datatype RelayToHostControlFrame =
    HostReadyAck string string string
  | BarrierVerdict DeliveryBarrierResult
  | HostAttachRequest string int AttachFrame
  | ForwardedInput SemanticInput string string string
  | DeliveryReset string int string

definition detail_fits :: "BarrierMode \<Rightarrow> BarrierStatus \<Rightarrow> BarrierDetail \<Rightarrow> bool" where
  "detail_fits mode status d \<longleftrightarrow> detail_status d = status \<and>
     (d = missing_live_seed \<longrightarrow> mode = warm_mode) \<and>
     (d = snapshot_missing \<or> d = snapshot_metadata_mismatch \<longrightarrow> mode \<noteq> warm_mode)"

definition attach_fields_ok :: "AttachFrame \<Rightarrow> bool" where
  "attach_fields_ok f \<longleftrightarrow> engine_id_ok (af_engineId f) \<and> DecimalU64Schema (af_deliveryGeneration f) \<and>
     nullable (\<lambda>l. DecimalU64Schema (lr_lastSessionEpoch l) \<and> DecimalU64Schema (lr_lastEventSeq l) \<and>
       DecimalU64Schema (lr_nextPtyOffset l)) (af_live f)"

fun RelayToHostControlFrameSchema :: "RelayToHostControlFrame \<Rightarrow> bool" where
  "RelayToHostControlFrameSchema (HostReadyAck e h p) \<longleftrightarrow> DecimalU64Schema e \<and> DecimalU64Schema h \<and> DecimalU64Schema p"
| "RelayToHostControlFrameSchema (BarrierVerdict r) \<longleftrightarrow> id_ok (bi_connectionId r) \<and> stream_id_ok (bi_streamId r) \<and>
     DecimalU64Schema (bi_deliveryGeneration r) \<and> DecimalU64Schema (bi_commitEventSeq r) \<and> DecimalU64Schema (bi_commitPtyOffset r) \<and>
     (case bi_mode r of warm_mode \<Rightarrow> True | snapshot_mode i \<Rightarrow> SnapshotResourceIdSchema i) \<and>
     nullable (detail_fits (bi_mode r) (br_status r)) (br_detail r)"
| "RelayToHostControlFrameSchema (HostAttachRequest c k f) \<longleftrightarrow> id_ok c \<and> stream_id_ok k \<and> attach_fields_ok f"
| "RelayToHostControlFrameSchema (ForwardedInput i c client f) \<longleftrightarrow> id_ok (si_writerLease i) \<and> id_ok (si_inputEpoch i) \<and>
     DecimalU64Schema (si_clientInputSeq i) \<and> id_ok c \<and> id_ok client \<and> DecimalU64Schema f"
| "RelayToHostControlFrameSchema (DeliveryReset c k g) \<longleftrightarrow> id_ok c \<and> stream_id_ok k \<and> DecimalU64Schema g"

end
