(* ===== verification/Relay_State.thy ===== *)
theory Relay_State
  imports Writer_Authority Relay_Frames
begin

text \<open>
  The relay's Durable Object as a state, and the operations of \<open>apps/terminal-cloud/src/worker/relay-connection-store.ts\<close>
  on its tables. A table is the list of its rows in insertion order; an \<open>INSERT\<close> that meets a primary key or a unique
  column already taken throws. An operation that throws inside its transaction is rolled back: \<open>Inl\<close>, and the caller keeps the
  old state. The readings of the clock are arguments, in the order the code takes them.
\<close>

section \<open>Rows\<close>

record SessionRow =
  se_engine_id :: string
  se_head_event_seq :: string
  se_host_fence :: string
  se_latest_snapshot_id :: "string option"
  se_next_pty_offset :: string
  se_next_stream_id :: int
  se_recent_snapshot_id_1 :: "string option"
  se_recent_snapshot_id_2 :: "string option"
  se_snapshot_created_clock :: int
  se_snapshot_recent_candidates_json :: string
  se_snapshot_recent_scan_before :: "int option"
  se_snapshot_recent_scan_done :: int
  se_snapshot_retention_backlog :: int
  se_session_epoch :: string
  se_session_id :: string

record ClientRow =
  cl_client_id :: string
  cl_delivery_generation :: string
  cl_principal_id_hash :: string
  cl_registered_at :: "int option"
  cl_reservation_expires_at :: "int option"
  cl_role :: SocketRole
  cl_stream_id :: int
  cl_updated_at :: int

text \<open>What the relay hands to its sockets and to the rest of the worker.\<close>

datatype RelayEffect =
    SentData nat bytes
  | SentBrowser nat ServerControlFrame
  | SentHost nat RelayToHostControlFrame
  | SentDataAck nat
  | InputRecorded SemanticInput CloudInputDisposition "int option" "string option"
  | SnapshotMaintenance

record relay_do =
  rd_session :: "SessionRow option"
  rd_clients :: "ClientRow list"
  rd_tickets :: "TicketRow list"
  rd_world :: relay_world
  rd_next_socket :: nat
  rd_sends :: nat
  rd_effects :: "RelayEffect list"

abbreviation rd_sockets :: "relay_do \<Rightarrow> relay_sockets" where
  "rd_sockets s \<equiv> rw_sockets (rd_world s)"

definition set_sockets :: "relay_sockets \<Rightarrow> relay_do \<Rightarrow> relay_do" where
  "set_sockets ws s = s\<lparr>rd_world := (rd_world s)\<lparr>rw_sockets := ws\<rparr>\<rparr>"

definition relay_effect :: "RelayEffect \<Rightarrow> relay_do \<Rightarrow> relay_do" where
  "relay_effect e s = s\<lparr>rd_effects := rd_effects s @ [e]\<rparr>"

section \<open>Reading\<close>

definition clientById :: "string \<Rightarrow> relay_do \<Rightarrow> ClientRow option" where
  "clientById i s = List.find (\<lambda>c. cl_client_id c = i) (rd_clients s)"

definition clientByStream :: "int \<Rightarrow> relay_do \<Rightarrow> ClientRow option" where
  "clientByStream k s = List.find (\<lambda>c. cl_stream_id c = k) (rd_clients s)"

definition ticket_row :: "string \<Rightarrow> relay_do \<Rightarrow> TicketRow option" where
  "ticket_row d s = List.find (\<lambda>t. tk_ticket_digest t = d) (rd_tickets s)"

definition clientCount :: "relay_do \<Rightarrow> int" where
  "clientCount s = int (length (rd_clients s))"

definition pendingSetCount :: "relay_do \<Rightarrow> int" where
  "pendingSetCount s = int (length (remdups (map tk_connection_set_id (rd_tickets s))))"

section \<open>Deleting, inserting, updating\<close>

datatype StoreError =
    ConstraintViolated | SessionMissing | StreamsExhausted | GenerationsExhausted | HostFenceExhausted | ClientDisappeared
  | AttachmentRejected | CursorRange | WriterFailed WriterError | FrameRejected | SpanRejected

definition delete_tickets :: "(TicketRow \<Rightarrow> bool) \<Rightarrow> relay_do \<Rightarrow> relay_do" where
  "delete_tickets P s = s\<lparr>rd_tickets := filter (\<lambda>t. \<not> P t) (rd_tickets s)\<rparr>"

definition delete_clients :: "(ClientRow \<Rightarrow> bool) \<Rightarrow> relay_do \<Rightarrow> relay_do" where
  "delete_clients P s = s\<lparr>rd_clients := filter (\<lambda>c. \<not> P c) (rd_clients s)\<rparr>"

definition update_clients :: "(ClientRow \<Rightarrow> bool) \<Rightarrow> (ClientRow \<Rightarrow> ClientRow) \<Rightarrow> relay_do \<Rightarrow> relay_do" where
  "update_clients P f s = s\<lparr>rd_clients := map (\<lambda>c. if P c then f c else c) (rd_clients s)\<rparr>"

definition insert_ticket :: "TicketRow \<Rightarrow> relay_do \<Rightarrow> StoreError + relay_do" where
  "insert_ticket t s =
     (if ticket_row (tk_ticket_digest t) s \<noteq> None then Inl ConstraintViolated
      else Inr (s\<lparr>rd_tickets := rd_tickets s @ [t]\<rparr>))"

definition insert_client :: "ClientRow \<Rightarrow> relay_do \<Rightarrow> StoreError + relay_do" where
  "insert_client c s =
     (if clientById (cl_client_id c) s \<noteq> None \<or> clientByStream (cl_stream_id c) s \<noteq> None then Inl ConstraintViolated
      else Inr (s\<lparr>rd_clients := rd_clients s @ [c]\<rparr>))"

definition cleanupExpired :: "int \<Rightarrow> relay_do \<Rightarrow> relay_do" where
  "cleanupExpired now s = delete_clients
     (\<lambda>c. cl_registered_at c = None \<and> (case cl_reservation_expires_at c of None \<Rightarrow> False | Some t \<Rightarrow> t \<le> now))
     (delete_tickets (\<lambda>t. tk_expires_at t \<le> now) s)"

definition revokePending :: "Peer \<Rightarrow> string option \<Rightarrow> string \<Rightarrow> relay_do \<Rightarrow> relay_do" where
  "revokePending peer clientId subject s =
     (if peer = browser
      then delete_tickets (\<lambda>t. tk_peer t = browser \<and> clientId \<noteq> None \<and> tk_client_id t = clientId) s
      else delete_tickets (\<lambda>t. tk_peer t = host \<and> tk_subject t = subject) s)"

section \<open>Reserving\<close>

definition requiredClient :: "string \<Rightarrow> relay_do \<Rightarrow> StoreError + ClientRow" where
  "requiredClient i s = (case clientById i s of None \<Rightarrow> Inl ClientDisappeared | Some c \<Rightarrow> Inr c)"

definition reservedDeliveryGeneration :: "ClientRow option \<Rightarrow> StoreError + string" where
  "reservedDeliveryGeneration client =
     (case client of
        None \<Rightarrow> Inr ''0''
      | Some c \<Rightarrow>
          if cl_registered_at c = None then Inr (cl_delivery_generation c)
          else if MAX_U64 \<le> bigint_of (cl_delivery_generation c) then Inl GenerationsExhausted
          else Inr (bigint_toString (bigint_of (cl_delivery_generation c) + 1)))"

text \<open>The candidates in the order of their last update; the first without a socket, a ticket or a running lease goes.\<close>

definition has_socket :: "string \<Rightarrow> relay_do \<Rightarrow> bool" where
  "has_socket clientId s \<longleftrightarrow> list_ex
     (\<lambda>i. case jm_get (rd_sockets s) i of None \<Rightarrow> False | Some w \<Rightarrow> below_closing w)
     (getWebSockets (''client:'' @ clientId) (rd_sockets s))"

definition lease_runs :: "string \<Rightarrow> int \<Rightarrow> relay_do \<Rightarrow> bool" where
  "lease_runs clientId now s \<longleftrightarrow>
     (case rw_lease (rd_world s) of None \<Rightarrow> False | Some l \<Rightarrow> wl_client_id l = clientId \<and> now < wl_expires_at l)"

fun evict_loop :: "int \<Rightarrow> ClientRow list \<Rightarrow> relay_do \<Rightarrow> relay_do \<times> bool" where
  "evict_loop now [] s = (s, False)"
| "evict_loop now (c # cs) s =
     (if has_socket (cl_client_id c) s then evict_loop now cs s
      else if list_ex (\<lambda>t. tk_client_id t = Some (cl_client_id c)) (rd_tickets s) then evict_loop now cs s
      else if lease_runs (cl_client_id c) now s then evict_loop now cs s
      else let s1 = delete_clients (\<lambda>d. cl_client_id d = cl_client_id c \<and>
             \<not> list_ex (\<lambda>t. tk_client_id t = Some (cl_client_id c)) (rd_tickets s) \<and> \<not> lease_runs (cl_client_id c) now s) s in
        if clientById (cl_client_id c) s1 = None then (s1, True) else evict_loop now cs s1)"

definition evictInactiveClient :: "int \<Rightarrow> relay_do \<Rightarrow> relay_do \<times> bool" where
  "evictInactiveClient now s = evict_loop now (sort_key cl_updated_at (rd_clients s)) s"

datatype ReservationRefusal = client_owner_mismatch | too_many_clients | too_many_pending_connections

text \<open>The limits of the constructor: browser clients and pending connection sets.\<close>

record store_limits =
  st_maxBrowserClients :: int
  st_maxPendingSets :: int

definition reserveClient ::
  "store_limits \<Rightarrow> string \<Rightarrow> string \<Rightarrow> SocketRole \<Rightarrow> int \<Rightarrow> int \<Rightarrow> int \<Rightarrow> relay_do \<Rightarrow>
   StoreError + (relay_do \<times> (ReservationRefusal + ClientRow))" where
  "reserveClient lim clientId principalHash role expiresAt now dateNow s =
     (case clientById clientId s of
        Some existing \<Rightarrow>
          if cl_principal_id_hash existing \<noteq> principalHash \<or> cl_role existing \<noteq> role then Inr (s, Inl client_owner_mismatch)
          else let s1 = (if cl_registered_at existing = None
                 then update_clients (\<lambda>c. cl_client_id c = clientId \<and> cl_registered_at c = None)
                   (\<lambda>c. c\<lparr>cl_reservation_expires_at := Some expiresAt, cl_updated_at := dateNow\<rparr>) s else s)
            in bindR (requiredClient clientId s1) (\<lambda>c. Inr (s1, Inr c))
      | None \<Rightarrow>
          let s1 = (if st_maxBrowserClients lim \<le> clientCount s then fst (evictInactiveClient now s) else s) in
          if st_maxBrowserClients lim \<le> clientCount s1 then Inr (s1, Inl too_many_clients)
          else (case rd_session s1 of
              None \<Rightarrow> Inl SessionMissing
            | Some session \<Rightarrow>
                let streamId = se_next_stream_id session in
                if streamId < 1 \<or> 0xffffffff < streamId then Inl StreamsExhausted
                else bindR (insert_client \<lparr>cl_client_id = clientId, cl_delivery_generation = ''1'', cl_principal_id_hash = principalHash,
                      cl_registered_at = None, cl_reservation_expires_at = Some expiresAt, cl_role = role,
                      cl_stream_id = streamId, cl_updated_at = now\<rparr> s1) (\<lambda>s2.
                  let s3 = s2\<lparr>rd_session := Some (session\<lparr>se_next_stream_id := streamId + 1\<rparr>)\<rparr>
                  in bindR (requiredClient clientId s3) (\<lambda>c. Inr (s3, Inr c)))))"

record ConnectionSetReservation =
  cr_clientId :: "string option"
  cr_connectionId :: string
  cr_connectionSetId :: string
  cr_controlTicketDigest :: string
  cr_dataTicketDigest :: string
  cr_expiresAt :: int
  cr_now :: int
  cr_peer :: Peer
  cr_principalIdHash :: "string option"
  cr_relayCapabilitiesJson :: string
  cr_role :: SocketRole
  cr_subject :: string

definition reservation_ticket ::
  "ConnectionSetReservation \<Rightarrow> RelayChannel \<Rightarrow> string \<Rightarrow> int \<Rightarrow> string \<Rightarrow> TicketRow" where
  "reservation_ticket input channel digest streamId deliveryGeneration =
     \<lparr>tk_channel = channel, tk_client_id = cr_clientId input, tk_connection_id = cr_connectionId input,
      tk_connection_set_id = cr_connectionSetId input, tk_delivery_generation = deliveryGeneration,
      tk_expires_at = cr_expiresAt input, tk_host_fence = None,
      tk_relay_capabilities_json = cr_relayCapabilitiesJson input, tk_peer = cr_peer input, tk_role = cr_role input,
      tk_stream_id = streamId, tk_subject = cr_subject input, tk_ticket_digest = digest\<rparr>"

text \<open>The browser branch needs a client, a principal and a role other than the host's; \<open>Some\<close> gives the first two.\<close>

definition browser_reservation :: "ConnectionSetReservation \<Rightarrow> (string \<times> string) option" where
  "browser_reservation input =
     (case (cr_clientId input, cr_principalIdHash input) of
        (Some c, Some p) \<Rightarrow> if cr_peer input = browser \<and> cr_role input \<noteq> host_role then Some (c, p) else None
      | _ \<Rightarrow> None)"

definition owner_mismatch :: "ConnectionSetReservation \<Rightarrow> relay_do \<Rightarrow> bool" where
  "owner_mismatch input s \<longleftrightarrow>
     (case browser_reservation input of
        None \<Rightarrow> False
      | Some (c, p) \<Rightarrow> (case clientById c s of None \<Rightarrow> False
          | Some e \<Rightarrow> cl_principal_id_hash e \<noteq> p \<or> cl_role e \<noteq> cr_role input))"

definition revoke_for :: "ConnectionSetReservation \<Rightarrow> relay_do \<Rightarrow> relay_do" where
  "revoke_for input s =
     (case browser_reservation input of
        None \<Rightarrow> revokePending host None (cr_subject input) s
      | Some (c, p) \<Rightarrow> revokePending browser (Some c) (cr_subject input) s)"

definition reserve_for ::
  "store_limits \<Rightarrow> ConnectionSetReservation \<Rightarrow> int \<Rightarrow> relay_do \<Rightarrow> StoreError + (relay_do \<times> (ReservationRefusal + ClientRow option))" where
  "reserve_for lim input dateNow s =
     (case browser_reservation input of
        None \<Rightarrow> Inr (s, Inr None)
      | Some (c, p) \<Rightarrow> bindR (reserveClient lim c p (cr_role input) (cr_expiresAt input) (cr_now input) dateNow s)
          (\<lambda>(s', r). Inr (s', case r of Inl e \<Rightarrow> Inl e | Inr row \<Rightarrow> Inr (Some row))))"

definition insert_tickets ::
  "ConnectionSetReservation \<Rightarrow> ClientRow option \<Rightarrow> string \<Rightarrow> relay_do \<Rightarrow> StoreError + relay_do" where
  "insert_tickets input client generation s =
     (let streamId = (case client of None \<Rightarrow> 0 | Some c \<Rightarrow> cl_stream_id c) in
      bindR (insert_ticket (reservation_ticket input control (cr_controlTicketDigest input) streamId generation) s)
        (insert_ticket (reservation_ticket input data (cr_dataTicketDigest input) streamId generation)))"

definition reserveConnectionSet ::
  "store_limits \<Rightarrow> ConnectionSetReservation \<Rightarrow> int \<Rightarrow> relay_do \<Rightarrow>
   StoreError + (relay_do \<times> (ReservationRefusal + (ClientRow option \<times> string)))" where
  "reserveConnectionSet lim input dateNow s =
     (let s1 = cleanupExpired (cr_now input) s in
      if owner_mismatch input s1 then Inr (s1, Inl client_owner_mismatch)
      else let s2 = revoke_for input s1 in
        if st_maxPendingSets lim \<le> pendingSetCount s2 then Inr (s2, Inl too_many_pending_connections)
        else bindR (reserve_for lim input dateNow s2) (\<lambda>(s3, r).
          (case r of
             Inl e \<Rightarrow> Inr (s3, Inl e)
           | Inr client \<Rightarrow>
               bindR (reservedDeliveryGeneration client) (\<lambda>g.
                 bindR (insert_tickets input client g s3) (\<lambda>s4. Inr (s4, Inr (client, g)))))))"

section \<open>Claiming, discarding, consuming\<close>

text \<open>The check on the ticket and the client as they are now, the \<open>UPDATE\<close>, and the ticket read back.\<close>

definition claim_refused :: "store_limits \<Rightarrow> TicketRow \<Rightarrow> int \<Rightarrow> TicketRow \<Rightarrow> ClientRow \<Rightarrow> relay_do \<Rightarrow> bool" where
  "claim_refused lim t now cur client s \<longleftrightarrow>
     tk_expires_at cur \<le> now \<or> tk_connection_set_id cur \<noteq> tk_connection_set_id t \<or>
     tk_ticket_digest cur \<noteq> tk_ticket_digest t \<or> tk_channel cur \<noteq> control \<or> tk_client_id cur \<noteq> tk_client_id t \<or>
     tk_role cur \<noteq> tk_role t \<or> tk_stream_id cur \<noteq> tk_stream_id t \<or>
     tk_delivery_generation cur \<noteq> tk_delivery_generation t \<or> cl_role client \<noteq> tk_role cur \<or>
     cl_stream_id client \<noteq> tk_stream_id cur \<or> st_maxBrowserClients lim < clientCount s \<or>
     (let currentGeneration = bigint_of (cl_delivery_generation client);
          reservedGeneration = bigint_of (tk_delivery_generation cur);
          expectedGeneration = (if cl_registered_at client = None then currentGeneration else currentGeneration + 1)
      in reservedGeneration \<noteq> expectedGeneration \<or> MAX_U64 < reservedGeneration)"

definition activate_client :: "string \<Rightarrow> ClientRow \<Rightarrow> string \<Rightarrow> int \<Rightarrow> relay_do \<Rightarrow> relay_do" where
  "activate_client i client generation now s = update_clients
     (\<lambda>c. cl_client_id c = i \<and> cl_delivery_generation c = cl_delivery_generation client \<and>
        (cl_registered_at c = None \<longleftrightarrow> cl_registered_at client = None))
     (\<lambda>c. c\<lparr>cl_delivery_generation := generation,
        cl_registered_at := (case cl_registered_at c of None \<Rightarrow> Some now | Some x \<Rightarrow> Some x),
        cl_reservation_expires_at := None, cl_updated_at := now\<rparr>) s"

definition claimed_ticket :: "string \<Rightarrow> TicketRow \<Rightarrow> TicketRow \<Rightarrow> relay_do \<Rightarrow> TicketRow option" where
  "claimed_ticket i t cur s =
     (case clientById i s of
        None \<Rightarrow> None
      | Some c \<Rightarrow> if cl_registered_at c \<noteq> None \<and> cl_delivery_generation c = tk_delivery_generation cur
          then ticket_row (tk_ticket_digest t) s else None)"

definition claimBrowserControl ::
  "store_limits \<Rightarrow> TicketRow \<Rightarrow> int \<Rightarrow> relay_do \<Rightarrow> relay_do \<times> TicketRow option" where
  "claimBrowserControl lim t now s =
     (case tk_client_id t of
        None \<Rightarrow> (s, None)
      | Some i \<Rightarrow>
          if tk_channel t \<noteq> control then (s, None)
          else let s1 = cleanupExpired now s in
            (case (ticket_row (tk_ticket_digest t) s1, clientById i s1) of
              (Some cur, Some client) \<Rightarrow>
                if claim_refused lim t now cur client s1 then (s1, None)
                else let s2 = activate_client i client (tk_delivery_generation cur) now s1 in (s2, claimed_ticket i t cur s2)
            | _ \<Rightarrow> (s1, None)))"

definition discardReservation :: "TicketRow \<Rightarrow> int \<Rightarrow> relay_do \<Rightarrow> relay_do" where
  "discardReservation t now s =
     (let s1 = delete_tickets (\<lambda>u. tk_connection_set_id u = tk_connection_set_id t) s in
      case tk_client_id t of
        None \<Rightarrow> s1
      | Some i \<Rightarrow> delete_clients (\<lambda>c. cl_client_id c = i \<and> cl_registered_at c = None \<and>
          \<not> list_ex (\<lambda>u. tk_client_id u = Some i \<and> tk_channel u = control \<and> now < tk_expires_at u) (rd_tickets s1)) s1)"

definition expireTicket :: "string \<Rightarrow> int \<Rightarrow> relay_do \<Rightarrow> relay_do" where
  "expireTicket digest now s = cleanupExpired now (delete_tickets (\<lambda>t. tk_ticket_digest t = digest) s)"

definition consumeTicket :: "string \<Rightarrow> relay_do \<Rightarrow> relay_do" where
  "consumeTicket digest s = delete_tickets (\<lambda>t. tk_ticket_digest t = digest) s"

definition closeConnectionSet :: "string \<Rightarrow> relay_do \<Rightarrow> relay_do" where
  "closeConnectionSet i s = delete_tickets (\<lambda>t. tk_connection_set_id t = i) s"

section \<open>The host's fence and the browser's generation\<close>

definition advanceHostFence :: "string \<Rightarrow> relay_do \<Rightarrow> StoreError + (relay_do \<times> string)" where
  "advanceHostFence connectionSetId s =
     (case rd_session s of
        None \<Rightarrow> Inl SessionMissing
      | Some session \<Rightarrow>
          if MAX_U64 \<le> bigint_of (se_host_fence session) then Inl HostFenceExhausted
          else let nextFence = bigint_toString (bigint_of (se_host_fence session) + 1)
            in Inr (s\<lparr>rd_session := Some (session\<lparr>se_host_fence := nextFence\<rparr>),
                rd_tickets := map (\<lambda>t. if tk_connection_set_id t = connectionSetId then t\<lparr>tk_host_fence := Some nextFence\<rparr> else t)
                  (rd_tickets s)\<rparr>, nextFence))"

definition invalidateHostConnection :: "string \<Rightarrow> string \<Rightarrow> relay_do \<Rightarrow> StoreError + (relay_do \<times> bool)" where
  "invalidateHostConnection connectionSetId expectedFence s =
     (case rd_session s of
        None \<Rightarrow> Inr (s, False)
      | Some session \<Rightarrow>
          if se_host_fence session \<noteq> expectedFence then Inr (s, False)
          else if MAX_U64 \<le> bigint_of expectedFence then Inl HostFenceExhausted
          else Inr (delete_tickets (\<lambda>t. tk_connection_set_id t = connectionSetId)
              (s\<lparr>rd_session := Some (session\<lparr>se_host_fence := bigint_toString (bigint_of expectedFence + 1)\<rparr>)\<rparr>), True))"

record BrowserDeliveryReplacement =
  bd_clientId :: string
  bd_connectionId :: string
  bd_connectionSetId :: string
  bd_currentGeneration :: string
  bd_expiresAt :: int
  bd_nextGeneration :: string
  bd_role :: SocketRole
  bd_streamId :: int
  bd_subject :: string
  bd_ticketDigest :: string

definition replaceBrowserDelivery ::
  "BrowserDeliveryReplacement \<Rightarrow> int \<Rightarrow> relay_do \<Rightarrow> StoreError + (relay_do \<times> bool)" where
  "replaceBrowserDelivery input dateNow s =
     (case clientById (bd_clientId input) s of
        None \<Rightarrow> Inr (s, False)
      | Some client \<Rightarrow>
          if cl_delivery_generation client \<noteq> bd_currentGeneration input \<or> cl_stream_id client \<noteq> bd_streamId input \<or>
             cl_role client \<noteq> bd_role input then Inr (s, False)
          else let s1 = update_clients (\<lambda>c. cl_client_id c = bd_clientId input \<and> cl_delivery_generation c = bd_currentGeneration input)
                     (\<lambda>c. c\<lparr>cl_delivery_generation := bd_nextGeneration input, cl_updated_at := dateNow\<rparr>) s;
                   s2 = delete_tickets (\<lambda>t. tk_peer t = browser \<and> tk_client_id t = Some (bd_clientId input)) s1
            in bindR (insert_ticket \<lparr>tk_channel = data, tk_client_id = Some (bd_clientId input),
                  tk_connection_id = bd_connectionId input, tk_connection_set_id = bd_connectionSetId input,
                  tk_delivery_generation = bd_nextGeneration input, tk_expires_at = bd_expiresAt input, tk_host_fence = None,
                  tk_relay_capabilities_json = ''[]'', tk_peer = browser, tk_role = bd_role input,
                  tk_stream_id = bd_streamId input, tk_subject = bd_subject input,
                  tk_ticket_digest = bd_ticketDigest input\<rparr> s2) (\<lambda>s3. Inr (s3, True)))"

section \<open>The session row\<close>

datatype InitializeResult = InvalidSession | SessionConflict | SessionCreated bool

text \<open>\<open>initializeSession\<close> of \<open>terminal-session-do.ts\<close>, the columns it does not name at the defaults of the schema.\<close>

definition new_session :: "string \<Rightarrow> string \<Rightarrow> string \<Rightarrow> SessionRow" where
  "new_session sessionId sessionEpoch engineId =
     \<lparr>se_engine_id = engineId, se_head_event_seq = ''0'', se_host_fence = ''0'', se_latest_snapshot_id = None,
      se_next_pty_offset = ''0'', se_next_stream_id = 1, se_recent_snapshot_id_1 = None, se_recent_snapshot_id_2 = None,
      se_snapshot_created_clock = 0, se_snapshot_recent_candidates_json = ''[]'', se_snapshot_recent_scan_before = None,
      se_snapshot_recent_scan_done = 1, se_snapshot_retention_backlog = 0, se_session_epoch = sessionEpoch,
      se_session_id = sessionId\<rparr>"

definition initializeSession :: "string \<Rightarrow> string \<Rightarrow> string \<Rightarrow> relay_do \<Rightarrow> relay_do \<times> InitializeResult" where
  "initializeSession sessionId sessionEpoch engineId s =
     (if \<not> identifier_ok sessionId \<or> \<not> PositiveDecimalU64Schema sessionEpoch \<or> engineId = [] \<or> 512 < length engineId
      then (s, InvalidSession)
      else case rd_session s of
        Some e \<Rightarrow> if se_session_id e \<noteq> sessionId \<or> se_session_epoch e \<noteq> sessionEpoch \<or> se_engine_id e \<noteq> engineId
          then (s, SessionConflict) else (s, SessionCreated False)
      | None \<Rightarrow> (s\<lparr>rd_session := Some (new_session sessionId sessionEpoch engineId)\<rparr>, SessionCreated True))"

end
