(* ===== verification/Relay_Runtime.thy ===== *)
theory Relay_Runtime
  imports Relay_State
begin

text \<open>
  The senders and the closing of \<open>apps/terminal-cloud/src/worker/relay-socket-runtime.ts\<close> with their failure handling, on the whole
  state of the Durable Object. An operation is a state-and-error computation: what it wrote before a throw stays written.
  Whether a send throws, what the snapshot store answers, how a barrier payload decodes and whether the host's socket has room are
  the parameter \<open>relay_env\<close>.
\<close>

type_synonym 'a relay = "(relay_do, StoreError, 'a) se"

record relay_env =
  rv_throws :: "nat \<Rightarrow> bool"
  rv_published :: "string \<Rightarrow> SnapshotMetadata option"
  rv_barrier_payload :: "bytes \<Rightarrow> DeliveryBarrierPayload option"
  rv_buffer_full :: "nat \<Rightarrow> RelayToHostControlFrame \<Rightarrow> bool"

abbreviation host_fence_of :: "relay_do \<Rightarrow> string option" where
  "host_fence_of s \<equiv> map_option se_host_fence (rd_session s)"

section \<open>Small steps\<close>

text \<open>One \<open>send\<close>: the attempts are numbered, the environment says which throw; \<open>False\<close> is the caught throw.\<close>

definition try_send :: "relay_env \<Rightarrow> RelayEffect \<Rightarrow> bool relay" where
  "try_send env e s =
     (let s' = s\<lparr>rd_sends := rd_sends s + 1\<rparr> in
      if rv_throws env (rd_sends s) then (s', Inr False) else (relay_effect e s', Inr True))"

definition write_attachment :: "nat \<Rightarrow> SocketAttachment \<Rightarrow> unit relay" where
  "write_attachment i a = readS (\<lambda>s.
     case writeSocketAttachment i a (rd_sockets s) of
       None \<Rightarrow> throwS AttachmentRejected
     | Some ws \<Rightarrow> modifyS (set_sockets ws))"

definition close_protocol :: "nat \<Rightarrow> unit relay" where
  "close_protocol i = modifyS (\<lambda>s. set_sockets (closeProtocol i (rd_sockets s)) s)"

definition close_sockets :: "(SocketAttachment \<Rightarrow> bool) \<Rightarrow> nat option \<Rightarrow> unit relay" where
  "close_sockets P except = modifyS (\<lambda>s.
     let (ws, releasedSnapshotPin) = closeSockets P except (rd_sockets s); s' = set_sockets ws s
     in if releasedSnapshotPin then relay_effect SnapshotMaintenance s' else s')"

definition mark_catching_up_all :: "unit relay" where
  "mark_catching_up_all = readS (\<lambda>s.
     case markBrowserDataCatchingUp (rd_sockets s) of
       None \<Rightarrow> throwS AttachmentRejected
     | Some ws \<Rightarrow> modifyS (set_sockets ws))"

section \<open>Sending to a browser\<close>

definition isolateBrowserConnection :: "nat \<Rightarrow> SocketAttachment \<Rightarrow> unit relay" where
  "isolateBrowserConnection i a =
     (case sa_clientId a of
        None \<Rightarrow> close_protocol i
      | Some c \<Rightarrow>
          bindS (modifyS (\<lambda>s. s\<lparr>rd_world := release c (sa_leaseFence a) (sa_connectionId a) (rd_world s)\<rparr>)) (\<lambda>_.
          bindS (modifyS (closeConnectionSet (sa_connectionSetId a))) (\<lambda>_.
          close_sockets (\<lambda>b. sa_peer b = browser \<and> sa_clientId b = sa_clientId a \<and> sameConnection b a) None)))"

definition browser_send_failed :: "nat \<Rightarrow> bool relay" where
  "browser_send_failed i = readS (\<lambda>s.
     bindS (case attachment_of (rd_sockets s) i of
         None \<Rightarrow> close_protocol i
       | Some a \<Rightarrow> if sa_peer a = browser then isolateBrowserConnection i a else close_protocol i)
       (\<lambda>_. returnS False))"

definition sendBrowserControl :: "relay_env \<Rightarrow> nat \<Rightarrow> ServerControlFrame \<Rightarrow> bool relay" where
  "sendBrowserControl env i frame = readS (\<lambda>s.
     if socket_open (rd_sockets s) i \<and> ServerControlFrameSchema frame
     then bindS (try_send env (SentBrowser i frame)) (\<lambda>ok. if ok then returnS True else browser_send_failed i)
     else browser_send_failed i)"

definition broadcastBrowserControl :: "relay_env \<Rightarrow> ServerControlFrame \<Rightarrow> unit relay" where
  "broadcastBrowserControl env frame = readS (\<lambda>s.
     forS (\<lambda>i. bindS (sendBrowserControl env i frame) (\<lambda>_. returnS ())) (browserControlSockets (rd_sockets s)))"

section \<open>Failing the host\<close>

definition host_was_ready :: "SocketAttachment \<Rightarrow> relay_do \<Rightarrow> bool" where
  "host_was_ready a s \<longleftrightarrow> sa_channel a = control \<and> sa_controlState a = Some active \<or>
     (case matchingSocket (rd_sockets s) a control None of
        None \<Rightarrow> False
      | Some i \<Rightarrow> (case attachment_of (rd_sockets s) i of None \<Rightarrow> False | Some b \<Rightarrow> sa_controlState b = Some active))"

text \<open>\<open>invalidateHostConnection\<close> as an operation of the whole object.\<close>

definition invalidate_host :: "string \<Rightarrow> string \<Rightarrow> bool relay" where
  "invalidate_host connectionSetId fence s =
     (case invalidateHostConnection connectionSetId fence s of Inl e \<Rightarrow> (s, Inl e) | Inr (s', ok) \<Rightarrow> (s', Inr ok))"

definition failCurrentHost :: "relay_env \<Rightarrow> SocketAttachment \<Rightarrow> unit relay" where
  "failCurrentHost env a = readS (\<lambda>s.
     if \<not> isCurrentHost (host_fence_of s) a then returnS ()
     else let wasReady = host_was_ready a s in
       bindS (invalidate_host (sa_connectionSetId a) (the (sa_hostFence a))) (\<lambda>ok.
         if \<not> ok then returnS ()
         else bindS (close_sockets (\<lambda>b. sa_peer b = host \<and> sa_hostFence b = sa_hostFence a \<and> sameConnection b a) None) (\<lambda>_.
           if wasReady then bindS (broadcastBrowserControl env HostOffline) (\<lambda>_. mark_catching_up_all)
           else returnS ())))"

section \<open>Sending to the host\<close>

datatype HostControlSendResult = host_sent | host_rejected | host_uncertain

definition sendHostControl :: "relay_env \<Rightarrow> nat \<Rightarrow> RelayToHostControlFrame \<Rightarrow> HostControlSendResult relay" where
  "sendHostControl env i frame = readS (\<lambda>s.
     case attachment_of (rd_sockets s) i of
       None \<Rightarrow> returnS host_rejected
     | Some a \<Rightarrow>
         if sa_peer a \<noteq> host \<or> sa_channel a \<noteq> control \<or> \<not> isCurrentHost (host_fence_of s) a then returnS host_rejected
         else if \<not> socket_open (rd_sockets s) i \<or> currentHostControl (rd_sockets s) (host_fence_of s) None \<noteq> Some i \<or>
                 \<not> RelayToHostControlFrameSchema frame
         then bindS (failCurrentHost env a) (\<lambda>_. returnS host_rejected)
         else bindS (try_send env (SentHost i frame)) (\<lambda>ok.
           if ok then returnS host_sent else bindS (failCurrentHost env a) (\<lambda>_. returnS host_uncertain)))"

text \<open>The time of the send is the caller's reading of the clock.\<close>

definition sendInputToHost ::
  "relay_env \<Rightarrow> nat \<Rightarrow> RelayToHostControlFrame \<Rightarrow> int \<Rightarrow> (int option \<times> HostControlSendResult) relay" where
  "sendInputToHost env i frame now = readS (\<lambda>s.
     case attachment_of (rd_sockets s) i of
       None \<Rightarrow> returnS (None, host_rejected)
     | Some a \<Rightarrow>
         if sa_peer a \<noteq> host \<or> sa_channel a \<noteq> control \<or> sa_hostFence a = None \<or> sa_controlState a \<noteq> Some active \<or>
            \<not> socket_open (rd_sockets s) i \<or> currentInputHostControl (rd_sockets s) \<noteq> Some i
         then returnS (None, host_rejected)
         else if \<not> RelayToHostControlFrameSchema frame \<or> rv_buffer_full env i frame then returnS (None, host_rejected)
         else bindS (try_send env (SentHost i frame)) (\<lambda>ok.
           if ok then returnS (Some now, host_sent)
           else bindS (failCurrentHost env a) (\<lambda>_. returnS (Some now, host_uncertain))))"

end
