(* ===== verification/Browser_Delivery.thy ===== *)
theory Browser_Delivery
  imports Relay_Runtime Relay_Delivery
begin

text \<open>
  \<open>apps/terminal-cloud/src/worker/browser-delivery-controller.ts\<close>: attaching a browser to its data socket, its acknowledgements, the
  delivery of one frame, and the reset of a delivery to the next generation. \<open>attach\<close> and \<open>reset\<close> are cut where they wait (for the
  writer lease, for the digest of the new ticket); what follows is a second operation that looks everything up again.
\<close>

section \<open>Attachments as delivery cursors\<close>

definition data_state_of :: "SocketDataState \<Rightarrow> DataState" where
  "data_state_of d = (case d of data_awaiting_attach \<Rightarrow> awaiting_attach | data_catching_up \<Rightarrow> catching_up | data_synced \<Rightarrow> synced)"

definition socket_state_of :: "DataState \<Rightarrow> SocketDataState" where
  "socket_state_of d = (case d of awaiting_attach \<Rightarrow> data_awaiting_attach | catching_up \<Rightarrow> data_catching_up | synced \<Rightarrow> data_synced)"

text \<open>The decimal strings of the attachment are read with \<open>BigInt\<close> and written back with \<open>toString\<close>.\<close>

definition cursor_state :: "SocketAttachment \<Rightarrow> DeliveryCursorState" where
  "cursor_state a = \<lparr>ds_ackedEventSeq = map_option bigint_of (sa_ackedEventSeq a),
     ds_ackedPtyOffset = map_option bigint_of (sa_ackedPtyOffset a),
     ds_dataState = map_option data_state_of (sa_dataState a),
     ds_firstEventSeq = map_option bigint_of (sa_firstEventSeq a),
     ds_firstPtyOffset = map_option bigint_of (sa_firstPtyOffset a),
     ds_sentEventSeq = map_option bigint_of (sa_sentEventSeq a),
     ds_sentPtyOffset = map_option bigint_of (sa_sentPtyOffset a)\<rparr>"

definition with_cursor :: "DeliveryCursorState \<Rightarrow> SocketAttachment \<Rightarrow> SocketAttachment" where
  "with_cursor st a = a\<lparr>sa_dataState := map_option socket_state_of (ds_dataState st),
     sa_sentEventSeq := map_option bigint_toString (ds_sentEventSeq st),
     sa_sentPtyOffset := map_option bigint_toString (ds_sentPtyOffset st)\<rparr>"

section \<open>Resetting a delivery\<close>

text \<open>A reset that waits for its digest, with what it captured before; \<open>rp_isolate\<close> is the handler of a failed send.\<close>

record PendingReset =
  rp_clientId :: string
  rp_reason :: BrowserDeliveryResetReason
  rp_notifyHost :: bool
  rp_expectedHost :: "(nat \<times> string) option"
  rp_client :: ClientRow
  rp_control :: nat
  rp_controlAttachment :: SocketAttachment
  rp_nextGeneration :: string
  rp_isolate :: "(nat \<times> SocketAttachment) option"

text \<open>\<open>ResetIsolates\<close> is a rejected promise whose handler isolates the connection.\<close>

datatype ResetPromise = ResetDone | ResetFailed StoreError | ResetIsolates nat SocketAttachment | ResetWaits PendingReset

definition reset_begin ::
  "string \<Rightarrow> BrowserDeliveryResetReason \<Rightarrow> bool \<Rightarrow> (nat \<times> string) option \<Rightarrow> relay_do \<Rightarrow> ResetPromise" where
  "reset_begin clientId reason notifyHost expectedHost s =
     (case (clientById clientId s, activeBrowserControl (rd_sockets s) clientId None) of
        (Some client, Some i) \<Rightarrow>
          (case attachment_of (rd_sockets s) i of
             None \<Rightarrow> ResetDone
           | Some a \<Rightarrow>
               if sa_clientId a \<noteq> Some clientId \<or> sa_controlState a \<noteq> Some active then ResetDone
               else if MAX_U64 < bigint_of (cl_delivery_generation client) + 1 then ResetFailed GenerationsExhausted
               else ResetWaits \<lparr>rp_clientId = clientId, rp_reason = reason, rp_notifyHost = notifyHost, rp_expectedHost = expectedHost,
                   rp_client = client, rp_control = i, rp_controlAttachment = a,
                   rp_nextGeneration = bigint_toString (bigint_of (cl_delivery_generation client) + 1), rp_isolate = None\<rparr>)
      | _ \<Rightarrow> ResetDone)"

text \<open>The world as it is after the wait.\<close>

definition reset_stale :: "PendingReset \<Rightarrow> relay_do \<Rightarrow> bool" where
  "reset_stale p s \<longleftrightarrow>
     \<not> socket_open (rd_sockets s) (rp_control p) \<or>
     activeBrowserControl (rd_sockets s) (rp_clientId p) None \<noteq> Some (rp_control p) \<or>
     (case clientById (rp_clientId p) s of None \<Rightarrow> True
      | Some c \<Rightarrow> cl_delivery_generation c \<noteq> cl_delivery_generation (rp_client p)) \<or>
     (case attachment_of (rd_sockets s) (rp_control p) of None \<Rightarrow> True
      | Some a \<Rightarrow> sa_clientId a \<noteq> Some (rp_clientId p) \<or> sa_controlState a \<noteq> Some active \<or>
          sa_connectionId a \<noteq> sa_connectionId (rp_controlAttachment p) \<or>
          sa_connectionSetId a \<noteq> sa_connectionSetId (rp_controlAttachment p)) \<or>
     (case rp_expectedHost p of None \<Rightarrow> False
      | Some (h, fence) \<Rightarrow> \<not> socket_open (rd_sockets s) h \<or>
          (case attachment_of (rd_sockets s) h of None \<Rightarrow> True | Some a \<Rightarrow> sa_hostFence a \<noteq> Some fence) \<or>
          currentHostControl (rd_sockets s) (host_fence_of s) None \<noteq> Some h)"

definition TICKET_LIFETIME_MS :: int where "TICKET_LIFETIME_MS = 30000"

definition reset_replacement :: "PendingReset \<Rightarrow> string \<Rightarrow> int \<Rightarrow> SocketAttachment \<Rightarrow> ClientRow \<Rightarrow> BrowserDeliveryReplacement" where
  "reset_replacement p digest expiresAt a client =
     \<lparr>bd_clientId = rp_clientId p, bd_connectionId = sa_connectionId a, bd_connectionSetId = sa_connectionSetId a,
      bd_currentGeneration = cl_delivery_generation (rp_client p), bd_expiresAt = expiresAt,
      bd_nextGeneration = rp_nextGeneration p, bd_role = sa_role a, bd_streamId = cl_stream_id client,
      bd_subject = sa_subject a, bd_ticketDigest = digest\<rparr>"

definition replace_delivery :: "BrowserDeliveryReplacement \<Rightarrow> int \<Rightarrow> bool relay" where
  "replace_delivery input dateNow s =
     (case replaceBrowserDelivery input dateNow s of Inl e \<Rightarrow> (s, Inl e) | Inr (s', ok) \<Rightarrow> (s', Inr ok))"

text \<open>After the replacement: close the old data sockets, move the control socket to the new generation, tell both sides.\<close>

definition notify_host_of_reset :: "relay_env \<Rightarrow> PendingReset \<Rightarrow> SocketAttachment \<Rightarrow> unit relay" where
  "notify_host_of_reset env p a = readS (\<lambda>s.
     case currentHostControl (rd_sockets s) (host_fence_of s) None of
       None \<Rightarrow> returnS ()
     | Some h \<Rightarrow> bindS (sendHostControl env h (DeliveryReset (sa_connectionId a) (cl_stream_id (rp_client p)) (rp_nextGeneration p)))
         (\<lambda>_. returnS ()))"

definition reset_announce :: "relay_env \<Rightarrow> PendingReset \<Rightarrow> string \<Rightarrow> int \<Rightarrow> SocketAttachment \<Rightarrow> unit relay" where
  "reset_announce env p dataTicket expiresAt a =
     (let a' = a\<lparr>sa_deliveryGeneration := rp_nextGeneration p, sa_controlState := Some active\<rparr> in
     bindS (close_sockets (\<lambda>b. sa_peer b = browser \<and> sa_channel b = data \<and> sa_clientId b = Some (rp_clientId p)) None) (\<lambda>_.
     bindS (write_attachment (rp_control p) a') (\<lambda>_.
     bindS (sendBrowserControl env (rp_control p)
        (ResyncRequired (rp_nextGeneration p) (rp_reason p) (Some dataTicket) (Some expiresAt))) (\<lambda>ok.
     if \<not> ok \<or> \<not> rp_notifyHost p \<or> rp_reason p \<noteq> reset_slow_client then returnS ()
     else notify_host_of_reset env p a'))))"

definition reset_finish :: "relay_env \<Rightarrow> PendingReset \<Rightarrow> string \<Rightarrow> string \<Rightarrow> int \<Rightarrow> int \<Rightarrow> unit relay" where
  "reset_finish env p dataTicket digest now dateNow = readS (\<lambda>s.
     if reset_stale p s then returnS ()
     else case (attachment_of (rd_sockets s) (rp_control p), clientById (rp_clientId p) s) of
       (Some a, Some client) \<Rightarrow>
         let expiresAt = now + TICKET_LIFETIME_MS in
         bindS (replace_delivery (reset_replacement p digest expiresAt a client) dateNow) (\<lambda>ok.
           if ok then reset_announce env p dataTicket expiresAt a else returnS ())
     | _ \<Rightarrow> returnS ())"

text \<open>The wait ends: a throw is caught by \<open>resetAfterDataSendFailure\<close>, where the reset came from there.\<close>

definition reset_settles :: "relay_env \<Rightarrow> PendingReset \<Rightarrow> string \<Rightarrow> string \<Rightarrow> int \<Rightarrow> int \<Rightarrow> unit relay" where
  "reset_settles env p dataTicket digest now dateNow s =
     (case (reset_finish env p dataTicket digest now dateNow s, rp_isolate p) of
        ((s', Inl e), Some (i, a)) \<Rightarrow> isolateBrowserConnection i a s'
      | (r, _) \<Rightarrow> r)"

definition resetAfterDataSendFailure :: "nat \<Rightarrow> SocketAttachment \<Rightarrow> relay_do \<Rightarrow> ResetPromise option" where
  "resetAfterDataSendFailure i a s =
     (case sa_clientId a of
        None \<Rightarrow> None
      | Some c \<Rightarrow> Some (case reset_begin c reset_data_disconnected False None s of
          ResetWaits p \<Rightarrow> ResetWaits (p\<lparr>rp_isolate := Some (i, a)\<rparr>)
        | ResetDone \<Rightarrow> ResetDone
        | _ \<Rightarrow> ResetIsolates i a))"

section \<open>Delivering one frame\<close>

datatype DeliverResult = DeliverNothing | DeliverSequenceError | DeliverPromise ResetPromise

definition is_current_delivery :: "ClientRow \<Rightarrow> SocketAttachment \<Rightarrow> bool" where
  "is_current_delivery client a \<longleftrightarrow> cl_stream_id client = sa_streamId a \<and> cl_delivery_generation client = sa_deliveryGeneration a"

definition deliverToBrowser :: "relay_env \<Rightarrow> nat \<Rightarrow> SocketAttachment \<Rightarrow> bytes \<Rightarrow> data_frame \<Rightarrow> DeliverResult relay" where
  "deliverToBrowser env i a encoded frame = readS (\<lambda>s.
     case sa_clientId a of
       None \<Rightarrow> returnS DeliverNothing
     | Some c \<Rightarrow>
         if \<not> socket_open (rd_sockets s) i then returnS DeliverNothing
         else case clientById c s of
           None \<Rightarrow> returnS DeliverNothing
         | Some client \<Rightarrow>
             if \<not> is_current_delivery client a then returnS DeliverNothing
             else case advanceDeliveryCursor (cursor_state a) frame of
               SequenceError \<Rightarrow> returnS DeliverSequenceError
             | CursorThrow \<Rightarrow> throwS CursorRange
             | CreditExceeded \<Rightarrow> returnS (DeliverPromise (reset_begin c reset_slow_client True None s))
             | CursorOk st' n \<Rightarrow>
                 (case rewriteDelivery encoded (bigint_of (cl_delivery_generation client)) (cl_stream_id client) of
                    Inl e \<Rightarrow> throwS FrameRejected
                  | Inr rewritten \<Rightarrow>
                      bindS (try_send env (SentData i rewritten)) (\<lambda>ok.
                        if ok then bindS (write_attachment i (with_cursor st' a)) (\<lambda>_. returnS DeliverNothing)
                        else readS (\<lambda>s'. returnS (case resetAfterDataSendFailure i a s' of
                            None \<Rightarrow> DeliverNothing | Some q \<Rightarrow> DeliverPromise q)))))"

section \<open>Acknowledgements\<close>

definition acknowledgement_exceeds :: "AckFrame \<Rightarrow> SocketAttachment \<Rightarrow> bool" where
  "acknowledgement_exceeds f d \<longleftrightarrow>
     bigint_of (the (sa_sentEventSeq d)) < bigint_of (ak_eventSeq f) \<or> bigint_of (the (sa_sentPtyOffset d)) < bigint_of (ak_nextPtyOffset f) \<or>
     (case sa_ackedEventSeq d of None \<Rightarrow> False | Some e \<Rightarrow> bigint_of (ak_eventSeq f) < bigint_of e) \<or>
     (case sa_ackedPtyOffset d of None \<Rightarrow> False | Some p \<Rightarrow> bigint_of (ak_nextPtyOffset f) < bigint_of p)"

definition acknowledgeDelivery :: "relay_env \<Rightarrow> nat \<Rightarrow> SocketAttachment \<Rightarrow> AckFrame \<Rightarrow> unit relay" where
  "acknowledgeDelivery env i a f = readS (\<lambda>s.
     case sa_clientId a of
       None \<Rightarrow> returnS ()
     | Some c \<Rightarrow>
         (case (rd_session s, clientById c s) of
            (Some session, Some client) \<Rightarrow>
              if ak_deliveryGeneration f \<noteq> cl_delivery_generation client then returnS ()
              else if ak_sessionEpoch f \<noteq> se_session_epoch session
              then bindS (sendBrowserControl env i (ResyncRequired (cl_delivery_generation client) reset_epoch_changed None None)) (\<lambda>_. returnS ())
              else if bigint_of (se_head_event_seq session) < bigint_of (ak_eventSeq f) \<or>
                      bigint_of (se_next_pty_offset session) < bigint_of (ak_nextPtyOffset f)
              then close_protocol i
              else (case browserDataByClient (rd_sockets s) c None of
                  None \<Rightarrow> close_protocol i
                | Some di \<Rightarrow>
                    (case attachment_of (rd_sockets s) di of
                       None \<Rightarrow> close_protocol i
                     | Some d \<Rightarrow>
                         if sa_deliveryGeneration d \<noteq> ak_deliveryGeneration f \<or> sa_sentEventSeq d = None \<or> sa_sentPtyOffset d = None
                         then close_protocol i
                         else if acknowledgement_exceeds f d then close_protocol i
                         else if map_option bigint_of (sa_ackedEventSeq d) = Some (bigint_of (ak_eventSeq f)) \<and>
                                 map_option bigint_of (sa_ackedPtyOffset d) = Some (bigint_of (ak_nextPtyOffset f))
                         then returnS ()
                         else write_attachment di (d\<lparr>sa_ackedEventSeq := Some (ak_eventSeq f),
                               sa_ackedPtyOffset := Some (ak_nextPtyOffset f)\<rparr>)))
          | _ \<Rightarrow> returnS ()))"

section \<open>Attaching\<close>

datatype AttachRefusal =
    already_attached | cursor_ahead | data_missing | attach_engine_mismatch | attach_epoch_changed | session_missing
  | stale_delivery | stale_control

record AttachContext =
  ac_client :: ClientRow
  ac_controlAttachment :: SocketAttachment
  ac_dataAttachment :: SocketAttachment
  ac_dataSocket :: nat
  ac_session :: SessionRow

definition attach_control :: "nat \<Rightarrow> SocketAttachment \<Rightarrow> ClientRow \<Rightarrow> relay_do \<Rightarrow> SocketAttachment option" where
  "attach_control i a client s =
     (case attachment_of (rd_sockets s) i of
        None \<Rightarrow> None
      | Some k \<Rightarrow>
          if \<not> socket_open (rd_sockets s) i \<or> sa_clientId k \<noteq> sa_clientId a \<or> sa_connectionId k \<noteq> sa_connectionId a \<or>
             sa_connectionSetId k \<noteq> sa_connectionSetId a \<or> activeBrowserControl (rd_sockets s) (the (sa_clientId a)) None \<noteq> Some i \<or>
             sa_controlState k = None \<or> sa_deliveryGeneration k \<noteq> cl_delivery_generation client
          then None else Some k)"

definition attach_data :: "SocketAttachment \<Rightarrow> ClientRow \<Rightarrow> relay_do \<Rightarrow> (nat \<times> SocketAttachment) option" where
  "attach_data a client s =
     (case browserDataByClient (rd_sockets s) (the (sa_clientId a)) None of
        None \<Rightarrow> None
      | Some di \<Rightarrow> (case attachment_of (rd_sockets s) di of
          None \<Rightarrow> None
        | Some d \<Rightarrow> if sa_connectionId d \<noteq> sa_connectionId a \<or> sa_connectionSetId d \<noteq> sa_connectionSetId a \<or>
              sa_deliveryGeneration d \<noteq> cl_delivery_generation client then None else Some (di, d)))"

definition live_cursor_ahead :: "LiveReplica \<Rightarrow> SessionRow \<Rightarrow> bool" where
  "live_cursor_ahead l session \<longleftrightarrow> bigint_of (se_head_event_seq session) < bigint_of (lr_lastEventSeq l) \<or>
     bigint_of (se_next_pty_offset session) < bigint_of (lr_nextPtyOffset l)"

definition resolveAttachContext ::
  "nat \<Rightarrow> SocketAttachment \<Rightarrow> AttachFrame \<Rightarrow> relay_do \<Rightarrow> (AttachRefusal \<times> ClientRow option) + AttachContext" where
  "resolveAttachContext i a f s =
     (case sa_clientId a of None \<Rightarrow> Inl (session_missing, None) | Some c \<Rightarrow>
     (case (rd_session s, clientById c s) of
        (Some session, Some client) \<Rightarrow>
          if af_deliveryGeneration f \<noteq> cl_delivery_generation client then Inl (stale_delivery, Some client)
          else (case attach_control i a client s of
             None \<Rightarrow> Inl (stale_control, Some client)
           | Some k \<Rightarrow>
               (case attach_data a client s of
                  None \<Rightarrow> Inl (if sa_controlState k = Some control_awaiting_attach then data_missing else stale_delivery, Some client)
                | Some (di, d) \<Rightarrow>
                    if sa_dataState d \<noteq> Some data_awaiting_attach then Inl (already_attached, Some client)
                    else if af_engineId f \<noteq> se_engine_id session then Inl (attach_engine_mismatch, Some client)
                    else if (case af_live f of None \<Rightarrow> False | Some l \<Rightarrow> lr_lastSessionEpoch l \<noteq> se_session_epoch session)
                    then Inl (attach_epoch_changed, Some client)
                    else if (case af_live f of None \<Rightarrow> False | Some l \<Rightarrow> live_cursor_ahead l session) then Inl (cursor_ahead, Some client)
                    else Inr \<lparr>ac_client = client, ac_controlAttachment = k, ac_dataAttachment = d, ac_dataSocket = di, ac_session = session\<rparr>))
      | _ \<Rightarrow> Inl (session_missing, None)))"

definition rejectAttach :: "relay_env \<Rightarrow> nat \<Rightarrow> AttachRefusal \<times> ClientRow option \<Rightarrow> unit relay" where
  "rejectAttach env i r =
     (case r of
        (stale_control, _) \<Rightarrow> returnS ()
      | (stale_delivery, _) \<Rightarrow> returnS ()
      | (already_attached, _) \<Rightarrow> readS (\<lambda>s. case attachment_of (rd_sockets s) i of
            None \<Rightarrow> close_protocol i | Some a \<Rightarrow> isolateBrowserConnection i a)
      | (attach_engine_mismatch, Some client) \<Rightarrow>
          bindS (sendBrowserControl env i (ResyncRequired (cl_delivery_generation client) reset_engine_mismatch None None)) (\<lambda>_. returnS ())
      | (attach_epoch_changed, Some client) \<Rightarrow>
          bindS (sendBrowserControl env i (ResyncRequired (cl_delivery_generation client) reset_epoch_changed None None)) (\<lambda>_. returnS ())
      | _ \<Rightarrow> close_protocol i)"

text \<open>The first half: a refusal is answered, a writer's first attach goes on to acquire the lease, any other goes straight on.\<close>

datatype AttachStep = AttachEnds | AttachGoesOn | AttachAcquires bool

definition attach_begin :: "relay_env \<Rightarrow> nat \<Rightarrow> SocketAttachment \<Rightarrow> AttachFrame \<Rightarrow> int \<Rightarrow> AttachStep relay" where
  "attach_begin env i a f now = readS (\<lambda>s.
     case resolveAttachContext i a f s of
       Inl r \<Rightarrow> bindS (rejectAttach env i r) (\<lambda>_. returnS AttachEnds)
     | Inr ctx \<Rightarrow>
         if sa_controlState (ac_controlAttachment ctx) = Some control_awaiting_attach \<and> sa_role a = writer
         then returnS (AttachAcquires (acquire_begin now (rd_world s)))
         else returnS AttachGoesOn)"

definition active_attachment :: "AttachContext \<Rightarrow> AcquiredWriterLease option \<Rightarrow> SocketAttachment" where
  "active_attachment ctx lease =
     (let k = ac_controlAttachment ctx in
      k\<lparr>sa_deliveryGeneration := cl_delivery_generation (ac_client ctx),
        sa_leaseFence := (case lease of None \<Rightarrow> sa_leaseFence k | Some l \<Rightarrow> Some (al_fence l)),
        sa_leaseExpiresAt := (case lease of None \<Rightarrow> sa_leaseExpiresAt k | Some l \<Rightarrow> Some (al_expiresAt l)),
        sa_controlState := Some active\<rparr>)"

definition attached_data :: "AttachContext \<Rightarrow> AttachFrame \<Rightarrow> SocketAttachment" where
  "attached_data ctx f =
     (let e = map_option lr_lastEventSeq (af_live f); p = map_option lr_nextPtyOffset (af_live f) in
      (ac_dataAttachment ctx)\<lparr>sa_dataState := Some data_catching_up,
        sa_firstEventSeq := e, sa_ackedEventSeq := e, sa_sentEventSeq := e,
        sa_firstPtyOffset := p, sa_ackedPtyOffset := p, sa_sentPtyOffset := p,
        sa_replayMode := None, sa_snapshotId := None, sa_replayCommitEventSeq := None, sa_replayCommitPtyOffset := None\<rparr>)"

definition welcome_frame :: "AttachContext \<Rightarrow> AcquiredWriterLease option \<Rightarrow> ServerControlFrame" where
  "welcome_frame ctx lease = Welcome
     \<lparr>we_connectionId = sa_connectionId (ac_controlAttachment ctx), we_streamId = cl_stream_id (ac_client ctx),
      we_writerLease = map_option al_token lease,
      we_writerFence = (case lease of None \<Rightarrow> None
        | Some l \<Rightarrow> if capable browserInputAdmissionV1 (ac_controlAttachment ctx) then Some (al_fence l) else None),
      we_engineId = se_engine_id (ac_session ctx), we_sessionEpoch = se_session_epoch (ac_session ctx),
      we_deliveryGeneration = cl_delivery_generation (ac_client ctx),
      we_headEventSeq = se_head_event_seq (ac_session ctx), we_nextPtyOffset = se_next_pty_offset (ac_session ctx)\<rparr>"

text \<open>The second half, with the lease that was acquired, if one was.\<close>

definition attach_commit ::
  "relay_env \<Rightarrow> nat \<Rightarrow> AttachFrame \<Rightarrow> bool \<Rightarrow> AcquiredWriterLease option \<Rightarrow> AttachContext \<Rightarrow> unit relay" where
  "attach_commit env i f initialActivation lease ctx =
     (let k' = active_attachment ctx lease in
      if \<not> SocketAttachmentSchema k' then throwS AttachmentRejected
      else bindS (if initialActivation then write_attachment i k' else returnS ()) (\<lambda>_.
        bindS (write_attachment (ac_dataSocket ctx) (attached_data ctx f)) (\<lambda>_.
        bindS (if initialActivation then sendBrowserControl env i (welcome_frame ctx lease) else returnS True) (\<lambda>ok.
        if \<not> ok then returnS ()
        else readS (\<lambda>s. case currentHostControl (rd_sockets s) (host_fence_of s) None of
            None \<Rightarrow> bindS (sendBrowserControl env i HostOffline) (\<lambda>_. returnS ())
          | Some h \<Rightarrow> bindS (sendHostControl env h (HostAttachRequest (sa_connectionId (ac_controlAttachment ctx))
                (cl_stream_id (ac_client ctx)) (f\<lparr>af_deliveryGeneration := cl_delivery_generation (ac_client ctx)\<rparr>))) (\<lambda>_. returnS ()))))))"

definition attach_finish ::
  "relay_env \<Rightarrow> nat \<Rightarrow> SocketAttachment \<Rightarrow> AttachFrame \<Rightarrow> bool \<Rightarrow> AcquiredWriterLease option \<Rightarrow> unit relay" where
  "attach_finish env i a f initialActivation lease = readS (\<lambda>s.
     case resolveAttachContext i a f s of
       Inl _ \<Rightarrow> (case lease of None \<Rightarrow> returnS ()
         | Some l \<Rightarrow> modifyS (\<lambda>s. s\<lparr>rd_world := release (the (sa_clientId a)) (Some (al_fence l)) (sa_connectionId a) (rd_world s)\<rparr>))
     | Inr ctx \<Rightarrow> attach_commit env i f initialActivation lease ctx)"

text \<open>An attach without a wait, and the end of the one that acquires: \<open>proceeds\<close> is what the check before the wait said.\<close>

definition attach_direct :: "relay_env \<Rightarrow> nat \<Rightarrow> SocketAttachment \<Rightarrow> AttachFrame \<Rightarrow> int \<Rightarrow> AttachStep relay" where
  "attach_direct env i a f now = readS (\<lambda>s.
     bindS (attach_begin env i a f now) (\<lambda>step.
       if step = AttachGoesOn
       then bindS (attach_finish env i a f (case resolveAttachContext i a f s of Inl _ \<Rightarrow> False
            | Inr ctx \<Rightarrow> sa_controlState (ac_controlAttachment ctx) = Some control_awaiting_attach) None) (\<lambda>_. returnS AttachEnds)
       else returnS step))"

definition acquire_lease :: "string \<Rightarrow> string \<Rightarrow> string \<Rightarrow> string \<Rightarrow> int \<Rightarrow> int \<Rightarrow> AcquiredWriterLease option relay" where
  "acquire_lease clientId connectionId token digest now1 now2 s =
     (case acquire_finish clientId connectionId token digest now1 now2 (rd_world s) of
        (w, Inl e) \<Rightarrow> (s\<lparr>rd_world := w\<rparr>, Inl (WriterFailed e))
      | (w, Inr l) \<Rightarrow> (s\<lparr>rd_world := w\<rparr>, Inr l))"

definition attach_acquired ::
  "relay_env \<Rightarrow> nat \<Rightarrow> SocketAttachment \<Rightarrow> AttachFrame \<Rightarrow> bool \<Rightarrow> string \<Rightarrow> string \<Rightarrow> int \<Rightarrow> int \<Rightarrow> unit relay" where
  "attach_acquired env i a f proceeds token digest now1 now2 =
     bindS (if proceeds then acquire_lease (the (sa_clientId a)) (sa_connectionId a) token digest now1 now2 else returnS None)
       (attach_finish env i a f True)"

end
