(* ===== verification/Delivery_Barriers.thy ===== *)
theory Delivery_Barriers
  imports Browser_Delivery
begin

text \<open>
  \<open>apps/terminal-cloud/src/worker/delivery-barrier-controller.ts\<close>: a barrier marker of the host freezes one browser's recovery plan
  (warm replay or snapshot) up to the canonical head and reports the outcome. The payload is decoded by the environment; \<open>None\<close> is one
  that does not decode.
\<close>

definition cursor_unchanged :: "string option \<Rightarrow> string option \<Rightarrow> string option \<Rightarrow> bool" where
  "cursor_unchanged first acked sent \<longleftrightarrow> first = None \<and> acked = None \<and> sent = None \<or> first \<noteq> None \<and> first = acked \<and> first = sent"

definition hasUnadvancedDeliveryCursor :: "SocketAttachment \<Rightarrow> bool" where
  "hasUnadvancedDeliveryCursor a \<longleftrightarrow>
     cursor_unchanged (sa_firstEventSeq a) (sa_ackedEventSeq a) (sa_sentEventSeq a) \<and>
     cursor_unchanged (sa_firstPtyOffset a) (sa_ackedPtyOffset a) (sa_sentPtyOffset a)"

definition hasPinnedDeliveryInProgress :: "relay_do \<Rightarrow> bool" where
  "hasPinnedDeliveryInProgress s \<longleftrightarrow> list_ex
     (\<lambda>i. case attachment_of (rd_sockets s) i of None \<Rightarrow> False
        | Some a \<Rightarrow> sa_dataState a = Some data_catching_up \<and> sa_replayCommitEventSeq a \<noteq> None \<and> sa_replayCommitPtyOffset a \<noteq> None)
     (browserDataSockets (rd_sockets s))"

section \<open>The verdict\<close>

text \<open>Details go only to a host that negotiated them.\<close>

definition sendResult ::
  "relay_env \<Rightarrow> nat \<Rightarrow> data_frame \<Rightarrow> DeliveryBarrierPayload \<Rightarrow> BarrierStatus \<Rightarrow> BarrierDetail option \<Rightarrow> unit relay" where
  "sendResult env h frame payload status detail = readS (\<lambda>s.
     let supports = (case attachment_of (rd_sockets s) h of None \<Rightarrow> False | Some a \<Rightarrow> capable deliveryBarrierOutcomeV1 a) in
     bindS (sendHostControl env h (BarrierVerdict
         \<lparr>bi_commitEventSeq = bigint_toString (df_eventSeq frame), bi_commitPtyOffset = bigint_toString (df_ptyOffset frame),
          bi_connectionId = bp_connectionId payload, bi_deliveryGeneration = bigint_toString (df_deliveryGeneration frame),
          bi_streamId = df_streamId frame, bi_mode = bp_mode payload, br_status = status,
          br_detail = (if supports then detail else None)\<rparr>))
       (\<lambda>_. returnS ()))"

definition reject_barrier :: "relay_env \<Rightarrow> nat \<Rightarrow> data_frame \<Rightarrow> DeliveryBarrierPayload \<Rightarrow> BarrierDetail \<Rightarrow> unit relay" where
  "reject_barrier env h frame payload d = sendResult env h frame payload (detail_status d) (Some d)"

section \<open>The guards\<close>

text \<open>The host's control socket, when the barrier came in over the current pair.\<close>

definition barrier_host_control :: "nat \<Rightarrow> SocketAttachment \<Rightarrow> relay_do \<Rightarrow> nat option" where
  "barrier_host_control hostData ha s =
     (case matchingSocket (rd_sockets s) ha control None of
        None \<Rightarrow> None
      | Some h \<Rightarrow> (case attachment_of (rd_sockets s) h of
          None \<Rightarrow> None
        | Some k \<Rightarrow>
            if currentHostData (rd_sockets s) (host_fence_of s) None \<noteq> Some hostData \<or>
               currentHostControl (rd_sockets s) (host_fence_of s) None \<noteq> Some h \<or>
               sa_hostFence k \<noteq> sa_hostFence ha \<or> sa_connectionSetId k \<noteq> sa_connectionSetId ha \<or>
               sa_connectionId k \<noteq> sa_connectionId ha
            then None else Some h))"

text \<open>The browser's sockets, when both are the client's current pair.\<close>

definition barrier_browser ::
  "DeliveryBarrierPayload \<Rightarrow> ClientRow \<Rightarrow> relay_do \<Rightarrow> (nat \<times> nat \<times> SocketAttachment) option" where
  "barrier_browser payload client s =
     (case (activeBrowserControl (rd_sockets s) (cl_client_id client) None, browserDataByClient (rd_sockets s) (cl_client_id client) None) of
        (Some ci, Some di) \<Rightarrow>
          (case (attachment_of (rd_sockets s) ci, attachment_of (rd_sockets s) di) of
             (Some k, Some d) \<Rightarrow>
               if sa_controlState k \<noteq> Some active \<or> sa_clientId k \<noteq> Some (cl_client_id client) \<or>
                  sa_connectionId k \<noteq> bp_connectionId payload \<or> sa_streamId k \<noteq> cl_stream_id client \<or>
                  sa_deliveryGeneration k \<noteq> cl_delivery_generation client \<or> sa_clientId d \<noteq> Some (cl_client_id client) \<or>
                  sa_connectionSetId d \<noteq> sa_connectionSetId k \<or> sa_connectionId d \<noteq> sa_connectionId k \<or>
                  sa_streamId d \<noteq> cl_stream_id client \<or> sa_deliveryGeneration d \<noteq> cl_delivery_generation client
               then None else Some (ci, di, d)
           | _ \<Rightarrow> None)
      | _ \<Rightarrow> None)"

definition expected_snapshot :: "DeliveryBarrierPayload \<Rightarrow> string option" where
  "expected_snapshot payload = (case bp_mode payload of warm_mode \<Rightarrow> None | snapshot_mode i \<Rightarrow> Some i)"

definition replay_mode :: "DeliveryBarrierPayload \<Rightarrow> ReplayMode" where
  "replay_mode payload = (case bp_mode payload of warm_mode \<Rightarrow> warm | snapshot_mode _ \<Rightarrow> snapshot)"

definition has_no_pin :: "SocketAttachment \<Rightarrow> bool" where
  "has_no_pin d \<longleftrightarrow> sa_replayMode d = None \<and> sa_snapshotId d = None \<and> sa_replayCommitEventSeq d = None \<and> sa_replayCommitPtyOffset d = None"

definition has_exact_pin :: "DeliveryBarrierPayload \<Rightarrow> data_frame \<Rightarrow> SocketAttachment \<Rightarrow> bool" where
  "has_exact_pin payload frame d \<longleftrightarrow> sa_replayMode d = Some (replay_mode payload) \<and> sa_snapshotId d = expected_snapshot payload \<and>
     sa_replayCommitEventSeq d = Some (bigint_toString (df_eventSeq frame)) \<and>
     sa_replayCommitPtyOffset d = Some (bigint_toString (df_ptyOffset frame))"

section \<open>The plan\<close>

definition warm_pin :: "data_frame \<Rightarrow> SocketAttachment \<Rightarrow> SocketAttachment" where
  "warm_pin frame d = d\<lparr>sa_replayMode := Some warm, sa_snapshotId := None,
     sa_replayCommitEventSeq := Some (bigint_toString (df_eventSeq frame)),
     sa_replayCommitPtyOffset := Some (bigint_toString (df_ptyOffset frame))\<rparr>"

definition warm_frame :: "SessionRow \<Rightarrow> ClientRow \<Rightarrow> data_frame \<Rightarrow> string \<Rightarrow> string \<Rightarrow> ServerControlFrame" where
  "warm_frame session client frame e p = ReplayStart
     \<lparr>rs_sessionEpoch = se_session_epoch session, rs_streamId = cl_stream_id client,
      rs_deliveryGeneration = cl_delivery_generation client, rs_baseEventSeq = e, rs_basePtyOffset = p,
      rs_commitEventSeq = bigint_toString (df_eventSeq frame), rs_commitPtyOffset = bigint_toString (df_ptyOffset frame)\<rparr>"

definition snapshot_pin :: "SnapshotMetadata \<Rightarrow> string \<Rightarrow> data_frame \<Rightarrow> SocketAttachment \<Rightarrow> SocketAttachment" where
  "snapshot_pin m snapshotId frame d = d\<lparr>
     sa_firstEventSeq := Some (sm_cutEventSeq m), sa_ackedEventSeq := Some (sm_cutEventSeq m), sa_sentEventSeq := Some (sm_cutEventSeq m),
     sa_firstPtyOffset := Some (sm_nextPtyOffset m), sa_ackedPtyOffset := Some (sm_nextPtyOffset m), sa_sentPtyOffset := Some (sm_nextPtyOffset m),
     sa_replayMode := Some snapshot, sa_snapshotId := Some snapshotId,
     sa_replayCommitEventSeq := Some (bigint_toString (df_eventSeq frame)),
     sa_replayCommitPtyOffset := Some (bigint_toString (df_ptyOffset frame))\<rparr>"

definition manifest_frame :: "SessionRow \<Rightarrow> ClientRow \<Rightarrow> data_frame \<Rightarrow> SnapshotMetadata \<Rightarrow> ServerControlFrame" where
  "manifest_frame session client frame m = ManifestOffered
     \<lparr>mn_snapshot = m, mn_streamId = cl_stream_id client, mn_deliveryGeneration = cl_delivery_generation client,
      mn_commitEventSeq = bigint_toString (df_eventSeq frame), mn_commitPtyOffset = bigint_toString (df_ptyOffset frame),
      mn_downloadPath = ''/api/v1/sessions/'' @ se_session_id session @ ''/snapshots/'' @ sm_snapshotId m\<rparr>"

definition snapshot_mismatch :: "SessionRow \<Rightarrow> data_frame \<Rightarrow> SnapshotMetadata \<Rightarrow> bool" where
  "snapshot_mismatch session frame m \<longleftrightarrow> sm_sessionId m \<noteq> se_session_id session \<or> sm_sessionEpoch m \<noteq> se_session_epoch session \<or>
     sm_engineId m \<noteq> se_engine_id session \<or> df_eventSeq frame < bigint_of (sm_cutEventSeq m) \<or> df_ptyOffset frame < bigint_of (sm_nextPtyOffset m)"

text \<open>What a barrier leads to: a verdict, a failed host, or the plan: the attachment to pin and the frame for the browser.\<close>

datatype BarrierPlan = PlanRejected BarrierDetail | PlanFailsHost | PlanStarts SocketAttachment ServerControlFrame

definition barrier_plan ::
  "relay_env \<Rightarrow> SessionRow \<Rightarrow> ClientRow \<Rightarrow> data_frame \<Rightarrow> DeliveryBarrierPayload \<Rightarrow> SocketAttachment \<Rightarrow> BarrierPlan" where
  "barrier_plan env session client frame payload d =
     (if sa_dataState d \<noteq> Some data_catching_up \<or> \<not> hasUnadvancedDeliveryCursor d then PlanFailsHost
      else if \<not> has_no_pin d \<and> \<not> has_exact_pin payload frame d then PlanFailsHost
      else case bp_mode payload of
        warm_mode \<Rightarrow>
          (case (sa_firstEventSeq d, sa_firstPtyOffset d) of
             (Some e, Some p) \<Rightarrow> PlanStarts (warm_pin frame d) (warm_frame session client frame e p)
           | _ \<Rightarrow> PlanRejected missing_live_seed)
      | snapshot_mode i \<Rightarrow>
          (case rv_published env i of
             None \<Rightarrow> PlanRejected snapshot_missing
           | Some m \<Rightarrow>
               if snapshot_mismatch session frame m then PlanRejected snapshot_metadata_mismatch
               else if has_exact_pin payload frame d \<and>
                  (sa_firstEventSeq d \<noteq> Some (sm_cutEventSeq m) \<or> sa_firstPtyOffset d \<noteq> Some (sm_nextPtyOffset m)) then PlanFailsHost
               else PlanStarts (snapshot_pin m i frame d) (manifest_frame session client frame m)))"

definition barrier_start ::
  "relay_env \<Rightarrow> nat \<Rightarrow> data_frame \<Rightarrow> DeliveryBarrierPayload \<Rightarrow> nat \<Rightarrow> nat \<Rightarrow> SocketAttachment \<Rightarrow> SocketAttachment \<Rightarrow> ServerControlFrame \<Rightarrow> unit relay"
where
  "barrier_start env h frame payload ci di d d' browserFrame =
     bindS (if has_no_pin d
        then bindS (write_attachment di d') (\<lambda>_. if sa_snapshotId d' \<noteq> None then modifyS (relay_effect SnapshotMaintenance) else returnS ())
        else returnS ()) (\<lambda>_.
     bindS (sendBrowserControl env ci browserFrame) (\<lambda>ok.
       if ok then sendResult env h frame payload barrier_ready None
       else reject_barrier env h frame payload browser_control_send_failed))"

section \<open>A barrier\<close>

definition handle_barrier ::
  "relay_env \<Rightarrow> nat \<Rightarrow> SocketAttachment \<Rightarrow> SessionRow \<Rightarrow> data_frame \<Rightarrow> unit relay" where
  "handle_barrier env hostData ha session frame = readS (\<lambda>s.
     case barrier_host_control hostData ha s of
       None \<Rightarrow> failCurrentHost env ha
     | Some h \<Rightarrow>
         (case rv_barrier_payload env (df_payload frame) of
            None \<Rightarrow> failCurrentHost env ha
          | Some payload \<Rightarrow>
              if df_streamId frame = 0 \<or> df_eventSeq frame \<noteq> bigint_of (se_head_event_seq session) \<or>
                 df_ptyOffset frame \<noteq> bigint_of (se_next_pty_offset session)
              then failCurrentHost env ha
              else (case clientByStream (df_streamId frame) s of
                  None \<Rightarrow> reject_barrier env h frame payload generation_fenced
                | Some client \<Rightarrow>
                    if df_deliveryGeneration frame \<noteq> bigint_of (cl_delivery_generation client)
                    then reject_barrier env h frame payload generation_fenced
                    else (case barrier_browser payload client s of
                        None \<Rightarrow> reject_barrier env h frame payload client_gone
                      | Some (ci, di, d) \<Rightarrow>
                          (case barrier_plan env session client frame payload d of
                             PlanFailsHost \<Rightarrow> failCurrentHost env ha
                           | PlanRejected r \<Rightarrow> reject_barrier env h frame payload r
                           | PlanStarts d' browserFrame \<Rightarrow> barrier_start env h frame payload ci di d d' browserFrame)))))"

end
