(* ===== verification/Host_Data_Batch.thy ===== *)
theory Host_Data_Batch
  imports Delivery_Barriers
begin

text \<open>
  \<open>apps/terminal-cloud/src/worker/host-data-batch-processor.ts\<close>: a batch of canonical frames is checked, committed to the session row and
  fanned out to the synced browsers. The frames' bytes are views of one inbound buffer that the relay may overwrite in place: the
  loop over the sockets threads their current contents, one byte string per view, in the order in which they lie in the buffer.
\<close>

definition rewriteDecodedDeliveryInPlace :: "int \<Rightarrow> int \<Rightarrow> bytes \<Rightarrow> bytes" where
  "rewriteDecodedDeliveryInPlace g sid encoded = poke 40 (le_put 4 sid) (poke 16 (le_put 8 g) encoded)"

section \<open>Checking and committing\<close>

definition batch_applies :: "relay_do \<Rightarrow> batch_entry list \<Rightarrow> bool" where
  "batch_applies s es \<longleftrightarrow> 2 \<le> length es \<and> \<not> hasPinnedDeliveryInProgress s \<and>
     list_all (\<lambda>(_, f). df_streamId f = 0 \<and> (df_kind f = PtyOutput \<or> df_kind f = ResizeApplied)) es"

definition canonical_frame_error :: "int \<Rightarrow> int \<Rightarrow> data_frame \<Rightarrow> bool" where
  "canonical_frame_error headEventSeq nextPtyOffset f \<longleftrightarrow>
     df_eventSeq f \<noteq> headEventSeq + 1 \<or> df_ptyOffset f \<noteq> nextPtyOffset \<or>
     (df_kind f = ResizeApplied \<and> payload_length f \<noteq> 16) \<or>
     (df_kind f = PtyOutput \<and> MAX_U64 - payload_length f < df_ptyOffset f)"

fun canonical_loop :: "int \<Rightarrow> int \<Rightarrow> int \<Rightarrow> data_frame list \<Rightarrow> (int \<times> int) option" where
  "canonical_loop sessionEpoch headEventSeq nextPtyOffset [] = Some (headEventSeq, nextPtyOffset)"
| "canonical_loop sessionEpoch headEventSeq nextPtyOffset (f # fs) =
     (if df_sessionEpoch f \<noteq> sessionEpoch \<or> df_deliveryGeneration f \<noteq> 0 \<or> canonical_frame_error headEventSeq nextPtyOffset f then None
      else canonical_loop sessionEpoch (df_eventSeq f) (if df_kind f = PtyOutput then df_ptyOffset f + payload_length f else nextPtyOffset) fs)"

definition commit_head :: "string \<Rightarrow> int \<Rightarrow> int \<Rightarrow> relay_do \<Rightarrow> relay_do" where
  "commit_head fence headEventSeq nextPtyOffset s = s\<lparr>rd_session := map_option
     (\<lambda>r. if se_host_fence r = fence
        then r\<lparr>se_head_event_seq := bigint_toString headEventSeq, se_next_pty_offset := bigint_toString nextPtyOffset\<rparr> else r)
     (rd_session s)\<rparr>"

section \<open>Fanning out\<close>

fun send_each :: "relay_env \<Rightarrow> bool \<Rightarrow> int \<Rightarrow> int \<Rightarrow> nat \<Rightarrow> bytes list \<Rightarrow> (bytes list \<times> bool) relay" where
  "send_each env inPlace g sid i [] = returnS ([], True)"
| "send_each env inPlace g sid i (b # bs) =
     (case (if inPlace then Inr (rewriteDecodedDeliveryInPlace g sid b) else rewriteDelivery b g sid) of
        Inl e \<Rightarrow> throwS FrameRejected
      | Inr out \<Rightarrow> bindS (try_send env (SentData i out)) (\<lambda>ok.
          let b' = (if inPlace then out else b) in
          if ok then bindS (send_each env inPlace g sid i bs) (\<lambda>(bs', ok'). returnS (b' # bs', ok'))
          else returnS (b' # bs, False)))"

definition send_batch ::
  "relay_env \<Rightarrow> bool \<Rightarrow> ClientRow \<Rightarrow> SocketAttachment \<Rightarrow> nat \<Rightarrow> bytes list \<Rightarrow> (bytes list \<times> bool) relay" where
  "send_batch env inPlace client a i bufs =
     (let g = bigint_of (cl_delivery_generation client); sid = cl_stream_id client in
      if inPlace \<and> capable browserDataBatchV1 a
      then let bufs' = map (rewriteDecodedDeliveryInPlace g sid) bufs in
        bindS (try_send env (SentData i (concat bufs'))) (\<lambda>ok. returnS (bufs', ok))
      else send_each env inPlace g sid i bufs)"

text \<open>One socket: nothing, a reset, or the batch and the cursor it moves; the result is the buffers and the promises.\<close>

definition deliver_batch ::
  "relay_env \<Rightarrow> bool \<Rightarrow> data_frame list \<Rightarrow> nat \<Rightarrow> bytes list \<Rightarrow> (bytes list \<times> ResetPromise list) relay" where
  "deliver_batch env inPlace frames i bufs = readS (\<lambda>s.
     case attachment_of (rd_sockets s) i of
       None \<Rightarrow> returnS (bufs, [])
     | Some a \<Rightarrow>
         (case sa_clientId a of
            None \<Rightarrow> returnS (bufs, [])
          | Some c \<Rightarrow>
              if sa_dataState a \<noteq> Some data_synced \<or> \<not> socket_open (rd_sockets s) i then returnS (bufs, [])
              else (case clientById c s of
                  None \<Rightarrow> returnS (bufs, [])
                | Some client \<Rightarrow>
                    if \<not> is_current_delivery client a then returnS (bufs, [])
                    else (case advanceDeliveryCursorBatch (cursor_state a) frames of
                        SequenceError \<Rightarrow> returnS (bufs, [reset_begin c reset_journal_gap False None s])
                      | CreditExceeded \<Rightarrow> returnS (bufs, [reset_begin c reset_slow_client True None s])
                      | CursorThrow \<Rightarrow> throwS CursorRange
                      | CursorOk st' n \<Rightarrow> bindS (send_batch env inPlace client a i bufs) (\<lambda>(bufs', ok).
                          if ok then bindS (write_attachment i (with_cursor st' a)) (\<lambda>_. returnS (bufs', []))
                          else readS (\<lambda>s'. returnS (bufs', case resetAfterDataSendFailure i a s' of None \<Rightarrow> [] | Some r \<Rightarrow> [r])))))))"

fun fan_out ::
  "relay_env \<Rightarrow> bool \<Rightarrow> data_frame list \<Rightarrow> nat list \<Rightarrow> bytes list \<Rightarrow> ResetPromise list \<Rightarrow> ResetPromise list relay" where
  "fan_out env inPlace frames [] bufs promises = returnS promises"
| "fan_out env inPlace frames (i # is) bufs promises =
     bindS (deliver_batch env inPlace frames i bufs) (\<lambda>(bufs', ps). fan_out env inPlace frames is bufs' (promises @ ps))"

definition synced_sockets :: "relay_do \<Rightarrow> nat list" where
  "synced_sockets s = filter (\<lambda>i. case attachment_of (rd_sockets s) i of None \<Rightarrow> False | Some a \<Rightarrow> sa_dataState a = Some data_synced)
     (browserDataSockets (rd_sockets s))"

text \<open>\<open>None\<close>: the batch path does not apply.\<close>

definition process_batch :: "relay_env \<Rightarrow> SocketAttachment \<Rightarrow> batch_entry list \<Rightarrow> ResetPromise list option relay" where
  "process_batch env a es = readS (\<lambda>s.
     if \<not> batch_applies s es then returnS None
     else case rd_session s of
       None \<Rightarrow> bindS (failCurrentHost env a) (\<lambda>_. returnS (Some []))
     | Some session \<Rightarrow>
         (case canonical_loop (bigint_of (se_session_epoch session)) (bigint_of (se_head_event_seq session))
             (bigint_of (se_next_pty_offset session)) (map snd es) of
            None \<Rightarrow> bindS (failCurrentHost env a) (\<lambda>_. returnS (Some []))
          | Some (headEventSeq, nextPtyOffset) \<Rightarrow>
              bindS (modifyS (commit_head (se_host_fence session) headEventSeq nextPtyOffset)) (\<lambda>_. readS (\<lambda>s1.
              bindS (fan_out env (length (synced_sockets s1) = 1) (map snd es) (browserDataSockets (rd_sockets s1)) (map fst es) [])
                (\<lambda>ps. returnS (Some ps))))))"

end
