(* ===== verification/Host_Relay.thy ===== *)
theory Host_Relay
  imports Host_Data_Batch
begin

text \<open>
  \<open>apps/terminal-cloud/src/worker/host-relay-controller.ts\<close>: the host's control frames and its data. A handler that waits is cut there:
  \<open>host-ready\<close> at the resets it starts, \<open>handleData\<close> after a batch and between the frames of a list. A control frame comes
  decoded; \<open>None\<close> is a text that does not decode.
\<close>

section \<open>Canonical and directed frames\<close>

definition commitCanonicalFrame :: "SessionRow \<Rightarrow> data_frame \<Rightarrow> relay_do \<Rightarrow> relay_do option" where
  "commitCanonicalFrame session f s =
     (if df_kind f \<noteq> PtyOutput \<and> df_kind f \<noteq> ResizeApplied then None
      else if canonical_frame_error (bigint_of (se_head_event_seq session)) (bigint_of (se_next_pty_offset session)) f then None
      else Some (commit_head (se_host_fence session) (df_eventSeq f)
        (if df_kind f = PtyOutput then df_ptyOffset f + payload_length f else df_ptyOffset f) s))"

definition isDirectedFrameWithinPinnedCommit :: "SocketAttachment \<Rightarrow> data_frame \<Rightarrow> bool" where
  "isDirectedFrameWithinPinnedCommit a f \<longleftrightarrow>
     (case (sa_replayMode a, sa_replayCommitEventSeq a, sa_replayCommitPtyOffset a) of
        (Some _, Some ce, Some cp) \<Rightarrow>
          let commitEventSeq = bigint_of ce; commitPtyOffset = bigint_of cp in
          if df_kind f = Reset then False
          else if df_kind f = ReplayCommit then df_eventSeq f = commitEventSeq \<and> df_ptyOffset f = commitPtyOffset
          else if commitEventSeq < df_eventSeq f \<or> commitPtyOffset < df_ptyOffset f then False
          else if df_kind f = ResizeApplied then True
          else df_kind f = PtyOutput \<and> df_ptyOffset f \<le> MAX_U64 - payload_length f \<and>
            df_ptyOffset f + payload_length f \<le> commitPtyOffset
      | _ \<Rightarrow> False)"

text \<open>The loop of a committed frame over the browsers' data sockets.\<close>

definition deliver_synced :: "relay_env \<Rightarrow> bytes \<Rightarrow> data_frame \<Rightarrow> nat \<Rightarrow> ResetPromise list relay" where
  "deliver_synced env encoded frame i = readS (\<lambda>s.
     case attachment_of (rd_sockets s) i of
       None \<Rightarrow> returnS []
     | Some a \<Rightarrow>
         if sa_dataState a \<noteq> Some data_synced then returnS []
         else bindS (deliverToBrowser env i a encoded frame) (\<lambda>r. readS (\<lambda>s'.
           returnS (case r of
               DeliverNothing \<Rightarrow> []
             | DeliverPromise p \<Rightarrow> [p]
             | DeliverSequenceError \<Rightarrow> (case sa_clientId a of None \<Rightarrow> [] | Some c \<Rightarrow> [reset_begin c reset_journal_gap False None s'])))))"

fun deliver_all :: "relay_env \<Rightarrow> bytes \<Rightarrow> data_frame \<Rightarrow> nat list \<Rightarrow> ResetPromise list \<Rightarrow> ResetPromise list relay" where
  "deliver_all env encoded frame [] promises = returnS promises"
| "deliver_all env encoded frame (i # is) promises =
     bindS (deliver_synced env encoded frame i) (\<lambda>ps. deliver_all env encoded frame is (promises @ ps))"

definition handle_canonical :: "relay_env \<Rightarrow> SocketAttachment \<Rightarrow> SessionRow \<Rightarrow> bytes \<Rightarrow> data_frame \<Rightarrow> ResetPromise list relay" where
  "handle_canonical env a session encoded frame = readS (\<lambda>s.
     case (if df_deliveryGeneration frame \<noteq> 0 \<or> hasPinnedDeliveryInProgress s then None else commitCanonicalFrame session frame s) of
       None \<Rightarrow> bindS (failCurrentHost env a) (\<lambda>_. returnS [])
     | Some s1 \<Rightarrow> bindS (modifyS (\<lambda>_. s1)) (\<lambda>_. deliver_all env encoded frame (browserDataSockets (rd_sockets s1)) []))"

definition handle_directed :: "relay_env \<Rightarrow> SocketAttachment \<Rightarrow> bytes \<Rightarrow> data_frame \<Rightarrow> ResetPromise list relay" where
  "handle_directed env a encoded frame = readS (\<lambda>s.
     case clientByStream (df_streamId frame) s of
       None \<Rightarrow> returnS []
     | Some client \<Rightarrow>
         if df_deliveryGeneration frame \<noteq> bigint_of (cl_delivery_generation client) then returnS []
         else case browserDataByClient (rd_sockets s) (cl_client_id client) None of
           None \<Rightarrow> returnS []
         | Some di \<Rightarrow>
             (case attachment_of (rd_sockets s) di of
                None \<Rightarrow> returnS []
              | Some d \<Rightarrow>
                  if df_kind frame = Reset then bindS (failCurrentHost env a) (\<lambda>_. returnS [])
                  else if sa_deliveryGeneration d \<noteq> cl_delivery_generation client \<or> sa_dataState d = Some data_synced then returnS []
                  else if \<not> isDirectedFrameWithinPinnedCommit d frame then bindS (failCurrentHost env a) (\<lambda>_. returnS [])
                  else bindS (deliverToBrowser env di d encoded frame) (\<lambda>r.
                    case r of
                      DeliverNothing \<Rightarrow> returnS []
                    | DeliverPromise p \<Rightarrow> returnS [p]
                    | DeliverSequenceError \<Rightarrow> bindS (failCurrentHost env a) (\<lambda>_. returnS []))))"

definition handleDataFrame :: "relay_env \<Rightarrow> nat \<Rightarrow> SocketAttachment \<Rightarrow> bytes \<Rightarrow> data_frame \<Rightarrow> ResetPromise list relay" where
  "handleDataFrame env i a encoded frame = readS (\<lambda>s.
     case rd_session s of
       None \<Rightarrow> bindS (failCurrentHost env a) (\<lambda>_. returnS [])
     | Some session \<Rightarrow>
         if df_sessionEpoch frame \<noteq> bigint_of (se_session_epoch session) then bindS (failCurrentHost env a) (\<lambda>_. returnS [])
         else if df_kind frame = DeliveryBarrier then bindS (handle_barrier env i a session frame) (\<lambda>_. returnS [])
         else if df_streamId frame = 0 then handle_canonical env a session encoded frame
         else handle_directed env a encoded frame)"

section \<open>\<open>handleData\<close>\<close>

definition host_data_ready :: "nat \<Rightarrow> SocketAttachment \<Rightarrow> relay_do \<Rightarrow> bool" where
  "host_data_ready i a s \<longleftrightarrow>
     (let c = connectionSockets (rd_sockets s) a False None in
      cs_phase c = ready \<and> cs_control c = currentHostControl (rd_sockets s) (host_fence_of s) None \<and>
      currentHostData (rd_sockets s) (host_fence_of s) None = Some i)"

text \<open>What remains to be done after the first part: nothing, the promises of a batch, or the frames one by one.\<close>

datatype HostDataStep = DataEnds | DataBatched "ResetPromise list" | DataFrames "batch_entry list"

definition decode_host_data :: "SocketAttachment \<Rightarrow> bytes \<Rightarrow> ProtocolErrorCode + batch_entry list" where
  "decode_host_data a encoded =
     (if capable hostDataBatchV1 a then decodeDataFrameBatchEntries encoded
      else bindR (decodeDataFrame encoded) (\<lambda>frame. Inr [(encoded, frame)]))"

definition host_data_begin :: "relay_env \<Rightarrow> nat \<Rightarrow> SocketAttachment \<Rightarrow> bytes \<Rightarrow> HostDataStep relay" where
  "host_data_begin env i a encoded = readS (\<lambda>s.
     if \<not> socket_open (rd_sockets s) i \<or> \<not> isCurrentHost (host_fence_of s) a then returnS DataEnds
     else if cs_data (connectionSockets (rd_sockets s) a False None) \<noteq> Some i then returnS DataEnds
     else if \<not> host_data_ready i a s then bindS (failCurrentHost env a) (\<lambda>_. returnS DataEnds)
     else case decode_host_data a encoded of
       Inl e \<Rightarrow> bindS (failCurrentHost env a) (\<lambda>_. returnS DataEnds)
     | Inr es \<Rightarrow> bindS (process_batch env a es) (\<lambda>r.
         returnS (case r of None \<Rightarrow> DataFrames es | Some ps \<Rightarrow> DataBatched ps)))"

text \<open>One turn of the loop: \<open>None\<close> ends the handler without an acknowledgement.\<close>

definition host_data_frame :: "relay_env \<Rightarrow> nat \<Rightarrow> SocketAttachment \<Rightarrow> batch_entry \<Rightarrow> ResetPromise list option relay" where
  "host_data_frame env i a e = readS (\<lambda>s.
     if \<not> socket_open (rd_sockets s) i \<or> \<not> isCurrentHost (host_fence_of s) a then returnS None
     else bindS (handleDataFrame env i a (fst e) (snd e)) (\<lambda>ps. returnS (Some ps)))"

definition host_data_ack :: "relay_env \<Rightarrow> nat \<Rightarrow> SocketAttachment \<Rightarrow> unit relay" where
  "host_data_ack env i a = readS (\<lambda>s.
     if capable hostDataBatchV1 a \<and> socket_open (rd_sockets s) i \<and> isCurrentHost (host_fence_of s) a \<and>
        currentHostData (rd_sockets s) (host_fence_of s) None = Some i
     then bindS (try_send env (SentDataAck i)) (\<lambda>ok. if ok then returnS () else failCurrentHost env a)
     else returnS ())"

section \<open>\<open>handleControl\<close>\<close>

definition host_ready_refused :: "nat \<Rightarrow> SocketAttachment \<Rightarrow> HostReadyFrame \<Rightarrow> relay_do \<Rightarrow> bool" where
  "host_ready_refused i a f s \<longleftrightarrow>
     (case rd_session s of
        None \<Rightarrow> True
      | Some session \<Rightarrow>
          let c = connectionSockets (rd_sockets s) a False None in
          cs_control c \<noteq> Some i \<or> cs_phase c \<noteq> paired \<or> hr_engineId f \<noteq> se_engine_id session \<or>
          hr_sessionEpoch f \<noteq> se_session_epoch session \<or>
          bigint_of (hr_headEventSeq f) < bigint_of (se_head_event_seq session) \<or>
          bigint_of (hr_nextPtyOffset f) < bigint_of (se_next_pty_offset session))"

definition active_browsers :: "relay_do \<Rightarrow> string list" where
  "active_browsers s = List.map_filter
     (\<lambda>i. case attachment_of (rd_sockets s) i of None \<Rightarrow> None
        | Some a \<Rightarrow> if sa_controlState a = Some active then sa_clientId a else None)
     (browserControlSockets (rd_sockets s))"

text \<open>\<open>Some\<close>: the promises whose settlement the handler waits for.\<close>

definition host_ready_begin :: "relay_env \<Rightarrow> nat \<Rightarrow> SocketAttachment \<Rightarrow> HostReadyFrame \<Rightarrow> ResetPromise list option relay" where
  "host_ready_begin env i a f = readS (\<lambda>s.
     if host_ready_refused i a f s then bindS (failCurrentHost env a) (\<lambda>_. returnS None)
     else bindS (modifyS (\<lambda>s. s\<lparr>rd_session := map_option (\<lambda>r. r\<lparr>se_head_event_seq := hr_headEventSeq f,
              se_next_pty_offset := hr_nextPtyOffset f\<rparr>) (rd_session s)\<rparr>)) (\<lambda>_.
          bindS (write_attachment i (a\<lparr>sa_controlState := Some active\<rparr>)) (\<lambda>_. readS (\<lambda>s'.
          returnS (Some (map (\<lambda>c. reset_begin c reset_host_reconnect False (Some (i, the (sa_hostFence a))) s') (active_browsers s')))))))"

definition host_ready_finish :: "relay_env \<Rightarrow> nat \<Rightarrow> SocketAttachment \<Rightarrow> HostReadyFrame \<Rightarrow> unit relay" where
  "host_ready_finish env i a f = readS (\<lambda>s.
     let c = connectionSockets (rd_sockets s) a False None in
     if \<not> socket_open (rd_sockets s) i \<or> currentHostControl (rd_sockets s) (host_fence_of s) None \<noteq> Some i \<or>
        cs_control c \<noteq> Some i \<or> cs_phase c \<noteq> ready then returnS ()
     else bindS (sendHostControl env i (HostReadyAck (hr_sessionEpoch f) (hr_headEventSeq f) (hr_nextPtyOffset f))) (\<lambda>_. returnS ()))"

definition forward_input_ack :: "relay_env \<Rightarrow> string \<Rightarrow> RelayInputAck \<Rightarrow> unit relay" where
  "forward_input_ack env connectionId f = readS (\<lambda>s.
     case browserControlByConnection (rd_sockets s) connectionId of
       None \<Rightarrow> returnS ()
     | Some b \<Rightarrow>
         (case attachment_of (rd_sockets s) b of
            None \<Rightarrow> close_protocol b
          | Some k \<Rightarrow>
              let includeWriterFence = capable browserInputAdmissionV1 k in
              if includeWriterFence \<and> sa_leaseFence k = None then close_protocol b
              else bindS (sendBrowserControl env b (BrowserInputAck f (if includeWriterFence then sa_leaseFence k else None)))
                (\<lambda>_. returnS ())))"

definition replay_unavailable :: "string \<Rightarrow> BrowserDeliveryResetReason \<Rightarrow> relay_do \<Rightarrow> ResetPromise list" where
  "replay_unavailable connectionId reason s =
     (case browserControlByConnection (rd_sockets s) connectionId of
        None \<Rightarrow> []
      | Some b \<Rightarrow> (case attachment_of (rd_sockets s) b of
          None \<Rightarrow> []
        | Some k \<Rightarrow> (case sa_clientId k of None \<Rightarrow> [] | Some c \<Rightarrow> [reset_begin c reason False None s])))"

definition handle_host_control ::
  "relay_env \<Rightarrow> nat \<Rightarrow> SocketAttachment \<Rightarrow> HostControlFrame option \<Rightarrow> ResetPromise list relay" where
  "handle_host_control env i a decoded = readS (\<lambda>s.
     if \<not> isCurrentHost (host_fence_of s) a then returnS []
     else case decoded of
       None \<Rightarrow> bindS (close_protocol i) (\<lambda>_. returnS [])
     | Some (HostReady f) \<Rightarrow> bindS (host_ready_begin env i a f) (\<lambda>r. returnS (case r of None \<Rightarrow> [] | Some ps \<Rightarrow> ps))
     | Some (HostInputAck c f) \<Rightarrow> bindS (forward_input_ack env c f) (\<lambda>_. returnS [])
     | Some (ReplayUnavailable c reason) \<Rightarrow> returnS (replay_unavailable c reason s))"

end
