(* ===== verification/Browser_Relay.thy ===== *)
theory Browser_Relay
  imports Browser_Delivery
begin

text \<open>
  \<open>apps/terminal-cloud/src/worker/browser-relay-controller.ts\<close>: a browser's control frames, with the telemetry record of
  \<open>browser-control-lane.ts\<close> and the check of \<open>cloud-input-telemetry.ts\<close>. A frame comes decoded; \<open>None\<close> is a text that does not
  decode. The renewal is cut where it waits for the digest.
\<close>

text \<open>A record whose times are out of order throws.\<close>

definition recordInput ::
  "SemanticInput \<Rightarrow> SocketAttachment \<Rightarrow> BrowserControlTiming option \<Rightarrow> CloudInputDisposition \<Rightarrow> int option \<Rightarrow> string option \<Rightarrow> unit relay" where
  "recordInput f a timing disposition hostSendAtMs writerFence =
     (case (timing, sa_clientId a) of
        (Some t, Some c) \<Rightarrow>
          if bt_enqueuedAtMs t < bt_receivedAtMs t \<or> bt_startedAtMs t < bt_enqueuedAtMs t \<or>
             (case hostSendAtMs of None \<Rightarrow> False | Some h \<Rightarrow> h < bt_startedAtMs t)
          then throwS SpanRejected
          else modifyS (relay_effect (InputRecorded f disposition hostSendAtMs writerFence))
      | _ \<Rightarrow> returnS ())"

definition rejectInput :: "relay_env \<Rightarrow> nat \<Rightarrow> SemanticInput \<Rightarrow> RelayAckStatus \<Rightarrow> unit relay" where
  "rejectInput env i f status = readS (\<lambda>s.
     case attachment_of (rd_sockets s) i of
       None \<Rightarrow> close_protocol i
     | Some a \<Rightarrow>
         let includeWriterFence = capable browserInputAdmissionV1 a in
         if includeWriterFence \<and> sa_leaseFence a = None then close_protocol i
         else let mustFenceInputEpoch = sa_role a = writer \<and> sa_leaseFence a \<noteq> None in
           bindS (sendBrowserControl env i (BrowserInputAck
               \<lparr>ia_inputEpoch = si_inputEpoch f, ia_clientInputSeq = si_clientInputSeq f,
                ia_status = (if mustFenceInputEpoch then ack_uncertain else status),
                ia_authorityEventSeq = (case rd_session s of None \<Rightarrow> ''0'' | Some r \<Rightarrow> se_head_event_seq r)\<rparr>
               (if includeWriterFence then sa_leaseFence a else None))) (\<lambda>delivered.
             if delivered \<and> mustFenceInputEpoch then isolateBrowserConnection i a else returnS ()))"

definition send_disposition :: "HostControlSendResult \<Rightarrow> CloudInputDisposition" where
  "send_disposition r = (case r of host_sent \<Rightarrow> input_host_sent | host_uncertain \<Rightarrow> input_host_send_uncertain | host_rejected \<Rightarrow> input_rejected)"

text \<open>A semantic input on an active control socket; \<open>now\<close> is read for the lease, \<open>sendAt\<close> before the send.\<close>

definition handle_input ::
  "relay_env \<Rightarrow> nat \<Rightarrow> SocketAttachment \<Rightarrow> SemanticInput \<Rightarrow> BrowserControlTiming option \<Rightarrow> int \<Rightarrow> int \<Rightarrow> unit relay" where
  "handle_input env i a f timing now sendAt = readS (\<lambda>s.
     if sa_controlState a \<noteq> Some active
     then bindS (recordInput f a timing input_rejected None (sa_leaseFence a)) (\<lambda>_. rejectInput env i f ack_rejected)
     else case liveAttachment i a now (rd_world s) of
       None \<Rightarrow> bindS (recordInput f a timing input_rejected None (sa_leaseFence a)) (\<lambda>_. rejectInput env i f ack_rejected)
     | Some latest \<Rightarrow>
         (case currentInputHostControl (rd_sockets s) of
            None \<Rightarrow> bindS (recordInput f a timing input_rejected None (sa_leaseFence latest)) (\<lambda>_.
              bindS (sendBrowserControl env i HostOffline) (\<lambda>ok. if ok then rejectInput env i f ack_rejected else returnS ()))
          | Some h \<Rightarrow>
              bindS (sendInputToHost env h (ForwardedInput f (sa_connectionId a) (the (sa_clientId a)) (the (sa_leaseFence latest))) sendAt)
                (\<lambda>(hostSendAtMs, result).
              bindS (recordInput f a timing (send_disposition result) hostSendAtMs (sa_leaseFence latest)) (\<lambda>_.
              if result = host_sent then returnS ()
              else rejectInput env i f (if result = host_uncertain then ack_uncertain else ack_rejected)))))"

definition handle_ack :: "relay_env \<Rightarrow> nat \<Rightarrow> SocketAttachment \<Rightarrow> AckFrame \<Rightarrow> unit relay" where
  "handle_ack env i a f = readS (\<lambda>s.
     if sa_controlState a \<noteq> Some active \<or> currentHostControl (rd_sockets s) (host_fence_of s) None = None \<or>
        (case clientById (the (sa_clientId a)) s of None \<Rightarrow> True | Some c \<Rightarrow> cl_delivery_generation c \<noteq> ak_deliveryGeneration f)
     then returnS () else acknowledgeDelivery env i a f)"

section \<open>Renewing the writer lease\<close>

definition renew_status :: "relay_env \<Rightarrow> nat \<Rightarrow> SocketAttachment \<Rightarrow> int option \<Rightarrow> unit relay" where
  "renew_status env i a expiresAt = readS (\<lambda>s.
     let latest = attachment_of (rd_sockets s) i;
         isActive = (case latest of None \<Rightarrow> False
           | Some l \<Rightarrow> expiresAt \<noteq> None \<and> socket_open (rd_sockets s) i \<and> sa_controlState l = Some active \<and>
               sa_clientId l = sa_clientId a \<and> sa_leaseFence l = sa_leaseFence a \<and> sa_leaseExpiresAt l = expiresAt \<and>
               activeBrowserControl (rd_sockets s) (the (sa_clientId a)) None = Some i)
     in bindS (sendBrowserControl env i (if isActive
          then WriterLeaseStatus True expiresAt
            (if capable browserInputAdmissionV1 (the latest) then sa_leaseFence (the latest) else None)
          else WriterLeaseStatus False None None)) (\<lambda>_. returnS ()))"

text \<open>Before the wait: \<open>Some\<close> is the attachment the renewal goes on with.\<close>

definition handle_renew :: "relay_env \<Rightarrow> nat \<Rightarrow> SocketAttachment \<Rightarrow> string \<Rightarrow> int \<Rightarrow> SocketAttachment option relay" where
  "handle_renew env i a writerLease now = readS (\<lambda>s.
     if sa_controlState a = Some active \<and> sa_role a = writer
     then (case renew_begin i a writerLease now (rd_world s) of
         None \<Rightarrow> bindS (renew_status env i a None) (\<lambda>_. returnS None)
       | Some initial \<Rightarrow> returnS (Some initial))
     else bindS (renew_status env i a None) (\<lambda>_. returnS None))"

definition renew_lease :: "nat \<Rightarrow> SocketAttachment \<Rightarrow> string \<Rightarrow> int \<Rightarrow> int \<Rightarrow> int \<Rightarrow> int \<Rightarrow> int option relay" where
  "renew_lease i initial digest now1 now2 now3 now4 s =
     (case renew_finish i initial digest now1 now2 now3 now4 (rd_world s) of
        (w, Inl e) \<Rightarrow> (s\<lparr>rd_world := w\<rparr>, Inl (WriterFailed e))
      | (w, Inr r) \<Rightarrow> (s\<lparr>rd_world := w\<rparr>, Inr r))"

definition renew_settles ::
  "relay_env \<Rightarrow> nat \<Rightarrow> SocketAttachment \<Rightarrow> SocketAttachment \<Rightarrow> string \<Rightarrow> int \<Rightarrow> int \<Rightarrow> int \<Rightarrow> int \<Rightarrow> unit relay" where
  "renew_settles env i a initial digest now1 now2 now3 now4 =
     bindS (renew_lease i initial digest now1 now2 now3 now4) (renew_status env i a)"

section \<open>A control frame\<close>

datatype BrowserStep = BrowserDone | BrowserAttach AttachStep | BrowserRenews SocketAttachment

definition handle_browser ::
  "relay_env \<Rightarrow> nat \<Rightarrow> SocketAttachment \<Rightarrow> ClientControlFrame option \<Rightarrow> BrowserControlTiming option \<Rightarrow> int \<Rightarrow> int \<Rightarrow> BrowserStep relay" where
  "handle_browser env i a decoded timing now sendAt = readS (\<lambda>s.
     case decoded of
       None \<Rightarrow> bindS (close_protocol i) (\<lambda>_. returnS BrowserDone)
     | Some frame \<Rightarrow>
         if sa_clientId a = None then bindS (close_protocol i) (\<lambda>_. returnS BrowserDone)
         else (case frame of
             AttachRequested f \<Rightarrow> bindS (attach_direct env i a f now) (\<lambda>r. returnS (BrowserAttach r))
           | _ \<Rightarrow>
               if \<not> socket_open (rd_sockets s) i \<or> activeBrowserControl (rd_sockets s) (the (sa_clientId a)) None \<noteq> Some i
               then (case frame of
                   InputReceived f \<Rightarrow> bindS (recordInput f a timing input_rejected None (sa_leaseFence a)) (\<lambda>_. returnS BrowserDone)
                 | _ \<Rightarrow> returnS BrowserDone)
               else (case frame of
                   RenewRequested token \<Rightarrow> bindS (handle_renew env i a token now) (\<lambda>r.
                     returnS (case r of None \<Rightarrow> BrowserDone | Some initial \<Rightarrow> BrowserRenews initial))
                 | AckReceived f \<Rightarrow> bindS (handle_ack env i a f) (\<lambda>_. returnS BrowserDone)
                 | InputReceived f \<Rightarrow> bindS (handle_input env i a f timing now sendAt) (\<lambda>_. returnS BrowserDone)
                 | AttachRequested f \<Rightarrow> returnS BrowserDone)))"

end
