(* ===== verification/Relay_Lifecycle.thy ===== *)
theory Relay_Lifecycle
  imports Browser_Delivery
begin

text \<open>
  \<open>apps/terminal-cloud/src/worker/relay-connection-lifecycle.ts\<close>: reserving a connection set, turning a ticket into a socket, and what
  follows when a socket is gone. Requests come parsed, random identifiers, digests and the readings of the clock are
  arguments; \<open>rv_parse\<close> stands for \<open>JSON.parse\<close> and the schema on the stored list of capabilities.
\<close>

section \<open>Capabilities in a header\<close>

definition js_space :: "char \<Rightarrow> bool" where
  "js_space c \<longleftrightarrow> (let n = of_char c :: nat in 9 \<le> n \<and> n \<le> 13 \<or> n = 32 \<or> n = 160)"

definition js_trim :: "string \<Rightarrow> string" where
  "js_trim s = rev (dropWhile js_space (rev (dropWhile js_space s)))"

fun split_comma :: "string \<Rightarrow> string list" where
  "split_comma [] = [[]]"
| "split_comma (c # cs) = (if c = CHR '','' then [] # split_comma cs
     else case split_comma cs of [] \<Rightarrow> [[c]] | w # ws \<Rightarrow> (c # w) # ws)"

definition token_char :: "char \<Rightarrow> bool" where
  "token_char c \<longleftrightarrow> is_digit c \<or> (let n = of_char c :: nat in 97 \<le> n \<and> n \<le> 122)"

definition relayCapabilityToken :: "string \<Rightarrow> bool" where
  "relayCapabilityToken s \<longleftrightarrow> (case s of [] \<Rightarrow> False
     | c # cs \<Rightarrow> token_char c \<and> list_all (\<lambda>d. token_char d \<or> d = CHR ''-'') cs \<and> length cs \<le> 63)"

definition selectRelayCapabilities :: "string option \<Rightarrow> RelayCapability list option" where
  "selectRelayCapabilities header =
     (case header of None \<Rightarrow> Some [] | Some h \<Rightarrow>
        if h = '''' then Some []
        else if 1024 < length h then None
        else let requested = map js_trim (split_comma h) in
          if 16 < length requested \<or> \<not> list_all relayCapabilityToken requested then None
          else Some (filter (\<lambda>c. capability_name c \<in> set requested)
            [browserDataBatchV1, browserInputAdmissionV1, deliveryBarrierOutcomeV1, hostDataBatchV1]))"

fun comma_join :: "string list \<Rightarrow> string" where
  "comma_join [] = ''''"
| "comma_join [s] = s"
| "comma_join (s # t # ss) = s @ '','' @ comma_join (t # ss)"

definition capabilities_json :: "RelayCapability list \<Rightarrow> string" where
  "capabilities_json cs = ''['' @ comma_join (map (json_string \<circ> capability_name) cs) @ '']''"

section \<open>Reserving a connection set\<close>

record CreateConnectionSet =
  cc_sessionId :: string
  cc_subject :: string
  cc_role :: SocketRole
  cc_clientId :: "string option"

definition CreateConnectionSetSchema :: "CreateConnectionSet \<Rightarrow> bool" where
  "CreateConnectionSetSchema r \<longleftrightarrow> identifier_ok (cc_sessionId r) \<and> identifier_ok (cc_subject r) \<and> nullable identifier_ok (cc_clientId r)"

record ConnectionSetResponse =
  cp_connectionSetId :: string
  cp_clientId :: "string option"
  cp_streamId :: int
  cp_deliveryGeneration :: string
  cp_expiresAt :: int
  cp_controlTicket :: string
  cp_dataTicket :: string
  cp_selectedCapabilities :: "RelayCapability list"

datatype HttpAnswer = HttpError int | HttpConnectionSet ConnectionSetResponse | HttpSwitching nat

text \<open>The random values of one request, and their digests.\<close>

record FreshIds =
  fi_connectionSetId :: string
  fi_clientId :: string
  fi_controlTicket :: string
  fi_controlDigest :: string
  fi_dataTicket :: string
  fi_dataDigest :: string
  fi_principalIdHash :: string

definition allowed_capability :: "SocketRole \<Rightarrow> RelayCapability \<Rightarrow> bool" where
  "allowed_capability role c \<longleftrightarrow> (if role = host_role then c = deliveryBarrierOutcomeV1 \<or> c = hostDataBatchV1
     else c = browserDataBatchV1 \<or> c = browserInputAdmissionV1)"

definition requested_client :: "CreateConnectionSet \<Rightarrow> FreshIds \<Rightarrow> string option" where
  "requested_client r ids = (if cc_role r = host_role then None
     else Some (case cc_clientId r of None \<Rightarrow> fi_clientId ids | Some c \<Rightarrow> c))"

definition reservation_input :: "CreateConnectionSet \<Rightarrow> FreshIds \<Rightarrow> RelayCapability list \<Rightarrow> int \<Rightarrow> ConnectionSetReservation" where
  "reservation_input r ids selected now =
     \<lparr>cr_clientId = requested_client r ids, cr_connectionId = fi_connectionSetId ids, cr_connectionSetId = fi_connectionSetId ids,
      cr_controlTicketDigest = fi_controlDigest ids, cr_dataTicketDigest = fi_dataDigest ids,
      cr_expiresAt = now + TICKET_LIFETIME_MS, cr_now = now, cr_peer = (if cc_role r = host_role then host else browser),
      cr_principalIdHash = (if cc_role r = host_role then None else Some (fi_principalIdHash ids)),
      cr_relayCapabilitiesJson = capabilities_json selected, cr_role = cc_role r, cr_subject = cc_subject r\<rparr>"

definition createConnectionSet ::
  "store_limits \<Rightarrow> CreateConnectionSet option \<Rightarrow> string option \<Rightarrow> FreshIds \<Rightarrow> int \<Rightarrow> int \<Rightarrow> HttpAnswer relay" where
  "createConnectionSet lim request header ids now dateNow s =
     (case request of None \<Rightarrow> (s, Inr (HttpError 400)) | Some r \<Rightarrow>
      if \<not> CreateConnectionSetSchema r then (s, Inr (HttpError 400))
      else if (case rd_session s of None \<Rightarrow> True | Some session \<Rightarrow> se_session_id session \<noteq> cc_sessionId r) then (s, Inr (HttpError 404))
      else if cc_role r = host_role \<and> cc_clientId r \<noteq> None then (s, Inr (HttpError 400))
      else case selectRelayCapabilities header of None \<Rightarrow> (s, Inr (HttpError 400)) | Some all \<Rightarrow>
        let selected = filter (allowed_capability (cc_role r)) all in
        (case reserveConnectionSet lim (reservation_input r ids selected now) dateNow s of
           Inl e \<Rightarrow> (s, Inl e)
         | Inr (s', Inl refusal) \<Rightarrow> (s', Inr (HttpError (if refusal = client_owner_mismatch then 403 else 429)))
         | Inr (s', Inr (client, generation)) \<Rightarrow> (s', Inr (HttpConnectionSet
             \<lparr>cp_connectionSetId = fi_connectionSetId ids, cp_clientId = requested_client r ids,
              cp_streamId = (case client of None \<Rightarrow> 0 | Some c \<Rightarrow> cl_stream_id c), cp_deliveryGeneration = generation,
              cp_expiresAt = now + TICKET_LIFETIME_MS, cp_controlTicket = fi_controlTicket ids, cp_dataTicket = fi_dataTicket ids,
              cp_selectedCapabilities = selected\<rparr>))))"

section \<open>Accepting a socket\<close>

definition peer_tag :: "Peer \<Rightarrow> string" where
  "peer_tag p = (case p of host \<Rightarrow> ''peer:host'' | browser \<Rightarrow> ''peer:browser'')"

definition channel_tag :: "RelayChannel \<Rightarrow> string" where
  "channel_tag c = (case c of control \<Rightarrow> ''channel:control'' | data \<Rightarrow> ''channel:data'')"

definition socket_tags :: "SocketAttachment \<Rightarrow> string list" where
  "socket_tags a = [peer_tag (sa_peer a), channel_tag (sa_channel a), ''set:'' @ sa_connectionSetId a] @
     (case sa_clientId a of None \<Rightarrow> [] | Some c \<Rightarrow> [''client:'' @ c]) @
     (if 0 < sa_streamId a then [''stream:'' @ bigint_toString (sa_streamId a)] else [])"

definition ticket_attachment :: "TicketRow \<Rightarrow> RelayChannel \<Rightarrow> string option \<Rightarrow> string list \<Rightarrow> SocketAttachment" where
  "ticket_attachment t channel hostFence caps =
     \<lparr>sa_version = 2, sa_peer = tk_peer t, sa_channel = channel, sa_connectionSetId = tk_connection_set_id t,
      sa_connectionId = tk_connection_id t, sa_subject = tk_subject t, sa_clientId = tk_client_id t, sa_role = tk_role t,
      sa_streamId = tk_stream_id t, sa_deliveryGeneration = tk_delivery_generation t, sa_hostFence = hostFence,
      sa_leaseFence = None, sa_leaseExpiresAt = None,
      sa_controlState = (if tk_peer t = browser \<and> channel = control then Some control_awaiting_attach else None),
      sa_dataState = (if tk_peer t = browser \<and> channel = data then Some data_awaiting_attach else None),
      sa_firstEventSeq = None, sa_ackedEventSeq = None, sa_sentEventSeq = None, sa_firstPtyOffset = None,
      sa_ackedPtyOffset = None, sa_sentPtyOffset = None, sa_replayMode = None, sa_snapshotId = None,
      sa_replayCommitEventSeq = None, sa_replayCommitPtyOffset = None, sa_relayCapabilities = caps\<rparr>"

text \<open>\<open>acceptWebSocket\<close> and the first write of the attachment.\<close>

definition accept_attached :: "SocketAttachment \<Rightarrow> HttpAnswer relay" where
  "accept_attached a s =
     (if \<not> SocketAttachmentSchema a then (s, Inl AttachmentRejected)
      else let i = rd_next_socket s in
        (set_sockets (rd_sockets s @ [(i, \<lparr>so_readyState = OPEN, so_tags = socket_tags a, so_attachment = Some a\<rparr>)])
           (s\<lparr>rd_next_socket := i + 1\<rparr>), Inr (HttpSwitching i)))"

definition advance_fence :: "string \<Rightarrow> string relay" where
  "advance_fence connectionSetId s =
     (case advanceHostFence connectionSetId s of Inl e \<Rightarrow> (s, Inl e) | Inr (s', f) \<Rightarrow> (s', Inr f))"

text \<open>Each channel's takeover: \<open>Some\<close> is the fence of the new socket, \<open>None\<close> a stale ticket.\<close>

definition take_over_host_control :: "relay_env \<Rightarrow> TicketRow \<Rightarrow> string option option relay" where
  "take_over_host_control env t =
     bindS (advance_fence (tk_connection_set_id t)) (\<lambda>fence.
     bindS (close_sockets (\<lambda>a. sa_peer a = host \<and> sa_hostFence a \<noteq> Some fence) None) (\<lambda>_.
     bindS (broadcastBrowserControl env HostOffline) (\<lambda>_.
     bindS mark_catching_up_all (\<lambda>_. returnS (Some (Some fence))))))"

definition release_previous :: "string \<Rightarrow> nat \<Rightarrow> unit relay" where
  "release_previous c i = readS (\<lambda>s.
     case attachment_of (rd_sockets s) i of
       None \<Rightarrow> returnS ()
     | Some a \<Rightarrow> if sa_channel a = control
         then modifyS (\<lambda>s. s\<lparr>rd_world := release c (sa_leaseFence a) (sa_connectionId a) (rd_world s)\<rparr>) else returnS ())"

definition take_over_browser :: "TicketRow \<Rightarrow> RelayChannel \<Rightarrow> string \<Rightarrow> string option option relay" where
  "take_over_browser t channel c = readS (\<lambda>s.
     if (case clientById c s of None \<Rightarrow> True
         | Some client \<Rightarrow> cl_registered_at client = None \<or> cl_delivery_generation client \<noteq> tk_delivery_generation t)
     then returnS None
     else bindS (if channel = control
       then bindS (forS (release_previous c) (getWebSockets (''client:'' @ c) (rd_sockets s))) (\<lambda>_.
         close_sockets (\<lambda>a. sa_peer a = browser \<and> sa_clientId a = Some c) None)
       else close_sockets (\<lambda>a. sa_peer a = browser \<and> sa_channel a = data \<and> sa_clientId a = Some c) None)
       (\<lambda>_. returnS (Some (tk_host_fence t))))"

definition take_over ::
  "relay_env \<Rightarrow> TicketRow \<Rightarrow> RelayChannel \<Rightarrow> SocketAttachment option \<Rightarrow> string option option relay" where
  "take_over env t channel eligible =
     (if tk_peer t = host \<and> channel = control then take_over_host_control env t
      else if tk_peer t = host \<and> channel = data
      then bindS (close_sockets (\<lambda>a. sa_peer a = host \<and> sa_channel a = data) None) (\<lambda>_.
        returnS (Some (case eligible of None \<Rightarrow> None | Some a \<Rightarrow> sa_hostFence a)))
      else (case tk_client_id t of
          Some c \<Rightarrow> if tk_peer t = browser then take_over_browser t channel c else returnS (Some (tk_host_fence t))
        | None \<Rightarrow> returnS (Some (tk_host_fence t))))"

text \<open>With a ticket that may be used: take over, use the ticket up, attach.\<close>

definition accept_ticket ::
  "relay_env \<Rightarrow> TicketRow \<Rightarrow> RelayChannel \<Rightarrow> SocketAttachment option \<Rightarrow> string \<Rightarrow> string list \<Rightarrow> HttpAnswer relay" where
  "accept_ticket env t channel eligible digest caps =
     bindS (take_over env t channel eligible) (\<lambda>r.
       case r of
         None \<Rightarrow> returnS (HttpError 409)
       | Some hostFence \<Rightarrow>
           if tk_peer t = host \<and> hostFence = None then returnS (HttpError 409)
           else bindS (modifyS (consumeTicket digest)) (\<lambda>_. accept_attached (ticket_attachment t channel hostFence caps)))"

definition claim_control :: "store_limits \<Rightarrow> TicketRow \<Rightarrow> int \<Rightarrow> TicketRow option relay" where
  "claim_control lim t now s = (case claimBrowserControl lim t now s of (s', r) \<Rightarrow> (s', Inr r))"

text \<open>The clock is read for the ticket, twice when it has expired, for the claim, and for discarding.\<close>

definition acceptSocket ::
  "relay_env \<Rightarrow> (string \<Rightarrow> string list option) \<Rightarrow> store_limits \<Rightarrow> bool \<Rightarrow> RelayChannel \<Rightarrow> string option \<Rightarrow> string \<Rightarrow>
   int \<Rightarrow> int \<Rightarrow> int \<Rightarrow> int \<Rightarrow> int \<Rightarrow> HttpAnswer relay" where
  "acceptSocket env rv_parse lim upgrade channel ticketValue digest now1 now2 now3 now4 now5 = readS (\<lambda>s.
     if \<not> upgrade then returnS (HttpError 426)
     else if (case ticketValue of None \<Rightarrow> True | Some v \<Rightarrow> 256 < length v) then returnS (HttpError 401)
     else case ticket_row digest s of
       None \<Rightarrow> returnS (HttpError 401)
     | Some t \<Rightarrow>
         if tk_channel t \<noteq> channel \<or> tk_expires_at t \<le> now1
         then bindS (if tk_expires_at t \<le> now2 then modifyS (expireTicket digest now3) else returnS ()) (\<lambda>_. returnS (HttpError 401))
         else case rv_parse (tk_relay_capabilities_json t) of
           None \<Rightarrow> returnS (HttpError 401)
         | Some caps \<Rightarrow>
             let eligible = eligibleControlForDataTicket (rd_sockets s) t (host_fence_of s) in
             if channel = data \<and> eligible = None then returnS (HttpError 409)
             else if tk_peer t = browser \<and> channel = control
             then bindS (claim_control lim t now4) (\<lambda>r.
               case r of
                 None \<Rightarrow> bindS (modifyS (discardReservation t now5)) (\<lambda>_. returnS (HttpError 409))
               | Some claimed \<Rightarrow> accept_ticket env claimed channel eligible digest caps)
             else accept_ticket env t channel eligible digest caps)"

section \<open>A socket is gone\<close>

text \<open>The socket itself is closed by the runtime before the handler runs.\<close>

definition socket_gone :: "nat \<Rightarrow> unit relay" where
  "socket_gone i = modifyS (\<lambda>s. set_sockets (map (\<lambda>(j, so). (j, if j = i then so\<lparr>so_readyState := CLOSED\<rparr> else so)) (rd_sockets s)) s)"

definition host_data_gone :: "relay_env \<Rightarrow> nat \<Rightarrow> SocketAttachment \<Rightarrow> unit relay" where
  "host_data_gone env i a = readS (\<lambda>s.
     if \<not> isCurrentHost (host_fence_of s) a \<or> matchingSocket (rd_sockets s) a control None = None \<or>
        matchingSocket (rd_sockets s) a data (Some i) \<noteq> None
     then returnS () else failCurrentHost env a)"

definition browser_data_gone :: "nat \<Rightarrow> SocketAttachment \<Rightarrow> ResetPromise relay" where
  "browser_data_gone i a = readS (\<lambda>s.
     case sa_clientId a of
       None \<Rightarrow> returnS ResetDone
     | Some c \<Rightarrow>
         (case activeBrowserControl (rd_sockets s) c None of
            None \<Rightarrow> returnS ResetDone
          | Some ci \<Rightarrow>
              (case attachment_of (rd_sockets s) ci of
                 None \<Rightarrow> returnS ResetDone
               | Some k \<Rightarrow>
                   if (case clientById c s of None \<Rightarrow> True | Some client \<Rightarrow> cl_delivery_generation client \<noteq> sa_deliveryGeneration a) \<or>
                      browserDataByClient (rd_sockets s) c (Some i) \<noteq> None \<or>
                      sa_connectionSetId k \<noteq> sa_connectionSetId a \<or> sa_connectionId k \<noteq> sa_connectionId a
                   then returnS ResetDone
                   else if sa_controlState k \<noteq> Some active then bindS (isolateBrowserConnection ci k) (\<lambda>_. returnS ResetDone)
                   else returnS (reset_begin c reset_data_disconnected False None s))))"

definition host_control_gone :: "relay_env \<Rightarrow> nat \<Rightarrow> SocketAttachment \<Rightarrow> unit relay" where
  "host_control_gone env i a = readS (\<lambda>s.
     if (case rd_session s of None \<Rightarrow> True | Some session \<Rightarrow> Some (se_host_fence session) \<noteq> sa_hostFence a) \<or>
        matchingSocket (rd_sockets s) a control (Some i) \<noteq> None
     then returnS () else failCurrentHost env a)"

definition browser_control_gone :: "nat \<Rightarrow> SocketAttachment \<Rightarrow> unit relay" where
  "browser_control_gone i a =
     (case sa_clientId a of
        None \<Rightarrow> returnS ()
      | Some c \<Rightarrow>
          bindS (modifyS (\<lambda>s. s\<lparr>rd_world := release c (sa_leaseFence a) (sa_connectionId a) (rd_world s)\<rparr>)) (\<lambda>_. readS (\<lambda>s.
          if activeBrowserControl (rd_sockets s) c (Some i) \<noteq> None then returnS ()
          else bindS (modifyS (closeConnectionSet (sa_connectionSetId a))) (\<lambda>_.
            close_sockets (\<lambda>b. sa_peer b = browser \<and> sa_clientId b = sa_clientId a) (Some i)))))"

definition processWebSocketClose :: "relay_env \<Rightarrow> nat \<Rightarrow> ResetPromise relay" where
  "processWebSocketClose env i = readS (\<lambda>s.
     case attachment_of (rd_sockets s) i of
       None \<Rightarrow> returnS ResetDone
     | Some a \<Rightarrow>
         bindS (if sa_peer a = browser \<and> sa_channel a = data \<and> sa_snapshotId a \<noteq> None
           then modifyS (relay_effect SnapshotMaintenance) else returnS ()) (\<lambda>_.
         if sa_channel a = data
         then (if sa_peer a = host then bindS (host_data_gone env i a) (\<lambda>_. returnS ResetDone) else browser_data_gone i a)
         else if sa_peer a = host then bindS (host_control_gone env i a) (\<lambda>_. returnS ResetDone)
         else bindS (browser_control_gone i a) (\<lambda>_. returnS ResetDone)))"

end
