(* ===== verification/Relay_Object.thy ===== *)
theory Relay_Object
  imports Host_Relay Browser_Relay Relay_Lifecycle
begin

text \<open>
  \<open>apps/terminal-cloud/src/worker/terminal-session-do.ts\<close>: the Durable Object as a whole. Its ingress checks, and one event per
  request, message, lost socket and continuation after a wait. Every event comes with the environment it meets.
\<close>

section \<open>Ingress\<close>

text \<open>A text is given by its length and by what it decodes to under either schema.\<close>

record TextMessage =
  tm_chars :: int
  tm_host :: "HostControlFrame option"
  tm_browser :: "ClientControlFrame option"

datatype InboundMessage = Text TextMessage | Binary bytes

definition MAX_CONTROL_MESSAGE_CHARS :: int where "MAX_CONTROL_MESSAGE_CHARS = 6 * 1024 * 1024 + 4096"
definition MAX_HOST_SINGLE_DATA_BYTES :: int where "MAX_HOST_SINGLE_DATA_BYTES = int DATA_HEADER_BYTES + 16 * 1024"

definition maxHostDataBytes :: "SocketAttachment \<Rightarrow> int" where
  "maxHostDataBytes a = (if capable hostDataBatchV1 a then MAX_DATA_BATCH_BYTES else MAX_HOST_SINGLE_DATA_BYTES)"

definition rejectInboundMessage :: "relay_env \<Rightarrow> nat \<Rightarrow> SocketAttachment \<Rightarrow> unit relay" where
  "rejectInboundMessage env i a =
     (if sa_peer a = host then bindS (failCurrentHost env a) (\<lambda>_. close_protocol i) else close_protocol i)"

text \<open>\<open>Some\<close>: the attachment and the size the message counts with.\<close>

definition validateInboundMessage :: "relay_env \<Rightarrow> nat \<Rightarrow> InboundMessage \<Rightarrow> (SocketAttachment \<times> int) option relay" where
  "validateInboundMessage env i msg = readS (\<lambda>s.
     case attachment_of (rd_sockets s) i of
       None \<Rightarrow> bindS (close_protocol i) (\<lambda>_. returnS None)
     | Some a \<Rightarrow>
         if sa_channel a = control
         then (case msg of
             Binary _ \<Rightarrow> bindS (rejectInboundMessage env i a) (\<lambda>_. returnS None)
           | Text t \<Rightarrow> if MAX_CONTROL_MESSAGE_CHARS < tm_chars t then bindS (rejectInboundMessage env i a) (\<lambda>_. returnS None)
               else returnS (Some (a, tm_chars t * 2)))
         else if sa_peer a \<noteq> host then bindS (close_protocol i) (\<lambda>_. returnS None)
         else (case msg of
             Text _ \<Rightarrow> bindS (rejectInboundMessage env i a) (\<lambda>_. returnS None)
           | Binary bs \<Rightarrow> if maxHostDataBytes a < int (length bs) then bindS (rejectInboundMessage env i a) (\<lambda>_. returnS None)
               else returnS (Some (a, int (length bs)))))"

text \<open>What a processed message leaves to be done.\<close>

datatype MessageStep = MessageDone | HostWaits "ResetPromise list" | HostDataGoesOn HostDataStep | BrowserGoesOn BrowserStep

definition processWebSocketMessage ::
  "relay_env \<Rightarrow> nat \<Rightarrow> InboundMessage \<Rightarrow> BrowserControlTiming option \<Rightarrow> int \<Rightarrow> int \<Rightarrow> MessageStep relay" where
  "processWebSocketMessage env i msg timing now sendAt = readS (\<lambda>s.
     case attachment_of (rd_sockets s) i of
       None \<Rightarrow> bindS (close_protocol i) (\<lambda>_. returnS MessageDone)
     | Some a \<Rightarrow>
         if sa_channel a = control
         then (case msg of
             Binary _ \<Rightarrow> bindS (close_protocol i) (\<lambda>_. returnS MessageDone)
           | Text t \<Rightarrow> if MAX_CONTROL_MESSAGE_CHARS < tm_chars t then bindS (close_protocol i) (\<lambda>_. returnS MessageDone)
               else if sa_peer a = host then bindS (handle_host_control env i a (tm_host t)) (\<lambda>ps. returnS (HostWaits ps))
               else bindS (handle_browser env i a (tm_browser t) timing now sendAt) (\<lambda>r. returnS (BrowserGoesOn r)))
         else if sa_peer a \<noteq> host then bindS (close_protocol i) (\<lambda>_. returnS MessageDone)
         else (case msg of
             Text _ \<Rightarrow> bindS (close_protocol i) (\<lambda>_. returnS MessageDone)
           | Binary bs \<Rightarrow> if maxHostDataBytes a < int (length bs) then bindS (failCurrentHost env a) (\<lambda>_. returnS MessageDone)
               else bindS (host_data_begin env i a bs) (\<lambda>r. returnS (HostDataGoesOn r))))"

section \<open>Events\<close>

datatype relay_event =
    Initializes string string string
  | SetRequested "CreateConnectionSet option" "string option" FreshIds int int
  | SocketRequested "string \<Rightarrow> string list option" bool RelayChannel "string option" string int int int int int
  | MessageValidated nat InboundMessage
  | MessageProcessed nat InboundMessage "BrowserControlTiming option" int int
  | MessageRejected nat SocketAttachment
  | DataFrameFollows nat SocketAttachment batch_entry
  | DataAcknowledged nat SocketAttachment
  | HostReadySettled nat SocketAttachment HostReadyFrame
  | AttachAcquired nat SocketAttachment AttachFrame bool string string int int
  | RenewalSettled nat SocketAttachment SocketAttachment string int int int int
  | ResetSettled PendingReset string string int int
  | ResetIsolated nat SocketAttachment
  | SocketLost nat

text \<open>Limits of the object: sixteen browsers and one more pending connection set.\<close>

definition relay_limits :: store_limits where
  "relay_limits = \<lparr>st_maxBrowserClients = 16, st_maxPendingSets = 17\<rparr>"

definition initialize_session :: "string \<Rightarrow> string \<Rightarrow> string \<Rightarrow> InitializeResult relay" where
  "initialize_session i e g s = (case initializeSession i e g s of (s', r) \<Rightarrow> (s', Inr r))"

fun relay_step :: "relay_do \<Rightarrow> relay_env \<times> relay_event \<Rightarrow> relay_do" where
  "relay_step s (env, Initializes i e g) = fst (initialize_session i e g s)"
| "relay_step s (env, SetRequested r h ids now dateNow) = fst (createConnectionSet relay_limits r h ids now dateNow s)"
| "relay_step s (env, SocketRequested parse up ch v d n1 n2 n3 n4 n5) = fst (acceptSocket env parse relay_limits up ch v d n1 n2 n3 n4 n5 s)"
| "relay_step s (env, MessageValidated i msg) = fst (validateInboundMessage env i msg s)"
| "relay_step s (env, MessageProcessed i msg timing now sendAt) = fst (processWebSocketMessage env i msg timing now sendAt s)"
| "relay_step s (env, MessageRejected i a) = fst (rejectInboundMessage env i a s)"
| "relay_step s (env, DataFrameFollows i a e) = fst (host_data_frame env i a e s)"
| "relay_step s (env, DataAcknowledged i a) = fst (host_data_ack env i a s)"
| "relay_step s (env, HostReadySettled i a f) = fst (host_ready_finish env i a f s)"
| "relay_step s (env, AttachAcquired i a f proceeds token digest n1 n2) = fst (attach_acquired env i a f proceeds token digest n1 n2 s)"
| "relay_step s (env, RenewalSettled i a initial digest n1 n2 n3 n4) = fst (renew_settles env i a initial digest n1 n2 n3 n4 s)"
| "relay_step s (env, ResetSettled p ticket digest now dateNow) = fst (reset_settles env p ticket digest now dateNow s)"
| "relay_step s (env, ResetIsolated i a) = fst (isolateBrowserConnection i a s)"
| "relay_step s (env, SocketLost i) = fst (bindS (socket_gone i) (\<lambda>_. processWebSocketClose env i) s)"

text \<open>
  What the continuations carry: a frame that follows is one of a decoded list, so its bytes are its encoding and part of a message
  within the relay's limit.
\<close>

fun event_ok :: "relay_event \<Rightarrow> bool" where
  "event_ok (DataFrameFollows i a e) \<longleftrightarrow> decodeDataFrame (fst e) = Inr (snd e) \<and> int (length (fst e)) \<le> MAX_DATA_BATCH_BYTES"
| "event_ok _ \<longleftrightarrow> True"

definition relay_do_step :: "relay_do \<Rightarrow> relay_env \<times> relay_event \<Rightarrow> relay_do" where
  "relay_do_step s e = (if event_ok (snd e) then relay_step s e else s)"

end
