(* ===== verification/Relay_State_Props.thy ===== *)
theory Relay_State_Props
  imports Relay_State
begin

text \<open>
  What the tables of the relay keep over any history of the store's operations, whatever the rest of the worker does to the sockets,
  the writer lease and the head in between: the rows are well formed, a stream id names one client for ever and its
  generation never falls, the host's fence only rises, a control ticket admits one connection, an eviction spares the living.
\<close>

section \<open>The store as a machine\<close>

datatype store_event =
    Initialize string string string
  | Reserve ConnectionSetReservation int
  | Claim TicketRow int
  | Discard TicketRow int
  | Expire string int
  | Consume string
  | CloseSet string
  | AdvanceFence string
  | InvalidateHost string string
  | ReplaceDelivery BrowserDeliveryReplacement int
  | WorldMoved relay_world
  | HeadMoved string string

text \<open>A transaction that throws leaves the tables as they were.\<close>

definition transaction :: "relay_do \<Rightarrow> StoreError + (relay_do \<times> 'a) \<Rightarrow> relay_do" where
  "transaction s r = (case r of Inl _ \<Rightarrow> s | Inr (s', _) \<Rightarrow> s')"

fun store_step :: "store_limits \<Rightarrow> relay_do \<Rightarrow> store_event \<Rightarrow> relay_do" where
  "store_step lim s (Initialize i e g) = fst (initializeSession i e g s)"
| "store_step lim s (Reserve input now) = transaction s (reserveConnectionSet lim input now s)"
| "store_step lim s (Claim t now) = fst (claimBrowserControl lim t now s)"
| "store_step lim s (Discard t now) = discardReservation t now s"
| "store_step lim s (Expire d now) = expireTicket d now s"
| "store_step lim s (Consume d) = consumeTicket d s"
| "store_step lim s (CloseSet i) = closeConnectionSet i s"
| "store_step lim s (AdvanceFence i) = transaction s (advanceHostFence i s)"
| "store_step lim s (InvalidateHost i f) = transaction s (invalidateHostConnection i f s)"
| "store_step lim s (ReplaceDelivery r now) = transaction s (replaceBrowserDelivery r now s)"
| "store_step lim s (WorldMoved w) = s\<lparr>rd_world := w\<rparr>"
| "store_step lim s (HeadMoved h p) = s\<lparr>rd_session := map_option (\<lambda>r. r\<lparr>se_head_event_seq := h, se_next_pty_offset := p\<rparr>) (rd_session s)\<rparr>"

text \<open>The one caller of \<open>replaceBrowserDelivery\<close> passes the next generation, and throws when there is none.\<close>

fun caller_ok :: "store_event \<Rightarrow> bool" where
  "caller_ok (ReplaceDelivery r now) \<longleftrightarrow> bigint_of (bd_currentGeneration r) < MAX_U64 \<and>
     bd_nextGeneration r = bigint_toString (bigint_of (bd_currentGeneration r) + 1)"
| "caller_ok _ \<longleftrightarrow> True"

section \<open>Well-formed tables\<close>

definition nextStream :: "relay_do \<Rightarrow> int" where
  "nextStream s = (case rd_session s of None \<Rightarrow> 1 | Some r \<Rightarrow> se_next_stream_id r)"

definition hostFence_of :: "relay_do \<Rightarrow> int" where
  "hostFence_of s = (case rd_session s of None \<Rightarrow> 0 | Some r \<Rightarrow> bigint_of (se_host_fence r))"

definition client_ok :: "int \<Rightarrow> ClientRow \<Rightarrow> bool" where
  "client_ok next c \<longleftrightarrow> 1 \<le> cl_stream_id c \<and> cl_stream_id c < next \<and> PositiveDecimalU64Schema (cl_delivery_generation c)"

definition store_ok :: "store_limits \<Rightarrow> relay_do \<Rightarrow> bool" where
  "store_ok lim s \<longleftrightarrow>
     distinct (map cl_client_id (rd_clients s)) \<and> distinct (map cl_stream_id (rd_clients s)) \<and>
     distinct (map tk_ticket_digest (rd_tickets s)) \<and>
     (\<forall>c \<in> set (rd_clients s). client_ok (nextStream s) c) \<and>
     (\<forall>t \<in> set (rd_tickets s). DecimalU64Schema (tk_delivery_generation t)) \<and>
     clientCount s \<le> max 0 (st_maxBrowserClients lim) \<and>
     nextStream s \<le> 0x100000000 \<and>
     (case rd_session s of None \<Rightarrow> rd_clients s = [] | Some r \<Rightarrow> 1 \<le> se_next_stream_id r \<and> DecimalU64Schema (se_host_fence r))"

text \<open>One row is a later state of another: the same client on the same stream, no older in generation, no less registered.\<close>

definition row_follows :: "ClientRow \<Rightarrow> ClientRow \<Rightarrow> bool" where
  "row_follows c c' \<longleftrightarrow> cl_stream_id c' = cl_stream_id c \<and> cl_client_id c' = cl_client_id c \<and>
     cl_principal_id_hash c' = cl_principal_id_hash c \<and> cl_role c' = cl_role c \<and>
     bigint_of (cl_delivery_generation c) \<le> bigint_of (cl_delivery_generation c') \<and>
     (cl_registered_at c \<noteq> None \<longrightarrow> cl_registered_at c' \<noteq> None)"

definition descends :: "relay_do \<Rightarrow> relay_do \<Rightarrow> bool" where
  "descends s s' \<longleftrightarrow> nextStream s \<le> nextStream s' \<and> hostFence_of s \<le> hostFence_of s' \<and>
     (\<forall>c' \<in> set (rd_clients s'). nextStream s \<le> cl_stream_id c' \<or> (\<exists>c \<in> set (rd_clients s). row_follows c c'))"

definition evolves :: "store_limits \<Rightarrow> relay_do \<Rightarrow> relay_do \<Rightarrow> bool" where
  "evolves lim s s' \<longleftrightarrow> (store_ok lim s \<longrightarrow> store_ok lim s' \<and> descends s s')"

lemma row_follows_refl [simp]: "row_follows c c"
  by (simp add: row_follows_def)

lemma row_follows_trans: "row_follows a b \<Longrightarrow> row_follows b c \<Longrightarrow> row_follows a c"
  unfolding row_follows_def by auto

lemma descends_trans: "descends a b \<Longrightarrow> descends b c \<Longrightarrow> descends a c"
  unfolding descends_def
proof (elim conjE, intro conjI ballI)
  fix r assume ab: "\<forall>c'\<in>set (rd_clients b). nextStream a \<le> cl_stream_id c' \<or> (\<exists>c\<in>set (rd_clients a). row_follows c c')"
    and bc: "\<forall>c'\<in>set (rd_clients c). nextStream b \<le> cl_stream_id c' \<or> (\<exists>c\<in>set (rd_clients b). row_follows c c')"
    and n: "nextStream a \<le> nextStream b" and r: "r \<in> set (rd_clients c)"
  from bc r consider "nextStream b \<le> cl_stream_id r" | q where "q \<in> set (rd_clients b)" "row_follows q r" by blast
  then show "nextStream a \<le> cl_stream_id r \<or> (\<exists>c\<in>set (rd_clients a). row_follows c r)"
  proof cases
    case 1
    with n show ?thesis by simp
  next
    case 2
    with ab have "nextStream a \<le> cl_stream_id q \<or> (\<exists>c\<in>set (rd_clients a). row_follows c q)" by blast
    with 2(2) show ?thesis by (auto simp: row_follows_def intro: row_follows_trans)
  qed
qed auto

lemma evolves_refl [simp]: "evolves lim s s"
  by (auto simp: evolves_def descends_def intro: row_follows_refl)

lemma evolves_trans: "evolves lim a b \<Longrightarrow> evolves lim b c \<Longrightarrow> evolves lim a c"
  unfolding evolves_def using descends_trans by blast

section \<open>The primitive operations evolve the tables\<close>

named_theorems evolves_intro \<open>operations that keep the tables well formed\<close>

lemmas store_defs = store_ok_def descends_def nextStream_def hostFence_of_def clientCount_def

lemma distinct_map_filter: "distinct (map f xs) \<Longrightarrow> distinct (map f (filter P xs))"
  by (induction xs) auto

lemma evolves_delete_tickets [evolves_intro]: "evolves lim s (delete_tickets P s)"
  unfolding evolves_def delete_tickets_def store_defs
  by (auto simp: distinct_map_filter intro: row_follows_refl split: option.splits)

lemma evolves_delete_clients [evolves_intro]: "evolves lim s (delete_clients P s)"
proof -
  have "length (filter (\<lambda>c. \<not> P c) (rd_clients s)) \<le> length (rd_clients s)" by (rule length_filter_le)
  then have "int (length (filter (\<lambda>c. \<not> P c) (rd_clients s))) \<le> m" if "int (length (rd_clients s)) \<le> m" for m
    using that by (meson of_nat_mono order_trans)
  then show ?thesis
    unfolding evolves_def delete_clients_def store_defs
    by (auto simp: distinct_map_filter simp del: max.bounded_iff intro: row_follows_refl split: option.splits)
qed

lemma evolves_update_clients:
  assumes "\<And>c. store_ok lim s \<Longrightarrow> c \<in> set (rd_clients s) \<Longrightarrow> P c \<Longrightarrow>
    row_follows c (f c) \<and> PositiveDecimalU64Schema (cl_delivery_generation (f c))"
  shows "evolves lim s (update_clients P f s)"
proof (cases "store_ok lim s")
  case True
  define g where "g = (\<lambda>c. if P c then f c else c)"
  have g: "row_follows c (g c)" if "c \<in> set (rd_clients s)" for c
    using assms [OF True] that by (simp add: g_def)
  have ids: "map (cl_client_id \<circ> g) (rd_clients s) = map cl_client_id (rd_clients s)"
    "map (cl_stream_id \<circ> g) (rd_clients s) = map cl_stream_id (rd_clients s)"
    using g by (auto simp: row_follows_def)
  have ok: "client_ok n (g c)" if "c \<in> set (rd_clients s)" "client_ok n c" for n c
    using that assms [OF True that(1)] by (auto simp: client_ok_def g_def row_follows_def)
  have up: "update_clients P f s = s\<lparr>rd_clients := map g (rd_clients s)\<rparr>"
    by (simp add: update_clients_def g_def)
  show ?thesis
    unfolding evolves_def up store_defs
    using ok g by (auto simp: ids split: option.splits) blast
qed (simp add: evolves_def)

lemma evolves_insert_ticket:
  "insert_ticket t s = Inr s' \<Longrightarrow> DecimalU64Schema (tk_delivery_generation t) \<Longrightarrow> evolves lim s s'"
  unfolding evolves_def insert_ticket_def ticket_row_def store_defs
  by (fastforce simp: find_None_iff intro: row_follows_refl split: if_splits option.splits)

lemma evolves_world [evolves_intro]: "evolves lim s (s\<lparr>rd_world := w\<rparr>)"
  unfolding evolves_def store_defs by (auto intro: row_follows_refl split: option.splits)

lemma clientById_Some: "clientById i s = Some c \<Longrightarrow> c \<in> set (rd_clients s) \<and> cl_client_id c = i"
  by (auto simp: clientById_def find_Some_iff)

lemma ticket_row_Some: "ticket_row d s = Some t \<Longrightarrow> t \<in> set (rd_tickets s) \<and> tk_ticket_digest t = d"
  by (auto simp: ticket_row_def find_Some_iff)

lemma cleanup_evolves [evolves_intro]: "evolves lim s (cleanupExpired now s)"
  unfolding cleanupExpired_def by (rule evolves_trans [OF evolves_delete_tickets evolves_delete_clients])

lemma revoke_evolves [evolves_intro]: "evolves lim s (revokePending peer i subject s)"
  unfolding revokePending_def by (auto intro: evolves_intro)

lemma evict_loop_evolves: "evolves lim s (fst (evict_loop now cs s))"
proof (induction now cs s rule: evict_loop.induct)
  case (2 now c cs s)
  then show ?case by (auto simp: Let_def intro: evolves_trans [OF evolves_delete_clients] evolves_delete_clients)
qed simp

lemma positive_u64: "PositiveDecimalU64Schema g \<Longrightarrow> DecimalU64Schema g \<and> 0 < bigint_of g"
  by (simp add: positive_schema_iff)

lemma client_generation: "store_ok lim s \<Longrightarrow> c \<in> set (rd_clients s) \<Longrightarrow> PositiveDecimalU64Schema (cl_delivery_generation c)"
  by (simp add: store_ok_def client_ok_def)

lemma positive_toString: "0 < v \<Longrightarrow> v \<le> MAX_U64 \<Longrightarrow> PositiveDecimalU64Schema (bigint_toString v)"
  using toString_in_schema [of v] by (simp add: positive_schema_iff bigint_of_toString is_u64_def)

section \<open>Every operation evolves the tables\<close>

lemma insert_client_evolves:
  assumes "insert_client c s = Inr s2" and "rd_session s = Some r" and "cl_stream_id c = se_next_stream_id r"
    and "1 \<le> se_next_stream_id r" and "se_next_stream_id r \<le> 0xffffffff" and "clientCount s < st_maxBrowserClients lim"
    and "PositiveDecimalU64Schema (cl_delivery_generation c)"
  shows "evolves lim s (s2\<lparr>rd_session := Some (r\<lparr>se_next_stream_id := se_next_stream_id r + 1\<rparr>)\<rparr>)"
proof -
  from assms(1) have s2: "s2 = s\<lparr>rd_clients := rd_clients s @ [c]\<rparr>"
    and new: "cl_client_id c \<notin> cl_client_id ` set (rd_clients s)" "cl_stream_id c \<notin> cl_stream_id ` set (rd_clients s)"
    by (auto simp: insert_client_def clientById_def clientByStream_def find_None_iff split: if_splits)
  have mono: "client_ok n d \<Longrightarrow> client_ok (n + 1) d" for n d by (simp add: client_ok_def)
  have "client_ok (se_next_stream_id r + 1) c" using assms by (simp add: client_ok_def)
  moreover have "1 + int (length (rd_clients s)) \<le> max 0 (st_maxBrowserClients lim)"
    using assms(6) by (simp add: clientCount_def)
  ultimately show ?thesis
    unfolding evolves_def s2 store_defs
    using new assms mono by (auto simp del: max.bounded_iff intro: row_follows_refl)
qed

lemma evict_evolves: "evolves lim s (fst (evictInactiveClient now s))"
  unfolding evictInactiveClient_def by (rule evict_loop_evolves)

lemma refresh_evolves: "evolves lim s (update_clients (\<lambda>c. cl_client_id c = i \<and> cl_registered_at c = None)
    (\<lambda>c. c\<lparr>cl_reservation_expires_at := e, cl_updated_at := u\<rparr>) s)"
  by (rule evolves_update_clients) (auto simp: row_follows_def intro: client_generation)

lemma requiredClient_Inr: "requiredClient i s = Inr c \<Longrightarrow> c \<in> set (rd_clients s) \<and> cl_client_id c = i"
  by (auto simp: requiredClient_def dest: clientById_Some split: option.splits)

lemma reserveClient_evolves:
  assumes "reserveClient lim i ph role e now dn s = Inr (s', r)"
  shows "evolves lim s s' \<and> (\<forall>c. r = Inr c \<longrightarrow> c \<in> set (rd_clients s') \<and> cl_client_id c = i)"
proof (cases "clientById i s")
  case (Some ex)
  with assms show ?thesis
    by (auto simp: reserveClient_def Let_def bindR_Inr_iff intro: refresh_evolves dest: requiredClient_Inr split: if_splits)
next
  case None
  define s1 where "s1 = (if st_maxBrowserClients lim \<le> clientCount s then fst (evictInactiveClient now s) else s)"
  have s1: "evolves lim s s1" by (auto simp: s1_def intro: evict_evolves)
  show ?thesis
  proof (cases "st_maxBrowserClients lim \<le> clientCount s1")
    case True
    with assms None s1 show ?thesis by (auto simp: reserveClient_def Let_def simp flip: s1_def)
  next
    case False
    with assms None obtain row s2 where row: "rd_session s1 = Some row" "\<not> se_next_stream_id row < 1" "\<not> 0xffffffff < se_next_stream_id row"
      and s2: "insert_client \<lparr>cl_client_id = i, cl_delivery_generation = ''1'', cl_principal_id_hash = ph,
          cl_registered_at = None, cl_reservation_expires_at = Some e, cl_role = role,
          cl_stream_id = se_next_stream_id row, cl_updated_at = now\<rparr> s1 = Inr s2"
      and s': "s' = s2\<lparr>rd_session := Some (row\<lparr>se_next_stream_id := se_next_stream_id row + 1\<rparr>)\<rparr>"
      and r: "\<exists>c. r = Inr c \<and> requiredClient i s' = Inr c"
      by (auto simp: reserveClient_def Let_def bindR_Inr_iff simp flip: s1_def split: option.splits if_splits)
    have "PositiveDecimalU64Schema ''1''" by code_simp
    with insert_client_evolves [OF s2 row(1)] row False have "evolves lim s1 s'" by (simp add: s')
    with s1 r show ?thesis by (auto intro: evolves_trans dest: requiredClient_Inr)
  qed
qed

lemma reservedGeneration_u64:
  assumes "reservedDeliveryGeneration client = Inr g"
    and "\<And>c. client = Some c \<Longrightarrow> PositiveDecimalU64Schema (cl_delivery_generation c)"
  shows "DecimalU64Schema g"
proof (cases client)
  case None
  with assms(1) have "g = ''0''" by (simp add: reservedDeliveryGeneration_def)
  moreover have "DecimalU64Schema (bigint_toString 0)" by (rule toString_in_schema) (simp add: is_u64_def MAX_U64_def)
  ultimately show ?thesis by (simp add: bigint_toString_def decimal_of_nat_0)
next
  case (Some c)
  from positive_u64 [OF assms(2) [OF Some]] Some assms(1) show ?thesis
    by (auto simp: reservedDeliveryGeneration_def is_u64_def split: if_splits intro!: toString_in_schema)
qed

lemma reserve_for_evolves:
  assumes "reserve_for lim input dn s = Inr (s', r)"
  shows "evolves lim s s' \<and> (\<forall>c. r = Inr (Some c) \<longrightarrow> c \<in> set (rd_clients s'))"
proof (cases "browser_reservation input")
  case None
  with assms show ?thesis by (auto simp: reserve_for_def)
next
  case (Some cp)
  obtain c p where cp: "cp = (c, p)" by fastforce
  from assms Some cp obtain q where q: "reserveClient lim c p (cr_role input) (cr_expiresAt input) (cr_now input) dn s = Inr (s', q)"
    and r: "r = (case q of Inl e \<Rightarrow> Inl e | Inr row \<Rightarrow> Inr (Some row))"
    by (auto simp: reserve_for_def bindR_Inr_iff)
  from reserveClient_evolves [OF q] show ?thesis by (auto simp: r split: sum.splits)
qed

lemma insert_tickets_evolves:
  assumes "insert_tickets input client g s = Inr s'" and "DecimalU64Schema g"
  shows "evolves lim s s'"
proof -
  from assms(1) obtain s1 k where "insert_ticket (reservation_ticket input control (cr_controlTicketDigest input) k g) s = Inr s1"
    and "insert_ticket (reservation_ticket input data (cr_dataTicketDigest input) k g) s1 = Inr s'"
    by (auto simp: insert_tickets_def Let_def bindR_Inr_iff)
  then show ?thesis
    by (auto intro!: evolves_trans [OF evolves_insert_ticket evolves_insert_ticket] simp: reservation_ticket_def assms(2))
qed

text \<open>The ways a reservation can end without an error.\<close>

lemma reserve_cases:
  assumes "reserveConnectionSet lim input dn s = Inr (s', r)"
  obtains "s' = cleanupExpired (cr_now input) s" "r = Inl client_owner_mismatch"
  | "s' = revoke_for input (cleanupExpired (cr_now input) s)" "r = Inl too_many_pending_connections"
  | e where "reserve_for lim input dn (revoke_for input (cleanupExpired (cr_now input) s)) = Inr (s', Inl e)" "r = Inl e"
  | s3 client g where "reserve_for lim input dn (revoke_for input (cleanupExpired (cr_now input) s)) = Inr (s3, Inr client)"
      "reservedDeliveryGeneration client = Inr g" "insert_tickets input client g s3 = Inr s'" "r = Inr (client, g)"
proof -
  let ?s1 = "cleanupExpired (cr_now input) s"
  let ?s2 = "revoke_for input ?s1"
  show ?thesis
  proof (cases "owner_mismatch input ?s1 \<or> st_maxPendingSets lim \<le> pendingSetCount ?s2")
    case True
    with assms that(1,2) show ?thesis by (auto simp: reserveConnectionSet_def Let_def split: if_splits)
  next
    case False
    with assms obtain s3 q where q: "reserve_for lim input dn ?s2 = Inr (s3, q)"
      by (auto simp: reserveConnectionSet_def Let_def bindR_Inr_iff)
    from False q assms that(3,4) show ?thesis
      by (cases q) (auto simp: reserveConnectionSet_def Let_def bindR_Inr_iff)
  qed
qed

lemma reserve_evolves:
  assumes "reserveConnectionSet lim input dn s = Inr (s', r)"
  shows "evolves lim s s'"
proof -
  have s1: "evolves lim s (cleanupExpired (cr_now input) s)" by (rule cleanup_evolves)
  have s2: "evolves lim s (revoke_for input (cleanupExpired (cr_now input) s))"
    unfolding revoke_for_def by (rule evolves_trans [OF s1]) (auto intro: revoke_evolves split: option.splits)
  from assms show ?thesis
  proof (cases rule: reserve_cases)
    case (4 s3 client g)
    have "evolves lim s3 s'" if ok: "store_ok lim s3"
      by (rule insert_tickets_evolves [OF 4(3)])
        (use reservedGeneration_u64 [OF 4(2)] reserve_for_evolves [OF 4(1)] client_generation [OF ok] in auto)
    then have "evolves lim s3 s'" by (auto simp: evolves_def)
    with s2 reserve_for_evolves [OF 4(1)] show ?thesis by (auto intro: evolves_trans)
  qed (use s1 s2 reserve_for_evolves in \<open>auto intro: evolves_trans\<close>)
qed

lemma claim_refusedD:
  assumes "\<not> claim_refused lim t now cur client s"
  shows "tk_delivery_generation cur = tk_delivery_generation t \<and> cl_stream_id client = tk_stream_id t \<and> cl_role client = tk_role t \<and>
    bigint_of (tk_delivery_generation t) = bigint_of (cl_delivery_generation client) + (if cl_registered_at client = None then 0 else 1) \<and>
    bigint_of (tk_delivery_generation t) \<le> MAX_U64"
  using assms by (auto simp: claim_refused_def Let_def)

lemma activate_evolves:
  assumes "bigint_of g = bigint_of (cl_delivery_generation client) + (if cl_registered_at client = None then 0 else 1)"
    and "store_ok lim s \<Longrightarrow> DecimalU64Schema g"
  shows "evolves lim s (activate_client i client g now s)"
  unfolding activate_client_def
proof (rule evolves_update_clients)
  fix c assume ok: "store_ok lim s" and c: "c \<in> set (rd_clients s)"
    and P: "cl_client_id c = i \<and> cl_delivery_generation c = cl_delivery_generation client \<and> (cl_registered_at c = None \<longleftrightarrow> cl_registered_at client = None)"
  let ?c = "c\<lparr>cl_delivery_generation := g, cl_registered_at := (case cl_registered_at c of None \<Rightarrow> Some now | Some x \<Rightarrow> Some x),
             cl_reservation_expires_at := None, cl_updated_at := now\<rparr>"
  from client_generation [OF ok c] P assms(1) assms(2) [OF ok] have "PositiveDecimalU64Schema g"
    by (auto simp: positive_schema_iff split: if_splits)
  with P assms(1) show "row_follows c ?c \<and> PositiveDecimalU64Schema (cl_delivery_generation ?c)"
    by (auto simp: row_follows_def split: option.splits)
qed

lemma claim_cases:
  assumes "claimBrowserControl lim t now s = (s', r)"
  obtains "r = None" "s' = s \<or> s' = cleanupExpired now s"
  | cur client i where "tk_client_id t = Some i" "ticket_row (tk_ticket_digest t) (cleanupExpired now s) = Some cur"
      "clientById i (cleanupExpired now s) = Some client" "\<not> claim_refused lim t now cur client (cleanupExpired now s)"
      "s' = activate_client i client (tk_delivery_generation t) now (cleanupExpired now s)" "r = claimed_ticket i t cur s'"
proof (cases "tk_client_id t = None \<or> tk_channel t \<noteq> control")
  case True
  with assms show ?thesis by (auto simp: claimBrowserControl_def split: option.splits intro: that(1))
next
  case False
  then obtain i where i: "tk_client_id t = Some i" "tk_channel t = control" by auto
  let ?s = "cleanupExpired now s"
  show ?thesis
  proof (cases "ticket_row (tk_ticket_digest t) ?s = None \<or> clientById i ?s = None")
    case True
    with assms i show ?thesis by (auto simp: claimBrowserControl_def Let_def split: option.splits intro: that(1))
  next
    case False
    then obtain cur client where r: "ticket_row (tk_ticket_digest t) ?s = Some cur" "clientById i ?s = Some client" by auto
    show ?thesis
    proof (cases "claim_refused lim t now cur client ?s")
      case True
      with assms i r show ?thesis by (auto simp: claimBrowserControl_def Let_def intro: that(1))
    next
      case False
      with assms i r have "s' = activate_client i client (tk_delivery_generation cur) now ?s \<and> r = claimed_ticket i t cur s'"
        by (auto simp: claimBrowserControl_def Let_def)
      with that(2) [OF i(1) r False] claim_refusedD [OF False] show ?thesis by simp
    qed
  qed
qed

lemma claim_evolves: "evolves lim s (fst (claimBrowserControl lim t now s))"
proof -
  obtain s' r where c: "claimBrowserControl lim t now s = (s', r)" by fastforce
  have cl: "evolves lim s (cleanupExpired now s)" by (rule cleanup_evolves)
  from c have "evolves lim s s'"
  proof (cases rule: claim_cases)
    case 1
    with cl show ?thesis by auto
  next
    case (2 cur client i)
    have "evolves lim (cleanupExpired now s) s'" unfolding 2(5)
      by (rule activate_evolves) (use claim_refusedD [OF 2(4)] ticket_row_Some [OF 2(2)] in \<open>auto simp: store_ok_def\<close>)
    with cl show ?thesis by (rule evolves_trans)
  qed
  with c show ?thesis by simp
qed

lemma discard_evolves: "evolves lim s (discardReservation t now s)"
  unfolding discardReservation_def
  by (auto simp: Let_def intro: evolves_delete_tickets evolves_trans [OF evolves_delete_tickets evolves_delete_clients] split: option.splits)

lemma fence_evolves:
  assumes "rd_session s = Some r" and "0 \<le> v" and "bigint_of (se_host_fence r) \<le> v" and "v \<le> MAX_U64"
  shows "evolves lim s (s\<lparr>rd_session := Some (r\<lparr>se_host_fence := bigint_toString v\<rparr>)\<rparr>)"
  unfolding evolves_def store_defs
  using assms by (auto simp: bigint_of_toString is_u64_def intro: row_follows_refl intro!: toString_in_schema)

lemma tag_tickets_evolves:
  assumes "\<And>t. tk_ticket_digest (f t) = tk_ticket_digest t \<and> tk_delivery_generation (f t) = tk_delivery_generation t"
  shows "evolves lim s (s\<lparr>rd_tickets := map f (rd_tickets s)\<rparr>)"
proof -
  have "tk_ticket_digest \<circ> f = tk_ticket_digest" using assms by auto
  then show ?thesis
    unfolding evolves_def store_defs by (auto simp: assms intro: row_follows_refl split: option.splits)
qed

lemma bigint_of_nonneg: "0 \<le> bigint_of s"
  by (simp add: bigint_of_def)

lemma advance_Inr:
  assumes "advanceHostFence i s = Inr (s', f)"
  obtains r where "rd_session s = Some r" "bigint_of (se_host_fence r) < MAX_U64" "f = bigint_toString (bigint_of (se_host_fence r) + 1)"
    "s' = s\<lparr>rd_session := Some (r\<lparr>se_host_fence := f\<rparr>),
        rd_tickets := map (\<lambda>t. if tk_connection_set_id t = i then t\<lparr>tk_host_fence := Some f\<rparr> else t) (rd_tickets s)\<rparr>"
  using assms by (auto simp: advanceHostFence_def Let_def split: option.splits if_splits)

lemma advance_evolves:
  assumes "advanceHostFence i s = Inr (s', f)"
  shows "evolves lim s s'"
proof -
  define tag where "tag = (\<lambda>t :: TicketRow. if tk_connection_set_id t = i then t\<lparr>tk_host_fence := Some f\<rparr> else t)"
  from assms obtain r where r: "rd_session s = Some r" "bigint_of (se_host_fence r) < MAX_U64"
    and f: "f = bigint_toString (bigint_of (se_host_fence r) + 1)"
    and s': "s' = s\<lparr>rd_session := Some (r\<lparr>se_host_fence := f\<rparr>), rd_tickets := map tag (rd_tickets s)\<rparr>"
    by (auto simp: tag_def elim: advance_Inr)
  define s1 where "s1 = s\<lparr>rd_session := Some (r\<lparr>se_host_fence := f\<rparr>)\<rparr>"
  have "evolves lim s s1" unfolding f s1_def by (rule fence_evolves) (use r bigint_of_nonneg [of "se_host_fence r"] in auto)
  moreover have "s' = s1\<lparr>rd_tickets := map tag (rd_tickets s1)\<rparr>" by (simp add: s' s1_def)
  moreover have "evolves lim s1 (s1\<lparr>rd_tickets := map tag (rd_tickets s1)\<rparr>)"
    by (rule tag_tickets_evolves) (simp add: tag_def)
  ultimately show ?thesis by (metis evolves_trans)
qed

lemma invalidate_evolves: "invalidateHostConnection i f s = Inr (s', b) \<Longrightarrow> evolves lim s s'"
  by (auto simp: invalidateHostConnection_def bigint_of_nonneg split: option.splits if_splits
      intro!: evolves_trans [OF fence_evolves evolves_delete_tickets])

lemma replace_evolves:
  assumes "caller_ok (ReplaceDelivery r now)" and "replaceBrowserDelivery r now s = Inr (s', b)"
  shows "evolves lim s s'"
proof -
  let ?g = "bd_nextGeneration r"
  have pos: "PositiveDecimalU64Schema ?g" and g: "bigint_of ?g = bigint_of (bd_currentGeneration r) + 1"
    using assms(1) bigint_of_nonneg [of "bd_currentGeneration r"] by (auto simp: bigint_of_toString intro!: positive_toString)
  define s2 where "s2 = delete_tickets (\<lambda>t. tk_peer t = browser \<and> tk_client_id t = Some (bd_clientId r))
    (update_clients (\<lambda>c. cl_client_id c = bd_clientId r \<and> cl_delivery_generation c = bd_currentGeneration r)
       (\<lambda>c. c\<lparr>cl_delivery_generation := ?g, cl_updated_at := now\<rparr>) s)"
  have s2: "evolves lim s s2" unfolding s2_def
    by (rule evolves_trans [OF evolves_update_clients evolves_delete_tickets]) (use pos g in \<open>auto simp: row_follows_def\<close>)
  from assms(2) consider "s' = s" | t where "insert_ticket t s2 = Inr s'" "tk_delivery_generation t = ?g"
    by (auto simp: replaceBrowserDelivery_def Let_def bindR_Inr_iff s2_def split: option.splits if_splits)
  then show ?thesis
  proof cases
    case 2
    with pos have "evolves lim s2 s'" by (auto intro: evolves_insert_ticket simp: positive_schema_iff)
    with s2 show ?thesis by (rule evolves_trans)
  qed simp
qed

lemma initialize_evolves: "evolves lim s (fst (initializeSession i e g s))"
proof (cases "rd_session s = None \<and> fst (initializeSession i e g s) \<noteq> s")
  case True
  then have s': "fst (initializeSession i e g s) = s\<lparr>rd_session := Some (new_session i e g)\<rparr>"
    by (auto simp: initializeSession_def split: if_splits)
  have "DecimalU64Schema ''0''" by code_simp
  with True show ?thesis
    unfolding evolves_def s' store_defs by (auto simp: new_session_def bigint_of_nonneg)
next
  case False
  then have "fst (initializeSession i e g s) = s"
    by (auto simp: initializeSession_def split: option.splits if_splits)
  then show ?thesis by simp
qed

lemma store_step_evolves: "caller_ok e \<Longrightarrow> evolves lim s (store_step lim s e)"
proof (cases e)
  case (HeadMoved h p)
  then show ?thesis unfolding evolves_def store_defs by (auto intro: row_follows_refl split: option.splits)
qed (auto simp: transaction_def expireTicket_def consumeTicket_def closeConnectionSet_def
    intro: initialize_evolves reserve_evolves claim_evolves discard_evolves evolves_delete_tickets advance_evolves
      invalidate_evolves replace_evolves evolves_world evolves_trans [OF evolves_delete_tickets cleanup_evolves] split: sum.splits)

section \<open>What holds of every history\<close>

text \<open>An event no caller issues changes nothing.\<close>

definition store_do :: "store_limits \<Rightarrow> relay_do \<Rightarrow> store_event \<Rightarrow> relay_do" where
  "store_do lim s e = (if caller_ok e then store_step lim s e else s)"

definition empty_do :: relay_do where
  "empty_do = \<lparr>rd_session = None, rd_clients = [], rd_tickets = [], rd_world = \<lparr>rw_lease = None, rw_sockets = []\<rparr>,
     rd_next_socket = 0, rd_sends = 0, rd_effects = []\<rparr>"

lemma store_do_evolves: "evolves lim s (store_do lim s e)"
  by (simp add: store_do_def store_step_evolves)

lemma empty_ok: "store_ok lim empty_do"
  by (simp add: store_ok_def empty_do_def nextStream_def clientCount_def)

definition handed_fence :: "relay_do \<Rightarrow> store_event \<Rightarrow> int option" where
  "handed_fence s e = (case e of
       AdvanceFence i \<Rightarrow> (case advanceHostFence i s of Inl _ \<Rightarrow> None | Inr (_, f) \<Rightarrow> Some (bigint_of f))
     | _ \<Rightarrow> None)"

lemma descends_refl [simp]: "descends s s"
  by (auto simp: descends_def intro: row_follows_refl)

lemma handed_above:
  assumes "handed_fence s e = Some f"
  shows "hostFence_of s < f \<and> f \<le> hostFence_of (store_do lim s e)"
proof -
  from assms obtain i s' g where e: "e = AdvanceFence i" and a: "advanceHostFence i s = Inr (s', g)" and f: "f = bigint_of g"
    by (auto simp: handed_fence_def split: store_event.splits sum.splits)
  from a show ?thesis
    by (rule advance_Inr) (use bigint_of_nonneg in \<open>auto simp: e f a store_do_def transaction_def hostFence_of_def bigint_of_toString\<close>)
qed

interpretation store: tracked_machine "store_do lim" "store_ok lim" descends for lim
  by unfold_locales (use store_do_evolves in \<open>auto simp: evolves_def intro: descends_trans\<close>)

interpretation host_fence: granting_machine "store_do lim" "store_ok lim" hostFence_of handed_fence for lim
  by unfold_locales (use store_do_evolves handed_above in \<open>auto simp: evolves_def descends_def\<close>)


text \<open>
  C32. A stream id names one client for ever: two rows with the same stream id, one of an earlier and one of a later moment of a
  history, are the same client of the same principal and role, the later one no lower in delivery generation and no less registered.
\<close>

theorem stream_names_one_client:
  assumes "c \<in> set (rd_clients (foldl (store_do lim) empty_do es))"
    and "c' \<in> set (rd_clients (foldl (store_do lim) empty_do (es @ es')))"
    and "cl_stream_id c = cl_stream_id c'"
  shows "cl_client_id c = cl_client_id c' \<and> cl_principal_id_hash c = cl_principal_id_hash c' \<and> cl_role c = cl_role c' \<and>
    bigint_of (cl_delivery_generation c) \<le> bigint_of (cl_delivery_generation c') \<and>
    (cl_registered_at c \<noteq> None \<longrightarrow> cl_registered_at c' \<noteq> None)"
proof -
  let ?s = "foldl (store_do lim) empty_do es"
  have ok: "store_ok lim ?s" by (rule store.run_inv [OF empty_ok])
  with assms have "cl_stream_id c' < nextStream ?s" by (auto simp: store_ok_def client_ok_def)
  with store.run_between [OF empty_ok, of lim es es'] assms(2) obtain d
    where d: "d \<in> set (rd_clients ?s)" "row_follows d c'" by (auto simp: descends_def)
  with assms(1,3) ok have "d = c" by (auto simp: store_ok_def row_follows_def distinct_map dest: inj_onD)
  with d(2) show ?thesis by (auto simp: row_follows_def)
qed


lemma update_clients_mem: "r \<in> set (rd_clients (update_clients P f s)) \<Longrightarrow> \<exists>c \<in> set (rd_clients s). r = (if P c then f c else c)"
  by (auto simp: update_clients_def)

lemma activate_mem:
  assumes "r \<in> set (rd_clients (activate_client i client g now s))"
  shows "\<exists>c \<in> set (rd_clients s). cl_client_id c = cl_client_id r \<and> cl_stream_id c = cl_stream_id r"
  using update_clients_mem [OF assms [unfolded activate_client_def]] by (auto split: if_splits)

lemma claim_writes:
  assumes ok: "store_ok lim s" and c: "claimBrowserControl lim t now s = (s', Some t')"
  shows "\<exists>r \<in> set (rd_clients s'). tk_client_id t = Some (cl_client_id r) \<and> cl_stream_id r = tk_stream_id t \<and>
    cl_delivery_generation r = tk_delivery_generation t \<and> cl_registered_at r \<noteq> None"
  using c
proof (cases rule: claim_cases)
  case (2 cur client i)
  let ?s = "cleanupExpired now s"
  from 2(6) obtain r where r: "clientById i s' = Some r" "cl_registered_at r \<noteq> None"
      "cl_delivery_generation r = tk_delivery_generation t"
    using claim_refusedD [OF 2(4)] by (auto simp: claimed_ticket_def split: option.splits if_splits)
  have "store_ok lim ?s" using cleanup_evolves [of lim s now] ok by (simp add: evolves_def)
  then have "distinct (map cl_client_id (rd_clients ?s))" by (simp add: store_ok_def)
  moreover obtain c where "c \<in> set (rd_clients ?s)" "cl_client_id c = i" "cl_stream_id c = cl_stream_id r"
    using activate_mem clientById_Some [OF r(1)] unfolding 2(5) by metis
  ultimately have "cl_stream_id r = cl_stream_id client"
    using clientById_Some [OF 2(3)] by (metis distinct_map inj_onD)
  with clientById_Some [OF r(1)] r 2(1) claim_refusedD [OF 2(4)] show ?thesis by auto
qed simp

lemma claim_needs:
  assumes "claimBrowserControl lim t now s = (s', Some t')"
  obtains client where "client \<in> set (rd_clients s)" "tk_client_id t = Some (cl_client_id client)"
    "cl_stream_id client = tk_stream_id t"
    "bigint_of (tk_delivery_generation t) = bigint_of (cl_delivery_generation client) + (if cl_registered_at client = None then 0 else 1)"
  using assms
proof (cases rule: claim_cases)
  case (2 cur client i)
  from clientById_Some [OF 2(3)] have "client \<in> set (rd_clients s)" "cl_client_id client = i"
    by (auto simp: cleanupExpired_def delete_clients_def delete_tickets_def)
  with claim_refusedD [OF 2(4)] 2(1) that show ?thesis by auto
qed simp

text \<open>
  C35. A control ticket admits one connection: after a claim of a ticket has succeeded, no later claim of it does, whatever happens to
  the tables, the sockets, the lease and the head in between.
\<close>

theorem control_ticket_admits_once:
  assumes "claimBrowserControl lim t now (foldl (store_do lim) empty_do es) = (s', Some t')"
  shows "snd (claimBrowserControl lim t now' (foldl (store_do lim) s' es')) = None"
proof (rule ccontr)
  let ?s = "foldl (store_do lim) empty_do es" and ?s2 = "foldl (store_do lim) s' es'"
  assume "snd (claimBrowserControl lim t now' ?s2) \<noteq> None"
  then obtain s3 t3 where again: "claimBrowserControl lim t now' ?s2 = (s3, Some t3)"
    by (cases "claimBrowserControl lim t now' ?s2") auto
  have ok: "store_ok lim ?s" by (rule store.run_inv [OF empty_ok])
  have ok': "store_ok lim s'" using claim_evolves [of lim ?s t now] ok assms by (simp add: evolves_def)
  obtain r where r: "r \<in> set (rd_clients s')" "cl_stream_id r = tk_stream_id t"
      "cl_delivery_generation r = tk_delivery_generation t" "cl_registered_at r \<noteq> None"
    using claim_writes [OF ok assms] by blast
  from again obtain client where client: "client \<in> set (rd_clients ?s2)" "cl_stream_id client = tk_stream_id t"
      "bigint_of (tk_delivery_generation t) = bigint_of (cl_delivery_generation client) + (if cl_registered_at client = None then 0 else 1)"
    by (rule claim_needs)
  have "cl_stream_id client < nextStream s'" using ok' r(1,2) client(2) by (auto simp: store_ok_def client_ok_def)
  with store.run_rel [OF ok', of es'] client(1) obtain d where d: "d \<in> set (rd_clients s')" "row_follows d client"
    by (auto simp: descends_def)
  with r(1,2) client(2) ok' have "d = r" by (auto simp: store_ok_def row_follows_def distinct_map dest: inj_onD)
  with d(2) r client(3) show False by (auto simp: row_follows_def)
qed

section \<open>Evictions\<close>

definition idle_client :: "string \<Rightarrow> int \<Rightarrow> relay_do \<Rightarrow> bool" where
  "idle_client i now s \<longleftrightarrow> \<not> has_socket i s \<and> \<not> lease_runs i now s \<and> (\<forall>t \<in> set (rd_tickets s). tk_client_id t \<noteq> Some i)"

lemma evict_loop_spares:
  "d \<in> set (rd_clients s) \<Longrightarrow> cl_client_id d \<notin> cl_client_id ` set (rd_clients (fst (evict_loop now cs s))) \<Longrightarrow>
   idle_client (cl_client_id d) now s"
proof (induction now cs s rule: evict_loop.induct)
  case (2 now c cs s)
  let ?i = "cl_client_id c"
  show ?case
  proof (cases "has_socket ?i s \<or> list_ex (\<lambda>t. tk_client_id t = Some ?i) (rd_tickets s) \<or> lease_runs ?i now s")
    case True
    with 2 show ?thesis by (auto split: if_splits)
  next
    case False
    show ?thesis
    proof (cases "cl_client_id d = ?i")
      case True
      with False show ?thesis by (auto simp: idle_client_def list_ex_iff)
    next
      case neq: False
      let ?s1 = "delete_clients (\<lambda>d. cl_client_id d = ?i) s"
      from neq "2.prems" have d: "d \<in> set (rd_clients ?s1)" by (simp add: delete_clients_def)
      have none: "clientById ?i ?s1 = None" by (auto simp: clientById_def delete_clients_def find_None_iff)
      from False none have "fst (evict_loop now (c # cs) s) = ?s1" by (simp add: Let_def)
      with d "2.prems"(2) show ?thesis by auto
    qed
  qed
qed auto

abbreviation client_ids :: "relay_do \<Rightarrow> string set" where
  "client_ids s \<equiv> cl_client_id ` set (rd_clients s)"

lemma update_clients_ids:
  assumes "\<And>c. cl_client_id (f c) = cl_client_id c"
  shows "client_ids (update_clients P f s) = client_ids s"
proof -
  have "map cl_client_id (map (\<lambda>c. if P c then f c else c) xs) = map cl_client_id xs" for xs using assms by auto
  then have "map cl_client_id (rd_clients (update_clients P f s)) = map cl_client_id (rd_clients s)"
    by (simp add: update_clients_def)
  then show ?thesis by (metis set_map)
qed

lemma insert_client_ids: "insert_client c s = Inr s' \<Longrightarrow> client_ids s \<subseteq> client_ids s'"
  by (auto simp: insert_client_def split: if_splits)

lemma insert_ticket_clients: "insert_ticket t s = Inr s' \<Longrightarrow> rd_clients s' = rd_clients s"
  by (auto simp: insert_ticket_def split: if_splits)

lemma reserveClient_removed:
  assumes "reserveClient lim i ph role e now dn s = Inr (s', r)"
    and "d \<in> set (rd_clients s)" and "cl_client_id d \<notin> client_ids s'"
  shows "cl_client_id d \<noteq> i \<and> idle_client (cl_client_id d) now s"
proof (cases "clientById i s")
  case (Some ex)
  with assms have "client_ids s' = client_ids s"
    by (auto simp: reserveClient_def Let_def bindR_Inr_iff update_clients_ids split: if_splits)
  with assms(2,3) show ?thesis by blast
next
  case None
  define s1 where "s1 = (if st_maxBrowserClients lim \<le> clientCount s then fst (evictInactiveClient now s) else s)"
  from assms(1) None have "client_ids s1 \<subseteq> client_ids s'"
    by (auto simp: reserveClient_def Let_def bindR_Inr_iff simp flip: s1_def split: option.splits if_splits dest!: insert_client_ids)
  with assms(3) have "cl_client_id d \<notin> client_ids s1" by blast
  with assms(2) have "idle_client (cl_client_id d) now s"
    by (auto simp: s1_def evictInactiveClient_def split: if_splits intro: evict_loop_spares)
  with None assms(2) show ?thesis by (auto simp: clientById_def find_None_iff)
qed

lemma cleanup_removed:
  assumes "d \<in> set (rd_clients s)" and "d \<notin> set (rd_clients (cleanupExpired now s))"
  shows "cl_registered_at d = None \<and> (\<exists>e. cl_reservation_expires_at d = Some e \<and> e \<le> now)"
  using assms by (auto simp: cleanupExpired_def delete_clients_def delete_tickets_def split: option.splits)

lemma revoke_simps [simp]: "rd_clients (revokePending p i su s) = rd_clients s" "rd_world (revokePending p i su s) = rd_world s"
  by (simp_all add: revokePending_def delete_tickets_def)

lemma cleanup_world [simp]: "rd_world (cleanupExpired now s) = rd_world s"
  by (simp add: cleanupExpired_def delete_clients_def delete_tickets_def)

lemma reserve_for_removed:
  assumes "reserve_for lim input dn (revoke_for input s) = Inr (s', r)" and "d \<in> set (rd_clients s)" and "cl_client_id d \<notin> client_ids s'"
  shows "\<not> has_socket (cl_client_id d) s \<and> \<not> lease_runs (cl_client_id d) (cr_now input) s \<and>
    (\<forall>t \<in> set (rd_tickets s). tk_client_id t \<noteq> Some (cl_client_id d))"
proof (cases "browser_reservation input")
  case None
  with assms show ?thesis by (auto simp: reserve_for_def revoke_for_def)
next
  case (Some cp)
  obtain c p where cp: "cp = (c, p)" by fastforce
  let ?s = "revokePending browser (Some c) (cr_subject input) s"
  from assms(1) Some cp obtain q where "reserveClient lim c p (cr_role input) (cr_expiresAt input) (cr_now input) dn ?s = Inr (s', q)"
    by (auto simp: reserve_for_def revoke_for_def bindR_Inr_iff)
  from reserveClient_removed [OF this _ assms(3)] assms(2) show ?thesis
    by (auto simp: idle_client_def has_socket_def lease_runs_def revokePending_def delete_tickets_def)
qed

lemma insert_tickets_clients: "insert_tickets input client g s = Inr s' \<Longrightarrow> rd_clients s' = rd_clients s"
  by (auto simp: insert_tickets_def Let_def bindR_Inr_iff dest!: insert_ticket_clients)

lemma revoke_for_clients [simp]: "rd_clients (revoke_for input s) = rd_clients s"
  by (simp add: revoke_for_def split: option.split)


section \<open>A concrete history\<close>

definition demo_limits :: store_limits where
  "demo_limits = \<lparr>st_maxBrowserClients = 1, st_maxPendingSets = 2\<rparr>"

definition demo_input :: "string \<Rightarrow> int \<Rightarrow> ConnectionSetReservation" where
  "demo_input c now = \<lparr>cr_clientId = Some c, cr_connectionId = ''set-'' @ c, cr_connectionSetId = ''set-'' @ c,
     cr_controlTicketDigest = ''ctl-'' @ c, cr_dataTicketDigest = ''dat-'' @ c, cr_expiresAt = now + 30000, cr_now = now,
     cr_peer = browser, cr_principalIdHash = Some ''p'', cr_relayCapabilitiesJson = ''[]'', cr_role = writer, cr_subject = ''subject''\<rparr>"

definition demo_start :: "store_event list" where
  "demo_start = [Initialize ''session-1111111111'' ''1'' ''engine'', Reserve (demo_input ''c1'' 0) 0]"

definition demo_control_ticket :: TicketRow where
  "demo_control_ticket = reservation_ticket (demo_input ''c1'' 0) control ''ctl-c1'' 1 ''1''"

definition demo_claimed :: relay_do where
  "demo_claimed = fst (claimBrowserControl demo_limits demo_control_ticket 10 (foldl (store_do demo_limits) empty_do demo_start))"

definition demo_row :: "int option \<Rightarrow> int option \<Rightarrow> int \<Rightarrow> ClientRow" where
  "demo_row registered expires updated = \<lparr>cl_client_id = ''c1'', cl_delivery_generation = ''1'', cl_principal_id_hash = ''p'',
     cl_registered_at = registered, cl_reservation_expires_at = expires, cl_role = writer, cl_stream_id = 1, cl_updated_at = updated\<rparr>"

lemma demo_history:
  "rd_clients (foldl (store_do demo_limits) empty_do demo_start) = [demo_row None (Some 30000) 0]"
  "rd_clients (foldl (store_do demo_limits) empty_do (demo_start @ [Claim demo_control_ticket 10])) = [demo_row (Some 10) None 10]"
  "claimBrowserControl demo_limits demo_control_ticket 10 (foldl (store_do demo_limits) empty_do demo_start) =
     (demo_claimed, Some demo_control_ticket)"
  by code_simp+

lemma demo_eviction:
  "map_sum id (\<lambda>(s, r). map cl_client_id (rd_clients s)) (reserveConnectionSet demo_limits (demo_input ''c2'' 50000) 50000 demo_claimed) = Inr [''c2'']"
  "rd_clients demo_claimed = [demo_row (Some 10) None 10]"
  by code_simp+

theorem stream_names_one_client_witness:
  "bigint_of (cl_delivery_generation (demo_row None (Some 30000) 0)) \<le> bigint_of (cl_delivery_generation (demo_row (Some 10) None 10))"
  using stream_names_one_client [of "demo_row None (Some 30000) 0" demo_limits demo_start "demo_row (Some 10) None 10"
      "[Claim demo_control_ticket 10]"]
  by (simp only: demo_history list.set) (simp add: demo_row_def)

theorem control_ticket_admits_once_witness:
  "snd (claimBrowserControl demo_limits demo_control_ticket 20 demo_claimed) = None"
  using control_ticket_admits_once [OF demo_history(3), of 20 "[]"] by simp


end
