(* ===== verification/Relay_Quiet.thy ===== *)
theory Relay_Quiet
  imports Relay_Object Relay_State_Props
begin

text \<open>
  What the relay's handlers leave alone. A step is quiet when it sends no data frame, keeps the epoch, does not lower the canonical head
  and leaves the attachment of every browser's data socket as it is, but for marking it as catching up. Everything the relay does
  apart from delivering a frame, attaching, pinning a replay and taking an acknowledgement is quiet.
\<close>

section \<open>What is looked at\<close>

definition data_att :: "relay_do \<Rightarrow> nat \<Rightarrow> SocketAttachment option" where
  "data_att s i = (case attachment_of (rd_sockets s) i of None \<Rightarrow> None
     | Some a \<Rightarrow> if sa_peer a = browser \<and> sa_channel a = data then Some a else None)"

definition data_log :: "relay_do \<Rightarrow> nat \<Rightarrow> bytes list" where
  "data_log s i = List.map_filter (\<lambda>e. case e of SentData j bs \<Rightarrow> if j = i then Some bs else None | _ \<Rightarrow> None) (rd_effects s)"

definition head_of :: "relay_do \<Rightarrow> int" where
  "head_of s = (case rd_session s of None \<Rightarrow> 0 | Some r \<Rightarrow> bigint_of (se_head_event_seq r))"

definition pty_of :: "relay_do \<Rightarrow> int" where
  "pty_of s = (case rd_session s of None \<Rightarrow> 0 | Some r \<Rightarrow> bigint_of (se_next_pty_offset r))"

definition epoch_of :: "relay_do \<Rightarrow> int option" where
  "epoch_of s = map_option (\<lambda>r. bigint_of (se_session_epoch r)) (rd_session s)"

section \<open>Quiet steps\<close>

definition marked :: "SocketAttachment \<Rightarrow> SocketAttachment" where
  "marked a = a\<lparr>sa_dataState := Some (if sa_dataState a = Some data_awaiting_attach then data_awaiting_attach else data_catching_up)\<rparr>"

definition drifts :: "SocketAttachment \<Rightarrow> SocketAttachment \<Rightarrow> bool" where
  "drifts a a' \<longleftrightarrow> a' = a \<or> a' = marked a"

definition fresh_att :: "SocketAttachment \<Rightarrow> bool" where
  "fresh_att a \<longleftrightarrow> sa_dataState a = Some data_awaiting_attach \<and> sa_firstEventSeq a = None \<and> sa_ackedEventSeq a = None \<and>
     sa_sentEventSeq a = None \<and> sa_firstPtyOffset a = None \<and> sa_ackedPtyOffset a = None \<and> sa_sentPtyOffset a = None \<and>
     sa_replayMode a = None \<and> sa_snapshotId a = None \<and> sa_replayCommitEventSeq a = None \<and> sa_replayCommitPtyOffset a = None"

text \<open>A data socket that was there has drifted; one that is new is fresh, on a socket that was not there.\<close>

abbreviation socket_ids :: "relay_do \<Rightarrow> nat list" where
  "socket_ids s \<equiv> map fst (rd_sockets s)"

definition known :: "relay_do \<Rightarrow> nat \<Rightarrow> bool" where
  "known s i \<longleftrightarrow> i \<in> set (socket_ids s)"

definition numbered :: "relay_do \<Rightarrow> bool" where
  "numbered s \<longleftrightarrow> distinct (socket_ids s) \<and> (\<forall>i \<in> set (socket_ids s). i < rd_next_socket s)"

definition att_step :: "bool \<Rightarrow> SocketAttachment option \<Rightarrow> SocketAttachment option \<Rightarrow> bool" where
  "att_step there o1 o2 \<longleftrightarrow>
     (case o1 of
        Some a \<Rightarrow> (case o2 of None \<Rightarrow> False | Some a' \<Rightarrow> drifts a a')
      | None \<Rightarrow> (case o2 of None \<Rightarrow> True | Some a' \<Rightarrow> fresh_att a' \<and> \<not> there))"

definition quiet :: "relay_do \<Rightarrow> relay_do \<Rightarrow> bool" where
  "quiet s s' \<longleftrightarrow> epoch_of s' = epoch_of s \<and> head_of s \<le> head_of s' \<and> pty_of s \<le> pty_of s' \<and>
     (\<forall>i. data_log s' i = data_log s i) \<and> (\<forall>i. known s i \<longrightarrow> known s' i) \<and> (numbered s \<longrightarrow> numbered s') \<and>
     (\<forall>i. att_step (known s i) (data_att s i) (data_att s' i))"

lemma marked_marked [simp]: "marked (marked a) = marked a"
  by (simp add: marked_def)

lemma drifts_refl [simp]: "drifts a a"
  by (simp add: drifts_def)

lemma drifts_trans: "drifts a b \<Longrightarrow> drifts b c \<Longrightarrow> drifts a c"
  by (auto simp: drifts_def)

lemma fresh_marked: "fresh_att a \<Longrightarrow> marked a = a"
  by (simp add: fresh_att_def marked_def)

lemma fresh_drifts: "fresh_att a \<Longrightarrow> drifts a b \<Longrightarrow> fresh_att b"
  by (auto simp: drifts_def fresh_marked)

lemma att_step_trans: "att_step k a b \<Longrightarrow> att_step k' b c \<Longrightarrow> (k \<longrightarrow> k') \<Longrightarrow> att_step k a c"
  by (auto simp: att_step_def intro: drifts_trans fresh_drifts split: option.splits)

lemma att_step_refl: "att_step k a a"
  by (simp add: att_step_def split: option.split)

lemma quiet_refl: "quiet s s"
  by (simp add: quiet_def att_step_refl)

lemma quiet_trans: "quiet s t \<Longrightarrow> quiet t u \<Longrightarrow> quiet s u"
  unfolding quiet_def by (metis (no_types, lifting) att_step_trans order_trans)

interpretation quiet: op_preorder quiet
  by unfold_locales (auto intro: quiet_refl quiet_trans)

section \<open>Quiet primitives\<close>

text \<open>A step that keeps the session row's head and epoch, the log, the numbering and the data attachments.\<close>

lemma quiet_same:
  assumes "epoch_of s' = epoch_of s" and "head_of s' = head_of s" and "pty_of s' = pty_of s" and "socket_ids s' = socket_ids s" and "rd_next_socket s' = rd_next_socket s"
    and "rd_effects s' = rd_effects s" and "\<And>i. data_att s' i = data_att s i"
  shows "quiet s s'"
  using assms by (simp add: quiet_def att_step_refl data_log_def known_def numbered_def del: set_map)

lemma view_simps [simp]:
  "head_of (set_sockets ws s) = head_of s" "pty_of (set_sockets ws s) = pty_of s" "epoch_of (set_sockets ws s) = epoch_of s"
  "rd_effects (set_sockets ws s) = rd_effects s" "rd_next_socket (set_sockets ws s) = rd_next_socket s"
  "rd_sockets (set_sockets ws s) = ws" "rd_session (set_sockets ws s) = rd_session s" "rd_clients (set_sockets ws s) = rd_clients s"
  "rd_sockets (relay_effect e s) = rd_sockets s" "rd_session (relay_effect e s) = rd_session s"
  "rd_next_socket (relay_effect e s) = rd_next_socket s" "rd_effects (relay_effect e s) = rd_effects s @ [e]"
  "rd_clients (relay_effect e s) = rd_clients s"
  "head_of (relay_effect e s) = head_of s" "pty_of (relay_effect e s) = pty_of s" "epoch_of (relay_effect e s) = epoch_of s"
  "data_att (relay_effect e s) i = data_att s i"
  by (simp_all add: set_sockets_def relay_effect_def head_of_def pty_of_def epoch_of_def data_att_def)

lemma known_simps [simp]: "known (relay_effect e s) i = known s i" "numbered (relay_effect e s) = numbered s"
  by (simp_all add: known_def numbered_def relay_effect_def)

lemma known_get: "known s i \<longleftrightarrow> jm_get (rd_sockets s) i \<noteq> None"
  unfolding known_def set_map by (metis jm_get_None_iff)

lemma quiet_sockets:
  "(\<And>i. attachment_of ws i = attachment_of (rd_sockets s) i) \<Longrightarrow> map fst ws = socket_ids s \<Longrightarrow>
   quiet s (set_sockets ws s)"
  by (rule quiet_same) (simp_all add: data_att_def)

lemma quiet_effect: "(\<And>i bs. e \<noteq> SentData i bs) \<Longrightarrow> quiet s (relay_effect e s)"
  unfolding quiet_def
  by (auto simp: att_step_refl data_log_def map_filter_def split: RelayEffect.splits)

lemma closeProtocol_attachment: "attachment_of (closeProtocol i ws) j = attachment_of ws j"
  by (auto simp: closeProtocol_def attachment_of_def jsmap_simps readSocketAttachment_def split: option.splits)

lemma closeProtocol_ids: "map fst (closeProtocol i ws) = map fst ws"
  by (auto simp: closeProtocol_def jm_keys_set dest: jm_get_Some_key split: option.splits)

lemma closeSockets_ids: "map fst (fst (closeSockets P except ws)) = map fst ws"
  by (auto simp: closeSockets_def)

lemma quiet_close_protocol: "obeys quiet (close_protocol i)"
  unfolding close_protocol_def by (rule quiet.obeys_modify) (simp add: quiet_sockets closeProtocol_attachment closeProtocol_ids)

lemma quiet_close_sockets: "obeys quiet (close_sockets P except)"
  unfolding close_sockets_def
proof (rule quiet.obeys_modify)
  fix s
  have "quiet s (set_sockets (fst (closeSockets P except (rd_sockets s))) s)" by (rule quiet_sockets) (simp_all add: closeSockets_ids)
  then show "quiet s (let (ws, p) = closeSockets P except (rd_sockets s); s' = set_sockets ws s
      in if p then relay_effect SnapshotMaintenance s' else s')"
    by (auto simp: Let_def split: prod.split intro: quiet_trans quiet_effect)
qed

lemma quiet_world: "quiet s (s\<lparr>rd_world := w\<rparr>)" if "rw_sockets w = rd_sockets s"
  by (rule quiet_same) (simp_all add: that head_of_def pty_of_def epoch_of_def data_att_def)

lemma release_sockets [simp]: "rw_sockets (release c f k w) = rw_sockets w"
  by (simp add: release_def split: option.split)

lemma quiet_release: "quiet s (s\<lparr>rd_world := release c f k (rd_world s)\<rparr>)"
  by (rule quiet_world) simp

text \<open>Tables other than the session's do not matter.\<close>

definition same_view :: "relay_do \<Rightarrow> relay_do \<Rightarrow> bool" where
  "same_view s s' \<longleftrightarrow> epoch_of s' = epoch_of s \<and> head_of s' = head_of s \<and> pty_of s' = pty_of s \<and>
     rd_next_socket s' = rd_next_socket s \<and> rd_effects s' = rd_effects s \<and> rd_world s' = rd_world s"

lemma same_view_refl [simp]: "same_view s s"
  by (simp add: same_view_def)

lemma same_view_trans [trans]: "same_view s t \<Longrightarrow> same_view t u \<Longrightarrow> same_view s u"
  by (simp add: same_view_def)

lemma quiet_view: "same_view s s' \<Longrightarrow> quiet s s'"
  by (rule quiet_same) (simp_all add: same_view_def data_att_def)

lemma view_tables [simp]:
  "same_view s (delete_tickets P s)" "same_view s (delete_clients Q s)" "same_view s (update_clients Q f s)"
  by (simp_all add: same_view_def delete_tickets_def delete_clients_def update_clients_def head_of_def pty_of_def epoch_of_def)

lemma view_insert: "insert_ticket t s = Inr s' \<Longrightarrow> same_view s s'" "insert_client c s = Inr s' \<Longrightarrow> same_view s s'"
  by (auto simp: insert_ticket_def insert_client_def same_view_def head_of_def pty_of_def epoch_of_def split: if_splits)

lemma view_small [simp]:
  "same_view s (cleanupExpired now s)" "same_view s (revokePending p i su s)" "same_view s (closeConnectionSet k s)"
  "same_view s (consumeTicket d s)" "same_view s (expireTicket d now s)"
  unfolding cleanupExpired_def revokePending_def closeConnectionSet_def consumeTicket_def expireTicket_def
  by (auto intro: same_view_trans [OF view_tables(1) view_tables(2)]
      same_view_trans [OF view_tables(1) same_view_trans [OF view_tables(1) view_tables(2)]])

section \<open>Writing an attachment\<close>

lemma write_attachments:
  assumes "writeSocketAttachment i a ws = Some ws'"
  shows "attachment_of ws' j = (if j = i \<and> jm_get ws i \<noteq> None then Some a else attachment_of ws j)" and "SocketAttachmentSchema a"
  using assms by (auto simp: writeSocketAttachment_def attachment_of_def readSocketAttachment_def jsmap_simps split: if_splits option.splits)

lemma write_ids: "writeSocketAttachment i a ws = Some ws' \<Longrightarrow> map fst ws' = map fst ws"
  by (auto simp: writeSocketAttachment_def jm_keys_set dest: jm_get_Some_key split: if_splits option.splits)

lemma attachment_schema: "attachment_of ws i = Some a \<Longrightarrow> SocketAttachmentSchema a \<and> jm_get ws i \<noteq> None"
  by (auto simp: attachment_of_def readSocketAttachment_def split: option.splits if_splits)

lemma write_run:
  obtains ws where "writeSocketAttachment i a (rd_sockets s) = Some ws" "write_attachment i a s = (set_sockets ws s, Inr ())"
  | "write_attachment i a s = (s, Inl AttachmentRejected)"
  by (cases "writeSocketAttachment i a (rd_sockets s)") (auto simp: write_attachment_def readS_def throwS_def modifyS_def)

text \<open>Writing over a control socket does not touch the data sockets.\<close>

lemma quiet_write_control:
  assumes "attachment_of (rd_sockets s) i = Some k" and "sa_channel k = control" and "sa_channel a = control"
  shows "quiet s (fst (write_attachment i a s))"
proof (cases rule: write_run [of i a s])
  case (1 ws)
  have "quiet s (set_sockets ws s)"
    by (rule quiet_same) (use assms in \<open>auto simp: data_att_def write_attachments(1) [OF 1(1)] write_ids [OF 1(1)]\<close>)
  with 1(2) show ?thesis by simp
qed (simp add: quiet_refl)

lemma mark_one: "mark_catching_up i ws = Some ws' \<Longrightarrow> rel_option drifts (attachment_of ws j) (attachment_of ws' j)"
proof (cases "attachment_of ws i")
  case (Some a)
  assume m: "mark_catching_up i ws = Some ws'"
  with Some have w: "writeSocketAttachment i (marked a) ws = Some ws'" by (simp add: mark_catching_up_def marked_def)
  show ?thesis using Some
    by (cases "attachment_of ws j") (auto simp: write_attachments(1) [OF w] drifts_def dest: attachment_schema)
qed (auto simp: mark_catching_up_def option.rel_refl)

lemma drifts_opt_trans: "rel_option drifts a b \<Longrightarrow> rel_option drifts b c \<Longrightarrow> rel_option drifts a c"
  by (cases a; cases b; cases c) (auto intro: drifts_trans)

lemma mark_every: "mark_all is ws = Some ws' \<Longrightarrow> rel_option drifts (attachment_of ws j) (attachment_of ws' j)"
proof (induction "is" arbitrary: ws)
  case (Cons i "is")
  then obtain ws1 where "mark_catching_up i ws = Some ws1" "mark_all is ws1 = Some ws'" by (auto split: option.splits)
  with Cons.IH mark_one show ?case by (blast intro: drifts_opt_trans)
qed (simp add: option.rel_refl)

lemma mark_ids: "mark_all is ws = Some ws' \<Longrightarrow> map fst ws' = map fst ws"
proof (induction "is" arbitrary: ws)
  case (Cons i "is")
  then obtain ws1 where "mark_catching_up i ws = Some ws1" "mark_all is ws1 = Some ws'" by (auto split: option.splits)
  with Cons.IH show ?case by (auto simp: mark_catching_up_def split: option.splits dest: write_ids)
qed simp

lemma data_att_drifts:
  assumes "rel_option drifts (attachment_of ws i) (attachment_of ws' i)" and "rd_sockets s = ws"
  shows "att_step k (data_att s i) (data_att (set_sockets ws' s) i)"
  using assms by (cases "attachment_of ws i"; cases "attachment_of ws' i") (auto simp: data_att_def att_step_def drifts_def marked_def)

lemma quiet_mark: "obeys quiet mark_catching_up_all"
  unfolding mark_catching_up_all_def obeys_def readS_def
proof
  fix s
  show "quiet s (fst ((case markBrowserDataCatchingUp (rd_sockets s) of None \<Rightarrow> throwS AttachmentRejected
      | Some ws \<Rightarrow> modifyS (set_sockets ws)) s))"
  proof (cases "markBrowserDataCatchingUp (rd_sockets s)")
    case (Some ws)
    then have "rel_option drifts (attachment_of (rd_sockets s) i) (attachment_of ws i)" for i
      unfolding markBrowserDataCatchingUp_def by (rule mark_every)
    moreover have "map fst ws = socket_ids s" using Some by (auto simp: markBrowserDataCatchingUp_def dest: mark_ids)
    then have "known (set_sockets ws s) = known s" "numbered (set_sockets ws s) = numbered s"
      by (simp_all add: fun_eq_iff known_def numbered_def del: set_map)
    ultimately show ?thesis by (simp add: Some modifyS_def quiet_def data_log_def data_att_drifts [OF _ refl])
  qed (simp add: throwS_def quiet_refl)
qed

section \<open>Quiet handlers\<close>

lemma quiet_try_send: "(\<And>i bs. e \<noteq> SentData i bs) \<Longrightarrow> obeys quiet (try_send env e)"
  unfolding obeys_def
proof
  fix s assume e: "\<And>i bs. e \<noteq> SentData i bs"
  have "quiet s (s\<lparr>rd_sends := n\<rparr>)" for n
    by (rule quiet_view) (simp add: same_view_def head_of_def pty_of_def epoch_of_def)
  then show "quiet s (fst (try_send env e s))"
    using quiet_effect [OF e] by (auto simp: try_send_def Let_def intro: quiet_trans)
qed

lemma quiet_close_set: "obeys quiet (modifyS (closeConnectionSet k))"
  by (rule quiet.obeys_modify) (rule quiet_view, simp)

lemma quiet_release_op: "obeys quiet (modifyS (\<lambda>s. s\<lparr>rd_world := release c f k (rd_world s)\<rparr>))"
  by (rule quiet.obeys_modify) (rule quiet_release)

lemma quiet_maintenance: "obeys quiet (modifyS (relay_effect SnapshotMaintenance))"
  by (rule quiet.obeys_modify) (rule quiet_effect, simp)

named_theorems quiet_ops \<open>operations that are quiet\<close>

lemmas [quiet_ops] = quiet_close_protocol quiet_close_sockets quiet_mark quiet_close_set quiet_release_op quiet_maintenance
lemmas quiet_rules = quiet.obeys_rules

lemma quiet_isolate [quiet_ops]: "obeys quiet (isolateBrowserConnection i a)"
  unfolding isolateBrowserConnection_def by (intro quiet_rules quiet_ops)

lemma quiet_send_failed [quiet_ops]: "obeys quiet (browser_send_failed i)"
  unfolding browser_send_failed_def by (intro quiet_rules quiet_ops)

lemma quiet_send_browser [quiet_ops]: "obeys quiet (sendBrowserControl env i f)"
  unfolding sendBrowserControl_def by (intro quiet_rules quiet_ops quiet_try_send) simp

lemma quiet_broadcast [quiet_ops]: "obeys quiet (broadcastBrowserControl env f)"
  unfolding broadcastBrowserControl_def by (intro quiet_rules quiet_ops)

lemma invalidate_view: "invalidateHostConnection k f s = Inr (s', b) \<Longrightarrow> same_view s s'"
  by (auto simp: invalidateHostConnection_def delete_tickets_def same_view_def head_of_def pty_of_def epoch_of_def split: option.splits if_splits)

lemma quiet_invalidate [quiet_ops]: "obeys quiet (invalidate_host k f)"
  by (auto simp: obeys_def invalidate_host_def quiet_refl intro: quiet_view invalidate_view split: sum.split)

lemma quiet_fail_host [quiet_ops]: "obeys quiet (failCurrentHost env a)"
  unfolding failCurrentHost_def Let_def by (intro quiet_rules quiet_ops)

lemma quiet_send_host [quiet_ops]: "obeys quiet (sendHostControl env i f)"
  unfolding sendHostControl_def by (intro quiet_rules quiet_ops quiet_try_send) simp

lemma quiet_send_input [quiet_ops]: "obeys quiet (sendInputToHost env i f now)"
  unfolding sendInputToHost_def by (intro quiet_rules quiet_ops quiet_try_send) simp

text \<open>The end of a reset: the control socket it writes is one, because the reset looked it up again.\<close>

lemma active_control_attachment:
  "activeBrowserControl ws c except = Some i \<Longrightarrow> \<exists>k. attachment_of ws i = Some k \<and> sa_channel k = control \<and> socket_open ws i"
  by (auto simp: activeBrowserControl_def dest!: first_of_Some find_socket_mem)

lemma replace_view: "replaceBrowserDelivery r now s = Inr (s', b) \<Longrightarrow> same_view s s'"
proof (cases "clientById (bd_clientId r) s")
  case (Some c)
  assume "replaceBrowserDelivery r now s = Inr (s', b)"
  with Some consider "s' = s" | s2 t where "same_view s s2" "insert_ticket t s2 = Inr s'"
    by (auto simp: replaceBrowserDelivery_def Let_def bindR_Inr_iff split: if_splits
        intro: same_view_trans [OF view_tables(3) view_tables(1)])
  then show ?thesis by cases (auto intro: same_view_trans view_insert)
qed (simp add: replaceBrowserDelivery_def)

lemma quiet_replace [quiet_ops]: "obeys quiet (replace_delivery r now)"
  by (auto simp: obeys_def replace_delivery_def quiet_refl intro: quiet_view replace_view split: sum.split)

lemma quiet_bind_at:
  "quiet s (fst (m s)) \<Longrightarrow> (\<And>s1 x. m s = (s1, Inr x) \<Longrightarrow> quiet s1 (fst (k x s1))) \<Longrightarrow> quiet s (fst (bindS m k s))"
  by (cases "m s"; cases "snd (m s)") (auto simp: bindS_def intro: quiet_trans)

lemma readS_run [simp]: "readS k s = k s s"
  by (simp add: readS_def)

lemma returnS_run [simp]: "returnS x s = (s, Inr x)"
  by (simp add: returnS_def)

lemma throwS_run [simp]: "throwS e s = (s, Inl e)"
  by (simp add: throwS_def)

lemma modifyS_run [simp]: "modifyS f s = (f s, Inr ())"
  by (simp add: modifyS_def)

lemma close_sockets_attachment:
  "attachment_of (rd_sockets (fst (close_sockets P e s))) i = attachment_of (rd_sockets s) i"
  by (simp add: close_sockets_def Let_def split: prod.split) (metis closeSockets_attachment fst_conv)

lemma quiet_notify [quiet_ops]: "obeys quiet (notify_host_of_reset env p a)"
  unfolding notify_host_of_reset_def by (intro quiet_rules quiet_ops)

lemma quiet_announce:
  assumes "attachment_of (rd_sockets s) (rp_control p) = Some k" and "sa_channel k = control" and "sa_channel a = control"
  shows "quiet s (fst (reset_announce env p ticket expires a s))"
  unfolding reset_announce_def Let_def
proof (rule quiet_bind_at)
  fix s1 x
  assume s1: "close_sockets (\<lambda>b. sa_peer b = browser \<and> sa_channel b = data \<and> sa_clientId b = Some (rp_clientId p)) None s = (s1, Inr x)"
  have k: "attachment_of (rd_sockets s1) (rp_control p) = Some k"
    using assms(1) close_sockets_attachment [of _ None s "rp_control p"] s1 by (metis fst_conv)
  let ?a = "a\<lparr>sa_deliveryGeneration := rp_nextGeneration p, sa_controlState := Some active\<rparr>"
  show "quiet s1 (fst (bindS (write_attachment (rp_control p) ?a) (\<lambda>_. bindS (sendBrowserControl env (rp_control p)
        (ResyncRequired (rp_nextGeneration p) (rp_reason p) (Some ticket) (Some expires))) (\<lambda>ok.
     if \<not> ok \<or> \<not> rp_notifyHost p \<or> rp_reason p \<noteq> reset_slow_client then returnS () else notify_host_of_reset env p ?a)) s1))"
    by (rule quiet_bind_at, rule quiet_write_control [OF k assms(2)], simp add: assms(3), rule obeysD, intro quiet_rules quiet_ops)
qed (rule obeysD [OF quiet_close_sockets])

lemma not_stale_control:
  assumes "\<not> reset_stale p s"
  shows "\<exists>k. attachment_of (rd_sockets s) (rp_control p) = Some k \<and> sa_channel k = control"
  using assms active_control_attachment [of "rd_sockets s" "rp_clientId p" None "rp_control p"] by (auto simp: reset_stale_def)

lemma replace_sockets: "replaceBrowserDelivery r now s = Inr (s', b) \<Longrightarrow> rd_sockets s' = rd_sockets s"
  using replace_view by (auto simp: same_view_def)

lemma quiet_reset_finish: "quiet s (fst (reset_finish env p ticket digest now dn s))"
proof (cases "reset_stale p s")
  case True
  then show ?thesis by (simp add: reset_finish_def quiet_refl)
next
  case False
  from not_stale_control [OF False] obtain k where k: "attachment_of (rd_sockets s) (rp_control p) = Some k" "sa_channel k = control"
    by blast
  show ?thesis
  proof (cases "clientById (rp_clientId p) s")
    case (Some client)
    have "quiet s (fst (bindS (replace_delivery (reset_replacement p digest (now + TICKET_LIFETIME_MS) k client) dn)
        (\<lambda>ok. if ok then reset_announce env p ticket (now + TICKET_LIFETIME_MS) k else returnS ()) s))"
    proof (rule quiet_bind_at)
      fix s1 ok
      assume "replace_delivery (reset_replacement p digest (now + TICKET_LIFETIME_MS) k client) dn s = (s1, Inr ok)"
      then have "rd_sockets s1 = rd_sockets s" by (auto simp: replace_delivery_def split: sum.splits dest: replace_sockets)
      with k show "quiet s1 (fst ((if ok then reset_announce env p ticket (now + TICKET_LIFETIME_MS) k else returnS ()) s1))"
        using quiet_announce [of s1 p k k] by (simp add: quiet_refl)
    qed (rule obeysD [OF quiet_replace])
    with False k Some show ?thesis by (simp add: reset_finish_def Let_def)
  qed (use False k in \<open>simp add: reset_finish_def quiet_refl\<close>)
qed

lemma quiet_reset_settles [quiet_ops]: "obeys quiet (reset_settles env p ticket digest now dn)"
  unfolding obeys_def
proof
  fix s
  have q: "quiet s (fst (reset_finish env p ticket digest now dn s))" by (rule quiet_reset_finish)
  obtain s' r where r: "reset_finish env p ticket digest now dn s = (s', r)" by fastforce
  have "quiet s' (fst (isolateBrowserConnection i a s'))" for i a by (rule obeysD [OF quiet_isolate])
  with q r show "quiet s (fst (reset_settles env p ticket digest now dn s))"
    by (auto simp: reset_settles_def intro: quiet_trans split: sum.split option.split)
qed

section \<open>The host's side\<close>

lemma quiet_send_result [quiet_ops]: "obeys quiet (sendResult env h f p st d)"
  unfolding sendResult_def Let_def by (intro quiet_rules quiet_ops)

lemma quiet_reject_barrier [quiet_ops]: "obeys quiet (reject_barrier env h f p d)"
  unfolding reject_barrier_def by (intro quiet_ops)

lemma quiet_forward_ack [quiet_ops]: "obeys quiet (forward_input_ack env c f)"
  unfolding forward_input_ack_def Let_def by (intro quiet_rules quiet_ops)

lemma quiet_ready_finish [quiet_ops]: "obeys quiet (host_ready_finish env i a f)"
  unfolding host_ready_finish_def Let_def by (intro quiet_rules quiet_ops)

lemma quiet_data_ack [quiet_ops]: "obeys quiet (host_data_ack env i a)"
  unfolding host_data_ack_def by (intro quiet_rules quiet_ops quiet_try_send) simp

lemma paired_control:
  assumes "cs_control (connectionSockets ws a False None) = Some i"
  shows "\<exists>k. attachment_of ws i = Some k \<and> sa_channel k = control"
proof -
  obtain c d where cd: "connection_loop ws a None (getWebSockets (''set:'' @ sa_connectionSetId a) ws) None None = (c, d)" by fastforce
  with assms have "c = Some i" by (simp add: connectionSockets_def)
  with connection_loop_found [OF cd] show ?thesis by auto
qed

text \<open>A ready host may raise the head; its own attachment is a control one.\<close>

lemma quiet_host_ready:
  assumes "attachment_of (rd_sockets s) i = Some a"
  shows "quiet s (fst (host_ready_begin env i a f s))"
proof (cases "host_ready_refused i a f s")
  case True
  then show ?thesis using obeysD [OF quiet_fail_host] by (simp add: host_ready_begin_def bindS_def split: prod.split sum.split) (metis fst_conv)
next
  case False
  then obtain r where r: "rd_session s = Some r" "bigint_of (se_head_event_seq r) \<le> bigint_of (hr_headEventSeq f)"
      "bigint_of (se_next_pty_offset r) \<le> bigint_of (hr_nextPtyOffset f)"
    and c: "cs_control (connectionSockets (rd_sockets s) a False None) = Some i"
    by (auto simp: host_ready_refused_def Let_def split: option.splits)
  from paired_control [OF c] assms have ch: "sa_channel a = control" by auto
  let ?s = "s\<lparr>rd_session := map_option (\<lambda>r. r\<lparr>se_head_event_seq := hr_headEventSeq f, se_next_pty_offset := hr_nextPtyOffset f\<rparr>) (rd_session s)\<rparr>"
  have 1: "quiet s ?s" using r by (simp add: quiet_def head_of_def pty_of_def epoch_of_def data_log_def data_att_def known_def numbered_def att_step_refl)
  have 2: "quiet ?s (fst (write_attachment i (a\<lparr>sa_controlState := Some active\<rparr>) ?s))"
    by (rule quiet_write_control) (use assms ch in auto)
  have "quiet ?s (fst (bindS (write_attachment i (a\<lparr>sa_controlState := Some active\<rparr>)) (\<lambda>_. readS (\<lambda>s'.
          returnS (Some (map (\<lambda>c. reset_begin c reset_host_reconnect False (Some (i, the (sa_hostFence a))) s') (active_browsers s'))))) ?s))"
    by (rule quiet_bind_at, rule 2) (simp add: quiet_refl)
  with quiet_trans [OF 1] False show ?thesis by (auto simp: host_ready_begin_def bindS_def split: prod.splits sum.splits)
qed

lemma quiet_host_control:
  assumes "attachment_of (rd_sockets s) i = Some a"
  shows "quiet s (fst (handle_host_control env i a decoded s))"
proof (cases "isCurrentHost (host_fence_of s) a")
  case True
  show ?thesis
  proof (cases decoded)
    case None
    have "obeys quiet (bindS (close_protocol i) (\<lambda>_. returnS []))" by (intro quiet_rules quiet_ops)
    from obeysD [OF this] True None show ?thesis by (simp add: handle_host_control_def)
  next
    case (Some f)
    show ?thesis
    proof (cases f)
      case (HostReady g)
      have "quiet s (fst (bindS (host_ready_begin env i a g) (\<lambda>r. returnS (case r of None \<Rightarrow> [] | Some ps \<Rightarrow> ps)) s))"
        by (rule quiet_bind_at, rule quiet_host_ready [OF assms]) (simp add: quiet_refl)
      with True Some HostReady show ?thesis by (simp add: handle_host_control_def)
    next
      case (HostInputAck c g)
      have "obeys quiet (bindS (forward_input_ack env c g) (\<lambda>_. returnS []))" by (intro quiet_rules quiet_ops)
      from obeysD [OF this] True Some HostInputAck show ?thesis by (simp add: handle_host_control_def)
    qed (use True Some in \<open>simp add: handle_host_control_def quiet_refl\<close>)
  qed
qed (simp add: handle_host_control_def quiet_refl)

section \<open>The browser's side\<close>

lemma quiet_record_op: "obeys quiet (modifyS (relay_effect (InputRecorded f d h w)))"
  by (rule quiet.obeys_modify) (rule quiet_effect, simp)

lemma quiet_record [quiet_ops]: "obeys quiet (recordInput f a timing d h w)"
  unfolding recordInput_def by (auto split: option.split intro!: quiet_rules quiet_record_op)

lemma quiet_reject_input [quiet_ops]: "obeys quiet (rejectInput env i f st)"
  unfolding rejectInput_def Let_def by (intro quiet_rules quiet_ops)

lemma obeys_prod: "(\<And>a b. obeys rel (k a b)) \<Longrightarrow> obeys rel (case x of (a, b) \<Rightarrow> k a b)"
  by (cases x) simp

lemma quiet_handle_input [quiet_ops]: "obeys quiet (handle_input env i a f timing now sendAt)"
  unfolding handle_input_def by (intro quiet_rules quiet_ops obeys_prod)

lemma quiet_renew_status [quiet_ops]: "obeys quiet (renew_status env i a e)"
  unfolding renew_status_def Let_def by (intro quiet_rules quiet_ops)

lemma quiet_handle_renew [quiet_ops]: "obeys quiet (handle_renew env i a w now)"
  unfolding handle_renew_def by (intro quiet_rules quiet_ops)

lemma live_control: "liveAttachment i e now w = Some a \<Longrightarrow> attachment_of (rw_sockets w) i = Some a \<and> sa_channel a = control"
  by (auto simp: liveAttachment_def split: option.splits if_splits)

lemma renew_sockets:
  assumes "renew_finish i a d n1 n2 n3 n4 w = (w', r)"
  shows "rw_sockets w' = rw_sockets w \<or> (\<exists>k e. attachment_of (rw_sockets w) i = Some k \<and> sa_channel k = control \<and>
    writeSocketAttachment i (k\<lparr>sa_leaseExpiresAt := e\<rparr>) (rw_sockets w) = Some (rw_sockets w'))"
  using assms by (auto simp: renew_finish_def Let_def split: option.splits if_splits dest: live_control)

lemma quiet_new_world:
  assumes "rw_sockets w = rd_sockets s \<or> (\<exists>k e. attachment_of (rd_sockets s) i = Some k \<and> sa_channel k = control \<and>
    writeSocketAttachment i (k\<lparr>sa_leaseExpiresAt := e\<rparr>) (rd_sockets s) = Some (rw_sockets w))"
  shows "quiet s (s\<lparr>rd_world := w\<rparr>)"
  using assms
proof
  assume "\<exists>k e. attachment_of (rd_sockets s) i = Some k \<and> sa_channel k = control \<and>
    writeSocketAttachment i (k\<lparr>sa_leaseExpiresAt := e\<rparr>) (rd_sockets s) = Some (rw_sockets w)"
  then obtain k e where k: "attachment_of (rd_sockets s) i = Some k" "sa_channel k = control"
    and w: "writeSocketAttachment i (k\<lparr>sa_leaseExpiresAt := e\<rparr>) (rd_sockets s) = Some (rw_sockets w)" by blast
  show ?thesis
    by (rule quiet_same) (use k in \<open>auto simp: head_of_def pty_of_def epoch_of_def data_att_def write_attachments(1) [OF w] write_ids [OF w]\<close>)
qed (rule quiet_world)

lemma quiet_renew_lease [quiet_ops]: "obeys quiet (renew_lease i a d n1 n2 n3 n4)"
  unfolding obeys_def
proof
  fix s :: relay_do
  obtain w r where w: "renew_finish i a d n1 n2 n3 n4 (rd_world s) = (w, r)" by fastforce
  from quiet_new_world [of w s i, OF renew_sockets [OF w]] show "quiet s (fst (renew_lease i a d n1 n2 n3 n4 s))"
    by (cases r) (simp_all add: renew_lease_def w)
qed

lemma quiet_renew_settles [quiet_ops]: "obeys quiet (renew_settles env i a ini d n1 n2 n3 n4)"
  unfolding renew_settles_def by (intro quiet_rules quiet_ops)

section \<open>Attaching, but for the write of the data socket\<close>

lemma quiet_reject_attach [quiet_ops]: "obeys quiet (rejectAttach env i r)"
  unfolding rejectAttach_def
  by (auto split: prod.split AttachRefusal.split option.split intro!: quiet_rules quiet_ops)

lemma quiet_attach_begin [quiet_ops]: "obeys quiet (attach_begin env i a f now)"
  unfolding attach_begin_def by (intro quiet_rules quiet_ops)

lemma acquire_sockets:
  assumes "acquire_finish c k t d n1 n2 w = (w', r)"
  shows "attachment_of (rw_sockets w') i = attachment_of (rw_sockets w) i"
  using assms by (auto simp: acquire_finish_def closeDisplacedWriters_def Let_def split: if_splits option.splits)

lemma acquire_ids: "acquire_finish c k t d n1 n2 w = (w', r) \<Longrightarrow> map fst (rw_sockets w') = map fst (rw_sockets w)"
  by (auto simp: acquire_finish_def closeDisplacedWriters_def Let_def closeSockets_ids split: if_splits option.splits)

lemma quiet_acquire [quiet_ops]: "obeys quiet (acquire_lease c k t d n1 n2)"
  unfolding obeys_def
proof
  fix s :: relay_do
  obtain w r where w: "acquire_finish c k t d n1 n2 (rd_world s) = (w, r)" by fastforce
  have "quiet s (s\<lparr>rd_world := w\<rparr>)"
    by (rule quiet_same) (simp_all add: head_of_def pty_of_def epoch_of_def data_att_def acquire_sockets [OF w] acquire_ids [OF w])
  then show "quiet s (fst (acquire_lease c k t d n1 n2 s))" by (cases r) (simp_all add: acquire_lease_def w)
qed

section \<open>Connections come and go\<close>

lemma view_evict: "same_view s (fst (evict_loop now cs s))"
proof (induction now cs s rule: evict_loop.induct)
  case (2 now c cs s)
  then show ?case by (auto simp: Let_def intro: same_view_trans [OF view_tables(2)])
qed simp

lemma view_next_stream:
  "rd_session s = Some r \<Longrightarrow> same_view s (s\<lparr>rd_session := Some (r\<lparr>se_next_stream_id := k\<rparr>)\<rparr>)"
  by (simp add: same_view_def head_of_def pty_of_def epoch_of_def)

lemma view_reserve_client:
  assumes "reserveClient lim i ph role e now dn s = Inr (s', r)"
  shows "same_view s s'"
proof (cases "clientById i s")
  case (Some ex)
  with assms show ?thesis by (auto simp: reserveClient_def Let_def bindR_Inr_iff split: if_splits)
next
  case None
  define s1 where "s1 = (if st_maxBrowserClients lim \<le> clientCount s then fst (evictInactiveClient now s) else s)"
  have s1: "same_view s s1" by (simp add: s1_def evictInactiveClient_def view_evict)
  show ?thesis
  proof (cases "st_maxBrowserClients lim \<le> clientCount s1")
    case True
    with assms None s1 show ?thesis by (auto simp: reserveClient_def Let_def simp flip: s1_def)
  next
    case False
    with assms None obtain row c s2 where row: "rd_session s1 = Some row" and s2: "insert_client c s1 = Inr s2"
      and s': "s' = s2\<lparr>rd_session := Some (row\<lparr>se_next_stream_id := se_next_stream_id row + 1\<rparr>)\<rparr>"
      by (auto simp: reserveClient_def Let_def bindR_Inr_iff simp flip: s1_def split: option.splits if_splits)
    from s2 row have "rd_session s2 = Some row" by (auto simp: insert_client_def split: if_splits)
    then have "same_view s2 s'" unfolding s' by (rule view_next_stream)
    with s1 view_insert(2) [OF s2] show ?thesis by (blast intro: same_view_trans)
  qed
qed

lemma view_revoke_for: "same_view s (revoke_for input s)"
  by (simp add: revoke_for_def split: option.split)

lemma view_reserve_for: "reserve_for lim input dn s = Inr (s', r) \<Longrightarrow> same_view s s'"
  by (auto simp: reserve_for_def bindR_Inr_iff split: option.splits dest: view_reserve_client)

lemma view_insert_tickets: "insert_tickets input client g s = Inr s' \<Longrightarrow> same_view s s'"
  by (auto simp: insert_tickets_def Let_def bindR_Inr_iff dest!: view_insert(1) intro: same_view_trans)

lemma view_reserve:
  assumes "reserveConnectionSet lim input dn s = Inr (s', r)"
  shows "same_view s s'"
proof -
  have 1: "same_view s (cleanupExpired (cr_now input) s)" by simp
  have 2: "same_view s (revoke_for input (cleanupExpired (cr_now input) s))" by (rule same_view_trans [OF 1 view_revoke_for])
  from assms show ?thesis
    by (cases rule: reserve_cases)
      (use 1 2 in \<open>auto intro: same_view_trans dest!: view_reserve_for view_insert_tickets\<close>)
qed

lemma quiet_create_set [quiet_ops]: "obeys quiet (createConnectionSet lim req h ids now dn)"
  unfolding obeys_def createConnectionSet_def
  by (auto simp: Let_def quiet_refl split: option.splits sum.splits intro: quiet_view view_reserve)

lemma view_claim: "same_view s (fst (claimBrowserControl lim t now s))"
  unfolding claimBrowserControl_def
  by (auto simp: Let_def activate_client_def split: option.splits intro: same_view_trans [OF view_small(1) view_tables(3)])

lemma quiet_claim [quiet_ops]: "obeys quiet (claim_control lim t now)"
  unfolding obeys_def claim_control_def using view_claim [of _ lim t now]
  by (auto split: prod.split intro: quiet_view) (metis fst_conv quiet_view)

lemma view_discard: "same_view s (discardReservation t now s)"
  unfolding discardReservation_def Let_def
  by (auto split: option.split intro: same_view_trans [OF view_tables(1) view_tables(2)])

lemma view_advance: "advanceHostFence k s = Inr (s', f) \<Longrightarrow> same_view s s'"
  by (auto simp: advanceHostFence_def Let_def same_view_def head_of_def pty_of_def epoch_of_def split: option.splits if_splits)

lemma quiet_advance [quiet_ops]: "obeys quiet (advance_fence k)"
  by (auto simp: obeys_def advance_fence_def quiet_refl intro: quiet_view view_advance split: sum.split)

lemma quiet_table_ops [quiet_ops]:
  "obeys quiet (modifyS (consumeTicket d))" "obeys quiet (modifyS (expireTicket d now))" "obeys quiet (modifyS (discardReservation t now))"
  by (auto intro!: quiet.obeys_modify quiet_view view_discard)

lemma quiet_release_previous [quiet_ops]: "obeys quiet (release_previous c i)"
  unfolding release_previous_def by (intro quiet_rules quiet_ops)

lemma quiet_take_over [quiet_ops]: "obeys quiet (take_over env t ch e)"
  unfolding take_over_def take_over_host_control_def take_over_browser_def by (intro quiet_rules quiet_ops)

lemma quiet_accept_attached [quiet_ops]: "obeys quiet (accept_attached (ticket_attachment t ch hf caps))"
  unfolding obeys_def
proof
  fix s
  define a where "a = ticket_attachment t ch hf caps"
  let ?ws = "rd_sockets s @ [(rd_next_socket s, \<lparr>so_readyState = OPEN, so_tags = socket_tags a, so_attachment = Some a\<rparr>)]"
  let ?t = "set_sockets ?ws (s\<lparr>rd_next_socket := rd_next_socket s + 1\<rparr>)"
  have "att_step (known s i) (data_att s i) (data_att ?t i)" if "SocketAttachmentSchema a" for i
  proof (cases "i = rd_next_socket s \<and> jm_get (rd_sockets s) i = None")
    case True
    have "fresh_att a" if "sa_peer a = browser" "sa_channel a = data" using that by (simp add: a_def ticket_attachment_def fresh_att_def)
    with True show ?thesis
      by (auto simp: att_step_def data_att_def known_get attachment_of_def map_add_def readSocketAttachment_def split: option.split)
  next
    case False
    then have "attachment_of ?ws i = attachment_of (rd_sockets s) i"
      by (auto simp: attachment_of_def map_add_def split: option.split)
    then have "data_att ?t i = data_att s i" by (simp add: data_att_def)
    then show ?thesis by (simp add: att_step_refl)
  qed
  then have "quiet s ?t" if "SocketAttachmentSchema a"
    using that by (auto simp: quiet_def known_def numbered_def set_sockets_def head_of_def pty_of_def epoch_of_def data_log_def)
  then show "quiet s (fst (accept_attached (ticket_attachment t ch hf caps) s))"
    by (simp add: accept_attached_def quiet_refl Let_def flip: a_def)
qed

lemma quiet_accept_ticket [quiet_ops]: "obeys quiet (accept_ticket env t ch e d caps)"
  unfolding accept_ticket_def by (intro quiet_rules quiet_ops)

lemma quiet_accept_socket [quiet_ops]: "obeys quiet (acceptSocket env parse lim up ch v d n1 n2 n3 n4 n5)"
  unfolding acceptSocket_def Let_def by (intro quiet_rules quiet_ops)

lemma quiet_socket_gone [quiet_ops]: "obeys quiet (socket_gone i)"
  unfolding socket_gone_def
proof (rule quiet.obeys_modify)
  fix s
  have get: "jm_get (map (\<lambda>(j, so). (j, if j = i then so\<lparr>so_readyState := CLOSED\<rparr> else so)) ws) j =
      map_option (\<lambda>so. if j = i then so\<lparr>so_readyState := CLOSED\<rparr> else so) (jm_get ws j)" for ws :: relay_sockets and j
    by (induction ws) auto
  show "quiet s (set_sockets (map (\<lambda>(j, so). (j, if j = i then so\<lparr>so_readyState := CLOSED\<rparr> else so)) (rd_sockets s)) s)"
    by (rule quiet_sockets) (auto simp: attachment_of_def get readSocketAttachment_def split: option.split)
qed

lemma quiet_close_event [quiet_ops]: "obeys quiet (processWebSocketClose env i)"
  unfolding processWebSocketClose_def host_data_gone_def browser_data_gone_def host_control_gone_def browser_control_gone_def
  by (intro quiet_rules quiet_ops)

lemma quiet_reject_inbound [quiet_ops]: "obeys quiet (rejectInboundMessage env i a)"
  unfolding rejectInboundMessage_def by (intro quiet_rules quiet_ops)

lemma quiet_validate [quiet_ops]: "obeys quiet (validateInboundMessage env i msg)"
  unfolding validateInboundMessage_def
  by (auto split: option.split InboundMessage.split intro!: quiet_rules quiet_ops)

end
