(* ===== verification/Relay_Cursors.thy ===== *)
theory Relay_Cursors
  imports Relay_Quiet
begin

text \<open>
  What the relay keeps of every browser's data socket, over all handlers: the cursors of its attachment are ordered and below the
  canonical head, its pin and its credit are sound, and what was sent on it is an unbroken run of frames of its own delivery from
  its seed on. This theory states the invariant and shows that everything but a delivery keeps it.
\<close>

section \<open>The invariant\<close>

abbreviation num :: "string option \<Rightarrow> int" where
  "num x \<equiv> bigint_of (the x)"

definition in_order :: "int \<Rightarrow> string option \<Rightarrow> string option \<Rightarrow> string option \<Rightarrow> bool" where
  "in_order h first acked sent \<longleftrightarrow> first = None \<and> acked = None \<and> sent = None \<or>
     first \<noteq> None \<and> acked \<noteq> None \<and> sent \<noteq> None \<and> num first \<le> num acked \<and> num acked \<le> num sent \<and> num sent \<le> h"

definition pinned :: "SocketAttachment \<Rightarrow> bool" where
  "pinned a \<longleftrightarrow> sa_replayMode a \<noteq> None \<and> sa_replayCommitEventSeq a \<noteq> None \<and> sa_replayCommitPtyOffset a \<noteq> None"

definition outstanding :: "SocketAttachment \<Rightarrow> int" where
  "outstanding a = num (sa_sentPtyOffset a) - num (sa_ackedPtyOffset a) +
     (num (sa_sentEventSeq a) - num (sa_ackedEventSeq a)) * DELIVERY_EVENT_OVERHEAD_BYTES"

definition pin_ok :: "int \<Rightarrow> int \<Rightarrow> SocketAttachment \<Rightarrow> bool" where
  "pin_ok h p a \<longleftrightarrow> has_no_pin a \<or> pinned a \<and> sa_sentEventSeq a \<noteq> None \<and>
     num (sa_replayCommitEventSeq a) \<le> h \<and> num (sa_replayCommitPtyOffset a) \<le> p"

definition cursors_ok :: "int \<Rightarrow> int \<Rightarrow> SocketAttachment \<Rightarrow> bool" where
  "cursors_ok h p a \<longleftrightarrow>
     in_order h (sa_firstEventSeq a) (sa_ackedEventSeq a) (sa_sentEventSeq a) \<and>
     in_order p (sa_firstPtyOffset a) (sa_ackedPtyOffset a) (sa_sentPtyOffset a) \<and>
     (sa_firstEventSeq a = None \<longleftrightarrow> sa_firstPtyOffset a = None)"

definition waits_fresh :: "SocketAttachment \<Rightarrow> bool" where
  "waits_fresh a \<longleftrightarrow> sa_dataState a \<noteq> None \<and> (sa_dataState a = Some data_awaiting_attach \<longrightarrow> fresh_att a)"

definition synced_past_pin :: "SocketAttachment \<Rightarrow> bool" where
  "synced_past_pin a \<longleftrightarrow> (sa_dataState a = Some data_synced \<longrightarrow> pinned a \<and>
     num (sa_replayCommitEventSeq a) \<le> num (sa_sentEventSeq a) \<and> num (sa_replayCommitPtyOffset a) \<le> num (sa_sentPtyOffset a))"

definition within_credit :: "SocketAttachment \<Rightarrow> bool" where
  "within_credit a \<longleftrightarrow> (sa_sentEventSeq a \<noteq> None \<longrightarrow> outstanding a \<le> MAX_DELIVERY_OUTSTANDING_BYTES)"

definition att_ok :: "int \<Rightarrow> int \<Rightarrow> SocketAttachment \<Rightarrow> bool" where
  "att_ok h p a \<longleftrightarrow> cursors_ok h p a \<and> waits_fresh a \<and> pin_ok h p a \<and> synced_past_pin a \<and> within_credit a"

text \<open>The frames of a delivery, from a cursor on: of the session's epoch, of the attachment's generation and stream, the mutations
  without a gap, every replay commit at the pin.\<close>

definition at_pin :: "SocketAttachment \<Rightarrow> data_frame \<Rightarrow> bool" where
  "at_pin a f \<longleftrightarrow> pinned a \<and> df_eventSeq f = num (sa_replayCommitEventSeq a) \<and> df_ptyOffset f = num (sa_replayCommitPtyOffset a)"

definition addressed :: "int option \<Rightarrow> SocketAttachment \<Rightarrow> data_frame \<Rightarrow> bool" where
  "addressed epoch a f \<longleftrightarrow> epoch = Some (df_sessionEpoch f) \<and> df_deliveryGeneration f = bigint_of (sa_deliveryGeneration a) \<and>
     df_streamId f = sa_streamId a"

fun relayed :: "int option \<Rightarrow> SocketAttachment \<Rightarrow> int \<times> int \<Rightarrow> data_frame list \<Rightarrow> (int \<times> int) option" where
  "relayed epoch a c [] = Some c"
| "relayed epoch a (e, p) (f # fs) =
     (if \<not> addressed epoch a f then None
      else if df_kind f = ReplayCommit then (if at_pin a f then relayed epoch a (e, p) fs else None)
      else if (df_kind f = PtyOutput \<or> df_kind f = ResizeApplied) \<and> df_eventSeq f = e + 1 \<and> df_ptyOffset f = p
      then relayed epoch a (df_eventSeq f, offset_after f) fs else None)"

lemma relayed_Nil [simp]: "relayed epoch a c [] = Some c"
  by (cases c) simp

definition seed_of :: "SocketAttachment \<Rightarrow> int \<times> int" where
  "seed_of a = (num (sa_firstEventSeq a), num (sa_firstPtyOffset a))"

definition sent_of :: "SocketAttachment \<Rightarrow> int \<times> int" where
  "sent_of a = (num (sa_sentEventSeq a), num (sa_sentPtyOffset a))"

text \<open>
  The log of a socket: nothing before the pin, then a run from the seed that ends at the recorded cursor. A batch that fails half-way
  leaves the run ahead of the recorded cursor, by frames after the pin; \<open>h\<close> bounds where the run ends.
\<close>

definition carries :: "bytes list \<Rightarrow> data_frame list \<Rightarrow> bool" where
  "carries msgs fs \<longleftrightarrow> (\<exists>fss. list_all2 (\<lambda>bs fs. decodeDataFrameBatch bs = Inr fs) msgs fss \<and> fs = concat fss)"

definition run_ends :: "SocketAttachment \<Rightarrow> int \<times> int \<Rightarrow> bool" where
  "run_ends a c \<longleftrightarrow> c = sent_of a \<or> num (sa_sentEventSeq a) < fst c \<and> num (sa_replayCommitEventSeq a) \<le> num (sa_sentEventSeq a)"

definition log_ok :: "int \<Rightarrow> relay_do \<Rightarrow> nat \<Rightarrow> SocketAttachment \<Rightarrow> bool" where
  "log_ok h s i a \<longleftrightarrow>
     (if pinned a
      then \<exists>fs c. carries (data_log s i) fs \<and> relayed (epoch_of s) a (seed_of a) fs = Some c \<and> fst c \<le> h \<and> run_ends a c
      else data_log s i = [])"

lemma log_okI:
  "pinned a \<Longrightarrow> carries (data_log s i) fs \<Longrightarrow> relayed (epoch_of s) a (seed_of a) fs = Some c \<Longrightarrow> fst c \<le> h \<Longrightarrow> run_ends a c \<Longrightarrow> log_ok h s i a"
  unfolding log_ok_def by (simp only: if_True) blast

lemma log_okE:
  assumes "log_ok h s i a" and "pinned a"
  obtains fs c where "carries (data_log s i) fs" "relayed (epoch_of s) a (seed_of a) fs = Some c" "fst c \<le> h" "run_ends a c"
  using assms by (auto simp: log_ok_def)

definition relay_inv :: "relay_do \<Rightarrow> bool" where
  "relay_inv s \<longleftrightarrow> numbered s \<and> (\<forall>i. \<not> known s i \<longrightarrow> data_log s i = []) \<and>
     (\<forall>i a. data_att s i = Some a \<longrightarrow> att_ok (head_of s) (pty_of s) a \<and> log_ok (head_of s) s i a)"

definition keeps_inv :: "relay_do \<Rightarrow> relay_do \<Rightarrow> bool" where
  "keeps_inv s s' \<longleftrightarrow> (relay_inv s \<longrightarrow> relay_inv s')"

interpretation keeps: op_preorder keeps_inv
  by unfold_locales (auto simp: keeps_inv_def)

section \<open>Quiet steps keep it\<close>

lemma cursors_ok_mono: "cursors_ok h p a \<Longrightarrow> h \<le> h' \<Longrightarrow> p \<le> p' \<Longrightarrow> cursors_ok h' p' a"
  by (auto simp: cursors_ok_def in_order_def)

lemma att_ok_mono: "att_ok h p a \<Longrightarrow> h \<le> h' \<Longrightarrow> p \<le> p' \<Longrightarrow> att_ok h' p' a"
  by (auto simp: att_ok_def pin_ok_def intro: cursors_ok_mono)

lemma att_ok_marked: "att_ok h p a \<Longrightarrow> att_ok h p (marked a)"
proof (cases "sa_dataState a = Some data_awaiting_attach")
  case True
  then have "marked a = a" by (simp add: marked_def)
  then show "att_ok h p a \<Longrightarrow> att_ok h p (marked a)" by simp
next
  case False
  let ?b = "a\<lparr>sa_dataState := Some data_catching_up\<rparr>"
  have m: "marked a = ?b" using False by (simp add: marked_def)
  have "pin_ok h p ?b = pin_ok h p a" "cursors_ok h p ?b = cursors_ok h p a" "within_credit ?b = within_credit a"
    by (simp_all add: pin_ok_def has_no_pin_def pinned_def cursors_ok_def within_credit_def outstanding_def)
  moreover have "waits_fresh ?b" "synced_past_pin ?b" by (simp_all add: waits_fresh_def synced_past_pin_def)
  ultimately show "att_ok h p a \<Longrightarrow> att_ok h p (marked a)" unfolding m att_ok_def by simp
qed

lemma relayed_cong:
  assumes "sa_deliveryGeneration b = sa_deliveryGeneration a" "sa_streamId b = sa_streamId a" "sa_replayMode b = sa_replayMode a"
    "sa_replayCommitEventSeq b = sa_replayCommitEventSeq a" "sa_replayCommitPtyOffset b = sa_replayCommitPtyOffset a"
  shows "relayed epoch b c fs = relayed epoch a c fs" and "pinned b = pinned a"
proof -
  show p: "pinned b = pinned a" using assms by (simp add: pinned_def)
  have "addressed epoch b = addressed epoch a" "at_pin b = at_pin a" by (simp_all add: fun_eq_iff addressed_def at_pin_def p assms)
  then show "relayed epoch b c fs = relayed epoch a c fs" by (induction fs arbitrary: c) auto
qed

lemma log_ok_same:
  assumes "log_ok h s i a" and "data_log s' i = data_log s i" and "epoch_of s' = epoch_of s" and "h \<le> h'"
    and "sa_deliveryGeneration b = sa_deliveryGeneration a" "sa_streamId b = sa_streamId a" "sa_replayMode b = sa_replayMode a"
    "sa_replayCommitEventSeq b = sa_replayCommitEventSeq a" "sa_replayCommitPtyOffset b = sa_replayCommitPtyOffset a"
    "sa_sentEventSeq b = sa_sentEventSeq a" "sa_sentPtyOffset b = sa_sentPtyOffset a"
    "sa_firstEventSeq b = sa_firstEventSeq a" "sa_firstPtyOffset b = sa_firstPtyOffset a"
  shows "log_ok h' s' i b"
proof -
  have "seed_of b = seed_of a" "\<And>c. run_ends b c = run_ends a c" using assms by (simp_all add: seed_of_def run_ends_def sent_of_def)
  note same = this relayed_cong [OF assms(5-9)] assms(2,3)
  show ?thesis
  proof (cases "pinned a")
    case True
    then obtain fs c where "carries (data_log s i) fs" "relayed (epoch_of s) a (seed_of a) fs = Some c" "fst c \<le> h" "run_ends a c"
      by (rule log_okE [OF assms(1)])
    with True same assms(4) show ?thesis by (intro log_okI [of b s' i fs c]) simp_all
  qed (use assms(1) same in \<open>simp add: log_ok_def\<close>)
qed

lemma log_ok_mono: "log_ok h s i a \<Longrightarrow> data_log s' i = data_log s i \<Longrightarrow> epoch_of s' = epoch_of s \<Longrightarrow> h \<le> h' \<Longrightarrow> log_ok h' s' i a"
  by (rule log_ok_same) simp_all

lemma fresh_ok: "fresh_att a \<Longrightarrow> att_ok h p a \<and> \<not> pinned a"
  by (auto simp: fresh_att_def att_ok_def cursors_ok_def waits_fresh_def synced_past_pin_def within_credit_def in_order_def pin_ok_def
      has_no_pin_def pinned_def)

lemma relay_invD: "relay_inv s \<Longrightarrow> data_att s i = Some a \<Longrightarrow> att_ok (head_of s) (pty_of s) a \<and> log_ok (head_of s) s i a"
  by (simp add: relay_inv_def)

lemma quiet_keeps: "quiet s s' \<Longrightarrow> keeps_inv s s'"
  unfolding keeps_inv_def
proof
  assume q: "quiet s s'" and inv: "relay_inv s"
  have log: "data_log s' i = data_log s i" and ep: "epoch_of s' = epoch_of s" and hp: "head_of s \<le> head_of s'" "pty_of s \<le> pty_of s'"
    and n: "known s i \<Longrightarrow> known s' i" and nu: "numbered s \<Longrightarrow> numbered s'"
    and step: "att_step (known s i) (data_att s i) (data_att s' i)" for i
    using q by (simp_all add: quiet_def)
  have "att_ok (head_of s') (pty_of s') b \<and> log_ok (head_of s') s' i b" if b: "data_att s' i = Some b" for i b
  proof (cases "data_att s i")
    case None
    with step [of i] b have "fresh_att b" "\<not> known s i" by (auto simp: att_step_def)
    moreover have "data_log s' i = []" using inv \<open>\<not> known s i\<close> by (simp add: log relay_inv_def)
    ultimately show ?thesis using fresh_ok by (simp add: log_ok_def)
  next
    case (Some a)
    with step [of i] b have d: "drifts a b" by (auto simp: att_step_def)
    from relay_invD [OF inv Some] have a: "att_ok (head_of s') (pty_of s') a" "log_ok (head_of s) s i a"
      using att_ok_mono hp by auto
    have "log_ok (head_of s') s' i b"
      by (rule log_ok_same [OF a(2) log ep hp(1)]) (use d in \<open>auto simp: drifts_def marked_def\<close>)
    moreover have "att_ok (head_of s') (pty_of s') b" using d a(1) att_ok_marked by (auto simp: drifts_def)
    ultimately show ?thesis by simp
  qed
  with inv n nu show "relay_inv s'" by (auto simp: relay_inv_def log)
qed

lemma keeps_ops: "obeys quiet m \<Longrightarrow> obeys keeps_inv m"
  by (simp add: obeys_def quiet_keeps)

section \<open>Writing over a data socket\<close>

lemma data_att_known: "data_att s i = Some a \<Longrightarrow> known s i \<and> SocketAttachmentSchema a"
  by (auto simp: data_att_def known_get dest: attachment_schema split: option.splits if_splits)

text \<open>What the write leaves: everything but the attachment of its socket.\<close>

definition data_written :: "nat \<Rightarrow> SocketAttachment \<Rightarrow> relay_do \<Rightarrow> relay_do \<Rightarrow> bool" where
  "data_written i a s s' \<longleftrightarrow> epoch_of s' = epoch_of s \<and> head_of s' = head_of s \<and> pty_of s' = pty_of s \<and>
     (\<forall>j. known s' j = known s j) \<and> (numbered s \<longrightarrow> numbered s') \<and> (\<forall>j. data_log s' j = data_log s j) \<and>
     (\<forall>j. data_att s' j = (if j = i then Some a else data_att s j))"

lemma write_data:
  assumes "data_att s i = Some d" and "sa_peer a = sa_peer d" and "sa_channel a = sa_channel d"
  obtains s' where "write_attachment i a s = (s', Inr ())" "data_written i a s s'" "SocketAttachmentSchema a"
  | "write_attachment i a s = (s, Inl AttachmentRejected)" "\<not> SocketAttachmentSchema a"
proof (cases "writeSocketAttachment i a (rd_sockets s)")
  case None
  then show ?thesis using that(2)
    by (auto simp: write_attachment_def writeSocketAttachment_def split: if_splits)
next
  case (Some ws)
  have "sa_peer a = browser" "sa_channel a = data" "jm_get (rd_sockets s) i \<noteq> None"
    using assms data_att_known [OF assms(1)] by (auto simp: data_att_def known_get split: option.splits if_splits)
  then have "data_written i a s (set_sockets ws s)"
    by (simp add: data_written_def data_att_def known_def numbered_def data_log_def write_attachments(1) [OF Some] write_ids [OF Some] del: set_map)
  moreover have "write_attachment i a s = (set_sockets ws s, Inr ())" by (simp add: write_attachment_def Some)
  ultimately show ?thesis using that(1) write_attachments(2) [OF Some] by blast
qed

lemma written_inv:
  assumes "data_written i a s s'" and "relay_inv s" and "att_ok (head_of s) (pty_of s) a" and "log_ok (head_of s) s i a"
  shows "relay_inv s'"
proof -
  have "att_ok (head_of s') (pty_of s') b \<and> log_ok (head_of s') s' j b" if "data_att s' j = Some b" for j b
  proof (cases "j = i")
    case True
    with assms(1,3,4) that show ?thesis by (auto simp: data_written_def intro: log_ok_mono)
  next
    case False
    with assms(1) that have "data_att s j = Some b" by (simp add: data_written_def)
    from relay_invD [OF assms(2) this] assms(1) show ?thesis by (auto simp: data_written_def intro: log_ok_mono)
  qed
  with assms(1,2) show ?thesis by (simp add: relay_inv_def data_written_def)
qed

lemma write_keeps:
  assumes "data_att s i = Some d" and "sa_peer a = sa_peer d" and "sa_channel a = sa_channel d"
    and "relay_inv s \<Longrightarrow> att_ok (head_of s) (pty_of s) a \<and> log_ok (head_of s) s i a"
  shows "keeps_inv s (fst (write_attachment i a s))"
  by (cases rule: write_data [OF assms(1-3)]) (use assms(4) written_inv in \<open>auto simp: keeps_inv_def\<close>)

lemma log_ok_unpinned: "log_ok h s i d \<Longrightarrow> \<not> pinned d \<Longrightarrow> \<not> pinned a \<Longrightarrow> log_ok h' s i a"
  by (simp add: log_ok_def)

text \<open>A write over something that is no browser's data socket is not seen.\<close>

lemma keeps_write_other:
  assumes "attachment_of (rd_sockets s) i = Some d" and "data_att s i = None" and "sa_peer a = sa_peer d" and "sa_channel a = sa_channel d"
  shows "keeps_inv s (fst (write_attachment i a s))"
proof (cases rule: write_run [of i a s])
  case (1 ws)
  have "quiet s (set_sockets ws s)"
    by (rule quiet_same)
      (use assms in \<open>auto simp: data_att_def write_attachments(1) [OF 1(1)] write_ids [OF 1(1)] split: if_splits\<close>)
  with 1(2) show ?thesis by (simp add: quiet_keeps)
qed (simp add: keeps_inv_def)

section \<open>Acknowledgements\<close>

lemma acked_ok:
  assumes ok: "att_ok h p d" and some: "sa_sentEventSeq d \<noteq> None" "sa_sentPtyOffset d \<noteq> None" and le: "\<not> acknowledgement_exceeds f d"
  shows "att_ok h p (d\<lparr>sa_ackedEventSeq := Some (ak_eventSeq f), sa_ackedPtyOffset := Some (ak_nextPtyOffset f)\<rparr>)"
proof -
  let ?d = "d\<lparr>sa_ackedEventSeq := Some (ak_eventSeq f), sa_ackedPtyOffset := Some (ak_nextPtyOffset f)\<rparr>"
  have c: "cursors_ok h p d" using ok by (simp add: att_ok_def)
  with some obtain a1 a2 where a: "sa_ackedEventSeq d = Some a1" "sa_ackedPtyOffset d = Some a2"
    by (auto simp: cursors_ok_def in_order_def)
  have l: "num (sa_ackedEventSeq d) \<le> bigint_of (ak_eventSeq f)" "bigint_of (ak_eventSeq f) \<le> num (sa_sentEventSeq d)"
      "num (sa_ackedPtyOffset d) \<le> bigint_of (ak_nextPtyOffset f)" "bigint_of (ak_nextPtyOffset f) \<le> num (sa_sentPtyOffset d)"
    using le a by (auto simp: acknowledgement_exceeds_def)
  have "cursors_ok h p ?d" using c l a some by (auto simp: cursors_ok_def in_order_def)
  moreover have "outstanding ?d \<le> outstanding d" using l by (simp add: outstanding_def DELIVERY_EVENT_OVERHEAD_BYTES_def)
  then have "within_credit ?d" using ok some by (simp add: att_ok_def within_credit_def)
  moreover have "waits_fresh ?d" using ok some by (auto simp: att_ok_def waits_fresh_def fresh_att_def)
  moreover have "pin_ok h p ?d" "synced_past_pin ?d"
    using ok by (simp_all add: att_ok_def pin_ok_def has_no_pin_def pinned_def synced_past_pin_def)
  ultimately show ?thesis by (simp add: att_ok_def)
qed

lemma acked_log: "log_ok h s i d \<Longrightarrow> log_ok h s i (d\<lparr>sa_ackedEventSeq := x, sa_ackedPtyOffset := y\<rparr>)"
  by (rule log_ok_same [OF _ refl refl order_refl]) simp_all

lemma ack_write:
  assumes "attachment_of (rd_sockets s) i = Some d" and "sa_sentEventSeq d \<noteq> None" "sa_sentPtyOffset d \<noteq> None"
    and "\<not> acknowledgement_exceeds f d"
  shows "keeps_inv s (fst (write_attachment i (d\<lparr>sa_ackedEventSeq := Some (ak_eventSeq f), sa_ackedPtyOffset := Some (ak_nextPtyOffset f)\<rparr>) s))"
proof (cases "data_att s i")
  case None
  show ?thesis by (rule keeps_write_other [OF assms(1) None]) simp_all
next
  case (Some d')
  with assms(1) have d: "data_att s i = Some d" by (simp add: data_att_def split: if_splits)
  show ?thesis by (rule write_keeps [OF d]) (use relay_invD d acked_ok acked_log assms(2-4) in auto)
qed

lemma keeps_acknowledge: "obeys keeps_inv (acknowledgeDelivery env i a f)"
  unfolding obeys_def
proof
  fix s
  have close: "keeps_inv s (fst (close_protocol i s))" by (rule obeysD, rule keeps_ops, rule quiet_ops)
  have resync: "keeps_inv s (fst (bindS (sendBrowserControl env i g) (\<lambda>_. returnS ()) s))" for g
    by (rule obeysD, rule keeps_ops, intro quiet_rules quiet_ops)
  show "keeps_inv s (fst (acknowledgeDelivery env i a f s))"
    unfolding acknowledgeDelivery_def readS_def
    by (auto simp: keeps.rel_refl close resync intro: ack_write split: option.split)
qed

section \<open>Attaching\<close>

lemma resolveD:
  assumes "resolveAttachContext i a f s = Inr ctx"
  shows "attachment_of (rd_sockets s) (ac_dataSocket ctx) = Some (ac_dataAttachment ctx)"
    and "sa_dataState (ac_dataAttachment ctx) = Some data_awaiting_attach" and "sa_channel (ac_dataAttachment ctx) = data"
    and "attachment_of (rd_sockets s) i = Some (ac_controlAttachment ctx)" and "sa_channel (ac_controlAttachment ctx) = control"
    and "case af_live f of None \<Rightarrow> True
      | Some l \<Rightarrow> bigint_of (lr_lastEventSeq l) \<le> head_of s \<and> bigint_of (lr_nextPtyOffset l) \<le> pty_of s"
proof -
  from assms obtain session client k di d where r: "rd_session s = Some session" and k: "attach_control i a client s = Some k"
    and d: "attach_data a client s = Some (di, d)" and st: "sa_dataState d = Some data_awaiting_attach"
    and l: "\<not> (case af_live f of None \<Rightarrow> False | Some l \<Rightarrow> live_cursor_ahead l session)"
    and ctx: "ac_dataSocket ctx = di" "ac_dataAttachment ctx = d" "ac_controlAttachment ctx = k"
    by (auto simp: resolveAttachContext_def split: option.splits if_splits)
  from d show "attachment_of (rd_sockets s) (ac_dataSocket ctx) = Some (ac_dataAttachment ctx)"
    and "sa_channel (ac_dataAttachment ctx) = data"
    by (auto simp: attach_data_def ctx browserDataByClient_def split: option.splits if_splits dest!: first_of_Some find_socket_mem)
  from k show "attachment_of (rd_sockets s) i = Some (ac_controlAttachment ctx)" and "sa_channel (ac_controlAttachment ctx) = control"
    by (auto simp: attach_control_def ctx split: option.splits if_splits dest: active_control_attachment)
  show "case af_live f of None \<Rightarrow> True
      | Some l \<Rightarrow> bigint_of (lr_lastEventSeq l) \<le> head_of s \<and> bigint_of (lr_nextPtyOffset l) \<le> pty_of s"
    using l r by (auto simp: live_cursor_ahead_def head_of_def pty_of_def split: option.splits)
  show "sa_dataState (ac_dataAttachment ctx) = Some data_awaiting_attach" by (simp add: ctx st)
qed

lemma attached_ok:
  assumes "case af_live f of None \<Rightarrow> True | Some l \<Rightarrow> bigint_of (lr_lastEventSeq l) \<le> h \<and> bigint_of (lr_nextPtyOffset l) \<le> p"
  shows "att_ok h p (attached_data ctx f)" and "\<not> pinned (attached_data ctx f)"
proof -
  have "outstanding (attached_data ctx f) = 0" by (simp add: outstanding_def attached_data_def Let_def)
  then show "att_ok h p (attached_data ctx f)"
    using assms by (auto simp: att_ok_def cursors_ok_def in_order_def waits_fresh_def pin_ok_def has_no_pin_def synced_past_pin_def
        within_credit_def attached_data_def Let_def MAX_DELIVERY_OUTSTANDING_BYTES_def split: option.splits)
  show "\<not> pinned (attached_data ctx f)" by (simp add: pinned_def attached_data_def Let_def)
qed

lemma awaiting_unpinned: "att_ok h p d \<Longrightarrow> sa_dataState d = Some data_awaiting_attach \<Longrightarrow> \<not> pinned d"
  by (simp add: att_ok_def waits_fresh_def fresh_att_def pinned_def)

lemma attached_same [simp]:
  "sa_peer (attached_data ctx f) = sa_peer (ac_dataAttachment ctx)" "sa_channel (attached_data ctx f) = sa_channel (ac_dataAttachment ctx)"
  by (simp_all add: attached_data_def Let_def)

lemma keeps_attach_write:
  assumes d: "attachment_of (rd_sockets s) (ac_dataSocket ctx) = Some (ac_dataAttachment ctx)"
    and st: "sa_dataState (ac_dataAttachment ctx) = Some data_awaiting_attach"
    and l: "case af_live f of None \<Rightarrow> True | Some l \<Rightarrow> bigint_of (lr_lastEventSeq l) \<le> head_of s \<and> bigint_of (lr_nextPtyOffset l) \<le> pty_of s"
  shows "keeps_inv s (fst (write_attachment (ac_dataSocket ctx) (attached_data ctx f) s))"
proof (cases "data_att s (ac_dataSocket ctx)")
  case None
  show ?thesis by (rule keeps_write_other [OF d None]) simp_all
next
  case (Some d')
  with d have e: "data_att s (ac_dataSocket ctx) = Some (ac_dataAttachment ctx)" by (simp add: data_att_def split: if_splits)
  show ?thesis
    by (rule write_keeps [OF e]) (use relay_invD [OF _ e] awaiting_unpinned st attached_ok [OF l] log_ok_unpinned in auto)
qed

lemma keeps_bind_at:
  "keeps_inv s (fst (m s)) \<Longrightarrow> (\<And>s1 x. m s = (s1, Inr x) \<Longrightarrow> keeps_inv s1 (fst (k x s1))) \<Longrightarrow> keeps_inv s (fst (bindS m k s))"
  by (cases "m s"; cases "snd (m s)") (auto simp: bindS_def keeps_inv_def)

lemma keeps_attach_commit:
  assumes "resolveAttachContext i a f s = Inr ctx"
  shows "keeps_inv s (fst (attach_commit env i f initial lease ctx s))"
proof -
  note ctx = resolveD [OF assms]
  let ?k = "active_attachment ctx lease"
  let ?w = "if initial then write_attachment i ?k else returnS ()"
  have k: "sa_channel ?k = control" using ctx(5) by (simp add: active_attachment_def Let_def)
  have 1: "keeps_inv s (fst (?w s))"
    using quiet_write_control [OF ctx(4,5) k] by (simp add: quiet_keeps keeps.rel_refl)
  have 2: "keeps_inv s1 (fst (write_attachment (ac_dataSocket ctx) (attached_data ctx f) s1))" if "?w s = (s1, Inr x)" for s1 x
  proof -
    have "ac_dataSocket ctx \<noteq> i" using ctx(1,3,4,5) by auto
    with that ctx(1) have "attachment_of (rd_sockets s1) (ac_dataSocket ctx) = Some (ac_dataAttachment ctx)"
        "head_of s1 = head_of s" "pty_of s1 = pty_of s"
      by (auto simp: write_attachment_def write_attachments(1) split: if_splits option.splits)
    with ctx(2,6) show ?thesis by (intro keeps_attach_write) (simp_all split: option.splits)
  qed
  have 3: "obeys keeps_inv (bindS (if initial then sendBrowserControl env i (welcome_frame ctx lease) else returnS True) (\<lambda>ok.
        if \<not> ok then returnS ()
        else readS (\<lambda>s. case currentHostControl (rd_sockets s) (host_fence_of s) None of
            None \<Rightarrow> bindS (sendBrowserControl env i HostOffline) (\<lambda>_. returnS ())
          | Some h \<Rightarrow> bindS (sendHostControl env h (HostAttachRequest (sa_connectionId (ac_controlAttachment ctx))
                (cl_stream_id (ac_client ctx)) (f\<lparr>af_deliveryGeneration := cl_delivery_generation (ac_client ctx)\<rparr>))) (\<lambda>_. returnS ()))))"
    by (rule keeps_ops, intro quiet_rules quiet_ops)
  show ?thesis
  proof (cases "SocketAttachmentSchema ?k")
    case True
    then show ?thesis unfolding attach_commit_def Let_def
      by (simp only: if_False not_True_eq_False) (rule keeps_bind_at, rule 1, rule keeps_bind_at, erule 2, rule obeysD, rule 3)
  qed (simp add: attach_commit_def Let_def keeps.rel_refl)
qed

lemma keeps_attach_finish: "obeys keeps_inv (attach_finish env i a f initial lease)"
  unfolding obeys_def attach_finish_def readS_def
proof
  fix s
  have "keeps_inv s (s\<lparr>rd_world := release c x y (rd_world s)\<rparr>)" for c x y by (rule quiet_keeps, rule quiet_release)
  then show "keeps_inv s (fst ((case resolveAttachContext i a f s of
       Inl _ \<Rightarrow> (case lease of None \<Rightarrow> returnS ()
         | Some l \<Rightarrow> modifyS (\<lambda>s. s\<lparr>rd_world := release (the (sa_clientId a)) (Some (al_fence l)) (sa_connectionId a) (rd_world s)\<rparr>))
     | Inr ctx \<Rightarrow> attach_commit env i f initial lease ctx) s))"
    by (auto simp: keeps.rel_refl keeps_attach_commit split: sum.split option.split)
qed

lemma keeps_attach: "obeys keeps_inv (attach_direct env i a f now)"
    and keeps_attach_acquired: "obeys keeps_inv (attach_acquired env i a f proceeds token digest n1 n2)"
  unfolding attach_direct_def attach_acquired_def
  by (intro keeps.obeys_rules keeps_attach_finish keeps_ops [OF quiet_attach_begin] keeps_ops [OF quiet_acquire])+

section \<open>Pinning a replay\<close>

lemma unadvanced: "hasUnadvancedDeliveryCursor d \<Longrightarrow> cursors_ok h p d \<Longrightarrow> sa_sentEventSeq d = sa_firstEventSeq d \<and>
    sa_sentPtyOffset d = sa_firstPtyOffset d \<and> sa_ackedEventSeq d = sa_firstEventSeq d \<and> sa_ackedPtyOffset d = sa_firstPtyOffset d"
  by (auto simp: hasUnadvancedDeliveryCursor_def cursor_unchanged_def)

text \<open>A pin at the head over cursors that all stand at the seed, with nothing sent before.\<close>

lemma pin_inv:
  assumes state: "sa_dataState a = Some data_catching_up" and p: "pinned a"
    and seed: "sa_firstEventSeq a = Some e" "sa_ackedEventSeq a = Some e" "sa_sentEventSeq a = Some e"
      "sa_firstPtyOffset a = Some q" "sa_ackedPtyOffset a = Some q" "sa_sentPtyOffset a = Some q"
    and le: "bigint_of e \<le> h" "bigint_of q \<le> r" "num (sa_replayCommitEventSeq a) \<le> h" "num (sa_replayCommitPtyOffset a) \<le> r"
    and log: "data_log s i = []"
  shows "att_ok h r a \<and> log_ok h s i a"
proof
  have "outstanding a = 0" by (simp add: outstanding_def seed)
  then show "att_ok h r a"
    using state p seed le
    by (simp add: att_ok_def cursors_ok_def in_order_def waits_fresh_def pin_ok_def synced_past_pin_def within_credit_def
        MAX_DELIVERY_OUTSTANDING_BYTES_def)
  have "carries (data_log s i) []" by (simp add: carries_def log)
  moreover have "run_ends a (seed_of a)" "fst (seed_of a) \<le> h" by (simp_all add: run_ends_def seed_of_def sent_of_def seed le)
  ultimately show "log_ok h s i a" by (intro log_okI [OF p _ relayed_Nil])
qed

lemma no_pin_log: "log_ok h s i d \<Longrightarrow> has_no_pin d \<Longrightarrow> data_log s i = []"
  by (simp add: log_ok_def has_no_pin_def pinned_def)

lemma barrier_pin_ok:
  assumes plan: "barrier_plan env session client frame payload d = PlanStarts d' bf" and no: "has_no_pin d"
    and le: "df_eventSeq frame = h" "df_ptyOffset frame = r" "0 \<le> h" "0 \<le> r"
    and ok: "att_ok h r d" and log: "log_ok h s i d"
  shows "att_ok h r d' \<and> log_ok h s i d'"
proof -
  from plan have cu: "sa_dataState d = Some data_catching_up" and un: "hasUnadvancedDeliveryCursor d"
    by (auto simp: barrier_plan_def split: if_splits)
  have l: "data_log s i = []" by (rule no_pin_log [OF log no])
  have c: "cursors_ok h r d" using ok by (simp add: att_ok_def)
  note same = unadvanced [OF un c]
  show ?thesis
  proof (cases "bp_mode payload")
    case warm_mode
    with plan obtain e q where eq: "sa_firstEventSeq d = Some e" "sa_firstPtyOffset d = Some q" and d': "d' = warm_pin frame d"
      by (auto simp: barrier_plan_def split: if_splits option.splits)
    have "bigint_of e \<le> h" "bigint_of q \<le> r" using c same eq by (auto simp: cursors_ok_def in_order_def)
    then show ?thesis
      by (intro pin_inv [where e = e and q = q, OF _ _ _ _ _ _ _ _ _ _ _ _ l])
        (use cu same eq le in \<open>simp_all add: d' warm_pin_def pinned_def bigint_of_toString\<close>)
  next
    case (snapshot_mode k)
    with plan obtain m where m: "\<not> snapshot_mismatch session frame m" and d': "d' = snapshot_pin m k frame d"
      by (auto simp: barrier_plan_def split: if_splits option.splits)
    from m have "bigint_of (sm_cutEventSeq m) \<le> h" "bigint_of (sm_nextPtyOffset m) \<le> r"
      using le by (auto simp: snapshot_mismatch_def)
    then show ?thesis
      by (intro pin_inv [where e = "sm_cutEventSeq m" and q = "sm_nextPtyOffset m", OF _ _ _ _ _ _ _ _ _ _ _ _ l])
        (use cu le in \<open>simp_all add: d' snapshot_pin_def pinned_def bigint_of_toString\<close>)
  qed
qed

lemma plan_same: "barrier_plan env session client frame payload d = PlanStarts d' bf \<Longrightarrow> sa_peer d' = sa_peer d \<and> sa_channel d' = sa_channel d"
  by (auto simp: barrier_plan_def warm_pin_def snapshot_pin_def split: if_splits option.splits BarrierMode.splits)

lemma keeps_barrier_write:
  assumes plan: "barrier_plan env session client frame payload d = PlanStarts d' bf" and no: "has_no_pin d"
    and le: "df_eventSeq frame = head_of s" "df_ptyOffset frame = pty_of s"
    and d: "attachment_of (rd_sockets s) i = Some d"
  shows "keeps_inv s (fst (write_attachment i d' s))"
proof -
  have nn: "0 \<le> head_of s" "0 \<le> pty_of s" by (simp_all add: head_of_def pty_of_def bigint_of_nonneg split: option.split)
  show ?thesis
  proof (cases "data_att s i")
    case None
    show ?thesis by (rule keeps_write_other [OF d None]) (simp_all add: plan_same [OF plan])
  next
    case (Some x)
    with d have e: "data_att s i = Some d" by (simp add: data_att_def split: if_splits)
    show ?thesis
    proof (rule write_keeps [OF e])
      assume "relay_inv s"
      from relay_invD [OF this e] show "att_ok (head_of s) (pty_of s) d' \<and> log_ok (head_of s) s i d'"
        by (intro barrier_pin_ok [OF plan no le nn]) simp_all
    qed (simp_all add: plan_same [OF plan])
  qed
qed

lemma barrier_browserD: "barrier_browser payload client s = Some (ci, di, d) \<Longrightarrow> attachment_of (rd_sockets s) di = Some d"
  by (auto simp: barrier_browser_def split: option.splits if_splits)

lemma keeps_barrier_start:
  assumes "barrier_plan env session client frame payload d = PlanStarts d' bf"
    and "df_eventSeq frame = head_of s" "df_ptyOffset frame = pty_of s" and "attachment_of (rd_sockets s) di = Some d"
  shows "keeps_inv s (fst (barrier_start env h frame payload ci di d d' bf s))"
proof -
  have w: "keeps_inv s (fst (write_attachment di d' s))" if "has_no_pin d" by (rule keeps_barrier_write [OF assms(1) that assms(2-4)])
  have m: "obeys keeps_inv (if sa_snapshotId d' \<noteq> None then modifyS (relay_effect SnapshotMaintenance) else returnS ())"
    by (rule keeps_ops, intro quiet_rules quiet_ops)
  have r: "obeys keeps_inv (bindS (sendBrowserControl env ci bf) (\<lambda>ok.
       if ok then sendResult env h frame payload barrier_ready None
       else reject_barrier env h frame payload browser_control_send_failed))"
    by (rule keeps_ops, intro quiet_rules quiet_ops)
  have "keeps_inv s (fst ((if has_no_pin d
        then bindS (write_attachment di d') (\<lambda>_. if sa_snapshotId d' \<noteq> None then modifyS (relay_effect SnapshotMaintenance) else returnS ())
        else returnS ()) s))"
  proof (cases "has_no_pin d")
    case True
    then show ?thesis by (simp only: if_True) (rule keeps_bind_at, rule w, assumption, rule obeysD, rule m)
  qed (simp add: keeps.rel_refl)
  then show ?thesis
    unfolding barrier_start_def by (rule keeps_bind_at) (rule obeysD, rule r)
qed

lemma keeps_barrier:
  assumes "rd_session s = Some session"
  shows "keeps_inv s (fst (handle_barrier env i a session frame s))"
proof -
  have f: "keeps_inv s (fst (failCurrentHost env a s))" by (rule obeysD, rule keeps_ops, rule quiet_ops)
  have r: "keeps_inv s (fst (reject_barrier env h frame payload d s))" for h payload d by (rule obeysD, rule keeps_ops, rule quiet_ops)
  have h: "head_of s = bigint_of (se_head_event_seq session)" "pty_of s = bigint_of (se_next_pty_offset session)"
    using assms by (simp_all add: head_of_def pty_of_def)
  show ?thesis
    unfolding handle_barrier_def readS_def
    by (auto simp: f r h intro: keeps_barrier_start dest: barrier_browserD split: option.split BarrierPlan.split prod.split)
qed

section \<open>The session is created\<close>

lemma keeps_initialize: "keeps_inv s (fst (initialize_session i e g s))"
proof (cases "rd_session s")
  case (Some r)
  then show ?thesis by (auto simp: initialize_session_def initializeSession_def keeps.rel_refl)
next
  case None
  let ?s = "s\<lparr>rd_session := Some (new_session i e g)\<rparr>"
  have "bigint_of ''0'' = 0" by code_simp
  then have h: "head_of ?s = head_of s" "pty_of ?s = pty_of s" and ep: "epoch_of s = None"
    by (simp_all add: head_of_def pty_of_def epoch_of_def new_session_def None)
  have run: "relayed (epoch_of ?s) a c fs = Some d" if "relayed (epoch_of s) a c fs = Some d" for a c fs d
    using that by (cases fs; cases c) (auto simp: ep addressed_def split: if_splits)
  have "log_ok h ?s j a" if "log_ok h s j a" for h j a
  proof (cases "pinned a")
    case True
    have d: "data_log ?s j = data_log s j" by (simp add: data_log_def)
    from that True obtain fs c where "carries (data_log s j) fs" "relayed (epoch_of s) a (seed_of a) fs = Some c" "fst c \<le> h" "run_ends a c"
      by (rule log_okE)
    with True run d show ?thesis by (intro log_okI [of a ?s j fs c]) simp_all
  qed (use that in \<open>simp add: log_ok_def data_log_def\<close>)
  then have "keeps_inv s ?s" by (auto simp: keeps_inv_def relay_inv_def h data_log_def data_att_def known_def numbered_def)
  then show ?thesis by (auto simp: initialize_session_def initializeSession_def None keeps.rel_refl)
qed

end
