(* ===== verification/Relay_Deliveries.thy ===== *)
theory Relay_Deliveries
  imports Relay_Cursors
begin

text \<open>
  Delivering keeps the invariant of \<open>Relay_Cursors\<close>: one frame to one browser, a canonical frame to all synced browsers, and a batch
  with its in-place rewrite. With that every event of the relay's Durable Object keeps it, and what a browser is sent is an unbroken
  run of its own delivery over any history.
\<close>

section \<open>Frames in messages\<close>

lemma batch_of_entries:
  assumes "list_all entry_ok es" and "es \<noteq> []" and "length es \<le> MAX_DATA_BATCH_FRAMES" and "int (length (concat (map fst es))) \<le> MAX_DATA_BATCH_BYTES"
  shows "decodeDataFrameBatch (concat (map fst es)) = Inr (map snd es)"
proof -
  from assms(1,2) obtain e es' where e: "es = e # es'" "entry_ok e" by (cases es) auto
  with entry_okD(2) [of e] have "concat (map fst es) \<noteq> []" by auto
  moreover have "decode_batch_loop (concat (map fst es)) 0 [] = Inr ([] @ es)"
    by (rule decode_batch_loop_complete) (use assms in auto)
  ultimately show ?thesis using assms(4) by (simp add: decodeDataFrameBatch_def decodeDataFrameBatchEntries_def)
qed

lemma frame_length: "decodeDataFrame b = Inr f \<Longrightarrow> length b = 48 + length (df_payload f)"
  by (simp add: decodeDataFrame_Inr_iff)

definition small :: "data_frame \<Rightarrow> bool" where
  "small f \<longleftrightarrow> 48 + payload_length f \<le> MAX_DATA_BATCH_BYTES"

lemma single_batch: "decodeDataFrame b = Inr f \<Longrightarrow> small f \<Longrightarrow> decodeDataFrameBatch b = Inr [f]"
  using batch_of_entries [of "[(b, f)]"] frame_length [of b f]
  by (simp add: entry_ok_def MAX_DATA_BATCH_FRAMES_def small_def payload_length_def)

lemma directed_directed [simp]: "directed g sid (directed g' sid' f) = directed g sid f"
  by (simp add: directed_def)

text \<open>Overwriting in place gives the bytes that \<open>rewriteDelivery\<close> gives.\<close>

lemma rewritten:
  assumes "decodeDataFrame b = Inr f" and "is_u64 g" and "is_u32 sid"
  shows "rewriteDelivery b g sid = Inr (rewriteDecodedDeliveryInPlace g sid b)"
    and "decodeDataFrame (rewriteDecodedDeliveryInPlace g sid b) = Inr (directed g sid f)"
proof -
  show r: "rewriteDelivery b g sid = Inr (rewriteDecodedDeliveryInPlace g sid b)"
    using assms by (simp add: rewriteDelivery_def rewriteDecodedDeliveryInPlace_def)
  have "rewriteDecodedDeliveryInPlace g sid b = frame_layout (directed g sid f)"
    using rewrite_layout [OF assms(2,3,1)] r by (simp add: directed_def)
  moreover have "frame_ok (directed g sid f)"
    using assms by (simp add: decodeDataFrame_Inr_iff frame_ok_def directed_def payload_length_def)
  ultimately show "decodeDataFrame (rewriteDecodedDeliveryInPlace g sid b) = Inr (directed g sid f)"
    by (simp add: decodeDataFrame_Inr_iff)
qed

text \<open>The views of the inbound buffer: whatever their address fields now say, they hold the batch's frames.\<close>

definition buffers :: "data_frame list \<Rightarrow> bytes list \<Rightarrow> bool" where
  "buffers fs bufs \<longleftrightarrow> list_all2 (\<lambda>f b. \<exists>g sid. decodeDataFrame b = Inr (directed g sid f)) fs bufs"

lemma buffers_rewritten:
  assumes "buffers fs bufs" and "is_u64 g" and "is_u32 sid"
  shows "buffers fs (map (rewriteDecodedDeliveryInPlace g sid) bufs)"
    and "list_all entry_ok (zip (map (rewriteDecodedDeliveryInPlace g sid) bufs) (map (directed g sid) fs))"
proof -
  have one: "decodeDataFrame (rewriteDecodedDeliveryInPlace g sid b) = Inr (directed g sid f)"
    if "\<exists>g sid. decodeDataFrame b = Inr (directed g sid f)" for b f
    using that rewritten(2) [OF _ assms(2,3), of b] by auto
  with assms(1) have l: "list_all2 (\<lambda>f b. decodeDataFrame (rewriteDecodedDeliveryInPlace g sid b) = Inr (directed g sid f)) fs bufs"
    unfolding buffers_def by (auto elim!: list_all2_mono)
  then show "buffers fs (map (rewriteDecodedDeliveryInPlace g sid) bufs)"
    unfolding buffers_def list_all2_map2 by (auto elim!: list_all2_mono)
  from l show "list_all entry_ok (zip (map (rewriteDecodedDeliveryInPlace g sid) bufs) (map (directed g sid) fs))"
    by (induction fs bufs rule: list_all2_induct) (simp_all add: entry_ok_def)
qed

lemma buffers_length: "buffers fs bufs \<Longrightarrow> length bufs = length fs"
  by (simp add: buffers_def list_all2_lengthD)

lemma buffers_size: "buffers fs bufs \<Longrightarrow> length (concat bufs) = (\<Sum>f\<leftarrow>fs. 48 + length (df_payload f))"
  unfolding buffers_def
proof (induction fs bufs rule: list_all2_induct)
  case (Cons f fs b bs)
  then obtain g sid where "decodeDataFrame b = Inr (directed g sid f)" by blast
  from frame_length [OF this] Cons.IH show ?case by simp
qed simp

lemma carries_append:
  assumes "carries m fs" and "carries m' gs"
  shows "carries (m @ m') (fs @ gs)"
proof -
  let ?R = "\<lambda>bs fs. decodeDataFrameBatch bs = Inr fs"
  from assms obtain fss gss where "list_all2 ?R m fss" "fs = concat fss" "list_all2 ?R m' gss" "gs = concat gss"
    by (auto simp: carries_def)
  then show ?thesis unfolding carries_def by (intro exI [of _ "fss @ gss"]) (simp add: list_all2_appendI)
qed

lemma carries_one: "decodeDataFrameBatch b = Inr fs \<Longrightarrow> carries [b] fs"
  unfolding carries_def by (rule exI [of _ "[fs]"]) simp

lemma carries_none: "carries [] []"
  by (simp add: carries_def)

section \<open>Sends\<close>

text \<open>Only the log of one socket grows.\<close>

definition sends :: "nat \<Rightarrow> bytes list \<Rightarrow> relay_do \<Rightarrow> relay_do \<Rightarrow> bool" where
  "sends i msgs s s' \<longleftrightarrow> rd_session s' = rd_session s \<and> rd_clients s' = rd_clients s \<and> rd_world s' = rd_world s \<and>
     rd_next_socket s' = rd_next_socket s \<and> (\<forall>j. data_log s' j = data_log s j @ (if j = i then msgs else []))"

lemma sends_refl: "sends i [] s s"
  by (simp add: sends_def)

lemma sends_trans: "sends i m s t \<Longrightarrow> sends i m' t u \<Longrightarrow> sends i (m @ m') s u"
  by (auto simp: sends_def)

lemma sendsD:
  assumes "sends i msgs s s'"
  shows "head_of s' = head_of s" "pty_of s' = pty_of s" "epoch_of s' = epoch_of s" "known s' = known s" "numbered s' = numbered s"
    "data_att s' = data_att s" "rd_sockets s' = rd_sockets s"
    "data_log s' j = data_log s j @ (if j = i then msgs else [])"
  using assms by (auto simp: sends_def head_of_def pty_of_def epoch_of_def known_def numbered_def data_att_def fun_eq_iff)

lemma try_send_sends:
  obtains s' ok where "try_send env (SentData i bs) s = (s', Inr ok)" "sends i (if ok then [bs] else []) s s'"
proof -
  let ?s = "s\<lparr>rd_sends := rd_sends s + 1\<rparr>"
  have "sends i [] s ?s" "sends i [bs] s (relay_effect (SentData i bs) ?s)"
    by (auto simp: sends_def data_log_def relay_effect_def map_filter_def)
  then show ?thesis using that by (cases "rv_throws env (rd_sends s)") (auto simp: try_send_def Let_def)
qed

lemma send_each_sends:
  assumes "buffers fs bufs" and "is_u64 g" and "is_u32 sid" and "list_all small fs"
  shows "\<exists>s' bufs' ok k msgs. send_each env inPlace g sid i bufs s = (s', Inr (bufs', ok)) \<and> buffers fs bufs' \<and> sends i msgs s s' \<and>
    carries msgs (map (directed g sid) (take k fs)) \<and> k \<le> length fs \<and> (ok \<longrightarrow> k = length fs)"
  using assms(1,4) unfolding buffers_def
proof (induction fs bufs arbitrary: s rule: list_all2_induct)
  case Nil
  then show ?case using sends_refl carries_none by auto
next
  case (Cons f fs b bs)
  from Cons.hyps obtain g' sid' where b: "decodeDataFrame b = Inr (directed g' sid' f)" by blast
  let ?out = "rewriteDecodedDeliveryInPlace g sid b"
  note r = rewritten [OF b assms(2,3), simplified]
  have out: "(if inPlace then Inr ?out else rewriteDelivery b g sid) = Inr ?out" by (simp add: r)
  let ?b = "if inPlace then ?out else b"
  have hb: "\<exists>g sid. decodeDataFrame ?b = Inr (directed g sid f)" using b r(2) by auto
  have one: "decodeDataFrameBatch ?out = Inr [directed g sid f]"
    using Cons.prems by (intro single_batch [OF r(2)]) (simp add: small_def)
  obtain s1 ok where t: "try_send env (SentData i ?out) s = (s1, Inr ok)" and s1: "sends i (if ok then [?out] else []) s s1"
    by (rule try_send_sends)
  show ?case
  proof (cases ok)
    case False
    have "send_each env inPlace g sid i (b # bs) s = (s1, Inr (?b # bs, False))"
      by (simp add: out t False bindS_def del: if_distrib)
    moreover have "list_all2 (\<lambda>f b. \<exists>g sid. decodeDataFrame b = Inr (directed g sid f)) (f # fs) (?b # bs)"
      using hb Cons.hyps by simp
    ultimately show ?thesis
      using s1 False carries_none by (intro exI [of _ s1] exI [of _ "?b # bs"] exI [of _ False] exI [of _ 0] exI [of _ "[]"]) simp
  next
    case True
    have "list_all small fs" using Cons.prems by simp
    from Cons.IH [OF this, of s1] obtain s2 bufs' ok' k msgs where
      e: "send_each env inPlace g sid i bs s1 = (s2, Inr (bufs', ok'))"
      and bufs': "list_all2 (\<lambda>f b. \<exists>g sid. decodeDataFrame b = Inr (directed g sid f)) fs bufs'"
      and m: "sends i msgs s1 s2" "carries msgs (map (directed g sid) (take k fs))" "k \<le> length fs" "ok' \<longrightarrow> k = length fs" by (elim exE conjE)
    have "send_each env inPlace g sid i (b # bs) s = (s2, Inr (?b # bufs', ok'))"
      by (simp add: out t True e bindS_def)
    moreover have "list_all2 (\<lambda>f b. \<exists>g sid. decodeDataFrame b = Inr (directed g sid f)) (f # fs) (?b # bufs')"
      using hb bufs' by simp
    moreover have "sends i ([?out] @ msgs) s s2" using s1 True m(1) by (intro sends_trans) simp_all
    moreover have "carries ([?out] @ msgs) ([directed g sid f] @ map (directed g sid) (take k fs))"
      by (rule carries_append [OF carries_one [OF one] m(2)])
    ultimately show ?thesis using m(3,4)
      by (intro exI [of _ s2] exI [of _ "?b # bufs'"] exI [of _ ok'] exI [of _ "Suc k"] exI [of _ "[?out] @ msgs"]) simp
  qed
qed

text \<open>A batch that fits in one message.\<close>

definition fits :: "data_frame list \<Rightarrow> bool" where
  "fits fs \<longleftrightarrow> fs \<noteq> [] \<and> length fs \<le> MAX_DATA_BATCH_FRAMES \<and> int (\<Sum>f\<leftarrow>fs. 48 + length (df_payload f)) \<le> MAX_DATA_BATCH_BYTES"

lemma fits_small: "fits fs \<Longrightarrow> list_all small fs"
  using member_le_sum_list [of "48 + length (df_payload f)" "map (\<lambda>f. 48 + length (df_payload f)) fs" for f]
  by (force simp: fits_def small_def payload_length_def list_all_iff)

lemma send_batch_sends:
  assumes b: "buffers fs bufs" and fits: "fits fs" and g: "g = bigint_of (cl_delivery_generation client)" "is_u64 g"
    and sid: "sid = cl_stream_id client" "is_u32 sid"
  shows "\<exists>s' bufs' ok k msgs. send_batch env inPlace client a i bufs s = (s', Inr (bufs', ok)) \<and> buffers fs bufs' \<and> sends i msgs s s' \<and>
    carries msgs (map (directed g sid) (take k fs)) \<and> k \<le> length fs \<and> (ok \<longrightarrow> k = length fs)"
proof (cases "inPlace \<and> capable browserDataBatchV1 a")
  case False
  then have "send_batch env inPlace client a i bufs = send_each env inPlace g sid i bufs"
    unfolding send_batch_def Let_def g(1) sid(1) by (simp only: if_False)
  then show ?thesis using send_each_sends [OF b g(2) sid(2) fits_small [OF fits]] by simp
next
  case True
  let ?out = "map (rewriteDecodedDeliveryInPlace g sid) bufs" and ?fs = "map (directed g sid) fs"
  note new = buffers_rewritten [OF b g(2) sid(2)]
  obtain s1 ok where t: "try_send env (SentData i (concat ?out)) s = (s1, Inr ok)"
      and s1: "sends i (if ok then [concat ?out] else []) s s1" by (rule try_send_sends)
  have l: "length ?out = length ?fs" using buffers_length [OF b] by simp
  have "decodeDataFrameBatch (concat (map fst (zip ?out ?fs))) = Inr (map snd (zip ?out ?fs))"
    by (rule batch_of_entries) (use new fits l buffers_size [OF new(1)] in \<open>auto simp: fits_def\<close>)
  then have one: "carries [concat ?out] ?fs" using l by (intro carries_one) simp
  have "send_batch env inPlace client a i bufs s = (s1, Inr (?out, ok))"
    using True by (simp add: send_batch_def Let_def t bindS_def flip: g(1) sid(1))
  moreover have "carries (if ok then [concat ?out] else []) (map (directed g sid) (take (if ok then length fs else 0) fs))"
    using one carries_none by simp
  ultimately show ?thesis using new(1) s1
    by (intro exI [of _ s1] exI [of _ ?out] exI [of _ ok] exI [of _ "if ok then length fs else 0"]
        exI [of _ "if ok then [concat ?out] else []"]) simp
qed

section \<open>Runs\<close>

lemma relayed_append: "relayed ep a c (fs @ gs) = (case relayed ep a c fs of None \<Rightarrow> None | Some c' \<Rightarrow> relayed ep a c' gs)"
  by (induction ep a c fs rule: relayed.induct) auto

lemma relayed_mono: "relayed ep a c fs = Some c' \<Longrightarrow> fst c \<le> fst c'"
proof (induction ep a c fs rule: relayed.induct)
  case (2 ep a e p f fs)
  then show ?case by (fastforce split: if_splits)
qed simp

definition mutation :: "data_frame \<Rightarrow> bool" where
  "mutation f \<longleftrightarrow> df_kind f = PtyOutput \<or> df_kind f = ResizeApplied"

lemma mutation_directed [simp]: "mutation (directed g sid f) = mutation f"
  by (simp add: mutation_def)

lemma relayed_rises: "relayed ep a c fs = Some c' \<Longrightarrow> list_all mutation fs \<Longrightarrow> fs \<noteq> [] \<Longrightarrow> fst c < fst c'"
proof (cases fs)
  case (Cons f gs)
  assume r: "relayed ep a c fs = Some c'" and m: "list_all mutation fs"
  obtain e p where c: "c = (e, p)" by fastforce
  from r m Cons have "relayed ep a (df_eventSeq f, offset_after f) gs = Some c'" "df_eventSeq f = e + 1"
    by (auto simp: c mutation_def split: if_splits)
  then show ?thesis using relayed_mono c by fastforce
qed simp

definition run_at :: "relay_do \<Rightarrow> nat \<Rightarrow> SocketAttachment \<Rightarrow> int \<times> int \<Rightarrow> bool" where
  "run_at s i a c \<longleftrightarrow> (\<exists>fs. carries (data_log s i) fs \<and> relayed (epoch_of s) a (seed_of a) fs = Some c)"

lemma log_ok_iff: "pinned a \<Longrightarrow> log_ok h s i a \<longleftrightarrow> (\<exists>c. run_at s i a c \<and> fst c \<le> h \<and> run_ends a c)"
  unfolding log_ok_def run_at_def by (simp only: if_True) blast

lemma run_sends:
  assumes "run_at s i a c" and "sends i msgs s s'" and "carries msgs gs" and "relayed (epoch_of s) a c gs = Some c'"
  shows "run_at s' i a c'"
proof -
  from assms(1) obtain fs where fs: "carries (data_log s i) fs" "relayed (epoch_of s) a (seed_of a) fs = Some c" by (auto simp: run_at_def)
  have "carries (data_log s' i) (fs @ gs)" using carries_append [OF fs(1) assms(3)] by (simp add: sendsD [OF assms(2)])
  moreover have "relayed (epoch_of s') a (seed_of a) (fs @ gs) = Some c'"
    by (simp add: relayed_append fs(2) assms(4) sendsD [OF assms(2)])
  ultimately show ?thesis by (auto simp: run_at_def)
qed

section \<open>Advancing the recorded cursor\<close>

text \<open>What a successful advance says of the frames, of the new cursor and of the credit.\<close>

definition advanced :: "int option \<Rightarrow> SocketAttachment \<Rightarrow> data_frame list \<Rightarrow> int \<Rightarrow> int \<Rightarrow> bool" where
  "advanced epoch a fs se sp \<longleftrightarrow> fs \<noteq> [] \<and> se = df_eventSeq (last fs) \<and> sp = offset_after (last fs) \<and> sa_sentEventSeq a \<noteq> None \<and> sa_sentPtyOffset a \<noteq> None \<and>
     relayed epoch a (sent_of a) (map (directed (bigint_of (sa_deliveryGeneration a)) (sa_streamId a)) fs) = Some (se, sp) \<and>
     num (sa_sentEventSeq a) \<le> se \<and> num (sa_sentPtyOffset a) \<le> sp \<and> se \<le> MAX_U64 \<and> sp \<le> MAX_U64 \<and>
     sp - num (sa_ackedPtyOffset a) + (se - num (sa_ackedEventSeq a)) * DELIVERY_EVENT_OVERHEAD_BYTES \<le> MAX_DELIVERY_OUTSTANDING_BYTES"

lemma loop_relayed:
  assumes "advance_loop st ae ap fs pe pp d n = CursorOk st' n'"
    and "list_all (\<lambda>f. epoch = Some (df_sessionEpoch f) \<and> frame_ok f \<and> (df_kind f = ReplayCommit \<longrightarrow> at_pin a f)) fs"
    and "pe \<le> MAX_U64" "pp \<le> MAX_U64" and "g = bigint_of (sa_deliveryGeneration a)" "sid = sa_streamId a"
  shows "\<exists>se sp d'. st' = st\<lparr>ds_dataState := Some d', ds_sentEventSeq := Some se, ds_sentPtyOffset := Some sp\<rparr> \<and>
    relayed epoch a (pe, pp) (map (directed g sid) fs) = Some (se, sp) \<and> se \<le> MAX_U64 \<and> sp \<le> MAX_U64 \<and>
    (fs \<noteq> [] \<longrightarrow> se = df_eventSeq (last fs) \<and> sp = offset_after (last fs)) \<and>
    d' = (if list_ex (\<lambda>f. df_kind f = ReplayCommit) fs then synced else d)"
  using assms(1-4)
proof (induction fs arbitrary: pe pp d n)
  case (Cons f fs)
  let ?d = "if df_kind f = ReplayCommit then synced else d"
  from Cons.prems(1) obtain n2 where noerr: "\<not> frame_sequence_error ae ap pe pp f"
    and rec: "advance_loop st ae ap fs (df_eventSeq f) (offset_after f) ?d n2 = CursorOk st' n'"
    by (auto split: if_splits option.splits)
  have f: "epoch = Some (df_sessionEpoch f)" "frame_ok f" "df_kind f = ReplayCommit \<longrightarrow> at_pin a f" using Cons.prems(2) by auto
  have le: "df_eventSeq f \<le> MAX_U64" "offset_after f \<le> MAX_U64"
    using f(2) noerr by (auto simp: frame_ok_def is_u64_def frame_sequence_error_def offset_after_def split: if_splits)
  have "list_all (\<lambda>f. epoch = Some (df_sessionEpoch f) \<and> frame_ok f \<and> (df_kind f = ReplayCommit \<longrightarrow> at_pin a f)) fs"
    using Cons.prems(2) unfolding list.pred_inject by blast
  from Cons.IH [OF rec this le] obtain se sp d' where ih:
    "st' = st\<lparr>ds_dataState := Some d', ds_sentEventSeq := Some se, ds_sentPtyOffset := Some sp\<rparr>"
    "relayed epoch a (df_eventSeq f, offset_after f) (map (directed g sid) fs) = Some (se, sp)" "se \<le> MAX_U64" "sp \<le> MAX_U64"
    "fs \<noteq> [] \<longrightarrow> se = df_eventSeq (last fs) \<and> sp = offset_after (last fs)"
    "d' = (if list_ex (\<lambda>f. df_kind f = ReplayCommit) fs then synced else ?d)" by (elim exE conjE)
  have "addressed epoch a (directed g sid f)" using f(1) assms(5,6) by (simp add: addressed_def)
  moreover have "at_pin a (directed g sid f) = at_pin a f" by (simp add: at_pin_def)
  ultimately have "relayed epoch a (pe, pp) (directed g sid f # map (directed g sid) fs) =
      relayed epoch a (df_eventSeq f, offset_after f) (map (directed g sid) fs)"
    using noerr f(3) by (auto simp: frame_sequence_error_def offset_after_def)
  moreover have "se = df_eventSeq (last (f # fs)) \<and> sp = offset_after (last (f # fs))" using ih by (cases fs) auto
  ultimately show ?case using ih by (intro exI [of _ se] exI [of _ sp] exI [of _ d']) auto
qed auto

definition moved :: "SocketDataState \<Rightarrow> int \<Rightarrow> int \<Rightarrow> SocketAttachment \<Rightarrow> SocketAttachment" where
  "moved st se sp a = a\<lparr>sa_dataState := Some st, sa_sentEventSeq := Some (bigint_toString se), sa_sentPtyOffset := Some (bigint_toString sp)\<rparr>"

lemma schema_u64: "DecimalU64Schema s \<Longrightarrow> bigint_of s \<le> MAX_U64"
  by (simp add: DecimalU64Schema_def)

lemma advance_needs_open:
  assumes "advanceDeliveryCursorBatch st fs = CursorOk st' n"
  obtains d e p ae ap where "ds_dataState st = Some d" "d \<noteq> awaiting_attach" "ds_sentEventSeq st = Some e" "ds_sentPtyOffset st = Some p"
    "ds_ackedEventSeq st = Some ae" "ds_ackedPtyOffset st = Some ap" "advance_loop st ae ap fs e p d 0 = CursorOk st' n"
  using assms by (auto simp: advanceDeliveryCursorBatch_def split: if_splits option.splits DataState.splits)

lemma advance_advanced:
  assumes adv: "advanceDeliveryCursorBatch (cursor_state a) fs = CursorOk st' n" and schema: "SocketAttachmentSchema a"
    and fs: "list_all (\<lambda>f. epoch = Some (df_sessionEpoch f) \<and> frame_ok f \<and> (df_kind f = ReplayCommit \<longrightarrow> at_pin a f)) fs"
  obtains se sp d where "advanced epoch a fs se sp" "with_cursor st' a = moved d se sp a"
    "d = (if list_ex (\<lambda>f. df_kind f = ReplayCommit) fs then data_synced else the (sa_dataState a))" "d \<noteq> data_awaiting_attach"
proof -
  let ?g = "bigint_of (sa_deliveryGeneration a)" and ?sid = "sa_streamId a"
  have ne: "fs \<noteq> []" using adv by (auto simp: advanceDeliveryCursorBatch_def)
  obtain d0 e0 p0 ae0 ap0 where op: "ds_dataState (cursor_state a) = Some d0" "d0 \<noteq> awaiting_attach"
      "ds_sentEventSeq (cursor_state a) = Some e0" "ds_sentPtyOffset (cursor_state a) = Some p0"
      "ds_ackedEventSeq (cursor_state a) = Some ae0" "ds_ackedPtyOffset (cursor_state a) = Some ap0"
      "advance_loop (cursor_state a) ae0 ap0 fs e0 p0 d0 0 = CursorOk st' n"
    by (rule advance_needs_open [OF adv])
  from op(1-6) obtain d e p ae ap where "sa_dataState a = Some d" "sa_sentEventSeq a = Some e" "sa_sentPtyOffset a = Some p"
      "sa_ackedEventSeq a = Some ae" "sa_ackedPtyOffset a = Some ap"
      "d0 = data_state_of d" "e0 = bigint_of e" "p0 = bigint_of p" "ae0 = bigint_of ae" "ap0 = bigint_of ap"
    by (auto simp: cursor_state_def)
  with op have d: "sa_dataState a = Some d" "d \<noteq> data_awaiting_attach"
    and some: "sa_sentEventSeq a = Some e" "sa_sentPtyOffset a = Some p" "sa_ackedEventSeq a = Some ae" "sa_ackedPtyOffset a = Some ap"
    and loop: "advance_loop (cursor_state a) (bigint_of ae) (bigint_of ap) fs (bigint_of e) (bigint_of p) (data_state_of d) 0 = CursorOk st' n"
    by (auto simp: data_state_of_def)
  have "bigint_of e \<le> MAX_U64" "bigint_of p \<le> MAX_U64"
    using schema some by (auto simp: SocketAttachmentSchema_def nullable_def intro: schema_u64)
  from loop_relayed [OF loop fs this refl refl] ne obtain se sp d' where
    st': "st' = (cursor_state a)\<lparr>ds_dataState := Some d', ds_sentEventSeq := Some se, ds_sentPtyOffset := Some sp\<rparr>"
    and run: "relayed epoch a (bigint_of e, bigint_of p) (map (directed ?g ?sid) fs) = Some (se, sp)" "se \<le> MAX_U64" "sp \<le> MAX_U64"
    and last: "se = df_eventSeq (last fs)" "sp = offset_after (last fs)"
    and d': "d' = (if list_ex (\<lambda>f. df_kind f = ReplayCommit) fs then synced else data_state_of d)" by blast
  have "bigint_of e \<le> se \<and> bigint_of p \<le> sp \<and>
      sp - bigint_of ap + (se - bigint_of ae) * DELIVERY_EVENT_OVERHEAD_BYTES \<le> MAX_DELIVERY_OUTSTANDING_BYTES"
    using advance_loop_ok [OF loop] ne by (auto simp: st' deliveryOutstandingBytes_def split: if_splits)
  with run last ne some have "advanced epoch a fs se sp" by (simp add: advanced_def sent_of_def)
  moreover have "with_cursor st' a = moved (socket_state_of d') se sp a" by (simp add: st' with_cursor_def moved_def)
  moreover have "socket_state_of d' = (if list_ex (\<lambda>f. df_kind f = ReplayCommit) fs then data_synced else the (sa_dataState a))"
    by (cases d) (simp_all add: d' d socket_state_of_def data_state_of_def)
  moreover have "socket_state_of d' \<noteq> data_awaiting_attach" using d by (cases d) (simp_all add: d' socket_state_of_def data_state_of_def)
  ultimately show ?thesis by (rule that)
qed

lemma advanced_nonneg: "advanced epoch a fs se sp \<Longrightarrow> 0 \<le> se \<and> 0 \<le> sp"
  using bigint_of_nonneg [of "the (sa_sentEventSeq a)"] bigint_of_nonneg [of "the (sa_sentPtyOffset a)"]
  unfolding advanced_def by linarith

lemma moved_schema:
  assumes "SocketAttachmentSchema a" and "advanced epoch a fs se sp"
  shows "SocketAttachmentSchema (moved d se sp a)"
proof -
  have "is_u64 se" "is_u64 sp" using advanced_nonneg [OF assms(2)] assms(2) by (simp_all add: is_u64_def advanced_def)
  then have "DecimalU64Schema (bigint_toString se)" "DecimalU64Schema (bigint_toString sp)" by (simp_all add: toString_in_schema)
  with assms(1) show ?thesis by (simp add: SocketAttachmentSchema_def moved_def nullable_def)
qed

lemma moved_ok:
  assumes ok: "att_ok h p a" and pin: "pinned a" and adv: "advanced epoch a fs se sp" and le: "se \<le> h" "sp \<le> p"
    and d: "d \<noteq> data_awaiting_attach" "d = data_synced \<Longrightarrow> num (sa_replayCommitEventSeq a) \<le> se \<and> num (sa_replayCommitPtyOffset a) \<le> sp"
  shows "att_ok h p (moved d se sp a)"
proof -
  let ?b = "moved d se sp a"
  have nn: "bigint_of (bigint_toString se) = se" "bigint_of (bigint_toString sp) = sp"
    using advanced_nonneg [OF adv] by (simp_all add: bigint_of_toString)
  have c: "cursors_ok h p a" using ok by (simp add: att_ok_def)
  have "cursors_ok h p ?b" using c adv le nn by (auto simp: cursors_ok_def in_order_def moved_def advanced_def)
  moreover have eq: "outstanding ?b =
      sp - num (sa_ackedPtyOffset a) + (se - num (sa_ackedEventSeq a)) * DELIVERY_EVENT_OVERHEAD_BYTES"
    by (simp add: outstanding_def moved_def nn)
  have "outstanding ?b \<le> MAX_DELIVERY_OUTSTANDING_BYTES" unfolding eq using adv unfolding advanced_def by blast
  then have "within_credit ?b" by (simp add: within_credit_def)
  moreover have "waits_fresh ?b" using d(1) by (simp add: waits_fresh_def moved_def)
  moreover have "pin_ok h p ?b" using ok pin by (auto simp: att_ok_def pin_ok_def has_no_pin_def pinned_def moved_def)
  moreover have "synced_past_pin ?b" using pin d(2) nn by (auto simp: synced_past_pin_def moved_def pinned_def)
  ultimately show ?thesis by (simp add: att_ok_def)
qed

lemma moved_same [simp]:
  "pinned (moved d se sp a) = pinned a" "seed_of (moved d se sp a) = seed_of a"
  "relayed epoch (moved d se sp a) c fs = relayed epoch a c fs" "run_at s i (moved d se sp a) c = run_at s i a c"
  "sa_peer (moved d se sp a) = sa_peer a" "sa_channel (moved d se sp a) = sa_channel a"
proof -
  show r: "relayed epoch (moved d se sp a) c fs = relayed epoch a c fs" for epoch c fs
    by (rule relayed_cong(1)) (simp_all add: moved_def)
  show "seed_of (moved d se sp a) = seed_of a" by (simp add: seed_of_def moved_def)
  then show "run_at s i (moved d se sp a) c = run_at s i a c" by (simp add: run_at_def r)
qed (simp_all add: moved_def pinned_def)

lemma moved_ends: "advanced epoch a fs se sp \<Longrightarrow> run_ends (moved d se sp a) (se, sp)"
  using advanced_nonneg [of epoch a fs se sp] by (simp add: run_ends_def sent_of_def moved_def bigint_of_toString)

section \<open>One browser's share of a batch\<close>

text \<open>What a step may touch: the log and the attachment of one socket.\<close>

definition touches :: "nat \<Rightarrow> relay_do \<Rightarrow> relay_do \<Rightarrow> bool" where
  "touches i s s' \<longleftrightarrow> head_of s' = head_of s \<and> pty_of s' = pty_of s \<and> epoch_of s' = epoch_of s \<and> rd_session s' = rd_session s \<and>
     rd_clients s' = rd_clients s \<and> (\<forall>j. j \<noteq> i \<longrightarrow> data_log s' j = data_log s j \<and> data_att s' j = data_att s j)"

lemma touches_refl: "touches i s s"
  by (simp add: touches_def)

lemma touches_trans: "touches i s t \<Longrightarrow> touches i t u \<Longrightarrow> touches i s u"
  by (simp add: touches_def)

lemma sends_touches: "sends i m s s' \<Longrightarrow> touches i s s'"
  by (simp add: touches_def sendsD) (simp add: sends_def)

lemma write_touches: "touches i s (fst (write_attachment i a s))"
proof (cases rule: write_run [of i a s])
  case (1 ws)
  then show ?thesis by (simp add: touches_def data_log_def data_att_def write_attachments(1) [OF 1(1)])
qed (simp add: touches_refl)

lemma sends_inv:
  assumes "sends i msgs s s'" and "relay_inv s" and "known s i" and "\<And>a. data_att s i = Some a \<Longrightarrow> log_ok (head_of s) s' i a"
  shows "relay_inv s'"
proof -
  note sd = sendsD [OF assms(1)]
  have "att_ok (head_of s') (pty_of s') b \<and> log_ok (head_of s') s' j b" if "data_att s' j = Some b" for j b
  proof (cases "j = i")
    case False
    from that relay_invD [OF assms(2), of j b] False show ?thesis by (auto simp: sd intro: log_ok_mono)
  qed (use that assms(4) relay_invD [OF assms(2), of i b] sd in simp)
  with assms(2,3) show ?thesis by (auto simp: relay_inv_def sd)
qed

lemma current_addresses:
  assumes "is_current_delivery client a" and "SocketAttachmentSchema a"
  shows "bigint_of (cl_delivery_generation client) = bigint_of (sa_deliveryGeneration a)" "cl_stream_id client = sa_streamId a"
    "is_u64 (bigint_of (sa_deliveryGeneration a))" "is_u32 (sa_streamId a)"
  using assms bigint_of_nonneg
  by (auto simp: is_current_delivery_def SocketAttachmentSchema_def is_u64_def is_u32_def intro: schema_u64)

text \<open>The canonical frames that are fanned out: of the session, mutations, above the old head and up to the new one.\<close>

definition canonical_run :: "relay_do \<Rightarrow> int \<Rightarrow> data_frame list \<Rightarrow> bool" where
  "canonical_run s h fs \<longleftrightarrow> list_all (\<lambda>f. epoch_of s = Some (df_sessionEpoch f) \<and> frame_ok f \<and> mutation f \<and>
     h < df_eventSeq f \<and> df_eventSeq f \<le> head_of s \<and> offset_after f \<le> pty_of s) fs"

lemma canonical_frames:
  assumes "canonical_run s h fs"
  shows "list_all (\<lambda>f. epoch_of s = Some (df_sessionEpoch f) \<and> frame_ok f \<and> (df_kind f = ReplayCommit \<longrightarrow> at_pin a f)) fs"
    and "list_all mutation fs" and "\<not> list_ex (\<lambda>f. df_kind f = ReplayCommit) fs"
    and "fs \<noteq> [] \<Longrightarrow> h < df_eventSeq (hd fs) \<and> df_eventSeq (last fs) \<le> head_of s \<and> offset_after (last fs) \<le> pty_of s"
  using assms by (auto simp: canonical_run_def list_all_iff list_ex_iff mutation_def)

text \<open>A synced browser to which the next canonical frames apply stands where its log ends, and stays in order through the sends.\<close>

lemma synced_run:
  assumes pin: "pinned a" and log: "log_ok h s i a" and can: "canonical_run s h fs" and adv: "advanced (epoch_of s) a fs se sp"
  shows "run_at s i a (sent_of a)"
proof -
  from log pin obtain c where c: "run_at s i a c" "fst c \<le> h" "run_ends a c" by (auto simp: log_ok_iff)
  obtain f gs where fs: "fs = f # gs" using adv by (cases fs) (auto simp: advanced_def)
  have "mutation f" "h < df_eventSeq f" using can by (simp_all add: fs canonical_run_def)
  moreover have "relayed (epoch_of s) a (sent_of a) (map (directed (bigint_of (sa_deliveryGeneration a)) (sa_streamId a)) (f # gs)) = Some (se, sp)"
    using adv by (simp add: advanced_def fs)
  then have "df_eventSeq f = num (sa_sentEventSeq a) + 1" using \<open>mutation f\<close> by (auto simp: sent_of_def mutation_def split: if_splits)
  ultimately show ?thesis using c by (auto simp: run_ends_def)
qed

lemma batch_prefix:
  assumes ok: "att_ok (head_of s) (pty_of s) a" "sa_dataState a = Some data_synced"
    and run: "run_at s i a (sent_of a)" and can: "canonical_run s h fs" and adv: "advanced (epoch_of s) a fs se sp"
    and sn: "sends i msgs s s'" and k: "k \<le> length fs"
    and m: "carries msgs (map (directed (bigint_of (sa_deliveryGeneration a)) (sa_streamId a)) (take k fs))"
  shows "log_ok (head_of s) s' i a" and "k = length fs \<Longrightarrow> run_at s' i a (se, sp)"
proof -
  let ?d = "directed (bigint_of (sa_deliveryGeneration a)) (sa_streamId a)"
  have pin: "pinned a" and past: "num (sa_replayCommitEventSeq a) \<le> num (sa_sentEventSeq a)"
    using ok by (simp_all add: att_ok_def synced_past_pin_def)
  have full: "relayed (epoch_of s) a (sent_of a) (map ?d (take k fs) @ map ?d (drop k fs)) = Some (se, sp)"
    using adv by (simp add: advanced_def flip: map_append)
  then obtain ck where ck: "relayed (epoch_of s) a (sent_of a) (map ?d (take k fs)) = Some ck"
      "relayed (epoch_of s) a ck (map ?d (drop k fs)) = Some (se, sp)" by (auto simp: relayed_append split: option.splits)
  have at: "run_at s' i a ck" by (rule run_sends [OF run sn m ck(1)])
  have "fst ck \<le> head_of s" using relayed_mono [OF ck(2)] canonical_frames(4) [OF can] adv by (simp add: advanced_def)
  moreover have "run_ends a ck"
  proof (cases "take k fs = []")
    case True
    with ck(1) show ?thesis by (simp add: run_ends_def)
  next
    case False
    have "list_all mutation (take k fs)" using canonical_frames(2) [OF can] by (auto simp: list_all_iff dest: in_set_takeD)
    then have "fst (sent_of a) < fst ck" using relayed_rises [OF ck(1)] False by (simp add: list_all_iff)
    with past show ?thesis by (simp add: run_ends_def sent_of_def)
  qed
  ultimately show "log_ok (head_of s) s' i a" unfolding log_ok_iff [OF pin] using at by blast
  show "run_at s' i a (se, sp)" if "k = length fs" using at ck that by simp
qed

lemma data_att_cases:
  assumes "attachment_of (rd_sockets s) i = Some a"
  obtains "data_att s i = None" | "data_att s i = Some a"
  using assms by (cases "data_att s i") (auto simp: data_att_def split: if_splits)

text \<open>The write after the sends, for a log that ends at the cursor it records.\<close>

lemma moved_write:
  assumes a: "attachment_of (rd_sockets s) i = Some a" and inv: "relay_inv s"
    and ok: "data_att s i = Some a \<Longrightarrow> att_ok (head_of s) (pty_of s) (moved d se sp a) \<and> log_ok (head_of s) s i (moved d se sp a)"
  shows "relay_inv (fst (write_attachment i (moved d se sp a) s))"
proof (rule data_att_cases [OF a])
  assume n: "data_att s i = None"
  have "keeps_inv s (fst (write_attachment i (moved d se sp a) s))" by (rule keeps_write_other [OF a n]) simp_all
  with inv show ?thesis by (simp add: keeps_inv_def)
next
  assume d: "data_att s i = Some a"
  have "keeps_inv s (fst (write_attachment i (moved d se sp a) s))" by (rule write_keeps [OF d]) (simp_all add: ok [OF d])
  with inv show ?thesis by (simp add: keeps_inv_def)
qed

lemma batch_write:
  assumes a: "attachment_of (rd_sockets s) i = Some a" and st: "sa_dataState a = Some data_synced"
    and inv: "relay_inv s" and can: "canonical_run s h fs" and log: "\<And>a. data_att s i = Some a \<Longrightarrow> log_ok h s i a"
    and adv: "advanced (epoch_of s) a fs se sp" and sn: "sends i msgs s s1" and k: "k \<le> length fs"
    and m: "carries msgs (map (directed (bigint_of (sa_deliveryGeneration a)) (sa_streamId a)) (take k fs))"
  shows "relay_inv s1" and "k = length fs \<Longrightarrow> relay_inv (fst (write_attachment i (moved data_synced se sp a) s1))"
proof -
  note sd = sendsD [OF sn]
  have ok: "att_ok (head_of s) (pty_of s) a" and run: "run_at s i a (sent_of a)" if d: "data_att s i = Some a"
  proof -
    from relay_invD [OF inv d] show ok: "att_ok (head_of s) (pty_of s) a" by simp
    with st have "pinned a" by (simp add: att_ok_def synced_past_pin_def)
    then show "run_at s i a (sent_of a)" by (rule synced_run [OF _ log [OF d] can adv])
  qed
  have known: "known s i" using attachment_schema [OF a] by (simp add: known_get)
  have logd: "log_ok (head_of s) s1 i b" if "data_att s i = Some b" for b
  proof -
    have "b = a" using that a by (simp add: data_att_def split: if_splits)
    with that show ?thesis using batch_prefix(1) [OF ok st run can adv sn k m] by simp
  qed
  show inv1: "relay_inv s1" by (rule sends_inv [OF sn inv known logd])
  assume full: "k = length fs"
  show "relay_inv (fst (write_attachment i (moved data_synced se sp a) s1))"
  proof (rule moved_write [OF _ inv1])
    show "attachment_of (rd_sockets s1) i = Some a" by (simp add: sd a)
    assume "data_att s1 i = Some a"
    then have d: "data_att s i = Some a" by (simp add: sd)
    note oka = ok [OF d]
    have pin: "pinned a" and past: "num (sa_replayCommitEventSeq a) \<le> num (sa_sentEventSeq a)"
        "num (sa_replayCommitPtyOffset a) \<le> num (sa_sentPtyOffset a)"
      using oka st by (simp_all add: att_ok_def synced_past_pin_def)
    have le: "se \<le> head_of s" "sp \<le> pty_of s" "num (sa_sentEventSeq a) \<le> se" "num (sa_sentPtyOffset a) \<le> sp"
      using canonical_frames(4) [OF can] adv by (simp_all add: advanced_def)
    have "att_ok (head_of s) (pty_of s) (moved data_synced se sp a)"
      by (rule moved_ok [OF oka pin adv le(1,2)]) (use past le in auto)
    moreover have "run_at s1 i (moved data_synced se sp a) (se, sp)"
      using batch_prefix(2) [OF oka st run [OF d] can adv sn k m full] by simp
    then have "log_ok (head_of s) s1 i (moved data_synced se sp a)"
      unfolding log_ok_iff [of "moved data_synced se sp a", simplified, OF pin] using le(1) moved_ends [OF adv] by fastforce
    ultimately show "att_ok (head_of s1) (pty_of s1) (moved data_synced se sp a) \<and> log_ok (head_of s1) s1 i (moved data_synced se sp a)"
      by (simp add: sd)
  qed
qed

lemma deliver_batch_inv:
  assumes inv: "relay_inv s" and b: "buffers fs bufs" and fits: "fits fs" and can: "canonical_run s h fs"
    and log: "\<And>a. data_att s i = Some a \<Longrightarrow> log_ok h s i a"
  shows "relay_inv (fst (deliver_batch env ip fs i bufs s)) \<and> touches i s (fst (deliver_batch env ip fs i bufs s)) \<and>
    (\<forall>bufs' ps. snd (deliver_batch env ip fs i bufs s) = Inr (bufs', ps) \<longrightarrow> buffers fs bufs')"
proof -
  have trivial: ?thesis if "deliver_batch env ip fs i bufs s = (s, r)" "\<And>bufs' ps. r = Inr (bufs', ps) \<Longrightarrow> bufs' = bufs" for r
    using that inv b touches_refl by auto
  show ?thesis
  proof (cases "attachment_of (rd_sockets s) i")
    case None
    then show ?thesis by (intro trivial [of "Inr (bufs, [])"]) (simp_all add: deliver_batch_def)
  next
    case (Some a)
    note a = this
    show ?thesis
    proof (cases "\<exists>c client st' n. sa_clientId a = Some c \<and> sa_dataState a = Some data_synced \<and> socket_open (rd_sockets s) i \<and>
        clientById c s = Some client \<and> is_current_delivery client a \<and> advanceDeliveryCursorBatch (cursor_state a) fs = CursorOk st' n")
      case False
      then show ?thesis
        by (intro trivial [of "snd (deliver_batch env ip fs i bufs s)"])
          (auto simp: deliver_batch_def a split: option.splits DeliveryCursorResult.splits if_splits)
    next
      case True
      then obtain c client st' n where c: "sa_clientId a = Some c" and st: "sa_dataState a = Some data_synced" and op: "socket_open (rd_sockets s) i"
        and cl: "clientById c s = Some client" and cur: "is_current_delivery client a"
        and ok: "advanceDeliveryCursorBatch (cursor_state a) fs = CursorOk st' n" by blast
      have schema: "SocketAttachmentSchema a" using attachment_schema [OF a] by simp
      note addr = current_addresses [OF cur schema]
      obtain se sp d where adv: "advanced (epoch_of s) a fs se sp" and w: "with_cursor st' a = moved d se sp a"
        and d: "d = (if list_ex (\<lambda>f. df_kind f = ReplayCommit) fs then data_synced else the (sa_dataState a))"
        by (rule advance_advanced [OF ok schema canonical_frames(1) [OF can]])
      have ds: "d = data_synced" using d st by simp
      obtain s1 bufs' good k msgs where send: "send_batch env ip client a i bufs s = (s1, Inr (bufs', good))" and b': "buffers fs bufs'"
        and sn: "sends i msgs s s1" and m: "carries msgs (map (directed (bigint_of (sa_deliveryGeneration a)) (sa_streamId a)) (take k fs))"
        and k: "k \<le> length fs" "good \<longrightarrow> k = length fs"
        using send_batch_sends [OF b fits addr(1) [symmetric] addr(3) addr(2) [symmetric] addr(4), of env ip a i s] by blast
      note bw = batch_write [OF a st inv can log adv sn k(1) m]
      define s2 where "s2 = fst (write_attachment i (moved data_synced se sp a) s1)"
      have run: "deliver_batch env ip fs i bufs s =
          (if good then (s2, map_sum id (\<lambda>_. (bufs', [])) (snd (write_attachment i (moved data_synced se sp a) s1)))
           else (s1, Inr (bufs', case resetAfterDataSendFailure i a s1 of None \<Rightarrow> [] | Some r \<Rightarrow> [r])))"
        by (auto simp: deliver_batch_def a c st op cl cur ok send w ds bindS_def s2_def split: prod.split sum.split)
      have t: "touches i s s1" "touches i s s2"
        using sends_touches [OF sn] write_touches touches_trans unfolding s2_def by blast+
      show ?thesis
      proof (cases good)
        case True
        have "buffers fs b" if "map_sum id (\<lambda>_. (bufs', [])) r = Inr (b, ps)" for b ps and r :: "StoreError + unit"
          using that b' by (cases r) auto
        with True bw(2) k(2) t(2) show ?thesis unfolding run s2_def by auto
      qed (use bw(1) t(1) b' in \<open>simp add: run\<close>)
    qed
  qed
qed

lemma fan_out_inv:
  assumes "relay_inv s" and "buffers fs bufs" and "fits fs" and "canonical_run s h fs" and "distinct is"
    and "\<And>i a. i \<in> set is \<Longrightarrow> data_att s i = Some a \<Longrightarrow> log_ok h s i a"
  shows "relay_inv (fst (fan_out env ip fs is bufs ps s))"
  using assms
proof (induction "is" arbitrary: s bufs ps)
  case (Cons i "is")
  obtain s1 r where d: "deliver_batch env ip fs i bufs s = (s1, r)" by fastforce
  have step: "relay_inv s1" "touches i s s1" "\<And>b p. r = Inr (b, p) \<Longrightarrow> buffers fs b"
    using deliver_batch_inv [OF Cons.prems(1-4), of i env ip] Cons.prems(6) by (auto simp: d)
  show ?case
  proof (cases r)
    case (Inr q)
    obtain b p where q: "q = (b, p)" by fastforce
    have can: "canonical_run s1 h fs" using Cons.prems(4) step(2) by (simp add: canonical_run_def touches_def)
    have "log_ok h s1 j a" if "j \<in> set is" "data_att s1 j = Some a" for j a
    proof -
      have "j \<noteq> i" using that(1) Cons.prems(5) by auto
      with step(2) that(2) have "data_att s j = Some a" "data_log s1 j = data_log s j" "epoch_of s1 = epoch_of s" by (auto simp: touches_def)
      with Cons.prems(6) [of j a] that(1) show ?thesis by (auto intro: log_ok_mono)
    qed
    with Cons.IH [OF step(1) step(3) Cons.prems(3) can] Cons.prems(5) Inr q show ?thesis by (simp add: d bindS_def)
  qed (use step in \<open>simp add: d bindS_def\<close>)
qed simp

section \<open>A batch of canonical frames\<close>

lemma canonical_loop_run:
  assumes "canonical_loop ep h p fs = Some (h', p')"
    and "list_all (\<lambda>f. frame_ok f \<and> mutation f) fs"
  shows "h \<le> h' \<and> p \<le> p' \<and> list_all (\<lambda>f. df_sessionEpoch f = ep \<and> h < df_eventSeq f \<and> df_eventSeq f \<le> h' \<and> offset_after f \<le> p') fs"
  using assms
proof (induction ep h p fs rule: canonical_loop.induct)
  case (2 ep h p f fs)
  let ?p = "if df_kind f = PtyOutput then df_ptyOffset f + payload_length f else p"
  from "2.prems"(1) have c: "df_sessionEpoch f = ep" "df_eventSeq f = h + 1" "df_ptyOffset f = p"
      and rest: "canonical_loop ep (df_eventSeq f) ?p fs = Some (h', p')" and nb: "\<not> (df_sessionEpoch f \<noteq> ep \<or> df_deliveryGeneration f \<noteq> 0 \<or> canonical_frame_error h p f)"
    by (auto simp: canonical_frame_error_def split: if_splits)
  have "list_all (\<lambda>f. frame_ok f \<and> mutation f) fs" using "2.prems"(2) by simp
  note ih = "2.IH" [OF nb rest this]
  have "p \<le> offset_after f" "?p = offset_after f" using c by (auto simp: offset_after_def payload_length_def)
  with ih c show ?case by (auto simp: list_all_iff)
qed simp

lemma commit_views:
  assumes "rd_session s = Some session" and "0 \<le> h" and "0 \<le> p"
  shows "head_of (commit_head (se_host_fence session) h p s) = h" "pty_of (commit_head (se_host_fence session) h p s) = p"
    "epoch_of (commit_head (se_host_fence session) h p s) = epoch_of s" "data_log (commit_head f h p s) i = data_log s i"
    "rd_sockets (commit_head f h p s) = rd_sockets s" "data_att (commit_head f h p s) i = data_att s i"
    "rd_next_socket (commit_head f h p s) = rd_next_socket s" "rd_clients (commit_head f h p s) = rd_clients s"
  using assms by (simp_all add: commit_head_def head_of_def pty_of_def epoch_of_def data_log_def data_att_def bigint_of_toString)

lemma quiet_commit:
  assumes "rd_session s = Some session" and "head_of s \<le> h" and "pty_of s \<le> p"
  shows "quiet s (commit_head (se_host_fence session) h p s)"
proof -
  have "0 \<le> head_of s" "0 \<le> pty_of s" by (simp_all add: head_of_def pty_of_def bigint_of_nonneg split: option.split)
  then have "0 \<le> h" "0 \<le> p" using assms by simp_all
  note v = commit_views [OF assms(1) this]
  show ?thesis using assms by (simp add: quiet_def v att_step_refl known_def numbered_def)
qed

lemma data_sockets_distinct: "numbered s \<Longrightarrow> distinct (browserDataSockets (rd_sockets s))"
  by (auto simp: numbered_def browserDataSockets_def find_socket_def getWebSockets_def distinct_map_filter intro!: distinct_filter)

text \<open>After the commit of a run, every log still ends at or below the old head.\<close>

lemma committed:
  assumes ses: "rd_session s = Some session" and inv: "relay_inv s"
    and le: "head_of s \<le> h" "pty_of s \<le> p"
    and fs: "list_all (\<lambda>f. frame_ok f \<and> mutation f \<and> epoch_of s = Some (df_sessionEpoch f) \<and> head_of s < df_eventSeq f \<and>
      df_eventSeq f \<le> h \<and> offset_after f \<le> p) fs"
    and s1: "s1 = commit_head (se_host_fence session) h p s"
  shows "relay_inv s1" "canonical_run s1 (head_of s) fs" "data_att s1 i = Some a \<Longrightarrow> log_ok (head_of s) s1 i a"
proof -
  have "0 \<le> head_of s" "0 \<le> pty_of s" by (simp_all add: head_of_def pty_of_def bigint_of_nonneg split: option.split)
  then have "0 \<le> h" "0 \<le> p" using le by simp_all
  note v = commit_views [OF ses this, folded s1]
  show "relay_inv s1" using quiet_keeps [OF quiet_commit [OF ses le]] inv by (simp add: keeps_inv_def s1)
  show "canonical_run s1 (head_of s) fs" using fs by (auto simp: canonical_run_def v list_all_iff)
  assume "data_att s1 i = Some a"
  then have "data_att s i = Some a" using commit_views(6) [OF ses] le by (simp add: s1 commit_head_def data_att_def)
  from relay_invD [OF inv this] have "log_ok (head_of s) s i a" by simp
  then show "log_ok (head_of s) s1 i a"
    by (rule log_ok_mono) (simp_all add: v(3), simp add: s1 commit_head_def data_log_def)
qed

lemma entries_ok:
  assumes "decode_host_data a bytes = Inr es" and "2 \<le> length es"
  shows "list_all entry_ok es" and "fits (map snd es)" and "buffers (map snd es) (map fst es)"
proof -
  from assms have e: "decodeDataFrameBatchEntries bytes = Inr es" by (auto simp: decode_host_data_def bindR_Inr_iff split: if_splits)
  then have loop: "decode_batch_loop bytes 0 [] = Inr es" and len: "int (length bytes) \<le> MAX_DATA_BATCH_BYTES"
    by (auto simp: decodeDataFrameBatchEntries_def split: if_splits)
  from decode_batch_loop_sound [OF loop] have ok: "list_all entry_ok es" "bytes = concat (map fst es)" "es = [] \<or> length es \<le> MAX_DATA_BATCH_FRAMES"
    by auto
  show "list_all entry_ok es" by (rule ok(1))
  have "\<exists>g sid. decodeDataFrame (fst e) = Inr (directed g sid (snd e))" if "entry_ok e" for e
    using that by (intro exI [of _ "df_deliveryGeneration (snd e)"] exI [of _ "df_streamId (snd e)"]) (simp add: entry_ok_def directed_def)
  with ok(1) show b: "buffers (map snd es) (map fst es)"
    unfolding buffers_def list_all2_map1 list_all2_map2 by (simp add: list_all2_same list_all_iff)
  have "length bytes = (\<Sum>f\<leftarrow>map snd es. 48 + length (df_payload f))" using buffers_size [OF b] ok(2) by simp
  with ok(3) len assms(2) show "fits (map snd es)" by (auto simp: fits_def)
qed

lemma bind_modify: "bindS (modifyS f) k s = k () (f s)"
  by (simp add: bindS_def)

lemma fst_bind_return: "fst (bindS m (\<lambda>x. returnS (g x)) s) = fst (m s)"
  by (simp add: bindS_def split: prod.split sum.split)

lemma process_batch_inv:
  assumes dec: "decode_host_data a0 bytes = Inr es"
  shows "keeps_inv s (fst (process_batch env a es s))"
  unfolding keeps_inv_def
proof
  assume inv: "relay_inv s"
  have fail: "relay_inv (fst (bindS (failCurrentHost env a) (\<lambda>_. returnS (Some [])) s))"
    using obeysD [OF keeps_ops, of "bindS (failCurrentHost env a) (\<lambda>_. returnS (Some []))" s] inv
    by (simp add: keeps_inv_def quiet.obeys_bind quiet_fail_host quiet.obeys_return)
  show "relay_inv (fst (process_batch env a es s))"
  proof (cases "batch_applies s es")
    case False
    with inv show ?thesis by (simp add: process_batch_def)
  next
    case True
    note app = this
    show ?thesis
    proof (cases "rd_session s")
      case None
      with True fail show ?thesis by (simp add: process_batch_def)
    next
      case (Some session)
      let ?ep = "bigint_of (se_session_epoch session)"
      have hd: "head_of s = bigint_of (se_head_event_seq session)" "pty_of s = bigint_of (se_next_pty_offset session)" "epoch_of s = Some ?ep"
        by (simp_all add: head_of_def pty_of_def epoch_of_def Some)
      show ?thesis
      proof (cases "canonical_loop ?ep (head_of s) (pty_of s) (map snd es)")
        case None
        with True Some fail show ?thesis by (simp add: process_batch_def hd)
      next
        case (Some hp)
        obtain h p where hp: "hp = (h, p)" by fastforce
        have two: "2 \<le> length es" and kinds: "list_all (\<lambda>(_, f). df_streamId f = 0 \<and> (df_kind f = PtyOutput \<or> df_kind f = ResizeApplied)) es"
          using app by (simp_all add: batch_applies_def)
        note es = entries_ok [OF dec two]
        have fs: "list_all (\<lambda>f. frame_ok f \<and> mutation f) (map snd es)"
          using es(1) kinds by (auto simp: list_all_iff entry_ok_def decodeDataFrame_Inr_iff mutation_def)
        note run = canonical_loop_run [OF Some [unfolded hp] fs]
        define s1 where "s1 = commit_head (se_host_fence session) h p s"
        have all: "list_all (\<lambda>f. frame_ok f \<and> mutation f \<and> epoch_of s = Some (df_sessionEpoch f) \<and> head_of s < df_eventSeq f \<and>
            df_eventSeq f \<le> h \<and> offset_after f \<le> p) (map snd es)"
          using fs run hd(3) by (auto simp: list_all_iff)
        note c = committed [OF \<open>rd_session s = Some session\<close> inv _ _ all s1_def]
        have "relay_inv (fst (fan_out env ip (map snd es) (browserDataSockets (rd_sockets s1)) (map fst es) ps s1))" for ip ps
          using c run es data_sockets_distinct [of s1] by (intro fan_out_inv [of s1 "map snd es" "map fst es" "head_of s"]) (auto simp: relay_inv_def)
        then have "relay_inv (fst (bindS (fan_out env ip (map snd es) (browserDataSockets (rd_sockets s1)) (map fst es) []) (\<lambda>ps. returnS (Some ps)) s1))" for ip
          by (simp only: fst_bind_return)
        with app \<open>rd_session s = Some session\<close> Some hp show ?thesis
          by (simp add: process_batch_def hd s1_def bind_modify del: returnS_run)
      qed
    qed
  qed
qed

section \<open>One frame\<close>

lemma sent_written_inv:
  assumes sn: "sends i msgs s s1" and inv: "relay_inv s" and d: "data_att s i = Some a" and w: "data_written i b s1 s2"
    and b: "att_ok (head_of s) (pty_of s) b" "log_ok (head_of s) s1 i b"
  shows "relay_inv s2"
proof -
  note sd = sendsD [OF sn]
  have v: "epoch_of s2 = epoch_of s1" "head_of s2 = head_of s" "pty_of s2 = pty_of s" "data_log s2 j = data_log s1 j"
      "known s2 j = known s j" "data_att s2 j = (if j = i then Some b else data_att s j)" "numbered s \<longrightarrow> numbered s2" for j
    using w by (simp_all add: data_written_def sd)
  have "att_ok (head_of s2) (pty_of s2) x \<and> log_ok (head_of s2) s2 j x" if "data_att s2 j = Some x" for j x
  proof (cases "j = i")
    case True
    with that b v show ?thesis by (auto intro: log_ok_mono)
  next
    case False
    with that have "data_att s j = Some x" by (simp add: v)
    from relay_invD [OF inv this] False show ?thesis by (auto simp: v sd intro: log_ok_mono)
  qed
  moreover have "data_log s2 j = []" if "\<not> known s2 j" for j
    using that inv data_att_known [OF d] by (auto simp: v sd relay_inv_def)
  ultimately show ?thesis using inv v(7) by (simp add: relay_inv_def)
qed

text \<open>What makes a frame deliverable: a commit at the pin, or a mutation below the head that follows the run.\<close>

definition deliverable :: "relay_do \<Rightarrow> nat \<Rightarrow> SocketAttachment \<Rightarrow> data_frame \<Rightarrow> bool" where
  "deliverable s i a f \<longleftrightarrow> epoch_of s = Some (df_sessionEpoch f) \<and> frame_ok f \<and> small f \<and>
     (df_kind f = ReplayCommit \<longrightarrow> at_pin a f) \<and>
     (mutation f \<longrightarrow> df_eventSeq f = num (sa_sentEventSeq a) + 1 \<longrightarrow> data_att s i = Some a \<longrightarrow>
        pinned a \<and> df_eventSeq f \<le> head_of s \<and> offset_after f \<le> pty_of s \<and> run_at s i a (sent_of a))"

lemma frame_moves:
  assumes del: "deliverable s i a f" and d: "data_att s i = Some a" and inv: "relay_inv s"
    and adv: "advanced (epoch_of s) a [f] se sp" and sn: "sends i [bs] s s1"
    and bs: "decodeDataFrameBatch bs = Inr [directed (bigint_of (sa_deliveryGeneration a)) (sa_streamId a) f]"
    and st: "st = (if df_kind f = ReplayCommit then data_synced else the (sa_dataState a))" "st \<noteq> data_awaiting_attach"
  shows "att_ok (head_of s) (pty_of s) (moved st se sp a) \<and> log_ok (head_of s) s1 i (moved st se sp a)"
proof -
  let ?g = "directed (bigint_of (sa_deliveryGeneration a)) (sa_streamId a) f"
  from relay_invD [OF inv d] have ok: "att_ok (head_of s) (pty_of s) a" and log: "log_ok (head_of s) s i a" by auto
  have run1: "relayed (epoch_of s) a (sent_of a) [?g] = Some (se, sp)" and at: "se = df_eventSeq f" "sp = offset_after f"
    using adv by (simp_all add: advanced_def)
  show ?thesis
  proof (cases "df_kind f = ReplayCommit")
    case True
    with del have ap: "at_pin a f" by (simp add: deliverable_def)
    then have pin: "pinned a" by (simp add: at_pin_def)
    have ap': "at_pin a ?g" using ap by (simp add: at_pin_def)
    have adr: "addressed (epoch_of s) a ?g" using run1 by (auto simp: sent_of_def split: if_splits)
    from run1 True have same: "sent_of a = (se, sp)" by (auto simp: sent_of_def split: if_splits)
    have le: "se \<le> head_of s" "sp \<le> pty_of s"
      using ok same adv by (auto simp: att_ok_def cursors_ok_def in_order_def sent_of_def advanced_def)
    have sp: "sp = df_ptyOffset f" using True at by (simp add: offset_after_def)
    have "att_ok (head_of s) (pty_of s) (moved st se sp a)"
      using ap at(1) sp by (intro moved_ok [OF ok pin adv le st(2)]) (simp add: at_pin_def)
    moreover obtain c where c: "run_at s i a c" "fst c \<le> head_of s" "run_ends a c" using log pin by (auto simp: log_ok_iff)
    have "relayed (epoch_of s) a c [?g] = Some c" using adr ap' True by (cases c) simp
    from run_sends [OF c(1) sn carries_one [OF bs] this] have "run_at s1 i (moved st se sp a) c" by simp
    moreover have "run_ends (moved st se sp a) c"
      using c(3) same advanced_nonneg [OF adv] by (auto simp: run_ends_def sent_of_def moved_def bigint_of_toString)
    ultimately show ?thesis using c(2) pin log_ok_iff [of "moved st se sp a" "head_of s" s1 i] by (simp only: moved_same) blast
  next
    case False
    with run1 have mut: "mutation f" "df_eventSeq f = num (sa_sentEventSeq a) + 1"
      by (auto simp: sent_of_def mutation_def split: if_splits)
    with del d have del: "pinned a" "df_eventSeq f \<le> head_of s" "offset_after f \<le> pty_of s" "run_at s i a (sent_of a)"
      by (simp_all add: deliverable_def)
    have le: "se \<le> head_of s" "sp \<le> pty_of s" "num (sa_sentEventSeq a) \<le> se" "num (sa_sentPtyOffset a) \<le> sp"
      using del at adv by (simp_all add: advanced_def)
    have "waits_fresh a" "synced_past_pin a" using ok by (simp_all add: att_ok_def)
    then have past: "num (sa_replayCommitEventSeq a) \<le> se \<and> num (sa_replayCommitPtyOffset a) \<le> sp" if "st = data_synced"
      using that st False le(3,4) by (auto simp: waits_fresh_def synced_past_pin_def)
    have "att_ok (head_of s) (pty_of s) (moved st se sp a)" by (rule moved_ok [OF ok del(1) adv le(1,2) st(2) past])
    moreover have "run_at s1 i (moved st se sp a) (se, sp)" using run_sends [OF del(4) sn carries_one [OF bs] run1] by simp
    ultimately show ?thesis using le(1) del(1) moved_ends [OF adv] by (fastforce simp: log_ok_iff)
  qed
qed

lemma frame_write:
  assumes a: "attachment_of (rd_sockets s) i = Some a" and del: "deliverable s i a f" and inv: "relay_inv s"
    and adv: "advanced (epoch_of s) a [f] se sp" and sn: "sends i (if good then [bs] else []) s s1"
    and bs: "decodeDataFrameBatch bs = Inr [directed (bigint_of (sa_deliveryGeneration a)) (sa_streamId a) f]"
    and st: "st = (if df_kind f = ReplayCommit then data_synced else the (sa_dataState a))" "st \<noteq> data_awaiting_attach"
  shows "\<not> good \<Longrightarrow> relay_inv s1" and "good \<Longrightarrow> relay_inv (fst (write_attachment i (moved st se sp a) s1))"
proof -
  note sd = sendsD [OF sn]
  have known: "known s i" using attachment_schema [OF a] by (simp add: known_get)
  show "relay_inv s1" if "\<not> good"
  proof (rule sends_inv [OF sn inv known])
    show "log_ok (head_of s) s1 i b" if "data_att s i = Some b" for b
      using relay_invD [OF inv that] \<open>\<not> good\<close> by (auto simp: sd intro: log_ok_mono)
  qed
  show "relay_inv (fst (write_attachment i (moved st se sp a) s1))" if good
  proof (rule data_att_cases [OF a])
    assume n: "data_att s i = None"
    then have "relay_inv s1" by (intro sends_inv [OF sn inv known]) simp
    moreover have "keeps_inv s1 (fst (write_attachment i (moved st se sp a) s1))"
      by (rule keeps_write_other [of s1 i a]) (simp_all add: sd a n)
    ultimately show ?thesis by (simp add: keeps_inv_def)
  next
    assume d: "data_att s i = Some a"
    have sn': "sends i [bs] s s1" using sn \<open>good\<close> by simp
    note m = frame_moves [OF del d inv adv sn' bs st]
    have schema: "SocketAttachmentSchema (moved st se sp a)" using moved_schema [OF _ adv] data_att_known [OF d] by blast
    have "data_att s1 i = Some a" by (simp add: sd d)
    then show ?thesis
      by (cases rule: write_data [of s1 i a "moved st se sp a"])
        (use schema m in \<open>auto intro: sent_written_inv [OF sn' inv d]\<close>)
  qed
qed

lemma deliver_inv:
  assumes inv: "relay_inv s" and a: "attachment_of (rd_sockets s) i = Some a" and bs: "decodeDataFrame bs = Inr f"
    and del: "deliverable s i a f"
  shows "relay_inv (fst (deliverToBrowser env i a bs f s)) \<and> touches i s (fst (deliverToBrowser env i a bs f s))"
proof (cases "\<exists>c client st' n. sa_clientId a = Some c \<and> socket_open (rd_sockets s) i \<and> clientById c s = Some client \<and>
    is_current_delivery client a \<and> advanceDeliveryCursor (cursor_state a) f = CursorOk st' n")
  case False
  then have "fst (deliverToBrowser env i a bs f s) = s"
    by (auto simp: deliverToBrowser_def split: option.splits DeliveryCursorResult.splits if_splits)
  with inv show ?thesis by (simp add: touches_refl)
next
  case True
  then obtain c client st' n where c: "sa_clientId a = Some c" and op: "socket_open (rd_sockets s) i" and cl: "clientById c s = Some client"
    and cur: "is_current_delivery client a" and ok: "advanceDeliveryCursorBatch (cursor_state a) [f] = CursorOk st' n"
    unfolding advanceDeliveryCursor_def by blast
  have schema: "SocketAttachmentSchema a" using attachment_schema [OF a] by simp
  note addr = current_addresses [OF cur schema]
  have "list_all (\<lambda>f. epoch_of s = Some (df_sessionEpoch f) \<and> frame_ok f \<and> (df_kind f = ReplayCommit \<longrightarrow> at_pin a f)) [f]"
    using del by (simp add: deliverable_def)
  then obtain se sp d where adv: "advanced (epoch_of s) a [f] se sp" and w: "with_cursor st' a = moved d se sp a"
      and d: "d = (if df_kind f = ReplayCommit then data_synced else the (sa_dataState a))" "d \<noteq> data_awaiting_attach"
    by (rule advance_advanced [OF ok schema]) simp
  let ?out = "rewriteDecodedDeliveryInPlace (bigint_of (sa_deliveryGeneration a)) (sa_streamId a) bs"
  note r = rewritten [OF bs addr(3,4)]
  have one: "decodeDataFrameBatch ?out = Inr [directed (bigint_of (sa_deliveryGeneration a)) (sa_streamId a) f]"
    using del by (intro single_batch [OF r(2)]) (simp add: deliverable_def small_def payload_length_def directed_def)
  obtain s1 good where t: "try_send env (SentData i ?out) s = (s1, Inr good)" and sn: "sends i (if good then [?out] else []) s s1"
    by (rule try_send_sends)
  note fw = frame_write [OF a del inv adv sn one d]
  have run: "fst (deliverToBrowser env i a bs f s) = (if good then fst (write_attachment i (moved d se sp a) s1) else s1)"
    by (auto simp: deliverToBrowser_def c op cl cur ok advanceDeliveryCursor_def addr(1,2) r(1) t w bindS_def split: prod.split sum.split)
  have "touches i s s1" "touches i s (fst (write_attachment i (moved d se sp a) s1))"
    using sends_touches [OF sn] write_touches touches_trans by blast+
  with fw show ?thesis unfolding run by auto
qed

section \<open>A canonical frame\<close>

lemma canonical_deliverable:
  assumes inv: "relay_inv s" and can: "canonical_run s h [f]" and small: "small f" and st: "sa_dataState a = Some data_synced"
    and log: "\<And>b. data_att s i = Some b \<Longrightarrow> log_ok h s i b"
  shows "deliverable s i a f"
  unfolding deliverable_def
proof (intro conjI impI)
  have f: "epoch_of s = Some (df_sessionEpoch f)" "frame_ok f" "mutation f" "h < df_eventSeq f" "df_eventSeq f \<le> head_of s" "offset_after f \<le> pty_of s"
    using can by (simp_all add: canonical_run_def)
  show "epoch_of s = Some (df_sessionEpoch f)" "frame_ok f" "small f" by (rule f small)+
  show "at_pin a f" if "df_kind f = ReplayCommit" using that f(3) by (simp add: mutation_def)
  assume next_one: "df_eventSeq f = num (sa_sentEventSeq a) + 1" and d: "data_att s i = Some a"
  from relay_invD [OF inv d] st show pin: "pinned a" by (simp add: att_ok_def synced_past_pin_def)
  from log [OF d] pin obtain c where "run_at s i a c" "fst c \<le> h" "run_ends a c" by (auto simp: log_ok_iff)
  with next_one f(4) show "run_at s i a (sent_of a)" by (auto simp: run_ends_def)
  show "df_eventSeq f \<le> head_of s" "offset_after f \<le> pty_of s" by (rule f)+
qed

lemma fst_bind_read_return: "fst (bindS m (\<lambda>x. readS (\<lambda>s'. returnS (g x s'))) s) = fst (m s)"
  by (simp add: bindS_def readS_def split: prod.split sum.split)

lemma deliver_synced_inv:
  assumes inv: "relay_inv s" and bs: "decodeDataFrame bs = Inr f" "small f" and can: "canonical_run s h [f]"
    and log: "\<And>a. data_att s i = Some a \<Longrightarrow> log_ok h s i a"
  shows "relay_inv (fst (deliver_synced env bs f i s)) \<and> touches i s (fst (deliver_synced env bs f i s))"
proof (cases "\<exists>a. attachment_of (rd_sockets s) i = Some a \<and> sa_dataState a = Some data_synced")
  case True
  then obtain a where a: "attachment_of (rd_sockets s) i = Some a" "sa_dataState a = Some data_synced" by blast
  have "fst (deliver_synced env bs f i s) = fst (deliverToBrowser env i a bs f s)"
    unfolding deliver_synced_def readS_def [of _ s] by (simp only: a option.case if_False not_True_eq_False fst_bind_read_return simp_thms)
  then show ?thesis using deliver_inv [OF inv a(1) bs(1) canonical_deliverable [OF inv can bs(2) a(2) log]] by simp
next
  case False
  then have "fst (deliver_synced env bs f i s) = s" by (auto simp: deliver_synced_def split: option.split)
  with inv show ?thesis by (simp add: touches_refl)
qed

lemma untouched_logs:
  assumes t: "touches i s s1" and i: "i \<notin> set is" and log: "\<And>j a. j \<in> set is \<Longrightarrow> data_att s j = Some a \<Longrightarrow> log_ok h s j a"
    and j: "j \<in> set is" "data_att s1 j = Some a"
  shows "log_ok h s1 j a"
proof -
  have "j \<noteq> i" using i j by auto
  with t j have "data_att s j = Some a" "data_log s1 j = data_log s j" "epoch_of s1 = epoch_of s" by (auto simp: touches_def)
  with log [of j a] j show ?thesis by (auto intro: log_ok_mono)
qed

lemma deliver_all_inv:
  assumes "relay_inv s" and "decodeDataFrame bs = Inr f" "small f" and "canonical_run s h [f]" and "distinct is"
    and "\<And>i a. i \<in> set is \<Longrightarrow> data_att s i = Some a \<Longrightarrow> log_ok h s i a"
  shows "relay_inv (fst (deliver_all env bs f is ps s))"
  using assms
proof (induction "is" arbitrary: s ps)
  case (Cons i "is")
  obtain s1 r where d: "deliver_synced env bs f i s = (s1, r)" by fastforce
  have step: "relay_inv s1" "touches i s s1"
    using deliver_synced_inv [OF Cons.prems(1-4), of i env] Cons.prems(6) by (auto simp: d)
  show ?case
  proof (cases r)
    case (Inr q)
    have "canonical_run s1 h [f]" using Cons.prems(4) step(2) by (simp add: canonical_run_def touches_def)
    moreover have "log_ok h s1 j a" if "j \<in> set is" "data_att s1 j = Some a" for j a
      by (rule untouched_logs [OF step(2) _ _ that]) (use Cons.prems(5,6) in auto)
    ultimately show ?thesis using Cons.IH [OF step(1) Cons.prems(2,3)] Cons.prems(5) Inr by (simp add: d bindS_def)
  qed (use step in \<open>simp add: d bindS_def\<close>)
qed simp

lemma fail_inv: "relay_inv s \<Longrightarrow> relay_inv (fst (bindS (failCurrentHost env a) (\<lambda>_. returnS x) s))"
  using obeysD [OF keeps_ops, of "bindS (failCurrentHost env a) (\<lambda>_. returnS x)" s]
  by (simp add: keeps_inv_def quiet.obeys_bind quiet_fail_host quiet.obeys_return)

lemma canonical_frame_inv:
  assumes inv: "relay_inv s" and ses: "rd_session s = Some session" and ep: "df_sessionEpoch f = bigint_of (se_session_epoch session)"
    and bs: "decodeDataFrame bs = Inr f" "small f"
  shows "relay_inv (fst (handle_canonical env a session bs f s))"
proof (cases "df_deliveryGeneration f \<noteq> 0 \<or> hasPinnedDeliveryInProgress s \<or> commitCanonicalFrame session f s = None")
  case True
  have "handle_canonical env a session bs f s = bindS (failCurrentHost env a) (\<lambda>_. returnS []) s"
    using True by (auto simp: handle_canonical_def simp del: returnS_run)
  with fail_inv [OF inv] show ?thesis by simp
next
  case False
  then obtain s1 where c: "commitCanonicalFrame session f s = Some s1" by blast
  have hd: "head_of s = bigint_of (se_head_event_seq session)" "pty_of s = bigint_of (se_next_pty_offset session)"
    "epoch_of s = Some (df_sessionEpoch f)"
    by (simp_all add: head_of_def pty_of_def epoch_of_def ses ep)
  from c have f: "mutation f" "df_eventSeq f = head_of s + 1" "df_ptyOffset f = pty_of s"
    and s1: "s1 = commit_head (se_host_fence session) (df_eventSeq f) (offset_after f) s"
    by (auto simp: commitCanonicalFrame_def canonical_frame_error_def mutation_def hd offset_after_def split: if_splits)
  have le: "head_of s \<le> df_eventSeq f" "pty_of s \<le> offset_after f" using f by (auto simp: offset_after_def payload_length_def)
  have "frame_ok f" using bs by (simp add: decodeDataFrame_Inr_iff)
  then have "list_all (\<lambda>g. frame_ok g \<and> mutation g \<and> epoch_of s = Some (df_sessionEpoch g) \<and> head_of s < df_eventSeq g \<and>
      df_eventSeq g \<le> df_eventSeq f \<and> offset_after g \<le> offset_after f) [f]" using f hd by simp
  note c1 = committed [OF ses inv le this s1]
  have "relay_inv (fst (deliver_all env bs f (browserDataSockets (rd_sockets s1)) [] s1))"
    by (rule deliver_all_inv [OF c1(1) bs c1(2) _ c1(3)])
      (use c1(1) data_sockets_distinct in \<open>auto simp: relay_inv_def\<close>)
  with False c show ?thesis by (simp add: handle_canonical_def bind_modify)
qed

section \<open>A directed frame\<close>

lemma directed_deliverable:
  assumes inv: "relay_inv s" and ep: "epoch_of s = Some (df_sessionEpoch f)" and bs: "decodeDataFrame bs = Inr f" "small f"
    and pin: "isDirectedFrameWithinPinnedCommit a f"
  shows "deliverable s i a f"
  unfolding deliverable_def
proof (intro conjI impI)
  from pin have p: "pinned a"
    and rc: "df_kind f = ReplayCommit \<longrightarrow> df_eventSeq f = num (sa_replayCommitEventSeq a) \<and> df_ptyOffset f = num (sa_replayCommitPtyOffset a)"
    and mu: "mutation f \<longrightarrow> df_eventSeq f \<le> num (sa_replayCommitEventSeq a) \<and> offset_after f \<le> num (sa_replayCommitPtyOffset a)"
    by (auto simp: isDirectedFrameWithinPinnedCommit_def Let_def pinned_def mutation_def offset_after_def split: option.splits if_splits)
  show "epoch_of s = Some (df_sessionEpoch f)" "small f" "frame_ok f" using ep bs by (simp_all add: decodeDataFrame_Inr_iff)
  show "at_pin a f" if "df_kind f = ReplayCommit" using that rc p by (simp add: at_pin_def)
  assume m: "mutation f" and next_one: "df_eventSeq f = num (sa_sentEventSeq a) + 1" and d: "data_att s i = Some a"
  show "pinned a" by (rule p)
  from relay_invD [OF inv d] have ok: "pin_ok (head_of s) (pty_of s) a" and log: "log_ok (head_of s) s i a" by (auto simp: att_ok_def)
  from ok p have "num (sa_replayCommitEventSeq a) \<le> head_of s" "num (sa_replayCommitPtyOffset a) \<le> pty_of s"
    by (auto simp: pin_ok_def pinned_def has_no_pin_def)
  with mu m show "df_eventSeq f \<le> head_of s" "offset_after f \<le> pty_of s" by auto
  from log p obtain c where "run_at s i a c" "run_ends a c" by (auto simp: log_ok_iff)
  with next_one mu m show "run_at s i a (sent_of a)" by (auto simp: run_ends_def)
qed

lemma directed_frame_inv:
  assumes inv: "relay_inv s" and ep: "epoch_of s = Some (df_sessionEpoch f)" and bs: "decodeDataFrame bs = Inr f" "small f"
  shows "relay_inv (fst (handle_directed env a bs f s))"
proof -
  have fail: "relay_inv (fst (bindS (failCurrentHost env a) (\<lambda>_. returnS []) t))" if "relay_inv t" for t by (rule fail_inv [OF that])
  have del: "relay_inv (fst (bindS (deliverToBrowser env di d bs f) (\<lambda>r.
      case r of
        DeliverNothing \<Rightarrow> returnS []
      | DeliverPromise p \<Rightarrow> returnS [p]
      | DeliverSequenceError \<Rightarrow> bindS (failCurrentHost env a) (\<lambda>_. returnS [])) s))"
    if "attachment_of (rd_sockets s) di = Some d" "isDirectedFrameWithinPinnedCommit d f" for di d
  proof -
    obtain s1 r where dr: "deliverToBrowser env di d bs f s = (s1, r)" by fastforce
    have "relay_inv s1" using deliver_inv [OF inv that(1) bs(1) directed_deliverable [OF inv ep bs that(2)], of env] by (simp add: dr)
    with fail [OF this] show ?thesis
      by (cases r; cases "case r of Inr x \<Rightarrow> x | _ \<Rightarrow> DeliverNothing") (auto simp: dr bindS_def returnS_def)
  qed
  show ?thesis unfolding handle_directed_def readS_def
    by (auto simp: inv split: option.split intro: fail [OF inv] del)
qed

end
