(* ===== verification/Relay_Delivery_Props.thy ===== *)
theory Relay_Delivery_Props
  imports Relay_Deliveries
begin

text \<open>
  Every event of the relay's Durable Object keeps the invariant of \<open>Relay_Cursors\<close>, so it holds over any history: what a browser's data
  socket is sent is a run of its own delivery that its replica accepts. At the end, a history that delivers.
\<close>

section \<open>Every event keeps the invariant\<close>

lemma keeps_case:
  "(\<And>s. relay_inv s \<Longrightarrow> relay_inv (fst (m s))) \<Longrightarrow> keeps_inv s (fst (m s))"
  by (simp add: keeps_inv_def)

lemma keeps_data_frame:
  assumes bs: "decodeDataFrame bs = Inr f" "small f"
  shows "keeps_inv s (fst (handleDataFrame env i a bs f s))"
  unfolding keeps_inv_def
proof
  assume inv: "relay_inv s"
  note fail = fail_inv [OF inv]
  show "relay_inv (fst (handleDataFrame env i a bs f s))"
  proof (cases "rd_session s")
    case None
    with fail show ?thesis by (simp add: handleDataFrame_def del: returnS_run)
  next
    case (Some session)
    have b: "relay_inv (fst (bindS (handle_barrier env i a session f) (\<lambda>_. returnS ([] :: ResetPromise list)) s))"
      using keeps_barrier [OF Some, of env i a f] inv by (simp add: fst_bind_return keeps_inv_def del: returnS_run)
    show ?thesis
    proof (cases "df_sessionEpoch f = bigint_of (se_session_epoch session)")
      case True
      then have ep: "epoch_of s = Some (df_sessionEpoch f)" by (simp add: epoch_of_def Some)
      show ?thesis
        using True Some b canonical_frame_inv [OF inv Some True bs] directed_frame_inv [OF inv ep bs]
        by (simp add: handleDataFrame_def del: returnS_run)
    qed (use Some fail in \<open>simp add: handleDataFrame_def del: returnS_run\<close>)
  qed
qed

lemma small_frame: "decodeDataFrame b = Inr f \<Longrightarrow> int (length b) \<le> MAX_DATA_BATCH_BYTES \<Longrightarrow> small f"
  using frame_length [of b f] by (simp add: small_def payload_length_def)

lemma keeps_host_frame:
  assumes "decodeDataFrame (fst e) = Inr (snd e)" and "int (length (fst e)) \<le> MAX_DATA_BATCH_BYTES"
  shows "keeps_inv s (fst (host_data_frame env i a e s))"
  using keeps_data_frame [OF assms(1) small_frame [OF assms], of s env i a]
  by (simp add: host_data_frame_def fst_bind_return del: returnS_run) (simp add: keeps.rel_refl)

lemma keeps_host_data: "keeps_inv s (fst (host_data_begin env i a bs s))"
proof -
  have f: "keeps_inv s (fst (bindS (failCurrentHost env a) (\<lambda>_. returnS DataEnds) s))"
    by (rule obeysD, rule keeps_ops, intro quiet_rules quiet_ops)
  have p: "keeps_inv s (fst (bindS (process_batch env a es) (\<lambda>r. returnS (g r)) s))" if "decode_host_data a bs = Inr es" for es g
    using process_batch_inv [OF that, of s env a] by (simp add: fst_bind_return del: returnS_run)
  show ?thesis unfolding host_data_begin_def readS_def using p
    by (auto simp: keeps.rel_refl split: sum.split intro: f)
qed

lemma keeps_handle_ack: "obeys keeps_inv (handle_ack env i a f)"
  unfolding handle_ack_def by (intro keeps.obeys_rules keeps_acknowledge)

lemma keeps_browser: "obeys keeps_inv (handle_browser env i a decoded timing now sendAt)"
proof -
  note q = keeps_ops [OF quiet_close_protocol] keeps_ops [OF quiet_record] keeps_ops [OF quiet_handle_renew] keeps_ops [OF quiet_handle_input]
  show ?thesis unfolding handle_browser_def
    by (auto split: option.split ClientControlFrame.split intro!: keeps.obeys_rules keeps_attach keeps_handle_ack q)
qed

lemma keeps_message: "keeps_inv s (fst (processWebSocketMessage env i msg timing now sendAt s))"
proof -
  have c: "keeps_inv s (fst (bindS (close_protocol i) (\<lambda>_. returnS MessageDone) s))"
    "keeps_inv s (fst (bindS (failCurrentHost env a) (\<lambda>_. returnS MessageDone) s))" for a
    by (rule obeysD, rule keeps_ops, intro quiet_rules quiet_ops)+
  have b: "keeps_inv s (fst (bindS (handle_browser env i a d timing now sendAt) (\<lambda>r. returnS (BrowserGoesOn r)) s))" for a d
    using obeysD [OF keeps_browser] by (simp add: fst_bind_return del: returnS_run)
  have d: "keeps_inv s (fst (bindS (host_data_begin env i a bs) (\<lambda>r. returnS (HostDataGoesOn r)) s))" for a bs
    using keeps_host_data by (simp add: fst_bind_return del: returnS_run)
  have h: "keeps_inv s (fst (bindS (handle_host_control env i a d) (\<lambda>ps. returnS (HostWaits ps)) s))"
    if "attachment_of (rd_sockets s) i = Some a" for a d
    using quiet_keeps [OF quiet_host_control [OF that]] by (simp add: fst_bind_return del: returnS_run)
  show ?thesis unfolding processWebSocketMessage_def readS_def
    by (auto split: option.split InboundMessage.split intro: c b d h)
qed

lemma keeps_event: "event_ok e \<Longrightarrow> keeps_inv s (relay_step s (env, e))"
proof (cases e)
  case (SocketLost i)
  have "obeys quiet (bindS (socket_gone i) (\<lambda>_. processWebSocketClose env i))" by (intro quiet_rules quiet_ops)
  then show ?thesis using SocketLost by (simp add: quiet_keeps obeysD)
next
  case (DataFrameFollows i a b)
  then show "event_ok e \<Longrightarrow> keeps_inv s (relay_step s (env, e))" using keeps_host_frame [of b s env i a] by simp
qed (simp_all add: keeps_initialize keeps_message obeysD [OF keeps_attach_acquired] quiet_keeps obeysD [OF quiet_create_set]
    obeysD [OF quiet_accept_socket] obeysD [OF quiet_validate] obeysD [OF quiet_reject_inbound] obeysD [OF quiet_data_ack]
    obeysD [OF quiet_ready_finish] obeysD [OF quiet_renew_settles] obeysD [OF quiet_reset_settles] obeysD [OF quiet_isolate])

lemma relay_do_keeps: "relay_inv s \<Longrightarrow> relay_inv (relay_do_step s e)"
  using keeps_event [of "snd e" s "fst e"] by (simp add: relay_do_step_def keeps_inv_def)

interpretation relay_do: inv_machine relay_do_step relay_inv
  by unfold_locales (rule relay_do_keeps)

lemma empty_inv: "relay_inv empty_do"
  by (simp add: relay_inv_def empty_do_def numbered_def data_att_def data_log_def attachment_of_def map_filter_def)


section \<open>A history that delivers\<close>

text \<open>
  A host and a browser connect, the browser attaches with a live replica at the head, the host pins a warm replay and commits it,
  and two canonical frames follow.
\<close>

definition demo_id :: "char \<Rightarrow> string" where "demo_id c = replicate 16 c"

definition demo_env :: relay_env where
  "demo_env = \<lparr>rv_throws = (\<lambda>_. False), rv_published = (\<lambda>_. None),
     rv_barrier_payload = (\<lambda>_. Some \<lparr>bp_mode = warm_mode, bp_connectionId = demo_id (CHR ''B'')\<rparr>), rv_buffer_full = (\<lambda>_ _. False)\<rparr>"

definition demo_ids :: "char \<Rightarrow> FreshIds" where
  "demo_ids k = \<lparr>fi_connectionSetId = demo_id k, fi_clientId = demo_id k, fi_controlTicket = [CHR ''c'', k], fi_controlDigest = [CHR ''c'', k],
     fi_dataTicket = [CHR ''d'', k], fi_dataDigest = [CHR ''d'', k], fi_principalIdHash = replicate 43 (CHR ''a'')\<rparr>"

definition demo_frame :: "DataFrameKind \<Rightarrow> int \<Rightarrow> int \<Rightarrow> int \<Rightarrow> int \<Rightarrow> bytes \<Rightarrow> data_frame" where
  "demo_frame k g sid e p bs = \<lparr>df_kind = k, df_flags = 0, df_sessionEpoch = 1, df_deliveryGeneration = g, df_eventSeq = e,
     df_ptyOffset = p, df_streamId = sid, df_payload = bs\<rparr>"

definition demo_socket :: "RelayChannel \<Rightarrow> string \<Rightarrow> string list \<Rightarrow> relay_event" where
  "demo_socket ch digest caps = SocketRequested (\<lambda>_. Some caps) True ch (Some ''t'') digest 1 1 1 1 1"

definition demo_set :: "SocketRole \<Rightarrow> char \<Rightarrow> relay_event" where
  "demo_set r k = SetRequested (Some \<lparr>cc_sessionId = demo_id (CHR ''s''), cc_subject = demo_id (CHR ''u''), cc_role = r, cc_clientId = None\<rparr>) None (demo_ids k) 0 0"

definition demo_text :: "nat \<Rightarrow> HostControlFrame option \<Rightarrow> ClientControlFrame option \<Rightarrow> relay_event" where
  "demo_text i h b = MessageProcessed i (Text \<lparr>tm_chars = 9, tm_host = h, tm_browser = b\<rparr>) None 1 1"

definition demo_connects :: "relay_event list" where
  "demo_connects =
    [Initializes (demo_id (CHR ''s'')) ''1'' ''e'',
     demo_set host_role (CHR ''H''), demo_socket control ''cH'' [''host-data-batch-v1''], demo_socket data ''dH'' [''host-data-batch-v1''],
     demo_text 0 (Some (HostReady \<lparr>hr_engineId = ''e'', hr_sessionEpoch = ''1'', hr_headEventSeq = ''0'', hr_nextPtyOffset = ''0''\<rparr>)) None,
     demo_set observer (CHR ''B''), demo_socket control ''cB'' [], demo_socket data ''dB'' [],
     demo_text 2 None (Some (AttachRequested \<lparr>af_engineId = ''e'', af_deliveryGeneration = ''1'',
       af_live = Some \<lparr>lr_lastSessionEpoch = ''1'', lr_lastEventSeq = ''0'', lr_nextPtyOffset = ''0''\<rparr>\<rparr>))]"

definition demo_host :: SocketAttachment where
  "demo_host = ticket_attachment
     \<lparr>tk_channel = data, tk_client_id = None, tk_connection_id = demo_id (CHR ''H''), tk_connection_set_id = demo_id (CHR ''H''), tk_delivery_generation = ''0'',
      tk_expires_at = 30000, tk_host_fence = None, tk_relay_capabilities_json = '''', tk_peer = host, tk_role = host_role, tk_stream_id = 0,
      tk_subject = demo_id (CHR ''u''), tk_ticket_digest = ''dH''\<rparr> data (Some ''1'') [''host-data-batch-v1'']"

definition demo_entry :: "data_frame \<Rightarrow> batch_entry" where
  "demo_entry f = (frame_layout f, f)"

definition demo_relays :: "relay_event list" where
  "demo_relays =
    [DataFrameFollows 1 demo_host (demo_entry (demo_frame DeliveryBarrier 1 1 0 0 [])),
     DataFrameFollows 1 demo_host (demo_entry (demo_frame ReplayCommit 1 1 0 0 [])),
     MessageProcessed 1 (Binary (frame_layout (demo_frame PtyOutput 0 0 1 0 [72]) @ frame_layout (demo_frame PtyOutput 0 0 2 1 [105, 33]))) None 1 1]"

definition demo_run :: "relay_event list \<Rightarrow> relay_do" where
  "demo_run es = foldl relay_do_step empty_do (map (Pair demo_env) es)"


text \<open>The state once the browser is attached, written out; the deliveries start from it.\<close>

definition demo_connected :: relay_do where
  "demo_connected = \<lparr>rd_session = Some \<lparr>se_engine_id = ''e'', se_head_event_seq = ''0'', se_host_fence = ''1'', se_latest_snapshot_id =
    None, se_next_pty_offset = ''0'', se_next_stream_id = 2, se_recent_snapshot_id_1 = None, se_recent_snapshot_id_2 = None,
    se_snapshot_created_clock = 0, se_snapshot_recent_candidates_json = ''[]'', se_snapshot_recent_scan_before = None,
    se_snapshot_recent_scan_done = 1, se_snapshot_retention_backlog = 0, se_session_epoch = ''1'', se_session_id =
    ''ssssssssssssssss''\<rparr>, rd_clients = [\<lparr>cl_client_id = ''BBBBBBBBBBBBBBBB'', cl_delivery_generation = ''1'',
    cl_principal_id_hash = ''aaaaaaaaaaaaaaaaaaaaaaaaaaaaaaaaaaaaaaaaaaa'', cl_registered_at = Some 1, cl_reservation_expires_at =
    None, cl_role = observer, cl_stream_id = 1, cl_updated_at = 1\<rparr>], rd_tickets = [], rd_world = \<lparr>rw_lease = None,
    rw_sockets = [(0, \<lparr>so_readyState = OPEN, so_tags = [''peer:host'', ''channel:control'', ''set:HHHHHHHHHHHHHHHH''],
    so_attachment = Some \<lparr>sa_version = 2, sa_peer = host, sa_channel = control, sa_connectionSetId = ''HHHHHHHHHHHHHHHH'',
    sa_connectionId = ''HHHHHHHHHHHHHHHH'', sa_subject = ''uuuuuuuuuuuuuuuu'', sa_clientId = None, sa_role = host_role, sa_streamId =
    0, sa_deliveryGeneration = ''0'', sa_hostFence = Some ''1'', sa_leaseFence = None, sa_leaseExpiresAt = None, sa_controlState =
    Some active, sa_dataState = None, sa_firstEventSeq = None, sa_ackedEventSeq = None, sa_sentEventSeq = None, sa_firstPtyOffset =
    None, sa_ackedPtyOffset = None, sa_sentPtyOffset = None, sa_replayMode = None, sa_snapshotId = None, sa_replayCommitEventSeq =
    None, sa_replayCommitPtyOffset = None, sa_relayCapabilities = [''host-data-batch-v1'']\<rparr>\<rparr>), (1, \<lparr>so_readyState
    = OPEN, so_tags = [''peer:host'', ''channel:data'', ''set:HHHHHHHHHHHHHHHH''], so_attachment = Some \<lparr>sa_version = 2,
    sa_peer = host, sa_channel = data, sa_connectionSetId = ''HHHHHHHHHHHHHHHH'', sa_connectionId = ''HHHHHHHHHHHHHHHH'', sa_subject =
    ''uuuuuuuuuuuuuuuu'', sa_clientId = None, sa_role = host_role, sa_streamId = 0, sa_deliveryGeneration = ''0'', sa_hostFence = Some
    ''1'', sa_leaseFence = None, sa_leaseExpiresAt = None, sa_controlState = None, sa_dataState = None, sa_firstEventSeq = None,
    sa_ackedEventSeq = None, sa_sentEventSeq = None, sa_firstPtyOffset = None, sa_ackedPtyOffset = None, sa_sentPtyOffset = None,
    sa_replayMode = None, sa_snapshotId = None, sa_replayCommitEventSeq = None, sa_replayCommitPtyOffset = None, sa_relayCapabilities
    = [''host-data-batch-v1'']\<rparr>\<rparr>), (2, \<lparr>so_readyState = OPEN, so_tags = [''peer:browser'', ''channel:control'',
    ''set:BBBBBBBBBBBBBBBB'', ''client:BBBBBBBBBBBBBBBB'', ''stream:1''], so_attachment = Some \<lparr>sa_version = 2, sa_peer =
    browser, sa_channel = control, sa_connectionSetId = ''BBBBBBBBBBBBBBBB'', sa_connectionId = ''BBBBBBBBBBBBBBBB'', sa_subject =
    ''uuuuuuuuuuuuuuuu'', sa_clientId = Some ''BBBBBBBBBBBBBBBB'', sa_role = observer, sa_streamId = 1, sa_deliveryGeneration = ''1'',
    sa_hostFence = None, sa_leaseFence = None, sa_leaseExpiresAt = None, sa_controlState = Some active, sa_dataState = None,
    sa_firstEventSeq = None, sa_ackedEventSeq = None, sa_sentEventSeq = None, sa_firstPtyOffset = None, sa_ackedPtyOffset = None,
    sa_sentPtyOffset = None, sa_replayMode = None, sa_snapshotId = None, sa_replayCommitEventSeq = None, sa_replayCommitPtyOffset =
    None, sa_relayCapabilities = []\<rparr>\<rparr>), (3, \<lparr>so_readyState = OPEN, so_tags = [''peer:browser'', ''channel:data'',
    ''set:BBBBBBBBBBBBBBBB'', ''client:BBBBBBBBBBBBBBBB'', ''stream:1''], so_attachment = Some \<lparr>sa_version = 2, sa_peer =
    browser, sa_channel = data, sa_connectionSetId = ''BBBBBBBBBBBBBBBB'', sa_connectionId = ''BBBBBBBBBBBBBBBB'', sa_subject =
    ''uuuuuuuuuuuuuuuu'', sa_clientId = Some ''BBBBBBBBBBBBBBBB'', sa_role = observer, sa_streamId = 1, sa_deliveryGeneration = ''1'',
    sa_hostFence = None, sa_leaseFence = None, sa_leaseExpiresAt = None, sa_controlState = None, sa_dataState = Some data_catching_up,
    sa_firstEventSeq = Some ''0'', sa_ackedEventSeq = Some ''0'', sa_sentEventSeq = Some ''0'', sa_firstPtyOffset = Some ''0'',
    sa_ackedPtyOffset = Some ''0'', sa_sentPtyOffset = Some ''0'', sa_replayMode = None, sa_snapshotId = None, sa_replayCommitEventSeq
    = None, sa_replayCommitPtyOffset = None, sa_relayCapabilities = []\<rparr>\<rparr>)]\<rparr>, rd_next_socket = 4, rd_sends = 2,
    rd_effects = [SentBrowser 2 (Welcome \<lparr>we_connectionId = ''BBBBBBBBBBBBBBBB'', we_streamId = 1, we_writerLease = None,
    we_writerFence = None, we_engineId = ''e'', we_sessionEpoch = ''1'', we_deliveryGeneration = ''1'', we_headEventSeq = ''0'',
    we_nextPtyOffset = ''0''\<rparr>), SentHost 0 (HostAttachRequest ''BBBBBBBBBBBBBBBB'' 1 \<lparr>af_engineId = ''e'',
    af_deliveryGeneration = ''1'', af_live = Some \<lparr>lr_lastSessionEpoch = ''1'', lr_lastEventSeq = ''0'', lr_nextPtyOffset =
    ''0''\<rparr>\<rparr>)]\<rparr>"

definition demo_data :: "SocketDataState \<Rightarrow> string \<Rightarrow> string \<Rightarrow> SocketAttachment \<Rightarrow> SocketAttachment" where
  "demo_data st e p a = a\<lparr>sa_dataState := Some st, sa_sentEventSeq := Some e, sa_sentPtyOffset := Some p, sa_replayMode := Some warm,
     sa_replayCommitEventSeq := Some ''0'', sa_replayCommitPtyOffset := Some ''0''\<rparr>"

definition demo_view :: SocketAttachment where
  "demo_view = demo_data data_synced ''2'' ''3'' (the (data_att demo_connected 3))"

lemma demo_connected: "demo_run demo_connects = demo_connected"
  by code_simp

lemma demo_relayed:
  "(let s = foldl relay_do_step demo_connected (map (Pair demo_env) demo_relays) in
     (data_att s 3, map decodeDataFrameBatch (data_log s 3), epoch_of s, head_of s)) =
   (Some demo_view, [Inr [demo_frame ReplayCommit 1 1 0 0 []], Inr [demo_frame PtyOutput 1 1 1 0 [72]], Inr [demo_frame PtyOutput 1 1 2 1 [105, 33]]],
    Some 1, 2)"
  by code_simp

definition demo_final :: relay_do where
  "demo_final = foldl relay_do_step empty_do (map (Pair demo_env) (demo_connects @ demo_relays))"

lemma demo_final:
  "data_att demo_final 3 = Some demo_view" "epoch_of demo_final = Some 1" "head_of demo_final = 2"
  "map decodeDataFrameBatch (data_log demo_final 3) =
     [Inr [demo_frame ReplayCommit 1 1 0 0 []], Inr [demo_frame PtyOutput 1 1 1 0 [72]], Inr [demo_frame PtyOutput 1 1 2 1 [105, 33]]]"
proof -
  have "demo_final = foldl relay_do_step demo_connected (map (Pair demo_env) demo_relays)"
    using demo_connected by (simp add: demo_final_def demo_run_def)
  then show "data_att demo_final 3 = Some demo_view" "epoch_of demo_final = Some 1" "head_of demo_final = 2"
    "map decodeDataFrameBatch (data_log demo_final 3) =
     [Inr [demo_frame ReplayCommit 1 1 0 0 []], Inr [demo_frame PtyOutput 1 1 1 0 [72]], Inr [demo_frame PtyOutput 1 1 2 1 [105, 33]]]"
    using demo_relayed unfolding Let_def prod.inject by simp_all
qed

lemma demo_pinned: "pinned demo_view"
  by code_simp

section \<open>What holds of every history\<close>

text \<open>
  C3. In every history of the relay's Durable Object, the cursors of every browser's data socket are ordered, seed below acknowledged
  below sent below the canonical head, in event numbers and in PTY offsets; a pinned replay commits at or below the head and a synced
  socket has passed it; and what is sent but not acknowledged is within the delivery credit.
\<close>

theorem relay_cursors_ordered:
  assumes "data_att (foldl relay_do_step empty_do es) i = Some a"
  shows "att_ok (head_of (foldl relay_do_step empty_do es)) (pty_of (foldl relay_do_step empty_do es)) a"
  using relay_invD [OF relay_do.run_inv [OF empty_inv] assms] by simp

theorem relay_cursors_ordered_witness: "att_ok 2 (pty_of demo_final) demo_view \<and> outstanding demo_view = 131"
proof
  show "att_ok 2 (pty_of demo_final) demo_view"
    using relay_cursors_ordered [OF demo_final(1) [unfolded demo_final_def]] demo_final(3) by (simp add: demo_final_def)
  show "outstanding demo_view = 131" by code_simp
qed

text \<open>
  C1. In every history, what was sent on a browser's data socket decodes to frames of the session's epoch and of the socket's own
  generation and stream: from the pinned seed on, mutations whose event numbers and PTY offsets follow each other without a gap, and
  replay commits exactly at the pin. The run ends at the recorded cursor, unless a batch failed half-way past the pin, and never
  beyond the canonical head. Before a replay is pinned nothing is sent.
\<close>

theorem relay_sends_gapless:
  assumes "data_att (foldl relay_do_step empty_do es) i = Some a"
  shows "let s = foldl relay_do_step empty_do es in
    if pinned a
    then \<exists>fs c. carries (data_log s i) fs \<and> relayed (epoch_of s) a (seed_of a) fs = Some c \<and> fst c \<le> head_of s \<and> run_ends a c
    else data_log s i = []"
  using relay_invD [OF relay_do.run_inv [OF empty_inv] assms] unfolding log_ok_def Let_def by (rule conjunct2)

theorem relay_sends_gapless_witness:
  "\<exists>fs c. carries (data_log demo_final 3) fs \<and> relayed (Some 1) demo_view (0, 0) fs = Some c \<and> fst c \<le> 2 \<and> run_ends demo_view c"
proof -
  have "seed_of demo_view = (0, 0)" by code_simp
  with relay_sends_gapless [OF demo_final(1) [unfolded demo_final_def]] demo_pinned demo_final show ?thesis
    by (simp add: Let_def demo_final_def)
qed

section \<open>What the replica does with it\<close>

definition payload_decodes :: "data_frame \<Rightarrow> bool" where
  "payload_decodes f \<longleftrightarrow> df_kind f \<noteq> ResizeApplied \<or> okR (decodeResizePayload (df_payload f))"

definition replica_at :: "int option \<Rightarrow> SocketAttachment \<Rightarrow> int \<times> int \<Rightarrow> ReplicaCursor" where
  "replica_at epoch a c = \<lparr>rc_sessionEpoch = the epoch, rc_deliveryGeneration = bigint_of (sa_deliveryGeneration a),
     rc_lastEventSeq = fst c, rc_nextPtyOffset = snd c\<rparr>"

lemma relayed_replica:
  "relayed epoch a c fs = Some c' \<Longrightarrow> list_all payload_decodes fs \<Longrightarrow>
   apply_frames (replica_at epoch a c) (filter mutation fs) = Inr (replica_at epoch a c')"
proof (induction epoch a c fs rule: relayed.induct)
  case (2 epoch a e p f fs)
  have adr: "epoch = Some (df_sessionEpoch f)" "df_deliveryGeneration f = bigint_of (sa_deliveryGeneration a)"
    using "2.prems"(1) by (auto simp: addressed_def split: if_splits)
  show ?case
  proof (cases "df_kind f = ReplayCommit")
    case True
    with 2 show ?thesis by (simp add: mutation_def split: if_splits)
  next
    case False
    with "2.prems"(1) have m: "mutation f" "df_eventSeq f = e + 1" "df_ptyOffset f = p"
      and rest: "relayed epoch a (df_eventSeq f, offset_after f) fs = Some c'" and ad: "addressed epoch a f"
      by (auto simp: mutation_def split: if_splits)
    have ih: "apply_frames (replica_at epoch a (df_eventSeq f, offset_after f)) (filter mutation fs) = Inr (replica_at epoch a c')"
      by (rule "2.IH"(2) [OF _ False _ rest]) (use ad m(2,3) m(1) [unfolded mutation_def] "2.prems"(2) in simp_all)
    have "\<exists>r. applyMutationCursor (replica_at epoch a (e, p)) f = Inr (replica_at epoch a (df_eventSeq f, offset_after f), r)"
      unfolding applyMutationCursor_Inr_iff
      using adr m "2.prems"(2) by (auto simp: replica_at_def well_formed_mutation_def mutation_def payload_decodes_def)
    with m ih show ?thesis by auto
  qed
qed simp



end
