(* ===== verification/Input_Codec.thy ===== *)
theory Input_Codec
  imports Complex_Main Intent_Ledger
begin

text \<open>
  \<open>apps/terminal-cloud/src/browser/input-codec.ts\<close> with the input frames of \<open>packages/protocol/src/control-frame.ts\<close>: how a terminal
  event becomes a payload, which payloads are valid, and how one becomes a frame. A JavaScript string is the list of its UTF-16 code
  units; a number is \<open>None\<close> when it is NaN or infinite. The length of a JSON text is a parameter of the dispatcher.
\<close>

unbundle bit_operations_syntax

section \<open>Numbers and strings\<close>

type_synonym js_number = "rat option"
type_synonym js_string = "16 word list"

definition js_round :: "rat \<Rightarrow> int" where "js_round x = \<lfloor>x + 1 / 2\<rfloor>"

definition boundedInteger :: "js_number \<Rightarrow> int" where
  "boundedInteger value = (case value of None \<Rightarrow> 0 | Some x \<Rightarrow> min 1000000 (max 0 (js_round x)))"

definition int_within :: "int \<Rightarrow> int \<Rightarrow> js_number \<Rightarrow> bool" where
  "int_within low high value = (case value of None \<Rightarrow> False
     | Some x \<Rightarrow> of_int \<lfloor>x\<rfloor> = x \<and> low \<le> \<lfloor>x\<rfloor> \<and> \<lfloor>x\<rfloor> \<le> high)"

definition js_int :: "js_number \<Rightarrow> int" where
  "js_int value = (case value of None \<Rightarrow> 0 | Some x \<Rightarrow> \<lfloor>x\<rfloor>)"

text \<open>The bytes \<open>TextEncoder\<close> gives: a surrogate pair takes four, a lone surrogate is replaced by a three-byte character.\<close>

fun utf8_length :: "js_string \<Rightarrow> nat" where
  "utf8_length [] = 0"
| "utf8_length [c] = (if c < 0x80 then 1 else if c < 0x800 then 2 else 3)"
| "utf8_length (c # d # cs) =
     (if c < 0x80 then 1 + utf8_length (d # cs)
      else if c < 0x800 then 2 + utf8_length (d # cs)
      else if 0xd800 \<le> c \<and> c < 0xdc00 \<and> 0xdc00 \<le> d \<and> d < 0xe000 then 4 + utf8_length cs
      else 3 + utf8_length (d # cs))"

definition boundedUtf8String :: "nat \<Rightarrow> js_string \<Rightarrow> bool" where
  "boundedUtf8String maximumBytes s \<longleftrightarrow> length s \<le> maximumBytes \<and> utf8_length s \<le> maximumBytes"

section \<open>Events\<close>

datatype KeyAction = key_press | key_repeat | key_release
datatype MouseAction = mouse_press | mouse_release | mouse_move | mouse_wheel
datatype DeltaMode = delta_pixel | delta_line | delta_page

record KeyEvent =
  ke_code :: js_string
  ke_character :: js_string
  ke_text :: "js_string option"
  ke_modifiers :: js_number
  ke_action :: KeyAction
  ke_altGraph :: bool
  ke_composing :: bool
  ke_consumedModifiers :: js_number
  ke_unshiftedCodepoint :: js_number

record MouseEvent =
  me_action :: MouseAction
  me_button :: js_number
  me_buttons :: js_number
  me_modifiers :: js_number
  me_altGraph :: bool
  me_x :: js_number
  me_y :: js_number
  me_deltaX :: "js_number option"
  me_deltaY :: "js_number option"
  me_deltaMode :: "js_number option"

record Dimensions =
  di_cols :: js_number
  di_rows :: js_number
  di_widthPx :: js_number
  di_heightPx :: js_number

datatype TerminalInputEvent =
    KeyInput KeyEvent
  | TextInput js_string
  | PasteInput js_string
  | FocusInput bool
  | ResizeInput Dimensions
  | MouseInput MouseEvent
  | OtherInput

section \<open>Payloads\<close>

record KeyPayload =
  kp_observedEventSeq :: string
  kp_event :: KeyEvent
  kp_unshiftedCodepoint :: "js_number option"

record MousePayload =
  mp_action :: MouseAction
  mp_button :: "js_number option"
  mp_buttons :: js_number
  mp_modifiers :: js_number
  mp_altGraph :: bool
  mp_x :: int
  mp_y :: int
  mp_wheel :: "(js_number option \<times> js_number option \<times> DeltaMode) option"

datatype InputPayload =
    PayloadKey KeyPayload
  | PayloadText js_string
  | PayloadPaste js_string
  | PayloadFocus bool
  | PayloadResize Dimensions
  | PayloadMouse MousePayload

definition deltaModeName :: "js_number option \<Rightarrow> DeltaMode" where
  "deltaModeName value = (if value = Some (Some 1) then delta_line else if value = Some (Some 2) then delta_page else delta_pixel)"

definition mousePayload :: "MouseEvent \<Rightarrow> MousePayload" where
  "mousePayload e =
     \<lparr>mp_action = me_action e,
      mp_button = (if me_action e = mouse_press \<or> me_action e = mouse_release then Some (me_button e) else None),
      mp_buttons = me_buttons e, mp_modifiers = me_modifiers e, mp_altGraph = me_altGraph e,
      mp_x = boundedInteger (me_x e), mp_y = boundedInteger (me_y e),
      mp_wheel = (if me_action e = mouse_wheel then Some (me_deltaX e, me_deltaY e, deltaModeName (me_deltaMode e)) else None)\<rparr>"

text \<open>\<open>None\<close>: the event is of no known kind and the code throws.\<close>

definition normalizeInputEvent :: "TerminalInputEvent \<Rightarrow> int \<Rightarrow> (InputKind \<times> InputPayload) option" where
  "normalizeInputEvent event observedEventSeq =
     (case event of
        KeyInput e \<Rightarrow> Some (kind_key, PayloadKey \<lparr>kp_observedEventSeq = bigint_toString observedEventSeq, kp_event = e,
          kp_unshiftedCodepoint = (if ke_unshiftedCodepoint e = Some 0 then None else Some (ke_unshiftedCodepoint e))\<rparr>)
      | TextInput s \<Rightarrow> Some (kind_text, PayloadText s)
      | PasteInput s \<Rightarrow> Some (kind_paste, PayloadPaste s)
      | FocusInput b \<Rightarrow> Some (kind_focus, PayloadFocus b)
      | ResizeInput d \<Rightarrow> Some (kind_resize, PayloadResize d)
      | MouseInput e \<Rightarrow> Some (kind_mouse, PayloadMouse (mousePayload e))
      | OtherInput \<Rightarrow> None)"

section \<open>The schema of an input frame\<close>

definition unicodeScalar :: "js_number \<Rightarrow> bool" where
  "unicodeScalar value \<longleftrightarrow> int_within 0 0x10ffff value \<and> (js_int value < 0xd800 \<or> 0xdfff < js_int value)"

definition dimensions_ok :: "Dimensions \<Rightarrow> bool" where
  "dimensions_ok d \<longleftrightarrow> int_within 1 1000 (di_cols d) \<and> int_within 1 1000 (di_rows d) \<and>
     int_within 0 1000000 (di_widthPx d) \<and> int_within 0 1000000 (di_heightPx d)"

definition key_ok :: "KeyPayload \<Rightarrow> bool" where
  "key_ok k \<longleftrightarrow> DecimalU64Schema (kp_observedEventSeq k) \<and>
     length (ke_code (kp_event k)) \<le> 128 \<and> length (ke_character (kp_event k)) \<le> 128 \<and>
     (case ke_text (kp_event k) of None \<Rightarrow> True | Some t \<Rightarrow> length t \<le> 1024) \<and>
     int_within 0 0x3f (ke_modifiers (kp_event k)) \<and> int_within 0 0x3f (ke_consumedModifiers (kp_event k)) \<and>
     (case kp_unshiftedCodepoint k of None \<Rightarrow> True | Some c \<Rightarrow> unicodeScalar c) \<and>
     js_int (ke_consumedModifiers (kp_event k)) AND NOT (js_int (ke_modifiers (kp_event k))) = 0"

definition wheelDelta :: "js_number option \<Rightarrow> bool" where
  "wheelDelta value \<longleftrightarrow> (case value of None \<Rightarrow> True | Some None \<Rightarrow> False | Some (Some x) \<Rightarrow> - 1000000 \<le> x \<and> x \<le> 1000000)"

definition nonzero_delta :: "js_number option \<Rightarrow> bool" where
  "nonzero_delta value \<longleftrightarrow> (case value of None \<Rightarrow> False | Some x \<Rightarrow> x \<noteq> Some 0)"

definition mouse_ok :: "MousePayload \<Rightarrow> bool" where
  "mouse_ok m \<longleftrightarrow> int_within 0 31 (mp_buttons m) \<and> int_within 0 0x3f (mp_modifiers m) \<and>
     0 \<le> mp_x m \<and> mp_x m \<le> 1000000 \<and> 0 \<le> mp_y m \<and> mp_y m \<le> 1000000 \<and>
     (case (mp_action m, mp_button m, mp_wheel m) of
        (mouse_press, Some b, None) \<Rightarrow> int_within 0 4 b
      | (mouse_release, Some b, None) \<Rightarrow> int_within 0 4 b
      | (mouse_move, None, None) \<Rightarrow> True
      | (mouse_wheel, None, Some (dx, dy, _)) \<Rightarrow> wheelDelta dx \<and> wheelDelta dy \<and> (nonzero_delta dx \<or> nonzero_delta dy)
      | _ \<Rightarrow> False)"

definition validateInputPayload :: "InputPayload \<Rightarrow> bool" where
  "validateInputPayload payload \<longleftrightarrow>
     (case payload of
        PayloadKey k \<Rightarrow> key_ok k
      | PayloadText s \<Rightarrow> boundedUtf8String (1024 * 1024) s
      | PayloadPaste s \<Rightarrow> boundedUtf8String (1024 * 1024) s
      | PayloadFocus _ \<Rightarrow> True
      | PayloadResize d \<Rightarrow> dimensions_ok d
      | PayloadMouse m \<Rightarrow> mouse_ok m)"

section \<open>Frames\<close>

record InputFrame =
  fr_payload :: InputPayload
  fr_writerLease :: string
  fr_inputEpoch :: string
  fr_clientInputSeq :: string

definition identity_encodes :: "string \<Rightarrow> InputIdentity \<Rightarrow> bool" where
  "identity_encodes writerLease identity \<longleftrightarrow>
     0 < length writerLease \<and> length writerLease \<le> 128 \<and>
     0 < length (id_inputEpoch identity) \<and> length (id_inputEpoch identity) \<le> 128 \<and>
     length (id_clientInputSeq identity) \<le> 20 \<and>
     (case id_clientInputSeq identity of [] \<Rightarrow> False
      | c # cs \<Rightarrow> is_digit c \<and> c \<noteq> CHR ''0'' \<and> list_all is_digit cs) \<and>
     bigint_of (id_clientInputSeq identity) \<le> MAX_U64"

definition encodeInputFrame :: "InputPayload \<Rightarrow> string \<Rightarrow> InputIdentity \<Rightarrow> InputFrame option" where
  "encodeInputFrame payload writerLease identity =
     (if identity_encodes writerLease identity
      then Some \<lparr>fr_payload = payload, fr_writerLease = writerLease, fr_inputEpoch = id_inputEpoch identity,
             fr_clientInputSeq = id_clientInputSeq identity\<rparr>
      else None)"

definition isCoalesciblePayloadPair :: "InputPayload option \<Rightarrow> InputPayload \<Rightarrow> bool" where
  "isCoalesciblePayloadPair left right =
     (case (left, right) of
        (Some (PayloadResize _), PayloadResize _) \<Rightarrow> True
      | (Some (PayloadMouse l), PayloadMouse r) \<Rightarrow> mp_action l = mouse_move \<and> mp_action r = mouse_move
      | _ \<Rightarrow> False)"

end
