(* ===== verification/Input_Dispatcher.thy ===== *)
theory Input_Dispatcher
  imports Input_Codec
begin

text \<open>
  \<open>apps/terminal-cloud/src/browser/input-dispatcher.ts\<close>: the owner of every input intent, over the ledger of \<open>Intent_Ledger\<close> and the
  authority of \<open>Input_Authority\<close>. Every public method is a transaction: it first catches up with the deadlines, and when the outermost
  one ends it rearms the timer, publishes the status and delivers the results. Microtasks and the timer are events. A sender may call
  back into the dispatcher while it is on the stack; what it calls and what it answers is scripted by the environment.
\<close>

section \<open>State\<close>

datatype LastStatus = last_idle | last_not_sent | last_uncertain | last_written | last_duplicate | last_rejected

record InputDispatcherStatus =
  st_connected :: bool
  st_controlReplacementRequired :: bool
  st_lastStatus :: LastStatus
  st_pending :: nat
  st_preAdmission :: nat
  st_preAdmissionBytes :: int
  st_queued :: nat
  st_queuedBytes :: int
  st_replicaCurrent :: bool
  st_resizeConfirmed :: bool
  st_writable :: bool

datatype InputTransportSendResult = send_accepted | send_proven_not_accepted | send_uncertain

datatype AckStatus = ack_is_written | ack_is_duplicate | ack_is_rejected | ack_is_uncertain

record InputAckFrame =
  ac_writerFence :: "string option"
  ac_inputEpoch :: string
  ac_clientInputSeq :: string
  ac_status :: AckStatus
  ac_authorityEventSeq :: string

text \<open>The calls on the dispatcher; the number in a revocation names the stripped transport object it creates.\<close>

datatype DispatcherCall =
    AttachTransport InputTransport
  | DetachTransport bool
  | RevokeWriterAuthority nat
  | SendInput TerminalInputEvent
  | ReconcileLatestResize
  | SetReplicaCurrent bool
  | AcceptAcknowledgement InputAckFrame
  | AcceptTombstoneProof InputIdentity string
  | ConfirmAuthoritativeResize Dimensions

text \<open>What leaves the dispatcher: an id handed to the caller, a frame handed to a sender, a result handed to the observer.\<close>

datatype DispatchEffect =
    IntentConsumed string
  | FrameHandedOver nat InputIdentity InputFrame
  | ResultObserved InputIntentResult

record dispatcher =
  in_ledger :: "(InputPayload, InputFrame) ledger"
  in_resultNotifications :: "InputIntentResult list"
  in_authority :: AuthorityState
  in_unusedInitialEpoch :: string
  in_admissionScheduled :: bool
  in_drainingQueue :: bool
  in_sendScheduled :: bool
  in_deadlineTimer :: bool
  in_deadlineAtMs :: "int option"
  in_localIntentCounter :: int
  in_latestResize :: "Dimensions option"
  in_replicaCurrent :: bool
  in_resizeConfirmed :: bool
  in_lastStatus :: LastStatus
  in_mutationDepth :: nat
  in_dirty :: bool
  in_statusSnapshot :: InputDispatcherStatus
  in_microtasks :: nat
  in_clockReads :: nat
  in_generated :: nat
  in_script :: "(DispatcherCall list \<times> InputTransportSendResult) list"
  in_effects :: "DispatchEffect list"

text \<open>
  The environment: the clock by the number of the reading, the observed event number (\<open>None\<close> throws), the length of the JSON text of
  a payload (\<open>None\<close> throws) and of a frame, whether the policy lets an event through, the candidates of the id generators
  (\<open>None\<close> throws or is not a string) and the UUIDs that replace them.
\<close>

record dispatcher_env =
  dv_now :: "nat \<Rightarrow> int"
  dv_observedEventSeq :: "int option"
  dv_payloadBytes :: "InputPayload \<Rightarrow> nat option"
  dv_frameBytes :: "InputFrame \<Rightarrow> nat"
  dv_policy :: "TerminalInputEvent \<Rightarrow> bool"
  dv_epochCandidate :: "nat \<Rightarrow> string option"
  dv_intentCandidate :: "nat \<Rightarrow> string option"
  dv_uuid :: "nat \<Rightarrow> string"

datatype DispatchError = LedgerFailed LedgerError | OutOfFuel

type_synonym 'a dispatch = "(dispatcher, DispatchError, 'a) se"

definition maxQueuedAgeMs :: int where "maxQueuedAgeMs = 250"
definition maxSentAgeMs :: int where "maxSentAgeMs = 30000"
definition maxTerminationAgeMs :: int where "maxTerminationAgeMs = 5000"

section \<open>Reading and writing\<close>

definition ledger_read :: "((InputPayload, InputFrame) ledger \<Rightarrow> LedgerError + 'a) \<Rightarrow> 'a dispatch" where
  "ledger_read f s = (s, map_sum LedgerFailed id (f (in_ledger s)))"

definition ledger_do ::
  "((InputPayload, InputFrame) ledger \<Rightarrow> LedgerError + (InputPayload, InputFrame) ledger) \<Rightarrow> unit dispatch" where
  "ledger_do f s = (case f (in_ledger s) of Inl e \<Rightarrow> (s, Inl (LedgerFailed e)) | Inr l \<Rightarrow> (s\<lparr>in_ledger := l\<rparr>, Inr ()))"

definition clock :: "dispatcher_env \<Rightarrow> int dispatch" where
  "clock env s = (s\<lparr>in_clockReads := in_clockReads s + 1\<rparr>, Inr (dv_now env (in_clockReads s)))"

definition markDirty :: "unit dispatch" where
  "markDirty = modifyS (\<lambda>s. s\<lparr>in_dirty := True\<rparr>)"

definition emit :: "DispatchEffect \<Rightarrow> unit dispatch" where
  "emit e = modifyS (\<lambda>s. s\<lparr>in_effects := in_effects s @ [e]\<rparr>)"

definition set_authority :: "(AuthorityState \<Rightarrow> AuthorityState) \<Rightarrow> unit dispatch" where
  "set_authority f = modifyS (\<lambda>s. s\<lparr>in_authority := f (in_authority s)\<rparr>)"

definition record_of :: "string \<Rightarrow> dispatcher \<Rightarrow> (InputPayload, InputFrame) IntentRecord option" where
  "record_of i s = jm_get (il_records (in_ledger s)) i"

definition record_id :: "('p, 'f) IntentRecord \<Rightarrow> string" where
  "record_id r = ib_localIntentId (base r)"

section \<open>Settling an intent\<close>

definition finish_intent :: "string \<Rightarrow> InputIntentResult \<Rightarrow> unit dispatch" where
  "finish_intent i result = bindS (ledger_read (\<lambda>l. finish l i result)) (\<lambda>r.
     case r of
       None \<Rightarrow> returnS ()
     | Some l \<Rightarrow> modifyS (\<lambda>s. s\<lparr>in_ledger := l, in_resultNotifications := in_resultNotifications s @ [result], in_dirty := True\<rparr>))"

text \<open>The shape the three \<open>finish\<close> variants share: nothing happens to an unknown or terminal intent.\<close>

definition settle :: "dispatcher_env \<Rightarrow> LastStatus \<Rightarrow> Outcome \<Rightarrow> string \<Rightarrow> unit dispatch" where
  "settle env status outcome i = readS (\<lambda>s.
     case record_of i s of
       None \<Rightarrow> returnS ()
     | Some r \<Rightarrow>
         if phase r = ph_terminal then returnS ()
         else bindS (modifyS (\<lambda>s. s\<lparr>in_lastStatus := status\<rparr>)) (\<lambda>_. bindS (clock env) (\<lambda>terminalAtMs.
           finish_intent (record_id r) \<lparr>ir_localIntentId = record_id r, ir_kind = ib_kind (base r), ir_identity = record_identity r,
             ir_consumedAtMs = ib_consumedAtMs (base r), ir_terminalAtMs = terminalAtMs, ir_outcome = outcome\<rparr>)))"

definition finishNotSent :: "dispatcher_env \<Rightarrow> InputNotSentReason \<Rightarrow> string \<Rightarrow> unit dispatch" where
  "finishNotSent env reason = settle env last_not_sent (NotSent reason)"

definition deterministic_status :: "DeterministicResult \<Rightarrow> LastStatus" where
  "deterministic_status result = (case result of det_duplicate \<Rightarrow> last_duplicate | det_rejected \<Rightarrow> last_rejected | det_written \<Rightarrow> last_written)"

definition finishDeterministic :: "dispatcher_env \<Rightarrow> DeterministicReason \<Rightarrow> DeterministicResult \<Rightarrow> string \<Rightarrow> string \<Rightarrow> unit dispatch" where
  "finishDeterministic env reason result authorityEventSeq =
     settle env (deterministic_status result) (Deterministic reason result authorityEventSeq)"

definition finishUncertain :: "dispatcher_env \<Rightarrow> InputUncertainReason \<Rightarrow> string \<Rightarrow> unit dispatch" where
  "finishUncertain env reason = settle env last_uncertain (Uncertain reason)"

definition startTermination :: "IntentTerminationReason \<Rightarrow> int \<Rightarrow> string \<Rightarrow> unit dispatch" where
  "startTermination reason now i = readS (\<lambda>s.
     case beginTermination (in_ledger s) i reason (now + maxTerminationAgeMs) of
       None \<Rightarrow> returnS ()
     | Some l \<Rightarrow> modifyS (\<lambda>s. s\<lparr>in_ledger := l, in_dirty := True\<rparr>))"

text \<open>The loops over records the ledger returned; each looks the record up again.\<close>

definition settlePreAdmission :: "dispatcher_env \<Rightarrow> InputNotSentReason \<Rightarrow> unit dispatch" where
  "settlePreAdmission env reason =
     bindS (ledger_read takePreAdmission) (\<lambda>(l, rs).
     bindS (modifyS (\<lambda>s. s\<lparr>in_ledger := l\<rparr>)) (\<lambda>_. forS (finishNotSent env reason) (map record_id rs)))"

definition settleQueued :: "dispatcher_env \<Rightarrow> InputNotSentReason \<Rightarrow> unit dispatch" where
  "settleQueued env reason = bindS (ledger_read queuedRecords) (\<lambda>rs. forS (finishNotSent env reason) (map record_id rs))"

definition terminateSent :: "dispatcher_env \<Rightarrow> unit dispatch" where
  "terminateSent env = bindS (clock env) (\<lambda>now. bindS (ledger_read activeRecords) (\<lambda>rs.
     forS (startTermination term_control_replaced now) (map record_id (filter (\<lambda>r. phase r = ph_sending \<or> phase r = ph_sent) rs))))"

definition finishSent :: "dispatcher_env \<Rightarrow> unit dispatch" where
  "finishSent env = bindS (ledger_read activeRecords) (\<lambda>rs.
     forS (finishUncertain env un_closed)
       (map record_id (filter (\<lambda>r. phase r = ph_sending \<or> phase r = ph_sent \<or> phase r = ph_terminating) rs)))"

section \<open>Sealing an epoch\<close>

definition of_epoch :: "InputEpochState \<Rightarrow> ('p, 'f) IntentRecord \<Rightarrow> bool" where
  "of_epoch e r \<longleftrightarrow> (case record_identity r of None \<Rightarrow> False
     | Some i \<Rightarrow> id_writerFence i = ie_writerFence e \<and> id_inputEpoch i = ie_inputEpoch e)"

definition sealActiveEpoch :: "dispatcher_env \<Rightarrow> bool \<Rightarrow> unit dispatch" where
  "sealActiveEpoch env requireReplacement = readS (\<lambda>s.
     case authorityEpoch (in_authority s) of
       None \<Rightarrow> returnS ()
     | Some e \<Rightarrow>
         bindS (set_authority (\<lambda>a. sealAuthority a (if requireReplacement then replacement_required else transport_replaced))) (\<lambda>_.
         bindS (ledger_read queuedRecords) (\<lambda>rs.
         bindS (forS (finishNotSent env ns_epoch_sealed) (map record_id (filter (of_epoch e) rs))) (\<lambda>_. markDirty))))"

definition sealIdentityEpoch :: "dispatcher_env \<Rightarrow> InputIdentity \<Rightarrow> bool \<Rightarrow> unit dispatch" where
  "sealIdentityEpoch env identity requireReplacement = readS (\<lambda>s.
     if identityBelongsToAuthority (in_authority s) identity then sealActiveEpoch env requireReplacement else returnS ())"

section \<open>Deadlines\<close>

definition expire_pre_admission :: "dispatcher_env \<Rightarrow> int \<Rightarrow> (InputPayload, InputFrame) IntentRecord \<Rightarrow> unit dispatch" where
  "expire_pre_admission env now r =
     (if maxPreAdmissionAgeMs \<le> now - ib_consumedAtMs (base r) then finishNotSent env ns_pre_admission_expired (record_id r) else returnS ())"

definition expire_queued :: "dispatcher_env \<Rightarrow> int \<Rightarrow> (InputPayload, InputFrame) IntentRecord \<Rightarrow> unit dispatch" where
  "expire_queued env now r =
     (case r of
        Queued b a f deadlineAtMs \<Rightarrow>
          if deadlineAtMs \<le> now
          then bindS (finishNotSent env ns_queue_expired (record_id r)) (\<lambda>_. sealIdentityEpoch env (ad_identity a) True)
          else returnS ()
      | _ \<Rightarrow> returnS ())"

definition termination_result :: "IntentTerminationReason \<Rightarrow> InputUncertainReason" where
  "termination_result reason = (case reason of
     term_control_replaced \<Rightarrow> un_control_replaced
   | term_transport_uncertain \<Rightarrow> un_transport_uncertain
   | term_acknowledgement_timeout \<Rightarrow> un_termination_timeout)"

definition expire_active :: "dispatcher_env \<Rightarrow> int \<Rightarrow> (InputPayload, InputFrame) IntentRecord \<Rightarrow> unit dispatch" where
  "expire_active env now candidate =
     bindS (case candidate of
         Sent b a t deadlineAtMs \<Rightarrow>
           if deadlineAtMs \<le> now
           then bindS (startTermination term_acknowledgement_timeout deadlineAtMs (record_id candidate)) (\<lambda>_.
             sealIdentityEpoch env (ad_identity a) True)
           else returnS ()
       | _ \<Rightarrow> returnS ()) (\<lambda>_. readS (\<lambda>s.
     case record_of (record_id candidate) s of
       Some (Terminating b a t deadlineAtMs reason) \<Rightarrow>
         if deadlineAtMs \<le> now then finishUncertain env (termination_result reason) (record_id candidate) else returnS ()
     | _ \<Rightarrow> returnS ()))"

definition expireDeadlines :: "dispatcher_env \<Rightarrow> unit dispatch" where
  "expireDeadlines env =
     bindS (clock env) (\<lambda>now.
     bindS (ledger_read preAdmissionRecords) (\<lambda>ps. bindS (forS (expire_pre_admission env now) ps) (\<lambda>_.
     bindS (ledger_read queuedRecords) (\<lambda>qs. bindS (forS (expire_queued env now) qs) (\<lambda>_.
     bindS (ledger_read activeRecords) (\<lambda>rs. forS (expire_active env now) rs))))))"

section \<open>Transactions\<close>

definition rescheduleDeadline :: "dispatcher_env \<Rightarrow> unit dispatch" where
  "rescheduleDeadline env = bindS (ledger_read earliestDeadline) (\<lambda>e. readS (\<lambda>s.
     if e = in_deadlineAtMs s then returnS ()
     else bindS (modifyS (\<lambda>s. s\<lparr>in_deadlineTimer := (e \<noteq> None), in_deadlineAtMs := e\<rparr>)) (\<lambda>_.
       if e = None then returnS () else bindS (clock env) (\<lambda>_. returnS ()))))"

definition status_of :: "dispatcher \<Rightarrow> InputDispatcherStatus" where
  "status_of s =
     \<lparr>st_connected = (authorityTransport (in_authority s) \<noteq> None),
      st_controlReplacementRequired = controlReplacementRequired (in_authority s), st_lastStatus = in_lastStatus s,
      st_pending = length (il_activeByIdentity (in_ledger s)), st_preAdmission = length (il_preAdmissionIds (in_ledger s)),
      st_preAdmissionBytes = il_preAdmissionBytes (in_ledger s), st_queued = length (il_queueIds (in_ledger s)),
      st_queuedBytes = il_queueBytes (in_ledger s), st_replicaCurrent = in_replicaCurrent s,
      st_resizeConfirmed = in_resizeConfirmed s, st_writable = isWritableAuthority (in_authority s)\<rparr>"

definition publishStatus :: "unit dispatch" where
  "publishStatus = readS (\<lambda>s. if \<not> in_dirty s then returnS ()
     else modifyS (\<lambda>s. s\<lparr>in_dirty := False, in_statusSnapshot := status_of s\<rparr>))"

definition flushResultNotifications :: "unit dispatch" where
  "flushResultNotifications = modifyS (\<lambda>s. s\<lparr>in_effects := in_effects s @ map ResultObserved (in_resultNotifications s),
     in_resultNotifications := []\<rparr>)"

text \<open>The \<open>finally\<close> block runs after a return and after a throw.\<close>

definition end_transaction :: "dispatcher_env \<Rightarrow> unit dispatch" where
  "end_transaction env = bindS (modifyS (\<lambda>s. s\<lparr>in_mutationDepth := in_mutationDepth s - 1\<rparr>)) (\<lambda>_. readS (\<lambda>s.
     if in_mutationDepth s = 0
     then bindS (rescheduleDeadline env) (\<lambda>_. bindS publishStatus (\<lambda>_. flushResultNotifications))
     else returnS ()))"

definition transaction :: "dispatcher_env \<Rightarrow> 'a dispatch \<Rightarrow> 'a dispatch" where
  "transaction env operation s =
     (case bindS (if in_mutationDepth s = 0 then expireDeadlines env else returnS ()) (\<lambda>_. operation)
         (s\<lparr>in_mutationDepth := in_mutationDepth s + 1\<rparr>) of
        (s1, r) \<Rightarrow> (case end_transaction env s1 of
            (s2, Inl e) \<Rightarrow> (s2, Inl e)
          | (s2, Inr _) \<Rightarrow> (s2, r)))"

section \<open>Admission\<close>

definition authorityValidationReason :: "InputPayload \<Rightarrow> dispatcher \<Rightarrow> InputNotSentReason option" where
  "authorityValidationReason normalized s =
     (if \<not> isWritableAuthority (in_authority s) then Some ns_not_writable
      else case normalized of
        PayloadMouse m \<Rightarrow>
          if \<not> in_replicaCurrent s then Some ns_replica_not_current
          else if \<not> in_resizeConfirmed s then Some ns_mouse_gate else None
      | _ \<Rightarrow> None)"

definition next_identity :: "InputEpochState \<Rightarrow> InputIdentity" where
  "next_identity e = \<lparr>id_writerFence = ie_writerFence e, id_inputEpoch = ie_inputEpoch e,
     id_clientInputSeq = bigint_toString (ie_nextSequence e)\<rparr>"

definition admit_encoded ::
  "InputTransport \<Rightarrow> InputIdentity \<Rightarrow> InputFrame \<Rightarrow> nat \<Rightarrow> int \<Rightarrow> string \<Rightarrow> unit dispatch" where
  "admit_encoded t identity frame encodedBytes now i =
     bindS (set_authority (\<lambda>a. fst (allocateInputIdentity a))) (\<lambda>_.
     bindS (ledger_do (\<lambda>l. admit l i \<lparr>ad_identity = identity, ad_encodedBytes = encodedBytes, ad_admittedAtMs = now,
         ad_transportGeneration = it_generation t\<rparr> frame (now + maxQueuedAgeMs))) (\<lambda>_. markDirty))"

definition admit_payload :: "dispatcher_env \<Rightarrow> int \<Rightarrow> string \<Rightarrow> InputPayload \<Rightarrow> unit dispatch" where
  "admit_payload env now i normalized = readS (\<lambda>s.
     case (in_authority s, authorityValidationReason normalized s) of
       (OpenA h t e, None) \<Rightarrow>
         if maxPending \<le> length (il_activeByIdentity (in_ledger s)) then finishNotSent env ns_overload i
         else (case encodeInputFrame normalized (the (it_writerLease t)) (next_identity e) of
             None \<Rightarrow> finishNotSent env ns_validation i
           | Some frame \<Rightarrow>
               if \<not> canAdmit (in_ledger s) (dv_frameBytes env frame) then finishNotSent env ns_overload i
               else admit_encoded t (next_identity e) frame (dv_frameBytes env frame) now i)
     | (_, reason) \<Rightarrow> finishNotSent env (case reason of None \<Rightarrow> ns_not_writable | Some q \<Rightarrow> q) i)"

definition admit_record :: "dispatcher_env \<Rightarrow> int \<Rightarrow> string \<Rightarrow> unit dispatch" where
  "admit_record env now i = readS (\<lambda>s.
     case record_of i s of
       Some (PreAdmission b normalized n) \<Rightarrow>
         if maxPreAdmissionAgeMs \<le> now - ib_consumedAtMs b then finishNotSent env ns_pre_admission_expired i
         else admit_payload env now i normalized
     | _ \<Rightarrow> returnS ())"

text \<open>\<open>schedule\<close> is what \<open>scheduleSend\<close> comes to; it is given by the caller, see below.\<close>

definition admitPreAdmission :: "dispatcher_env \<Rightarrow> unit dispatch \<Rightarrow> unit dispatch" where
  "admitPreAdmission env schedule =
     bindS (modifyS (\<lambda>s. s\<lparr>in_admissionScheduled := False\<rparr>)) (\<lambda>_.
     bindS (ledger_read takePreAdmission) (\<lambda>(l, rs).
     bindS (modifyS (\<lambda>s. s\<lparr>in_ledger := l\<rparr>)) (\<lambda>_.
     bindS (clock env) (\<lambda>now.
     bindS (forS (admit_record env now) (map record_id rs)) (\<lambda>_. readS (\<lambda>s.
     if il_queueIds (in_ledger s) \<noteq> [] then schedule else returnS ()))))))"

definition scheduleAdmission :: "unit dispatch" where
  "scheduleAdmission = readS (\<lambda>s. if in_admissionScheduled s then returnS ()
     else modifyS (\<lambda>s. s\<lparr>in_admissionScheduled := True, in_microtasks := in_microtasks s + 1\<rparr>))"

section \<open>Consuming an event\<close>

definition nextLocalIntentId :: "dispatcher_env \<Rightarrow> string dispatch" where
  "nextLocalIntentId env s =
     (let n = in_localIntentCounter s + 1; k = in_generated s;
          candidate = (case dv_intentCandidate env k of
              Some c \<Rightarrow> if 0 < length c \<and> length c \<le> 220 then c else dv_uuid env k
            | None \<Rightarrow> dv_uuid env k)
      in (s\<lparr>in_localIntentCounter := n, in_generated := k + 1\<rparr>,
          Inr (''local-intent-'' @ bigint_toString n @ ''-'' @ candidate)))"

definition sameDimensions :: "Dimensions \<Rightarrow> Dimensions \<Rightarrow> bool" where
  "sameDimensions l r \<longleftrightarrow> di_cols l = di_cols r \<and> di_rows l = di_rows r \<and> di_widthPx l = di_widthPx r \<and> di_heightPx l = di_heightPx r"

definition note_resize :: "InputPayload \<Rightarrow> unit dispatch" where
  "note_resize validated =
     (case validated of
        PayloadResize d \<Rightarrow> modifyS (\<lambda>s. s\<lparr>in_latestResize := Some d,
          in_resizeConfirmed := (case in_latestResize s of
             None \<Rightarrow> in_resizeConfirmed s | Some p \<Rightarrow> if sameDimensions p d then in_resizeConfirmed s else False)\<rparr>)
      | _ \<Rightarrow> returnS ())"

fun pre_payload :: "('p, 'f) IntentRecord \<Rightarrow> 'p option" where
  "pre_payload (PreAdmission b p n) = Some p"
| "pre_payload r = None"

definition supersede :: "dispatcher_env \<Rightarrow> InputPayload \<Rightarrow> unit dispatch" where
  "supersede env validated = bindS (ledger_read lastPreAdmission) (\<lambda>previous.
     case previous of
       None \<Rightarrow> returnS ()
     | Some r \<Rightarrow> if isCoalesciblePayloadPair (pre_payload r) validated then finishNotSent env ns_superseded (record_id r) else returnS ())"

definition is_key_payload :: "InputPayload \<Rightarrow> bool" where
  "is_key_payload p \<longleftrightarrow> (case p of PayloadKey _ \<Rightarrow> True | _ \<Rightarrow> False)"

definition enqueue_validated :: "dispatcher_env \<Rightarrow> unit dispatch \<Rightarrow> string \<Rightarrow> InputPayload \<Rightarrow> nat \<Rightarrow> unit dispatch" where
  "enqueue_validated env schedule i validated normalizedBytes = readS (\<lambda>s.
     if \<not> canReservePreAdmission (in_ledger s) normalizedBytes then finishNotSent env ns_overload i
     else bindS (ledger_do (\<lambda>l. enqueuePreAdmission l i validated normalizedBytes)) (\<lambda>_.
       bindS (if is_key_payload validated then admitPreAdmission env schedule else scheduleAdmission) (\<lambda>_. markDirty)))"

definition consume_validated ::
  "dispatcher_env \<Rightarrow> unit dispatch \<Rightarrow> string \<Rightarrow> TerminalInputEvent \<Rightarrow> InputPayload \<Rightarrow> unit dispatch" where
  "consume_validated env schedule i event validated =
     (case dv_payloadBytes env validated of
        None \<Rightarrow> finishNotSent env ns_malformed i
      | Some normalizedBytes \<Rightarrow>
          if maxBytes < int normalizedBytes then finishNotSent env ns_overload i
          else if \<not> dv_policy env event then finishNotSent env ns_policy i
          else bindS (note_resize validated) (\<lambda>_. readS (\<lambda>s.
            case authorityValidationReason validated s of
              Some reason \<Rightarrow> finishNotSent env reason i
            | None \<Rightarrow> bindS (supersede env validated) (\<lambda>_. enqueue_validated env schedule i validated normalizedBytes))))"

text \<open>The event number is read for a key only, and a missing one is zero.\<close>

definition observed_for :: "dispatcher_env \<Rightarrow> TerminalInputEvent \<Rightarrow> int option" where
  "observed_for env event = (case event of KeyInput _ \<Rightarrow> dv_observedEventSeq env | _ \<Rightarrow> Some 0)"

definition consume :: "dispatcher_env \<Rightarrow> unit dispatch \<Rightarrow> TerminalInputEvent \<Rightarrow> unit dispatch" where
  "consume env schedule event =
     bindS (nextLocalIntentId env) (\<lambda>i.
     bindS (clock env) (\<lambda>now.
     bindS (ledger_do (\<lambda>l. createConsumed l i now)) (\<lambda>_.
     bindS (emit (IntentConsumed i)) (\<lambda>_.
     case Option.bind (observed_for env event) (normalizeInputEvent event) of
       None \<Rightarrow> finishNotSent env ns_malformed i
     | Some (kind, normalized) \<Rightarrow>
         bindS (ledger_do (\<lambda>l. identify l i kind)) (\<lambda>_.
           if \<not> validateInputPayload normalized then finishNotSent env ns_validation i
           else consume_validated env schedule i event normalized)))))"

section \<open>The other calls\<close>

definition settleControlTransport :: "dispatcher_env \<Rightarrow> bool \<Rightarrow> unit dispatch" where
  "settleControlTransport env isClosed =
     (let reason = (if isClosed then ns_closed else ns_control_replaced) in
      bindS (settlePreAdmission env reason) (\<lambda>_.
      bindS (settleQueued env reason) (\<lambda>_.
      bindS (if isClosed then finishSent env else terminateSent env) (\<lambda>_.
      bindS (sealActiveEpoch env False) (\<lambda>_.
      bindS (modifyS (\<lambda>s. s\<lparr>in_replicaCurrent := False, in_resizeConfirmed := False\<rparr>)) (\<lambda>_. markDirty))))))"

definition safeGeneratedId :: "dispatcher_env \<Rightarrow> nat \<Rightarrow> string" where
  "safeGeneratedId env k =
     (case dv_epochCandidate env k of
        Some c \<Rightarrow> if 0 < length c \<and> length c \<le> 128 then c else ''input-epoch-'' @ dv_uuid env k
      | None \<Rightarrow> ''input-epoch-'' @ dv_uuid env k)"

definition renew_epoch :: "dispatcher_env \<Rightarrow> unit dispatch" where
  "renew_epoch env = modifyS (\<lambda>s. s\<lparr>in_unusedInitialEpoch := safeGeneratedId env (in_generated s), in_generated := in_generated s + 1\<rparr>)"

definition attachTransport :: "dispatcher_env \<Rightarrow> InputTransport \<Rightarrow> unit dispatch" where
  "attachTransport env t = readS (\<lambda>s.
     bindS (case authorityTransport (in_authority s) of
         None \<Rightarrow> returnS ()
       | Some p \<Rightarrow> if it_ref p \<noteq> it_ref t then settleControlTransport env False else returnS ()) (\<lambda>_. readS (\<lambda>s.
     let (authority, accepted) = attachAuthority (in_authority s) t (in_unusedInitialEpoch s) in
     bindS (set_authority (\<lambda>_. authority)) (\<lambda>_.
     bindS (if accepted then renew_epoch env else returnS ()) (\<lambda>_. markDirty)))))"

definition detachTransport :: "dispatcher_env \<Rightarrow> bool \<Rightarrow> unit dispatch" where
  "detachTransport env isClosed =
     bindS (settleControlTransport env isClosed) (\<lambda>_. bindS (set_authority detachAuthority) (\<lambda>_. markDirty))"

definition revokeWriterAuthority :: "dispatcher_env \<Rightarrow> nat \<Rightarrow> unit dispatch" where
  "revokeWriterAuthority env ref =
     bindS (set_authority (\<lambda>a. revokeAuthority a ref)) (\<lambda>_.
     bindS (settlePreAdmission env ns_not_writable) (\<lambda>_.
     bindS (settleQueued env ns_epoch_sealed) (\<lambda>_.
     bindS (terminateSent env) (\<lambda>_.
     bindS (sealActiveEpoch env False) (\<lambda>_. markDirty)))))"

definition setReplicaCurrent :: "bool \<Rightarrow> unit dispatch" where
  "setReplicaCurrent current = readS (\<lambda>s. if in_replicaCurrent s = current then returnS ()
     else bindS (modifyS (\<lambda>s. s\<lparr>in_replicaCurrent := current\<rparr>)) (\<lambda>_. markDirty))"

fun ack_last_status :: "AckStatus \<Rightarrow> LastStatus" where
  "ack_last_status ack_is_written = last_written"
| "ack_last_status ack_is_duplicate = last_duplicate"
| "ack_last_status ack_is_rejected = last_rejected"
| "ack_last_status ack_is_uncertain = last_uncertain"

fun ack_result :: "AckStatus \<Rightarrow> DeterministicResult option" where
  "ack_result ack_is_written = Some det_written"
| "ack_result ack_is_duplicate = Some det_duplicate"
| "ack_result ack_is_rejected = Some det_rejected"
| "ack_result ack_is_uncertain = None"

definition accept_ack_of ::
  "dispatcher_env \<Rightarrow> InputAckFrame \<Rightarrow> InputIdentity \<Rightarrow> (InputPayload, InputFrame) IntentRecord \<Rightarrow> unit dispatch" where
  "accept_ack_of env frame identity r =
     bindS (modifyS (\<lambda>s. s\<lparr>in_lastStatus := ack_last_status (ac_status frame)\<rparr>)) (\<lambda>_.
       case ack_result (ac_status frame) of
         None \<Rightarrow> bindS (finishUncertain env un_input_ack_uncertain (record_id r)) (\<lambda>_. sealIdentityEpoch env identity True)
       | Some result \<Rightarrow> finishDeterministic env input_ack result (ac_authorityEventSeq frame) (record_id r))"

definition acceptAcknowledgement :: "dispatcher_env \<Rightarrow> InputAckFrame \<Rightarrow> unit dispatch" where
  "acceptAcknowledgement env frame = readS (\<lambda>s.
     case ac_writerFence frame of
       None \<Rightarrow> returnS ()
     | Some fence \<Rightarrow>
         let identity = \<lparr>id_writerFence = fence, id_inputEpoch = ac_inputEpoch frame, id_clientInputSeq = ac_clientInputSeq frame\<rparr> in
         (case getByIdentity (in_ledger s) identity of
            None \<Rightarrow> returnS ()
          | Some r \<Rightarrow> if phase r \<noteq> ph_sent \<and> phase r \<noteq> ph_terminating then returnS () else accept_ack_of env frame identity r))"

definition acceptTombstoneProof :: "dispatcher_env \<Rightarrow> InputIdentity \<Rightarrow> string \<Rightarrow> unit dispatch" where
  "acceptTombstoneProof env identity authorityEventSeq = readS (\<lambda>s.
     case getByIdentity (in_ledger s) identity of
       None \<Rightarrow> returnS ()
     | Some r \<Rightarrow> if phase r \<noteq> ph_terminating then returnS ()
         else finishDeterministic env tombstone_proof det_rejected authorityEventSeq (record_id r))"

definition confirmAuthoritativeResize :: "Dimensions \<Rightarrow> unit dispatch" where
  "confirmAuthoritativeResize d = readS (\<lambda>s.
     if in_resizeConfirmed s \<or> (case in_latestResize s of None \<Rightarrow> True | Some l \<Rightarrow> \<not> sameDimensions l d) then returnS ()
     else bindS (modifyS (\<lambda>s. s\<lparr>in_resizeConfirmed := True\<rparr>)) (\<lambda>_. markDirty))"

definition call_operation :: "dispatcher_env \<Rightarrow> unit dispatch \<Rightarrow> DispatcherCall \<Rightarrow> unit dispatch" where
  "call_operation env schedule c =
     (case c of
        AttachTransport t \<Rightarrow> transaction env (attachTransport env t)
      | DetachTransport isClosed \<Rightarrow> transaction env (detachTransport env isClosed)
      | RevokeWriterAuthority ref \<Rightarrow> transaction env (revokeWriterAuthority env ref)
      | SendInput event \<Rightarrow> transaction env (consume env schedule event)
      | ReconcileLatestResize \<Rightarrow> readS (\<lambda>s. case in_latestResize s of
            None \<Rightarrow> returnS () | Some d \<Rightarrow> transaction env (consume env schedule (ResizeInput d)))
      | SetReplicaCurrent current \<Rightarrow> transaction env (setReplicaCurrent current)
      | AcceptAcknowledgement frame \<Rightarrow> transaction env (acceptAcknowledgement env frame)
      | AcceptTombstoneProof identity q \<Rightarrow> transaction env (acceptTombstoneProof env identity q)
      | ConfirmAuthoritativeResize d \<Rightarrow> transaction env (confirmAuthoritativeResize d))"

section \<open>Draining the queue\<close>

text \<open>
  While the queue is drained \<open>scheduleSend\<close> returns at once, so that the calls a sender makes run with a \<open>schedule\<close> that does nothing.
  A sender past the end of the script makes no call and is uncertain.
\<close>

definition call_sender :: "dispatcher_env \<Rightarrow> InputTransportSendResult dispatch" where
  "call_sender env = readS (\<lambda>s.
     case in_script s of
       [] \<Rightarrow> returnS send_uncertain
     | (calls, decision) # rest \<Rightarrow>
         bindS (modifyS (\<lambda>s. s\<lparr>in_script := rest\<rparr>)) (\<lambda>_.
         bindS (forS (call_operation env (returnS ())) calls) (\<lambda>_. returnS decision)))"

definition decide_sent :: "dispatcher_env \<Rightarrow> InputTransportSendResult \<Rightarrow> InputIdentity \<Rightarrow> string \<Rightarrow> unit dispatch" where
  "decide_sent env decision identity i = readS (\<lambda>s.
     if map_option phase (record_of i s) \<noteq> Some ph_sending then returnS ()
     else bindS (clock env) (\<lambda>decidedAt.
       case decision of
         send_accepted \<Rightarrow> bindS (ledger_do (\<lambda>l. markSent l i (decidedAt + maxSentAgeMs))) (\<lambda>_. markDirty)
       | send_proven_not_accepted \<Rightarrow> bindS (finishNotSent env ns_transport_rejected i) (\<lambda>_. sealIdentityEpoch env identity True)
       | send_uncertain \<Rightarrow> bindS (startTermination term_transport_uncertain decidedAt i) (\<lambda>_. sealIdentityEpoch env identity True)))"

definition may_send :: "Admission \<Rightarrow> AuthorityState \<Rightarrow> bool" where
  "may_send a authority \<longleftrightarrow>
     (case authority of
        OpenA h t e \<Rightarrow> ad_transportGeneration a = it_generation t \<and> id_writerFence (ad_identity a) = ie_writerFence e \<and>
          id_inputEpoch (ad_identity a) = ie_inputEpoch e
      | _ \<Rightarrow> False)"

definition send_queued :: "dispatcher_env \<Rightarrow> string \<Rightarrow> Admission \<Rightarrow> InputFrame \<Rightarrow> int \<Rightarrow> unit dispatch" where
  "send_queued env i a frame now = readS (\<lambda>s.
     bindS (ledger_do (\<lambda>l. startSending l i now)) (\<lambda>_.
     bindS markDirty (\<lambda>_.
     bindS (emit (FrameHandedOver (case authorityTransport (in_authority s) of None \<Rightarrow> 0 | Some t \<Rightarrow> it_sender t) (ad_identity a) frame)) (\<lambda>_.
     bindS (call_sender env) (\<lambda>decision. decide_sent env decision (ad_identity a) i)))))"

definition drain_one :: "dispatcher_env \<Rightarrow> (InputPayload, InputFrame) IntentRecord \<Rightarrow> unit dispatch" where
  "drain_one env queued =
     (case queued of
        Queued b a frame deadlineAtMs \<Rightarrow>
          bindS (clock env) (\<lambda>now. readS (\<lambda>s.
            if deadlineAtMs \<le> now
            then bindS (finishNotSent env ns_queue_expired (record_id queued)) (\<lambda>_. sealIdentityEpoch env (ad_identity a) True)
            else if \<not> may_send a (in_authority s)
            then bindS (finishNotSent env ns_control_replaced (record_id queued)) (\<lambda>_. sealIdentityEpoch env (ad_identity a) False)
            else send_queued env (record_id queued) a frame now))
      | _ \<Rightarrow> returnS ())"

fun drain_input_loop :: "nat \<Rightarrow> dispatcher_env \<Rightarrow> unit dispatch" where
  "drain_input_loop 0 env = throwS OutOfFuel"
| "drain_input_loop (Suc n) env = bindS (ledger_read queueHead) (\<lambda>h.
     case h of None \<Rightarrow> returnS () | Some queued \<Rightarrow> bindS (drain_one env queued) (\<lambda>_. drain_input_loop n env))"

text \<open>Between two calls of a scripted sender the queue only shrinks, and it never holds more than \<open>maxCount\<close> intents.\<close>

definition drain_fuel :: "dispatcher \<Rightarrow> nat" where
  "drain_fuel s = (length (in_script s) + 1) * (maxCount + 1)"

definition drainInputQueue :: "dispatcher_env \<Rightarrow> unit dispatch" where
  "drainInputQueue env = bindS (modifyS (\<lambda>s. s\<lparr>in_sendScheduled := False\<rparr>)) (\<lambda>_. readS (\<lambda>s.
     if in_drainingQueue s then returnS ()
     else (\<lambda>s. case drain_input_loop (drain_fuel s) env (s\<lparr>in_drainingQueue := True\<rparr>) of (s1, r) \<Rightarrow> (s1\<lparr>in_drainingQueue := False\<rparr>, r))))"

text \<open>The default \<open>scheduleSendDecision\<close> calls back at once.\<close>

definition scheduleSend :: "dispatcher_env \<Rightarrow> unit dispatch" where
  "scheduleSend env = readS (\<lambda>s.
     if in_sendScheduled s \<or> in_drainingQueue s then returnS ()
     else bindS (modifyS (\<lambda>s. s\<lparr>in_sendScheduled := True\<rparr>)) (\<lambda>_. transaction env (drainInputQueue env)))"

section \<open>The dispatcher as a machine\<close>

datatype DispatcherEvent =
    Called DispatcherCall
  | MicrotaskRuns
  | TimerFires

definition dispatcher_event :: "dispatcher_env \<Rightarrow> DispatcherEvent \<Rightarrow> unit dispatch" where
  "dispatcher_event env e =
     (case e of
        Called c \<Rightarrow> call_operation env (scheduleSend env) c
      | MicrotaskRuns \<Rightarrow> readS (\<lambda>s. if in_microtasks s = 0 then returnS ()
          else bindS (modifyS (\<lambda>s. s\<lparr>in_microtasks := in_microtasks s - 1\<rparr>)) (\<lambda>_. transaction env (admitPreAdmission env (scheduleSend env))))
      | TimerFires \<Rightarrow> readS (\<lambda>s. if \<not> in_deadlineTimer s then returnS ()
          else bindS (modifyS (\<lambda>s. s\<lparr>in_deadlineTimer := False, in_deadlineAtMs := None\<rparr>)) (\<lambda>_.
            transaction env (expireDeadlines env))))"

definition initial_status :: InputDispatcherStatus where
  "initial_status = \<lparr>st_connected = False, st_controlReplacementRequired = False, st_lastStatus = last_idle, st_pending = 0,
     st_preAdmission = 0, st_preAdmissionBytes = 0, st_queued = 0, st_queuedBytes = 0, st_replicaCurrent = False,
     st_resizeConfirmed = False, st_writable = False\<rparr>"

definition InputDispatcher :: "dispatcher_env \<Rightarrow> dispatcher" where
  "InputDispatcher env =
     \<lparr>in_ledger = emptyLedger, in_resultNotifications = [], in_authority = initialAuthorityState,
      in_unusedInitialEpoch = safeGeneratedId env 0, in_admissionScheduled = False, in_drainingQueue = False, in_sendScheduled = False,
      in_deadlineTimer = False, in_deadlineAtMs = None, in_localIntentCounter = 0, in_latestResize = None, in_replicaCurrent = False,
      in_resizeConfirmed = False, in_lastStatus = last_idle, in_mutationDepth = 0, in_dirty = True,
      in_statusSnapshot = initial_status, in_microtasks = 0, in_clockReads = 0, in_generated = 1, in_script = [], in_effects = []\<rparr>"

text \<open>One event with its environment and the script of the senders it calls.\<close>

type_synonym dispatcher_input = "dispatcher_env \<times> (DispatcherCall list \<times> InputTransportSendResult) list \<times> DispatcherEvent"

definition dispatcher_step :: "dispatcher \<Rightarrow> dispatcher_input \<Rightarrow> dispatcher" where
  "dispatcher_step s e = (case e of (env, script, ev) \<Rightarrow> fst (dispatcher_event env ev (s\<lparr>in_script := script\<rparr>)))"

section \<open>The dispatcher's self-check\<close>

definition queued_current :: "AuthorityState \<Rightarrow> (InputPayload, InputFrame) ledger \<Rightarrow> bool" where
  "queued_current authority l \<longleftrightarrow>
     list_all (\<lambda>i. case Option.bind (jm_get (il_records l) i) admission of None \<Rightarrow> False | Some a \<Rightarrow> may_send a authority) (il_queueIds l)"

text \<open>\<open>True\<close> exactly when the private \<open>assertInvariants(true)\<close> does not throw.\<close>

definition dispatcher_assertInvariants :: "dispatcher \<Rightarrow> bool" where
  "dispatcher_assertInvariants s \<longleftrightarrow>
     assertInvariants (in_ledger s) \<and> assertAuthorityInvariants (in_authority s) \<and> in_resultNotifications s = [] \<and>
     (if isWritableAuthority (in_authority s) then queued_current (in_authority s) (in_ledger s) else il_queueIds (in_ledger s) = [])"

end
