(* ===== verification/Triples.thy ===== *)
theory Triples
  imports Prelude
begin

text \<open>
  Total correctness of code that updates its state and may throw: \<open>succeeds P m Q\<close> says that from a state in \<open>P\<close> the operation \<open>m\<close>
  returns, without a throw, in a state that satisfies \<open>Q\<close> with the value returned.
\<close>

definition succeeds :: "('s \<Rightarrow> bool) \<Rightarrow> ('s, 'e, 'a) se \<Rightarrow> ('s \<Rightarrow> 'a \<Rightarrow> bool) \<Rightarrow> bool" where
  "succeeds P m Q \<longleftrightarrow> (\<forall>s. P s \<longrightarrow> (\<exists>s' x. m s = (s', Inr x) \<and> Q s' x))"

named_theorems succeeds_intro \<open>total triples of operations\<close>

lemma succeedsI: "(\<And>s. P s \<Longrightarrow> \<exists>s' x. m s = (s', Inr x) \<and> Q s' x) \<Longrightarrow> succeeds P m Q"
  by (simp add: succeeds_def)

lemma succeedsD: "succeeds P m Q \<Longrightarrow> P s \<Longrightarrow> \<exists>s' x. m s = (s', Inr x) \<and> Q s' x"
  by (simp add: succeeds_def)

lemma succeedsE:
  assumes "succeeds P m Q" and "P s"
  obtains s' x where "m s = (s', Inr x)" "Q s' x"
  using assms by (auto simp: succeeds_def)

lemma succeeds_conseq: "succeeds P' m Q' \<Longrightarrow> (\<And>s. P s \<Longrightarrow> P' s) \<Longrightarrow> (\<And>s x. Q' s x \<Longrightarrow> Q s x) \<Longrightarrow> succeeds P m Q"
  unfolding succeeds_def by metis

lemma succeeds_post: "succeeds P m Q' \<Longrightarrow> (\<And>s x. Q' s x \<Longrightarrow> Q s x) \<Longrightarrow> succeeds P m Q"
  by (rule succeeds_conseq)

lemma succeeds_pre: "succeeds P' m Q \<Longrightarrow> (\<And>s. P s \<Longrightarrow> P' s) \<Longrightarrow> succeeds P m Q"
  by (rule succeeds_conseq)

lemma succeeds_return [succeeds_intro]: "(\<And>s. P s \<Longrightarrow> Q s x) \<Longrightarrow> succeeds P (returnS x) Q"
  by (auto simp: succeeds_def returnS_def)

lemma succeeds_modify: "(\<And>s. P s \<Longrightarrow> Q (f s) ()) \<Longrightarrow> succeeds P (modifyS f) Q"
  by (auto simp: succeeds_def modifyS_def)

lemma succeeds_read: "(\<And>s. P s \<Longrightarrow> succeeds (\<lambda>t. t = s) (k s) Q) \<Longrightarrow> succeeds P (readS k) Q"
  by (auto simp: succeeds_def readS_def)

lemma succeeds_bind:
  assumes "succeeds P m R" and "\<And>x. succeeds (\<lambda>s. R s x) (k x) Q"
  shows "succeeds P (bindS m k) Q"
proof (rule succeedsI)
  fix s assume "P s"
  then obtain s1 x where "m s = (s1, Inr x)" "R s1 x" by (rule succeedsE [OF assms(1)])
  with succeedsD [OF assms(2), of s1 x] show "\<exists>s' x. bindS m k s = (s', Inr x) \<and> Q s' x" by (simp add: bindS_def)
qed

lemma succeeds_at: "(\<And>s. P s \<Longrightarrow> succeeds (\<lambda>t. t = s) m Q) \<Longrightarrow> succeeds P m Q"
  by (auto simp: succeeds_def)

lemma succeeds_conj: "succeeds P m Q \<Longrightarrow> succeeds P m R \<Longrightarrow> succeeds P m (\<lambda>s x. Q s x \<and> R s x)"
  unfolding succeeds_def by (metis Pair_inject sum.inject(2))

lemma succeeds_if: "(b \<Longrightarrow> succeeds P m Q) \<Longrightarrow> (\<not> b \<Longrightarrow> succeeds P m' Q) \<Longrightarrow> succeeds P (if b then m else m') Q"
  by simp

text \<open>A loop over a list: the invariant speaks of what is still to be done.\<close>

lemma succeeds_for:
  assumes "\<And>x xs. succeeds (I (x # xs)) (f x) (\<lambda>s _. I xs s)"
  shows "succeeds (I xs) (forS f xs) (\<lambda>s _. I [] s)"
proof (induction xs)
  case Nil
  show ?case by (simp add: succeeds_def returnS_def)
next
  case (Cons x xs)
  have "succeeds (I (x # xs)) (bindS (f x) (\<lambda>_. forS f xs)) (\<lambda>s _. I [] s)"
    by (rule succeeds_bind, rule assms, rule Cons.IH)
  then show ?case by simp
qed

end
