(* ===== verification/Input_Dispatcher_Core.thy ===== *)
theory Input_Dispatcher_Core
  imports Input_Dispatcher Intent_Ledger_Props Triples
begin

text \<open>
  The invariant of the input dispatcher within a transaction, and how each change of the ledger and of the authority keeps it: every
  index of the ledger is exact, the queue belongs to the open authority, the identities handed over and queued rise, and every
  consumed intent is live or has one result.
\<close>

section \<open>What the ledger's operations do to the live records\<close>

definition live :: "('p, 'f) ledger \<Rightarrow> string \<Rightarrow> ('p, 'f) IntentRecord \<Rightarrow> bool" where
  "live l i r \<longleftrightarrow> jm_get (il_records l) i = Some r \<and> phase r \<noteq> ph_terminal"

lemma live_fun: "live l i r \<Longrightarrow> live l i r' \<Longrightarrow> r' = r"
  by (simp add: live_def)

lemma ledger_id: "ledger_inv l \<Longrightarrow> jm_get (il_records l) i = Some r \<Longrightarrow> record_id r = i"
  using ledger_invD(3) [of l] by (auto simp: terminal_ok_def record_id_def)

lemma queued_live: "ledger_inv l \<Longrightarrow> i \<in> set (il_queueIds l) \<longleftrightarrow> (\<exists>r. live l i r \<and> phase r = ph_queued)"
  using queue_index_mem [OF ledger_invD(5), of l i] by (auto simp: live_def)

lemma pre_live: "ledger_inv l \<Longrightarrow> i \<in> set (il_preAdmissionIds l) \<Longrightarrow> \<exists>r. live l i r \<and> phase r = ph_pre_admission"
  using pre_index_mem [OF ledger_invD(4), of l i] by (auto simp: live_def)

lemma index_distinct: "ledger_inv l \<Longrightarrow> distinct (il_queueIds l) \<and> distinct (il_preAdmissionIds l)"
  using ledger_invD(4,5) [of l] by (simp add: pre_index_def queue_index_def)

definition bytes_held :: "('p, 'f) ledger \<Rightarrow> int" where
  "bytes_held l = il_preAdmissionBytes l + il_queueBytes l"

definition finishes :: "string \<Rightarrow> InputIntentResult \<Rightarrow> ('p, 'f) ledger \<Rightarrow> ('p, 'f) ledger \<Rightarrow> bool" where
  "finishes i res l l' \<longleftrightarrow> ledger_inv l' \<and>
     il_preAdmissionIds l' = remove1 i (il_preAdmissionIds l) \<and> il_queueIds l' = remove1 i (il_queueIds l) \<and>
     bytes_held l' \<le> bytes_held l \<and> (\<forall>j r. live l' j r \<longleftrightarrow> j \<noteq> i \<and> live l j r) \<and>
     (\<forall>j r. jm_get (il_records l') j = Some r \<longrightarrow> phase r = ph_terminal \<longrightarrow>
        jm_get (il_records l) j = Some r \<or> j = i \<and> record_result r = Some res)"

lemma unindex_index:
  assumes inv: "ledger_inv l" and r: "live l i r"
  shows "il_preAdmissionIds (unindex i r l) = remove1 i (il_preAdmissionIds l)" "il_queueIds (unindex i r l) = remove1 i (il_queueIds l)"
    "bytes_held (unindex i r l) \<le> bytes_held l"
proof -
  have pre: "i \<in> set (il_preAdmissionIds l) \<Longrightarrow> phase r = ph_pre_admission" and queue: "i \<in> set (il_queueIds l) \<longleftrightarrow> phase r = ph_queued"
    using pre_live [OF inv, of i] queued_live [OF inv, of i] r live_fun by blast+
  have "il_preAdmissionIds (unindex i r l) = remove1 i (il_preAdmissionIds l) \<and> il_queueIds (unindex i r l) = remove1 i (il_queueIds l) \<and>
    bytes_held (unindex i r l) \<le> bytes_held l"
  proof (cases "phase r = ph_pre_admission \<or> phase r = ph_queued")
    case False
    then have "i \<notin> set (il_preAdmissionIds l)" "i \<notin> set (il_queueIds l)" using pre queue by auto
    then show ?thesis using False by (cases r) (simp_all add: unindex_def record_identity_def bytes_held_def Let_def remove1_idem)
  next
    case True
    then show ?thesis
    proof
      assume "phase r = ph_pre_admission"
      then obtain b p n where "r = PreAdmission b p n" by (auto simp: phase_cases)
      with queue show ?thesis by (simp add: unindex_def record_identity_def removePreAdmission_def bytes_held_def Let_def remove1_idem)
    next
      assume "phase r = ph_queued"
      then obtain b a f d where "r = Queued b a f d" by (auto simp: phase_cases)
      moreover have "i \<notin> set (il_preAdmissionIds l)" using pre \<open>phase r = ph_queued\<close> by auto
      ultimately show ?thesis using queue by (simp add: unindex_def record_identity_def removeQueued_def bytes_held_def Let_def remove1_idem)
    qed
  qed
  then show "il_preAdmissionIds (unindex i r l) = remove1 i (il_preAdmissionIds l)" "il_queueIds (unindex i r l) = remove1 i (il_queueIds l)"
    "bytes_held (unindex i r l) \<le> bytes_held l" by blast+
qed

lemma evict_keeps_live:
  assumes "retention_inv l order recs" and "evict order recs = (order', recs')"
    and "jm_get recs i = Some r" and "phase r \<noteq> ph_terminal"
  shows "jm_get recs' i = Some r"
  using assms
proof (induction order arbitrary: recs)
  case (Cons j order)
  from drop_terminal [OF Cons.prems(1)] obtain q where q: "jm_get recs j = Some q" "phase q = ph_terminal"
    and keep: "retention_inv l order (jm_delete j recs)" by blast
  show ?case
  proof (cases "maxRetainedResults < length (j # order)")
    case True
    with Cons.prems(2) q have e: "evict order (jm_delete j recs) = (order', recs')" by simp
    have "jm_get (jm_delete j recs) i = Some r" using Cons.prems(3,4) q by (auto simp: jm_get_delete)
    then show ?thesis by (rule Cons.IH [OF keep e _ Cons.prems(4)])
  qed (use Cons.prems in auto)
qed simp

lemma finish_finishes:
  assumes inv: "ledger_inv l" and r: "live l i r" and m: "result_matches r res"
  shows "\<exists>l'. finish l i res = Inr (Some l') \<and> finishes i res l l'"
proof -
  have r': "jm_get (il_records l) i = Some r" "phase r \<noteq> ph_terminal" using r by (auto simp: live_def)
  obtain order recs where e: "evict (il_terminalOrder l @ [i]) (jm_set i (terminalRecord r res) (il_records l)) = (order, recs)" by fastforce
  let ?l = "(put i (terminalRecord r res) (unindex i r l))\<lparr>il_terminalOrder := order, il_records := recs\<rparr>"
  have f: "finish l i res = Inr (Some ?l)" using r' m e by (simp add: finish_def Let_def put_def)
  note ret = finish_indexes(1) [OF inv r' m]
  note ev = evict_inv [OF ret e] and u = unindex_index [OF inv r]
  have get: "jm_get recs j = (if j = i then Some (terminalRecord r res) else jm_get (il_records l) j) \<or> jm_get recs j = None" for j
    using ev by (auto simp: jm_get_set)
  have live: "live ?l j q \<longleftrightarrow> j \<noteq> i \<and> live l j q" for j q
  proof
    assume "live ?l j q"
    then show "j \<noteq> i \<and> live l j q" using get [of j] by (auto simp: live_def terminalRecord_phase split: if_splits)
  next
    assume "j \<noteq> i \<and> live l j q"
    then show "live ?l j q" using evict_keeps_live [OF ret e, of j q] by (auto simp: live_def jm_get_set)
  qed
  have "jm_get (il_records l) j = Some q \<or> j = i \<and> record_result q = Some res" if "jm_get (il_records ?l) j = Some q" for j q
    using get [of j] that by (auto simp: terminalRecord_phase split: if_splits)
  moreover have "ledger_inv ?l" using finish_inv [OF inv f] .
  ultimately have "finishes i res l ?l" unfolding finishes_def using u live by (simp add: bytes_held_def put_def)
  with f show ?thesis by blast
qed

text \<open>A change of one live record that touches no index.\<close>

definition replaces :: "string \<Rightarrow> ('p, 'f) IntentRecord \<Rightarrow> ('p, 'f) ledger \<Rightarrow> ('p, 'f) ledger \<Rightarrow> bool" where
  "replaces i r' l l' \<longleftrightarrow> ledger_inv l' \<and> il_preAdmissionIds l' = il_preAdmissionIds l \<and> il_queueIds l' = il_queueIds l \<and>
     bytes_held l' = bytes_held l \<and> jm_get (il_records l') = (jm_get (il_records l))(i \<mapsto> r')"

lemma live_replaces: "replaces i r' l l' \<Longrightarrow> phase r' \<noteq> ph_terminal \<Longrightarrow> live l' j q \<longleftrightarrow> (if j = i then q = r' else live l j q)"
  by (auto simp: replaces_def live_def)

lemma put_replaces: "ledger_inv (put i r l) \<Longrightarrow> replaces i r l (put i r l)"
  by (simp add: replaces_def jm_get_put bytes_held_def)

section \<open>The invariant\<close>

text \<open>
  Records in the middle of an owner turn: the marked ids are those being handed to a sender, the others have been consumed or taken
  out of the pre-admission queue.
\<close>

type_synonym mid_turn = "(bool \<times> string) set"

abbreviation both :: "string set \<Rightarrow> mid_turn" where "both I \<equiv> UNIV \<times> I"

definition transient :: "('p, 'f) ledger \<Rightarrow> string \<Rightarrow> ('p, 'f) IntentRecord \<Rightarrow> bool" where
  "transient l i r \<longleftrightarrow> phase r = ph_consumed \<or> phase r = ph_sending \<or> phase r = ph_pre_admission \<and> i \<notin> set (il_preAdmissionIds l)"

definition ledger_ok :: "mid_turn \<Rightarrow> ('p, 'f) ledger \<Rightarrow> bool" where
  "ledger_ok A l \<longleftrightarrow> ledger_inv l \<and> (\<forall>i r. live l i r \<and> transient l i r \<longrightarrow> (phase r = ph_sending, i) \<in> A) \<and>
     length (il_preAdmissionIds l) + length (il_queueIds l) \<le> maxCount \<and> bytes_held l \<le> maxBytes"

definition queue_ok :: "AuthorityState \<Rightarrow> ('p, 'f) ledger \<Rightarrow> bool" where
  "queue_ok authority l \<longleftrightarrow> (\<forall>i \<in> set (il_queueIds l). \<exists>r a. live l i r \<and> admission r = Some a \<and> may_send a authority)"

text \<open>Transport objects: \<open>T\<close> gives those the callers hold; the ones the authority creates are not among them.\<close>

definition open_known :: "(nat \<Rightarrow> InputTransport option) \<Rightarrow> AuthorityState \<Rightarrow> bool" where
  "open_known T authority \<longleftrightarrow> (case authority of OpenA h t e \<Rightarrow> T (it_ref t) = Some t | _ \<Rightarrow> True)"

definition ident_less :: "InputIdentity \<Rightarrow> InputIdentity \<Rightarrow> bool" where
  "ident_less x y \<longleftrightarrow> rank_less (identity_rank x) (identity_rank y)"

definition canonical_ident :: "InputIdentity \<Rightarrow> bool" where
  "canonical_ident x \<longleftrightarrow> (\<exists>f n. 0 < f \<and> 1 \<le> n \<and> id_writerFence x = bigint_toString f \<and> id_clientInputSeq x = bigint_toString n)"

definition ident_ok :: "AuthorityState \<Rightarrow> InputIdentity \<Rightarrow> bool" where
  "ident_ok authority x \<longleftrightarrow> rank_less (identity_rank x) (next_rank authority) \<and> canonical_ident x \<and>
     (\<forall>e. authorityEpoch authority = Some e \<longrightarrow> ie_writerFence e = id_writerFence x \<longrightarrow> id_inputEpoch x = ie_inputEpoch e)"

definition queue_idents :: "('p, 'f) ledger \<Rightarrow> InputIdentity list" where
  "queue_idents l = List.map_filter (\<lambda>i. Option.bind (jm_get (il_records l) i) record_identity) (il_queueIds l)"

definition idents_ok :: "AuthorityState \<Rightarrow> ('p, 'f) ledger \<Rightarrow> InputIdentity list \<Rightarrow> bool" where
  "idents_ok authority l sent \<longleftrightarrow> sorted_wrt ident_less (sent @ queue_idents l) \<and>
     (\<forall>x \<in> set (sent @ queue_idents l). ident_ok authority x) \<and>
     (\<forall>i r x. live l i r \<and> record_identity r = Some x \<longrightarrow> x \<in> set (sent @ queue_idents l))"

definition named :: "int \<Rightarrow> string \<Rightarrow> bool" where
  "named n i \<longleftrightarrow> (\<exists>k c. 1 \<le> k \<and> k \<le> n \<and> i = ''local-intent-'' @ bigint_toString k @ ''-'' @ c)"

definition results_ok :: "int \<Rightarrow> ('p, 'f) ledger \<Rightarrow> string list \<Rightarrow> InputIntentResult list \<Rightarrow> bool" where
  "results_ok n l accepted results \<longleftrightarrow> 0 \<le> n \<and> distinct accepted \<and> distinct (map ir_localIntentId results) \<and>
     ir_localIntentId ` set results \<subseteq> set accepted \<and> (\<forall>i \<in> set accepted. named n i) \<and>
     (\<forall>i. (\<exists>r. live l i r) \<longleftrightarrow> i \<in> set accepted \<and> i \<notin> ir_localIntentId ` set results) \<and>
     (\<forall>i r res. jm_get (il_records l) i = Some r \<and> record_result r = Some res \<longrightarrow> res \<in> set results)"

definition sent_idents :: "dispatcher \<Rightarrow> InputIdentity list" where
  "sent_idents s = List.map_filter (\<lambda>e. case e of FrameHandedOver t x f \<Rightarrow> Some x | _ \<Rightarrow> None) (in_effects s)"

definition accepted_ids :: "dispatcher \<Rightarrow> string list" where
  "accepted_ids s = List.map_filter (\<lambda>e. case e of IntentConsumed i \<Rightarrow> Some i | _ \<Rightarrow> None) (in_effects s)"

definition observed_results :: "dispatcher \<Rightarrow> InputIntentResult list" where
  "observed_results s = List.map_filter (\<lambda>e. case e of ResultObserved r \<Rightarrow> Some r | _ \<Rightarrow> None) (in_effects s)"

definition core :: "(nat \<Rightarrow> InputTransport option) \<Rightarrow> mid_turn \<Rightarrow> bool \<Rightarrow> dispatcher \<Rightarrow> bool" where
  "core T A q s \<longleftrightarrow> ledger_ok A (in_ledger s) \<and> assertAuthorityInvariants (in_authority s) \<and> open_known T (in_authority s) \<and>
     (q \<longrightarrow> queue_ok (in_authority s) (in_ledger s)) \<and> idents_ok (in_authority s) (in_ledger s) (sent_idents s) \<and>
     results_ok (in_localIntentCounter s) (in_ledger s) (accepted_ids s) (observed_results s @ in_resultNotifications s)"

lemma core_cong:
  "core T A q s \<Longrightarrow> in_ledger s' = in_ledger s \<Longrightarrow> in_authority s' = in_authority s \<Longrightarrow> in_effects s' = in_effects s \<Longrightarrow>
   in_resultNotifications s' = in_resultNotifications s \<Longrightarrow> in_localIntentCounter s' = in_localIntentCounter s \<Longrightarrow> core T A q s'"
  by (simp add: core_def sent_idents_def accepted_ids_def observed_results_def)

lemma core_mono: "core T A q s \<Longrightarrow> A \<subseteq> B \<Longrightarrow> (p \<Longrightarrow> q) \<Longrightarrow> core T B p s"
  by (auto simp: core_def ledger_ok_def)

lemma core_inv: "core T A q s \<Longrightarrow> ledger_inv (in_ledger s)"
  by (simp add: core_def ledger_ok_def)

lemma core_empty_queue: "core T A q s \<Longrightarrow> il_queueIds (in_ledger s) = [] \<Longrightarrow> core T A True s"
  by (simp add: core_def queue_ok_def)

section \<open>How the parts follow a change of the ledger\<close>

lemma map_filter_same: "(\<And>i. i \<in> set xs \<Longrightarrow> g i = f i) \<Longrightarrow> List.map_filter g xs = List.map_filter f xs"
  by (induction xs) (simp_all add: List.map_filter_simps split: option.split)

lemma set_map_filter_sub: "set (List.map_filter f (filter Q xs)) \<subseteq> set (List.map_filter f xs)"
  by (induction xs) (auto simp: List.map_filter_simps split: option.splits)

lemma sorted_map_filter: "sorted_wrt P (List.map_filter f xs) \<Longrightarrow> sorted_wrt P (List.map_filter f (filter Q xs))"
proof (induction xs)
  case (Cons x xs)
  then show ?case using set_map_filter_sub [of f Q xs] by (cases "f x") (auto simp: List.map_filter_simps)
qed (simp add: List.map_filter_simps)

lemma set_map_filter: "y \<in> set (List.map_filter f xs) \<longleftrightarrow> (\<exists>x \<in> set xs. f x = Some y)"
  by (induction xs) (auto simp: List.map_filter_simps split: option.split)

text \<open>An intent is settled.\<close>

lemma finishesD:
  assumes "finishes i res l l'" and "ledger_inv l"
  shows "ledger_inv l'" "il_preAdmissionIds l' = remove1 i (il_preAdmissionIds l)" "il_queueIds l' = remove1 i (il_queueIds l)"
    "set (il_preAdmissionIds l') = set (il_preAdmissionIds l) - {i}" "set (il_queueIds l') = set (il_queueIds l) - {i}"
    "il_queueIds l' = filter (\<lambda>j. j \<noteq> i) (il_queueIds l)"
    "bytes_held l' \<le> bytes_held l" "live l' j r \<longleftrightarrow> j \<noteq> i \<and> live l j r"
proof -
  have r: "remove1 i xs = filter (\<lambda>j. j \<noteq> i) xs" if "distinct xs" for xs :: "string list"
    using that by (induction xs) (auto intro: filter_True [symmetric])
  have f: "il_preAdmissionIds l' = remove1 i (il_preAdmissionIds l)" "il_queueIds l' = remove1 i (il_queueIds l)"
    using assms(1) by (simp_all add: finishes_def)
  then show "il_preAdmissionIds l' = remove1 i (il_preAdmissionIds l)" "il_queueIds l' = remove1 i (il_queueIds l)" by simp_all
  show "il_queueIds l' = filter (\<lambda>j. j \<noteq> i) (il_queueIds l)" using f r index_distinct [OF assms(2)] by simp
  show "set (il_preAdmissionIds l') = set (il_preAdmissionIds l) - {i}" "set (il_queueIds l') = set (il_queueIds l) - {i}"
    using f index_distinct [OF assms(2)] by simp_all
  show "ledger_inv l'" "bytes_held l' \<le> bytes_held l" "live l' j r \<longleftrightarrow> j \<noteq> i \<and> live l j r" using assms(1) by (simp_all add: finishes_def)
qed

lemma ledger_ok_finishes:
  assumes "ledger_ok A l" and "finishes i res l l'"
  shows "ledger_ok (A - both {i}) l'"
proof -
  have inv: "ledger_inv l" using assms(1) by (simp add: ledger_ok_def)
  note f = finishesD [OF assms(2) inv]
  have "(phase r = ph_sending, j) \<in> A - both {i}" if "live l' j r" "transient l' j r" for j r
    using that assms(1) f(4,8) by (auto simp: ledger_ok_def transient_def)
  moreover have "length (il_preAdmissionIds l') + length (il_queueIds l') \<le> length (il_preAdmissionIds l) + length (il_queueIds l)"
    unfolding f(2,3) length_remove1 by (auto split: if_splits)
  ultimately show ?thesis using assms(1) f(1,7) unfolding ledger_ok_def by (meson order_trans)
qed

lemma queue_ok_finishes: "queue_ok authority l \<Longrightarrow> finishes i res l l' \<Longrightarrow> ledger_inv l \<Longrightarrow> queue_ok authority l'"
  by (auto simp: queue_ok_def finishesD(5,8))

lemma queue_idents_finishes:
  assumes inv: "ledger_inv l" and f: "finishes i res l l'"
  shows "queue_idents l' = List.map_filter (\<lambda>i. Option.bind (jm_get (il_records l) i) record_identity) (filter (\<lambda>j. j \<noteq> i) (il_queueIds l))"
proof -
  have "jm_get (il_records l') j = jm_get (il_records l) j" if "j \<in> set (filter (\<lambda>j. j \<noteq> i) (il_queueIds l))" for j
  proof -
    from that queued_live [OF inv, of j] obtain r where r: "live l j r" "j \<noteq> i" by auto
    then have "live l' j r" by (simp add: finishesD [OF f inv])
    with r show ?thesis by (simp add: live_def)
  qed
  then show ?thesis unfolding queue_idents_def finishesD(6) [OF f inv] by (intro map_filter_same) simp
qed

lemma live_ident_unique:
  assumes "ledger_inv l" and "live l i r" "live l j r'" and "record_identity r = Some x" "record_identity r' = Some x"
  shows "i = j"
proof -
  have "active_key r = Some (identityKey x)" "active_key r' = Some (identityKey x)" using assms by (simp_all add: active_key_def live_def)
  with ledger_invD(7) [OF assms(1)] assms(2,3) have "jm_get (il_activeByIdentity l) (identityKey x) = Some i"
      "jm_get (il_activeByIdentity l) (identityKey x) = Some j" by (auto simp: active_index_def live_def)
  then show ?thesis by simp
qed

lemma idents_ok_finishes:
  assumes ok: "idents_ok authority l sent" and inv: "ledger_inv l" and f: "finishes i res l l'"
  shows "idents_ok authority l' sent"
proof -
  let ?g = "\<lambda>i. Option.bind (jm_get (il_records l) i) record_identity"
  note q = queue_idents_finishes [OF inv f]
  have sub: "set (queue_idents l') \<subseteq> set (queue_idents l)" unfolding q unfolding queue_idents_def by (rule set_map_filter_sub)
  have "sorted_wrt ident_less (sent @ queue_idents l')"
    using ok sub sorted_map_filter [of ident_less ?g "il_queueIds l" "\<lambda>j. j \<noteq> i"]
    by (auto simp: idents_ok_def sorted_wrt_append q [symmetric] queue_idents_def [of l, symmetric])
  moreover have "x \<in> set (sent @ queue_idents l')" if r: "live l' j r" "record_identity r = Some x" for j r x
  proof -
    have j: "j \<noteq> i" "live l j r" using f r(1) by (auto simp: finishes_def)
    with ok r(2) have "x \<in> set sent \<or> x \<in> set (queue_idents l)" by (auto simp: idents_ok_def)
    then show ?thesis
    proof
      assume "x \<in> set (queue_idents l)"
      then obtain k where k: "k \<in> set (il_queueIds l)" "?g k = Some x" by (auto simp: queue_idents_def set_map_filter)
      show ?thesis
      proof (cases "k = i")
        case False
        with k show ?thesis by (auto simp: q set_map_filter)
      next
        case True
        with k queued_live [OF inv, of i] obtain r' where "live l i r'" "record_identity r' = Some x" by (auto simp: live_def)
        with live_ident_unique [OF inv j(2) _ r(2)] j(1) show ?thesis by blast
      qed
    qed simp
  qed
  ultimately show ?thesis using ok sub by (auto simp: idents_ok_def)
qed


lemma results_ok_finishes:
  assumes ok: "results_ok n l accepted results" and inv: "ledger_inv l" and r: "live l i r" and f: "finishes i res l l'"
    and res: "ir_localIntentId res = i"
  shows "results_ok n l' accepted (results @ [res])"
proof -
  have i: "i \<in> set accepted" "i \<notin> ir_localIntentId ` set results" using ok r by (auto simp: results_ok_def)
  have kept: "\<forall>j q res'. jm_get (il_records l') j = Some q \<and> record_result q = Some res' \<longrightarrow> res' \<in> set (results @ [res])"
  proof (intro allI impI, elim conjE)
    fix j q res' assume that: "jm_get (il_records l') j = Some q" "record_result q = Some res'"
    have "phase q = ph_terminal" using phase_result that(2) by force
    with that(1) f have "jm_get (il_records l) j = Some q \<or> record_result q = Some res" by (auto simp: finishes_def)
    with ok that(2) show "res' \<in> set (results @ [res])" by (auto simp: results_ok_def)
  qed
  have "(\<exists>r. live l' j r) \<longleftrightarrow> j \<in> set accepted \<and> j \<notin> ir_localIntentId ` set (results @ [res])" for j
    using ok i res by (auto simp: results_ok_def finishesD(8) [OF f inv])
  with ok i res kept show ?thesis unfolding results_ok_def by simp
qed

section \<open>Settling\<close>

lemma settle_live:
  assumes core: "core T A q s" and r: "live (in_ledger s) i r"
  obtains s' l' res where "settle env st oc i s = (s', Inr ())"
    "s' = s\<lparr>in_lastStatus := st, in_clockReads := in_clockReads s + 1, in_ledger := l',
       in_resultNotifications := in_resultNotifications s @ [res], in_dirty := True\<rparr>"
    "finishes i res (in_ledger s) l'" "ir_localIntentId res = i" "ir_outcome res = oc" "ir_identity res = record_identity r"
proof -
  note inv = core_inv [OF core]
  have r': "jm_get (il_records (in_ledger s)) i = Some r" "phase r \<noteq> ph_terminal" using r by (simp_all add: live_def)
  have id: "record_id r = i" by (rule ledger_id [OF inv r'(1)])
  let ?res = "\<lparr>ir_localIntentId = i, ir_kind = ib_kind (base r), ir_identity = record_identity r,
     ir_consumedAtMs = ib_consumedAtMs (base r), ir_terminalAtMs = dv_now env (in_clockReads s), ir_outcome = oc\<rparr>"
  have "result_matches r ?res" using id by (auto simp: result_matches_def record_id_def sameIdentity_def split: option.split)
  from finish_finishes [OF inv r this] obtain l' where l': "finish (in_ledger s) i ?res = Inr (Some l')" "finishes i ?res (in_ledger s) l'" by blast
  let ?s = "s\<lparr>in_lastStatus := st, in_clockReads := in_clockReads s + 1, in_ledger := l',
     in_resultNotifications := in_resultNotifications s @ [?res], in_dirty := True\<rparr>"
  have run: "settle env st oc i s = (?s, Inr ())" using r' id l'(1)
    by (simp add: settle_def record_of_def readS_def bindS_def modifyS_def clock_def finish_intent_def ledger_read_def)
  show thesis by (rule that [OF run refl l'(2)]) simp_all
qed

text \<open>What a settlement leaves of the indexes, of the authority and of the fields it does not touch.\<close>

definition frame :: "dispatcher \<Rightarrow>
    nat \<times> bool \<times> int option \<times> bool \<times> bool \<times> (DispatcherCall list \<times> InputTransportSendResult) list \<times> bool \<times> nat" where
  "frame s = (in_mutationDepth s, in_deadlineTimer s, in_deadlineAtMs s, in_drainingQueue s, in_sendScheduled s, in_script s,
     in_admissionScheduled s, in_microtasks s)"

definition dropped :: "string set \<Rightarrow> dispatcher \<Rightarrow> dispatcher \<Rightarrow> bool" where
  "dropped I s s' \<longleftrightarrow> frame s' = frame s \<and> in_authority s' = in_authority s \<and>
     set (il_queueIds (in_ledger s')) = set (il_queueIds (in_ledger s)) - I \<and>
     set (il_preAdmissionIds (in_ledger s')) = set (il_preAdmissionIds (in_ledger s)) - I \<and>
     (\<forall>j r. live (in_ledger s') j r \<longleftrightarrow> j \<notin> I \<and> live (in_ledger s) j r)"

lemma settle_core:
  assumes core: "core T A q s"
  shows "\<exists>s'. settle env st oc i s = (s', Inr ()) \<and> core T (A - both {i}) q s' \<and> dropped {i} s s'"
proof (cases "\<exists>r. live (in_ledger s) i r")
  case False
  note inv = core_inv [OF core]
  have "settle env st oc i s = (s, Inr ())" using False
    by (auto simp: settle_def readS_def record_of_def live_def returnS_def split: option.split)
  moreover have "core T (A - both {i}) q s" using core False unfolding core_def ledger_ok_def by blast
  moreover have "dropped {i} s s" using False queued_live [OF inv, of i] pre_live [OF inv, of i] by (auto simp: dropped_def)
  ultimately show ?thesis by blast
next
  case True
  then obtain r where r: "live (in_ledger s) i r" by blast
  from core r obtain s' l' res where s': "settle env st oc i s = (s', Inr ())"
      "s' = s\<lparr>in_lastStatus := st, in_clockReads := in_clockReads s + 1, in_ledger := l',
       in_resultNotifications := in_resultNotifications s @ [res], in_dirty := True\<rparr>"
      and f: "finishes i res (in_ledger s) l'" and res: "ir_localIntentId res = i" by (rule settle_live)
  note inv = core_inv [OF core] and fd = finishesD [OF f core_inv [OF core]]
  have e: "in_ledger s' = l'" "in_authority s' = in_authority s" "in_effects s' = in_effects s"
      "in_resultNotifications s' = in_resultNotifications s @ [res]" "in_localIntentCounter s' = in_localIntentCounter s"
    by (simp_all add: s'(2))
  then have h: "sent_idents s' = sent_idents s" "accepted_ids s' = accepted_ids s"
      "observed_results s' @ in_resultNotifications s' = (observed_results s @ in_resultNotifications s) @ [res]"
    by (simp_all add: sent_idents_def accepted_ids_def observed_results_def)
  have "core T (A - both {i}) q s'" unfolding core_def e(1,2,5) h
    using core ledger_ok_finishes [OF _ f] queue_ok_finishes [OF _ f inv] idents_ok_finishes [OF _ inv f] results_ok_finishes [OF _ inv r f res]
    by (simp add: core_def del: append_assoc)
  moreover have "dropped {i} s s'" using fd by (simp add: dropped_def s'(2) frame_def)
  ultimately show ?thesis using s'(1) by blast
qed

lemma dropped_trans: "dropped I s t \<Longrightarrow> dropped J t u \<Longrightarrow> dropped (I \<union> J) s u"
  by (auto simp: dropped_def)

lemma dropped_none: "dropped {} s s"
  by (simp add: dropped_def)

lemma settle_all:
  assumes "core T A q s"
  shows "\<exists>s'. forS (settle env st oc) is s = (s', Inr ()) \<and> core T (A - both (set is)) q s' \<and> dropped (set is) s s'"
  using assms
proof (induction "is" arbitrary: A s)
  case Nil
  then show ?case by (simp add: returnS_def dropped_none)
next
  case (Cons i "is")
  from settle_core [OF Cons.prems] obtain s1 where s1: "settle env st oc i s = (s1, Inr ())" "core T (A - both {i}) q s1" "dropped {i} s s1" by blast
  from Cons.IH [OF s1(2)] obtain s2 where s2: "forS (settle env st oc) is s1 = (s2, Inr ())" "core T (A - both {i} - both (set is)) q s2" "dropped (set is) s1 s2"
    by blast
  have "A - both {i} - both (set is) = A - both (set (i # is))" by auto
  with s1 s2 dropped_trans [OF s1(3) s2(3)] show ?case by (simp add: bindS_def)
qed

end
