(* ===== verification/Input_Dispatcher_Turns.thy ===== *)
theory Input_Dispatcher_Turns
  imports Input_Dispatcher_Core
begin

text \<open>
  The operations of the input dispatcher that settle intents and move the authority: each returns, keeps the invariant of
  \<open>Input_Dispatcher_Core\<close> and only takes intents out of the local queues.
\<close>

section \<open>What a settling operation leaves alone\<close>

definition trims :: "dispatcher \<Rightarrow> dispatcher \<Rightarrow> bool" where
  "trims s s' \<longleftrightarrow> frame s' = frame s \<and> set (il_queueIds (in_ledger s')) \<subseteq> set (il_queueIds (in_ledger s)) \<and>
     set (il_preAdmissionIds (in_ledger s')) \<subseteq> set (il_preAdmissionIds (in_ledger s))"

lemma trims_refl: "trims s s"
  by (simp add: trims_def)

lemma trims_trans: "trims s t \<Longrightarrow> trims t u \<Longrightarrow> trims s u"
  by (auto simp: trims_def)

lemma trims_same: "frame s' = frame s \<Longrightarrow> in_ledger s' = in_ledger s \<Longrightarrow> trims s s'"
  by (simp add: trims_def)

definition trim_op :: "(nat \<Rightarrow> InputTransport option) \<Rightarrow> mid_turn \<Rightarrow> mid_turn \<Rightarrow> 'a dispatch \<Rightarrow> bool" where
  "trim_op T A B m \<longleftrightarrow> (\<forall>s. core T A True s \<longrightarrow> (\<exists>s' x. m s = (s', Inr x) \<and> core T B True s' \<and> trims s s'))"

lemma trim_opI: "(\<And>s. core T A True s \<Longrightarrow> \<exists>s' x. m s = (s', Inr x) \<and> core T B True s' \<and> trims s s') \<Longrightarrow> trim_op T A B m"
  by (simp add: trim_op_def)

lemma trim_opE:
  assumes "trim_op T A B m" and "core T A True s"
  obtains s' x where "m s = (s', Inr x)" "core T B True s'" "trims s s'"
  using assms unfolding trim_op_def by blast

lemma trim_bind:
  assumes "trim_op T A B m" and "\<And>x. trim_op T B C (k x)"
  shows "trim_op T A C (bindS m k)"
proof (rule trim_opI)
  fix s assume "core T A True s"
  then obtain s1 x where s1: "m s = (s1, Inr x)" "core T B True s1" "trims s s1" by (rule trim_opE [OF assms(1)])
  obtain s2 y where "k x s1 = (s2, Inr y)" "core T C True s2" "trims s1 s2" by (rule trim_opE [OF assms(2) s1(2)])
  with s1 trims_trans [OF s1(3)] show "\<exists>s' x. bindS m k s = (s', Inr x) \<and> core T C True s' \<and> trims s s'" by (simp add: bindS_def)
qed

lemma trim_seq: "trim_op T A A m \<Longrightarrow> (\<And>x. trim_op T A B (k x)) \<Longrightarrow> trim_op T A B (bindS m k)"
  by (rule trim_bind)

lemma trim_mono:
  assumes "trim_op T A B m" and "A' \<subseteq> A" "B \<subseteq> B'"
  shows "trim_op T A' B' m"
proof (rule trim_opI)
  fix s assume "core T A' True s"
  then have "core T A True s" by (rule core_mono) (simp_all add: assms(2))
  then obtain s' x where "m s = (s', Inr x)" "core T B True s'" "trims s s'" by (rule trim_opE [OF assms(1)])
  moreover have "core T B' True s'" by (rule core_mono [OF \<open>core T B True s'\<close>]) (simp_all add: assms(3))
  ultimately show "\<exists>s' x. m s = (s', Inr x) \<and> core T B' True s' \<and> trims s s'" by blast
qed

lemma trim_return: "trim_op T A A (returnS x)"
  by (simp add: trim_op_def returnS_def trims_refl)

lemma trim_read: "(\<And>s. core T A True s \<Longrightarrow> trim_op T A B (k s)) \<Longrightarrow> trim_op T A B (readS k)"
  by (simp add: trim_op_def readS_def)

lemma trim_for: "(\<And>x. x \<in> set xs \<Longrightarrow> trim_op T A A (f x)) \<Longrightarrow> trim_op T A A (forS f xs)"
  by (induction xs) (auto intro: trim_return trim_bind)

lemma trim_ledger_read:
  assumes "\<And>l. ledger_inv l \<Longrightarrow> \<exists>x. f l = Inr x"
  shows "trim_op T A A (ledger_read f)"
proof (rule trim_opI)
  fix s assume c: "core T A True s"
  with assms [OF core_inv] obtain x where "f (in_ledger s) = Inr x" by blast
  with c show "\<exists>s' x. ledger_read f s = (s', Inr x) \<and> core T A True s' \<and> trims s s'" by (simp add: ledger_read_def trims_refl)
qed

lemma trim_modify:
  assumes "\<And>s. in_ledger (f s) = in_ledger s \<and> in_authority (f s) = in_authority s \<and> in_effects (f s) = in_effects s \<and>
    in_resultNotifications (f s) = in_resultNotifications s \<and> in_localIntentCounter (f s) = in_localIntentCounter s \<and> frame (f s) = frame s"
  shows "trim_op T A A (modifyS f)"
  using assms by (auto simp: trim_op_def modifyS_def intro: core_cong trims_same)

lemma trim_clock: "trim_op T A A (clock env)"
  by (auto simp: trim_op_def clock_def frame_def intro!: trims_same elim!: core_cong)

lemma trim_markDirty: "trim_op T A A markDirty"
  unfolding markDirty_def by (rule trim_modify) (simp add: frame_def)

lemma trim_if: "(b \<Longrightarrow> trim_op T A B m) \<Longrightarrow> (\<not> b \<Longrightarrow> trim_op T A B m') \<Longrightarrow> trim_op T A B (if b then m else m')"
  by simp

lemmas trim_rules = trim_seq trim_return trim_for trim_clock trim_markDirty

section \<open>Reads of the ledger\<close>

lemma mapR_total: "(\<And>x. x \<in> set xs \<Longrightarrow> \<exists>y. f x = Inr y) \<Longrightarrow> \<exists>ys. mapR f xs = Inr ys"
  by (induction xs) (auto simp: bindR_Inr_iff)

lemma queuedRecords_total: "ledger_inv l \<Longrightarrow> \<exists>rs. queuedRecords l = Inr rs \<and> map record_id rs = il_queueIds l \<and> (\<forall>r \<in> set rs. live l (record_id r) r)"
proof -
  assume inv: "ledger_inv l"
  have "\<exists>rs. queuedRecords l = Inr rs"
    unfolding queuedRecords_def
  proof (rule mapR_total)
    fix i assume "i \<in> set (il_queueIds l)"
    then obtain r where "live l i r" "phase r = ph_queued" using queued_live [OF inv] by blast
    then show "\<exists>r. requirePhase l i ph_queued = Inr r" by (auto simp: requirePhase_Inr_iff live_def)
  qed
  then obtain rs where rs: "queuedRecords l = Inr rs" by blast
  then have all: "list_all2 (\<lambda>i r. jm_get (il_records l) i = Some r \<and> phase r = ph_queued) (il_queueIds l) rs"
    by (simp add: queuedRecords_def mapR_Inr_iff requirePhase_Inr_iff)
  have "map record_id rs = il_queueIds l"
    using all ledger_id [OF inv] by (intro nth_equalityI) (auto simp: list_all2_conv_all_nth)
  moreover have "\<forall>r \<in> set rs. live l (record_id r) r"
    using all ledger_id [OF inv] by (fastforce simp: list_all2_conv_all_nth in_set_conv_nth live_def)
  ultimately show ?thesis using rs by blast
qed

lemma preAdmissionRecords_total:
  assumes inv: "ledger_inv l"
  shows "\<exists>rs. preAdmissionRecords l = Inr rs \<and> map record_id rs = il_preAdmissionIds l"
proof -
  have "\<exists>rs. preAdmissionRecords l = Inr rs"
    unfolding preAdmissionRecords_def
  proof (rule mapR_total)
    fix i assume "i \<in> set (il_preAdmissionIds l)"
    then obtain r where "live l i r" "phase r = ph_pre_admission" using pre_live [OF inv] by blast
    then show "\<exists>r. requirePhase l i ph_pre_admission = Inr r" by (auto simp: requirePhase_Inr_iff live_def)
  qed
  then obtain rs where rs: "preAdmissionRecords l = Inr rs" by blast
  then have all: "list_all2 (\<lambda>i r. jm_get (il_records l) i = Some r \<and> phase r = ph_pre_admission) (il_preAdmissionIds l) rs"
    by (simp add: preAdmissionRecords_def mapR_Inr_iff requirePhase_Inr_iff)
  have "map record_id rs = il_preAdmissionIds l"
    using all ledger_id [OF inv] by (intro nth_equalityI) (auto simp: list_all2_conv_all_nth)
  with rs show ?thesis by blast
qed

lemma activeRecords_total:
  assumes inv: "ledger_inv l"
  shows "\<exists>rs. activeRecords l = Inr rs"
  unfolding activeRecords_def
proof (rule mapR_total)
  fix e assume "e \<in> set (il_activeByIdentity l)"
  moreover obtain k i where e: "e = (k, i)" by (cases e)
  ultimately have "jm_get (il_activeByIdentity l) k = Some i" using jm_mem_iff [OF ledger_invD(2) [OF inv]] by simp
  with ledger_invD(7) [OF inv] obtain r where "jm_get (il_records l) i = Some r" "active_key r = Some k"
    by (auto simp: active_index_def)
  then show "\<exists>r. (case e of (k, i) \<Rightarrow> case jm_get (il_records l) i of Some r \<Rightarrow> if is_active r then Inr r else Inl StaleIdentityIndex
      | None \<Rightarrow> Inl StaleIdentityIndex) = Inr r"
    using e(1) by (cases r) (auto simp: is_active_def)
qed

lemma lastPreAdmission_total: "ledger_inv l \<Longrightarrow> \<exists>x. lastPreAdmission l = Inr x"
proof -
  assume inv: "ledger_inv l"
  show ?thesis
  proof (cases "il_preAdmissionIds l = []")
    case False
    then obtain r where "live l (last (il_preAdmissionIds l)) r" "phase r = ph_pre_admission" using pre_live [OF inv] last_in_set by blast
    with False show ?thesis by (auto simp: lastPreAdmission_def live_def requirePhase_def)
  qed (simp add: lastPreAdmission_def)
qed

section \<open>Settling and terminating\<close>

lemma dropped_trims: "dropped I s s' \<Longrightarrow> trims s s'"
  by (auto simp: dropped_def trims_def)

lemma trim_settle: "trim_op T A (A - both {i}) (settle env st oc i)"
  using settle_core dropped_trims by (fastforce intro!: trim_opI)

lemma trim_finishes:
  "trim_op T A (A - both {i}) (finishNotSent env ns i)" "trim_op T A (A - both {i}) (finishUncertain env un i)"
  "trim_op T A (A - both {i}) (finishDeterministic env dr dres q i)"
  unfolding finishNotSent_def finishUncertain_def finishDeterministic_def by (rule trim_settle)+

lemma trim_finishes': "trim_op T A A (finishNotSent env ns i)" "trim_op T A A (finishUncertain env un i)"
  "trim_op T A A (finishDeterministic env dr dres q i)"
  by (rule trim_mono [OF trim_finishes(1)] trim_mono [OF trim_finishes(2)] trim_mono [OF trim_finishes(3)]; blast)+

lemma results_ok_same:
  assumes "results_ok n l accepted results" and "\<And>j. (\<exists>q. live l' j q) \<longleftrightarrow> (\<exists>q. live l j q)"
    and "\<And>j q res. jm_get (il_records l') j = Some q \<Longrightarrow> record_result q = Some res \<Longrightarrow> jm_get (il_records l) j = Some q"
  shows "results_ok n l' accepted results"
proof -
  have D: "\<And>i r res. jm_get (il_records l) i = Some r \<Longrightarrow> record_result r = Some res \<Longrightarrow> res \<in> set results"
    using assms(1) by (simp add: results_ok_def)
  have "\<forall>i r res. jm_get (il_records l') i = Some r \<and> record_result r = Some res \<longrightarrow> res \<in> set results"
    by (intro allI impI, elim conjE) (rule D [OF assms(3)])
  with assms(1,2) show ?thesis unfolding results_ok_def by simp
qed

text \<open>A live record changes its phase outside the local queues.\<close>

lemma core_replaces:
  assumes core: "core T A q s" and f: "replaces i r' (in_ledger s) l'" and r: "live (in_ledger s) i r"
    and r': "phase r' = ph_consumed \<or> phase r' = ph_sent \<or> phase r' = ph_terminating"
    and out: "phase r \<noteq> ph_queued" and pre: "i \<notin> set (il_preAdmissionIds (in_ledger s))"
    and ident: "record_identity r' = record_identity r" and mid: "phase r' = ph_consumed \<Longrightarrow> (False, i) \<in> A"
  shows "core T (if phase r' = ph_consumed then A else A - both {i}) q (s\<lparr>in_ledger := l'\<rparr>)"
proof -
  let ?A = "if phase r' = ph_consumed then A else A - both {i}"
  note inv = core_inv [OF core]
  have nt: "phase r' \<noteq> ph_terminal" using r' by auto
  note lv = live_replaces [OF f nt]
  have same: "il_preAdmissionIds l' = il_preAdmissionIds (in_ledger s)" "il_queueIds l' = il_queueIds (in_ledger s)"
      "bytes_held l' = bytes_held (in_ledger s)" "ledger_inv l'" using f by (simp_all add: replaces_def)
  have nq: "i \<notin> set (il_queueIds (in_ledger s))" using queued_live [OF inv, of i] live_fun [OF r] out by auto
  have "ledger_ok ?A l'"
    using core mid r' same lv unfolding core_def ledger_ok_def transient_def by auto
  moreover have "queue_ok (in_authority s) l'" if q
  proof -
    have "\<exists>r a. live l' j r \<and> admission r = Some a \<and> may_send a (in_authority s)" if "j \<in> set (il_queueIds (in_ledger s))" for j
      using core \<open>q\<close> that nq lv [of j] unfolding core_def queue_ok_def by metis
    then show ?thesis by (simp add: queue_ok_def same)
  qed
  moreover have qi: "queue_idents l' = queue_idents (in_ledger s)"
    unfolding queue_idents_def same using f nq by (intro map_filter_same) (auto simp: replaces_def)
  have "idents_ok (in_authority s) l' (sent_idents s)"
    using core r ident unfolding core_def idents_ok_def qi lv by auto
  moreover have "results_ok (in_localIntentCounter s) l' (accepted_ids s) (observed_results s @ in_resultNotifications s)"
  proof -
    have ex: "(\<exists>q. live l' j q) \<longleftrightarrow> (\<exists>q. live (in_ledger s) j q)" for j using r by (auto simp: lv)
    have "record_result r' = None" using nt phase_result by blast
    then have "jm_get (il_records (in_ledger s)) j = Some q" if "jm_get (il_records l') j = Some q" "record_result q = Some res" for j q res
      using f that by (auto simp: replaces_def split: if_splits)
    moreover have "results_ok (in_localIntentCounter s) (in_ledger s) (accepted_ids s) (observed_results s @ in_resultNotifications s)"
      using core by (simp add: core_def)
    ultimately show ?thesis by (intro results_ok_same [OF _ ex])
  qed
  ultimately show ?thesis using core unfolding core_def by (simp add: sent_idents_def accepted_ids_def observed_results_def)
qed

lemma startTermination_core:
  assumes core: "core T A q s"
  shows "\<exists>s'. startTermination reason now i s = (s', Inr ()) \<and> trims s s' \<and>
    core T (if map_option phase (record_of i s) = Some ph_sending then A - both {i} else A) q s'"
proof (cases "beginTermination (in_ledger s) i reason (now + maxTerminationAgeMs)")
  case None
  then have "map_option phase (record_of i s) \<noteq> Some ph_sending"
    by (auto simp: beginTermination_def record_of_def phase_cases split: IntentRecord.splits)
  with core None show ?thesis by (auto simp: startTermination_def readS_def returnS_def trims_refl)
next
  case (Some l')
  note inv = core_inv [OF core]
  from Some obtain r b a t where r: "jm_get (il_records (in_ledger s)) i = Some r" "phase r = ph_sending \<or> phase r = ph_sent"
      "record_identity r = Some (ad_identity a)"
    and l': "l' = put i (Terminating b a t (now + maxTerminationAgeMs) reason) (in_ledger s)"
    by (auto simp: beginTermination_def record_identity_def split: option.splits IntentRecord.splits)
  have live: "live (in_ledger s) i r" using r by (auto simp: live_def)
  have rep: "replaces i (Terminating b a t (now + maxTerminationAgeMs) reason) (in_ledger s) l'"
    unfolding l' by (rule put_replaces) (rule beginTermination_inv [OF inv Some, unfolded l'])
  have pre: "i \<notin> set (il_preAdmissionIds (in_ledger s))" using pre_live [OF inv, of i] live_fun [OF live] r(2) by auto
  have c: "core T (A - both {i}) q (s\<lparr>in_ledger := l'\<rparr>)"
    using core_replaces [OF core rep live _ _ pre] r by (auto simp: record_identity_def)
  have run: "startTermination reason now i s = (s\<lparr>in_ledger := l', in_dirty := True\<rparr>, Inr ())"
    using Some by (simp add: startTermination_def readS_def modifyS_def)
  have "core T (A - both {i}) q (s\<lparr>in_ledger := l', in_dirty := True\<rparr>)" by (rule core_cong [OF c]) simp_all
  then have "core T (if map_option phase (record_of i s) = Some ph_sending then A - both {i} else A) q (s\<lparr>in_ledger := l', in_dirty := True\<rparr>)"
    by (auto elim: core_mono)
  moreover have "trims s (s\<lparr>in_ledger := l', in_dirty := True\<rparr>)" using rep by (simp add: trims_def frame_def replaces_def)
  ultimately show ?thesis using run by blast
qed

lemma trim_startTermination: "trim_op T A A (startTermination reason now i)"
proof (rule trim_opI)
  fix s assume "core T A True s"
  from startTermination_core [OF this, of reason now i] obtain s' where s': "startTermination reason now i s = (s', Inr ())" "trims s s'"
      "core T (if map_option phase (record_of i s) = Some ph_sending then A - both {i} else A) True s'" by blast
  from s'(3) have "core T A True s'" by (rule core_mono) (auto split: if_splits)
  with s' show "\<exists>s' x. startTermination reason now i s = (s', Inr x) \<and> core T A True s' \<and> trims s s'" by blast
qed

section \<open>The authority\<close>

text \<open>A new authority may hand out no identity the old one handed out, and a new epoch has a higher fence.\<close>

definition follows :: "AuthorityState \<Rightarrow> AuthorityState \<Rightarrow> bool" where
  "follows a a' \<longleftrightarrow> assertAuthorityInvariants a' \<and> rank_le (next_rank a) (next_rank a') \<and>
     (\<forall>e. authorityEpoch a' = Some e \<longrightarrow> highestWriterFence a < bigint_of (ie_writerFence e) \<or>
        (\<exists>e0. authorityEpoch a = Some e0 \<and> ie_writerFence e0 = ie_writerFence e \<and> ie_inputEpoch e0 = ie_inputEpoch e))"

lemma attach_refused: "\<not> snd (attachAuthority a t ep) \<Longrightarrow> fst (attachAuthority a t ep) = refused_attachment a t"
  by (auto simp: attachAuthority_def split: option.splits if_splits)

lemma follows_step:
  assumes ok: "assertAuthorityInvariants a"
  shows "follows a (authority_step a ev)"
proof -
  have "highestWriterFence a < bigint_of (ie_writerFence e) \<or>
      (\<exists>e0. authorityEpoch a = Some e0 \<and> ie_writerFence e0 = ie_writerFence e \<and> ie_inputEpoch e0 = ie_inputEpoch e)"
    if e: "authorityEpoch (authority_step a ev) = Some e" for e
  proof (cases ev)
    case (AttachEvent t ep)
    show ?thesis
    proof (cases "snd (attachAuthority a t ep)")
      case True
      with e AttachEvent show ?thesis
        by (auto simp: attachAuthority_def positiveWriterFence_Some_iff bigint_of_toString split: option.splits if_splits)
    next
      case False
      with e AttachEvent attach_refused [OF this] show ?thesis by (cases a) (auto simp: refused_attachment_def Let_def split: if_splits)
    qed
  next
    case (RevokeEvent ref) with e show ?thesis by (cases a) auto
  next
    case (SealEvent r) with e show ?thesis by (cases a) (auto split: if_splits)
  next
    case AllocateEvent with e show ?thesis by (cases a) auto
  qed (use e in \<open>simp add: detachAuthority_def\<close>)
  with authority_step_ok [OF ok, of ev] next_rank_step [OF ok, of ev] show ?thesis by (simp add: follows_def)
qed

lemma ident_ok_follows:
  assumes "ident_ok a x" and f: "follows a a'"
  shows "ident_ok a' x"
proof -
  from assms(1) have r: "rank_less (identity_rank x) (next_rank a)" and c: "canonical_ident x" by (simp_all add: ident_ok_def)
  from c have "1 \<le> bigint_of (id_clientInputSeq x)" by (auto simp: canonical_ident_def bigint_of_toString)
  with r have h: "bigint_of (id_writerFence x) \<le> highestWriterFence a" by (cases a) (auto simp: rank_less_def identity_rank_def)
  have "rank_less (identity_rank x) (next_rank a')" using r f rank_order(3) by (auto simp: follows_def)
  moreover have "id_inputEpoch x = ie_inputEpoch e" if "authorityEpoch a' = Some e" "ie_writerFence e = id_writerFence x" for e
    using assms f h that unfolding ident_ok_def follows_def by (metis not_le)
  ultimately show ?thesis using assms(1) by (auto simp: ident_ok_def)
qed

lemma core_authority:
  assumes core: "core T A q s" and f: "follows (in_authority s) a'" and k: "open_known T a'"
    and q: "q' \<Longrightarrow> queue_ok a' (in_ledger s)"
  shows "core T A q' (s\<lparr>in_authority := a'\<rparr>)"
proof -
  have "idents_ok a' (in_ledger s) (sent_idents s)" using core ident_ok_follows [OF _ f] by (auto simp: core_def idents_ok_def)
  with core f k q show ?thesis by (simp add: core_def follows_def sent_idents_def accepted_ids_def observed_results_def)
qed

lemma queue_ok_empty: "il_queueIds l = [] \<Longrightarrow> queue_ok a l"
  by (simp add: queue_ok_def)

lemma open_known_steps:
  "open_known T (sealAuthority a r)" "open_known T (revokeAuthority a ref)" "open_known T (detachAuthority a)"
  "open_known T a \<Longrightarrow> T (it_ref t) = Some t \<Longrightarrow> open_known T (fst (attachAuthority a t ep))"
proof -
  show "open_known T (sealAuthority a r)" "open_known T (revokeAuthority a ref)" "open_known T (detachAuthority a)"
    by (cases a; simp add: open_known_def detachAuthority_def)+
  assume k: "open_known T a" "T (it_ref t) = Some t"
    from k(1) have r: "open_known T (refused_attachment a t)"
  proof (cases a)
    case (OpenA h t' e)
    with k(1) show ?thesis by (cases "it_ref t' = it_ref t") (simp_all only: refused_attachment_def Let_def AuthorityState.case if_True if_False,
      simp_all add: open_known_def)
  qed (simp_all add: open_known_def refused_attachment_def Let_def)
  show "open_known T (fst (attachAuthority a t ep))"
  proof (cases "snd (attachAuthority a t ep)")
    case True
    with k(2) show ?thesis by (auto simp: attachAuthority_def open_known_def split: option.splits if_splits)
  next
    case False
    with r attach_refused show ?thesis by simp
  qed
qed

lemma queue_of_open:
  assumes "queue_ok a l" and "il_queueIds l \<noteq> []"
  obtains h t e where "a = OpenA h t e"
proof -
  from assms(2) obtain i where "i \<in> set (il_queueIds l)" by (cases "il_queueIds l") auto
  with assms(1) obtain x where "may_send x a" unfolding queue_ok_def by blast
  then show thesis using that by (cases a) (auto simp: may_send_def)
qed

lemma may_send_epoch: "may_send x a \<Longrightarrow> authorityEpoch a = Some e \<Longrightarrow> admission r = Some x \<Longrightarrow> of_epoch e r"
  by (cases a) (auto simp: may_send_def of_epoch_def record_identity_def)

lemma trim_seal: "trim_op T A A (sealActiveEpoch env b)"
proof (rule trim_opI)
  fix s assume core: "core T A True s"
  note inv = core_inv [OF core]
  show "\<exists>s' x. sealActiveEpoch env b s = (s', Inr x) \<and> core T A True s' \<and> trims s s'"
  proof (cases "authorityEpoch (in_authority s)")
    case None
    with core show ?thesis by (simp add: sealActiveEpoch_def readS_def returnS_def trims_refl)
  next
    case (Some e)
    let ?r = "if b then replacement_required else transport_replaced"
    let ?s = "s\<lparr>in_authority := sealAuthority (in_authority s) ?r\<rparr>"
    from queuedRecords_total [OF inv] obtain rs where rs: "queuedRecords (in_ledger s) = Inr rs" "map record_id rs = il_queueIds (in_ledger s)"
      "\<forall>r \<in> set rs. live (in_ledger s) (record_id r) r" by blast
    have "of_epoch e r" if "r \<in> set rs" for r
    proof -
      from that rs(2) have "record_id r \<in> set (il_queueIds (in_ledger s))" by (metis image_eqI image_set)
      with core obtain r' a where "live (in_ledger s) (record_id r) r'" "admission r' = Some a" "may_send a (in_authority s)"
        by (auto simp: core_def queue_ok_def)
      with live_fun [of "in_ledger s"] rs(3) that may_send_epoch [OF _ Some] show ?thesis by metis
    qed
    then have all: "map record_id (filter (of_epoch e) rs) = il_queueIds (in_ledger s)" using rs(2) by (simp add: filter_True)
    have ok: "assertAuthorityInvariants (in_authority s)" using core by (simp add: core_def)
    have c: "core T A False ?s"
      using follows_step [OF ok, of "SealEvent ?r"] by (intro core_authority [OF core]) (simp_all add: open_known_steps(1))
    from settle_all [OF this, of env last_not_sent "NotSent ns_epoch_sealed" "il_queueIds (in_ledger s)"] obtain s' where
      s': "forS (finishNotSent env ns_epoch_sealed) (il_queueIds (in_ledger s)) ?s = (s', Inr ())"
      "core T (A - both (set (il_queueIds (in_ledger s)))) False s'" "dropped (set (il_queueIds (in_ledger s))) ?s s'"
      unfolding finishNotSent_def by blast
    from s'(3) have "il_queueIds (in_ledger s') = []" by (simp add: dropped_def)
    from core_empty_queue [OF s'(2) this] have "core T A True s'" by (rule core_mono) auto
    then have "core T A True (s'\<lparr>in_dirty := True\<rparr>)" by (rule core_cong) simp_all
    moreover have "trims s (s'\<lparr>in_dirty := True\<rparr>)" using s'(3) by (simp add: trims_def dropped_def frame_def)
    moreover have "sealActiveEpoch env b s = (s'\<lparr>in_dirty := True\<rparr>, Inr ())"
      using Some rs(1) all s'(1) by (simp add: sealActiveEpoch_def readS_def bindS_def set_authority_def modifyS_def ledger_read_def markDirty_def)
    ultimately show ?thesis by blast
  qed
qed

lemma trim_sealIdentity: "trim_op T A A (sealIdentityEpoch env x b)"
  unfolding sealIdentityEpoch_def by (intro trim_read trim_if trim_seal trim_return)

section \<open>Deadlines\<close>

lemma trim_expireDeadlines: "trim_op T A A (expireDeadlines env)"
proof -
  have 1: "trim_op T A A (expire_pre_admission env now r)" for now r
    unfolding expire_pre_admission_def by (intro trim_if trim_finishes' trim_return)
  have 2: "trim_op T A A (expire_queued env now r)" for now r
    unfolding expire_queued_def
    by (cases r) (auto intro!: trim_return trim_seq trim_finishes' trim_sealIdentity)
  have 3: "trim_op T A A (expire_active env now r)" for now r
    unfolding expire_active_def
    by (rule trim_seq)
      (auto intro!: trim_read trim_return trim_seq trim_startTermination trim_sealIdentity trim_finishes' split: IntentRecord.split option.split)
  show ?thesis
    unfolding expireDeadlines_def
    by (intro trim_rules trim_ledger_read 1 2 3) (use preAdmissionRecords_total queuedRecords_total activeRecords_total in blast)+
qed

section \<open>Taking the pre-admission queue\<close>

lemma take_core:
  assumes core: "core T A q s"
  shows "\<exists>l' rs. takePreAdmission (in_ledger s) = Inr (l', rs) \<and> map record_id rs = il_preAdmissionIds (in_ledger s) \<and>
    il_preAdmissionIds l' = [] \<and> il_queueIds l' = il_queueIds (in_ledger s) \<and> il_records l' = il_records (in_ledger s) \<and>
    core T (A \<union> both (set (il_preAdmissionIds (in_ledger s)))) q (s\<lparr>in_ledger := l'\<rparr>)"
proof -
  note inv = core_inv [OF core]
  from preAdmissionRecords_total [OF inv] obtain rs where rs: "preAdmissionRecords (in_ledger s) = Inr rs"
    "map record_id rs = il_preAdmissionIds (in_ledger s)" by blast
  let ?l = "(in_ledger s)\<lparr>il_preAdmissionIds := [], il_preAdmissionBytes := 0\<rparr>"
  have take: "takePreAdmission (in_ledger s) = Inr (?l, rs)" using rs(1) by (simp add: takePreAdmission_def)
  have lv: "live ?l i r \<longleftrightarrow> live (in_ledger s) i r" for i r by (simp add: live_def)
  have "0 \<le> il_preAdmissionBytes (in_ledger s)"
    using ledger_invD(4) [OF inv] bytes_of_nonneg [of pre_bytes, OF pre_bytes_nonneg(1)] by (simp add: pre_index_def)
  then have "bytes_held ?l \<le> bytes_held (in_ledger s)" by (simp add: bytes_held_def)
  moreover have "ledger_inv ?l" by (rule takePreAdmission_inv [OF inv take])
  ultimately have "ledger_ok (A \<union> both (set (il_preAdmissionIds (in_ledger s)))) ?l"
    using core unfolding core_def ledger_ok_def lv by (auto simp: transient_def)
  moreover have "q \<Longrightarrow> queue_ok (in_authority s) ?l" using core by (simp add: core_def queue_ok_def lv)
  moreover have "idents_ok (in_authority s) ?l (sent_idents s)" using core by (simp add: core_def idents_ok_def lv queue_idents_def)
  moreover have "results_ok (in_localIntentCounter s) ?l (accepted_ids s) (observed_results s @ in_resultNotifications s)"
    by (rule results_ok_same [of _ "in_ledger s"]) (use core in \<open>simp_all add: core_def lv\<close>)
  ultimately have "core T (A \<union> both (set (il_preAdmissionIds (in_ledger s)))) q (s\<lparr>in_ledger := ?l\<rparr>)"
    using core by (simp add: core_def sent_idents_def accepted_ids_def observed_results_def)
  with take rs(2) show ?thesis by fastforce
qed

lemma settlePre_core:
  assumes core: "core T A q s"
  shows "\<exists>s'. settlePreAdmission env ns s = (s', Inr ()) \<and> core T A q s' \<and> trims s s'"
proof -
  from take_core [OF core] obtain l' rs where t: "takePreAdmission (in_ledger s) = Inr (l', rs)"
      "map record_id rs = il_preAdmissionIds (in_ledger s)" "il_preAdmissionIds l' = []" "il_queueIds l' = il_queueIds (in_ledger s)"
      "core T (A \<union> both (set (il_preAdmissionIds (in_ledger s)))) q (s\<lparr>in_ledger := l'\<rparr>)" by blast
  let ?ids = "il_preAdmissionIds (in_ledger s)"
  from settle_all [OF t(5), of env last_not_sent "NotSent ns" ?ids] obtain s' where
    s': "forS (finishNotSent env ns) ?ids (s\<lparr>in_ledger := l'\<rparr>) = (s', Inr ())" "core T (A \<union> both (set ?ids) - both (set ?ids)) q s'"
      "dropped (set ?ids) (s\<lparr>in_ledger := l'\<rparr>) s'" unfolding finishNotSent_def by blast
  have "core T A q s'" by (rule core_mono [OF s'(2)]) auto
  moreover have "trims s s'" using s'(3) t(3,4) by (auto simp: trims_def dropped_def frame_def)
  moreover have "settlePreAdmission env ns s = (s', Inr ())"
    using t(1,2) s'(1) by (simp add: settlePreAdmission_def bindS_def ledger_read_def modifyS_def)
  ultimately show ?thesis by blast
qed

lemma trim_settlePre: "trim_op T A A (settlePreAdmission env ns)"
  using settlePre_core by (fastforce intro!: trim_opI)

section \<open>The calls that only settle\<close>

lemma settleQueued_core:
  assumes core: "core T A q s"
  shows "\<exists>s'. settleQueued env ns s = (s', Inr ()) \<and> core T A True s' \<and> trims s s' \<and> il_queueIds (in_ledger s') = [] \<and>
    in_authority s' = in_authority s"
proof -
  from queuedRecords_total [OF core_inv [OF core]] obtain rs where rs: "queuedRecords (in_ledger s) = Inr rs"
    "map record_id rs = il_queueIds (in_ledger s)" by blast
  let ?ids = "il_queueIds (in_ledger s)"
  from settle_all [OF core, of env last_not_sent "NotSent ns" ?ids] obtain s' where
    s': "forS (finishNotSent env ns) ?ids s = (s', Inr ())" "core T (A - both (set ?ids)) q s'" "dropped (set ?ids) s s'"
    unfolding finishNotSent_def by blast
  have e: "il_queueIds (in_ledger s') = []" using s'(3) by (simp add: dropped_def)
  have "core T A True s'" by (rule core_mono [OF core_empty_queue [OF s'(2) e]]) auto
  with e s'(3) dropped_trims [OF s'(3)] show ?thesis using rs s'(1) by (auto simp: settleQueued_def bindS_def ledger_read_def dropped_def)
qed

lemma trim_settleQueued: "trim_op T A A (settleQueued env ns)"
  using settleQueued_core by (fastforce intro!: trim_opI)

lemma trim_terminateSent: "trim_op T A A (terminateSent env)"
  unfolding terminateSent_def
  by (intro trim_rules trim_ledger_read trim_startTermination) (use activeRecords_total in blast)

lemma trim_finishSent: "trim_op T A A (finishSent env)"
  unfolding finishSent_def by (intro trim_rules trim_ledger_read trim_finishes') (use activeRecords_total in blast)

lemma settleControlTransport_core:
  assumes core: "core T A True s"
  shows "\<exists>s'. settleControlTransport env b s = (s', Inr ()) \<and> core T A True s' \<and> trims s s' \<and> il_queueIds (in_ledger s') = []"
proof -
  let ?ns = "if b then ns_closed else ns_control_replaced"
  let ?rest = "bindS (if b then finishSent env else terminateSent env) (\<lambda>_. bindS (sealActiveEpoch env False) (\<lambda>_.
     bindS (modifyS (\<lambda>s. s\<lparr>in_replicaCurrent := False, in_resizeConfirmed := False\<rparr>)) (\<lambda>_. markDirty)))"
  have rest: "trim_op T A A ?rest"
    by (intro trim_rules trim_if trim_finishSent trim_terminateSent trim_seal trim_modify) (simp add: frame_def)
  from settlePre_core [OF core] obtain s1 where s1: "settlePreAdmission env ?ns s = (s1, Inr ())" "core T A True s1" "trims s s1" by blast
  from settleQueued_core [OF s1(2)] obtain s2 where s2: "settleQueued env ?ns s1 = (s2, Inr ())" "core T A True s2" "trims s1 s2"
    "il_queueIds (in_ledger s2) = []" by blast
  obtain s3 x where s3: "?rest s2 = (s3, Inr x)" "core T A True s3" "trims s2 s3" by (rule trim_opE [OF rest s2(2)])
  have "settleControlTransport env b s = (s3, Inr ())"
    using s1(1) s2(1) s3(1) by (simp add: settleControlTransport_def Let_def bindS_def)
  moreover have "il_queueIds (in_ledger s3) = []" using s2(4) s3(3) by (simp add: trims_def)
  ultimately show ?thesis using s3(2) trims_trans [OF trims_trans [OF s1(3) s2(3)] s3(3)] by blast
qed

lemma set_authority_core:
  assumes core: "core T A q s" and k: "open_known T (authority_step (in_authority s) ev)"
    and q: "q' \<Longrightarrow> queue_ok (authority_step (in_authority s) ev) (in_ledger s)"
  shows "core T A q' (s\<lparr>in_authority := authority_step (in_authority s) ev\<rparr>)"
proof -
  have "assertAuthorityInvariants (in_authority s)" using core by (simp add: core_def)
  from follows_step [OF this, of ev] show ?thesis by (intro core_authority [OF core] k q)
qed

lemma trim_detach: "trim_op T A A (detachTransport env b)"
proof (rule trim_opI)
  fix s assume core: "core T A True s"
  from settleControlTransport_core [OF core] obtain s1 where s1: "settleControlTransport env b s = (s1, Inr ())" "core T A True s1" "trims s s1"
    "il_queueIds (in_ledger s1) = []" by blast
  let ?s = "s1\<lparr>in_authority := detachAuthority (in_authority s1), in_dirty := True\<rparr>"
  have "core T A True (s1\<lparr>in_authority := detachAuthority (in_authority s1)\<rparr>)"
    using set_authority_core [OF s1(2), of DetachEvent True] open_known_steps(3) queue_ok_empty [OF s1(4)] by simp
  then have "core T A True ?s" by (rule core_cong) simp_all
  moreover have "trims s ?s" using s1(3) by (simp add: trims_def frame_def)
  moreover have "detachTransport env b s = (?s, Inr ())"
    using s1(1) by (simp add: detachTransport_def bindS_def set_authority_def modifyS_def markDirty_def)
  ultimately show "\<exists>s' x. detachTransport env b s = (s', Inr x) \<and> core T A True s' \<and> trims s s'" by blast
qed

lemma trim_revoke: "trim_op T A A (revokeWriterAuthority env ref)"
proof (rule trim_opI)
  fix s assume core: "core T A True s"
  let ?s = "s\<lparr>in_authority := revokeAuthority (in_authority s) ref\<rparr>"
  let ?rest = "bindS (terminateSent env) (\<lambda>_. bindS (sealActiveEpoch env False) (\<lambda>_. markDirty))"
  have rest: "trim_op T A A ?rest" by (intro trim_rules trim_terminateSent trim_seal)
  have a: "core T A False ?s" "trims s ?s"
    using set_authority_core [OF core, of "RevokeEvent ref" False] open_known_steps(2) by (simp_all add: trims_def frame_def)
  from settlePre_core [OF a(1)] obtain s1 where s1: "settlePreAdmission env ns_not_writable ?s = (s1, Inr ())" "core T A False s1" "trims ?s s1"
    by blast
  from settleQueued_core [OF s1(2)] obtain s2 where s2: "settleQueued env ns_epoch_sealed s1 = (s2, Inr ())" "core T A True s2" "trims s1 s2"
    by blast
  obtain s3 x where s3: "?rest s2 = (s3, Inr x)" "core T A True s3" "trims s2 s3" by (rule trim_opE [OF rest s2(2)])
  have "revokeWriterAuthority env ref s = (s3, Inr x)"
    using s1(1) s2(1) s3(1) by (simp add: revokeWriterAuthority_def bindS_def set_authority_def modifyS_def)
  moreover have "trims s s3" using trims_trans [OF trims_trans [OF trims_trans [OF a(2) s1(3)] s2(3)] s3(3)] .
  ultimately show "\<exists>s' x. revokeWriterAuthority env ref s = (s', Inr x) \<and> core T A True s' \<and> trims s s'" using s3(2) by blast
qed

text \<open>An attachment that is accepted while intents are queued would need a higher fence for the transport the authority already holds.\<close>

lemma attach_queue:
  assumes q: "queue_ok a l" and k: "open_known T a" and t: "T (it_ref t) = Some t" and ok: "assertAuthorityInvariants a"
    and same: "authorityTransport a \<noteq> None \<Longrightarrow> it_ref (the (authorityTransport a)) \<noteq> it_ref t \<Longrightarrow> il_queueIds l = []"
  shows "queue_ok (fst (attachAuthority a t ep)) l"
proof (cases "il_queueIds l = []")
  case False
  with q obtain h t' e where a: "a = OpenA h t' e" by (rule queue_of_open)
  with same False have ref: "it_ref t' = it_ref t" by auto
  have "T (it_ref t') = Some t'" using k by (simp add: open_known_def a)
  then have "t' = t" unfolding ref t by simp
  with ok a have "positiveWriterFence (it_writerFence t) = Some h" by simp
  then have "\<not> snd (attachAuthority a t ep)" unfolding attachAuthority_def by (simp add: a split: option.split)
  then have "fst (attachAuthority a t ep) = a"
    using a \<open>t' = t\<close> by (simp add: attach_refused refused_attachment_def Let_def)
  with q show ?thesis by simp
qed (simp add: queue_ok_def)

lemma trim_attach:
  assumes t: "T (it_ref t) = Some t"
  shows "trim_op T A A (attachTransport env t)"
proof (rule trim_opI)
  fix s assume core: "core T A True s"
  let ?settle = "case authorityTransport (in_authority s) of None \<Rightarrow> returnS ()
    | Some p \<Rightarrow> if it_ref p \<noteq> it_ref t then settleControlTransport env False else returnS ()"
  let ?kept = "authorityTransport (in_authority s) = None \<or> it_ref (the (authorityTransport (in_authority s))) = it_ref t"
  have "\<exists>s1. ?settle s = (s1, Inr ()) \<and> core T A True s1 \<and> trims s s1 \<and> (s1 = s \<and> ?kept \<or> il_queueIds (in_ledger s1) = [])"
  proof (cases ?kept)
    case True
    then have "?settle s = (s, Inr ())" by (auto simp: returnS_def split: option.split)
    with True core trims_refl show ?thesis by blast
  next
    case False
    from settleControlTransport_core [OF core, of env False] obtain s1 where
      "settleControlTransport env False s = (s1, Inr ()) \<and> core T A True s1 \<and> trims s s1 \<and> il_queueIds (in_ledger s1) = []" by blast
    moreover have "?settle s = settleControlTransport env False s" using False by (auto split: option.split)
    ultimately show ?thesis by auto
  qed
  then obtain s1 where s1: "?settle s = (s1, Inr ())" "core T A True s1" "trims s s1" "s1 = s \<and> ?kept \<or> il_queueIds (in_ledger s1) = []"
    by blast
  from s1(4) have same: "authorityTransport (in_authority s1) \<noteq> None \<Longrightarrow> it_ref (the (authorityTransport (in_authority s1))) \<noteq> it_ref t \<Longrightarrow>
      il_queueIds (in_ledger s1) = []" by auto
  let ?ep = "in_unusedInitialEpoch s1"
  let ?a = "fst (attachAuthority (in_authority s1) t ?ep)"
  let ?s = "s1\<lparr>in_authority := ?a\<rparr>"
  from s1(2) have parts: "queue_ok (in_authority s1) (in_ledger s1)" "open_known T (in_authority s1)" "assertAuthorityInvariants (in_authority s1)"
    by (simp_all add: core_def)
  have a: "core T A True ?s" "trims s1 ?s"
    using set_authority_core [OF s1(2), of "AttachEvent t ?ep" True] open_known_steps(4) [of T _ t] t parts
      attach_queue [OF parts(1,2) t parts(3) same] by (simp_all add: trims_def frame_def)
  let ?rest = "bindS (if snd (attachAuthority (in_authority s1) t ?ep) then renew_epoch env else returnS ()) (\<lambda>_. markDirty)"
  have rest: "trim_op T A A ?rest" unfolding renew_epoch_def by (intro trim_rules trim_if trim_modify) (simp add: frame_def)
  obtain s2 x where s2: "?rest ?s = (s2, Inr x)" "core T A True s2" "trims ?s s2" by (rule trim_opE [OF rest a(1)])
  have "attachTransport env t s = (s2, Inr x)"
    using s1(1) s2(1) by (simp add: attachTransport_def readS_def bindS_def set_authority_def modifyS_def case_prod_beta)
  then show "\<exists>s' x. attachTransport env t s = (s', Inr x) \<and> core T A True s' \<and> trims s s'"
    using s2(2) trims_trans [OF trims_trans [OF s1(3) a(2)] s2(3)] by blast
qed

lemma trim_ack: "trim_op T A A (acceptAcknowledgement env ack)"
proof -
  have "trim_op T A A (accept_ack_of env ack x r)" for x r
    unfolding accept_ack_of_def
    by (intro trim_seq trim_modify) (auto simp: frame_def split: option.split intro: trim_seq trim_finishes' trim_sealIdentity)
  then show ?thesis unfolding acceptAcknowledgement_def
    by (intro trim_read) (auto simp: Let_def split: option.split intro: trim_return)
qed

lemma trim_tombstone: "trim_op T A A (acceptTombstoneProof env x q)"
  unfolding acceptTombstoneProof_def by (intro trim_read) (auto split: option.split intro: trim_return trim_finishes')

lemma trim_replica: "trim_op T A A (setReplicaCurrent b)"
  unfolding setReplicaCurrent_def by (intro trim_read trim_if trim_rules trim_modify) (simp add: frame_def)

lemma trim_confirm: "trim_op T A A (confirmAuthoritativeResize d)"
  unfolding confirmAuthoritativeResize_def by (intro trim_read trim_if trim_rules trim_modify) (simp add: frame_def)

end
