(* ===== verification/Input_Dispatcher_Admission.thy ===== *)
theory Input_Dispatcher_Admission
  imports Input_Dispatcher_Turns
begin

text \<open>
  The input dispatcher consumes and admits intents: a consumed intent gets a fresh name, an admitted one a fresh identity above all
  before it, and no intent waits for admission without a microtask that will admit it.
\<close>

lemma map_filter_snoc: "List.map_filter f (xs @ [x]) = List.map_filter f xs @ (case f x of None \<Rightarrow> [] | Some y \<Rightarrow> [y])"
  by (induction xs) (auto split: option.split)

section \<open>Fresh identities\<close>

lemma digits_prefix:
  assumes "list_all is_digit x" "list_all is_digit y" and "\<not> is_digit c" and "x @ c # p = y @ c # q"
  shows "x = y \<and> p = q"
  using assms(1,2,4)
proof (induction x arbitrary: y)
  case Nil
  with assms(3) show ?case by (cases y) auto
next
  case (Cons a x)
  with assms(3) show ?case by (cases y) auto
qed

lemma bigint_digits: "0 \<le> n \<Longrightarrow> list_all is_digit (bigint_toString n)"
  using decimal_of_nat_digits by (simp add: bigint_toString_def)

lemma nul_no_digit: "\<not> is_digit (CHR 0x00)" "\<not> is_digit (CHR ''-'')"
  by (simp_all add: is_digit_def)

lemma key_rank:
  assumes x: "canonical_ident x" and y: "canonical_ident y" and key: "identityKey x = identityKey y"
  shows "identity_rank x = identity_rank y"
proof -
  from x obtain f n where f: "0 < f" "1 \<le> n" "id_writerFence x = bigint_toString f" "id_clientInputSeq x = bigint_toString n"
    by (auto simp: canonical_ident_def)
  from y obtain g m where g: "0 < g" "1 \<le> m" "id_writerFence y = bigint_toString g" "id_clientInputSeq y = bigint_toString m"
    by (auto simp: canonical_ident_def)
  have d: "list_all is_digit (bigint_toString k)" if "0 < k" for k using that bigint_digits by simp
  have front: "id_writerFence x = id_writerFence y \<and>
      id_inputEpoch x @ CHR 0x00 # id_clientInputSeq x = id_inputEpoch y @ CHR 0x00 # id_clientInputSeq y"
    by (rule digits_prefix) (use key f g d nul_no_digit in \<open>simp_all add: identityKey_def\<close>)
  then have "rev (id_clientInputSeq x) @ CHR 0x00 # rev (id_inputEpoch x) = rev (id_clientInputSeq y) @ CHR 0x00 # rev (id_inputEpoch y)"
    by (metis append.assoc append_Cons append_Nil rev.simps(2) rev_append)
  then have "rev (id_clientInputSeq x) = rev (id_clientInputSeq y)"
    by (rule conjunct1 [OF digits_prefix [rotated 3]]) (use f g d nul_no_digit in simp_all)
  with front show ?thesis by (simp add: identity_rank_def)
qed

lemma next_identity_ok:
  assumes "assertAuthorityInvariants (OpenA h t e)"
  shows "canonical_ident (next_identity e)" "identity_rank (next_identity e) = (h, ie_nextSequence e)"
    "ident_ok (OpenA h t (e\<lparr>ie_nextSequence := ie_nextSequence e + 1\<rparr>)) (next_identity e)"
proof -
  from assms have "positiveWriterFence (Some (ie_writerFence e)) = Some h" and s: "1 \<le> ie_nextSequence e" by simp_all
  with s have f: "0 < h" "ie_writerFence e = bigint_toString h" "1 \<le> ie_nextSequence e"
    by (simp_all add: positiveWriterFence_Some_iff)
  then show c: "canonical_ident (next_identity e)" by (auto simp: canonical_ident_def next_identity_def)
  show r: "identity_rank (next_identity e) = (h, ie_nextSequence e)"
    using f by (simp add: identity_rank_def next_identity_def bigint_of_toString)
  show "ident_ok (OpenA h t (e\<lparr>ie_nextSequence := ie_nextSequence e + 1\<rparr>)) (next_identity e)"
    using c r by (simp add: ident_ok_def rank_less_def next_identity_def)
qed

lemma next_identity_fresh:
  assumes core: "core T A q s" and a: "in_authority s = OpenA h t e"
  shows "jm_get (il_activeByIdentity (in_ledger s)) (identityKey (next_identity e)) = None"
proof (rule ccontr)
  assume "\<not> ?thesis"
  with ledger_invD(7) [OF core_inv [OF core]] obtain i r where r: "jm_get (il_records (in_ledger s)) i = Some r"
      "active_key r = Some (identityKey (next_identity e))" by (auto simp: active_index_def)
  then obtain y where y: "record_identity r = Some y" "identityKey y = identityKey (next_identity e)" "phase r \<noteq> ph_terminal"
    by (auto simp: active_key_def split: if_splits)
  have ok: "assertAuthorityInvariants (OpenA h t e)" "idents_ok (OpenA h t e) (in_ledger s) (sent_idents s)" using core a by (simp_all add: core_def)
  have "live (in_ledger s) i r" using r(1) y(3) by (simp add: live_def)
  with ok(2) y(1) have "ident_ok (OpenA h t e) y" unfolding idents_ok_def by blast
  then have "canonical_ident y" "rank_less (identity_rank y) (h, ie_nextSequence e)" by (simp_all add: ident_ok_def)
  with key_rank [OF _ next_identity_ok(1) [OF ok(1)] y(2)] next_identity_ok(2) [OF ok(1)] show False by (simp add: rank_less_def)
qed

section \<open>Admission of one intent\<close>

lemma admit_core:
  assumes core: "core T A True s" and none: "il_preAdmissionIds (in_ledger s) = []"
    and r: "jm_get (il_records (in_ledger s)) i = Some (PreAdmission b p n)" and a: "in_authority s = OpenA h t e"
    and can: "canAdmit (in_ledger s) bytes"
  shows "\<exists>s'. admit_encoded t (next_identity e) frm bytes now i s = (s', Inr ()) \<and> core T (A - both {i}) True s' \<and>
    il_preAdmissionIds (in_ledger s') = [] \<and> frame s' = frame s \<and> (\<forall>j r. j \<noteq> i \<longrightarrow> live (in_ledger s') j r \<longleftrightarrow> live (in_ledger s) j r)"
proof -
  let ?l = "in_ledger s" and ?x = "next_identity e"
  let ?ad = "\<lparr>ad_identity = ?x, ad_encodedBytes = bytes, ad_admittedAtMs = now, ad_transportGeneration = it_generation t\<rparr>"
  let ?r = "Queued b ?ad frm (now + maxQueuedAgeMs)"
  let ?a = "OpenA h t (e\<lparr>ie_nextSequence := ie_nextSequence e + 1\<rparr>)"
  note inv = core_inv [OF core]
  from core a have ok: "assertAuthorityInvariants (OpenA h t e)" "open_known T (OpenA h t e)" "queue_ok (OpenA h t e) ?l"
    "idents_ok (OpenA h t e) ?l (sent_idents s)" by (simp_all add: core_def)
  let ?l' = "(put i ?r ?l)\<lparr>il_queueIds := il_queueIds ?l @ [i], il_queueBytes := il_queueBytes ?l + int bytes,
    il_activeByIdentity := jm_set (identityKey ?x) i (il_activeByIdentity ?l)\<rparr>"
  let ?s = "s\<lparr>in_authority := ?a, in_ledger := ?l', in_dirty := True\<rparr>"
  have adm: "admit ?l i ?ad frm (now + maxQueuedAgeMs) = Inr ?l'"
    using r can next_identity_fresh [OF core a] by (simp add: admit_def requirePhase_def)
  have run: "admit_encoded t ?x frm bytes now i s = (?s, Inr ())"
    using adm a by (simp add: admit_encoded_def bindS_def set_authority_def modifyS_def ledger_do_def markDirty_def)
  have inv': "ledger_inv ?l'" using admit_inv [OF inv _ adm] none by simp
  have lv: "live ?l' j q \<longleftrightarrow> (if j = i then q = ?r else live ?l j q)" for j q by (auto simp: live_def jm_get_put)
  have old: "live ?l i (PreAdmission b p n)" using r by (simp add: live_def)
  have nq: "i \<notin> set (il_queueIds ?l)" using queued_live [OF inv, of i] live_fun [OF old] by fastforce
  have f: "follows (OpenA h t e) ?a" using follows_step [OF ok(1), of AllocateEvent] by simp
  have "il_preAdmissionBytes ?l = 0" using ledger_invD(4) [OF inv] none by (simp add: pre_index_def bytes_of_def)
  then have "ledger_ok (A - both {i}) ?l'"
    using core can none inv' lv by (auto simp: core_def ledger_ok_def transient_def bytes_held_def canAdmit_def)
  moreover have "queue_ok ?a ?l'"
  proof -
    have "may_send ?ad ?a" by (simp add: may_send_def next_identity_def)
    moreover have "may_send y ?a = may_send y (OpenA h t e)" for y by (simp add: may_send_def)
    moreover have "j \<noteq> i" if "j \<in> set (il_queueIds ?l)" for j using that nq by auto
    ultimately show ?thesis using ok(3) by (auto simp: queue_ok_def lv)
  qed
  moreover have "idents_ok ?a ?l' (sent_idents s)"
  proof -
    have qi: "queue_idents ?l' = queue_idents ?l @ [?x]"
    proof -
      have "List.map_filter (\<lambda>j. Option.bind (jm_get (il_records ?l') j) record_identity) (il_queueIds ?l) = queue_idents ?l"
        unfolding queue_idents_def using nq by (intro map_filter_same) (auto simp: jm_get_put)
      then show ?thesis
        by (simp add: queue_idents_def map_filter_snoc jm_get_put record_identity_def)
    qed
    have below: "ident_less y ?x" if "ident_ok (OpenA h t e) y" for y
      using that next_identity_ok(2) [OF ok(1)] by (simp add: ident_ok_def ident_less_def)
    show ?thesis
      using ok(4) below next_identity_ok(3) [OF ok(1)] ident_ok_follows [OF _ f]
      unfolding idents_ok_def qi lv by (auto simp: sorted_wrt_append record_identity_def)
  qed
  moreover have "results_ok (in_localIntentCounter s) ?l' (accepted_ids s) (observed_results s @ in_resultNotifications s)"
  proof (rule results_ok_same)
    show "results_ok (in_localIntentCounter s) ?l (accepted_ids s) (observed_results s @ in_resultNotifications s)" using core by (simp add: core_def)
    show "(\<exists>q. live ?l' j q) \<longleftrightarrow> (\<exists>q. live ?l j q)" for j using old by (auto simp: lv)
    show "jm_get (il_records ?l') j = Some q \<Longrightarrow> record_result q = Some res \<Longrightarrow> jm_get (il_records ?l) j = Some q" for j q res
      by (auto simp: jm_get_put split: if_splits)
  qed
  moreover have "open_known T ?a" using ok(2) by (simp add: open_known_def)
  ultimately have "core T (A - both {i}) True ?s"
    using f unfolding core_def by (simp add: follows_def sent_idents_def accepted_ids_def observed_results_def)
  then show ?thesis using run lv none by (intro exI [of _ ?s]) (simp add: frame_def)
qed

text \<open>The preparation of a settlement: what \<open>settle_core\<close> says of the record loop.\<close>

definition admits :: "(nat \<Rightarrow> InputTransport option) \<Rightarrow> mid_turn \<Rightarrow> string \<Rightarrow> dispatcher \<Rightarrow> dispatcher \<Rightarrow> bool" where
  "admits T A i s s' \<longleftrightarrow> core T (A - both {i}) True s' \<and> il_preAdmissionIds (in_ledger s') = [] \<and> frame s' = frame s \<and>
     (\<forall>j r. j \<noteq> i \<longrightarrow> live (in_ledger s') j r \<longleftrightarrow> live (in_ledger s) j r)"

lemma settle_admits:
  assumes "core T A True s" and "il_preAdmissionIds (in_ledger s) = []"
  shows "\<exists>s'. finishNotSent env ns i s = (s', Inr ()) \<and> admits T A i s s'"
proof -
  from settle_core [OF assms(1), of env last_not_sent "NotSent ns" i] obtain s' where
    "finishNotSent env ns i s = (s', Inr ())" "core T (A - both {i}) True s'" "dropped {i} s s'" unfolding finishNotSent_def by blast
  with assms(2) show ?thesis by (auto simp: admits_def dropped_def)
qed

lemma admit_payload_admits:
  assumes core: "core T A True s" and none: "il_preAdmissionIds (in_ledger s) = []"
    and r: "jm_get (il_records (in_ledger s)) i = Some (PreAdmission b p n)"
  shows "\<exists>s'. admit_payload env now i p s = (s', Inr ()) \<and> admits T A i s s'"
proof -
  have fin: "admit_payload env now i p s = finishNotSent env ns i s \<Longrightarrow> ?thesis" for ns
    using settle_admits [OF core none, of env ns i] by simp
  show ?thesis
  proof (cases "\<exists>h t e. in_authority s = OpenA h t e \<and> authorityValidationReason p s = None")
    case False
    then have "\<exists>ns. admit_payload env now i p s = finishNotSent env ns i s"
      by (auto simp: admit_payload_def readS_def split: AuthorityState.split option.split)
    with fin show ?thesis by blast
  next
    case True
    then obtain h t e where a: "in_authority s = OpenA h t e" "authorityValidationReason p s = None" by blast
    show ?thesis
    proof (cases "length (il_activeByIdentity (in_ledger s)) < maxPending \<and>
        (\<exists>frm. encodeInputFrame p (the (it_writerLease t)) (next_identity e) = Some frm \<and> canAdmit (in_ledger s) (dv_frameBytes env frm))")
      case False
      with a have "\<exists>ns. admit_payload env now i p s = finishNotSent env ns i s"
        by (auto simp: admit_payload_def readS_def split: option.split)
      with fin show ?thesis by blast
    next
      case True
      then obtain frm where frm: "encodeInputFrame p (the (it_writerLease t)) (next_identity e) = Some frm"
        "canAdmit (in_ledger s) (dv_frameBytes env frm)" by blast
      with a True have "admit_payload env now i p s = admit_encoded t (next_identity e) frm (dv_frameBytes env frm) now i s"
        by (simp add: admit_payload_def readS_def)
      with admit_core [OF core none r a(1) frm(2), of frm now] show ?thesis by (auto simp: admits_def)
    qed
  qed
qed

lemma admit_record_admits:
  assumes core: "core T A True s" and none: "il_preAdmissionIds (in_ledger s) = []"
    and r: "\<exists>b p n. jm_get (il_records (in_ledger s)) i = Some (PreAdmission b p n)"
  shows "\<exists>s'. admit_record env now i s = (s', Inr ()) \<and> admits T A i s s'"
proof -
  from r obtain b p n where b: "jm_get (il_records (in_ledger s)) i = Some (PreAdmission b p n)" by blast
  have "admit_record env now i s = (if maxPreAdmissionAgeMs \<le> now - ib_consumedAtMs b
      then finishNotSent env ns_pre_admission_expired i s else admit_payload env now i p s)"
    using b by (simp add: admit_record_def readS_def record_of_def)
  with settle_admits [OF core none] admit_payload_admits [OF core none b] show ?thesis by auto
qed

lemma admit_records:
  assumes "core T (A \<union> both (set ids)) True s" and "il_preAdmissionIds (in_ledger s) = []" and "distinct ids"
    and "\<forall>i \<in> set ids. \<exists>b p n. jm_get (il_records (in_ledger s)) i = Some (PreAdmission b p n)"
  shows "\<exists>s'. forS (admit_record env now) ids s = (s', Inr ()) \<and> core T A True s' \<and> il_preAdmissionIds (in_ledger s') = [] \<and> frame s' = frame s"
  using assms
proof (induction ids arbitrary: s)
  case (Cons i ids)
  from admit_record_admits [OF Cons.prems(1,2), of i env now] Cons.prems(4) obtain s1 where
    s1: "admit_record env now i s = (s1, Inr ())" "admits T (A \<union> both (set (i # ids))) i s s1" by auto
  have "core T (A \<union> both (set ids)) True s1" using s1(2) by (auto simp: admits_def elim: core_mono)
  moreover have "\<exists>b p n. jm_get (il_records (in_ledger s1)) j = Some (PreAdmission b p n)" if j: "j \<in> set ids" for j
  proof -
    from Cons.prems(4) j obtain b p n where "jm_get (il_records (in_ledger s)) j = Some (PreAdmission b p n)" by auto
    then have "live (in_ledger s) j (PreAdmission b p n)" by (simp add: live_def)
    with s1(2) Cons.prems(3) j have "live (in_ledger s1) j (PreAdmission b p n)" by (auto simp: admits_def)
    then show ?thesis by (auto simp: live_def)
  qed
  ultimately obtain s2 where "forS (admit_record env now) ids s1 = (s2, Inr ())" "core T A True s2" "il_preAdmissionIds (in_ledger s2) = []"
      "frame s2 = frame s1"
    using Cons.IH [of s1] s1(2) Cons.prems(3) by (auto simp: admits_def)
  with s1 show ?case by (simp add: bindS_def admits_def)
qed (simp add: returnS_def)

section \<open>Turns\<close>

text \<open>
  What holds between the operations of one turn: the invariant, the depth of the transaction, a bound \<open>Q\<close> for the queue, and that
  an intent that waits for admission has a microtask to admit it.
\<close>

type_synonym control_flags =
  "bool \<times> int option \<times> bool \<times> bool \<times> (DispatcherCall list \<times> InputTransportSendResult) list"

definition flags_of :: "dispatcher \<Rightarrow> control_flags" where
  "flags_of s = (in_deadlineTimer s, in_deadlineAtMs s, in_drainingQueue s, in_sendScheduled s, in_script s)"

definition woken :: "dispatcher \<Rightarrow> bool" where
  "woken s \<longleftrightarrow> (il_preAdmissionIds (in_ledger s) = [] \<or> in_admissionScheduled s) \<and> (\<not> in_admissionScheduled s \<or> 0 < in_microtasks s)"

definition turn ::
  "(nat \<Rightarrow> InputTransport option) \<Rightarrow> bool \<Rightarrow> control_flags set \<Rightarrow> nat \<Rightarrow> mid_turn \<Rightarrow> string set \<Rightarrow> dispatcher \<Rightarrow> bool" where
  "turn T w F d A Q s \<longleftrightarrow> core T A True s \<and> flags_of s \<in> F \<and> in_mutationDepth s = d \<and>
     set (il_queueIds (in_ledger s)) \<subseteq> Q \<and> (w \<longrightarrow> woken s)"

lemma turn_mono: "turn T w F d A Q s \<Longrightarrow> (w' \<Longrightarrow> w) \<Longrightarrow> F \<subseteq> F' \<Longrightarrow> A \<subseteq> A' \<Longrightarrow> Q \<subseteq> Q' \<Longrightarrow> turn T w' F' d A' Q' s"
  by (auto simp: turn_def elim: core_mono)

lemma frame_flags: "frame s' = frame s \<Longrightarrow> flags_of s' = flags_of s \<and> in_mutationDepth s' = in_mutationDepth s \<and>
    in_admissionScheduled s' = in_admissionScheduled s \<and> in_microtasks s' = in_microtasks s"
  by (simp add: frame_def flags_of_def)

lemma turn_trims: "turn T w F d A Q s \<Longrightarrow> core T B True s' \<Longrightarrow> trims s s' \<Longrightarrow> turn T w F d B Q s'"
  using frame_flags [of s' s] by (auto simp: turn_def trims_def woken_def)

lemma trim_turn:
  assumes "trim_op T A B m"
  shows "succeeds (turn T w F d A Q) m (\<lambda>s _. turn T w F d B Q s)"
proof (rule succeedsI)
  fix s assume s: "turn T w F d A Q s"
  then have "core T A True s" by (simp add: turn_def)
  then obtain s' x where "m s = (s', Inr x)" "core T B True s'" "trims s s'" by (rule trim_opE [OF assms])
  with turn_trims [OF s] show "\<exists>s' x. m s = (s', Inr x) \<and> turn T w F d B Q s'" by blast
qed

section \<open>Admission\<close>

text \<open>What the caller's \<open>scheduleSend\<close> promises: from any turn it returns, with the queue within the bound.\<close>

locale send_scheduler =
  fixes T :: "nat \<Rightarrow> InputTransport option" and F :: "control_flags set" and Q :: "string set" and schedule :: "unit dispatch"
  assumes schedule_returns: "0 < d \<Longrightarrow> succeeds (turn T True F d A UNIV) schedule (\<lambda>s _. turn T True F d A Q s)"
begin

lemma admit_returns:
  assumes "0 < d"
  shows "succeeds (turn T False F d A UNIV) (admitPreAdmission env schedule) (\<lambda>s _. turn T True F d A Q s)"
proof (rule succeedsI)
  fix s assume turn: "turn T False F d A UNIV s"
  let ?s0 = "s\<lparr>in_admissionScheduled := False\<rparr>"
  have "core T A True s" using turn by (simp add: turn_def)
  then have c0: "core T A True ?s0" by (rule core_cong) simp_all
  note inv = core_inv [OF c0]
  let ?ids = "il_preAdmissionIds (in_ledger s)"
  from take_core [OF c0] obtain l' rs where t: "takePreAdmission (in_ledger s) = Inr (l', rs)" "map record_id rs = ?ids"
      "il_preAdmissionIds l' = []" "il_records l' = il_records (in_ledger s)"
      "core T (A \<union> both (set ?ids)) True (?s0\<lparr>in_ledger := l'\<rparr>)" by auto
  let ?s1 = "?s0\<lparr>in_ledger := l'\<rparr>"
  let ?now = "dv_now env (in_clockReads s)"
  let ?s2 = "?s1\<lparr>in_clockReads := in_clockReads s + 1\<rparr>"
  have c2: "core T (A \<union> both (set ?ids)) True ?s2" by (rule core_cong [OF t(5)]) simp_all
  have "\<forall>i \<in> set ?ids. \<exists>b p n. jm_get (il_records l') i = Some (PreAdmission b p n)"
  proof
    fix i assume "i \<in> set ?ids"
    with pre_live [OF inv, of i] obtain r where "jm_get (il_records l') i = Some r" "phase r = ph_pre_admission" using t(4) by (auto simp: live_def)
    then show "\<exists>b p n. jm_get (il_records l') i = Some (PreAdmission b p n)" by (auto simp: phase_cases)
  qed
  with admit_records [OF c2, of env ?now] t(3) index_distinct [OF inv] obtain s3 where
    s3: "forS (admit_record env ?now) ?ids ?s2 = (s3, Inr ())" "core T A True s3" "il_preAdmissionIds (in_ledger s3) = []" "frame s3 = frame ?s2"
    by auto
  have t3: "turn T True F d A UNIV s3"
    using turn s3(2-4) frame_flags [OF s3(4)] by (simp add: turn_def woken_def flags_of_def)
  have run: "admitPreAdmission env schedule s = (if il_queueIds (in_ledger s3) \<noteq> [] then schedule else returnS ()) s3"
    using t(1,2) s3(1) by (simp add: admitPreAdmission_def bindS_def modifyS_def ledger_read_def clock_def readS_def)
  show "\<exists>s' x. admitPreAdmission env schedule s = (s', Inr x) \<and> turn T True F d A Q s'"
  proof (cases "il_queueIds (in_ledger s3) = []")
    case True
    with t3 have "turn T True F d A Q s3" by (simp add: turn_def)
    with True run show ?thesis by (simp add: returnS_def)
  next
    case False
    with run succeedsD [OF schedule_returns [OF assms] t3] show ?thesis by simp
  qed
qed

end

end
