(* ===== verification/Input_Dispatcher_Calls.thy ===== *)
theory Input_Dispatcher_Calls
  imports Input_Dispatcher_Admission
begin

text \<open>
  The calls on the input dispatcher: consuming an event, the transactions around every call, the sender that calls back, and the
  drain of the queue, which ends within its fuel.
\<close>

section \<open>A new intent\<close>

lemma bindS_nested: "bindS (bindS m k) h = bindS m (\<lambda>x. bindS (k x) h)"
  by (rule ext) (simp add: bindS_def split: prod.split sum.split)

lemma named_fresh:
  assumes i: "i = ''local-intent-'' @ bigint_toString (n + 1) @ ''-'' @ c" and "0 \<le> n"
  shows "\<not> named n i"
proof
  assume "named n i"
  then obtain k d where k: "1 \<le> k" "k \<le> n" "i = ''local-intent-'' @ bigint_toString k @ ''-'' @ d" by (auto simp: named_def)
  have "bigint_toString (n + 1) = bigint_toString k \<and> c = d"
    by (rule digits_prefix [of _ _ "CHR ''-''"]) (use i k assms(2) bigint_digits nul_no_digit in simp_all)
  then have "n + 1 = k" using assms(2) k(1) by (metis bigint_of_toString add_increasing2 zero_le_one order_trans)
  with k(2) show False by simp
qed

lemma named_mono:
  assumes "named n i" and "n \<le> m"
  shows "named m i"
proof -
  from assms(1) obtain k c where k: "1 \<le> k" "k \<le> n" "i = ''local-intent-'' @ bigint_toString k @ ''-'' @ c" unfolding named_def by blast
  from k(2) assms(2) have "k \<le> m" by simp
  with k show ?thesis unfolding named_def by blast
qed

lemma accepted_record:
  assumes "core T A q s" and "jm_get (il_records (in_ledger s)) i = Some r"
  shows "i \<in> set (accepted_ids s)"
proof -
  let ?res = "observed_results s @ in_resultNotifications s"
  from assms(1) have ok: "results_ok (in_localIntentCounter s) (in_ledger s) (accepted_ids s) ?res" by (simp add: core_def)
  show ?thesis
  proof (cases "phase r = ph_terminal")
    case False
    then have "\<exists>r. live (in_ledger s) i r" using assms(2) by (auto simp: live_def)
    with ok show ?thesis by (simp add: results_ok_def)
  next
    case True
    then obtain res where res: "record_result r = Some res" by (cases r) auto
    then have "ir_localIntentId res = i"
      using ledger_invD(3) [OF core_inv [OF assms(1)]] assms(2) by (auto simp: terminal_ok_def result_matches_def)
    moreover have "res \<in> set ?res" using ok assms(2) res unfolding results_ok_def by blast
    ultimately show ?thesis using ok unfolding results_ok_def by blast
  qed
qed

definition consumed :: "string \<Rightarrow> dispatcher \<Rightarrow> bool" where
  "consumed i s \<longleftrightarrow> (\<exists>b. jm_get (il_records (in_ledger s)) i = Some (Consumed b))"

definition begin_intent :: "dispatcher_env \<Rightarrow> string dispatch" where
  "begin_intent env =
     bindS (nextLocalIntentId env) (\<lambda>i. bindS (clock env) (\<lambda>now. bindS (ledger_do (\<lambda>l. createConsumed l i now)) (\<lambda>_.
     bindS (emit (IntentConsumed i)) (\<lambda>_. returnS i))))"

lemma begin_core:
  assumes core: "core T A q s"
  shows "\<exists>s' i. begin_intent env s = (s', Inr i) \<and> core T (insert (False, i) A) q s' \<and> trims s s' \<and> consumed i s'"
proof -
  let ?l = "in_ledger s" and ?n = "in_localIntentCounter s"
  note inv = core_inv [OF core]
  from core have ok: "ledger_ok A ?l" "q \<Longrightarrow> queue_ok (in_authority s) ?l" "idents_ok (in_authority s) ?l (sent_idents s)"
    "results_ok ?n ?l (accepted_ids s) (observed_results s @ in_resultNotifications s)" by (simp_all add: core_def)
  obtain c where "nextLocalIntentId env s = (s\<lparr>in_localIntentCounter := ?n + 1, in_generated := in_generated s + 1\<rparr>,
      Inr (''local-intent-'' @ bigint_toString (?n + 1) @ ''-'' @ c))" by (simp add: nextLocalIntentId_def Let_def)
  moreover define i where "i = ''local-intent-'' @ bigint_toString (?n + 1) @ ''-'' @ c"
  ultimately have nx: "nextLocalIntentId env s = (s\<lparr>in_localIntentCounter := ?n + 1, in_generated := in_generated s + 1\<rparr>, Inr i)" by simp
  have n: "0 \<le> ?n" "\<forall>j \<in> set (accepted_ids s). named ?n j" using ok(4) by (simp_all add: results_ok_def)
  have fresh: "i \<notin> set (accepted_ids s)" using n named_fresh [OF i_def n(1)] by blast
  have none: "jm_get (il_records ?l) i = None" using accepted_record [OF core, of i] fresh by (cases "jm_get (il_records ?l) i") auto
  let ?b = "\<lparr>ib_localIntentId = i, ib_kind = kind_unknown, ib_consumedAtMs = dv_now env (in_clockReads s)\<rparr>"
  let ?l' = "put i (Consumed ?b) ?l"
  let ?s = "s\<lparr>in_localIntentCounter := ?n + 1, in_generated := in_generated s + 1, in_clockReads := in_clockReads s + 1,
    in_ledger := ?l', in_effects := in_effects s @ [IntentConsumed i]\<rparr>"
  have cr: "createConsumed ?l i (dv_now env (in_clockReads s)) = Inr ?l'" using none by (simp add: createConsumed_def)
  have run: "begin_intent env s = (?s, Inr i)"
    using nx cr by (simp add: begin_intent_def bindS_def clock_def ledger_do_def emit_def modifyS_def returnS_def)
  have lv: "live ?l' j r \<longleftrightarrow> (if j = i then r = Consumed ?b else live ?l j r)" for j r by (auto simp: live_def jm_get_put)
  have nq: "i \<notin> set (il_queueIds ?l)" using queued_live [OF inv, of i] none by (auto simp: live_def)
  have "ledger_ok (insert (False, i) A) ?l'"
    using ok(1) createConsumed_inv [OF inv cr] by (auto simp: ledger_ok_def lv transient_def bytes_held_def)
  moreover have "queue_ok (in_authority s) ?l'" if q
  proof -
    have "j \<noteq> i" if "j \<in> set (il_queueIds ?l)" for j using that nq by auto
    with ok(2) [OF that] show ?thesis by (auto simp: queue_ok_def lv)
  qed
  moreover have "idents_ok (in_authority s) ?l' (sent_idents s)"
  proof -
    have "queue_idents ?l' = queue_idents ?l" using nq unfolding queue_idents_def put_fields
      by (intro map_filter_same) (auto simp: jm_get_put)
    with ok(3) show ?thesis by (auto simp: idents_ok_def lv record_identity_def split: if_splits)
  qed
  moreover have "results_ok (?n + 1) ?l' (accepted_ids s @ [i]) (observed_results s @ in_resultNotifications s)"
  proof -
    have nm: "named (?n + 1) j" if "j \<in> set (accepted_ids s @ [i])" for j
    proof (cases "j = i")
      case True
      have "1 \<le> ?n + 1" using n(1) by simp
      then show ?thesis unfolding True named_def i_def by blast
    next
      case False
      with that n(2) have "named ?n j" by simp
      then show ?thesis by (rule named_mono) simp
    qed
    have res: "res \<in> set (observed_results s @ in_resultNotifications s)"
      if "jm_get (il_records ?l') j = Some r" "record_result r = Some res" for j r res
    proof -
      have "jm_get (il_records ?l) j = Some r" using that by (auto simp: jm_get_put split: if_splits)
      with ok(4) that(2) show ?thesis unfolding results_ok_def by blast
    qed
    have lives: "(\<exists>r. live ?l' j r) \<longleftrightarrow> j \<in> set (accepted_ids s @ [i]) \<and> j \<notin> ir_localIntentId ` set (observed_results s @ in_resultNotifications s)" for j
    proof (cases "j = i")
      case True
      have "ir_localIntentId ` set (observed_results s @ in_resultNotifications s) \<subseteq> set (accepted_ids s)"
        using ok(4) by (simp only: results_ok_def)
      with fresh have "i \<notin> ir_localIntentId ` set (observed_results s @ in_resultNotifications s)" by (rule contra_subsetD [rotated])
      with True show ?thesis by (simp add: lv)
    next
      case False
      have "(\<exists>r. live ?l j r) \<longleftrightarrow> j \<in> set (accepted_ids s) \<and> j \<notin> ir_localIntentId ` set (observed_results s @ in_resultNotifications s)"
        using ok(4) by (simp only: results_ok_def)
      with False show ?thesis by (simp add: lv)
    qed
    have "0 \<le> ?n + 1 \<and> distinct (accepted_ids s @ [i]) \<and> distinct (map ir_localIntentId (observed_results s @ in_resultNotifications s)) \<and>
        ir_localIntentId ` set (observed_results s @ in_resultNotifications s) \<subseteq> set (accepted_ids s @ [i])"
      using ok(4) fresh by (auto simp: results_ok_def)
    then show ?thesis unfolding results_ok_def by (intro conjI ballI allI impI nm lives) (simp_all, elim conjE, rule res [simplified])
  qed
  moreover have "sent_idents ?s = sent_idents s" "observed_results ?s = observed_results s" "accepted_ids ?s = accepted_ids s @ [i]"
    by (simp_all add: sent_idents_def observed_results_def accepted_ids_def map_filter_snoc)
  ultimately have "core T (insert (False, i) A) q ?s" using core unfolding core_def by simp
  moreover have "trims s ?s" by (simp add: trims_def frame_def)
  moreover have "consumed i ?s" by (simp add: consumed_def jm_get_put)
  ultimately show ?thesis using run by blast
qed

section \<open>Consuming an event\<close>

text \<open>The turn that owns a freshly consumed intent.\<close>

definition owns ::
  "(nat \<Rightarrow> InputTransport option) \<Rightarrow> control_flags set \<Rightarrow> nat \<Rightarrow> mid_turn \<Rightarrow> string set \<Rightarrow> string \<Rightarrow> dispatcher \<Rightarrow> bool" where
  "owns T F d A Q i s \<longleftrightarrow> turn T True F d (insert (False, i) A) Q s \<and> consumed i s"

lemma owns_begin: "succeeds (turn T True F d A Q) (begin_intent env) (\<lambda>s i. owns T F d A Q i s)"
proof (rule succeedsI)
  fix s assume s: "turn T True F d A Q s"
  then have "core T A True s" by (simp add: turn_def)
  from begin_core [OF this, of env] obtain s' i where s': "begin_intent env s = (s', Inr i)" "core T (insert (False, i) A) True s'"
    "trims s s'" "consumed i s'" by blast
  with turn_trims [OF s s'(2,3)] show "\<exists>s' i. begin_intent env s = (s', Inr i) \<and> owns T F d A Q i s'" by (auto simp: owns_def)
qed

lemma owns_finish: "succeeds (owns T F d A Q i) (finishNotSent env ns i) (\<lambda>s _. turn T True F d A Q s)"
  by (rule succeeds_conseq [OF trim_turn [OF trim_finishes(1)]]) (auto simp: owns_def elim: turn_mono)

lemma consumed_live: "consumed i s \<Longrightarrow> \<exists>b. live (in_ledger s) i (Consumed b)"
  by (auto simp: consumed_def live_def)

lemma owns_identify: "succeeds (owns T F d A Q i) (ledger_do (\<lambda>l. identify l i k)) (\<lambda>s _. owns T F d A Q i s)"
proof (rule succeedsI)
  fix s assume own: "owns T F d A Q i s"
  then have core: "core T (insert (False, i) A) True s" by (simp add: owns_def turn_def)
  note inv = core_inv [OF core]
  from own obtain b where b: "jm_get (il_records (in_ledger s)) i = Some (Consumed b)" by (auto simp: owns_def consumed_def)
  let ?r = "Consumed (b\<lparr>ib_kind := k\<rparr>)"
  let ?l = "put i ?r (in_ledger s)"
  have op: "identify (in_ledger s) i k = Inr ?l" using b by (simp add: identify_def requirePhase_def)
  have live: "live (in_ledger s) i (Consumed b)" using b by (simp add: live_def)
  have pre: "i \<notin> set (il_preAdmissionIds (in_ledger s))" using pre_live [OF inv, of i] live_fun [OF live] by fastforce
  have "core T (insert (False, i) A) True (s\<lparr>in_ledger := ?l\<rparr>)"
    using core_replaces [OF core put_replaces [OF identify_inv [OF inv op]] live _ _ pre] by (simp add: record_identity_def)
  moreover have "trims s (s\<lparr>in_ledger := ?l\<rparr>)" by (simp add: trims_def frame_def)
  ultimately have "owns T F d A Q i (s\<lparr>in_ledger := ?l\<rparr>)"
    using own turn_trims [of T True F d "insert (False, i) A" Q s] by (simp add: owns_def consumed_def jm_get_put)
  then show "\<exists>s' x. ledger_do (\<lambda>l. identify l i k) s = (s', Inr x) \<and> owns T F d A Q i s'" using op by (simp add: ledger_do_def)
qed

lemma owns_note_resize: "succeeds (owns T F d A Q i) (note_resize v) (\<lambda>s _. owns T F d A Q i s)"
proof -
  have "owns T F d A Q i (s\<lparr>in_latestResize := x, in_resizeConfirmed := y\<rparr>)" if own: "owns T F d A Q i s" for s x y
  proof -
    let ?s = "s\<lparr>in_latestResize := x, in_resizeConfirmed := y\<rparr>"
    from own have "core T (insert (False, i) A) True s" by (simp add: owns_def turn_def)
    then have "core T (insert (False, i) A) True ?s" by (rule core_cong) simp_all
    moreover have "trims s ?s" by (simp add: trims_def frame_def)
    ultimately show ?thesis using own turn_trims [of T True F d "insert (False, i) A" Q s] by (simp add: owns_def consumed_def)
  qed
  then show ?thesis unfolding note_resize_def
    by (cases v) (auto intro!: succeeds_return succeeds_modify)
qed

lemma owns_supersede: "succeeds (owns T F d A Q i) (supersede env v) (\<lambda>s _. owns T F d A Q i s)"
proof (rule succeedsI)
  fix s assume own: "owns T F d A Q i s"
  then have core: "core T (insert (False, i) A) True s" by (simp add: owns_def turn_def)
  note inv = core_inv [OF core]
  from lastPreAdmission_total [OF inv] obtain x where x: "lastPreAdmission (in_ledger s) = Inr x" by blast
  show "\<exists>s' y. supersede env v s = (s', Inr y) \<and> owns T F d A Q i s'"
  proof (cases "\<exists>r. x = Some r \<and> isCoalesciblePayloadPair (pre_payload r) v")
    case False
    then have "supersede env v s = (s, Inr ())" using x
      by (auto simp: supersede_def bindS_def ledger_read_def returnS_def split: option.split)
    with own show ?thesis by blast
  next
    case True
    then obtain r where r: "x = Some r" "isCoalesciblePayloadPair (pre_payload r) v" by blast
    with x have r': "jm_get (il_records (in_ledger s)) (last (il_preAdmissionIds (in_ledger s))) = Some r" "phase r = ph_pre_admission"
      by (auto simp: lastPreAdmission_def bindR_Inr_iff requirePhase_Inr_iff split: if_splits)
    let ?j = "record_id r"
    have j: "?j = last (il_preAdmissionIds (in_ledger s))" by (rule ledger_id [OF inv r'(1)])
    from own have "jm_get (il_records (in_ledger s)) i \<noteq> Some r" using r'(2) by (auto simp: owns_def consumed_def)
    with r'(1) j have "?j \<noteq> i" by auto
    from settle_core [OF core, of env last_not_sent "NotSent ns_superseded" ?j] obtain s' where s': "finishNotSent env ns_superseded ?j s = (s', Inr ())"
      "core T (insert (False, i) A - both {?j}) True s'" "dropped {?j} s s'" unfolding finishNotSent_def by blast
    have "core T (insert (False, i) A) True s'" by (rule core_mono [OF s'(2)]) auto
    then have "turn T True F d (insert (False, i) A) Q s'"
      using own turn_trims [OF _ _ dropped_trims [OF s'(3)]] by (auto simp: owns_def)
    moreover have "consumed i s'"
    proof -
      from own consumed_live obtain b where "live (in_ledger s) i (Consumed b)" by (auto simp: owns_def)
      with s'(3) \<open>?j \<noteq> i\<close> have "live (in_ledger s') i (Consumed b)" by (simp add: dropped_def)
      then show ?thesis by (auto simp: consumed_def live_def)
    qed
    moreover have "supersede env v s = (s', Inr ())" using x r s'(1) by (simp add: supersede_def bindS_def ledger_read_def)
    ultimately show ?thesis by (auto simp: owns_def)
  qed
qed

lemma enqueue_core:
  assumes core: "core T A q s" and b: "jm_get (il_records (in_ledger s)) i = Some (Consumed b)" and can: "canReservePreAdmission (in_ledger s) n"
  shows "\<exists>l'. enqueuePreAdmission (in_ledger s) i p n = Inr l' \<and> core T (A - both {i}) q (s\<lparr>in_ledger := l'\<rparr>) \<and>
    il_queueIds l' = il_queueIds (in_ledger s)"
proof -
  let ?l = "in_ledger s"
  let ?l' = "(put i (PreAdmission b p n) ?l)\<lparr>il_preAdmissionIds := il_preAdmissionIds ?l @ [i],
    il_preAdmissionBytes := il_preAdmissionBytes ?l + int n\<rparr>"
  note inv = core_inv [OF core]
  have op: "enqueuePreAdmission ?l i p n = Inr ?l'" using b can by (simp add: enqueuePreAdmission_def requirePhase_def)
  have lv: "live ?l' j r \<longleftrightarrow> (if j = i then r = PreAdmission b p n else live ?l j r)" for j r by (auto simp: live_def jm_get_put)
  have old: "live ?l i (Consumed b)" using b by (simp add: live_def)
  have nq: "i \<notin> set (il_queueIds ?l)" using queued_live [OF inv, of i] live_fun [OF old] by fastforce
  from core have ok: "ledger_ok A ?l" "q \<Longrightarrow> queue_ok (in_authority s) ?l" "idents_ok (in_authority s) ?l (sent_idents s)"
    "results_ok (in_localIntentCounter s) ?l (accepted_ids s) (observed_results s @ in_resultNotifications s)" by (simp_all add: core_def)
  have "ledger_ok (A - both {i}) ?l'"
    using ok(1) can enqueuePreAdmission_inv [OF inv op]
    by (auto simp: ledger_ok_def lv transient_def bytes_held_def canReservePreAdmission_def)
  moreover have "queue_ok (in_authority s) ?l'" if q
  proof -
    have "j \<noteq> i" if "j \<in> set (il_queueIds ?l)" for j using that nq by auto
    with ok(2) [OF that] show ?thesis by (auto simp: queue_ok_def lv)
  qed
  moreover have "idents_ok (in_authority s) ?l' (sent_idents s)"
  proof -
    have "queue_idents ?l' = queue_idents ?l" using nq unfolding queue_idents_def
      by (simp, intro map_filter_same) (auto simp: jm_get_put)
    with ok(3) show ?thesis by (auto simp: idents_ok_def lv record_identity_def split: if_splits)
  qed
  moreover have "results_ok (in_localIntentCounter s) ?l' (accepted_ids s) (observed_results s @ in_resultNotifications s)"
  proof (rule results_ok_same [OF ok(4)])
    show "(\<exists>r. live ?l' j r) \<longleftrightarrow> (\<exists>r. live ?l j r)" for j using old by (auto simp: lv)
    show "jm_get (il_records ?l') j = Some q \<Longrightarrow> record_result q = Some res \<Longrightarrow> jm_get (il_records ?l) j = Some q" for j q res
      by (auto simp: jm_get_put split: if_splits)
  qed
  ultimately have "core T (A - both {i}) q (s\<lparr>in_ledger := ?l'\<rparr>)"
    using core unfolding core_def by (simp add: sent_idents_def observed_results_def accepted_ids_def)
  with op show ?thesis by (intro exI [of _ ?l']) simp
qed

lemma consume_begin:
  "consume env schedule event = bindS (begin_intent env) (\<lambda>i.
     case Option.bind (observed_for env event) (normalizeInputEvent event) of
       None \<Rightarrow> finishNotSent env ns_malformed i
     | Some (kind, normalized) \<Rightarrow> bindS (ledger_do (\<lambda>l. identify l i kind)) (\<lambda>_.
         if \<not> validateInputPayload normalized then finishNotSent env ns_validation i
         else consume_validated env schedule i event normalized))"
proof -
  have r: "bindS (returnS x) k = k x" for x :: string and k :: "string \<Rightarrow> unit dispatch" by (rule ext) (simp add: bindS_def returnS_def)
  show ?thesis by (simp add: consume_def begin_intent_def bindS_nested r)
qed

context send_scheduler
begin

lemma enqueue_returns:
  assumes "0 < d"
  shows "succeeds (owns T F d A Q i) (enqueue_validated env schedule i v n) (\<lambda>s _. turn T True F d A Q s)"
proof (rule succeedsI)
  fix s assume own: "owns T F d A Q i s"
  then have turn: "turn T True F d (insert (False, i) A) Q s" by (simp add: owns_def)
  then have core: "core T (insert (False, i) A) True s" by (simp add: turn_def)
  from own obtain b where b: "jm_get (il_records (in_ledger s)) i = Some (Consumed b)" by (auto simp: owns_def consumed_def)
  show "\<exists>s' x. enqueue_validated env schedule i v n s = (s', Inr x) \<and> turn T True F d A Q s'"
  proof (cases "canReservePreAdmission (in_ledger s) n")
    case False
    with succeedsD [OF owns_finish own, of env ns_overload] show ?thesis by (simp add: enqueue_validated_def readS_def)
  next
    case True
    from enqueue_core [OF core b True, of v] obtain l' where l': "enqueuePreAdmission (in_ledger s) i v n = Inr l'"
      "core T (insert (False, i) A - both {i}) True (s\<lparr>in_ledger := l'\<rparr>)" "il_queueIds l' = il_queueIds (in_ledger s)" by blast
    let ?s = "s\<lparr>in_ledger := l'\<rparr>"
    have c: "core T A True ?s" by (rule core_mono [OF l'(2)]) auto
    have t: "turn T False F d A Q ?s" using turn c l'(3) by (simp add: turn_def flags_of_def)
    have dirty: "succeeds (turn T True F d A Q) markDirty (\<lambda>s _. turn T True F d A Q s)" by (rule trim_turn [OF trim_markDirty])
    have "\<exists>s' x. (if is_key_payload v then admitPreAdmission env schedule else scheduleAdmission) ?s = (s', Inr x) \<and> turn T True F d A Q s'"
    proof (cases "is_key_payload v")
      case True
      have "turn T False F d A UNIV ?s" by (rule turn_mono [OF t]) simp_all
      from succeedsD [OF admit_returns [OF assms] this, of env] True show ?thesis by simp
    next
      case False
      let ?s' = "if in_admissionScheduled s then ?s else ?s\<lparr>in_admissionScheduled := True, in_microtasks := in_microtasks s + 1\<rparr>"
      have "core T A True ?s'" by (rule core_cong [OF c]) simp_all
      moreover have "woken ?s'" using turn by (simp add: turn_def woken_def)
      ultimately have "turn T True F d A Q ?s'" using t by (simp add: turn_def flags_of_def)
      moreover have "scheduleAdmission ?s = (?s', Inr ())" by (simp add: scheduleAdmission_def readS_def modifyS_def returnS_def)
      ultimately show ?thesis using False by simp
    qed
    then obtain s2 x where s2: "(if is_key_payload v then admitPreAdmission env schedule else scheduleAdmission) ?s = (s2, Inr x)"
      "turn T True F d A Q s2" by blast
    from succeedsD [OF dirty s2(2)] obtain s3 y where s3: "markDirty s2 = (s3, Inr y)" "turn T True F d A Q s3" by blast
    have "enqueue_validated env schedule i v n s = (s3, Inr y)"
      using True l'(1) s2(1) s3(1) by (simp add: enqueue_validated_def readS_def bindS_def ledger_do_def)
    with s3(2) show ?thesis by blast
  qed
qed

lemma consume_validated_returns:
  assumes "0 < d"
  shows "succeeds (owns T F d A Q i) (consume_validated env schedule i event v) (\<lambda>s _. turn T True F d A Q s)"
proof -
  have "succeeds (owns T F d A Q i) (readS (\<lambda>s. case authorityValidationReason v s of Some reason \<Rightarrow> finishNotSent env reason i
      | None \<Rightarrow> bindS (supersede env v) (\<lambda>_. enqueue_validated env schedule i v n))) (\<lambda>s _. turn T True F d A Q s)" for n
  proof (rule succeeds_read)
    fix s assume own: "owns T F d A Q i s"
    show "succeeds (\<lambda>t. t = s) (case authorityValidationReason v s of Some reason \<Rightarrow> finishNotSent env reason i
      | None \<Rightarrow> bindS (supersede env v) (\<lambda>_. enqueue_validated env schedule i v n)) (\<lambda>s _. turn T True F d A Q s)"
    proof (rule succeeds_pre)
      show "succeeds (owns T F d A Q i) (case authorityValidationReason v s of Some reason \<Rightarrow> finishNotSent env reason i
        | None \<Rightarrow> bindS (supersede env v) (\<lambda>_. enqueue_validated env schedule i v n)) (\<lambda>s _. turn T True F d A Q s)"
        using succeeds_bind [OF owns_supersede enqueue_returns [OF assms]] owns_finish by (auto split: option.split)
    qed (simp add: own)
  qed
  from succeeds_bind [OF owns_note_resize this] show ?thesis
    unfolding consume_validated_def by (auto split: option.split intro: owns_finish)
qed

lemma consume_returns:
  assumes "0 < d"
  shows "succeeds (turn T True F d A Q) (consume env schedule event) (\<lambda>s _. turn T True F d A Q s)"
  unfolding consume_begin
  by (rule succeeds_bind [OF owns_begin])
    (auto split: option.split intro!: owns_finish succeeds_bind [OF owns_identify] succeeds_if consume_validated_returns [OF assms])

end

section \<open>Nested transactions\<close>

lemma turn_depth: "turn T w F d A Q s \<Longrightarrow> turn T w F e A Q (s\<lparr>in_mutationDepth := e\<rparr>)"
  by (auto simp: turn_def flags_of_def woken_def elim: core_cong)

lemma transaction_nested:
  assumes "0 < d" and "succeeds (turn T True F (d + 1) A Q) op (\<lambda>s _. turn T True F' (d + 1) B Q' s)"
  shows "succeeds (turn T True F d A Q) (transaction env op) (\<lambda>s _. turn T True F' d B Q' s)"
proof (rule succeedsI)
  fix s assume s: "turn T True F d A Q s"
  then have d: "in_mutationDepth s = d" by (simp add: turn_def)
  from succeedsD [OF assms(2) turn_depth [OF s]] obtain s1 x where s1: "op (s\<lparr>in_mutationDepth := d + 1\<rparr>) = (s1, Inr x)"
    "turn T True F' (d + 1) B Q' s1" by blast
  let ?s = "s1\<lparr>in_mutationDepth := d\<rparr>"
  have "in_mutationDepth s1 - 1 = d" using s1(2) by (simp add: turn_def)
  then have "end_transaction env s1 = (?s, Inr ())" using assms(1) by (simp add: end_transaction_def bindS_def modifyS_def readS_def returnS_def)
  then have "transaction env op s = (?s, Inr x)"
    using s1(1) assms(1) d by (simp add: transaction_def bindS_def returnS_def)
  with turn_depth [OF s1(2)] show "\<exists>s' y. transaction env op s = (s', Inr y) \<and> turn T True F' d B Q' s'" by blast
qed

text \<open>A call is made with transport objects the callers know.\<close>

definition call_known :: "(nat \<Rightarrow> InputTransport option) \<Rightarrow> DispatcherCall \<Rightarrow> bool" where
  "call_known T c \<longleftrightarrow> (case c of AttachTransport t \<Rightarrow> T (it_ref t) = Some t | _ \<Rightarrow> True)"

text \<open>The operation within the transaction of a call; \<open>None\<close> when the call starts none.\<close>

definition call_body :: "dispatcher_env \<Rightarrow> unit dispatch \<Rightarrow> dispatcher \<Rightarrow> DispatcherCall \<Rightarrow> unit dispatch option" where
  "call_body env schedule s c =
     (case c of
        AttachTransport t \<Rightarrow> Some (attachTransport env t)
      | DetachTransport isClosed \<Rightarrow> Some (detachTransport env isClosed)
      | RevokeWriterAuthority ref \<Rightarrow> Some (revokeWriterAuthority env ref)
      | SendInput event \<Rightarrow> Some (consume env schedule event)
      | ReconcileLatestResize \<Rightarrow> map_option (\<lambda>d. consume env schedule (ResizeInput d)) (in_latestResize s)
      | SetReplicaCurrent current \<Rightarrow> Some (setReplicaCurrent current)
      | AcceptAcknowledgement ack \<Rightarrow> Some (acceptAcknowledgement env ack)
      | AcceptTombstoneProof identity q \<Rightarrow> Some (acceptTombstoneProof env identity q)
      | ConfirmAuthoritativeResize d \<Rightarrow> Some (confirmAuthoritativeResize d))"

lemma call_operation_body:
  "call_operation env schedule c s = (case call_body env schedule s c of None \<Rightarrow> (s, Inr ()) | Some m \<Rightarrow> transaction env m s)"
  by (cases c) (auto simp: call_operation_def call_body_def readS_def returnS_def split: option.split)

context send_scheduler
begin

lemma body_returns:
  assumes "0 < d" and "call_known T c" and "call_body env schedule s c = Some m"
  shows "succeeds (turn T True F d A Q) m (\<lambda>s _. turn T True F d A Q s)"
proof (cases c)
  case (SendInput event)
  with assms consume_returns [OF assms(1)] show ?thesis by (auto simp: call_body_def)
next
  case ReconcileLatestResize
  with assms consume_returns [OF assms(1)] show ?thesis by (auto simp: call_body_def)
qed (use assms in \<open>auto simp: call_body_def call_known_def intro!: trim_turn trim_attach trim_detach trim_revoke trim_replica trim_ack
      trim_tombstone trim_confirm\<close>)

lemma nested_call:
  assumes "0 < d" and "call_known T c"
  shows "succeeds (turn T True F d A Q) (call_operation env schedule c) (\<lambda>s _. turn T True F d A Q s)"
proof (rule succeedsI)
  fix s assume s: "turn T True F d A Q s"
  show "\<exists>s' x. call_operation env schedule c s = (s', Inr x) \<and> turn T True F d A Q s'"
  proof (cases "call_body env schedule s c")
    case None
    with s show ?thesis by (simp add: call_operation_body)
  next
    case (Some m)
    have "succeeds (turn T True F (d + 1) A Q) m (\<lambda>s _. turn T True F (d + 1) A Q s)"
      using body_returns [OF _ assms(2) Some] by simp
    from succeedsD [OF transaction_nested [OF assms(1) this] s] Some show ?thesis by (simp add: call_operation_body)
  qed
qed

end

end
