(* ===== verification/Input_Dispatcher_Drain.thy ===== *)
theory Input_Dispatcher_Drain
  imports Input_Dispatcher_Calls
begin

text \<open>
  The drain of the send queue. While a sender is on the stack it may call the dispatcher again; what it calls is scripted. Each round of
  the drain shortens the script or the queue, so that the loop ends within its fuel and leaves the queue empty.
\<close>

text \<open>Within a drain \<open>scheduleSend\<close> returns at once: the calls a sender makes run with a scheduler that does nothing.\<close>

interpretation nested: send_scheduler T F UNIV "returnS ()" for T F
  by unfold_locales (auto intro: succeeds_return)

section \<open>Handing an intent to the sender\<close>

lemma sending_core:
  assumes core: "core T A True s" and q: "il_queueIds (in_ledger s) = i # rest"
    and r: "jm_get (il_records (in_ledger s)) i = Some (Queued b a f d)"
  shows "\<exists>l'. startSending (in_ledger s) i now = Inr l' \<and> il_queueIds l' = rest \<and> il_preAdmissionIds l' = il_preAdmissionIds (in_ledger s) \<and>
    core T (insert (True, i) A) True (s\<lparr>in_ledger := l', in_dirty := True, in_effects := in_effects s @ [FrameHandedOver k (ad_identity a) f]\<rparr>)"
proof -
  let ?l = "in_ledger s" and ?x = "ad_identity a" and ?r = "Sending b a f now"
  note inv = core_inv [OF core]
  let ?l' = "put i ?r (removeQueued i (ad_encodedBytes a) ?l)"
  let ?s = "s\<lparr>in_ledger := ?l', in_dirty := True, in_effects := in_effects s @ [FrameHandedOver k ?x f]\<rparr>"
  have op: "startSending ?l i now = Inr ?l'" using r by (simp add: startSending_def requirePhase_def)
  have ids: "il_queueIds ?l' = rest" "il_preAdmissionIds ?l' = il_preAdmissionIds ?l" "bytes_held ?l' \<le> bytes_held ?l"
    using q by (simp_all add: removeQueued_def bytes_held_def)
  have get: "jm_get (il_records ?l') j = (if j = i then Some ?r else jm_get (il_records ?l) j)" for j
    by (simp add: jm_get_put removeQueued_def)
  have lv: "live ?l' j q \<longleftrightarrow> (if j = i then q = ?r else live ?l j q)" for j q by (auto simp: live_def get)
  have old: "live ?l i (Queued b a f d)" using r by (simp add: live_def)
  have nr: "i \<notin> set rest" using index_distinct [OF inv] q by simp
  from core have ok: "ledger_ok A ?l" "queue_ok (in_authority s) ?l" "idents_ok (in_authority s) ?l (sent_idents s)"
    "results_ok (in_localIntentCounter s) ?l (accepted_ids s) (observed_results s @ in_resultNotifications s)" by (simp_all add: core_def)
  have "transient ?l' j q \<Longrightarrow> j \<noteq> i \<Longrightarrow> transient ?l j q" for j q using ids(2) by (simp add: transient_def)
  then have "ledger_ok (insert (True, i) A) ?l'"
    using ok(1) startSending_inv [OF inv op] ids q unfolding ledger_ok_def lv by auto
  moreover have "queue_ok (in_authority s) ?l'"
  proof -
    have "j \<noteq> i" if "j \<in> set rest" for j using that nr by auto
    with ok(2) show ?thesis unfolding queue_ok_def ids(1) lv by (auto simp: q)
  qed
  moreover have "idents_ok (in_authority s) ?l' (sent_idents s @ [?x])"
  proof -
    have rest: "queue_idents ?l' = List.map_filter (\<lambda>j. Option.bind (jm_get (il_records ?l) j) record_identity) rest"
      unfolding queue_idents_def ids(1) using nr by (intro map_filter_same) (auto simp: get)
    have "queue_idents ?l = ?x # queue_idents ?l'" unfolding rest using q r by (simp add: queue_idents_def record_identity_def)
    with ok(3) show ?thesis by (auto simp: idents_ok_def lv record_identity_def split: if_splits)
  qed
  moreover have "results_ok (in_localIntentCounter s) ?l' (accepted_ids s) (observed_results s @ in_resultNotifications s)"
  proof (rule results_ok_same [OF ok(4)])
    show "(\<exists>r. live ?l' j r) \<longleftrightarrow> (\<exists>r. live ?l j r)" for j using old by (auto simp: lv)
    show "jm_get (il_records ?l') j = Some q \<Longrightarrow> record_result q = Some res \<Longrightarrow> jm_get (il_records ?l) j = Some q" for j q res
      by (auto simp: get split: if_splits)
  qed
  moreover have "sent_idents ?s = sent_idents s @ [?x]" "observed_results ?s = observed_results s" "accepted_ids ?s = accepted_ids s"
    by (simp_all add: sent_idents_def observed_results_def accepted_ids_def map_filter_snoc)
  ultimately have "core T (insert (True, i) A) True ?s" using core unfolding core_def by simp
  with op ids show ?thesis by blast
qed

section \<open>Deciding what became of it\<close>

lemma core_not_sending:
  assumes "core T (insert (True, i) A) q s" and "map_option phase (record_of i s) \<noteq> Some ph_sending"
  shows "core T A q s"
proof -
  have "(phase r = ph_sending, j) \<in> A" if "live (in_ledger s) j r" "transient (in_ledger s) j r" for j r
  proof -
    have "(phase r = ph_sending, j) \<in> insert (True, i) A" using assms(1) that unfolding core_def ledger_ok_def by blast
    moreover have "(phase r = ph_sending, j) \<noteq> (True, i)" using assms(2) that(1) by (auto simp: record_of_def live_def)
    ultimately show ?thesis by (elim insertE) auto
  qed
  with assms(1) show ?thesis by (simp add: core_def ledger_ok_def)
qed

lemma trim_decide: "trim_op T (insert (True, i) A) A (decide_sent env decision x i)"
proof (rule trim_opI)
  fix s assume core: "core T (insert (True, i) A) True s"
  let ?A = "insert (True, i) A - both {i}"
  show "\<exists>s' y. decide_sent env decision x i s = (s', Inr y) \<and> core T A True s' \<and> trims s s'"
  proof (cases "map_option phase (record_of i s) = Some ph_sending")
    case False
    with core_not_sending [OF core False] trims_refl show ?thesis by (auto simp: decide_sent_def readS_def returnS_def)
  next
    case True
    then obtain b a f t where r: "jm_get (il_records (in_ledger s)) i = Some (Sending b a f t)" by (auto simp: record_of_def phase_cases)
    let ?s = "s\<lparr>in_clockReads := in_clockReads s + 1\<rparr>" and ?now = "dv_now env (in_clockReads s)"
    have c: "core T (insert (True, i) A) True ?s" by (rule core_cong [OF core]) simp_all
    have tr: "trims s ?s" by (simp add: trims_def frame_def)
    note inv = core_inv [OF core]
    have clock: "clock env s = (?s, Inr ?now)" by (simp add: clock_def)
    have "\<exists>s' y. (case decision of
         send_accepted \<Rightarrow> bindS (ledger_do (\<lambda>l. markSent l i (?now + maxSentAgeMs))) (\<lambda>_. markDirty)
       | send_proven_not_accepted \<Rightarrow> bindS (finishNotSent env ns_transport_rejected i) (\<lambda>_. sealIdentityEpoch env x True)
       | send_uncertain \<Rightarrow> bindS (startTermination term_transport_uncertain ?now i) (\<lambda>_. sealIdentityEpoch env x True)) ?s = (s', Inr y) \<and>
      core T ?A True s' \<and> trims ?s s'"
    proof (cases decision)
      case send_accepted
      let ?r = "Sent b a t (?now + maxSentAgeMs)"
      let ?l = "put i ?r (in_ledger s)"
      let ?s' = "?s\<lparr>in_ledger := ?l, in_dirty := True\<rparr>"
      have op: "markSent (in_ledger s) i (?now + maxSentAgeMs) = Inr ?l" using r by (simp add: markSent_def requirePhase_def)
      have live: "live (in_ledger ?s) i (Sending b a f t)" using r by (simp add: live_def)
      have pre: "i \<notin> set (il_preAdmissionIds (in_ledger ?s))" using pre_live [OF inv, of i] live_fun [OF live] by fastforce
      have rep: "replaces i ?r (in_ledger ?s) ?l" using put_replaces [OF markSent_inv [OF inv op]] by simp
      have "core T ?A True (?s\<lparr>in_ledger := ?l\<rparr>)" using core_replaces [OF c rep live _ _ pre] by (simp add: record_identity_def)
      then have "core T ?A True ?s'" by (rule core_cong) simp_all
      moreover have "trims ?s ?s'" by (simp add: trims_def frame_def)
      ultimately show ?thesis using send_accepted op by (simp add: bindS_def ledger_do_def markDirty_def modifyS_def)
    next
      case send_proven_not_accepted
      obtain s' y where "bindS (finishNotSent env ns_transport_rejected i) (\<lambda>_. sealIdentityEpoch env x True) ?s = (s', Inr y)"
        "core T ?A True s'" "trims ?s s'" by (rule trim_opE [OF trim_bind [OF trim_finishes(1) trim_sealIdentity] c])
      with send_proven_not_accepted show ?thesis by auto
    next
      case send_uncertain
      from startTermination_core [OF c, of term_transport_uncertain ?now i] True obtain s1 where
        s1: "startTermination term_transport_uncertain ?now i ?s = (s1, Inr ())" "trims ?s s1" "core T ?A True s1"
        by (auto simp: record_of_def)
      obtain s2 y where s2: "sealIdentityEpoch env x True s1 = (s2, Inr y)" "core T ?A True s2" "trims s1 s2"
        by (rule trim_opE [OF trim_sealIdentity s1(3)])
      have "bindS (startTermination term_transport_uncertain ?now i) (\<lambda>_. sealIdentityEpoch env x True) ?s = (s2, Inr y)"
        using s1(1) s2(1) by (simp add: bindS_def)
      with s2(2) trims_trans [OF s1(2) s2(3)] send_uncertain show ?thesis by auto
    qed
    then obtain s' y where s': "decide_sent env decision x i s = (s', Inr y)" "core T ?A True s'" "trims ?s s'"
      using True clock by (auto simp: decide_sent_def readS_def bindS_def)
    have "core T A True s'" by (rule core_mono [OF s'(2)]) auto
    with s' trims_trans [OF tr s'(3)] show ?thesis by blast
  qed
qed

section \<open>One round of the drain\<close>

definition script_known :: "(nat \<Rightarrow> InputTransport option) \<Rightarrow> (DispatcherCall list \<times> InputTransportSendResult) list \<Rightarrow> bool" where
  "script_known T sc \<longleftrightarrow> (\<forall>e \<in> set sc. \<forall>c \<in> set (fst e). call_known T c)"

abbreviation draining :: "bool \<Rightarrow> int option \<Rightarrow> (DispatcherCall list \<times> InputTransportSendResult) list \<Rightarrow> control_flags set" where
  "draining tm at_ms sc \<equiv> {(tm, at_ms, True, False, sc)}"

lemma calls_return:
  assumes "0 < d" and "\<forall>c \<in> set cs. call_known T c"
  shows "succeeds (turn T True F d A UNIV) (forS (call_operation env (returnS ())) cs) (\<lambda>s _. turn T True F d A UNIV s)"
  using assms(2)
proof (induction cs)
  case Nil
  show ?case by (auto intro: succeeds_return)
next
  case (Cons c cs)
  from Cons.prems have "succeeds (turn T True F d A UNIV) (call_operation env (returnS ()) c) (\<lambda>s _. turn T True F d A UNIV s)"
    by (intro nested.nested_call assms(1)) simp
  from succeeds_bind [OF this Cons.IH] Cons.prems show ?case by simp
qed

lemma call_sender_returns:
  assumes d: "0 < d" and s: "turn T True (draining tm at_ms sc) d A Q s" and known: "script_known T sc"
  shows "\<exists>s' dec. call_sender env s = (s', Inr dec) \<and> turn T True (draining tm at_ms (tl sc)) d A (if sc = [] then Q else UNIV) s'"
proof (cases sc)
  case Nil
  with s show ?thesis by (auto simp: call_sender_def readS_def returnS_def turn_def flags_of_def)
next
  case (Cons e rest)
  obtain cs dec where e: "e = (cs, dec)" by (cases e)
  have script: "in_script s = sc" using s by (simp add: turn_def flags_of_def)
  let ?s = "s\<lparr>in_script := rest\<rparr>"
  from s have "core T A True s" by (simp add: turn_def)
  then have "core T A True ?s" by (rule core_cong) simp_all
  then have t: "turn T True (draining tm at_ms rest) d A UNIV ?s" using s by (simp add: turn_def flags_of_def woken_def)
  have "\<forall>c \<in> set cs. call_known T c" using known Cons e by (simp add: script_known_def)
  from succeedsD [OF calls_return [OF d this] t, of env] obtain s' x where
    s': "forS (call_operation env (returnS ())) cs ?s = (s', Inr x)" "turn T True (draining tm at_ms rest) d A UNIV s'" by blast
  have "call_sender env s = (s', Inr dec)"
    using script Cons e s'(1) by (simp add: call_sender_def readS_def bindS_def modifyS_def returnS_def)
  with s'(2) Cons show ?thesis by simp
qed

definition drain_left :: "dispatcher \<Rightarrow> nat" where
  "drain_left s = length (in_script s) * (maxCount + 1) + length (il_queueIds (in_ledger s))"

lemma queue_shorter:
  assumes "turn T w F d A (set xs) s"
  shows "length (il_queueIds (in_ledger s)) \<le> length xs"
proof -
  from assms have q: "set (il_queueIds (in_ledger s)) \<subseteq> set xs" "core T A True s" by (simp_all add: turn_def)
  then have "distinct (il_queueIds (in_ledger s))" using index_distinct [OF core_inv] by blast
  then have "length (il_queueIds (in_ledger s)) = card (set (il_queueIds (in_ledger s)))" by (simp add: distinct_card)
  also have "\<dots> \<le> card (set xs)" by (rule card_mono [OF _ q(1)]) simp
  finally show ?thesis using card_length [of xs] by simp
qed

lemma queue_limit: "turn T w F d A Q s \<Longrightarrow> length (il_queueIds (in_ledger s)) \<le> maxCount"
  using ledger_invD(8) [OF core_inv] by (auto simp: turn_def)

lemma settle_head:
  assumes s: "turn T True (draining tm at_ms sc) d A UNIV s" and q: "il_queueIds (in_ledger s) = i # rest"
  shows "\<exists>s'. bindS (finishNotSent env ns i) (\<lambda>_. sealIdentityEpoch env x b) s = (s', Inr ()) \<and>
    turn T True (draining tm at_ms sc) d A (set rest) s'"
proof -
  from s have core: "core T A True s" by (simp add: turn_def)
  from settle_core [OF core, of env last_not_sent "NotSent ns" i] obtain s1 where
    s1: "finishNotSent env ns i s = (s1, Inr ())" "core T (A - both {i}) True s1" "dropped {i} s s1" unfolding finishNotSent_def by blast
  obtain s2 y where s2: "sealIdentityEpoch env x b s1 = (s2, Inr y)" "core T (A - both {i}) True s2" "trims s1 s2"
    by (rule trim_opE [OF trim_sealIdentity s1(2)])
  have "i \<notin> set rest" using index_distinct [OF core_inv [OF core]] q by simp
  then have "set (il_queueIds (in_ledger s1)) = set rest" using s1(3) q by (auto simp: dropped_def)
  moreover have "turn T True (draining tm at_ms sc) d (A - both {i}) UNIV s2"
    by (rule turn_trims [OF s s2(2)]) (rule trims_trans [OF dropped_trims [OF s1(3)] s2(3)])
  ultimately have "turn T True (draining tm at_ms sc) d (A - both {i}) (set rest) s2" using s2(3) by (simp add: turn_def trims_def)
  then have "turn T True (draining tm at_ms sc) d A (set rest) s2" by (rule turn_mono) auto
  with s1(1) s2(1) show ?thesis by (simp add: bindS_def)
qed

lemma send_head:
  assumes d: "0 < d" and s: "turn T True (draining tm at_ms sc) d A UNIV s" and q: "il_queueIds (in_ledger s) = i # rest"
    and r: "jm_get (il_records (in_ledger s)) i = Some (Queued b a f dl)" and known: "script_known T sc"
  shows "\<exists>s'. send_queued env i a f now s = (s', Inr ()) \<and>
    turn T True (draining tm at_ms (tl sc)) d A (if sc = [] then set rest else UNIV) s'"
proof -
  from s have core: "core T A True s" by (simp add: turn_def)
  let ?k = "case authorityTransport (in_authority s) of None \<Rightarrow> 0 | Some t \<Rightarrow> it_sender t"
  from sending_core [OF core q r, of now ?k] obtain l' where l': "startSending (in_ledger s) i now = Inr l'" "il_queueIds l' = rest"
    "il_preAdmissionIds l' = il_preAdmissionIds (in_ledger s)"
    "core T (insert (True, i) A) True (s\<lparr>in_ledger := l', in_dirty := True, in_effects := in_effects s @ [FrameHandedOver ?k (ad_identity a) f]\<rparr>)"
    by blast
  let ?s = "s\<lparr>in_ledger := l', in_dirty := True, in_effects := in_effects s @ [FrameHandedOver ?k (ad_identity a) f]\<rparr>"
  have t: "turn T True (draining tm at_ms sc) d (insert (True, i) A) (set rest) ?s"
    using s l' by (simp add: turn_def flags_of_def woken_def)
  from call_sender_returns [OF d t known] obtain s2 dec where s2: "call_sender env ?s = (s2, Inr dec)"
    "turn T True (draining tm at_ms (tl sc)) d (insert (True, i) A) (if sc = [] then set rest else UNIV) s2" by blast
  from succeedsD [OF trim_turn [OF trim_decide] s2(2)] obtain s3 y where s3: "decide_sent env dec (ad_identity a) i s2 = (s3, Inr y)"
    "turn T True (draining tm at_ms (tl sc)) d A (if sc = [] then set rest else UNIV) s3" by blast
  have "send_queued env i a f now s = (s3, Inr ())"
    using l'(1) s2(1) s3(1) by (simp add: send_queued_def readS_def bindS_def ledger_do_def markDirty_def emit_def modifyS_def)
  with s3(2) show ?thesis by blast
qed

lemma drain_one_returns:
  assumes d: "0 < d" and s: "turn T True (draining tm at_ms sc) d A UNIV s" and known: "script_known T sc"
    and q: "il_queueIds (in_ledger s) = i # rest" and r: "jm_get (il_records (in_ledger s)) i = Some (Queued b a f dl)"
  shows "\<exists>s' sc'. drain_one env (Queued b a f dl) s = (s', Inr ()) \<and> turn T True (draining tm at_ms sc') d A UNIV s' \<and>
    script_known T sc' \<and> drain_left s' < drain_left s"
proof -
  let ?s = "s\<lparr>in_clockReads := in_clockReads s + 1\<rparr>" and ?now = "dv_now env (in_clockReads s)"
  have core: "core T A True s" using s by (simp add: turn_def)
  then have "core T A True ?s" by (rule core_cong) simp_all
  then have t: "turn T True (draining tm at_ms sc) d A UNIV ?s" using s by (simp add: turn_def flags_of_def woken_def)
  have id: "record_id (Queued b a f dl :: (InputPayload, InputFrame) IntentRecord) = i" by (rule ledger_id [OF core_inv [OF core] r])
  have script: "in_script s = sc" using s by (simp add: turn_def flags_of_def)
  have shorter: "?thesis" if "drain_one env (Queued b a f dl) s = (s', Inr ())" "turn T True (draining tm at_ms sc) d A (set rest) s'" for s'
  proof -
    have "in_script s' = sc" using that(2) by (simp add: turn_def flags_of_def)
    with queue_shorter [OF that(2)] script q have "drain_left s' < drain_left s" by (simp add: drain_left_def)
    moreover have "turn T True (draining tm at_ms sc) d A UNIV s'" by (rule turn_mono [OF that(2)]) simp_all
    ultimately show ?thesis using that(1) known by blast
  qed
  have q': "il_queueIds (in_ledger ?s) = i # rest" using q by simp
  have run: "drain_one env (Queued b a f dl) s = (if dl \<le> ?now
      then bindS (finishNotSent env ns_queue_expired i) (\<lambda>_. sealIdentityEpoch env (ad_identity a) True) ?s
      else if \<not> may_send a (in_authority s)
      then bindS (finishNotSent env ns_control_replaced i) (\<lambda>_. sealIdentityEpoch env (ad_identity a) False) ?s
      else send_queued env i a f ?now ?s)"
    using id by (simp add: drain_one_def bindS_def clock_def readS_def)
  show ?thesis
  proof (cases "dl \<le> ?now \<or> \<not> may_send a (in_authority s)")
    case True
    from True run obtain ns x e where "drain_one env (Queued b a f dl) s = bindS (finishNotSent env ns i) (\<lambda>_. sealIdentityEpoch env x e) ?s"
      by (cases "dl \<le> ?now") auto
    with settle_head [OF t q', of env ns x e] shorter show ?thesis by auto
  next
    case False
    have r': "jm_get (il_records (in_ledger ?s)) i = Some (Queued b a f dl)" using r by simp
    from send_head [OF d t q' r' known, of env ?now] False run obtain s' where
      s': "drain_one env (Queued b a f dl) s = (s', Inr ())" "turn T True (draining tm at_ms (tl sc)) d A (if sc = [] then set rest else UNIV) s'" by auto
    show ?thesis
    proof (cases sc)
      case Nil
      with s' shorter [of s'] show ?thesis by simp
    next
      case (Cons e more)
      have "in_script s' = more" using s'(2) Cons by (simp add: turn_def flags_of_def)
      with queue_limit [OF s'(2)] script Cons have "drain_left s' < drain_left s" by (simp add: drain_left_def)
      moreover have "script_known T more" using known Cons by (simp add: script_known_def)
      moreover have "turn T True (draining tm at_ms more) d A UNIV s'" using s'(2) Cons by simp
      ultimately show ?thesis using s'(1) by blast
    qed
  qed
qed

section \<open>The whole drain\<close>

lemma drain_loop_returns:
  assumes "0 < d" and "turn T True (draining tm at_ms sc) d A UNIV s" and "script_known T sc" and "drain_left s < n"
  shows "\<exists>s' sc'. drain_input_loop n env s = (s', Inr ()) \<and> turn T True (draining tm at_ms sc') d A {} s' \<and> script_known T sc'"
  using assms(2-)
proof (induction n arbitrary: s sc)
  case (Suc n)
  have core: "core T A True s" using Suc.prems(1) by (simp add: turn_def)
  show ?case
  proof (cases "il_queueIds (in_ledger s)")
    case Nil
    with Suc.prems(1) have "turn T True (draining tm at_ms sc) d A {} s" by (simp add: turn_def)
    moreover have "drain_input_loop (Suc n) env s = (s, Inr ())" using Nil by (simp add: bindS_def ledger_read_def queueHead_def returnS_def)
    ultimately show ?thesis using Suc.prems(2) by blast
  next
    case (Cons i rest)
    with queued_live [OF core_inv [OF core], of i] obtain b a f dl where
      r: "jm_get (il_records (in_ledger s)) i = Some (Queued b a f dl)" by (auto simp: live_def phase_cases)
    from drain_one_returns [OF assms(1) Suc.prems(1,2) Cons r, of env] obtain s1 sc1 where
      s1: "drain_one env (Queued b a f dl) s = (s1, Inr ())" "turn T True (draining tm at_ms sc1) d A UNIV s1" "script_known T sc1"
        "drain_left s1 < drain_left s" by blast
    from Suc.IH [OF s1(2,3)] s1(4) Suc.prems(3) obtain s2 sc2 where
      s2: "drain_input_loop n env s1 = (s2, Inr ())" "turn T True (draining tm at_ms sc2) d A {} s2" "script_known T sc2" by auto
    have "queueHead (in_ledger s) = Inr (Some (Queued b a f dl))" using Cons r by (simp add: queueHead_def requirePhase_def)
    then have "drain_input_loop (Suc n) env s = (s2, Inr ())" using s1(1) s2(1) by (simp add: bindS_def ledger_read_def)
    with s2 show ?thesis by blast
  qed
qed simp

text \<open>The flags at rest: no drain is under way or scheduled, and a timer is armed exactly when there is a deadline.\<close>

definition at_rest :: "(nat \<Rightarrow> InputTransport option) \<Rightarrow> control_flags set" where
  "at_rest T = {(tm, at_ms, dr, ss, sc). tm = (at_ms \<noteq> None) \<and> \<not> dr \<and> \<not> ss \<and> script_known T sc}"

lemma drain_returns:
  assumes "0 < d" and s: "turn T True {(tm, at_ms, False, ss, sc)} d A UNIV s" and "script_known T sc"
  shows "\<exists>s' sc'. drainInputQueue env s = (s', Inr ()) \<and> turn T True {(tm, at_ms, False, False, sc')} d A {} s' \<and> script_known T sc'"
proof -
  let ?s = "s\<lparr>in_sendScheduled := False\<rparr>" and ?s1 = "s\<lparr>in_sendScheduled := False, in_drainingQueue := True\<rparr>"
  have core: "core T A True s" using s by (simp add: turn_def)
  then have "core T A True ?s1" by (rule core_cong) simp_all
  then have t: "turn T True (draining tm at_ms sc) d A UNIV ?s1" using s by (simp add: turn_def flags_of_def woken_def)
  have "drain_left ?s1 < drain_fuel ?s" using queue_limit [OF s] by (simp add: drain_left_def drain_fuel_def)
  from drain_loop_returns [OF assms(1) t assms(3) this] obtain s2 sc2 where
    s2: "drain_input_loop (drain_fuel ?s) env ?s1 = (s2, Inr ())" "turn T True (draining tm at_ms sc2) d A {} s2" "script_known T sc2" by blast
  let ?s3 = "s2\<lparr>in_drainingQueue := False\<rparr>"
  have "core T A True s2" using s2(2) by (simp add: turn_def)
  then have "core T A True ?s3" by (rule core_cong) simp_all
  then have "turn T True {(tm, at_ms, False, False, sc2)} d A {} ?s3" using s2(2) by (simp add: turn_def flags_of_def woken_def)
  moreover have "\<not> in_drainingQueue s" using s by (simp add: turn_def flags_of_def)
  then have "drainInputQueue env s = (?s3, Inr ())"
    using s2(1) by (simp add: drainInputQueue_def bindS_def modifyS_def readS_def)
  ultimately show ?thesis using s2(3) by blast
qed

lemma scheduleSend_returns:
  assumes "0 < d"
  shows "succeeds (turn T True (at_rest T) d A UNIV) (scheduleSend env) (\<lambda>s _. turn T True (at_rest T) d A {} s)"
proof (rule succeedsI)
  fix s assume s: "turn T True (at_rest T) d A UNIV s"
  then obtain at_ms sc where fl: "flags_of s = (at_ms \<noteq> None, at_ms, False, False, sc)" "script_known T sc" by (auto simp: turn_def at_rest_def)
  let ?F = "\<lambda>sc ss. {(at_ms \<noteq> None, at_ms, False, ss, sc)}" and ?s = "s\<lparr>in_sendScheduled := True\<rparr>"
  have "core T A True s" using s by (simp add: turn_def)
  then have "core T A True ?s" by (rule core_cong) simp_all
  then have t: "turn T True (?F sc True) d A UNIV ?s" using s fl by (simp add: turn_def flags_of_def woken_def)
  let ?G = "{fl. \<exists>sc'. fl = (at_ms \<noteq> None, at_ms, False, False, sc') \<and> script_known T sc'}"
  have drain: "\<exists>s' x. drainInputQueue env s1 = (s', Inr x) \<and> turn T True ?G (d + 1) A {} s'" if "turn T True (?F sc True) (d + 1) A UNIV s1" for s1
  proof -
    have "0 < d + 1" by simp
    from drain_returns [OF this that fl(2), of env] obtain s' sc' where
      s': "drainInputQueue env s1 = (s', Inr ())" "turn T True (?F sc' False) (d + 1) A {} s'" "script_known T sc'" by blast
    have "turn T True ?G (d + 1) A {} s'" by (rule turn_mono [OF s'(2)]) (use s'(3) in auto)
    with s'(1) show ?thesis by blast
  qed
  have "succeeds (turn T True (?F sc True) (d + 1) A UNIV) (drainInputQueue env) (\<lambda>s _. turn T True ?G (d + 1) A {} s)"
    by (rule succeedsI) (rule drain)
  from succeedsD [OF transaction_nested [OF assms this] t, of env]
  obtain s' x where s': "transaction env (drainInputQueue env) ?s = (s', Inr x)" "turn T True ?G d A {} s'" by blast
  have "turn T True (at_rest T) d A {} s'" by (rule turn_mono [OF s'(2)]) (auto simp: at_rest_def)
  moreover have "scheduleSend env s = (s', Inr x)"
    using fl(1) s'(1) by (simp add: scheduleSend_def readS_def bindS_def modifyS_def flags_of_def)
  ultimately show "\<exists>s' x. scheduleSend env s = (s', Inr x) \<and> turn T True (at_rest T) d A {} s'" by blast
qed

interpretation idle: send_scheduler T "at_rest T" "{}" "scheduleSend env" for T env
  by unfold_locales (rule scheduleSend_returns)

end
