(* ===== verification/Input_Dispatcher_Props.thy ===== *)
theory Input_Dispatcher_Props
  imports Input_Dispatcher_Drain
begin

text \<open>
  What the input dispatcher guarantees over every history of calls, microtasks, timers and re-entrant senders: its self-check never
  fails, every intent has one result, identities are never sent twice, and no intent is forgotten.
\<close>

section \<open>The outermost transaction\<close>

definition settled :: "(nat \<Rightarrow> InputTransport option) \<Rightarrow> dispatcher \<Rightarrow> bool" where
  "settled T s \<longleftrightarrow> turn T True (at_rest T) 0 {} {} s \<and> in_resultNotifications s = [] \<and>
     earliestDeadline (in_ledger s) = Inr (in_deadlineAtMs s)"

lemma earliestDeadline_total: "ledger_inv l \<Longrightarrow> \<exists>e. earliestDeadline l = Inr e"
  using preAdmissionRecords_total [of l] queuedRecords_total [of l] activeRecords_total [of l]
  by (auto simp: earliestDeadline_def Let_def)

lemma core_flush:
  assumes "core T A q s"
  shows "core T A q (s\<lparr>in_effects := in_effects s @ map ResultObserved (in_resultNotifications s), in_resultNotifications := []\<rparr>)"
proof -
  have none: "List.map_filter (\<lambda>e. case e of FrameHandedOver t x f \<Rightarrow> Some x | _ \<Rightarrow> None) (map ResultObserved rs) = []"
    "List.map_filter (\<lambda>e. case e of IntentConsumed i \<Rightarrow> Some i | _ \<Rightarrow> None) (map ResultObserved rs) = []"
    "List.map_filter (\<lambda>e. case e of ResultObserved r \<Rightarrow> Some r | _ \<Rightarrow> None) (map ResultObserved rs) = rs" for rs
    by (induction rs) simp_all
  have app: "List.map_filter f (xs @ ys) = List.map_filter f xs @ List.map_filter f ys" for f :: "DispatchEffect \<Rightarrow> 'a option" and xs ys
    by (induction xs) (auto split: option.split)
  let ?s = "s\<lparr>in_effects := in_effects s @ map ResultObserved (in_resultNotifications s), in_resultNotifications := []\<rparr>"
  have "sent_idents ?s = sent_idents s" "accepted_ids ?s = accepted_ids s"
    "observed_results ?s @ in_resultNotifications ?s = observed_results s @ in_resultNotifications s"
    by (simp_all add: sent_idents_def accepted_ids_def observed_results_def app none)
  with assms show ?thesis unfolding core_def by simp
qed

lemma end_outer:
  assumes s: "turn T True (at_rest T) 1 {} {} s"
  shows "\<exists>s'. end_transaction env s = (s', Inr ()) \<and> settled T s'"
proof -
  let ?s = "s\<lparr>in_mutationDepth := 0\<rparr>"
  have t: "turn T True (at_rest T) 0 {} {} ?s" by (rule turn_depth [OF s])
  then have core: "core T {} True ?s" by (simp add: turn_def)
  from earliestDeadline_total [OF core_inv [OF core]] obtain e where e: "earliestDeadline (in_ledger s) = Inr e" by auto
  have "\<exists>s1. rescheduleDeadline env ?s = (s1, Inr ()) \<and> turn T True (at_rest T) 0 {} {} s1 \<and> in_deadlineAtMs s1 = e \<and> in_ledger s1 = in_ledger s"
  proof (cases "e = in_deadlineAtMs s")
    case True
    with t e show ?thesis by (simp add: rescheduleDeadline_def bindS_def ledger_read_def readS_def returnS_def)
  next
    case False
    let ?s1 = "?s\<lparr>in_deadlineTimer := (e \<noteq> None), in_deadlineAtMs := e\<rparr>"
    let ?s2 = "if e = None then ?s1 else ?s1\<lparr>in_clockReads := in_clockReads s + 1\<rparr>"
    have "core T {} True ?s2" by (rule core_cong [OF core]) simp_all
    then have "turn T True (at_rest T) 0 {} {} ?s2" using t by (simp add: turn_def flags_of_def at_rest_def woken_def)
    moreover have "rescheduleDeadline env ?s = (?s2, Inr ())"
      using False e by (simp add: rescheduleDeadline_def bindS_def ledger_read_def readS_def modifyS_def returnS_def clock_def)
    ultimately show ?thesis by auto
  qed
  then obtain s1 where s1: "rescheduleDeadline env ?s = (s1, Inr ())" "turn T True (at_rest T) 0 {} {} s1" "in_deadlineAtMs s1 = e"
    "in_ledger s1 = in_ledger s" by blast
  let ?s2 = "if in_dirty s1 then s1\<lparr>in_dirty := False, in_statusSnapshot := status_of s1\<rparr> else s1"
  have pub: "publishStatus s1 = (?s2, Inr ())" by (simp add: publishStatus_def readS_def modifyS_def returnS_def)
  have "core T {} True s1" using s1(2) by (simp add: turn_def)
  then have c2: "core T {} True ?s2" by (rule core_cong) simp_all
  let ?s3 = "?s2\<lparr>in_effects := in_effects ?s2 @ map ResultObserved (in_resultNotifications ?s2), in_resultNotifications := []\<rparr>"
  have "turn T True (at_rest T) 0 {} {} ?s3" using s1(2) core_flush [OF c2] by (simp add: turn_def flags_of_def woken_def)
  moreover have "in_mutationDepth s = 1" using s by (simp add: turn_def)
  then have "end_transaction env s = (?s3, Inr ())"
    using s1(1) pub by (simp add: end_transaction_def bindS_def modifyS_def readS_def flushResultNotifications_def)
  ultimately show ?thesis using e s1(3,4) by (auto simp: settled_def)
qed

lemma transaction_outer:
  assumes s: "turn T w (at_rest T) 0 {} {} s"
    and op: "succeeds (turn T w (at_rest T) 1 {} {}) op (\<lambda>s _. turn T True (at_rest T) 1 {} {} s)"
  shows "\<exists>s' x. transaction env op s = (s', Inr x) \<and> settled T s'"
proof -
  have d: "in_mutationDepth s = 0" using s by (simp add: turn_def)
  have "turn T w (at_rest T) 1 {} {} (s\<lparr>in_mutationDepth := 1\<rparr>)" by (rule turn_depth [OF s])
  from succeedsD [OF succeeds_bind [OF trim_turn [OF trim_expireDeadlines] op] this, of env] obtain s1 x where
    s1: "bindS (expireDeadlines env) (\<lambda>_. op) (s\<lparr>in_mutationDepth := 1\<rparr>) = (s1, Inr x)" "turn T True (at_rest T) 1 {} {} s1" by blast
  from end_outer [OF s1(2), of env] obtain s2 where "end_transaction env s1 = (s2, Inr ())" "settled T s2" by blast
  with s1(1) d show ?thesis by (simp add: transaction_def)
qed

section \<open>Events\<close>

fun call_transports :: "DispatcherCall \<Rightarrow> InputTransport list" where
  "call_transports (AttachTransport t) = [t]"
| "call_transports c = []"

text \<open>The transport objects an event and the senders it calls attach.\<close>

definition event_transports :: "dispatcher_input \<Rightarrow> InputTransport list" where
  "event_transports e = (case e of (env, script, ev) \<Rightarrow>
     (case ev of Called c \<Rightarrow> call_transports c | _ \<Rightarrow> []) @ concat (map (\<lambda>p. concat (map call_transports (fst p))) script))"

definition event_known :: "(nat \<Rightarrow> InputTransport option) \<Rightarrow> dispatcher_input \<Rightarrow> bool" where
  "event_known T e \<longleftrightarrow> (\<forall>t \<in> set (event_transports e). T (it_ref t) = Some t)"

lemma call_known_transports: "(\<And>t. t \<in> set (call_transports c) \<Longrightarrow> T (it_ref t) = Some t) \<Longrightarrow> call_known T c"
  by (cases c) (simp_all add: call_known_def)

lemma event_knownD:
  assumes "event_known T (env, script, ev)"
  shows "script_known T script" "ev = Called c \<Longrightarrow> call_known T c"
proof -
  have t: "T (it_ref t) = Some t" if "t \<in> set (event_transports (env, script, ev))" for t using assms that by (simp add: event_known_def)
  show "script_known T script"
    unfolding script_known_def
  proof (intro ballI call_known_transports)
    fix e c u assume "e \<in> set script" "c \<in> set (fst e)" "u \<in> set (call_transports c)"
    then show "T (it_ref u) = Some u" by (intro t) (auto simp: event_transports_def)
  qed
  show "ev = Called c \<Longrightarrow> call_known T c"
    by (rule call_known_transports) (rule t, simp add: event_transports_def)
qed

lemma event_settled:
  assumes "settled T s" and known: "event_known T (env, script, ev)"
  shows "\<exists>s'. dispatcher_event env ev (s\<lparr>in_script := script\<rparr>) = (s', Inr ()) \<and> settled T s'"
proof -
  let ?s = "s\<lparr>in_script := script\<rparr>"
  from assms(1) have "core T {} True s" by (simp add: settled_def turn_def)
  then have core: "core T {} True ?s" by (rule core_cong) simp_all
  with assms(1) event_knownD(1) [OF known] have set: "settled T ?s"
    by (auto simp: settled_def turn_def flags_of_def at_rest_def woken_def)
  then have t: "turn T True (at_rest T) 0 {} {} ?s" by (simp add: settled_def)
  show ?thesis
  proof (cases ev)
    case (Called c)
    show ?thesis
    proof (cases "call_body env (scheduleSend env) ?s c")
      case None
      with set Called show ?thesis by (simp add: dispatcher_event_def call_operation_body)
    next
      case (Some m)
      from idle.body_returns [OF _ event_knownD(2) [OF known Called] Some] have
        "succeeds (turn T True (at_rest T) 1 {} {}) m (\<lambda>s _. turn T True (at_rest T) 1 {} {} s)" by simp
      from transaction_outer [OF t this, of env] Called Some show ?thesis by (simp add: dispatcher_event_def call_operation_body)
    qed
  next
    case MicrotaskRuns
    show ?thesis
    proof (cases "in_microtasks s = 0")
      case True
      with set MicrotaskRuns show ?thesis by (simp add: dispatcher_event_def readS_def returnS_def)
    next
      case False
      let ?s1 = "?s\<lparr>in_microtasks := in_microtasks s - 1\<rparr>"
      have "core T {} True ?s1" by (rule core_cong [OF core]) simp_all
      then have t1: "turn T False (at_rest T) 0 {} {} ?s1" using t by (simp add: turn_def flags_of_def)
      have "succeeds (turn T False (at_rest T) 1 {} {}) (admitPreAdmission env (scheduleSend env)) (\<lambda>s _. turn T True (at_rest T) 1 {} {} s)"
        by (rule succeeds_pre [OF idle.admit_returns]) (auto elim: turn_mono)
      from transaction_outer [OF t1 this, of env] False MicrotaskRuns show ?thesis
        by (simp add: dispatcher_event_def readS_def bindS_def modifyS_def)
    qed
  next
    case TimerFires
    show ?thesis
    proof (cases "in_deadlineTimer s")
      case False
      with set TimerFires show ?thesis by (simp add: dispatcher_event_def readS_def returnS_def)
    next
      case True
      let ?s1 = "?s\<lparr>in_deadlineTimer := False, in_deadlineAtMs := None\<rparr>"
      have "core T {} True ?s1" by (rule core_cong [OF core]) simp_all
      then have t1: "turn T True (at_rest T) 0 {} {} ?s1" using t by (auto simp: turn_def flags_of_def at_rest_def woken_def)
      from transaction_outer [OF t1 trim_turn [OF trim_expireDeadlines], of env env] True TimerFires show ?thesis
        by (simp add: dispatcher_event_def readS_def bindS_def modifyS_def)
    qed
  qed
qed

section \<open>Histories\<close>

text \<open>One reference names one transport object, with a fence and a lease that do not change.\<close>

definition same_objects :: "dispatcher_input list \<Rightarrow> bool" where
  "same_objects es \<longleftrightarrow> (let ts = concat (map event_transports es) in
     \<forall>t \<in> set ts. \<forall>t' \<in> set ts. it_ref t = it_ref t' \<longrightarrow> t = t')"

definition dispatcher_run :: "dispatcher_env \<Rightarrow> dispatcher_input list \<Rightarrow> dispatcher" where
  "dispatcher_run env es = foldl dispatcher_step (InputDispatcher env) es"

definition known_step :: "(nat \<Rightarrow> InputTransport option) \<Rightarrow> dispatcher \<Rightarrow> dispatcher_input \<Rightarrow> dispatcher" where
  "known_step T s e = (if event_known T e then dispatcher_step s e else s)"

interpretation dispatcher: inv_machine "known_step T" "settled T" for T
proof
  fix T s and e :: dispatcher_input
  assume s: "settled T s"
  obtain env script ev where e: "e = (env, script, ev)" by (cases e) auto
  show "settled T (known_step T s e)"
    using s event_settled [OF s, of env script ev] by (auto simp: known_step_def dispatcher_step_def e)
qed

definition transports_of :: "dispatcher_input list \<Rightarrow> nat \<Rightarrow> InputTransport option" where
  "transports_of es = map_of (map (\<lambda>t. (it_ref t, t)) (concat (map event_transports es)))"

lemma transports_known:
  assumes "same_objects es" and "e \<in> set es"
  shows "event_known (transports_of es) e"
  unfolding event_known_def
proof
  fix t assume "t \<in> set (event_transports e)"
  with assms(2) have t: "t \<in> set (concat (map event_transports es))" by auto
  let ?m = "map (\<lambda>t. (it_ref t, t)) (concat (map event_transports es))"
  from t have "it_ref t \<in> fst ` set ?m" by force
  then obtain u where u: "map_of ?m (it_ref t) = Some u" by (metis domIff dom_map_of_conv_image_fst not_None_eq)
  then have "(it_ref t, u) \<in> set ?m" by (rule map_of_SomeD)
  then have "u \<in> set (concat (map event_transports es))" "it_ref u = it_ref t" by auto
  with assms(1) t have "u = t" by (auto simp: same_objects_def Let_def)
  with u show "transports_of es (it_ref t) = Some t" by (simp add: transports_of_def)
qed

lemma InputDispatcher_settled: "settled T (InputDispatcher env)"
proof -
  have "ledger_ok {} emptyLedger"
    by (simp add: ledger_ok_def emptyLedger_inv live_def bytes_held_def) (simp add: emptyLedger_def maxBytes_def)
  then have "core T {} True (InputDispatcher env)"
    by (simp add: core_def InputDispatcher_def initialAuthorityState_def open_known_def queue_ok_def idents_ok_def queue_idents_def
        sent_idents_def accepted_ids_def observed_results_def results_ok_def live_def emptyLedger_def)
  then show ?thesis
    by (simp add: settled_def turn_def flags_of_def at_rest_def woken_def InputDispatcher_def emptyLedger_def script_known_def
        earliestDeadline_def preAdmissionRecords_def queuedRecords_def activeRecords_def)
qed

lemma run_settled:
  assumes "same_objects es" and "set es' \<subseteq> set es"
  shows "settled (transports_of es) (dispatcher_run env es')"
proof -
  let ?T = "transports_of es"
  have "foldl (known_step ?T) s xs = foldl dispatcher_step s xs" if "set xs \<subseteq> set es" for s xs
    using that transports_known [OF assms(1)] by (induction xs arbitrary: s) (simp_all add: known_step_def)
  with dispatcher.run_inv [OF InputDispatcher_settled, of ?T env es'] assms(2) show ?thesis by (simp add: dispatcher_run_def)
qed

section \<open>What holds at rest\<close>

lemma settledD:
  assumes "settled T s"
  shows "core T {} True s" "ledger_inv (in_ledger s)" "il_queueIds (in_ledger s) = []" "woken s" "in_resultNotifications s = []"
    "in_deadlineTimer s = (in_deadlineAtMs s \<noteq> None)" "earliestDeadline (in_ledger s) = Inr (in_deadlineAtMs s)"
    "idents_ok (in_authority s) (in_ledger s) (sent_idents s)"
    "results_ok (in_localIntentCounter s) (in_ledger s) (accepted_ids s) (observed_results s)"
  using assms core_inv [of T "{}" True s] by (auto simp: settled_def turn_def at_rest_def flags_of_def core_def)

lemma settled_phase:
  assumes "settled T s" and "live (in_ledger s) i r"
  shows "phase r = ph_pre_admission \<and> i \<in> set (il_preAdmissionIds (in_ledger s)) \<or> phase r = ph_sent \<or> phase r = ph_terminating"
proof -
  note D = settledD [OF assms(1)]
  have "\<not> transient (in_ledger s) i r" using D(1) assms(2) by (auto simp: core_def ledger_ok_def)
  moreover have "phase r \<noteq> ph_queued" using queued_live [OF D(2), of i] D(3) assms(2) by auto
  moreover have "phase r \<noteq> ph_terminal" using assms(2) by (simp add: live_def)
  ultimately show ?thesis by (cases "phase r") (auto simp: transient_def)
qed

lemma settled_self_check:
  assumes "settled T s"
  shows "dispatcher_assertInvariants s"
proof -
  note D = settledD [OF assms]
  have q: "phase r \<noteq> ph_consumed \<and> phase r \<noteq> ph_sending \<and> (phase r = ph_pre_admission \<longrightarrow> i \<in> set (il_preAdmissionIds (in_ledger s)))"
    if "jm_get (il_records (in_ledger s)) i = Some r" for i r
    using settled_phase [OF assms, of i r] that by (cases "phase r = ph_terminal") (auto simp: live_def)
  have "assertInvariants (in_ledger s)"
    by (rule self_check_of_inv [OF D(2)]) (use q D(1) in \<open>auto simp: core_def ledger_ok_def bytes_held_def\<close>)
  with D show ?thesis by (simp add: dispatcher_assertInvariants_def core_def queued_current_def)
qed

section \<open>The timer\<close>

definition due :: "int option \<Rightarrow> int \<Rightarrow> bool" where
  "due e d \<longleftrightarrow> (\<exists>m. e = Some m \<and> m \<le> d)"

lemma due_earliest: "due (earliest e d) d" "due e d \<Longrightarrow> due (earliest e d') d"
  by (auto simp: due_def earliest_def split: option.split)

lemma due_foldl:
  assumes "\<And>e r. due e d \<Longrightarrow> due (g e r) d"
  shows "due e d \<Longrightarrow> due (foldl g e rs) d" and "r \<in> set rs \<Longrightarrow> (\<And>e. due (g e r) d) \<Longrightarrow> due (foldl g e rs) d"
proof -
  show keep: "due e d \<Longrightarrow> due (foldl g e rs) d" for e rs using assms by (induction rs arbitrary: e) auto
  show "r \<in> set rs \<Longrightarrow> (\<And>e. due (g e r) d) \<Longrightarrow> due (foldl g e rs) d" using keep by (induction rs arbitrary: e) auto
qed

lemma list_all2_mem: "list_all2 P xs ys \<Longrightarrow> x \<in> set xs \<Longrightarrow> \<exists>y \<in> set ys. P x y"
  by (induction rule: list_all2_induct) auto

lemma earliest_covers:
  assumes inv: "ledger_inv l" and e: "earliestDeadline l = Inr e" and r: "live l i r"
  shows "i \<in> set (il_preAdmissionIds l) \<Longrightarrow> due e (ib_consumedAtMs (base r) + maxPreAdmissionAgeMs)"
    and "phase r = ph_sent \<or> phase r = ph_terminating \<Longrightarrow> deadlineAt r = Some d \<Longrightarrow> due e d"
proof -
  from e obtain pre qs act where rs: "preAdmissionRecords l = Inr pre" "queuedRecords l = Inr qs" "activeRecords l = Inr act"
    by (auto simp: earliestDeadline_def bindR_Inr_iff)
  let ?g1 = "\<lambda>e (r :: ('a, 'b) IntentRecord). earliest e (ib_consumedAtMs (base r) + maxPreAdmissionAgeMs)"
  let ?g2 = "\<lambda>e (r :: ('a, 'b) IntentRecord). case deadlineAt r of Some d \<Rightarrow> earliest e d | None \<Rightarrow> e"
  let ?g3 = "\<lambda>e (r :: ('a, 'b) IntentRecord). if phase r = ph_sent \<or> phase r = ph_terminating
            then (case deadlineAt r of Some d \<Rightarrow> earliest e d | None \<Rightarrow> e) else e"
  have e': "e = foldl ?g3 (foldl ?g2 (foldl ?g1 None pre) qs) act" using e rs by (simp add: earliestDeadline_def Let_def)
  have keep: "due e d \<Longrightarrow> due (?g1 e r) d" "due e d \<Longrightarrow> due (?g2 e r) d" "due e d \<Longrightarrow> due (?g3 e r) d" for e d r
    using due_earliest(2) by (auto split: option.split)
  show "due e (ib_consumedAtMs (base r) + maxPreAdmissionAgeMs)" if i: "i \<in> set (il_preAdmissionIds l)"
  proof -
    from rs(1) have "list_all2 (\<lambda>i r. jm_get (il_records l) i = Some r) (il_preAdmissionIds l) pre"
      by (auto simp: preAdmissionRecords_def mapR_Inr_iff requirePhase_Inr_iff elim: list_all2_mono)
    from list_all2_mem [OF this i] obtain r' where "r' \<in> set pre" "jm_get (il_records l) i = Some r'" by blast
    with r have "r \<in> set pre" by (simp add: live_def)
    then have "due (foldl ?g1 None pre) (ib_consumedAtMs (base r) + maxPreAdmissionAgeMs)"
      using due_foldl(2) [of "ib_consumedAtMs (base r) + maxPreAdmissionAgeMs" ?g1 r pre None] keep(1) due_earliest(1) by blast
    then have "due (foldl ?g2 (foldl ?g1 None pre) qs) (ib_consumedAtMs (base r) + maxPreAdmissionAgeMs)"
      using due_foldl(1) [of _ ?g2] keep(2) by blast
    then show ?thesis unfolding e' using due_foldl(1) [of _ ?g3] keep(3) by blast
  qed
  show "due e d" if p: "phase r = ph_sent \<or> phase r = ph_terminating" and d: "deadlineAt r = Some d"
  proof -
    from p obtain k where "active_key r = Some k" by (cases r) auto
    with r ledger_invD(7) [OF inv] have "jm_get (il_activeByIdentity l) k = Some i" by (auto simp: active_index_def live_def)
    then have k: "(k, i) \<in> set (il_activeByIdentity l)" using jm_mem_iff [OF ledger_invD(2) [OF inv]] by simp
    from rs(3) have "list_all2 (\<lambda>(k, i) r. jm_get (il_records l) i = Some r) (il_activeByIdentity l) act"
      by (auto simp: activeRecords_def mapR_Inr_iff split: option.splits if_splits elim!: list_all2_mono)
    from list_all2_mem [OF this k] obtain r' where "r' \<in> set act" "jm_get (il_records l) i = Some r'" by auto
    with r have "r \<in> set act" by (simp add: live_def)
    moreover have "due (?g3 e r) d" for e using p d due_earliest(1) by auto
    ultimately show ?thesis unfolding e' using due_foldl(2) [of d ?g3 r] keep(3) by blast
  qed
qed

section \<open>The guarantees\<close>

text \<open>
  C4. The input dispatcher never fails: after any history in which one reference names one transport object, every further call,
  microtask or timer, with senders that call back in any way, returns without an error, leaves no intent in the send queue, and its
  own self-check passes.
\<close>

theorem dispatcher_never_fails:
  assumes "same_objects (es @ [(env', script, ev)])"
  shows "\<exists>s'. dispatcher_event env' ev ((dispatcher_run env es)\<lparr>in_script := script\<rparr>) = (s', Inr ()) \<and>
    dispatcher_assertInvariants s' \<and> il_queueIds (in_ledger s') = []"
proof -
  let ?T = "transports_of (es @ [(env', script, ev)])"
  have "settled ?T (dispatcher_run env es)" by (rule run_settled [OF assms]) auto
  moreover have "event_known ?T (env', script, ev)" by (rule transports_known [OF assms]) simp
  ultimately obtain s' where "dispatcher_event env' ev ((dispatcher_run env es)\<lparr>in_script := script\<rparr>) = (s', Inr ())" "settled ?T s'"
    using event_settled by blast
  with settled_self_check settledD(3) show ?thesis by blast
qed

text \<open>
  C5. No input identity is handed to a sender twice: over any history the identities of the frames given to senders strictly rise,
  first by writer fence and then by sequence number, across reconnections, revocations, seals and re-entrant calls.
\<close>

theorem dispatcher_sends_once:
  assumes "same_objects es"
  shows "sorted_wrt rank_less (map identity_rank (sent_idents (dispatcher_run env es))) \<and> distinct (sent_idents (dispatcher_run env es))"
proof -
  have "idents_ok (in_authority (dispatcher_run env es)) (in_ledger (dispatcher_run env es)) (sent_idents (dispatcher_run env es))"
    by (rule settledD(8) [OF run_settled [OF assms order_refl]])
  then have s: "sorted_wrt ident_less (sent_idents (dispatcher_run env es))" by (simp add: idents_ok_def sorted_wrt_append)
  have "distinct xs" if "sorted_wrt ident_less xs" for xs
    using that by (induction xs) (auto simp: ident_less_def rank_less_def)
  moreover have "sorted_wrt rank_less (map identity_rank (sent_idents (dispatcher_run env es)))"
    using s by (simp add: sorted_wrt_map ident_less_def [abs_def])
  ultimately show ?thesis using s by blast
qed

text \<open>
  C6. Every consumed input has one result at most: over any history the names given to the callers are distinct, no name gets two
  results, and a result is only reported for a name that was given out.
\<close>

theorem dispatcher_one_result:
  assumes "same_objects es"
  shows "distinct (accepted_ids (dispatcher_run env es)) \<and> distinct (map ir_localIntentId (observed_results (dispatcher_run env es))) \<and>
    ir_localIntentId ` set (observed_results (dispatcher_run env es)) \<subseteq> set (accepted_ids (dispatcher_run env es))"
  using settledD(9) [OF run_settled [OF assms order_refl], of env] by (simp add: results_ok_def)

text \<open>
  C7. No input is forgotten: a consumed input without a result is still in the ledger, the timer is armed, and either the input waits
  for admission with a microtask pending and the timer fires no later than its admission deadline, or it was handed over and the timer
  fires no later than its acknowledgement or termination deadline.
\<close>

theorem dispatcher_forgets_nothing:
  assumes "same_objects es" and "i \<in> set (accepted_ids (dispatcher_run env es))"
    and "i \<notin> ir_localIntentId ` set (observed_results (dispatcher_run env es))"
  shows "\<exists>r at_ms. jm_get (il_records (in_ledger (dispatcher_run env es))) i = Some r \<and>
    in_deadlineTimer (dispatcher_run env es) \<and> in_deadlineAtMs (dispatcher_run env es) = Some at_ms \<and>
    (phase r = ph_pre_admission \<and> 0 < in_microtasks (dispatcher_run env es) \<and> at_ms \<le> ib_consumedAtMs (base r) + 250 \<or>
     (phase r = ph_sent \<or> phase r = ph_terminating) \<and> (\<exists>d. deadlineAt r = Some d \<and> at_ms \<le> d))"
proof -
  let ?s = "dispatcher_run env es"
  have set: "settled (transports_of es) ?s" by (rule run_settled [OF assms(1) order_refl])
  note D = settledD [OF set]
  have "(\<exists>r. live (in_ledger ?s) i r) \<longleftrightarrow> i \<in> set (accepted_ids ?s) \<and> i \<notin> ir_localIntentId ` set (observed_results ?s)"
    using D(9) by (simp only: results_ok_def)
  with assms(2,3) obtain r where r: "live (in_ledger ?s) i r" by blast
  note cover = earliest_covers [OF D(2,7) r]
  have get: "jm_get (il_records (in_ledger ?s)) i = Some r" using r by (simp add: live_def)
  from settled_phase [OF set r] show ?thesis
  proof
    assume p: "phase r = ph_pre_admission \<and> i \<in> set (il_preAdmissionIds (in_ledger ?s))"
    with cover(1) obtain m where "in_deadlineAtMs ?s = Some m" "m \<le> ib_consumedAtMs (base r) + 250"
      by (auto simp: due_def maxPreAdmissionAgeMs_def)
    moreover have "0 < in_microtasks ?s" using D(4) p by (auto simp: woken_def)
    ultimately show ?thesis using get p D(6) by auto
  next
    assume p: "phase r = ph_sent \<or> phase r = ph_terminating"
    then obtain d where d: "deadlineAt r = Some d" by (auto simp: phase_cases)
    from cover(2) [OF p d] obtain m where "in_deadlineAtMs ?s = Some m" "m \<le> d" by (auto simp: due_def)
    with get p d D(6) show ?thesis by auto
  qed
qed

section \<open>Witnesses\<close>

text \<open>Two focus events are admitted together; the first sender calls back before it accepts, the second is uncertain; then the first is acknowledged.\<close>

definition demo_transport :: InputTransport where
  "demo_transport = \<lparr>it_ref = 1, it_generation = 1, it_sender = 5, it_writerFence = Some ''7'', it_writerLease = Some ''lease''\<rparr>"

definition demo_env :: dispatcher_env where
  "demo_env = \<lparr>dv_now = (\<lambda>k. 100 + int k), dv_observedEventSeq = None, dv_payloadBytes = (\<lambda>p. Some 40), dv_frameBytes = (\<lambda>f. 120),
     dv_policy = (\<lambda>e. True), dv_epochCandidate = (\<lambda>k. Some ''epoch''), dv_intentCandidate = (\<lambda>k. None), dv_uuid = (\<lambda>k. ''u'')\<rparr>"

definition demo_history :: "dispatcher_input list" where
  "demo_history =
     [(demo_env, [], Called (AttachTransport demo_transport)), (demo_env, [], Called (SendInput (FocusInput True))),
      (demo_env, [], Called (SendInput (FocusInput False))),
      (demo_env, [([SetReplicaCurrent True], send_accepted), ([], send_uncertain)], MicrotaskRuns),
      (demo_env, [], Called (AcceptAcknowledgement \<lparr>ac_writerFence = Some ''7'', ac_inputEpoch = ''epoch'', ac_clientInputSeq = ''1'',
         ac_status = ack_is_written, ac_authorityEventSeq = ''9''\<rparr>))]"

lemma demo_run:
  "(let s = dispatcher_run demo_env demo_history in
     (map id_clientInputSeq (sent_idents s), accepted_ids s, map ir_localIntentId (observed_results s))) =
   ([''1'', ''2''], [''local-intent-1-u'', ''local-intent-2-u''], [''local-intent-1-u''])"
  by code_simp

lemma demo_facts:
  "map id_clientInputSeq (sent_idents (dispatcher_run demo_env demo_history)) = [''1'', ''2'']"
  "accepted_ids (dispatcher_run demo_env demo_history) = [''local-intent-1-u'', ''local-intent-2-u'']"
  "map ir_localIntentId (observed_results (dispatcher_run demo_env demo_history)) = [''local-intent-1-u'']"
  using demo_run unfolding Let_def prod.inject by blast+

lemma demo_objects: "same_objects demo_history"
  by code_simp

theorem dispatcher_never_fails_witness:
  "\<exists>s'. dispatcher_event demo_env TimerFires ((dispatcher_run demo_env demo_history)\<lparr>in_script := []\<rparr>) = (s', Inr ()) \<and>
    dispatcher_assertInvariants s' \<and> il_queueIds (in_ledger s') = []"
proof -
  have "same_objects (demo_history @ [(demo_env, [], TimerFires)])" by code_simp
  then show ?thesis by (rule dispatcher_never_fails)
qed

theorem dispatcher_sends_once_witness:
  "length (sent_idents (dispatcher_run demo_env demo_history)) = 2 \<and> distinct (sent_idents (dispatcher_run demo_env demo_history))"
proof -
  have "length (map id_clientInputSeq (sent_idents (dispatcher_run demo_env demo_history))) = 2" unfolding demo_facts(1) by simp
  with dispatcher_sends_once [OF demo_objects, of demo_env] show ?thesis by simp
qed

theorem dispatcher_one_result_witness:
  "map ir_localIntentId (observed_results (dispatcher_run demo_env demo_history)) = [''local-intent-1-u''] \<and>
   ''local-intent-1-u'' \<in> set (accepted_ids (dispatcher_run demo_env demo_history))"
proof -
  let ?rs = "observed_results (dispatcher_run demo_env demo_history)"
  have "''local-intent-1-u'' \<in> set (map ir_localIntentId ?rs)" unfolding demo_facts(3) by simp
  then have "''local-intent-1-u'' \<in> ir_localIntentId ` set ?rs" by simp
  with dispatcher_one_result [OF demo_objects, of demo_env] demo_facts(3) show ?thesis by blast
qed

theorem dispatcher_forgets_nothing_witness:
  "\<exists>at_ms. in_deadlineTimer (dispatcher_run demo_env demo_history) \<and> in_deadlineAtMs (dispatcher_run demo_env demo_history) = Some at_ms"
proof -
  have "''local-intent-2-u'' \<in> set (accepted_ids (dispatcher_run demo_env demo_history))" unfolding demo_facts(2) by simp
  moreover have "''local-intent-2-u'' \<notin> ir_localIntentId ` set (observed_results (dispatcher_run demo_env demo_history))"
    unfolding set_map [symmetric] demo_facts(3) by simp
  ultimately show ?thesis using dispatcher_forgets_nothing [OF demo_objects, of "''local-intent-2-u''" demo_env] by blast
qed

end
