(* ===== verification/Ack_Coalescer.thy ===== *)
theory Ack_Coalescer
  imports Replica_Cursor
begin

text \<open>
  \<open>apps/terminal-cloud/src/browser/delivery-ack-coalescer.ts\<close>: how the browser thins out the acknowledgements of live
  delivery. What the session's callbacks answer during a call is an argument of it, the timer is an event. A send that
  fails may reset the coalescer before it returns, as the session does when it drops the connection.
\<close>

section \<open>State\<close>

definition DELIVERY_ACK_FLUSH_BYTES :: int where "DELIVERY_ACK_FLUSH_BYTES = MAX_DELIVERY_OUTSTANDING_BYTES div 16"
definition DELIVERY_ACK_FLUSH_EVENTS :: int where "DELIVERY_ACK_FLUSH_EVENTS = 256"

datatype AckSend = AckAccepted | AckRefused | AckRefusedResetting

record ack_env =
  ae_connectionEpoch :: int
  ae_deliveryGeneration :: "int option"
  ae_isConnectionCurrent :: "int \<Rightarrow> bool"
  ae_isDeliveryLive :: bool
  ae_send :: AckSend

datatype AckEffect =
    AckSent ReplicaCursor
  | AckNotSent ReplicaCursor
  | AckReset "ReplicaCursor option"
  | AckProtocolFailure
  | AckTimerStale

text \<open>The timer carries what its callback closed over: the connection epoch and the generation.\<close>

record ack_coalescer =
  ac_lastAcknowledgedCursor :: "ReplicaCursor option"
  ac_pendingAcknowledgement :: "ReplicaCursor option"
  ac_timer :: "(int \<times> int) option"
  ac_effects :: "AckEffect list"

definition newAckCoalescer :: ack_coalescer where
  "newAckCoalescer = \<lparr>ac_lastAcknowledgedCursor = None, ac_pendingAcknowledgement = None, ac_timer = None, ac_effects = []\<rparr>"

definition ack_effect :: "AckEffect \<Rightarrow> ack_coalescer \<Rightarrow> ack_coalescer" where
  "ack_effect e s = s\<lparr>ac_effects := ac_effects s @ [e]\<rparr>"

section \<open>The operations\<close>

definition reset_acks :: "ReplicaCursor option \<Rightarrow> ack_coalescer \<Rightarrow> ack_coalescer" where
  "reset_acks cursor s = ack_effect (AckReset cursor)
     (s\<lparr>ac_timer := None, ac_pendingAcknowledgement := None, ac_lastAcknowledgedCursor := cursor\<rparr>)"

definition flush_acks :: "ack_env \<Rightarrow> ack_coalescer \<Rightarrow> ack_coalescer" where
  "flush_acks env s =
     (let s1 = s\<lparr>ac_timer := None, ac_pendingAcknowledgement := None\<rparr> in
      case ac_pendingAcknowledgement s of
        None \<Rightarrow> s1
      | Some cursor \<Rightarrow>
          if Some (rc_deliveryGeneration cursor) \<noteq> ae_deliveryGeneration env then s1
          else (case ae_send env of
              AckAccepted \<Rightarrow> ack_effect (AckSent cursor) (s1\<lparr>ac_lastAcknowledgedCursor := Some cursor\<rparr>)
            | AckRefused \<Rightarrow> ack_effect (AckNotSent cursor) s1
            | AckRefusedResetting \<Rightarrow> reset_acks None (ack_effect (AckNotSent cursor) s1)))"

definition goes_back :: "ReplicaCursor \<Rightarrow> ReplicaCursor \<Rightarrow> bool" where
  "goes_back previous cursor \<longleftrightarrow> rc_sessionEpoch cursor \<noteq> rc_sessionEpoch previous \<or>
     rc_deliveryGeneration cursor \<noteq> rc_deliveryGeneration previous \<or>
     rc_lastEventSeq cursor < rc_lastEventSeq previous \<or> rc_nextPtyOffset cursor < rc_nextPtyOffset previous"

definition same_position :: "ReplicaCursor \<Rightarrow> ReplicaCursor \<Rightarrow> bool" where
  "same_position previous cursor \<longleftrightarrow>
     rc_lastEventSeq cursor = rc_lastEventSeq previous \<and> rc_nextPtyOffset cursor = rc_nextPtyOffset previous"

text \<open>Whether the acknowledgement goes out at once; \<open>None\<close> is the \<open>RangeError\<close> of \<open>deliveryOutstandingBytes\<close>.\<close>

definition flushes_now :: "ack_env \<Rightarrow> ReplicaCursor option \<Rightarrow> ReplicaCursor \<Rightarrow> bool option" where
  "flushes_now env lastCursor cursor =
     (case lastCursor of
        None \<Rightarrow> Some True
      | Some l \<Rightarrow>
          if \<not> ae_isDeliveryLive env \<or> DELIVERY_ACK_FLUSH_EVENTS \<le> rc_lastEventSeq cursor - rc_lastEventSeq l
          then Some True
          else map_option (\<lambda>n. DELIVERY_ACK_FLUSH_BYTES \<le> n) (deliveryOutstandingBytes (credit_of l) (credit_of cursor)))"

text \<open>The flag says that the call threw.\<close>

definition acknowledge_cursor :: "ack_env \<Rightarrow> ReplicaCursor \<Rightarrow> ack_coalescer \<Rightarrow> ack_coalescer \<times> bool" where
  "acknowledge_cursor env cursor s =
     (if Some (rc_deliveryGeneration cursor) \<noteq> ae_deliveryGeneration env then (s, False)
      else
        let previous = (case ac_pendingAcknowledgement s of None \<Rightarrow> ac_lastAcknowledgedCursor s | Some p \<Rightarrow> Some p) in
        if (case previous of None \<Rightarrow> False | Some p \<Rightarrow> goes_back p cursor) then (ack_effect AckProtocolFailure s, False)
        else if (case previous of None \<Rightarrow> False | Some p \<Rightarrow> same_position p cursor) then (s, False)
        else
          let s1 = s\<lparr>ac_pendingAcknowledgement := Some cursor\<rparr> in
          (case flushes_now env (ac_lastAcknowledgedCursor s1) cursor of
             None \<Rightarrow> (s1, True)
           | Some True \<Rightarrow> (flush_acks env s1, False)
           | Some False \<Rightarrow>
               if ac_timer s1 \<noteq> None then (s1, False)
               else (s1\<lparr>ac_timer := Some (ae_connectionEpoch env, rc_deliveryGeneration cursor)\<rparr>, False)))"

definition ack_timer_fires :: "ack_env \<Rightarrow> ack_coalescer \<Rightarrow> ack_coalescer" where
  "ack_timer_fires env s =
     (case ac_timer s of
        None \<Rightarrow> s
      | Some (connectionEpoch, generation) \<Rightarrow>
          let s1 = s\<lparr>ac_timer := None\<rparr> in
          if \<not> ae_isConnectionCurrent env connectionEpoch \<or> ae_deliveryGeneration env \<noteq> Some generation
          then ack_effect AckTimerStale s1
          else flush_acks env s1)"

datatype ack_event =
    Acknowledge ReplicaCursor
  | ResetAcks "ReplicaCursor option"
  | AckTimerFires

fun ack_step :: "ack_coalescer \<Rightarrow> ack_env \<times> ack_event \<Rightarrow> ack_coalescer" where
  "ack_step s (env, Acknowledge c) = fst (acknowledge_cursor env c s)"
| "ack_step s (env, ResetAcks c) = reset_acks c s"
| "ack_step s (env, AckTimerFires) = ack_timer_fires env s"

section \<open>What is held back stays small, and what is sent rises\<close>

text \<open>Cursors of one delivery, the second strictly ahead of the first.\<close>

definition ack_ahead :: "ReplicaCursor \<Rightarrow> ReplicaCursor \<Rightarrow> bool" where
  "ack_ahead l c \<longleftrightarrow> \<not> goes_back l c \<and> \<not> same_position l c"

text \<open>Between two resets every acknowledgement that was sent is ahead of the one before it, and of the cursor of the reset.\<close>

fun acks_rise :: "ReplicaCursor option \<Rightarrow> AckEffect list \<Rightarrow> bool" where
  "acks_rise l [] \<longleftrightarrow> True"
| "acks_rise l (AckSent c # es) \<longleftrightarrow> (case l of None \<Rightarrow> True | Some p \<Rightarrow> ack_ahead p c) \<and> acks_rise (Some c) es"
| "acks_rise l (AckReset c # es) \<longleftrightarrow> acks_rise c es"
| "acks_rise l (_ # es) \<longleftrightarrow> acks_rise l es"

fun last_ack :: "ReplicaCursor option \<Rightarrow> AckEffect list \<Rightarrow> ReplicaCursor option" where
  "last_ack l [] = l"
| "last_ack l (AckSent c # es) = last_ack (Some c) es"
| "last_ack l (AckReset c # es) = last_ack c es"
| "last_ack l (_ # es) = last_ack l es"

lemma acks_rise_append: "acks_rise l (es @ fs) \<longleftrightarrow> acks_rise l es \<and> acks_rise (last_ack l es) fs"
  by (induction l es rule: acks_rise.induct) auto

lemma last_ack_append: "last_ack l (es @ fs) = last_ack (last_ack l es) fs"
  by (induction l es rule: last_ack.induct) auto

text \<open>A cursor that is held back: its distance to the last one acknowledged is under both thresholds.\<close>

definition held_back :: "ReplicaCursor \<Rightarrow> ReplicaCursor \<Rightarrow> bool" where
  "held_back l p \<longleftrightarrow> ack_ahead l p \<and> rc_lastEventSeq p - rc_lastEventSeq l < DELIVERY_ACK_FLUSH_EVENTS \<and>
     (\<exists>n. deliveryOutstandingBytes (credit_of l) (credit_of p) = Some n \<and> n < DELIVERY_ACK_FLUSH_BYTES)"

definition nonneg_cursor :: "ReplicaCursor \<Rightarrow> bool" where
  "nonneg_cursor c \<longleftrightarrow> 0 \<le> rc_lastEventSeq c \<and> 0 \<le> rc_nextPtyOffset c"

fun ack_event_ok :: "ack_event \<Rightarrow> bool" where
  "ack_event_ok (Acknowledge c) \<longleftrightarrow> nonneg_cursor c"
| "ack_event_ok (ResetAcks c) \<longleftrightarrow> (case c of None \<Rightarrow> True | Some c \<Rightarrow> nonneg_cursor c)"
| "ack_event_ok AckTimerFires \<longleftrightarrow> True"

definition pending_held :: "ack_coalescer \<Rightarrow> bool" where
  "pending_held s \<longleftrightarrow> (\<forall>p. ac_pendingAcknowledgement s = Some p \<longrightarrow> nonneg_cursor p \<and>
     (\<exists>l. ac_lastAcknowledgedCursor s = Some l \<and> held_back l p) \<and> (ac_timer s \<noteq> None \<or> AckTimerStale \<in> set (ac_effects s)))"

definition ack_inv :: "ack_coalescer \<Rightarrow> bool" where
  "ack_inv s \<longleftrightarrow> pending_held s \<and> acks_rise None (ac_effects s) \<and> last_ack None (ac_effects s) = ac_lastAcknowledgedCursor s \<and>
     (\<forall>l. ac_lastAcknowledgedCursor s = Some l \<longrightarrow> nonneg_cursor l)"

lemma ack_effect_fields [simp]:
  "ac_lastAcknowledgedCursor (ack_effect e s) = ac_lastAcknowledgedCursor s"
  "ac_pendingAcknowledgement (ack_effect e s) = ac_pendingAcknowledgement s" "ac_timer (ack_effect e s) = ac_timer s"
  "ac_effects (ack_effect e s) = ac_effects s @ [e]"
  by (simp_all add: ack_effect_def)

lemma ack_ahead_trans: "ack_ahead a b \<Longrightarrow> ack_ahead b c \<Longrightarrow> ack_ahead a c"
  by (auto simp: ack_ahead_def goes_back_def same_position_def)

lemma reset_acks_inv:
  assumes "ack_inv s" and "\<And>c. cursor = Some c \<Longrightarrow> nonneg_cursor c"
  shows "ack_inv (reset_acks cursor s)"
  using assms by (simp add: ack_inv_def pending_held_def reset_acks_def acks_rise_append last_ack_append)

text \<open>A flush needs of the cursor that waits only that it is ahead of the last one, which need not be close.\<close>

lemma flush_acks_inv:
  assumes inv: "ack_inv (s\<lparr>ac_pendingAcknowledgement := None\<rparr>)"
    and p: "\<And>p. ac_pendingAcknowledgement s = Some p \<Longrightarrow>
      nonneg_cursor p \<and> (\<forall>l. ac_lastAcknowledgedCursor s = Some l \<longrightarrow> ack_ahead l p)"
  shows "ack_inv (flush_acks env s)"
proof (cases "ac_pendingAcknowledgement s")
  case None
  with inv show ?thesis by (simp add: flush_acks_def ack_inv_def pending_held_def)
next
  case (Some c)
  from p [OF Some] inv show ?thesis
    by (cases "ae_send env"; cases "ac_lastAcknowledgedCursor s")
      (simp_all add: flush_acks_def Let_def Some ack_inv_def pending_held_def reset_acks_def acks_rise_append last_ack_append)
qed

lemma without_pending_inv: "ack_inv s \<Longrightarrow> ack_inv (s\<lparr>ac_pendingAcknowledgement := None, ac_timer := t\<rparr>)"
  "ack_inv s \<Longrightarrow> ack_inv (s\<lparr>ac_pendingAcknowledgement := None\<rparr>)"
  by (simp_all add: ack_inv_def pending_held_def)

lemma acknowledge_inv:
  assumes inv: "ack_inv s" and c: "nonneg_cursor c"
  shows "ack_inv (fst (acknowledge_cursor env c s)) \<and> \<not> snd (acknowledge_cursor env c s)"
proof -
  let ?s1 = "s\<lparr>ac_pendingAcknowledgement := Some c\<rparr>"
  let ?prev = "case ac_pendingAcknowledgement s of None \<Rightarrow> ac_lastAcknowledgedCursor s | Some p \<Rightarrow> Some p"
  have failing: "ack_inv (ack_effect AckProtocolFailure s)"
    using inv by (simp add: ack_inv_def pending_held_def acks_rise_append last_ack_append)
  show ?thesis
  proof (cases "Some (rc_deliveryGeneration c) \<noteq> ae_deliveryGeneration env \<or>
      (\<exists>p. ?prev = Some p \<and> (goes_back p c \<or> same_position p c))")
    case True
    then show ?thesis using inv failing by (auto simp: acknowledge_cursor_def Let_def)
  next
    case False
    then have gen: "Some (rc_deliveryGeneration c) = ae_deliveryGeneration env"
      and ahead: "\<And>p. ?prev = Some p \<Longrightarrow> ack_ahead p c" by (auto simp: ack_ahead_def)
    have step: "acknowledge_cursor env c s =
       (case flushes_now env (ac_lastAcknowledgedCursor s) c of
          None \<Rightarrow> (?s1, True)
        | Some True \<Rightarrow> (flush_acks env ?s1, False)
        | Some False \<Rightarrow> if ac_timer s \<noteq> None then (?s1, False)
            else (?s1\<lparr>ac_timer := Some (ae_connectionEpoch env, rc_deliveryGeneration c)\<rparr>, False))"
      using gen ahead by (auto simp: acknowledge_cursor_def Let_def ack_ahead_def split: option.split)
    have last_ahead: "ack_ahead l c" if "ac_lastAcknowledgedCursor s = Some l" for l
    proof (cases "ac_pendingAcknowledgement s")
      case None
      then show ?thesis using ahead that by simp
    next
      case (Some p)
      then have "ack_ahead l p" using inv that by (auto simp: ack_inv_def pending_held_def held_back_def)
      moreover have "ack_ahead p c" using ahead Some by simp
      ultimately show ?thesis by (rule ack_ahead_trans)
    qed
    show ?thesis
    proof (cases "flushes_now env (ac_lastAcknowledgedCursor s) c")
      case None
      then obtain l where l: "ac_lastAcknowledgedCursor s = Some l"
        and out: "deliveryOutstandingBytes (credit_of l) (credit_of c) = None"
        by (auto simp: flushes_now_def split: option.splits if_splits)
      from last_ahead [OF l] inv l c out show ?thesis
        by (auto simp: deliveryOutstandingBytes_def credit_of_def ack_ahead_def goes_back_def ack_inv_def nonneg_cursor_def
            split: if_splits)
    next
      case (Some now)
      show ?thesis
      proof (cases now)
        case True
        have "ack_inv (flush_acks env ?s1)"
          using without_pending_inv(2) [OF inv] c last_ahead by (intro flush_acks_inv) auto
        then show ?thesis using step Some True by simp
      next
        case False
        with Some obtain l n where l: "ac_lastAcknowledgedCursor s = Some l"
          and near: "rc_lastEventSeq c - rc_lastEventSeq l < DELIVERY_ACK_FLUSH_EVENTS"
          and out: "deliveryOutstandingBytes (credit_of l) (credit_of c) = Some n" "n < DELIVERY_ACK_FLUSH_BYTES"
          by (auto simp: flushes_now_def split: option.splits if_splits)
        then have held: "held_back l c" using last_ahead [OF l] by (simp add: held_back_def)
        have new: "ack_inv (s\<lparr>ac_pendingAcknowledgement := Some c, ac_timer := Some t\<rparr>)" for t
          using inv c l held by (simp add: ack_inv_def pending_held_def)
        have old: "ack_inv ?s1" if "ac_timer s \<noteq> None"
          using inv c l held that by (simp add: ack_inv_def pending_held_def)
        show ?thesis using step Some False new old by simp
      qed
    qed
  qed
qed

lemma ack_timer_inv:
  assumes inv: "ack_inv s"
  shows "ack_inv (ack_timer_fires env s)"
proof (cases "ac_timer s")
  case None
  then show ?thesis using inv by (simp add: ack_timer_fires_def)
next
  case (Some t)
  have stale: "ack_inv (ack_effect AckTimerStale (s\<lparr>ac_timer := None\<rparr>))"
    using inv by (auto simp: ack_inv_def pending_held_def acks_rise_append last_ack_append)
  have "ack_inv (flush_acks env (s\<lparr>ac_timer := None\<rparr>))"
  proof (rule flush_acks_inv)
    show "ack_inv (s\<lparr>ac_timer := None, ac_pendingAcknowledgement := None\<rparr>)"
      using inv by (simp add: ack_inv_def pending_held_def)
  next
    fix p assume "ac_pendingAcknowledgement (s\<lparr>ac_timer := None\<rparr>) = Some p"
    then show "nonneg_cursor p \<and> (\<forall>l. ac_lastAcknowledgedCursor (s\<lparr>ac_timer := None\<rparr>) = Some l \<longrightarrow> ack_ahead l p)"
      using inv by (auto simp: ack_inv_def pending_held_def held_back_def)
  qed
  with stale Some show ?thesis by (auto simp: ack_timer_fires_def Let_def split: prod.split)
qed

lemma ack_step_inv: "ack_inv s \<Longrightarrow> ack_event_ok (snd e) \<Longrightarrow> ack_inv (ack_step s e)"
  by (cases "(s, e)" rule: ack_step.cases) (auto intro!: reset_acks_inv ack_timer_inv simp: acknowledge_inv split: option.splits)

lemma ack_run_inv: "ack_inv s \<Longrightarrow> list_all (\<lambda>e. ack_event_ok (snd e)) es \<Longrightarrow> ack_inv (foldl ack_step s es)"
  by (induction es arbitrary: s) (auto intro: ack_step_inv)


definition demo_ack_cursor :: "int \<Rightarrow> ReplicaCursor" where
  "demo_ack_cursor n = \<lparr>rc_sessionEpoch = 7, rc_deliveryGeneration = 1, rc_lastEventSeq = n, rc_nextPtyOffset = 10 * n\<rparr>"

definition demo_ack_env :: ack_env where
  "demo_ack_env = \<lparr>ae_connectionEpoch = 1, ae_deliveryGeneration = Some 1, ae_isConnectionCurrent = (\<lambda>e. e = 1),
     ae_isDeliveryLive = True, ae_send = AckAccepted\<rparr>"

definition demo_ack_events :: "(ack_env \<times> ack_event) list" where
  "demo_ack_events = map (Pair demo_ack_env) [ResetAcks (Some (demo_ack_cursor 0)), Acknowledge (demo_ack_cursor 1),
     Acknowledge (demo_ack_cursor 2), AckTimerFires, Acknowledge (demo_ack_cursor 300), Acknowledge (demo_ack_cursor 301)]"

lemma demo_acks: "list_all (\<lambda>e. ack_event_ok (snd e)) demo_ack_events"
  "ac_effects (foldl ack_step newAckCoalescer demo_ack_events) =
     [AckReset (Some (demo_ack_cursor 0)), AckSent (demo_ack_cursor 2), AckSent (demo_ack_cursor 300)]"
  "ac_pendingAcknowledgement (foldl ack_step newAckCoalescer demo_ack_events) = Some (demo_ack_cursor 301)"
  by code_simp+


end
