(* ===== verification/Checkpoint_Cache.thy ===== *)
theory Checkpoint_Cache
  imports Canonical_Publisher Relay_Frames
begin

text \<open>
  \<open>apps/host-daemon/src/cloud/snapshot-checkpoint-cache.ts\<close>: the host keeps its last published snapshot for half a minute, so
  that several browsers can start from it. A checkpoint object's identity (\<open>===\<close>) is its \<open>ck_ref\<close>; times are whole
  milliseconds, read once per call.
\<close>

definition SNAPSHOT_CHECKPOINT_TTL_MS :: int where "SNAPSHOT_CHECKPOINT_TTL_MS = 30000"

record SnapshotCheckpoint =
  ck_ref :: nat
  ck_base :: ReplayCursor
  ck_engineId :: string
  ck_published :: SnapshotMetadata

record CachedCheckpoint =
  cd_checkpoint :: SnapshotCheckpoint
  cd_expiresAt :: int

record checkpoint_cache =
  kc_ttlMs :: int
  kc_cached :: "CachedCheckpoint option"
  kc_nextRef :: nat

text \<open>\<open>None\<close> is the \<open>RangeError\<close> of the constructor.\<close>

definition newCheckpointCache :: "int option \<Rightarrow> checkpoint_cache option" where
  "newCheckpointCache ttlMs =
     (let ttl = (case ttlMs of None \<Rightarrow> SNAPSHOT_CHECKPOINT_TTL_MS | Some t \<Rightarrow> t)
      in if ttl \<le> 0 then None else Some \<lparr>kc_ttlMs = ttl, kc_cached = None, kc_nextRef = 0\<rparr>)"

definition current_checkpoint :: "int \<Rightarrow> checkpoint_cache \<Rightarrow> checkpoint_cache \<times> SnapshotCheckpoint option" where
  "current_checkpoint now c =
     (case kc_cached c of
        None \<Rightarrow> (c, None)
      | Some d \<Rightarrow> if cd_expiresAt d \<le> now then (c\<lparr>kc_cached := None\<rparr>, None) else (c, Some (cd_checkpoint d)))"

definition install_checkpoint ::
  "int \<Rightarrow> SnapshotCheckpoint \<Rightarrow> checkpoint_cache \<Rightarrow> checkpoint_cache \<times> SnapshotCheckpoint" where
  "install_checkpoint now checkpoint c =
     (let stored = checkpoint\<lparr>ck_ref := kc_nextRef c\<rparr>
      in (c\<lparr>kc_cached := Some \<lparr>cd_checkpoint = stored, cd_expiresAt = now + kc_ttlMs c\<rparr>, kc_nextRef := Suc (kc_nextRef c)\<rparr>,
          stored))"

definition invalidate_checkpoint :: "SnapshotCheckpoint \<Rightarrow> checkpoint_cache \<Rightarrow> checkpoint_cache" where
  "invalidate_checkpoint checkpoint c =
     (case kc_cached c of
        None \<Rightarrow> c
      | Some d \<Rightarrow> if ck_ref (cd_checkpoint d) = ck_ref checkpoint then c\<lparr>kc_cached := None\<rparr> else c)"

text \<open>Dropping an expired entry is not observable: the clock does not go back, and an expired entry stays expired.\<close>

lemma current_after_drop:
  assumes "t \<le> t'"
  shows "snd (current_checkpoint t' (fst (current_checkpoint t c))) = snd (current_checkpoint t' c)"
  using assms by (auto simp: current_checkpoint_def split: option.split)

lemma current_idem [simp]: "current_checkpoint t (fst (current_checkpoint t c)) = current_checkpoint t c"
  by (auto simp: current_checkpoint_def split: option.split)

text \<open>An installed checkpoint is the current one for exactly the time to live, unless it is invalidated or replaced.\<close>

lemma current_installed:
  "snd (current_checkpoint t (fst (install_checkpoint now ck c))) =
     (if t < now + kc_ttlMs c then Some (snd (install_checkpoint now ck c)) else None)"
  by (auto simp: current_checkpoint_def install_checkpoint_def Let_def)

end
