(* ===== verification/Delivery_Scheduler.thy ===== *)
theory Delivery_Scheduler
  imports Checkpoint_Cache Canonical_Publisher_Props Barrier_Waiter Recovery_Queue
begin

text \<open>
  \<open>apps/host-daemon/src/cloud/delivery-scheduler.ts\<close>: how the host brings browsers up to date. It takes attach requests from
  the recovery queue, one at a time: the canonical publisher is paused and flushed through a commit, a barrier marker goes out,
  and on the relay's verdict the frames between the browser's (or a snapshot's) cursor and the commit are sent to that browser
  alone, then the commit frame. The asynchronous functions are cut at their awaits: \<open>RecoveryPoint\<close> says where the one
  recovery waits, and its continuation, the timers, the receipts of the socket, the snapshot promises and the callbacks are
  events. What an event's run reads from outside (the clock, the session, whether a send throws) is a \<open>host_env\<close>. Sockets and
  timers do not call back synchronously, \<open>closePair\<close> does not throw, and the texts of error reasons are left out.
\<close>

section \<open>State\<close>

definition WARM_REPLAY_MAX_OUTSTANDING_BYTES :: int where "WARM_REPLAY_MAX_OUTSTANDING_BYTES = 256 * 1024"
definition WARM_REPLAY_MAX_FRAMES :: int where "WARM_REPLAY_MAX_FRAMES = 512"
definition SNAPSHOT_ENCODE_BUDGET_MS :: int where "SNAPSHOT_ENCODE_BUDGET_MS = 5000"
definition SNAPSHOT_RECOVERY_QUIET_MS :: int where "SNAPSHOT_RECOVERY_QUIET_MS = 250"
definition SNAPSHOT_RECOVERY_MAX_RETRY_MS :: int where "SNAPSHOT_RECOVERY_MAX_RETRY_MS = 5000"
definition SNAPSHOT_RECOVERY_MAX_QUIET_WAIT_MS :: int where "SNAPSHOT_RECOVERY_MAX_QUIET_WAIT_MS = 5000"

datatype RecoveryPhase = pre_marker | marker_uncertain | pinned | committed

datatype RecoveryMode = recovery_warm | recovery_cold

record ActiveRecovery =
  ar_aborted :: bool
  ar_mode :: "RecoveryMode option"
  ar_phase :: RecoveryPhase
  ar_request :: AttachRequest

text \<open>
  The errors a recovery can end with. \<open>RetryablePublishError\<close> and \<open>SnapshotUnavailableError\<close> carry their \<open>retryAfterMs\<close>.
\<close>

datatype RecoveryError =
    TailUnavailable
  | EncodeBudgetExceeded
  | RetryablePublishError int
  | CleanupConfirmed
  | SnapshotUnavailable int
  | DeadlineExpired
  | SignalAborted
  | FlushFailed PublisherError
  | BarrierFailed WaitError
  | ReplayMissesCommit
  | OtherError

text \<open>Where \<open>#prepareCold\<close> waits, or how its promise has settled; \<open>PrepHandled\<close> when the handlers have run.\<close>

datatype PrepStage =
    PrepResuming
  | PrepCapturing
  | PrepPublishing SnapshotCapture
  | PrepResolved SnapshotCheckpoint
  | PrepRejected RecoveryError
  | PrepHandled

datatype PrepStatus = prep_publishing | prep_ready

record ColdPreparation =
  pr_request :: AttachRequest
  pr_checkpoint :: "SnapshotCheckpoint option"
  pr_aborted :: bool
  pr_status :: PrepStatus
  pr_stage :: PrepStage

text \<open>What a delivery has fixed before its first wait: its preparation when it is cold, the two cursors and the replay.\<close>

record RecoveryPlan =
  pl_preparation :: "nat option"
  pl_identity :: BarrierIdentity
  pl_base :: ReplayCursor
  pl_commit :: ReplayCursor
  pl_replay :: "bytes list"

text \<open>
  Where the recovery waits: for the pump to pause (with the outcome once that promise has settled), in the flush, for its end,
  for the verdict, in the directed replay, for its end, for the end of the delivery, of the recovery, of the pass.
\<close>

datatype RecoveryPoint =
    NoDrain
  | AwaitPause "nat option" "bool option"
  | AwaitFlush RecoveryPlan
  | FlushSettled RecoveryPlan "PublisherError + unit"
  | AwaitVerdict RecoveryPlan nat
  | AwaitReplay RecoveryPlan DeliveryBarrierResult "bytes list" ReplayCursor
  | ReplaySettled RecoveryPlan DeliveryBarrierResult "RecoveryError + unit"
  | DeliverySettled "nat option" "RecoveryError + DeliveryBarrierResult"
  | RecoverSettled
  | DrainSettled bool

datatype UnavailableReason = unavailable_engine_mismatch | unavailable_epoch_changed

text \<open>What left the scheduler, in order, with the effects of the publisher and the barrier waiter.\<close>

datatype HostEffect =
    FromPublisher PublisherEffect
  | FromBarrier BarrierEffect
  | DirectedSent bytes
  | CommitSent bytes
  | OwnSendThrew bytes
  | UnavailableSent string UnavailableReason
  | PairClosed

record host_scheduler =
  hs_publisher :: canonical_publisher
  hs_barriers :: barrier_waiter
  hs_queue :: recovery_queue
  hs_cache :: checkpoint_cache
  hs_preparations :: "ColdPreparation list"
  hs_coldPreparations :: "(string, nat) jsmap"
  hs_coldBuildInFlight :: "nat option"
  hs_coldCaptureNotBefore :: "int option"
  hs_coldCaptureQuietDeadline :: "int option"
  hs_activeRecovery :: "ActiveRecovery option"
  hs_failed :: bool
  hs_lastCanonicalAt :: "int option"
  hs_ready :: bool
  hs_recoveriesRunning :: bool
  hs_recoveryTimer :: "int option"
  hs_barrierTimer :: "nat option"
  hs_drain :: RecoveryPoint
  hs_pass :: "AttachRequest list"
  hs_sends :: nat
  hs_stackOverflow :: bool
  hs_log :: "HostEffect list"

definition newHostDeliveryScheduler :: "checkpoint_cache \<Rightarrow> host_scheduler" where
  "newHostDeliveryScheduler cache = \<lparr>hs_publisher = newCanonicalPublisher, hs_barriers = newBarrierWaiter,
     hs_queue = newRecoveryQueue SNAPSHOT_RECOVERY_MAX_QUIET_WAIT_MS SNAPSHOT_RECOVERY_MAX_RETRY_MS SNAPSHOT_RECOVERY_QUIET_MS,
     hs_cache = cache, hs_preparations = [], hs_coldPreparations = [], hs_coldBuildInFlight = None,
     hs_coldCaptureNotBefore = None, hs_coldCaptureQuietDeadline = None, hs_activeRecovery = None, hs_failed = False,
     hs_lastCanonicalAt = None, hs_ready = False, hs_recoveriesRunning = False, hs_recoveryTimer = None, hs_barrierTimer = None,
     hs_drain = NoDrain, hs_pass = [], hs_sends = 0, hs_stackOverflow = False, hs_log = []\<rparr>"

section \<open>What a run reads from outside\<close>

text \<open>
  What a send does: it succeeds, it is refused before the socket has the frame, or it throws when the socket may have it.
  What \<open>resumePending\<close> of the snapshot publisher does: it throws, has nothing pending, or returns a promise.
\<close>

datatype DataSend = DataSent | DataRefused | DataThrew
datatype ResumePending = ResumeThrows RecoveryError | NothingPending | ResumePromised

record 'w host_env =
  he_now :: int
  he_session :: "'w session"
  he_sessionEnv :: "'w session_env"
  he_throws :: "nat \<Rightarrow> bool"
  he_send :: "nat \<Rightarrow> DataSend"
  he_receiptThrows :: bool
  he_controlThrows :: bool
  he_resumePending :: ResumePending

definition session_cursor :: "'w host_env \<Rightarrow> ReplayCursor" where
  "session_cursor env = \<lparr>jc_lastEventSeq = s_eventSeq (he_session env), jc_nextPtyOffset = s_nextPtyOffset (he_session env),
     rp_sessionEpoch = s_sessionEpoch (he_session env)\<rparr>"

definition session_engine :: "'w host_env \<Rightarrow> string" where
  "session_engine env = env_engineId (he_sessionEnv env)"

definition session_epoch :: "'w host_env \<Rightarrow> int" where
  "session_epoch env = s_sessionEpoch (he_session env)"

definition session_replay :: "'w host_env \<Rightarrow> ReplayCursor \<Rightarrow> ReplayCursor \<Rightarrow> JournalReplay" where
  "session_replay env base commit = snd (replayThroughSession (he_sessionEnv env) base commit (he_session env))"

section \<open>The parts\<close>

definition host_effect :: "HostEffect \<Rightarrow> host_scheduler \<Rightarrow> host_scheduler" where
  "host_effect e s = s\<lparr>hs_log := hs_log s @ [e]\<rparr>"

text \<open>A call of the publisher or of the waiter: what it adds to its own record goes into the log.\<close>

definition set_publisher :: "canonical_publisher \<Rightarrow> host_scheduler \<Rightarrow> host_scheduler" where
  "set_publisher p s = s\<lparr>hs_publisher := p,
     hs_log := hs_log s @ map FromPublisher (drop (length (cp_effects (hs_publisher s))) (cp_effects p))\<rparr>"

definition on_publisher :: "(canonical_publisher \<Rightarrow> canonical_publisher) \<Rightarrow> host_scheduler \<Rightarrow> host_scheduler" where
  "on_publisher f s = set_publisher (f (hs_publisher s)) s"

definition set_barriers :: "barrier_waiter \<Rightarrow> host_scheduler \<Rightarrow> host_scheduler" where
  "set_barriers w s = s\<lparr>hs_barriers := w,
     hs_log := hs_log s @ map FromBarrier (drop (length (bw_effects (hs_barriers s))) (bw_effects w))\<rparr>"

definition on_barriers :: "(barrier_waiter \<Rightarrow> barrier_waiter) \<Rightarrow> host_scheduler \<Rightarrow> host_scheduler" where
  "on_barriers f s = set_barriers (f (hs_barriers s)) s"

definition on_queue :: "(recovery_queue \<Rightarrow> recovery_queue) \<Rightarrow> host_scheduler \<Rightarrow> host_scheduler" where
  "on_queue f s = s\<lparr>hs_queue := f (hs_queue s)\<rparr>"

definition resumeCanonical :: "'w host_env \<Rightarrow> host_scheduler \<Rightarrow> host_scheduler" where
  "resumeCanonical env s = on_publisher (resume_publisher (he_throws env)) s"

definition set_active :: "(ActiveRecovery \<Rightarrow> ActiveRecovery) \<Rightarrow> host_scheduler \<Rightarrow> host_scheduler" where
  "set_active f s = s\<lparr>hs_activeRecovery := map_option f (hs_activeRecovery s)\<rparr>"

definition set_phase :: "RecoveryPhase \<Rightarrow> host_scheduler \<Rightarrow> host_scheduler" where
  "set_phase ph s = set_active (\<lambda>a. a\<lparr>ar_phase := ph\<rparr>) s"

text \<open>Aborting a controller runs its listeners at once: the pending barrier is rejected, the snapshot wait is.\<close>

definition reject_pending :: "barrier_waiter \<Rightarrow> barrier_waiter" where
  "reject_pending w = (case bw_pending w of None \<Rightarrow> w | Some p \<Rightarrow> rejectPending (pb_id p) Aborted w)"

definition abort_active :: "host_scheduler \<Rightarrow> host_scheduler" where
  "abort_active s =
     (case hs_activeRecovery s of
        None \<Rightarrow> s
      | Some a \<Rightarrow> on_barriers reject_pending (set_active (\<lambda>a. a\<lparr>ar_aborted := True\<rparr>) s))"

fun abort_stage :: "PrepStage \<Rightarrow> PrepStage" where
  "abort_stage PrepResuming = PrepRejected SignalAborted"
| "abort_stage PrepCapturing = PrepRejected SignalAborted"
| "abort_stage (PrepPublishing c) = PrepRejected SignalAborted"
| "abort_stage st = st"

definition update_preparation :: "nat \<Rightarrow> (ColdPreparation \<Rightarrow> ColdPreparation) \<Rightarrow> host_scheduler \<Rightarrow> host_scheduler" where
  "update_preparation i f s =
     (if i < length (hs_preparations s)
      then s\<lparr>hs_preparations := (hs_preparations s)[i := f (hs_preparations s ! i)]\<rparr> else s)"

definition abort_preparation :: "nat \<Rightarrow> host_scheduler \<Rightarrow> host_scheduler" where
  "abort_preparation i s = update_preparation i (\<lambda>p. p\<lparr>pr_aborted := True, pr_stage := abort_stage (pr_stage p)\<rparr>) s"

definition preparation_of :: "string \<Rightarrow> host_scheduler \<Rightarrow> ColdPreparation option" where
  "preparation_of k s = map_option (\<lambda>i. hs_preparations s ! i) (jm_get (hs_coldPreparations s) k)"

definition discard_key :: "string \<Rightarrow> host_scheduler \<Rightarrow> host_scheduler" where
  "discard_key k s =
     (let s1 = (case jm_get (hs_coldPreparations s) k of None \<Rightarrow> s | Some i \<Rightarrow> abort_preparation i s)
      in s1\<lparr>hs_coldPreparations := jm_delete k (hs_coldPreparations s1)\<rparr>)"

definition abortColdPreparations :: "string list \<Rightarrow> host_scheduler \<Rightarrow> host_scheduler" where
  "abortColdPreparations keys s = fold discard_key keys s"

definition discardColdPreparation :: "AttachRequest \<Rightarrow> host_scheduler \<Rightarrow> host_scheduler" where
  "discardColdPreparation request s = discard_key (recoveryKey request) s"

section \<open>Stopping\<close>

text \<open>
  \<open>connectionAbort\<close> is aborted here and nowhere else, so its signal is \<open>hs_failed\<close>; it rejects the pending barrier and every wait
  for a snapshot.
\<close>

definition abort_connection :: "host_scheduler \<Rightarrow> host_scheduler" where
  "abort_connection s = on_barriers reject_pending
     (s\<lparr>hs_preparations := map (\<lambda>p. p\<lparr>pr_stage := abort_stage (pr_stage p)\<rparr>) (hs_preparations s)\<rparr>)"

definition dispose_scheduler :: "host_scheduler \<Rightarrow> host_scheduler" where
  "dispose_scheduler s =
     (if hs_failed s then s
      else
        let s1 = on_publisher dispose_publisher (s\<lparr>hs_failed := True, hs_ready := False\<rparr>);
            s2 = abort_active (abort_connection s1);
            s3 = (case hs_coldBuildInFlight s2 of None \<Rightarrow> s2 | Some i \<Rightarrow> abort_preparation i s2);
            s4 = fold abort_preparation (map snd (hs_coldPreparations s3)) s3
        in on_barriers (dispose_waiter ''delivery scheduler stopped'')
             (s4\<lparr>hs_coldPreparations := [], hs_queue := clear_recovery (hs_queue s4), hs_recoveryTimer := None\<rparr>))"

definition failPair :: "host_scheduler \<Rightarrow> host_scheduler" where
  "failPair s = (if hs_failed s then s else host_effect PairClosed (dispose_scheduler s))"

text \<open>\<open>onFailure\<close> is the last thing a failing publisher call does; failing is what stops it there.\<close>

definition on_failing_publisher :: "canonical_publisher \<Rightarrow> host_scheduler \<Rightarrow> host_scheduler" where
  "on_failing_publisher p s =
     (if \<not> cp_stopped (hs_publisher s) \<and> cp_stopped p then failPair (set_publisher p s) else set_publisher p s)"

section \<open>Sending\<close>

text \<open>\<open>#sendData\<close>; the flag says that it returned.\<close>

definition sendData :: "'w host_env \<Rightarrow> (bytes \<Rightarrow> HostEffect) \<Rightarrow> bytes \<Rightarrow> host_scheduler \<Rightarrow> host_scheduler \<times> bool" where
  "sendData env tag frame s =
     (if hs_failed s then (s, False)
      else
        let s1 = s\<lparr>hs_sends := Suc (hs_sends s)\<rparr> in
        (case he_send env (hs_sends s) of
           DataSent \<Rightarrow> (host_effect (tag frame) s1, True)
         | DataRefused \<Rightarrow> (s1, False)
         | DataThrew \<Rightarrow> (host_effect (OwnSendThrew frame) s1, False)))"

section \<open>Readiness\<close>

definition queue_readyAt :: "AttachRequest \<Rightarrow> host_scheduler \<Rightarrow> int" where
  "queue_readyAt request s =
     (case hs_lastCanonicalAt s of
        None \<Rightarrow> or_zero (jm_get (rq_notBefore (hs_queue s)) (recoveryKey request))
      | Some t \<Rightarrow> readyAt request t (hs_queue s))"

definition coldCaptureReadyAt :: "AttachRequest \<Rightarrow> host_scheduler \<Rightarrow> int" where
  "coldCaptureReadyAt request s =
     (let requestReadyAt = queue_readyAt request s in
      case hs_coldCaptureNotBefore s of
        None \<Rightarrow> requestReadyAt
      | Some nb \<Rightarrow>
          let quietDeadline = (case hs_coldCaptureQuietDeadline s of None \<Rightarrow> nb | Some q \<Rightarrow> q) in
          (case hs_lastCanonicalAt s of
             None \<Rightarrow> max requestReadyAt nb
           | Some t \<Rightarrow> max (max requestReadyAt nb) (min (t + SNAPSHOT_RECOVERY_QUIET_MS) quietDeadline)))"

definition deferColdCaptures :: "int \<Rightarrow> int \<Rightarrow> host_scheduler \<Rightarrow> host_scheduler" where
  "deferColdCaptures now delayMs s =
     (let nb = max (or_zero (hs_coldCaptureNotBefore s)) (now + delayMs)
      in s\<lparr>hs_coldCaptureNotBefore := Some nb,
           hs_coldCaptureQuietDeadline := Some (max (max (or_zero (hs_coldCaptureQuietDeadline s)) nb)
             (now + SNAPSHOT_RECOVERY_MAX_QUIET_WAIT_MS))\<rparr>)"

definition invalidateCheckpoint :: "int \<Rightarrow> SnapshotCheckpoint \<Rightarrow> host_scheduler \<Rightarrow> host_scheduler" where
  "invalidateCheckpoint now checkpoint s = deferColdCaptures now SNAPSHOT_RECOVERY_QUIET_MS
     (s\<lparr>hs_cache := invalidate_checkpoint checkpoint (hs_cache s)\<rparr>)"

definition has_current_checkpoint :: "'w host_env \<Rightarrow> host_scheduler \<Rightarrow> bool" where
  "has_current_checkpoint env s \<longleftrightarrow> snd (current_checkpoint (he_now env) (hs_cache s)) \<noteq> None"

definition preparation_status :: "string \<Rightarrow> host_scheduler \<Rightarrow> PrepStatus option" where
  "preparation_status k s = map_option pr_status (preparation_of k s)"

definition isRunnableRecovery :: "'w host_env \<Rightarrow> host_scheduler \<Rightarrow> AttachRequest \<Rightarrow> bool" where
  "isRunnableRecovery env s request \<longleftrightarrow>
     (let status = preparation_status (recoveryKey request) s in
      if \<not> isCold request (hs_queue s) then True
      else if he_now env < queue_readyAt request s then False
      else if status = Some prep_ready then True
      else if has_current_checkpoint env s then True
      else if status = Some prep_publishing \<or> hs_coldBuildInFlight s \<noteq> None then False
      else coldCaptureReadyAt request s \<le> he_now env)"

definition hasRunnableRecovery :: "'w host_env \<Rightarrow> host_scheduler \<Rightarrow> bool" where
  "hasRunnableRecovery env s \<longleftrightarrow> some_pending (isRunnableRecovery env s) (hs_queue s)"

text \<open>One request's contribution to the timer; \<open>None\<close> is positive infinity.\<close>

definition earlier :: "int option \<Rightarrow> int \<Rightarrow> int option" where
  "earlier e t = Some (case e of None \<Rightarrow> t | Some v \<Rightarrow> min v t)"

definition timer_visit :: "'w host_env \<Rightarrow> host_scheduler \<Rightarrow> AttachRequest \<Rightarrow> int option \<Rightarrow> int option" where
  "timer_visit env s request earliest =
     (if \<not> isCold request (hs_queue s) then Some 0
      else if he_now env < queue_readyAt request s then earlier earliest (queue_readyAt request s)
      else
        let status = preparation_status (recoveryKey request) s;
            e1 = (if status = Some prep_ready then Some 0 else earliest);
            e2 = (if has_current_checkpoint env s then Some 0 else e1)
        in if status = Some prep_publishing \<or> hs_coldBuildInFlight s \<noteq> None then e2
           else earlier e2 (coldCaptureReadyAt request s))"

definition earliest_recovery :: "'w host_env \<Rightarrow> host_scheduler \<Rightarrow> int option" where
  "earliest_recovery env s = fold (timer_visit env s) (map snd (rq_pending (hs_queue s))) None"

section \<open>Errors\<close>

fun isRetryableColdRecoveryError :: "RecoveryError \<Rightarrow> bool" where
  "isRetryableColdRecoveryError TailUnavailable = True"
| "isRetryableColdRecoveryError EncodeBudgetExceeded = True"
| "isRetryableColdRecoveryError (RetryablePublishError d) = True"
| "isRetryableColdRecoveryError CleanupConfirmed = True"
| "isRetryableColdRecoveryError (SnapshotUnavailable d) = True"
| "isRetryableColdRecoveryError DeadlineExpired = True"
| "isRetryableColdRecoveryError _ = False"

fun snapshotRetryAfter :: "RecoveryError \<Rightarrow> int" where
  "snapshotRetryAfter (RetryablePublishError d) = d"
| "snapshotRetryAfter (SnapshotUnavailable d) = d"
| "snapshotRetryAfter _ = 0"

text \<open>The scope of a retry after a rejection: what the relay says, or what the mode implies.\<close>

datatype RetryScope = same_generation | refresh_checkpoint | drop_client

fun detail_scope :: "BarrierDetail \<Rightarrow> RetryScope" where
  "detail_scope missing_live_seed = same_generation"
| "detail_scope snapshot_missing = refresh_checkpoint"
| "detail_scope snapshot_metadata_mismatch = refresh_checkpoint"
| "detail_scope _ = drop_client"

definition deliveryBarrierRetryScope :: "DeliveryBarrierResult \<Rightarrow> RetryScope" where
  "deliveryBarrierRetryScope result =
     (case br_detail result of
        Some d \<Rightarrow> detail_scope d
      | None \<Rightarrow> if bi_mode result = warm_mode then same_generation else refresh_checkpoint)"

definition requeue_deferred :: "int \<Rightarrow> AttachRequest \<Rightarrow> RecoveryError \<Rightarrow> host_scheduler \<Rightarrow> host_scheduler" where
  "requeue_deferred now request e s =
     (let s1 = on_queue (requeue request) s;
          (q, retryDelay) = deferAfterFailure now request (snapshotRetryAfter e) (hs_queue s1)
      in deferColdCaptures now retryDelay (s1\<lparr>hs_queue := q\<rparr>))"

text \<open>The \<open>catch\<close> of \<open>#recover\<close>.\<close>

definition recover_catch :: "'w host_env \<Rightarrow> AttachRequest \<Rightarrow> RecoveryError \<Rightarrow> host_scheduler \<Rightarrow> host_scheduler" where
  "recover_catch env request e s =
     (case hs_activeRecovery s of
        None \<Rightarrow> s
      | Some a \<Rightarrow>
          if ar_phase a = marker_uncertain \<or> ar_phase a = pinned then failPair s
          else if ar_phase a = committed \<or> hs_failed s then s
          else if ar_aborted a then resumeCanonical env s
          else if ar_mode a = Some recovery_cold \<and> isRetryableColdRecoveryError e
          then resumeCanonical env (requeue_deferred (he_now env) request e (discardColdPreparation request s))
          else failPair s)\<lparr>hs_drain := RecoverSettled\<rparr>"

end
