(* ===== verification/Delivery_Recovery.thy ===== *)
theory Delivery_Recovery
  imports Delivery_Scheduler
begin

text \<open>
  The recoveries of \<open>apps/host-daemon/src/cloud/delivery-scheduler.ts\<close>: one recovery from its start to its end, the snapshot
  preparations it starts, the passes over the queue, and the events of the scheduler.
\<close>

section \<open>One delivery\<close>

definition wait_at :: "RecoveryPoint \<Rightarrow> host_scheduler \<Rightarrow> host_scheduler" where
  "wait_at p s = s\<lparr>hs_drain := p\<rparr>"

text \<open>\<open>await this.#pauseCanonical()\<close>: a pump that runs is waited for.\<close>

definition pauseCanonical :: "nat option \<Rightarrow> host_scheduler \<Rightarrow> host_scheduler" where
  "pauseCanonical preparation s =
     (let released = (if cp_pumpPromise (hs_publisher s) = NoPump then Some True else None)
      in wait_at (AwaitPause preparation released) (on_publisher pause_publisher s))"

definition delivery_identity :: "AttachRequest \<Rightarrow> BarrierMode \<Rightarrow> ReplayCursor \<Rightarrow> BarrierIdentity" where
  "delivery_identity request mode commit =
     \<lparr>bi_commitEventSeq = bigint_toString (jc_lastEventSeq commit), bi_commitPtyOffset = bigint_toString (jc_nextPtyOffset commit),
      bi_connectionId = at_connectionId request, bi_deliveryGeneration = at_deliveryGeneration request,
      bi_streamId = at_streamId request, bi_mode = mode\<rparr>"

definition flush_outcome :: "RecoveryPlan \<Rightarrow> (PublisherError + unit) option \<Rightarrow> RecoveryPoint" where
  "flush_outcome plan r = (case r of None \<Rightarrow> AwaitFlush plan | Some x \<Rightarrow> FlushSettled plan x)"

definition flushCanonicalThrough :: "'w host_env \<Rightarrow> RecoveryPlan \<Rightarrow> host_scheduler \<Rightarrow> host_scheduler" where
  "flushCanonicalThrough env plan s =
     (case flushThrough (he_throws env) (pl_commit plan) (hs_publisher s) of
        (p, r) \<Rightarrow> wait_at (flush_outcome plan r) (set_publisher p s))"

definition flush_continues :: "'w host_env \<Rightarrow> RecoveryPlan \<Rightarrow> host_scheduler \<Rightarrow> host_scheduler" where
  "flush_continues env plan s =
     (case flush_resumes (he_throws env) (pl_commit plan) (hs_publisher s) of
        (p, r) \<Rightarrow> wait_at (flush_outcome plan r) (set_publisher p s))"

text \<open>After the flush: the barrier.\<close>

definition is_aborted :: "host_scheduler \<Rightarrow> bool" where
  "is_aborted s \<longleftrightarrow> (case hs_activeRecovery s of None \<Rightarrow> True | Some a \<Rightarrow> ar_aborted a)"

definition waitForDeliveryBarrier :: "'w host_env \<Rightarrow> RecoveryPlan \<Rightarrow> host_scheduler \<Rightarrow> host_scheduler" where
  "waitForDeliveryBarrier env plan s =
     (case barrier_wait (pl_identity plan) (is_aborted s \<or> hs_failed s) (session_epoch env)
         (if he_receiptThrows env \<and> \<not> hs_failed s then SendThrows else SendPromises) CallbackReturns (hs_barriers s) of
        (w, Inl e) \<Rightarrow> wait_at (DeliverySettled (pl_preparation plan) (Inl (BarrierFailed e))) (set_barriers w s)
      | (w, Inr i) \<Rightarrow> wait_at (AwaitVerdict plan i) (set_barriers w s))"

definition after_flush :: "'w host_env \<Rightarrow> RecoveryPlan \<Rightarrow> PublisherError + unit \<Rightarrow> host_scheduler \<Rightarrow> host_scheduler" where
  "after_flush env plan r s =
     (case r of
        Inl e \<Rightarrow> wait_at (DeliverySettled (pl_preparation plan) (Inl (FlushFailed e))) s
      | Inr _ \<Rightarrow>
          if is_aborted s then wait_at (DeliverySettled (pl_preparation plan) (Inl SignalAborted)) s
          else waitForDeliveryBarrier env plan s)"

text \<open>The loop of \<open>#sendDirectedReplay\<close> from its start or a resumption, with both counters zero there.\<close>

fun replay_loop ::
  "'w host_env \<Rightarrow> RecoveryPlan \<Rightarrow> DeliveryBarrierResult \<Rightarrow> int \<Rightarrow> int \<Rightarrow> bytes list \<Rightarrow> ReplayCursor \<Rightarrow> host_scheduler \<Rightarrow> host_scheduler" where
  "replay_loop env plan r b n [] cursor s =
     wait_at (ReplaySettled plan r (if sameReplayCursor cursor (pl_commit plan) then Inr () else Inl ReplayMissesCommit)) s"
| "replay_loop env plan r b n (encoded # rest) cursor s =
     (if is_aborted s then wait_at (ReplaySettled plan r (Inl SignalAborted)) s
      else case rewriteDelivery encoded (bigint_of (bi_deliveryGeneration (pl_identity plan))) (bi_streamId (pl_identity plan)) of
          Inl e \<Rightarrow> wait_at (ReplaySettled plan r (Inl OtherError)) s
        | Inr directed \<Rightarrow>
            (case sendData env DirectedSent directed s of
               (s1, False) \<Rightarrow> wait_at (ReplaySettled plan r (Inl OtherError)) s1
             | (s1, True) \<Rightarrow>
                 (case decodeDataFrame encoded of
                    Inl e \<Rightarrow> wait_at (ReplaySettled plan r (Inl OtherError)) s1
                  | Inr frame \<Rightarrow>
                      let b1 = b + int (length directed) in
                      if yields b1 (n + 1) then wait_at (AwaitReplay plan r rest (cursorAfter frame)) s1
                      else replay_loop env plan r b1 (n + 1) rest (cursorAfter frame) s1)))"

text \<open>What \<open>encodeDataFrame\<close> gives for the commit of a delivery, in the epoch of the commit.\<close>

definition commit_frame :: "RecoveryPlan \<Rightarrow> ProtocolErrorCode + bytes" where
  "commit_frame plan = encodeDataFrame \<lparr>df_kind = ReplayCommit, df_flags = 0, df_sessionEpoch = rp_sessionEpoch (pl_commit plan),
     df_deliveryGeneration = bigint_of (bi_deliveryGeneration (pl_identity plan)), df_eventSeq = jc_lastEventSeq (pl_commit plan),
     df_ptyOffset = jc_nextPtyOffset (pl_commit plan), df_streamId = bi_streamId (pl_identity plan), df_payload = []\<rparr>"

text \<open>\<open>#sendReplayCommit\<close> and the end of a delivery.\<close>

definition after_replay ::
  "'w host_env \<Rightarrow> RecoveryPlan \<Rightarrow> DeliveryBarrierResult \<Rightarrow> RecoveryError + unit \<Rightarrow> host_scheduler \<Rightarrow> host_scheduler" where
  "after_replay env plan r outcome s =
     (let failing = (\<lambda>e t. wait_at (DeliverySettled (pl_preparation plan) (Inl e)) t) in
      case outcome of
        Inl e \<Rightarrow> failing e s
      | Inr _ \<Rightarrow>
          (case commit_frame plan of
             Inl _ \<Rightarrow> failing OtherError s
           | Inr frame \<Rightarrow>
               (case sendData env CommitSent frame s of
                  (s1, False) \<Rightarrow> failing OtherError s1
                | (s1, True) \<Rightarrow>
                    wait_at (DeliverySettled (pl_preparation plan) (Inr r)) (resumeCanonical env (set_phase committed s1)))))"

text \<open>The verdict, once the barrier's promise has settled; the deadline's timer is cleared in either case.\<close>

fun settlement :: "nat \<Rightarrow> BarrierEffect \<Rightarrow> (WaitError + DeliveryBarrierResult) option" where
  "settlement i (BarrierResolved j _ r) = (if i = j then Some (Inr r) else None)"
| "settlement i (BarrierRejected j e) = (if i = j then Some (Inl e) else None)"
| "settlement i _ = None"

definition barrier_outcome :: "nat \<Rightarrow> host_scheduler \<Rightarrow> (WaitError + DeliveryBarrierResult) option" where
  "barrier_outcome i s =
     (case List.map_filter (settlement i) (bw_effects (hs_barriers s)) of [] \<Rightarrow> None | x # _ \<Rightarrow> Some x)"

definition after_verdict ::
  "'w host_env \<Rightarrow> RecoveryPlan \<Rightarrow> WaitError + DeliveryBarrierResult \<Rightarrow> host_scheduler \<Rightarrow> host_scheduler" where
  "after_verdict env plan outcome s =
     (let s1 = s\<lparr>hs_barrierTimer := None\<rparr> in
      case outcome of
        Inl e \<Rightarrow> wait_at (DeliverySettled (pl_preparation plan) (Inl (BarrierFailed e))) s1
      | Inr r \<Rightarrow>
          if br_status r \<noteq> barrier_ready
          then wait_at (DeliverySettled (pl_preparation plan) (Inr r)) (resumeCanonical env (set_phase pre_marker s1))
          else replay_loop env plan r 0 0 (pl_replay plan) (pl_base plan) (set_phase pinned s1))"

section \<open>One recovery\<close>

definition within_replay_limits :: "int \<Rightarrow> bytes list \<Rightarrow> bool" where
  "within_replay_limits outstanding frames \<longleftrightarrow>
     outstanding \<le> WARM_REPLAY_MAX_OUTSTANDING_BYTES \<and> int (length frames) \<le> WARM_REPLAY_MAX_FRAMES"

definition credit_cursor :: "ReplayCursor \<Rightarrow> DeliveryCreditCursor" where
  "credit_cursor c = \<lparr>cc_eventSeq = jc_lastEventSeq c, cc_nextPtyOffset = jc_nextPtyOffset c\<rparr>"

definition cursorFromAttach :: "string \<times> string \<times> string \<Rightarrow> ReplayCursor" where
  "cursorFromAttach live = (case live of (ep, ev, off) \<Rightarrow>
     \<lparr>jc_lastEventSeq = bigint_of ev, jc_nextPtyOffset = bigint_of off, rp_sessionEpoch = bigint_of ep\<rparr>)"

definition new_preparation :: "ColdPreparation \<Rightarrow> host_scheduler \<Rightarrow> host_scheduler" where
  "new_preparation p s = s\<lparr>hs_preparations := hs_preparations s @ [p],
     hs_coldPreparations := jm_set (recoveryKey (pr_request p)) (length (hs_preparations s)) (hs_coldPreparations s)\<rparr>"

text \<open>\<open>#startColdPreparation\<close> and \<open>#prepareCold\<close> up to its first wait.\<close>

definition startColdPreparation :: "'w host_env \<Rightarrow> AttachRequest \<Rightarrow> host_scheduler \<Rightarrow> host_scheduler" where
  "startColdPreparation env request s =
     (if hs_coldBuildInFlight s \<noteq> None \<or> jm_get (hs_coldPreparations s) (recoveryKey request) \<noteq> None
      then on_queue (requeue request) s
      else new_preparation
        \<lparr>pr_request = request, pr_checkpoint = None, pr_aborted = False, pr_status = prep_publishing,
         pr_stage = (case he_resumePending env of
            ResumeThrows e \<Rightarrow> PrepRejected e | NothingPending \<Rightarrow> PrepCapturing | ResumePromised \<Rightarrow> PrepResuming)\<rparr>
        (s\<lparr>hs_coldBuildInFlight := Some (length (hs_preparations s))\<rparr>))"

text \<open>\<open>#deliverPreparedCold\<close> up to its first wait; it is asynchronous, so what it throws is seen a turn later.\<close>

definition deliverPreparedCold :: "'w host_env \<Rightarrow> nat \<Rightarrow> host_scheduler \<Rightarrow> host_scheduler" where
  "deliverPreparedCold env i s =
     (case pr_checkpoint (hs_preparations s ! i) of
        None \<Rightarrow> wait_at (DeliverySettled (Some i) (Inl OtherError)) s
      | Some ck \<Rightarrow>
          if ck_engineId ck \<noteq> session_engine env \<or> rp_sessionEpoch (ck_base ck) \<noteq> session_epoch env
          then wait_at (DeliverySettled (Some i) (Inl OtherError)) s
          else pauseCanonical (Some i) s)"

text \<open>The cold part of \<open>#recover\<close>.\<close>

definition recover_cold :: "'w host_env \<Rightarrow> AttachRequest \<Rightarrow> host_scheduler \<Rightarrow> host_scheduler" where
  "recover_cold env request s =
     (let s1 = on_queue (markCold request) (set_active (\<lambda>a. a\<lparr>ar_mode := Some recovery_cold\<rparr>) s);
          (cache, recent) = current_checkpoint (he_now env) (hs_cache s1);
          s2 = s1\<lparr>hs_cache := cache\<rparr>;
          s3 = (case (jm_get (hs_coldPreparations s2) (recoveryKey request), recent) of
                  (None, Some ck) \<Rightarrow> new_preparation \<lparr>pr_request = request, pr_checkpoint = Some ck, pr_aborted = False,
                     pr_status = prep_ready, pr_stage = PrepHandled\<rparr> s2
                | _ \<Rightarrow> s2)
      in case jm_get (hs_coldPreparations s3) (recoveryKey request) of
           None \<Rightarrow> wait_at RecoverSettled
             (if hs_coldBuildInFlight s3 = None \<and> coldCaptureReadyAt request s3 \<le> he_now env
              then startColdPreparation env request s3 else on_queue (requeue request) s3)
         | Some i \<Rightarrow> if pr_status (hs_preparations s3 ! i) \<noteq> prep_ready then wait_at RecoverSettled s3
                     else deliverPreparedCold env i s3)"

text \<open>\<open>#recover\<close> up to its first wait.\<close>

definition sendReplayUnavailable :: "'w host_env \<Rightarrow> AttachRequest \<Rightarrow> UnavailableReason \<Rightarrow> host_scheduler \<Rightarrow> host_scheduler" where
  "sendReplayUnavailable env request reason s =
     (if he_controlThrows env then wait_at (DrainSettled False) s
      else wait_at RecoverSettled (host_effect (UnavailableSent (at_connectionId request) reason) s))"

definition recover :: "'w host_env \<Rightarrow> AttachRequest \<Rightarrow> host_scheduler \<Rightarrow> host_scheduler" where
  "recover env request s =
     (if at_engineId request \<noteq> session_engine env then sendReplayUnavailable env request unavailable_engine_mismatch s
      else case at_liveReplica request of
          None \<Rightarrow> recover_cold env request s
        | Some live \<Rightarrow>
            if rp_sessionEpoch (cursorFromAttach live) \<noteq> session_epoch env
            then sendReplayUnavailable env request unavailable_epoch_changed s
            else if \<not> isCold request (hs_queue s) then pauseCanonical None s
            else recover_cold env request s)"

text \<open>After the pause of a warm recovery: \<open>deliveryOutstandingBytes\<close> throws on cursors that go back.\<close>

definition warm_after_pause :: "'w host_env \<Rightarrow> AttachRequest \<Rightarrow> string \<times> string \<times> string \<Rightarrow> host_scheduler \<Rightarrow> host_scheduler" where
  "warm_after_pause env request live s =
     (let commit = session_cursor env; base = cursorFromAttach live; cold = recover_cold env request (resumeCanonical env s)
      in case session_replay env base commit of
           ReplayGap \<Rightarrow> cold
         | ReplayOk frames \<Rightarrow>
             (case deliveryOutstandingBytes (credit_cursor base) (credit_cursor commit) of
                None \<Rightarrow> recover_catch env request OtherError s
              | Some outstanding \<Rightarrow>
                  if within_replay_limits outstanding frames \<and> WARM_REPLAY_MAX_OUTSTANDING_BYTES \<le> MAX_DELIVERY_OUTSTANDING_BYTES
                  then flushCanonicalThrough env
                    \<lparr>pl_preparation = None, pl_identity = delivery_identity request warm_mode commit, pl_base = base,
                     pl_commit = commit, pl_replay = frames\<rparr>
                    (set_active (\<lambda>a. a\<lparr>ar_mode := Some recovery_warm\<rparr>) s)
                  else cold))"

definition cold_after_pause :: "'w host_env \<Rightarrow> AttachRequest \<Rightarrow> nat \<Rightarrow> SnapshotCheckpoint \<Rightarrow> host_scheduler \<Rightarrow> host_scheduler" where
  "cold_after_pause env request i ck s =
     (let failing = (\<lambda>e t. wait_at (DeliverySettled (Some i) (Inl e)) t);
          unavailable = failing TailUnavailable (invalidateCheckpoint (he_now env) ck s)
      in if hs_failed s \<or> is_aborted s then failing SignalAborted s
         else
           let base = ck_base ck; commit = session_cursor env in
           (case session_replay env base commit of
              ReplayGap \<Rightarrow> unavailable
            | ReplayOk frames \<Rightarrow>
                (case deliveryOutstandingBytes (credit_cursor base) (credit_cursor commit) of
                   None \<Rightarrow> failing OtherError s
                 | Some outstanding \<Rightarrow>
                     if \<not> within_replay_limits outstanding frames then unavailable
                     else flushCanonicalThrough env
                       \<lparr>pl_preparation = Some i,
                        pl_identity = delivery_identity request (snapshot_mode (sm_snapshotId (ck_published ck))) commit,
                        pl_base = base, pl_commit = commit, pl_replay = frames\<rparr> s)))"

definition after_pause :: "'w host_env \<Rightarrow> nat option \<Rightarrow> bool \<Rightarrow> host_scheduler \<Rightarrow> host_scheduler" where
  "after_pause env preparation ok s =
     (case hs_activeRecovery s of
        None \<Rightarrow> s
      | Some a \<Rightarrow>
          (case preparation of
             None \<Rightarrow>
               if \<not> ok then recover_catch env (ar_request a) OtherError s
               else if hs_failed s then wait_at RecoverSettled s
               else (case at_liveReplica (ar_request a) of
                   None \<Rightarrow> s
                 | Some live \<Rightarrow> warm_after_pause env (ar_request a) live s)
           | Some i \<Rightarrow>
               if \<not> ok then wait_at (DeliverySettled (Some i) (Inl OtherError)) s
               else (case pr_checkpoint (hs_preparations s ! i) of
                   None \<Rightarrow> s
                 | Some ck \<Rightarrow> cold_after_pause env (ar_request a) i ck s)))"

text \<open>What \<open>#recover\<close> does with the result of its delivery.\<close>

definition concluded_result :: "DeliveryBarrierResult \<Rightarrow> bool" where
  "concluded_result r \<longleftrightarrow> br_status r = barrier_ready \<or> br_status r = barrier_stale \<or> deliveryBarrierRetryScope r = drop_client"

definition after_delivery ::
  "'w host_env \<Rightarrow> nat option \<Rightarrow> RecoveryError + DeliveryBarrierResult \<Rightarrow> host_scheduler \<Rightarrow> host_scheduler" where
  "after_delivery env preparation outcome s =
     (case hs_activeRecovery s of
        None \<Rightarrow> s
      | Some a \<Rightarrow>
          let request = ar_request a in
          (case outcome of
             Inl e \<Rightarrow> recover_catch env request e s
           | Inr r \<Rightarrow> wait_at RecoverSettled
               (case preparation of
                  None \<Rightarrow>
                    if concluded_result r then on_queue (complete_recovery request) s
                    else on_queue (requeue request) (on_queue (markCold request) s)
                | Some i \<Rightarrow>
                    if concluded_result r then discardColdPreparation request (on_queue (complete_recovery request) s)
                    else
                      let s1 = (if deliveryBarrierRetryScope r = refresh_checkpoint
                          then discardColdPreparation request
                            (case pr_checkpoint (hs_preparations s ! i) of
                               None \<Rightarrow> s | Some ck \<Rightarrow> invalidateCheckpoint (he_now env) ck s)
                          else s)
                      in on_queue (\<lambda>q. defer_recovery (he_now env) request SNAPSHOT_RECOVERY_QUIET_MS q)
                           (on_queue (requeue request) s1))))"

section \<open>Passes\<close>

text \<open>The loop of \<open>#drainRecoveries\<close>, up to the next wait.\<close>

definition drain_next :: "'w host_env \<Rightarrow> host_scheduler \<Rightarrow> host_scheduler" where
  "drain_next env s =
     (case hs_pass s of
        [] \<Rightarrow> wait_at (DrainSettled True) s
      | request # rest \<Rightarrow>
          if hs_failed s then wait_at (DrainSettled True) s
          else recover env request (s\<lparr>hs_pass := rest, hs_activeRecovery :=
            Some \<lparr>ar_aborted = False, ar_mode = None, ar_phase = pre_marker, ar_request = request\<rparr>\<rparr>))"

definition drainRecoveries :: "'w host_env \<Rightarrow> host_scheduler \<Rightarrow> host_scheduler" where
  "drainRecoveries env s =
     (case takeRunnablePass (isRunnableRecovery env s) (hs_queue s) of
        (q, requests) \<Rightarrow> drain_next env (s\<lparr>hs_queue := q, hs_pass := requests\<rparr>))"

text \<open>
  \<open>#scheduleRecoveries\<close> and \<open>#scheduleRecoveryTimer\<close> call each other; the number is the depth of calls left, and running out
  of it is a stack overflow.
\<close>

fun scheduleRecoveries :: "nat \<Rightarrow> 'w host_env \<Rightarrow> host_scheduler \<Rightarrow> host_scheduler"
and scheduleRecoveryTimer :: "nat \<Rightarrow> 'w host_env \<Rightarrow> host_scheduler \<Rightarrow> host_scheduler" where
  "scheduleRecoveries 0 env s = s\<lparr>hs_stackOverflow := True\<rparr>"
| "scheduleRecoveries (Suc n) env s =
     (if hs_recoveriesRunning s \<or> hs_failed s \<or> \<not> hs_ready s then s
      else if \<not> hasRunnableRecovery env s then scheduleRecoveryTimer n env s
      else drainRecoveries env (s\<lparr>hs_recoveryTimer := None, hs_recoveriesRunning := True\<rparr>))"
| "scheduleRecoveryTimer 0 env s = s\<lparr>hs_stackOverflow := True\<rparr>"
| "scheduleRecoveryTimer (Suc n) env s =
     (if hs_failed s \<or> \<not> hs_ready s \<or> pendingSize (hs_queue s) = 0 then s
      else case earliest_recovery env s of
          None \<Rightarrow> s
        | Some earliest \<Rightarrow>
            let remaining = max 0 (earliest - he_now env) in
            if remaining = 0 then scheduleRecoveries n env s
            else s\<lparr>hs_recoveryTimer := Some (he_now env + remaining)\<rparr>)"

definition call_depth :: nat where "call_depth = 2"

definition schedulePendingRecoveries :: "'w host_env \<Rightarrow> host_scheduler \<Rightarrow> host_scheduler" where
  "schedulePendingRecoveries env s =
     (if hs_failed s \<or> \<not> hs_ready s \<or> pendingSize (hs_queue s) = 0 then s
      else if hasRunnableRecovery env s then scheduleRecoveries call_depth env s
      else scheduleRecoveryTimer call_depth env s)"

definition drain_settled :: "'w host_env \<Rightarrow> bool \<Rightarrow> host_scheduler \<Rightarrow> host_scheduler" where
  "drain_settled env ok s =
     (let s1 = wait_at NoDrain (s\<lparr>hs_recoveriesRunning := False\<rparr>)
      in if ok then schedulePendingRecoveries env s1 else failPair s1)"

text \<open>The one recovery goes on from where it waits, if what it waits for has happened.\<close>

definition recovery_continues :: "'w host_env \<Rightarrow> host_scheduler \<Rightarrow> host_scheduler" where
  "recovery_continues env s =
     (case hs_drain s of
        NoDrain \<Rightarrow> s
      | AwaitPause preparation released \<Rightarrow> (case released of None \<Rightarrow> s | Some ok \<Rightarrow> after_pause env preparation ok s)
      | AwaitFlush plan \<Rightarrow> flush_continues env plan s
      | FlushSettled plan r \<Rightarrow> after_flush env plan r s
      | AwaitVerdict plan i \<Rightarrow> (case barrier_outcome i s of None \<Rightarrow> s | Some outcome \<Rightarrow> after_verdict env plan outcome s)
      | AwaitReplay plan r rest cursor \<Rightarrow> replay_loop env plan r 0 0 rest cursor s
      | ReplaySettled plan r outcome \<Rightarrow> after_replay env plan r outcome s
      | DeliverySettled preparation outcome \<Rightarrow> after_delivery env preparation outcome s
      | RecoverSettled \<Rightarrow> drain_next env (s\<lparr>hs_activeRecovery := None\<rparr>)
      | DrainSettled ok \<Rightarrow> drain_settled env ok s)"

section \<open>The snapshot promises\<close>

definition published_base :: "SnapshotMetadata \<Rightarrow> ReplayCursor" where
  "published_base m = \<lparr>jc_lastEventSeq = bigint_of (sm_cutEventSeq m), jc_nextPtyOffset = bigint_of (sm_nextPtyOffset m),
     rp_sessionEpoch = bigint_of (sm_sessionEpoch m)\<rparr>"

definition checkpointFromPublished :: "'w host_env \<Rightarrow> SnapshotMetadata \<Rightarrow> PrepStage" where
  "checkpointFromPublished env m =
     (if sm_engineId m \<noteq> session_engine env \<or> bigint_of (sm_sessionEpoch m) \<noteq> session_epoch env then PrepRejected OtherError
      else PrepResolved \<lparr>ck_ref = 0, ck_base = published_base m, ck_engineId = sm_engineId m, ck_published = m\<rparr>)"

definition publishedSnapshotMatchesCapture :: "SnapshotMetadata \<Rightarrow> SnapshotCapture \<Rightarrow> bool" where
  "publishedSnapshotMatchesCapture m c \<longleftrightarrow> sm_engineId m = sc_engineId c \<and> bigint_of (sm_sessionEpoch m) = sc_sessionEpoch c \<and>
     bigint_of (sm_cutEventSeq m) = sc_cutEventSeq c \<and> bigint_of (sm_nextPtyOffset m) = sc_nextPtyOffset c"

datatype PrepEvent =
    PendingSettles "RecoveryError + SnapshotMetadata"
  | CaptureSettles "RecoveryError + SnapshotCapture"
  | PublishSettles "RecoveryError + SnapshotMetadata"
  | PrepDeadline

fun advance_stage :: "'w host_env \<Rightarrow> PrepEvent \<Rightarrow> PrepStage \<Rightarrow> PrepStage" where
  "advance_stage env (PendingSettles (Inl e)) PrepResuming = PrepRejected e"
| "advance_stage env (PendingSettles (Inr m)) PrepResuming = checkpointFromPublished env m"
| "advance_stage env (CaptureSettles (Inl e)) PrepCapturing = PrepRejected e"
| "advance_stage env (CaptureSettles (Inr c)) PrepCapturing =
     (if SNAPSHOT_ENCODE_BUDGET_MS < sc_encodeMs c then PrepRejected EncodeBudgetExceeded else PrepPublishing c)"
| "advance_stage env (PublishSettles (Inl e)) (PrepPublishing c) = PrepRejected e"
| "advance_stage env (PublishSettles (Inr m)) (PrepPublishing c) =
     (if publishedSnapshotMatchesCapture m c then checkpointFromPublished env m else PrepRejected OtherError)"
| "advance_stage env PrepDeadline PrepResuming = PrepRejected DeadlineExpired"
| "advance_stage env PrepDeadline PrepCapturing = PrepRejected EncodeBudgetExceeded"
| "advance_stage env PrepDeadline (PrepPublishing c) = PrepRejected DeadlineExpired"
| "advance_stage env e st = st"

definition preparation_event :: "'w host_env \<Rightarrow> nat \<Rightarrow> PrepEvent \<Rightarrow> host_scheduler \<Rightarrow> host_scheduler" where
  "preparation_event env i e s = update_preparation i (\<lambda>p. p\<lparr>pr_stage := advance_stage env e (pr_stage p)\<rparr>) s"

text \<open>The handlers of the promise of \<open>#prepareCold\<close>.\<close>

definition preparation_resolved :: "'w host_env \<Rightarrow> nat \<Rightarrow> ColdPreparation \<Rightarrow> SnapshotCheckpoint \<Rightarrow> host_scheduler \<Rightarrow> host_scheduler" where
  "preparation_resolved env i p checkpoint s =
     (if hs_failed s \<or> pr_aborted p \<or> jm_get (hs_coldPreparations s) (recoveryKey (pr_request p)) \<noteq> Some i
      then schedulePendingRecoveries env s
      else case install_checkpoint (he_now env) checkpoint (hs_cache s) of
          (cache, stored) \<Rightarrow> schedulePendingRecoveries env
            (on_queue (requeue (pr_request p))
              (update_preparation i (\<lambda>p. p\<lparr>pr_checkpoint := Some stored, pr_status := prep_ready\<rparr>)
                (s\<lparr>hs_cache := cache, hs_coldCaptureNotBefore := None, hs_coldCaptureQuietDeadline := None\<rparr>))))"

definition preparation_rejected :: "'w host_env \<Rightarrow> nat \<Rightarrow> ColdPreparation \<Rightarrow> RecoveryError \<Rightarrow> host_scheduler \<Rightarrow> host_scheduler" where
  "preparation_rejected env i p e s =
     (let isCurrent = (jm_get (hs_coldPreparations s) (recoveryKey (pr_request p)) = Some i);
          s1 = (if isCurrent then s\<lparr>hs_coldPreparations := jm_delete (recoveryKey (pr_request p)) (hs_coldPreparations s)\<rparr> else s)
      in if hs_failed s1 \<or> pr_aborted p \<or> \<not> isCurrent then schedulePendingRecoveries env s1
         else if isRetryableColdRecoveryError e
         then schedulePendingRecoveries env (requeue_deferred (he_now env) (pr_request p) e s1)
         else failPair s1)"

definition preparation_handlers :: "'w host_env \<Rightarrow> nat \<Rightarrow> host_scheduler \<Rightarrow> host_scheduler" where
  "preparation_handlers env i s =
     (if \<not> i < length (hs_preparations s) then s
      else
        let p = hs_preparations s ! i;
            s1 = update_preparation i (\<lambda>p. p\<lparr>pr_stage := PrepHandled\<rparr>)
              (if hs_coldBuildInFlight s = Some i then s\<lparr>hs_coldBuildInFlight := None\<rparr> else s)
        in (case pr_stage p of
              PrepResolved ck \<Rightarrow> preparation_resolved env i p ck s1
            | PrepRejected e \<Rightarrow> preparation_rejected env i p e s1
            | _ \<Rightarrow> s))"

section \<open>The operations and events\<close>

definition prepareHostReady :: "'w host_env \<Rightarrow> bool \<Rightarrow> host_scheduler \<Rightarrow> host_scheduler" where
  "prepareHostReady env attached s = on_publisher (\<lambda>p. fst (prepare (session_cursor env) attached p)) s"

definition activateHostReady :: "'w host_env \<Rightarrow> ReplayCursor \<Rightarrow> host_scheduler \<Rightarrow> host_scheduler" where
  "activateHostReady env acknowledged s =
     (case activate_publisher (he_throws env) acknowledged (hs_publisher s) of
        (p, Inl _) \<Rightarrow> set_publisher p s
      | (p, Inr _) \<Rightarrow> scheduleRecoveries call_depth env ((set_publisher p s)\<lparr>hs_ready := True\<rparr>))"

definition enqueueAttach :: "'w host_env \<Rightarrow> AttachRequest \<Rightarrow> host_scheduler \<Rightarrow> host_scheduler" where
  "enqueueAttach env request s =
     (if hs_failed s then s
      else case enqueueRecovery request (hs_queue s) of
          (q, superseded) \<Rightarrow>
            let s1 = abortColdPreparations superseded (s\<lparr>hs_queue := q\<rparr>);
                s2 = (case hs_activeRecovery s1 of
                        None \<Rightarrow> s1
                      | Some a \<Rightarrow> if at_streamId (ar_request a) = at_streamId request \<and>
                            generation_of (ar_request a) < generation_of request then abort_active s1 else s1)
            in scheduleRecoveries call_depth env s2)"

definition handleDeliveryReset :: "'w host_env \<Rightarrow> int \<Rightarrow> string \<Rightarrow> host_scheduler \<Rightarrow> host_scheduler" where
  "handleDeliveryReset env stream generation s =
     (case reset_recovery stream generation (hs_queue s) of
        (q, removed) \<Rightarrow>
          let s1 = abortColdPreparations removed (s\<lparr>hs_queue := q\<rparr>);
              s2 = (case hs_activeRecovery s1 of
                      None \<Rightarrow> s1
                    | Some a \<Rightarrow> if at_streamId (ar_request a) = stream \<and> at_deliveryGeneration (ar_request a) = generation
                        then abort_active s1 else s1)
          in schedulePendingRecoveries env s2)"

definition can_interrupt :: "host_scheduler \<Rightarrow> bool" where
  "can_interrupt s \<longleftrightarrow> (case hs_activeRecovery s of None \<Rightarrow> False | Some a \<Rightarrow> ar_phase a = pre_marker)"

definition abortRecoveryForPressure :: "'w host_env \<Rightarrow> host_scheduler \<Rightarrow> host_scheduler" where
  "abortRecoveryForPressure env s =
     (case hs_activeRecovery s of
        None \<Rightarrow> failPair s
      | Some a \<Rightarrow>
          if ar_phase a \<noteq> pre_marker then failPair s
          else resumeCanonical env (abort_active
            (on_queue (\<lambda>q. defer_recovery (he_now env) (ar_request a) SNAPSHOT_RECOVERY_QUIET_MS q)
              (discardColdPreparation (ar_request a) (on_queue (requeue (ar_request a)) s)))))"

text \<open>A canonical frame from the session's subscription, through the publisher with its callbacks.\<close>

definition frame_arrives :: "'w host_env \<Rightarrow> bytes \<Rightarrow> host_scheduler \<Rightarrow> host_scheduler" where
  "frame_arrives env encoded s =
     (if \<not> cp_subscribed (hs_publisher s) then s
      else case push_canonical encoded (can_interrupt s) (hs_publisher s) of
          (p, None) \<Rightarrow> on_failing_publisher p s
        | (p, Some pressure) \<Rightarrow>
            let s1 = (set_publisher p s)\<lparr>hs_lastCanonicalAt := Some (he_now env)\<rparr>;
                s2 = (if pressure then abortRecoveryForPressure env (on_publisher (publish_effect RecoveryPressure) s1) else s1)
            in on_publisher (schedulePump (he_throws env)) s2)"

definition pump_resumes :: "'w host_env \<Rightarrow> host_scheduler \<Rightarrow> host_scheduler" where
  "pump_resumes env s =
     (if cp_pumpPromise (hs_publisher s) = PumpYielding then on_publisher (run_pump (he_throws env)) s else s)"

text \<open>The pump's promise has settled: its handlers, then whoever waits for the pause.\<close>

definition pump_promise_settles :: "'w host_env \<Rightarrow> host_scheduler \<Rightarrow> host_scheduler" where
  "pump_promise_settles env s =
     (let release = (\<lambda>ok t. case hs_drain t of AwaitPause prep None \<Rightarrow> wait_at (AwaitPause prep (Some ok)) t | _ \<Rightarrow> t) in
      case cp_pumpPromise (hs_publisher s) of
        PumpResolved \<Rightarrow> release True (on_publisher (pump_settled (he_throws env)) s)
      | PumpRejected \<Rightarrow> release False (on_failing_publisher (pump_settled (he_throws env) (hs_publisher s)) s)
      | _ \<Rightarrow> s)"

text \<open>The receipt of the marker: \<open>onMarkerSent\<close> sets the phase and starts the deadline.\<close>

definition receipt_settles :: "nat \<Rightarrow> bool \<Rightarrow> host_scheduler \<Rightarrow> host_scheduler" where
  "receipt_settles i ok s =
     (if \<not> ok then on_barriers (rejectPending i SendError) s
      else if \<not> pending_is i (hs_barriers s) then s
      else on_barriers (markBarrierSent i CallbackReturns) (set_phase marker_uncertain (s\<lparr>hs_barrierTimer := Some i\<rparr>)))"

definition barrier_deadline :: "host_scheduler \<Rightarrow> host_scheduler" where
  "barrier_deadline s =
     (case hs_barrierTimer s of
        None \<Rightarrow> s
      | Some i \<Rightarrow> on_barriers (rejectPending i Aborted) (s\<lparr>hs_barrierTimer := None\<rparr>))"

definition recovery_timer_fires :: "'w host_env \<Rightarrow> host_scheduler \<Rightarrow> host_scheduler" where
  "recovery_timer_fires env s =
     (if hs_recoveryTimer s = None then s else scheduleRecoveries call_depth env (s\<lparr>hs_recoveryTimer := None\<rparr>))"

datatype host_event =
    PrepareHostReady bool
  | ActivateHostReady ReplayCursor
  | EnqueueAttach AttachRequest
  | HandleDeliveryReset int string
  | HandleBarrierResult DeliveryBarrierResult
  | DisposeScheduler
  | CanonicalFrame bytes
  | PumpContinues
  | PumpPromiseSettles
  | ReceiptSettles nat bool
  | BarrierDeadline
  | RecoveryTimerFires
  | RecoveryContinues
  | PreparationEvent nat PrepEvent
  | PreparationHandlers nat

fun host_step :: "host_scheduler \<Rightarrow> 'w host_env \<times> host_event \<Rightarrow> host_scheduler" where
  "host_step s (env, PrepareHostReady attached) = prepareHostReady env attached s"
| "host_step s (env, ActivateHostReady c) = activateHostReady env c s"
| "host_step s (env, EnqueueAttach r) = enqueueAttach env r s"
| "host_step s (env, HandleDeliveryReset i g) = handleDeliveryReset env i g s"
| "host_step s (env, HandleBarrierResult r) = on_barriers (handle_result r) s"
| "host_step s (env, DisposeScheduler) = dispose_scheduler s"
| "host_step s (env, CanonicalFrame bs) = frame_arrives env bs s"
| "host_step s (env, PumpContinues) = pump_resumes env s"
| "host_step s (env, PumpPromiseSettles) = pump_promise_settles env s"
| "host_step s (env, ReceiptSettles i ok) = receipt_settles i ok s"
| "host_step s (env, BarrierDeadline) = barrier_deadline s"
| "host_step s (env, RecoveryTimerFires) = recovery_timer_fires env s"
| "host_step s (env, RecoveryContinues) = recovery_continues env s"
| "host_step s (env, PreparationEvent i e) = preparation_event env i e s"
| "host_step s (env, PreparationHandlers i) = preparation_handlers env i s"

end
