(* ===== verification/Delivery_Publisher.thy ===== *)
theory Delivery_Publisher
  imports Delivery_Recovery
begin

text \<open>
  What the delivery scheduler needs of the canonical publisher: every operation only adds to the record of effects, and while
  the publisher is held, paused with no pump or stopped, nothing but a resume or a flush makes it send.
\<close>

section \<open>The record of effects grows\<close>

definition grows :: "canonical_publisher \<Rightarrow> canonical_publisher \<Rightarrow> bool" where
  "grows p p' \<longleftrightarrow> (\<exists>es. cp_effects p' = cp_effects p @ es)"

lemma growsI: "cp_effects p' = cp_effects p @ es \<Longrightarrow> grows p p'"
  by (auto simp: grows_def)

lemma grows_same: "cp_effects p' = cp_effects p \<Longrightarrow> grows p p'"
  by (simp add: grows_def)

lemma grows_trans: "grows p q \<Longrightarrow> grows q r \<Longrightarrow> grows p r"
  by (auto simp: grows_def)

lemma grows_effect: "grows p q \<Longrightarrow> grows p (publish_effect e q)"
  by (auto simp: grows_def publish_effect_def)

lemma grows_cong: "grows p q \<Longrightarrow> cp_effects q' = cp_effects q \<Longrightarrow> grows p q'"
  by (simp add: grows_def)

lemma send_head_grows: "grows p (fst (send_head throws q rest p))"
  by (auto simp: send_head_def Let_def grows_def publish_effect_def)

lemma pump_loop_grows: "grows p (fst (pump_loop throws b n q p))"
proof (induction throws b n q p rule: pump_loop.induct)
  case (1 throws b n p)
  show ?case by (simp add: grows_same)
next
  case (2 throws b n q rest p)
  show ?case
  proof (cases "cp_stopped p \<or> \<not> cp_ready p \<or> cp_paused p")
    case True
    then show ?thesis by (auto intro: grows_same)
  next
    case False
    obtain p1 t where h: "send_head throws q rest p = (p1, t)" by (cases "send_head throws q rest p")
    have g: "grows p p1" using send_head_grows [of p throws q rest] h by simp
    let ?p2 = "if rest = [] then p1\<lparr>cp_lastQueuedCursor := Some (qf_cursor q)\<rparr> else p1"
    have g2: "grows p ?p2" by (rule grows_cong [OF g]) simp
    show ?thesis
    proof (cases "t \<or> yields (b + int (length (qf_bytes q))) (n + 1)")
      case True
      then show ?thesis using False h g g2 by (cases t) (auto simp: Let_def)
    next
      case go: False
      then have "\<not> t" by simp
      with "2.IH" [OF False h [symmetric] _ refl] go
      have "grows ?p2 (fst (pump_loop throws (b + int (length (qf_bytes q))) (n + 1) rest ?p2))" by simp
      from grows_trans [OF g2 this] show ?thesis using False h go by simp
    qed
  qed
qed

lemma flush_loop_grows: "grows p (fst (flush_through_loop throws c b n q p))"
proof (induction throws c b n q p rule: flush_through_loop.induct)
  case (1 throws c b n p)
  show ?case by (simp add: grows_same)
next
  case (2 throws c b n q rest p)
  show ?case
  proof (cases "cp_stopped p \<or> jc_lastEventSeq c < jc_lastEventSeq (qf_cursor q)")
    case True
    then show ?thesis by (auto intro: grows_same)
  next
    case False
    obtain p1 t where h: "send_head throws q rest p = (p1, t)" by (cases "send_head throws q rest p")
    have g: "grows p p1" using send_head_grows [of p throws q rest] h by simp
    show ?thesis
    proof (cases "t \<or> yields (b + int (length (qf_bytes q))) (n + 1)")
      case True
      then show ?thesis using False h g by (cases t) auto
    next
      case go: False
      then have "\<not> t" by simp
      with "2.IH" [OF False h [symmetric]] go
      have "grows p1 (fst (flush_through_loop throws c (b + int (length (qf_bytes q))) (n + 1) rest p1))" by simp
      from grows_trans [OF g this] show ?thesis using False h go by simp
    qed
  qed
qed

lemma run_pump_grows: "grows p (run_pump throws p)"
  using pump_loop_grows [of p throws 0 0 "cp_queue p"]
  by (auto simp: run_pump_def grows_def split: prod.split)

lemma schedulePump_grows: "grows p (schedulePump throws p)"
  using run_pump_grows by (simp add: schedulePump_def grows_same)

lemma dispose_publisher_grows: "grows p (dispose_publisher p)"
  by (simp add: dispose_publisher_def grows_same)

lemma fail_publisher_grows: "grows p (fail_publisher r p)"
  using dispose_publisher_grows by (simp add: fail_publisher_def grows_same grows_effect)

lemma pump_settled_grows: "grows p (pump_settled throws p)"
proof -
  have "grows p (schedulePump throws (p\<lparr>cp_pumpPromise := NoPump\<rparr>))"
    "grows p (fail_publisher r (p\<lparr>cp_pumpPromise := NoPump\<rparr>))" for r
    by (rule grows_trans [OF _ schedulePump_grows] grows_trans [OF _ fail_publisher_grows]; simp add: grows_same)+
  then show ?thesis by (simp add: pump_settled_def grows_same split: PumpPromise.split)
qed

lemma flush_run_grows: "grows p (fst (flush_run throws c p))"
proof -
  obtain p1 r where l: "flush_through_loop throws c 0 0 (cp_queue p) p = (p1, r)"
    by (cases "flush_through_loop throws c 0 0 (cp_queue p) p")
  have "grows p p1" using flush_loop_grows [of p throws c 0 0 "cp_queue p"] l by simp
  then show ?thesis
    by (auto simp: flush_run_def l Let_def grows_def split: option.split bool.split)
qed

lemma resume_grows: "grows p (resume_publisher throws p)"
  using grows_trans [OF grows_same schedulePump_grows, of "p\<lparr>cp_paused := False\<rparr>" p throws]
  by (simp add: resume_publisher_def grows_same)

lemma activate_grows: "grows p (fst (activate_publisher throws c p))"
  using grows_trans [OF grows_same schedulePump_grows, of "p\<lparr>cp_ready := True\<rparr>" p throws]
  by (auto simp: activate_publisher_def grows_same split: option.split)

lemma prepare_grows: "grows p (fst (prepare c a p))"
  by (simp add: prepare_def Let_def grows_same)

lemma push_canonical_grows: "grows p (fst (push_canonical bs ok p))"
  using fail_publisher_grows
  by (auto simp: push_canonical_def Let_def grows_same grows_effect split: sum.split)

section \<open>A held publisher is silent\<close>

definition held :: "canonical_publisher \<Rightarrow> bool" where
  "held p \<longleftrightarrow> cp_stopped p \<or> cp_paused p \<and> cp_pumpPromise p = NoPump"

definition silent :: "PublisherEffect list \<Rightarrow> bool" where
  "silent es \<longleftrightarrow> concat (map sent_of es) = [] \<and> \<not> list_ex is_threw es"

lemma silent_simps [simp]: "silent []" "silent (es @ fs) \<longleftrightarrow> silent es \<and> silent fs"
  "silent [Ingress]" "silent [RecoveryPressure]" "silent [Failure r]"
  by (auto simp: silent_def)

text \<open>
  A step of the publisher that is neither a resume nor a flush: its invariant holds, the record grows, it stays stopped if it
  was, and it stays held and adds nothing that is sent if it was held.
\<close>

definition pub_step :: "canonical_publisher \<Rightarrow> canonical_publisher \<Rightarrow> bool" where
  "pub_step p p' \<longleftrightarrow> publisher_inv p' \<and> (cp_stopped p \<longrightarrow> cp_stopped p') \<and> (held p \<longrightarrow> held p') \<and>
     (cp_paused p \<longrightarrow> cp_paused p') \<and> (\<exists>es. cp_effects p' = cp_effects p @ es \<and> (held p \<longrightarrow> silent es))"

lemma pub_step_inv: "pub_step p p' \<Longrightarrow> publisher_inv p'"
  by (simp add: pub_step_def)

lemma pub_step_refl: "publisher_inv p \<Longrightarrow> pub_step p p"
  by (auto simp: pub_step_def)

lemma pub_step_trans:
  assumes "pub_step p q" "pub_step q r"
  shows "pub_step p r"
proof -
  obtain es where es: "cp_effects q = cp_effects p @ es" "held p \<longrightarrow> silent es" using assms(1) by (auto simp: pub_step_def)
  obtain fs where fs: "cp_effects r = cp_effects q @ fs" "held q \<longrightarrow> silent fs" using assms(2) by (auto simp: pub_step_def)
  have "held p \<longrightarrow> silent (es @ fs)" using assms(1) es fs by (auto simp: pub_step_def)
  with assms es fs show ?thesis unfolding pub_step_def by (metis append.assoc)
qed

lemma pub_stepI:
  assumes "publisher_inv p'" "cp_stopped p \<longrightarrow> cp_stopped p'" "cp_paused p \<longrightarrow> cp_paused p'" "grows p p'"
    and "held p \<Longrightarrow> held p' \<and> (\<exists>es. cp_effects p' = cp_effects p @ es \<and> silent es)"
  shows "pub_step p p'"
  using assms by (auto simp: pub_step_def grows_def)

lemma schedulePump_held: "held p \<Longrightarrow> schedulePump throws p = p"
  by (auto simp: schedulePump_def held_def)

lemma run_pump_stopped:
  assumes "publisher_inv p"
  shows "cp_stopped (run_pump throws p) = cp_stopped p" "cp_paused (run_pump throws p) = cp_paused p"
proof -
  obtain p1 r where l: "pump_loop throws 0 0 (cp_queue p) p = (p1, r)" by (cases "pump_loop throws 0 0 (cp_queue p) p")
  from pump_loop_inv [OF assms refl l]
  show "cp_stopped (run_pump throws p) = cp_stopped p" "cp_paused (run_pump throws p) = cp_paused p"
    by (simp_all add: run_pump_def l same_gates_def)
qed

lemma schedulePump_stopped:
  assumes "publisher_inv p"
  shows "cp_stopped (schedulePump throws p) = cp_stopped p" "cp_paused (schedulePump throws p) = cp_paused p"
  using run_pump_stopped [OF assms] by (simp_all add: schedulePump_def)

lemma schedulePump_step:
  assumes "publisher_inv p"
  shows "pub_step p (schedulePump throws p)"
  using assms schedulePump_inv(1) [OF assms] schedulePump_held schedulePump_grows schedulePump_stopped
  by (intro pub_stepI) auto

lemma run_pump_step:
  assumes inv: "publisher_inv p" and y: "cp_pumpPromise p = PumpYielding"
  shows "pub_step p (run_pump throws p)"
proof (rule pub_stepI)
  show "publisher_inv (run_pump throws p)" by (rule run_pump_inv(1) [OF inv])
  show "grows p (run_pump throws p)" by (rule run_pump_grows)
  show "cp_stopped p \<longrightarrow> cp_stopped (run_pump throws p)" "cp_paused p \<longrightarrow> cp_paused (run_pump throws p)"
    using run_pump_stopped [OF inv] by simp_all
  assume "held p"
  then have "cp_stopped p" "cp_queue p = []" using y inv by (auto simp: held_def publisher_inv_def)
  then show "held (run_pump throws p) \<and> (\<exists>es. cp_effects (run_pump throws p) = cp_effects p @ es \<and> silent es)"
    by (simp add: run_pump_def held_def)
qed

lemma fail_publisher_step: "publisher_inv p \<Longrightarrow> pub_step p (fail_publisher r p)"
proof (rule pub_stepI)
  assume inv: "publisher_inv p"
  show "publisher_inv (fail_publisher r p)" "cp_stopped p \<longrightarrow> cp_stopped (fail_publisher r p)"
    "cp_paused p \<longrightarrow> cp_paused (fail_publisher r p)"
    using fail_publisher_inv [OF inv] by (simp_all add: fail_publisher_def dispose_publisher_def)
  show "held (fail_publisher r p) \<and> (\<exists>es. cp_effects (fail_publisher r p) = cp_effects p @ es \<and> silent es)"
    using fail_publisher_inv(2) [OF inv, of r]
    by (auto simp: held_def fail_publisher_def publish_effect_def dispose_publisher_def silent_def)
qed (rule fail_publisher_grows)

lemma dispose_publisher_step: "publisher_inv p \<Longrightarrow> pub_step p (dispose_publisher p)"
  using dispose_publisher_inv [of p] dispose_publisher_grows [of p]
  by (intro pub_stepI) (auto simp: held_def dispose_publisher_def)

lemma cong_step: "publisher_inv p \<Longrightarrow> pub_step p (p\<lparr>cp_pumpPromise := NoPump\<rparr>)"
  "publisher_inv p \<Longrightarrow> pub_step p (p\<lparr>cp_ready := r\<rparr>)" "publisher_inv p \<Longrightarrow> pub_step p (p\<lparr>cp_paused := True\<rparr>)"
  by (intro pub_stepI; auto simp: held_def grows_same)+

lemma pump_settled_step:
  assumes inv: "publisher_inv p"
  shows "pub_step p (pump_settled throws p)"
proof -
  note c = cong_step(1) [OF inv]
  show ?thesis
    using pub_step_trans [OF c schedulePump_step [OF pub_step_inv [OF c]]]
      pub_step_trans [OF c fail_publisher_step [OF pub_step_inv [OF c]]] pub_step_refl [OF inv]
    by (simp add: pump_settled_def split: PumpPromise.split)
qed

lemma pump_settled_stopped:
  assumes "publisher_inv p" and "cp_pumpPromise p = PumpResolved"
  shows "cp_stopped (pump_settled throws p) = cp_stopped p"
  using assms schedulePump_stopped [of "p\<lparr>cp_pumpPromise := NoPump\<rparr>" throws] by (simp add: pump_settled_def)

lemma activate_step:
  assumes inv: "publisher_inv p"
  shows "pub_step p (fst (activate_publisher throws c p))"
    and "cp_stopped (fst (activate_publisher throws c p)) = cp_stopped p"
proof -
  note r = cong_step(2) [OF inv, of True]
  show "pub_step p (fst (activate_publisher throws c p))"
    using pub_step_trans [OF r schedulePump_step [OF pub_step_inv [OF r]]] pub_step_refl [OF inv]
    by (simp add: activate_publisher_def split: option.split)
  show "cp_stopped (fst (activate_publisher throws c p)) = cp_stopped p"
    using schedulePump_stopped [OF pub_step_inv [OF r], of throws] by (simp add: activate_publisher_def split: option.split)
qed

lemma prepare_step:
  assumes "publisher_inv p"
  shows "pub_step p (fst (prepare c a p))" and "cp_stopped (fst (prepare c a p)) = cp_stopped p"
  using prepare_inv [OF assms, of c a] by (auto intro!: pub_stepI simp: prepare_def Let_def held_def grows_same)

lemma push_canonical_step:
  assumes inv: "publisher_inv p" and sub: "cp_subscribed p"
  shows "pub_step p (fst (push_canonical bs ok p))"
proof (cases "snd (push_canonical bs ok p)")
  case None
  show ?thesis
    using None pub_step_refl [OF inv] fail_publisher_step [OF inv]
    by (auto simp: push_canonical_def Let_def split: sum.splits if_splits)
next
  case (Some b)
  show ?thesis
  proof (rule pub_stepI)
    show "publisher_inv (fst (push_canonical bs ok p))" by (rule push_canonical_inv(1) [OF inv sub])
    show "grows p (fst (push_canonical bs ok p))" by (rule push_canonical_grows)
    show "cp_stopped p \<longrightarrow> cp_stopped (fst (push_canonical bs ok p))" by (simp add: push_canonical_def)
    show "cp_paused p \<longrightarrow> cp_paused (fst (push_canonical bs ok p))"
      using Some by (auto simp: push_canonical_def Let_def split: sum.splits if_splits)
    show "held (fst (push_canonical bs ok p)) \<and> (\<exists>es. cp_effects (fst (push_canonical bs ok p)) = cp_effects p @ es \<and> silent es)"
      if "held p"
      using Some that
      by (auto simp: push_canonical_def Let_def held_def publish_effect_def silent_def split: sum.splits if_splits)
  qed
qed

lemma push_canonical_stopped: "snd (push_canonical bs ok p) = Some b \<Longrightarrow> \<not> cp_stopped p \<and> \<not> cp_stopped (fst (push_canonical bs ok p))"
  by (auto simp: push_canonical_def Let_def split: sum.splits if_splits)

lemma pressure_step: "publisher_inv p \<Longrightarrow> pub_step p (publish_effect RecoveryPressure p)"
  using publish_effect_inv [of p RecoveryPressure]
  by (intro pub_stepI) (auto simp: held_def grows_def publish_effect_def)

section \<open>Resuming and flushing\<close>

lemma resume_inv:
  assumes "publisher_inv p"
  shows "publisher_inv (resume_publisher throws p)" "cp_stopped (resume_publisher throws p) = cp_stopped p"
  using assms schedulePump_inv(1) [of "p\<lparr>cp_paused := False\<rparr>" throws] schedulePump_stopped [of "p\<lparr>cp_paused := False\<rparr>" throws]
  by (simp_all add: resume_publisher_def)

lemma resume_stopped: "cp_stopped p \<Longrightarrow> resume_publisher throws p = p"
  by (simp add: resume_publisher_def)

lemma flush_run_gates:
  assumes "publisher_inv p"
  shows "cp_stopped (fst (flush_run throws c p)) = cp_stopped p" "cp_paused (fst (flush_run throws c p)) = cp_paused p"
    "cp_pumpPromise (fst (flush_run throws c p)) = cp_pumpPromise p" "held (fst (flush_run throws c p)) = held p"
proof -
  obtain p1 r where l: "flush_through_loop throws c 0 0 (cp_queue p) p = (p1, r)"
    by (cases "flush_through_loop throws c 0 0 (cp_queue p) p")
  from flush_through_loop_inv [OF assms refl l]
  have g: "cp_stopped p1 = cp_stopped p" "cp_paused p1 = cp_paused p" "cp_pumpPromise p1 = cp_pumpPromise p"
    by (simp_all add: same_gates_def)
  then show "cp_stopped (fst (flush_run throws c p)) = cp_stopped p" "cp_paused (fst (flush_run throws c p)) = cp_paused p"
    "cp_pumpPromise (fst (flush_run throws c p)) = cp_pumpPromise p" "held (fst (flush_run throws c p)) = held p"
    by (auto simp: flush_run_def l Let_def held_def split: option.split bool.split)
qed

text \<open>A stopped publisher sends nothing in a flush either: its queue is empty.\<close>

lemma flush_run_quiet:
  assumes "publisher_inv p" "cp_stopped p"
  shows "cp_effects (fst (flush_run throws c p)) = cp_effects p"
proof -
  have "cp_queue p = []" using assms by (simp add: publisher_inv_def)
  then show ?thesis by (auto simp: flush_run_def Let_def split: option.split)
qed

text \<open>The frames sent so far end at the commit, unless a send threw.\<close>

definition sent_up_to :: "PublisherEffect list \<Rightarrow> ReplayCursor \<Rightarrow> bool" where
  "sent_up_to es c \<longleftrightarrow> (\<not> list_ex is_threw es \<longrightarrow> (\<exists>b. canonical_run b (concat (map sent_of es)) = Some c))"

lemma sent_up_to_silent: "sent_up_to es c \<Longrightarrow> silent fs \<Longrightarrow> sent_up_to (es @ fs) c"
  by (simp add: sent_up_to_def silent_def del: concat_eq_Nil_conv)

lemma flush_run_sent:
  assumes inv: "publisher_inv p" and go: "\<not> cp_stopped p" and r: "snd (flush_run throws c p) = Some (Inr u)"
  shows "sent_up_to (cp_effects (fst (flush_run throws c p))) c"
proof -
  let ?q = "fst (flush_run throws c p)"
  obtain d where d: "cp_lastSentCursor ?q = Some d" "sameReplayCursor d c" using flush_run_inv(3) [OF inv, of throws c] r by auto
  have dc: "d = c" using d(2) by (cases d; cases c) (simp add: sameReplayCursor_def)
  have "publisher_inv ?q" by (rule flush_run_inv(1) [OF inv])
  moreover have "\<not> cp_stopped ?q" using go flush_run_gates(1) [OF inv] by simp
  ultimately show ?thesis
    using d dc by (auto simp: sent_up_to_def publisher_inv_def unbroken_def sent_frames_def send_threw_def)
qed

end
