(* ===== verification/Delivery_Core.thy ===== *)
theory Delivery_Core
  imports Delivery_Publisher
begin

text \<open>
  The invariant of the delivery scheduler: what is on the data socket, in the order it went there, and what the one recovery
  has established at each point where it waits.
\<close>

section \<open>The log\<close>

fun publisher_part :: "HostEffect \<Rightarrow> PublisherEffect list" where
  "publisher_part (FromPublisher e) = [e]"
| "publisher_part _ = []"

fun barrier_part :: "HostEffect \<Rightarrow> BarrierEffect list" where
  "barrier_part (FromBarrier e) = [e]"
| "barrier_part _ = []"

definition publisher_log :: "HostEffect list \<Rightarrow> PublisherEffect list" where
  "publisher_log es = concat (map publisher_part es)"

definition barrier_log :: "HostEffect list \<Rightarrow> BarrierEffect list" where
  "barrier_log es = concat (map barrier_part es)"

text \<open>The frames handed to the data socket; of an uncertain one nobody knows whether it went out.\<close>

datatype WireItem = WireCanonical bytes | WireMarker bytes | WireDirected bytes | WireCommit bytes | WireUncertain bytes

fun wire_item :: "HostEffect \<Rightarrow> WireItem list" where
  "wire_item (FromPublisher (SendData bs)) = [WireCanonical bs]"
| "wire_item (FromPublisher (SendThrew bs)) = [WireUncertain bs]"
| "wire_item (FromBarrier (MarkerHanded i bs)) = [WireMarker bs]"
| "wire_item (DirectedSent bs) = [WireDirected bs]"
| "wire_item (CommitSent bs) = [WireCommit bs]"
| "wire_item (OwnSendThrew bs) = [WireUncertain bs]"
| "wire_item _ = []"

definition wire :: "HostEffect list \<Rightarrow> WireItem list" where
  "wire es = concat (map wire_item es)"

lemma log_simps [simp]:
  "publisher_log [] = []" "publisher_log (e # es) = publisher_part e @ publisher_log es"
  "publisher_log (es @ fs) = publisher_log es @ publisher_log fs"
  "barrier_log [] = []" "barrier_log (e # es) = barrier_part e @ barrier_log es"
  "barrier_log (es @ fs) = barrier_log es @ barrier_log fs"
  "wire [] = []" "wire (e # es) = wire_item e @ wire es" "wire (es @ fs) = wire es @ wire fs"
  by (simp_all add: publisher_log_def barrier_log_def wire_def)

lemma log_maps [simp]:
  "publisher_log (map FromPublisher es) = es" "barrier_log (map FromPublisher es) = []"
  "publisher_log (map FromBarrier fs) = []" "barrier_log (map FromBarrier fs) = fs"
proof -
  show "publisher_log (map FromPublisher es) = es" "barrier_log (map FromPublisher es) = []" by (induction es) simp_all
  show "publisher_log (map FromBarrier fs) = []" "barrier_log (map FromBarrier fs) = fs" by (induction fs) simp_all
qed

lemma barrier_log_mem: "e \<in> set (barrier_log es) \<longleftrightarrow> FromBarrier e \<in> set es"
proof (induction es)
  case (Cons x es)
  then show ?case by (cases x) auto
qed simp

lemma wire_publisher: "silent es \<Longrightarrow> wire (map FromPublisher es) = []"
proof (induction es)
  case (Cons e es)
  then show ?case by (cases e) (simp_all add: silent_def)
qed simp

definition quiet_barrier :: "BarrierEffect list \<Rightarrow> bool" where
  "quiet_barrier es \<longleftrightarrow> (\<forall>i bs. MarkerHanded i bs \<notin> set es)"

lemma quiet_barrier_simps [simp]:
  "quiet_barrier []" "quiet_barrier [BarrierResolved i b r]" "quiet_barrier [BarrierRejected i e]"
  "quiet_barrier [MarkerSentCallback i]" "quiet_barrier (es @ fs) \<longleftrightarrow> quiet_barrier es \<and> quiet_barrier fs"
  by (auto simp: quiet_barrier_def)

lemma wire_barrier: "quiet_barrier es \<Longrightarrow> wire (map FromBarrier es) = []"
proof (induction es)
  case (Cons e es)
  then show ?case by (cases e) (auto simp: quiet_barrier_def)
qed simp

lemma wire_barrier_cases: "wire (map FromBarrier [e]) = [] \<or> (\<exists>i bs. e = MarkerHanded i bs)"
  by (cases e) simp_all

section \<open>What a committed delivery looks like on the wire\<close>

definition rewrite_plan :: "RecoveryPlan \<Rightarrow> bytes list \<Rightarrow> ProtocolErrorCode + bytes list" where
  "rewrite_plan plan frames = mapR
     (\<lambda>f. rewriteDelivery f (bigint_of (bi_deliveryGeneration (pl_identity plan))) (bi_streamId (pl_identity plan))) frames"

text \<open>The cursor after a list of encoded frames.\<close>

fun replay_end :: "ReplayCursor \<Rightarrow> bytes list \<Rightarrow> ReplayCursor option" where
  "replay_end c [] = Some c"
| "replay_end c (b # bs) = (case decodeDataFrame b of Inl _ \<Rightarrow> None | Inr f \<Rightarrow> replay_end (cursorAfter f) bs)"

lemma replay_end_append: "replay_end c (bs @ [b]) =
  (case replay_end c bs of None \<Rightarrow> None | Some d \<Rightarrow> (case decodeDataFrame b of Inl _ \<Rightarrow> None | Inr f \<Rightarrow> Some (cursorAfter f)))"
  by (induction bs arbitrary: c) (auto split: sum.split option.split)

definition plan_ok :: "RecoveryPlan \<Rightarrow> bool" where
  "plan_ok plan \<longleftrightarrow> int (length (pl_replay plan)) \<le> WARM_REPLAY_MAX_FRAMES \<and>
     (\<exists>n. deliveryOutstandingBytes (credit_cursor (pl_base plan)) (credit_cursor (pl_commit plan)) = Some n \<and>
       n \<le> WARM_REPLAY_MAX_OUTSTANDING_BYTES) \<and>
     (\<exists>request mode. pl_identity plan = delivery_identity request mode (pl_commit plan))"

text \<open>
  The log since a marker: the marker is of the plan's barrier, before it the canonical frames sent end at the plan's commit,
  and after it nothing but directed frames went out.
\<close>

definition since_marker :: "HostEffect list \<Rightarrow> RecoveryPlan \<Rightarrow> nat \<Rightarrow> HostEffect list \<Rightarrow> bytes list \<Rightarrow> bool" where
  "since_marker log plan i mid ds \<longleftrightarrow> (\<exists>before m ep. log = before @ FromBarrier (MarkerHanded i m) # mid \<and>
     encode_marker ep (pl_identity plan) = Inr m \<and> sent_up_to (publisher_log before) (pl_commit plan) \<and>
     wire mid = map WireDirected ds)"

definition commit_shape :: "HostEffect list \<Rightarrow> bytes \<Rightarrow> bool" where
  "commit_shape log bs \<longleftrightarrow> (\<exists>plan i mid ds r. plan_ok plan \<and> since_marker log plan i mid ds \<and>
     FromBarrier (BarrierResolved i (pl_identity plan) r) \<in> set mid \<and> br_status r = barrier_ready \<and>
     rewrite_plan plan (pl_replay plan) = Inr ds \<and> replay_end (pl_base plan) (pl_replay plan) = Some (pl_commit plan) \<and>
     commit_frame plan = Inr bs)"

definition commits_ok :: "HostEffect list \<Rightarrow> bool" where
  "commits_ok log \<longleftrightarrow> (\<forall>xs bs ys. log = xs @ CommitSent bs # ys \<longrightarrow> commit_shape xs bs)"

lemma prefix_snoc:
  "es @ [e] = xs @ x # ys \<longleftrightarrow> (es = xs \<and> e = x \<and> ys = []) \<or> (\<exists>zs. ys = zs @ [e] \<and> es = xs @ x # zs)"
  by (cases ys rule: rev_cases) auto

lemma commits_ok_snoc: "commits_ok (es @ [e]) \<longleftrightarrow> commits_ok es \<and> (\<forall>bs. e = CommitSent bs \<longrightarrow> commit_shape es bs)"
  unfolding commits_ok_def prefix_snoc by blast

lemma commits_ok_append: "\<forall>bs. CommitSent bs \<notin> set fs \<Longrightarrow> commits_ok (es @ fs) \<longleftrightarrow> commits_ok es"
proof (induction fs rule: rev_induct)
  case (snoc f fs)
  then have "commits_ok ((es @ fs) @ [f]) = commits_ok es" by (subst commits_ok_snoc) auto
  then show ?case by simp
qed simp

lemma since_marker_append:
  "since_marker log plan i mid ds \<Longrightarrow> wire es = map WireDirected fs \<Longrightarrow> since_marker (log @ es) plan i (mid @ es) (ds @ fs)"
  unfolding since_marker_def by (metis append.assoc append_Cons map_append log_simps(9))

section \<open>The points\<close>

definition phase_in :: "RecoveryPhase set \<Rightarrow> host_scheduler \<Rightarrow> bool" where
  "phase_in P s \<longleftrightarrow> (\<exists>a. hs_activeRecovery s = Some a \<and> ar_phase a \<in> P)"

text \<open>A delivery whose marker may be out and which is not concluded.\<close>

definition in_doubt :: "host_scheduler \<Rightarrow> bool" where
  "in_doubt s \<longleftrightarrow> phase_in {marker_uncertain, pinned} s"

text \<open>While the verdict is waited for: the barrier is pending, or settled, and without a rejection the publisher is held.\<close>

definition verdict_ok :: "host_scheduler \<Rightarrow> RecoveryPlan \<Rightarrow> nat \<Rightarrow> bool" where
  "verdict_ok s plan i \<longleftrightarrow>
     phase_in {pre_marker, marker_uncertain} s \<and> Suc i = bw_nextId (hs_barriers s) \<and>
     ((\<exists>e. BarrierRejected i e \<in> set (bw_effects (hs_barriers s))) \<or>
      held (hs_publisher s) \<and>
      (\<exists>mid. since_marker (hs_log s) plan i mid [] \<and>
        ((\<exists>p. bw_pending (hs_barriers s) = Some p \<and> pb_id p = i \<and> pb_expected p = pl_identity plan \<and>
            (pb_markerSent p \<longrightarrow> phase_in {marker_uncertain} s) \<and> \<not> is_aborted s) \<or>
         (\<exists>r. FromBarrier (BarrierResolved i (pl_identity plan) r) \<in> set mid \<and> phase_in {marker_uncertain} s))))"

definition replaying :: "host_scheduler \<Rightarrow> RecoveryPlan \<Rightarrow> DeliveryBarrierResult \<Rightarrow> bytes list \<Rightarrow> ReplayCursor \<Rightarrow> bool" where
  "replaying s plan r rest cursor \<longleftrightarrow> phase_in {pinned} s \<and> held (hs_publisher s) \<and> plan_ok plan \<and>
     (\<exists>i mid ds sent. pl_replay plan = sent @ rest \<and> rewrite_plan plan sent = Inr ds \<and> replay_end (pl_base plan) sent = Some cursor \<and>
       Suc i = bw_nextId (hs_barriers s) \<and> since_marker (hs_log s) plan i mid ds \<and>
       FromBarrier (BarrierResolved i (pl_identity plan) r) \<in> set mid \<and> br_status r = barrier_ready)"

fun point_ok :: "host_scheduler \<Rightarrow> RecoveryPoint \<Rightarrow> bool" where
  "point_ok s NoDrain \<longleftrightarrow> in_doubt s \<longrightarrow> hs_failed s"
| "point_ok s (AwaitPause preparation released) \<longleftrightarrow> phase_in {pre_marker} s \<and>
     (\<not> is_aborted s \<longrightarrow> (case released of
        None \<Rightarrow> cp_paused (hs_publisher s) | Some ok \<Rightarrow> ok \<longrightarrow> held (hs_publisher s)))"
| "point_ok s (AwaitFlush plan) \<longleftrightarrow> phase_in {pre_marker} s \<and> plan_ok plan \<and> (\<not> is_aborted s \<longrightarrow> held (hs_publisher s))"
| "point_ok s (FlushSettled plan r) \<longleftrightarrow> phase_in {pre_marker} s \<and> plan_ok plan \<and>
     (\<not> is_aborted s \<longrightarrow> held (hs_publisher s) \<and> (\<forall>u. r = Inr u \<longrightarrow> sent_up_to (publisher_log (hs_log s)) (pl_commit plan)))"
| "point_ok s (AwaitVerdict plan i) \<longleftrightarrow> plan_ok plan \<and> verdict_ok s plan i"
| "point_ok s (AwaitReplay plan r rest cursor) \<longleftrightarrow> replaying s plan r rest cursor"
| "point_ok s (ReplaySettled plan r outcome) \<longleftrightarrow> phase_in {pinned} s \<and>
     (\<forall>u. outcome = Inr u \<longrightarrow> replaying s plan r [] (pl_commit plan))"
| "point_ok s (DeliverySettled preparation outcome) \<longleftrightarrow> hs_activeRecovery s \<noteq> None \<and> (\<forall>r. outcome = Inr r \<longrightarrow> \<not> in_doubt s)"
| "point_ok s RecoverSettled \<longleftrightarrow> in_doubt s \<longrightarrow> hs_failed s"
| "point_ok s (DrainSettled ok) \<longleftrightarrow> in_doubt s \<longrightarrow> hs_failed s"

section \<open>The invariant\<close>

text \<open>A delivery is concluded when its verdict was not \<open>ready\<close>, or when its commit went out after the verdict.\<close>

definition concluded :: "HostEffect list \<Rightarrow> nat \<Rightarrow> bool" where
  "concluded log i \<longleftrightarrow> (\<exists>xs b r ys. log = xs @ FromBarrier (BarrierResolved i b r) # ys \<and>
     (br_status r \<noteq> barrier_ready \<or> (\<exists>bs. CommitSent bs \<in> set ys)))"

definition markers_ok :: "host_scheduler \<Rightarrow> bool" where
  "markers_ok s \<longleftrightarrow> (\<forall>i. FromBarrier (MarkerSentCallback i) \<in> set (hs_log s) \<longrightarrow>
     hs_failed s \<or> concluded (hs_log s) i \<or> (Suc i = bw_nextId (hs_barriers s) \<and> in_doubt s))"

text \<open>After the pair is closed nothing is sent.\<close>

definition closed_silent :: "host_scheduler \<Rightarrow> bool" where
  "closed_silent s \<longleftrightarrow> (\<forall>xs ys. hs_log s = xs @ PairClosed # ys \<longrightarrow> hs_failed s \<and> wire ys = [])"

definition base_inv :: "host_scheduler \<Rightarrow> bool" where
  "base_inv s \<longleftrightarrow> publisher_log (hs_log s) = cp_effects (hs_publisher s) \<and> barrier_log (hs_log s) = bw_effects (hs_barriers s) \<and>
     publisher_inv (hs_publisher s) \<and> waiter_inv (hs_barriers s) \<and> (hs_failed s \<longrightarrow> cp_stopped (hs_publisher s)) \<and>
     (bw_disposedReason (hs_barriers s) \<noteq> None) = hs_failed s \<and>
     (hs_failed s \<longrightarrow> (\<forall>a. hs_activeRecovery s = Some a \<longrightarrow> ar_aborted a)) \<and>
     (\<forall>p. bw_pending (hs_barriers s) = Some p \<longrightarrow> Suc (pb_id p) = bw_nextId (hs_barriers s)) \<and>
     commits_ok (hs_log s) \<and> markers_ok s \<and> closed_silent s"

text \<open>Between a publisher that stops itself and its \<open>onFailure\<close>, and only there, the publisher is stopped and the scheduler is not.\<close>

definition publisher_linked :: "host_scheduler \<Rightarrow> bool" where
  "publisher_linked s \<longleftrightarrow> (cp_stopped (hs_publisher s) \<longrightarrow> hs_failed s)"

definition no_barrier :: "host_scheduler \<Rightarrow> bool" where
  "no_barrier s \<longleftrightarrow> bw_pending (hs_barriers s) = None"

definition drain_inv :: "host_scheduler \<Rightarrow> bool" where
  "drain_inv s \<longleftrightarrow> point_ok s (hs_drain s) \<and> (\<forall>p. bw_pending (hs_barriers s) = Some p \<longrightarrow> (\<exists>plan. hs_drain s = AwaitVerdict plan (pb_id p)))"

definition host_inv :: "host_scheduler \<Rightarrow> bool" where
  "host_inv s \<longleftrightarrow> base_inv s \<and> drain_inv s"

text \<open>The part of the state these speak of, and the operations that do not touch it.\<close>

definition base_view ::
  "host_scheduler \<Rightarrow> canonical_publisher \<times> barrier_waiter \<times> ActiveRecovery option \<times> bool \<times> bool \<times> HostEffect list" where
  "base_view s = (hs_publisher s, hs_barriers s, hs_activeRecovery s, hs_failed s, hs_recoveriesRunning s, hs_log s)"

lemma base_view_eq: "base_view s' = base_view s \<longleftrightarrow> hs_publisher s' = hs_publisher s \<and> hs_barriers s' = hs_barriers s \<and>
  hs_activeRecovery s' = hs_activeRecovery s \<and> hs_failed s' = hs_failed s \<and>
  hs_recoveriesRunning s' = hs_recoveriesRunning s \<and> hs_log s' = hs_log s"
  by (simp add: base_view_def)

lemma base_inv_cong:
  assumes "base_view s' = base_view s"
  shows "base_inv s' = base_inv s"
proof -
  note v = assms [unfolded base_view_eq]
  show ?thesis
    unfolding base_inv_def markers_ok_def closed_silent_def in_doubt_def phase_in_def using v by simp
qed

lemma predicates_cong:
  assumes "base_view s' = base_view s"
  shows "phase_in P s' = phase_in P s" "in_doubt s' = in_doubt s" "is_aborted s' = is_aborted s"
    "verdict_ok s' plan i = verdict_ok s plan i" "replaying s' plan r rest c = replaying s plan r rest c"
    "no_barrier s' = no_barrier s" "publisher_linked s' = publisher_linked s"
  using assms [unfolded base_view_eq]
  by (simp_all add: publisher_linked_def phase_in_def in_doubt_def is_aborted_def verdict_ok_def replaying_def no_barrier_def)

lemma point_ok_cong:
  assumes "base_view s' = base_view s"
  shows "point_ok s' pt = point_ok s pt"
proof -
  note c = predicates_cong [OF assms] and v = assms [unfolded base_view_eq]
  show ?thesis by (cases pt) (simp_all add: c v split: option.split)
qed

lemma host_inv_cong:
  assumes "base_view s' = base_view s" "hs_drain s' = hs_drain s"
  shows "host_inv s' = host_inv s"
  unfolding host_inv_def drain_inv_def base_inv_cong [OF assms(1)] point_ok_cong [OF assms(1)] assms(2)
  using assms(1) [unfolded base_view_eq] by simp

text \<open>A state is in order at a point when its base is, no barrier is pending unless the point waits for it, and the point is.\<close>

lemma wait_at_fields [simp]: "base_view (wait_at pt s) = base_view s" "hs_drain (wait_at pt s) = pt"
  by (simp_all add: wait_at_def base_view_def)

lemma wait_at_inv:
  assumes "base_inv s" "no_barrier s" "point_ok s pt"
  shows "host_inv (wait_at pt s)"
proof -
  have v: "base_view (wait_at pt s) = base_view s" by simp
  have "hs_barriers (wait_at pt s) = hs_barriers s" by (simp add: wait_at_def)
  with v show ?thesis
    using assms by (simp add: host_inv_def drain_inv_def base_inv_cong [OF v] point_ok_cong [OF v] no_barrier_def base_view_eq)
qed

section \<open>Operations outside the view\<close>

lemma on_queue_view [simp]: "base_view (on_queue f s) = base_view s" "hs_drain (on_queue f s) = hs_drain s"
  by (simp_all add: on_queue_def base_view_def)

lemma update_preparation_view [simp]:
  "base_view (update_preparation i f s) = base_view s" "hs_drain (update_preparation i f s) = hs_drain s"
  by (simp_all add: update_preparation_def base_view_def)

lemma abort_preparation_view [simp]:
  "base_view (abort_preparation i s) = base_view s" "hs_drain (abort_preparation i s) = hs_drain s"
  by (simp_all add: abort_preparation_def)

lemma discard_key_view [simp]: "base_view (discard_key k s) = base_view s" "hs_drain (discard_key k s) = hs_drain s"
proof -
  let ?s1 = "case jm_get (hs_coldPreparations s) k of None \<Rightarrow> s | Some i \<Rightarrow> abort_preparation i s"
  have "base_view ?s1 = base_view s" "hs_drain ?s1 = hs_drain s" by (auto split: option.split)
  then show "base_view (discard_key k s) = base_view s" "hs_drain (discard_key k s) = hs_drain s"
    by (simp_all add: discard_key_def Let_def base_view_def)
qed

lemma abortColdPreparations_view [simp]:
  "base_view (abortColdPreparations ks s) = base_view s" "hs_drain (abortColdPreparations ks s) = hs_drain s"
  unfolding abortColdPreparations_def by (induction ks arbitrary: s) simp_all

lemma discardCold_view [simp]:
  "base_view (discardColdPreparation r s) = base_view s" "hs_drain (discardColdPreparation r s) = hs_drain s"
  by (simp_all add: discardColdPreparation_def)

lemma deferColdCaptures_view [simp]:
  "base_view (deferColdCaptures now d s) = base_view s" "hs_drain (deferColdCaptures now d s) = hs_drain s"
  by (simp_all add: deferColdCaptures_def Let_def base_view_def)

lemma invalidateCheckpoint_view [simp]:
  "base_view (invalidateCheckpoint now ck s) = base_view s" "hs_drain (invalidateCheckpoint now ck s) = hs_drain s"
  by (simp_all add: invalidateCheckpoint_def base_view_def deferColdCaptures_def Let_def)

lemma requeue_deferred_view [simp]:
  "base_view (requeue_deferred now r e s) = base_view s" "hs_drain (requeue_deferred now r e s) = hs_drain s"
  by (simp_all add: requeue_deferred_def Let_def base_view_def deferColdCaptures_def on_queue_def split: prod.split)

lemma new_preparation_view [simp]:
  "base_view (new_preparation p s) = base_view s" "hs_drain (new_preparation p s) = hs_drain s"
  by (simp_all add: new_preparation_def base_view_def)

lemma startColdPreparation_view [simp]:
  "base_view (startColdPreparation env r s) = base_view s" "hs_drain (startColdPreparation env r s) = hs_drain s"
  by (simp_all add: startColdPreparation_def new_preparation_def on_queue_def base_view_def)

lemma fold_abort_view [simp]:
  "base_view (fold abort_preparation xs s) = base_view s" "hs_drain (fold abort_preparation xs s) = hs_drain s"
  by (induction xs arbitrary: s) simp_all

text \<open>Fields outside the view.\<close>

lemma base_view_update [simp]:
  "base_view (s\<lparr>hs_queue := a\<rparr>) = base_view s" "base_view (s\<lparr>hs_cache := b\<rparr>) = base_view s"
  "base_view (s\<lparr>hs_preparations := c\<rparr>) = base_view s" "base_view (s\<lparr>hs_coldPreparations := d\<rparr>) = base_view s"
  "base_view (s\<lparr>hs_coldBuildInFlight := e\<rparr>) = base_view s" "base_view (s\<lparr>hs_lastCanonicalAt := f\<rparr>) = base_view s"
  "base_view (s\<lparr>hs_ready := g\<rparr>) = base_view s"
  "base_view (s\<lparr>hs_recoveryTimer := i\<rparr>) = base_view s" "base_view (s\<lparr>hs_barrierTimer := j\<rparr>) = base_view s"
  "base_view (s\<lparr>hs_drain := k\<rparr>) = base_view s" "base_view (s\<lparr>hs_pass := l\<rparr>) = base_view s"
  "base_view (s\<lparr>hs_sends := m\<rparr>) = base_view s" "base_view (s\<lparr>hs_stackOverflow := n\<rparr>) = base_view s"
  "base_view (s\<lparr>hs_coldCaptureNotBefore := q\<rparr>) = base_view s" "base_view (s\<lparr>hs_coldCaptureQuietDeadline := r\<rparr>) = base_view s"
  by (simp_all add: base_view_def)

end
