(* ===== verification/Delivery_Steps.thy ===== *)
theory Delivery_Steps
  imports Delivery_Core
begin

text \<open>
  How the parts of the delivery scheduler move its invariant: a step of the publisher, of the barrier waiter, of the active
  recovery, and stopping.
\<close>

section \<open>Extending the log\<close>

lemma concluded_append: "concluded log i \<Longrightarrow> concluded (log @ es) i"
  unfolding concluded_def by (metis append.assoc append_Cons set_append UnI1)

lemma closed_append:
  assumes "\<And>xs ys. log = xs @ PairClosed # ys \<Longrightarrow> failed \<and> wire ys = []" and "PairClosed \<notin> set es" and "failed \<longrightarrow> wire es = []"
    and "log @ es = xs @ PairClosed # ys"
  shows "failed \<and> wire ys = []"
  using assms(4,2,3)
proof (induction es arbitrary: ys rule: rev_induct)
  case Nil
  then show ?case using assms(1) by simp
next
  case (snoc e es)
  from snoc.prems(1) have "(log @ es) @ [e] = xs @ PairClosed # ys" by simp
  then consider "e = PairClosed" | zs where "ys = zs @ [e]" "log @ es = xs @ PairClosed # zs" unfolding prefix_snoc by blast
  then show ?case
  proof cases
    case 1
    then show ?thesis using snoc.prems(2) by simp
  next
    case 2
    have c: "PairClosed \<notin> set es" "failed \<longrightarrow> wire es = []" using snoc.prems(2,3) by auto
    from snoc.IH [OF 2(2) c] have "failed \<and> wire zs = []" .
    then show ?thesis using 2(1) snoc.prems(3) by simp
  qed
qed

lemma since_marker_quiet: "since_marker log plan i mid ds \<Longrightarrow> wire es = [] \<Longrightarrow> since_marker (log @ es) plan i (mid @ es) ds"
  using since_marker_append [of log plan i mid ds es "[]"] by simp

lemma replaying_extend:
  assumes rep: "replaying s plan r rest c" and log: "hs_log s' = hs_log s @ es" "wire es = []"
    and h: "held (hs_publisher s')" "phase_in {pinned} s'" "bw_nextId (hs_barriers s') = bw_nextId (hs_barriers s)"
  shows "replaying s' plan r rest c"
proof -
  from rep obtain i mid ds sent where r: "pl_replay plan = sent @ rest" "rewrite_plan plan sent = Inr ds"
      "replay_end (pl_base plan) sent = Some c" "Suc i = bw_nextId (hs_barriers s)" "since_marker (hs_log s) plan i mid ds"
      "FromBarrier (BarrierResolved i (pl_identity plan) r) \<in> set mid" "br_status r = barrier_ready" "plan_ok plan"
    unfolding replaying_def by blast
  have "since_marker (hs_log s') plan i (mid @ es) ds" unfolding log(1) by (rule since_marker_quiet [OF r(5) log(2)])
  moreover have "FromBarrier (BarrierResolved i (pl_identity plan) r) \<in> set (mid @ es)" using r(6) by simp
  ultimately show ?thesis unfolding replaying_def using r h by metis
qed

text \<open>What the log, the active recovery and the failed flag must satisfy.\<close>

definition log_inv :: "HostEffect list \<Rightarrow> bool \<Rightarrow> nat \<Rightarrow> bool \<Rightarrow> bool" where
  "log_inv log failed nextId doubt \<longleftrightarrow> commits_ok log \<and>
     (\<forall>i. FromBarrier (MarkerSentCallback i) \<in> set log \<longrightarrow> failed \<or> concluded log i \<or> (Suc i = nextId \<and> doubt)) \<and>
     (\<forall>xs ys. log = xs @ PairClosed # ys \<longrightarrow> failed \<and> wire ys = [])"

lemma log_inv_append:
  assumes "log_inv log failed n doubt" and "PairClosed \<notin> set es" and "failed \<longrightarrow> wire es = []"
    and "\<forall>bs. CommitSent bs \<notin> set es"
    and "\<And>i. FromBarrier (MarkerSentCallback i) \<in> set es \<Longrightarrow> Suc i = n \<and> doubt"
  shows "log_inv (log @ es) failed n doubt"
proof -
  have "failed \<and> wire ys = []" if "log @ es = xs @ PairClosed # ys" for xs ys
    by (rule closed_append [OF _ assms(2,3) that]) (use assms(1) in \<open>simp add: log_inv_def\<close>)
  moreover have "commits_ok (log @ es)" using assms(1,4) by (simp add: log_inv_def commits_ok_append)
  moreover have "failed \<or> concluded (log @ es) i \<or> (Suc i = n \<and> doubt)"
    if "FromBarrier (MarkerSentCallback i) \<in> set (log @ es)" for i
    using that assms(1) assms(5) [of i] concluded_append [of log i es] by (auto simp: log_inv_def)
  ultimately show ?thesis unfolding log_inv_def by blast
qed

lemma base_inv_alt: "base_inv s \<longleftrightarrow> publisher_log (hs_log s) = cp_effects (hs_publisher s) \<and> barrier_log (hs_log s) = bw_effects (hs_barriers s) \<and>
     publisher_inv (hs_publisher s) \<and> waiter_inv (hs_barriers s) \<and> (hs_failed s \<longrightarrow> cp_stopped (hs_publisher s)) \<and>
     (bw_disposedReason (hs_barriers s) \<noteq> None) = hs_failed s \<and>
     (hs_failed s \<longrightarrow> (\<forall>a. hs_activeRecovery s = Some a \<longrightarrow> ar_aborted a)) \<and>
     (\<forall>p. bw_pending (hs_barriers s) = Some p \<longrightarrow> Suc (pb_id p) = bw_nextId (hs_barriers s)) \<and>
     log_inv (hs_log s) (hs_failed s) (bw_nextId (hs_barriers s)) (in_doubt s)"
  by (auto simp: base_inv_def log_inv_def markers_ok_def closed_silent_def)

lemma base_invD:
  assumes "base_inv s"
  shows "publisher_log (hs_log s) = cp_effects (hs_publisher s)" "barrier_log (hs_log s) = bw_effects (hs_barriers s)"
    "publisher_inv (hs_publisher s)" "waiter_inv (hs_barriers s)" "hs_failed s \<Longrightarrow> cp_stopped (hs_publisher s)"
    "(bw_disposedReason (hs_barriers s) \<noteq> None) = hs_failed s"
    "hs_failed s \<Longrightarrow> hs_activeRecovery s = Some a \<Longrightarrow> ar_aborted a"
    "bw_pending (hs_barriers s) = Some p \<Longrightarrow> Suc (pb_id p) = bw_nextId (hs_barriers s)"
    "log_inv (hs_log s) (hs_failed s) (bw_nextId (hs_barriers s)) (in_doubt s)"
  using assms by (simp_all add: base_inv_alt)

lemma failed_aborted: "base_inv s \<Longrightarrow> hs_failed s \<Longrightarrow> is_aborted s"
  by (auto simp: is_aborted_def dest: base_invD split: option.split)

lemma failed_held: "base_inv s \<Longrightarrow> hs_failed s \<Longrightarrow> held (hs_publisher s)"
  by (simp add: held_def base_invD(5))

section \<open>Steps of the publisher\<close>

lemma set_publisher_fields [simp]:
  "hs_publisher (set_publisher p s) = p" "hs_barriers (set_publisher p s) = hs_barriers s"
  "hs_activeRecovery (set_publisher p s) = hs_activeRecovery s" "hs_failed (set_publisher p s) = hs_failed s"
  "hs_recoveriesRunning (set_publisher p s) = hs_recoveriesRunning s"
  "hs_drain (set_publisher p s) = hs_drain s" "hs_queue (set_publisher p s) = hs_queue s"
  "phase_in P (set_publisher p s) = phase_in P s" "in_doubt (set_publisher p s) = in_doubt s"
  "is_aborted (set_publisher p s) = is_aborted s" "no_barrier (set_publisher p s) = no_barrier s"
  by (simp_all add: set_publisher_def phase_in_def in_doubt_def is_aborted_def no_barrier_def)

lemma set_publisher_log: "cp_effects p = cp_effects (hs_publisher s) @ es \<Longrightarrow> hs_log (set_publisher p s) = hs_log s @ map FromPublisher es"
  by (simp add: set_publisher_def)

lemma set_publisher_base:
  assumes inv: "base_inv s" and p: "publisher_inv p" "hs_failed s \<longrightarrow> cp_stopped p"
    and es: "cp_effects p = cp_effects (hs_publisher s) @ es" "hs_failed s \<longrightarrow> silent es"
  shows "base_inv (set_publisher p s)"
proof -
  note l = set_publisher_log [OF es(1)]
  have "log_inv (hs_log s @ map FromPublisher es) (hs_failed s) (bw_nextId (hs_barriers s)) (in_doubt s)"
    by (rule log_inv_append [OF base_invD(9) [OF inv]]) (use es(2) wire_publisher in auto)
  then show ?thesis using base_invD(1-8) [OF inv] p es(1) by (simp add: base_inv_alt l)
qed

lemma pub_step_base:
  assumes inv: "base_inv s" and st: "pub_step (hs_publisher s) p"
  shows "base_inv (set_publisher p s)"
proof -
  obtain es where es: "cp_effects p = cp_effects (hs_publisher s) @ es" "held (hs_publisher s) \<longrightarrow> silent es"
    and st': "cp_stopped (hs_publisher s) \<longrightarrow> cp_stopped p" using st by (auto simp: pub_step_def)
  show ?thesis
    by (rule set_publisher_base [OF inv pub_step_inv [OF st] _ es(1)]) (use es(2) st' failed_held [OF inv] base_invD(5) [OF inv] in blast)+
qed

lemma pub_step_point:
  assumes st: "pub_step (hs_publisher s) p" and pt: "point_ok s pt"
  shows "point_ok (set_publisher p s) pt"
proof -
  obtain es where es: "cp_effects p = cp_effects (hs_publisher s) @ es" "held (hs_publisher s) \<longrightarrow> silent es"
    and h: "held (hs_publisher s) \<longrightarrow> held p" and pa: "cp_paused (hs_publisher s) \<longrightarrow> cp_paused p"
    using st by (auto simp: pub_step_def)
  note l = set_publisher_log [OF es(1)]
  let ?es = "map FromPublisher es"
  have since: "since_marker (hs_log s @ ?es) plan i (mid @ ?es) ds"
    if "held (hs_publisher s)" "since_marker (hs_log s) plan i mid ds" for plan i mid ds
    using since_marker_append [OF that(2), of ?es "[]"] wire_publisher es(2) that(1) by simp
  have verdict: "verdict_ok s plan i \<Longrightarrow> verdict_ok (set_publisher p s) plan i" for plan i
    unfolding verdict_ok_def set_publisher_fields l using since h by (elim conjE disjE exE) (fastforce simp: l)+
  have rep: "replaying s plan r rest c \<Longrightarrow> replaying (set_publisher p s) plan r rest c" for plan r rest c
    by (rule replaying_extend [of s plan r rest c _ ?es])
      (use h es(2) wire_publisher in \<open>auto simp: l replaying_def\<close>)
  show ?thesis
    using pt h pa verdict rep es(2)
    by (cases pt) (auto simp: l sent_up_to_silent split: option.splits)
qed

lemma pub_step_inv_host:
  assumes "host_inv s" "pub_step (hs_publisher s) p"
  shows "host_inv (set_publisher p s)"
  using assms pub_step_base pub_step_point by (simp add: host_inv_def drain_inv_def)

section \<open>Steps of the waiter\<close>

lemma set_barriers_fields [simp]:
  "hs_publisher (set_barriers w s) = hs_publisher s" "hs_barriers (set_barriers w s) = w"
  "hs_activeRecovery (set_barriers w s) = hs_activeRecovery s" "hs_failed (set_barriers w s) = hs_failed s"
  "hs_recoveriesRunning (set_barriers w s) = hs_recoveriesRunning s"
  "hs_drain (set_barriers w s) = hs_drain s" "hs_queue (set_barriers w s) = hs_queue s"
  "phase_in P (set_barriers w s) = phase_in P s" "in_doubt (set_barriers w s) = in_doubt s"
  "is_aborted (set_barriers w s) = is_aborted s"
  by (simp_all add: set_barriers_def phase_in_def in_doubt_def is_aborted_def)

lemma set_barriers_log: "bw_effects w = bw_effects (hs_barriers s) @ es \<Longrightarrow> hs_log (set_barriers w s) = hs_log s @ map FromBarrier es"
  by (simp add: set_barriers_def)

lemma set_barriers_same: "hs_barriers s = w \<Longrightarrow> set_barriers w s = s"
  by (simp add: set_barriers_def)

lemma set_barriers_base:
  assumes inv: "base_inv s" and w: "waiter_inv w" "(bw_disposedReason w \<noteq> None) = hs_failed s"
    "bw_nextId w = bw_nextId (hs_barriers s)" "\<And>p. bw_pending w = Some p \<Longrightarrow> Suc (pb_id p) = bw_nextId w"
    and es: "bw_effects w = bw_effects (hs_barriers s) @ es" "quiet_barrier es"
      "\<And>i. MarkerSentCallback i \<in> set es \<Longrightarrow> Suc i = bw_nextId w \<and> in_doubt s"
  shows "base_inv (set_barriers w s)"
proof -
  note l = set_barriers_log [OF es(1)]
  have "log_inv (hs_log s @ map FromBarrier es) (hs_failed s) (bw_nextId (hs_barriers s)) (in_doubt s)"
    by (rule log_inv_append [OF base_invD(9) [OF inv]]) (use es(2,3) w(3) wire_barrier in auto)
  then show ?thesis using base_invD(1-7) [OF inv] w es(1) by (simp add: base_inv_alt l)
qed

text \<open>A step that leaves no barrier pending and settles the one that was, if any.\<close>

lemma set_barriers_idle_point:
  assumes es: "bw_effects w = bw_effects (hs_barriers s) @ es" "quiet_barrier es" and n: "bw_nextId w = bw_nextId (hs_barriers s)"
    and same: "\<And>p plan. pt = AwaitVerdict plan (pb_id p) \<Longrightarrow> bw_pending (hs_barriers s) = Some p \<Longrightarrow>
      \<exists>e. BarrierRejected (pb_id p) e \<in> set (bw_effects w)"
    and pt: "point_ok s pt"
  shows "point_ok (set_barriers w s) pt"
proof -
  note l = set_barriers_log [OF es(1)]
  let ?es = "map FromBarrier es"
  have since: "since_marker (hs_log s @ ?es) plan i (mid @ ?es) ds" if "since_marker (hs_log s) plan i mid ds" for plan i mid ds
    using since_marker_append [OF that, of ?es "[]"] wire_barrier [OF es(2)] by simp
  have verdict: "verdict_ok (set_barriers w s) plan i" if v: "verdict_ok s plan i" and at: "pt = AwaitVerdict plan i" for plan i
  proof (cases "(\<exists>e. BarrierRejected i e \<in> set (bw_effects w))")
    case True
    with v n show ?thesis by (simp add: verdict_ok_def)
  next
    case False
    then have "\<not> (\<exists>e. BarrierRejected i e \<in> set (bw_effects (hs_barriers s)))" using es(1) by simp
    with v obtain mid where m: "since_marker (hs_log s) plan i mid []" "held (hs_publisher s)"
      and p: "(\<exists>p. bw_pending (hs_barriers s) = Some p \<and> pb_id p = i) \<or>
        (\<exists>r. FromBarrier (BarrierResolved i (pl_identity plan) r) \<in> set mid \<and> phase_in {marker_uncertain} s)"
      by (auto simp: verdict_ok_def)
    from p have "\<exists>r. FromBarrier (BarrierResolved i (pl_identity plan) r) \<in> set mid \<and> phase_in {marker_uncertain} s"
      using same False at by blast
    with since [OF m(1)] m(2) v n show ?thesis by (auto simp: verdict_ok_def l)
  qed
  have rep: "replaying (set_barriers w s) plan r rest c" if "replaying s plan r rest c" for plan r rest c
    using that by (rule replaying_extend [of s plan r rest c _ ?es])
      (use that n wire_barrier [OF es(2)] in \<open>auto simp: l replaying_def\<close>)
  show ?thesis using pt verdict rep by (cases pt) (auto simp: l split: option.splits)
qed

lemma rejectPending_effects:
  "bw_effects (rejectPending i e w) = bw_effects w @ (if pending_is i w then [BarrierRejected i e] else [])"
  "bw_nextId (rejectPending i e w) = bw_nextId w" "bw_disposedReason (rejectPending i e w) = bw_disposedReason w"
  "bw_pending (rejectPending i e w) = (if pending_is i w then None else bw_pending w)"
  by (simp_all add: rejectPending_def)

lemma reject_inv_host:
  assumes inv: "host_inv s"
  shows "host_inv (set_barriers (rejectPending i e (hs_barriers s)) s)"
proof (cases "pending_is i (hs_barriers s)")
  case False
  then show ?thesis using inv by (simp add: rejectPending_def set_barriers_same)
next
  case True
  let ?w = "rejectPending i e (hs_barriers s)"
  have b: "base_inv s" and d: "drain_inv s" using inv by (simp_all add: host_inv_def)
  obtain p where p: "bw_pending (hs_barriers s) = Some p" "pb_id p = i"
    using True by (auto simp: pending_is_def split: option.splits)
  note es = rejectPending_effects(1) [of i e "hs_barriers s", unfolded if_P [OF True]]
  have "base_inv (set_barriers ?w s)"
    using True base_invD(6) [OF b]
    by (intro set_barriers_base [OF b reject_inv [OF base_invD(4) [OF b]] _ _ _ es]) (auto simp: rejectPending_effects)
  moreover have "point_ok (set_barriers ?w s) (hs_drain s)"
    using d p True by (intro set_barriers_idle_point [OF es]) (auto simp: rejectPending_effects drain_inv_def)
  ultimately show ?thesis using True by (simp add: host_inv_def drain_inv_def rejectPending_effects)
qed

lemma reject_pending_inv_host: "host_inv s \<Longrightarrow> host_inv (on_barriers reject_pending s)"
  using reject_inv_host by (simp add: on_barriers_def reject_pending_def set_barriers_same split: option.split)

lemma reject_pending_none: "no_barrier (on_barriers reject_pending s)"
  by (auto simp: on_barriers_def no_barrier_def reject_pending_def rejectPending_effects pending_is_def split: option.split)

text \<open>A verdict comes in.\<close>

lemma resolvePending_effects:
  assumes "bw_pending w = Some p"
  shows "bw_effects (resolvePending p r w) = bw_effects w @ [BarrierResolved (pb_id p) (pb_expected p) r]"
    "bw_nextId (resolvePending p r w) = bw_nextId w" "bw_disposedReason (resolvePending p r w) = bw_disposedReason w"
    "bw_pending (resolvePending p r w) = None"
  using assms by (simp_all add: resolvePending_def pending_is_def)

text \<open>The pending barrier of a verdict point that was not rejected.\<close>

lemma count_settled_le: "waiter_inv w \<Longrightarrow> bw_pending w = Some p \<Longrightarrow> pb_id p \<notin> set (settled_barriers w)"
proof -
  assume "waiter_inv w" and p: "bw_pending w = Some p"
  then have "count_list (pending_barriers w) (pb_id p) + count_list (settled_barriers w) (pb_id p) \<le> 1"
    by (simp add: waiter_inv_def)
  then have "count_list (settled_barriers w) (pb_id p) = 0" using p by (simp add: pending_barriers_def)
  then show ?thesis by (simp add: count_list_0_iff)
qed

lemma settled_mem: "i \<in> set (settled_barriers w) \<longleftrightarrow> (\<exists>e\<in>set (bw_effects w). i \<in> set (settles_id e))"
  by (simp add: settled_barriers_def)

lemma pending_at_verdict:
  assumes inv: "host_inv s" and p: "bw_pending (hs_barriers s) = Some p"
  obtains plan mid where "hs_drain s = AwaitVerdict plan (pb_id p)" "plan_ok plan" "held (hs_publisher s)"
    "since_marker (hs_log s) plan (pb_id p) mid []" "pb_expected p = pl_identity plan"
    "pb_markerSent p \<longrightarrow> phase_in {marker_uncertain} s" "\<not> is_aborted s" "phase_in {pre_marker, marker_uncertain} s"
    "Suc (pb_id p) = bw_nextId (hs_barriers s)"
proof -
  have b: "base_inv s" and d: "drain_inv s" using inv by (simp_all add: host_inv_def)
  from d p obtain plan where at: "hs_drain s = AwaitVerdict plan (pb_id p)" and v: "plan_ok plan" "verdict_ok s plan (pb_id p)"
    unfolding drain_inv_def by (metis point_ok.simps(5))
  have w: "waiter_inv (hs_barriers s)" by (rule base_invD(4) [OF b])
  have fresh: "pb_id p \<notin> set (settles_id e)" if "e \<in> set (bw_effects (hs_barriers s))" for e
    using count_settled_le [OF w p] that unfolding settled_mem by blast
  have nr: "BarrierRejected (pb_id p) e \<notin> set (bw_effects (hs_barriers s))" for e
    using fresh [of "BarrierRejected (pb_id p) e"] by auto
  have nq: "BarrierResolved (pb_id p) x r \<notin> set (bw_effects (hs_barriers s))" for x r
    using fresh [of "BarrierResolved (pb_id p) x r"] by auto
  from v(2) nr obtain mid where mid: "since_marker (hs_log s) plan (pb_id p) mid []" "held (hs_publisher s)"
    and alt: "(\<exists>q. bw_pending (hs_barriers s) = Some q \<and> pb_id q = pb_id p \<and> pb_expected q = pl_identity plan \<and>
            (pb_markerSent q \<longrightarrow> phase_in {marker_uncertain} s) \<and> \<not> is_aborted s) \<or>
         (\<exists>r. FromBarrier (BarrierResolved (pb_id p) (pl_identity plan) r) \<in> set mid \<and> phase_in {marker_uncertain} s)"
    by (auto simp: verdict_ok_def)
  have "FromBarrier (BarrierResolved (pb_id p) x r) \<notin> set mid" for x r
  proof
    assume "FromBarrier (BarrierResolved (pb_id p) x r) \<in> set mid"
    with mid(1) have "FromBarrier (BarrierResolved (pb_id p) x r) \<in> set (hs_log s)" by (auto simp: since_marker_def)
    then have "BarrierResolved (pb_id p) x r \<in> set (bw_effects (hs_barriers s))"
      unfolding base_invD(2) [OF b, symmetric] barrier_log_mem .
    with nq show False by blast
  qed
  with alt p have q: "pb_expected p = pl_identity plan" "pb_markerSent p \<longrightarrow> phase_in {marker_uncertain} s" "\<not> is_aborted s" by auto
  show ?thesis
    by (rule that [OF at v(1) mid(2,1) q]) (use v(2) in \<open>auto simp: verdict_ok_def\<close>)
qed

text \<open>The pending barrier resolves.\<close>

lemma resolve_inv_host:
  assumes inv: "host_inv s" and p: "bw_pending (hs_barriers s) = Some p" "pb_markerSent p"
    and r: "isMatchingDeliveryBarrierResult (pb_expected p) r"
  shows "host_inv (set_barriers (resolvePending p r (hs_barriers s)) s)"
proof -
  let ?w = "resolvePending p r (hs_barriers s)"
  have b: "base_inv s" using inv by (simp add: host_inv_def)
  obtain plan mid where at: "hs_drain s = AwaitVerdict plan (pb_id p)" "plan_ok plan" "held (hs_publisher s)"
    "since_marker (hs_log s) plan (pb_id p) mid []" "pb_expected p = pl_identity plan"
    "phase_in {marker_uncertain} s" "phase_in {pre_marker, marker_uncertain} s" "Suc (pb_id p) = bw_nextId (hs_barriers s)"
    using pending_at_verdict [OF inv p(1)] p(2) by metis
  note e = resolvePending_effects [OF p(1), of r]
  let ?es = "[BarrierResolved (pb_id p) (pb_expected p) r]"
  note l = set_barriers_log [OF e(1)]
  have base: "base_inv (set_barriers ?w s)"
    using base_invD(6) [OF b] e
    by (intro set_barriers_base [OF b resolve_inv [OF base_invD(4) [OF b] p r] _ _ _ e(1)]) auto
  have "since_marker (hs_log s @ map FromBarrier ?es) plan (pb_id p) (mid @ map FromBarrier ?es) ([] @ [])"
    by (rule since_marker_append [OF at(4)]) simp
  then have "verdict_ok (set_barriers ?w s) plan (pb_id p)"
    using at e unfolding verdict_ok_def set_barriers_fields l by fastforce
  with base at(1,2) e show ?thesis by (simp add: host_inv_def drain_inv_def)
qed

text \<open>The pending barrier is updated in place.\<close>

lemma update_pending_inv_host:
  assumes inv: "host_inv s" and p: "bw_pending (hs_barriers s) = Some p"
    and q: "pb_id q = pb_id p" "pb_expected q = pb_expected p" "pb_markerSent q \<longrightarrow> phase_in {marker_uncertain} s"
    and es: "es = [] \<or> es = [MarkerSentCallback (pb_id p)] \<and> in_doubt s"
    and w: "waiter_inv ((hs_barriers s)\<lparr>bw_pending := Some q, bw_effects := bw_effects (hs_barriers s) @ es\<rparr>)"
  shows "host_inv (set_barriers ((hs_barriers s)\<lparr>bw_pending := Some q, bw_effects := bw_effects (hs_barriers s) @ es\<rparr>) s)"
    (is "host_inv (set_barriers ?w s)")
proof -
  have b: "base_inv s" using inv by (simp add: host_inv_def)
  obtain plan mid where at: "hs_drain s = AwaitVerdict plan (pb_id p)" "plan_ok plan" "held (hs_publisher s)"
    "since_marker (hs_log s) plan (pb_id p) mid []" "pb_expected p = pl_identity plan" "\<not> is_aborted s"
    "phase_in {pre_marker, marker_uncertain} s" "Suc (pb_id p) = bw_nextId (hs_barriers s)"
    using pending_at_verdict [OF inv p] by metis
  have e: "bw_effects ?w = bw_effects (hs_barriers s) @ es" by simp
  note l = set_barriers_log [OF e]
  have base: "base_inv (set_barriers ?w s)"
    by (rule set_barriers_base [OF b w _ _ _ e]) (use base_invD(6) [OF b] es q(1) at(8) in auto)
  have "wire (map FromBarrier es) = map WireDirected []" using es by auto
  from since_marker_append [OF at(4) this] have "since_marker (hs_log s @ map FromBarrier es) plan (pb_id p) (mid @ map FromBarrier es) []"
    by simp
  then have "verdict_ok (set_barriers ?w s) plan (pb_id p)"
    using at q unfolding verdict_ok_def set_barriers_fields l by fastforce
  with base at(1,2) q(1) show ?thesis by (simp add: host_inv_def drain_inv_def)
qed

lemma handle_result_inv_host:
  assumes inv: "host_inv s"
  shows "host_inv (on_barriers (handle_result r) s)"
proof (cases "bw_pending (hs_barriers s)")
  case None
  then show ?thesis using inv by (simp add: on_barriers_def handle_result_def set_barriers_same)
next
  case (Some p)
  let ?w = "hs_barriers s"
  have b: "base_inv s" using inv by (simp add: host_inv_def)
  note hi = handle_inv [OF base_invD(4) [OF b], of r]
  show ?thesis
  proof (cases "isMatchingDeliveryBarrierResult (pb_expected p) r")
    case False
    then show ?thesis using inv Some by (simp add: on_barriers_def handle_result_def set_barriers_same)
  next
    case m: True
    show ?thesis
    proof (cases "pb_markerSent p")
      case True
      then show ?thesis using resolve_inv_host [OF inv Some True m] Some m by (simp add: on_barriers_def handle_result_def)
    next
      case False
      define q where "q = p\<lparr>pb_earlyResult := (case pb_earlyResult p of None \<Rightarrow> Some r | Some r' \<Rightarrow> Some r')\<rparr>"
      have h: "handle_result r ?w = ?w\<lparr>bw_pending := Some q, bw_effects := bw_effects ?w @ []\<rparr>"
        using Some m False by (simp add: handle_result_def q_def)
      show ?thesis
        unfolding on_barriers_def h
        by (rule update_pending_inv_host [OF inv Some]) (use False hi h in \<open>simp_all add: q_def\<close>)
    qed
  qed
qed

end
