(* ===== verification/Delivery_Moves.thy ===== *)
theory Delivery_Moves
  imports Delivery_Steps
begin

text \<open>
  The larger moves of the delivery scheduler: the receipt of the marker, aborting the active recovery, stopping, resuming the
  publisher, and the scheduler's own sends.
\<close>

definition host_ok :: "host_scheduler \<Rightarrow> bool" where
  "host_ok s \<longleftrightarrow> host_inv s \<and> publisher_linked s \<and> (hs_recoveriesRunning s \<or> hs_drain s = NoDrain)"

text \<open>What holds between two waits of the recovery.\<close>

definition running_ok :: "host_scheduler \<Rightarrow> bool" where
  "running_ok s \<longleftrightarrow> base_inv s \<and> no_barrier s \<and> publisher_linked s \<and> hs_recoveriesRunning s"

lemma running_okD: "running_ok s \<Longrightarrow> base_inv s" "running_ok s \<Longrightarrow> no_barrier s" "running_ok s \<Longrightarrow> publisher_linked s"
  "running_ok s \<Longrightarrow> hs_recoveriesRunning s"
  by (simp_all add: running_ok_def)

lemma running_ok_cong:
  assumes "base_view s' = base_view s"
  shows "running_ok s' = running_ok s"
  unfolding running_ok_def base_inv_cong [OF assms] predicates_cong(6,7) [OF assms]
  using assms by (simp add: base_view_eq)

lemma host_ok_cong:
  assumes "base_view s' = base_view s" "hs_drain s' = hs_drain s"
  shows "host_ok s' = host_ok s"
  unfolding host_ok_def host_inv_cong [OF assms] predicates_cong(7) [OF assms(1)]
  using assms by (simp add: base_view_eq)

lemma wait_at_ok: "running_ok s \<Longrightarrow> point_ok s pt \<Longrightarrow> host_ok (wait_at pt s)"
  using predicates_cong(7) [of "wait_at pt s" s] by (simp add: host_ok_def running_ok_def wait_at_inv) (simp add: wait_at_def)

lemma wait_at_verdict_ok:
  assumes s: "base_inv s" "publisher_linked s" "hs_recoveriesRunning s" "point_ok s (AwaitVerdict plan i)"
    and p: "\<And>p. bw_pending (hs_barriers s) = Some p \<Longrightarrow> pb_id p = i"
  shows "host_ok (wait_at (AwaitVerdict plan i) s)"
proof -
  have v: "base_view (wait_at (AwaitVerdict plan i) s) = base_view s" by simp
  have w: "hs_barriers (wait_at (AwaitVerdict plan i) s) = hs_barriers s"
    "hs_recoveriesRunning (wait_at (AwaitVerdict plan i) s) = hs_recoveriesRunning s" by (simp_all add: wait_at_def)
  show ?thesis
    unfolding host_ok_def host_inv_def drain_inv_def base_inv_cong [OF v] point_ok_cong [OF v] predicates_cong(7) [OF v] w
    using s p by auto
qed

section \<open>The phase\<close>

lemma set_phase_fields [simp]:
  "hs_publisher (set_phase ph s) = hs_publisher s" "hs_barriers (set_phase ph s) = hs_barriers s"
  "hs_failed (set_phase ph s) = hs_failed s" "hs_recoveriesRunning (set_phase ph s) = hs_recoveriesRunning s" "hs_log (set_phase ph s) = hs_log s" "hs_drain (set_phase ph s) = hs_drain s"
  "phase_in P (set_phase ph s) \<longleftrightarrow> hs_activeRecovery s \<noteq> None \<and> ph \<in> P"
  "in_doubt (set_phase ph s) \<longleftrightarrow> hs_activeRecovery s \<noteq> None \<and> (ph = marker_uncertain \<or> ph = pinned)"
  "is_aborted (set_phase ph s) = is_aborted s" "no_barrier (set_phase ph s) = no_barrier s" "publisher_linked (set_phase ph s) = publisher_linked s"
  by (auto simp: set_phase_def set_active_def phase_in_def in_doubt_def is_aborted_def no_barrier_def publisher_linked_def split: option.split)

lemma phase_in_active: "phase_in P s \<Longrightarrow> hs_activeRecovery s \<noteq> None"
  by (auto simp: phase_in_def)

lemma set_phase_base:
  assumes inv: "base_inv s" and out: "in_doubt s \<Longrightarrow> \<not> in_doubt (set_phase ph s) \<Longrightarrow> \<not> hs_failed s \<Longrightarrow>
    (\<And>i. Suc i = bw_nextId (hs_barriers s) \<Longrightarrow> concluded (hs_log s) i)"
  shows "base_inv (set_phase ph s)"
proof -
  have "log_inv (hs_log s) (hs_failed s) (bw_nextId (hs_barriers s)) (in_doubt (set_phase ph s))"
    using base_invD(9) [OF inv] out unfolding log_inv_def by blast
  moreover have "hs_failed s \<Longrightarrow> hs_activeRecovery (set_phase ph s) = Some a \<Longrightarrow> ar_aborted a" for a
    using base_invD(7) [OF inv] by (auto simp: set_phase_def set_active_def)
  ultimately show ?thesis using base_invD(1-6,8) [OF inv] by (simp add: base_inv_alt)
qed

section \<open>The receipt of the marker\<close>

lemma set_barriers_twice:
  "bw_effects w1 = bw_effects (hs_barriers s) @ es \<Longrightarrow> bw_effects w2 = bw_effects w1 @ fs \<Longrightarrow>
   set_barriers w2 (set_barriers w1 s) = set_barriers w2 s"
  by (simp add: set_barriers_def)

lemma receipt_phase:
  assumes inv: "host_inv s" and p: "bw_pending (hs_barriers s) = Some p"
  shows "host_inv (set_phase marker_uncertain s)"
proof -
  have b: "base_inv s" using inv by (simp add: host_inv_def)
  obtain plan mid where at: "hs_drain s = AwaitVerdict plan (pb_id p)" "plan_ok plan" "held (hs_publisher s)"
    "since_marker (hs_log s) plan (pb_id p) mid []" "pb_expected p = pl_identity plan" "\<not> is_aborted s"
    "phase_in {pre_marker, marker_uncertain} s" "Suc (pb_id p) = bw_nextId (hs_barriers s)"
    using pending_at_verdict [OF inv p] by metis
  note active = phase_in_active [OF at(7)]
  have "base_inv (set_phase marker_uncertain s)" by (rule set_phase_base [OF b]) (use active in simp)
  moreover have "verdict_ok (set_phase marker_uncertain s) plan (pb_id p)"
    using at p active unfolding verdict_ok_def by auto
  ultimately show ?thesis using at(1,2) p by (simp add: host_inv_def drain_inv_def)
qed

lemma mark_inv_host:
  assumes inv: "host_inv s" and p: "bw_pending (hs_barriers s) = Some p" and doubt: "phase_in {marker_uncertain} s"
  shows "host_inv (on_barriers (markBarrierSent (pb_id p) CallbackReturns) s)"
proof -
  let ?w = "hs_barriers s"
  let ?q = "p\<lparr>pb_markerSent := True\<rparr>"
  let ?w1 = "?w\<lparr>bw_pending := Some ?q, bw_effects := bw_effects ?w @ [MarkerSentCallback (pb_id p)]\<rparr>"
  have b: "base_inv s" using inv by (simp add: host_inv_def)
  note wi = base_invD(4) [OF b]
  have pok: "pending_ok (bw_effects ?w) p" using wi p by (simp add: waiter_inv_def)
  have w1: "waiter_inv ?w1" by (rule update_inv [OF wi p]) (use pok in \<open>auto simp: pending_ok_def\<close>)
  have i1: "host_inv (set_barriers ?w1 s)"
    by (rule update_pending_inv_host [OF inv p _ _ _ _ w1]) (use doubt in \<open>auto simp: in_doubt_def phase_in_def\<close>)
  show ?thesis
  proof (cases "pb_earlyResult p")
    case None
    have "markBarrierSent (pb_id p) CallbackReturns ?w = ?w1"
      using p None by (simp add: markBarrierSent_def Let_def barrier_effect_def)
    with i1 show ?thesis by (simp add: on_barriers_def)
  next
    case (Some r)
    have e: "markBarrierSent (pb_id p) CallbackReturns ?w = resolvePending ?q r ?w1"
      using p Some by (simp add: markBarrierSent_def Let_def barrier_effect_def)
    have m: "isMatchingDeliveryBarrierResult (pb_expected ?q) r" using pok Some by (simp add: pending_ok_def)
    have p1: "bw_pending (hs_barriers (set_barriers ?w1 s)) = Some ?q" by simp
    have "host_inv (set_barriers (resolvePending ?q r ?w1) (set_barriers ?w1 s))"
      using resolve_inv_host [OF i1 p1 _ m] by simp
    then show ?thesis
      unfolding on_barriers_def e
      by (subst (asm) set_barriers_twice) (use resolvePending_effects(1) [of ?w1 ?q r] in simp_all)
  qed
qed

lemma receipt_settles_ok:
  assumes "host_ok s"
  shows "host_ok (receipt_settles i ok s)"
proof -
  have inv: "host_inv s" and l: "publisher_linked s" "hs_recoveriesRunning s \<or> hs_drain s = NoDrain"
    using assms by (simp_all add: host_ok_def)
  show ?thesis
  proof (cases "ok \<and> pending_is i (hs_barriers s)")
    case False
    then show ?thesis
      using inv l reject_inv_host [OF inv, of i SendError]
      by (auto simp: receipt_settles_def on_barriers_def host_ok_def publisher_linked_def)
  next
    case True
    then obtain p where p: "bw_pending (hs_barriers s) = Some p" "pb_id p = i"
      by (auto simp: pending_is_def split: option.splits)
    let ?s0 = "s\<lparr>hs_barrierTimer := Some i\<rparr>"
    have i0: "host_inv ?s0" using host_inv_cong [of ?s0 s] inv by simp
    have p0: "bw_pending (hs_barriers ?s0) = Some p" using p by simp
    have a0: "hs_activeRecovery ?s0 \<noteq> None"
      using pending_at_verdict [OF i0 p0] phase_in_active by metis
    have "host_inv (on_barriers (markBarrierSent (pb_id p) CallbackReturns) (set_phase marker_uncertain ?s0))"
      by (rule mark_inv_host [OF receipt_phase [OF i0 p0]]) (use p0 a0 in simp_all)
    with True p l show ?thesis
      by (simp add: receipt_settles_def host_ok_def publisher_linked_def on_barriers_def set_barriers_def set_phase_def set_active_def)
  qed
qed

section \<open>Aborting the active recovery\<close>

definition mark_aborted :: "host_scheduler \<Rightarrow> host_scheduler" where
  "mark_aborted s = set_active (\<lambda>a. a\<lparr>ar_aborted := True\<rparr>) s"

lemma mark_aborted_fields [simp]:
  "hs_publisher (mark_aborted s) = hs_publisher s" "hs_barriers (mark_aborted s) = hs_barriers s"
  "hs_failed (mark_aborted s) = hs_failed s" "hs_recoveriesRunning (mark_aborted s) = hs_recoveriesRunning s" "hs_log (mark_aborted s) = hs_log s" "hs_drain (mark_aborted s) = hs_drain s"
  "phase_in P (mark_aborted s) = phase_in P s" "in_doubt (mark_aborted s) = in_doubt s" "is_aborted (mark_aborted s)"
  "no_barrier (mark_aborted s) = no_barrier s" "publisher_linked (mark_aborted s) = publisher_linked s"
  "(hs_activeRecovery (mark_aborted s) = None) = (hs_activeRecovery s = None)"
  by (auto simp: mark_aborted_def set_active_def phase_in_def in_doubt_def is_aborted_def no_barrier_def publisher_linked_def split: option.split)

lemma mark_aborted_base: "base_inv s \<Longrightarrow> base_inv (mark_aborted s)"
  by (auto simp: base_inv_alt) (auto simp: mark_aborted_def set_active_def)

lemma mark_aborted_point:
  assumes none: "no_barrier s" and pt: "point_ok s pt"
  shows "point_ok (mark_aborted s) pt"
proof -
  have v: "verdict_ok s plan i \<Longrightarrow> verdict_ok (mark_aborted s) plan i" for plan i
    using none by (auto simp: verdict_ok_def no_barrier_def)
  have r: "replaying s plan r rest c \<Longrightarrow> replaying (mark_aborted s) plan r rest c" for plan r rest c
    by (simp add: replaying_def)
  show ?thesis using pt v r by (cases pt) auto
qed

lemma mark_aborted_inv: "no_barrier s \<Longrightarrow> host_inv s \<Longrightarrow> host_inv (mark_aborted s)"
  using mark_aborted_base mark_aborted_point by (simp add: host_inv_def drain_inv_def)

text \<open>Rejecting and marking commute, so an abort is a rejection and then the mark.\<close>

lemma abort_active_alt: "abort_active s =
  (if hs_activeRecovery s = None then s else mark_aborted (on_barriers reject_pending s))"
  by (auto simp: abort_active_def mark_aborted_def on_barriers_def set_active_def set_barriers_def split: option.split)

lemma on_reject_fields [simp]:
  "hs_publisher (on_barriers f s) = hs_publisher s" "hs_activeRecovery (on_barriers f s) = hs_activeRecovery s"
  "hs_failed (on_barriers f s) = hs_failed s" "hs_recoveriesRunning (on_barriers f s) = hs_recoveriesRunning s" "hs_drain (on_barriers f s) = hs_drain s" "publisher_linked (on_barriers f s) = publisher_linked s"
  "phase_in P (on_barriers f s) = phase_in P s" "is_aborted (on_barriers f s) = is_aborted s"
  "in_doubt (on_barriers f s) = in_doubt s" "hs_barriers (on_barriers f s) = f (hs_barriers s)"
  by (simp_all add: on_barriers_def publisher_linked_def)

lemma abort_active_inv: "host_inv s \<Longrightarrow> host_inv (abort_active s)"
  by (simp add: abort_active_alt mark_aborted_inv reject_pending_none reject_pending_inv_host)

lemma abort_active_fields [simp]:
  "hs_publisher (abort_active s) = hs_publisher s" "hs_recoveriesRunning (abort_active s) = hs_recoveriesRunning s" "hs_failed (abort_active s) = hs_failed s"
  "hs_drain (abort_active s) = hs_drain s" "publisher_linked (abort_active s) = publisher_linked s" "phase_in P (abort_active s) = phase_in P s"
  "is_aborted (abort_active s)" "(hs_activeRecovery (abort_active s) = None) = (hs_activeRecovery s = None)"
  by (simp_all add: abort_active_alt) (simp add: is_aborted_def)

lemma abort_active_none:
  assumes "hs_activeRecovery s \<noteq> None"
  shows "no_barrier (abort_active s)"
  using assms by (simp only: abort_active_alt if_False mark_aborted_fields reject_pending_none)

lemma abort_active_ok: "host_ok s \<Longrightarrow> host_ok (abort_active s)"
  by (simp add: host_ok_def abort_active_inv)

section \<open>Stopping\<close>

text \<open>The state after a stop, up to what is outside the view, from one whose recovery is aborted.\<close>

definition sealed :: "host_scheduler \<Rightarrow> host_scheduler" where
  "sealed s = on_barriers (dispose_waiter ''delivery scheduler stopped'')
     (s\<lparr>hs_failed := True, hs_publisher := dispose_publisher (hs_publisher s)\<rparr>)"

lemma dispose_waiter_none:
  "bw_pending w = None \<Longrightarrow> bw_effects (dispose_waiter r w) = bw_effects w"
  "bw_pending w = None \<Longrightarrow> bw_pending (dispose_waiter r w) = None"
  "bw_nextId (dispose_waiter r w) = bw_nextId w" "bw_disposedReason (dispose_waiter r w) \<noteq> None"
  by (auto simp: dispose_waiter_def Let_def rejectPending_def split: option.split)

lemma sealed_fields [simp]:
  "hs_publisher (sealed s) = dispose_publisher (hs_publisher s)" "hs_failed (sealed s)" "hs_recoveriesRunning (sealed s) = hs_recoveriesRunning s" "hs_drain (sealed s) = hs_drain s"
  "hs_activeRecovery (sealed s) = hs_activeRecovery s" "publisher_linked (sealed s)" "is_aborted (sealed s) = is_aborted s"
  "phase_in P (sealed s) = phase_in P s" "in_doubt (sealed s) = in_doubt s"
  "hs_barriers (sealed s) = dispose_waiter ''delivery scheduler stopped'' (hs_barriers s)"
  by (simp_all add: sealed_def publisher_linked_def phase_in_def is_aborted_def in_doubt_def)

lemma sealed_log: "no_barrier s \<Longrightarrow> hs_log (sealed s) = hs_log s"
  by (simp add: sealed_def on_barriers_def set_barriers_def dispose_waiter_none no_barrier_def)

lemma sealed_base:
  assumes inv: "base_inv s" and none: "no_barrier s" and ab: "is_aborted s" and go: "\<not> hs_failed s"
  shows "base_inv (sealed s)" "no_barrier (sealed s)"
proof -
  note d = dispose_publisher_inv [OF base_invD(3) [OF inv]]
  have e: "cp_effects (dispose_publisher (hs_publisher s)) = cp_effects (hs_publisher s)" by (simp add: dispose_publisher_def)
  have "log_inv (hs_log s) True (bw_nextId (hs_barriers s)) (in_doubt s)"
    using base_invD(9) [OF inv] go by (auto simp: log_inv_def)
  then show "base_inv (sealed s)"
    using base_invD(1,2) [OF inv] d none e ab dispose_waiter_inv [OF base_invD(4) [OF inv]]
    unfolding base_inv_alt sealed_fields sealed_log [OF none]
    by (auto simp: dispose_waiter_none no_barrier_def is_aborted_def)
  show "no_barrier (sealed s)" using none by (simp add: no_barrier_def dispose_waiter_none)
qed

lemma sealed_point:
  assumes inv: "base_inv s" and none: "no_barrier s" and ab: "is_aborted s" and pt: "point_ok s pt"
  shows "point_ok (sealed s) pt"
proof -
  note l = sealed_log [OF none]
  have h: "held (dispose_publisher (hs_publisher s))"
    using dispose_publisher_inv(2) [OF base_invD(3) [OF inv]] by (simp add: held_def)
  have v: "verdict_ok s plan i \<Longrightarrow> verdict_ok (sealed s) plan i" for plan i
    unfolding verdict_ok_def sealed_fields l using none h by (auto simp: no_barrier_def dispose_waiter_none)
  have r: "replaying s plan r rest c \<Longrightarrow> replaying (sealed s) plan r rest c" for plan r rest c
    unfolding replaying_def sealed_fields l using h by (auto simp: dispose_waiter_none)
  show ?thesis using pt v r ab by (cases pt) (auto simp: l)
qed

lemma dispose_view:
  assumes go: "\<not> hs_failed s"
  shows "base_view (dispose_scheduler s) = base_view (sealed (mark_aborted (on_barriers reject_pending s)))"
    and "hs_drain (dispose_scheduler s) = hs_drain s"
proof -
  let ?s1 = "on_publisher dispose_publisher (s\<lparr>hs_failed := True, hs_ready := False\<rparr>)"
  let ?s2 = "abort_active (abort_connection ?s1)"
  let ?s3 = "case hs_coldBuildInFlight ?s2 of None \<Rightarrow> ?s2 | Some i \<Rightarrow> abort_preparation i ?s2"
  let ?s4 = "fold abort_preparation (map snd (hs_coldPreparations ?s3)) ?s3"
  have v3: "base_view ?s3 = base_view ?s2" "hs_drain ?s3 = hs_drain ?s2" by (auto split: option.split)
  then have v4: "base_view ?s4 = base_view ?s2" "hs_drain ?s4 = hs_drain ?s2" by simp_all
  have idem: "reject_pending (reject_pending w) = reject_pending w" for w
    by (auto simp: reject_pending_def rejectPending_def pending_is_def split: option.split)
  have a: "base_view ?s2 = base_view (mark_aborted (abort_connection ?s1))" "hs_drain ?s2 = hs_drain s"
    by (auto simp: abort_active_alt base_view_def on_barriers_def set_barriers_def abort_connection_def idem
        mark_aborted_def set_active_def on_publisher_def set_publisher_def)
  have c: "base_view (abort_connection ?s1) = (dispose_publisher (hs_publisher s), reject_pending (hs_barriers s), hs_activeRecovery s, True, hs_recoveriesRunning s,
      hs_log s @ map FromBarrier (drop (length (bw_effects (hs_barriers s))) (bw_effects (reject_pending (hs_barriers s)))))"
    by (simp add: abort_connection_def base_view_def on_barriers_def set_barriers_def on_publisher_def set_publisher_def
        dispose_publisher_def)
  have d: "dispose_scheduler s = on_barriers (dispose_waiter ''delivery scheduler stopped'')
     (?s4\<lparr>hs_coldPreparations := [], hs_queue := clear_recovery (hs_queue ?s4), hs_recoveryTimer := None\<rparr>)"
    using go by (simp add: dispose_scheduler_def Let_def)
  show "hs_drain (dispose_scheduler s) = hs_drain s" using d v4 a by simp
  show "base_view (dispose_scheduler s) = base_view (sealed (mark_aborted (on_barriers reject_pending s)))"
    using v4(1) a(1) c unfolding d
    by (simp add: base_view_def sealed_def on_barriers_def set_barriers_def mark_aborted_def set_active_def)
qed

lemma dispose_base:
  assumes inv: "base_inv s" and rej: "base_inv (on_barriers reject_pending s)" and go: "\<not> hs_failed s"
  shows "base_inv (dispose_scheduler s)" "no_barrier (dispose_scheduler s)" "publisher_linked (dispose_scheduler s)"
    "hs_failed (dispose_scheduler s)" "hs_recoveriesRunning (dispose_scheduler s) = hs_recoveriesRunning s"
proof -
  let ?s = "mark_aborted (on_barriers reject_pending s)"
  have n: "no_barrier ?s" by (simp add: reject_pending_none)
  note sb = sealed_base [OF mark_aborted_base [OF rej] n]
  note v = dispose_view(1) [OF go]
  show "base_inv (dispose_scheduler s)" "no_barrier (dispose_scheduler s)" "publisher_linked (dispose_scheduler s)"
    unfolding base_inv_cong [OF v] predicates_cong(6,7) [OF v] using sb go by simp_all
  show "hs_failed (dispose_scheduler s)" "hs_recoveriesRunning (dispose_scheduler s) = hs_recoveriesRunning s"
    using v [unfolded base_view_eq] by simp_all
qed

lemma dispose_ok:
  assumes inv: "host_inv s"
  shows "host_inv (dispose_scheduler s)" "publisher_linked (dispose_scheduler s) \<or> hs_failed s" "hs_failed (dispose_scheduler s)"
    "hs_drain (dispose_scheduler s) = hs_drain s" "hs_recoveriesRunning (dispose_scheduler s) = hs_recoveriesRunning s"
proof -
  have b: "base_inv s" using inv by (simp add: host_inv_def)
  let ?s = "mark_aborted (on_barriers reject_pending s)"
  have n: "no_barrier ?s" by (simp add: reject_pending_none)
  have i: "host_inv ?s" using mark_aborted_inv [OF reject_pending_none reject_pending_inv_host [OF inv]] .
  have r: "base_inv (on_barriers reject_pending s)" using reject_pending_inv_host [OF inv] by (simp add: host_inv_def)
  note db = dispose_base [OF b r]
  show "hs_failed (dispose_scheduler s)" "hs_recoveriesRunning (dispose_scheduler s) = hs_recoveriesRunning s"
    using db(4,5) by (cases "hs_failed s"; simp add: dispose_scheduler_def)+
  show dr: "hs_drain (dispose_scheduler s) = hs_drain s"
    using dispose_view(2) [of s] by (cases "hs_failed s") (auto simp: dispose_scheduler_def)
  show "publisher_linked (dispose_scheduler s) \<or> hs_failed s" using db(3) by blast
  show "host_inv (dispose_scheduler s)"
  proof (cases "hs_failed s")
    case True
    then show ?thesis using inv by (simp add: dispose_scheduler_def)
  next
    case False
    have bi: "base_inv ?s" and pt: "point_ok ?s (hs_drain ?s)" using i by (simp_all add: host_inv_def drain_inv_def)
    note sb = sealed_base [OF bi n mark_aborted_fields(9)] and sp = sealed_point [OF bi n mark_aborted_fields(9) pt]
    have "host_inv (sealed ?s)"
      using sb False sp by (simp add: host_inv_def drain_inv_def no_barrier_def)
    moreover have "host_inv (dispose_scheduler s) = host_inv (sealed ?s)"
      by (rule host_inv_cong) (use dispose_view [OF False] dr in simp_all)
    ultimately show ?thesis by simp
  qed
qed

section \<open>Effects of the scheduler\<close>

lemma host_effect_fields [simp]:
  "hs_publisher (host_effect e s) = hs_publisher s" "hs_barriers (host_effect e s) = hs_barriers s"
  "hs_failed (host_effect e s) = hs_failed s" "hs_recoveriesRunning (host_effect e s) = hs_recoveriesRunning s" "hs_log (host_effect e s) = hs_log s @ [e]" "hs_drain (host_effect e s) = hs_drain s"
  "hs_activeRecovery (host_effect e s) = hs_activeRecovery s"
  "phase_in P (host_effect e s) = phase_in P s" "in_doubt (host_effect e s) = in_doubt s" "is_aborted (host_effect e s) = is_aborted s"
  "no_barrier (host_effect e s) = no_barrier s" "publisher_linked (host_effect e s) = publisher_linked s"
  by (simp_all add: host_effect_def phase_in_def in_doubt_def is_aborted_def no_barrier_def publisher_linked_def)

lemma log_inv_snoc:
  assumes l: "log_inv log failed n doubt" and c: "\<And>bs. e = CommitSent bs \<Longrightarrow> commit_shape log bs"
    and w: "failed \<longrightarrow> wire_item e = []" and m: "\<And>i. e \<noteq> FromBarrier (MarkerSentCallback i)" and p: "e = PairClosed \<longrightarrow> failed"
  shows "log_inv (log @ [e]) failed n doubt"
proof -
  have "failed \<and> wire ys = []" if "log @ [e] = xs @ PairClosed # ys" for xs ys
  proof -
    from that consider "e = PairClosed" "ys = []" | zs where "ys = zs @ [e]" "log = xs @ PairClosed # zs"
      unfolding prefix_snoc by blast
    then show ?thesis
    proof cases
      case 1
      then show ?thesis using p by simp
    next
      case 2
      then have "failed \<and> wire zs = []" using l by (auto simp: log_inv_def)
      then show ?thesis using 2(1) w by simp
    qed
  qed
  moreover have "commits_ok (log @ [e])" using l c by (simp add: log_inv_def commits_ok_snoc)
  moreover have "failed \<or> concluded (log @ [e]) i \<or> Suc i = n \<and> doubt"
    if "FromBarrier (MarkerSentCallback i) \<in> set (log @ [e])" for i
    using that l concluded_append [of log i "[e]"] m by (auto simp: log_inv_def)
  ultimately show ?thesis unfolding log_inv_def by blast
qed

lemma host_effect_base:
  assumes inv: "base_inv s" and c: "\<And>bs. e = CommitSent bs \<Longrightarrow> commit_shape (hs_log s) bs"
    and w: "hs_failed s \<longrightarrow> wire_item e = []" and m: "publisher_part e = []" "barrier_part e = []" and p: "e = PairClosed \<longrightarrow> hs_failed s"
  shows "base_inv (host_effect e s)"
proof -
  have "log_inv (hs_log s @ [e]) (hs_failed s) (bw_nextId (hs_barriers s)) (in_doubt s)"
    by (rule log_inv_snoc [OF base_invD(9) [OF inv] c w _ p]) (use m in auto)
  then show ?thesis using base_invD(1-8) [OF inv] m by (simp add: base_inv_alt)
qed

lemma quiet_effect_point:
  assumes "wire_item e = []" "publisher_part e = []" "point_ok s pt"
  shows "point_ok (host_effect e s) pt"
proof -
  have since: "since_marker (hs_log s) plan i mid ds \<Longrightarrow> since_marker (hs_log s @ [e]) plan i (mid @ [e]) ds" for plan i mid ds
    by (rule since_marker_quiet) (use assms(1) in simp_all)
  have v: "verdict_ok s plan i \<Longrightarrow> verdict_ok (host_effect e s) plan i" for plan i
    unfolding verdict_ok_def host_effect_fields using since by (elim conjE disjE exE) (fastforce)+
  have r: "replaying s plan r rest c \<Longrightarrow> replaying (host_effect e s) plan r rest c" for plan r rest c
    by (rule replaying_extend [of s _ _ _ _ _ "[e]"]) (use assms(1) in \<open>auto simp: replaying_def\<close>)
  show ?thesis using assms v r by (cases pt) (auto split: option.splits)
qed

lemma failPair_inv:
  assumes inv: "host_inv s"
  shows "host_inv (failPair s)" "publisher_linked (failPair s)" "hs_failed (failPair s)" "hs_drain (failPair s) = hs_drain s"
    "hs_recoveriesRunning (failPair s) = hs_recoveriesRunning s"
proof -
  note d = dispose_ok [OF inv]
  show f: "hs_failed (failPair s)" using d(3) by (simp add: failPair_def)
  show "hs_drain (failPair s) = hs_drain s" "hs_recoveriesRunning (failPair s) = hs_recoveriesRunning s"
    using d(4,5) by (simp_all add: failPair_def)
  show "publisher_linked (failPair s)" using f by (simp add: publisher_linked_def)
  let ?d = "dispose_scheduler s"
  have i: "base_inv ?d" "point_ok ?d (hs_drain ?d)"
    "\<forall>p. bw_pending (hs_barriers ?d) = Some p \<longrightarrow> (\<exists>plan. hs_drain ?d = AwaitVerdict plan (pb_id p))"
    using d(1) by (simp_all add: host_inv_def drain_inv_def)
  have "base_inv (host_effect PairClosed ?d)" by (rule host_effect_base [OF i(1)]) (use d(3) in simp_all)
  moreover have "point_ok (host_effect PairClosed ?d) (hs_drain ?d)" by (rule quiet_effect_point [OF _ _ i(2)]) simp_all
  ultimately show "host_inv (failPair s)"
    using inv i(3) by (simp add: failPair_def host_inv_def drain_inv_def)
qed

lemma failPair_ok: "host_ok s \<Longrightarrow> host_ok (failPair s)"
  using failPair_inv by (simp add: host_ok_def)

lemma failPair_running:
  assumes "running_ok s"
  shows "running_ok (failPair s)" "hs_failed (failPair s)"
proof -
  have b: "base_inv s" and n: "no_barrier s" and r: "hs_recoveriesRunning s" using assms by (simp_all add: running_ok_def)
  have same: "on_barriers reject_pending s = s"
    using n by (simp add: on_barriers_def reject_pending_def no_barrier_def set_barriers_same)
  have "running_ok (host_effect PairClosed (dispose_scheduler s)) \<and> hs_failed (dispose_scheduler s)" if go: "\<not> hs_failed s"
  proof -
    note d = dispose_base [OF b _ go, unfolded same, OF b]
    have "base_inv (host_effect PairClosed (dispose_scheduler s))"
      by (rule host_effect_base [OF d(1)]) (use d(4) in simp_all)
    with d r show ?thesis by (simp add: running_ok_def)
  qed
  with assms show "running_ok (failPair s)" "hs_failed (failPair s)" by (auto simp: failPair_def)
qed

lemma failPair_active: "(hs_activeRecovery (failPair s) = None) = (hs_activeRecovery s = None)"
proof (cases "hs_failed s")
  case False
  have "hs_activeRecovery (dispose_scheduler s) = hs_activeRecovery (mark_aborted (on_barriers reject_pending s))"
    using dispose_view(1) [OF False, unfolded base_view_eq] by simp
  then show ?thesis using False by (simp add: failPair_def)
qed (simp add: failPair_def)

section \<open>Resuming\<close>

lemma resumeCanonical_fields [simp]:
  "hs_barriers (resumeCanonical env s) = hs_barriers s" "hs_activeRecovery (resumeCanonical env s) = hs_activeRecovery s"
  "hs_failed (resumeCanonical env s) = hs_failed s" "hs_recoveriesRunning (resumeCanonical env s) = hs_recoveriesRunning s" "hs_drain (resumeCanonical env s) = hs_drain s"
  "phase_in P (resumeCanonical env s) = phase_in P s" "in_doubt (resumeCanonical env s) = in_doubt s"
  "is_aborted (resumeCanonical env s) = is_aborted s" "no_barrier (resumeCanonical env s) = no_barrier s"
  by (simp_all add: resumeCanonical_def on_publisher_def)

lemma resume_base:
  assumes inv: "base_inv s"
  shows "base_inv (resumeCanonical env s)" "publisher_linked (resumeCanonical env s) = publisher_linked s"
    "\<exists>es. hs_log (resumeCanonical env s) = hs_log s @ es"
proof -
  let ?p = "resume_publisher (he_throws env) (hs_publisher s)"
  note r = resume_inv [OF base_invD(3) [OF inv], of "he_throws env"]
  obtain es where es: "cp_effects ?p = cp_effects (hs_publisher s) @ es" using resume_grows unfolding grows_def by blast
  have quiet: "hs_failed s \<longrightarrow> silent es"
    using resume_stopped [of "hs_publisher s" "he_throws env"] base_invD(5) [OF inv] es by auto
  show "base_inv (resumeCanonical env s)"
    unfolding resumeCanonical_def on_publisher_def
    by (rule set_publisher_base [OF inv r(1) _ es quiet]) (use r(2) base_invD(5) [OF inv] in simp)
  show "publisher_linked (resumeCanonical env s) = publisher_linked s" using r(2) by (simp add: publisher_linked_def resumeCanonical_def on_publisher_def)
  show "\<exists>es. hs_log (resumeCanonical env s) = hs_log s @ es" by (auto simp: resumeCanonical_def on_publisher_def set_publisher_def)
qed

lemma resume_running: "running_ok s \<Longrightarrow> running_ok (resumeCanonical env s)"
  using resume_base(1,2) [of s env] by (simp add: running_ok_def)

lemma resume_aborted_ok:
  assumes ok: "host_ok s" and ab: "is_aborted s" and calm: "phase_in {pre_marker} s" and none: "no_barrier s"
  shows "host_ok (resumeCanonical env s)"
proof -
  have inv: "base_inv s" "point_ok s (hs_drain s)" "publisher_linked s" "hs_recoveriesRunning s \<or> hs_drain s = NoDrain"
    using ok by (simp_all add: host_ok_def host_inv_def drain_inv_def)
  note r = resume_base [OF inv(1), of env]
  have nd: "\<not> in_doubt s" "\<not> phase_in {marker_uncertain} s" "\<not> phase_in {pinned} s"
    using calm by (auto simp: in_doubt_def phase_in_def)
  have v: "verdict_ok s plan i \<Longrightarrow> verdict_ok (resumeCanonical env s) plan i" for plan i
    using none nd by (auto simp: verdict_ok_def no_barrier_def)
  have rep: "\<not> replaying s plan r rest c" for plan r rest c using nd by (simp add: replaying_def)
  have "point_ok (resumeCanonical env s) (hs_drain s)"
    using inv(2) ab nd v rep by (cases "hs_drain s") auto
  with r inv(3,4) none show ?thesis by (simp add: host_ok_def host_inv_def drain_inv_def no_barrier_def)
qed

section \<open>Sending\<close>

lemma sendData_fields:
  assumes "sendData env tag frame s = (s', ok)"
  shows "hs_publisher s' = hs_publisher s" "hs_barriers s' = hs_barriers s" "hs_activeRecovery s' = hs_activeRecovery s"
    "hs_failed s' = hs_failed s" "hs_recoveriesRunning s' = hs_recoveriesRunning s" "hs_drain s' = hs_drain s" "phase_in P s' = phase_in P s" "in_doubt s' = in_doubt s"
    "is_aborted s' = is_aborted s" "no_barrier s' = no_barrier s" "publisher_linked s' = publisher_linked s"
    "ok \<Longrightarrow> \<not> hs_failed s \<and> hs_log s' = hs_log s @ [tag frame]"
  using assms
  by (auto simp: sendData_def Let_def host_effect_def phase_in_def in_doubt_def is_aborted_def no_barrier_def publisher_linked_def
      split: if_splits DataSend.splits)

lemma sendData_base:
  assumes inv: "base_inv s" and r: "sendData env tag frame s = (s', ok)"
    and tag: "publisher_part (tag frame) = []" "barrier_part (tag frame) = []" "tag frame \<noteq> PairClosed"
    and c: "\<And>bs. tag frame = CommitSent bs \<Longrightarrow> commit_shape (hs_log s) bs"
  shows "base_inv s'"
proof -
  let ?s1 = "s\<lparr>hs_sends := Suc (hs_sends s)\<rparr>"
  have i1: "base_inv ?s1" using base_inv_cong [of ?s1 s] inv by simp
  show ?thesis
  proof (cases "hs_failed s")
    case True
    then show ?thesis using r inv by (simp add: sendData_def)
  next
    case go: False
    have "base_inv (host_effect (tag frame) ?s1)" by (rule host_effect_base [OF i1]) (use tag c go in simp_all)
    moreover have "base_inv (host_effect (OwnSendThrew frame) ?s1)" by (rule host_effect_base [OF i1]) (use go in simp_all)
    ultimately show ?thesis using r go i1 by (auto simp: sendData_def Let_def split: DataSend.splits)
  qed
qed

end
