(* ===== verification/Delivery_Runs.thy ===== *)
theory Delivery_Runs
  imports Delivery_Moves
begin

text \<open>
  Every run of the one recovery, from one wait to the next, keeps the invariant of the delivery scheduler.
\<close>

section \<open>The start of a recovery\<close>

definition active_pre :: "host_scheduler \<Rightarrow> bool" where
  "active_pre s \<longleftrightarrow> phase_in {pre_marker} s"

lemma active_preD: "active_pre s \<Longrightarrow> hs_activeRecovery s \<noteq> None" "active_pre s \<Longrightarrow> \<not> in_doubt s"
  "active_pre s \<Longrightarrow> phase_in {pre_marker} s"
  by (auto simp: active_pre_def phase_in_def in_doubt_def)

text \<open>Setting the mode changes nothing the invariant speaks of.\<close>

lemma set_mode_fields:
  assumes "\<And>a. ar_phase (f a) = ar_phase a" "\<And>a. ar_aborted (f a) = ar_aborted a"
  shows "phase_in P (set_active f s) = phase_in P s" "is_aborted (set_active f s) = is_aborted s"
    "in_doubt (set_active f s) = in_doubt s" "running_ok (set_active f s) = running_ok s"
    "active_pre (set_active f s) = active_pre s"
proof -
  show p: "phase_in Q (set_active f s) = phase_in Q s" for Q
    using assms by (auto simp: phase_in_def set_active_def)
  show "is_aborted (set_active f s) = is_aborted s" using assms by (auto simp: is_aborted_def set_active_def split: option.split)
  show d: "in_doubt (set_active f s) = in_doubt s" unfolding in_doubt_def p ..
  show "active_pre (set_active f s) = active_pre s" unfolding active_pre_def p ..
  have "(\<forall>a. hs_activeRecovery (set_active f s) = Some a \<longrightarrow> ar_aborted a) = (\<forall>a. hs_activeRecovery s = Some a \<longrightarrow> ar_aborted a)"
    using assms by (auto simp: set_active_def)
  then have "base_inv (set_active f s) = base_inv s"
    unfolding base_inv_alt d by (simp add: set_active_def)
  then show "running_ok (set_active f s) = running_ok s"
    by (simp add: running_ok_def no_barrier_def publisher_linked_def set_active_def)
qed

lemmas set_mode_simps [simp] = set_mode_fields [of "\<lambda>a. a\<lparr>ar_mode := m\<rparr>" for m, simplified]

lemma active_pre_cong: "base_view s' = base_view s \<Longrightarrow> active_pre s' = active_pre s"
  unfolding active_pre_def by (rule predicates_cong(1))

lemma pauseCanonical_ok:
  assumes run: "running_ok s" and pre: "active_pre s"
  shows "host_ok (pauseCanonical i s)"
proof -
  let ?p = "pause_publisher (hs_publisher s)"
  have b: "base_inv s" using run by (rule running_okD)
  have st: "pub_step (hs_publisher s) ?p"
    unfolding pause_publisher_def by (rule cong_step(3)) (rule base_invD(3) [OF b])
  have "running_ok (on_publisher pause_publisher s)"
    using run pub_step_base [OF b st]
    by (simp add: running_ok_def on_publisher_def publisher_linked_def) (simp add: pause_publisher_def)
  then show ?thesis
    unfolding pauseCanonical_def Let_def
    by (rule wait_at_ok) (use active_preD(3) [OF pre] in \<open>simp add: on_publisher_def pause_publisher_def held_def\<close>)
qed

lemma settled_error_ok: "running_ok s \<Longrightarrow> hs_activeRecovery s \<noteq> None \<Longrightarrow> host_ok (wait_at (DeliverySettled i (Inl e)) s)"
  by (rule wait_at_ok) simp_all

lemma recover_settled_ok: "running_ok s \<Longrightarrow> (in_doubt s \<Longrightarrow> hs_failed s) \<Longrightarrow> host_ok (wait_at RecoverSettled s)"
  by (rule wait_at_ok) simp_all

lemma drain_settled_point_ok: "running_ok s \<Longrightarrow> (in_doubt s \<Longrightarrow> hs_failed s) \<Longrightarrow> host_ok (wait_at (DrainSettled ok) s)"
  by (rule wait_at_ok) simp_all

lemma recover_catch_ok:
  assumes run: "running_ok s" and active: "hs_activeRecovery s = Some a"
  shows "host_ok (recover_catch env request e s)"
proof -
  let ?m = "if ar_phase a = marker_uncertain \<or> ar_phase a = pinned then failPair s
          else if ar_phase a = committed \<or> hs_failed s then s
          else if ar_aborted a then resumeCanonical env s
          else if ar_mode a = Some recovery_cold \<and> isRetryableColdRecoveryError e
          then resumeCanonical env (requeue_deferred (he_now env) request e (discardColdPreparation request s))
          else failPair s"
  have eq: "recover_catch env request e s = wait_at RecoverSettled ?m"
    using active by (simp add: recover_catch_def wait_at_def)
  note fp = failPair_running [OF run]
  let ?r = "requeue_deferred (he_now env) request e (discardColdPreparation request s)"
  have v: "base_view ?r = base_view s" by simp
  have r: "running_ok ?r" unfolding running_ok_cong [OF v] by (rule run)
  have d: "in_doubt ?r = in_doubt s" by (rule predicates_cong(2) [OF v])
  show ?thesis
    unfolding eq
    by (rule recover_settled_ok) (use fp run r d resume_running [of s env] resume_running [OF r, of env] active in
      \<open>auto simp: in_doubt_def phase_in_def split: if_splits\<close>)
qed

lemma deliverPreparedCold_ok:
  assumes run: "running_ok s" and pre: "active_pre s"
  shows "host_ok (deliverPreparedCold env i s)"
  using settled_error_ok [OF run active_preD(1) [OF pre]] pauseCanonical_ok [OF run pre]
  by (simp add: deliverPreparedCold_def split: option.split)

lemma recover_cold_ok:
  assumes run: "running_ok s" and pre: "active_pre s"
  shows "host_ok (recover_cold env request s)"
proof -
  define s1 where "s1 = on_queue (markCold request) (set_active (\<lambda>a. a\<lparr>ar_mode := Some recovery_cold\<rparr>) s)"
  obtain cache recent where c: "current_checkpoint (he_now env) (hs_cache s1) = (cache, recent)"
    by (cases "current_checkpoint (he_now env) (hs_cache s1)")
  define s2 where "s2 = s1\<lparr>hs_cache := cache\<rparr>"
  define s3 where "s3 = (case (jm_get (hs_coldPreparations s2) (recoveryKey request), recent) of
                  (None, Some ck) \<Rightarrow> new_preparation \<lparr>pr_request = request, pr_checkpoint = Some ck, pr_aborted = False,
                     pr_status = prep_ready, pr_stage = PrepHandled\<rparr> s2
                | _ \<Rightarrow> s2)"
  have v: "base_view s3 = base_view (set_active (\<lambda>a. a\<lparr>ar_mode := Some recovery_cold\<rparr>) s)"
    by (simp add: s3_def s2_def s1_def split: option.split)
  have r3: "running_ok s3" "active_pre s3"
    unfolding running_ok_cong [OF v] active_pre_cong [OF v] using run pre by simp_all
  have requeued: "host_ok (wait_at RecoverSettled (on_queue (requeue request) s3))"
    by (rule recover_settled_ok)
      (use r3 running_ok_cong [of "on_queue (requeue request) s3" s3] predicates_cong(2) [of "on_queue (requeue request) s3" s3]
        active_preD(2) [OF r3(2)] in simp_all)
  have started: "host_ok (wait_at RecoverSettled (startColdPreparation env request s3))"
    by (rule recover_settled_ok)
      (use r3 running_ok_cong [of "startColdPreparation env request s3" s3]
        predicates_cong(2) [of "startColdPreparation env request s3" s3] active_preD(2) [OF r3(2)] in simp_all)
  have settled: "host_ok (wait_at RecoverSettled s3)" by (rule recover_settled_ok) (use r3 active_preD(2) in simp_all)
  have "recover_cold env request s = (case jm_get (hs_coldPreparations s3) (recoveryKey request) of
           None \<Rightarrow> wait_at RecoverSettled
             (if hs_coldBuildInFlight s3 = None \<and> coldCaptureReadyAt request s3 \<le> he_now env
              then startColdPreparation env request s3 else on_queue (requeue request) s3)
         | Some i \<Rightarrow> if pr_status (hs_preparations s3 ! i) \<noteq> prep_ready then wait_at RecoverSettled s3
                     else deliverPreparedCold env i s3)"
    unfolding recover_cold_def Let_def s1_def [symmetric] c prod.case s2_def [symmetric] s3_def ..
  then show ?thesis
    using requeued started settled deliverPreparedCold_ok [OF r3, of env] by (simp split: option.split)
qed

lemma recover_ok:
  assumes run: "running_ok s" and pre: "active_pre s"
  shows "host_ok (recover env request s)"
proof -
  have "running_ok (host_effect (UnavailableSent c r) s)" for c r
    using run host_effect_base [OF running_okD(1) [OF run], of "UnavailableSent c r"] by (simp add: running_ok_def)
  then have u: "host_ok (sendReplayUnavailable env request reason s)" for reason
    using active_preD(2) [OF pre] run
    by (auto simp: sendReplayUnavailable_def intro!: recover_settled_ok drain_settled_point_ok)
  show ?thesis
    using u recover_cold_ok [OF run pre, of env request] pauseCanonical_ok [OF run pre] by (simp add: recover_def split: option.split)
qed

section \<open>The flush\<close>

lemma flush_ok:
  assumes run: "running_ok s" and pre: "active_pre s" and plan: "plan_ok plan"
    and held: "\<not> is_aborted s \<Longrightarrow> held (hs_publisher s)"
    and p0: "publisher_inv p0" "cp_effects p0 = cp_effects (hs_publisher s)" "cp_stopped p0 = cp_stopped (hs_publisher s)"
      "held p0 = held (hs_publisher s)"
    and r: "flush_run throws (pl_commit plan) p0 = (p, r)"
  shows "host_ok (wait_at (flush_outcome plan r) (set_publisher p s))"
proof -
  have b: "base_inv s" using run by (rule running_okD)
  note g = flush_run_gates [OF p0(1), of throws "pl_commit plan", unfolded r fst_conv]
  obtain es where es: "cp_effects p = cp_effects (hs_publisher s) @ es"
    using flush_run_grows [of p0 throws "pl_commit plan"] unfolding r grows_def p0(2) by auto
  have quiet: "hs_failed s \<longrightarrow> silent es"
    using flush_run_quiet [OF p0(1), of throws "pl_commit plan"] base_invD(5) [OF b] es p0 r by auto
  have base: "base_inv (set_publisher p s)"
    by (rule set_publisher_base [OF b _ _ es quiet])
      (use flush_run_inv(1) [OF p0(1), of throws "pl_commit plan"] r g(1) p0(3) base_invD(5) [OF b] in simp_all)
  then have run': "running_ok (set_publisher p s)"
    using run g(1) p0(3) by (simp add: running_ok_def publisher_linked_def)
  have sent: "sent_up_to (publisher_log (hs_log (set_publisher p s))) (pl_commit plan)"
    if "r = Some (Inr u)" "\<not> is_aborted s" for u
  proof -
    have "\<not> cp_stopped p0"
      using that(2) failed_aborted [OF b] running_okD(3) [OF run] p0(3) by (auto simp: publisher_linked_def)
    from flush_run_sent [OF p0(1) this, of throws "pl_commit plan"] that(1) r
    have "sent_up_to (cp_effects p) (pl_commit plan)" by simp
    then show ?thesis using base_invD(1) [OF base] by simp
  qed
  show ?thesis
    by (rule wait_at_ok [OF run'])
      (use active_preD(3) [OF pre] plan held g(4) p0(4) sent in \<open>auto simp: flush_outcome_def split: option.split\<close>)
qed

lemma flushCanonicalThrough_ok:
  assumes "running_ok s" "active_pre s" "plan_ok plan" "\<not> is_aborted s \<Longrightarrow> held (hs_publisher s)"
  shows "host_ok (flushCanonicalThrough env plan s)"
proof -
  obtain p r where e: "flush_run (he_throws env) (pl_commit plan) (hs_publisher s) = (p, r)"
    by (cases "flush_run (he_throws env) (pl_commit plan) (hs_publisher s)")
  have "host_ok (wait_at (flush_outcome plan r) (set_publisher p s))"
    by (rule flush_ok [OF assms base_invD(3) [OF running_okD(1) [OF assms(1)]] refl refl refl e])
  then show ?thesis by (simp add: flushCanonicalThrough_def flushThrough_def e)
qed

lemma flush_continues_ok:
  assumes "running_ok s" "active_pre s" "plan_ok plan" "\<not> is_aborted s \<Longrightarrow> held (hs_publisher s)"
  shows "host_ok (flush_continues env plan s)"
proof (cases "pl_commit plan \<in> set (cp_flushes (hs_publisher s))")
  case False
  then have "flush_continues env plan s = wait_at (AwaitFlush plan) s"
    by (simp add: flush_continues_def flush_resumes_def flush_outcome_def set_publisher_def)
  moreover have "host_ok (wait_at (AwaitFlush plan) s)" by (rule wait_at_ok) (use assms active_preD(3) in simp_all)
  ultimately show ?thesis by simp
next
  case True
  let ?p0 = "(hs_publisher s)\<lparr>cp_flushes := remove1 (pl_commit plan) (cp_flushes (hs_publisher s))\<rparr>"
  obtain p r where e: "flush_run (he_throws env) (pl_commit plan) ?p0 = (p, r)"
    by (cases "flush_run (he_throws env) (pl_commit plan) ?p0")
  have "host_ok (wait_at (flush_outcome plan r) (set_publisher p s))"
    by (rule flush_ok [OF assms _ _ _ _ e]) (use base_invD(3) [OF running_okD(1) [OF assms(1)]] in \<open>simp_all add: held_def\<close>)
  then show ?thesis using True by (simp add: flush_continues_def flush_resumes_def e)
qed

section \<open>After the pause\<close>

lemma within_limits_plan:
  assumes "deliveryOutstandingBytes (credit_cursor base) (credit_cursor commit) = Some n" "within_replay_limits n frames"
  shows "plan_ok \<lparr>pl_preparation = i, pl_identity = delivery_identity request mode commit, pl_base = base, pl_commit = commit,
    pl_replay = frames\<rparr>"
  using assms by (auto simp: plan_ok_def within_replay_limits_def)

lemma warm_after_pause_ok:
  assumes run: "running_ok s" and pre: "active_pre s" and held: "\<not> is_aborted s \<Longrightarrow> held (hs_publisher s)"
  shows "host_ok (warm_after_pause env request live s)"
proof -
  let ?w = "set_active (\<lambda>a. a\<lparr>ar_mode := Some recovery_warm\<rparr>) s"
  have "hs_publisher ?w = hs_publisher s" by (simp add: set_active_def)
  then have r: "running_ok ?w" "active_pre ?w" "\<not> is_aborted ?w \<Longrightarrow> held (hs_publisher ?w)"
    using run pre held by simp_all
  have cold: "host_ok (recover_cold env request (resumeCanonical env s))"
    by (rule recover_cold_ok [OF resume_running [OF run]]) (use pre in \<open>simp add: active_pre_def\<close>)
  obtain a where a: "hs_activeRecovery s = Some a" using active_preD(1) [OF pre] by blast
  show ?thesis
    using cold recover_catch_ok [OF run a] flushCanonicalThrough_ok [OF r(1,2) within_limits_plan r(3)]
    by (auto simp: warm_after_pause_def Let_def split: JournalReplay.split option.split)
qed

lemma cold_after_pause_ok:
  assumes run: "running_ok s" and pre: "active_pre s" and held: "\<not> is_aborted s \<Longrightarrow> held (hs_publisher s)"
  shows "host_ok (cold_after_pause env request i ck s)"
proof -
  let ?u = "invalidateCheckpoint (he_now env) ck s"
  have "running_ok ?u" "hs_activeRecovery ?u \<noteq> None"
    using run running_ok_cong [of ?u s] active_preD(1) [OF pre] base_view_eq [of ?u s] by simp_all
  then have u: "host_ok (wait_at (DeliverySettled (Some i) (Inl e)) ?u)" for e by (rule settled_error_ok)
  show ?thesis
    using u settled_error_ok [OF run active_preD(1) [OF pre]] flushCanonicalThrough_ok [OF run pre within_limits_plan held]
    by (auto simp: cold_after_pause_def Let_def split: JournalReplay.split option.split)
qed

lemma after_pause_ok:
  assumes run: "running_ok s" and pre: "active_pre s" and held: "\<not> is_aborted s \<Longrightarrow> ok \<Longrightarrow> held (hs_publisher s)"
    and same: "host_ok s"
  shows "host_ok (after_pause env i ok s)"
proof -
  obtain a where a: "hs_activeRecovery s = Some a" using active_preD(1) [OF pre] by blast
  have settled: "host_ok (wait_at RecoverSettled s)" by (rule recover_settled_ok) (use run active_preD(2) [OF pre] in simp_all)
  show ?thesis
    using same settled recover_catch_ok [OF run a] settled_error_ok [OF run active_preD(1) [OF pre]]
      warm_after_pause_ok [OF run pre] cold_after_pause_ok [OF run pre] held a
    by (auto simp: after_pause_def split: option.split)
qed

section \<open>The barrier\<close>

lemma log_inv_fresh: "log_inv log failed n False \<Longrightarrow> log_inv log failed n' False"
  by (simp add: log_inv_def)

text \<open>The marker is handed over: a new barrier, at once rejected if the send threw.\<close>

lemma handed_base:
  assumes inv: "base_inv s" and go: "\<not> hs_failed s" and calm: "\<not> in_doubt s"
    and w: "waiter_inv w" "bw_disposedReason w = None" "bw_nextId w = Suc i"
      "\<And>p. bw_pending w = Some p \<Longrightarrow> pb_id p = i"
    and es: "bw_effects w = bw_effects (hs_barriers s) @ es" "\<And>j. MarkerSentCallback j \<notin> set es"
  shows "base_inv (set_barriers w s)"
proof -
  note l = set_barriers_log [OF es(1)]
  have "log_inv (hs_log s) (hs_failed s) (Suc i) False"
    using base_invD(9) [OF inv] calm log_inv_fresh by simp
  then have "log_inv (hs_log s @ map FromBarrier es) (hs_failed s) (Suc i) False"
    by (rule log_inv_append) (use go es(2) in auto)
  then show ?thesis using base_invD(1-7) [OF inv] w es(1) go calm by (auto simp: base_inv_alt l)
qed

lemma waitForDeliveryBarrier_ok:
  assumes run: "running_ok s" and pre: "active_pre s" and plan: "plan_ok plan" and live: "\<not> is_aborted s"
    and held: "held (hs_publisher s)" and sent: "sent_up_to (publisher_log (hs_log s)) (pl_commit plan)"
  shows "host_ok (waitForDeliveryBarrier env plan s)"
proof -
  have b: "base_inv s" using run by (rule running_okD)
  let ?w = "hs_barriers s"
  have go: "\<not> hs_failed s" using live failed_aborted [OF b] by blast
  have d: "bw_disposedReason ?w = None" using base_invD(6) [OF b] go by simp
  have n: "bw_pending ?w = None" using running_okD(2) [OF run] by (simp add: no_barrier_def)
  have wi: "waiter_inv (fst (barrier_wait x a ep send cb ?w))" for x a ep send cb by (rule wait_inv [OF base_invD(4) [OF b]])
  show ?thesis
  proof (cases "encode_marker (session_epoch env) (pl_identity plan)")
    case (Inl e)
    then show ?thesis
      using settled_error_ok [OF run active_preD(1) [OF pre]] live go d n
      by (simp add: waitForDeliveryBarrier_def barrier_wait_def set_barriers_same)
  next
    case (Inr m)
    let ?i = "bw_nextId ?w"
    let ?p = "\<lparr>pb_id = ?i, pb_expected = pl_identity plan, pb_earlyResult = None, pb_markerSent = False\<rparr>"
    let ?w1 = "barrier_effect (MarkerHanded ?i m) (?w\<lparr>bw_nextId := Suc ?i, bw_pending := Some ?p\<rparr>)"
    define threw where "threw = (he_receiptThrows env \<and> \<not> hs_failed s)"
    define w where "w = (if threw then rejectPending ?i SendError ?w1 else ?w1)"
    have bw: "barrier_wait (pl_identity plan) (is_aborted s \<or> hs_failed s) (session_epoch env)
        (if he_receiptThrows env \<and> \<not> hs_failed s then SendThrows else SendPromises) CallbackReturns ?w = (w, Inr ?i)"
      using live go d n Inr by (simp add: barrier_wait_def Let_def w_def threw_def)
    have eq: "waitForDeliveryBarrier env plan s = wait_at (AwaitVerdict plan ?i) (set_barriers w s)"
      unfolding waitForDeliveryBarrier_def bw by simp
    define es where "es = (MarkerHanded ?i m) # (if threw then [BarrierRejected ?i SendError] else [])"
    have e: "bw_effects w = bw_effects ?w @ es"
      by (simp add: w_def es_def rejectPending_effects pending_is_def)
    have wf: "waiter_inv w" using wi [of "pl_identity plan" "is_aborted s \<or> hs_failed s"] unfolding bw [symmetric]
      by (metis bw fst_conv)
    have f: "bw_disposedReason w = None" "bw_nextId w = Suc ?i" "bw_pending w = (if threw then None else Some ?p)"
      by (simp_all add: w_def rejectPending_effects d pending_is_def)
    have base: "base_inv (set_barriers w s)"
      by (rule handed_base [OF b go active_preD(2) [OF pre] wf f(1,2) _ e]) (use f(3) in \<open>auto simp: es_def split: if_splits\<close>)
    note l = set_barriers_log [OF e]
    have since: "since_marker (hs_log (set_barriers w s)) plan ?i (map FromBarrier (tl es)) []" if "\<not> threw"
      unfolding since_marker_def l using Inr sent that by (intro exI [of _ "hs_log s"]) (auto simp: es_def)
    have "verdict_ok (set_barriers w s) plan ?i"
    proof (cases threw)
      case True
      then have "BarrierRejected ?i SendError \<in> set (bw_effects w)" by (simp add: e es_def)
      then show ?thesis using f(2) active_preD(3) [OF pre] by (auto simp: verdict_ok_def phase_in_def)
    next
      case False
      then show ?thesis
        using since f active_preD(3) [OF pre] held live by (auto simp: verdict_ok_def phase_in_def)
    qed
    moreover have "publisher_linked (set_barriers w s)" "hs_recoveriesRunning (set_barriers w s)"
      using running_okD(3,4) [OF run] by (simp_all add: publisher_linked_def)
    moreover have "bw_pending w = Some q \<Longrightarrow> pb_id q = ?i" for q using f(3) by (auto split: if_splits)
    ultimately have "host_ok (wait_at (AwaitVerdict plan ?i) (set_barriers w s))"
      using base plan by (intro wait_at_verdict_ok) simp_all
    then show ?thesis unfolding eq .
  qed
qed

lemma after_flush_ok:
  assumes run: "running_ok s" and pre: "active_pre s" and plan: "plan_ok plan"
    and live: "\<not> is_aborted s \<Longrightarrow> held (hs_publisher s)"
      "\<And>u. r = Inr u \<Longrightarrow> \<not> is_aborted s \<Longrightarrow> sent_up_to (publisher_log (hs_log s)) (pl_commit plan)"
  shows "host_ok (after_flush env plan r s)"
  using settled_error_ok [OF run active_preD(1) [OF pre]] waitForDeliveryBarrier_ok [OF run pre plan] live
  by (auto simp: after_flush_def split: sum.split)

end
