(* ===== verification/Delivery_Verdicts.thy ===== *)
theory Delivery_Verdicts
  imports Delivery_Runs
begin

text \<open>
  The second half of a recovery: from the relay's verdict over the directed replay to the commit, the end of the recovery and
  the passes over the queue.
\<close>

section \<open>The outcome of a barrier\<close>

lemma settles_twice:
  assumes "count_list (concat (map settles_id es)) i \<le> 1" and "e \<in> set es" "f \<in> set es"
    and "settles_id e = [i]" "settles_id f = [i]"
  shows "e = f"
  using assms
proof (induction es)
  case (Cons x es)
  have pos: "count_list (concat (map settles_id es)) i \<noteq> 0" if "y \<in> set es" "settles_id y = [i]" for y
  proof -
    have "i \<in> set (concat (map settles_id es))" using that by (auto intro!: bexI [of _ y])
    then show ?thesis by (simp only: count_list_0_iff not_not)
  qed
  from Cons.prems(2-) consider "e = x" "f = x" | "e = x" "f \<in> set es" | "e \<in> set es" "f = x" | "e \<in> set es" "f \<in> set es"
    by auto
  then show ?case
  proof cases
    case 2
    then show ?thesis using Cons.prems pos [of f] by simp
  next
    case 3
    then show ?thesis using Cons.prems pos [of e] by simp
  next
    case 4
    then show ?thesis using Cons by simp
  qed simp
qed simp

lemma settled_once:
  assumes "waiter_inv w" "e \<in> set (bw_effects w)" "f \<in> set (bw_effects w)" "settles_id e = [i]" "settles_id f = [i]"
  shows "e = f" "bw_pending w = Some p \<Longrightarrow> pb_id p \<noteq> i"
proof -
  have "count_list (settled_barriers w) i \<le> 1"
  proof -
    have "count_list (pending_barriers w) i + count_list (settled_barriers w) i \<le> 1" using assms(1) by (simp add: waiter_inv_def)
    then show ?thesis by linarith
  qed
  then show "e = f" using settles_twice assms(2-) unfolding settled_barriers_def by blast
  show "bw_pending w = Some p \<Longrightarrow> pb_id p \<noteq> i"
    using count_settled_le [OF assms(1), of p] assms(2,4) unfolding settled_mem by auto
qed

lemma barrier_outcome_effect:
  assumes "barrier_outcome i s = Some outcome"
  obtains e where "outcome = Inl e" "BarrierRejected i e \<in> set (bw_effects (hs_barriers s))"
    | b r where "outcome = Inr r" "BarrierResolved i b r \<in> set (bw_effects (hs_barriers s))"
proof -
  have "outcome \<in> set (List.map_filter (settlement i) (bw_effects (hs_barriers s)))"
    using assms by (auto simp: barrier_outcome_def split: list.splits)
  then obtain x where x: "x \<in> set (bw_effects (hs_barriers s))" "settlement i x = Some outcome"
    by (auto simp: List.map_filter_def)
  show ?thesis
  proof (cases x)
    case (BarrierResolved j b r)
    then show ?thesis using that(2) x by (auto split: if_splits)
  next
    case (BarrierRejected j e)
    then show ?thesis using that(1) x by (auto split: if_splits)
  qed (use x in simp_all)
qed

text \<open>At every point but the verdict's, and there once it is settled, no barrier is pending.\<close>

lemma point_running:
  assumes ok: "host_ok s" and d: "hs_drain s \<noteq> NoDrain" "\<And>plan i. hs_drain s \<noteq> AwaitVerdict plan i"
  shows "running_ok s" "point_ok s (hs_drain s)"
  using assms by (auto simp: host_ok_def host_inv_def drain_inv_def running_ok_def no_barrier_def split: option.split)

section \<open>The directed replay\<close>

lemma rewrite_plan_snoc: "rewrite_plan plan sent = Inr ds \<Longrightarrow>
    rewriteDelivery b (bigint_of (bi_deliveryGeneration (pl_identity plan))) (bi_streamId (pl_identity plan)) = Inr d \<Longrightarrow>
    rewrite_plan plan (sent @ [b]) = Inr (ds @ [d])"
  by (auto simp: rewrite_plan_def mapR_Inr_iff intro: list_all2_appendI)

lemma replaying_sent:
  assumes rep: "replaying s plan r (b # rest) c"
    and d: "rewriteDelivery b (bigint_of (bi_deliveryGeneration (pl_identity plan))) (bi_streamId (pl_identity plan)) = Inr d"
      "decodeDataFrame b = Inr f"
    and s': "hs_publisher s' = hs_publisher s" "hs_barriers s' = hs_barriers s" "phase_in {pinned} s' = phase_in {pinned} s"
      "hs_log s' = hs_log s @ [DirectedSent d]"
  shows "replaying s' plan r rest (cursorAfter f)"
proof -
  from rep obtain i mid ds sent where r: "pl_replay plan = sent @ b # rest" "rewrite_plan plan sent = Inr ds"
      "replay_end (pl_base plan) sent = Some c" "Suc i = bw_nextId (hs_barriers s)" "since_marker (hs_log s) plan i mid ds"
      "FromBarrier (BarrierResolved i (pl_identity plan) r) \<in> set mid" "br_status r = barrier_ready" "plan_ok plan"
      "held (hs_publisher s)" "phase_in {pinned} s"
    unfolding replaying_def by blast
  have "pl_replay plan = (sent @ [b]) @ rest" using r(1) by simp
  moreover have "rewrite_plan plan (sent @ [b]) = Inr (ds @ [d])" by (rule rewrite_plan_snoc [OF r(2) d(1)])
  moreover have "replay_end (pl_base plan) (sent @ [b]) = Some (cursorAfter f)" using r(3) d(2) by (simp add: replay_end_append)
  moreover have "since_marker (hs_log s') plan i (mid @ [DirectedSent d]) (ds @ [d])"
    unfolding s'(4) by (rule since_marker_append [OF r(5)]) simp
  moreover have "FromBarrier (BarrierResolved i (pl_identity plan) r) \<in> set (mid @ [DirectedSent d])" using r(6) by simp
  ultimately show ?thesis unfolding replaying_def using r(4,7-10) s'(1-3) by metis
qed

lemma sendData_running:
  assumes "running_ok s" "sendData env tag frame s = (s', ok)"
    and "publisher_part (tag frame) = []" "barrier_part (tag frame) = []" "tag frame \<noteq> PairClosed"
    and "\<And>bs. tag frame = CommitSent bs \<Longrightarrow> commit_shape (hs_log s) bs"
  shows "running_ok s'"
  using assms(1) sendData_base [OF running_okD(1) [OF assms(1)] assms(2-)] sendData_fields [OF assms(2)]
  by (simp add: running_ok_def)

lemma replay_settled_error_ok: "running_ok s \<Longrightarrow> phase_in {pinned} s \<Longrightarrow> host_ok (wait_at (ReplaySettled plan r (Inl e)) s)"
  by (rule wait_at_ok) simp_all

lemma replay_loop_ok:
  "running_ok s \<Longrightarrow> replaying s plan r rest cursor \<Longrightarrow> host_ok (replay_loop env plan r b n rest cursor s)"
proof (induction env plan r b n rest cursor s rule: replay_loop.induct)
  case (1 env plan r b n cursor s)
  have "phase_in {pinned} s" using 1(2) by (simp add: replaying_def)
  moreover have "sameReplayCursor cursor (pl_commit plan) \<Longrightarrow> cursor = pl_commit plan"
    by (simp add: sameReplayCursor_def)
  ultimately show ?case using 1 by (auto intro!: wait_at_ok)
next
  case (2 env plan r b n encoded rest cursor s)
  note run = "2.prems"(1) and rep = "2.prems"(2)
  have ph: "phase_in {pinned} s" using rep by (simp add: replaying_def)
  note err = replay_settled_error_ok [OF run ph]
  show ?case
  proof (cases "is_aborted s")
    case True
    then show ?thesis using err by simp
  next
    case live: False
    show ?thesis
    proof (cases "rewriteDelivery encoded (bigint_of (bi_deliveryGeneration (pl_identity plan))) (bi_streamId (pl_identity plan))")
      case (Inl e)
      then show ?thesis using err live by simp
    next
      case directed: (Inr directed)
      obtain s1 ok where send: "sendData env DirectedSent directed s = (s1, ok)" by (cases "sendData env DirectedSent directed s")
      have run1: "running_ok s1" by (rule sendData_running [OF run send]) simp_all
      note f = sendData_fields [OF send]
      have err1: "host_ok (wait_at (ReplaySettled plan r (Inl e)) s1)" for e
        by (rule replay_settled_error_ok [OF run1]) (use ph f in simp)
      show ?thesis
      proof (cases "ok \<and> (\<exists>frame. decodeDataFrame encoded = Inr frame)")
        case False
        then show ?thesis using live directed send err1 by (cases ok) (auto split: sum.split)
      next
        case True
        then obtain frame where frame: "decodeDataFrame encoded = Inr frame" and ok: "ok" by blast
        have rep1: "replaying s1 plan r rest (cursorAfter frame)"
          by (rule replaying_sent [OF rep directed frame]) (use f ok in simp_all)
        have "host_ok (wait_at (AwaitReplay plan r rest (cursorAfter frame)) s1)" by (rule wait_at_ok [OF run1]) (use rep1 in simp)
        moreover have "host_ok (replay_loop env plan r (b + int (length directed)) (n + 1) rest (cursorAfter frame) s1)"
          if "\<not> yields (b + int (length directed)) (n + 1)"
          using "2.IH" live directed send frame ok that run1 rep1 by simp
        ultimately show ?thesis using live directed send frame ok by (simp add: Let_def)
      qed
    qed
  qed
qed

section \<open>The commit\<close>

lemma set_phase_active: "(hs_activeRecovery (set_phase ph s) = None) = (hs_activeRecovery s = None)"
  by (simp add: set_phase_def set_active_def)

lemma replaying_commit_shape:
  assumes "replaying s plan r [] (pl_commit plan)" "commit_frame plan = Inr bs"
  shows "commit_shape (hs_log s) bs"
  using assms unfolding replaying_def commit_shape_def append_Nil2 by metis

lemma replaying_concluded:
  assumes rep: "replaying s plan r rest c" and i: "Suc i = bw_nextId (hs_barriers s)"
  shows "concluded (hs_log s @ [CommitSent bs]) i"
proof -
  from rep obtain j mid ds where m: "Suc j = bw_nextId (hs_barriers s)" "since_marker (hs_log s) plan j mid ds"
      "FromBarrier (BarrierResolved j (pl_identity plan) r) \<in> set mid" unfolding replaying_def by blast
  then have "FromBarrier (BarrierResolved i (pl_identity plan) r) \<in> set (hs_log s)"
    using i unfolding since_marker_def by (metis UnI2 list.set_intros(2) nat.inject set_append)
  then obtain xs ys where "hs_log s = xs @ FromBarrier (BarrierResolved i (pl_identity plan) r) # ys"
    by (metis split_list)
  then have "hs_log s @ [CommitSent bs] = xs @ FromBarrier (BarrierResolved i (pl_identity plan) r) # (ys @ [CommitSent bs])" by simp
  then show ?thesis unfolding concluded_def by fastforce
qed

lemma after_replay_ok:
  assumes run: "running_ok s" and pt: "point_ok s (ReplaySettled plan r outcome)"
  shows "host_ok (after_replay env plan r outcome s)"
proof -
  have ph: "phase_in {pinned} s" using pt by simp
  note active = phase_in_active [OF ph]
  note err = settled_error_ok [OF run active]
  show ?thesis
  proof (cases outcome)
    case (Inl e)
    then show ?thesis using err by (simp add: after_replay_def)
  next
    case (Inr u)
    have rep: "replaying s plan r [] (pl_commit plan)" using pt Inr by simp
    show ?thesis
    proof (cases "commit_frame plan")
      case (Inl e)
      then show ?thesis using err Inr by (simp add: after_replay_def)
    next
      case frame: (Inr frame)
      obtain s1 ok where send: "sendData env CommitSent frame s = (s1, ok)" by (cases "sendData env CommitSent frame s")
      note f = sendData_fields [OF send]
      have run1: "running_ok s1"
        by (rule sendData_running [OF run send]) (use replaying_commit_shape [OF rep frame] in simp_all)
      have a1: "hs_activeRecovery s1 \<noteq> None" using active f by simp
      show ?thesis
      proof (cases ok)
        case False
        then show ?thesis using Inr frame send settled_error_ok [OF run1 a1] by (simp add: after_replay_def)
      next
        case True
        have "base_inv (set_phase committed s1)"
        proof (rule set_phase_base [OF running_okD(1) [OF run1]])
          fix i assume "Suc i = bw_nextId (hs_barriers s1)"
          then show "concluded (hs_log s1) i" using replaying_concluded [OF rep] f True by simp
        qed
        then have "running_ok (set_phase committed s1)" using run1 by (simp add: running_ok_def)
        then have "running_ok (resumeCanonical env (set_phase committed s1))" by (rule resume_running)
        then have "host_ok (wait_at (DeliverySettled (pl_preparation plan) (Inr r)) (resumeCanonical env (set_phase committed s1)))"
          by (rule wait_at_ok) (use a1 set_phase_active in simp)
        then show ?thesis using Inr frame send True by (simp add: after_replay_def)
      qed
    qed
  qed
qed

section \<open>The verdict\<close>

lemma after_verdict_ok:
  assumes ok: "host_ok s" and d: "hs_drain s = AwaitVerdict plan i" and out: "barrier_outcome i s = Some outcome"
  shows "host_ok (after_verdict env plan outcome s)"
proof -
  have b: "base_inv s" and pt: "plan_ok plan" "verdict_ok s plan i"
    and dr: "\<And>p. bw_pending (hs_barriers s) = Some p \<Longrightarrow> pb_id p = i" and l: "publisher_linked s" "hs_recoveriesRunning s"
    using ok d by (auto simp: host_ok_def host_inv_def drain_inv_def)
  note w = base_invD(4) [OF b]
  let ?s1 = "s\<lparr>hs_barrierTimer := None\<rparr>"
  have v: "base_view ?s1 = base_view s" by (simp add: base_view_def)
  have ph: "phase_in {pre_marker, marker_uncertain} s" and n: "Suc i = bw_nextId (hs_barriers s)"
    using pt(2) by (simp_all add: verdict_ok_def)
  note active = phase_in_active [OF ph]
  have run: "running_ok ?s1" if "e \<in> set (bw_effects (hs_barriers s))" "settles_id e = [i]" for e
  proof -
    have "no_barrier s" using settled_once(2) [OF w that(1,1,2,2)] dr
      by (cases "bw_pending (hs_barriers s)") (auto simp: no_barrier_def)
    then show ?thesis unfolding running_ok_cong [OF v] using b l by (simp add: running_ok_def)
  qed
  from out show ?thesis
  proof (cases rule: barrier_outcome_effect)
    case (1 e)
    have "running_ok ?s1" by (rule run [OF 1(2)]) simp
    then show ?thesis unfolding 1 after_verdict_def Let_def sum.case by (rule settled_error_ok) (use active in simp)
  next
    case (2 b' r)
    note res = 2(2)
    have r1: "running_ok ?s1" by (rule run [OF res]) simp
    have nr: "BarrierRejected i e \<notin> set (bw_effects (hs_barriers s))" for e
      using settled_once(1) [OF w res, of "BarrierRejected i e" i] by auto
    obtain mid r' where mid: "held (hs_publisher s)" "since_marker (hs_log s) plan i mid []"
        "FromBarrier (BarrierResolved i (pl_identity plan) r') \<in> set mid" "phase_in {marker_uncertain} s"
      using pt(2) nr r1 predicates_cong(6) [OF v] by (auto simp: verdict_ok_def running_ok_def no_barrier_def)
    have "BarrierResolved i (pl_identity plan) r' \<in> set (bw_effects (hs_barriers s))"
      unfolding base_invD(2) [OF b, symmetric] barrier_log_mem using mid(2,3) by (auto simp: since_marker_def)
    then have same: "b' = pl_identity plan" "r' = r"
      using settled_once(1) [OF w res, of "BarrierResolved i (pl_identity plan) r'" i] by auto
    have log1: "hs_log ?s1 = hs_log s" "hs_barriers ?s1 = hs_barriers s" "hs_publisher ?s1 = hs_publisher s" "hs_activeRecovery ?s1 \<noteq> None"
      using active by simp_all
    show ?thesis
    proof (cases "br_status r = barrier_ready")
      case False
      have c: "concluded (hs_log s) i"
      proof -
        have "FromBarrier (BarrierResolved i (pl_identity plan) r) \<in> set (hs_log s)"
          using mid(2,3) same by (auto simp: since_marker_def)
        then show ?thesis unfolding concluded_def using False by (metis split_list)
      qed
      have only: "j = i" if "Suc j = bw_nextId (hs_barriers s)" for j using that n by linarith
      have "base_inv (set_phase pre_marker ?s1)"
        by (rule set_phase_base [OF running_okD(1) [OF r1]]) (use c only in auto)
      then have "running_ok (set_phase pre_marker ?s1)" using r1 by (simp add: running_ok_def)
      then have "running_ok (resumeCanonical env (set_phase pre_marker ?s1))" by (rule resume_running)
      then have "host_ok (wait_at (DeliverySettled (pl_preparation plan) (Inr r)) (resumeCanonical env (set_phase pre_marker ?s1)))"
        by (rule wait_at_ok) (use active set_phase_active in simp)
      then show ?thesis using False 2(1) by (simp add: after_verdict_def Let_def)
    next
      case True
      have base: "base_inv (set_phase pinned ?s1)"
        by (rule set_phase_base [OF running_okD(1) [OF r1]]) (use log1 in simp)
      then have run2: "running_ok (set_phase pinned ?s1)" using r1 by (simp add: running_ok_def)
      have "replaying (set_phase pinned ?s1) plan r (pl_replay plan) (pl_base plan)"
        unfolding replaying_def
        by (intro conjI exI [of _ i] exI [of _ mid] exI [of _ "[]"])
          (use mid same n pt(1) active True in \<open>simp_all add: rewrite_plan_def\<close>)
      from replay_loop_ok [OF run2 this] show ?thesis using True 2(1) by (simp add: after_verdict_def Let_def)
    qed
  qed
qed

end
