(* ===== verification/Delivery_Passes.thy ===== *)
theory Delivery_Passes
  imports Delivery_Verdicts
begin

text \<open>
  The end of a recovery, the passes over the queue and every event keep the invariant of the delivery scheduler.
\<close>

section \<open>The end of a delivery and of a recovery\<close>

lemma after_delivery_ok:
  assumes run: "running_ok s" and pt: "point_ok s (DeliverySettled preparation outcome)"
  shows "host_ok (after_delivery env preparation outcome s)"
proof -
  obtain a where a: "hs_activeRecovery s = Some a" using pt by auto
  show ?thesis
  proof (cases outcome)
    case (Inl e)
    then show ?thesis using recover_catch_ok [OF run a] a by (simp add: after_delivery_def Let_def)
  next
    case (Inr r)
    have nd: "\<not> in_doubt s" using pt Inr by simp
    have ok: "host_ok (wait_at RecoverSettled t)" if "base_view t = base_view s" for t
      by (rule recover_settled_ok) (use run nd running_ok_cong [OF that] predicates_cong(2) [OF that] in simp_all)
    show ?thesis
      using a Inr by (auto simp: after_delivery_def Let_def intro!: ok split: option.split)
  qed
qed

text \<open>Replacing the active recovery, when none that matters is lost.\<close>

lemma set_active_running:
  assumes run: "running_ok s" and calm: "in_doubt s \<Longrightarrow> hs_failed s"
    and x: "\<And>a. x = Some a \<Longrightarrow> ar_phase a = pre_marker \<and> \<not> hs_failed s"
  shows "running_ok (s\<lparr>hs_activeRecovery := x\<rparr>)" "\<not> in_doubt (s\<lparr>hs_activeRecovery := x\<rparr>)"
proof -
  show nd: "\<not> in_doubt (s\<lparr>hs_activeRecovery := x\<rparr>)" using x by (auto simp: in_doubt_def phase_in_def)
  have "log_inv (hs_log s) (hs_failed s) (bw_nextId (hs_barriers s)) False"
    using base_invD(9) [OF running_okD(1) [OF run]] calm by (auto simp: log_inv_def)
  then have "base_inv (s\<lparr>hs_activeRecovery := x\<rparr>)"
    using base_invD(1-6,8) [OF running_okD(1) [OF run]] nd x by (auto simp: base_inv_alt)
  then show "running_ok (s\<lparr>hs_activeRecovery := x\<rparr>)"
    using run by (simp add: running_ok_def no_barrier_def publisher_linked_def)
qed

lemma drain_next_ok:
  assumes run: "running_ok s" and calm: "in_doubt s \<Longrightarrow> hs_failed s"
  shows "host_ok (drain_next env s)"
proof (cases "hs_pass s")
  case Nil
  then show ?thesis using drain_settled_point_ok [OF run calm] by (simp add: drain_next_def)
next
  case (Cons request rest)
  show ?thesis
  proof (cases "hs_failed s")
    case True
    then show ?thesis using Cons drain_settled_point_ok [OF run calm] by (simp add: drain_next_def)
  next
    case False
    let ?a = "\<lparr>ar_aborted = False, ar_mode = None, ar_phase = pre_marker, ar_request = request\<rparr>"
    let ?s1 = "s\<lparr>hs_pass := rest\<rparr>"
    have v: "base_view ?s1 = base_view s" by (simp add: base_view_def)
    have "running_ok ?s1" "in_doubt ?s1 \<Longrightarrow> hs_failed ?s1"
      using run calm running_ok_cong [OF v] predicates_cong(2) [OF v] by simp_all
    from set_active_running(1) [OF this, of "Some ?a"] False
    have "running_ok (?s1\<lparr>hs_activeRecovery := Some ?a\<rparr>)" by simp
    then have "host_ok (recover env request (?s1\<lparr>hs_activeRecovery := Some ?a\<rparr>))"
      by (rule recover_ok) (simp add: active_pre_def phase_in_def)
    then show ?thesis using Cons False by (simp add: drain_next_def)
  qed
qed

section \<open>Passes\<close>

lemma drainRecoveries_ok: "running_ok s \<Longrightarrow> (in_doubt s \<Longrightarrow> hs_failed s) \<Longrightarrow> host_ok (drainRecoveries env s)"
proof -
  assume run: "running_ok s" and calm: "in_doubt s \<Longrightarrow> hs_failed s"
  have "host_ok (drain_next env (s\<lparr>hs_queue := q, hs_pass := requests\<rparr>))" for q requests
  proof -
    have v: "base_view (s\<lparr>hs_queue := q, hs_pass := requests\<rparr>) = base_view s" by (simp add: base_view_def)
    show ?thesis by (rule drain_next_ok) (use run calm running_ok_cong [OF v] predicates_cong(2) [OF v] in simp_all)
  qed
  then show "host_ok (drainRecoveries env s)" by (simp add: drainRecoveries_def split: prod.split)
qed

text \<open>From a scheduler at rest a pass can start.\<close>

lemma rest_running:
  assumes ok: "host_ok s" and rest: "\<not> hs_recoveriesRunning s"
  shows "running_ok (s\<lparr>hs_recoveryTimer := t, hs_recoveriesRunning := True\<rparr>)"
    "in_doubt (s\<lparr>hs_recoveryTimer := t, hs_recoveriesRunning := True\<rparr>) \<Longrightarrow> hs_failed s"
proof -
  let ?s = "s\<lparr>hs_recoveryTimer := t, hs_recoveriesRunning := True\<rparr>"
  have n: "hs_drain s = NoDrain" and i: "base_inv s" "drain_inv s" and l: "publisher_linked s"
    using ok rest by (simp_all add: host_ok_def host_inv_def)
  have p: "phase_in P ?s = phase_in P s" "in_doubt ?s = in_doubt s" for P by (simp_all add: phase_in_def in_doubt_def)
  have "bw_pending (hs_barriers s) = None" using i(2) n by (cases "bw_pending (hs_barriers s)") (auto simp: drain_inv_def)
  moreover have "base_inv ?s" using i(1) unfolding base_inv_alt p by simp
  ultimately show "running_ok ?s" using l by (simp add: running_ok_def no_barrier_def publisher_linked_def)
  show "in_doubt ?s \<Longrightarrow> hs_failed s" using i(2) n p by (simp add: drain_inv_def)
qed

lemma schedule_ok:
  "host_ok s \<Longrightarrow> host_ok (scheduleRecoveries n env s)"
  "host_ok s \<Longrightarrow> host_ok (scheduleRecoveryTimer n env s)"
proof (induction n env s and n env s rule: scheduleRecoveries_scheduleRecoveryTimer.induct)
  case (1 env s)
  have "host_ok (s\<lparr>hs_stackOverflow := True\<rparr>) = host_ok s" by (rule host_ok_cong) (simp_all add: base_view_def)
  then show ?case using 1 by simp
next
  case (2 n env s)
  have "host_ok (drainRecoveries env (s\<lparr>hs_recoveryTimer := None, hs_recoveriesRunning := True\<rparr>))" if "\<not> hs_recoveriesRunning s"
    using rest_running [OF 2(2) that, of None] by (intro drainRecoveries_ok) simp_all
  then show ?case using 2 by simp
next
  case (3 env s)
  have "host_ok (s\<lparr>hs_stackOverflow := True\<rparr>) = host_ok s" by (rule host_ok_cong) (simp_all add: base_view_def)
  then show ?case using 3 by simp
next
  case (4 n env s)
  have "host_ok (s\<lparr>hs_recoveryTimer := t\<rparr>) = host_ok s" for t by (rule host_ok_cong) (simp_all add: base_view_def)
  then show ?case using 4 by (simp add: Let_def split: option.split)
qed

lemma schedulePending_ok: "host_ok s \<Longrightarrow> host_ok (schedulePendingRecoveries env s)"
  by (simp add: schedulePendingRecoveries_def schedule_ok)

lemma drain_settled_ok:
  assumes run: "running_ok s" and calm: "in_doubt s \<Longrightarrow> hs_failed s"
  shows "host_ok (drain_settled env ok s)"
proof -
  let ?s = "s\<lparr>hs_recoveriesRunning := False\<rparr>"
  have p: "phase_in P ?s = phase_in P s" "in_doubt ?s = in_doubt s" for P by (simp_all add: phase_in_def in_doubt_def)
  have i: "base_inv ?s" using running_okD(1) [OF run] unfolding base_inv_alt p by simp
  have n: "no_barrier ?s" using running_okD(2) [OF run] by (simp add: no_barrier_def)
  have "host_inv (wait_at NoDrain ?s)" by (rule wait_at_inv [OF i n]) (use calm p in simp)
  then have "host_ok (wait_at NoDrain ?s)"
    using running_okD(3) [OF run] by (simp add: host_ok_def publisher_linked_def) (simp add: wait_at_def)
  then show ?thesis by (simp add: drain_settled_def Let_def schedulePending_ok failPair_ok)
qed

section \<open>The recovery goes on\<close>

lemma recovery_continues_ok:
  assumes ok: "host_ok s"
  shows "host_ok (recovery_continues env s)"
proof (cases "hs_drain s")
  case NoDrain
  then show ?thesis using ok by (simp add: recovery_continues_def)
next
  case (AwaitPause preparation released)
  note r = point_running [OF ok, unfolded AwaitPause, simplified]
  show ?thesis
    using AwaitPause ok r after_pause_ok [OF r(1), of _ env preparation]
    by (auto simp: recovery_continues_def active_pre_def split: option.split)
next
  case (AwaitFlush plan)
  note r = point_running [OF ok, unfolded AwaitFlush, simplified]
  show ?thesis
    using AwaitFlush r flush_continues_ok [OF r(1), of plan env] by (simp add: recovery_continues_def active_pre_def)
next
  case (FlushSettled plan x)
  note r = point_running [OF ok, unfolded FlushSettled, simplified]
  show ?thesis
    using FlushSettled r after_flush_ok [OF r(1), of plan x env] by (simp add: recovery_continues_def active_pre_def)
next
  case (AwaitVerdict plan i)
  then show ?thesis
    using ok after_verdict_ok [OF ok AwaitVerdict, of _ env] by (auto simp: recovery_continues_def split: option.split)
next
  case (AwaitReplay plan x rest cursor)
  note r = point_running [OF ok, unfolded AwaitReplay, simplified]
  show ?thesis using AwaitReplay r replay_loop_ok [OF r] by (simp add: recovery_continues_def)
next
  case (ReplaySettled plan x outcome)
  note r = point_running [OF ok, unfolded ReplaySettled, simplified]
  show ?thesis using ReplaySettled after_replay_ok [OF r(1), of plan x outcome env] r(2) by (simp add: recovery_continues_def)
next
  case (DeliverySettled preparation outcome)
  note r = point_running [OF ok, unfolded DeliverySettled, simplified]
  show ?thesis
    using DeliverySettled after_delivery_ok [OF r(1), of preparation outcome env] r(2) by (simp add: recovery_continues_def)
next
  case RecoverSettled
  note r = point_running [OF ok, unfolded RecoverSettled, simplified]
  note n = set_active_running [OF r(1), of None]
  show ?thesis
    using RecoverSettled r n drain_next_ok [of "s\<lparr>hs_activeRecovery := None\<rparr>" env] by (simp add: recovery_continues_def)
next
  case (DrainSettled x)
  note r = point_running [OF ok, unfolded DrainSettled, simplified]
  show ?thesis using DrainSettled r drain_settled_ok [OF r(1), of env x] by (simp add: recovery_continues_def)
qed

end
