(* ===== verification/Delivery_Events.thy ===== *)
theory Delivery_Events
  imports Delivery_Passes
begin

text \<open>
  Every event of the delivery scheduler keeps its invariant; with the recovery's own runs that makes it an invariant machine.
\<close>

section \<open>Events of the publisher\<close>

lemma publisher_event_ok:
  assumes ok: "host_ok s" and st: "pub_step (hs_publisher s) p" "cp_stopped p = cp_stopped (hs_publisher s)"
  shows "host_ok (set_publisher p s)"
  using ok pub_step_inv_host [OF _ st(1)] st(2) by (auto simp: host_ok_def publisher_linked_def)

lemma failing_publisher_ok:
  assumes ok: "host_ok s" and st: "pub_step (hs_publisher s) p"
  shows "host_ok (on_failing_publisher p s)"
proof (cases "\<not> cp_stopped (hs_publisher s) \<and> cp_stopped p")
  case True
  have "host_inv (set_publisher p s)" using ok pub_step_inv_host [OF _ st] by (simp add: host_ok_def)
  from failPair_inv [OF this] show ?thesis using True ok by (simp add: on_failing_publisher_def host_ok_def)
next
  case False
  then have "cp_stopped p = cp_stopped (hs_publisher s)" using st by (auto simp: pub_step_def)
  then show ?thesis using False publisher_event_ok [OF ok st] by (auto simp: on_failing_publisher_def)
qed

lemma publisher_inv_of: "host_ok s \<Longrightarrow> publisher_inv (hs_publisher s)"
  using base_invD(3) by (simp add: host_ok_def host_inv_def)

lemma schedulePump_ok: "host_ok s \<Longrightarrow> host_ok (on_publisher (schedulePump throws) s)"
  unfolding on_publisher_def
  by (rule publisher_event_ok) (use schedulePump_step schedulePump_stopped publisher_inv_of in auto)

lemma pump_resumes_ok: "host_ok s \<Longrightarrow> host_ok (pump_resumes env s)"
  using publisher_event_ok [of s "run_pump (he_throws env) (hs_publisher s)"] run_pump_step run_pump_stopped(1) publisher_inv_of
  by (simp add: pump_resumes_def on_publisher_def)

lemma release_ok:
  assumes ok: "host_ok s" and h: "r \<Longrightarrow> cp_paused (hs_publisher s) \<Longrightarrow> held (hs_publisher s)"
  shows "host_ok (case hs_drain s of AwaitPause prep None \<Rightarrow> wait_at (AwaitPause prep (Some r)) s | _ \<Rightarrow> s)"
proof (cases "\<exists>prep. hs_drain s = AwaitPause prep None")
  case True
  then obtain prep where d: "hs_drain s = AwaitPause prep None" by blast
  note run = point_running [OF ok, unfolded d, simplified]
  have "host_ok (wait_at (AwaitPause prep (Some r)) s)" by (rule wait_at_ok [OF run(1)]) (use run(2) h in simp)
  then show ?thesis using d by simp
qed (use ok in \<open>auto split: RecoveryPoint.split option.split\<close>)

lemma pump_promise_settles_ok:
  assumes ok: "host_ok s"
  shows "host_ok (pump_promise_settles env s)"
proof -
  let ?p = "hs_publisher s"
  note inv = publisher_inv_of [OF ok]
  note st = pump_settled_step [OF inv, of "he_throws env"]
  show ?thesis
  proof (cases "cp_pumpPromise ?p")
    case PumpResolved
    have "host_ok (on_publisher (pump_settled (he_throws env)) s)"
      unfolding on_publisher_def by (rule publisher_event_ok [OF ok st pump_settled_stopped [OF inv PumpResolved]])
    moreover have "cp_paused (pump_settled (he_throws env) ?p) \<Longrightarrow> held (pump_settled (he_throws env) ?p)"
    proof -
      let ?q = "?p\<lparr>cp_pumpPromise := NoPump\<rparr>"
      have e: "pump_settled (he_throws env) ?p = schedulePump (he_throws env) ?q" using PumpResolved by (simp add: pump_settled_def)
      assume "cp_paused (pump_settled (he_throws env) ?p)"
      then have "cp_paused ?q" unfolding e using schedulePump_stopped(2) [OF pub_step_inv [OF cong_step(1) [OF inv]]] by simp
      then have "held ?q" by (simp add: held_def)
      then show "held (pump_settled (he_throws env) ?p)" unfolding e using schedulePump_held by simp
    qed
    ultimately show ?thesis
      using release_ok [of "set_publisher (pump_settled (he_throws env) ?p) s" True] PumpResolved
      by (simp add: pump_promise_settles_def Let_def on_publisher_def)
  next
    case PumpRejected
    show ?thesis
      using release_ok [OF failing_publisher_ok [OF ok st], of False] PumpRejected by (simp add: pump_promise_settles_def Let_def)
  qed (use ok in \<open>simp_all add: pump_promise_settles_def Let_def\<close>)
qed

section \<open>Canonical frames\<close>

lemma pressure_ok:
  assumes ok: "host_ok s"
  shows "host_ok (abortRecoveryForPressure env s)"
proof (cases "\<exists>a. hs_activeRecovery s = Some a \<and> ar_phase a = pre_marker")
  case False
  then show ?thesis using failPair_ok [OF ok] by (auto simp: abortRecoveryForPressure_def split: option.split)
next
  case True
  then obtain a where a: "hs_activeRecovery s = Some a" "ar_phase a = pre_marker" by blast
  define t where "t = on_queue (\<lambda>q. defer_recovery (he_now env) (ar_request a) SNAPSHOT_RECOVERY_QUIET_MS q)
              (discardColdPreparation (ar_request a) (on_queue (requeue (ar_request a)) s))"
  have v: "base_view t = base_view s" "hs_drain t = hs_drain s" by (simp_all add: t_def discardColdPreparation_def)
  have t: "host_ok t" "phase_in {pre_marker} t"
    using host_ok_cong [OF v] predicates_cong(1) [OF v(1), of "{pre_marker}"] ok a by (simp_all add: phase_in_def [of _ s])
  have "host_ok (resumeCanonical env (abort_active t))"
    by (rule resume_aborted_ok [OF abort_active_ok [OF t(1)]])
      (use t(2) abort_active_none phase_in_active [OF t(2)] in simp_all)
  then show ?thesis using a by (simp add: abortRecoveryForPressure_def t_def)
qed

lemma frame_arrives_ok:
  assumes ok: "host_ok s"
  shows "host_ok (frame_arrives env bs s)"
proof (cases "cp_subscribed (hs_publisher s)")
  case False
  then show ?thesis using ok by (simp add: frame_arrives_def)
next
  case sub: True
  let ?r = "push_canonical bs (can_interrupt s) (hs_publisher s)"
  note st = push_canonical_step [OF publisher_inv_of [OF ok] sub, of bs "can_interrupt s"]
  show ?thesis
  proof (cases "snd ?r")
    case None
    then show ?thesis
      using sub failing_publisher_ok [OF ok st] by (cases ?r) (simp add: frame_arrives_def)
  next
    case (Some pressure)
    let ?s1 = "(set_publisher (fst ?r) s)\<lparr>hs_lastCanonicalAt := Some (he_now env)\<rparr>"
    have "host_ok (set_publisher (fst ?r) s)"
      by (rule publisher_event_ok [OF ok st]) (use push_canonical_stopped [OF Some] in simp)
    moreover have "host_ok ?s1 = host_ok (set_publisher (fst ?r) s)" by (rule host_ok_cong) (simp_all add: base_view_def)
    ultimately have s1: "host_ok ?s1" by simp
    have "host_ok (on_publisher (publish_effect RecoveryPressure) ?s1)"
      unfolding on_publisher_def
      by (rule publisher_event_ok [OF s1 pressure_step [OF publisher_inv_of [OF s1]]]) (simp add: publish_effect_def)
    then have "host_ok (if pressure then abortRecoveryForPressure env (on_publisher (publish_effect RecoveryPressure) ?s1) else ?s1)"
      using s1 by (simp add: pressure_ok)
    from schedulePump_ok [OF this, of "he_throws env"] show ?thesis
      using sub Some by (cases ?r) (auto simp: frame_arrives_def Let_def)
  qed
qed

section \<open>Calls\<close>

lemma view_ok: "host_ok s \<Longrightarrow> base_view t = base_view s \<Longrightarrow> hs_drain t = hs_drain s \<Longrightarrow> host_ok t"
  using host_ok_cong by blast

lemma prepareHostReady_ok: "host_ok s \<Longrightarrow> host_ok (prepareHostReady env attached s)"
  unfolding prepareHostReady_def on_publisher_def
  by (rule publisher_event_ok) (use prepare_step publisher_inv_of in auto)

lemma activateHostReady_ok:
  assumes ok: "host_ok s"
  shows "host_ok (activateHostReady env c s)"
proof -
  obtain p r where a: "activate_publisher (he_throws env) c (hs_publisher s) = (p, r)"
    by (cases "activate_publisher (he_throws env) c (hs_publisher s)")
  note st = activate_step [OF publisher_inv_of [OF ok], of "he_throws env" c, unfolded a fst_conv]
  have p: "host_ok (set_publisher p s)" by (rule publisher_event_ok [OF ok st])
  then have "host_ok ((set_publisher p s)\<lparr>hs_ready := True\<rparr>)" by (rule view_ok) (simp_all add: base_view_def)
  with p show ?thesis by (auto simp: activateHostReady_def a schedule_ok split: sum.split)
qed

lemma enqueueAttach_ok:
  assumes ok: "host_ok s"
  shows "host_ok (enqueueAttach env request s)"
proof -
  obtain q superseded where e: "enqueueRecovery request (hs_queue s) = (q, superseded)" by (cases "enqueueRecovery request (hs_queue s)")
  have "host_ok (abortColdPreparations superseded (s\<lparr>hs_queue := q\<rparr>))"
    by (rule view_ok [OF ok]) (simp_all add: base_view_def [of "s\<lparr>hs_queue := q\<rparr>"] base_view_def [of s])
  then show ?thesis
    using ok by (auto simp: enqueueAttach_def e Let_def schedule_ok abort_active_ok split: option.split)
qed

lemma handleDeliveryReset_ok:
  assumes ok: "host_ok s"
  shows "host_ok (handleDeliveryReset env stream g s)"
proof -
  obtain q removed where e: "reset_recovery stream g (hs_queue s) = (q, removed)" by (cases "reset_recovery stream g (hs_queue s)")
  have "host_ok (abortColdPreparations removed (s\<lparr>hs_queue := q\<rparr>))"
    by (rule view_ok [OF ok]) (simp_all add: base_view_def [of "s\<lparr>hs_queue := q\<rparr>"] base_view_def [of s])
  then show ?thesis
    using ok by (auto simp: handleDeliveryReset_def e Let_def schedulePending_ok abort_active_ok split: option.split)
qed

lemma handle_result_ok: "host_ok s \<Longrightarrow> host_ok (on_barriers (handle_result r) s)"
  using handle_result_inv_host by (simp add: host_ok_def)

lemma dispose_scheduler_ok: "host_ok s \<Longrightarrow> host_ok (dispose_scheduler s)"
  using dispose_ok [of s] by (auto simp: host_ok_def publisher_linked_def)

lemma barrier_deadline_ok:
  assumes ok: "host_ok s"
  shows "host_ok (barrier_deadline s)"
proof (cases "hs_barrierTimer s")
  case None
  then show ?thesis using ok by (simp add: barrier_deadline_def)
next
  case (Some i)
  let ?s = "s\<lparr>hs_barrierTimer := None\<rparr>"
  have "host_ok ?s" by (rule view_ok [OF ok]) (simp_all add: base_view_def)
  then have "host_ok (on_barriers (rejectPending i Aborted) ?s)"
    using reject_inv_host [of ?s i Aborted] by (simp add: host_ok_def on_barriers_def publisher_linked_def)
  then show ?thesis using Some by (simp add: barrier_deadline_def)
qed

lemma recovery_timer_fires_ok:
  assumes ok: "host_ok s"
  shows "host_ok (recovery_timer_fires env s)"
proof -
  have "host_ok (s\<lparr>hs_recoveryTimer := None\<rparr>)" by (rule view_ok [OF ok]) (simp_all add: base_view_def)
  then show ?thesis using ok by (simp add: recovery_timer_fires_def schedule_ok)
qed

section \<open>Snapshot promises\<close>

lemma requeue_deferred_drain [simp]: "hs_drain (requeue_deferred now r e s) = hs_drain s"
  by (simp add: requeue_deferred_def Let_def deferColdCaptures_def split: prod.split)

lemma preparation_event_ok: "host_ok s \<Longrightarrow> host_ok (preparation_event env i e s)"
  unfolding preparation_event_def by (erule view_ok) simp_all

lemma preparation_resolved_ok:
  assumes ok: "host_ok s"
  shows "host_ok (preparation_resolved env i p ck s)"
proof -
  have "host_ok (on_queue (requeue (pr_request p)) (update_preparation i f
      (s\<lparr>hs_cache := cache, hs_coldCaptureNotBefore := None, hs_coldCaptureQuietDeadline := None\<rparr>)))" for cache f
    by (rule view_ok [OF ok]) (simp_all add: base_view_def [of "s\<lparr>hs_cache := c, hs_coldCaptureNotBefore := None, hs_coldCaptureQuietDeadline := None\<rparr>" for c]
        base_view_def [of s])
  then show ?thesis using ok by (simp add: preparation_resolved_def schedulePending_ok split: prod.split)
qed

lemma preparation_rejected_ok:
  assumes ok: "host_ok s"
  shows "host_ok (preparation_rejected env i p e s)"
proof -
  have s1: "host_ok (s\<lparr>hs_coldPreparations := m\<rparr>)" for m by (rule view_ok [OF ok]) (simp_all add: base_view_def)
  have q: "host_ok t \<Longrightarrow> host_ok (requeue_deferred (he_now env) r e t)" for t r by (erule view_ok) simp_all
  show ?thesis using ok s1 q by (simp add: preparation_rejected_def Let_def schedulePending_ok failPair_ok)
qed

lemma preparation_handlers_ok:
  assumes ok: "host_ok s"
  shows "host_ok (preparation_handlers env i s)"
proof -
  define s1 where "s1 = update_preparation i (\<lambda>p. p\<lparr>pr_stage := PrepHandled\<rparr>)
    (if hs_coldBuildInFlight s = Some i then s\<lparr>hs_coldBuildInFlight := None\<rparr> else s)"
  have "host_ok (s\<lparr>hs_coldBuildInFlight := None\<rparr>)" by (rule view_ok [OF ok]) (simp_all add: base_view_def)
  then have "host_ok (if hs_coldBuildInFlight s = Some i then s\<lparr>hs_coldBuildInFlight := None\<rparr> else s)" using ok by simp
  then have "host_ok s1" unfolding s1_def by (rule view_ok) simp_all
  then show ?thesis
    using ok
    by (simp add: preparation_handlers_def Let_def preparation_resolved_ok preparation_rejected_ok s1_def [symmetric] split: PrepStage.split)
qed

section \<open>The machine\<close>

lemma host_step_ok: "host_ok s \<Longrightarrow> host_ok (host_step s e)"
  by (cases "(s, e)" rule: host_step.cases)
    (simp_all add: prepareHostReady_ok activateHostReady_ok enqueueAttach_ok handleDeliveryReset_ok handle_result_ok dispose_scheduler_ok
      frame_arrives_ok pump_resumes_ok pump_promise_settles_ok receipt_settles_ok barrier_deadline_ok recovery_timer_fires_ok
      recovery_continues_ok preparation_event_ok preparation_handlers_ok)

lemma new_parts:
  "cp_effects newCanonicalPublisher = []" "\<not> cp_stopped newCanonicalPublisher" "bw_effects newBarrierWaiter = []"
  "bw_disposedReason newBarrierWaiter = None" "bw_pending newBarrierWaiter = None"
  by (simp_all add: newCanonicalPublisher_def newBarrierWaiter_def)

lemma newHost_ok: "host_ok (newHostDeliveryScheduler cache)"
  by (simp add: host_ok_def host_inv_def base_inv_alt drain_inv_def newHostDeliveryScheduler_def newCanonicalPublisher_inv
      newBarrierWaiter_inv new_parts log_inv_def commits_ok_def publisher_linked_def in_doubt_def phase_in_def)

interpretation host_machine: inv_machine host_step host_ok
  by unfold_locales (rule host_step_ok)

lemma host_run_ok: "host_ok (foldl host_step (newHostDeliveryScheduler cache) es)"
  by (rule host_machine.run_inv [OF newHost_ok])

end
