(* ===== verification/Delivery_Calm.thy ===== *)
theory Delivery_Calm
  imports Delivery_Events
begin

text \<open>
  What keeps the delivery scheduler going: a snapshot preparation that a request waits for is the one in flight, the recovery
  waits only for what will happen, and the timer is armed when nothing else will wake it.
\<close>

section \<open>The timer\<close>

lemma timer_visit_due:
  "timer_visit env s r acc = Some e \<Longrightarrow> e \<le> he_now env \<Longrightarrow> isRunnableRecovery env s r \<or> (\<exists>e'. acc = Some e' \<and> e' \<le> he_now env)"
  by (cases acc) (auto simp: timer_visit_def isRunnableRecovery_def earlier_def Let_def min_def split: if_splits)

lemma timer_visit_none:
  "timer_visit env s r acc = None \<Longrightarrow> acc = None \<and>
    (preparation_status (recoveryKey r) s = Some prep_publishing \<or> hs_coldBuildInFlight s \<noteq> None)"
  by (auto simp: timer_visit_def earlier_def Let_def split: if_splits)

lemma fold_timer_due:
  "fold (timer_visit env s) rs acc = Some e \<Longrightarrow> e \<le> he_now env \<Longrightarrow>
    list_ex (isRunnableRecovery env s) rs \<or> (\<exists>e'. acc = Some e' \<and> e' \<le> he_now env)"
proof (induction rs arbitrary: acc)
  case (Cons r rs)
  then have "list_ex (isRunnableRecovery env s) rs \<or> (\<exists>e'. timer_visit env s r acc = Some e' \<and> e' \<le> he_now env)" by simp
  then show ?case using timer_visit_due [of env s r acc] by auto
qed simp

lemma fold_timer_none:
  "fold (timer_visit env s) rs acc = None \<Longrightarrow> acc = None \<and>
    (\<forall>r\<in>set rs. preparation_status (recoveryKey r) s = Some prep_publishing \<or> hs_coldBuildInFlight s \<noteq> None)"
proof (induction rs arbitrary: acc)
  case (Cons r rs)
  then show ?case using timer_visit_none [of env s r acc] by auto
qed simp

text \<open>A timer that is due means that a request can run, so the two schedulers do not call each other for ever.\<close>

lemma earliest_due: "earliest_recovery env s = Some e \<Longrightarrow> e \<le> he_now env \<Longrightarrow> hasRunnableRecovery env s"
  using fold_timer_due [of env s "map snd (rq_pending (hs_queue s))" None]
  by (simp add: earliest_recovery_def hasRunnableRecovery_def some_pending_def)

lemma earliest_none:
  "earliest_recovery env s = None \<Longrightarrow> pendingSize (hs_queue s) \<noteq> 0 \<Longrightarrow>
    (\<exists>k. preparation_status k s = Some prep_publishing) \<or> hs_coldBuildInFlight s \<noteq> None"
  using fold_timer_none [of env s "map snd (rq_pending (hs_queue s))" None]
  by (cases "rq_pending (hs_queue s)") (auto simp: earliest_recovery_def pendingSize_def)

section \<open>Preparations\<close>

text \<open>The map knows only preparations that were not aborted, under their own key; one still publishing is in flight.\<close>

definition preps_ok :: "host_scheduler \<Rightarrow> bool" where
  "preps_ok s \<longleftrightarrow> (\<forall>k i. jm_get (hs_coldPreparations s) k = Some i \<longrightarrow> i < length (hs_preparations s) \<and>
      \<not> pr_aborted (hs_preparations s ! i) \<and> recoveryKey (pr_request (hs_preparations s ! i)) = k \<and>
      (pr_status (hs_preparations s ! i) = prep_publishing \<longrightarrow> hs_coldBuildInFlight s = Some i)) \<and>
     (\<forall>i. hs_coldBuildInFlight s = Some i \<longrightarrow> i < length (hs_preparations s) \<and> pr_stage (hs_preparations s ! i) \<noteq> PrepHandled)"

definition calm :: "host_scheduler \<Rightarrow> bool" where
  "calm s \<longleftrightarrow> \<not> hs_stackOverflow s \<and> (\<not> hs_failed s \<longrightarrow> preps_ok s)"

definition calm_view :: "host_scheduler \<Rightarrow> bool \<times> bool \<times> ColdPreparation list \<times> (string, nat) jsmap \<times> nat option" where
  "calm_view s = (hs_stackOverflow s, hs_failed s, hs_preparations s, hs_coldPreparations s, hs_coldBuildInFlight s)"

lemma calm_cong: "calm_view t = calm_view s \<Longrightarrow> calm s \<Longrightarrow> calm t"
  by (simp add: calm_view_def calm_def preps_ok_def)

lemma calm_view_parts [simp]:
  "calm_view (set_publisher p s) = calm_view s" "calm_view (on_publisher f s) = calm_view s"
  "calm_view (set_barriers w s) = calm_view s" "calm_view (on_barriers g s) = calm_view s"
  "calm_view (on_queue h s) = calm_view s" "calm_view (set_active k s) = calm_view s" "calm_view (set_phase ph s) = calm_view s"
  "calm_view (resumeCanonical env s) = calm_view s" "calm_view (host_effect e s) = calm_view s"
  "calm_view (wait_at pt s) = calm_view s" "calm_view (deferColdCaptures now d s) = calm_view s"
  "calm_view (invalidateCheckpoint now ck s) = calm_view s" "calm_view (requeue_deferred now r er s) = calm_view s"
  "calm_view (abort_active s) = calm_view s"
  by (simp_all add: calm_view_def set_publisher_def on_publisher_def set_barriers_def on_barriers_def on_queue_def set_active_def
      set_phase_def resumeCanonical_def host_effect_def wait_at_def deferColdCaptures_def invalidateCheckpoint_def requeue_deferred_def
      abort_active_def Let_def split: prod.split option.split)

lemma calm_view_update [simp]:
  "calm_view (s\<lparr>hs_queue := a\<rparr>) = calm_view s" "calm_view (s\<lparr>hs_cache := b\<rparr>) = calm_view s"
  "calm_view (s\<lparr>hs_activeRecovery := c\<rparr>) = calm_view s" "calm_view (s\<lparr>hs_lastCanonicalAt := d\<rparr>) = calm_view s"
  "calm_view (s\<lparr>hs_ready := e\<rparr>) = calm_view s" "calm_view (s\<lparr>hs_recoveriesRunning := f\<rparr>) = calm_view s"
  "calm_view (s\<lparr>hs_recoveryTimer := g\<rparr>) = calm_view s" "calm_view (s\<lparr>hs_barrierTimer := h\<rparr>) = calm_view s"
  "calm_view (s\<lparr>hs_pass := i\<rparr>) = calm_view s" "calm_view (s\<lparr>hs_sends := j\<rparr>) = calm_view s"
  "calm_view (s\<lparr>hs_coldCaptureNotBefore := k\<rparr>) = calm_view s" "calm_view (s\<lparr>hs_coldCaptureQuietDeadline := l\<rparr>) = calm_view s"
  by (simp_all add: calm_view_def)

lemma sendData_calm_view: "sendData env tag frame s = (s', ok) \<Longrightarrow> calm_view s' = calm_view s"
  by (auto simp: sendData_def Let_def split: if_splits DataSend.splits)

lemma calm_same: "calm_view t = calm_view s \<Longrightarrow> calm t = calm s"
  by (metis calm_cong)

lemmas calm_parts [simp] = calm_view_parts [THEN calm_same] calm_view_update [THEN calm_same]

text \<open>Stopping.\<close>

lemma overflow_abort [simp]:
  "hs_stackOverflow (abort_preparation i s) = hs_stackOverflow s" "hs_stackOverflow (discard_key k s) = hs_stackOverflow s"
  by (simp_all add: abort_preparation_def update_preparation_def discard_key_def Let_def split: option.split)

lemma overflow_fold [simp]: "hs_stackOverflow (fold abort_preparation is s) = hs_stackOverflow s"
  by (induction "is" arbitrary: s) simp_all

lemma overflow_view: "calm_view t = calm_view s \<Longrightarrow> hs_stackOverflow t = hs_stackOverflow s"
  by (simp add: calm_view_def)

lemmas overflow_parts [simp] = calm_view_parts [THEN overflow_view]

lemma dispose_overflow [simp]: "hs_stackOverflow (dispose_scheduler s) = hs_stackOverflow s"
  by (simp add: dispose_scheduler_def Let_def abort_connection_def split: option.split)

lemma failPair_overflow [simp]: "hs_stackOverflow (failPair s) = hs_stackOverflow s"
  by (simp add: failPair_def)

lemma failPair_failed: "hs_failed (failPair s)"
proof (cases "hs_failed s")
  case False
  have f: "hs_failed (fold abort_preparation js t) = hs_failed t" for js t
    using fold_abort_view(1) [of js t] unfolding base_view_eq by blast
  have a: "hs_failed (abort_preparation i t) = hs_failed t" for i t
    using abort_preparation_view(1) [of i t] unfolding base_view_eq by blast
  have "hs_failed (dispose_scheduler s)"
    using False by (simp add: dispose_scheduler_def Let_def abort_connection_def f a on_publisher_def split: option.split)
  then show ?thesis by (simp add: failPair_def)
qed (simp add: failPair_def)

lemma failPair_calm [simp]: "calm s \<Longrightarrow> calm (failPair s)"
  using failPair_failed by (simp add: calm_def)

text \<open>Discarding and starting preparations.\<close>

lemma abort_stage_handled [simp]: "abort_stage st = PrepHandled \<longleftrightarrow> st = PrepHandled"
  by (cases st) simp_all

lemma discard_key_calm [simp]:
  assumes "calm s"
  shows "calm (discard_key k s)"
proof -
  have f: "hs_failed (discard_key k s) = hs_failed s" using discard_key_view(1) [of k s] unfolding base_view_eq by blast
  have "preps_ok (discard_key k s)" if p: "preps_ok s"
  proof (cases "jm_get (hs_coldPreparations s) k")
    case None
    then have "discard_key k s = s\<lparr>hs_coldPreparations := jm_delete k (hs_coldPreparations s)\<rparr>" by (simp add: discard_key_def)
    then show ?thesis using p by (auto simp: preps_ok_def jm_get_delete split: if_splits)
  next
    case (Some i)
    then have i: "i < length (hs_preparations s)" and e: "discard_key k s =
        s\<lparr>hs_preparations := (hs_preparations s)[i := (hs_preparations s ! i)\<lparr>pr_aborted := True, pr_stage := abort_stage (pr_stage (hs_preparations s ! i))\<rparr>],
          hs_coldPreparations := jm_delete k (hs_coldPreparations s)\<rparr>"
      using p by (auto simp: discard_key_def Let_def abort_preparation_def update_preparation_def preps_ok_def)
    have "j \<noteq> i" if "jm_get (hs_coldPreparations s) k' = Some j" "k' \<noteq> k" for j k'
      using p Some that unfolding preps_ok_def by blast
    then show ?thesis
      using p i unfolding e by (auto simp: preps_ok_def jm_get_delete nth_list_update split: if_splits)
  qed
  then show ?thesis using assms f by (simp add: calm_def)
qed

lemma abortColdPreparations_calm [simp]: "calm s \<Longrightarrow> calm (abortColdPreparations ks s)"
  unfolding abortColdPreparations_def by (induction ks arbitrary: s) simp_all

lemma discardCold_calm [simp]: "calm s \<Longrightarrow> calm (discardColdPreparation r s)"
  by (simp add: discardColdPreparation_def)

lemma new_preparation_calm:
  assumes c: "calm s" and p: "\<not> pr_aborted p" "pr_status p = prep_ready"
  shows "calm (new_preparation p s)"
  using c p by (auto simp: calm_def preps_ok_def new_preparation_def jm_get_set nth_append less_Suc_eq split: if_splits)

lemma startColdPreparation_calm:
  assumes c: "calm s"
  shows "calm (startColdPreparation env r s)"
proof (cases "hs_coldBuildInFlight s \<noteq> None \<or> jm_get (hs_coldPreparations s) (recoveryKey r) \<noteq> None")
  case True
  then show ?thesis using c by (simp add: startColdPreparation_def)
next
  case False
  then show ?thesis
    using c by (auto simp: calm_def preps_ok_def startColdPreparation_def new_preparation_def jm_get_set nth_append less_Suc_eq
        split: if_splits ResumePending.splits)
qed

end
