(* ===== verification/Delivery_Stalls.thy ===== *)
theory Delivery_Stalls
  imports Delivery_Calm
begin

text \<open>
  The delivery scheduler never stalls: no run of the recovery ends without saying what it waits for, and every event leaves
  something that will take up the requests that are pending.
\<close>

section \<open>What a wait needs\<close>

fun point_live :: "host_scheduler \<Rightarrow> RecoveryPoint \<Rightarrow> bool" where
  "point_live s (AwaitPause preparation None) \<longleftrightarrow> cp_pumpPromise (hs_publisher s) \<noteq> NoPump"
| "point_live s (AwaitFlush plan) \<longleftrightarrow> pl_commit plan \<in> set (cp_flushes (hs_publisher s))"
| "point_live s (DrainSettled ok) \<longleftrightarrow> ok \<longrightarrow> hs_failed s \<or> hs_activeRecovery s = None"
| "point_live s pt \<longleftrightarrow> True"

definition run_live :: "host_scheduler \<Rightarrow> bool" where
  "run_live s \<longleftrightarrow> calm s \<and> hs_drain s \<noteq> NoDrain \<and> point_live s (hs_drain s)"

lemma point_live_cong: "base_view t = base_view s \<Longrightarrow> point_live t pt = point_live s pt"
  unfolding base_view_eq by (cases "(s, pt)" rule: point_live.cases) auto

lemma wait_live: "calm s \<Longrightarrow> pt \<noteq> NoDrain \<Longrightarrow> point_live s pt \<Longrightarrow> run_live (wait_at pt s)"
  using point_live_cong [of "wait_at pt s" s pt] by (simp add: run_live_def)

lemma settled_live [simp]:
  assumes "calm s"
  shows "run_live (wait_at (FlushSettled plan x) s)" "run_live (wait_at (AwaitVerdict plan i) s)"
    "run_live (wait_at (AwaitReplay plan r fs c) s)" "run_live (wait_at (ReplaySettled plan r y) s)"
    "run_live (wait_at (DeliverySettled prep z) s)" "run_live (wait_at RecoverSettled s)" "run_live (wait_at (DrainSettled False) s)"
  using assms by (auto intro: wait_live)

section \<open>The runs\<close>

lemma pauseCanonical_live: "calm s \<Longrightarrow> run_live (pauseCanonical prep s)"
  unfolding pauseCanonical_def Let_def by (rule wait_live) (simp_all add: on_publisher_def pause_publisher_def)

lemma recover_catch_live: "calm s \<Longrightarrow> run_live (recover_catch env r e s)"
proof -
  assume c: "calm s"
  have e: "recover_catch env r e s = wait_at RecoverSettled t" if "recover_catch env r e s = t\<lparr>hs_drain := RecoverSettled\<rparr>" for t
    using that by (simp add: wait_at_def)
  show ?thesis
    unfolding recover_catch_def wait_at_def [of RecoverSettled, symmetric]
    by (rule settled_live) (use c in \<open>simp split: option.split\<close>)
qed

lemma deliverPreparedCold_live: "calm s \<Longrightarrow> run_live (deliverPreparedCold env i s)"
  by (simp add: deliverPreparedCold_def pauseCanonical_live split: option.split)

lemma recover_cold_live:
  assumes c: "calm s"
  shows "run_live (recover_cold env request s)"
proof -
  define s1 where "s1 = on_queue (markCold request) (set_active (\<lambda>a. a\<lparr>ar_mode := Some recovery_cold\<rparr>) s)"
  obtain cache recent where e: "current_checkpoint (he_now env) (hs_cache s1) = (cache, recent)"
    by (cases "current_checkpoint (he_now env) (hs_cache s1)")
  define s2 where "s2 = s1\<lparr>hs_cache := cache\<rparr>"
  define s3 where "s3 = (case (jm_get (hs_coldPreparations s2) (recoveryKey request), recent) of
      (None, Some ck) \<Rightarrow> new_preparation \<lparr>pr_request = request, pr_checkpoint = Some ck, pr_aborted = False,
         pr_status = prep_ready, pr_stage = PrepHandled\<rparr> s2
    | _ \<Rightarrow> s2)"
  have c3: "calm s3" using c by (simp add: s3_def s2_def s1_def new_preparation_calm split: option.split)
  have "recover_cold env request s = (case jm_get (hs_coldPreparations s3) (recoveryKey request) of
           None \<Rightarrow> wait_at RecoverSettled
             (if hs_coldBuildInFlight s3 = None \<and> coldCaptureReadyAt request s3 \<le> he_now env
              then startColdPreparation env request s3 else on_queue (requeue request) s3)
         | Some i \<Rightarrow> if pr_status (hs_preparations s3 ! i) \<noteq> prep_ready then wait_at RecoverSettled s3
                     else deliverPreparedCold env i s3)"
    unfolding recover_cold_def Let_def s1_def [symmetric] e prod.case s2_def [symmetric] s3_def ..
  then show ?thesis using c3 by (simp add: startColdPreparation_calm deliverPreparedCold_live split: option.split)
qed

lemma recover_live: "calm s \<Longrightarrow> run_live (recover env request s)"
  by (simp add: recover_def sendReplayUnavailable_def recover_cold_live pauseCanonical_live split: option.split)

lemma flush_run_waits: "flush_run throws c p = (p', None) \<Longrightarrow> c \<in> set (cp_flushes p')"
  by (auto simp: flush_run_def Let_def split: prod.splits option.splits bool.splits if_splits)

lemma flush_outcome_live:
  assumes "calm s" "r = None \<Longrightarrow> pl_commit plan \<in> set (cp_flushes p)"
  shows "run_live (wait_at (flush_outcome plan r) (set_publisher p s))"
  using assms by (auto simp: flush_outcome_def intro!: wait_live split: option.split)

lemma flushCanonicalThrough_live: "calm s \<Longrightarrow> run_live (flushCanonicalThrough env plan s)"
  unfolding flushCanonicalThrough_def flushThrough_def using flush_run_waits
  by (auto intro!: flush_outcome_live split: prod.split)

lemma flush_continues_live:
  "calm s \<Longrightarrow> pl_commit plan \<in> set (cp_flushes (hs_publisher s)) \<Longrightarrow> run_live (flush_continues env plan s)"
  unfolding flush_continues_def flush_resumes_def using flush_run_waits
  by (auto intro!: flush_outcome_live split: prod.split)

lemma warm_after_pause_live: "calm s \<Longrightarrow> run_live (warm_after_pause env request live s)"
  by (simp add: warm_after_pause_def Let_def recover_cold_live recover_catch_live flushCanonicalThrough_live
      split: JournalReplay.split option.split)

lemma cold_after_pause_live: "calm s \<Longrightarrow> run_live (cold_after_pause env request i ck s)"
  by (simp add: cold_after_pause_def Let_def flushCanonicalThrough_live split: JournalReplay.split option.split)

lemma after_pause_live: "run_live s \<Longrightarrow> run_live (after_pause env prep ok s)"
  by (frule run_live_def [THEN iffD1])
    (simp add: after_pause_def recover_catch_live warm_after_pause_live cold_after_pause_live split: option.split)

lemma after_flush_live: "calm s \<Longrightarrow> run_live (after_flush env plan r s)"
  by (simp add: after_flush_def waitForDeliveryBarrier_def split: sum.split prod.split)

lemma replay_loop_live: "calm s \<Longrightarrow> run_live (replay_loop env plan r b n rest cursor s)"
proof (induction env plan r b n rest cursor s rule: replay_loop.induct)
  case (2 env plan r b n encoded rest cursor s)
  have "calm s1" if "sendData env DirectedSent directed s = (s1, ok)" for directed s1 ok
    using calm_same [OF sendData_calm_view [OF that]] 2(2) by simp
  then show ?case using 2 by (auto simp: Let_def split: sum.split prod.split bool.split)
qed simp

lemma after_replay_live: "calm s \<Longrightarrow> run_live (after_replay env plan r outcome s)"
  using calm_same [OF sendData_calm_view]
  by (fastforce simp: after_replay_def Let_def split: sum.split prod.split bool.split)

lemma after_verdict_live: "calm s \<Longrightarrow> run_live (after_verdict env plan outcome s)"
  by (simp add: after_verdict_def Let_def replay_loop_live split: sum.split)

lemma after_delivery_live: "run_live s \<Longrightarrow> run_live (after_delivery env prep outcome s)"
  by (frule run_live_def [THEN iffD1]) (simp add: after_delivery_def Let_def recover_catch_live split: option.split sum.split)

lemma drain_next_live: "calm s \<Longrightarrow> hs_failed s \<or> hs_activeRecovery s = None \<Longrightarrow> run_live (drain_next env s)"
  by (auto simp: drain_next_def intro: wait_live recover_live split: list.split)

lemma drainRecoveries_live: "calm s \<Longrightarrow> hs_failed s \<or> hs_activeRecovery s = None \<Longrightarrow> run_live (drainRecoveries env s)"
  by (auto simp: drainRecoveries_def intro!: drain_next_live split: prod.split)

section \<open>Between events\<close>

text \<open>Everything but the requests: the recovery that runs waits, and only a running one is active.\<close>

definition sched_live :: "host_scheduler \<Rightarrow> bool" where
  "sched_live s \<longleftrightarrow> calm s \<and> point_live s (hs_drain s) \<and> hs_recoveriesRunning s = (hs_drain s \<noteq> NoDrain) \<and>
     (hs_failed s \<or> hs_recoveriesRunning s \<or> hs_activeRecovery s = None)"

text \<open>Something will take up the requests that are pending.\<close>

definition served :: "host_scheduler \<Rightarrow> bool" where
  "served s \<longleftrightarrow> (\<not> hs_failed s \<and> hs_ready s \<and> pendingSize (hs_queue s) \<noteq> 0 \<longrightarrow>
     hs_recoveriesRunning s \<or> hs_recoveryTimer s \<noteq> None \<or> hs_coldBuildInFlight s \<noteq> None)"

definition host_live :: "host_scheduler \<Rightarrow> bool" where
  "host_live s \<longleftrightarrow> host_ok s \<and> sched_live s \<and> served s"

lemma run_live_pre: "run_live s \<Longrightarrow> host_ok s \<Longrightarrow> host_live s"
  by (auto simp: host_live_def sched_live_def served_def run_live_def host_ok_def)

lemma not_running_served:
  assumes "calm s" "\<not> hs_failed s" "preparation_status k s = Some prep_publishing"
  shows "hs_coldBuildInFlight s \<noteq> None"
  using assms by (auto simp: calm_def preps_ok_def preparation_status_def preparation_of_def)

lemma timer_pre: "sched_live (s\<lparr>hs_recoveryTimer := t\<rparr>) = sched_live s"
  using point_live_cong [of "s\<lparr>hs_recoveryTimer := t\<rparr>" s] by (simp add: sched_live_def base_view_def)

text \<open>Both schedulers end in a state that serves, at the depth the code reaches.\<close>

lemma drain_start_live:
  assumes ok: "host_ok s" and pre: "sched_live s" and rest: "\<not> hs_recoveriesRunning s"
  shows "host_live (drainRecoveries env (s\<lparr>hs_recoveryTimer := None, hs_recoveriesRunning := True\<rparr>))"
proof (rule run_live_pre)
  show "run_live (drainRecoveries env (s\<lparr>hs_recoveryTimer := None, hs_recoveriesRunning := True\<rparr>))"
    by (rule drainRecoveries_live) (use pre rest in \<open>auto simp: sched_live_def\<close>)
  show "host_ok (drainRecoveries env (s\<lparr>hs_recoveryTimer := None, hs_recoveriesRunning := True\<rparr>))"
    by (rule drainRecoveries_ok) (use rest_running [OF ok rest, of None] in simp_all)
qed

lemma timer_live:
  assumes ok: "host_ok s" and pre: "sched_live s" and none: "\<not> hasRunnableRecovery env s"
  shows "host_live (scheduleRecoveryTimer (Suc n) env s)"
proof -
  have t: "host_ok (s\<lparr>hs_recoveryTimer := x\<rparr>)" for x by (rule view_ok [OF ok]) (simp_all add: base_view_def)
  have c: "calm s" using pre by (simp add: sched_live_def)
  have f: "hs_coldBuildInFlight s \<noteq> None"
    if "earliest_recovery env s = None" "pendingSize (hs_queue s) \<noteq> 0" "\<not> hs_failed s"
    using earliest_none [OF that(1,2)] not_running_served [OF c that(3)] by blast
  have due: "0 < e - he_now env" if "earliest_recovery env s = Some e" for e
    using earliest_due [OF that] none by linarith
  show ?thesis
    using ok pre t f due timer_pre by (auto simp: host_live_def served_def Let_def split: option.split)
qed

lemma scheduleRecoveries_live: "host_ok s \<Longrightarrow> sched_live s \<Longrightarrow> host_live (scheduleRecoveries call_depth env s)"
  using timer_live [of s env 0] drain_start_live [of s env]
  by (auto simp: call_depth_def numeral_2_eq_2 host_live_def served_def)

lemma schedulePending_live: "host_ok s \<Longrightarrow> sched_live s \<Longrightarrow> host_live (schedulePendingRecoveries env s)"
  using timer_live [of s env 1] scheduleRecoveries_live [of s env]
  by (auto simp: schedulePendingRecoveries_def call_depth_def numeral_2_eq_2 host_live_def served_def)

lemma running_served: "hs_failed s \<or> hs_recoveriesRunning s \<Longrightarrow> served s"
  by (auto simp: served_def)

end
