(* ===== verification/Delivery_Live.thy ===== *)
theory Delivery_Live
  imports Delivery_Stalls
begin

text \<open>
  Every event keeps the delivery scheduler live: the recovery that runs waits for what will happen, and something will take up
  the requests that are pending.
\<close>

section \<open>What the publisher keeps\<close>

definition pub_wake :: "canonical_publisher \<Rightarrow> canonical_publisher \<Rightarrow> bool" where
  "pub_wake p q \<longleftrightarrow> (cp_pumpPromise p \<noteq> NoPump \<longrightarrow> cp_pumpPromise q \<noteq> NoPump) \<and> cp_flushes q = cp_flushes p"

lemma pub_wake_refl [simp]: "pub_wake p p"
  by (simp add: pub_wake_def)

lemma send_head_wake: "cp_flushes (fst (send_head throws q rest p)) = cp_flushes p"
  by (simp add: send_head_def Let_def publish_effect_def)

lemma pump_loop_wake: "cp_flushes (fst (pump_loop throws b n q p)) = cp_flushes p \<and> snd (pump_loop throws b n q p) \<noteq> NoPump"
proof (induction throws b n q p rule: pump_loop.induct)
  case (2 throws b n q rest p)
  obtain p1 t where h: "send_head throws q rest p = (p1, t)" by (cases "send_head throws q rest p")
  have f: "cp_flushes p1 = cp_flushes p" using send_head_wake [of throws q rest p] h by simp
  show ?case
    using 2 [OF _ h [symmetric] _ refl] h f by (auto simp: Let_def split: bool.split)
qed simp

lemma run_pump_wake [simp]: "pub_wake p (run_pump throws p)" "cp_flushes (run_pump throws p) = cp_flushes p"
  using pump_loop_wake [of throws 0 0 "cp_queue p" p] by (auto simp: run_pump_def pub_wake_def split: prod.split)

lemma schedulePump_wake [simp]: "pub_wake p (schedulePump throws p)" "cp_flushes (schedulePump throws p) = cp_flushes p"
  by (simp_all add: schedulePump_def)

lemma pub_wake_trans: "pub_wake p q \<Longrightarrow> pub_wake q r \<Longrightarrow> pub_wake p r"
  by (simp add: pub_wake_def)

lemma publisher_wakes [simp]:
  "pub_wake p (fst (prepare c a p))" "pub_wake p (publish_effect e p)" "pub_wake p (dispose_publisher p)"
  "pub_wake p (fail_publisher r p)" "pub_wake p (resume_publisher throws p)" "pub_wake p (fst (activate_publisher throws c p))"
  "pub_wake p (fst (push_canonical bs ok p))"
  using schedulePump_wake(1) [of "p\<lparr>cp_paused := False\<rparr>" throws] schedulePump_wake(1) [of "p\<lparr>cp_ready := True\<rparr>" throws]
  by (auto simp: pub_wake_def prepare_def Let_def publish_effect_def dispose_publisher_def fail_publisher_def resume_publisher_def
      activate_publisher_def push_canonical_def split: option.split sum.split)

lemma pump_settled_flushes: "cp_flushes (pump_settled throws p) = cp_flushes p"
  by (simp add: pump_settled_def fail_publisher_def dispose_publisher_def publish_effect_def split: PumpPromise.split)

section \<open>Steps that leave the requests alone\<close>

lemma point_live_step:
  assumes "pub_wake (hs_publisher s) (hs_publisher t)" "hs_failed s \<Longrightarrow> hs_failed t"
    "hs_activeRecovery s = None \<Longrightarrow> hs_activeRecovery t = None" "point_live s pt"
  shows "point_live t pt"
  using assms by (cases "(s, pt)" rule: point_live.cases) (auto simp: pub_wake_def)

lemma pre_live_step:
  assumes pre: "sched_live s" and c: "calm t" and d: "hs_drain t = hs_drain s" "hs_recoveriesRunning t = hs_recoveriesRunning s"
    and k: "hs_failed s \<Longrightarrow> hs_failed t" "hs_activeRecovery s = None \<Longrightarrow> hs_activeRecovery t = None"
    and w: "pub_wake (hs_publisher s) (hs_publisher t)"
  shows "sched_live t"
  using pre c d k point_live_step [OF w k] by (auto simp: sched_live_def)

lemma pre_live_view: "sched_live s \<Longrightarrow> calm t \<Longrightarrow> base_view t = base_view s \<Longrightarrow> hs_drain t = hs_drain s \<Longrightarrow> sched_live t"
  unfolding base_view_eq by (erule pre_live_step) simp_all

definition request_view :: "host_scheduler \<Rightarrow> bool \<times> bool \<times> recovery_queue \<times> bool \<times> int option \<times> nat option" where
  "request_view s = (hs_failed s, hs_ready s, hs_queue s, hs_recoveriesRunning s, hs_recoveryTimer s, hs_coldBuildInFlight s)"

lemma served_cong: "request_view t = request_view s \<Longrightarrow> served t = served s"
  by (simp add: request_view_def served_def)

lemma request_view_parts [simp]:
  "request_view (set_publisher p s) = request_view s" "request_view (on_publisher f s) = request_view s"
  "request_view (set_barriers w s) = request_view s" "request_view (on_barriers g s) = request_view s"
  "request_view (set_phase ph s) = request_view s" "request_view (host_effect e s) = request_view s"
  "request_view (s\<lparr>hs_barrierTimer := x\<rparr>) = request_view s" "request_view (wait_at pt s) = request_view s"
  "request_view (update_preparation i h s) = request_view s"
  by (simp_all add: request_view_def set_publisher_def on_publisher_def set_barriers_def on_barriers_def set_phase_def set_active_def
      host_effect_def wait_at_def update_preparation_def)

text \<open>A step that changes neither the requests nor where the recovery waits.\<close>

lemma quiet_live:
  assumes live: "host_live s" and ok: "host_ok t" and v: "request_view t = request_view s" "calm_view t = calm_view s"
    "hs_drain t = hs_drain s" "hs_activeRecovery s = None \<Longrightarrow> hs_activeRecovery t = None"
    and w: "pub_wake (hs_publisher s) (hs_publisher t)"
  shows "host_live t"
proof -
  have s: "sched_live s" "calm s" using live by (auto simp: host_live_def sched_live_def)
  have "sched_live t"
    by (rule pre_live_step [OF s(1)]) (use s(2) v w calm_same [OF v(2)] in \<open>auto simp: request_view_def\<close>)
  then show ?thesis using live ok served_cong [OF v(1)] by (simp add: host_live_def)
qed

lemma host_liveD: "host_live s \<Longrightarrow> host_ok s" "host_live s \<Longrightarrow> sched_live s" "host_live s \<Longrightarrow> calm s" "host_live s \<Longrightarrow> served s"
  by (auto simp: host_live_def sched_live_def)

text \<open>Stopping.\<close>

lemma dispose_fields:
  assumes "\<not> hs_failed s"
  shows "hs_publisher (dispose_scheduler s) = dispose_publisher (hs_publisher s)"
    "(hs_activeRecovery (dispose_scheduler s) = None) = (hs_activeRecovery s = None)"
  using dispose_view(1) [OF assms] unfolding base_view_eq by simp_all

lemma dispose_live:
  assumes ok: "host_ok s" and c: "calm s" and d: "hs_recoveriesRunning s = (hs_drain s \<noteq> NoDrain)" "point_live s (hs_drain s)"
  shows "host_live (dispose_scheduler s)"
proof -
  have i: "host_inv s" using ok by (simp add: host_ok_def)
  note f = dispose_ok(3-5) [OF i]
  have "calm (dispose_scheduler s)" using c f(1) by (simp add: calm_def)
  moreover have "point_live (dispose_scheduler s) (hs_drain s)"
  proof (cases "hs_failed s")
    case True
    then show ?thesis using d(2) by (simp add: dispose_scheduler_def)
  next
    case False
    show ?thesis by (rule point_live_step [OF _ _ _ d(2)]) (use dispose_fields [OF False] f in simp_all)
  qed
  ultimately show ?thesis
    using dispose_scheduler_ok [OF ok] f d(1) by (simp add: host_live_def sched_live_def served_def)
qed

lemma failPair_live:
  assumes ok: "host_ok s" and c: "calm s" and d: "hs_recoveriesRunning s = (hs_drain s \<noteq> NoDrain)" "point_live s (hs_drain s)"
  shows "host_live (failPair s)"
proof (cases "hs_failed s")
  case True
  then show ?thesis using assms by (simp add: failPair_def host_live_def sched_live_def served_def)
next
  case False
  have i: "host_inv s" using ok by (simp add: host_ok_def)
  have f: "failPair s = host_effect PairClosed (dispose_scheduler s)" using False by (simp add: failPair_def)
  show ?thesis
    unfolding f
    by (rule quiet_live [OF dispose_live [OF assms]]) (use failPair_ok [OF ok] f in simp_all)
qed

lemma failPair_from_live: "host_live s \<Longrightarrow> host_live (failPair s)"
  by (rule failPair_live) (simp_all add: host_live_def sched_live_def)

section \<open>Publisher events\<close>

lemma publisher_live:
  assumes "host_live s" "pub_step (hs_publisher s) p" "cp_stopped p = cp_stopped (hs_publisher s)" "pub_wake (hs_publisher s) p"
  shows "host_live (set_publisher p s)"
  by (rule quiet_live [OF assms(1) publisher_event_ok [OF host_liveD(1) [OF assms(1)] assms(2,3)]]) (use assms(4) in simp_all)

lemma schedulePump_live: "host_live s \<Longrightarrow> host_live (on_publisher (schedulePump throws) s)"
  using quiet_live [of s "on_publisher (schedulePump throws) s"] schedulePump_ok host_liveD(1) [of s] by (simp add: on_publisher_def)

end
