(* ===== verification/Delivery_Machine.thy ===== *)
theory Delivery_Machine
  imports Delivery_Live
begin

text \<open>
  The events of the delivery scheduler, one by one, and the machine they make: it keeps its invariant and stays live.
\<close>

section \<open>The pump\<close>

lemma failing_parts:
  assumes live: "host_live s" and st: "pub_step (hs_publisher s) p" and fl: "cp_flushes p = cp_flushes (hs_publisher s)"
  defines "t \<equiv> on_failing_publisher p s"
  shows "calm t" "hs_drain t = hs_drain s" "hs_recoveriesRunning t = hs_recoveriesRunning s" "hs_failed s \<Longrightarrow> hs_failed t"
    "hs_activeRecovery s = None \<Longrightarrow> hs_activeRecovery t = None" "served t"
    "cp_flushes (hs_publisher t) = cp_flushes (hs_publisher s)"
    "pub_wake (hs_publisher s) p \<Longrightarrow> pub_wake (hs_publisher s) (hs_publisher t)"
proof -
  let ?u = "set_publisher p s"
  note ok = host_liveD(1) [OF live] and c = host_liveD(3) [OF live]
  have u: "calm ?u" "served ?u" using c host_liveD(4) [OF live] served_cong [of ?u s] by simp_all
  have inv: "host_inv ?u" using ok pub_step_inv_host [OF _ st] by (simp add: host_ok_def)
  note f = failPair_inv [OF inv]
  have all: "calm t \<and> hs_drain t = hs_drain s \<and> hs_recoveriesRunning t = hs_recoveriesRunning s \<and> (hs_failed s \<longrightarrow> hs_failed t) \<and>
    (hs_activeRecovery s = None \<longrightarrow> hs_activeRecovery t = None) \<and> served t \<and> cp_flushes (hs_publisher t) = cp_flushes (hs_publisher s) \<and>
    (pub_wake (hs_publisher s) p \<longrightarrow> pub_wake (hs_publisher s) (hs_publisher t))"
  proof (cases "\<not> cp_stopped (hs_publisher s) \<and> cp_stopped p")
    case False
    then have "t = ?u" by (auto simp: t_def on_failing_publisher_def)
    then show ?thesis using u fl by simp
  next
    case True
    then have e: "t = failPair ?u" by (simp add: t_def on_failing_publisher_def)
    have go: "\<not> hs_failed ?u" using True ok base_invD(5) by (auto simp: host_ok_def host_inv_def)
    have q: "hs_publisher t = dispose_publisher p" unfolding e using go dispose_fields(1) [OF go] by (simp add: failPair_def)
    have "pub_wake (hs_publisher s) p \<Longrightarrow> pub_wake (hs_publisher s) (dispose_publisher p)"
      using pub_wake_trans publisher_wakes(3) by blast
    moreover have "cp_flushes (dispose_publisher p) = cp_flushes p" by (simp add: dispose_publisher_def)
    ultimately show ?thesis
      unfolding q using fl u f failPair_active [of ?u] by (simp add: e running_served)
  qed
  then show "calm t" "hs_drain t = hs_drain s" "hs_recoveriesRunning t = hs_recoveriesRunning s" "hs_failed s \<Longrightarrow> hs_failed t"
    "hs_activeRecovery s = None \<Longrightarrow> hs_activeRecovery t = None" "served t"
    "cp_flushes (hs_publisher t) = cp_flushes (hs_publisher s)"
    "pub_wake (hs_publisher s) p \<Longrightarrow> pub_wake (hs_publisher s) (hs_publisher t)" by blast+
qed

lemma failing_publisher_live:
  assumes live: "host_live s" and st: "pub_step (hs_publisher s) p" and w: "pub_wake (hs_publisher s) p"
  shows "host_live (on_failing_publisher p s)"
proof -
  have fl: "cp_flushes p = cp_flushes (hs_publisher s)" using w by (simp add: pub_wake_def)
  note f = failing_parts [OF live st fl]
  have "sched_live (on_failing_publisher p s)"
    by (rule pre_live_step [OF host_liveD(2) [OF live] f(1-3) _ _ f(8) [OF w]]) (use f(4,5) in simp_all)
  then show ?thesis using failing_publisher_ok [OF host_liveD(1) [OF live] st] f(6) by (simp add: host_live_def)
qed

lemma pump_resumes_live: "host_live s \<Longrightarrow> host_live (pump_resumes env s)"
  using quiet_live [of s "on_publisher (run_pump (he_throws env)) s"] pump_resumes_ok [OF host_liveD(1), of s env]
  by (cases "cp_pumpPromise (hs_publisher s) = PumpYielding") (simp_all add: pump_resumes_def on_publisher_def)

text \<open>The promise settles; who waits for it is released.\<close>

lemma release_live:
  assumes ok: "host_ok (case hs_drain t of AwaitPause prep None \<Rightarrow> wait_at (AwaitPause prep (Some r)) t | _ \<Rightarrow> t)"
    and v: "calm t" "hs_recoveriesRunning t = (hs_drain t \<noteq> NoDrain)" "served t"
      "hs_failed t \<or> hs_recoveriesRunning t \<or> hs_activeRecovery t = None"
    and p: "(\<And>prep. hs_drain t \<noteq> AwaitPause prep None) \<Longrightarrow> point_live t (hs_drain t)"
  shows "host_live (case hs_drain t of AwaitPause prep None \<Rightarrow> wait_at (AwaitPause prep (Some r)) t | _ \<Rightarrow> t)"
proof (cases "\<exists>prep. hs_drain t = AwaitPause prep None")
  case True
  then obtain prep where d: "hs_drain t = AwaitPause prep None" by blast
  let ?u = "wait_at (AwaitPause prep (Some r)) t"
  have f: "hs_failed ?u = hs_failed t" "hs_recoveriesRunning ?u = hs_recoveriesRunning t" "hs_activeRecovery ?u = hs_activeRecovery t"
    by (simp_all add: wait_at_def)
  have "sched_live ?u" using v d f by (simp add: sched_live_def)
  moreover have "served ?u" using v(3) served_cong [of ?u t] by simp
  ultimately show ?thesis using ok d by (simp add: host_live_def)
next
  case False
  have "sched_live t" using v p False by (auto simp: sched_live_def)
  moreover have e: "(case hs_drain t of AwaitPause prep None \<Rightarrow> wait_at (AwaitPause prep (Some r)) t | _ \<Rightarrow> t) = t"
    using False by (auto split: RecoveryPoint.split option.split)
  ultimately show ?thesis using ok v(3) by (simp add: host_live_def)
qed

lemma point_live_flushes:
  assumes "point_live s pt" "\<And>prep. pt \<noteq> AwaitPause prep None" "cp_flushes (hs_publisher t) = cp_flushes (hs_publisher s)"
    "hs_failed s \<Longrightarrow> hs_failed t" "hs_activeRecovery s = None \<Longrightarrow> hs_activeRecovery t = None"
  shows "point_live t pt"
  using assms by (cases "(s, pt)" rule: point_live.cases) auto

lemma pump_promise_settles_live:
  assumes live: "host_live s"
  shows "host_live (pump_promise_settles env s)"
proof -
  note ok = host_liveD(1) [OF live] and c = host_liveD(3) [OF live] and pre = host_liveD(2) [OF live]
  let ?p = "pump_settled (he_throws env) (hs_publisher s)"
  let ?rel = "\<lambda>r t. case hs_drain t of AwaitPause prep None \<Rightarrow> wait_at (AwaitPause prep (Some r)) t | _ \<Rightarrow> t"
  have all: "host_ok (pump_promise_settles env s)" by (rule pump_promise_settles_ok [OF ok])
  show ?thesis
  proof (cases "cp_pumpPromise (hs_publisher s)")
    case PumpResolved
    let ?t = "on_publisher (pump_settled (he_throws env)) s"
    have e: "pump_promise_settles env s = ?rel True ?t" using PumpResolved by (simp add: pump_promise_settles_def Let_def)
    show ?thesis
      unfolding e
    proof (rule release_live)
      show "host_ok (?rel True ?t)" using all unfolding e .
      show "served ?t" using host_liveD(4) [OF live] served_cong [of ?t s] by simp
      show "point_live ?t (hs_drain ?t)" if "\<And>prep. hs_drain ?t \<noteq> AwaitPause prep None"
        using point_live_flushes [of s "hs_drain s" ?t] pre that pump_settled_flushes by (simp add: sched_live_def on_publisher_def)
    qed (use c pre in \<open>auto simp: sched_live_def on_publisher_def\<close>)
  next
    case PumpRejected
    let ?t = "on_failing_publisher ?p s"
    have e: "pump_promise_settles env s = ?rel False ?t" using PumpRejected by (simp add: pump_promise_settles_def Let_def)
    note f = failing_parts [OF live pump_settled_step [OF publisher_inv_of [OF ok], of "he_throws env"] pump_settled_flushes]
    show ?thesis
      unfolding e
    proof (rule release_live)
      show "host_ok (?rel False ?t)" using all unfolding e .
      show "point_live ?t (hs_drain ?t)" if "\<And>prep. hs_drain ?t \<noteq> AwaitPause prep None"
        using point_live_flushes [of s "hs_drain s" ?t] pre that f by (simp add: sched_live_def)
    qed (use f pre in \<open>auto simp: sched_live_def\<close>)
  qed (use live in \<open>simp_all add: pump_promise_settles_def Let_def\<close>)
qed

section \<open>Canonical frames\<close>

lemma abort_active_pre:
  assumes pre: "sched_live s"
  shows "sched_live (abort_active s)"
  by (rule pre_live_step [OF pre]) (use pre in \<open>auto simp: sched_live_def\<close>)

lemma pressure_live:
  assumes live: "host_live s"
  shows "host_live (abortRecoveryForPressure env s)"
proof (cases "\<exists>a. hs_activeRecovery s = Some a \<and> ar_phase a = pre_marker")
  case False
  then show ?thesis using failPair_from_live [OF live] by (auto simp: abortRecoveryForPressure_def split: option.split)
next
  case True
  then obtain a where a: "hs_activeRecovery s = Some a" "ar_phase a = pre_marker" by blast
  define t where "t = on_queue (\<lambda>q. defer_recovery (he_now env) (ar_request a) SNAPSHOT_RECOVERY_QUIET_MS q)
              (discardColdPreparation (ar_request a) (on_queue (requeue (ar_request a)) s))"
  have e: "abortRecoveryForPressure env s = resumeCanonical env (abort_active t)"
    using a by (simp add: abortRecoveryForPressure_def t_def)
  have "sched_live t"
    unfolding t_def by (rule pre_live_view [OF host_liveD(2) [OF live]]) (use host_liveD(3) [OF live] in simp_all)
  then have pa: "sched_live (abort_active t)" by (rule abort_active_pre)
  have pt: "sched_live (resumeCanonical env (abort_active t))"
    by (rule pre_live_step [OF pa]) (use pa in \<open>auto simp: resumeCanonical_def on_publisher_def sched_live_def\<close>)
  have "hs_activeRecovery t \<noteq> None"
    using a by (simp add: t_def on_queue_def discardColdPreparation_def)
      (metis base_view_eq discard_key_view(1) option.distinct(1) on_queue_view(1) on_queue_def)
  then have "hs_failed (resumeCanonical env (abort_active t)) \<or> hs_recoveriesRunning (resumeCanonical env (abort_active t))"
    using pt by (auto simp: sched_live_def)
  then show ?thesis
    unfolding e using pt pressure_ok [OF host_liveD(1) [OF live], of env, unfolded e] by (simp add: host_live_def running_served)
qed

lemma frame_arrives_live:
  assumes live: "host_live s"
  shows "host_live (frame_arrives env bs s)"
proof (cases "cp_subscribed (hs_publisher s)")
  case False
  then show ?thesis using live by (simp add: frame_arrives_def)
next
  case sub: True
  let ?r = "push_canonical bs (can_interrupt s) (hs_publisher s)"
  note ok = host_liveD(1) [OF live]
  note st = push_canonical_step [OF publisher_inv_of [OF ok] sub, of bs "can_interrupt s"]
  show ?thesis
  proof (cases "snd ?r")
    case None
    then show ?thesis
      using sub failing_publisher_live [OF live st publisher_wakes(7)] by (cases ?r) (simp add: frame_arrives_def)
  next
    case (Some pressure)
    let ?s0 = "set_publisher (fst ?r) s"
    let ?s1 = "?s0\<lparr>hs_lastCanonicalAt := Some (he_now env)\<rparr>"
    have s0: "host_live ?s0"
      by (rule publisher_live [OF live st]) (use push_canonical_stopped [OF Some] in simp_all)
    have "host_ok ?s1" by (rule view_ok [OF host_liveD(1) [OF s0]]) (simp_all add: base_view_def)
    then have s1: "host_live ?s1" by (rule quiet_live [OF s0]) (simp_all add: request_view_def)
    have "host_live (on_publisher (publish_effect RecoveryPressure) ?s1)"
      unfolding on_publisher_def
      by (rule publisher_live [OF s1 pressure_step [OF publisher_inv_of [OF host_liveD(1) [OF s1]]]])
        (simp_all add: publish_effect_def pub_wake_def)
    then have "host_live (if pressure then abortRecoveryForPressure env (on_publisher (publish_effect RecoveryPressure) ?s1) else ?s1)"
      using s1 by (simp add: pressure_live)
    from schedulePump_live [OF this, of "he_throws env"] show ?thesis
      using sub Some by (cases ?r) (auto simp: frame_arrives_def Let_def)
  qed
qed

section \<open>Calls\<close>

lemma prepareHostReady_live:
  assumes live: "host_live s"
  shows "host_live (prepareHostReady env attached s)"
  unfolding prepareHostReady_def on_publisher_def
  by (rule publisher_live [OF live]) (use prepare_step publisher_inv_of [OF host_liveD(1) [OF live]] in auto)

lemma activateHostReady_live:
  assumes live: "host_live s"
  shows "host_live (activateHostReady env c s)"
proof -
  note ok = host_liveD(1) [OF live]
  obtain p r where a: "activate_publisher (he_throws env) c (hs_publisher s) = (p, r)"
    by (cases "activate_publisher (he_throws env) c (hs_publisher s)")
  note st = activate_step [OF publisher_inv_of [OF ok], of "he_throws env" c, unfolded a fst_conv]
  have p: "host_live (set_publisher p s)"
    by (rule publisher_live [OF live st]) (use publisher_wakes(6) [of "hs_publisher s" "he_throws env" c] a in simp)
  let ?t = "(set_publisher p s)\<lparr>hs_ready := True\<rparr>"
  have "host_ok ?t" by (rule view_ok [OF host_liveD(1) [OF p]]) (simp_all add: base_view_def)
  moreover have "sched_live ?t"
    by (rule pre_live_step [OF host_liveD(2) [OF p]]) (use host_liveD(3) [OF live] in simp_all)
  ultimately show ?thesis using p by (auto simp: activateHostReady_def a scheduleRecoveries_live split: sum.split)
qed

lemma aborting_pre:
  assumes pre: "sched_live s"
  shows "sched_live (abortColdPreparations ks (s\<lparr>hs_queue := q\<rparr>))"
  by (rule pre_live_view [OF pre]) (use pre in \<open>simp_all add: sched_live_def\<close>)

lemma enqueueAttach_live:
  assumes live: "host_live s"
  shows "host_live (enqueueAttach env request s)"
proof -
  obtain q superseded where e: "enqueueRecovery request (hs_queue s) = (q, superseded)" by (cases "enqueueRecovery request (hs_queue s)")
  let ?t = "abortColdPreparations superseded (s\<lparr>hs_queue := q\<rparr>)"
  have "host_ok ?t" by (rule view_ok [OF host_liveD(1) [OF live]]) simp_all
  moreover have "sched_live ?t" by (rule aborting_pre [OF host_liveD(2) [OF live]])
  ultimately show ?thesis
    using live by (auto simp: enqueueAttach_def e Let_def scheduleRecoveries_live abort_active_ok abort_active_pre split: option.split)
qed

lemma handleDeliveryReset_live:
  assumes live: "host_live s"
  shows "host_live (handleDeliveryReset env stream g s)"
proof -
  obtain q removed where e: "reset_recovery stream g (hs_queue s) = (q, removed)" by (cases "reset_recovery stream g (hs_queue s)")
  let ?t = "abortColdPreparations removed (s\<lparr>hs_queue := q\<rparr>)"
  have "host_ok ?t" by (rule view_ok [OF host_liveD(1) [OF live]]) simp_all
  moreover have "sched_live ?t" by (rule aborting_pre [OF host_liveD(2) [OF live]])
  ultimately show ?thesis
    by (auto simp: handleDeliveryReset_def e Let_def schedulePending_live abort_active_ok abort_active_pre split: option.split)
qed

lemma barriers_live: "host_live s \<Longrightarrow> host_ok (on_barriers f s) \<Longrightarrow> host_live (on_barriers f s)"
  by (erule quiet_live) simp_all

lemma dispose_from_live: "host_live s \<Longrightarrow> host_live (dispose_scheduler s)"
  by (rule dispose_live) (simp_all add: host_live_def sched_live_def)

lemma receipt_settles_live:
  assumes live: "host_live s"
  shows "host_live (receipt_settles i ok s)"
  by (rule quiet_live [OF live receipt_settles_ok [OF host_liveD(1) [OF live]]])
    (auto simp: receipt_settles_def set_phase_def set_active_def on_barriers_def request_view_def calm_view_def set_barriers_def)

lemma barrier_deadline_live:
  assumes live: "host_live s"
  shows "host_live (barrier_deadline s)"
  by (rule quiet_live [OF live barrier_deadline_ok [OF host_liveD(1) [OF live]]])
    (auto simp: barrier_deadline_def on_barriers_def request_view_def calm_view_def set_barriers_def split: option.split)

lemma recovery_timer_fires_live:
  assumes live: "host_live s"
  shows "host_live (recovery_timer_fires env s)"
proof -
  have "host_ok (s\<lparr>hs_recoveryTimer := None\<rparr>)" by (rule view_ok [OF host_liveD(1) [OF live]]) (simp_all add: base_view_def)
  then show ?thesis using live host_liveD(2) [OF live] by (simp add: recovery_timer_fires_def scheduleRecoveries_live timer_pre)
qed

section \<open>Snapshot promises\<close>

lemma advance_stage_handled [simp]: "advance_stage env e st = PrepHandled \<longleftrightarrow> st = PrepHandled"
  by (cases "(env, e, st)" rule: advance_stage.cases) (auto simp: checkpointFromPublished_def)

lemma update_preparation_calm:
  assumes c: "calm s" and f: "\<And>p. pr_aborted (f p) = pr_aborted p" "\<And>p. pr_request (f p) = pr_request p"
    "\<And>p. pr_status (f p) = pr_status p" "\<And>p. pr_stage (f p) = PrepHandled \<longleftrightarrow> pr_stage p = PrepHandled"
  shows "calm (update_preparation i f s)"
proof -
  let ?t = "update_preparation i f s"
  have g: "pr_aborted (hs_preparations ?t ! j) = pr_aborted (hs_preparations s ! j)"
    "pr_request (hs_preparations ?t ! j) = pr_request (hs_preparations s ! j)"
    "pr_status (hs_preparations ?t ! j) = pr_status (hs_preparations s ! j)"
    "(pr_stage (hs_preparations ?t ! j) = PrepHandled) = (pr_stage (hs_preparations s ! j) = PrepHandled)" for j
    using f by (cases "j = i"; simp add: update_preparation_def)+
  have h: "length (hs_preparations ?t) = length (hs_preparations s)" "hs_coldPreparations ?t = hs_coldPreparations s"
    "hs_coldBuildInFlight ?t = hs_coldBuildInFlight s" "hs_stackOverflow ?t = hs_stackOverflow s" "hs_failed ?t = hs_failed s"
    by (simp_all add: update_preparation_def)
  show ?thesis using c unfolding calm_def preps_ok_def g h .
qed

lemma preparation_event_live:
  assumes live: "host_live s"
  shows "host_live (preparation_event env i e s)"
proof -
  let ?t = "preparation_event env i e s"
  have v: "base_view ?t = base_view s" "hs_drain ?t = hs_drain s" by (simp_all add: preparation_event_def)
  have "calm ?t" unfolding preparation_event_def by (rule update_preparation_calm [OF host_liveD(3) [OF live]]) simp_all
  then have "sched_live ?t" by (rule pre_live_view [OF host_liveD(2) [OF live] _ v])
  moreover have "request_view ?t = request_view s" by (simp add: preparation_event_def)
  ultimately show ?thesis
    using live preparation_event_ok [OF host_liveD(1) [OF live], of env i e] served_cong [of ?t s] by (simp add: host_live_def)
qed

text \<open>The handlers have run: the preparation is no longer in flight, and it is ready or forgotten.\<close>

definition settled_prep :: "nat \<Rightarrow> host_scheduler \<Rightarrow> host_scheduler" where
  "settled_prep i s = update_preparation i (\<lambda>p. p\<lparr>pr_stage := PrepHandled\<rparr>)
     (if hs_coldBuildInFlight s = Some i then s\<lparr>hs_coldBuildInFlight := None\<rparr> else s)"

lemma settled_prep_view [simp]: "base_view (settled_prep i s) = base_view s" "hs_drain (settled_prep i s) = hs_drain s"
  by (simp_all add: settled_prep_def)

lemma settled_prep_fields:
  assumes "i < length (hs_preparations s)"
  shows "hs_preparations (settled_prep i s) = (hs_preparations s)[i := (hs_preparations s ! i)\<lparr>pr_stage := PrepHandled\<rparr>]"
    "hs_coldPreparations (settled_prep i s) = hs_coldPreparations s"
    "hs_coldBuildInFlight (settled_prep i s) = (if hs_coldBuildInFlight s = Some i then None else hs_coldBuildInFlight s)"
    "hs_stackOverflow (settled_prep i s) = hs_stackOverflow s" "hs_failed (settled_prep i s) = hs_failed s"
proof -
  define s0 where "s0 = (if hs_coldBuildInFlight s = Some i then s\<lparr>hs_coldBuildInFlight := None\<rparr> else s)"
  have s0: "hs_preparations s0 = hs_preparations s" "hs_coldPreparations s0 = hs_coldPreparations s"
    "hs_coldBuildInFlight s0 = (if hs_coldBuildInFlight s = Some i then None else hs_coldBuildInFlight s)"
    "hs_stackOverflow s0 = hs_stackOverflow s" "hs_failed s0 = hs_failed s"
    by (simp_all add: s0_def)
  have e: "settled_prep i s = s0\<lparr>hs_preparations := (hs_preparations s)[i := (hs_preparations s ! i)\<lparr>pr_stage := PrepHandled\<rparr>]\<rparr>"
    using assms s0(1) by (simp add: settled_prep_def s0_def [symmetric] update_preparation_def)
  show "hs_preparations (settled_prep i s) = (hs_preparations s)[i := (hs_preparations s ! i)\<lparr>pr_stage := PrepHandled\<rparr>]"
    "hs_coldPreparations (settled_prep i s) = hs_coldPreparations s"
    "hs_coldBuildInFlight (settled_prep i s) = (if hs_coldBuildInFlight s = Some i then None else hs_coldBuildInFlight s)"
    "hs_stackOverflow (settled_prep i s) = hs_stackOverflow s" "hs_failed (settled_prep i s) = hs_failed s"
    unfolding e using s0 by simp_all
qed

text \<open>It is calm again once no request of the map waits for that preparation any more.\<close>

lemma settled_calm:
  assumes c: "calm s" and i: "i < length (hs_preparations s)"
    and t: "hs_coldPreparations t = m" "hs_preparations t = (hs_preparations s)[i := p]"
      "hs_coldBuildInFlight t = (if hs_coldBuildInFlight s = Some i then None else hs_coldBuildInFlight s)"
      "hs_stackOverflow t = hs_stackOverflow s" "hs_failed t = hs_failed s"
    and m: "\<And>k j. jm_get m k = Some j \<Longrightarrow> jm_get (hs_coldPreparations s) k = Some j"
    and p: "\<And>k. jm_get m k = Some i \<Longrightarrow> \<not> hs_failed s \<Longrightarrow>
      \<not> pr_aborted p \<and> recoveryKey (pr_request p) = k \<and> pr_status p \<noteq> prep_publishing"
  shows "calm t"
proof -
  have "preps_ok t" if go: "\<not> hs_failed s" and ok: "preps_ok s"
  proof -
    have "j < length (hs_preparations t) \<and> \<not> pr_aborted (hs_preparations t ! j) \<and>
        recoveryKey (pr_request (hs_preparations t ! j)) = k \<and>
        (pr_status (hs_preparations t ! j) = prep_publishing \<longrightarrow> hs_coldBuildInFlight t = Some j)"
      if "jm_get (hs_coldPreparations t) k = Some j" for k j
    proof (cases "j = i")
      case True
      then show ?thesis using p [of k] that go i t by simp
    next
      case False
      have "jm_get (hs_coldPreparations s) k = Some j" using m that t(1) by simp
      then show ?thesis using ok False t i unfolding preps_ok_def by auto
    qed
    moreover have "j < length (hs_preparations t) \<and> pr_stage (hs_preparations t ! j) \<noteq> PrepHandled"
      if "hs_coldBuildInFlight t = Some j" for j
      using that ok t i unfolding preps_ok_def by (auto split: if_splits)
    ultimately show ?thesis unfolding preps_ok_def by blast
  qed
  then show ?thesis using c t(4,5) by (simp add: calm_def)
qed

lemma view_live:
  assumes live: "host_live s" and c: "calm t" and v: "base_view t = base_view s" "hs_drain t = hs_drain s"
  shows "host_ok t" "sched_live t" "host_live (schedulePendingRecoveries env t)" "host_live (failPair t)"
proof -
  show ok: "host_ok t" by (rule view_ok [OF host_liveD(1) [OF live] v])
  show pre: "sched_live t" by (rule pre_live_view [OF host_liveD(2) [OF live] c v])
  show "host_live (schedulePendingRecoveries env t)" by (rule schedulePending_live [OF ok pre])
  show "host_live (failPair t)" by (rule failPair_live [OF ok c]) (use pre in \<open>simp_all add: sched_live_def\<close>)
qed

text \<open>In a state of the scheduler the map knows a preparation only under its own key, and not an aborted one.\<close>

lemma known_prep:
  assumes "calm s" "\<not> hs_failed s" "jm_get (hs_coldPreparations s) k = Some i"
  shows "\<not> pr_aborted (hs_preparations s ! i)" "recoveryKey (pr_request (hs_preparations s ! i)) = k"
  using assms by (auto simp: calm_def preps_ok_def)

lemma preparation_resolved_live:
  assumes live: "host_live s" and i: "i < length (hs_preparations s)"
  shows "host_live (preparation_resolved env i (hs_preparations s ! i) ck (settled_prep i s))"
proof -
  let ?p = "hs_preparations s ! i" and ?s1 = "settled_prep i s"
  note c = host_liveD(3) [OF live] and f = settled_prep_fields [OF i]
  show ?thesis
  proof (cases "hs_failed s \<or> pr_aborted ?p \<or> jm_get (hs_coldPreparations s) (recoveryKey (pr_request ?p)) \<noteq> Some i")
    case True
    have "calm ?s1"
      by (rule settled_calm [OF c i f(2,1,3-5)]) (use True known_prep [OF c] in auto)
    from view_live(3) [OF live this] show ?thesis using True f by (simp add: preparation_resolved_def)
  next
    case False
    obtain cache stored where e: "install_checkpoint (he_now env) ck (hs_cache ?s1) = (cache, stored)"
      by (cases "install_checkpoint (he_now env) ck (hs_cache ?s1)")
    let ?q = "?p\<lparr>pr_stage := PrepHandled, pr_checkpoint := Some stored, pr_status := prep_ready\<rparr>"
    define t where "t = on_queue (requeue (pr_request ?p)) (update_preparation i (\<lambda>p. p\<lparr>pr_checkpoint := Some stored, pr_status := prep_ready\<rparr>)
        (?s1\<lparr>hs_cache := cache, hs_coldCaptureNotBefore := None, hs_coldCaptureQuietDeadline := None\<rparr>))"
    have t: "hs_coldPreparations t = hs_coldPreparations s" "hs_preparations t = (hs_preparations s)[i := ?q]"
        "hs_coldBuildInFlight t = (if hs_coldBuildInFlight s = Some i then None else hs_coldBuildInFlight s)"
        "hs_stackOverflow t = hs_stackOverflow s" "hs_failed t = hs_failed s"
      using i f by (simp_all add: t_def on_queue_def update_preparation_def)
    have "calm t" by (rule settled_calm [OF c i t]) (use known_prep [OF c] in auto)
    moreover have "base_view t = base_view s" "hs_drain t = hs_drain s" by (simp_all add: t_def)
    ultimately have "host_live (schedulePendingRecoveries env t)" by (rule view_live(3) [OF live])
    then show ?thesis using False f e by (simp add: preparation_resolved_def t_def)
  qed
qed

lemma preparation_rejected_live:
  assumes live: "host_live s" and i: "i < length (hs_preparations s)"
  shows "host_live (preparation_rejected env i (hs_preparations s ! i) e (settled_prep i s))"
proof -
  let ?p = "hs_preparations s ! i" and ?s1 = "settled_prep i s"
  let ?k = "recoveryKey (pr_request ?p)"
  note c = host_liveD(3) [OF live] and f = settled_prep_fields [OF i]
  let ?now = "jm_get (hs_coldPreparations s) ?k = Some i"
  define t where "t = (if ?now then ?s1\<lparr>hs_coldPreparations := jm_delete ?k (hs_coldPreparations ?s1)\<rparr> else ?s1)"
  let ?m = "if ?now then jm_delete ?k (hs_coldPreparations s) else hs_coldPreparations s"
  have t: "hs_coldPreparations t = ?m" "hs_preparations t = (hs_preparations s)[i := ?p\<lparr>pr_stage := PrepHandled\<rparr>]"
      "hs_coldBuildInFlight t = (if hs_coldBuildInFlight s = Some i then None else hs_coldBuildInFlight s)"
      "hs_stackOverflow t = hs_stackOverflow s" "hs_failed t = hs_failed s"
    using f by (simp_all add: t_def)
  have m: "jm_get (hs_coldPreparations s) k = Some j" if "jm_get ?m k = Some j" for k j
    using that by (auto simp: jm_get_delete split: if_splits)
  have gone: False if a: "jm_get ?m k = Some i" "\<not> hs_failed s" for k
    using known_prep(2) [OF c a(2) m [OF a(1)]] m [OF a(1)] a(1) by (auto simp: jm_get_delete split: if_splits)
  have ct: "calm t" by (rule settled_calm [OF c i t m]) (use gone in blast)+
  have v: "base_view t = base_view s" "hs_drain t = hs_drain s" by (simp_all add: t_def)
  note l = view_live [OF live ct v]
  have r: "host_live (schedulePendingRecoveries env (requeue_deferred (he_now env) (pr_request ?p) e t))"
    by (rule view_live(3) [OF live]) (use ct v in simp_all)
  show ?thesis
    by (cases ?now) (use l(3) [of env] l(4) r in \<open>simp_all add: t_def preparation_rejected_def Let_def f(2)\<close>)
qed

lemma preparation_handlers_live:
  assumes live: "host_live s"
  shows "host_live (preparation_handlers env i s)"
proof (cases "i < length (hs_preparations s)")
  case False
  then show ?thesis using live by (simp add: preparation_handlers_def)
next
  case True
  show ?thesis
    unfolding preparation_handlers_def Let_def settled_prep_def [symmetric]
    using True live preparation_resolved_live [OF live True, of env] preparation_rejected_live [OF live True, of env]
    by (simp split: PrepStage.split)
qed

section \<open>The recovery goes on\<close>

lemma recovery_continues_live:
  assumes live: "host_live s"
  shows "host_live (recovery_continues env s)"
proof -
  note ok = host_liveD(1) [OF live] and c = host_liveD(3) [OF live] and pre = host_liveD(2) [OF live]
  have after: "host_ok (recovery_continues env s)" by (rule recovery_continues_ok [OF ok])
  have run: "host_live (recovery_continues env s)" if "run_live (recovery_continues env s)"
    by (rule run_live_pre [OF that after])
  show ?thesis
  proof (cases "hs_drain s")
    case NoDrain
    then show ?thesis using live by (simp add: recovery_continues_def)
  next
    case (AwaitPause prep released)
    have "run_live s" if "released = Some x" for x using c AwaitPause that by (simp add: run_live_def)
    then show ?thesis
      using AwaitPause live run by (cases released) (auto simp: recovery_continues_def intro: after_pause_live)
  next
    case (AwaitFlush plan)
    then show ?thesis using c pre by (intro run) (simp add: recovery_continues_def flush_continues_live sched_live_def)
  next
    case (FlushSettled plan x)
    then show ?thesis using c by (intro run) (simp add: recovery_continues_def after_flush_live)
  next
    case (AwaitVerdict plan i)
    then show ?thesis
      using c live run by (cases "barrier_outcome i s") (simp_all add: recovery_continues_def after_verdict_live)
  next
    case (AwaitReplay plan x rest cursor)
    then show ?thesis using c by (intro run) (simp add: recovery_continues_def replay_loop_live)
  next
    case (ReplaySettled plan x outcome)
    then show ?thesis using c by (intro run) (simp add: recovery_continues_def after_replay_live)
  next
    case (DeliverySettled prep outcome)
    have "run_live s" using c DeliverySettled by (simp add: run_live_def)
    then show ?thesis using DeliverySettled by (intro run) (simp add: recovery_continues_def after_delivery_live)
  next
    case RecoverSettled
    then show ?thesis using c by (intro run) (simp add: recovery_continues_def drain_next_live)
  next
    case (DrainSettled x)
    let ?u = "wait_at NoDrain (s\<lparr>hs_recoveriesRunning := False\<rparr>)"
    note r = point_running [OF ok, unfolded DrainSettled, simplified]
    have cu: "calm ?u" using c by simp
    have ou: "host_ok ?u"
    proof -
      have p: "phase_in P (s\<lparr>hs_recoveriesRunning := False\<rparr>) = phase_in P s" "in_doubt (s\<lparr>hs_recoveriesRunning := False\<rparr>) = in_doubt s" for P
        by (simp_all add: phase_in_def in_doubt_def)
      have "base_inv (s\<lparr>hs_recoveriesRunning := False\<rparr>)" using running_okD(1) [OF r(1)] unfolding base_inv_alt p by simp
      then have "host_inv ?u" by (rule wait_at_inv) (use running_okD(2) [OF r(1)] r(2) p in \<open>simp_all add: no_barrier_def\<close>)
      then show ?thesis using running_okD(3) [OF r(1)] by (simp add: host_ok_def publisher_linked_def) (simp add: wait_at_def)
    qed
    have f: "hs_recoveriesRunning ?u = False" "hs_drain ?u = NoDrain" "hs_failed ?u = hs_failed s" "hs_activeRecovery ?u = hs_activeRecovery s"
      by (simp_all add: wait_at_def)
    show ?thesis
    proof (cases x)
      case True
      have "sched_live ?u" using cu f pre DrainSettled True by (simp add: sched_live_def)
      then show ?thesis
        using schedulePending_live [OF ou, of env] DrainSettled True by (simp add: recovery_continues_def drain_settled_def Let_def)
    next
      case False
      have "host_live (failPair ?u)" by (rule failPair_live [OF ou cu]) (use f in simp_all)
      then show ?thesis using DrainSettled False by (simp add: recovery_continues_def drain_settled_def Let_def)
    qed
  qed
qed

section \<open>The machine\<close>

lemma host_step_live: "host_live s \<Longrightarrow> host_live (host_step s e)"
  by (cases "(s, e)" rule: host_step.cases)
    (simp_all add: prepareHostReady_live activateHostReady_live enqueueAttach_live handleDeliveryReset_live barriers_live
      handle_result_ok host_liveD(1) dispose_from_live frame_arrives_live pump_resumes_live pump_promise_settles_live
      receipt_settles_live barrier_deadline_live recovery_timer_fires_live recovery_continues_live preparation_event_live
      preparation_handlers_live)

lemma newHost_live: "host_live (newHostDeliveryScheduler cache)"
  using newHost_ok [of cache]
  by (simp add: host_live_def sched_live_def served_def calm_def preps_ok_def newHostDeliveryScheduler_def)

interpretation host_live_machine: inv_machine host_step host_live
  by unfold_locales (rule host_step_live)

lemma host_run_live: "host_live (foldl host_step (newHostDeliveryScheduler cache) es)"
  by (rule host_live_machine.run_inv [OF newHost_live])

end
