(* ===== verification/Delivery_Scheduler_Props.thy ===== *)
theory Delivery_Scheduler_Props
  imports Delivery_Machine Session_Examples
begin

text \<open>
  The properties of the delivery scheduler over every history of its events, and a delivery run through the whole model.
\<close>

definition host_after :: "checkpoint_cache \<Rightarrow> ('w host_env \<times> host_event) list \<Rightarrow> host_scheduler" where
  "host_after cache es = foldl host_step (newHostDeliveryScheduler cache) es"

lemma host_after_live: "host_live (host_after cache es)"
  unfolding host_after_def by (rule host_run_live)

lemma host_after_base: "base_inv (host_after cache es)"
  using host_liveD(1) [OF host_after_live [of cache es]] by (simp add: host_ok_def host_inv_def)

lemma host_after_log: "log_inv (hs_log (host_after cache es)) (hs_failed (host_after cache es))
    (bw_nextId (hs_barriers (host_after cache es))) (in_doubt (host_after cache es))"
  by (rule base_invD(9) [OF host_after_base])

section \<open>What waits is wait_woken\<close>

text \<open>The promise the recovery awaits is pending somewhere, or has settled.\<close>

fun wait_woken :: "host_scheduler \<Rightarrow> RecoveryPoint \<Rightarrow> bool" where
  "wait_woken s NoDrain \<longleftrightarrow> False"
| "wait_woken s (AwaitPause preparation None) \<longleftrightarrow> cp_pumpPromise (hs_publisher s) \<noteq> NoPump"
| "wait_woken s (AwaitFlush plan) \<longleftrightarrow> pl_commit plan \<in> set (cp_flushes (hs_publisher s))"
| "wait_woken s (AwaitVerdict plan i) \<longleftrightarrow>
     (\<exists>p. bw_pending (hs_barriers s) = Some p \<and> pb_id p = i) \<or> barrier_outcome i s \<noteq> None"
| "wait_woken s pt \<longleftrightarrow> True"

lemma settled_outcome:
  assumes "i \<in> set (settled_barriers (hs_barriers s))"
  shows "barrier_outcome i s \<noteq> None"
proof -
  from assms obtain e where e: "e \<in> set (bw_effects (hs_barriers s))" "i \<in> set (settles_id e)"
    unfolding settled_mem by blast
  from e(2) have "settlement i e \<noteq> None" by (cases "(i, e)" rule: settlement.cases) auto
  then have "List.map_filter (settlement i) (bw_effects (hs_barriers s)) \<noteq> []"
    using e(1) by (auto simp: List.map_filter_def filter_empty_conv)
  then show ?thesis by (simp add: barrier_outcome_def split: list.split)
qed

lemma verdict_woken:
  assumes w: "waiter_inv (hs_barriers s)" and n: "i < bw_nextId (hs_barriers s)"
  shows "wait_woken s (AwaitVerdict plan i)"
proof (cases "i \<in> set (settled_barriers (hs_barriers s))")
  case True
  then show ?thesis using settled_outcome by simp
next
  case False
  have "count_list (pending_barriers (hs_barriers s)) i + count_list (settled_barriers (hs_barriers s)) i = 1"
    using w n by (simp add: waiter_inv_def)
  moreover have "count_list (settled_barriers (hs_barriers s)) i = 0" using False by (simp add: count_list_0_iff)
  ultimately show ?thesis by (auto simp: pending_barriers_def split: option.splits if_splits)
qed

lemma host_live_woken:
  assumes live: "host_live s" and run: "hs_recoveriesRunning s"
  shows "wait_woken s (hs_drain s)"
proof -
  have pl: "point_live s (hs_drain s)" "hs_drain s \<noteq> NoDrain"
    using host_liveD(2) [OF live] run by (simp_all add: sched_live_def)
  have ok: "base_inv s" "point_ok s (hs_drain s)"
    using host_liveD(1) [OF live] by (simp_all add: host_ok_def host_inv_def drain_inv_def)
  show ?thesis
  proof (cases "\<exists>plan i. hs_drain s = AwaitVerdict plan i")
    case True
    then obtain plan i where d: "hs_drain s = AwaitVerdict plan i" by blast
    then have "Suc i = bw_nextId (hs_barriers s)" using ok(2) by (simp add: verdict_ok_def)
    then show ?thesis unfolding d by (intro verdict_woken base_invD(4) [OF ok(1)]) simp
  next
    case False
    then show ?thesis using pl by (cases "(s, hs_drain s)" rule: wait_woken.cases) auto
  qed
qed

section \<open>The properties\<close>


text \<open>
  C9. A delivery marker whose receipt came in never stays in doubt: the pair has failed, or the verdict was not ready, or the
  verdict was ready and a commit went out after it, or the marker is the one of the recovery that is running and is marked as
  in doubt. And once the pair is closed nothing more is handed to the data socket.
\<close>

theorem host_markers_conclude:
  assumes "s = host_after cache es"
  shows "(\<forall>i. FromBarrier (MarkerSentCallback i) \<in> set (hs_log s) \<longrightarrow>
      hs_failed s \<or>
      (\<exists>xs b r ys. hs_log s = xs @ FromBarrier (BarrierResolved i b r) # ys \<and>
        (br_status r \<noteq> barrier_ready \<or> (\<exists>bs. CommitSent bs \<in> set ys))) \<or>
      (Suc i = bw_nextId (hs_barriers s) \<and>
        (\<exists>a. hs_activeRecovery s = Some a \<and> ar_phase a \<in> {marker_uncertain, pinned}))) \<and>
    (\<forall>xs ys. hs_log s = xs @ PairClosed # ys \<longrightarrow> hs_failed s \<and> wire ys = [])"
proof -
  note l = host_after_log [of cache es, folded assms]
  show ?thesis
    using l unfolding log_inv_def concluded_def in_doubt_def phase_in_def by blast
qed

text \<open>
  C22. The canonical frames the delivery scheduler puts on the data socket, through all its pauses, flushes and resumptions, are
  an unbroken run of frames without a gap in event numbers or offsets, as long as no send of theirs has thrown.
\<close>

theorem host_canonical_unbroken:
  assumes "\<not> list_ex is_threw (publisher_log (hs_log (host_after cache es)))"
  shows "\<exists>b c. canonical_run b (concat (map sent_of (publisher_log (hs_log (host_after cache es))))) = Some c"
proof -
  let ?p = "hs_publisher (host_after cache es)"
  note b = host_after_base [of cache es]
  have e: "publisher_log (hs_log (host_after cache es)) = cp_effects ?p" by (rule base_invD(1) [OF b])
  have "publisher_inv ?p" by (rule base_invD(3) [OF b])
  then obtain c where "unbroken c ?p" using assms unfolding e by (auto simp: publisher_inv_def send_threw_def)
  then show ?thesis unfolding e by (auto simp: unbroken_def sent_frames_def)
qed

text \<open>
  C10. The delivery scheduler never stalls. Its two schedulers do not call each other without end. While the pair is ready and has not
  failed, pending requests find a recovery running, a timer armed or a snapshot in flight; a snapshot in flight has
  handlers that have not run yet; and a recovery that runs waits for a promise that is pending or has settled.
\<close>

theorem host_never_stalls:
  assumes "s = host_after cache es"
  shows "\<not> hs_stackOverflow s \<and>
    (\<not> hs_failed s \<and> hs_ready s \<and> rq_pending (hs_queue s) \<noteq> [] \<longrightarrow>
      hs_recoveriesRunning s \<or> hs_recoveryTimer s \<noteq> None \<or> hs_coldBuildInFlight s \<noteq> None) \<and>
    (\<not> hs_failed s \<longrightarrow> (\<forall>i. hs_coldBuildInFlight s = Some i \<longrightarrow>
      i < length (hs_preparations s) \<and> pr_stage (hs_preparations s ! i) \<noteq> PrepHandled)) \<and>
    (hs_recoveriesRunning s \<longrightarrow> wait_woken s (hs_drain s))"
proof -
  have live: "host_live s" unfolding assms by (rule host_after_live)
  note c = host_liveD(3) [OF live] and v = host_liveD(4) [OF live]
  show ?thesis
    using c v host_live_woken [OF live] by (auto simp: calm_def preps_ok_def served_def pendingSize_def)
qed

text \<open>
  When a newer attach or a reset has aborted the recovery, an error of its flush is taken for the abort: the publisher is resumed
  and the pair is not closed, although the frame whose send failed has left the queue.
\<close>

lemma aborted_flush_failure_resumes:
  assumes "hs_activeRecovery s = Some a" "ar_aborted a" "ar_phase a = pre_marker" "\<not> hs_failed s"
  shows "recover_catch env request (FlushFailed SendFailed) s = wait_at RecoverSettled (resumeCanonical env s)"
  using assms by (simp add: recover_catch_def wait_at_def)

section \<open>A delivery\<close>

text \<open>The host activates at cursor 0, sends one frame, and brings a browser from cursor 0 to the frame.\<close>

definition demo_host_journal :: EventJournal where
  "demo_host_journal = (case journal_append example_journal 5 (demo_pty_frame 1 0) of Inl _ \<Rightarrow> example_journal | Inr j \<Rightarrow> j)"

definition demo_host_env :: "unit session \<Rightarrow> unit host_env" where
  "demo_host_env s = \<lparr>he_now = 100, he_session = s, he_sessionEnv = example_env, he_throws = (\<lambda>n. False),
     he_send = (\<lambda>n. DataSent), he_receiptThrows = False, he_controlThrows = False, he_resumePending = NothingPending\<rparr>"

definition demo_env0 :: "unit host_env" where "demo_env0 = demo_host_env example_session"

definition demo_env1 :: "unit host_env" where
  "demo_env1 = demo_host_env (example_session\<lparr>s_journal := demo_host_journal, s_eventSeq := 1, s_nextPtyOffset := 2\<rparr>)"

definition demo_host_attach :: AttachRequest where
  "demo_host_attach = \<lparr>at_connectionId = ''BBBBBBBBBBBBBBBB'', at_streamId = 1, at_deliveryGeneration = ''1'', at_engineId = ''engine'',
     at_liveReplica = Some (''7'', ''0'', ''0'')\<rparr>"

definition demo_host_cursor :: "int \<Rightarrow> int \<Rightarrow> ReplayCursor" where
  "demo_host_cursor n off = \<lparr>jc_lastEventSeq = n, jc_nextPtyOffset = off, rp_sessionEpoch = 7\<rparr>"

definition demo_host_verdict :: DeliveryBarrierResult where
  "demo_host_verdict = BarrierIdentity.extend (delivery_identity demo_host_attach warm_mode (demo_host_cursor 1 2))
     (DeliveryBarrierResult.fields barrier_ready None)"

definition demo_host_delivery :: "(unit host_env \<times> host_event) list" where
  "demo_host_delivery = [(demo_env0, PrepareHostReady True), (demo_env0, ActivateHostReady (demo_host_cursor 0 0)),
     (demo_env0, CanonicalFrame (demo_pty_frame 1 0)), (demo_env1, PumpPromiseSettles), (demo_env1, EnqueueAttach demo_host_attach),
     (demo_env1, RecoveryContinues), (demo_env1, RecoveryContinues), (demo_env1, ReceiptSettles 0 True),
     (demo_env1, HandleBarrierResult demo_host_verdict), (demo_env1, RecoveryContinues), (demo_env1, RecoveryContinues)]"

definition demo_checkpoints :: checkpoint_cache where
  "demo_checkpoints = \<lparr>kc_ttlMs = 30000, kc_cached = None, kc_nextRef = 0\<rparr>"

definition demo_scheduler :: host_scheduler where "demo_scheduler = host_after demo_checkpoints demo_host_delivery"

definition demo_directed :: bytes where
  "demo_directed = write_data_frame \<lparr>df_kind = PtyOutput, df_flags = 0, df_sessionEpoch = 7, df_deliveryGeneration = 1,
     df_eventSeq = 1, df_ptyOffset = 0, df_streamId = 1, df_payload = [65, 66]\<rparr>"

definition demo_commit_frame :: bytes where
  "demo_commit_frame = write_data_frame \<lparr>df_kind = ReplayCommit, df_flags = 0, df_sessionEpoch = 7, df_deliveryGeneration = 1,
     df_eventSeq = 1, df_ptyOffset = 2, df_streamId = 1, df_payload = []\<rparr>"

definition demo_host_marker :: bytes where
  "demo_host_marker = (case encode_marker 7 (delivery_identity demo_host_attach warm_mode (demo_host_cursor 1 2)) of Inl _ \<Rightarrow> [] | Inr m \<Rightarrow> m)"

lemma demo_scheduler_log: "hs_log demo_scheduler =
   [FromPublisher Ingress, FromPublisher (SendData (demo_pty_frame 1 0)), FromBarrier (MarkerHanded 0 demo_host_marker),
    FromBarrier (MarkerSentCallback 0), FromBarrier (BarrierResolved 0 (delivery_identity demo_host_attach warm_mode (demo_host_cursor 1 2)) demo_host_verdict),
    DirectedSent demo_directed, CommitSent demo_commit_frame]"
  by code_simp

lemma demo_scheduler_state: "\<not> hs_failed demo_scheduler" "hs_recoveriesRunning demo_scheduler" "hs_ready demo_scheduler"
  by code_simp+


theorem host_markers_conclude_witness:
  "\<exists>xs b r ys. hs_log demo_scheduler = xs @ FromBarrier (BarrierResolved 0 b r) # ys \<and>
     (br_status r \<noteq> barrier_ready \<or> (\<exists>bs. CommitSent bs \<in> set ys)) \<or>
   (\<exists>a. hs_activeRecovery demo_scheduler = Some a \<and> ar_phase a \<in> {marker_uncertain, pinned})"
proof -
  have "FromBarrier (MarkerSentCallback 0) \<in> set (hs_log demo_scheduler)" by (simp add: demo_scheduler_log)
  with host_markers_conclude [OF demo_scheduler_def] demo_scheduler_state(1) show ?thesis by blast
qed

theorem host_canonical_unbroken_witness:
  "\<exists>b c. canonical_run b [demo_pty_frame 1 0] = Some c"
proof -
  have "\<not> list_ex is_threw (publisher_log (hs_log (host_after demo_checkpoints demo_host_delivery)))"
    unfolding demo_scheduler_def [symmetric] demo_scheduler_log by simp
  from host_canonical_unbroken [OF this] show ?thesis
    unfolding demo_scheduler_def [symmetric] demo_scheduler_log by simp
qed

theorem host_never_stalls_witness: "\<not> hs_stackOverflow demo_scheduler \<and> wait_woken demo_scheduler (hs_drain demo_scheduler)"
  using host_never_stalls [OF demo_scheduler_def] demo_scheduler_state(2) by blast

end
