(* ===== verification/Spec2Isabelle.thy ===== *)
theory Spec2Isabelle
  imports Data_Frame Data_Batch Replica_Cursor Relay_Delivery Journal Session_Examples Input_Authority
    Intent_Ledger_Props Session_Coordinator_Safety Recovery_Queue Zstd_Frame
    Writer_Authority Keyed_Queue_Props Canonical_Publisher_Props Barrier_Waiter
    Relay_Delivery_Props Input_Dispatcher_Props Ack_Coalescer Delivery_Scheduler_Props
begin

text \<open>
  A verification development for zhongduan, a browser terminal whose shell runs on a host daemon and is relayed
  through a cloud worker. Sources are named relative to \<open>src/\<close>.

  The program. A host daemon (\<open>apps/host-daemon\<close>) runs a shell in a PTY, mirrors it in a terminal engine and writes what
  happens to the terminal as a sequence of data frames (\<open>packages/protocol\<close>): PTY output and resizes, each with an event
  number and a byte offset. It keeps the recent frames in a journal. A cloud worker (\<open>apps/terminal-cloud/src/worker\<close>)
  relays frames to browsers under a per-browser delivery generation, with a credit on the bytes not yet acknowledged.
  A browser client (\<open>packages/session-client\<close>, \<open>apps/terminal-cloud/src/browser\<close>) rebuilds the terminal in a replica from a
  snapshot or a warm replay, then follows live. Input goes the other way: the browser gives every intent an identity under a
  writer fence, the relay holds the one writer lease, and the session applies each identity at most once.

  The theories, from the wire up:
  \<^item> \<open>Prelude\<close>: results with errors (\<open>Inl\<close>) and the state-and-error monad the session is written in, little-endian
    fields, buffers, insertion-ordered maps for the JavaScript \<open>Map\<close>, and the shared contracts as locales: a canonical codec
    (\<open>wire_codec\<close>), a self-delimiting one (\<open>framed_codec\<close>), an invariant machine (\<open>inv_machine\<close>), one with a fence that
    never falls (\<open>fenced_machine\<close>) and one that refines a specification without failing (\<open>refined_machine\<close>). They are interpreted
    on the data-frame and resize codecs, on the journal, on the input authority, the session coordinator and the writer lease,
    on the two relay queues, the canonical publisher, the barrier waiter and the delivery scheduler.
  \<^item> \<open>Scalars\<close>, \<open>Data_Frame\<close>, \<open>Data_Batch\<close>: \<open>scalars.ts\<close> and \<open>data-frame.ts\<close>. Encoding, decoding, batches, the delivery rewrite
    and the resize payload, on byte lists. Lemmas: each codec is lossless and canonical.
  \<^item> \<open>Replica_Cursor\<close>, \<open>Relay_Delivery\<close>: \<open>replica-cursor.ts\<close>, \<open>delivery-credit.ts\<close>, \<open>worker/relay-delivery.ts\<close>. The cursor a replica
    advances and the one the relay records; a batch the relay accepts is accepted by the replica, within the credit.
  \<^item> \<open>Journal\<close>: \<open>host-daemon/src/journal.ts\<close>. Segments, sealing, pruning and replay, refined against the list of every frame
    ever accepted: a replay is exactly a range of that list.
  \<^item> \<open>Session\<close> with \<open>Session_Props\<close>, \<open>Session_Lockstep\<close>, \<open>Session_Safety\<close>, \<open>Session_Examples\<close>: \<open>host-daemon/src/session.ts\<close>, the
    actor with its queue. The terminal engine and the PTY are the parameters of \<open>session_env\<close>; what they may emit from
    within a call is part of the parameter. At-most-once input, the lock step of actor and journal, failing closed, return.
  \<^item> \<open>Input_Authority\<close>, \<open>Intent_Ledger\<close>, \<open>Intent_Ledger_Props\<close>: \<open>browser/input-authority.ts\<close> and \<open>browser/input-intent-ledger.ts\<close>. The self-checks
    of the code never fail, results are final, limits hold.
  \<^item> \<open>Input_Codec\<close>, \<open>Input_Dispatcher\<close> with \<open>Triples\<close>, \<open>Input_Dispatcher_Core\<close>, \<open>Input_Dispatcher_Turns\<close>, \<open>Input_Dispatcher_Admission\<close>,
    \<open>Input_Dispatcher_Calls\<close>, \<open>Input_Dispatcher_Drain\<close>, \<open>Input_Dispatcher_Props\<close>: \<open>browser/input-codec.ts\<close> with the input frames of
    \<open>control-frame.ts\<close>, and \<open>browser/input-dispatcher.ts\<close>, the owner of every intent over the ledger and the authority. Every call is a
    transaction, microtasks and the timer are events, and a sender may call back while it is on the stack. The locale
    \<open>send_scheduler\<close> is what admission asks of \<open>scheduleSend\<close>; it holds for the scheduler of an idle dispatcher and, within a drain, for
    the one that does nothing. The invariant is carried through total triples. The dispatcher never fails, sends no identity
    twice, reports one result per input and forgets none.
  \<^item> \<open>Session_Coordinator\<close>, \<open>Session_Coordinator_Props\<close>, \<open>Session_Coordinator_Safety\<close>: \<open>session-client/src/session-coordinator.ts\<close>. One event per
    public operation and per continuation after an \<open>await\<close>; the replica engine is the parameter \<open>replica_env\<close>. What a replica has
    been given is exactly an unbroken run of frames; live means caught up with the pinned commit.
  \<^item> \<open>Recovery_Queue\<close>: \<open>host-daemon/src/cloud/delivery-recovery-queue.ts\<close>. Keys are the strings the code builds and cuts.
  \<^item> \<open>Canonical_Publisher\<close>, \<open>Canonical_Publisher_Props\<close>: \<open>host-daemon/src/cloud/canonical-publisher.ts\<close>. The pump and the flush are cut
    where they wait; what is sent is an unbroken run and the pump never stalls.
  \<^item> \<open>Barrier_Waiter\<close>: \<open>host-daemon/src/cloud/delivery-barrier-waiter.ts\<close> and the encoder of \<open>delivery-barrier.ts\<close>, its JSON written out.
  \<^item> \<open>Checkpoint_Cache\<close>, \<open>Delivery_Scheduler\<close>, \<open>Delivery_Recovery\<close>: \<open>host-daemon/src/cloud/snapshot-checkpoint-cache.ts\<close> and
    \<open>host-daemon/src/cloud/delivery-scheduler.ts\<close>, which puts the publisher, the waiter and the recovery queue together. The one recovery
    that runs is cut at its awaits; where it waits is a value of \<open>RecoveryPoint\<close>. Everything else that can happen is an event:
    calls, frames, the pump, receipts, timers, snapshot promises. What a run reads from outside is a \<open>host_env\<close>.
  \<^item> \<open>Delivery_Publisher\<close>, \<open>Delivery_Core\<close>, \<open>Delivery_Steps\<close>, \<open>Delivery_Moves\<close>, \<open>Delivery_Runs\<close>, \<open>Delivery_Verdicts\<close>, \<open>Delivery_Passes\<close>,
    \<open>Delivery_Events\<close>: its invariant. \<open>Delivery_Core\<close> says what is on the data socket and what the recovery has established at each
    point where it waits; the steps and moves are shared by the runs of the recovery, from one wait to the next, and by the events.
  \<^item> \<open>Delivery_Calm\<close>, \<open>Delivery_Stalls\<close>, \<open>Delivery_Live\<close>, \<open>Delivery_Machine\<close>, \<open>Delivery_Scheduler_Props\<close>: that it never stalls, and its
    properties: a commit follows its marker and the whole replay, no marker stays in doubt, the canonical frames are an unbroken run.
  \<^item> \<open>Ack_Coalescer\<close>: \<open>browser/delivery-ack-coalescer.ts\<close>. Acknowledgements rise, and what is held back stays small.
  \<^item> \<open>Zstd_Frame\<close>: \<open>session-client/src/zstd-frame.ts\<close>. The envelope check against a grammar of single-frame zstd; the bounded
    collection of the decoder's chunks, the decoder being a parameter.
  \<^item> \<open>Relay_Sockets\<close>, \<open>Writer_Authority\<close>: \<open>worker/relay-socket.ts\<close>, \<open>worker/relay-connection-state.ts\<close>, the lookups of
    \<open>worker/relay-socket-runtime.ts\<close>, and \<open>worker/writer-authority.ts\<close>. Sockets are an ordered map from references; the lease row
    is an option; an operation with an \<open>await\<close> is two definitions.
  \<^item> \<open>Relay_Frames\<close>, \<open>Relay_State\<close>, \<open>Relay_State_Props\<close>: the decoded control frames with the schemas checked before a send
    (\<open>control-frame.ts\<close>, \<open>snapshot.ts\<close>), and the state of the relay's Durable Object: the rows of \<open>worker/relay-store.ts\<close> as lists, the
    operations of \<open>worker/relay-connection-store.ts\<close> as transactions. Stream numbers name one client for ever, fences rise, a control
    ticket admits once, eviction spares whoever is connected.
  \<^item> \<open>Relay_Runtime\<close>, \<open>Browser_Delivery\<close>, \<open>Delivery_Barriers\<close>, \<open>Host_Data_Batch\<close>, \<open>Host_Relay\<close>, \<open>Browser_Relay\<close>,
    \<open>Relay_Lifecycle\<close>, \<open>Relay_Object\<close>: the senders of \<open>worker/relay-socket-runtime.ts\<close>, one theory per controller, and the Durable
    Object of \<open>worker/terminal-session-do.ts\<close> as one step relation over their handlers. A handler is a state-and-error computation,
    cut where the code awaits; whether a send throws, the snapshot store and the barrier decoder are the parameter \<open>relay_env\<close>.
  \<^item> \<open>Relay_Quiet\<close>, \<open>Relay_Cursors\<close>, \<open>Relay_Deliveries\<close>, \<open>Relay_Delivery_Props\<close>: the invariant of every browser's data socket over
    all handlers of the Durable Object. Quiet handlers leave the sockets alone, attaching, pinning, acknowledging and delivering keep
    the cursors ordered, and what was sent on a socket is an unbroken run of its own delivery that the replica accepts. A history that
    connects a host and a browser and delivers to it is run through the whole model.
  \<^item> \<open>Relay_Queue\<close>, \<open>Relay_Queue_Props\<close>, \<open>Keyed_Queue_Props\<close>: \<open>worker/relay-message-queue.ts\<close>. The serial queue refines a list; the
    keyed queue returns from every operation, settles every task once and never idles.

  Recursion and bounds. Loops are structural recursion or \<open>function\<close> with a measure. \<open>drainQueue\<close> of the session takes fuel, and
  \<open>session_op_returns\<close> shows that there is fuel enough when the engine and the PTY are quiet. \<open>pump\<close> and \<open>makeGlobalRoom\<close> of the keyed queue are
  partial functions; \<open>keyed_queue_works\<close> shows that they return in every reachable state. \<open>pass_loop\<close> of the recovery queue is bounded
  by the length of the rotation, as the code is. The drain of the input dispatcher takes fuel: between two calls of a scripted sender
  the queue only shrinks and it holds at most 256 intents, so that \<open>drain_fuel\<close> is enough, which \<open>dispatcher_never_fails\<close> shows. The two schedulers of the host's
  recoveries call each other; \<open>call_depth\<close> is the depth the code reaches, and \<open>host_never_stalls\<close> shows that it is enough. Integers that JavaScript holds as \<open>number\<close> or \<open>bigint\<close> are \<open>int\<close> with the code's
  range checks written out; bytes are 8-bit words.

  Not modelled. Declarative zod schemas beyond the fields the components use, the object store of snapshots, HTTP routing, WebSocket
  plumbing, the upload of snapshots, process and DOM adapters: they hold no state the modelled parts depend on. Timers and promises
  are events. A task of a queue, a subscriber of the session, a listener of the coordinator and a result or status observer of the input
  dispatcher do not re-enter the component.
\<close>

end
